(* ===== verification/Prelude.thy ===== *)
theory Prelude
  imports Main "HOL-Library.AList" "HOL-Library.Char_ord" "HOL-Library.List_Lexorder"
begin

text \<open>
  Shared vocabulary of the development: Rust text operations on byte strings, decimal
  rendering and parsing, wrapping 64-bit addition, hash maps as association lists, and
  the interfaces several components state their contracts with.

  A Rust \<open>str\<close> is a \<open>string\<close> here, one \<open>char\<close> per UTF-8 byte. A \<open>u64\<close> or \<open>usize\<close> is
  a \<open>nat\<close>; where the code adds without a check, \<open>u64_add\<close> writes the wrap-around of the
  release profile out. A \<open>HashMap\<close> is an association list with distinct keys: its list
  order is the (arbitrary) iteration order, and every theorem holds for all of them.
\<close>

named_theorems text_simps \<open>evaluation of the text operations\<close>
named_theorems wf_intros \<open>operations keep a component's well-formedness\<close>

section \<open>Text\<close>

definition is_digit :: "char \<Rightarrow> bool" where
  "is_digit c \<longleftrightarrow> CHR ''0'' \<le> c \<and> c \<le> CHR ''9''"

definition is_alpha :: "char \<Rightarrow> bool" where
  "is_alpha c \<longleftrightarrow> (CHR ''A'' \<le> c \<and> c \<le> CHR ''Z'') \<or> (CHR ''a'' \<le> c \<and> c \<le> CHR ''z'')"

definition is_alnum :: "char \<Rightarrow> bool" where
  "is_alnum c \<longleftrightarrow> is_alpha c \<or> is_digit c"

definition is_space :: "char \<Rightarrow> bool" where
  "is_space c \<longleftrightarrow> c = CHR '' '' \<or> (CHR 0x09 \<le> c \<and> c \<le> CHR 0x0D)"

fun split_on :: "char \<Rightarrow> string \<Rightarrow> string list" where
  "split_on d [] = [[]]"
| "split_on d (c # cs) =
     (if c = d then [] # split_on d cs
      else (case split_on d cs of [] \<Rightarrow> [[c]] | w # ws \<Rightarrow> (c # w) # ws))"

fun join_with :: "string \<Rightarrow> string list \<Rightarrow> string" where
  "join_with sep [] = []"
| "join_with sep [w] = w"
| "join_with sep (w # v # ws) = w @ sep @ join_with sep (v # ws)"

fun split_once :: "char \<Rightarrow> string \<Rightarrow> (string \<times> string) option" where
  "split_once d [] = None"
| "split_once d (c # cs) =
     (if c = d then Some ([], cs)
      else map_option (\<lambda>(a, b). (c # a, b)) (split_once d cs))"

definition starts_with :: "string \<Rightarrow> string \<Rightarrow> bool" where
  "starts_with s p \<longleftrightarrow> take (length p) s = p"

definition strip_prefix :: "string \<Rightarrow> string \<Rightarrow> string option" where
  "strip_prefix s p = (if starts_with s p then Some (drop (length p) s) else None)"

definition trim :: "string \<Rightarrow> string" where
  "trim s = rev (dropWhile is_space (rev (dropWhile is_space s)))"

lemma split_on_nonempty [simp]: "split_on d s \<noteq> []"
  by (induction s) (auto split: list.split)

lemma join_split: "join_with [d] (split_on d s) = s"
proof (induction s)
  case (Cons c cs)
  then show ?case by (cases "split_on d cs" rule: remdups_adj.cases) auto
qed simp

lemma split_on_no_sep: "d \<notin> set s \<Longrightarrow> split_on d s = [s]"
  by (induction s) auto

lemma split_on_elements: "\<forall>w \<in> set (split_on d s). d \<notin> set w \<and> set w \<subseteq> set s"
proof (induction s)
  case (Cons c cs)
  obtain w ws where "split_on d cs = w # ws" by (cases "split_on d cs") auto
  with Cons.IH show ?case by auto
qed simp

lemma split_on_append: "d \<notin> set w \<Longrightarrow> split_on d (w @ d # s) = w # split_on d s"
  by (induction w) auto

lemma split_on_app: "split_on d (a @ d # b) = split_on d a @ split_on d b"
proof (induction a)
  case (Cons c cs)
  then show ?case by (cases "split_on d cs") auto
qed simp

lemma join_app:
  "us \<noteq> [] \<Longrightarrow> vs \<noteq> [] \<Longrightarrow> join_with sep (us @ vs) = join_with sep us @ sep @ join_with sep vs"
proof (induction us rule: induct_list012)
  case (2 w)
  then show ?case by (cases vs) auto
qed simp_all

lemma split_join:
  "ws \<noteq> [] \<Longrightarrow> \<forall>w \<in> set ws. d \<notin> set w \<Longrightarrow> split_on d (join_with [d] ws) = ws"
proof (induction ws rule: induct_list012)
  case (3 w v ws)
  then show ?case using split_on_append [of d w "join_with [d] (v # ws)"] by simp
qed (simp_all add: split_on_no_sep)

lemma split_once_append: "d \<notin> set a \<Longrightarrow> split_once d (a @ d # b) = Some (a, b)"
  by (induction a) auto

lemma dropWhile_hd: "s = [] \<or> \<not> p (hd s) \<Longrightarrow> dropWhile p s = s"
  by (cases s) auto

lemma trim_id:
  "s = [] \<or> (\<not> is_space (hd s) \<and> \<not> is_space (last s)) \<Longrightarrow> trim s = s"
  using dropWhile_hd [of s is_space] dropWhile_hd [of "rev s" is_space]
  by (auto simp: trim_def hd_rev)

lemma trim_id_set: "\<forall>c \<in> set s. \<not> is_space c \<Longrightarrow> trim s = s"
  by (rule trim_id) (cases "s = []"; auto)

lemma starts_with_append [simp]: "starts_with (p @ s) p"
  by (simp add: starts_with_def)

lemma starts_with_iff: "starts_with s p \<longleftrightarrow> (\<exists>t. s = p @ t)"
  by (metis append_eq_conv_conj starts_with_def append_take_drop_id)

section \<open>Chunks of a sequence\<close>

text \<open>\<open>slice::chunks\<close>: consecutive pieces of \<open>n\<close> elements, the last one possibly shorter.\<close>

function chunks :: "nat \<Rightarrow> 'a list \<Rightarrow> 'a list list" where
  "chunks n xs = (if n = 0 \<or> xs = [] then [] else take n xs # chunks n (drop n xs))"
  by pat_completeness auto
termination
  by (relation "measure (\<lambda>(n, xs). length xs)") auto

declare chunks.simps [simp del]

lemma chunks_Nil [simp]: "chunks n [] = []"
  by (simp add: chunks.simps)

lemma chunks_Cons:
  "0 < n \<Longrightarrow> xs \<noteq> [] \<Longrightarrow> chunks n xs = take n xs # chunks n (drop n xs)"
  by (subst chunks.simps) simp

lemma concat_chunks: "0 < n \<Longrightarrow> concat (chunks n xs) = xs"
  by (induction n xs rule: chunks.induct) (subst chunks.simps, auto)

lemma chunks_lengths: "ys \<in> set (chunks n xs) \<Longrightarrow> ys \<noteq> [] \<and> length ys \<le> n"
proof (induction n xs rule: chunks.induct)
  case (1 n xs)
  then show ?case by (subst (asm) (2) chunks.simps) (auto split: if_splits)
qed

lemma chunks_concat:
  "0 < n \<Longrightarrow> \<forall>ys \<in> set yss. length ys = n \<Longrightarrow> chunks n (concat yss) = yss"
proof (induction yss)
  case (Cons ys yss)
  then have "ys \<noteq> []" by auto
  with Cons show ?case by (simp add: chunks_Cons)
qed simp

section \<open>Decimal numbers\<close>

definition digit_char :: "nat \<Rightarrow> char" where
  "digit_char n = char_of (48 + n)"

definition digit_value :: "char \<Rightarrow> nat" where
  "digit_value c = of_char c - 48"

fun show_nat :: "nat \<Rightarrow> string" where
  "show_nat n =
     (if n < 10 then [digit_char n] else show_nat (n div 10) @ [digit_char (n mod 10)])"

declare show_nat.simps [simp del]

definition parse_digits :: "string \<Rightarrow> nat option" where
  "parse_digits s =
     (if s \<noteq> [] \<and> list_all is_digit s
      then Some (foldl (\<lambda>a c. 10 * a + digit_value c) 0 s) else None)"

text \<open>\<open>u64::from_str\<close>: an optional plus sign, then digits, below two to the 64.\<close>

definition parse_u64 :: "string \<Rightarrow> nat option" where
  "parse_u64 s =
     (case parse_digits (if starts_with s ''+'' then tl s else s) of
        Some n \<Rightarrow> (if n < 2 ^ 64 then Some n else None)
      | None \<Rightarrow> None)"

definition u64_add :: "nat \<Rightarrow> nat \<Rightarrow> nat" where
  "u64_add a b = (a + b) mod 2 ^ 64"

lemma u64_add_small [simp]: "a + b < 2 ^ 64 \<Longrightarrow> u64_add a b = a + b"
  by (simp add: u64_add_def)

lemma char_le_iff: "(c :: char) \<le> d \<longleftrightarrow> (of_char c :: nat) \<le> of_char d"
  by (simp add: less_eq_char_def)

lemma is_digit_iff: "is_digit c \<longleftrightarrow> 48 \<le> (of_char c :: nat) \<and> (of_char c :: nat) \<le> 57"
  by (simp add: is_digit_def char_le_iff)

lemma digit_char_props:
  assumes "n < 10"
  shows "is_digit (digit_char n)" and "digit_value (digit_char n) = n"
proof -
  have "(of_char (char_of (48 + n) :: char) :: nat) = 48 + n"
    using assms by (simp add: of_char_of)
  with assms show "is_digit (digit_char n)" "digit_value (digit_char n) = n"
    by (simp_all add: is_digit_iff digit_char_def digit_value_def)
qed

lemma show_nat_nonempty [simp]: "show_nat n \<noteq> []"
  by (subst show_nat.simps) simp

lemma show_nat_digits: "list_all is_digit (show_nat n)"
proof (induction n rule: show_nat.induct)
  case (1 n)
  then show ?case by (subst show_nat.simps) (simp add: digit_char_props)
qed

lemma parse_show [simp]: "parse_digits (show_nat n) = Some n"
proof -
  have "foldl (\<lambda>a c. 10 * a + digit_value c) 0 (show_nat n) = n"
  proof (induction n rule: show_nat.induct)
    case (1 n)
    then show ?case by (subst show_nat.simps) (simp add: digit_char_props)
  qed
  then show ?thesis by (simp add: parse_digits_def show_nat_digits)
qed

lemma show_nat_inject [simp]: "show_nat m = show_nat n \<longleftrightarrow> m = n"
  by (metis option.inject parse_show)

lemma digit_not [simp]:
  "is_digit c \<Longrightarrow> c \<noteq> CHR ''.''" "is_digit c \<Longrightarrow> c \<noteq> CHR '':''"
  "is_digit c \<Longrightarrow> c \<noteq> CHR ''+''" "is_digit c \<Longrightarrow> c \<noteq> CHR '',''"
  "is_digit c \<Longrightarrow> c \<noteq> CHR ''=''" "is_digit c \<Longrightarrow> c \<noteq> CHR ''-''"
  "is_digit c \<Longrightarrow> \<not> is_space c"
  by (auto simp: is_digit_iff is_space_def char_le_iff)

lemma show_nat_chars: "c \<in> set (show_nat n) \<Longrightarrow> is_digit c"
  using show_nat_digits [of n] by (simp add: list_all_iff)

lemma parse_u64_bound: "parse_u64 s = Some n \<Longrightarrow> n < 2 ^ 64"
  by (auto simp: parse_u64_def split: option.splits if_splits)

lemma parse_u64_show: "n < 2 ^ 64 \<Longrightarrow> parse_u64 (show_nat n) = Some n"
proof -
  assume n: "n < 2 ^ 64"
  have "hd (show_nat n) \<noteq> CHR ''+''"
    by (metis digit_not(3) hd_in_set show_nat_chars show_nat_nonempty)
  then have "\<not> starts_with (show_nat n) ''+''"
    by (cases "show_nat n") (auto simp: starts_with_def)
  with n show ?thesis by (simp add: parse_u64_def)
qed

section \<open>Hash maps\<close>

type_synonym ('k, 'v) hashmap = "('k \<times> 'v) list"

abbreviation hget :: "('k, 'v) hashmap \<Rightarrow> 'k \<Rightarrow> 'v option" where
  "hget m k \<equiv> map_of m k"

abbreviation hput :: "'k \<Rightarrow> 'v \<Rightarrow> ('k, 'v) hashmap \<Rightarrow> ('k, 'v) hashmap" where
  "hput k v m \<equiv> AList.update k v m"

abbreviation hdel :: "'k \<Rightarrow> ('k, 'v) hashmap \<Rightarrow> ('k, 'v) hashmap" where
  "hdel k m \<equiv> AList.delete k m"

abbreviation hkeys :: "('k, 'v) hashmap \<Rightarrow> 'k list" where
  "hkeys m \<equiv> map fst m"

definition hmap_ok :: "('k, 'v) hashmap \<Rightarrow> bool" where
  "hmap_ok m \<longleftrightarrow> distinct (hkeys m)"

text \<open>
  The interface every keyed component relies on: a table with lookup, insertion and
  removal. \<open>claim\<close> is insertion that never replaces.
\<close>

locale keyed_table =
  fixes get :: "'t \<Rightarrow> 'k \<Rightarrow> 'v option"
    and put :: "'k \<Rightarrow> 'v \<Rightarrow> 't \<Rightarrow> 't"
    and del :: "'k \<Rightarrow> 't \<Rightarrow> 't"
    and ok :: "'t \<Rightarrow> bool"
  assumes get_put: "get (put k v t) = (get t)(k \<mapsto> v)"
    and get_del: "get (del k t) = (get t)(k := None)"
    and ok_put: "ok t \<Longrightarrow> ok (put k v t)"
    and ok_del: "ok t \<Longrightarrow> ok (del k t)"
begin

definition claim :: "'k \<Rightarrow> 'v \<Rightarrow> 't \<Rightarrow> 't" where
  "claim k v t = (case get t k of None \<Rightarrow> put k v t | Some _ \<Rightarrow> t)"

lemma get_put_same: "get (put k v t) k = Some v"
  by (simp add: get_put)

lemma get_put_other: "j \<noteq> k \<Longrightarrow> get (put k v t) j = get t j"
  by (simp add: get_put)

lemma get_del_same: "get (del k t) k = None"
  by (simp add: get_del)

lemma get_del_other: "j \<noteq> k \<Longrightarrow> get (del k t) j = get t j"
  by (simp add: get_del)

lemma claim_owner: "get (claim k v t) k = Some (case get t k of None \<Rightarrow> v | Some w \<Rightarrow> w)"
  by (simp add: claim_def get_put split: option.split)

lemma claim_keeps: "get t j = Some w \<Longrightarrow> get (claim k v t) j = Some w"
  by (auto simp: claim_def get_put split: option.split)

lemma ok_claim: "ok t \<Longrightarrow> ok (claim k v t)"
  by (simp add: claim_def ok_put split: option.split)

lemma get_del_fold: "get (fold del ks t) k = (if k \<in> set ks then None else get t k)"
  by (induction ks arbitrary: t) (auto simp: get_del)

lemma ok_del_fold: "ok t \<Longrightarrow> ok (fold del ks t)"
  by (induction ks arbitrary: t) (auto simp: ok_del)

end

interpretation hm: keyed_table hget hput hdel hmap_ok
proof
  fix t :: "('a, 'b) hashmap" and k v
  show "hget (hput k v t) = (hget t)(k \<mapsto> v)" by (rule update_conv')
  show "hget (hdel k t) = (hget t)(k := None)" by (rule delete_conv')
  show "hmap_ok t \<Longrightarrow> hmap_ok (hput k v t)" by (simp add: hmap_ok_def distinct_update)
  show "hmap_ok t \<Longrightarrow> hmap_ok (hdel k t)" by (simp add: hmap_ok_def distinct_delete)
qed

lemma hget_iff: "hmap_ok m \<Longrightarrow> hget m k = Some v \<longleftrightarrow> (k, v) \<in> set m"
  by (simp add: hmap_ok_def)

lemma hmap_ok_Nil [simp]: "hmap_ok []"
  by (simp add: hmap_ok_def)

lemma hget_None_iff: "hget m k = None \<longleftrightarrow> k \<notin> set (hkeys m)"
  by (simp add: map_of_eq_None_iff)

lemma hkeys_iff: "k \<in> set (hkeys m) \<longleftrightarrow> hget m k \<noteq> None"
  by (simp add: hget_None_iff)

section \<open>Transition systems\<close>

text \<open>
  The interface of every component that is driven by a sequence of operations: a total
  step function and a well-formedness predicate every step keeps. Runs keep it too.
\<close>

locale stepped =
  fixes step :: "'op \<Rightarrow> 's \<Rightarrow> 's" and inv :: "'s \<Rightarrow> bool"
  assumes inv_step: "inv s \<Longrightarrow> inv (step x s)"
begin

lemma inv_run: "inv s \<Longrightarrow> inv (fold step xs s)"
  by (induction xs arbitrary: s) (auto simp: inv_step)

lemma run_prefix_inv: "inv s \<Longrightarrow> inv (fold step (take n xs) s)"
  by (rule inv_run)

lemma run_monotone:
  assumes mono: "\<And>s x. inv s \<Longrightarrow> f s \<le> (f (step x s) :: nat)" and "inv s"
  shows "f s \<le> f (fold step xs s)"
  using \<open>inv s\<close>
proof (induction xs arbitrary: s)
  case (Cons x xs)
  have "f s \<le> f (step x s)" using mono Cons.prems by blast
  also have "\<dots> \<le> f (fold step xs (step x s))" using Cons inv_step by blast
  finally show ?case by simp
qed simp

end

end
