(* ===== verification/Errors.thy ===== *)
theory Errors
  imports Prelude
begin

text \<open>
  The address newtypes of \<open>name.rs\<close> (as data: their grammars are in the theory Names) and
  the crate error of \<open>error.rs\<close> with its wire name, its wire message and the redaction of
  values out of it. A Rust \<open>Result<T>\<close> is \<open>'a result\<close>: \<open>Inl\<close> the error, \<open>Inr\<close> the value.
  \<open>Io\<close> and \<open>Json\<close> carry the text of the foreign error they wrap.
\<close>

datatype bus_name = BusName (bus_str: string)
datatype object_path = ObjectPath (path_str: string)
datatype interface_name = InterfaceName (iface_str: string)
datatype member_name = MemberName (member_str: string)

text \<open>The derived \<open>Ord\<close> of the newtypes is the byte order of their text.\<close>

instantiation bus_name :: linorder
begin

definition less_eq_bus_name :: "bus_name \<Rightarrow> bus_name \<Rightarrow> bool" where
  "less_eq_bus_name a b \<longleftrightarrow> bus_str a \<le> bus_str b"

definition less_bus_name :: "bus_name \<Rightarrow> bus_name \<Rightarrow> bool" where
  "less_bus_name a b \<longleftrightarrow> bus_str a < bus_str b"

instance
  by standard (auto simp: less_eq_bus_name_def less_bus_name_def bus_name.expand)

end

instantiation object_path :: linorder
begin

definition less_eq_object_path :: "object_path \<Rightarrow> object_path \<Rightarrow> bool" where
  "less_eq_object_path a b \<longleftrightarrow> path_str a \<le> path_str b"

definition less_object_path :: "object_path \<Rightarrow> object_path \<Rightarrow> bool" where
  "less_object_path a b \<longleftrightarrow> path_str a < path_str b"

instance
  by standard (auto simp: less_eq_object_path_def less_object_path_def object_path.expand)

end

datatype error =
    InvalidName (kind_of_name: string) (name_input: string) (name_reason: string)
  | Protocol string
  | Transport string
  | ConnectionClosed
  | Backpressure
  | NameHasNoOwner bus_name
  | NotAttested bus_name string
  | ConfidentialityRequired interface_name member_name
  | NameTaken bus_name bus_name
  | UnknownObject object_path
  | UnknownInterface object_path interface_name
  | UnknownMethod interface_name member_name
  | InvalidDomain string string
  | BadArguments member_name string
  | IncompatibleVersion string string string
  | MethodFailed string string
  | Timeout member_name nat
  | PathError string string
  | FeatureDisabled string string
  | ModuleRefused string string
  | ModuleUnavailable string string string
  | UnknownStream string
  | StreamAborted string
  | StreamTooLarge nat
  | TooManyStreams nat
  | Io string
  | Json string

type_synonym 'a result = "error + 'a"

section \<open>Wire names\<close>

definition error_prefix :: string where
  "error_prefix = ''ai.tinyhumans.tinybus.Error.''"

definition UNKNOWN_METHOD :: string where
  "UNKNOWN_METHOD = error_prefix @ ''UnknownMethod''"
definition FAILED :: string where
  "FAILED = error_prefix @ ''Failed''"
definition NOT_ATTESTED :: string where
  "NOT_ATTESTED = error_prefix @ ''NotAttested''"
definition CONFIDENTIALITY_REQUIRED :: string where
  "CONFIDENTIALITY_REQUIRED = error_prefix @ ''ConfidentialityRequired''"
definition MODULE_UNAVAILABLE :: string where
  "MODULE_UNAVAILABLE = error_prefix @ ''ModuleUnavailable''"

fun wire_name :: "error \<Rightarrow> string" where
  "wire_name (InvalidName _ _ _) = error_prefix @ ''InvalidName''"
| "wire_name (Protocol _) = error_prefix @ ''Protocol''"
| "wire_name (Transport _) = error_prefix @ ''Transport''"
| "wire_name (Io _) = error_prefix @ ''Transport''"
| "wire_name ConnectionClosed = error_prefix @ ''ConnectionClosed''"
| "wire_name Backpressure = error_prefix @ ''Backpressure''"
| "wire_name (NameHasNoOwner _) = error_prefix @ ''NameHasNoOwner''"
| "wire_name (NotAttested _ _) = NOT_ATTESTED"
| "wire_name (ConfidentialityRequired _ _) = CONFIDENTIALITY_REQUIRED"
| "wire_name (NameTaken _ _) = error_prefix @ ''NameTaken''"
| "wire_name (UnknownObject _) = error_prefix @ ''UnknownObject''"
| "wire_name (UnknownInterface _ _) = error_prefix @ ''UnknownInterface''"
| "wire_name (UnknownMethod _ _) = UNKNOWN_METHOD"
| "wire_name (BadArguments _ _) = error_prefix @ ''BadArguments''"
| "wire_name (InvalidDomain _ _) = error_prefix @ ''InvalidDomain''"
| "wire_name (Timeout _ _) = error_prefix @ ''Timeout''"
| "wire_name (IncompatibleVersion _ _ _) = error_prefix @ ''IncompatibleVersion''"
| "wire_name (ModuleRefused _ _) = error_prefix @ ''ModuleRefused''"
| "wire_name (ModuleUnavailable _ _ _) = MODULE_UNAVAILABLE"
| "wire_name (PathError _ _) = error_prefix @ ''Path''"
| "wire_name (UnknownStream _) = error_prefix @ ''UnknownStream''"
| "wire_name (StreamAborted _) = error_prefix @ ''StreamAborted''"
| "wire_name (StreamTooLarge _) = error_prefix @ ''StreamTooLarge''"
| "wire_name (TooManyStreams _) = error_prefix @ ''TooManyStreams''"
| "wire_name (FeatureDisabled _ _) = error_prefix @ ''FeatureDisabled''"
| "wire_name (Json _) = error_prefix @ ''Json''"
| "wire_name (MethodFailed n _) = n"

section \<open>Wire messages\<close>

text \<open>
  \<open>Debug\<close> of a \<open>str\<close>, which the two variants that quote their input use: the quote, the
  backslash and control characters are escaped.
\<close>

definition hex_digit :: "nat \<Rightarrow> char" where
  "hex_digit n = (if n < 10 then digit_char n else char_of (87 + n))"

definition debug_char :: "char \<Rightarrow> string" where
  "debug_char c =
     (let n = of_char c :: nat in
      if c = CHR 0x22 then [CHR 0x5C, CHR 0x22]
      else if c = CHR 0x5C then [CHR 0x5C, CHR 0x5C]
      else if n = 0 then [CHR 0x5C, CHR ''0'']
      else if n = 9 then [CHR 0x5C, CHR ''t'']
      else if n = 10 then [CHR 0x5C, CHR ''n'']
      else if n = 13 then [CHR 0x5C, CHR ''r'']
      else if n < 16 then [CHR 0x5C] @ ''u{'' @ [hex_digit n] @ ''}''
      else if n < 32 \<or> n = 127 then
        [CHR 0x5C] @ ''u{'' @ [hex_digit (n div 16), hex_digit (n mod 16)] @ ''}''
      else [c])"

definition debug_str :: "string \<Rightarrow> string" where
  "debug_str s = [CHR 0x22] @ concat (map debug_char s) @ [CHR 0x22]"

fun display :: "error \<Rightarrow> string" where
  "display (InvalidName k i r) = ''invalid '' @ k @ '' '' @ debug_str i @ '': '' @ r"
| "display (Protocol m) = ''protocol: '' @ m"
| "display (Transport m) = ''transport: '' @ m"
| "display ConnectionClosed = ''connection closed''"
| "display Backpressure = ''outbound queue is full; message dropped''"
| "display (NameHasNoOwner n) = ''no peer owns the name `'' @ bus_str n @ ''`''"
| "display (NotAttested n r) =
     ''`'' @ bus_str n @ ''` is not an attested recipient: '' @ r"
| "display (ConfidentialityRequired i m) =
     iface_str i @ ''.'' @ member_str m @ '' requires a confidential call''"
| "display (NameTaken n ow) = ''`'' @ bus_str n @ ''` is already owned by '' @ bus_str ow"
| "display (UnknownObject p) = ''no object at `'' @ path_str p @ ''`''"
| "display (UnknownInterface p i) =
     path_str p @ '': no interface `'' @ iface_str i @ ''`''"
| "display (UnknownMethod i m) = iface_str i @ '': no member `'' @ member_str m @ ''`''"
| "display (InvalidDomain d r) =
     ''event domain '' @ debug_str d @ '' is not a usable path element: '' @ r"
| "display (BadArguments m r) = member_str m @ '': bad arguments: '' @ r"
| "display (IncompatibleVersion p i d) = p @ '' is not compatible on '' @ i @ '': '' @ d"
| "display (MethodFailed n m) = n @ '': '' @ m"
| "display (Timeout m t) =
     ''call to `'' @ member_str m @ ''` timed out after '' @ show_nat t @ ''ms''"
| "display (PathError p m) = p @ '': '' @ m"
| "display (FeatureDisabled a b) =
     a @ '' requires the `'' @ b @ ''` feature; rebuild with --features '' @ b"
| "display (ModuleRefused f r) = ''module `'' @ f @ ''` refused: '' @ r"
| "display (ModuleUnavailable m s d) =
     ''module `'' @ m @ ''` is unavailable ('' @ s @ ''): '' @ d"
| "display (UnknownStream i) = ''no stream `'' @ i @ ''`''"
| "display (StreamAborted r) = ''stream aborted: '' @ r"
| "display (StreamTooLarge l) = ''stream exceeds the '' @ show_nat l @ ''-byte limit''"
| "display (TooManyStreams l) =
     ''already at the limit of '' @ show_nat l @ '' open streams''"
| "display (Io m) = ''io: '' @ m"
| "display (Json m) = ''json: '' @ m"

fun wire_message :: "error \<Rightarrow> string" where
  "wire_message (MethodFailed _ m) = m"
| "wire_message e = display e"

definition failed :: "string \<Rightarrow> error" where
  "failed m = MethodFailed FAILED m"

section \<open>Redaction\<close>

text \<open>The three UTF-8 bytes of the ellipsis that replaces a quoted value.\<close>

definition ellipsis :: string where
  "ellipsis = [CHR 0xE2, CHR 0x80, CHR 0xA6]"

fun redact_from :: "char option \<Rightarrow> bool \<Rightarrow> string \<Rightarrow> string" where
  "redact_from q esc [] = []"
| "redact_from (Some d) esc (c # cs) =
     (if d = CHR 0x22 \<and> esc then redact_from (Some d) False cs
      else if d = CHR 0x22 \<and> c = CHR 0x5C then redact_from (Some d) True cs
      else if c = d then d # redact_from None esc cs
      else redact_from (Some d) esc cs)"
| "redact_from None esc (c # cs) =
     (if c = CHR ''`'' \<or> c = CHR 0x22 then c # ellipsis @ redact_from (Some c) esc cs
      else c # redact_from None esc cs)"

definition redact_values :: "string \<Rightarrow> string" where
  "redact_values m = redact_from None False m"

definition bad_arguments :: "member_name \<Rightarrow> string \<Rightarrow> error" where
  "bad_arguments m reason = BadArguments m (redact_values reason)"

definition safe_char :: "char \<Rightarrow> bool" where
  "safe_char c \<longleftrightarrow> is_alnum c \<or> c \<in> set ''._+-''"

definition sanitize_untrusted :: "string \<Rightarrow> string" where
  "sanitize_untrusted s = take 32 (filter safe_char s)"

text \<open>\<open>Path::file_name\<close>: the last component, none for a path that ends in \<open>..\<close>.\<close>

definition file_name :: "string \<Rightarrow> string option" where
  "file_name p =
     (case rev (filter (\<lambda>w. w \<noteq> [] \<and> w \<noteq> ''.'') (split_on CHR ''/'' p)) of
        [] \<Rightarrow> None
      | w # _ \<Rightarrow> (if w = ''..'' then None else Some w))"

definition split_whitespace :: "string \<Rightarrow> string list" where
  "split_whitespace s =
     filter (\<lambda>w. w \<noteq> []) (split_on CHR '' '' (map (\<lambda>c. if is_space c then CHR '' '' else c) s))"

definition module_refused :: "string \<Rightarrow> string \<Rightarrow> error" where
  "module_refused p reason =
     ModuleRefused
       (case map_option sanitize_untrusted (file_name p) of
          Some f \<Rightarrow> (if f \<noteq> [] then f else ''module'')
        | None \<Rightarrow> ''module'')
       (join_with '' ''
          (filter (\<lambda>w. w \<noteq> []) (map sanitize_untrusted (split_whitespace reason))))"

text \<open>
  What may stand between two quotes: no backtick in a backtick span; in a double-quoted
  span, every quote and backslash escaped, as serde writes strings.
\<close>

fun escaped :: "string \<Rightarrow> bool" where
  "escaped [] = True"
| "escaped (c # cs) =
     (if c = CHR 0x22 then False
      else if c = CHR 0x5C then (case cs of [] \<Rightarrow> False | _ # ds \<Rightarrow> escaped ds)
      else escaped cs)"

definition quotable :: "char \<Rightarrow> string \<Rightarrow> bool" where
  "quotable d x \<longleftrightarrow> (d = CHR ''`'' \<and> d \<notin> set x) \<or> (d = CHR 0x22 \<and> escaped x)"

lemma redact_plain:
  "CHR ''`'' \<notin> set s \<Longrightarrow> CHR 0x22 \<notin> set s \<Longrightarrow>
   redact_from None False (s @ t) = s @ redact_from None False t"
  by (induction s) auto

lemma redact_backtick:
  "CHR ''`'' \<notin> set x \<Longrightarrow>
   redact_from (Some CHR ''`'') False (x @ CHR ''`'' # t) =
   CHR ''`'' # redact_from None False t"
  by (induction x) auto

lemma redact_escaped:
  "escaped x \<Longrightarrow>
   redact_from (Some CHR 0x22) False (x @ CHR 0x22 # t) =
   CHR 0x22 # redact_from None False t"
  by (induction x rule: escaped.induct) (auto split: if_splits list.splits)

lemma redact_span:
  assumes "quotable d x"
  shows "redact_from None False (d # x @ d # t) = d # ellipsis @ d # redact_from None False t"
  using assms by (auto simp: quotable_def redact_backtick redact_escaped)

lemma redact_values_span:
  assumes "CHR ''`'' \<notin> set pre" "CHR 0x22 \<notin> set pre" "quotable d x"
  shows "redact_values (pre @ [d] @ x @ [d] @ post) =
         pre @ [d] @ ellipsis @ [d] @ redact_values post"
  using redact_plain [OF assms(1,2), of "d # x @ d # post"] redact_span [OF assms(3), of post]
  by (simp add: redact_values_def)

lemma sanitize_props:
  "length (sanitize_untrusted s) \<le> 32" "c \<in> set (sanitize_untrusted s) \<Longrightarrow> safe_char c"
  by (auto simp: sanitize_untrusted_def dest: in_set_takeD)

lemma sanitize_idem: "sanitize_untrusted (sanitize_untrusted s) = sanitize_untrusted s"
proof -
  have "filter safe_char (take 32 (filter safe_char s)) = take 32 (filter safe_char s)"
    by (simp add: filter_id_conv) (metis filter_is_subset in_set_takeD mem_Collect_eq set_filter)
  then show ?thesis by (simp add: sanitize_untrusted_def)
qed

lemma safe_not_space: "safe_char c \<Longrightarrow> c \<noteq> CHR ''/'' \<and> c \<noteq> CHR '' ''"
  by (auto simp: safe_char_def is_alnum_def is_alpha_def is_digit_iff char_le_iff)

section \<open>Properties\<close>

text \<open>
  A message with quoted values in it: plain pieces, each followed by a delimiter and the value
  between two of them, and a plain tail.
\<close>

fun quoted_message :: "(string \<times> char) list \<Rightarrow> string list \<Rightarrow> string \<Rightarrow> string" where
  "quoted_message ((plain, d) # ps) (v # vs) tail_text =
     plain @ [d] @ v @ [d] @ quoted_message ps vs tail_text"
| "quoted_message _ _ tail_text = tail_text"

definition plain_text :: "string \<Rightarrow> bool" where
  "plain_text s \<longleftrightarrow> CHR ''`'' \<notin> set s \<and> CHR 0x22 \<notin> set s"

definition values_fit :: "(string \<times> char) list \<Rightarrow> string list \<Rightarrow> bool" where
  "values_fit ps vs \<longleftrightarrow>
     list_all2 (\<lambda>(plain, d) v. plain_text plain \<and> quotable d v) ps vs"

lemma redact_quoted:
  assumes "values_fit ps vs"
  shows "redact_values (quoted_message ps vs t) =
         concat (map (\<lambda>(plain, d). plain @ [d] @ ellipsis @ [d]) ps) @ redact_values t"
  using assms
proof (induction ps arbitrary: vs)
  case Nil
  then show ?case by (simp add: values_fit_def)
next
  case (Cons p ps)
  then obtain v ws plain d where vs: "vs = v # ws" and p: "p = (plain, d)"
    and fit: "values_fit ps ws" "plain_text plain" "quotable d v"
    by (cases vs; cases p) (auto simp: values_fit_def)
  with Cons.IH [OF fit(1)] show ?case
    using redact_values_span [of plain d v "quoted_message ps ws t"]
    by (simp add: plain_text_def)
qed

text \<open>
  Redaction is non-interference: two rejections whose texts differ only in the quoted
  values (backtick spans, or double-quoted spans escaped as JSON) become the same error, so
  neither the wire message nor the error itself depends on the values.
\<close>

theorem bad_arguments_hide_values:
  assumes "values_fit ps vs" and "values_fit ps ws"
  shows "bad_arguments m (quoted_message ps vs t) = bad_arguments m (quoted_message ps ws t)"
  using redact_quoted [OF assms(1)] redact_quoted [OF assms(2)] by (simp add: bad_arguments_def)

theorem bad_arguments_hide_values_witness:
  "bad_arguments (MemberName ''Sign'') ''string `hunter2`, expected u32'' =
   bad_arguments (MemberName ''Sign'') ''string `0`, expected u32''"
  using bad_arguments_hide_values [of "[(''string '', CHR ''`'')]" "[''hunter2'']" "[''0'']"
    "MemberName ''Sign''" "'', expected u32''"]
  by (simp add: values_fit_def plain_text_def quotable_def)

lemma join_set: "set (join_with sep ws) \<subseteq> set sep \<union> \<Union> (set ` set ws)"
  by (induction ws rule: induct_list012) auto

text \<open>
  What a refused module's error can reveal of the path and of the untrusted reason: the
  label is one to 32 safe characters and the reason only safe characters and blanks, so no
  path separator, quote or control character of the input reaches a log or the wire.
\<close>

theorem module_refused_is_safe:
  "\<exists>f r. module_refused p reason = ModuleRefused f r \<and>
     f \<noteq> [] \<and> length f \<le> 32 \<and> list_all safe_char f \<and>
     list_all (\<lambda>c. safe_char c \<or> c = CHR '' '') r \<and> CHR ''/'' \<notin> set (f @ r)"
proof -
  obtain f r where mr: "module_refused p reason = ModuleRefused f r" by (simp add: module_refused_def)
  define label where "label = map_option sanitize_untrusted (file_name p)"
  have f: "f = (case label of Some g \<Rightarrow> (if g \<noteq> [] then g else ''module'') | None \<Rightarrow> ''module'')"
    using mr by (simp add: module_refused_def label_def)
  have word: "list_all safe_char ''module''"
    by (simp add: safe_char_def is_alnum_def is_alpha_def char_le_iff)
  have san: "list_all safe_char (sanitize_untrusted s) \<and> length (sanitize_untrusted s) \<le> 32" for s
    using sanitize_props by (auto simp: list_all_iff)
  have ff: "f \<noteq> [] \<and> length f \<le> 32 \<and> list_all safe_char f"
    using word san by (auto simp: f label_def split: option.splits)
  have "set r \<subseteq> {CHR '' ''} \<union> {c. safe_char c}"
    using mr join_set [of "'' ''"] sanitize_props(2) by (fastforce simp: module_refused_def)
  then have rr: "list_all (\<lambda>c. safe_char c \<or> c = CHR '' '') r" by (auto simp: list_all_iff)
  have "CHR ''/'' \<notin> set (f @ r)"
    using ff rr safe_not_space by (auto simp: list_all_iff)
  with mr ff rr show ?thesis by blast
qed

end
