(* ===== verification/Names.thy ===== *)
theory Names
  imports Errors "HOL-Library.Sublist"
begin

text \<open>
  The grammars of \<open>name.rs\<close>: \<open>BusName::new\<close>, \<open>ObjectPath::new\<close>, \<open>InterfaceName::new\<close>,
  \<open>MemberName::new\<close>, the broker's minting of unique names and subtree containment of
  paths. A grammar only admits ASCII, so accepting bytes is accepting characters; for a
  non-ASCII input only the character quoted in the reason differs (its first byte here).
\<close>

definition invalid :: "string \<Rightarrow> string \<Rightarrow> string \<Rightarrow> error" where
  "invalid k s r = InvalidName k s r"

definition MAX_NAME_LEN :: nat where
  "MAX_NAME_LEN = 255"

definition too_long :: string where
  "too_long = ''is longer than '' @ show_nat MAX_NAME_LEN @ '' bytes''"

definition start_char :: "char \<Rightarrow> bool" where
  "start_char c \<longleftrightarrow> is_alpha c \<or> c = CHR ''_''"

definition dotted_char :: "char \<Rightarrow> bool" where
  "dotted_char c \<longleftrightarrow> is_alnum c \<or> c = CHR ''_'' \<or> c = CHR ''-''"

definition word_char :: "char \<Rightarrow> bool" where
  "word_char c \<longleftrightarrow> is_alnum c \<or> c = CHR ''_''"

definition contains_msg :: "string \<Rightarrow> char \<Rightarrow> string" where
  "contains_msg e c = ''element `'' @ e @ ''` contains `'' @ [c] @ ''`''"

fun check_dotted :: "string \<Rightarrow> string \<Rightarrow> string list \<Rightarrow> unit result" where
  "check_dotted k s [] = Inr ()"
| "check_dotted k s (e # es) =
     (case e of
        [] \<Rightarrow> Inl (invalid k s ''has an empty element'')
      | c # cs \<Rightarrow>
          if \<not> start_char c then
            Inl (invalid k s
              (''element `'' @ e @ ''` must start with a letter or underscore''))
          else (case find (\<lambda>c. \<not> dotted_char c) cs of
                  Some c \<Rightarrow> Inl (invalid k s (contains_msg e c))
                | None \<Rightarrow> check_dotted k s es))"

definition validate_dotted :: "string \<Rightarrow> string \<Rightarrow> unit result" where
  "validate_dotted k s =
     (if s = [] then Inl (invalid k s ''is empty'')
      else if length s > MAX_NAME_LEN then Inl (invalid k s too_long)
      else if length (split_on CHR ''.'' s) < 2 then
        Inl (invalid k s ''needs at least two dot-separated elements'')
      else check_dotted k s (split_on CHR ''.'' s))"

definition BusName_new :: "string \<Rightarrow> bus_name result" where
  "BusName_new s =
     (case strip_prefix s '':'' of
        Some rest \<Rightarrow>
          if rest = [] then Inl (invalid ''bus name'' s ''is just `:`'')
          else if list_all (\<lambda>e. e \<noteq> [] \<and> list_all is_digit e) (split_on CHR ''.'' rest)
          then Inr (BusName s)
          else Inl (invalid ''bus name'' s
                 ''a unique name is `:` followed by dot-separated digits'')
      | None \<Rightarrow>
          (case validate_dotted ''bus name'' s of
             Inl e \<Rightarrow> Inl e
           | Inr _ \<Rightarrow> Inr (BusName s)))"

definition unique_name :: "nat \<Rightarrow> bus_name" where
  "unique_name i = BusName ('':1.'' @ show_nat i)"

definition is_unique :: "bus_name \<Rightarrow> bool" where
  "is_unique n \<longleftrightarrow> starts_with (bus_str n) '':''"

fun check_path :: "string \<Rightarrow> string list \<Rightarrow> unit result" where
  "check_path s [] = Inr ()"
| "check_path s (e # es) =
     (if e = [] then Inl (invalid ''object path'' s ''has an empty element'')
      else (case find (\<lambda>c. \<not> word_char c) e of
              Some c \<Rightarrow> Inl (invalid ''object path'' s (contains_msg e c))
            | None \<Rightarrow> check_path s es))"

definition ObjectPath_new :: "string \<Rightarrow> object_path result" where
  "ObjectPath_new s =
     (if length s > MAX_NAME_LEN then Inl (invalid ''object path'' s too_long)
      else if s = ''/'' then Inr (ObjectPath s)
      else if \<not> starts_with s ''/'' then
        Inl (invalid ''object path'' s ''must start with `/`'')
      else if last s = CHR ''/'' then
        Inl (invalid ''object path'' s ''must not end with `/`'')
      else (case check_path s (split_on CHR ''/'' (drop 1 s)) of
              Inl e \<Rightarrow> Inl e
            | Inr _ \<Rightarrow> Inr (ObjectPath s)))"

definition path_root :: object_path where
  "path_root = ObjectPath ''/''"

text \<open>
  \<open>ObjectPath::starts_with\<close> indexes a byte of its receiver; \<open>None\<close> is the panic of an index
  out of range.
\<close>

definition path_starts_with :: "object_path \<Rightarrow> object_path \<Rightarrow> bool option" where
  "path_starts_with p q =
     (if path_str q = ''/'' then Some True
      else if path_str p = path_str q then Some True
      else if \<not> starts_with (path_str p) (path_str q) then Some False
      else if length (path_str q) < length (path_str p)
      then Some (path_str p ! length (path_str q) = CHR ''/'')
      else None)"

definition InterfaceName_new :: "string \<Rightarrow> interface_name result" where
  "InterfaceName_new s =
     (case validate_dotted ''interface name'' s of
        Inl e \<Rightarrow> Inl e
      | Inr _ \<Rightarrow> Inr (InterfaceName s))"

definition MemberName_new :: "string \<Rightarrow> member_name result" where
  "MemberName_new s =
     (case s of
        [] \<Rightarrow> Inl (invalid ''member name'' s ''is empty'')
      | c # cs \<Rightarrow>
          if length s > MAX_NAME_LEN then Inl (invalid ''member name'' s too_long)
          else if \<not> start_char c then
            Inl (invalid ''member name'' s ''must start with a letter or underscore'')
          else (case find (\<lambda>c. \<not> word_char c) cs of
                  Some d \<Rightarrow> Inl (invalid ''member name'' s (''contains `'' @ [d] @ ''`''))
                | None \<Rightarrow> Inr (MemberName s)))"

section \<open>The interface of a validated text\<close>

definition name_char :: "char \<Rightarrow> bool" where
  "name_char c \<longleftrightarrow> is_alnum c \<or> c \<in> set ''_-.:/''"

text \<open>
  What the clients of the four newtypes rely on: parsing keeps the text, and an accepted
  text is non-empty and made of name characters, so it survives trimming and contains no
  separator of a match rule.
\<close>

locale validated_text =
  fixes new_text :: "string \<Rightarrow> 'a result" and as_str :: "'a \<Rightarrow> string"
  assumes new_as_str: "new_text s = Inr x \<Longrightarrow> as_str x = s"
    and new_nonempty: "new_text s = Inr x \<Longrightarrow> s \<noteq> []"
    and new_chars: "new_text s = Inr x \<Longrightarrow> list_all name_char s"
begin

definition valid :: "'a \<Rightarrow> bool" where
  "valid x \<longleftrightarrow> new_text (as_str x) = Inr x"

lemma new_valid: "new_text s = Inr x \<Longrightarrow> valid x"
  by (auto simp: valid_def dest: new_as_str)

lemma valid_new: "valid x \<Longrightarrow> new_text (as_str x) = Inr x"
  by (simp add: valid_def)

lemma valid_iff: "valid x \<longleftrightarrow> (\<exists>s. new_text s = Inr x)"
  by (auto simp: valid_def dest: new_as_str)

lemma valid_inj: "valid x \<Longrightarrow> valid y \<Longrightarrow> as_str x = as_str y \<Longrightarrow> x = y"
  by (simp add: valid_def)

lemma valid_char: "valid x \<Longrightarrow> c \<in> set (as_str x) \<Longrightarrow> name_char c"
  using new_chars [of "as_str x" x] by (simp add: valid_def list_all_iff)

lemma valid_trim: "valid x \<Longrightarrow> trim (as_str x) = as_str x"
  by (rule trim_id_set)
    (auto dest!: valid_char simp: name_char_def is_alnum_def is_alpha_def is_space_def
      is_digit_iff char_le_iff)

lemma valid_no_comma: "valid x \<Longrightarrow> CHR '','' \<notin> set (as_str x)"
  by (auto dest!: valid_char simp: name_char_def is_alnum_def is_alpha_def is_digit_iff char_le_iff)

lemma valid_nonempty: "valid x \<Longrightarrow> as_str x \<noteq> []"
  by (auto simp: valid_def dest: new_nonempty)

end

section \<open>Characters and elements\<close>

lemma start_name_char: "start_char c \<Longrightarrow> name_char c"
  by (auto simp: start_char_def name_char_def is_alnum_def)

lemma dotted_name_char: "dotted_char c \<Longrightarrow> name_char c"
  by (auto simp: dotted_char_def name_char_def)

lemma word_name_char: "word_char c \<Longrightarrow> name_char c"
  by (auto simp: word_char_def name_char_def)

lemma digit_name_char: "is_digit c \<Longrightarrow> name_char c"
  by (auto simp: name_char_def is_alnum_def)

lemma find_None_all: "find (\<lambda>c. \<not> p c) s = None \<longleftrightarrow> list_all p s"
  by (auto simp: find_None_iff list_all_iff)

lemma find_Some_not_all: "find (\<lambda>c. \<not> p c) s = Some c \<Longrightarrow> \<not> list_all p s"
  by (auto simp: find_Some_iff list_all_iff)

definition dotted_element :: "string \<Rightarrow> bool" where
  "dotted_element e \<longleftrightarrow> (case e of [] \<Rightarrow> False | c # cs \<Rightarrow> start_char c \<and> list_all dotted_char cs)"

lemma check_dotted_iff: "check_dotted k s es = Inr u \<longleftrightarrow> list_all dotted_element es"
  by (induction k s es rule: check_dotted.induct)
    (auto simp: dotted_element_def find_None_all dest: find_Some_not_all
      split: list.splits option.splits)

lemma check_path_iff: "check_path s es = Inr u \<longleftrightarrow> list_all (\<lambda>e. e \<noteq> [] \<and> list_all word_char e) es"
  by (induction s es rule: check_path.induct)
    (auto simp: find_None_all dest: find_Some_not_all split: option.splits)

text \<open>The characters of a text are its separators and those of its elements.\<close>

lemma set_split_on: "set s \<subseteq> insert d (\<Union>w \<in> set (split_on d s). set w)"
proof (induction s)
  case (Cons c cs)
  obtain w ws where "split_on d cs = w # ws" by (cases "split_on d cs") auto
  with Cons.IH show ?case by auto
qed simp

lemma list_all_split:
  assumes "list_all (\<lambda>e. list_all p e) (split_on d s)" and "p d"
  shows "list_all p s"
  using set_split_on [of s d] assms by (fastforce simp: list_all_iff)

lemma dotted_element_chars: "dotted_element e \<Longrightarrow> list_all name_char e"
  by (auto simp: dotted_element_def list_all_iff start_name_char dotted_name_char split: list.splits)

lemma dotted_chars:
  assumes "list_all dotted_element (split_on CHR ''.'' s)"
  shows "list_all name_char s"
  by (rule list_all_split [where d = "CHR ''.''"])
    (use assms dotted_element_chars in \<open>auto simp: list_all_iff name_char_def\<close>)

lemma validate_dotted_Inr:
  "validate_dotted k s = Inr u \<longleftrightarrow>
   length s \<le> MAX_NAME_LEN \<and> 2 \<le> length (split_on CHR ''.'' s) \<and>
   list_all dotted_element (split_on CHR ''.'' s)"
  by (auto simp: validate_dotted_def check_dotted_iff dotted_element_def)

section \<open>Acceptance\<close>

definition unique_text :: "string \<Rightarrow> bool" where
  "unique_text s \<longleftrightarrow>
     (\<exists>r. s = CHR '':'' # r \<and> list_all (\<lambda>e. e \<noteq> [] \<and> list_all is_digit e) (split_on CHR ''.'' r))"

definition dotted_text :: "string \<Rightarrow> bool" where
  "dotted_text s \<longleftrightarrow>
     length s \<le> 255 \<and> 2 \<le> length (split_on CHR ''.'' s) \<and>
     list_all dotted_element (split_on CHR ''.'' s)"

lemma validate_dotted_iff: "validate_dotted k s = Inr u \<longleftrightarrow> dotted_text s"
  by (simp add: validate_dotted_Inr dotted_text_def MAX_NAME_LEN_def)

lemma validate_dotted_Inl: "validate_dotted k s = Inl e \<Longrightarrow> \<not> dotted_text s"
  using validate_dotted_iff [of k s "()"] by simp

lemma check_path_Inl:
  "check_path s es = Inl e \<Longrightarrow> \<not> list_all (\<lambda>e. e \<noteq> [] \<and> list_all word_char e) es"
  using check_path_iff [of s es "()"] by simp

lemma strip_colon: "strip_prefix s '':'' = Some r \<longleftrightarrow> s = CHR '':'' # r"
  by (cases s) (auto simp: strip_prefix_def starts_with_def)

lemma strip_colon_None: "strip_prefix s '':'' = None \<longleftrightarrow> \<not> starts_with s '':''"
  by (simp add: strip_prefix_def)

lemma dotted_not_colon: "dotted_text s \<Longrightarrow> \<not> starts_with s '':''"
proof
  assume d: "dotted_text s" and "starts_with s '':''"
  then obtain r where "s = CHR '':'' # r" by (auto simp: starts_with_iff)
  with d show False
    by (auto simp: dotted_text_def dotted_element_def start_char_def is_alpha_def char_le_iff split: list.splits)
qed

lemma BusName_new_iff:
  "BusName_new s = Inr n \<longleftrightarrow> n = BusName s \<and> (unique_text s \<or> dotted_text s)"
proof (cases "strip_prefix s '':''")
  case None
  then have "\<not> unique_text s"
    by (auto simp: unique_text_def strip_colon_None starts_with_def)
  with None show ?thesis
    by (auto simp: BusName_new_def validate_dotted_iff dest: validate_dotted_Inl
        split: sum.splits)
next
  case (Some r)
  then have s: "s = CHR '':'' # r" by (simp add: strip_colon)
  then have nd: "\<not> dotted_text s" using dotted_not_colon [of s] by (auto simp: starts_with_def)
  have "unique_text s \<longleftrightarrow> list_all (\<lambda>e. e \<noteq> [] \<and> list_all is_digit e) (split_on CHR ''.'' r)"
    by (simp add: unique_text_def s)
  with Some nd show ?thesis by (auto simp: BusName_new_def)
qed

lemma InterfaceName_new_iff:
  "InterfaceName_new s = Inr n \<longleftrightarrow> n = InterfaceName s \<and> dotted_text s"
  by (auto simp: InterfaceName_new_def validate_dotted_iff dest: validate_dotted_Inl
      split: sum.splits)

definition member_text :: "string \<Rightarrow> bool" where
  "member_text s \<longleftrightarrow>
     length s \<le> 255 \<and> (case s of [] \<Rightarrow> False | c # cs \<Rightarrow> start_char c \<and> list_all word_char cs)"

lemma MemberName_new_iff: "MemberName_new s = Inr n \<longleftrightarrow> n = MemberName s \<and> member_text s"
  by (auto simp: MemberName_new_def member_text_def find_None_all MAX_NAME_LEN_def
      dest: find_Some_not_all split: list.splits option.splits)

definition path_parts :: "string \<Rightarrow> string list" where
  "path_parts s = (if s = ''/'' then [] else split_on CHR ''/'' (drop 1 s))"

definition path_text :: "string \<Rightarrow> bool" where
  "path_text s \<longleftrightarrow>
     length s \<le> 255 \<and> starts_with s ''/'' \<and>
     list_all (\<lambda>e. e \<noteq> [] \<and> list_all word_char e) (path_parts s)"

lemma last_of_split: "last (split_on d (s @ [d])) = []"
proof (induction s)
  case (Cons c cs)
  obtain w ws where w: "split_on d (cs @ [d]) = w # ws" by (cases "split_on d (cs @ [d])") auto
  have "ws \<noteq> []"
  proof
    assume "ws = []"
    with w Cons.IH have "split_on d (cs @ [d]) = [[]]" by simp
    then have "cs @ [d] = []" using join_split [of d "cs @ [d]"] by simp
    then show False by simp
  qed
  with w Cons.IH show ?case by auto
qed simp

lemma path_no_trailing:
  assumes "starts_with s ''/''" and "s \<noteq> ''/''" and "last s = CHR ''/''"
  shows "\<not> list_all (\<lambda>e. e \<noteq> [] \<and> list_all word_char e) (split_on CHR ''/'' (drop 1 s))"
proof -
  from assms(1,2) obtain t where s: "s = CHR ''/'' # t" "t \<noteq> []" by (auto simp: starts_with_iff)
  with assms(3) obtain u where "t = u @ [CHR ''/'']" by (metis append_butlast_last_id last_ConsR)
  then have "[] \<in> set (split_on CHR ''/'' t)"
    using last_of_split [of "CHR ''/''" u] by (metis last_in_set split_on_nonempty)
  with s show ?thesis by (auto simp: list_all_iff)
qed

lemma ObjectPath_new_iff: "ObjectPath_new s = Inr p \<longleftrightarrow> p = ObjectPath s \<and> path_text s"
proof (cases "s = ''/''")
  case True
  then show ?thesis
    by (auto simp: ObjectPath_new_def path_text_def path_parts_def MAX_NAME_LEN_def starts_with_def)
next
  case False
  then show ?thesis
    using path_no_trailing [of s]
    by (auto simp: ObjectPath_new_def path_text_def path_parts_def MAX_NAME_LEN_def check_path_iff
        dest: check_path_Inl split: sum.splits)
qed

lemma dotted_text_chars: "dotted_text s \<Longrightarrow> list_all name_char s"
  by (simp add: dotted_text_def dotted_chars)

lemma unique_text_chars: "unique_text s \<Longrightarrow> list_all name_char s"
proof -
  assume "unique_text s"
  then obtain r where s: "s = CHR '':'' # r"
    and r: "list_all (\<lambda>e. e \<noteq> [] \<and> list_all is_digit e) (split_on CHR ''.'' r)"
    by (auto simp: unique_text_def)
  have "list_all name_char r"
    by (rule list_all_split [where d = "CHR ''.''"])
      (use r digit_name_char in \<open>auto simp: list_all_iff name_char_def\<close>)
  with s show ?thesis by (simp add: name_char_def)
qed

lemma path_text_chars: "path_text s \<Longrightarrow> list_all name_char s"
proof -
  assume p: "path_text s"
  then obtain t where s: "s = CHR ''/'' # t" by (auto simp: path_text_def starts_with_iff)
  have "list_all name_char t"
  proof (cases "t = []")
    case False
    show ?thesis
      by (rule list_all_split [where d = "CHR ''/''"])
        (use p s False word_name_char in
          \<open>auto simp: path_text_def path_parts_def list_all_iff name_char_def\<close>)
  qed simp
  with s show ?thesis by (simp add: name_char_def)
qed

interpretation busT: validated_text BusName_new bus_str
  by unfold_locales
    (auto simp: BusName_new_iff dotted_text_chars unique_text_chars,
      auto simp: unique_text_def dotted_text_def)

interpretation pathT: validated_text ObjectPath_new path_str
  by unfold_locales (auto simp: ObjectPath_new_iff path_text_chars path_text_def starts_with_def)

interpretation ifaceT: validated_text InterfaceName_new iface_str
  by unfold_locales (auto simp: InterfaceName_new_iff dotted_text_chars dotted_text_def)

interpretation memT: validated_text MemberName_new member_str
  by unfold_locales
    (auto simp: MemberName_new_iff member_text_def list_all_iff start_name_char word_name_char
      split: list.splits)

text \<open>Evaluation of the grammars on a concrete text.\<close>

lemmas name_eval = dotted_text_def member_text_def path_text_def path_parts_def starts_with_def
  dotted_element_def start_char_def dotted_char_def word_char_def is_alnum_def is_alpha_def
  is_digit_iff char_le_iff

section \<open>Properties\<close>

lemma no_dot_show: "CHR ''.'' \<notin> set (show_nat i)"
  using show_nat_chars digit_not(1) by blast

lemma unique_text_show: "unique_text ('':1.'' @ show_nat i)"
proof -
  have "split_on CHR ''.'' (''1.'' @ show_nat i) = [''1'', show_nat i]"
    using split_on_append [of "CHR ''.''" "''1''" "show_nat i"] split_on_no_sep [OF no_dot_show, of i]
    by simp
  moreover have "is_digit CHR ''1''" by (simp add: is_digit_iff)
  ultimately show ?thesis by (simp add: unique_text_def show_nat_digits)
qed

lemma is_unique_iff: "BusName_new s = Inr n \<Longrightarrow> is_unique n \<longleftrightarrow> unique_text s"
  using dotted_not_colon [of s] by (auto simp: BusName_new_iff is_unique_def unique_text_def starts_with_def)

text \<open>
  The names the broker mints (\<open>BusName::unique\<close>) bypass the parser and are nevertheless
  accepted by it, are recognised as unique, and differ for different peer ids.
\<close>

theorem minted_names:
  "BusName_new (bus_str (unique_name i)) = Inr (unique_name i) \<and>
   is_unique (unique_name i) \<and> (unique_name i = unique_name j \<longleftrightarrow> i = j)"
  using unique_text_show [of i]
  by (simp add: BusName_new_iff unique_name_def is_unique_def starts_with_def)

text \<open>
  The two flavours of a bus name: the parser keeps the text; the name is unique exactly
  when the text is a colon and dot-separated digit runs; any other accepted name has at
  least two dot-separated identifier elements and at most 255 bytes.
\<close>

theorem bus_name_flavours:
  assumes "BusName_new s = Inr n"
  shows "bus_str n = s \<and> (is_unique n \<longleftrightarrow> unique_text s) \<and> (is_unique n \<or> dotted_text s)"
  using assms is_unique_iff [OF assms] by (auto simp: BusName_new_iff)

theorem bus_name_flavours_witness:
  "\<exists>n. BusName_new ''ai.tinyhumans.Voice'' = Inr n \<and> \<not> is_unique n \<and> dotted_text (bus_str n)"
proof -
  have d: "dotted_text ''ai.tinyhumans.Voice''" by (simp add: name_eval)
  then have new: "BusName_new ''ai.tinyhumans.Voice'' = Inr (BusName ''ai.tinyhumans.Voice'')"
    by (simp add: BusName_new_iff)
  have "\<not> unique_text ''ai.tinyhumans.Voice''" by (simp add: unique_text_def)
  with d new bus_name_flavours [OF new] show ?thesis by force
qed

text \<open>
  The 255-byte cap does not reach unique names: for every bound there is a longer text
  that \<open>BusName::new\<close> accepts.
\<close>

theorem unique_names_unbounded:
  "\<exists>s n. BusName_new s = Inr n \<and> is_unique n \<and> k < length (bus_str n)"
proof -
  define r where "r = replicate (Suc k) CHR ''0''"
  have len: "k < length r" and ne: "r \<noteq> []" by (simp_all add: r_def)
  have "is_digit CHR ''0''" by (simp add: is_digit_iff)
  then have dig: "list_all is_digit r" by (simp add: r_def list_all_iff)
  have "CHR ''.'' \<notin> set r" by (simp add: r_def)
  then have "unique_text (CHR '':'' # r)"
    by (simp add: unique_text_def split_on_no_sep ne dig)
  then have "BusName_new (CHR '':'' # r) = Inr (BusName (CHR '':'' # r))"
    by (simp add: BusName_new_iff)
  moreover have "is_unique (BusName (CHR '':'' # r))" by (simp add: is_unique_def starts_with_def)
  moreover have "k < length (bus_str (BusName (CHR '':'' # r)))" using len by simp
  ultimately show ?thesis by blast
qed

lemma prefix_split_iff:
  "prefix (split_on d a) (split_on d b) \<longleftrightarrow> b = a \<or> (\<exists>r. b = a @ d # r)"
proof
  assume "prefix (split_on d a) (split_on d b)"
  then obtain zs where zs: "split_on d b = split_on d a @ zs" by (auto simp: prefix_def)
  show "b = a \<or> (\<exists>r. b = a @ d # r)"
  proof (cases "zs = []")
    case True
    with zs show ?thesis using join_split [of d a] join_split [of d b] by simp
  next
    case False
    then have "b = a @ [d] @ join_with [d] zs"
      using zs join_app [of "split_on d a" zs "[d]"] join_split [of d a] join_split [of d b] by simp
    then show ?thesis by auto
  qed
qed (auto simp: split_on_app)

text \<open>
  \<open>ObjectPath::starts_with\<close> never indexes out of range and decides subtree containment,
  element by element, rather than string prefix.
\<close>

lemma path_starts_with_subtree:
  assumes "ObjectPath_new s = Inr p" and "ObjectPath_new t = Inr q"
  shows "path_starts_with p q = Some (prefix (path_parts t) (path_parts s))"
proof -
  from assms have p: "p = ObjectPath s" "path_text s" and q: "q = ObjectPath t" "path_text t"
    by (simp_all add: ObjectPath_new_iff)
  then obtain a b where s: "s = CHR ''/'' # a" and t: "t = CHR ''/'' # b"
    by (auto simp: path_text_def starts_with_iff)
  show ?thesis
  proof (cases "a = [] \<or> b = []")
    case True
    then show ?thesis
      by (auto simp: path_starts_with_def p q s t path_parts_def starts_with_def)
  next
    case False
    have "path_starts_with p q = Some (a = b \<or> (\<exists>r. a = b @ CHR ''/'' # r))"
    proof (cases "\<exists>r. a = b @ r")
      case True
      then obtain r where "a = b @ r" ..
      with False show ?thesis
        by (cases r) (auto simp: path_starts_with_def p q s t starts_with_def nth_append)
    next
      case no: False
      then show ?thesis
        using False by (auto simp: path_starts_with_def p q s t starts_with_iff)
    qed
    with False show ?thesis by (auto simp: path_parts_def s t prefix_split_iff)
  qed
qed

lemma path_starts_with_total: "path_starts_with p q \<noteq> None"
proof -
  have "starts_with a b \<Longrightarrow> a \<noteq> b \<Longrightarrow> length b < length a" for a b :: string
    by (auto simp: starts_with_iff)
  then show ?thesis by (auto simp: path_starts_with_def)
qed

end
