(* ===== verification/Messages.thy ===== *)
theory Messages
  imports Names
begin

text \<open>
  The wire message of \<open>message/mod.rs\<close>: kinds, the flat header, the constructors, the error
  a reply carries, and the ingress check \<open>Message::validate\<close>. A \<open>serde_json::Value\<close> is
  \<open>json\<close>, since the sources match on its constructors; a number is its literal and an
  object its entries in order. The rendering of a value as JSON text belongs to serde_json
  and is an argument.
\<close>

datatype json =
    JNull
  | JBool bool
  | JNumber string
  | JString string
  | JArray "json list"
  | JObject "(string \<times> json) list"

text \<open>\<open>Value::as_u64\<close> and the decoding of a \<open>u64\<close> argument.\<close>

definition json_u64 :: "json \<Rightarrow> nat option" where
  "json_u64 v =
     (case v of JNumber s \<Rightarrow> (case parse_digits s of
        Some n \<Rightarrow> (if n < 2 ^ 64 then Some n else None) | None \<Rightarrow> None) | _ \<Rightarrow> None)"

lemma json_u64_show: "n < 2 ^ 64 \<Longrightarrow> json_u64 (JNumber (show_nat n)) = Some n"
  by (simp add: json_u64_def)

datatype message_kind = MethodCall | MethodReturn | ErrorKind | Signal | DirectedSignal

datatype module_lifecycle = Initializing | UnknownLifecycle

fun lifecycle_of_text :: "string \<Rightarrow> module_lifecycle" where
  "lifecycle_of_text s = (if s = ''initializing'' then Initializing else UnknownLifecycle)"

record header =
  h_kind :: message_kind
  h_serial :: nat
  h_reply_serial :: "nat option"
  h_sender :: "bus_name option"
  h_expected_responder :: "bus_name option"
  h_destination :: "bus_name option"
  h_path :: "object_path option"
  h_interface :: "interface_name option"
  h_member :: "member_name option"
  h_error_name :: "string option"
  h_module_lifecycle :: "module_lifecycle option"
  h_confidential :: bool
  h_sensitive :: bool
  h_stream_reply :: bool

record message =
  m_header :: header
  m_body :: json

definition method_call ::
  "bus_name \<Rightarrow> object_path \<Rightarrow> interface_name \<Rightarrow> member_name \<Rightarrow> json \<Rightarrow> message" where
  "method_call destination path interface member body =
     \<lparr> m_header = \<lparr> h_kind = MethodCall, h_serial = 0, h_reply_serial = None, h_sender = None,
         h_expected_responder = None, h_destination = Some destination, h_path = Some path,
         h_interface = Some interface, h_member = Some member, h_error_name = None,
         h_module_lifecycle = None, h_confidential = False, h_sensitive = False,
         h_stream_reply = False \<rparr>,
       m_body = body \<rparr>"

definition confidential_call ::
  "bus_name \<Rightarrow> object_path \<Rightarrow> interface_name \<Rightarrow> member_name \<Rightarrow> json \<Rightarrow> message" where
  "confidential_call d p i m b =
     (let msg = method_call d p i m b in
      msg \<lparr> m_header := (m_header msg) \<lparr> h_confidential := True \<rparr> \<rparr>)"

definition sensitive_control_call ::
  "bus_name \<Rightarrow> object_path \<Rightarrow> interface_name \<Rightarrow> member_name \<Rightarrow> json \<Rightarrow> message" where
  "sensitive_control_call d p i m b =
     (let msg = method_call d p i m b in
      msg \<lparr> m_header := (m_header msg) \<lparr> h_sensitive := True \<rparr> \<rparr>)"

definition streaming_call ::
  "bus_name \<Rightarrow> object_path \<Rightarrow> interface_name \<Rightarrow> member_name \<Rightarrow> json \<Rightarrow> message" where
  "streaming_call d p i m b =
     (let msg = method_call d p i m b in
      msg \<lparr> m_header := (m_header msg) \<lparr> h_stream_reply := True \<rparr> \<rparr>)"

definition method_return :: "header \<Rightarrow> json \<Rightarrow> message" where
  "method_return call body =
     \<lparr> m_header = \<lparr> h_kind = MethodReturn, h_serial = 0, h_reply_serial = Some (h_serial call),
         h_sender = None, h_expected_responder = None, h_destination = h_sender call,
         h_path = None, h_interface = None, h_member = None, h_error_name = None,
         h_module_lifecycle = None, h_confidential = h_confidential call,
         h_sensitive = False, h_stream_reply = False \<rparr>,
       m_body = body \<rparr>"

definition ascii_lower :: "char \<Rightarrow> char" where
  "ascii_lower c =
     (if CHR ''A'' \<le> c \<and> c \<le> CHR ''Z'' then char_of (of_char c + (32 :: nat)) else c)"

definition eq_ignore_ascii_case :: "string \<Rightarrow> string \<Rightarrow> bool" where
  "eq_ignore_ascii_case a b \<longleftrightarrow> map ascii_lower a = map ascii_lower b"

fun lifecycle_of :: "error \<Rightarrow> module_lifecycle option" where
  "lifecycle_of (ModuleUnavailable m state d) =
     (if eq_ignore_ascii_case state ''initializing'' then Some Initializing else None)"
| "lifecycle_of _ = None"

definition error_reply :: "header \<Rightarrow> error \<Rightarrow> message" where
  "error_reply call err =
     \<lparr> m_header = \<lparr> h_kind = ErrorKind, h_serial = 0, h_reply_serial = Some (h_serial call),
         h_sender = None, h_expected_responder = None, h_destination = h_sender call,
         h_path = None, h_interface = None, h_member = None,
         h_error_name = Some (wire_name err), h_module_lifecycle = lifecycle_of err,
         h_confidential = False, h_sensitive = False, h_stream_reply = False \<rparr>,
       m_body = JString (wire_message err) \<rparr>"

definition signal :: "object_path \<Rightarrow> interface_name \<Rightarrow> member_name \<Rightarrow> json \<Rightarrow> message" where
  "signal path interface member body =
     \<lparr> m_header = \<lparr> h_kind = Signal, h_serial = 0, h_reply_serial = None, h_sender = None,
         h_expected_responder = None, h_destination = None, h_path = Some path,
         h_interface = Some interface, h_member = Some member, h_error_name = None,
         h_module_lifecycle = None, h_confidential = False, h_sensitive = False,
         h_stream_reply = False \<rparr>,
       m_body = body \<rparr>"

definition signal_to ::
  "bus_name \<Rightarrow> object_path \<Rightarrow> interface_name \<Rightarrow> member_name \<Rightarrow> json \<Rightarrow> message" where
  "signal_to d p i m b =
     (let msg = signal p i m b in
      msg \<lparr> m_header := (m_header msg) \<lparr> h_destination := Some d \<rparr> \<rparr>)"

definition directed_signal ::
  "bus_name \<Rightarrow> object_path \<Rightarrow> interface_name \<Rightarrow> member_name \<Rightarrow> json \<Rightarrow> message" where
  "directed_signal destination path interface member body =
     \<lparr> m_header = \<lparr> h_kind = DirectedSignal, h_serial = 0, h_reply_serial = None,
         h_sender = None, h_expected_responder = None, h_destination = Some destination,
         h_path = Some path, h_interface = Some interface, h_member = Some member,
         h_error_name = None, h_module_lifecycle = None, h_confidential = False,
         h_sensitive = False, h_stream_reply = False \<rparr>,
       m_body = body \<rparr>"

definition into_error :: "(json \<Rightarrow> string) \<Rightarrow> message \<Rightarrow> error" where
  "into_error json_text msg =
     (let h = m_header msg;
          name = (case h_error_name h of Some n \<Rightarrow> n | None \<Rightarrow> FAILED) in
      if h_kind h = ErrorKind \<and> name = MODULE_UNAVAILABLE \<and>
         h_module_lifecycle h = Some Initializing
      then ModuleUnavailable ''module'' ''initializing''
             ''module initialization is still in progress''
      else MethodFailed name (case m_body msg of JString s \<Rightarrow> s | other \<Rightarrow> json_text other))"

definition member_or_unknown :: "message \<Rightarrow> member_name" where
  "member_or_unknown msg =
     (case h_member (m_header msg) of Some m \<Rightarrow> m | None \<Rightarrow> MemberName ''Unknown'')"

definition validate :: "message \<Rightarrow> unit result" where
  "validate msg =
     (let h = m_header msg in
      if h_stream_reply h \<and> h_kind h \<noteq> MethodCall then
        Inl (Protocol ''only a method call can request a streamed reply'')
      else if (case h_expected_responder h of None \<Rightarrow> False
               | Some expected \<Rightarrow> h_kind h \<noteq> MethodCall \<or> \<not> is_unique expected) then
        Inl (Protocol ''expected responder must be unique and only accompany a call'')
      else if (h_confidential h \<or> h_sensitive h) \<and>
              (h_kind h = Signal \<or> h_kind h = DirectedSignal) then
        Inl (Protocol ''signals cannot carry a private body'')
      else if (h_confidential h \<or> h_sensitive h) \<and> h_destination h = None then
        Inl (Protocol ''a private message needs a destination'')
      else (case h_kind h of
        MethodCall \<Rightarrow>
          if h_destination h = None then Inl (Protocol ''method call has no destination'')
          else if h_path h = None \<or> h_interface h = None \<or> h_member h = None then
            Inl (Protocol ''method call needs a path, an interface and a member'')
          else Inr ()
      | MethodReturn \<Rightarrow>
          if h_reply_serial h = None then Inl (Protocol ''reply has no reply_serial'') else Inr ()
      | ErrorKind \<Rightarrow>
          if h_reply_serial h = None then Inl (Protocol ''reply has no reply_serial'') else Inr ()
      | Signal \<Rightarrow>
          if h_interface h = None \<or> h_member h = None then
            Inl (Protocol ''signal needs an interface and a member'')
          else if (case h_destination h of None \<Rightarrow> False | Some n \<Rightarrow> \<not> is_unique n) then
            Inl (Protocol ''a signal can only be addressed to a unique name'')
          else Inr ()
      | DirectedSignal \<Rightarrow>
          if (case h_destination h of None \<Rightarrow> True | Some n \<Rightarrow> \<not> is_unique n) then
            Inl (Protocol ''directed signal needs a unique destination'')
          else if h_path h = None \<or> h_interface h = None \<or> h_member h = None then
            Inl (Protocol ''directed signal needs a path, an interface and a member'')
          else if h_reply_serial h \<noteq> None \<or> h_error_name h \<noteq> None \<or>
                  h_expected_responder h \<noteq> None \<or> h_stream_reply h then
            Inl (Protocol ''directed signal has invalid routing fields'')
          else Inr ()))"

lemmas message_builders = method_call_def confidential_call_def sensitive_control_call_def
  streaming_call_def method_return_def error_reply_def signal_def signal_to_def
  directed_signal_def Let_def

section \<open>What an accepted message guarantees\<close>

text \<open>The shape the later stages index without re-checking.\<close>

fun kind_shape :: "message_kind \<Rightarrow> header \<Rightarrow> bool" where
  "kind_shape MethodCall h \<longleftrightarrow>
     h_destination h \<noteq> None \<and> h_path h \<noteq> None \<and> h_interface h \<noteq> None \<and> h_member h \<noteq> None"
| "kind_shape MethodReturn h \<longleftrightarrow> h_reply_serial h \<noteq> None"
| "kind_shape ErrorKind h \<longleftrightarrow> h_reply_serial h \<noteq> None"
| "kind_shape Signal h \<longleftrightarrow>
     h_interface h \<noteq> None \<and> h_member h \<noteq> None \<and> (\<forall>n. h_destination h = Some n \<longrightarrow> is_unique n)"
| "kind_shape DirectedSignal h \<longleftrightarrow>
     (\<exists>n. h_destination h = Some n \<and> is_unique n) \<and> h_path h \<noteq> None \<and> h_interface h \<noteq> None \<and>
     h_member h \<noteq> None \<and> h_reply_serial h = None \<and> h_error_name h = None \<and>
     h_expected_responder h = None"

definition private_shape :: "header \<Rightarrow> bool" where
  "private_shape h \<longleftrightarrow>
     (h_confidential h \<or> h_sensitive h \<longrightarrow>
        h_destination h \<noteq> None \<and> h_kind h \<noteq> Signal \<and> h_kind h \<noteq> DirectedSignal)"

definition well_formed :: "message \<Rightarrow> bool" where
  "well_formed msg \<longleftrightarrow>
     (let h = m_header msg in
      kind_shape (h_kind h) h \<and> private_shape h \<and>
      (h_stream_reply h \<longrightarrow> h_kind h = MethodCall) \<and>
      (\<forall>e. h_expected_responder h = Some e \<longrightarrow> h_kind h = MethodCall \<and> is_unique e))"

lemma validate_cases: "validate msg = Inr u \<longleftrightarrow> well_formed msg"
  by (cases "h_kind (m_header msg)")
    (auto simp: validate_def well_formed_def private_shape_def Let_def split: option.splits)

lemma validate_errors: "validate msg = Inl e \<Longrightarrow> \<exists>t. e = Protocol t"
  by (auto simp: validate_def Let_def split: if_splits message_kind.splits)

section \<open>Properties\<close>

text \<open>
  The ingress contract: \<open>validate\<close> accepts exactly the well-formed messages, so an
  accepted private message is a call or a reply with one recipient, an accepted call is fully
  addressed, an accepted reply names its call, and a signal is at most addressed to a unique
  name.
\<close>

theorem validate_accepts_well_formed:
  "(validate msg = Inr () \<longleftrightarrow> well_formed msg) \<and>
   (validate msg = Inr () \<or> (\<exists>t. validate msg = Inl (Protocol t)))"
  using validate_cases [of msg "()"] validate_errors [of msg] by (cases "validate msg") auto

text \<open>
  The identity of an error survives a crossing of the bus: the error a caller rebuilds
  from an error reply travels under the same wire name and the same lifecycle as the original,
  and with the same message, except for the canned text of a module that is initializing.
\<close>

theorem error_survives_crossing:
  "wire_name (into_error json_text (error_reply call err)) = wire_name err \<and>
   lifecycle_of (into_error json_text (error_reply call err)) = lifecycle_of err \<and>
   wire_message (into_error json_text (error_reply call err)) =
     (if lifecycle_of err = None then wire_message err
      else display (ModuleUnavailable ''module'' ''initializing''
             ''module initialization is still in progress''))"
proof (cases "lifecycle_of err")
  case None
  then show ?thesis by (simp add: into_error_def error_reply_def Let_def)
next
  case (Some l)
  then obtain m s d where e: "err = ModuleUnavailable m s d" "eq_ignore_ascii_case s ''initializing''"
    by (cases err) (auto split: if_splits)
  have "eq_ignore_ascii_case ''initializing'' ''initializing''"
    by (simp add: eq_ignore_ascii_case_def)
  with e show ?thesis by (simp add: into_error_def error_reply_def Let_def)
qed

text \<open>
  Both replies to an accepted call whose sender is stamped pass ingress themselves, go to
  the stamped unique name and answer the call's serial; the return keeps the call's
  confidentiality and the error never is confidential.
\<close>

theorem replies_are_routable:
  assumes "h_sender call = Some n"
  shows "validate (method_return call body) = Inr () \<and> validate (error_reply call err) = Inr () \<and>
    h_destination (m_header (method_return call body)) = Some n \<and>
    h_destination (m_header (error_reply call err)) = Some n \<and>
    h_reply_serial (m_header (method_return call body)) = Some (h_serial call) \<and>
    h_reply_serial (m_header (error_reply call err)) = Some (h_serial call) \<and>
    h_confidential (m_header (method_return call body)) = h_confidential call \<and>
    \<not> h_confidential (m_header (error_reply call err))"
  using assms by (simp add: validate_def method_return_def error_reply_def Let_def)

definition sample_call :: message where
  "sample_call =
     (let c = confidential_call (BusName ''ai.Wallet'') (ObjectPath ''/w'') (InterfaceName ''ai.W'')
        (MemberName ''Sign'') (JArray [])
      in c \<lparr> m_header := (m_header c) \<lparr> h_serial := 7, h_sender := Some (BusName '':1.4'') \<rparr> \<rparr>)"

theorem replies_are_routable_witness:
  "validate (method_return (m_header sample_call) JNull) = Inr () \<and>
   h_confidential (m_header (method_return (m_header sample_call) JNull))"
  using replies_are_routable [of "m_header sample_call" "BusName '':1.4''" JNull ConnectionClosed]
  by (simp add: sample_call_def confidential_call_def method_call_def Let_def)

text \<open>Every constructor builds a message that ingress accepts.\<close>

lemma builders_validate:
  "validate (method_call d p i m b) = Inr ()"
  "validate (confidential_call d p i m b) = Inr ()"
  "validate (sensitive_control_call d p i m b) = Inr ()"
  "validate (streaming_call d p i m b) = Inr ()"
  "validate (signal p i m b) = Inr ()"
  "is_unique d \<Longrightarrow> validate (signal_to d p i m b) = Inr ()"
  "is_unique d \<Longrightarrow> validate (directed_signal d p i m b) = Inr ()"
  by (simp_all add: validate_def message_builders)

end
