(* ===== verification/Base64.thy ===== *)
theory Base64
  imports Errors "HOL-Library.Word"
begin

text \<open>
  The chunk codec of \<open>stream/base64.rs\<close>: padded standard base64. A byte is an \<open>8 word\<close>; the
  \<open>u32\<close> accumulator never exceeds 24 bits and is a natural number with the bit operations
  of the code. The theory opens with the interface of a byte codec.
\<close>

unbundle bit_operations_syntax

type_synonym byte = "8 word"
type_synonym bytes = "byte list"

text \<open>What a client needs of a codec: decoding inverts encoding, so encoding is injective.\<close>

locale byte_codec =
  fixes enc :: "'a \<Rightarrow> 't" and dec :: "'t \<Rightarrow> 'a result" and fits :: "'a \<Rightarrow> bool"
  assumes dec_enc: "fits x \<Longrightarrow> dec (enc x) = Inr x"
begin

lemma enc_inj: "fits x \<Longrightarrow> fits y \<Longrightarrow> enc x = enc y \<Longrightarrow> x = y"
  by (metis dec_enc sum.inject(2))

lemma dec_enc_map: "list_all fits xs \<Longrightarrow> map (dec \<circ> enc) xs = map Inr xs"
  by (induction xs) (simp_all add: dec_enc)

end

definition ALPHABET :: string where
  "ALPHABET = ''ABCDEFGHIJKLMNOPQRSTUVWXYZabcdefghijklmnopqrstuvwxyz0123456789+/''"

definition encode_group :: "bytes \<Rightarrow> string" where
  "encode_group grp =
     (let b0 = unat (grp ! 0);
          b1 = (if 1 < length grp then unat (grp ! 1) else 0);
          b2 = (if 2 < length grp then unat (grp ! 2) else 0);
          packed = push_bit 16 b0 OR push_bit 8 b1 OR b2 in
      [ALPHABET ! (drop_bit 18 packed AND 63),
       ALPHABET ! (drop_bit 12 packed AND 63),
       (if 1 < length grp then ALPHABET ! (drop_bit 6 packed AND 63) else CHR ''=''),
       (if 2 < length grp then ALPHABET ! (packed AND 63) else CHR ''='')])"

definition b64_encode :: "bytes \<Rightarrow> string" where
  "b64_encode bs = concat (map encode_group (chunks 3 bs))"

definition decode_symbol :: "char \<Rightarrow> nat result" where
  "decode_symbol c =
     (let n = of_char c :: nat in
      if 65 \<le> n \<and> n \<le> 90 then Inr (n - 65)
      else if 97 \<le> n \<and> n \<le> 122 then Inr (n - 97 + 26)
      else if 48 \<le> n \<and> n \<le> 57 then Inr (n - 48 + 52)
      else if n = 43 then Inr 62
      else if n = 47 then Inr 63
      else Inl (Protocol ''base64 chunk has a symbol outside the alphabet''))"

text \<open>The loop over the symbols of one group, with \<open>packed\<close> and \<open>kept\<close>.\<close>

fun decode_symbols :: "bool \<Rightarrow> nat \<Rightarrow> nat \<Rightarrow> nat \<Rightarrow> string \<Rightarrow> (nat \<times> nat) result" where
  "decode_symbols is_last position packed kept [] = Inr (packed, kept)"
| "decode_symbols is_last position packed kept (c # cs) =
     (if c = CHR ''='' then
        (if \<not> is_last \<or> position < 2 then
           Inl (Protocol ''base64 chunk has misplaced padding'')
         else decode_symbols is_last (position + 1) (push_bit 6 packed OR 0)
                (min kept (position - 1)) cs)
      else (case decode_symbol c of
              Inl e \<Rightarrow> Inl e
            | Inr v \<Rightarrow>
                decode_symbols is_last (position + 1) (push_bit 6 packed OR v) kept cs))"

definition decode_group :: "bool \<Rightarrow> string \<Rightarrow> bytes result" where
  "decode_group is_last grp =
     (case decode_symbols is_last 0 0 3 grp of
        Inl e \<Rightarrow> Inl e
      | Inr (packed, kept) \<Rightarrow>
          (let slack = (3 - kept) * 8 in
           if 0 < slack \<and> packed AND (2 ^ slack - 1) \<noteq> 0 then
             Inl (Protocol ''base64 chunk has non-canonical padding'')
           else Inr (map (\<lambda>i. word_of_nat (drop_bit (16 - i * 8) packed)) [0..<kept])))"

fun decode_groups :: "string list \<Rightarrow> bytes result" where
  "decode_groups [] = Inr []"
| "decode_groups (g # gs) =
     (case decode_group (gs = []) g of
        Inl e \<Rightarrow> Inl e
      | Inr bs \<Rightarrow> (case decode_groups gs of Inl e \<Rightarrow> Inl e | Inr cs \<Rightarrow> Inr (bs @ cs)))"

definition b64_decode :: "string \<Rightarrow> bytes result" where
  "b64_decode text =
     (if length text mod 4 \<noteq> 0 then
        Inl (Protocol ''base64 chunk length is not a multiple of four'')
      else decode_groups (chunks 4 text))"

section \<open>Bits as numbers\<close>

lemma push_or: "v < 2 ^ n \<Longrightarrow> push_bit n a OR v = a * 2 ^ n + (v :: nat)"
proof -
  assume "v < 2 ^ n"
  then have v: "take_bit n v = v" by (simp add: take_bit_nat_eq_self_iff)
  have "push_bit n a AND take_bit n v = 0" by (rule bit_eqI) (auto simp: bit_simps)
  then show ?thesis using v by (simp add: disjunctive_add_eq_or [symmetric] push_bit_eq_mult)
qed

lemma and63: "(x :: nat) AND 63 = x mod 64"
  using take_bit_eq_mask [of 6 x] by (simp add: take_bit_eq_mod mask_eq_exp_minus_1)

lemma and_low: "(x :: nat) AND (2 ^ n - 1) = x mod 2 ^ n"
  using take_bit_eq_mask [of n x] by (simp add: take_bit_eq_mod mask_eq_exp_minus_1)

lemma byte_lt: "unat (b :: byte) < 256"
  using unsigned_less [of b] by simp

lemma packed_value:
  fixes b0 b1 b2 :: byte
  shows "push_bit 16 (unat b0) OR push_bit 8 (unat b1) OR unat b2 =
         unat b0 * 65536 + unat b1 * 256 + unat b2"
proof -
  have "push_bit 8 (unat b1) OR unat b2 = unat b1 * 256 + unat b2"
    using push_or [of "unat b2" 8 "unat b1"] byte_lt [of b2] by simp
  moreover have "push_bit 16 (unat b0) OR (unat b1 * 256 + unat b2) =
      unat b0 * 65536 + (unat b1 * 256 + unat b2)"
    using push_or [of "unat b1 * 256 + unat b2" 16 "unat b0"] byte_lt [of b1] byte_lt [of b2] by simp
  ultimately show ?thesis by (simp add: or.assoc)
qed

section \<open>Symbols\<close>

definition sym :: "nat \<Rightarrow> char" where
  "sym v = ALPHABET ! v"

lemma sym_char:
  "v < 26 \<Longrightarrow> sym v = char_of (65 + v)"
  "v < 26 \<Longrightarrow> sym (26 + v) = char_of (97 + v)"
  "v < 10 \<Longrightarrow> sym (52 + v) = char_of (48 + v)"
  "sym 62 = CHR ''+''" "sym 63 = CHR ''/''"
proof -
  have "list_all (\<lambda>v. sym v = char_of (65 + v) \<and> sym (26 + v) = char_of (97 + v)) [0..<26]"
    by code_simp
  moreover have "list_all (\<lambda>v. sym (52 + v) = char_of (48 + v)) [0..<10]" by code_simp
  ultimately show "v < 26 \<Longrightarrow> sym v = char_of (65 + v)"
    "v < 26 \<Longrightarrow> sym (26 + v) = char_of (97 + v)"
    "v < 10 \<Longrightarrow> sym (52 + v) = char_of (48 + v)"
    by (simp_all add: list_all_iff)
qed (simp_all add: sym_def ALPHABET_def)

lemma of_char_of_nat: "n < 256 \<Longrightarrow> of_char (char_of n :: char) = (n :: nat)"
  by (simp add: of_char_of)

lemma symbol_ranges:
  assumes "(v :: nat) < 64"
  obtains "v < 26" | w where "w < 26" "v = 26 + w" | w where "w < 10" "v = 52 + w" | "v = 62" | "v = 63"
proof -
  consider "v < 26" | "26 \<le> v" "v < 52" | "52 \<le> v" "v < 62" | "v = 62" | "v = 63"
    using assms by linarith
  then show thesis
  proof cases
    case 2
    then show ?thesis using that(2) [of "v - 26"] by simp
  next
    case 3
    then show ?thesis using that(3) [of "v - 52"] by simp
  qed (use that in blast)+
qed

lemma decode_sym: "v < 64 \<Longrightarrow> decode_symbol (sym v) = Inr v"
  by (erule symbol_ranges) (simp_all add: sym_char decode_symbol_def Let_def of_char_of_nat)

lemma sym_pad: "v < 64 \<Longrightarrow> sym v \<noteq> CHR ''=''"
  using decode_sym [of v] by (auto simp: decode_symbol_def Let_def)

lemma char_codes: "char_of (43 :: nat) = CHR ''+''" "char_of (47 :: nat) = CHR ''/''"
  by code_simp+

lemma decode_symbol_sym: "decode_symbol c = Inr v \<Longrightarrow> v < 64 \<and> c = sym v"
proof -
  assume d: "decode_symbol c = Inr v"
  define n where "n = (of_char c :: nat)"
  have c: "c = char_of n" by (simp add: n_def)
  consider "65 \<le> n" "n \<le> 90" | "97 \<le> n" "n \<le> 122" | "48 \<le> n" "n \<le> 57" | "n = 43" | "n = 47"
    using d by (fastforce simp: decode_symbol_def Let_def n_def split: if_splits)
  then show ?thesis
  proof cases
    case 1
    then have "v = n - 65" using d by (simp add: decode_symbol_def Let_def n_def)
    with 1 c show ?thesis using sym_char(1) [of v] by simp
  next
    case 2
    then have "v = 26 + (n - 97)" using d by (simp add: decode_symbol_def Let_def n_def)
    with 2 c show ?thesis using sym_char(2) [of "n - 97"] by simp
  next
    case 3
    then have "v = 52 + (n - 48)" using d by (simp add: decode_symbol_def Let_def n_def)
    with 3 c show ?thesis using sym_char(3) [of "n - 48"] by simp
  next
    case 4
    then have "v = 62" using d by (simp add: decode_symbol_def Let_def n_def)
    with 4 c show ?thesis by (simp add: sym_char char_codes)
  next
    case 5
    then have "v = 63" using d by (simp add: decode_symbol_def Let_def n_def)
    with 5 c show ?thesis by (simp add: sym_char char_codes)
  qed
qed

section \<open>Groups\<close>

definition b24 :: "bytes \<Rightarrow> nat" where
  "b24 bs =
     unat (bs ! 0) * 65536 + (if 1 < length bs then unat (bs ! 1) else 0) * 256 +
     (if 2 < length bs then unat (bs ! 2) else 0)"

lemma b24_less: "b24 bs < 16777216"
  using byte_lt [of "bs ! 0"] byte_lt [of "bs ! 1"] byte_lt [of "bs ! 2"] by (auto simp: b24_def)

lemma encode_group_sym:
  "encode_group bs =
     [sym (b24 bs div 262144), sym (b24 bs div 4096 mod 64),
      (if 1 < length bs then sym (b24 bs div 64 mod 64) else CHR ''=''),
      (if 2 < length bs then sym (b24 bs mod 64) else CHR ''='')]"
proof -
  have z: "(if q then unat (x :: byte) else 0) = unat (if q then x else 0)" for q x by simp
  have pk: "push_bit 16 (unat (bs ! 0)) OR push_bit 8 (if 1 < length bs then unat (bs ! 1) else 0) OR
      (if 2 < length bs then unat (bs ! 2) else 0) = b24 bs"
    unfolding b24_def z packed_value ..
  have top: "b24 bs div 262144 mod 64 = b24 bs div 262144" using b24_less [of bs] by simp
  show ?thesis
    unfolding encode_group_def Let_def pk and63 sym_def by (simp add: drop_bit_eq_div top)
qed

lemma decode_symbols_step:
  "v < 64 \<Longrightarrow> decode_symbols l pos p k (sym v # cs) = decode_symbols l (pos + 1) (p * 64 + v) k cs"
  by (simp add: decode_sym sym_pad push_or [of v 6, simplified])

lemma decode_symbols_pad:
  "2 \<le> pos \<Longrightarrow> decode_symbols True pos p k (CHR ''='' # cs) =
     decode_symbols True (pos + 1) (p * 64) (min k (pos - 1)) cs"
  by (simp add: push_or [of 0 6, simplified])

lemma word_of_nat_unat: "p mod 256 = unat w \<Longrightarrow> word_of_nat p = (w :: byte)"
  by (simp add: word_unat_eq_iff unat_of_nat)

lemma digit_split: "d < m \<Longrightarrow> (x * m + d) div m = x \<and> (x * m + d) mod m = (d :: nat)"
  by simp

lemma digits256:
  assumes "a < 256" "b < 256" "c < (256 :: nat)"
  shows "(a * 65536 + b * 256 + c) div 65536 mod 256 = a"
    and "(a * 65536 + b * 256 + c) div 256 mod 256 = b"
    and "(a * 65536 + b * 256 + c) mod 256 = c"
proof -
  have n: "a * 65536 + b * 256 + c = (a * 256 + b) * 256 + c" by simp
  have low: "(a * 65536 + b * 256 + c) div 256 = a * 256 + b"
    unfolding n using digit_split [OF assms(3)] by blast
  have "(a * 65536 + b * 256 + c) div 65536 = (a * 65536 + b * 256 + c) div 256 div 256"
    by (simp add: div_mult2_eq [symmetric])
  then show "(a * 65536 + b * 256 + c) div 65536 mod 256 = a"
    using digit_split [OF assms(2), of a] assms(1) by (simp add: low)
  show "(a * 65536 + b * 256 + c) div 256 mod 256 = b"
    using digit_split [OF assms(2), of a] by (simp add: low)
  show "(a * 65536 + b * 256 + c) mod 256 = c"
    unfolding n using digit_split [OF assms(3)] by blast
qed

lemma bytes_of_b24:
  assumes "length bs \<le> 3"
  shows "map (\<lambda>i. word_of_nat (drop_bit (16 - i * 8) (b24 bs))) [0..<length bs] = bs"
proof (rule nth_equalityI)
  fix i
  assume "i < length (map (\<lambda>i. word_of_nat (drop_bit (16 - i * 8) (b24 bs)) :: byte) [0..<length bs])"
  then have i: "i < length bs" by simp
  define b1 where "b1 = (if 1 < length bs then unat (bs ! 1) else 0)"
  define b2 where "b2 = (if 2 < length bs then unat (bs ! 2) else 0)"
  have b: "b24 bs = unat (bs ! 0) * 65536 + b1 * 256 + b2" and lt: "b1 < 256" "b2 < 256"
    using byte_lt by (simp_all add: b24_def b1_def b2_def)
  note d = digits256 [OF byte_lt [of "bs ! 0"] lt, folded b]
  have "i = 0 \<or> i = 1 \<or> i = 2" using i assms by linarith
  then have "drop_bit (16 - i * 8) (b24 bs) mod 256 = unat (bs ! i)"
    using i d by (auto simp: drop_bit_eq_div b1_def b2_def)
  then have "word_of_nat (drop_bit (16 - i * 8) (b24 bs)) = bs ! i" by (rule word_of_nat_unat)
  then show "map (\<lambda>i. word_of_nat (drop_bit (16 - i * 8) (b24 bs))) [0..<length bs] ! i = bs ! i"
    using i by simp
qed simp

text \<open>Four symbols and the number they spell.\<close>

lemma quot64:
  "n div 4096 = (n :: nat) div 64 div 64" "n div 262144 = (n :: nat) div 64 div 64 div 64"
  by (simp_all add: div_mult2_eq [symmetric])

lemma spell:
  "((n div 262144 * 64 + n div 4096 mod 64) * 64 + n div 64 mod 64) * 64 + n mod 64 = (n :: nat)"
  unfolding quot64 by simp

lemma spelled:
  assumes "a < 64" "b < 64" "c < 64" "d < (64 :: nat)"
  defines "n \<equiv> ((a * 64 + b) * 64 + c) * 64 + d"
  shows "n < 16777216" "n div 262144 = a" "n div 4096 mod 64 = b" "n div 64 mod 64 = c" "n mod 64 = d"
proof -
  have n1: "n div 64 = (a * 64 + b) * 64 + c" "n mod 64 = d"
    unfolding n_def using digit_split [OF assms(4)] by blast+
  have n2: "n div 64 div 64 = a * 64 + b" "n div 64 mod 64 = c"
    unfolding n1 using digit_split [OF assms(3)] by blast+
  have n3: "n div 64 div 64 div 64 = a" "n div 64 div 64 mod 64 = b"
    unfolding n2 using digit_split [OF assms(2)] by blast+
  show top: "n div 262144 = a" and "n div 4096 mod 64 = b" and "n div 64 mod 64 = c" and "n mod 64 = d"
    using n1 n2 n3 by (simp_all only: quot64)
  show "n < 16777216"
    using top assms(1) div_less_iff_less_mult [of 262144 n 64] by simp
qed

definition slack_ok :: "nat \<Rightarrow> nat \<Rightarrow> bool" where
  "slack_ok kept packed \<longleftrightarrow> packed mod 2 ^ ((3 - kept) * 8) = 0"

lemma decode_group_eq:
  "decode_symbols l 0 0 3 g = Inr (packed, kept) \<Longrightarrow>
   decode_group l g =
     (if slack_ok kept packed
      then Inr (map (\<lambda>i. word_of_nat (drop_bit (16 - i * 8) packed)) [0..<kept])
      else Inl (Protocol ''base64 chunk has non-canonical padding''))"
  using and_low [of packed "(3 - kept) * 8"]
  by (cases "kept < 3") (auto simp: decode_group_def slack_ok_def Let_def)

lemma b24_slack: "bs \<noteq> [] \<Longrightarrow> length bs \<le> 3 \<Longrightarrow> slack_ok (length bs) (b24 bs)"
proof -
  assume "bs \<noteq> []" "length bs \<le> 3"
  then consider "length bs = 1" | "length bs = 2" | "length bs = 3"
    by (cases bs) (auto simp: le_Suc_eq numeral_3_eq_3)
  then show ?thesis by cases (simp_all add: slack_ok_def b24_def)
qed

lemma group_round_trip:
  assumes "bs \<noteq> []" and "length bs \<le> 3" and "length bs = 3 \<or> is_last"
  shows "decode_group is_last (encode_group bs) = Inr bs"
proof -
  let ?p = "b24 bs"
  have lt: "?p div 262144 < 64" using b24_less [of bs] by (simp add: div_less_iff_less_mult)
  have m: "x mod 64 < 64" for x :: nat by simp
  note step = decode_symbols_step [OF lt] decode_symbols_step [OF m] decode_symbols_pad
  have slack: "slack_ok (length bs) ?p" using b24_slack assms by blast
  consider "length bs = 3" | "length bs = 2" "is_last" | "length bs = 1" "is_last"
    using assms by (cases bs) (auto simp: le_Suc_eq numeral_3_eq_3)
  then have "decode_symbols is_last 0 0 3 (encode_group bs) = Inr (?p, length bs)"
  proof cases
    case 1
    then show ?thesis
      using spell [of ?p] unfolding encode_group_sym by (simp add: step del: decode_symbols.simps(2))
  next
    case 2
    then have "?p mod 64 = 0" by (simp add: b24_def mod_mult_right_eq)
    with 2 show ?thesis
      using spell [of ?p] unfolding encode_group_sym by (simp add: step del: decode_symbols.simps(2))
  next
    case 3
    then have "?p mod 64 = 0" "?p div 64 mod 64 = 0" by (simp_all add: b24_def)
    with 3 show ?thesis
      using spell [of ?p] unfolding encode_group_sym by (simp add: step del: decode_symbols.simps(2))
  qed
  then show ?thesis
    using slack bytes_of_b24 [OF assms(2)] by (simp add: decode_group_eq)
qed

lemma chunks_empty_iff: "0 < n \<Longrightarrow> chunks n xs = [] \<longleftrightarrow> xs = []"
  by (subst chunks.simps) simp

lemma length_encode_group [simp]: "length (encode_group g) = 4"
  by (simp add: encode_group_sym)

lemma decode_encode_groups: "decode_groups (map encode_group (chunks 3 bs)) = Inr bs"
proof (induction "3 :: nat" bs rule: chunks.induct)
  case (1 bs)
  show ?case
  proof (cases "bs = []")
    case False
    then have "decode_group (map encode_group (chunks 3 (drop 3 bs)) = [])
        (encode_group (take 3 bs)) = Inr (take 3 bs)"
      by (intro group_round_trip) (auto simp: chunks_empty_iff)
    moreover have "decode_groups (map encode_group (chunks 3 (drop 3 bs))) = Inr (drop 3 bs)"
      using 1 False by simp
    ultimately show ?thesis using False by (subst chunks.simps) simp
  qed simp
qed

lemma chunks_encode: "chunks 4 (b64_encode bs) = map encode_group (chunks 3 bs)"
  by (simp add: b64_encode_def chunks_concat)

lemma length_encode: "length (b64_encode bs) = 4 * length (chunks 3 bs)"
  by (simp add: b64_encode_def length_concat sum_list_triv comp_def)

lemma decode_encode: "b64_decode (b64_encode bs) = Inr bs"
  by (simp add: b64_decode_def length_encode chunks_encode decode_encode_groups)

interpretation b64: byte_codec b64_encode b64_decode "\<lambda>_. True"
  by unfold_locales (rule decode_encode)

section \<open>What the decoder accepts\<close>

text \<open>
  The spellings the decoder accepts for one group: the canonical one, and for a single byte
  at the end of a text also the one whose second padding mark is the letter A.
\<close>

definition spells :: "bool \<Rightarrow> string \<Rightarrow> bytes \<Rightarrow> bool" where
  "spells is_last g bs \<longleftrightarrow>
     bs \<noteq> [] \<and> length bs \<le> 3 \<and> (length bs = 3 \<or> is_last) \<and>
     (g = encode_group bs \<or>
      length bs = 1 \<and> g = take 3 (encode_group bs) @ [CHR ''A''])"

lemma b24_bytes:
  assumes "packed < 16777216" and "1 \<le> kept" and "kept \<le> 3" and "slack_ok kept packed"
  shows "b24 (map (\<lambda>i. word_of_nat (drop_bit (16 - i * 8) packed)) [0..<kept]) = packed"
proof -
  have u: "unat (word_of_nat x :: byte) = x mod 256" for x by (simp add: unat_of_nat)
  have top: "packed div 65536 mod 256 = packed div 65536" using assms(1) by simp
  have q: "packed div 65536 = packed div 256 div 256" by (simp add: div_mult2_eq [symmetric])
  have split3: "packed div 65536 * 65536 + packed div 256 mod 256 * 256 + packed mod 256 = packed"
  proof -
    have "packed div 256 div 256 * 256 + packed div 256 mod 256 = packed div 256" by simp
    moreover have "packed div 256 * 256 + packed mod 256 = packed" by simp
    ultimately show ?thesis unfolding q by linarith
  qed
  consider "kept = 1" | "kept = 2" | "kept = 3" using assms by linarith
  then show ?thesis
  proof cases
    case 1
    then have "packed mod 65536 = 0" using assms(4) by (simp add: slack_ok_def)
    then have "packed div 65536 * 65536 = packed" by auto
    with 1 top show ?thesis by (simp add: b24_def u drop_bit_eq_div)
  next
    case 2
    then have "packed mod 256 = 0" using assms(4) by (simp add: slack_ok_def)
    with 2 top split3 show ?thesis by (simp add: b24_def u drop_bit_eq_div upt_rec)
  next
    case 3
    with top split3 show ?thesis by (simp add: b24_def u drop_bit_eq_div upt_rec)
  qed
qed

lemma decode_symbols_symbol:
  assumes "c \<noteq> CHR ''=''" and "decode_symbols l pos p k (c # cs) = Inr r"
  shows "\<exists>v < 64. c = sym v \<and> decode_symbols l (pos + 1) (p * 64 + v) k cs = Inr r"
proof -
  obtain v where v: "decode_symbol c = Inr v" using assms by (auto split: sum.splits)
  then have "v < 64" "c = sym v" using decode_symbol_sym by blast+
  with assms(2) show ?thesis using decode_symbols_step [of v l pos p k cs] by metis
qed

text \<open>The shapes of an accepted group.\<close>

lemma decode_symbols_shape:
  assumes "decode_symbols l 0 0 3 [c0, c1, c2, c3] = Inr (packed, kept)"
  obtains (full) a b c d where "[c0, c1, c2, c3] = [sym a, sym b, sym c, sym d]"
      "a < 64" "b < 64" "c < 64" "d < 64" "packed = ((a * 64 + b) * 64 + c) * 64 + d" "kept = 3"
  | (one) a b c where "[c0, c1, c2, c3] = [sym a, sym b, sym c, CHR ''='']" "l"
      "a < 64" "b < 64" "c < 64" "packed = ((a * 64 + b) * 64 + c) * 64 + 0" "kept = 2"
  | (two) a b where "[c0, c1, c2, c3] = [sym a, sym b, CHR ''='', CHR ''='']" "l"
      "a < 64" "b < 64" "packed = ((a * 64 + b) * 64 + 0) * 64 + 0" "kept = 1"
  | (odd) a b d where "[c0, c1, c2, c3] = [sym a, sym b, CHR ''='', sym d]" "l"
      "a < 64" "b < 64" "d < 64" "packed = ((a * 64 + b) * 64 + 0) * 64 + d" "kept = 1"
proof -
  have nopad: "c = CHR ''='' \<Longrightarrow> decode_symbols l pos p k (c # cs) = Inr r \<Longrightarrow> l \<and> 2 \<le> pos" for c pos p k cs r
    by (auto split: if_splits)
  note symb = decode_symbols_symbol
  note del = decode_symbols.simps(2)
  have "c0 \<noteq> CHR ''=''" using nopad [OF _ assms] by auto
  then obtain a where a: "a < 64" "c0 = sym a"
    and r0: "decode_symbols l (0 + 1) (0 * 64 + a) 3 [c1, c2, c3] = Inr (packed, kept)"
    using symb [OF _ assms] by blast
  have "c1 \<noteq> CHR ''=''" using nopad [OF _ r0] by auto
  then obtain b where b: "b < 64" "c1 = sym b"
    and r1: "decode_symbols l 2 (a * 64 + b) 3 [c2, c3] = Inr (packed, kept)"
    using symb [OF _ r0] by (auto simp: numeral_2_eq_2 simp del: del)
  show thesis
  proof (cases "c2 = CHR ''=''")
    case False
    then obtain c where c: "c < 64" "c2 = sym c"
      and r2: "decode_symbols l 3 ((a * 64 + b) * 64 + c) 3 [c3] = Inr (packed, kept)"
      using symb [OF _ r1] by (auto simp: numeral_3_eq_3 numeral_2_eq_2 simp del: del)
    show thesis
    proof (cases "c3 = CHR ''=''")
      case False
      then obtain d where "d < 64" "c3 = sym d" "packed = ((a * 64 + b) * 64 + c) * 64 + d" "kept = 3"
        using symb [OF _ r2] by (auto simp del: del)
      with a b c show thesis by (intro full) auto
    next
      case True
      then have l using nopad r2 by blast
      with r2 True have "packed = ((a * 64 + b) * 64 + c) * 64 + 0" "kept = 2"
        by (auto simp: decode_symbols_pad simp del: del)
      with \<open>l\<close> a b c True show thesis by (intro one) auto
    qed
  next
    case True
    then have l using nopad r1 by blast
    with r1 True have r2: "decode_symbols l 3 ((a * 64 + b) * 64 + 0) 1 [c3] = Inr (packed, kept)"
      by (auto simp: decode_symbols_pad simp del: del)
    show thesis
    proof (cases "c3 = CHR ''=''")
      case False
      then obtain d where "d < 64" "c3 = sym d" "packed = ((a * 64 + b) * 64 + 0) * 64 + d" "kept = 1"
        using symb [OF _ r2] by (auto simp del: del)
      with \<open>l\<close> a b True show thesis by (intro odd) auto
    next
      case c3: True
      with r2 \<open>l\<close> have "packed = ((a * 64 + b) * 64 + 0) * 64 + 0" "kept = 1"
        by (auto simp: decode_symbols_pad simp del: del)
      with \<open>l\<close> a b True c3 show thesis by (intro two) auto
    qed
  qed
qed

lemma decode_group_spells:
  assumes "decode_group l g = Inr bs" and "length g = 4"
  shows "spells l g bs"
proof -
  obtain c0 c1 c2 c3 where g: "g = [c0, c1, c2, c3]"
    using assms(2) by (auto simp: length_Suc_conv numeral_eq_Suc)
  obtain packed kept where r: "decode_symbols l 0 0 3 [c0, c1, c2, c3] = Inr (packed, kept)"
    using assms(1) by (auto simp: decode_group_def g split: sum.splits)
  then have ok: "slack_ok kept packed"
    and bs: "bs = map (\<lambda>i. word_of_nat (drop_bit (16 - i * 8) packed)) [0..<kept]"
    using assms(1) decode_group_eq [OF r] by (auto simp: g split: if_splits)
  have len: "length bs = kept" by (simp add: bs)
  have enc: "encode_group bs =
      [sym (packed div 262144), sym (packed div 4096 mod 64),
       (if 1 < kept then sym (packed div 64 mod 64) else CHR ''=''),
       (if 2 < kept then sym (packed mod 64) else CHR ''='')]"
    if "packed < 16777216" "1 \<le> kept" "kept \<le> 3"
    using b24_bytes [OF that ok] unfolding encode_group_sym len bs [symmetric] by simp
  from r show ?thesis
  proof (cases rule: decode_symbols_shape)
    case (full a b c d)
    note sp = spelled [OF full(2,3,4,5), folded full(6)]
    have "encode_group bs = g" using enc [OF sp(1)] full(1,7) sp(2,3,4,5) by (simp add: g)
    then show ?thesis using len full(7) by (auto simp: spells_def)
  next
    case (one a b c)
    note sp = spelled [OF one(3,4,5), of 0, folded one(6)]
    have "encode_group bs = g" using enc [OF sp(1)] one(1,7) sp(2,3,4) by (simp add: g)
    then show ?thesis using len one(2,7) by (auto simp: spells_def)
  next
    case (two a b)
    note sp = spelled [OF two(3,4), of 0 0, folded two(5)]
    have "encode_group bs = g" using enc [OF sp(1)] two(1,6) sp(2,3) by (simp add: g)
    then show ?thesis using len two(2,6) by (auto simp: spells_def)
  next
    case (odd a b d)
    note sp = spelled [OF odd(3,4) _ odd(5), of 0, folded odd(6)]
    have e: "encode_group bs = [sym a, sym b, CHR ''='', CHR ''='']"
      using enc [OF sp(1)] odd(7) sp(2,3) by simp
    have "packed mod 65536 = 0" using ok odd(7) by (simp add: slack_ok_def)
    then have "65536 dvd packed" by (simp add: mod_eq_0_iff_dvd)
    moreover have "(64 :: nat) dvd 65536" by simp
    ultimately have "64 dvd packed" using dvd_trans by blast
    then have "d = 0" using sp(5) by auto
    moreover have "sym 0 = CHR ''A''" by (simp add: sym_def ALPHABET_def)
    ultimately show ?thesis using odd(1,2,7) len e by (auto simp: spells_def g)
  qed
qed

text \<open>A decoded text is the encoding of its bytes, up to the last group's second mark.\<close>

definition spelling_of :: "bytes \<Rightarrow> string \<Rightarrow> bool" where
  "spelling_of bs t \<longleftrightarrow>
     t = b64_encode bs \<or>
     (length bs mod 3 = 1 \<and>
      (\<exists>u. b64_encode bs = u @ [CHR ''=''] \<and> t = u @ [CHR ''A'']))"

lemma encode_Nil [simp]: "b64_encode [] = []"
  by (simp add: b64_encode_def)

lemma encode_last: "bs \<noteq> [] \<Longrightarrow> length bs \<le> 3 \<Longrightarrow> b64_encode bs = encode_group bs"
  by (simp add: b64_encode_def chunks_Cons)

lemma encode_full: "length b = 3 \<Longrightarrow> b64_encode (b @ cs) = encode_group b @ b64_encode cs"
proof -
  assume "length b = 3"
  moreover from this have "b @ cs \<noteq> []" by auto
  ultimately show ?thesis by (simp add: b64_encode_def chunks_Cons)
qed

lemma spells_spelling: "spells True g bs \<Longrightarrow> spelling_of bs g"
proof -
  assume s: "spells True g bs"
  then have e: "b64_encode bs = encode_group bs" by (simp add: spells_def encode_last)
  have "length bs = 1 \<Longrightarrow> encode_group bs = take 3 (encode_group bs) @ [CHR ''='']"
    by (simp add: encode_group_sym)
  with s e show ?thesis by (auto simp: spells_def spelling_of_def)
qed

lemma decode_groups_spelling:
  "decode_groups gs = Inr bs \<Longrightarrow> \<forall>g \<in> set gs. length g = 4 \<Longrightarrow> spelling_of bs (concat gs)"
proof (induction gs arbitrary: bs)
  case Nil
  then show ?case by (simp add: spelling_of_def)
next
  case (Cons g gs)
  then obtain b cs where b: "decode_group (gs = []) g = Inr b" and cs: "decode_groups gs = Inr cs"
    and bs: "bs = b @ cs"
    by (auto split: sum.splits)
  from b Cons.prems(2) have sp: "spells (gs = []) g b" by (auto intro: decode_group_spells)
  show ?case
  proof (cases "gs = []")
    case True
    with sp cs bs show ?thesis by (auto dest: spells_spelling)
  next
    case False
    with sp have full: "length b = 3" "g = encode_group b" by (auto simp: spells_def)
    have "spelling_of cs (concat gs)" using Cons.IH [OF cs] Cons.prems(2) by simp
    then show ?thesis using encode_full [OF full(1), of cs] full
      by (auto simp: spelling_of_def bs)
  qed
qed

lemma chunks_even:
  assumes "0 < n" and "length xs mod n = 0" and "ys \<in> set (chunks n xs)"
  shows "length ys = n"
  using assms
proof (induction n xs rule: chunks.induct)
  case (1 n xs)
  then have xs: "xs \<noteq> []" by auto
  then have "n \<le> length xs" using 1(2,3) by (metis length_greater_0_conv mod_less not_le less_not_refl)
  moreover from this have "length (drop n xs) mod n = 0" using 1(3) by (simp add: le_mod_geq)
  ultimately show ?case using 1 xs by (auto simp: chunks_Cons)
qed

section \<open>Properties\<close>

text \<open>
  Decoding inverts encoding for every byte sequence, so what a writer sends in a chunk is
  what the reader gets, and two chunks never share an encoding.
\<close>

theorem base64_round_trip:
  "b64_decode (b64_encode bs) = Inr bs \<and> (b64_encode bs = b64_encode cs \<longrightarrow> bs = cs)"
  using b64.dec_enc [of bs] b64.enc_inj [of bs cs] by blast

theorem base64_round_trip_witness:
  "b64_decode (b64_encode [0x66, 0x6F]) = Inr [0x66, 0x6F] \<and> b64_encode [0x66] \<noteq> b64_encode [0x6F]"
  using base64_round_trip [of "[0x66, 0x6F]"] base64_round_trip [of "[0x66]" "[0x6F]"] by auto

text \<open>
  The decoder is strict up to one symbol: a text it accepts is the encoding of the bytes
  it returns, or differs from it only in the very last symbol, an A instead of the second
  padding mark after a single trailing byte.
\<close>

theorem base64_nearly_canonical:
  assumes "b64_decode t = Inr bs"
  shows "t = b64_encode bs \<or>
    (length bs mod 3 = 1 \<and> (\<exists>u. b64_encode bs = u @ [CHR ''=''] \<and> t = u @ [CHR ''A'']))"
proof -
  have len: "length t mod 4 = 0" and d: "decode_groups (chunks 4 t) = Inr bs"
    using assms by (auto simp: b64_decode_def split: if_splits)
  have "\<forall>g \<in> set (chunks 4 t). length g = 4" using chunks_even [OF _ len] by simp
  then have "spelling_of bs (concat (chunks 4 t))" using decode_groups_spelling [OF d] by blast
  then show ?thesis by (simp add: concat_chunks spelling_of_def)
qed

theorem base64_nearly_canonical_witness:
  "\<exists>t. b64_decode t = Inr [1, 2, 3] \<and> (\<forall>u. b64_decode u = Inr [1, 2, 3] \<longrightarrow> u = t)"
proof -
  have "b64_decode (b64_encode [1, 2, 3]) = Inr [1, 2, 3]" by (rule b64.dec_enc) simp
  moreover have "u = b64_encode [1, 2, 3]" if "b64_decode u = Inr [1, 2, 3]" for u
    using base64_nearly_canonical [OF that] by simp
  ultimately show ?thesis by blast
qed

text \<open>
  The remaining laxity is real: for every byte, the text whose second padding mark is
  replaced by an A decodes to the same chunk as the canonical text.
\<close>

theorem base64_two_spellings:
  "b64_decode (take 3 (b64_encode [b]) @ [CHR ''A'']) = b64_decode (b64_encode [b]) \<and>
   take 3 (b64_encode [b]) @ [CHR ''A''] \<noteq> b64_encode [b]"
proof -
  let ?p = "b24 [b]"
  have p: "?p div 262144 < 64" "?p div 4096 mod 64 < 64" "(0 :: nat) < 64"
    using b24_less [of "[b]"] by (simp_all add: div_less_iff_less_mult)
  have low: "?p mod 64 = 0" "?p div 64 mod 64 = 0" by (simp_all add: b24_def)
  have a: "sym 0 = CHR ''A''" by (simp add: sym_def ALPHABET_def)
  have e: "b64_encode [b] = [sym (?p div 262144), sym (?p div 4096 mod 64), CHR ''='', CHR ''='']"
    by (simp add: encode_last encode_group_sym)
  let ?t = "[sym (?p div 262144), sym (?p div 4096 mod 64), CHR ''='', sym 0]"
  have "decode_symbols True 0 0 3 ?t = Inr (?p, 1)"
    using spell [of ?p] decode_symbols_step [OF p(1)] decode_symbols_step [OF p(2)]
      decode_symbols_step [OF p(3)] decode_symbols_pad low
    by (simp del: decode_symbols.simps(2))
  moreover have "slack_ok 1 ?p" using b24_slack [of "[b]"] by simp
  ultimately have g: "decode_group True ?t = Inr [b]"
    using bytes_of_b24 [of "[b]"] by (simp add: decode_group_eq)
  have "chunks 4 ?t = [?t]" by (simp add: chunks_Cons)
  then have "b64_decode ?t = Inr [b]" using g by (simp add: b64_decode_def)
  then show ?thesis using b64.dec_enc [of "[b]"] by (simp add: e a)
qed

end
