(* ===== verification/Codec.thy ===== *)
theory Codec
  imports Base64 Messages
begin

text \<open>
  Framing (\<open>message/codec.rs\<close>) and the stream transport around it (\<open>transport/unix.rs\<close>): a
  four-byte big-endian length, then that many bytes. The socket is the byte sequence still
  to be read, after which the peer has hung up. The JSON rendering of a message is serde_json's
  and is an argument: \<open>to_vec\<close> and \<open>from_slice\<close>.
\<close>

definition MAX_FRAME_LEN :: nat where
  "MAX_FRAME_LEN = 16 * 1024 * 1024"

definition LENGTH_PREFIX_LEN :: nat where
  "LENGTH_PREFIX_LEN = 4"

text \<open>\<open>u32::to_be_bytes\<close> and \<open>u32::from_be_bytes\<close>.\<close>

definition u32_be :: "nat \<Rightarrow> bytes" where
  "u32_be n = map (\<lambda>i. word_of_nat (n div 256 ^ i)) [3, 2, 1, 0]"

definition be_u32 :: "bytes \<Rightarrow> nat" where
  "be_u32 bs = foldl (\<lambda>a b. a * 256 + unat b) 0 bs"

definition frame :: "bytes \<Rightarrow> bytes result" where
  "frame payload =
     (if length payload > MAX_FRAME_LEN then
        Inl (Protocol (''frame of '' @ show_nat (length payload) @ '' bytes exceeds the '' @
                       show_nat MAX_FRAME_LEN @ ''-byte cap''))
      else Inr (u32_be (length payload mod 2 ^ 32) @ payload))"

definition encode :: "('m \<Rightarrow> bytes result) \<Rightarrow> 'm \<Rightarrow> bytes result" where
  "encode to_vec value = (case to_vec value of Inl e \<Rightarrow> Inl e | Inr p \<Rightarrow> frame p)"

definition decode_length :: "bytes \<Rightarrow> nat result" where
  "decode_length pfx =
     (let len = be_u32 pfx in
      if len > MAX_FRAME_LEN then
        Inl (Protocol (''peer announced a '' @ show_nat len @ ''-byte frame, over the '' @
                       show_nat MAX_FRAME_LEN @ ''-byte cap''))
      else Inr len)"

text \<open>
  \<open>UnixTransport::recv\<close> up to decoding, on the unread bytes: the payload, if any, and what is
  left unread. A short read at the prefix is the end of the stream; a short read of the
  payload is an error.
\<close>

definition recv_frame :: "bytes \<Rightarrow> bytes option result \<times> bytes" where
  "recv_frame bs =
     (if length bs < LENGTH_PREFIX_LEN then (Inr None, [])
      else (case decode_length (take LENGTH_PREFIX_LEN bs) of
              Inl e \<Rightarrow> (Inl e, drop LENGTH_PREFIX_LEN bs)
            | Inr len \<Rightarrow>
                (let rest = drop LENGTH_PREFIX_LEN bs in
                 if length rest < len then (Inl (Protocol ''peer disappeared mid-frame''), [])
                 else (Inr (Some (take len rest)), drop len rest))))"

definition recv :: "(bytes \<Rightarrow> 'm result) \<Rightarrow> bytes \<Rightarrow> 'm option result \<times> bytes" where
  "recv from_slice bs =
     (case recv_frame bs of
        (Inl e, rest) \<Rightarrow> (Inl e, rest)
      | (Inr None, rest) \<Rightarrow> (Inr None, rest)
      | (Inr (Some p), rest) \<Rightarrow> (map_sum id Some (from_slice p), rest))"

text \<open>What a transport does with a sequence of sends: each frame is written whole.\<close>

fun send_all :: "('m \<Rightarrow> bytes result) \<Rightarrow> 'm list \<Rightarrow> bytes result" where
  "send_all to_vec [] = Inr []"
| "send_all to_vec (m # ms) =
     (case encode to_vec m of
        Inl e \<Rightarrow> Inl e
      | Inr f \<Rightarrow> (case send_all to_vec ms of Inl e \<Rightarrow> Inl e | Inr fs \<Rightarrow> Inr (f @ fs)))"

text \<open>What a reader task sees: messages until the end of the stream or an error.\<close>

fun recv_all :: "(bytes \<Rightarrow> 'm result) \<Rightarrow> nat \<Rightarrow> bytes \<Rightarrow> 'm list \<times> unit result" where
  "recv_all from_slice 0 bs = ([], Inr ())"
| "recv_all from_slice (Suc n) bs =
     (case recv from_slice bs of
        (Inl e, _) \<Rightarrow> ([], Inl e)
      | (Inr None, _) \<Rightarrow> ([], Inr ())
      | (Inr (Some m), rest) \<Rightarrow> (case recv_all from_slice n rest of (ms, r) \<Rightarrow> (m # ms, r)))"

section \<open>The interface of a self-delimiting format\<close>

text \<open>
  Reading a written item gives it back and leaves the rest of the stream untouched. Then a
  sequence of items reads back in order.
\<close>

locale self_delimiting =
  fixes put :: "'a \<Rightarrow> bytes result" and get :: "bytes \<Rightarrow> 'a option result \<times> bytes"
  assumes get_put: "put x = Inr f \<Longrightarrow> get (f @ rest) = (Inr (Some x), rest)"
    and get_end: "get [] = (Inr None, [])"
begin

lemma put_inj: "put x = Inr f \<Longrightarrow> put y = Inr f \<Longrightarrow> x = y"
  using get_put [of x f "[]"] get_put [of y f "[]"] by simp

lemma no_prefix: "put x = Inr f \<Longrightarrow> put y = Inr (f @ g) \<Longrightarrow> x = y \<and> g = []"
  using get_put [of x f g] get_put [of y "f @ g" "[]"] by simp

end

section \<open>Lemmas\<close>

lemma be_u32_u32_be: "n < 2 ^ 32 \<Longrightarrow> be_u32 (u32_be n) = n"
proof -
  assume n: "n < 2 ^ 32"
  have u: "unat (word_of_nat x :: byte) = x mod 256" for x by (simp add: unat_of_nat)
  have q: "n div 65536 = n div 256 div 256" "n div 16777216 = n div 256 div 256 div 256"
    by (simp_all add: div_mult2_eq [symmetric])
  have "n div 16777216 mod 256 = n div 16777216" using n by (simp add: div_less_iff_less_mult)
  moreover have "(n div 256 div 256 div 256 * 256 + n div 256 div 256 mod 256) * 256 +
      n div 256 mod 256 = n div 256" by simp
  ultimately show ?thesis by (simp add: be_u32_def u32_be_def u q)
qed

lemma length_u32_be [simp]: "length (u32_be n) = 4"
  by (simp add: u32_be_def)

lemma frame_shape:
  "frame p = Inr f \<Longrightarrow> f = u32_be (length p) @ p \<and> length p \<le> MAX_FRAME_LEN"
  by (auto simp: frame_def MAX_FRAME_LEN_def split: if_splits)

lemma decode_length_frame:
  "length p \<le> MAX_FRAME_LEN \<Longrightarrow> decode_length (u32_be (length p)) = Inr (length p)"
  using be_u32_u32_be [of "length p"] by (simp add: decode_length_def MAX_FRAME_LEN_def)

lemma recv_frame_put: "frame p = Inr f \<Longrightarrow> recv_frame (f @ rest) = (Inr (Some p), rest)"
  using frame_shape [of p f] decode_length_frame [of p]
  by (simp add: recv_frame_def LENGTH_PREFIX_LEN_def Let_def)

interpretation framing: self_delimiting frame recv_frame
  by unfold_locales (simp_all add: recv_frame_put recv_frame_def [of "[]"] LENGTH_PREFIX_LEN_def)

definition serde_ok :: "('m \<Rightarrow> bytes result) \<Rightarrow> (bytes \<Rightarrow> 'm result) \<Rightarrow> bool" where
  "serde_ok to_vec from_slice \<longleftrightarrow> (\<forall>m p. to_vec m = Inr p \<longrightarrow> from_slice p = Inr m)"

lemma recv_encode:
  assumes "serde_ok to_vec from_slice" and "encode to_vec m = Inr f"
  shows "recv from_slice (f @ rest) = (Inr (Some m), rest)"
proof -
  obtain p where "to_vec m = Inr p" "frame p = Inr f"
    using assms(2) by (auto simp: encode_def split: sum.splits)
  with assms(1) show ?thesis
    by (simp add: recv_def framing.get_put serde_ok_def)
qed

section \<open>Properties\<close>

text \<open>
  Framing over a stream: when serde_json reads back what it writes, the messages a peer
  sends arrive complete, in order and nothing else, and then the stream ends cleanly; \<open>n\<close> is
  any number of receives above the number of messages.
\<close>

theorem framed_stream_round_trip:
  assumes "serde_ok to_vec from_slice" and "send_all to_vec ms = Inr bs" and "length ms < n"
  shows "recv_all from_slice n bs = (ms, Inr ())"
  using assms(2,3)
proof (induction ms arbitrary: bs n)
  case Nil
  then show ?case
    by (cases n) (simp_all add: recv_def framing.get_end)
next
  case (Cons m ms)
  then obtain f fs k where "encode to_vec m = Inr f" "send_all to_vec ms = Inr fs" "bs = f @ fs"
    "n = Suc k" by (cases n) (auto split: sum.splits)
  with Cons show ?case using recv_encode [OF assms(1)] by simp
qed

text \<open>A toy serializer for the witness: one text per body, as its own bytes.\<close>

definition toy_to_vec :: "bytes \<Rightarrow> bytes result" where
  "toy_to_vec p = Inr (0x22 # p)"

definition toy_from_slice :: "bytes \<Rightarrow> bytes result" where
  "toy_from_slice p = (case p of [] \<Rightarrow> Inl (Json ''empty'') | _ # q \<Rightarrow> Inr q)"

theorem framed_stream_round_trip_witness:
  "recv_all toy_from_slice 3 [0, 0, 0, 2, 0x22, 7, 0, 0, 0, 1, 0x22] = ([[7], []], Inr ())"
proof -
  have "serde_ok toy_to_vec toy_from_slice"
    by (simp add: serde_ok_def toy_to_vec_def toy_from_slice_def)
  moreover have "send_all toy_to_vec [[7], []] =
      Inr [0, 0, 0, 2, 0x22, 7, 0, 0, 0, 1, 0x22]"
    by (simp add: encode_def toy_to_vec_def frame_def MAX_FRAME_LEN_def u32_be_def)
  ultimately show ?thesis by (rule framed_stream_round_trip) simp
qed

text \<open>
  A receive never asks for more than the cap: the reader returns a payload only if its
  announced length is at most 16 MiB and it arrived in full, refuses a longer announcement
  having consumed only the four bytes of it, and consumes exactly the frame it returns.
\<close>

theorem recv_frame_is_bounded:
  "case recv_frame bs of
     (Inr (Some p), rest) \<Rightarrow>
       length p \<le> 16777216 \<and> length p = be_u32 (take 4 bs) \<and> bs = take 4 bs @ p @ rest
   | (Inr None, rest) \<Rightarrow> length bs < 4 \<and> rest = []
   | (Inl _, rest) \<Rightarrow>
       4 \<le> length bs \<and>
       (if be_u32 (take 4 bs) > 16777216 then rest = drop 4 bs
        else length bs < 4 + be_u32 (take 4 bs) \<and> rest = [])"
proof -
  have cut: "4 \<le> length bs \<Longrightarrow> be_u32 (take 4 bs) \<le> length bs - 4 \<Longrightarrow>
      bs = take 4 bs @ take (be_u32 (take 4 bs)) (drop 4 bs) @ drop (be_u32 (take 4 bs)) (drop 4 bs)"
    by (metis append_take_drop_id)
  then show ?thesis
    by (auto simp: recv_frame_def decode_length_def LENGTH_PREFIX_LEN_def MAX_FRAME_LEN_def Let_def)
qed

end
