(* ===== verification/Versions.thy ===== *)
theory Versions
  imports Names
begin

text \<open>
  Version negotiation (\<open>version.rs\<close>): versions, half-open ranges, peer manifests and the
  two-sided compatibility check. The three numbers are \<open>u64\<close>; the unchecked additions of
  \<open>next_breaking\<close> wrap as in the release profile (\<open>u64_add\<close>).
\<close>

record version =
  v_major :: nat
  v_minor :: nat
  v_patch :: nat
  v_tag :: "string option"

definition Version_new :: "nat \<Rightarrow> nat \<Rightarrow> nat \<Rightarrow> version" where
  "Version_new a b c = \<lparr> v_major = a, v_minor = b, v_patch = c, v_tag = None \<rparr>"

definition is_tag_mark :: "char \<Rightarrow> bool" where
  "is_tag_mark c \<longleftrightarrow> c = CHR ''-'' \<or> c = CHR ''+''"

fun split_tag :: "string \<Rightarrow> string \<times> string option" where
  "split_tag [] = ([], None)"
| "split_tag (c # cs) =
     (if is_tag_mark c then ([], Some cs)
      else (case split_tag cs of (core, tag) \<Rightarrow> (c # core, tag)))"

definition Version_parse :: "string \<Rightarrow> version result" where
  "Version_parse input =
     (case split_tag input of (core, tag) \<Rightarrow>
        (case split_on CHR ''.'' core of
           [a, b, c] \<Rightarrow>
             (case (parse_u64 a, parse_u64 b, parse_u64 c) of
                (Some x, Some y, Some z) \<Rightarrow>
                  Inr \<lparr> v_major = x, v_minor = y, v_patch = z, v_tag = tag \<rparr>
              | _ \<Rightarrow> Inl (InvalidName ''version'' input ''each component must be a number''))
         | _ \<Rightarrow> Inl (InvalidName ''version'' input ''expected major.minor.patch'')))"

definition version_display :: "version \<Rightarrow> string" where
  "version_display v =
     show_nat (v_major v) @ ''.'' @ show_nat (v_minor v) @ ''.'' @ show_nat (v_patch v) @
     (case v_tag v of None \<Rightarrow> [] | Some t \<Rightarrow> ''-'' @ t)"

text \<open>\<open>Ord for Version\<close>: the three numbers in lexicographic order, the tag ignored.\<close>

definition version_less :: "version \<Rightarrow> version \<Rightarrow> bool" where
  "version_less a b \<longleftrightarrow>
     v_major a < v_major b \<or>
     (v_major a = v_major b \<and>
       (v_minor a < v_minor b \<or> (v_minor a = v_minor b \<and> v_patch a < v_patch b)))"

record version_range =
  r_min :: version
  r_max_exclusive :: "version option"

definition next_breaking :: "version \<Rightarrow> version" where
  "next_breaking v =
     (if v_major v = 0 then Version_new 0 (u64_add (v_minor v) 1) 0
      else Version_new (u64_add (v_major v) 1) 0 0)"

definition caret :: "version \<Rightarrow> version_range" where
  "caret v =
     \<lparr> r_min = Version_new (v_major v) (v_minor v) (v_patch v),
       r_max_exclusive = Some (next_breaking v) \<rparr>"

definition compatible_series :: "version \<Rightarrow> version_range" where
  "compatible_series v =
     \<lparr> r_min = (if v_major v = 0 then Version_new 0 (v_minor v) 0
                else Version_new (v_major v) 0 0),
       r_max_exclusive = Some (next_breaking v) \<rparr>"

definition at_least :: "version \<Rightarrow> version_range" where
  "at_least v = \<lparr> r_min = v, r_max_exclusive = None \<rparr>"

definition range_accepts :: "version_range \<Rightarrow> version \<Rightarrow> bool" where
  "range_accepts r v =
     (if version_less v (r_min r) then False
      else (case r_max_exclusive r of Some mx \<Rightarrow> version_less v mx | None \<Rightarrow> True))"

text \<open>The clause loop of \<open>VersionRange::parse\<close>; a later clause replaces an earlier one.\<close>

fun parse_clauses ::
  "string \<Rightarrow> version option \<Rightarrow> version option \<Rightarrow> string list \<Rightarrow> version_range result" where
  "parse_clauses input mn mx [] =
     (case mn of
        None \<Rightarrow> Inl (InvalidName ''version range'' input ''needs a `>=` lower bound'')
      | Some lo \<Rightarrow> Inr \<lparr> r_min = lo, r_max_exclusive = mx \<rparr>)"
| "parse_clauses input mn mx (c # cs) =
     (case strip_prefix (trim c) ''>='' of
        Some rest \<Rightarrow>
          (case Version_parse (trim rest) of
             Inl e \<Rightarrow> Inl e | Inr v \<Rightarrow> parse_clauses input (Some v) mx cs)
      | None \<Rightarrow>
          (case strip_prefix (trim c) ''<'' of
             Some rest \<Rightarrow>
               (case Version_parse (trim rest) of
                  Inl e \<Rightarrow> Inl e | Inr v \<Rightarrow> parse_clauses input mn (Some v) cs)
           | None \<Rightarrow>
               Inl (InvalidName ''version range'' input
                 ''clauses must be `>=x.y.z` or `<x.y.z`'')))"

definition VersionRange_parse :: "string \<Rightarrow> version_range result" where
  "VersionRange_parse raw =
     (let input = trim raw in
      case strip_prefix input ''^'' of
        Some rest \<Rightarrow> map_sum id caret (Version_parse (trim rest))
      | None \<Rightarrow>
          if \<not> (\<exists>c \<in> set input. c \<in> set ''<>='') then map_sum id caret (Version_parse input)
          else parse_clauses input None None (split_on CHR '','' input))"

definition range_display :: "version_range \<Rightarrow> string" where
  "range_display r =
     ''>='' @ version_display (r_min r) @
     (case r_max_exclusive r of None \<Rightarrow> [] | Some mx \<Rightarrow> '', <'' @ version_display mx)"

section \<open>Manifests\<close>

record interface_version =
  iv_interface :: interface_name
  iv_speaks :: version
  iv_accepts :: version_range

definition iv_provided :: "interface_name \<Rightarrow> version \<Rightarrow> interface_version" where
  "iv_provided i v = \<lparr> iv_interface = i, iv_speaks = v, iv_accepts = compatible_series v \<rparr>"

definition iv_consumed :: "interface_name \<Rightarrow> version \<Rightarrow> interface_version" where
  "iv_consumed i v = \<lparr> iv_interface = i, iv_speaks = v, iv_accepts = caret v \<rparr>"

record peer_manifest =
  pm_name :: string
  pm_version :: "version option"
  pm_provides :: "interface_version list"
  pm_consumes :: "interface_version list"

definition manifest_new :: "string \<Rightarrow> peer_manifest" where
  "manifest_new n = \<lparr> pm_name = n, pm_version = None, pm_provides = [], pm_consumes = [] \<rparr>"

definition pm_provided :: "peer_manifest \<Rightarrow> interface_name \<Rightarrow> interface_version option" where
  "pm_provided m i = find (\<lambda>v. iv_interface v = i) (pm_provides m)"

definition pm_consumed :: "peer_manifest \<Rightarrow> interface_name \<Rightarrow> interface_version option" where
  "pm_consumed m i = find (\<lambda>v. iv_interface v = i) (pm_consumes m)"

datatype compatibility =
    Compatible version version
  | ConsumerRejects version version_range
  | ProviderRejects version version_range
  | NotProvided

fun is_compatible :: "compatibility \<Rightarrow> bool" where
  "is_compatible (Compatible _ _) = True"
| "is_compatible _ = False"

fun compatibility_display :: "compatibility \<Rightarrow> string" where
  "compatibility_display (Compatible p c) =
     ''compatible (provider '' @ version_display p @ '', consumer '' @ version_display c @ '')''"
| "compatibility_display (ConsumerRejects p r) =
     ''the provider speaks '' @ version_display p @ '', which the caller does not accept ('' @
     range_display r @ '')''"
| "compatibility_display (ProviderRejects c r) =
     ''the caller speaks '' @ version_display c @ '', which the provider does not accept ('' @
     range_display r @ '')''"
| "compatibility_display NotProvided = ''the peer does not declare this interface''"

definition check_versions ::
  "peer_manifest \<Rightarrow> peer_manifest \<Rightarrow> interface_name \<Rightarrow> compatibility" where
  "check_versions provider consumer i =
     (case pm_provided provider i of
        None \<Rightarrow> NotProvided
      | Some p \<Rightarrow>
          (case pm_consumed consumer i of
             None \<Rightarrow> Compatible (iv_speaks p) (iv_speaks p)
           | Some c \<Rightarrow>
               if \<not> range_accepts (iv_accepts c) (iv_speaks p) then
                 ConsumerRejects (iv_speaks p) (iv_accepts c)
               else if \<not> range_accepts (iv_accepts p) (iv_speaks c) then
                 ProviderRejects (iv_speaks c) (iv_accepts p)
               else Compatible (iv_speaks p) (iv_speaks c)))"

record peer_record =
  pr_peer :: bus_name
  pr_names :: "bus_name list"
  pr_manifest :: peer_manifest

section \<open>Lemmas\<close>

definition version_u64 :: "version \<Rightarrow> bool" where
  "version_u64 v \<longleftrightarrow> v_major v < 2 ^ 64 \<and> v_minor v < 2 ^ 64 \<and> v_patch v < 2 ^ 64"

text \<open>The core of a version contains no tag mark, so the tag is split off exactly there.\<close>

lemma split_tag_none: "\<forall>c \<in> set s. \<not> is_tag_mark c \<Longrightarrow> split_tag s = (s, None)"
  by (induction s) auto

lemma split_tag_some:
  "\<forall>c \<in> set s. \<not> is_tag_mark c \<Longrightarrow> is_tag_mark d \<Longrightarrow> split_tag (s @ d # t) = (s, Some t)"
  by (induction s) auto

definition version_core :: "version \<Rightarrow> string" where
  "version_core v =
     show_nat (v_major v) @ ''.'' @ show_nat (v_minor v) @ ''.'' @ show_nat (v_patch v)"

lemma core_chars: "c \<in> set (version_core v) \<Longrightarrow> is_digit c \<or> c = CHR ''.''"
  by (auto simp: version_core_def dest: show_nat_chars)

lemma core_no_mark: "\<forall>c \<in> set (version_core v). \<not> is_tag_mark c"
  by (auto simp: is_tag_mark_def is_digit_iff dest!: core_chars)

lemma core_split:
  "split_on CHR ''.'' (version_core v) =
     [show_nat (v_major v), show_nat (v_minor v), show_nat (v_patch v)]"
  using split_on_append [OF no_dot_show] split_on_no_sep [OF no_dot_show]
  by (simp add: version_core_def)

lemma display_core:
  "version_display v = version_core v @ (case v_tag v of None \<Rightarrow> [] | Some t \<Rightarrow> ''-'' @ t)"
  by (simp add: version_display_def version_core_def)

lemma split_tag_display: "split_tag (version_display v) = (version_core v, v_tag v)"
proof (cases "v_tag v")
  case None
  then show ?thesis using split_tag_none [OF core_no_mark] by (simp add: display_core)
next
  case (Some t)
  then show ?thesis
    using split_tag_some [OF core_no_mark, of "CHR ''-''" v t]
    by (simp add: display_core is_tag_mark_def)
qed

lemma parse_display: "version_u64 v \<Longrightarrow> Version_parse (version_display v) = Inr v"
  by (simp add: Version_parse_def split_tag_display core_split parse_u64_show version_u64_def)

definition plain_tag :: "version \<Rightarrow> bool" where
  "plain_tag v \<longleftrightarrow>
     (case v_tag v of None \<Rightarrow> True
      | Some t \<Rightarrow> list_all (\<lambda>c. c \<noteq> CHR '','' \<and> \<not> is_space c) t)"

lemma display_chars:
  assumes "plain_tag v" and "c \<in> set (version_display v)"
  shows "c \<noteq> CHR '','' \<and> \<not> is_space c"
proof -
  have marks: "\<not> is_space CHR ''.''" "\<not> is_space CHR ''-''"
    by (simp_all add: is_space_def char_le_iff)
  have core: "c \<in> set (version_core v) \<Longrightarrow> c \<noteq> CHR '','' \<and> \<not> is_space c"
    using core_chars [of c v] marks(1) digit_not(4,7) by fastforce
  show ?thesis
  proof (cases "v_tag v")
    case None
    with assms core show ?thesis by (simp add: display_core)
  next
    case (Some t)
    with assms(2) have "c \<in> set (version_core v) \<or> c = CHR ''-'' \<or> c \<in> set t"
      by (auto simp: display_core)
    with Some assms(1) core marks(2) show ?thesis by (auto simp: plain_tag_def list_all_iff)
  qed
qed

lemma display_trim: "plain_tag v \<Longrightarrow> trim (version_display v) = version_display v"
  by (rule trim_id_set) (use display_chars in blast)

lemma version_less_irrefl [simp]: "\<not> version_less v v"
  by (simp add: version_less_def)

definition same_series :: "version \<Rightarrow> version \<Rightarrow> bool" where
  "same_series v w \<longleftrightarrow>
     v_major v = v_major w \<and> (v_major v = 0 \<longrightarrow> v_minor v = v_minor w)"

definition bumpable :: "version \<Rightarrow> bool" where
  "bumpable v \<longleftrightarrow> v_major v + 1 < 2 ^ 64 \<and> v_minor v + 1 < 2 ^ 64"

lemma caret_accepts_iff:
  "bumpable v \<Longrightarrow> range_accepts (caret v) w \<longleftrightarrow> same_series v w \<and> \<not> version_less w v"
  by (auto simp: range_accepts_def caret_def next_breaking_def version_less_def Version_new_def
      same_series_def bumpable_def)

lemma series_accepts_iff:
  "bumpable v \<Longrightarrow> range_accepts (compatible_series v) w \<longleftrightarrow> same_series v w"
  by (auto simp: range_accepts_def compatible_series_def next_breaking_def version_less_def
      Version_new_def same_series_def bumpable_def)

lemma display_nonempty [simp]: "version_display v \<noteq> []"
  by (simp add: version_display_def)

lemma range_trim:
  assumes "plain_tag (r_min r)" and "pred_option plain_tag (r_max_exclusive r)"
  shows "trim (range_display r) = range_display r"
proof (rule trim_id, rule disjI2, rule conjI)
  have last_min: "\<not> is_space (last (version_display v))" if "plain_tag v" for v
    using display_chars [OF that] by simp
  have "hd (range_display r) = CHR ''>''" by (simp add: range_display_def)
  then show "\<not> is_space (hd (range_display r))" by (simp add: is_space_def char_le_iff)
  show "\<not> is_space (last (range_display r))"
    using assms last_min by (cases "r_max_exclusive r") (simp_all add: range_display_def)
qed

text \<open>One clause of a range: its text, the comparison mark and a version.\<close>

lemma clause_trim:
  assumes "plain_tag v" and "\<forall>c \<in> set mark. c \<noteq> CHR '','' \<and> \<not> is_space c"
  shows "trim (mark @ version_display v) = mark @ version_display v"
    and "CHR '','' \<notin> set (mark @ version_display v)"
proof -
  have "\<forall>c \<in> set (mark @ version_display v). c \<noteq> CHR '','' \<and> \<not> is_space c"
    using display_chars [OF assms(1)] assms(2) by (metis UnE set_append)
  then show "trim (mark @ version_display v) = mark @ version_display v"
    and "CHR '','' \<notin> set (mark @ version_display v)"
    using trim_id_set by blast+
qed

lemma trim_blank: "trim (CHR '' '' # s) = trim s"
  by (simp add: trim_def is_space_def)

lemma mark_ok: "\<forall>c \<in> set ''>=''. c \<noteq> CHR '','' \<and> \<not> is_space c"
  "\<forall>c \<in> set ''<''. c \<noteq> CHR '','' \<and> \<not> is_space c"
  by (simp_all add: is_space_def char_le_iff)

lemma parse_lower:
  assumes "version_u64 v" and "plain_tag v"
  shows "parse_clauses i mn mx ((''>='' @ version_display v) # cs) = parse_clauses i (Some v) mx cs"
proof -
  have "strip_prefix (''>='' @ version_display v) ''>='' = Some (version_display v)"
    by (simp add: strip_prefix_def starts_with_def)
  then show ?thesis
    using clause_trim(1) [OF assms(2) mark_ok(1)]
    by (simp add: display_trim [OF assms(2)] parse_display [OF assms(1)])
qed

lemma parse_upper:
  assumes "version_u64 v" and "plain_tag v"
  shows "parse_clauses i mn mx (('' <'' @ version_display v) # cs) = parse_clauses i mn (Some v) cs"
proof -
  have "strip_prefix (''<'' @ version_display v) ''>='' = None"
    "strip_prefix (''<'' @ version_display v) ''<'' = Some (version_display v)"
    by (simp_all add: strip_prefix_def starts_with_def)
  then show ?thesis
    using clause_trim(1) [OF assms(2) mark_ok(2)]
    by (simp add: trim_blank display_trim [OF assms(2)] parse_display [OF assms(1)])
qed

lemma range_clauses:
  assumes "plain_tag (r_min r)" and "pred_option plain_tag (r_max_exclusive r)"
  shows "split_on CHR '','' (range_display r) =
    (''>='' @ version_display (r_min r)) #
    (case r_max_exclusive r of None \<Rightarrow> [] | Some mx \<Rightarrow> ['' <'' @ version_display mx])"
proof (cases "r_max_exclusive r")
  case None
  then show ?thesis
    using split_on_no_sep [OF clause_trim(2) [OF assms(1) mark_ok(1)]]
    by (simp add: range_display_def)
next
  case (Some mx)
  then have "plain_tag mx" using assms(2) by simp
  then have "CHR '','' \<notin> set ('' <'' @ version_display mx)"
    using clause_trim(2) [OF _ mark_ok(2)] by simp
  then have "split_on CHR '','' ('' <'' @ version_display mx) = ['' <'' @ version_display mx]"
    by (rule split_on_no_sep)
  then show ?thesis
    using Some split_on_append [OF clause_trim(2) [OF assms(1) mark_ok(1)],
      of "'' <'' @ version_display mx"]
    by (simp add: range_display_def)
qed

section \<open>Properties\<close>

text \<open>
  Display then parse gives the version back, tag included, for every version of 64-bit
  numbers; a parsed version is made of 64-bit numbers.
\<close>

theorem version_round_trip:
  assumes "version_u64 v"
  shows "Version_parse (version_display v) = Inr v"
  using assms by (rule parse_display)

theorem version_round_trip_witness:
  "Version_parse ''1.2.3-rc.1'' =
     Inr \<lparr> v_major = 1, v_minor = 2, v_patch = 3, v_tag = Some ''rc.1'' \<rparr>"
proof -
  have "show_nat 1 = ''1''" "show_nat 2 = ''2''" "show_nat 3 = ''3''" by code_simp+
  then show ?thesis
    using version_round_trip
      [of "\<lparr> v_major = 1, v_minor = 2, v_patch = 3, v_tag = Some ''rc.1'' \<rparr>"]
    by (simp add: version_u64_def version_display_def)
qed

text \<open>
  A range survives its wire form: parsing what \<open>Display\<close> writes gives the range back,
  when its tags contain no comma and no blank.
\<close>

theorem range_round_trip:
  assumes "version_u64 (r_min r)" and "plain_tag (r_min r)"
    and "pred_option (\<lambda>mx. version_u64 mx \<and> plain_tag mx) (r_max_exclusive r)"
  shows "VersionRange_parse (range_display r) = Inr r"
proof -
  have mx: "pred_option plain_tag (r_max_exclusive r)"
    using assms(3) by (cases "r_max_exclusive r") simp_all
  have nocaret: "strip_prefix (range_display r) ''^'' = None"
    and marked: "\<exists>c \<in> set (range_display r). c \<in> set ''<>=''"
    by (simp_all add: strip_prefix_def starts_with_def range_display_def)
  have "VersionRange_parse (range_display r) =
      parse_clauses (range_display r) None None (split_on CHR '','' (range_display r))"
    unfolding VersionRange_parse_def range_trim [OF assms(2) mx] Let_def nocaret
    using marked by simp
  also have "\<dots> = Inr r"
    unfolding range_clauses [OF assms(2) mx]
    using assms(3) parse_lower [OF assms(1,2)] parse_upper
    by (cases "r_max_exclusive r") (simp_all del: append_Cons)
  finally show ?thesis .
qed

theorem range_round_trip_witness:
  "VersionRange_parse (range_display (caret (Version_new 2 1 0))) = Inr (caret (Version_new 2 1 0))"
  by (rule range_round_trip)
    (simp_all add: caret_def next_breaking_def version_u64_def plain_tag_def Version_new_def)

text \<open>
  The two default ranges: away from the last 64-bit number, a provider's compatible
  series is exactly the versions of its series (same major, same minor below 1.0), and a
  consumer's caret range is the part of it at or above the consumer's own version. So a
  provider accepts every older caller of its series.
\<close>

theorem default_ranges:
  assumes "bumpable v"
  shows "(range_accepts (compatible_series v) w \<longleftrightarrow> same_series v w) \<and>
    (range_accepts (caret v) w \<longleftrightarrow> same_series v w \<and> \<not> version_less w v)"
  using caret_accepts_iff [OF assms] series_accepts_iff [OF assms] by blast

theorem default_ranges_witness:
  "range_accepts (compatible_series (Version_new 2 3 0)) (Version_new 2 0 9) \<and>
   \<not> range_accepts (caret (Version_new 2 3 0)) (Version_new 2 0 9)"
  using default_ranges [of "Version_new 2 3 0" "Version_new 2 0 9"]
  by (simp add: bumpable_def same_series_def version_less_def Version_new_def)

text \<open>
  The check is two-sided: two peers are compatible on an interface exactly when the
  provider declares it and either the consumer declares nothing or each side accepts the
  version the other speaks.
\<close>

theorem check_is_two_sided:
  "is_compatible (check_versions p c i) \<longleftrightarrow>
     (\<exists>pv. pm_provided p i = Some pv \<and>
        (case pm_consumed c i of
           None \<Rightarrow> True
         | Some cv \<Rightarrow> range_accepts (iv_accepts cv) (iv_speaks pv) \<and>
                     range_accepts (iv_accepts pv) (iv_speaks cv)))"
  by (auto simp: check_versions_def split: option.splits)

text \<open>
  Minor upgrades never break a bus: a provider and a consumer that declare themselves
  with the defaults are compatible exactly when they are in one series and the provider is not
  older than the consumer.
\<close>

theorem upgrade_compatible:
  assumes "bumpable pv" and "bumpable cv"
    and "pm_provided p i = Some (iv_provided i pv)" and "pm_consumed c i = Some (iv_consumed i cv)"
  shows "is_compatible (check_versions p c i) \<longleftrightarrow> same_series pv cv \<and> \<not> version_less pv cv"
  using assms
  by (auto simp: check_versions_def iv_provided_def iv_consumed_def caret_accepts_iff
      series_accepts_iff same_series_def)

theorem upgrade_compatible_witness:
  "is_compatible (check_versions
     \<lparr> pm_name = ''voice'', pm_version = None,
        pm_provides = [iv_provided (InterfaceName ''ai.Voice'') (Version_new 2 3 0)],
        pm_consumes = [] \<rparr>
     \<lparr> pm_name = ''kernel'', pm_version = None, pm_provides = [],
        pm_consumes = [iv_consumed (InterfaceName ''ai.Voice'') (Version_new 2 1 0)] \<rparr>
     (InterfaceName ''ai.Voice''))"
  by (subst upgrade_compatible [where pv = "Version_new 2 3 0" and cv = "Version_new 2 1 0"])
    (simp_all add: bumpable_def pm_provided_def pm_consumed_def iv_provided_def iv_consumed_def
      same_series_def version_less_def Version_new_def)

text \<open>
  At the last 64-bit number the unchecked addition of \<open>next_breaking\<close> wraps, and both
  default ranges reject every version, the peer's own included.
\<close>

theorem overflowing_ranges_reject_all:
  "v_major v = 2 ^ 64 - 1 \<Longrightarrow>
   \<not> range_accepts (compatible_series v) w \<and> \<not> range_accepts (caret v) w"
  by (auto simp: range_accepts_def caret_def compatible_series_def next_breaking_def
      version_less_def Version_new_def u64_add_def)

theorem overflowing_ranges_reject_all_witness:
  "\<not> range_accepts (caret (Version_new (2 ^ 64 - 1) 0 0)) (Version_new (2 ^ 64 - 1) 0 0)"
  using overflowing_ranges_reject_all [of "Version_new (2 ^ 64 - 1) 0 0"]
  by (simp add: Version_new_def)

end
