(* ===== verification/MatchRules.thy ===== *)
theory MatchRules
  imports Messages
begin

text \<open>
  Match rules: \<open>MatchRule\<close> of \<open>router.rs\<close> (setters, \<open>matches\<close>, \<open>parse\<close>) and its rendering
  \<open>rule_to_wire\<close> in \<open>connection.rs\<close>, which a client sends to \<open>AddMatch\<close> and the broker
  parses back.
\<close>

record match_rule =
  r_kind :: "message_kind option"
  r_sender :: "bus_name option"
  r_interface :: "interface_name option"
  r_member :: "member_name option"
  r_path :: "object_path option"
  r_path_namespace :: "object_path option"

definition MatchRule_new :: match_rule where
  "MatchRule_new = \<lparr> r_kind = None, r_sender = None, r_interface = None, r_member = None,
     r_path = None, r_path_namespace = None \<rparr>"

definition rule_signals :: "match_rule \<Rightarrow> match_rule" where
  "rule_signals r = r \<lparr> r_kind := Some Signal \<rparr>"

definition rule_directed_signals :: "match_rule \<Rightarrow> match_rule" where
  "rule_directed_signals r = r \<lparr> r_kind := Some DirectedSignal \<rparr>"

text \<open>\<open>field.is_some_and(|f| h.field != Some(f))\<close>, the test every set field makes.\<close>

definition differs :: "'a option \<Rightarrow> 'a option \<Rightarrow> bool" where
  "differs wanted actual = (case wanted of None \<Rightarrow> False | Some w \<Rightarrow> actual \<noteq> Some w)"

definition matches :: "match_rule \<Rightarrow> message \<Rightarrow> bool" where
  "matches r msg =
     (let h = m_header msg in
      if differs (r_kind r) (Some (h_kind h)) then False
      else if differs (r_sender r) (h_sender h) then False
      else if differs (r_interface r) (h_interface h) then False
      else if differs (r_member r) (h_member h) then False
      else if differs (r_path r) (h_path h) then False
      else (case r_path_namespace r of
              None \<Rightarrow> True
            | Some namespace \<Rightarrow>
                (case h_path h of
                   Some p \<Rightarrow> path_starts_with p namespace = Some True
                 | None \<Rightarrow> False)))"

definition kind_of_text :: "string \<Rightarrow> message_kind result" where
  "kind_of_text v =
     (if v = ''signal'' then Inr Signal
      else if v = ''directed_signal'' then Inr DirectedSignal
      else if v = ''method_call'' then Inr MethodCall
      else if v = ''method_return'' then Inr MethodReturn
      else if v = ''error'' then Inr ErrorKind
      else Inl (Protocol (''unknown message type `'' @ v @ ''`'')))"

text \<open>One clause: the key selects the field, the grammar of the field checks the value.\<close>

definition apply_clause :: "string \<Rightarrow> string \<Rightarrow> match_rule \<Rightarrow> match_rule result" where
  "apply_clause key v r =
     (if key = ''type'' then map_sum id (\<lambda>k. r \<lparr> r_kind := Some k \<rparr>) (kind_of_text v)
      else if key = ''sender'' then
        map_sum id (\<lambda>n. r \<lparr> r_sender := Some n \<rparr>) (BusName_new v)
      else if key = ''interface'' then
        map_sum id (\<lambda>n. r \<lparr> r_interface := Some n \<rparr>) (InterfaceName_new v)
      else if key = ''member'' then
        map_sum id (\<lambda>n. r \<lparr> r_member := Some n \<rparr>) (MemberName_new v)
      else if key = ''path'' then
        map_sum id (\<lambda>n. r \<lparr> r_path := Some n \<rparr>) (ObjectPath_new v)
      else if key = ''path_namespace'' then
        map_sum id (\<lambda>n. r \<lparr> r_path_namespace := Some n \<rparr>) (ObjectPath_new v)
      else Inl (Protocol (''unknown match key `'' @ key @ ''`'')))"

fun parse_rule_clauses :: "match_rule \<Rightarrow> string list \<Rightarrow> match_rule result" where
  "parse_rule_clauses r [] = Inr r"
| "parse_rule_clauses r (c # cs) =
     (case split_once CHR ''='' c of
        None \<Rightarrow> Inl (Protocol (''match clause `'' @ c @ ''` has no `=`''))
      | Some (key, v) \<Rightarrow>
          (case apply_clause (trim key) (trim v) r of
             Inl e \<Rightarrow> Inl e
           | Inr r' \<Rightarrow> parse_rule_clauses r' cs))"

definition parse_rule :: "string \<Rightarrow> match_rule result" where
  "parse_rule input =
     parse_rule_clauses MatchRule_new
       (filter (\<lambda>c. trim c \<noteq> []) (split_on CHR '','' input))"

fun kind_text :: "message_kind \<Rightarrow> string" where
  "kind_text Signal = ''signal''"
| "kind_text DirectedSignal = ''directed_signal''"
| "kind_text MethodCall = ''method_call''"
| "kind_text MethodReturn = ''method_return''"
| "kind_text ErrorKind = ''error''"

definition clause_of :: "string \<Rightarrow> ('a \<Rightarrow> string) \<Rightarrow> 'a option \<Rightarrow> string list" where
  "clause_of key shown v = (case v of None \<Rightarrow> [] | Some x \<Rightarrow> [key @ ''='' @ shown x])"

definition rule_to_wire :: "match_rule \<Rightarrow> string" where
  "rule_to_wire r =
     join_with '',''
       (clause_of ''type'' kind_text (r_kind r) @
        clause_of ''sender'' bus_str (r_sender r) @
        clause_of ''interface'' iface_str (r_interface r) @
        clause_of ''member'' member_str (r_member r) @
        clause_of ''path'' path_str (r_path r) @
        clause_of ''path_namespace'' path_str (r_path_namespace r))"

section \<open>Lemmas\<close>

text \<open>The rules a client can hold: every set field is an accepted name.\<close>

definition rule_valid :: "match_rule \<Rightarrow> bool" where
  "rule_valid r \<longleftrightarrow>
     pred_option busT.valid (r_sender r) \<and> pred_option ifaceT.valid (r_interface r) \<and>
     pred_option memT.valid (r_member r) \<and> pred_option pathT.valid (r_path r) \<and>
     pred_option pathT.valid (r_path_namespace r)"

lemma kind_text_round: "kind_of_text (kind_text k) = Inr k"
  by (cases k) (simp_all add: kind_of_text_def)

definition clean :: "string \<Rightarrow> bool" where
  "clean s \<longleftrightarrow> (\<forall>c \<in> set s. \<not> is_space c \<and> c \<noteq> CHR '','')"

lemma clean_trim: "clean s \<Longrightarrow> trim s = s"
  by (rule trim_id_set) (simp add: clean_def)

lemma clean_append [simp]: "clean (a @ b) \<longleftrightarrow> clean a \<and> clean b"
  by (auto simp: clean_def)

lemma kind_text_clean: "clean (kind_text k)"
  by (cases k) (simp_all add: clean_def is_space_def char_le_iff)

lemma name_char_clean: "list_all name_char s \<Longrightarrow> clean s"
  unfolding clean_def list_all_iff
  by (fastforce simp: name_char_def is_alnum_def is_alpha_def is_space_def is_digit_iff char_le_iff)

lemma valid_clean:
  "busT.valid n \<Longrightarrow> clean (bus_str n)" "ifaceT.valid i \<Longrightarrow> clean (iface_str i)"
  "memT.valid m \<Longrightarrow> clean (member_str m)" "pathT.valid p \<Longrightarrow> clean (path_str p)"
  using busT.new_chars ifaceT.new_chars memT.new_chars pathT.new_chars
  by (auto simp: busT.valid_def ifaceT.valid_def memT.valid_def pathT.valid_def intro: name_char_clean)

lemma keys_clean:
  "clean ''type''" "clean ''sender''" "clean ''interface''" "clean ''member''" "clean ''path''"
  "clean ''path_namespace''" "clean ''=''"
  by (simp_all add: clean_def is_space_def char_le_iff)

text \<open>Parsing one optional rendered clause, with the field's grammar as the interface.\<close>

lemma parse_clause_of:
  assumes "CHR ''='' \<notin> set key" and "clean key" and "pred_option (\<lambda>x. clean (shown x)) v"
    and "\<And>x. v = Some x \<Longrightarrow> apply_clause key (shown x) r = Inr (upd (\<lambda>_. Some x) r)"
    and "upd (\<lambda>_. None) r = r"
  shows "parse_rule_clauses r (clause_of key shown v @ cs) =
         parse_rule_clauses (upd (\<lambda>_. v) r) cs"
proof (cases v)
  case None
  then show ?thesis using assms(5) by (simp add: clause_of_def)
next
  case (Some x)
  then show ?thesis
    using split_once_append [OF assms(1), of "shown x"] assms(2-4)
    by (simp add: clause_of_def clean_trim)
qed

lemma clause_of_clean:
  assumes "clean key" and "pred_option (\<lambda>x. clean (shown x)) v" and "c \<in> set (clause_of key shown v)"
  shows "clean c \<and> c \<noteq> []"
  using assms keys_clean(7) clean_append [of "''=''"] by (cases v) (auto simp: clause_of_def)

definition wire_clauses :: "match_rule \<Rightarrow> string list" where
  "wire_clauses r =
     clause_of ''type'' kind_text (r_kind r) @
     clause_of ''sender'' bus_str (r_sender r) @
     clause_of ''interface'' iface_str (r_interface r) @
     clause_of ''member'' member_str (r_member r) @
     clause_of ''path'' path_str (r_path r) @
     clause_of ''path_namespace'' path_str (r_path_namespace r)"

lemma valid_fields_clean:
  assumes "rule_valid r"
  shows "pred_option (\<lambda>x. clean (kind_text x)) (r_kind r)"
    "pred_option (\<lambda>x. clean (bus_str x)) (r_sender r)"
    "pred_option (\<lambda>x. clean (iface_str x)) (r_interface r)"
    "pred_option (\<lambda>x. clean (member_str x)) (r_member r)"
    "pred_option (\<lambda>x. clean (path_str x)) (r_path r)"
    "pred_option (\<lambda>x. clean (path_str x)) (r_path_namespace r)"
  using assms valid_clean kind_text_clean
  by (auto simp: rule_valid_def pred_option_def)

lemma wire_clauses_clean:
  assumes "rule_valid r" and "c \<in> set (wire_clauses r)"
  shows "clean c \<and> c \<noteq> []"
  using assms(2) valid_fields_clean [OF assms(1)] keys_clean
  by (auto simp: wire_clauses_def dest: clause_of_clean)

lemma wire_split:
  assumes "rule_valid r"
  shows "filter (\<lambda>c. trim c \<noteq> []) (split_on CHR '','' (rule_to_wire r)) = wire_clauses r"
proof (cases "wire_clauses r = []")
  case True
  then have "rule_to_wire r = []" by (simp add: rule_to_wire_def wire_clauses_def)
  with True show ?thesis by (simp add: trim_def)
next
  case False
  have c: "clean c \<and> c \<noteq> []" if "c \<in> set (wire_clauses r)" for c
    using wire_clauses_clean [OF assms that] .
  then have "\<forall>w \<in> set (wire_clauses r). CHR '','' \<notin> set w" by (auto simp: clean_def)
  then have "split_on CHR '','' (rule_to_wire r) = wire_clauses r"
    using split_join [OF False] by (simp add: rule_to_wire_def wire_clauses_def)
  then show ?thesis using c by (simp add: filter_id_conv clean_trim)
qed

lemma parse_rendered:
  assumes "rule_valid r"
  shows "parse_rule (rule_to_wire r) = Inr r"
proof -
  note v = assms [unfolded rule_valid_def]
  note c = valid_fields_clean [OF assms]
  note new = busT.valid_new ifaceT.valid_new memT.valid_new pathT.valid_new
  have "parse_rule (rule_to_wire r) = parse_rule_clauses MatchRule_new (wire_clauses r @ [])"
    by (simp add: parse_rule_def wire_split [OF assms])
  also have "\<dots> = parse_rule_clauses (MatchRule_new \<lparr> r_kind := r_kind r, r_sender := r_sender r,
      r_interface := r_interface r, r_member := r_member r, r_path := r_path r,
      r_path_namespace := r_path_namespace r \<rparr>) []"
    unfolding wire_clauses_def append_assoc
    using v c keys_clean
    by (subst parse_clause_of [where upd = r_kind_update],
        simp_all add: apply_clause_def kind_text_round MatchRule_new_def)
      (subst parse_clause_of [where upd = r_sender_update], simp_all add: apply_clause_def new,
       subst parse_clause_of [where upd = r_interface_update], simp_all add: apply_clause_def new,
       subst parse_clause_of [where upd = r_member_update], simp_all add: apply_clause_def new,
       subst parse_clause_of [where upd = r_path_update], simp_all add: apply_clause_def new,
       subst parse_clause_of [where upd = r_path_namespace_update and cs = "[]", simplified],
       simp_all add: apply_clause_def new)
  also have "\<dots> = Inr r" by (simp add: MatchRule_new_def)
  finally show ?thesis .
qed

section \<open>Properties\<close>

text \<open>
  A subscription survives the wire: for every rule a client can hold, the broker's
  \<open>MatchRule::parse\<close> of what the client's \<open>rule_to_wire\<close> renders is the same rule.
\<close>

theorem match_rule_round_trip:
  assumes "rule_valid r"
  shows "parse_rule (rule_to_wire r) = Inr r"
  by (rule parse_rendered [OF assms])

theorem match_rule_round_trip_witness:
  "parse_rule ''type=signal,member=Received'' =
     Inr (MatchRule_new \<lparr> r_kind := Some Signal, r_member := Some (MemberName ''Received'') \<rparr>)"
proof -
  let ?r = "MatchRule_new \<lparr> r_kind := Some Signal, r_member := Some (MemberName ''Received'') \<rparr>"
  have "memT.valid (MemberName ''Received'')"
    by (simp add: memT.valid_def MemberName_new_iff name_eval)
  then have "rule_valid ?r" by (simp add: rule_valid_def MatchRule_new_def)
  moreover have "rule_to_wire ?r = ''type=signal,member=Received''"
    by (simp add: rule_to_wire_def clause_of_def MatchRule_new_def)
  ultimately show ?thesis using match_rule_round_trip [of ?r] by simp
qed

text \<open>
  What a rule selects: a message matches exactly when it agrees with every field the rule
  sets, where a path namespace means that path or an object below it, element by element; the
  byte index in \<open>ObjectPath::starts_with\<close> is always in range.
\<close>

theorem matches_all_set_fields:
  assumes "rule_valid r" and "pred_option pathT.valid (h_path (m_header msg))"
  shows "matches r msg \<longleftrightarrow>
    (\<forall>k. r_kind r = Some k \<longrightarrow> h_kind (m_header msg) = k) \<and>
    (\<forall>n. r_sender r = Some n \<longrightarrow> h_sender (m_header msg) = Some n) \<and>
    (\<forall>i. r_interface r = Some i \<longrightarrow> h_interface (m_header msg) = Some i) \<and>
    (\<forall>m. r_member r = Some m \<longrightarrow> h_member (m_header msg) = Some m) \<and>
    (\<forall>p. r_path r = Some p \<longrightarrow> h_path (m_header msg) = Some p) \<and>
    (\<forall>q. r_path_namespace r = Some q \<longrightarrow>
       (\<exists>p. h_path (m_header msg) = Some p \<and>
            prefix (path_parts (path_str q)) (path_parts (path_str p))))"
proof -
  have sub: "path_starts_with p q = Some (prefix (path_parts (path_str q)) (path_parts (path_str p)))"
    if "pathT.valid p" "pathT.valid q" for p q
    using that by (intro path_starts_with_subtree pathT.valid_new)
  show ?thesis
    using assms
    by (cases "r_path_namespace r"; cases "h_path (m_header msg)")
      (auto simp: matches_def differs_def Let_def rule_valid_def sub split: option.splits)
qed

definition mail_rule :: match_rule where
  "mail_rule = MatchRule_new \<lparr> r_path_namespace := Some (ObjectPath ''/ai/Mail'') \<rparr>"

theorem matches_all_set_fields_witness:
  "matches mail_rule (signal (ObjectPath ''/ai/Mail/a'') (InterfaceName ''ai.M'') (MemberName ''R'') JNull) \<and>
   \<not> matches mail_rule (signal (ObjectPath ''/ai/Mailbox'') (InterfaceName ''ai.M'') (MemberName ''R'') JNull)"
proof -
  have v: "pathT.valid (ObjectPath ''/ai/Mail'')" "pathT.valid (ObjectPath ''/ai/Mail/a'')"
    "pathT.valid (ObjectPath ''/ai/Mailbox'')"
    by (simp_all add: pathT.valid_def ObjectPath_new_iff name_eval)
  have r: "rule_valid mail_rule" using v by (simp add: rule_valid_def mail_rule_def MatchRule_new_def)
  have "pred_option pathT.valid (h_path (m_header (signal p i m b))) \<longleftrightarrow> pathT.valid p" for p i m b
    by (simp add: signal_def)
  then show ?thesis
    using v matches_all_set_fields [OF r, of "signal (ObjectPath ''/ai/Mail/a'') (InterfaceName ''ai.M'') (MemberName ''R'') JNull"]
      matches_all_set_fields [OF r, of "signal (ObjectPath ''/ai/Mailbox'') (InterfaceName ''ai.M'') (MemberName ''R'') JNull"]
    by (simp add: mail_rule_def MatchRule_new_def signal_def path_parts_def)
qed

end
