(* ===== verification/Router.thy ===== *)
theory Router
  imports MatchRules Versions
begin

text \<open>
  The routing table (\<open>router.rs\<close>): who is attached, what they are called, what they want to
  hear and what the host verified about them. The host-callback capabilities the table
  consults are \<open>CallbackState\<close> of \<open>module/host_callbacks.rs\<close>: the table holds their
  addresses (\<open>Arc\<close>s), the cells are the store \<open>rt_cells\<close>. A channel sender is the number
  of its channel. \<open>Router\<close> methods become functions from the table to the result and the
  new table.
\<close>

definition BUS_NAME :: bus_name where
  "BUS_NAME = BusName ''ai.tinyhumans.tinybus.Bus''"

record attestation =
  att_name :: bus_name
  att_sha256 :: string
  att_library_sha256 :: "string option"

section \<open>Host callback capabilities\<close>

record callback_endpoint =
  ep_path :: object_path
  ep_interface :: interface_name
  ep_members :: "member_name list"

text \<open>
  \<open>cb_transport\<close> is the weak module transport of a callback: none, or whether it upgrades to
  a transport that is not faulted.
\<close>

record callback_state =
  cb_destination :: bus_name
  cb_endpoints :: "callback_endpoint list"
  cb_stream_endpoints :: "callback_endpoint list"
  cb_signals :: "callback_endpoint list"
  cb_transport :: "bool option"
  cb_active :: bool
  cb_used :: bool
  cb_revoked :: bool
  cb_module :: "bus_name option"
  cb_running :: nat

definition module_live :: "callback_state \<Rightarrow> bool" where
  "module_live c = (case cb_transport c of None \<Rightarrow> True | Some up \<Rightarrow> up)"

definition includes_peer :: "bus_name \<Rightarrow> callback_state \<Rightarrow> bool" where
  "includes_peer peer c \<longleftrightarrow> cb_destination c = peer \<or> cb_module c = Some peer"

definition revoke :: "callback_state \<Rightarrow> callback_state" where
  "revoke c = c \<lparr> cb_active := False, cb_revoked := True \<rparr>"

definition endpoint_allows :: "header \<Rightarrow> callback_endpoint \<Rightarrow> bool" where
  "endpoint_allows h e \<longleftrightarrow>
     h_path h = Some (ep_path e) \<and> h_interface h = Some (ep_interface e) \<and>
     (case h_member h of None \<Rightarrow> False | Some m \<Rightarrow> m \<in> set (ep_members e))"

definition callback_matches :: "header \<Rightarrow> callback_state \<Rightarrow> bool" where
  "callback_matches h c \<longleftrightarrow>
     cb_active c \<and> module_live c \<and> h_confidential h \<and> h_sender h = cb_module c \<and>
     cb_module c \<noteq> None \<and> h_destination h = Some (cb_destination c) \<and>
     list_ex (endpoint_allows h) (cb_endpoints c)"

definition matches_directed_signal ::
  "bus_name \<Rightarrow> bus_name \<Rightarrow> header \<Rightarrow> callback_state \<Rightarrow> bool" where
  "matches_directed_signal source destination h c \<longleftrightarrow>
     cb_active c \<and> module_live c \<and> cb_destination c = source \<and>
     cb_module c = Some destination \<and> list_ex (endpoint_allows h) (cb_signals c)"

definition signal_destination ::
  "object_path \<Rightarrow> interface_name \<Rightarrow> member_name \<Rightarrow> callback_state \<Rightarrow> bus_name result" where
  "signal_destination p i m c =
     (if \<not> cb_active c \<or> \<not> module_live c \<or>
         \<not> list_ex (\<lambda>s. ep_path s = p \<and> ep_interface s = i \<and> m \<in> set (ep_members s)) (cb_signals c)
      then Inl (failed ''directed signal authority is unavailable'')
      else (case cb_module c of
              Some n \<Rightarrow> Inr n
            | None \<Rightarrow> Inl (failed ''directed signal recipient is unavailable'')))"

section \<open>The table\<close>

record peer =
  p_unique :: bus_name
  p_outbox :: nat
  p_matches :: "match_rule list"
  p_manifest :: "peer_manifest option"
  p_attestations :: "(bus_name, attestation) hashmap"
  p_admitted :: "attestation option"

record router =
  rt_peers :: "(nat, peer) hashmap"
  rt_names :: "(bus_name, nat) hashmap"
  rt_next_id :: nat
  rt_host_callbacks :: "nat list"
  rt_cells :: "nat \<Rightarrow> callback_state"

record name_change =
  nc_name :: bus_name
  nc_old_owner :: "bus_name option"
  nc_new_owner :: "bus_name option"

definition router_default :: "(nat \<Rightarrow> callback_state) \<Rightarrow> router" where
  "router_default cells = \<lparr> rt_peers = [], rt_names = [], rt_next_id = 0,
     rt_host_callbacks = [], rt_cells = cells \<rparr>"

definition has_unique_peer :: "router \<Rightarrow> bus_name \<Rightarrow> bool" where
  "has_unique_peer r unique =
     (case hget (rt_names r) unique of
        None \<Rightarrow> False
      | Some i \<Rightarrow> (case hget (rt_peers r) i of None \<Rightarrow> False | Some p \<Rightarrow> p_unique p = unique))"

definition ensure_peer_attached :: "router \<Rightarrow> nat \<Rightarrow> bus_name \<Rightarrow> unit result" where
  "ensure_peer_attached r i unique =
     (if hget (rt_names r) unique = Some i \<and>
         (case hget (rt_peers r) i of None \<Rightarrow> False | Some p \<Rightarrow> p_unique p = unique)
      then Inr () else Inl (NameHasNoOwner unique))"

definition attach :: "nat \<Rightarrow> router \<Rightarrow> (nat \<times> bus_name) \<times> router" where
  "attach outbox r =
     (let i = u64_add (rt_next_id r) 1;
          unique = unique_name i;
          p = \<lparr> p_unique = unique, p_outbox = outbox, p_matches = [], p_manifest = None,
                p_attestations = [], p_admitted = None \<rparr>
      in ((i, unique),
          r \<lparr> rt_next_id := i, rt_peers := hput i p (rt_peers r),
              rt_names := hput unique i (rt_names r) \<rparr>))"

text \<open>\<open>host_callbacks.retain(..)\<close>: the capabilities that include a peer are revoked and dropped.\<close>

definition revoke_callbacks_for_peer :: "bus_name \<Rightarrow> router \<Rightarrow> router" where
  "revoke_callbacks_for_peer n r =
     (let gone = filter (\<lambda>a. includes_peer n (rt_cells r a)) (rt_host_callbacks r) in
      r \<lparr> rt_host_callbacks := filter (\<lambda>a. \<not> includes_peer n (rt_cells r a)) (rt_host_callbacks r),
          rt_cells := (\<lambda>a. if a \<in> set gone then revoke (rt_cells r a) else rt_cells r a) \<rparr>)"

definition detach :: "nat \<Rightarrow> router \<Rightarrow> name_change list \<times> router" where
  "detach i r =
     (case hget (rt_peers r) i of
        None \<Rightarrow> ([], r)
      | Some p \<Rightarrow>
          (let r1 = revoke_callbacks_for_peer (p_unique p) (r \<lparr> rt_peers := hdel i (rt_peers r) \<rparr>);
               owned = map fst (filter (\<lambda>(_, ow). ow = i) (rt_names r1))
           in (map (\<lambda>n. \<lparr> nc_name = n, nc_old_owner = Some (p_unique p), nc_new_owner = None \<rparr>) owned,
               r1 \<lparr> rt_names := fold hdel owned (rt_names r1) \<rparr>)))"

definition detach_unique :: "bus_name \<Rightarrow> router \<Rightarrow> name_change list \<times> router" where
  "detach_unique unique r =
     (case hget (rt_names r) unique of Some i \<Rightarrow> detach i r | None \<Rightarrow> ([], r))"

definition unique_of :: "router \<Rightarrow> nat \<Rightarrow> bus_name result" where
  "unique_of r i =
     (case hget (rt_peers r) i of
        Some p \<Rightarrow> Inr (p_unique p)
      | None \<Rightarrow> Inl (Transport ''peer detached mid-operation''))"

definition request_name :: "nat \<Rightarrow> bus_name \<Rightarrow> router \<Rightarrow> name_change result \<times> router" where
  "request_name i n r =
     (if is_unique n then (Inl (Protocol ''a unique name cannot be requested''), r)
      else if bus_str n = bus_str BUS_NAME then
        (Inl (Protocol ''the bus's own name is reserved''), r)
      else (case hget (rt_names r) n of
        Some ow \<Rightarrow>
          if ow = i then
            (map_sum id (\<lambda>u. \<lparr> nc_name = n, nc_old_owner = Some u, nc_new_owner = Some u \<rparr>)
               (unique_of r i), r)
          else (case unique_of r ow of
                  Inl e \<Rightarrow> (Inl e, r)
                | Inr u \<Rightarrow> (Inl (NameTaken n u), r))
      | None \<Rightarrow>
          (let r1 = r \<lparr> rt_names := hput n i (rt_names r) \<rparr> in
           (map_sum id (\<lambda>u. \<lparr> nc_name = n, nc_old_owner = None, nc_new_owner = Some u \<rparr>)
              (unique_of r1 i), r1))))"

definition request_name_for_unique ::
  "bus_name \<Rightarrow> bus_name \<Rightarrow> router \<Rightarrow> name_change result \<times> router" where
  "request_name_for_unique unique n r =
     (case hget (rt_names r) unique of
        None \<Rightarrow> (Inl (NameHasNoOwner unique), r)
      | Some i \<Rightarrow> request_name i n r)"

definition release_name :: "nat \<Rightarrow> bus_name \<Rightarrow> router \<Rightarrow> name_change result \<times> router" where
  "release_name i n r =
     (if is_unique n then (Inl (Protocol ''a unique name cannot be released''), r)
      else (case hget (rt_names r) n of
        Some ow \<Rightarrow>
          if ow = i then
            (let r1 = r \<lparr> rt_names := hdel n (rt_names r) \<rparr> in
             (map_sum id (\<lambda>u. \<lparr> nc_name = n, nc_old_owner = Some u, nc_new_owner = None \<rparr>)
                (unique_of r1 i), r1))
          else (case unique_of r ow of
                  Inl e \<Rightarrow> (Inl e, r)
                | Inr u \<Rightarrow> (Inl (NameTaken n u), r))
      | None \<Rightarrow> (Inl (NameHasNoOwner n), r)))"

definition release_name_for_unique ::
  "bus_name \<Rightarrow> bus_name \<Rightarrow> router \<Rightarrow> name_change result \<times> router" where
  "release_name_for_unique unique n r =
     (case hget (rt_names r) unique of
        None \<Rightarrow> (Inl (NameHasNoOwner unique), r)
      | Some i \<Rightarrow>
          (case ensure_peer_attached r i unique of
             Inl e \<Rightarrow> (Inl e, r)
           | Inr _ \<Rightarrow> release_name i n r))"

text \<open>\<open>peers.get_mut(&id)\<close> followed by a change of the peer in place.\<close>

definition update_peer :: "nat \<Rightarrow> (peer \<Rightarrow> peer) \<Rightarrow> router \<Rightarrow> router" where
  "update_peer i f r =
     (case hget (rt_peers r) i of
        Some p \<Rightarrow> r \<lparr> rt_peers := hput i (f p) (rt_peers r) \<rparr>
      | None \<Rightarrow> r)"

definition set_manifest :: "nat \<Rightarrow> peer_manifest \<Rightarrow> router \<Rightarrow> router" where
  "set_manifest i m = update_peer i (\<lambda>p. p \<lparr> p_manifest := Some m \<rparr>)"

definition add_match :: "nat \<Rightarrow> match_rule \<Rightarrow> router \<Rightarrow> router" where
  "add_match i rule = update_peer i (\<lambda>p. p \<lparr> p_matches := p_matches p @ [rule] \<rparr>)"

definition remove_match :: "nat \<Rightarrow> match_rule \<Rightarrow> router \<Rightarrow> router" where
  "remove_match i rule =
     update_peer i (\<lambda>p. p \<lparr> p_matches := filter (\<lambda>q. q \<noteq> rule) (p_matches p) \<rparr>)"

definition set_attestation :: "nat \<Rightarrow> attestation \<Rightarrow> router \<Rightarrow> router" where
  "set_attestation i a =
     update_peer i (\<lambda>p. p \<lparr> p_attestations := hput (att_name a) a (p_attestations p) \<rparr>)"

definition set_attestation_for_unique :: "bus_name \<Rightarrow> attestation \<Rightarrow> router \<Rightarrow> router" where
  "set_attestation_for_unique unique a r =
     (case hget (rt_names r) unique of
        Some i \<Rightarrow> set_attestation i a (update_peer i (\<lambda>p. p \<lparr> p_admitted := Some a \<rparr>) r)
      | None \<Rightarrow> r)"

section \<open>Queries\<close>

definition peer_records :: "router \<Rightarrow> peer_record list" where
  "peer_records r =
     sort_key pr_peer
       (List.map_filter
          (\<lambda>(i, p). map_option
             (\<lambda>m. \<lparr> pr_peer = p_unique p,
                     pr_names = sort (map fst (filter (\<lambda>(n, ow). ow = i \<and> \<not> is_unique n) (rt_names r))),
                     pr_manifest = m \<rparr>)
             (p_manifest p))
          (rt_peers r))"

definition manifest_of :: "router \<Rightarrow> bus_name \<Rightarrow> peer_manifest option" where
  "manifest_of r n =
     Option.bind (hget (rt_names r) n) (\<lambda>i. Option.bind (hget (rt_peers r) i) p_manifest)"

definition list_names :: "router \<Rightarrow> bus_name list" where
  "list_names r = sort (hkeys (rt_names r))"

definition owner_of :: "router \<Rightarrow> bus_name \<Rightarrow> bus_name option" where
  "owner_of r n =
     Option.bind (hget (rt_names r) n) (\<lambda>i. map_option p_unique (hget (rt_peers r) i))"

definition attestation_of :: "router \<Rightarrow> bus_name \<Rightarrow> attestation option" where
  "attestation_of r n =
     Option.bind (hget (rt_names r) n) (\<lambda>i. Option.bind (hget (rt_peers r) i)
       (\<lambda>p. if is_unique n then p_admitted p else hget (p_attestations p) n))"

definition resolve :: "router \<Rightarrow> bus_name \<Rightarrow> nat result" where
  "resolve r destination =
     (case hget (rt_names r) destination of
        None \<Rightarrow> Inl (NameHasNoOwner destination)
      | Some i \<Rightarrow>
          (case hget (rt_peers r) i of
             None \<Rightarrow> Inl (NameHasNoOwner destination)
           | Some p \<Rightarrow> Inr (p_outbox p)))"

definition resolve_attested :: "router \<Rightarrow> bus_name \<Rightarrow> nat result" where
  "resolve_attested r destination =
     (case hget (rt_names r) destination of
        None \<Rightarrow> Inl (NameHasNoOwner destination)
      | Some i \<Rightarrow>
          (case hget (rt_peers r) i of
             None \<Rightarrow> Inl (NameHasNoOwner destination)
           | Some p \<Rightarrow>
               if (if is_unique destination then p_admitted p \<noteq> None
                   else hget (p_attestations p) destination \<noteq> None)
               then Inr (p_outbox p)
               else Inl (NotAttested destination
                      ''only a loaded module with a verified artifact may receive a secret'')))"

definition resolve_call ::
  "router \<Rightarrow> bus_name \<Rightarrow> bus_name option \<Rightarrow> bool \<Rightarrow> header \<Rightarrow> nat result" where
  "resolve_call r destination expected confidential h =
     (if (case expected of None \<Rightarrow> False | Some e \<Rightarrow> owner_of r destination \<noteq> Some e) then
        Inl (NameHasNoOwner destination)
      else if confidential then
        (if is_unique destination \<and>
            list_ex (\<lambda>a. callback_matches h (rt_cells r a)) (rt_host_callbacks r)
         then resolve r destination
         else resolve_attested r destination)
      else resolve r destination)"

definition resolve_call_from ::
  "router \<Rightarrow> nat \<Rightarrow> bus_name \<Rightarrow> bus_name \<Rightarrow> bus_name option \<Rightarrow> bool \<Rightarrow> header \<Rightarrow> nat result" where
  "resolve_call_from r from_id source destination expected confidential h =
     (case ensure_peer_attached r from_id source of
        Inl e \<Rightarrow> Inl e
      | Inr _ \<Rightarrow> resolve_call r destination expected confidential h)"

definition add_host_callbacks :: "nat \<Rightarrow> router \<Rightarrow> unit result \<times> router" where
  "add_host_callbacks a r =
     (let c = rt_cells r a in
      if list_ex (\<lambda>e. e = a \<or> cb_destination (rt_cells r e) = cb_destination c) (rt_host_callbacks r)
      then (Inl (failed ''callback scope is already registered''), r)
      else if length (rt_host_callbacks r) \<ge> 128 then
        (Inl (failed ''callback scope limit reached''), r)
      else (case cb_module c of
              None \<Rightarrow> (Inl (failed ''callback module peer is absent''), r)
            | Some source \<Rightarrow>
                if attestation_of r source = None \<or> owner_of r (cb_destination c) = None then
                  (Inl (failed ''callback peers are not admitted''), r)
                else (Inr (), r \<lparr> rt_host_callbacks := rt_host_callbacks r @ [a] \<rparr>)))"

definition revoke_host_callbacks :: "nat \<Rightarrow> router \<Rightarrow> router" where
  "revoke_host_callbacks a r =
     r \<lparr> rt_cells := (rt_cells r) (a := revoke (rt_cells r a)),
         rt_host_callbacks := filter (\<lambda>e. e \<noteq> a) (rt_host_callbacks r) \<rparr>"

definition directed_signal_target ::
  "router \<Rightarrow> bus_name \<Rightarrow> bus_name \<Rightarrow> header \<Rightarrow> nat result" where
  "directed_signal_target r source destination h =
     (if h_kind h \<noteq> DirectedSignal \<or> h_sender h \<noteq> Some source \<or> h_destination h \<noteq> Some destination
      then Inl (failed ''directed signal routing fields are invalid'')
      else if \<not> list_ex (\<lambda>a. matches_directed_signal source destination h (rt_cells r a))
             (rt_host_callbacks r)
      then Inl (failed ''directed signal authority is unavailable'')
      else resolve r destination)"

definition directed_signal_target_from ::
  "router \<Rightarrow> nat \<Rightarrow> bus_name \<Rightarrow> bus_name \<Rightarrow> header \<Rightarrow> nat result" where
  "directed_signal_target_from r from_id source destination h =
     (case ensure_peer_attached r from_id source of
        Inl e \<Rightarrow> Inl e
      | Inr _ \<Rightarrow> directed_signal_target r source destination h)"

definition subscribers :: "router \<Rightarrow> message \<Rightarrow> nat \<Rightarrow> nat list" where
  "subscribers r sig from_id =
     (if h_confidential (m_header sig) then []
      else map (\<lambda>(_, p). p_outbox p)
        (filter (\<lambda>(i, p). i \<noteq> from_id \<and>
           (case h_destination (m_header sig) of None \<Rightarrow> True | Some d \<Rightarrow> d = p_unique p) \<and>
           list_ex (\<lambda>rule. matches rule sig) (p_matches p)) (rt_peers r)))"

definition subscribers_from :: "router \<Rightarrow> message \<Rightarrow> nat \<Rightarrow> bus_name \<Rightarrow> nat list result" where
  "subscribers_from r sig from_id source =
     (case ensure_peer_attached r from_id source of
        Inl e \<Rightarrow> Inl e
      | Inr _ \<Rightarrow> Inr (subscribers r sig from_id))"

definition broadcast_targets :: "router \<Rightarrow> message \<Rightarrow> nat list" where
  "broadcast_targets r sig =
     (if h_confidential (m_header sig) then []
      else map (\<lambda>(_, p). p_outbox p)
        (filter (\<lambda>(_, p). list_ex (\<lambda>rule. matches rule sig) (p_matches p)) (rt_peers r)))"

end
