(* ===== verification/RouterSpec.thy ===== *)
theory RouterSpec
  imports Router
begin

text \<open>
  The routing table's well-formedness and its preservation by every operation, as the broker
  performs them; ownership, attestation and delivery facts over reachable tables.
\<close>

section \<open>Operations as steps\<close>

text \<open>
  One constructor per state-changing operation of the table. The two operations a peer asks
  for by name run under the broker's \<open>ensure_peer_attached\<close> check, as in \<open>bus_method\<close>.
\<close>

datatype router_op =
    Attach nat
  | Detach nat
  | DetachUnique bus_name
  | RequestName nat bus_name
  | RequestNameFor bus_name bus_name
  | ReleaseName nat bus_name
  | ReleaseNameFor bus_name bus_name
  | SetManifest nat peer_manifest
  | AddMatch nat match_rule
  | RemoveMatch nat match_rule
  | Attest bus_name attestation
  | AddCallbacks nat
  | RevokeCallbacks nat
  | RevokeCallbacksFor bus_name

definition while_attached :: "nat \<Rightarrow> (router \<Rightarrow> router) \<Rightarrow> router \<Rightarrow> router" where
  "while_attached i f r =
     (case ensure_peer_attached r i (unique_name i) of Inl _ \<Rightarrow> r | Inr _ \<Rightarrow> f r)"

fun router_step :: "router_op \<Rightarrow> router \<Rightarrow> router" where
  "router_step (Attach c) r = snd (attach c r)"
| "router_step (Detach i) r = snd (detach i r)"
| "router_step (DetachUnique n) r = snd (detach_unique n r)"
| "router_step (RequestName i n) r = while_attached i (\<lambda>r. snd (request_name i n r)) r"
| "router_step (RequestNameFor u n) r = snd (request_name_for_unique u n r)"
| "router_step (ReleaseName i n) r = while_attached i (\<lambda>r. snd (release_name i n r)) r"
| "router_step (ReleaseNameFor u n) r = snd (release_name_for_unique u n r)"
| "router_step (SetManifest i m) r = set_manifest i m r"
| "router_step (AddMatch i rule) r = add_match i rule r"
| "router_step (RemoveMatch i rule) r = remove_match i rule r"
| "router_step (Attest u a) r = set_attestation_for_unique u a r"
| "router_step (AddCallbacks a) r = snd (add_host_callbacks a r)"
| "router_step (RevokeCallbacks a) r = revoke_host_callbacks a r"
| "router_step (RevokeCallbacksFor n) r = revoke_callbacks_for_peer n r"

section \<open>Well-formedness\<close>

definition peer_ok :: "nat \<Rightarrow> peer \<Rightarrow> bool" where
  "peer_ok i p \<longleftrightarrow>
     p_unique p = unique_name i \<and> (\<forall>n a. hget (p_attestations p) n = Some a \<longrightarrow> att_name a = n)"

text \<open>The two tables agree: every name is owned by an attached peer and every attached peer owns
  exactly its own unique name.\<close>

definition tables_ok :: "router \<Rightarrow> bool" where
  "tables_ok r \<longleftrightarrow>
     hmap_ok (rt_peers r) \<and> hmap_ok (rt_names r) \<and> hget (rt_names r) BUS_NAME = None \<and>
     (\<forall>i p. hget (rt_peers r) i = Some p \<longrightarrow>
        peer_ok i p \<and> hget (rt_names r) (unique_name i) = Some i) \<and>
     (\<forall>n i. hget (rt_names r) n = Some i \<longrightarrow>
        hget (rt_peers r) i \<noteq> None \<and> (is_unique n \<longrightarrow> n = unique_name i))"

text \<open>The registered capabilities: bounded, one per destination, none for a detached peer.\<close>

definition callbacks_ok :: "router \<Rightarrow> bool" where
  "callbacks_ok r \<longleftrightarrow>
     length (rt_host_callbacks r) \<le> 128 \<and>
     distinct (map (\<lambda>a. cb_destination (rt_cells r a)) (rt_host_callbacks r)) \<and>
     (\<forall>a \<in> set (rt_host_callbacks r). \<forall>n.
        includes_peer n (rt_cells r a) \<and> is_unique n \<longrightarrow> hget (rt_names r) n \<noteq> None)"

definition router_wf :: "router \<Rightarrow> bool" where
  "router_wf r \<longleftrightarrow> tables_ok r \<and> callbacks_ok r"

lemma unique_is_unique [simp]: "is_unique (unique_name i)"
  by (simp add: is_unique_def unique_name_def starts_with_def)

lemma unique_inj [simp]: "unique_name i = unique_name j \<longleftrightarrow> i = j"
  by (simp add: unique_name_def)

lemma bus_not_unique [simp]: "\<not> is_unique BUS_NAME"
  by (simp add: is_unique_def BUS_NAME_def starts_with_def)

lemma unique_not_bus [simp]: "unique_name i \<noteq> BUS_NAME"
  using bus_not_unique unique_is_unique by metis

lemma bus_not_unique_name [simp]: "BUS_NAME \<noteq> unique_name i"
  using unique_not_bus by metis

lemma bus_str_eq [simp]: "bus_str n = bus_str m \<longleftrightarrow> n = m"
  by (cases n; cases m) simp

lemmas table_simps = hm.get_put hm.get_del hm.get_del_fold hm.ok_put hm.ok_del hm.ok_del_fold

lemma tables_peer:
  assumes "tables_ok r" and "hget (rt_peers r) i = Some p"
  shows "p_unique p = unique_name i" and "hget (rt_names r) (unique_name i) = Some i"
  using assms by (simp_all add: tables_ok_def peer_ok_def)

lemma tables_name:
  assumes "tables_ok r" and "hget (rt_names r) n = Some i"
  shows "\<exists>p. hget (rt_peers r) i = Some p" and "is_unique n \<Longrightarrow> n = unique_name i" and "n \<noteq> BUS_NAME"
  using assms by (auto simp: tables_ok_def)

lemma attached_iff:
  assumes "tables_ok r"
  shows "ensure_peer_attached r i (unique_name i) = Inr u \<longleftrightarrow> hget (rt_peers r) i \<noteq> None"
  using tables_peer [OF assms] by (auto simp: ensure_peer_attached_def split: option.splits)

lemma while_attached_eq:
  assumes "tables_ok r"
  shows "while_attached i f r = (if hget (rt_peers r) i = None then r else f r)"
  using attached_iff [OF assms, of i "()"]
  by (auto simp: while_attached_def split: sum.splits)

section \<open>Every operation keeps the table well formed\<close>

lemma wf_default [wf_intros]: "router_wf (router_default cells)"
  by (simp add: router_wf_def tables_ok_def callbacks_ok_def router_default_def)

lemma tables_attach: "tables_ok r \<Longrightarrow> tables_ok (snd (attach c r))"
  unfolding tables_ok_def
  by (auto simp: attach_def Let_def table_simps peer_ok_def)

lemma wf_attach [wf_intros]: "router_wf r \<Longrightarrow> router_wf (snd (attach c r))"
  using tables_attach [of r c]
  by (auto simp: router_wf_def callbacks_ok_def attach_def Let_def table_simps)

text \<open>Dropping capabilities and leaving the others alone keeps them well formed.\<close>

lemma callbacks_shrink:
  assumes "callbacks_ok r" and "rt_host_callbacks r' = filter q (rt_host_callbacks r)"
    and same: "\<And>a. a \<in> set (rt_host_callbacks r') \<Longrightarrow> rt_cells r' a = rt_cells r a"
    and named: "\<And>a n. a \<in> set (rt_host_callbacks r') \<Longrightarrow> includes_peer n (rt_cells r a) \<Longrightarrow>
      is_unique n \<Longrightarrow> hget (rt_names r) n \<noteq> None \<Longrightarrow> hget (rt_names r') n \<noteq> None"
  shows "callbacks_ok r'"
proof -
  have "map (\<lambda>a. cb_destination (rt_cells r' a)) (rt_host_callbacks r') =
      map (\<lambda>a. cb_destination (rt_cells r a)) (filter q (rt_host_callbacks r))"
    using same by (simp add: assms(2))
  moreover have "distinct (map (\<lambda>a. cb_destination (rt_cells r a)) (filter q (rt_host_callbacks r)))"
    using assms(1) by (auto simp: callbacks_ok_def distinct_map inj_on_def)
  moreover have "length (rt_host_callbacks r') \<le> 128"
    unfolding assms(2) using assms(1) length_filter_le [of q "rt_host_callbacks r"]
    by (metis callbacks_ok_def le_trans)
  moreover have "hget (rt_names r') n \<noteq> None"
    if "a \<in> set (rt_host_callbacks r')" "includes_peer n (rt_cells r' a)" "is_unique n" for a n
  proof -
    have "a \<in> set (rt_host_callbacks r)" "includes_peer n (rt_cells r a)"
      using that same [OF that(1)] by (simp_all add: assms(2))
    then show ?thesis
      using named [OF that(1)] assms(1) that(3) by (auto simp: callbacks_ok_def)
  qed
  ultimately show ?thesis by (simp add: callbacks_ok_def)
qed

lemma wf_revoke_for [wf_intros]: "router_wf r \<Longrightarrow> router_wf (revoke_callbacks_for_peer n r)"
proof -
  assume r: "router_wf r"
  then have "tables_ok (revoke_callbacks_for_peer n r)"
    by (simp add: router_wf_def tables_ok_def revoke_callbacks_for_peer_def Let_def)
  moreover have "callbacks_ok (revoke_callbacks_for_peer n r)"
    by (rule callbacks_shrink [of r _ "\<lambda>a. \<not> includes_peer n (rt_cells r a)"])
      (use r in \<open>auto simp: router_wf_def revoke_callbacks_for_peer_def Let_def\<close>)
  ultimately show ?thesis by (simp add: router_wf_def)
qed

lemma wf_revoke [wf_intros]: "router_wf r \<Longrightarrow> router_wf (revoke_host_callbacks a r)"
proof -
  assume r: "router_wf r"
  then have "tables_ok (revoke_host_callbacks a r)"
    by (simp add: router_wf_def tables_ok_def revoke_host_callbacks_def)
  moreover have "callbacks_ok (revoke_host_callbacks a r)"
    by (rule callbacks_shrink [of r _ "\<lambda>e. e \<noteq> a"])
      (use r in \<open>auto simp: router_wf_def revoke_host_callbacks_def\<close>)
  ultimately show ?thesis by (simp add: router_wf_def)
qed

section \<open>Detaching\<close>

definition owned_names :: "nat \<Rightarrow> router \<Rightarrow> bus_name list" where
  "owned_names i r = map fst (filter (\<lambda>(_, ow). ow = i) (rt_names r))"

lemma owned_names_iff:
  "hmap_ok (rt_names r) \<Longrightarrow> n \<in> set (owned_names i r) \<longleftrightarrow> hget (rt_names r) n = Some i"
  by (force simp: owned_names_def hget_iff)

lemma owned_names_distinct: "hmap_ok (rt_names r) \<Longrightarrow> distinct (owned_names i r)"
  by (simp add: owned_names_def hmap_ok_def distinct_map_filter)

text \<open>The effect of a detach on a table where the peer is attached.\<close>

lemma detach_eq:
  assumes "hget (rt_peers r) i = Some p"
  shows "detach i r =
    (map (\<lambda>n. \<lparr> nc_name = n, nc_old_owner = Some (p_unique p), nc_new_owner = None \<rparr>) (owned_names i r),
     (revoke_callbacks_for_peer (p_unique p) r)
       \<lparr> rt_peers := hdel i (rt_peers r),
         rt_names := fold hdel (owned_names i r) (rt_names r) \<rparr>)"
  using assms
  by (cases r)
    (simp add: detach_def revoke_callbacks_for_peer_def owned_names_def Let_def cong: if_cong)

lemma detach_names:
  assumes "tables_ok r" and "hget (rt_peers r) i = Some p"
  shows "hget (rt_names (snd (detach i r))) n =
    (if hget (rt_names r) n = Some i then None else hget (rt_names r) n)"
  using assms owned_names_iff [of r n i]
  by (simp add: detach_eq [OF assms(2)] table_simps tables_ok_def)

lemma detach_peers:
  assumes "hget (rt_peers r) i = Some p"
  shows "hget (rt_peers (snd (detach i r))) = (hget (rt_peers r))(i := None)"
  by (rule ext) (simp add: detach_eq [OF assms] table_simps)

lemma detach_callbacks:
  assumes "hget (rt_peers r) i = Some p"
  shows "rt_host_callbacks (snd (detach i r)) =
      filter (\<lambda>a. \<not> includes_peer (p_unique p) (rt_cells r a)) (rt_host_callbacks r)"
    and "rt_cells (snd (detach i r)) a =
      (if a \<in> set (rt_host_callbacks r) \<and> includes_peer (p_unique p) (rt_cells r a)
       then revoke (rt_cells r a) else rt_cells r a)"
  by (simp_all add: detach_eq [OF assms] revoke_callbacks_for_peer_def Let_def)

lemma tables_detach:
  assumes "tables_ok r" and p: "hget (rt_peers r) i = Some p"
  shows "tables_ok (snd (detach i r))"
proof -
  have "hmap_ok (rt_peers (snd (detach i r)))" "hmap_ok (rt_names (snd (detach i r)))"
    using assms(1) by (simp_all add: detach_eq [OF p] table_simps tables_ok_def)
  then show ?thesis
    using assms(1) detach_names [OF assms] detach_peers [OF p]
    unfolding tables_ok_def by (auto split: if_splits)
qed

lemma callbacks_detach:
  assumes "router_wf r" and p: "hget (rt_peers r) i = Some p"
  shows "callbacks_ok (snd (detach i r))"
proof -
  have t: "tables_ok r" and c: "callbacks_ok r" using assms(1) by (simp_all add: router_wf_def)
  show ?thesis
  proof (rule callbacks_shrink [OF c detach_callbacks(1) [OF p]])
    fix a
    assume "a \<in> set (rt_host_callbacks (snd (detach i r)))"
    then have keep: "\<not> includes_peer (p_unique p) (rt_cells r a)"
      by (simp add: detach_callbacks(1) [OF p])
    then show "rt_cells (snd (detach i r)) a = rt_cells r a" by (simp add: detach_callbacks(2) [OF p])
    fix n
    assume "includes_peer n (rt_cells r a)" "is_unique n" "hget (rt_names r) n \<noteq> None"
    moreover from this have "hget (rt_names r) n \<noteq> Some i"
      using tables_name(2) [OF t] tables_peer(1) [OF t p] keep by metis
    ultimately show "hget (rt_names (snd (detach i r))) n \<noteq> None"
      by (simp add: detach_names [OF t p])
  qed
qed

lemma wf_detach [wf_intros]:
  assumes "router_wf r"
  shows "router_wf (snd (detach i r))"
proof (cases "hget (rt_peers r) i")
  case None
  then show ?thesis using assms by (simp add: detach_def)
next
  case (Some p)
  then show ?thesis
    using assms callbacks_detach [OF assms Some] tables_detach [of r i p] by (simp add: router_wf_def)
qed

lemma wf_detach_unique [wf_intros]: "router_wf r \<Longrightarrow> router_wf (snd (detach_unique n r))"
  by (simp add: detach_unique_def wf_detach split: option.split)

section \<open>Names\<close>

lemma callbacks_more_names:
  assumes "callbacks_ok r" and "rt_host_callbacks r' = rt_host_callbacks r" and "rt_cells r' = rt_cells r"
    and "\<And>n. is_unique n \<Longrightarrow> hget (rt_names r) n \<noteq> None \<Longrightarrow> hget (rt_names r') n \<noteq> None"
  shows "callbacks_ok r'"
  using assms by (auto simp: callbacks_ok_def)

lemma unique_of_attached:
  "tables_ok r \<Longrightarrow> hget (rt_names r) n = Some i \<Longrightarrow> unique_of r i = Inr (unique_name i)"
  using tables_name(1) tables_peer(1) by (fastforce simp: unique_of_def)

lemma wf_request:
  assumes "router_wf r" and "hget (rt_peers r) i \<noteq> None"
  shows "router_wf (snd (request_name i n r))"
proof (cases "is_unique n \<or> n = BUS_NAME \<or> hget (rt_names r) n \<noteq> None")
  case True
  then have "snd (request_name i n r) = r"
    by (auto simp: request_name_def split: sum.split)
  then show ?thesis using assms(1) by simp
next
  case False
  then have e: "snd (request_name i n r) = r \<lparr> rt_names := hput n i (rt_names r) \<rparr>"
    by (simp add: request_name_def Let_def)
  have "tables_ok (r \<lparr> rt_names := hput n i (rt_names r) \<rparr>)"
    using assms False unfolding router_wf_def tables_ok_def by (auto simp: table_simps)
  moreover have "callbacks_ok (r \<lparr> rt_names := hput n i (rt_names r) \<rparr>)"
    by (rule callbacks_more_names [of r]) (use assms(1) in \<open>simp_all add: router_wf_def table_simps\<close>)
  ultimately show ?thesis by (simp add: e router_wf_def)
qed

lemma wf_release [wf_intros]: 
  assumes "router_wf r"
  shows "router_wf (snd (release_name i n r))"
proof (cases "is_unique n \<or> hget (rt_names r) n \<noteq> Some i")
  case True
  then have "snd (release_name i n r) = r"
    by (auto simp: release_name_def split: sum.split option.split)
  then show ?thesis using assms by simp
next
  case False
  then have e: "snd (release_name i n r) = r \<lparr> rt_names := hdel n (rt_names r) \<rparr>"
    by (simp add: release_name_def Let_def)
  have "tables_ok (r \<lparr> rt_names := hdel n (rt_names r) \<rparr>)"
    using assms False unfolding router_wf_def tables_ok_def by (auto simp: table_simps)
  moreover have "callbacks_ok (r \<lparr> rt_names := hdel n (rt_names r) \<rparr>)"
    by (rule callbacks_more_names [of r])
      (use assms False in \<open>auto simp: router_wf_def table_simps\<close>)
  ultimately show ?thesis by (simp add: e router_wf_def)
qed

lemma wf_request_for [wf_intros]:
  assumes "router_wf r"
  shows "router_wf (snd (request_name_for_unique u n r))"
  using assms wf_request [OF assms] tables_name(1) [of r u]
  by (auto simp: request_name_for_unique_def router_wf_def split: option.split)

lemma wf_release_for [wf_intros]:
  "router_wf r \<Longrightarrow> router_wf (snd (release_name_for_unique u n r))"
  by (simp add: release_name_for_unique_def wf_release split: option.split sum.split)

section \<open>Peers in place\<close>

lemma wf_update_peer:
  assumes "router_wf r" and "\<And>p. peer_ok i p \<Longrightarrow> peer_ok i (f p)"
  shows "router_wf (update_peer i f r)"
proof (cases "hget (rt_peers r) i")
  case None
  then show ?thesis using assms(1) by (simp add: update_peer_def)
next
  case (Some p)
  then have e: "update_peer i f r = r \<lparr> rt_peers := hput i (f p) (rt_peers r) \<rparr>"
    by (simp add: update_peer_def)
  have "tables_ok (r \<lparr> rt_peers := hput i (f p) (rt_peers r) \<rparr>)"
    using assms Some unfolding router_wf_def tables_ok_def by (auto simp: table_simps)
  moreover have "callbacks_ok (r \<lparr> rt_peers := hput i (f p) (rt_peers r) \<rparr>)"
    using assms(1) by (simp add: router_wf_def callbacks_ok_def)
  ultimately show ?thesis by (simp add: e router_wf_def)
qed

lemma wf_peer_updates [wf_intros]:
  assumes "router_wf r"
  shows "router_wf (set_manifest i m r)" and "router_wf (add_match i rule r)"
    and "router_wf (remove_match i rule r)" and "router_wf (set_attestation i a r)"
  unfolding set_manifest_def add_match_def remove_match_def set_attestation_def
  by (rule wf_update_peer [OF assms]; simp add: peer_ok_def table_simps)+

lemma wf_attest [wf_intros]:
  assumes "router_wf r"
  shows "router_wf (set_attestation_for_unique u a r)"
proof -
  have "router_wf (update_peer i (\<lambda>p. p \<lparr> p_admitted := Some a \<rparr>) r)" for i
    by (rule wf_update_peer [OF assms]) (simp add: peer_ok_def)
  then show ?thesis
    using assms wf_peer_updates(4) by (simp add: set_attestation_for_unique_def split: option.split)
qed

lemma owner_names: "owner_of r n \<noteq> None \<Longrightarrow> hget (rt_names r) n \<noteq> None"
  by (auto simp: owner_of_def bind_eq_Some_conv)

lemma attestation_names: "attestation_of r n \<noteq> None \<Longrightarrow> hget (rt_names r) n \<noteq> None"
  by (auto simp: attestation_of_def bind_eq_Some_conv)

lemma wf_add_callbacks [wf_intros]:
  assumes "router_wf r"
  shows "router_wf (snd (add_host_callbacks a r))"
proof (cases "fst (add_host_callbacks a r)")
  case (Inl e)
  then have "snd (add_host_callbacks a r) = r"
    by (auto simp: add_host_callbacks_def Let_def split: if_splits option.splits)
  then show ?thesis using assms by simp
next
  case (Inr u)
  then obtain source where s: "cb_module (rt_cells r a) = Some source"
    "attestation_of r source \<noteq> None" "owner_of r (cb_destination (rt_cells r a)) \<noteq> None"
    and fresh: "\<not> list_ex (\<lambda>e. e = a \<or> cb_destination (rt_cells r e) = cb_destination (rt_cells r a))
      (rt_host_callbacks r)" and len: "length (rt_host_callbacks r) < 128"
    and e: "snd (add_host_callbacks a r) = r \<lparr> rt_host_callbacks := rt_host_callbacks r @ [a] \<rparr>"
    by (auto simp: add_host_callbacks_def Let_def split: if_splits option.splits)
  have "hget (rt_names r) n \<noteq> None" if "includes_peer n (rt_cells r a)" for n
    using that s owner_names attestation_names by (auto simp: includes_peer_def)
  then have "callbacks_ok (r \<lparr> rt_host_callbacks := rt_host_callbacks r @ [a] \<rparr>)"
    using assms fresh len by (auto simp: router_wf_def callbacks_ok_def list_ex_iff)
  then show ?thesis using assms by (simp add: e router_wf_def tables_ok_def)
qed

lemma wf_step [wf_intros]: "router_wf r \<Longrightarrow> router_wf (router_step x r)"
proof (cases x)
  case (RequestName i n)
  assume "router_wf r"
  then show ?thesis using RequestName wf_request [of r i n]
    by (simp add: while_attached_eq router_wf_def)
next
  case (ReleaseName i n)
  assume "router_wf r"
  then show ?thesis using ReleaseName wf_release [of r i n]
    by (simp add: while_attached_eq router_wf_def)
qed (simp_all add: wf_intros)

interpretation rt: stepped router_step router_wf
  by unfold_locales (rule wf_step)

definition table_after :: "router_op list \<Rightarrow> (nat \<Rightarrow> callback_state) \<Rightarrow> router" where
  "table_after ops cells = fold router_step ops (router_default cells)"

lemma wf_after [wf_intros]: "router_wf (table_after ops cells)"
  unfolding table_after_def by (rule rt.inv_run [OF wf_default])

lemma table_after_snoc: "table_after (ops @ [x]) cells = router_step x (table_after ops cells)"
  by (simp add: table_after_def)

section \<open>Owners\<close>

lemma owner_eq:
  "tables_ok r \<Longrightarrow> owner_of r n = map_option unique_name (hget (rt_names r) n)"
  using tables_name(1) [of r n] tables_peer(1) [of r]
  by (cases "hget (rt_names r) n") (fastforce simp: owner_of_def)+

lemma wf_tables: "router_wf r \<Longrightarrow> tables_ok r"
  by (simp add: router_wf_def)

lemma owner_unique: "router_wf r \<Longrightarrow> is_unique n \<Longrightarrow> owner_of r n = Some u \<Longrightarrow> u = n"
  using tables_name(2) [OF wf_tables, of r n] by (auto simp: owner_eq wf_tables)

lemma owner_detach:
  assumes "router_wf r" and "hget (rt_peers r) i \<noteq> None"
  shows "owner_of (snd (detach i r)) n =
    (if owner_of r n = Some (unique_name i) then None else owner_of r n)"
  using assms detach_names [of r i _ n] wf_detach [OF assms(1), of i]
  by (auto simp: owner_eq wf_tables)

lemma owner_request:
  assumes "router_wf r" and "hget (rt_peers r) i \<noteq> None"
  shows "owner_of (snd (request_name i n r)) m =
    (if m = n \<and> \<not> is_unique n \<and> n \<noteq> BUS_NAME \<and> owner_of r n = None
     then Some (unique_name i) else owner_of r m)"
proof -
  have "hget (rt_names (snd (request_name i n r))) m =
      (if m = n \<and> \<not> is_unique n \<and> n \<noteq> BUS_NAME \<and> hget (rt_names r) n = None
       then Some i else hget (rt_names r) m)"
    by (auto simp: request_name_def Let_def table_simps split: option.split sum.split)
  then show ?thesis using wf_request [OF assms, of n] assms(1) by (auto simp: owner_eq wf_tables)
qed

lemma owner_release:
  assumes "router_wf r"
  shows "owner_of (snd (release_name i n r)) m =
    (if m = n \<and> \<not> is_unique n \<and> owner_of r n = Some (unique_name i) then None else owner_of r m)"
proof -
  have "hget (rt_names (snd (release_name i n r))) m =
      (if m = n \<and> \<not> is_unique n \<and> hget (rt_names r) n = Some i then None else hget (rt_names r) m)"
    by (auto simp: release_name_def Let_def table_simps split: option.split sum.split)
  then show ?thesis using wf_release [OF assms, of i n] assms by (auto simp: owner_eq wf_tables)
qed

lemma owner_attach:
  assumes "router_wf r" and "owner_of r n = Some u"
  shows "owner_of (snd (attach c r)) n = Some u"
  using assms wf_attach [OF assms(1), of c] tables_name(2) [OF wf_tables [OF assms(1)], of n]
  by (auto simp: owner_eq wf_tables attach_def Let_def table_simps)

lemma names_update_peer [simp]: "rt_names (update_peer i f r) = rt_names r"
  by (simp add: update_peer_def split: option.split)

lemma names_set_attestation [simp]: "rt_names (set_attestation_for_unique u a r) = rt_names r"
  by (simp add: set_attestation_for_unique_def set_attestation_def split: option.split)

lemma names_callbacks [simp]:
  "rt_names (revoke_callbacks_for_peer n r) = rt_names r"
  "rt_names (revoke_host_callbacks a r) = rt_names r"
  "rt_names (snd (add_host_callbacks a r)) = rt_names r"
  by (auto simp: revoke_callbacks_for_peer_def revoke_host_callbacks_def add_host_callbacks_def
      Let_def split: option.split)

lemma owner_same_names:
  "router_wf r \<Longrightarrow> router_wf r' \<Longrightarrow> rt_names r' = rt_names r \<Longrightarrow> owner_of r' n = owner_of r n"
  by (simp add: owner_eq wf_tables)

lemma owner_step:
  assumes r: "router_wf r" and n: "owner_of r n = Some u"
  shows "owner_of (router_step x r) n \<in> {None, Some u}"
proof (cases x)
  case (Detach i)
  then show ?thesis using n owner_detach [OF r, of i n]
    by (cases "hget (rt_peers r) i") (auto simp: detach_def)
next
  case (DetachUnique m)
  then show ?thesis
    using n owner_detach [OF r, of _ n] tables_name(1) [OF wf_tables [OF r], of m]
    by (auto simp: detach_unique_def split: option.split)
next
  case (RequestName i m)
  then show ?thesis using n owner_request [OF r, of i m n] r
    by (auto simp: while_attached_eq wf_tables)
next
  case (RequestNameFor v m)
  then show ?thesis
    using n owner_request [OF r, of _ m n] tables_name(1) [OF wf_tables [OF r], of v]
    by (auto simp: request_name_for_unique_def split: option.split)
next
  case (ReleaseName i m)
  then show ?thesis using n owner_release [OF r, of i m n] r
    by (auto simp: while_attached_eq wf_tables)
next
  case (ReleaseNameFor v m)
  then show ?thesis
    using n owner_release [OF r, of _ m n]
    by (auto simp: release_name_for_unique_def split: option.split sum.split)
qed (use n r owner_attach [OF r n] wf_step [OF r, of x] owner_same_names [OF r, of "router_step x r" n]
  in \<open>auto simp: set_manifest_def add_match_def remove_match_def\<close>)

end
