(* ===== verification/RouterProps.thy ===== *)
theory RouterProps
  imports RouterSpec
begin

text \<open>
  What the routing table promises: ownership, death of a peer, provenance of attestations,
  confidential and directed delivery, fan-out and identifiers.
\<close>

section \<open>Provenance of attestations\<close>

text \<open>
  The grants of a run: the peer an attestation was recorded for, by its unique name, at the
  moment the module host recorded it.
\<close>

fun grants :: "router_op \<Rightarrow> router \<Rightarrow> (bus_name \<times> attestation) list" where
  "grants (Attest u a) r = (case owner_of r u of Some v \<Rightarrow> [(v, a)] | None \<Rightarrow> [])"
| "grants _ r = []"

fun granted :: "router_op list \<Rightarrow> router \<Rightarrow> (bus_name \<times> attestation) list" where
  "granted [] r = []"
| "granted (x # xs) r = grants x r @ granted xs (router_step x r)"

definition peer_trust :: "peer \<Rightarrow> attestation set" where
  "peer_trust p = ran (hget (p_attestations p)) \<union> set_option (p_admitted p)"

definition provenance :: "router \<Rightarrow> (bus_name \<times> attestation) set \<Rightarrow> bool" where
  "provenance r g \<longleftrightarrow>
     (\<forall>i p. hget (rt_peers r) i = Some p \<longrightarrow> (\<forall>a \<in> peer_trust p. (unique_name i, a) \<in> g))"

lemma provenance_mono: "provenance r g \<Longrightarrow> g \<subseteq> g' \<Longrightarrow> provenance r g'"
  by (auto simp: provenance_def)

lemma provenance_peers: "provenance r g \<Longrightarrow> rt_peers r' = rt_peers r \<Longrightarrow> provenance r' g"
  by (simp add: provenance_def)

lemma peers_names_ops [simp]:
  "rt_peers (snd (request_name i n r)) = rt_peers r"
  "rt_peers (snd (release_name i n r)) = rt_peers r"
  "rt_peers (snd (request_name_for_unique u n r)) = rt_peers r"
  "rt_peers (snd (release_name_for_unique u n r)) = rt_peers r"
  "rt_peers (revoke_callbacks_for_peer n r) = rt_peers r"
  "rt_peers (revoke_host_callbacks a r) = rt_peers r"
  "rt_peers (snd (add_host_callbacks a r)) = rt_peers r"
  by (auto simp: request_name_def release_name_def request_name_for_unique_def
      release_name_for_unique_def revoke_callbacks_for_peer_def revoke_host_callbacks_def
      add_host_callbacks_def Let_def split: option.split sum.split)

lemma provenance_update:
  assumes "provenance r g" and "\<And>p. peer_trust (f p) \<subseteq> peer_trust p \<union> {a. (unique_name i, a) \<in> g}"
  shows "provenance (update_peer i f r) g"
  using assms by (fastforce simp: provenance_def update_peer_def table_simps split: option.split)

lemma provenance_attach: "provenance r g \<Longrightarrow> provenance (snd (attach c r)) g"
  by (auto simp: provenance_def attach_def Let_def table_simps peer_trust_def)

lemma provenance_detach: "provenance r g \<Longrightarrow> provenance (snd (detach i r)) g"
  by (cases "hget (rt_peers r) i")
    (auto simp: provenance_def detach_def [of _ r] table_simps Let_def split: if_splits)

lemma provenance_attest:
  assumes "router_wf r" and "provenance r g"
  shows "provenance (set_attestation_for_unique u a r) (g \<union> set (grants (Attest u a) r))"
proof (cases "hget (rt_names r) u")
  case None
  then show ?thesis using assms(2)
    by (simp add: set_attestation_for_unique_def provenance_mono)
next
  case (Some i)
  let ?g = "g \<union> {(unique_name i, a)}"
  have "grants (Attest u a) r = [(unique_name i, a)]"
    using Some assms(1) by (simp add: owner_eq wf_tables)
  moreover have "provenance (update_peer i (\<lambda>p. p \<lparr> p_admitted := Some a \<rparr>) r) ?g"
    by (rule provenance_update)
      (use assms(2) in \<open>auto simp: peer_trust_def intro: provenance_mono\<close>)
  then have "provenance (set_attestation i a (update_peer i (\<lambda>p. p \<lparr> p_admitted := Some a \<rparr>) r)) ?g"
    unfolding set_attestation_def
    by (rule provenance_update) (auto simp: peer_trust_def ran_def table_simps split: if_splits)
  ultimately show ?thesis using Some by (simp add: set_attestation_for_unique_def)
qed

lemma provenance_step:
  assumes "router_wf r" and "provenance r g"
  shows "provenance (router_step x r) (g \<union> set (grants x r))"
proof (cases x)
  case (Attest u a)
  then show ?thesis using provenance_attest [OF assms] by simp
qed (use assms in \<open>auto simp: while_attached_eq wf_tables detach_unique_def set_manifest_def add_match_def
      remove_match_def intro: provenance_attach provenance_detach provenance_peers split: option.split
      intro!: provenance_update simp: peer_trust_def\<close>)

lemma provenance_run:
  assumes "router_wf r" and "provenance r g"
  shows "provenance (fold router_step xs r) (g \<union> set (granted xs r))"
  using assms
proof (induction xs arbitrary: r g)
  case (Cons x xs)
  have "provenance (fold router_step xs (router_step x r))
      ((g \<union> set (grants x r)) \<union> set (granted xs (router_step x r)))"
    using Cons.IH [OF wf_step [OF Cons.prems(1)] provenance_step [OF Cons.prems]] .
  then show ?case by (simp add: Un_assoc)
qed simp

lemma attestation_trust:
  assumes "router_wf r" and "attestation_of r n = Some a"
  shows "\<exists>i p. hget (rt_names r) n = Some i \<and> hget (rt_peers r) i = Some p \<and> a \<in> peer_trust p \<and>
    owner_of r n = Some (unique_name i) \<and> (is_unique n \<or> att_name a = n)"
proof -
  obtain i p where i: "hget (rt_names r) n = Some i" and p: "hget (rt_peers r) i = Some p"
    and a: "(if is_unique n then p_admitted p else hget (p_attestations p) n) = Some a"
    using assms(2) by (auto simp: attestation_of_def bind_eq_Some_conv)
  have "a \<in> peer_trust p" using a by (auto simp: peer_trust_def ran_def split: if_splits)
  moreover have "peer_ok i p" using assms(1) p by (simp add: router_wf_def tables_ok_def)
  then have "is_unique n \<or> att_name a = n" using a by (auto simp: peer_ok_def split: if_splits)
  ultimately show ?thesis using i p assms(1) by (auto simp: owner_eq wf_tables)
qed

section \<open>Identifiers\<close>

fun issued :: "router_op list \<Rightarrow> router \<Rightarrow> (nat \<times> bus_name) list" where
  "issued [] r = []"
| "issued (x # xs) r =
     (case x of Attach c \<Rightarrow> [fst (attach c r)] | _ \<Rightarrow> []) @ issued xs (router_step x r)"

definition attaches :: "router_op list \<Rightarrow> nat" where
  "attaches xs = length (filter (\<lambda>x. case x of Attach _ \<Rightarrow> True | _ \<Rightarrow> False) xs)"

lemma next_id_step:
  "rt_next_id (router_step x r) =
     (case x of Attach _ \<Rightarrow> u64_add (rt_next_id r) 1 | _ \<Rightarrow> rt_next_id r)"
  by (cases x)
    (auto simp: attach_def detach_def detach_unique_def request_name_def release_name_def
      request_name_for_unique_def release_name_for_unique_def while_attached_def set_manifest_def
      add_match_def remove_match_def set_attestation_for_unique_def set_attestation_def
      update_peer_def revoke_callbacks_for_peer_def revoke_host_callbacks_def
      add_host_callbacks_def Let_def split: option.split sum.split)

lemma issued_run:
  "rt_next_id r + attaches xs < 2 ^ 64 \<Longrightarrow>
   issued xs r = map (\<lambda>i. (i, unique_name i)) [rt_next_id r + 1..<rt_next_id r + attaches xs + 1]"
proof (induction xs arbitrary: r)
  case Nil
  then show ?case by (simp add: attaches_def)
next
  case (Cons x xs)
  show ?case
  proof (cases "\<exists>c. x = Attach c")
    case True
    then obtain c where x: "x = Attach c" ..
    then have a: "attaches (x # xs) = Suc (attaches xs)" by (simp add: attaches_def)
    then have n: "rt_next_id (router_step x r) = rt_next_id r + 1"
      using Cons.prems next_id_step [of x r] by (simp add: x)
    have "fst (attach c r) = (rt_next_id r + 1, unique_name (rt_next_id r + 1))"
      using Cons.prems a by (simp add: attach_def Let_def)
    moreover have "issued xs (router_step x r) =
        map (\<lambda>i. (i, unique_name i)) [rt_next_id r + 2..<rt_next_id r + attaches (x # xs) + 1]"
      using Cons.IH [of "router_step x r"] Cons.prems unfolding n a by simp
    ultimately show ?thesis using a [unfolded x] by (simp add: x upt_conv_Cons)
  next
    case False
    then have "attaches (x # xs) = attaches xs" "rt_next_id (router_step x r) = rt_next_id r"
      "issued (x # xs) r = issued xs (router_step x r)"
      by (auto simp: attaches_def next_id_step split: router_op.split)
    then show ?thesis using Cons by simp
  qed
qed

lemma outboxes:
  "set (map (\<lambda>(_, p). p_outbox p) (filter (\<lambda>(i, p). q i p) xs)) =
   {p_outbox p | i p. (i, p) \<in> set xs \<and> q i p}"
  by force

lemma resolve_call_confidential:
  assumes "resolve_call r destination expected True h = Inr outbox"
  shows "\<exists>i p. hget (rt_names r) destination = Some i \<and> hget (rt_peers r) i = Some p \<and>
    p_outbox p = outbox \<and> (\<forall>e. expected = Some e \<longrightarrow> p_unique p = e) \<and>
    (attestation_of r destination \<noteq> None \<or>
     (is_unique destination \<and>
      (\<exists>a \<in> set (rt_host_callbacks r). let c = rt_cells r a in
         cb_active c \<and> module_live c \<and> cb_module c \<noteq> None \<and> h_sender h = cb_module c \<and>
         h_destination h = Some (cb_destination c) \<and>
         (\<exists>ep \<in> set (cb_endpoints c). h_path h = Some (ep_path ep) \<and>
            h_interface h = Some (ep_interface ep) \<and>
            (\<exists>m. h_member h = Some m \<and> m \<in> set (ep_members ep))))))"
proof -
  let ?cap = "is_unique destination \<and>
    list_ex (\<lambda>a. callback_matches h (rt_cells r a)) (rt_host_callbacks r)"
  have res: "(if ?cap then resolve r destination else resolve_attested r destination) = Inr outbox"
    and exp: "\<forall>e. expected = Some e \<longrightarrow> owner_of r destination = Some e"
    using assms by (auto simp: resolve_call_def split: if_splits option.splits)
  have got: "\<exists>i p. hget (rt_names r) destination = Some i \<and> hget (rt_peers r) i = Some p \<and>
      p_outbox p = outbox \<and> (?cap \<or> attestation_of r destination \<noteq> None)"
    using res by (auto simp: resolve_def resolve_attested_def attestation_of_def
        split: if_splits option.splits)
  have cap: "\<exists>a \<in> set (rt_host_callbacks r). let c = rt_cells r a in
         cb_active c \<and> module_live c \<and> cb_module c \<noteq> None \<and> h_sender h = cb_module c \<and>
         h_destination h = Some (cb_destination c) \<and>
         (\<exists>ep \<in> set (cb_endpoints c). h_path h = Some (ep_path ep) \<and>
            h_interface h = Some (ep_interface ep) \<and>
            (\<exists>m. h_member h = Some m \<and> m \<in> set (ep_members ep)))" if "?cap"
    using that unfolding Let_def list_ex_iff callback_matches_def endpoint_allows_def
    by (auto split: option.splits)
  from got obtain i p where i: "hget (rt_names r) destination = Some i" "hget (rt_peers r) i = Some p"
    "p_outbox p = outbox" and or: "?cap \<or> attestation_of r destination \<noteq> None" by blast
  then have "owner_of r destination = Some (p_unique p)" by (simp add: owner_of_def)
  then have "\<forall>e. expected = Some e \<longrightarrow> p_unique p = e" using exp by auto
  with i or cap show ?thesis by blast
qed

section \<open>Properties\<close>

text \<open>
  The routing table is consistent after any sequence of operations: its two maps agree
  (every name is owned by an attached peer, every attached peer owns exactly its own unique
  name, the bus's reserved name is never owned), recorded attestations are filed under the name
  they were verified for, and the registered callback capabilities are at most 128, one per
  destination, and include no detached unique peer.
\<close>

theorem router_invariant: "router_wf (table_after ops cells)"
  by (rule wf_after)

text \<open>
  First writer wins: no operation moves a name from one owner to another. In every
  reachable table a name that is owned is, after any operation, owned by the same peer or free.
\<close>

theorem name_never_changes_hands:
  assumes "owner_of (table_after ops cells) n = Some u"
  shows "owner_of (table_after (ops @ [x]) cells) n \<in> {None, Some u}"
  unfolding table_after_snoc by (rule owner_step [OF wf_after assms])

definition idle_cells :: "nat \<Rightarrow> callback_state" where
  "idle_cells a = \<lparr> cb_destination = BusName '':1.9'', cb_endpoints = [], cb_stream_endpoints = [],
     cb_signals = [], cb_transport = None, cb_active = False, cb_used = False,
     cb_revoked = False, cb_module = None, cb_running = 0 \<rparr>"

definition wallet :: bus_name where
  "wallet = BusName ''ai.Wallet''"

text \<open>Two peers; the first owns the wallet's name.\<close>

definition two_peers :: "router_op list" where
  "two_peers = [Attach 10, Attach 11, RequestName 1 wallet]"

definition plain_peer :: "nat \<Rightarrow> nat \<Rightarrow> peer" where
  "plain_peer i c = \<lparr> p_unique = unique_name i, p_outbox = c, p_matches = [], p_manifest = None,
     p_attestations = [], p_admitted = None \<rparr>"

lemma two_peers_table:
  "rt_names (table_after two_peers idle_cells) = [(unique_name 1, 1), (unique_name 2, 2), (wallet, 1)]"
  "rt_next_id (table_after two_peers idle_cells) = 2"
  "rt_peers (table_after two_peers idle_cells) = [(1, plain_peer 1 10), (2, plain_peer 2 11)]"
proof -
  have a: "wallet \<noteq> BUS_NAME" "wallet \<noteq> unique_name i" "\<not> is_unique wallet" for i
    by (simp_all add: wallet_def BUS_NAME_def unique_name_def is_unique_def starts_with_def)
  show "rt_names (table_after two_peers idle_cells) = [(unique_name 1, 1), (unique_name 2, 2), (wallet, 1)]"
    "rt_next_id (table_after two_peers idle_cells) = 2"
    "rt_peers (table_after two_peers idle_cells) = [(1, plain_peer 1 10), (2, plain_peer 2 11)]"
    using a a(2) [symmetric]
    by (simp_all add: table_after_def two_peers_def router_default_def attach_def Let_def
        while_attached_def ensure_peer_attached_def request_name_def plain_peer_def)
qed

lemma two_peers_owner:
  "owner_of (table_after two_peers idle_cells) wallet = Some (unique_name 1)"
  using wf_after [of two_peers idle_cells]
  by (simp add: owner_eq wf_tables two_peers_table wallet_def unique_name_def)

theorem name_never_changes_hands_witness:
  "owner_of (table_after (two_peers @ [RequestName 2 wallet]) idle_cells) wallet
     \<in> {None, Some (unique_name 1)}"
  using name_never_changes_hands [OF two_peers_owner] .

text \<open>
  Identities are never reused: as long as fewer than two to the 64 peers have attached, a
  run hands out the ids 1, 2, 3 and so on, each with the unique name of that id, so a
  detached peer's unique name never denotes a later peer.
\<close>

theorem identities_are_fresh:
  assumes "attaches ops < 2 ^ 64"
  shows "issued ops (router_default cells) =
      map (\<lambda>i. (i, unique_name i)) [1..<attaches ops + 1] \<and>
    distinct (map snd (issued ops (router_default cells)))"
proof -
  have e: "issued ops (router_default cells) = map (\<lambda>i. (i, unique_name i)) [1..<attaches ops + 1]"
    using issued_run [of "router_default cells" ops] assms by (simp add: router_default_def)
  have "distinct (map unique_name is)" if "distinct is" for "is"
    using that by (simp add: distinct_map inj_on_def)
  then show ?thesis by (simp add: e comp_def)
qed

theorem identities_are_fresh_witness:
  "map fst (issued [Attach 10, Detach 1, Attach 11] (router_default idle_cells)) = [1, 2]"
proof -
  have a: "attaches [Attach 10, Detach 1, Attach 11] = 2" by (simp add: attaches_def)
  then have lt: "attaches [Attach 10, Detach 1, Attach 11] < 2 ^ 64" by simp
  show ?thesis
    unfolding conjunct1 [OF identities_are_fresh [OF lt]] a by (simp add: upt_rec)
qed

text \<open>
  A peer's death: detaching an attached peer frees exactly the names it owned, reports each
  of them once as released by its unique name, leaves every other name with its owner, and
  revokes and drops every capability the peer was part of.
\<close>

theorem detach_releases_everything:
  assumes "router_wf r" and "hget (rt_peers r) i \<noteq> None" and "detach i r = (changes, r')"
  shows "(\<forall>n. owner_of r' n =
            (if owner_of r n = Some (unique_name i) then None else owner_of r n)) \<and>
    set (map nc_name changes) = {n. owner_of r n = Some (unique_name i)} \<and>
    distinct (map nc_name changes) \<and>
    (\<forall>c \<in> set changes. nc_old_owner c = Some (unique_name i) \<and> nc_new_owner c = None) \<and>
    (\<forall>a \<in> set (rt_host_callbacks r). includes_peer (unique_name i) (rt_cells r a) \<longrightarrow>
       a \<notin> set (rt_host_callbacks r') \<and> \<not> cb_active (rt_cells r' a) \<and> cb_revoked (rt_cells r' a))"
proof -
  obtain p where p: "hget (rt_peers r) i = Some p" using assms(2) by blast
  have t: "tables_ok r" and m: "hmap_ok (rt_names r)"
    using assms(1) by (simp_all add: router_wf_def tables_ok_def)
  note u = tables_peer(1) [OF t p]
  have r': "r' = snd (detach i r)" using assms(3) by simp
  have c: "changes = map (\<lambda>n. \<lparr> nc_name = n, nc_old_owner = Some (unique_name i), nc_new_owner = None \<rparr>)
      (owned_names i r)"
    using assms(3) by (simp add: detach_eq [OF p] u)
  have "owner_of r n = Some (unique_name i) \<longleftrightarrow> hget (rt_names r) n = Some i" for n
    by (auto simp: owner_eq [OF t])
  then have "set (owned_names i r) = {n. owner_of r n = Some (unique_name i)}"
    by (simp add: owned_names_iff [OF m] set_eq_iff)
  moreover have "\<forall>n. owner_of r' n = (if owner_of r n = Some (unique_name i) then None else owner_of r n)"
    using owner_detach [OF assms(1,2)] by (simp add: r')
  moreover have "\<forall>a \<in> set (rt_host_callbacks r). includes_peer (unique_name i) (rt_cells r a) \<longrightarrow>
       a \<notin> set (rt_host_callbacks r') \<and> \<not> cb_active (rt_cells r' a) \<and> cb_revoked (rt_cells r' a)"
    by (simp add: r' detach_callbacks [OF p] u revoke_def)
  ultimately show ?thesis
    using owned_names_distinct [OF m, of i] by (simp add: c comp_def)
qed

theorem detach_releases_everything_witness:
  "owner_of (snd (detach 1 (table_after two_peers idle_cells))) wallet = None \<and>
   wallet \<in> set (map nc_name (fst (detach 1 (table_after two_peers idle_cells))))"
proof -
  let ?r = "table_after two_peers idle_cells"
  have "hget (rt_peers ?r) 1 \<noteq> None" by (simp add: hget_None_iff two_peers_table)
  then show ?thesis
    using detach_releases_everything [OF wf_after, of two_peers idle_cells 1 "fst (detach 1 ?r)" "snd (detach 1 ?r)"]
      two_peers_owner by auto
qed

text \<open>
  What a peer gets when it asks for a name, on every branch: unique names and the bus's
  name are refused, a name another peer owns is refused naming that owner, asking again for
  an owned name reports no change of owner, and a free name becomes the caller's; the table
  changes in the last case only.
\<close>

theorem request_name_outcomes:
  assumes "router_wf r" and "hget (rt_peers r) i \<noteq> None"
  shows "(if is_unique n then
       request_name i n r = (Inl (Protocol ''a unique name cannot be requested''), r)
     else if n = BUS_NAME then
       request_name i n r = (Inl (Protocol ''the bus's own name is reserved''), r)
     else (case owner_of r n of
       Some u \<Rightarrow> request_name i n r =
         (if u = unique_name i
          then Inr \<lparr> nc_name = n, nc_old_owner = Some u, nc_new_owner = Some u \<rparr>
          else Inl (NameTaken n u), r)
     | None \<Rightarrow>
         fst (request_name i n r) =
           Inr \<lparr> nc_name = n, nc_old_owner = None, nc_new_owner = Some (unique_name i) \<rparr> \<and>
         owner_of (snd (request_name i n r)) = (owner_of r)(n \<mapsto> unique_name i)))"
proof -
  have t: "tables_ok r" using assms(1) by (rule wf_tables)
  obtain p where p: "hget (rt_peers r) i = Some p" using assms(2) by blast
  have ui: "unique_of (r \<lparr> rt_names := ns \<rparr>) i = Inr (unique_name i)" for ns
    using tables_peer(1) [OF t p] p by (simp add: unique_of_def)
  show ?thesis
  proof (cases "hget (rt_names r) n")
    case None
    then have free: "owner_of r n = None" by (simp add: owner_eq [OF t])
    have own: "owner_of (snd (request_name i n r)) = (owner_of r)(n \<mapsto> unique_name i)"
      if "\<not> is_unique n" "n \<noteq> BUS_NAME"
      using owner_request [OF assms, of n] that free by (auto simp: fun_eq_iff)
    show ?thesis using None free own ui by (simp add: request_name_def Let_def)
  next
    case (Some j)
    then have "owner_of r n = Some (unique_name j)" by (simp add: owner_eq [OF t])
    then show ?thesis using Some unique_of_attached [OF t Some] by (auto simp: request_name_def)
  qed
qed

theorem request_name_outcomes_witness:
  "fst (request_name 2 wallet (table_after two_peers idle_cells)) = Inl (NameTaken wallet (unique_name 1))"
proof -
  let ?r = "table_after two_peers idle_cells"
  have "hget (rt_peers ?r) 2 \<noteq> None" by (simp add: hget_None_iff two_peers_table)
  moreover have "\<not> is_unique wallet" "wallet \<noteq> BUS_NAME"
    by (simp_all add: wallet_def BUS_NAME_def is_unique_def starts_with_def)
  ultimately show ?thesis
    using request_name_outcomes [OF wf_after, of two_peers idle_cells 2 wallet] two_peers_owner
    by simp
qed

text \<open>
  Trust is never inherited: in every reachable table, whatever attestation a name shows was
  recorded by the module host for the very peer that owns the name now, and a well-known
  name only shows one that was verified for that name.
\<close>

theorem attestation_provenance:
  assumes "attestation_of (table_after ops cells) n = Some a"
  shows "\<exists>u. owner_of (table_after ops cells) n = Some u \<and>
    (u, a) \<in> set (granted ops (router_default cells)) \<and> (is_unique n \<or> att_name a = n)"
proof -
  let ?r = "table_after ops cells"
  have "provenance (router_default cells) {}" by (simp add: provenance_def router_default_def)
  then have "provenance ?r (set (granted ops (router_default cells)))"
    using provenance_run [OF wf_default, of cells "{}" ops] by (simp add: table_after_def)
  with attestation_trust [OF wf_after assms] show ?thesis by (fastforce simp: provenance_def)
qed

definition wallet_att :: attestation where
  "wallet_att = \<lparr> att_name = wallet, att_sha256 = ''ab'', att_library_sha256 = None \<rparr>"

theorem attestation_provenance_witness:
  "attestation_of (table_after (two_peers @ [Attest (unique_name 1) wallet_att]) idle_cells) wallet
     = Some wallet_att \<and>
   (unique_name 1, wallet_att) \<in>
     set (granted (two_peers @ [Attest (unique_name 1) wallet_att]) (router_default idle_cells))"
proof -
  let ?ops = "two_peers @ [Attest (unique_name 1) wallet_att]"
  have w: "wallet \<noteq> unique_name i" "\<not> is_unique wallet" for i
    by (simp_all add: wallet_def unique_name_def is_unique_def starts_with_def)
  have a: "attestation_of (table_after ?ops idle_cells) wallet = Some wallet_att"
    using w
    by (simp add: table_after_snoc attestation_of_def set_attestation_for_unique_def
        set_attestation_def update_peer_def two_peers_table table_simps wallet_att_def)
  have "owner_of (table_after ?ops idle_cells) wallet = Some (unique_name 1)"
    using two_peers_owner owner_same_names [OF wf_after wf_after, of two_peers idle_cells ?ops idle_cells]
    by (simp add: table_after_snoc)
  then show ?thesis using a attestation_provenance [OF a] by auto
qed

text \<open>
  A secret reaches its attested recipient or nobody: when the table selects an outbox for a
  confidential call, it is the outbox of the peer that owns the destination at that moment,
  that owner is the expected responder if one was named, and either the host verified the
  owner's artifact for that destination or the destination is a unique name and an active,
  registered callback capability declares exactly this sender, destination and member.
\<close>

theorem confidential_recipient:
  assumes "resolve_call r destination expected True h = Inr outbox"
  shows "\<exists>i p. hget (rt_names r) destination = Some i \<and> hget (rt_peers r) i = Some p \<and>
    p_outbox p = outbox \<and> (\<forall>e. expected = Some e \<longrightarrow> p_unique p = e) \<and>
    (attestation_of r destination \<noteq> None \<or>
     (is_unique destination \<and>
      (\<exists>a \<in> set (rt_host_callbacks r). let c = rt_cells r a in
         cb_active c \<and> module_live c \<and> cb_module c \<noteq> None \<and> h_sender h = cb_module c \<and>
         h_destination h = Some (cb_destination c) \<and>
         (\<exists>ep \<in> set (cb_endpoints c). h_path h = Some (ep_path ep) \<and>
            h_interface h = Some (ep_interface ep) \<and>
            (\<exists>m. h_member h = Some m \<and> m \<in> set (ep_members ep))))))"
  using assms by (rule resolve_call_confidential)

definition attested_wallet :: router where
  "attested_wallet = table_after (two_peers @ [Attest (unique_name 1) wallet_att]) idle_cells"

lemma attested_wallet_table:
  "rt_names attested_wallet = [(unique_name 1, 1), (unique_name 2, 2), (wallet, 1)]"
  "rt_peers attested_wallet =
     [(1, (plain_peer 1 10) \<lparr> p_admitted := Some wallet_att, p_attestations := [(wallet, wallet_att)] \<rparr>),
      (2, plain_peer 2 11)]"
  by (simp_all add: attested_wallet_def table_after_snoc two_peers_table set_attestation_for_unique_def
      set_attestation_def update_peer_def wallet_att_def plain_peer_def)

theorem confidential_recipient_witness:
  "resolve_call attested_wallet wallet (Some (unique_name 1)) True (m_header sample_call) = Inr 10 \<and>
   attestation_of attested_wallet wallet \<noteq> None"
proof -
  have w: "wallet \<noteq> unique_name i" "\<not> is_unique wallet" for i
    by (simp_all add: wallet_def unique_name_def is_unique_def starts_with_def)
  have "resolve_call attested_wallet wallet (Some (unique_name 1)) True (m_header sample_call) = Inr 10"
    using w by (simp add: resolve_call_def resolve_attested_def owner_of_def attested_wallet_table
        plain_peer_def)
  then show ?thesis using confidential_recipient w(2) by blast
qed

text \<open>
  Fan-out of a signal: the outboxes the table selects are exactly those of the attached
  peers other than the sender that hold a matching rule and, when the signal is addressed,
  carry that unique name; a confidential message is never fanned out, also not by the bus.
\<close>

theorem signal_fan_out:
  assumes "router_wf r"
  shows "set (subscribers r sig from_id) =
      {p_outbox p | i p. hget (rt_peers r) i = Some p \<and> i \<noteq> from_id \<and>
         \<not> h_confidential (m_header sig) \<and>
         h_destination (m_header sig) \<in> {None, Some (unique_name i)} \<and>
         (\<exists>rule \<in> set (p_matches p). matches rule sig)} \<and>
    set (broadcast_targets r sig) =
      {p_outbox p | i p. hget (rt_peers r) i = Some p \<and> \<not> h_confidential (m_header sig) \<and>
         (\<exists>rule \<in> set (p_matches p). matches rule sig)}"
proof -
  have m: "hmap_ok (rt_peers r)" using assms by (simp add: router_wf_def tables_ok_def)
  have u: "p_unique p = unique_name i" if "(i, p) \<in> set (rt_peers r)" for i p
    using tables_peer(1) [OF wf_tables [OF assms]] that hget_iff [OF m] by blast
  have "set (subscribers r sig from_id) =
      {p_outbox p | i p. (i, p) \<in> set (rt_peers r) \<and> i \<noteq> from_id \<and>
         \<not> h_confidential (m_header sig) \<and>
         h_destination (m_header sig) \<in> {None, Some (unique_name i)} \<and>
         (\<exists>rule \<in> set (p_matches p). matches rule sig)}"
  proof (cases "h_confidential (m_header sig)")
    case False
    have "(case h_destination (m_header sig) of None \<Rightarrow> True | Some d \<Rightarrow> d = p_unique p) \<longleftrightarrow>
        h_destination (m_header sig) \<in> {None, Some (unique_name i)}"
      if "(i, p) \<in> set (rt_peers r)" for i p
      using u [OF that] by (simp split: option.split)
    then show ?thesis
      using False unfolding subscribers_def if_not_P [OF False] outboxes list_ex_iff
      by (intro Collect_cong) blast
  qed (simp add: subscribers_def)
  moreover have "set (broadcast_targets r sig) =
      {p_outbox p | i p. (i, p) \<in> set (rt_peers r) \<and> \<not> h_confidential (m_header sig) \<and>
         (\<exists>rule \<in> set (p_matches p). matches rule sig)}"
  proof (cases "h_confidential (m_header sig)")
    case False
    then show ?thesis
      unfolding broadcast_targets_def if_not_P [OF False] outboxes [where q = "\<lambda>_ p. _ p"] list_ex_iff
      by simp
  qed (simp add: broadcast_targets_def)
  ultimately show ?thesis by (simp add: hget_iff [OF m])
qed

definition mail_signal :: message where
  "mail_signal = signal (ObjectPath ''/ai/Mail/a'') (InterfaceName ''ai.M'') (MemberName ''R'') JNull"

definition listening :: router where
  "listening = table_after (two_peers @ [AddMatch 1 MatchRule_new, AddMatch 2 MatchRule_new]) idle_cells"

definition listener :: "nat \<Rightarrow> nat \<Rightarrow> peer" where
  "listener i c = (plain_peer i c) \<lparr> p_matches := [MatchRule_new] \<rparr>"

theorem signal_fan_out_witness:
  "11 \<in> set (subscribers listening mail_signal 1) \<and> 10 \<notin> set (subscribers listening mail_signal 1) \<and>
   10 \<in> set (broadcast_targets listening mail_signal)"
proof -
  have wf: "router_wf listening" by (simp add: listening_def wf_after)
  have t: "rt_peers listening = [(1, listener 1 10), (2, listener 2 11)]"
    using table_after_snoc [of "two_peers @ [AddMatch 1 MatchRule_new]" "AddMatch 2 MatchRule_new" idle_cells]
    by (simp add: listening_def table_after_snoc two_peers_table add_match_def update_peer_def
        plain_peer_def listener_def)
  have s: "matches MatchRule_new mail_signal" "\<not> h_confidential (m_header mail_signal)"
    "h_destination (m_header mail_signal) = None"
    by (simp_all add: matches_def MatchRule_new_def differs_def Let_def mail_signal_def signal_def)
  have o: "p_outbox (listener i c) = c" "p_matches (listener i c) = [MatchRule_new]" for i c
    by (simp_all add: listener_def plain_peer_def)
  note fan = signal_fan_out [OF wf, of mail_signal 1]
  have "11 \<in> set (subscribers listening mail_signal 1)"
    unfolding conjunct1 [OF fan]
    by (rule CollectI, rule exI [of _ 2], rule exI [of _ "listener 2 11"]) (simp add: t s o)
  moreover have "10 \<notin> set (subscribers listening mail_signal 1)"
  proof -
    have "i = 1 \<or> p_outbox p = 11" if "hget (rt_peers listening) i = Some p" for i p
      using that by (auto simp: t o split: if_splits)
    then show ?thesis unfolding conjunct1 [OF fan] by fastforce
  qed
  moreover have "10 \<in> set (broadcast_targets listening mail_signal)"
    unfolding conjunct2 [OF fan]
    by (rule CollectI, rule exI [of _ 1], rule exI [of _ "listener 1 10"]) (simp add: t s o)
  ultimately show ?thesis by blast
qed

text \<open>
  A directed signal needs a live capability: the table selects an outbox only when the
  sender is attached under its stamped name, the header carries exactly that sender and
  destination, and an active registered capability of that sender names the destination as
  its module and declares the member; the outbox is the destination owner's.
\<close>

theorem directed_signal_authority:
  assumes "directed_signal_target_from r from_id source destination h = Inr outbox"
  shows "(\<exists>p. hget (rt_names r) source = Some from_id \<and> hget (rt_peers r) from_id = Some p \<and>
       p_unique p = source) \<and>
    h_sender h = Some source \<and> h_destination h = Some destination \<and> h_kind h = DirectedSignal \<and>
    (\<exists>a \<in> set (rt_host_callbacks r). let c = rt_cells r a in
       cb_active c \<and> module_live c \<and> cb_destination c = source \<and> cb_module c = Some destination \<and>
       list_ex (endpoint_allows h) (cb_signals c)) \<and>
    (\<exists>i p. hget (rt_names r) destination = Some i \<and> hget (rt_peers r) i = Some p \<and>
       p_outbox p = outbox)"
  using assms
  by (auto simp: directed_signal_target_from_def directed_signal_target_def ensure_peer_attached_def
      resolve_def list_ex_iff matches_directed_signal_def Let_def
      split: if_splits option.splits sum.splits)

definition callback_cells :: "nat \<Rightarrow> callback_state" where
  "callback_cells a = (idle_cells a) \<lparr> cb_destination := unique_name 2, cb_active := True,
     cb_module := Some (unique_name 1),
     cb_signals := [\<lparr> ep_path = ObjectPath ''/cb'', ep_interface = InterfaceName ''ai.Cb'',
                      ep_members = [MemberName ''Done''] \<rparr>] \<rparr>"

definition callback_table :: router where
  "callback_table = attested_wallet \<lparr> rt_host_callbacks := [0], rt_cells := callback_cells \<rparr>"

definition done_signal :: header where
  "done_signal = (m_header (directed_signal (unique_name 1) (ObjectPath ''/cb'') (InterfaceName ''ai.Cb'')
     (MemberName ''Done'') JNull)) \<lparr> h_sender := Some (unique_name 2) \<rparr>"

theorem directed_signal_authority_witness:
  "directed_signal_target_from callback_table 2 (unique_name 2) (unique_name 1) done_signal = Inr 10 \<and>
   cb_module (rt_cells callback_table 0) = Some (unique_name 1)"
proof -
  have "directed_signal_target_from callback_table 2 (unique_name 2) (unique_name 1) done_signal = Inr 10"
    by (simp add: directed_signal_target_from_def directed_signal_target_def ensure_peer_attached_def
        resolve_def matches_directed_signal_def endpoint_allows_def module_live_def callback_table_def
        callback_cells_def idle_cells_def done_signal_def directed_signal_def attested_wallet_table
        plain_peer_def)
  from directed_signal_authority [OF this] this show ?thesis
    by (auto simp: callback_table_def Let_def)
qed

end
