(* ===== verification/Broker.thy ===== *)
theory Broker
  imports RouterSpec
begin

text \<open>
  The broker (\<open>broker.rs\<close>): ingress, routing, the bus's own interface, the module-control gate
  and controller selection, announcements, and the reader and writer task of every peer.

  A peer's queue is a bounded channel; an awaited send that finds it full suspends the task, so
  routing a message either finishes or leaves the reader waiting at that send
  (\<open>route_outcome\<close>) until the channel has room or is closed. What a peer has received is
  the list of messages written to its transport.

  The module host behind \<open>dyn ModuleControl\<close> is an argument (\<open>module_control\<close>), a record
  with one function per trait method that may change the broker it holds; \<open>bk_host\<close> is its
  state while the weak reference upgrades. What serde decides about a manifest and the texts
  of its errors are arguments too (\<open>serde\<close>); names, strings, numbers and tuples are decoded
  here as the derives do.
\<close>

definition PEER_QUEUE_CAPACITY :: nat where
  "PEER_QUEUE_CAPACITY = 256"

definition BUS_PATH :: object_path where
  "BUS_PATH = ObjectPath ''/ai/tinyhumans/tinybus/Bus''"

definition BUS_INTERFACE :: interface_name where
  "BUS_INTERFACE = InterfaceName ''ai.tinyhumans.tinybus.Bus''"

section \<open>Module lifecycle states\<close>

datatype module_state =
    Discovered
  | Rejected string
  | Unresolved string
  | Resolved
  | ModInitializing
  | Ready
  | Serving
  | Faulted string
  | ModFailed string
  | Stopped
  | Disabled

fun state_name :: "module_state \<Rightarrow> string" where
  "state_name Discovered = ''discovered''"
| "state_name (Rejected _) = ''rejected''"
| "state_name (Unresolved _) = ''unresolved''"
| "state_name Resolved = ''resolved''"
| "state_name ModInitializing = ''initializing''"
| "state_name Ready = ''ready''"
| "state_name Serving = ''serving''"
| "state_name (Faulted _) = ''faulted''"
| "state_name (ModFailed _) = ''failed''"
| "state_name Stopped = ''stopped''"
| "state_name Disabled = ''disabled''"

fun state_detail :: "module_state \<Rightarrow> string option" where
  "state_detail (Rejected reason) = Some reason"
| "state_detail (Unresolved reason) = Some reason"
| "state_detail (Faulted reason) = Some reason"
| "state_detail (ModFailed reason) = Some reason"
| "state_detail _ = None"

type_synonym transition = "string \<times> module_state \<times> module_state"

text \<open>What the broker uses of \<open>ModuleInfo\<close>: its name, its manifest's and its own JSON.\<close>

record module_info =
  mi_name :: string
  mi_manifest :: json
  mi_json :: json

section \<open>State\<close>

record channel =
  ch_queue :: "message list"
  ch_open :: bool

datatype controller_binding = Unselected | Attaching | Selected bus_name

text \<open>What remains to be done when an awaited send completes.\<close>

datatype continuation = Forward bus_name | AfterReply "name_change list" "json list"

datatype route_outcome = Finished "unit result" | Sending nat message continuation

datatype reader_state = Idle | Suspended header nat message continuation

record reader =
  rd_name :: bus_name
  rd_chan :: nat
  rd_state :: reader_state

record 'h broker =
  bk_router :: router
  bk_chans :: "nat \<Rightarrow> channel"
  bk_next_chan :: nat
  bk_readers :: "(nat, reader) hashmap"
  bk_wire :: "nat \<Rightarrow> message list"
  bk_controller :: "controller_binding option"
  bk_host :: "'h option"
  bk_id :: string

record 'h module_control =
  mc_list :: "'h \<Rightarrow> module_info list"
  mc_load :: "string \<Rightarrow> json \<Rightarrow> 'h broker \<Rightarrow> (module_info \<times> transition option) result \<times> 'h broker"
  mc_load_github :: "string \<Rightarrow> string \<Rightarrow> string \<Rightarrow> json \<Rightarrow> 'h broker \<Rightarrow>
    (module_info \<times> transition option) result \<times> 'h broker"
  mc_stop :: "string \<Rightarrow> nat \<Rightarrow> 'h broker \<Rightarrow> module_info result \<times> 'h broker"
  mc_reinitialize :: "string \<Rightarrow> json \<Rightarrow> 'h broker \<Rightarrow> module_info result \<times> 'h broker"
  mc_enable :: "string \<Rightarrow> bool \<Rightarrow> 'h broker \<Rightarrow> (module_info \<times> transition option) result \<times> 'h broker"
  mc_rescan :: "string list \<Rightarrow> bool \<Rightarrow> 'h broker \<Rightarrow>
    (module_info list \<times> transition list) result \<times> 'h broker"
  mc_peer_detached :: "bus_name \<Rightarrow> 'h broker \<Rightarrow> transition option \<times> 'h broker"
  mc_unavailable_for :: "'h \<Rightarrow> bus_name \<Rightarrow> error option"

record serde =
  de_manifest :: "json \<Rightarrow> peer_manifest option"
  se_manifest :: "peer_manifest \<Rightarrow> json"
  de_error :: "json \<Rightarrow> string"

section \<open>Channels\<close>

definition try_send :: "message \<Rightarrow> nat \<Rightarrow> 'h broker \<Rightarrow> 'h broker" where
  "try_send msg c b =
     (let ch = bk_chans b c in
      if ch_open ch \<and> length (ch_queue ch) < PEER_QUEUE_CAPACITY
      then b \<lparr> bk_chans := (bk_chans b)(c := ch \<lparr> ch_queue := ch_queue ch @ [msg] \<rparr>) \<rparr>
      else b)"

section \<open>Announcements\<close>

definition bus_signal :: "string \<Rightarrow> json \<Rightarrow> message" where
  "bus_signal member body =
     \<lparr> m_header = \<lparr> h_kind = Signal, h_serial = 0, h_reply_serial = None,
         h_sender = Some BUS_NAME, h_expected_responder = None, h_destination = None,
         h_path = Some BUS_PATH, h_interface = Some BUS_INTERFACE,
         h_member = Some (MemberName member), h_error_name = None, h_module_lifecycle = None,
         h_confidential = False, h_sensitive = False, h_stream_reply = False \<rparr>,
       m_body = body \<rparr>"

definition broadcast_bus_signal :: "string \<Rightarrow> json \<Rightarrow> 'h broker \<Rightarrow> 'h broker" where
  "broadcast_bus_signal member body b =
     (let sig = bus_signal member body in
      fold (try_send sig) (broadcast_targets (bk_router b) sig) b)"

definition json_name :: "bus_name option \<Rightarrow> json" where
  "json_name n = (case n of None \<Rightarrow> JNull | Some x \<Rightarrow> JString (bus_str x))"

definition announce_name_change :: "name_change \<Rightarrow> 'h broker \<Rightarrow> 'h broker" where
  "announce_name_change c =
     broadcast_bus_signal ''NameOwnerChanged''
       (JArray [json_name (Some (nc_name c)), json_name (nc_old_owner c), json_name (nc_new_owner c)])"

definition announce_module_state :: "json \<Rightarrow> 'h broker \<Rightarrow> 'h broker" where
  "announce_module_state body = broadcast_bus_signal ''ModuleStateChanged'' body"

definition module_state_body :: "transition \<Rightarrow> json" where
  "module_state_body t =
     (case t of (module, old, new) \<Rightarrow>
        JArray [JString module, JString (state_name old), JString (state_name new),
                (case state_detail new of None \<Rightarrow> JNull | Some d \<Rightarrow> JString d)])"

definition module_control_denied :: error where
  "module_control_denied =
     MethodFailed ''ai.tinyhumans.tinybus.Error.ModuleControlDenied''
       ''module control requires the host-selected controller connection''"

section \<open>Arguments\<close>

text \<open>\<open>parse_args\<close> at the tuple types the bus methods use.\<close>

definition parse_name_arg :: "serde \<Rightarrow> member_name \<Rightarrow> json \<Rightarrow> bus_name result" where
  "parse_name_arg sd member body =
     (case body of
        JArray [JString s] \<Rightarrow>
          (case BusName_new s of
             Inr n \<Rightarrow> Inr n
           | Inl _ \<Rightarrow> Inl (bad_arguments member (de_error sd body)))
      | _ \<Rightarrow> Inl (bad_arguments member (de_error sd body)))"

definition parse_string_arg :: "serde \<Rightarrow> member_name \<Rightarrow> json \<Rightarrow> string result" where
  "parse_string_arg sd member body =
     (case body of JArray [JString s] \<Rightarrow> Inr s | _ \<Rightarrow> Inl (bad_arguments member (de_error sd body)))"

definition parse_manifest_arg :: "serde \<Rightarrow> member_name \<Rightarrow> json \<Rightarrow> peer_manifest result" where
  "parse_manifest_arg sd member body =
     (case body of
        JArray [v] \<Rightarrow>
          (case de_manifest sd v of
             Some m \<Rightarrow> Inr m | None \<Rightarrow> Inl (bad_arguments member (de_error sd body)))
      | _ \<Rightarrow> Inl (bad_arguments member (de_error sd body)))"

fun json_strings :: "json list \<Rightarrow> string list option" where
  "json_strings [] = Some []"
| "json_strings (v # vs) =
     (case v of JString s \<Rightarrow> map_option ((#) s) (json_strings vs) | _ \<Rightarrow> None)"

definition se_attestation :: "attestation option \<Rightarrow> json" where
  "se_attestation a =
     (case a of
        None \<Rightarrow> JNull
      | Some x \<Rightarrow> JObject ([(''name'', JString (bus_str (att_name x))),
                            (''sha256'', JString (att_sha256 x))] @
          (case att_library_sha256 x of None \<Rightarrow> [] | Some l \<Rightarrow> [(''library_sha256'', JString l)])))"

definition se_peer_record :: "serde \<Rightarrow> peer_record \<Rightarrow> json" where
  "se_peer_record sd p =
     JObject [(''peer'', JString (bus_str (pr_peer p))),
              (''names'', JArray (map (\<lambda>n. JString (bus_str n)) (pr_names p))),
              (''manifest'', se_manifest sd (pr_manifest p))]"

section \<open>Module methods\<close>

datatype module_member =
    ModList | ModGet | ModGetManifest | ModLoad | ModLoadGithub | ModReinitialize | ModStop
  | ModEnable | ModRescan

definition module_member_of :: "string \<Rightarrow> module_member option" where
  "module_member_of m =
     map_of [(''ListModules'', ModList), (''GetModule'', ModGet),
       (''GetModuleManifest'', ModGetManifest), (''LoadModule'', ModLoad),
       (''LoadGithubModule'', ModLoadGithub), (''ReinitializeModule'', ModReinitialize),
       (''StopModule'', ModStop), (''EnableModule'', ModEnable), (''RescanModules'', ModRescan)] m"

definition is_inspection :: "module_member \<Rightarrow> bool" where
  "is_inspection op \<longleftrightarrow> op = ModList \<or> op = ModGet \<or> op = ModGetManifest"

text \<open>The gate: a mutating method needs the selected controller when the broker is restricted.\<close>

definition control_admits :: "'h broker \<Rightarrow> bus_name \<Rightarrow> module_member \<Rightarrow> bool" where
  "control_admits b from_name op \<longleftrightarrow>
     is_inspection op \<or>
     (case bk_controller b of None \<Rightarrow> True | Some binding \<Rightarrow> binding = Selected from_name)"

text \<open>\<open>to_value(info)?\<close> with the transitions to announce.\<close>

definition info_outcome ::
  "(module_info \<times> transition option) result \<times> 'h broker \<Rightarrow> (json result \<times> json list) \<times> 'h broker" where
  "info_outcome r =
     (case r of
        (Inl e, b) \<Rightarrow> ((Inl e, []), b)
      | (Inr (i, t), b) \<Rightarrow>
          ((Inr (mi_json i), (case t of None \<Rightarrow> [] | Some x \<Rightarrow> [module_state_body x])), b))"

definition load_args :: "serde \<Rightarrow> member_name \<Rightarrow> json \<Rightarrow> (string \<times> json) result" where
  "load_args sd member body =
     (case body of
        JArray args \<Rightarrow>
          (case args of
             [] \<Rightarrow> Inl (bad_arguments member ''missing path'')
           | v # rest \<Rightarrow>
               (case v of
                  JString path \<Rightarrow>
                    if length args > 2 then
                      Inl (bad_arguments member ''expected path and optional configuration'')
                    else Inr (path, (case rest of [] \<Rightarrow> JObject [] | c # _ \<Rightarrow> c))
                | _ \<Rightarrow> Inl (bad_arguments member (de_error sd v))))
      | _ \<Rightarrow> Inl (bad_arguments member ''expected a positional array''))"

definition rescan_args :: "serde \<Rightarrow> member_name \<Rightarrow> json \<Rightarrow> (string list \<times> bool) result" where
  "rescan_args sd member body =
     (case body of
        JArray args \<Rightarrow>
          (let paths = (case args of
                 [] \<Rightarrow> Inr []
               | JArray vs # _ \<Rightarrow>
                   (case json_strings vs of
                      Some ps \<Rightarrow> Inr ps
                    | None \<Rightarrow> Inl (bad_arguments member (de_error sd (JArray vs))))
               | v # _ \<Rightarrow> Inl (bad_arguments member (de_error sd v)));
               dry_run = (case args of _ # JBool d # _ \<Rightarrow> d | _ \<Rightarrow> False) in
           case paths of
             Inl e \<Rightarrow> Inl e
           | Inr ps \<Rightarrow>
               if length args > 2 then
                 Inl (bad_arguments member ''expected optional paths and dry-run flag'')
               else Inr (ps, dry_run))
      | _ \<Rightarrow> Inl (bad_arguments member ''expected a positional array''))"

definition find_module :: "string \<Rightarrow> module_info list \<Rightarrow> module_info option" where
  "find_module n = find (\<lambda>i. mi_name i = n)"

definition run_module_member ::
  "'h module_control \<Rightarrow> serde \<Rightarrow> 'h \<Rightarrow> module_member \<Rightarrow> member_name \<Rightarrow> json \<Rightarrow> 'h broker \<Rightarrow>
   (json result \<times> json list) \<times> 'h broker" where
  "run_module_member mc sd h op member body b =
     (case op of
        ModList \<Rightarrow> ((Inr (JArray (map mi_json (mc_list mc h))), []), b)
      | ModGet \<Rightarrow>
          ((map_sum id (\<lambda>n. case find_module n (mc_list mc h) of None \<Rightarrow> JNull | Some i \<Rightarrow> mi_json i)
             (parse_string_arg sd member body), []), b)
      | ModGetManifest \<Rightarrow>
          ((map_sum id (\<lambda>n. case find_module n (mc_list mc h) of None \<Rightarrow> JNull | Some i \<Rightarrow> mi_manifest i)
             (parse_string_arg sd member body), []), b)
      | ModLoad \<Rightarrow>
          (case load_args sd member body of
             Inl e \<Rightarrow> ((Inl e, []), b)
           | Inr (path, config) \<Rightarrow> info_outcome (mc_load mc path config b))
      | ModLoadGithub \<Rightarrow>
          (case body of
             JArray [JString url, JString asset, JString sha, config] \<Rightarrow>
               info_outcome (mc_load_github mc url asset sha config b)
           | _ \<Rightarrow> ((Inl (bad_arguments member (de_error sd body)), []), b))
      | ModReinitialize \<Rightarrow>
          (case body of
             JArray [JString n, config] \<Rightarrow>
               (case mc_reinitialize mc n config b of (r, b') \<Rightarrow> ((map_sum id mi_json r, []), b'))
           | _ \<Rightarrow> ((Inl (bad_arguments member (de_error sd body)), []), b))
      | ModStop \<Rightarrow>
          (case body of
             JArray [JString n, d] \<Rightarrow>
               (case json_u64 d of
                  Some ms \<Rightarrow> (case mc_stop mc n ms b of (r, b') \<Rightarrow> ((map_sum id mi_json r, []), b'))
                | None \<Rightarrow> ((Inl (bad_arguments member (de_error sd body)), []), b))
           | _ \<Rightarrow> ((Inl (bad_arguments member (de_error sd body)), []), b))
      | ModEnable \<Rightarrow>
          (case body of
             JArray [JString n, JBool e] \<Rightarrow> info_outcome (mc_enable mc n e b)
           | _ \<Rightarrow> ((Inl (bad_arguments member (de_error sd body)), []), b))
      | ModRescan \<Rightarrow>
          (case rescan_args sd member body of
             Inl e \<Rightarrow> ((Inl e, []), b)
           | Inr (paths, dry_run) \<Rightarrow>
               (case mc_rescan mc paths dry_run b of
                  (Inl e, b') \<Rightarrow> ((Inl e, []), b')
                | (Inr (infos, ts), b') \<Rightarrow>
                    ((Inr (JArray (map mi_json infos)), map module_state_body ts), b'))))"

definition module_method ::
  "'h module_control \<Rightarrow> serde \<Rightarrow> bus_name \<Rightarrow> member_name \<Rightarrow> json \<Rightarrow> 'h broker \<Rightarrow>
   (json result \<times> json list) option \<times> 'h broker" where
  "module_method mc sd from_name member body b =
     (case module_member_of (member_str member) of
        None \<Rightarrow> (None, b)
      | Some op \<Rightarrow>
          if \<not> control_admits b from_name op then (Some (Inl module_control_denied, []), b)
          else (case bk_host b of
                  None \<Rightarrow> (Some (Inl (failed ''module host is not installed''), []), b)
                | Some h \<Rightarrow>
                    (case run_module_member mc sd h op member body b of
                       (r, b') \<Rightarrow> (Some r, b'))))"

section \<open>The bus interface\<close>

definition unavailable :: "'h module_control \<Rightarrow> 'h broker \<Rightarrow> bus_name \<Rightarrow> error option" where
  "unavailable mc b n = (case bk_host b of None \<Rightarrow> None | Some h \<Rightarrow> mc_unavailable_for mc h n)"

definition resolve_call_target ::
  "'h module_control \<Rightarrow> serde \<Rightarrow> nat \<Rightarrow> bus_name \<Rightarrow> member_name \<Rightarrow> json \<Rightarrow> 'h broker \<Rightarrow> json result" where
  "resolve_call_target mc sd from_id from_name member body b =
     (case parse_name_arg sd member body of
        Inl e \<Rightarrow> Inl e
      | Inr n \<Rightarrow>
          (case ensure_peer_attached (bk_router b) from_id from_name of
             Inl e \<Rightarrow> Inl e
           | Inr _ \<Rightarrow>
               (case owner_of (bk_router b) n of
                  Some u \<Rightarrow> Inr (JString (bus_str u))
                | None \<Rightarrow> (case unavailable mc b n of
                             Some e \<Rightarrow> Inl e | None \<Rightarrow> Inl (NameHasNoOwner n)))))"

text \<open>The table methods: the result, the name changes and the new table.\<close>

definition table_method ::
  "serde \<Rightarrow> string \<Rightarrow> nat \<Rightarrow> bus_name \<Rightarrow> member_name \<Rightarrow> json \<Rightarrow> router \<Rightarrow>
   json result \<times> name_change list \<times> router" where
  "table_method sd broker_id from_id from_name member body r =
     (let m = member_str member in
      if m = ''Hello'' then (Inr (JString (bus_str from_name)), [], r)
      else if m = ''GetId'' then (Inr (JString broker_id), [], r)
      else if m = ''Ping'' then (Inr JNull, [], r)
      else if m = ''RequestName'' then
        (case parse_name_arg sd member body of
           Inl e \<Rightarrow> (Inl e, [], r)
         | Inr n \<Rightarrow> (case request_name from_id n r of
                       (Inl e, r') \<Rightarrow> (Inl e, [], r')
                     | (Inr c, r') \<Rightarrow> (Inr (JBool True), [c], r')))
      else if m = ''ReleaseName'' then
        (case parse_name_arg sd member body of
           Inl e \<Rightarrow> (Inl e, [], r)
         | Inr n \<Rightarrow> (case release_name from_id n r of
                       (Inl e, r') \<Rightarrow> (Inl e, [], r')
                     | (Inr c, r') \<Rightarrow> (Inr (JBool True), [c], r')))
      else if m = ''ListNames'' then
        (Inr (JArray (map (\<lambda>n. JString (bus_str n)) (list_names r))), [], r)
      else if m = ''Announce'' then
        (case parse_manifest_arg sd member body of
           Inl e \<Rightarrow> (Inl e, [], r)
         | Inr mf \<Rightarrow> (Inr (JBool True), [], set_manifest from_id mf r))
      else if m = ''GetManifest'' then
        (map_sum id (\<lambda>n. case manifest_of r n of None \<Rightarrow> JNull | Some mf \<Rightarrow> se_manifest sd mf)
           (parse_name_arg sd member body), [], r)
      else if m = ''ListPeers'' then
        (Inr (JArray (map (se_peer_record sd) (peer_records r))), [], r)
      else if m = ''GetAttestation'' then
        (map_sum id (\<lambda>n. se_attestation (attestation_of r n)) (parse_name_arg sd member body), [], r)
      else if m = ''GetNameOwner'' then
        (map_sum id (\<lambda>n. json_name (owner_of r n)) (parse_name_arg sd member body), [], r)
      else if m = ''AddMatch'' then
        (case parse_string_arg sd member body of
           Inl e \<Rightarrow> (Inl e, [], r)
         | Inr t \<Rightarrow> (case parse_rule t of
                       Inl e \<Rightarrow> (Inl e, [], r)
                     | Inr rule \<Rightarrow> (Inr JNull, [], add_match from_id rule r)))
      else if m = ''RemoveMatch'' then
        (case parse_string_arg sd member body of
           Inl e \<Rightarrow> (Inl e, [], r)
         | Inr t \<Rightarrow> (case parse_rule t of
                       Inl e \<Rightarrow> (Inl e, [], r)
                     | Inr rule \<Rightarrow> (Inr JNull, [], remove_match from_id rule r)))
      else (Inl (UnknownMethod BUS_INTERFACE
                   (case MemberName_new m of Inr m' \<Rightarrow> m' | Inl _ \<Rightarrow> member)), [], r))"

definition bus_method ::
  "'h module_control \<Rightarrow> serde \<Rightarrow> nat \<Rightarrow> bus_name \<Rightarrow> member_name \<Rightarrow> json \<Rightarrow> 'h broker \<Rightarrow>
   (json result \<times> name_change list \<times> json list) \<times> 'h broker" where
  "bus_method mc sd from_id from_name member body b =
     (case ensure_peer_attached (bk_router b) from_id from_name of
        Inl e \<Rightarrow> ((Inl e, [], []), b)
      | Inr _ \<Rightarrow>
          (case module_method mc sd from_name member body b of
             (Some (result, states), b') \<Rightarrow> ((result, [], states), b')
           | (None, b') \<Rightarrow>
               if member_str member = ''ResolveCallTarget'' then
                 ((resolve_call_target mc sd from_id from_name member body b', [], []), b')
               else
                 (case ensure_peer_attached (bk_router b') from_id from_name of
                    Inl e \<Rightarrow> ((Inl e, [], []), b')
                  | Inr _ \<Rightarrow>
                      (case table_method sd (bk_id b') from_id from_name member body (bk_router b') of
                         (result, changes, r') \<Rightarrow>
                           ((result, changes, []), b' \<lparr> bk_router := r' \<rparr>)))))"

definition handle_bus_call ::
  "'h module_control \<Rightarrow> serde \<Rightarrow> nat \<Rightarrow> bus_name \<Rightarrow> message \<Rightarrow> 'h broker \<Rightarrow> route_outcome \<times> 'h broker" where
  "handle_bus_call mc sd from_id from_name msg b =
     (case h_member (m_header msg) of
        None \<Rightarrow> (Finished (Inl (Protocol ''bus call has no member'')), b)
      | Some member \<Rightarrow>
          (case bus_method mc sd from_id from_name member (m_body msg) b of
             ((result, changes, states), b') \<Rightarrow>
               (let reply = (case result of
                      Inr v \<Rightarrow> method_return (m_header msg) v
                    | Inl e \<Rightarrow> error_reply (m_header msg) e) in
                case resolve (bk_router b') from_name of
                  Inl e \<Rightarrow> (Finished (Inl e), b')
                | Inr outbox \<Rightarrow> (Sending outbox reply (AfterReply changes states), b'))))"

section \<open>Routing\<close>

definition stamp :: "bus_name \<Rightarrow> message \<Rightarrow> message" where
  "stamp n msg = msg \<lparr> m_header := (m_header msg) \<lparr> h_sender := Some n \<rparr> \<rparr>"

text \<open>A call or reply addressed at a peer: the checks, then an awaited send.\<close>

definition route_to_peer ::
  "'h module_control \<Rightarrow> nat \<Rightarrow> bus_name \<Rightarrow> bus_name \<Rightarrow> message \<Rightarrow> 'h broker \<Rightarrow> route_outcome" where
  "route_to_peer mc from_id from_name destination msg b =
     (let h = m_header msg;
          confidential_call = (h_confidential h \<and> h_kind h = MethodCall) in
      case resolve_call_from (bk_router b) from_id from_name destination
             (h_expected_responder h) confidential_call h of
        Inl e \<Rightarrow>
          Finished (Inl (case e of
             NotAttested _ _ \<Rightarrow> e
           | _ \<Rightarrow> (case unavailable mc b destination of Some e' \<Rightarrow> e' | None \<Rightarrow> e)))
      | Inr target \<Rightarrow>
          (case (if h_kind h = MethodCall then unavailable mc b destination else None) of
             Some e \<Rightarrow> Finished (Inl e)
           | None \<Rightarrow> Sending target msg (Forward destination)))"

definition reserved_for_sensitive :: "string list" where
  "reserved_for_sensitive = [''LoadModule'', ''LoadGithubModule'', ''ReinitializeModule'']"

definition route ::
  "'h module_control \<Rightarrow> serde \<Rightarrow> nat \<Rightarrow> bus_name \<Rightarrow> message \<Rightarrow> 'h broker \<Rightarrow> route_outcome \<times> 'h broker" where
  "route mc sd from_id from_name inbound b =
     (case validate inbound of
        Inl e \<Rightarrow> (Finished (Inl e), b)
      | Inr _ \<Rightarrow>
          (let msg = stamp from_name inbound; h = m_header msg in
           case h_kind h of
             Signal \<Rightarrow>
               (case subscribers_from (bk_router b) msg from_id from_name of
                  Inl e \<Rightarrow> (Finished (Inl e), b)
                | Inr targets \<Rightarrow> (Finished (Inr ()), fold (try_send msg) targets b))
           | DirectedSignal \<Rightarrow>
               (case h_destination h of
                  None \<Rightarrow> (Finished (Inl (Protocol ''directed signal has no destination'')), b)
                | Some d \<Rightarrow>
                    (case directed_signal_target_from (bk_router b) from_id from_name d h of
                       Inl e \<Rightarrow> (Finished (Inl e), b)
                     | Inr target \<Rightarrow> (Finished (Inr ()), try_send msg target b)))
           | _ \<Rightarrow>
               (case h_destination h of
                  None \<Rightarrow> (Finished (Inl (Protocol ''message has no destination'')), b)
                | Some d \<Rightarrow>
                    if d = BUS_NAME then
                      (if h_confidential h \<and> h_kind h = MethodCall then
                         (Finished (Inl (NotAttested d ''the bus itself is never an attested recipient'')), b)
                       else if h_sensitive h \<and>
                         (case h_member h of None \<Rightarrow> True
                          | Some m \<Rightarrow> member_str m \<notin> set reserved_for_sensitive) then
                         (Finished (Inl (Protocol
                            ''sensitive control bodies are reserved for module configuration'')), b)
                       else handle_bus_call mc sd from_id from_name msg b)
                    else if h_sensitive h then
                      (Finished (Inl (Protocol
                         ''sensitive control calls must address the bus module host'')), b)
                    else (route_to_peer mc from_id from_name d msg b, b))))"

text \<open>What follows an awaited send, given whether it succeeded.\<close>

definition announce_changes :: "name_change list \<Rightarrow> 'h broker \<Rightarrow> 'h broker" where
  "announce_changes changes =
     fold announce_name_change (filter (\<lambda>c. nc_old_owner c \<noteq> nc_new_owner c) changes)"

definition continue_route :: "bool \<Rightarrow> continuation \<Rightarrow> 'h broker \<Rightarrow> unit result \<times> 'h broker" where
  "continue_route sent k b =
     (case k of
        Forward d \<Rightarrow> (if sent then Inr () else Inl (NameHasNoOwner d), b)
      | AfterReply changes states \<Rightarrow>
          (Inr (), fold announce_module_state states (announce_changes changes b)))"

text \<open>One attempt at an awaited send: done when the channel is closed or has room.\<close>

definition attempt_send :: "nat \<Rightarrow> message \<Rightarrow> continuation \<Rightarrow> 'h broker \<Rightarrow> unit result option \<times> 'h broker" where
  "attempt_send c msg k b =
     (let ch = bk_chans b c in
      if \<not> ch_open ch then (case continue_route False k b of (r, b') \<Rightarrow> (Some r, b'))
      else if length (ch_queue ch) < PEER_QUEUE_CAPACITY then
        (case continue_route True k
                (b \<lparr> bk_chans := (bk_chans b)(c := ch \<lparr> ch_queue := ch_queue ch @ [msg] \<rparr>) \<rparr>) of
           (r, b') \<Rightarrow> (Some r, b'))
      else (None, b))"

section \<open>The tasks\<close>

definition set_reader_state :: "nat \<Rightarrow> reader_state \<Rightarrow> 'h broker \<Rightarrow> 'h broker" where
  "set_reader_state i st b =
     (case hget (bk_readers b) i of
        Some rd \<Rightarrow> b \<lparr> bk_readers := hput i (rd \<lparr> rd_state := st \<rparr>) (bk_readers b) \<rparr>
      | None \<Rightarrow> b)"

text \<open>
  \<open>reader_task\<close> after a routing result: a call that could not be routed is answered on the
  peer's own transport, in the bus's name.
\<close>

definition unroutable_reply :: "header \<Rightarrow> error \<Rightarrow> message" where
  "unroutable_reply h e = stamp BUS_NAME (error_reply h e)"

definition settle :: "nat \<Rightarrow> header \<Rightarrow> unit result \<Rightarrow> 'h broker \<Rightarrow> 'h broker" where
  "settle c h result b =
     (case result of
        Inr _ \<Rightarrow> b
      | Inl e \<Rightarrow>
          if h_kind h = MethodCall
          then b \<lparr> bk_wire := (bk_wire b)(c := bk_wire b c @ [unroutable_reply h e]) \<rparr>
          else b)"

definition proceed :: "nat \<Rightarrow> nat \<Rightarrow> header \<Rightarrow> route_outcome \<times> 'h broker \<Rightarrow> 'h broker" where
  "proceed i c h ob =
     (case ob of
        (Finished r, b) \<Rightarrow> settle c h r (set_reader_state i Idle b)
      | (Sending target msg k, b) \<Rightarrow>
          (case attempt_send target msg k b of
             (Some r, b') \<Rightarrow> settle c h r (set_reader_state i Idle b')
           | (None, b') \<Rightarrow> set_reader_state i (Suspended h target msg k) b'))"

definition reader_receive ::
  "'h module_control \<Rightarrow> serde \<Rightarrow> nat \<Rightarrow> message \<Rightarrow> 'h broker \<Rightarrow> 'h broker" where
  "reader_receive mc sd i msg b =
     (case hget (bk_readers b) i of
        Some rd \<Rightarrow>
          (case rd_state rd of
             Idle \<Rightarrow> proceed i (rd_chan rd) (m_header msg) (route mc sd i (rd_name rd) msg b)
           | Suspended _ _ _ _ \<Rightarrow> b)
      | None \<Rightarrow> b)"

definition reader_resume :: "nat \<Rightarrow> 'h broker \<Rightarrow> 'h broker" where
  "reader_resume i b =
     (case hget (bk_readers b) i of
        Some rd \<Rightarrow>
          (case rd_state rd of
             Suspended h target msg k \<Rightarrow> proceed i (rd_chan rd) h (Sending target msg k, b)
           | Idle \<Rightarrow> b)
      | None \<Rightarrow> b)"

definition reader_hangup :: "'h module_control \<Rightarrow> nat \<Rightarrow> 'h broker \<Rightarrow> 'h broker" where
  "reader_hangup mc i b =
     (case hget (bk_readers b) i of
        Some rd \<Rightarrow>
          (case rd_state rd of
             Idle \<Rightarrow>
               (case detach i (bk_router b) of
                  (changes, r') \<Rightarrow>
                    (let b1 = fold announce_name_change changes
                           (b \<lparr> bk_router := r', bk_readers := hdel i (bk_readers b) \<rparr>) in
                     case bk_host b1 of
                       None \<Rightarrow> b1
                     | Some _ \<Rightarrow>
                         (case mc_peer_detached mc (rd_name rd) b1 of
                            (None, b2) \<Rightarrow> b2
                          | (Some t, b2) \<Rightarrow> announce_module_state (module_state_body t) b2)))
           | Suspended _ _ _ _ \<Rightarrow> b)
      | None \<Rightarrow> b)"

text \<open>
  \<open>writer_task\<close>: take the head of the queue and write it; a message the transport refuses with
  a protocol error is dropped, any other error ends the task, which closes the channel.
\<close>

datatype write_outcome = Written | Refused | Broken

definition writer_step :: "nat \<Rightarrow> write_outcome \<Rightarrow> 'h broker \<Rightarrow> 'h broker" where
  "writer_step c w b =
     (let ch = bk_chans b c in
      case ch_queue ch of
        [] \<Rightarrow> b
      | msg # rest \<Rightarrow>
          if \<not> ch_open ch then b
          else (case w of
             Written \<Rightarrow> b \<lparr> bk_chans := (bk_chans b)(c := ch \<lparr> ch_queue := rest \<rparr>),
                           bk_wire := (bk_wire b)(c := bk_wire b c @ [msg]) \<rparr>
           | Refused \<Rightarrow> b \<lparr> bk_chans := (bk_chans b)(c := ch \<lparr> ch_queue := rest \<rparr>) \<rparr>
           | Broken \<Rightarrow> b \<lparr> bk_chans := (bk_chans b)(c := ch \<lparr> ch_queue := [], ch_open := False \<rparr>) \<rparr>))"

section \<open>Attachment and controller selection\<close>

definition broker_new :: "string \<Rightarrow> (nat \<Rightarrow> callback_state) \<Rightarrow> 'h broker" where
  "broker_new bid cells =
     \<lparr> bk_router = router_default cells,
        bk_chans = (\<lambda>_. \<lparr> ch_queue = [], ch_open = False \<rparr>), bk_next_chan = 0,
        bk_readers = [], bk_wire = (\<lambda>_. []), bk_controller = None, bk_host = None, bk_id = bid \<rparr>"

definition new_restricted_module_control :: "string \<Rightarrow> (nat \<Rightarrow> callback_state) \<Rightarrow> 'h broker" where
  "new_restricted_module_control bid cells =
     (broker_new bid cells) \<lparr> bk_controller := Some Unselected \<rparr>"

definition set_module_control :: "'h \<Rightarrow> 'h broker \<Rightarrow> 'h broker" where
  "set_module_control h b = b \<lparr> bk_host := Some h \<rparr>"

definition attach_peer :: "'h broker \<Rightarrow> bus_name \<times> 'h broker" where
  "attach_peer b =
     (let c = bk_next_chan b in
      case attach c (bk_router b) of
        ((i, unique), r') \<Rightarrow>
          (unique,
           b \<lparr> bk_router := r', bk_next_chan := c + 1,
               bk_chans := (bk_chans b)(c := \<lparr> ch_queue = [], ch_open = True \<rparr>),
               bk_readers := hput i \<lparr> rd_name = unique, rd_chan = c, rd_state = Idle \<rparr> (bk_readers b) \<rparr>))"

text \<open>
  A staged module peer holds its id, its name and its end of the channel; it is in the table but
  has no tasks yet. Starting it spawns them; dropping it unstarted detaches it and drops its end
  of the channel.
\<close>

record staged_peer =
  sp_id :: nat
  sp_unique :: bus_name
  sp_chan :: nat

definition attach_module_staged :: "'h broker \<Rightarrow> staged_peer \<times> 'h broker" where
  "attach_module_staged b =
     (let c = bk_next_chan b in
      case attach c (bk_router b) of
        ((i, unique), r') \<Rightarrow>
          (\<lparr> sp_id = i, sp_unique = unique, sp_chan = c \<rparr>,
           b \<lparr> bk_router := r', bk_next_chan := c + 1,
               bk_chans := (bk_chans b)(c := \<lparr> ch_queue = [], ch_open = True \<rparr>) \<rparr>))"

definition staged_start :: "staged_peer \<Rightarrow> 'h broker \<Rightarrow> 'h broker" where
  "staged_start sp b =
     b \<lparr> bk_readers := hput (sp_id sp)
           \<lparr> rd_name = sp_unique sp, rd_chan = sp_chan sp, rd_state = Idle \<rparr> (bk_readers b) \<rparr>"

definition attach_module_controller :: "'h broker \<Rightarrow> bus_name result \<times> 'h broker" where
  "attach_module_controller b =
     (case bk_controller b of
        None \<Rightarrow> (Inl module_control_denied, b)
      | Some binding \<Rightarrow>
          if binding \<noteq> Unselected then (Inl module_control_denied, b)
          else (case attach_peer (b \<lparr> bk_controller := Some Attaching \<rparr>) of
                  (unique, b') \<Rightarrow> (Inr unique, b' \<lparr> bk_controller := Some (Selected unique) \<rparr>)))"

definition restricted_module_controller_binding :: "'h broker \<Rightarrow> bus_name option" where
  "restricted_module_controller_binding b =
     (case bk_controller b of
        Some (Selected n) \<Rightarrow> (if has_unique_peer (bk_router b) n then Some n else None)
      | _ \<Rightarrow> None)"

definition binding_is_live :: "bus_name \<Rightarrow> 'h broker \<Rightarrow> bool" where
  "binding_is_live n b \<longleftrightarrow> bk_controller b = Some (Selected n) \<and> has_unique_peer (bk_router b) n"

section \<open>Host-side operations\<close>

definition reserve_module_name :: "bus_name \<Rightarrow> bus_name \<Rightarrow> 'h broker \<Rightarrow> name_change result \<times> 'h broker" where
  "reserve_module_name unique n b =
     (case request_name_for_unique unique n (bk_router b) of
        (result, r') \<Rightarrow> (result, b \<lparr> bk_router := r' \<rparr>))"

definition claim_host_name :: "bus_name \<Rightarrow> bus_name \<Rightarrow> 'h broker \<Rightarrow> bool result \<times> 'h broker" where
  "claim_host_name unique n b =
     (case reserve_module_name unique n b of
        (Inl e, b') \<Rightarrow> (Inl e, b')
      | (Inr c, b') \<Rightarrow>
          (let fresh = (nc_old_owner c = None) in
           (Inr fresh, if fresh then announce_name_change c b' else b')))"

definition release_host_name :: "bus_name \<Rightarrow> bus_name \<Rightarrow> 'h broker \<Rightarrow> unit result \<times> 'h broker" where
  "release_host_name unique n b =
     (case release_name_for_unique unique n (bk_router b) of
        (Inl e, r') \<Rightarrow> (Inl e, b \<lparr> bk_router := r' \<rparr>)
      | (Inr c, r') \<Rightarrow> (Inr (), announce_name_change c (b \<lparr> bk_router := r' \<rparr>)))"

definition attest_module :: "bus_name \<Rightarrow> attestation \<Rightarrow> 'h broker \<Rightarrow> 'h broker" where
  "attest_module unique a b = b \<lparr> bk_router := set_attestation_for_unique unique a (bk_router b) \<rparr>"

definition detach_unique_peer :: "bus_name \<Rightarrow> 'h broker \<Rightarrow> 'h broker" where
  "detach_unique_peer unique b =
     (case detach_unique unique (bk_router b) of
        (changes, r') \<Rightarrow> fold announce_name_change changes (b \<lparr> bk_router := r' \<rparr>))"

definition staged_drop :: "staged_peer \<Rightarrow> 'h broker \<Rightarrow> 'h broker" where
  "staged_drop sp b =
     (let b' = detach_unique_peer (sp_unique sp) b in
      b' \<lparr> bk_chans := (bk_chans b')(sp_chan sp := \<lparr> ch_queue = [], ch_open = False \<rparr>) \<rparr>)"

end
