(* ===== verification/BrokerSpec.thy ===== *)
theory BrokerSpec
  imports Broker
begin

text \<open>
  The broker as an event system, what its steps add to the peers' queues, and the invariants
  of its runs: authenticity of every delivered message, a well-formed routing table, bounded
  queues, a controller selected once.
\<close>

section \<open>What a step adds to the queues\<close>

text \<open>
  \<open>added q b b'\<close>: every queue of \<open>b'\<close> extends that of \<open>b\<close> by messages satisfying \<open>q\<close>, the
  other parts of a channel are untouched, and no queue grows beyond its capacity.
\<close>

definition added :: "(message \<Rightarrow> bool) \<Rightarrow> 'h broker \<Rightarrow> 'h broker \<Rightarrow> bool" where
  "added q b b' \<longleftrightarrow>
     (\<forall>c. \<exists>xs. ch_queue (bk_chans b' c) = ch_queue (bk_chans b c) @ xs \<and> list_all q xs \<and>
        (length (ch_queue (bk_chans b c)) \<le> PEER_QUEUE_CAPACITY \<longrightarrow>
         length (ch_queue (bk_chans b' c)) \<le> PEER_QUEUE_CAPACITY))"

text \<open>What the broker itself says: signals and refusals in its own name, and replies.\<close>

definition from_bus :: "message \<Rightarrow> bool" where
  "from_bus x \<longleftrightarrow>
     h_sender (m_header x) = Some BUS_NAME \<or>
     (h_sender (m_header x) = None \<and> h_kind (m_header x) \<in> {MethodReturn, ErrorKind})"

lemma added_refl [simp, intro]: "added q b b"
  by (simp add: added_def)

lemma added_trans: "added q b b' \<Longrightarrow> added q b' b'' \<Longrightarrow> added q b b''"
  unfolding added_def by (metis append_assoc list_all_append)

lemma added_mono: "added q b b' \<Longrightarrow> (\<And>x. q x \<Longrightarrow> q' x) \<Longrightarrow> added q' b b'"
  unfolding added_def list_all_iff by metis

lemma added_chans: "bk_chans b' = bk_chans b \<Longrightarrow> added q b b'"
  by (simp add: added_def)

lemma added_same: "added q b b' \<Longrightarrow> bk_chans b'' = bk_chans b' \<Longrightarrow> added q b b''"
  by (simp add: added_def)

lemma added_push:
  assumes "q msg" and "length (ch_queue (bk_chans b c)) < PEER_QUEUE_CAPACITY"
  shows "added q b (b \<lparr> bk_chans := (bk_chans b)(c := (bk_chans b c)
           \<lparr> ch_queue := ch_queue (bk_chans b c) @ [msg] \<rparr>) \<rparr>)"
  using assms by (auto simp: added_def)

lemma added_fold:
  assumes "\<And>x b. x \<in> set xs \<Longrightarrow> added q b (f x b)"
  shows "added q b (fold f xs b)"
  using assms
proof (induction xs arbitrary: b)
  case (Cons x xs)
  then show ?case using added_trans [of q b "f x b"] by simp
qed simp

text \<open>Everything but the queues: the frame of the announcing operations.\<close>

definition rest_same :: "'h broker \<Rightarrow> 'h broker \<Rightarrow> bool" where
  "rest_same b b' \<longleftrightarrow> b' = b \<lparr> bk_chans := bk_chans b' \<rparr>"

lemma rest_same_refl [simp]: "rest_same b b"
  by (simp add: rest_same_def)

lemma rest_same_trans: "rest_same b b' \<Longrightarrow> rest_same b' b'' \<Longrightarrow> rest_same b b''"
  by (cases b; cases b'; cases b'') (simp add: rest_same_def)

lemma rest_same_fields:
  assumes "rest_same b b'"
  shows "bk_router b' = bk_router b" "bk_readers b' = bk_readers b" "bk_wire b' = bk_wire b"
    "bk_controller b' = bk_controller b" "bk_host b' = bk_host b" "bk_id b' = bk_id b"
    "bk_next_chan b' = bk_next_chan b"
  using assms by (cases b; cases b'; simp add: rest_same_def)+

lemma rest_same_fold: "(\<And>x b. rest_same b (f x b)) \<Longrightarrow> rest_same b (fold f xs b)"
proof (induction xs arbitrary: b)
  case (Cons x xs)
  then show ?case using rest_same_trans [of b "f x b"] by simp
qed simp

lemma try_send_added: "q msg \<Longrightarrow> added q b (try_send msg c b)"
  using added_push [of q msg b c] by (simp add: try_send_def Let_def)

lemma try_send_rest [simp]: "rest_same b (try_send msg c b)"
  by (simp add: try_send_def rest_same_def Let_def)

lemma bus_signal_from_bus: "from_bus (bus_signal m body)"
  by (simp add: from_bus_def bus_signal_def)

lemma broadcast_effect:
  "added from_bus b (broadcast_bus_signal m body b)" "rest_same b (broadcast_bus_signal m body b)"
  unfolding broadcast_bus_signal_def Let_def
  by (rule added_fold, rule try_send_added, rule bus_signal_from_bus) (rule rest_same_fold, simp)

lemma announce_effect:
  "added from_bus b (announce_name_change c b)" "rest_same b (announce_name_change c b)"
  "added from_bus b (announce_module_state body b)" "rest_same b (announce_module_state body b)"
  by (simp_all add: announce_name_change_def announce_module_state_def broadcast_effect)

lemma announce_all_effect:
  "added from_bus b (fold announce_name_change cs b)" "rest_same b (fold announce_name_change cs b)"
  "added from_bus b (fold announce_module_state ss b)" "rest_same b (fold announce_module_state ss b)"
  "added from_bus b (announce_changes cs b)" "rest_same b (announce_changes cs b)"
  unfolding announce_changes_def
  by (rule added_fold rest_same_fold; rule announce_effect)+

section \<open>The host's behaviour\<close>

text \<open>
  What the broker relies on in \<open>dyn ModuleControl\<close>: it changes the routing table only through
  the table's own operations, so a well-formed table stays so, it queues only messages of the
  bus, never selects a controller, and the reader tasks it starts carry the unique name the
  table minted.
\<close>

definition reader_fresh :: "nat \<Rightarrow> reader \<Rightarrow> bool" where
  "reader_fresh i rd \<longleftrightarrow> rd_name rd = unique_name i \<and> rd_state rd = Idle"

definition host_step :: "'h broker \<Rightarrow> 'h broker \<Rightarrow> bool" where
  "host_step b b' \<longleftrightarrow>
     added from_bus b b' \<and> bk_wire b' = bk_wire b \<and> bk_controller b' = bk_controller b \<and>
     (router_wf (bk_router b) \<longrightarrow> router_wf (bk_router b')) \<and>
     (\<forall>i rd. hget (bk_readers b') i = Some rd \<longrightarrow>
        hget (bk_readers b) i = Some rd \<or> reader_fresh i rd)"

definition host_ok :: "'h module_control \<Rightarrow> bool" where
  "host_ok mc \<longleftrightarrow>
     (\<forall>p cfg b. host_step b (snd (mc_load mc p cfg b))) \<and>
     (\<forall>u a s cfg b. host_step b (snd (mc_load_github mc u a s cfg b))) \<and>
     (\<forall>n d b. host_step b (snd (mc_stop mc n d b))) \<and>
     (\<forall>n cfg b. host_step b (snd (mc_reinitialize mc n cfg b))) \<and>
     (\<forall>n e b. host_step b (snd (mc_enable mc n e b))) \<and>
     (\<forall>ps d b. host_step b (snd (mc_rescan mc ps d b))) \<and>
     (\<forall>n b. host_step b (snd (mc_peer_detached mc n b)))"

lemma host_step_refl [simp]: "host_step b b"
  by (simp add: host_step_def)

lemma host_step_trans: "host_step b b' \<Longrightarrow> host_step b' b'' \<Longrightarrow> host_step b b''"
  unfolding host_step_def using added_trans by metis

lemma rest_host_step: "added from_bus b b' \<Longrightarrow> rest_same b b' \<Longrightarrow> host_step b b'"
  by (simp add: host_step_def rest_same_fields)

lemma info_outcome_snd [simp]: "snd (info_outcome r) = snd r"
  by (auto simp: info_outcome_def split: prod.split sum.split)

lemma module_member_step:
  assumes "host_ok mc"
  shows "host_step b (snd (run_module_member mc sd h op member body b))"
proof -
  have r: "snd (case x of (r, b') \<Rightarrow> ((f r, g), b')) = snd x" for x :: "'x \<times> 'h broker" and f g
    by (simp split: prod.split)
  note ok = assms [unfolded host_ok_def]
  show ?thesis
    using ok
    by (cases op)
      (auto simp: run_module_member_def r split: sum.split json.split list.split option.split prod.split,
       (metis host_step_refl snd_conv)+)
qed

section \<open>The bus interface\<close>

lemma attached_peer: "ensure_peer_attached r i n = Inr u \<Longrightarrow> hget (rt_peers r) i \<noteq> None"
  by (auto simp: ensure_peer_attached_def split: if_splits option.splits)

lemma snd_map3: "snd (snd (case x of (Inl e, r') \<Rightarrow> (Inl e, [], r') | (Inr c, r') \<Rightarrow> (Inr v, [c], r'))) = snd x"
  by (simp split: prod.split sum.split)

lemma table_method_wf:
  assumes "router_wf r" and "hget (rt_peers r) i \<noteq> None"
  shows "router_wf (snd (snd (table_method sd bid i n member body r)))"
  using assms wf_request [OF assms] wf_release [OF assms(1)] wf_peer_updates [OF assms(1)]
  unfolding table_method_def Let_def
  by (auto simp: snd_map3 split: sum.split)

lemma module_method_step:
  assumes "host_ok mc"
  shows "host_step b (snd (module_method mc sd n member body b))"
  using module_member_step [OF assms]
  by (auto simp: module_method_def split: option.split prod.split) (metis snd_conv)

lemma host_step_router:
  "host_step b b' \<Longrightarrow> (router_wf (bk_router b') \<Longrightarrow> router_wf r) \<Longrightarrow> host_step b (b' \<lparr> bk_router := r \<rparr>)"
  by (simp add: host_step_def added_def)

lemma bus_method_step:
  assumes "host_ok mc"
  shows "host_step b (snd (bus_method mc sd i n member body b))"
proof (cases "ensure_peer_attached (bk_router b) i n")
  case (Inl e)
  then show ?thesis by (simp add: bus_method_def)
next
  case (Inr u)
  obtain m b' where m: "module_method mc sd n member body b = (m, b')" by fastforce
  then have h: "host_step b b'" using module_method_step [OF assms, of b sd n member body] by simp
  obtain res cs r' where t: "table_method sd (bk_id b') i n member body (bk_router b') = (res, cs, r')"
    by (metis prod_cases3)
  then have "router_wf (bk_router b') \<Longrightarrow> hget (rt_peers (bk_router b')) i \<noteq> None \<Longrightarrow> router_wf r'"
    using table_method_wf [of "bk_router b'" i sd "bk_id b'" n member body] by simp
  then have "ensure_peer_attached (bk_router b') i n = Inr v \<Longrightarrow> host_step b (b' \<lparr> bk_router := r' \<rparr>)" for v
    using host_step_router [OF h] attached_peer by metis
  then show ?thesis
    using Inr h m t by (auto simp: bus_method_def split: option.split sum.split)
qed

section \<open>Routing\<close>

definition attributable :: "bus_name \<Rightarrow> message \<Rightarrow> message \<Rightarrow> bool" where
  "attributable n msg x \<longleftrightarrow> from_bus x \<or> x = stamp n msg"

lemma from_bus_attributable: "from_bus x \<Longrightarrow> attributable n msg x"
  by (simp add: attributable_def)

text \<open>A step of a reader: like a step of the host, but it may also queue the peer's message.\<close>

definition peer_step :: "bus_name \<Rightarrow> message \<Rightarrow> 'h broker \<Rightarrow> 'h broker \<Rightarrow> bool" where
  "peer_step n msg b b' \<longleftrightarrow>
     added (attributable n msg) b b' \<and> bk_wire b' = bk_wire b \<and> bk_controller b' = bk_controller b \<and>
     (router_wf (bk_router b) \<longrightarrow> router_wf (bk_router b')) \<and>
     (\<forall>i rd. hget (bk_readers b') i = Some rd \<longrightarrow>
        hget (bk_readers b) i = Some rd \<or> reader_fresh i rd)"

lemma host_peer_step: "host_step b b' \<Longrightarrow> peer_step n msg b b'"
  unfolding host_step_def peer_step_def using added_mono from_bus_attributable by metis

lemma peer_step_refl [simp]: "peer_step n msg b b"
  by (simp add: peer_step_def)

lemma peer_step_trans: "peer_step n msg b b' \<Longrightarrow> peer_step n msg b' b'' \<Longrightarrow> peer_step n msg b b''"
  unfolding peer_step_def using added_trans by metis

lemma rest_peer_step: "added (attributable n msg) b b' \<Longrightarrow> rest_same b b' \<Longrightarrow> peer_step n msg b b'"
  by (simp add: peer_step_def rest_same_fields)

lemma handle_bus_call_effect:
  assumes "host_ok mc" and "handle_bus_call mc sd i n msg b = (out, b')"
  shows "host_step b b'" and "out = Sending t x k \<Longrightarrow> from_bus x"
proof -
  show "host_step b b'"
    using assms bus_method_step [OF assms(1), of b sd i n _ "m_body msg"]
    by (auto simp: handle_bus_call_def Let_def split: option.splits prod.splits sum.splits)
      (metis snd_conv)+
  show "out = Sending t x k \<Longrightarrow> from_bus x"
    using assms(2)
    by (auto simp: handle_bus_call_def Let_def from_bus_def method_return_def error_reply_def
        split: option.splits prod.splits sum.splits)
qed

lemma route_to_peer_sends:
  "route_to_peer mc i n d msg b = Sending t x k \<Longrightarrow> x = msg \<and> k = Forward d"
  by (auto simp: route_to_peer_def Let_def split: sum.splits option.splits)

lemma stamp_attributable: "attributable n msg (stamp n msg)"
  by (simp add: attributable_def)

lemma signal_step:
  "peer_step n msg b (fold (try_send (stamp n msg)) ts b)" "peer_step n msg b (try_send (stamp n msg) t b)"
  by (rule rest_peer_step, (rule added_fold)?, rule try_send_added, rule stamp_attributable,
      (rule rest_same_fold)?, rule try_send_rest)+

lemma route_effect:
  assumes "host_ok mc" and r: "route mc sd i n msg b = (out, b')"
  shows "peer_step n msg b b' \<and> (\<forall>t x k. out = Sending t x k \<longrightarrow> attributable n msg x)"
proof (cases "validate msg")
  case (Inl e)
  then show ?thesis using r by (auto simp: route_def)
next
  case (Inr u)
  let ?h = "m_header (stamp n msg)"
  note r' = r [unfolded route_def Let_def Inr sum.case]
  show ?thesis
  proof (cases "h_kind ?h = Signal \<or> h_kind ?h = DirectedSignal")
    case True
    then show ?thesis
      using r' signal_step by (auto split: sum.splits option.splits)
  next
    case False
    have bus: "handle_bus_call mc sd i n (stamp n msg) b = (out, b') \<Longrightarrow> ?thesis"
      using handle_bus_call_effect [OF assms(1)] host_peer_step from_bus_attributable by metis
    have fwd: "(route_to_peer mc i n d (stamp n msg) b, b) = (out, b') \<Longrightarrow> ?thesis" for d
      using route_to_peer_sends stamp_attributable by fastforce
    show ?thesis
      using False r' bus fwd by (cases "h_kind ?h") (auto split: option.splits if_splits)
  qed
qed

section \<open>Tasks\<close>

lemma continue_effect: "host_step b (snd (continue_route sent k b))"
proof (cases k)
  case (AfterReply cs ss)
  let ?b1 = "announce_changes cs b"
  have "host_step b ?b1" "host_step ?b1 (fold announce_module_state ss ?b1)"
    by (rule rest_host_step; rule announce_all_effect)+
  then show ?thesis using AfterReply host_step_trans by (simp add: continue_route_def)
qed (simp add: continue_route_def)

lemma push_step:
  assumes "attributable n msg x" and "length (ch_queue (bk_chans b c)) < PEER_QUEUE_CAPACITY"
  shows "peer_step n msg b (b \<lparr> bk_chans := (bk_chans b)(c := (bk_chans b c)
           \<lparr> ch_queue := ch_queue (bk_chans b c) @ [x] \<rparr>) \<rparr>)"
  by (rule rest_peer_step) (use added_push [of "attributable n msg" x b c] assms in \<open>auto simp: rest_same_def\<close>)

lemma snd_some: "snd (case x of (r, b') \<Rightarrow> (Some r, b')) = snd x"
  by (simp split: prod.split)

lemma attempt_effect:
  assumes "attributable n msg x"
  shows "peer_step n msg b (snd (attempt_send c x k b))"
proof -
  have k: "peer_step n msg a (snd (continue_route sent k a))" for sent a
    using host_peer_step [OF continue_effect] .
  consider "\<not> ch_open (bk_chans b c)"
    | "ch_open (bk_chans b c)" "length (ch_queue (bk_chans b c)) < PEER_QUEUE_CAPACITY"
    | "ch_open (bk_chans b c)" "\<not> length (ch_queue (bk_chans b c)) < PEER_QUEUE_CAPACITY"
    by blast
  then show ?thesis
  proof cases
    case 1
    then show ?thesis using k [of b False] by (simp add: attempt_send_def snd_some)
  next
    case 2
    then show ?thesis
      using peer_step_trans [OF push_step [OF assms 2(2)] k [of _ True]]
      by (simp add: attempt_send_def Let_def snd_some)
  next
    case 3
    then show ?thesis by (simp add: attempt_send_def)
  qed
qed

text \<open>
  What remains true of a broker after a reader worked on a message: the queues and the readers
  as in a peer step, except the reader's own state and one refusal on its own transport.
\<close>

definition pending_ok :: "(message \<Rightarrow> bool) \<Rightarrow> reader_state \<Rightarrow> bool" where
  "pending_ok q st \<longleftrightarrow> (case st of Idle \<Rightarrow> True | Suspended _ _ x _ \<Rightarrow> q x)"

definition worked :: "nat \<Rightarrow> (message \<Rightarrow> bool) \<Rightarrow> 'h broker \<Rightarrow> 'h broker \<Rightarrow> bool" where
  "worked i q b b' \<longleftrightarrow>
     added q b b' \<and> bk_controller b' = bk_controller b \<and>
     (router_wf (bk_router b) \<longrightarrow> router_wf (bk_router b')) \<and>
     (\<forall>c. \<exists>xs. bk_wire b' c = bk_wire b c @ xs \<and> list_all from_bus xs) \<and>
     (\<forall>j rd. hget (bk_readers b') j = Some rd \<longrightarrow>
        (rd_name rd = unique_name j \<or>
         (\<exists>rd0. hget (bk_readers b) j = Some rd0 \<and> rd_name rd = rd_name rd0)) \<and>
        (rd_state rd = Idle \<or> (j = i \<and> pending_ok q (rd_state rd)) \<or>
         (\<exists>rd0. hget (bk_readers b) j = Some rd0 \<and> rd_state rd = rd_state rd0)))"

lemma peer_step_worked: "peer_step n msg b b' \<Longrightarrow> worked i (attributable n msg) b b'"
  unfolding worked_def peer_step_def reader_fresh_def by (metis append_Nil2 list.pred_inject(1))

lemma refusal_from_bus: "from_bus (unroutable_reply h e)"
  by (simp add: from_bus_def unroutable_reply_def stamp_def)

lemma worked_settle: "worked i q b b' \<Longrightarrow> worked i q b (settle c h r b')"
proof -
  assume w: "worked i q b b'"
  have "\<exists>xs. bk_wire (settle c h r b') d = bk_wire b d @ xs \<and> list_all from_bus xs" for d
  proof -
    obtain xs where xs: "bk_wire b' d = bk_wire b d @ xs" "list_all from_bus xs"
      using w unfolding worked_def by blast
    have "\<exists>ys. bk_wire (settle c h r b') d = bk_wire b' d @ ys \<and> list_all from_bus ys"
      using refusal_from_bus by (auto simp: settle_def split: sum.split)
    with xs show ?thesis by (metis append_assoc list_all_append)
  qed
  moreover have "bk_chans (settle c h r b') = bk_chans b'" "bk_router (settle c h r b') = bk_router b'"
    "bk_readers (settle c h r b') = bk_readers b'" "bk_controller (settle c h r b') = bk_controller b'"
    by (simp_all add: settle_def split: sum.split)
  ultimately show ?thesis using w added_same [of q b b'] unfolding worked_def by metis
qed

lemma worked_state:
  assumes "worked i q b b'" and "pending_ok q st"
  shows "worked i q b (set_reader_state i st b')"
proof (cases "hget (bk_readers b') i")
  case None
  then show ?thesis using assms(1) by (simp add: set_reader_state_def)
next
  case (Some rd)
  then have e: "set_reader_state i st b' =
      b' \<lparr> bk_readers := hput i (rd \<lparr> rd_state := st \<rparr>) (bk_readers b') \<rparr>"
    by (simp add: set_reader_state_def)
  have "hget (bk_readers (set_reader_state i st b')) j =
      (if j = i then Some (rd \<lparr> rd_state := st \<rparr>) else hget (bk_readers b') j)" for j
    by (simp add: e table_simps)
  then show ?thesis
    using assms Some added_same [of q b b' "set_reader_state i st b'"]
    unfolding worked_def by (auto simp: e split: if_splits)
qed

lemma proceed_worked:
  assumes "peer_step n msg b b'" and "\<And>t x k. out = Sending t x k \<Longrightarrow> attributable n msg x"
  shows "worked i (attributable n msg) b (proceed i c h (out, b'))"
proof (cases out)
  case (Finished r)
  then show ?thesis
    using worked_settle [OF worked_state [OF peer_step_worked [OF assms(1)]], of Idle]
    by (simp add: proceed_def pending_ok_def)
next
  case (Sending t x k)
  obtain r b2 where a: "attempt_send t x k b' = (r, b2)" by fastforce
  then have s: "peer_step n msg b b2"
    using peer_step_trans [OF assms(1) attempt_effect [OF assms(2) [OF Sending], of b' t k]] by simp
  note w = worked_state [OF peer_step_worked [OF s]]
  show ?thesis
    using Sending a w [of Idle] worked_settle [OF w [of Idle]]
      w [of "Suspended h t x k"] assms(2) [OF Sending]
    by (cases r) (simp_all add: proceed_def pending_ok_def)
qed

lemma receive_worked:
  assumes "host_ok mc" and "hget (bk_readers b) i = Some rd"
  shows "worked i (attributable (rd_name rd) msg) b (reader_receive mc sd i msg b)"
proof (cases "rd_state rd")
  case Idle
  obtain out b' where r: "route mc sd i (rd_name rd) msg b = (out, b')" by fastforce
  then show ?thesis
    using route_effect [OF assms(1) r] assms(2) Idle
    by (auto simp: reader_receive_def intro!: proceed_worked)
qed (use assms(2) peer_step_worked [OF peer_step_refl] in \<open>simp add: reader_receive_def\<close>)

section \<open>Runs\<close>

datatype 'h event =
    PeerAttached
  | ControllerAttached
  | Received nat message
  | Resumed nat
  | HungUp nat
  | Wrote nat write_outcome
  | HostInstalled 'h
  | HostClaimed bus_name bus_name
  | HostReleased bus_name bus_name
  | HostAttested bus_name attestation
  | HostDetached bus_name
  | HostReserved bus_name bus_name
  | HostStaged
  | HostStarted nat nat
  | HostDropped staged_peer

fun broker_step :: "'h module_control \<Rightarrow> serde \<Rightarrow> 'h event \<Rightarrow> 'h broker \<Rightarrow> 'h broker" where
  "broker_step mc sd PeerAttached b = snd (attach_peer b)"
| "broker_step mc sd ControllerAttached b = snd (attach_module_controller b)"
| "broker_step mc sd (Received i msg) b = reader_receive mc sd i msg b"
| "broker_step mc sd (Resumed i) b = reader_resume i b"
| "broker_step mc sd (HungUp i) b = reader_hangup mc i b"
| "broker_step mc sd (Wrote c w) b = writer_step c w b"
| "broker_step mc sd (HostInstalled h) b = set_module_control h b"
| "broker_step mc sd (HostClaimed u n) b = snd (claim_host_name u n b)"
| "broker_step mc sd (HostReleased u n) b = snd (release_host_name u n b)"
| "broker_step mc sd (HostAttested u a) b = attest_module u a b"
| "broker_step mc sd (HostDetached u) b = detach_unique_peer u b"
| "broker_step mc sd (HostReserved u n) b = snd (reserve_module_name u n b)"
| "broker_step mc sd HostStaged b = snd (attach_module_staged b)"
| "broker_step mc sd (HostStarted i c) b =
     staged_start \<lparr> sp_id = i, sp_unique = unique_name i, sp_chan = c \<rparr> b"
| "broker_step mc sd (HostDropped sp) b = staged_drop sp b"

definition broker_run :: "'h module_control \<Rightarrow> serde \<Rightarrow> 'h event list \<Rightarrow> 'h broker \<Rightarrow> 'h broker" where
  "broker_run mc sd evs b = fold (broker_step mc sd) evs b"

text \<open>
  A message is authentic after the events \<open>evs\<close>: the bus made it, or it is what some peer sent,
  under that peer's unique name.
\<close>

definition authentic :: "'h event set \<Rightarrow> message \<Rightarrow> bool" where
  "authentic evs x \<longleftrightarrow>
     from_bus x \<or> (\<exists>i msg. Received i msg \<in> evs \<and> x = stamp (unique_name i) msg)"

definition readers_ok :: "'h event set \<Rightarrow> 'h broker \<Rightarrow> bool" where
  "readers_ok evs b \<longleftrightarrow>
     (\<forall>i rd. hget (bk_readers b) i = Some rd \<longrightarrow>
        rd_name rd = unique_name i \<and> pending_ok (authentic evs) (rd_state rd))"

definition mail_ok :: "'h event set \<Rightarrow> 'h broker \<Rightarrow> bool" where
  "mail_ok evs b \<longleftrightarrow>
     (\<forall>c. list_all (authentic evs) (ch_queue (bk_chans b c)) \<and> list_all (authentic evs) (bk_wire b c) \<and>
        length (ch_queue (bk_chans b c)) \<le> PEER_QUEUE_CAPACITY)"

definition broker_inv :: "'h event set \<Rightarrow> 'h broker \<Rightarrow> bool" where
  "broker_inv evs b \<longleftrightarrow> router_wf (bk_router b) \<and> readers_ok evs b \<and> mail_ok evs b"

lemma authentic_mono: "authentic evs x \<Longrightarrow> evs \<subseteq> evs' \<Longrightarrow> authentic evs' x"
  by (auto simp: authentic_def)

lemma pending_mono: "pending_ok q st \<Longrightarrow> (\<And>x. q x \<Longrightarrow> q' x) \<Longrightarrow> pending_ok q' st"
  by (auto simp: pending_ok_def split: reader_state.splits)

lemma broker_inv_mono:
  assumes "broker_inv evs b" and "evs \<subseteq> evs'"
  shows "broker_inv evs' b"
proof -
  have a: "authentic evs x \<Longrightarrow> authentic evs' x" for x
    using authentic_mono [OF _ assms(2)] .
  then have p: "pending_ok (authentic evs) st \<Longrightarrow> pending_ok (authentic evs') st" for st
    using pending_mono by blast
  have l: "list_all (authentic evs) xs \<Longrightarrow> list_all (authentic evs') xs" for xs
    using a by (auto simp: list_all_iff)
  show ?thesis
    using assms(1) p l by (simp add: broker_inv_def readers_ok_def mail_ok_def)
qed

lemma worked_reader:
  assumes "worked i q b b'" and "hget (bk_readers b') j = Some rd"
  shows "(rd_name rd = unique_name j \<or>
         (\<exists>rd0. hget (bk_readers b) j = Some rd0 \<and> rd_name rd = rd_name rd0)) \<and>
        (rd_state rd = Idle \<or> (j = i \<and> pending_ok q (rd_state rd)) \<or>
         (\<exists>rd0. hget (bk_readers b) j = Some rd0 \<and> rd_state rd = rd_state rd0))"
  using assms(1) [unfolded worked_def, THEN conjunct2, THEN conjunct2, THEN conjunct2, THEN conjunct2,
      THEN spec, THEN spec, THEN mp, OF assms(2)] .

lemma worked_inv:
  assumes "broker_inv evs b" and "worked i q b b'" and "\<And>x. q x \<Longrightarrow> authentic evs x"
  shows "broker_inv evs b'"
proof -
  have "router_wf (bk_router b')" using assms by (simp add: broker_inv_def worked_def)
  moreover have "readers_ok evs b'"
    unfolding readers_ok_def
  proof (intro allI impI)
    fix j rd
    assume j: "hget (bk_readers b') j = Some rd"
    have old: "rd_name rd0 = unique_name j \<and> pending_ok (authentic evs) (rd_state rd0)"
      if "hget (bk_readers b) j = Some rd0" for rd0
      using assms(1) that by (simp add: broker_inv_def readers_ok_def)
    note w = worked_reader [OF assms(2) j]
    show "rd_name rd = unique_name j \<and> pending_ok (authentic evs) (rd_state rd)"
      using w old pending_mono [of q _ "authentic evs", OF _ assms(3)]
      by (auto simp: pending_ok_def [of _ Idle])
  qed
  moreover have "mail_ok evs b'"
    unfolding mail_ok_def
  proof (intro allI)
    fix c
    obtain xs where xs: "ch_queue (bk_chans b' c) = ch_queue (bk_chans b c) @ xs" "list_all q xs"
      "length (ch_queue (bk_chans b c)) \<le> PEER_QUEUE_CAPACITY \<longrightarrow>
         length (ch_queue (bk_chans b' c)) \<le> PEER_QUEUE_CAPACITY"
      using assms(2) unfolding worked_def added_def by blast
    obtain ys where ys: "bk_wire b' c = bk_wire b c @ ys" "list_all from_bus ys"
      using assms(2) unfolding worked_def by blast
    show "list_all (authentic evs) (ch_queue (bk_chans b' c)) \<and>
        list_all (authentic evs) (bk_wire b' c) \<and>
        length (ch_queue (bk_chans b' c)) \<le> PEER_QUEUE_CAPACITY"
      using assms(1,3) xs ys
      by (auto simp: broker_inv_def mail_ok_def list_all_iff authentic_def)
  qed
  ultimately show ?thesis by (simp add: broker_inv_def)
qed

section \<open>Every step keeps the invariant\<close>

lemma bus_only: "attributable BUS_NAME m x \<Longrightarrow> authentic evs x"
  by (auto simp: attributable_def authentic_def from_bus_def stamp_def)

lemma host_inv: "broker_inv evs b \<Longrightarrow> host_step b b' \<Longrightarrow> broker_inv evs b'"
proof -
  assume i: "broker_inv evs b" and h: "host_step b b'"
  show ?thesis
    using worked_inv [OF i peer_step_worked [OF host_peer_step [OF h]] bus_only] .
qed

lemma authentic_attributable:
  assumes "authentic evs x"
  obtains n m where "attributable n m x" "\<And>y. attributable n m y \<Longrightarrow> authentic evs y"
proof (cases "from_bus x")
  case True
  then show ?thesis
    using that [of BUS_NAME x] from_bus_attributable bus_only by blast
next
  case False
  then show ?thesis
    using assms that by (auto simp: attributable_def authentic_def)
qed

lemma inv_receive:
  assumes "host_ok mc" and "broker_inv evs b" and "Received i msg \<in> evs"
  shows "broker_inv evs (reader_receive mc sd i msg b)"
proof (cases "hget (bk_readers b) i")
  case (Some rd)
  then have "rd_name rd = unique_name i"
    using assms(2) by (simp add: broker_inv_def readers_ok_def)
  then show ?thesis
    using worked_inv [OF assms(2) receive_worked [OF assms(1) Some]] assms(3)
    by (auto simp: attributable_def authentic_def)
qed (use assms(2) in \<open>simp add: reader_receive_def\<close>)

lemma inv_resume:
  assumes "broker_inv evs b"
  shows "broker_inv evs (reader_resume i b)"
proof (cases "hget (bk_readers b) i")
  case (Some rd)
  show ?thesis
  proof (cases "rd_state rd")
    case (Suspended h t x k)
    then have "authentic evs x"
      using assms Some by (auto simp: broker_inv_def readers_ok_def pending_ok_def dest!: spec)
    then obtain n m where nm: "attributable n m x" "\<And>y. attributable n m y \<Longrightarrow> authentic evs y"
      using authentic_attributable [of evs x] by blast
    have "worked i (attributable n m) b (proceed i (rd_chan rd) h (Sending t x k, b))"
      by (rule proceed_worked) (use nm(1) in auto)
    then show ?thesis
      using worked_inv [OF assms _ nm(2)] Some Suspended by (simp add: reader_resume_def)
  qed (use assms Some in \<open>simp add: reader_resume_def\<close>)
qed (use assms in \<open>simp add: reader_resume_def\<close>)

lemma announced_step: "host_step b (fold announce_name_change cs b)"
  by (rule rest_host_step; rule announce_all_effect)

lemma announced_change: "host_step b (announce_name_change c b)"
  by (rule rest_host_step; rule announce_effect)

lemma announced_state: "host_step b (announce_module_state body b)"
  by (rule rest_host_step; rule announce_effect)

lemma router_update_step:
  assumes "router_wf (bk_router b) \<Longrightarrow> router_wf r"
  shows "host_step b (b \<lparr> bk_router := r \<rparr>)" "host_step b (b \<lparr> bk_router := r, bk_readers := hdel i (bk_readers b) \<rparr>)"
  using assms by (auto simp: host_step_def added_def table_simps split: if_splits)

lemma host_operations_step:
  "host_step b (set_module_control h b)"
  "host_step b (snd (claim_host_name u n b))"
  "host_step b (snd (release_host_name u n b))"
  "host_step b (attest_module u a b)"
  "host_step b (detach_unique_peer u b)"
  "host_step b (snd (reserve_module_name u n b))"
  "host_step b (staged_start \<lparr> sp_id = i, sp_unique = unique_name i, sp_chan = c \<rparr> b)"
proof -
  show "host_step b (set_module_control h b)"
    by (simp add: set_module_control_def host_step_def added_def)
  have r: "host_step b (b \<lparr> bk_router := snd (request_name_for_unique u n (bk_router b)) \<rparr>)"
    "host_step b (b \<lparr> bk_router := snd (release_name_for_unique u n (bk_router b)) \<rparr>)"
    "host_step b (b \<lparr> bk_router := snd (detach_unique u (bk_router b)) \<rparr>)"
    by (rule router_update_step, (intro wf_intros | assumption)+)+
  show "host_step b (snd (reserve_module_name u n b))"
    using r(1) by (auto simp: reserve_module_name_def split: prod.split)
  show "host_step b (snd (claim_host_name u n b))"
    using r(1) host_step_trans [OF r(1) announced_change]
    by (auto simp: claim_host_name_def reserve_module_name_def Let_def split: prod.split sum.split)
  show "host_step b (staged_start \<lparr> sp_id = i, sp_unique = unique_name i, sp_chan = c \<rparr> b)"
    by (auto simp: staged_start_def host_step_def reader_fresh_def added_def table_simps split: if_splits)
  show "host_step b (snd (release_host_name u n b))"
    using r(2) host_step_trans [OF r(2) announced_change]
    by (auto simp: release_host_name_def split: prod.split sum.split)
  show "host_step b (attest_module u a b)"
    unfolding attest_module_def by (rule router_update_step, intro wf_intros)
  show "host_step b (detach_unique_peer u b)"
    using host_step_trans [OF r(3) announced_step]
    by (auto simp: detach_unique_peer_def split: prod.split)
qed

lemma hangup_step:
  assumes "host_ok mc"
  shows "host_step b (reader_hangup mc i b)"
proof (cases "\<exists>rd. hget (bk_readers b) i = Some rd \<and> rd_state rd = Idle")
  case True
  then obtain rd where rd: "hget (bk_readers b) i = Some rd" "rd_state rd = Idle" by blast
  obtain cs r' where d: "detach i (bk_router b) = (cs, r')" by fastforce
  let ?b1 = "fold announce_name_change cs (b \<lparr> bk_router := r', bk_readers := hdel i (bk_readers b) \<rparr>)"
  have "router_wf (bk_router b) \<Longrightarrow> router_wf r'" using wf_detach [of "bk_router b" i] d by simp
  then have b1: "host_step b ?b1"
    using host_step_trans [OF router_update_step(2) announced_step] by blast
  obtain t b2 where m: "mc_peer_detached mc (rd_name rd) ?b1 = (t, b2)" by fastforce
  then have b2: "host_step b b2"
    using assms host_step_trans [OF b1] unfolding host_ok_def by (metis snd_conv)
  show ?thesis
    using rd d m b1 b2 host_step_trans [OF b2 announced_state]
    by (auto simp: reader_hangup_def Let_def split: option.split)
qed (auto simp: reader_hangup_def split: option.split reader_state.split)

lemma inv_writer:
  assumes "broker_inv evs b"
  shows "broker_inv evs (writer_step c w b)"
proof (cases "ch_queue (bk_chans b c)")
  case (Cons x xs)
  have m: "list_all (authentic evs) (ch_queue (bk_chans b d)) \<and> list_all (authentic evs) (bk_wire b d) \<and>
      length (ch_queue (bk_chans b d)) \<le> PEER_QUEUE_CAPACITY" for d
    using assms by (simp add: broker_inv_def mail_ok_def)
  show ?thesis
    using assms m m [of c] Cons
    by (cases w) (auto simp: writer_step_def Let_def broker_inv_def readers_ok_def mail_ok_def)
qed (use assms in \<open>simp add: writer_step_def Let_def\<close>)

lemma inv_attach:
  assumes "broker_inv evs b"
  shows "broker_inv evs (snd (attach_peer b))"
proof -
  have "router_wf (snd (attach (bk_next_chan b) (bk_router b)))"
    using assms wf_attach by (simp add: broker_inv_def)
  then show ?thesis
    using assms
    by (auto simp: attach_peer_def attach_def Let_def broker_inv_def readers_ok_def mail_ok_def
        pending_ok_def table_simps)
qed

lemma inv_staged:
  assumes "broker_inv evs b"
  shows "broker_inv evs (snd (attach_module_staged b))"
proof -
  have "router_wf (snd (attach (bk_next_chan b) (bk_router b)))"
    using assms wf_attach by (simp add: broker_inv_def)
  then show ?thesis
    using assms
    by (auto simp: attach_module_staged_def attach_def Let_def broker_inv_def readers_ok_def mail_ok_def)
qed

lemma inv_dropped:
  assumes "broker_inv evs b"
  shows "broker_inv evs (staged_drop sp b)"
  using host_inv [OF assms host_operations_step(5), of "sp_unique sp"]
  by (auto simp: staged_drop_def Let_def broker_inv_def readers_ok_def mail_ok_def)

lemma inv_controller_field: "broker_inv evs (b \<lparr> bk_controller := k \<rparr>) \<longleftrightarrow> broker_inv evs b"
  by (simp add: broker_inv_def readers_ok_def mail_ok_def)

lemma inv_step:
  assumes "host_ok mc" and "broker_inv evs b" and "e \<in> evs"
  shows "broker_inv evs (broker_step mc sd e b)"
proof (cases e)
  case ControllerAttached
  then show ?thesis
    using assms inv_attach [of evs "b \<lparr> bk_controller := Some Attaching \<rparr>"]
    by (auto simp: attach_module_controller_def inv_controller_field split: option.split prod.split)
qed (use assms inv_attach inv_staged inv_dropped inv_receive inv_resume inv_writer in
      \<open>auto intro: host_inv hangup_step host_operations_step\<close>)

lemma inv_new: "broker_inv evs (broker_new bid cells)"
  by (simp add: broker_inv_def readers_ok_def mail_ok_def broker_new_def wf_default)

lemma broker_inv_run:
  assumes "host_ok mc" and "broker_inv (set evs) b"
  shows "broker_inv (set evs) (broker_run mc sd evs b)"
proof -
  have "set es \<subseteq> set evs \<Longrightarrow> broker_inv (set evs) b \<Longrightarrow>
      broker_inv (set evs) (fold (broker_step mc sd) es b)" for es
    by (induction es arbitrary: b) (simp_all add: inv_step [OF assms(1)])
  then show ?thesis using assms(2) by (simp add: broker_run_def)
qed

end
