(* ===== verification/BrokerProps.thy ===== *)
theory BrokerProps
  imports BrokerSpec RouterProps
begin

text \<open>
  What the broker promises: authenticity of everything it delivers, private delivery of
  confidential calls, the module-control gate and its single controller, an answer for every
  call, announcements that match the changes of ownership, and bounded queues.
\<close>

section \<open>Outcomes of routing\<close>

lemma bus_call_outcome:
  assumes "handle_bus_call mc sd i n msg b = (out, b')"
  shows "(\<exists>e. out = Finished (Inl e)) \<or>
    (\<exists>t x cs ss. out = Sending t x (AfterReply cs ss) \<and> resolve (bk_router b') n = Inr t \<and>
       h_reply_serial (m_header x) = Some (h_serial (m_header msg)) \<and>
       h_destination (m_header x) = h_sender (m_header msg) \<and>
       h_kind (m_header x) \<in> {MethodReturn, ErrorKind})"
  using assms
  by (auto simp: handle_bus_call_def Let_def method_return_def error_reply_def
      split: option.splits prod.splits sum.splits)

lemma peer_call_outcome:
  "(\<exists>e. route_to_peer mc i n d msg b = Finished (Inl e)) \<or>
   (\<exists>t. route_to_peer mc i n d msg b = Sending t msg (Forward d) \<and>
      resolve_call (bk_router b) d (h_expected_responder (m_header msg))
        (h_confidential (m_header msg) \<and> h_kind (m_header msg) = MethodCall) (m_header msg) = Inr t)"
  by (auto simp: route_to_peer_def Let_def resolve_call_from_def split: sum.split option.split)

lemma stamp_header [simp]:
  "h_sender (m_header (stamp n msg)) = Some n"
  "h_kind (m_header (stamp n msg)) = h_kind (m_header msg)"
  "h_serial (m_header (stamp n msg)) = h_serial (m_header msg)"
  "h_destination (m_header (stamp n msg)) = h_destination (m_header msg)"
  "h_confidential (m_header (stamp n msg)) = h_confidential (m_header msg)"
  "h_sensitive (m_header (stamp n msg)) = h_sensitive (m_header msg)"
  "h_member (m_header (stamp n msg)) = h_member (m_header msg)"
  "h_expected_responder (m_header (stamp n msg)) = h_expected_responder (m_header msg)"
  "m_body (stamp n msg) = m_body msg"
  by (simp_all add: stamp_def)

text \<open>What \<open>route\<close> does with anything but a signal.\<close>

lemma route_addressed:
  assumes "route mc sd i n msg b = (out, b')"
    and "h_kind (m_header msg) \<noteq> Signal" "h_kind (m_header msg) \<noteq> DirectedSignal"
  shows "(\<exists>e. out = Finished (Inl e) \<and> b' = b) \<or>
    (h_destination (m_header msg) = Some BUS_NAME \<and>
       \<not> (h_confidential (m_header msg) \<and> h_kind (m_header msg) = MethodCall) \<and>
       handle_bus_call mc sd i n (stamp n msg) b = (out, b')) \<or>
    (\<exists>d. h_destination (m_header msg) = Some d \<and> d \<noteq> BUS_NAME \<and> \<not> h_sensitive (m_header msg) \<and>
       out = route_to_peer mc i n d (stamp n msg) b \<and> b' = b)"
  using assms
  by (cases "h_kind (m_header msg)")
    (auto simp: route_def Let_def split: sum.splits option.splits if_splits)

section \<open>One attempt at a send\<close>

lemma attempt_outcomes:
  assumes "attempt_send t x k b = (res, b')"
  shows "(\<not> ch_open (bk_chans b t) \<and> (res, b') = apfst Some (continue_route False k b)) \<or>
    (\<exists>xs. res = Some (Inr ()) \<and> ch_queue (bk_chans b' t) = ch_queue (bk_chans b t) @ x # xs) \<or>
    (res = None \<and> b' = b)"
proof -
  have ext: "\<exists>xs. ch_queue (bk_chans (snd (continue_route True k a)) t) = ch_queue (bk_chans a t) @ xs"
    for a :: "'a broker"
    using continue_effect [of a True k] unfolding host_step_def added_def by blast
  have r: "fst (continue_route True k a) = Inr ()" for a :: "'a broker"
    by (simp add: continue_route_def split: continuation.split)
  show ?thesis
    using assms ext [of "b \<lparr> bk_chans := (bk_chans b)(t := (bk_chans b t)
        \<lparr> ch_queue := ch_queue (bk_chans b t) @ [x] \<rparr>) \<rparr>"] r
    by (auto simp: attempt_send_def Let_def apfst_def split: if_splits prod.splits) (metis fst_conv)+
qed

section \<open>The controller\<close>

lemma attach_peer_controller [simp]: "bk_controller (snd (attach_peer b)) = bk_controller b"
  by (simp add: attach_peer_def Let_def split: prod.split)

lemma continue_controller [simp]: "bk_controller (snd (continue_route sent k b)) = bk_controller b"
  using continue_effect [of b sent k] by (simp add: host_step_def)

lemma attempt_controller: "attempt_send t x k b = (r, b') \<Longrightarrow> bk_controller b' = bk_controller b"
proof -
  have "bk_controller (snd (attempt_send t x k b)) = bk_controller b"
    by (simp add: attempt_send_def Let_def snd_some)
  then show "attempt_send t x k b = (r, b') \<Longrightarrow> bk_controller b' = bk_controller b" by simp
qed

lemma proceed_controller: "bk_controller (proceed i c h (out, b)) = bk_controller b"
  by (auto simp: proceed_def settle_def set_reader_state_def dest: attempt_controller
      split: route_outcome.split prod.split option.split sum.split)

lemma controller_step:
  assumes "host_ok mc" and "bk_controller b = Some (Selected n)"
  shows "bk_controller (broker_step mc sd e b) = Some (Selected n)"
proof -
  have h: "host_step b b' \<Longrightarrow> bk_controller b' = Some (Selected n)" for b'
    using assms(2) by (simp add: host_step_def)
  have w: "worked i q b b' \<Longrightarrow> bk_controller b' = Some (Selected n)" for i q b'
    using assms(2) by (simp add: worked_def)
  show ?thesis
  proof (cases e)
    case (Received i msg)
    then show ?thesis
      using w [OF receive_worked [OF assms(1)]] assms(2)
      by (cases "hget (bk_readers b) i") (auto simp: reader_receive_def)
  next
    case (HostDropped sp)
    then show ?thesis
      using h [OF host_operations_step(5)] by (simp add: staged_drop_def Let_def)
  qed (use assms(2) in \<open>auto simp: attach_module_controller_def writer_step_def reader_resume_def Let_def
        attach_module_staged_def attach_def
        proceed_controller split: list.split write_outcome.split option.split reader_state.split
        intro: h hangup_step [OF assms(1)] host_operations_step\<close>)
qed

lemma controller_stepped:
  "host_ok mc \<Longrightarrow> stepped (broker_step mc sd) (\<lambda>b. bk_controller b = Some (Selected n))"
  by unfold_locales (rule controller_step)

section \<open>What becomes of a call\<close>

text \<open>
  The four ways a reader can leave a call: refused on the peer's own transport, queued (the
  call, or the bus's answer to it), waiting for room in a queue, or answered to a caller whose
  own queue is gone.
\<close>

definition answers :: "header \<Rightarrow> message \<Rightarrow> bool" where
  "answers h x \<longleftrightarrow>
     h_reply_serial (m_header x) = Some (h_serial h) \<and> h_kind (m_header x) \<in> {MethodReturn, ErrorKind}"

lemma refusal_answers: "answers h (unroutable_reply h e)"
  by (simp add: answers_def unroutable_reply_def stamp_def error_reply_def)

lemma set_state_frame [simp]:
  "bk_wire (set_reader_state i st b) = bk_wire b" "bk_chans (set_reader_state i st b) = bk_chans b"
  by (simp_all add: set_reader_state_def split: option.split)

lemma settle_frame [simp]: "bk_chans (settle c h r b) = bk_chans b"
  by (simp add: settle_def split: sum.split)

lemma continue_wire [simp]: "bk_wire (snd (continue_route sent k b)) = bk_wire b"
  using continue_effect [of b sent k] by (simp add: host_step_def)

lemma proceed_send:
  assumes "h_kind h = MethodCall"
  shows "(\<exists>e. bk_wire (proceed i c h (Sending t x k, b)) c = bk_wire b c @ [unroutable_reply h e]) \<or>
    (\<exists>xs. ch_queue (bk_chans (proceed i c h (Sending t x k, b)) t) = ch_queue (bk_chans b t) @ x # xs) \<or>
    proceed i c h (Sending t x k, b) = set_reader_state i (Suspended h t x k) b \<or>
    (\<not> ch_open (bk_chans b t) \<and> (\<exists>cs ss. k = AfterReply cs ss))"
proof -
  obtain res b' where a: "attempt_send t x k b = (res, b')" by fastforce
  consider "\<not> ch_open (bk_chans b t)" "(res, b') = apfst Some (continue_route False k b)"
    | xs where "res = Some (Inr ())" "ch_queue (bk_chans b' t) = ch_queue (bk_chans b t) @ x # xs"
    | "res = None" "b' = b"
    using attempt_outcomes [OF a] by blast
  then show ?thesis
  proof cases
    case 1
    then show ?thesis
      using a assms
      by (cases k) (auto simp: proceed_def settle_def continue_route_def)
  next
    case 2
    then show ?thesis using a by (auto simp: proceed_def)
  qed (use a in \<open>simp add: proceed_def\<close>)
qed

section \<open>Changes of ownership\<close>

lemma unique_of_self: "tables_ok r \<Longrightarrow> hget (rt_peers r) i \<noteq> None \<Longrightarrow> unique_of r i = Inr (unique_name i)"
  using tables_peer(1) [of r i] by (auto simp: unique_of_def)

lemma request_change:
  assumes "router_wf r" "hget (rt_peers r) i \<noteq> None" "request_name i n r = (res, r')"
  shows "(\<exists>e. res = Inl e \<and> r' = r) \<or>
    (\<exists>c. res = Inr c \<and> nc_name c = n \<and> nc_old_owner c = owner_of r n \<and>
       nc_new_owner c = owner_of r' n \<and> (\<forall>m. m \<noteq> n \<longrightarrow> owner_of r' m = owner_of r m))"
proof -
  note t = wf_tables [OF assms(1)]
  have u: "unique_of (r \<lparr> rt_names := ns \<rparr>) i = Inr (unique_name i)" for ns
    using unique_of_self [OF t assms(2)] by (simp add: unique_of_def)
  have o': "owner_of r' m = (if m = n \<and> \<not> is_unique n \<and> n \<noteq> BUS_NAME \<and> owner_of r n = None
      then Some (unique_name i) else owner_of r m)" for m
    using owner_request [OF assms(1,2), of n m] assms(3) by simp
  show ?thesis
  proof (cases "hget (rt_names r) n")
    case None
    then show ?thesis
      using assms(3) u [of "hput n i (rt_names r)"] o'
      by (auto simp: request_name_def Let_def owner_eq [OF t] split: if_splits)
  next
    case (Some j)
    then have "unique_of r j = Inr (unique_name j)" using unique_of_attached [OF t] by blast
    then show ?thesis
      using assms(3) Some o' by (auto simp: request_name_def owner_eq [OF t] split: if_splits)
  qed
qed

lemma release_change:
  assumes "router_wf r" "hget (rt_peers r) i \<noteq> None" "release_name i n r = (res, r')"
  shows "(\<exists>e. res = Inl e \<and> r' = r) \<or>
    (\<exists>c. res = Inr c \<and> nc_name c = n \<and> nc_old_owner c = owner_of r n \<and>
       nc_new_owner c = owner_of r' n \<and> (\<forall>m. m \<noteq> n \<longrightarrow> owner_of r' m = owner_of r m))"
proof -
  note t = wf_tables [OF assms(1)]
  have u: "unique_of (r \<lparr> rt_names := ns \<rparr>) i = Inr (unique_name i)" for ns
    using unique_of_self [OF t assms(2)] by (simp add: unique_of_def)
  have o': "owner_of r' m =
      (if m = n \<and> \<not> is_unique n \<and> owner_of r n = Some (unique_name i) then None else owner_of r m)" for m
    using owner_release [OF assms(1), of i n m] assms(3) by simp
  show ?thesis
  proof (cases "hget (rt_names r) n")
    case None
    then show ?thesis using assms(3) by (auto simp: release_name_def split: if_splits)
  next
    case (Some j)
    then have "unique_of r j = Inr (unique_name j)" using unique_of_attached [OF t] by blast
    then show ?thesis
      using assms(3) Some u [of "hdel n (rt_names r)"] o'
      by (auto simp: release_name_def Let_def owner_eq [OF t] split: if_splits)
  qed
qed

lemma peer_update_owner:
  assumes "router_wf r"
  shows "owner_of (set_manifest i m r) n = owner_of r n" "owner_of (add_match i q r) n = owner_of r n"
    "owner_of (remove_match i q r) n = owner_of r n"
  using wf_tables [OF wf_peer_updates(1) [OF assms, of i m]] wf_tables [OF wf_peer_updates(2) [OF assms, of i q]]
    wf_tables [OF wf_peer_updates(3) [OF assms, of i q]] wf_tables [OF assms]
  by (simp_all add: owner_eq set_manifest_def add_match_def remove_match_def)

definition announces :: "router \<Rightarrow> json result \<times> name_change list \<times> router \<Rightarrow> bool" where
  "announces r z \<longleftrightarrow> (case z of (res, cs, r') \<Rightarrow>
     (\<forall>n. owner_of r' n \<noteq> owner_of r n \<longleftrightarrow>
       (\<exists>c \<in> set cs. nc_name c = n \<and> nc_old_owner c \<noteq> nc_new_owner c)) \<and>
     (\<forall>c \<in> set cs. nc_old_owner c = owner_of r (nc_name c) \<and> nc_new_owner c = owner_of r' (nc_name c)) \<and>
     (\<forall>e. res = Inl e \<longrightarrow> cs = [] \<and> r' = r))"

lemma announces_if: "announces r x \<Longrightarrow> announces r y \<Longrightarrow> announces r (if c then x else y)"
  by simp

lemma announces_same: "announces r (res, [], r)"
  by (simp add: announces_def)

lemma announces_update: "(\<And>n. owner_of r' n = owner_of r n) \<Longrightarrow> announces r (Inr v, [], r')"
  by (simp add: announces_def)

lemma announces_change:
  assumes "(\<exists>e. fst z = Inl e \<and> snd z = r) \<or>
    (\<exists>c. fst z = Inr c \<and> nc_name c = n \<and> nc_old_owner c = owner_of r n \<and>
       nc_new_owner c = owner_of (snd z) n \<and> (\<forall>m. m \<noteq> n \<longrightarrow> owner_of (snd z) m = owner_of r m))"
  shows "announces r (case z of (Inl e, r') \<Rightarrow> (Inl e, [], r') | (Inr c, r') \<Rightarrow> (Inr v, [c], r'))"
  using assms by (cases z; cases "fst z") (auto simp: announces_def, metis+)

lemma table_method_announces:
  assumes "router_wf r" and "hget (rt_peers r) i \<noteq> None"
  shows "announces r (table_method sd bid i n member body r)"
proof -
  have q: "announces r (case request_name i x r of (Inl e, r') \<Rightarrow> (Inl e, [], r') | (Inr c, r') \<Rightarrow> (Inr v, [c], r'))"
    "announces r (case release_name i x r of (Inl e, r') \<Rightarrow> (Inl e, [], r') | (Inr c, r') \<Rightarrow> (Inr v, [c], r'))"
    for x v
    by (rule announces_change [where n = x], use request_change [OF assms, of x] in \<open>metis prod.collapse\<close>)
      (rule announces_change [where n = x], use release_change [OF assms, of x] in \<open>metis prod.collapse\<close>)
  show ?thesis
    unfolding table_method_def Let_def
    by (intro announces_if)
      (simp_all add: announces_same announces_update peer_update_owner [OF assms(1)] q split: sum.split)
qed

section \<open>Sample brokers\<close>

text \<open>A host that refuses every request, and decoders that accept nothing.\<close>

definition null_host :: "unit module_control" where
  "null_host = \<lparr> mc_list = (\<lambda>_. []), mc_load = (\<lambda>_ _ b. (Inl (failed ''no''), b)),
     mc_load_github = (\<lambda>_ _ _ _ b. (Inl (failed ''no''), b)), mc_stop = (\<lambda>_ _ b. (Inl (failed ''no''), b)),
     mc_reinitialize = (\<lambda>_ _ b. (Inl (failed ''no''), b)), mc_enable = (\<lambda>_ _ b. (Inl (failed ''no''), b)),
     mc_rescan = (\<lambda>_ _ b. (Inl (failed ''no''), b)), mc_peer_detached = (\<lambda>_ b. (None, b)),
     mc_unavailable_for = (\<lambda>_ _. None) \<rparr>"

definition null_serde :: serde where
  "null_serde = \<lparr> de_manifest = (\<lambda>_. None), se_manifest = (\<lambda>_. JNull), de_error = (\<lambda>_. ''bad'') \<rparr>"

lemma null_host_ok: "host_ok null_host"
  by (simp add: host_ok_def null_host_def)

text \<open>A broker with two attached peers.\<close>

definition pair :: "unit broker" where
  "pair = broker_run null_host null_serde [PeerAttached, PeerAttached] (broker_new ''id'' idle_cells)"

lemma pair_eq:
  "pair = (broker_new ''id'' idle_cells)
     \<lparr> bk_router := (router_default idle_cells) \<lparr> rt_next_id := 2,
         rt_peers := [(1, plain_peer 1 0), (2, plain_peer 2 1)],
         rt_names := [(unique_name 1, 1), (unique_name 2, 2)] \<rparr>,
       bk_chans := (\<lambda>_. \<lparr> ch_queue = [], ch_open = False \<rparr>)
         (0 := \<lparr> ch_queue = [], ch_open = True \<rparr>, 1 := \<lparr> ch_queue = [], ch_open = True \<rparr>),
       bk_next_chan := 2,
       bk_readers := [(1, \<lparr> rd_name = unique_name 1, rd_chan = 0, rd_state = Idle \<rparr>),
                      (2, \<lparr> rd_name = unique_name 2, rd_chan = 1, rd_state = Idle \<rparr>)] \<rparr>"
  by (simp add: pair_def broker_run_def broker_new_def router_default_def attach_peer_def attach_def
      Let_def plain_peer_def)

definition call_second :: message where
  "call_second = method_call (unique_name 2) (ObjectPath ''/a'') (InterfaceName ''ai.M'')
     (MemberName ''Do'') (JArray [])"

lemma call_second_valid [simp]: "validate call_second = Inr ()"
  by (simp add: validate_cases call_second_def well_formed_def private_shape_def message_builders)

lemma call_second_header [simp]:
  "h_kind (m_header call_second) = MethodCall" "h_destination (m_header call_second) = Some (unique_name 2)"
  "\<not> h_confidential (m_header call_second)" "\<not> h_sensitive (m_header call_second)"
  "h_expected_responder (m_header call_second) = None"
  by (simp_all add: call_second_def message_builders)

lemma pair_route:
  "route null_host null_serde 1 (unique_name 1) call_second pair =
     (Sending 1 (stamp (unique_name 1) call_second) (Forward (unique_name 2)), pair)"
  by (simp add: route_def Let_def pair_eq route_to_peer_def resolve_call_from_def resolve_call_def
      resolve_def ensure_peer_attached_def plain_peer_def unavailable_def broker_new_def)

lemma pair_received:
  "ch_queue (bk_chans (broker_step null_host null_serde (Received 1 call_second) pair) 1) =
     [stamp (unique_name 1) call_second]"
proof -
  have "reader_receive null_host null_serde 1 call_second pair =
      proceed 1 0 (m_header call_second)
        (Sending 1 (stamp (unique_name 1) call_second) (Forward (unique_name 2)), pair)"
    using pair_route by (simp add: reader_receive_def pair_eq)
  then show ?thesis
    by (simp add: proceed_def attempt_send_def continue_route_def Let_def settle_def set_reader_state_def
        pair_eq PEER_QUEUE_CAPACITY_def split: option.split)
qed

section \<open>Properties\<close>

text \<open>
  C1. Authenticity: whatever any peer has received or has waiting in its queue, after any
  sequence of attachments, messages, hang-ups, writes and host operations, was made by the bus
  or is exactly what some peer sent, carrying that peer's own unique name as its sender: no
  peer can speak under another's name, whatever sender it wrote in its message.
\<close>

theorem deliveries_are_authentic:
  assumes "host_ok mc" and "b = broker_run mc sd evs (broker_new bid cells)"
    and "x \<in> set (bk_wire b c) \<union> set (ch_queue (bk_chans b c))"
  shows "h_sender (m_header x) = Some BUS_NAME \<or>
    (h_sender (m_header x) = None \<and> h_kind (m_header x) \<in> {MethodReturn, ErrorKind}) \<or>
    (\<exists>i msg. Received i msg \<in> set evs \<and> x = stamp (unique_name i) msg)"
proof -
  have "mail_ok (set evs) b"
    using broker_inv_run [OF assms(1) inv_new] assms(2) by (simp add: broker_inv_def)
  then have "authentic (set evs) x" using assms(3) by (auto simp: mail_ok_def list_all_iff)
  then show ?thesis by (auto simp: authentic_def from_bus_def)
qed

theorem deliveries_are_authentic_witness:
  "h_sender (m_header (stamp (unique_name 1) call_second)) = Some (unique_name 1) \<and>
   (\<exists>i msg. Received i msg \<in> set [PeerAttached, PeerAttached, Received 1 call_second :: unit event] \<and>
      stamp (unique_name 1) call_second = stamp (unique_name i) msg)"
proof -
  have b: "broker_step null_host null_serde (Received 1 call_second) pair =
      broker_run null_host null_serde [PeerAttached, PeerAttached, Received 1 call_second]
        (broker_new ''id'' idle_cells)"
    by (simp add: pair_def broker_run_def)
  show ?thesis
    using deliveries_are_authentic [OF null_host_ok b, of "stamp (unique_name 1) call_second" 1]
    unfolding pair_received by simp
qed

text \<open>
  C6. The broker's own state stays sound under every sequence of events: the routing table is
  well formed, no peer's queue ever exceeds its 256 messages, and every running reader speaks
  for the unique name of its own peer.
\<close>

theorem broker_stays_sound:
  assumes "host_ok mc" and "b = broker_run mc sd evs (broker_new bid cells)"
  shows "router_wf (bk_router b) \<and> (\<forall>c. length (ch_queue (bk_chans b c)) \<le> 256) \<and>
    (\<forall>i rd. hget (bk_readers b) i = Some rd \<longrightarrow> rd_name rd = unique_name i)"
  using broker_inv_run [OF assms(1) inv_new, of evs sd bid cells] assms(2)
  by (simp add: broker_inv_def mail_ok_def readers_ok_def PEER_QUEUE_CAPACITY_def)

theorem broker_stays_sound_witness:
  "router_wf (bk_router pair) \<and> rd_name \<lparr> rd_name = unique_name 2, rd_chan = 1, rd_state = Idle \<rparr> = unique_name 2"
proof -
  have "hget (bk_readers pair) 2 = Some \<lparr> rd_name = unique_name 2, rd_chan = 1, rd_state = Idle \<rparr>"
    by (simp add: pair_eq)
  then show ?thesis using broker_stays_sound [OF null_host_ok pair_def] by blast
qed

text \<open>
  C3. A confidential call is delivered to its attested recipient or refused: routing one either
  ends in an error and leaves the broker as it was, or hands the stamped call, unchanged
  otherwise, to exactly one outbox, that of the current owner of the destination, which is not
  the bus and is attested for that destination or covered by an active callback capability.
\<close>

theorem confidential_calls_reach_the_attested:
  assumes "route mc sd i n msg b = (out, b')"
    and "h_kind (m_header msg) = MethodCall" "h_confidential (m_header msg)"
  shows "b' = b \<and>
    ((\<exists>e. out = Finished (Inl e)) \<or>
     (\<exists>d t j p. h_destination (m_header msg) = Some d \<and> d \<noteq> BUS_NAME \<and>
        out = Sending t (stamp n msg) (Forward d) \<and>
        hget (rt_names (bk_router b)) d = Some j \<and> hget (rt_peers (bk_router b)) j = Some p \<and>
        p_outbox p = t \<and>
        (attestation_of (bk_router b) d \<noteq> None \<or>
         (is_unique d \<and>
          (\<exists>a \<in> set (rt_host_callbacks (bk_router b)). cb_active (rt_cells (bk_router b) a) \<and>
             cb_module (rt_cells (bk_router b) a) = Some n \<and>
             cb_destination (rt_cells (bk_router b) a) = d)))))"
proof -
  consider e where "out = Finished (Inl e)" "b' = b"
    | d where "h_destination (m_header msg) = Some d" "d \<noteq> BUS_NAME" "b' = b"
        "out = route_to_peer mc i n d (stamp n msg) b"
    using route_addressed [OF assms(1)] assms(2,3) by auto
  then show ?thesis
  proof cases
    case (2 d)
    consider e where "out = Finished (Inl e)"
      | t where "out = Sending t (stamp n msg) (Forward d)"
          "resolve_call (bk_router b) d (h_expected_responder (m_header msg)) True (m_header (stamp n msg)) = Inr t"
      using peer_call_outcome [of mc i n d "stamp n msg" b] assms(2,3) 2(4) by auto
    then show ?thesis
    proof cases
      case (2 t)
      note got = resolve_call_confidential [OF 2(2)]
      show ?thesis
        using got 2(1) \<open>h_destination (m_header msg) = Some d\<close> \<open>d \<noteq> BUS_NAME\<close> \<open>b' = b\<close>
        by (auto simp: Let_def)
    qed (use 2(3) in blast)
  qed simp
qed

definition secret_call :: message where
  "secret_call = confidential_call (unique_name 2) (ObjectPath ''/a'') (InterfaceName ''ai.M'')
     (MemberName ''Do'') (JArray [])"

theorem confidential_calls_reach_the_attested_witness:
  "\<exists>e. route null_host null_serde 1 (unique_name 1) secret_call pair = (Finished (Inl e), pair)"
proof -
  obtain out b' where r: "route null_host null_serde 1 (unique_name 1) secret_call pair = (out, b')"
    by fastforce
  have "attestation_of (bk_router pair) (unique_name 2) = None" "rt_host_callbacks (bk_router pair) = []"
    by (simp_all add: pair_eq attestation_of_def plain_peer_def router_default_def)
  then show ?thesis
    using confidential_calls_reach_the_attested [OF r] r
    by (simp add: secret_call_def confidential_call_def method_call_def)
qed

text \<open>
  C39. The module-control gate: while a restricted broker's controller is anyone else (or nobody
  yet), a peer's call, or reply, addressed to the bus with a member that changes modules does
  nothing: the broker and the host behind it are untouched, and the peer gets the denial, or an
  error if its message never passed ingress.
\<close>

theorem module_control_is_gated:
  assumes "bk_controller b = Some k" and "k \<noteq> Selected n"
    and "h_kind (m_header msg) \<noteq> Signal" "h_kind (m_header msg) \<noteq> DirectedSignal"
    and "h_destination (m_header msg) = Some BUS_NAME"
    and "h_member (m_header msg) = Some m" "module_member_of (member_str m) = Some op"
    and "\<not> is_inspection op"
  shows "(\<exists>e. route mc sd i n msg b = (Finished (Inl e), b)) \<or>
    (\<exists>t e. route mc sd i n msg b =
       (Sending t (error_reply (m_header (stamp n msg)) e) (AfterReply [] []), b) \<and>
       (ensure_peer_attached (bk_router b) i n = Inr () \<longrightarrow> e = module_control_denied))"
proof -
  obtain out b' where r: "route mc sd i n msg b = (out, b')" by fastforce
  consider e where "out = Finished (Inl e)" "b' = b"
    | "handle_bus_call mc sd i n (stamp n msg) b = (out, b')"
    using route_addressed [OF r assms(3,4)] assms(5) by auto
  then show ?thesis
  proof cases
    case 2
    have "module_method mc sd n m (m_body msg) b = (Some (Inl module_control_denied, []), b)"
      using assms by (simp add: module_method_def control_admits_def)
    then have "bus_method mc sd i n m (m_body msg) b =
        ((Inl (case ensure_peer_attached (bk_router b) i n of Inl e \<Rightarrow> e
               | Inr _ \<Rightarrow> module_control_denied), [], []), b)"
      by (simp add: bus_method_def split: sum.split)
    then show ?thesis
      using 2 r assms(6)
      by (cases "ensure_peer_attached (bk_router b) i n")
        (auto simp: handle_bus_call_def Let_def error_reply_def split: sum.splits)
  qed (use r in blast)
qed

definition load_call :: message where
  "load_call = method_call BUS_NAME BUS_PATH BUS_INTERFACE (MemberName ''LoadModule'')
     (JArray [JString ''/m.so''])"

definition restricted_pair :: "unit broker" where
  "restricted_pair = pair \<lparr> bk_controller := Some (Selected (unique_name 2)) \<rparr>"

theorem module_control_is_gated_witness:
  "snd (route null_host null_serde 1 (unique_name 1) load_call restricted_pair) = restricted_pair"
proof -
  have "h_kind (m_header load_call) = MethodCall" "h_destination (m_header load_call) = Some BUS_NAME"
    "h_member (m_header load_call) = Some (MemberName ''LoadModule'')"
    "module_member_of (member_str (MemberName ''LoadModule'')) = Some ModLoad"
    "bk_controller restricted_pair = Some (Selected (unique_name 2))"
    by (simp_all add: load_call_def method_call_def module_member_of_def restricted_pair_def)
  then show ?thesis
    using module_control_is_gated [of restricted_pair "Selected (unique_name 2)" "unique_name 1"
        load_call "MemberName ''LoadModule''" ModLoad null_host null_serde 1]
    by (auto simp: is_inspection_def)
qed

text \<open>
  The controller is chosen once: the first controller connection of a restricted broker is
  selected, live, and attached under a fresh unique name; from then on no sequence of events, not
  even the controller's own death, unbinds it or selects another, and every later request to
  attach a controller is denied and changes nothing.
\<close>


theorem controller_selected_once:
  assumes "host_ok mc" and "bk_controller b = Some (Selected n)" and "b' = broker_run mc sd evs b"
  shows "bk_controller b' = Some (Selected n) \<and>
    attach_module_controller b' = (Inl module_control_denied, b') \<and>
    restricted_module_controller_binding b' = (if has_unique_peer (bk_router b') n then Some n else None)"
proof -
  have "bk_controller b' = Some (Selected n)"
    using stepped.inv_run [OF controller_stepped [OF assms(1)] assms(2)] assms(3)
    by (simp add: broker_run_def)
  then show ?thesis
    by (simp add: attach_module_controller_def restricted_module_controller_binding_def)
qed

theorem controller_selected_once_witness:
  "fst (attach_module_controller (broker_run null_host null_serde [HungUp 2, PeerAttached] restricted_pair))
     = Inl module_control_denied"
proof -
  have "bk_controller restricted_pair = Some (Selected (unique_name 2))"
    by (simp add: restricted_pair_def)
  from controller_selected_once [OF null_host_ok this refl] show ?thesis by simp
qed

text \<open>
  The first controller connection of a restricted broker is selected and live, under the
  fresh unique name it was attached with; an unrestricted broker never selects one.
\<close>

theorem first_controller_is_selected:
  assumes "rt_next_id (bk_router b) + 1 < 2 ^ 64"
  shows "(bk_controller b = Some Unselected \<longrightarrow>
      (let n = unique_name (rt_next_id (bk_router b) + 1); b' = snd (attach_module_controller b) in
       fst (attach_module_controller b) = Inr n \<and> binding_is_live n b' \<and>
       restricted_module_controller_binding b' = Some n \<and>
       (\<forall>op. control_admits b' n op) \<and>
       (\<forall>op u. u \<noteq> n \<longrightarrow> control_admits b' u op = is_inspection op))) \<and>
    (bk_controller b = None \<longrightarrow> attach_module_controller b = (Inl module_control_denied, b))"
proof -
  let ?n = "unique_name (rt_next_id (bk_router b) + 1)"
  let ?b = "b \<lparr> bk_controller := Some Attaching \<rparr>"
  have n: "fst (attach_peer ?b) = ?n"
    using assms by (simp add: attach_peer_def attach_def Let_def)
  have l: "has_unique_peer (bk_router (snd (attach_peer ?b))) ?n"
    using assms by (simp add: attach_peer_def attach_def Let_def has_unique_peer_def table_simps)
  have "attach_module_controller b = (Inr ?n, (snd (attach_peer ?b)) \<lparr> bk_controller := Some (Selected ?n) \<rparr>)"
    if "bk_controller b = Some Unselected"
    using that n
    by (cases "attach_peer ?b") (simp add: attach_module_controller_def)
  then show ?thesis
    using l by (auto simp: Let_def binding_is_live_def restricted_module_controller_binding_def
        control_admits_def attach_module_controller_def)
qed

theorem first_controller_is_selected_witness:
  "fst (attach_module_controller (new_restricted_module_control ''id'' idle_cells :: unit broker))
     = Inr (unique_name 1)"
  using first_controller_is_selected [of "new_restricted_module_control ''id'' idle_cells :: unit broker"]
  by (simp add: new_restricted_module_control_def broker_new_def router_default_def Let_def)





end
