(* ===== verification/Streams.thy ===== *)
theory Streams
  imports Messages Base64
begin

text \<open>
  Bulk streams (\<open>stream/mod.rs\<close>): the registry of the streams a connection receives, with its
  four calls, the flow-controlled write, the reading half, and the sender's \<open>StreamWriter\<close>.

  An \<open>Arc<Inbound>\<close> is an address into \<open>sr_cells\<close>. A chunk write is a task of its own: it may wait
  for the stream's gate (\<open>sr_waiting\<close>) and then, holding the gate, for room in the reader's window
  (\<open>in_gate\<close> is the write that holds it across that await). An \<open>Instant\<close> is a number of
  milliseconds the caller supplies. The decoding of a descriptor and the texts of serde's errors
  are arguments (\<open>stream_serde\<close>).
\<close>

definition STREAM_INTERFACE :: string where
  "STREAM_INTERFACE = ''ai.tinyhumans.tinybus.Stream''"

definition STREAM_PATH :: string where
  "STREAM_PATH = ''/ai/tinyhumans/tinybus/Stream''"

definition MAX_CHUNK_LEN :: nat where
  "MAX_CHUNK_LEN = 512 * 1024"

record stream_limits =
  sl_max_len :: nat
  sl_max_streams :: nat
  sl_window :: nat
  sl_idle :: nat

definition default_limits :: stream_limits where
  "default_limits =
     \<lparr> sl_max_len = 256 * 1024 * 1024, sl_max_streams = 4, sl_window = 8, sl_idle = 60000 \<rparr>"

record stream_ref =
  sf_id :: string
  sf_content_type :: "string option"
  sf_len :: "nat option"

record stream_descriptor =
  sd_content_type :: "string option"
  sd_total_len :: "nat option"

definition with_len :: "nat \<Rightarrow> stream_descriptor" where
  "with_len n = \<lparr> sd_content_type = None, sd_total_len = Some n \<rparr>"

record stream_serde =
  ss_descriptor :: "json \<Rightarrow> stream_descriptor option"
  ss_error :: "json \<Rightarrow> string"

section \<open>One stream\<close>

datatype outcome = Complete | Aborted string

datatype reader_half = Unclaimed | Claimed | Gone

record chunk_write =
  cw_id :: string
  cw_cell :: nat
  cw_seq :: nat
  cw_chunk :: bytes
  cw_max_len :: nat

record inbound =
  in_owner :: "bus_name option"
  in_content_type :: "string option"
  in_declared :: "nat option"
  in_gate :: "chunk_write option"
  in_next_seq :: nat
  in_received :: nat
  in_chunks :: bool
  in_window :: nat
  in_queue :: "bytes list"
  in_reader :: reader_half
  in_outcome :: "outcome option"
  in_aborted :: bool
  in_last :: nat

fun is_abort :: "outcome \<Rightarrow> bool" where
  "is_abort Complete = False"
| "is_abort (Aborted _) = True"

definition finish :: "outcome \<Rightarrow> inbound \<Rightarrow> inbound" where
  "finish out s =
     (if in_outcome s = None
      then s \<lparr> in_outcome := Some out, in_aborted := (in_aborted s \<or> is_abort out) \<rparr>
      else s)"

definition seal :: "inbound \<Rightarrow> inbound" where
  "seal s = s \<lparr> in_chunks := False \<rparr>"

definition touch :: "nat \<Rightarrow> inbound \<Rightarrow> inbound" where
  "touch now s = s \<lparr> in_last := now \<rparr>"

definition idle_for :: "nat \<Rightarrow> inbound \<Rightarrow> nat" where
  "idle_for now s = now - in_last s"

text \<open>\<open>drop(stream.reader.lock().take())\<close>: an unclaimed reading half goes, with its buffer.\<close>

definition drop_unclaimed :: "inbound \<Rightarrow> inbound" where
  "drop_unclaimed s =
     (if in_reader s = Unclaimed then s \<lparr> in_reader := Gone, in_queue := [] \<rparr> else s)"

section \<open>The registry\<close>

record registry =
  sr_limits :: stream_limits
  sr_inbound :: "(string, nat) hashmap"
  sr_next_id :: nat
  sr_cells :: "nat \<Rightarrow> inbound"
  sr_used :: nat
  sr_waiting :: "chunk_write list"

definition set_cell :: "nat \<Rightarrow> (inbound \<Rightarrow> inbound) \<Rightarrow> registry \<Rightarrow> registry" where
  "set_cell a f reg = reg \<lparr> sr_cells := (sr_cells reg)(a := f (sr_cells reg a)) \<rparr>"

definition registry_new :: "(nat \<Rightarrow> inbound) \<Rightarrow> registry" where
  "registry_new cells =
     \<lparr> sr_limits = default_limits, sr_inbound = [], sr_next_id = 1, sr_cells = cells, sr_used = 0,
        sr_waiting = [] \<rparr>"

definition set_limits :: "stream_limits \<Rightarrow> registry \<Rightarrow> registry" where
  "set_limits l reg = reg \<lparr> sr_limits := l \<rparr>"

definition stream_handles :: "header \<Rightarrow> bool" where
  "stream_handles h \<longleftrightarrow>
     (case h_interface h of None \<Rightarrow> False | Some i \<Rightarrow> iface_str i = STREAM_INTERFACE) \<and>
     (case h_path h of None \<Rightarrow> False | Some p \<Rightarrow> path_str p = STREAM_PATH)"

definition lookup :: "string \<Rightarrow> header \<Rightarrow> registry \<Rightarrow> nat result" where
  "lookup sid h reg =
     (case hget (sr_inbound reg) sid of
        None \<Rightarrow> Inl (UnknownStream sid)
      | Some a \<Rightarrow>
          if in_owner (sr_cells reg a) \<noteq> h_sender h then Inl (UnknownStream sid) else Inr a)"

definition kill :: "string \<Rightarrow> nat \<Rightarrow> string \<Rightarrow> registry \<Rightarrow> registry" where
  "kill sid a reason reg =
     set_cell a (\<lambda>s. drop_unclaimed (seal (finish (Aborted reason) s)))
       (reg \<lparr> sr_inbound := hdel sid (sr_inbound reg) \<rparr>)"

section \<open>Open\<close>

definition reap :: "nat \<Rightarrow> registry \<Rightarrow> registry" where
  "reap now reg =
     (let idle = (\<lambda>a. \<not> idle_for now (sr_cells reg a) < sl_idle (sr_limits reg));
          dead = filter (\<lambda>(_, a). idle a) (sr_inbound reg) in
      reg \<lparr> sr_inbound := filter (\<lambda>(_, a). \<not> idle a) (sr_inbound reg),
            sr_cells := (\<lambda>a. if a \<in> set (map snd dead)
               then drop_unclaimed (seal (finish (Aborted ''the stream went idle and was reaped'') (sr_cells reg a)))
               else sr_cells reg a) \<rparr>)"

definition owned_streams :: "bus_name option \<Rightarrow> bool \<Rightarrow> registry \<Rightarrow> (string \<times> nat) list" where
  "owned_streams ow live reg =
     filter (\<lambda>(_, a). in_owner (sr_cells reg a) = ow \<and> in_chunks (sr_cells reg a) = live) (sr_inbound reg)"

definition evict :: "string \<times> nat \<Rightarrow> registry \<Rightarrow> registry" where
  "evict e reg =
     set_cell (snd e) (finish (Aborted ''the receiver never collected the stream''))
       (reg \<lparr> sr_inbound := hdel (fst e) (sr_inbound reg) \<rparr>)"

text \<open>The closed streams to evict: the oldest ones beyond the cap.\<close>

definition uncollected :: "bus_name option \<Rightarrow> registry \<Rightarrow> (string \<times> nat) list" where
  "uncollected ow reg =
     (let sealed = owned_streams ow False reg; cap = sl_max_streams (sr_limits reg) in
      if length sealed \<ge> cap
      then take (length sealed + 1 - cap) (sort_key (\<lambda>(_, a). in_last (sr_cells reg a)) sealed)
      else [])"

definition inbound_new :: "header \<Rightarrow> stream_descriptor \<Rightarrow> nat \<Rightarrow> stream_limits \<Rightarrow> inbound" where
  "inbound_new h d now l =
     \<lparr> in_owner = h_sender h, in_content_type = sd_content_type d, in_declared = sd_total_len d,
        in_gate = None, in_next_seq = 0, in_received = 0, in_chunks = True,
        in_window = max (sl_window l) 1, in_queue = [], in_reader = Unclaimed, in_outcome = None,
        in_aborted = False, in_last = now \<rparr>"

definition stream_id :: "nat \<Rightarrow> string" where
  "stream_id n = CHR ''s'' # show_nat n"

definition open_stream ::
  "stream_serde \<Rightarrow> nat \<Rightarrow> header \<Rightarrow> member_name \<Rightarrow> json \<Rightarrow> registry \<Rightarrow> json result \<times> registry" where
  "open_stream ss now h member body reg =
     (case (case body of JArray [v] \<Rightarrow> ss_descriptor ss v | _ \<Rightarrow> None) of
        None \<Rightarrow> (Inl (bad_arguments member (ss_error ss body)), reg)
      | Some d \<Rightarrow>
          (let l = sr_limits reg in
           if (case sd_total_len d of None \<Rightarrow> False | Some n \<Rightarrow> n > sl_max_len l)
           then (Inl (StreamTooLarge (sl_max_len l)), reg)
           else
             (let sid = stream_id (sr_next_id reg);
                  r0 = reap now (reg \<lparr> sr_next_id := u64_add (sr_next_id reg) 1 \<rparr>) in
              if length (owned_streams (h_sender h) True r0) \<ge> sl_max_streams l
              then (Inl (TooManyStreams (sl_max_streams l)), r0)
              else
                (let r1 = fold evict (uncollected (h_sender h) r0) r0; a = sr_used r1 in
                 (Inr (JString sid),
                  r1 \<lparr> sr_inbound := hput sid a (sr_inbound r1), sr_used := a + 1,
                       sr_cells := (sr_cells r1)(a := inbound_new h d now l) \<rparr>)))))"

section \<open>Write\<close>

datatype write_phase = Replied "json result" | AtGate | AtWindow

text \<open>A write that has the gate: the checks, the counters, then the send into the window.\<close>

definition write_enter :: "nat \<Rightarrow> chunk_write \<Rightarrow> registry \<Rightarrow> write_phase \<times> registry" where
  "write_enter now w reg =
     (let a = cw_cell w; s = sr_cells reg a in
      if \<not> in_chunks s then
        (Replied (Inl (StreamAborted ''the stream is already closed'')), reg)
      else if cw_seq w \<noteq> in_next_seq s then
        (Replied (Inl (Protocol ''stream chunk arrived out of order'')),
         kill (cw_id w) a ''the sender wrote chunks out of order'' reg)
      else
        (let received = u64_add (in_received s) (length (cw_chunk w)) in
         if received > cw_max_len w \<or>
            (case in_declared s of None \<Rightarrow> False | Some tot \<Rightarrow> received > tot) then
           (Replied (Inl (StreamTooLarge (cw_max_len w))),
            kill (cw_id w) a ''the sender exceeded the length it may write'' reg)
         else
           (let r1 = set_cell a (\<lambda>s. touch now (s \<lparr> in_next_seq := u64_add (in_next_seq s) 1,
                                                   in_received := received \<rparr>)) reg in
            if in_aborted s then
              (Replied (Inl (StreamAborted ''the sender aborted the stream'')), r1)
            else if in_reader s = Gone then
              (Replied (Inl (StreamAborted ''the receiver stopped reading'')),
               kill (cw_id w) a ''the receiver stopped reading'' r1)
            else if length (in_queue s) < in_window s then
              (Replied (Inr JNull),
               set_cell a (\<lambda>s. touch now (s \<lparr> in_queue := in_queue s @ [cw_chunk w] \<rparr>)) r1)
            else (AtWindow, set_cell a (\<lambda>s. s \<lparr> in_gate := Some w \<rparr>) r1))))"

text \<open>A write parked on the window is woken: by an abort first, by a vanished reader, by room.\<close>

definition write_resume :: "nat \<Rightarrow> nat \<Rightarrow> registry \<Rightarrow> write_phase \<times> registry" where
  "write_resume now a reg =
     (let s = sr_cells reg a; r1 = set_cell a (\<lambda>s. s \<lparr> in_gate := None \<rparr>) reg in
      case in_gate s of
        None \<Rightarrow> (AtWindow, reg)
      | Some w \<Rightarrow>
          if in_aborted s then (Replied (Inl (StreamAborted ''the sender aborted the stream'')), r1)
          else if in_reader s = Gone then
            (Replied (Inl (StreamAborted ''the receiver stopped reading'')),
             kill (cw_id w) a ''the receiver stopped reading'' r1)
          else if length (in_queue s) < in_window s then
            (Replied (Inr JNull),
             set_cell a (\<lambda>s. touch now (s \<lparr> in_queue := in_queue s @ [cw_chunk w] \<rparr>)) r1)
          else (AtWindow, reg))"

text \<open>The next write waiting at a stream's gate, in its turn.\<close>

definition write_turn :: "nat \<Rightarrow> nat \<Rightarrow> registry \<Rightarrow> write_phase \<times> registry" where
  "write_turn now a reg =
     (case find (\<lambda>w. cw_cell w = a) (sr_waiting reg) of
        None \<Rightarrow> (AtGate, reg)
      | Some w \<Rightarrow>
          if in_gate (sr_cells reg a) \<noteq> None then (AtGate, reg)
          else write_enter now w (reg \<lparr> sr_waiting := remove1 w (sr_waiting reg) \<rparr>))"

definition write_call ::
  "stream_serde \<Rightarrow> nat \<Rightarrow> header \<Rightarrow> member_name \<Rightarrow> json \<Rightarrow> registry \<Rightarrow> write_phase \<times> registry" where
  "write_call ss now h member body reg =
     (let bad = (Replied (Inl (bad_arguments member (ss_error ss body))), reg) in
      case body of
        JArray [JString sid, n, JString data] \<Rightarrow>
          (case json_u64 n of
             None \<Rightarrow> bad
           | Some seq \<Rightarrow>
               (case lookup sid h reg of
                  Inl e \<Rightarrow> (Replied (Inl e), reg)
                | Inr a \<Rightarrow>
                    (case b64_decode data of
                       Inl e \<Rightarrow> (Replied (Inl e), reg)
                     | Inr chunk \<Rightarrow>
                         if length chunk > MAX_CHUNK_LEN then
                           (Replied (Inl (Protocol (''chunk of '' @ show_nat (length chunk) @
                              '' bytes exceeds the '' @ show_nat MAX_CHUNK_LEN @ ''-byte cap''))),
                            kill sid a ''the sender exceeded the chunk cap'' reg)
                         else
                           (let w = \<lparr> cw_id = sid, cw_cell = a, cw_seq = seq, cw_chunk = chunk,
                                      cw_max_len = sl_max_len (sr_limits reg) \<rparr> in
                            if in_gate (sr_cells reg a) \<noteq> None \<or>
                               (\<exists>v \<in> set (sr_waiting reg). cw_cell v = a)
                            then (AtGate, reg \<lparr> sr_waiting := sr_waiting reg @ [w] \<rparr>)
                            else write_enter now w reg))))
      | _ \<Rightarrow> bad)"

section \<open>Close and Abort\<close>

definition close_stream ::
  "stream_serde \<Rightarrow> nat \<Rightarrow> header \<Rightarrow> member_name \<Rightarrow> json \<Rightarrow> registry \<Rightarrow> json result \<times> registry" where
  "close_stream ss now h member body reg =
     (let bad = (Inl (bad_arguments member (ss_error ss body)), reg) in
      case body of
        JArray [JString sid, n] \<Rightarrow>
          (case json_u64 n of
             None \<Rightarrow> bad
           | Some tot \<Rightarrow>
               (case lookup sid h reg of
                  Inl e \<Rightarrow> (Inl e, reg)
                | Inr a \<Rightarrow>
                    (let received = in_received (sr_cells reg a);
                         verdict = (if received \<noteq> tot
                           then Aborted ''the sender closed a truncated stream'' else Complete);
                         r1 = set_cell a (\<lambda>s. seal (finish verdict (touch now s))) reg in
                     if received \<noteq> tot
                     then (Inl (Protocol (''stream closed after '' @ show_nat received @ '' bytes, '' @
                             show_nat tot @ '' declared'')), r1)
                     else (Inr JNull, r1))))
      | _ \<Rightarrow> bad)"

definition abort_stream ::
  "stream_serde \<Rightarrow> nat \<Rightarrow> header \<Rightarrow> member_name \<Rightarrow> json \<Rightarrow> registry \<Rightarrow> json result \<times> registry" where
  "abort_stream ss now h member body reg =
     (case body of
        JArray [JString sid] \<Rightarrow>
          (case lookup sid h reg of
             Inl e \<Rightarrow> (Inl e, reg)
           | Inr a \<Rightarrow>
               (let r1 = set_cell a
                      (\<lambda>s. seal (touch now (finish (Aborted ''the sender aborted the stream'') s))) reg in
                (Inr JNull,
                 if in_reader (sr_cells reg a) \<noteq> Unclaimed
                 then r1 \<lparr> sr_inbound := hdel sid (sr_inbound r1) \<rparr> else r1)))
      | _ \<Rightarrow> (Inl (bad_arguments member (ss_error ss body)), reg))"

definition stream_dispatch ::
  "stream_serde \<Rightarrow> nat \<Rightarrow> header \<Rightarrow> json \<Rightarrow> registry \<Rightarrow> write_phase \<times> registry" where
  "stream_dispatch ss now h body reg =
     (case h_member h of
        None \<Rightarrow> (Replied (Inl (Protocol ''stream call is missing a member'')), reg)
      | Some member \<Rightarrow>
          (let m = member_str member in
           if m = ''Open'' then apfst Replied (open_stream ss now h member body reg)
           else if m = ''Write'' then write_call ss now h member body reg
           else if m = ''Close'' then apfst Replied (close_stream ss now h member body reg)
           else if m = ''Abort'' then apfst Replied (abort_stream ss now h member body reg)
           else (Replied (Inl (UnknownMethod (case h_interface h of Some i \<Rightarrow> i
                    | None \<Rightarrow> InterfaceName STREAM_INTERFACE) member)), reg)))"

section \<open>The reading half\<close>

record stream_reader =
  rr_cell :: nat
  rr_content_type :: "string option"
  rr_declared :: "nat option"
  rr_idle :: nat

definition take_reader_inner ::
  "string \<Rightarrow> bus_name option option \<Rightarrow> registry \<Rightarrow> stream_reader result \<times> registry" where
  "take_reader_inner sid expected reg =
     (case hget (sr_inbound reg) sid of
        None \<Rightarrow> (Inl (UnknownStream sid), reg)
      | Some a \<Rightarrow>
          (let s = sr_cells reg a in
           if (case expected of None \<Rightarrow> False | Some ow \<Rightarrow> in_owner s \<noteq> ow) then
             (Inl (Protocol ''a streamed reply handle belongs to another peer''), reg)
           else
             (let r1 = (if \<not> in_chunks s then reg \<lparr> sr_inbound := hdel sid (sr_inbound reg) \<rparr> else reg) in
              if in_reader s \<noteq> Unclaimed then
                (Inl (StreamAborted ''the stream is already being read''), r1)
              else
                (Inr \<lparr> rr_cell = a, rr_content_type = in_content_type s, rr_declared = in_declared s,
                       rr_idle = sl_idle (sr_limits reg) \<rparr>,
                 set_cell a (\<lambda>s. s \<lparr> in_reader := Claimed \<rparr>) r1))))"

definition take_reader :: "string \<Rightarrow> registry \<Rightarrow> stream_reader result \<times> registry" where
  "take_reader sid = take_reader_inner sid None"

definition take_reader_from ::
  "string \<Rightarrow> bus_name option \<Rightarrow> registry \<Rightarrow> stream_reader result \<times> registry" where
  "take_reader_from sid ow = take_reader_inner sid (Some ow)"

definition take_reader_opened_by ::
  "string \<Rightarrow> bus_name \<Rightarrow> registry \<Rightarrow> stream_reader result \<times> registry" where
  "take_reader_opened_by sid opener reg =
     (if (case hget (sr_inbound reg) sid of
            None \<Rightarrow> False | Some a \<Rightarrow> in_owner (sr_cells reg a) = Some opener)
      then take_reader_inner sid None reg
      else (Inl (UnknownStream sid), reg))"

datatype read_outcome = ReadChunk bytes | ReadEnd | ReadFailed error | ReadPending

definition next_chunk :: "nat \<Rightarrow> registry \<Rightarrow> read_outcome \<times> registry" where
  "next_chunk a reg =
     (let s = sr_cells reg a in
      case in_queue s of
        c # cs \<Rightarrow> (ReadChunk c, set_cell a (\<lambda>s. s \<lparr> in_queue := cs \<rparr>) reg)
      | [] \<Rightarrow>
          if in_chunks s \<or> in_gate s \<noteq> None then (ReadPending, reg)
          else (case in_outcome s of
                  Some Complete \<Rightarrow> (ReadEnd, reg)
                | Some (Aborted reason) \<Rightarrow> (ReadFailed (StreamAborted reason), reg)
                | None \<Rightarrow> (ReadFailed (StreamAborted ''the connection closed mid-stream''), reg)))"

text \<open>The reader's idle deadline passes while it waits.\<close>

definition read_timeout :: read_outcome where
  "read_timeout = ReadFailed (StreamAborted ''the stream went idle while being read'')"

text \<open>Dropping the \<open>StreamReader\<close>.\<close>

definition drop_reader :: "nat \<Rightarrow> registry \<Rightarrow> registry" where
  "drop_reader a reg =
     (if in_reader (sr_cells reg a) = Claimed
      then set_cell a (\<lambda>s. s \<lparr> in_reader := Gone, in_queue := [] \<rparr>) reg else reg)"

lemma next_chunk_shrinks:
  "next_chunk a reg = (ReadChunk c, reg') \<Longrightarrow>
   length (in_queue (sr_cells reg' a)) < length (in_queue (sr_cells reg a))"
  by (auto simp: next_chunk_def Let_def set_cell_def split: list.splits if_splits option.splits outcome.splits)

text \<open>
  \<open>read_to_end_capped\<close> as far as it gets without waiting: the bytes so far with the reason it
  stopped, which is \<open>ReadPending\<close> when it must wait for the sender.
\<close>

function read_capped :: "nat \<Rightarrow> nat \<Rightarrow> bytes \<Rightarrow> registry \<Rightarrow> (bytes \<times> read_outcome) \<times> registry" where
  "read_capped limit a out reg =
     (case next_chunk a reg of
        (ReadChunk c, reg') \<Rightarrow>
          if length out + length c > limit then ((out, ReadFailed (StreamTooLarge limit)), reg')
          else read_capped limit a (out @ c) reg'
      | (stop, reg') \<Rightarrow> ((out, stop), reg'))"
  by pat_completeness auto
termination
  by (relation "measure (\<lambda>(limit, a, out, reg). length (in_queue (sr_cells reg a)))")
    (auto intro: next_chunk_shrinks [OF sym])

declare read_capped.simps [simp del]

section \<open>The sending half\<close>

text \<open>
  The writer's calls go through its connection, an argument: the member, the arguments and the
  state the peer is in give the reply and the next state.
\<close>

type_synonym 's caller = "string \<Rightarrow> json \<Rightarrow> 's \<Rightarrow> json result \<times> 's"

record stream_writer =
  sw_destination :: bus_name
  sw_id :: string
  sw_content_type :: "string option"
  sw_declared :: "nat option"
  sw_seq :: nat
  sw_sent :: nat
  sw_finished :: bool

definition writer_new :: "bus_name \<Rightarrow> string \<Rightarrow> stream_descriptor \<Rightarrow> stream_writer" where
  "writer_new d sid desc =
     \<lparr> sw_destination = d, sw_id = sid, sw_content_type = sd_content_type desc,
        sw_declared = sd_total_len desc, sw_seq = 0, sw_sent = 0, sw_finished = False \<rparr>"

definition writer_ref :: "stream_writer \<Rightarrow> stream_ref" where
  "writer_ref w = \<lparr> sf_id = sw_id w, sf_content_type = sw_content_type w, sf_len = sw_declared w \<rparr>"

definition write_chunk ::
  "'s caller \<Rightarrow> bytes \<Rightarrow> stream_writer \<times> 's \<Rightarrow> unit result \<times> stream_writer \<times> 's" where
  "write_chunk call chunk ws =
     (case ws of (w, s) \<Rightarrow>
        if length chunk > MAX_CHUNK_LEN then
          (Inl (Protocol (''chunk of '' @ show_nat (length chunk) @ '' bytes exceeds the '' @
             show_nat MAX_CHUNK_LEN @ ''-byte cap'')), w, s)
        else
          (case call ''Write'' (JArray [JString (sw_id w), JNumber (show_nat (sw_seq w)),
                  JString (b64_encode chunk)]) s of
             (Inl e, s') \<Rightarrow> (Inl e, w, s')
           | (Inr _, s') \<Rightarrow>
               (Inr (), w \<lparr> sw_seq := u64_add (sw_seq w) 1,
                            sw_sent := u64_add (sw_sent w) (length chunk) \<rparr>, s')))"

fun write_chunks ::
  "'s caller \<Rightarrow> bytes list \<Rightarrow> stream_writer \<times> 's \<Rightarrow> unit result \<times> stream_writer \<times> 's" where
  "write_chunks call [] ws = (Inr (), ws)"
| "write_chunks call (c # cs) ws =
     (case write_chunk call c ws of
        (Inl e, ws') \<Rightarrow> (Inl e, ws')
      | (Inr _, ws') \<Rightarrow> write_chunks call cs ws')"

definition write_bytes ::
  "'s caller \<Rightarrow> bytes \<Rightarrow> stream_writer \<times> 's \<Rightarrow> unit result \<times> stream_writer \<times> 's" where
  "write_bytes call bs = write_chunks call (chunks MAX_CHUNK_LEN bs)"

text \<open>Dropping a writer that is not finished sends an \<open>Abort\<close> nobody waits for.\<close>

definition writer_drop :: "'s caller \<Rightarrow> stream_writer \<times> 's \<Rightarrow> 's" where
  "writer_drop call ws =
     (case ws of (w, s) \<Rightarrow>
        if sw_finished w then s else snd (call ''Abort'' (JArray [JString (sw_id w)]) s))"

text \<open>\<open>finish\<close> and \<open>abort\<close> consume the writer, so they end with its drop.\<close>

definition writer_finish :: "'s caller \<Rightarrow> stream_writer \<times> 's \<Rightarrow> stream_ref result \<times> 's" where
  "writer_finish call ws =
     (case ws of (w, s) \<Rightarrow>
        (case call ''Close'' (JArray [JString (sw_id w), JNumber (show_nat (sw_sent w))]) s of
           (Inl e, s') \<Rightarrow> (Inl e, writer_drop call (w, s'))
         | (Inr _, s') \<Rightarrow>
             (Inr \<lparr> sf_id = sw_id w, sf_content_type = sw_content_type w, sf_len = Some (sw_sent w) \<rparr>, s')))"

definition writer_abort :: "'s caller \<Rightarrow> stream_writer \<times> 's \<Rightarrow> unit result \<times> 's" where
  "writer_abort call ws =
     (case ws of (w, s) \<Rightarrow>
        apfst (map_sum id (\<lambda>_. ())) (call ''Abort'' (JArray [JString (sw_id w)]) s))"

section \<open>Handles in bodies\<close>

definition stream_ref_shape :: "(string \<times> json) list \<Rightarrow> bool" where
  "stream_ref_shape fs \<longleftrightarrow>
     (\<forall>(k, v) \<in> set fs. k \<in> {''id'', ''content_type'', ''len''}) \<and>
     (case map_of fs ''id'' of Some (JString _) \<Rightarrow> True | _ \<Rightarrow> False) \<and>
     (case map_of fs ''content_type'' of
        None \<Rightarrow> True | Some JNull \<Rightarrow> True | Some (JString _) \<Rightarrow> True | _ \<Rightarrow> False) \<and>
     (case map_of fs ''len'' of
        None \<Rightarrow> True | Some JNull \<Rightarrow> True | Some v \<Rightarrow> json_u64 v \<noteq> None)"

fun body_contains_stream_ref :: "json \<Rightarrow> bool" where
  "body_contains_stream_ref (JObject fs) =
     (stream_ref_shape fs \<or> list_ex (\<lambda>(_, v). body_contains_stream_ref v) fs)"
| "body_contains_stream_ref (JArray vs) = list_ex body_contains_stream_ref vs"
| "body_contains_stream_ref _ = False"

end
