(* ===== verification/StreamSpec.thy ===== *)
theory StreamSpec
  imports Streams
begin

text \<open>
  The stream registry as an event system, observed by the log of what each reader has read,
  and the invariant of its runs: what is read, buffered and parked of a stream is, in order,
  what its opener wrote under consecutive sequence numbers.
\<close>

section \<open>Events\<close>

datatype stream_event =
    SCall nat header json
  | SResume nat nat
  | STurn nat nat
  | STake string
  | STakeFrom string "bus_name option"
  | STakeOpenedBy string bus_name
  | SRead nat
  | SDropReader nat

text \<open>
  The registry with two logs kept per stream: the chunks its reader has read, and the key the
  stream was registered under.
\<close>

record watched =
  wt_reg :: registry
  wt_read :: "nat \<Rightarrow> bytes list"
  wt_key :: "nat \<Rightarrow> string"

definition reader_live :: "nat \<Rightarrow> registry \<Rightarrow> bool" where
  "reader_live a reg \<longleftrightarrow> a < sr_used reg \<and> in_reader (sr_cells reg a) = Claimed"

definition read_of :: "read_outcome \<Rightarrow> bytes list" where
  "read_of r = (case r of ReadChunk c \<Rightarrow> [c] | _ \<Rightarrow> [])"

fun watch_step :: "stream_serde \<Rightarrow> stream_event \<Rightarrow> watched \<Rightarrow> watched" where
  "watch_step ss (SCall now h body) w =
     (let reg = wt_reg w; reg' = snd (stream_dispatch ss now h body reg) in
      w \<lparr> wt_reg := reg',
          wt_key := (if sr_used reg < sr_used reg'
                     then (wt_key w)(sr_used reg := stream_id (sr_next_id reg)) else wt_key w) \<rparr>)"
| "watch_step ss (SResume now a) w =
     (if a < sr_used (wt_reg w) then w \<lparr> wt_reg := snd (write_resume now a (wt_reg w)) \<rparr> else w)"
| "watch_step ss (STurn now a) w = w \<lparr> wt_reg := snd (write_turn now a (wt_reg w)) \<rparr>"
| "watch_step ss (STake sid) w = w \<lparr> wt_reg := snd (take_reader sid (wt_reg w)) \<rparr>"
| "watch_step ss (STakeFrom sid ow) w = w \<lparr> wt_reg := snd (take_reader_from sid ow (wt_reg w)) \<rparr>"
| "watch_step ss (STakeOpenedBy sid u) w = w \<lparr> wt_reg := snd (take_reader_opened_by sid u (wt_reg w)) \<rparr>"
| "watch_step ss (SRead a) w =
     (if reader_live a (wt_reg w)
      then (case next_chunk a (wt_reg w) of
              (r, reg') \<Rightarrow> w \<lparr> wt_reg := reg', wt_read := (wt_read w)(a := wt_read w a @ read_of r) \<rparr>)
      else w)"
| "watch_step ss (SDropReader a) w =
     (if a < sr_used (wt_reg w) then w \<lparr> wt_reg := drop_reader a (wt_reg w) \<rparr> else w)"

definition watch_new :: "stream_limits \<Rightarrow> (nat \<Rightarrow> inbound) \<Rightarrow> watched" where
  "watch_new l cells =
     \<lparr> wt_reg = set_limits l (registry_new cells), wt_read = (\<lambda>_. []), wt_key = (\<lambda>_. '''') \<rparr>"

definition watch :: "stream_serde \<Rightarrow> stream_limits \<Rightarrow> (nat \<Rightarrow> inbound) \<Rightarrow> stream_event list \<Rightarrow> watched" where
  "watch ss l cells evs = fold (watch_step ss) evs (watch_new l cells)"

section \<open>What a run has been told\<close>

text \<open>The opener wrote \<open>c\<close> under sequence number \<open>k\<close>; the opener closed at \<open>n\<close> bytes.\<close>

definition written ::
  "stream_event set \<Rightarrow> bus_name option \<Rightarrow> string \<Rightarrow> nat \<Rightarrow> bytes \<Rightarrow> bool" where
  "written evs ow key k c \<longleftrightarrow>
     (\<exists>now h n data. SCall now h (JArray [JString key, n, JString data]) \<in> evs \<and>
        h_member h = Some (MemberName ''Write'') \<and> h_sender h = ow \<and>
        json_u64 n = Some (k mod 2 ^ 64) \<and> b64_decode data = Inr c)"

definition closed_at :: "stream_event set \<Rightarrow> bus_name option \<Rightarrow> string \<Rightarrow> nat \<Rightarrow> bool" where
  "closed_at evs ow key n \<longleftrightarrow>
     (\<exists>now h v. SCall now h (JArray [JString key, v]) \<in> evs \<and>
        h_member h = Some (MemberName ''Close'') \<and> h_sender h = ow \<and> json_u64 v = Some n)"

definition bytes_in :: "bytes list \<Rightarrow> nat" where
  "bytes_in cs = sum_list (map length cs)"

definition parked :: "inbound \<Rightarrow> bytes list" where
  "parked s = (case in_gate s of None \<Rightarrow> [] | Some w \<Rightarrow> [cw_chunk w])"

text \<open>Read, buffered and parked, in the order the reader gets them.\<close>

definition in_flight :: "bytes list \<Rightarrow> inbound \<Rightarrow> bytes list" where
  "in_flight rd s = rd @ in_queue s @ parked s"

definition all_written ::
  "stream_event set \<Rightarrow> bus_name option \<Rightarrow> string \<Rightarrow> bytes list \<Rightarrow> bool" where
  "all_written evs ow key cs \<longleftrightarrow> (\<forall>k < length cs. written evs ow key k (cs ! k))"

definition log_ok :: "stream_event set \<Rightarrow> nat \<Rightarrow> string \<Rightarrow> bytes list \<Rightarrow> inbound \<Rightarrow> bool" where
  "log_ok evs a key rd s \<longleftrightarrow>
     all_written evs (in_owner s) key rd \<and>
     (in_reader s \<noteq> Gone \<longrightarrow> all_written evs (in_owner s) key (in_flight rd s)) \<and>
     (in_reader s \<noteq> Gone \<and> \<not> in_aborted s \<longrightarrow>
        in_next_seq s = length (in_flight rd s) mod 2 ^ 64 \<and>
        in_received s = bytes_in (in_flight rd s) mod 2 ^ 64) \<and>
     (in_aborted s \<longleftrightarrow> (\<exists>r. in_outcome s = Some (Aborted r))) \<and>
     (in_outcome s \<noteq> None \<longrightarrow> \<not> in_chunks s) \<and>
     (in_outcome s = Some Complete \<longrightarrow>
        closed_at evs (in_owner s) key (in_received s)) \<and>
     (in_reader s = Gone \<longrightarrow> in_queue s = []) \<and>
     length (in_queue s) \<le> in_window s \<and>
     (\<forall>c \<in> set (in_queue s @ parked s). length c \<le> MAX_CHUNK_LEN) \<and>
     (\<forall>w. in_gate s = Some w \<longrightarrow> cw_id w = key \<and> cw_cell w = a)"

definition size_ok :: "stream_limits \<Rightarrow> bytes list \<Rightarrow> inbound \<Rightarrow> bool" where
  "size_ok l rd s \<longleftrightarrow>
     in_window s = max (sl_window l) 1 \<and> in_received s \<le> sl_max_len l \<and>
     (\<forall>d. in_declared s = Some d \<longrightarrow> in_received s \<le> d) \<and>
     (sl_max_len l + MAX_CHUNK_LEN < 2 ^ 64 \<longrightarrow>
        bytes_in rd \<le> in_received s \<and>
        (in_reader s \<noteq> Gone \<longrightarrow> bytes_in (in_flight rd s) \<le> in_received s))"

definition cell_ok ::
  "stream_limits \<Rightarrow> stream_event set \<Rightarrow> nat \<Rightarrow> string \<Rightarrow> bytes list \<Rightarrow> inbound \<Rightarrow> bool" where
  "cell_ok l evs a key rd s \<longleftrightarrow> log_ok evs a key rd s \<and> size_ok l rd s"

definition task_ok :: "stream_limits \<Rightarrow> stream_event set \<Rightarrow> (nat \<Rightarrow> string) \<Rightarrow> registry \<Rightarrow> chunk_write \<Rightarrow> bool" where
  "task_ok l evs key reg t \<longleftrightarrow>
     cw_cell t < sr_used reg \<and> cw_id t = key (cw_cell t) \<and> length (cw_chunk t) \<le> MAX_CHUNK_LEN \<and>
     cw_max_len t = sl_max_len l \<and>
     written evs (in_owner (sr_cells reg (cw_cell t))) (key (cw_cell t)) (cw_seq t) (cw_chunk t)"

definition keys_ok :: "(nat \<Rightarrow> string) \<Rightarrow> registry \<Rightarrow> bool" where
  "keys_ok key reg \<longleftrightarrow>
     hmap_ok (sr_inbound reg) \<and>
     (\<forall>sid a. hget (sr_inbound reg) sid = Some a \<longrightarrow> a < sr_used reg \<and> sid = key a)"

definition registry_ok ::
  "stream_limits \<Rightarrow> stream_event set \<Rightarrow> (nat \<Rightarrow> string) \<Rightarrow> (nat \<Rightarrow> bytes list) \<Rightarrow> registry \<Rightarrow> bool" where
  "registry_ok l evs key rd reg \<longleftrightarrow>
     sr_limits reg = l \<and> keys_ok key reg \<and>
     (\<forall>a < sr_used reg. cell_ok l evs a (key a) (rd a) (sr_cells reg a)) \<and>
     (\<forall>a \<ge> sr_used reg. rd a = []) \<and>
     (\<forall>t \<in> set (sr_waiting reg). task_ok l evs key reg t)"

definition watch_ok :: "stream_limits \<Rightarrow> stream_event set \<Rightarrow> watched \<Rightarrow> bool" where
  "watch_ok l evs w \<longleftrightarrow> registry_ok l evs (wt_key w) (wt_read w) (wt_reg w)"

section \<open>One cell\<close>

lemmas cell_defs = log_ok_def in_flight_def parked_def

lemma all_written_append:
  "all_written evs ow key (xs @ ys) \<longleftrightarrow>
     all_written evs ow key xs \<and> (\<forall>k < length ys. written evs ow key (length xs + k) (ys ! k))"
proof (intro iffI conjI allI impI)
  assume a: "all_written evs ow key (xs @ ys)"
  have "written evs ow key k (xs ! k)" if "k < length xs" for k
    using a [unfolded all_written_def, rule_format, of k] that by (simp add: nth_append)
  then show "all_written evs ow key xs" by (simp add: all_written_def)
  fix k
  assume "k < length ys"
  then show "written evs ow key (length xs + k) (ys ! k)"
    using a [unfolded all_written_def, rule_format, of "length xs + k"] by simp
next
  assume a: "all_written evs ow key xs \<and> (\<forall>k < length ys. written evs ow key (length xs + k) (ys ! k))"
  show "all_written evs ow key (xs @ ys)"
    unfolding all_written_def
  proof (intro allI impI)
    fix k
    assume k: "k < length (xs @ ys)"
    show "written evs ow key k ((xs @ ys) ! k)"
    proof (cases "k < length xs")
      case True
      then show ?thesis using a by (simp add: all_written_def nth_append)
    next
      case False
      moreover from False have "k - length xs < length ys" using k by simp
      then have "written evs ow key (length xs + (k - length xs)) (ys ! (k - length xs))"
        using a by blast
      ultimately show ?thesis by (simp add: nth_append)
    qed
  qed
qed

lemma all_written_prefix: "all_written evs ow key (xs @ ys) \<Longrightarrow> all_written evs ow key xs"
  by (simp add: all_written_append)

lemma all_written_snoc:
  "all_written evs ow key (xs @ [c]) \<longleftrightarrow> all_written evs ow key xs \<and> written evs ow key (length xs) c"
  by (simp add: all_written_append)

lemma bytes_in_append [simp]: "bytes_in (xs @ ys) = bytes_in xs + bytes_in ys"
  by (simp add: bytes_in_def)

lemma bytes_in_one [simp]: "bytes_in [c] = length c" "bytes_in [] = 0"
  by (simp_all add: bytes_in_def)

lemma written_mod: "written evs ow key (k mod 2 ^ 64) c = written evs ow key k c"
  by (simp add: written_def)

lemma u64_add_mod: "u64_add (x mod 18446744073709551616) y = (x + y) mod 18446744073709551616"
  by (simp add: u64_add_def mod_simps)

text \<open>Ending a stream from the receiver's side.\<close>

lemma log_end:
  assumes "log_ok evs a key rd s"
  shows "log_ok evs a key rd (drop_unclaimed (seal (finish (Aborted r) s)))"
  using assms
  by (auto simp: cell_defs drop_unclaimed_def seal_def finish_def)

lemma log_evict:
  assumes "log_ok evs a key rd s" and "\<not> in_chunks s"
  shows "log_ok evs a key rd (finish (Aborted r) s)"
  using assms by (auto simp: cell_defs finish_def)

lemma log_abort:
  assumes "log_ok evs a key rd s"
  shows "log_ok evs a key rd (seal (touch now (finish (Aborted r) s)))"
  using assms by (auto simp: cell_defs seal_def touch_def finish_def)

lemma log_close:
  assumes "log_ok evs a key rd s" and "v = Complete \<Longrightarrow> closed_at evs (in_owner s) key (in_received s)"
  shows "log_ok evs a key rd (seal (finish v (touch now s)))"
  using assms by (cases v) (auto simp: cell_defs seal_def touch_def finish_def)

lemma log_claim:
  assumes "log_ok evs a key rd s" and "in_reader s = Unclaimed"
  shows "log_ok evs a key rd (s \<lparr> in_reader := Claimed \<rparr>)"
  using assms by (auto simp: cell_defs)

lemma log_drop_reader:
  assumes "log_ok evs a key rd s"
  shows "log_ok evs a key rd (s \<lparr> in_reader := Gone, in_queue := [] \<rparr>)"
  using assms by (auto simp: cell_defs)

lemma log_read:
  assumes "log_ok evs a key rd s" and "in_queue s = c # cs" and "in_reader s \<noteq> Gone"
  shows "log_ok evs a key (rd @ [c]) (s \<lparr> in_queue := cs \<rparr>)"
  using assms all_written_prefix [of evs "in_owner s" key "rd @ [c]" "cs @ parked s"]
  by (auto simp: cell_defs)

text \<open>A write that passed its checks, whether it is pushed, parked, woken or lost.\<close>

definition accept :: "nat \<Rightarrow> chunk_write \<Rightarrow> inbound \<Rightarrow> inbound" where
  "accept now w s = touch now (s \<lparr> in_next_seq := u64_add (in_next_seq s) 1,
     in_received := u64_add (in_received s) (length (cw_chunk w)) \<rparr>)"

definition push :: "nat \<Rightarrow> bytes \<Rightarrow> inbound \<Rightarrow> inbound" where
  "push now c s = touch now (s \<lparr> in_queue := in_queue s @ [c] \<rparr>)"

lemma log_accept_push:
  assumes "log_ok evs a key rd s" and "in_gate s = None" and "in_chunks s" and "in_reader s \<noteq> Gone"
    and "written evs (in_owner s) key (cw_seq w) (cw_chunk w)" and "cw_seq w = in_next_seq s"
    and "length (in_queue s) < in_window s" and "length (cw_chunk w) \<le> MAX_CHUNK_LEN"
  shows "log_ok evs a key rd (push now (cw_chunk w) (accept now w s))"
proof -
  have "\<not> in_aborted s" using assms(1,3) by (auto simp: log_ok_def)
  then have "written evs (in_owner s) key (length (rd @ in_queue s)) (cw_chunk w)"
    using assms(1,2,4,5,6) by (simp add: cell_defs written_mod [symmetric, of _ _ _ "_ + _"])
  then show ?thesis
    using assms all_written_snoc [of evs "in_owner s" key "rd @ in_queue s" "cw_chunk w"]
    by (auto simp: cell_defs push_def accept_def touch_def u64_add_mod add_ac)
qed

lemma log_accept_park:
  assumes "log_ok evs a key rd s" and "in_gate s = None" and "in_chunks s" and "in_reader s \<noteq> Gone"
    and "written evs (in_owner s) key (cw_seq w) (cw_chunk w)" and "cw_seq w = in_next_seq s"
    and "length (cw_chunk w) \<le> MAX_CHUNK_LEN" and "cw_id w = key" and "cw_cell w = a"
  shows "log_ok evs a key rd ((accept now w s) \<lparr> in_gate := Some w \<rparr>)"
proof -
  have "\<not> in_aborted s" using assms(1,3) by (auto simp: log_ok_def)
  then have "written evs (in_owner s) key (length (rd @ in_queue s)) (cw_chunk w)"
    using assms(1,2,4,5,6) by (simp add: cell_defs written_mod [symmetric, of _ _ _ "_ + _"])
  then show ?thesis
    using assms all_written_snoc [of evs "in_owner s" key "rd @ in_queue s" "cw_chunk w"]
    by (auto simp: cell_defs accept_def touch_def u64_add_mod add_ac)
qed

lemma log_accept_lost:
  assumes "log_ok evs a key rd s" and "in_reader s = Gone" and "in_chunks s"
  shows "log_ok evs a key rd (accept now w s)"
  using assms by (auto simp: cell_defs accept_def touch_def)

lemma log_wake_push:
  assumes "log_ok evs a key rd s" and "in_gate s = Some w" and "length (in_queue s) < in_window s"
    and "in_reader s \<noteq> Gone"
  shows "log_ok evs a key rd (push now (cw_chunk w) (s \<lparr> in_gate := None \<rparr>))"
  using assms by (auto simp: cell_defs push_def touch_def)

lemma log_wake_lost:
  assumes "log_ok evs a key rd s" and "in_aborted s \<or> in_reader s = Gone"
  shows "log_ok evs a key rd (s \<lparr> in_gate := None \<rparr>)"
  using assms all_written_prefix [of evs "in_owner s" key "rd @ in_queue s" "parked s"]
  by (auto simp: cell_defs)

lemma log_new:
  "log_ok evs a key [] (inbound_new h d now l)"
  by (simp add: cell_defs inbound_new_def all_written_def bytes_in_def)

section \<open>The sizes of a cell\<close>

lemmas size_defs = size_ok_def in_flight_def parked_def

text \<open>The length checks a write passed.\<close>

definition fits :: "stream_limits \<Rightarrow> chunk_write \<Rightarrow> inbound \<Rightarrow> bool" where
  "fits l w s \<longleftrightarrow>
     u64_add (in_received s) (length (cw_chunk w)) \<le> sl_max_len l \<and>
     (\<forall>d. in_declared s = Some d \<longrightarrow> u64_add (in_received s) (length (cw_chunk w)) \<le> d)"

lemma fits_exact:
  assumes "size_ok l rd s" and "length (cw_chunk w) \<le> MAX_CHUNK_LEN"
    and "sl_max_len l + MAX_CHUNK_LEN < 2 ^ 64"
  shows "u64_add (in_received s) (length (cw_chunk w)) = in_received s + length (cw_chunk w)"
  using assms by (intro u64_add_small) (simp add: size_ok_def)

text \<open>A change that moves neither the counters nor anything towards the reader.\<close>

lemma size_shrink:
  assumes "size_ok l rd s" and "in_window s' = in_window s" "in_received s' = in_received s"
    "in_declared s' = in_declared s" "in_reader s' \<noteq> Gone \<Longrightarrow> in_reader s \<noteq> Gone"
    "in_reader s' \<noteq> Gone \<Longrightarrow> bytes_in (in_flight rd s') \<le> bytes_in (in_flight rd s)"
  shows "size_ok l rd s'"
  using assms unfolding size_ok_def by (auto intro: order_trans)

lemma size_frames:
  assumes "size_ok l rd s"
  shows "size_ok l rd (drop_unclaimed (seal (finish v s)))" "size_ok l rd (finish v s)"
    "size_ok l rd (seal (touch now (finish v s)))" "size_ok l rd (seal (finish v (touch now s)))"
    "size_ok l rd (s \<lparr> in_gate := None \<rparr>)"
    "in_reader s = Unclaimed \<Longrightarrow> size_ok l rd (s \<lparr> in_reader := Claimed \<rparr>)"
    "size_ok l rd (s \<lparr> in_reader := Gone, in_queue := [] \<rparr>)"
  by (rule size_shrink [OF assms];
      simp add: drop_unclaimed_def seal_def finish_def touch_def in_flight_def parked_def split: if_splits)+

lemma size_read:
  assumes "size_ok l rd s" and "in_queue s = c # cs" and "in_reader s \<noteq> Gone"
  shows "size_ok l (rd @ [c]) (s \<lparr> in_queue := cs \<rparr>)"
  using assms by (auto simp: size_defs bytes_in_def)

lemma size_accept:
  assumes "size_ok l rd s" and "fits l w s" and "length (cw_chunk w) \<le> MAX_CHUNK_LEN"
  shows "size_ok l rd (accept now w s)"
  using assms(1,2) fits_exact [OF assms(1,3)]
  by (auto simp: size_defs accept_def touch_def fits_def)

lemma size_accept_push:
  assumes "size_ok l rd s" and "fits l w s" and "length (cw_chunk w) \<le> MAX_CHUNK_LEN"
  shows "in_gate s = None \<Longrightarrow> size_ok l rd (push now (cw_chunk w) (accept now w s))"
    "in_gate s = None \<Longrightarrow> size_ok l rd ((accept now w s) \<lparr> in_gate := Some w \<rparr>)"
  using assms(1,2) fits_exact [OF assms(1,3)]
  by (auto simp: size_defs push_def accept_def touch_def fits_def)

lemma size_wake_push:
  "size_ok l rd s \<Longrightarrow> in_gate s = Some w \<Longrightarrow> size_ok l rd (push now (cw_chunk w) (s \<lparr> in_gate := None \<rparr>))"
  by (simp add: size_defs push_def touch_def)

section \<open>Both together\<close>

lemma cell_end: "cell_ok l evs a key rd s \<Longrightarrow> cell_ok l evs a key rd (drop_unclaimed (seal (finish (Aborted r) s)))"
  using log_end size_frames by (simp add: cell_ok_def)

lemma cell_evict:
  "cell_ok l evs a key rd s \<Longrightarrow> \<not> in_chunks s \<Longrightarrow> cell_ok l evs a key rd (finish (Aborted r) s)"
  using log_evict size_frames by (simp add: cell_ok_def)

lemma cell_abort: "cell_ok l evs a key rd s \<Longrightarrow> cell_ok l evs a key rd (seal (touch now (finish (Aborted r) s)))"
  using log_abort size_frames by (simp add: cell_ok_def)

lemma cell_close:
  assumes "cell_ok l evs a key rd s" and "v = Complete \<Longrightarrow> closed_at evs (in_owner s) key (in_received s)"
  shows "cell_ok l evs a key rd (seal (finish v (touch now s)))"
  using assms log_close size_frames by (simp add: cell_ok_def)

lemma cell_claim:
  "cell_ok l evs a key rd s \<Longrightarrow> in_reader s = Unclaimed \<Longrightarrow> cell_ok l evs a key rd (s \<lparr> in_reader := Claimed \<rparr>)"
  using log_claim size_frames by (simp add: cell_ok_def)

lemma cell_drop_reader:
  "cell_ok l evs a key rd s \<Longrightarrow> cell_ok l evs a key rd (s \<lparr> in_reader := Gone, in_queue := [] \<rparr>)"
  using log_drop_reader size_frames by (simp add: cell_ok_def)

lemma cell_read:
  "cell_ok l evs a key rd s \<Longrightarrow> in_queue s = c # cs \<Longrightarrow> in_reader s \<noteq> Gone \<Longrightarrow>
   cell_ok l evs a key (rd @ [c]) (s \<lparr> in_queue := cs \<rparr>)"
  using log_read size_read by (simp add: cell_ok_def)

lemma cell_accept_push:
  assumes "cell_ok l evs a key rd s" and "fits l w s" and "in_gate s = None" and "in_chunks s"
    and "in_reader s \<noteq> Gone" and "written evs (in_owner s) key (cw_seq w) (cw_chunk w)"
    and "cw_seq w = in_next_seq s" and "length (in_queue s) < in_window s"
    and "length (cw_chunk w) \<le> MAX_CHUNK_LEN"
  shows "cell_ok l evs a key rd (push now (cw_chunk w) (accept now w s))"
  using assms log_accept_push size_accept_push by (simp add: cell_ok_def)

lemma cell_accept_park:
  assumes "cell_ok l evs a key rd s" and "fits l w s" and "in_gate s = None" and "in_chunks s"
    and "in_reader s \<noteq> Gone" and "written evs (in_owner s) key (cw_seq w) (cw_chunk w)"
    and "cw_seq w = in_next_seq s" and "length (cw_chunk w) \<le> MAX_CHUNK_LEN" and "cw_id w = key" and "cw_cell w = a"
  shows "cell_ok l evs a key rd ((accept now w s) \<lparr> in_gate := Some w \<rparr>)"
  using assms log_accept_park size_accept_push by (simp add: cell_ok_def)

lemma cell_accept_lost:
  assumes "cell_ok l evs a key rd s" and "fits l w s" and "in_reader s = Gone" and "in_chunks s"
    and "length (cw_chunk w) \<le> MAX_CHUNK_LEN"
  shows "cell_ok l evs a key rd (accept now w s)"
  using assms log_accept_lost size_accept by (simp add: cell_ok_def)

lemma cell_wake_push:
  "cell_ok l evs a key rd s \<Longrightarrow> in_gate s = Some w \<Longrightarrow> length (in_queue s) < in_window s \<Longrightarrow>
   in_reader s \<noteq> Gone \<Longrightarrow> cell_ok l evs a key rd (push now (cw_chunk w) (s \<lparr> in_gate := None \<rparr>))"
  using log_wake_push size_wake_push by (simp add: cell_ok_def)

lemma cell_wake_lost:
  "cell_ok l evs a key rd s \<Longrightarrow> in_aborted s \<or> in_reader s = Gone \<Longrightarrow>
   cell_ok l evs a key rd (s \<lparr> in_gate := None \<rparr>)"
  using log_wake_lost size_frames by (simp add: cell_ok_def)

lemma cell_new: "cell_ok l evs a key [] (inbound_new h d now l)"
  using log_new by (simp add: cell_ok_def size_defs inbound_new_def bytes_in_def)

section \<open>The registry's operations\<close>

lemma registry_cell:
  assumes "registry_ok l evs key rd reg" and "a < sr_used reg"
    and "cell_ok l evs a (key a) (rd a) (f (sr_cells reg a))"
    and "in_owner (f (sr_cells reg a)) = in_owner (sr_cells reg a)"
  shows "registry_ok l evs key rd (set_cell a f reg)"
  using assms by (auto simp: registry_ok_def keys_ok_def task_ok_def set_cell_def)

lemma registry_forget:
  assumes "registry_ok l evs key rd reg"
  shows "registry_ok l evs key rd (reg \<lparr> sr_inbound := hdel sid (sr_inbound reg) \<rparr>)"
  using assms by (auto simp: registry_ok_def keys_ok_def task_ok_def hm.ok_del hm.get_del split: if_splits)

lemma registry_waiting:
  assumes "registry_ok l evs key rd reg" and "\<forall>t \<in> set ts. task_ok l evs key reg t"
  shows "registry_ok l evs key rd (reg \<lparr> sr_waiting := ts \<rparr>)"
  using assms by (auto simp: registry_ok_def keys_ok_def task_ok_def)

lemma registry_get:
  assumes "registry_ok l evs key rd reg" and "hget (sr_inbound reg) sid = Some a"
  shows "a < sr_used reg" "sid = key a"
  using assms by (auto simp: registry_ok_def keys_ok_def)

lemma registry_cell_ok:
  "registry_ok l evs key rd reg \<Longrightarrow> a < sr_used reg \<Longrightarrow> cell_ok l evs a (key a) (rd a) (sr_cells reg a)"
  by (simp add: registry_ok_def)

lemma owner_frames [simp]:
  "in_owner (finish v s) = in_owner s" "in_owner (seal s) = in_owner s"
  "in_owner (touch now s) = in_owner s" "in_owner (drop_unclaimed s) = in_owner s"
  "in_owner (accept now w s) = in_owner s" "in_owner (push now c s) = in_owner s"
  by (simp_all add: finish_def seal_def touch_def drop_unclaimed_def accept_def push_def)

lemma set_cell_fields [simp]:
  "sr_used (set_cell a f reg) = sr_used reg" "sr_inbound (set_cell a f reg) = sr_inbound reg"
  "sr_waiting (set_cell a f reg) = sr_waiting reg" "sr_limits (set_cell a f reg) = sr_limits reg"
  "sr_cells (set_cell a f reg) a = f (sr_cells reg a)"
  by (simp_all add: set_cell_def)

lemma set_cell_twice: "set_cell a f (set_cell a g reg) = set_cell a (\<lambda>s. f (g s)) reg"
  by (simp add: set_cell_def)

lemma registry_kill:
  assumes "registry_ok l evs key rd reg" and "a < sr_used reg"
  shows "registry_ok l evs key rd (kill sid a reason reg)"
  unfolding kill_def
  by (rule registry_cell) (use registry_forget [OF assms(1)] assms cell_end registry_cell_ok in auto)

lemma lookup_some:
  assumes "registry_ok l evs key rd reg" and "lookup sid h reg = Inr a"
  shows "a < sr_used reg" "sid = key a" "in_owner (sr_cells reg a) = h_sender h"
  using assms registry_get [OF assms(1)] by (auto simp: lookup_def split: option.splits if_splits)

lemma registry_enter:
  assumes "registry_ok l evs key rd reg" and "task_ok l evs key reg w" and "in_gate (sr_cells reg (cw_cell w)) = None"
  shows "registry_ok l evs key rd (snd (write_enter now w reg))"
proof -
  let ?a = "cw_cell w"
  let ?s = "sr_cells reg ?a"
  have a: "?a < sr_used reg" "cw_id w = key ?a" "length (cw_chunk w) \<le> MAX_CHUNK_LEN"
    "written evs (in_owner ?s) (key ?a) (cw_seq w) (cw_chunk w)" "cw_max_len w = sl_max_len l"
    using assms(2) by (auto simp: task_ok_def)
  note c = registry_cell_ok [OF assms(1) a(1)]
  have live: "in_chunks ?s \<Longrightarrow> \<not> in_aborted ?s" using c by (auto simp: cell_ok_def log_ok_def)
  have acc: "set_cell ?a (\<lambda>s. touch now (s \<lparr> in_next_seq := u64_add (in_next_seq s) 1,
      in_received := u64_add (in_received ?s) (length (cw_chunk w)) \<rparr>)) reg = set_cell ?a (\<lambda>_. accept now w ?s) reg"
    by (simp add: accept_def set_cell_def)
  let ?long = "u64_add (in_received ?s) (length (cw_chunk w)) > cw_max_len w \<or>
     (case in_declared ?s of None \<Rightarrow> False | Some tot \<Rightarrow> u64_add (in_received ?s) (length (cw_chunk w)) > tot)"
  have f: "fits l w ?s" if "\<not> ?long"
    using that a(5) by (auto simp: fits_def split: option.splits)
  consider "\<not> in_chunks ?s" | "in_chunks ?s" "cw_seq w \<noteq> in_next_seq ?s"
    | "in_chunks ?s" "cw_seq w = in_next_seq ?s" "?long"
    | "in_chunks ?s" "cw_seq w = in_next_seq ?s" "\<not> ?long" "in_reader ?s = Gone"
    | "in_chunks ?s" "cw_seq w = in_next_seq ?s" "\<not> ?long" "in_reader ?s \<noteq> Gone"
        "length (in_queue ?s) < in_window ?s"
    | "in_chunks ?s" "cw_seq w = in_next_seq ?s" "\<not> ?long" "in_reader ?s \<noteq> Gone"
        "\<not> length (in_queue ?s) < in_window ?s"
    by blast
  then show ?thesis
  proof cases
    case 1
    then show ?thesis using assms(1) by (simp add: write_enter_def Let_def)
  next
    case 2
    then show ?thesis using registry_kill [OF assms(1) a(1)] by (simp add: write_enter_def Let_def)
  next
    case 3
    then have "snd (write_enter now w reg) = kill (cw_id w) ?a ''the sender exceeded the length it may write'' reg"
      unfolding write_enter_def Let_def by simp
    then show ?thesis using registry_kill [OF assms(1) a(1)] by simp
  next
    case 4
    then have "snd (write_enter now w reg) = kill (cw_id w) ?a ''the receiver stopped reading''
        (set_cell ?a (\<lambda>_. accept now w ?s) reg)"
      using live unfolding write_enter_def Let_def acc by simp
    then show ?thesis
      using registry_kill [OF registry_cell [OF assms(1) a(1), of "\<lambda>_. accept now w ?s"]]
        cell_accept_lost [OF c f [OF 4(3)] 4(4,1) a(3)] a(1) by simp
  next
    case 5
    then have "snd (write_enter now w reg) = set_cell ?a (\<lambda>_. push now (cw_chunk w) (accept now w ?s)) reg"
      using live unfolding write_enter_def Let_def acc
      by (simp add: set_cell_def push_def accept_def touch_def)
    then show ?thesis
      using registry_cell [OF assms(1) a(1), of "\<lambda>_. push now (cw_chunk w) (accept now w ?s)"]
        cell_accept_push [OF c f [OF 5(3)] assms(3) 5(1,4) a(4) 5(2,5) a(3)] by simp
  next
    case 6
    then have "snd (write_enter now w reg) = set_cell ?a (\<lambda>_. (accept now w ?s) \<lparr> in_gate := Some w \<rparr>) reg"
      using live unfolding write_enter_def Let_def acc by (simp add: set_cell_def)
    then show ?thesis
      using registry_cell [OF assms(1) a(1), of "\<lambda>_. (accept now w ?s) \<lparr> in_gate := Some w \<rparr>"]
        cell_accept_park [OF c f [OF 6(3)] assms(3) 6(1,4) a(4) 6(2) a(3,2)] by simp
  qed
qed

lemma registry_resume:
  assumes "registry_ok l evs key rd reg" and "a < sr_used reg"
  shows "registry_ok l evs key rd (snd (write_resume now a reg))"
proof (cases "in_gate (sr_cells reg a)")
  case None
  then show ?thesis using assms(1) by (simp add: write_resume_def Let_def)
next
  case (Some w)
  let ?s = "sr_cells reg a"
  note c = registry_cell_ok [OF assms]
  consider "in_aborted ?s" | "\<not> in_aborted ?s" "in_reader ?s = Gone"
    | "\<not> in_aborted ?s" "in_reader ?s \<noteq> Gone" "length (in_queue ?s) < in_window ?s"
    | "\<not> in_aborted ?s" "in_reader ?s \<noteq> Gone" "\<not> length (in_queue ?s) < in_window ?s" by blast
  then show ?thesis
  proof cases
    case 1
    then show ?thesis
      using Some registry_cell [OF assms, of "\<lambda>s. s \<lparr> in_gate := None \<rparr>"] cell_wake_lost [OF c]
      by (simp add: write_resume_def Let_def)
  next
    case 2
    then show ?thesis
      using Some registry_cell [OF assms, of "\<lambda>s. s \<lparr> in_gate := None \<rparr>"] cell_wake_lost [OF c] registry_kill assms(2)
      by (simp add: write_resume_def Let_def)
  next
    case 3
    then have "snd (write_resume now a reg) = set_cell a (\<lambda>_. push now (cw_chunk w) (?s \<lparr> in_gate := None \<rparr>)) reg"
      using Some by (simp add: write_resume_def Let_def set_cell_def push_def)
    then show ?thesis
      using registry_cell [OF assms, of "\<lambda>_. push now (cw_chunk w) (?s \<lparr> in_gate := None \<rparr>)"]
        cell_wake_push [OF c Some 3(3,2)] by simp
  next
    case 4
    then show ?thesis using Some assms(1) by (simp add: write_resume_def Let_def)
  qed
qed

lemma registry_turn:
  assumes "registry_ok l evs key rd reg"
  shows "registry_ok l evs key rd (snd (write_turn now a reg))"
proof (cases "find (\<lambda>w. cw_cell w = a) (sr_waiting reg)")
  case None
  then show ?thesis using assms by (simp add: write_turn_def)
next
  case (Some w)
  let ?r = "reg \<lparr> sr_waiting := remove1 w (sr_waiting reg) \<rparr>"
  have w: "w \<in> set (sr_waiting reg)" "cw_cell w = a"
    using Some by (auto simp: find_Some_iff)
  then have "task_ok l evs key reg w" using assms by (auto simp: registry_ok_def)
  moreover have "\<forall>t \<in> set (remove1 w (sr_waiting reg)). task_ok l evs key reg t"
    using assms set_remove1_subset [of w "sr_waiting reg"] unfolding registry_ok_def by blast
  then have "registry_ok l evs key rd ?r" by (rule registry_waiting [OF assms])
  moreover have "task_ok l evs key ?r w"
    using \<open>task_ok l evs key reg w\<close> by (simp add: task_ok_def)
  ultimately have "in_gate (sr_cells reg a) = None \<Longrightarrow> registry_ok l evs key rd (snd (write_enter now w ?r))"
    using registry_enter [of l evs key rd ?r w now] w(2) by simp
  then show ?thesis using Some assms by (simp add: write_turn_def)
qed

lemma registry_write:
  assumes "registry_ok l evs key rd reg" and "SCall now h body \<in> evs" and "h_member h = Some (MemberName ''Write'')"
  shows "registry_ok l evs key rd (snd (write_call ss now h member body reg))"
proof (cases "\<exists>sid n data. body = JArray [JString sid, n, JString data]")
  case False
  then have "snd (write_call ss now h member body reg) = reg"
    unfolding write_call_def Let_def by (auto split: json.split list.split)
  then show ?thesis using assms(1) by simp
next
  case True
  then obtain sid n data where body: "body = JArray [JString sid, n, JString data]" by blast
  show ?thesis
  proof (cases "\<exists>seq a chunk. json_u64 n = Some seq \<and> lookup sid h reg = Inr a \<and> b64_decode data = Inr chunk")
    case False
    then have "snd (write_call ss now h member body reg) = reg"
      by (cases "json_u64 n"; cases "lookup sid h reg"; cases "b64_decode data")
        (simp_all add: write_call_def Let_def body)
    then show ?thesis using assms(1) by simp
  next
    case True
    then obtain seq a chunk where d: "json_u64 n = Some seq" "lookup sid h reg = Inr a"
      "b64_decode data = Inr chunk" by blast
    note a = lookup_some [OF assms(1) d(2)]
    let ?w = "\<lparr> cw_id = sid, cw_cell = a, cw_seq = seq, cw_chunk = chunk, cw_max_len = sl_max_len (sr_limits reg) \<rparr>"
    have seq: "seq mod 2 ^ 64 = seq"
      using d(1) by (auto simp: json_u64_def split: json.splits option.splits if_splits)
    have t: "task_ok l evs key reg ?w" if "length chunk \<le> MAX_CHUNK_LEN"
    proof -
      have "written evs (h_sender h) sid seq chunk"
        unfolding written_def seq
        by (rule exI [of _ now], rule exI [of _ h], rule exI [of _ n], rule exI [of _ data])
          (use assms(2,3) body d in simp)
      then show ?thesis using that a assms(1) by (simp add: task_ok_def registry_ok_def)
    qed
    consider "\<not> length chunk \<le> MAX_CHUNK_LEN"
      | "length chunk \<le> MAX_CHUNK_LEN" "in_gate (sr_cells reg a) \<noteq> None \<or> (\<exists>v \<in> set (sr_waiting reg). cw_cell v = a)"
      | "length chunk \<le> MAX_CHUNK_LEN" "in_gate (sr_cells reg a) = None"
          "\<not> (\<exists>v \<in> set (sr_waiting reg). cw_cell v = a)" by blast
    then show ?thesis
    proof cases
      case 1
      then show ?thesis
        using registry_kill [OF assms(1) a(1)] d by (simp add: write_call_def Let_def body)
    next
      case 2
      then have "snd (write_call ss now h member body reg) = reg \<lparr> sr_waiting := sr_waiting reg @ [?w] \<rparr>"
        using d by (auto simp: write_call_def Let_def body)
      then show ?thesis
        using registry_waiting [OF assms(1)] t [OF 2(1)] assms(1) by (simp add: registry_ok_def)
    next
      case 3
      then have "snd (write_call ss now h member body reg) = snd (write_enter now ?w reg)"
        using d by (auto simp: write_call_def Let_def body)
      then show ?thesis using registry_enter [OF assms(1) t [OF 3(1)]] 3(2) by simp
    qed
  qed
qed

lemma registry_close:
  assumes "registry_ok l evs key rd reg" and "SCall now h body \<in> evs" and "h_member h = Some (MemberName ''Close'')"
  shows "registry_ok l evs key rd (snd (close_stream ss now h member body reg))"
proof (cases "\<exists>sid n tot a. body = JArray [JString sid, n] \<and> json_u64 n = Some tot \<and> lookup sid h reg = Inr a")
  case False
  then have "snd (close_stream ss now h member body reg) = reg"
    unfolding close_stream_def Let_def by (auto split: json.split list.split option.split sum.split)
  then show ?thesis using assms(1) by simp
next
  case True
  then obtain sid n tot a where d: "body = JArray [JString sid, n]" "json_u64 n = Some tot"
    "lookup sid h reg = Inr a" by blast
  note a = lookup_some [OF assms(1) d(3)]
  let ?v = "if in_received (sr_cells reg a) \<noteq> tot then Aborted ''the sender closed a truncated stream'' else Complete"
  have "closed_at evs (in_owner (sr_cells reg a)) (key a) tot"
    unfolding closed_at_def
    by (rule exI [of _ now], rule exI [of _ h], rule exI [of _ n]) (use assms(2,3) d a in simp)
  then have "cell_ok l evs a (key a) (rd a) (seal (finish ?v (touch now (sr_cells reg a))))"
    by (intro cell_close [OF registry_cell_ok [OF assms(1) a(1)]]) (simp split: if_splits)
  moreover have "snd (close_stream ss now h member body reg) =
      set_cell a (\<lambda>s. seal (finish ?v (touch now s))) reg"
    using d by (simp add: close_stream_def Let_def)
  ultimately show ?thesis using registry_cell [OF assms(1) a(1)] by simp
qed

lemma registry_abort:
  assumes "registry_ok l evs key rd reg"
  shows "registry_ok l evs key rd (snd (abort_stream ss now h member body reg))"
proof (cases "\<exists>sid a. body = JArray [JString sid] \<and> lookup sid h reg = Inr a")
  case False
  then have "snd (abort_stream ss now h member body reg) = reg"
    unfolding abort_stream_def Let_def by (auto split: json.split list.split sum.split)
  then show ?thesis using assms by simp
next
  case True
  then obtain sid a where d: "body = JArray [JString sid]" "lookup sid h reg = Inr a" by blast
  note a = lookup_some [OF assms d(2)]
  have r: "registry_ok l evs key rd
      (set_cell a (\<lambda>s. seal (touch now (finish (Aborted ''the sender aborted the stream'') s))) reg)"
    using registry_cell [OF assms a(1)] cell_abort [OF registry_cell_ok [OF assms a(1)]] by simp
  show ?thesis
    using d r registry_forget [OF r, of sid] by (simp add: abort_stream_def Let_def)
qed

lemma registry_take:
  assumes "registry_ok l evs key rd reg"
  shows "registry_ok l evs key rd (snd (take_reader_inner sid expected reg))"
proof (cases "hget (sr_inbound reg) sid")
  case (Some a)
  note a = registry_get [OF assms Some]
  let ?r = "if \<not> in_chunks (sr_cells reg a) then reg \<lparr> sr_inbound := hdel sid (sr_inbound reg) \<rparr> else reg"
  have r: "registry_ok l evs key rd ?r" using assms registry_forget by simp
  have "in_reader (sr_cells reg a) = Unclaimed \<Longrightarrow>
      registry_ok l evs key rd (set_cell a (\<lambda>s. s \<lparr> in_reader := Claimed \<rparr>) ?r)"
    by (rule registry_cell [OF r]) (use a(1) cell_claim [OF registry_cell_ok [OF assms a(1)]] in auto)
  then show ?thesis
    using Some assms r by (auto simp: take_reader_inner_def Let_def)
qed (use assms in \<open>simp add: take_reader_inner_def\<close>)

lemma registry_drop_reader:
  assumes "registry_ok l evs key rd reg" and "a < sr_used reg"
  shows "registry_ok l evs key rd (drop_reader a reg)"
  using registry_cell [OF assms, of "\<lambda>s. s \<lparr> in_reader := Gone, in_queue := [] \<rparr>"]
    cell_drop_reader [OF registry_cell_ok [OF assms]] assms(1)
  by (simp add: drop_reader_def)

lemma registry_read:
  assumes "registry_ok l evs key rd reg" and "reader_live a reg" and "next_chunk a reg = (r, reg')"
  shows "registry_ok l evs key (rd(a := rd a @ read_of r)) reg'"
proof (cases "in_queue (sr_cells reg a)")
  case Nil
  then have "read_of r = [] \<and> reg' = reg"
    using assms(3) by (auto simp: next_chunk_def Let_def read_of_def split: if_splits option.splits outcome.splits)
  then show ?thesis using assms(1) by simp
next
  case (Cons c cs)
  have a: "a < sr_used reg" "in_reader (sr_cells reg a) \<noteq> Gone" using assms(2) by (auto simp: reader_live_def)
  have r: "r = ReadChunk c" "reg' = set_cell a (\<lambda>s. s \<lparr> in_queue := cs \<rparr>) reg"
    using assms(3) Cons by (auto simp: next_chunk_def Let_def)
  have "cell_ok l evs a (key a) (rd a @ [c]) ((sr_cells reg a) \<lparr> in_queue := cs \<rparr>)"
    using cell_read [OF registry_cell_ok [OF assms(1) a(1)] Cons a(2)] .
  then show ?thesis
    using assms(1) a(1) by (auto simp: r read_of_def registry_ok_def keys_ok_def task_ok_def set_cell_def)
qed

section \<open>Opening\<close>

lemma registry_reap:
  assumes "registry_ok l evs key rd reg"
  shows "registry_ok l evs key rd (reap now reg)"
proof -
  let ?q = "\<lambda>(sid, a). \<not> \<not> idle_for now (sr_cells reg a) < sl_idle (sr_limits reg)"
  have m: "hmap_ok (sr_inbound reg)" using assms by (simp add: registry_ok_def keys_ok_def)
  then have d: "hmap_ok (filter q (sr_inbound reg))" for q
    by (simp add: hmap_ok_def distinct_map_filter)
  have get: "hget (filter q (sr_inbound reg)) sid = Some a \<Longrightarrow> hget (sr_inbound reg) sid = Some a" for q sid a
    using hget_iff [OF d] hget_iff [OF m] by auto
  have r: "sr_inbound (reap now reg) = filter (\<lambda>(_, a). idle_for now (sr_cells reg a) < sl_idle (sr_limits reg)) (sr_inbound reg)"
    "sr_used (reap now reg) = sr_used reg"
    by (simp_all add: reap_def Let_def)
  have "keys_ok key (reap now reg)"
    unfolding keys_ok_def r using d registry_get [OF assms] get by blast
  moreover have "cell_ok l evs a (key a) (rd a) (sr_cells (reap now reg) a)" if "a < sr_used reg" for a
    using registry_cell_ok [OF assms that] cell_end by (simp add: reap_def Let_def)
  moreover have "in_owner (sr_cells (reap now reg) a) = in_owner (sr_cells reg a)" for a
    by (simp add: reap_def Let_def)
  ultimately show ?thesis
    using assms by (auto simp: registry_ok_def task_ok_def) (simp_all add: reap_def Let_def)
qed

lemma evict_fields [simp]:
  "sr_used (evict e reg) = sr_used reg" "sr_limits (evict e reg) = sr_limits reg"
  "in_chunks (sr_cells (evict e reg) a) = in_chunks (sr_cells reg a)"
  "sr_next_id (evict e reg) = sr_next_id reg"
  by (simp_all add: evict_def set_cell_def finish_def)

lemma registry_evict:
  assumes "registry_ok l evs key rd reg" and "snd e < sr_used reg" and "\<not> in_chunks (sr_cells reg (snd e))"
  shows "registry_ok l evs key rd (evict e reg)"
  unfolding evict_def
  by (rule registry_cell [OF registry_forget [OF assms(1)]])
    (use assms cell_evict registry_cell_ok in auto)

lemma registry_evict_all:
  assumes "registry_ok l evs key rd reg"
    and "\<forall>e \<in> set es. snd e < sr_used reg \<and> \<not> in_chunks (sr_cells reg (snd e))"
  shows "registry_ok l evs key rd (fold evict es reg)"
  using assms
proof (induction es arbitrary: reg)
  case (Cons e es)
  then show ?case using registry_evict [of l evs key rd reg e] by simp
qed simp

lemma evict_all_fields [simp]:
  "sr_used (fold evict es reg) = sr_used reg" "sr_limits (fold evict es reg) = sr_limits reg"
  "sr_next_id (fold evict es reg) = sr_next_id reg"
  by (induction es arbitrary: reg) simp_all

lemma uncollected_sealed:
  assumes "registry_ok l evs key rd reg" and "e \<in> set (uncollected ow reg)"
  shows "snd e < sr_used reg \<and> \<not> in_chunks (sr_cells reg (snd e))"
proof -
  have "e \<in> set (owned_streams ow False reg)"
    using assms(2) set_take_subset by (fastforce simp: uncollected_def Let_def split: if_splits)
  then have "e \<in> set (sr_inbound reg)" "\<not> in_chunks (sr_cells reg (snd e))"
    by (auto simp: owned_streams_def)
  moreover have "hget (sr_inbound reg) (fst e) = Some (snd e)"
    using calculation assms(1) hget_iff [of "sr_inbound reg"] by (simp add: registry_ok_def keys_ok_def)
  ultimately show ?thesis using registry_get(1) [OF assms(1)] by blast
qed

lemma registry_insert:
  assumes "registry_ok l evs key rd reg" and "cell_ok l evs (sr_used reg) sid [] s"
  shows "registry_ok l evs (key(sr_used reg := sid)) rd
    (reg \<lparr> sr_inbound := hput sid (sr_used reg) (sr_inbound reg), sr_used := sr_used reg + 1,
           sr_cells := (sr_cells reg)(sr_used reg := s) \<rparr>)"
proof -
  have "rd (sr_used reg) = []" using assms(1) by (simp add: registry_ok_def)
  then show ?thesis
    using assms
    by (auto simp: registry_ok_def keys_ok_def task_ok_def hm.ok_put hm.get_put less_Suc_eq split: if_splits)
qed

lemma registry_open:
  assumes "registry_ok l evs key rd reg" and "open_stream ss now h member body reg = (res, reg')"
  shows "(sr_used reg' = sr_used reg \<and> registry_ok l evs key rd reg') \<or>
    (sr_used reg' = sr_used reg + 1 \<and>
     registry_ok l evs (key(sr_used reg := stream_id (sr_next_id reg))) rd reg')"
proof -
  let ?r0 = "reap now (reg \<lparr> sr_next_id := u64_add (sr_next_id reg) 1 \<rparr>)"
  let ?r1 = "fold evict (uncollected (h_sender h) ?r0) ?r0"
  have "registry_ok l evs key rd (reg \<lparr> sr_next_id := u64_add (sr_next_id reg) 1 \<rparr>)"
    using assms(1) by (simp add: registry_ok_def keys_ok_def task_ok_def)
  then have r0: "registry_ok l evs key rd ?r0" by (rule registry_reap)
  then have r1: "registry_ok l evs key rd ?r1"
    using registry_evict_all uncollected_sealed by blast
  have u: "sr_used ?r0 = sr_used reg" "sr_used ?r1 = sr_used reg"
    by (simp_all add: reap_def Let_def)
  consider "reg' = reg" | "reg' = ?r0"
    | d where "reg' = ?r1 \<lparr> sr_inbound := hput (stream_id (sr_next_id reg)) (sr_used ?r1) (sr_inbound ?r1),
        sr_used := sr_used ?r1 + 1,
        sr_cells := (sr_cells ?r1)(sr_used ?r1 := inbound_new h d now (sr_limits reg)) \<rparr>"
    using assms(2) unfolding open_stream_def Let_def
    by (auto split: option.splits if_splits)
  then show ?thesis
  proof cases
    case (3 d)
    then show ?thesis
      using registry_insert [OF r1 cell_new, of "stream_id (sr_next_id reg)" h d now] u(2) assms(1)
      by (simp add: registry_ok_def [of l evs key rd reg])
  qed (use assms(1) r0 u in auto)
qed

section \<open>Runs\<close>

lemma used_frames [simp]:
  "sr_used (kill sid a r reg) = sr_used reg"
  "sr_used (snd (write_enter now w reg)) = sr_used reg"
  by (simp_all add: kill_def write_enter_def Let_def)

lemma used_calls:
  "sr_used (snd (write_call ss now h member body reg)) = sr_used reg"
  "sr_used (snd (close_stream ss now h member body reg)) = sr_used reg"
  "sr_used (snd (abort_stream ss now h member body reg)) = sr_used reg"
  unfolding write_call_def close_stream_def abort_stream_def Let_def
  by (simp_all split: json.split list.split option.split sum.split)

lemma registry_dispatch:
  assumes "registry_ok l evs key rd reg" and "SCall now h body \<in> evs"
    and "reg' = snd (stream_dispatch ss now h body reg)"
  shows "registry_ok l evs (if sr_used reg < sr_used reg' then key(sr_used reg := stream_id (sr_next_id reg)) else key)
    rd reg'"
proof (cases "h_member h")
  case None
  then show ?thesis using assms(1,3) by (simp add: stream_dispatch_def)
next
  case (Some mem)
  note d = assms(3) [unfolded stream_dispatch_def Some option.case Let_def]
  have w: "member_str mem = x \<Longrightarrow> h_member h = Some (MemberName x)" for x
    using Some by (cases mem) simp
  consider "member_str mem = ''Open''" | "member_str mem = ''Write''" | "member_str mem = ''Close''"
    | "member_str mem = ''Abort''"
    | "member_str mem \<notin> {''Open'', ''Write'', ''Close'', ''Abort''}" by blast
  then show ?thesis
  proof cases
    case 1
    obtain res r where o: "open_stream ss now h mem body reg = (res, r)" by fastforce
    then have "reg' = r" using d 1 by simp
    then show ?thesis using registry_open [OF assms(1) o] by auto
  next
    case 2
    then have "reg' = snd (write_call ss now h mem body reg)" using d by simp
    then show ?thesis using registry_write [OF assms(1,2) w [OF 2]] used_calls(1) by simp
  next
    case 3
    then have "reg' = snd (close_stream ss now h mem body reg)" using d by simp
    then show ?thesis using registry_close [OF assms(1,2) w [OF 3]] used_calls(2) by simp
  next
    case 4
    then have "reg' = snd (abort_stream ss now h mem body reg)" using d by simp
    then show ?thesis using registry_abort [OF assms(1)] used_calls(3) by simp
  next
    case 5
    then have "reg' = reg" using d by simp
    then show ?thesis using assms(1) by simp
  qed
qed

lemma watch_step_ok:
  assumes "watch_ok l evs w" and "e \<in> evs"
  shows "watch_ok l evs (watch_step ss e w)"
proof -
  note r = assms(1) [unfolded watch_ok_def]
  show ?thesis
  proof (cases e)
    case (SCall now h body)
    then show ?thesis
      using registry_dispatch [OF r, of now h body _ ss] assms(2) by (simp add: watch_ok_def Let_def)
  next
    case (SRead a)
    then show ?thesis
      using registry_read [OF r] assms(1) by (auto simp: watch_ok_def split: prod.split)
  qed (use r registry_resume [OF r] registry_turn [OF r] registry_take [OF r] registry_drop_reader [OF r] in
      \<open>simp_all add: watch_ok_def take_reader_def take_reader_from_def take_reader_opened_by_def\<close>)
qed

lemma watch_new_ok: "watch_ok l evs (watch_new l cells)"
  by (simp add: watch_ok_def registry_ok_def keys_ok_def watch_new_def set_limits_def registry_new_def)

lemma watch_run_ok: "watch_ok l (set evs) (watch ss l cells evs)"
proof -
  have "set es \<subseteq> set evs \<Longrightarrow> watch_ok l (set evs) w \<Longrightarrow> watch_ok l (set evs) (fold (watch_step ss) es w)" for es w
    by (induction es arbitrary: w) (simp_all add: watch_step_ok)
  then show ?thesis using watch_new_ok by (simp add: watch_def)
qed

end
