(* ===== verification/StreamCaps.thy ===== *)
theory StreamCaps
  imports StreamSpec "HOL-Library.Multiset"
begin

text \<open>
  How many streams one peer can have registered: the live ones are capped when one is opened,
  the closed and uncollected ones are evicted oldest first, and nothing else adds entries.
\<close>

definition owned :: "bus_name option \<Rightarrow> registry \<Rightarrow> (string \<times> nat) list" where
  "owned ow reg = filter (\<lambda>(_, a). in_owner (sr_cells reg a) = ow) (sr_inbound reg)"

definition slots_ok :: "stream_limits \<Rightarrow> registry \<Rightarrow> bool" where
  "slots_ok l reg \<longleftrightarrow>
     (\<forall>ow. length (owned_streams ow True reg) \<le> sl_max_streams l \<and>
           length (owned ow reg) \<le> 2 * sl_max_streams l - 1)"

lemma owned_split:
  "length (owned ow reg) = length (owned_streams ow True reg) + length (owned_streams ow False reg)"
proof -
  have "length (filter p xs) = length (filter (\<lambda>x. p x \<and> q x) xs) + length (filter (\<lambda>x. p x \<and> \<not> q x) xs)"
    for p q :: "string \<times> nat \<Rightarrow> bool" and xs
    by (induction xs) auto
  from this [of "\<lambda>(_, a). in_owner (sr_cells reg a) = ow" "sr_inbound reg" "\<lambda>(_, a). in_chunks (sr_cells reg a)"]
  show ?thesis by (simp add: owned_def owned_streams_def case_prod_unfold)
qed

section \<open>Operations that only shrink\<close>

definition shrinks :: "registry \<Rightarrow> registry \<Rightarrow> bool" where
  "shrinks reg reg' \<longleftrightarrow>
     (\<exists>p. sr_inbound reg' = filter p (sr_inbound reg)) \<and>
     (\<forall>a. in_owner (sr_cells reg' a) = in_owner (sr_cells reg a) \<and>
          (in_chunks (sr_cells reg' a) \<longrightarrow> in_chunks (sr_cells reg a)))"

lemma shrinks_refl [simp]: "shrinks reg reg"
  by (auto simp: shrinks_def intro: exI [of _ "\<lambda>_. True"])

lemma shrinks_trans: "shrinks r1 r2 \<Longrightarrow> shrinks r2 r3 \<Longrightarrow> shrinks r1 r3"
  by (auto simp: shrinks_def)

lemma filter_length_mono:
  "(\<And>x. x \<in> set xs \<Longrightarrow> q x \<Longrightarrow> p x) \<Longrightarrow> length (filter q xs) \<le> length (filter p xs)"
  by (induction xs) (auto simp: le_SucI)

lemma shrinks_counts:
  assumes "shrinks reg reg'"
  shows "length (owned ow reg') \<le> length (owned ow reg)"
    "length (owned_streams ow True reg') \<le> length (owned_streams ow True reg)"
  using assms
  by (auto simp: shrinks_def owned_def owned_streams_def intro!: filter_length_mono)

lemma shrinks_slots: "slots_ok l reg \<Longrightarrow> shrinks reg reg' \<Longrightarrow> slots_ok l reg'"
  unfolding slots_ok_def by (meson order_trans shrinks_counts)

lemma shrinks_set_cell:
  assumes "in_owner (f (sr_cells reg a)) = in_owner (sr_cells reg a)"
    and "in_chunks (f (sr_cells reg a)) \<Longrightarrow> in_chunks (sr_cells reg a)"
  shows "shrinks reg (set_cell a f reg)"
  using assms by (auto simp: shrinks_def set_cell_def intro: exI [of _ "\<lambda>_. True"])

lemma shrinks_forget: "shrinks reg (reg \<lparr> sr_inbound := hdel sid (sr_inbound reg) \<rparr>)"
  by (auto simp: shrinks_def AList.delete_eq)

lemma shrinks_waiting: "shrinks reg reg' \<Longrightarrow> shrinks reg (reg' \<lparr> sr_waiting := ts \<rparr>)"
  by (simp add: shrinks_def)

lemma chunks_frames [simp]:
  "in_chunks (finish v s) = in_chunks s" "\<not> in_chunks (seal s)" "in_chunks (touch now s) = in_chunks s"
  "in_chunks (drop_unclaimed s) = in_chunks s"
  by (simp_all add: finish_def seal_def touch_def drop_unclaimed_def)

lemma shrinks_cell:
  assumes "shrinks reg reg'" and "\<And>s. in_owner (f s) = in_owner s" and "\<And>s. in_chunks (f s) \<Longrightarrow> in_chunks s"
  shows "shrinks reg (set_cell a f reg')"
  using shrinks_trans [OF assms(1) shrinks_set_cell] assms(2,3) .

lemma shrinks_kill: "shrinks reg reg' \<Longrightarrow> shrinks reg (kill sid a r reg')"
  unfolding kill_def
  by (rule shrinks_cell [OF shrinks_trans [OF _ shrinks_forget]]) auto

lemma shrinks_cell_forget:
  assumes "\<And>s. in_owner (f s) = in_owner s" and "\<And>s. in_chunks (f s) \<Longrightarrow> in_chunks s"
  shows "shrinks reg ((set_cell a f reg) \<lparr> sr_inbound := hdel sid (sr_inbound reg) \<rparr>)"
  using shrinks_trans [OF shrinks_cell [OF shrinks_refl assms] shrinks_forget, where sid1 = sid] by simp

lemmas shrink_rules = shrinks_cell_forget shrinks_refl shrinks_cell shrinks_kill shrinks_waiting
  shrinks_trans [OF _ shrinks_forget]

lemma shrinks_enter: "shrinks reg reg' \<Longrightarrow> shrinks reg (snd (write_enter now w reg'))"
  unfolding write_enter_def Let_def by (simp, intro conjI impI; intro shrink_rules; simp)

lemma shrinks_resume: "shrinks reg (snd (write_resume now a reg))"
  unfolding write_resume_def Let_def
  by (cases "in_gate (sr_cells reg a)"; simp; intro conjI impI; intro shrink_rules; simp)

lemma shrinks_turn: "shrinks reg (snd (write_turn now a reg))"
  by (auto simp: write_turn_def intro!: shrinks_enter shrink_rules split: option.split)

lemma shrinks_write: "shrinks reg (snd (write_call ss now h member body reg))"
  unfolding write_call_def Let_def
  by (auto intro!: shrinks_enter shrink_rules split: json.split list.split option.split sum.split)

lemma shrinks_close: "shrinks reg (snd (close_stream ss now h member body reg))"
  unfolding close_stream_def Let_def
  by (auto intro!: shrink_rules split: json.split list.split option.split sum.split)

lemma shrinks_abort: "shrinks reg (snd (abort_stream ss now h member body reg))"
  unfolding abort_stream_def Let_def
  by (auto intro!: shrink_rules split: json.split list.split option.split sum.split)

lemma shrinks_take: "shrinks reg (snd (take_reader_inner sid expected reg))"
  unfolding take_reader_inner_def Let_def
  by (auto intro!: shrink_rules split: option.split)

lemma shrinks_drop: "shrinks reg (drop_reader a reg)"
  unfolding drop_reader_def by (auto intro!: shrink_rules)

lemma shrinks_read: "shrinks reg (snd (next_chunk a reg))"
  unfolding next_chunk_def Let_def
  by (auto intro!: shrink_rules split: list.split option.split outcome.split)

section \<open>Opening\<close>

lemma shrinks_reap: "shrinks reg (reap now (reg \<lparr> sr_next_id := n \<rparr>))"
  by (auto simp: shrinks_def reap_def Let_def)

lemma evict_all:
  "sr_inbound (fold evict es reg) = filter (\<lambda>(k, _). k \<notin> fst ` set es) (sr_inbound reg)"
  "in_owner (sr_cells (fold evict es reg) a) = in_owner (sr_cells reg a)"
  "in_chunks (sr_cells (fold evict es reg) a) = in_chunks (sr_cells reg a)"
proof -
  show "in_owner (sr_cells (fold evict es reg) a) = in_owner (sr_cells reg a)"
    by (induction es arbitrary: reg) (auto simp: evict_def set_cell_def)
  show "in_chunks (sr_cells (fold evict es reg) a) = in_chunks (sr_cells reg a)"
    by (induction es arbitrary: reg) auto
  show "sr_inbound (fold evict es reg) = filter (\<lambda>(k, _). k \<notin> fst ` set es) (sr_inbound reg)"
  proof (induction es arbitrary: reg)
    case (Cons e es)
    have e: "sr_inbound (evict e reg) = filter (\<lambda>(k, _). fst e \<noteq> k) (sr_inbound reg)"
      by (simp add: evict_def AList.delete_eq)
    show ?case
      unfolding fold_simps comp_def Cons e by (auto intro: filter_cong)
  qed simp
qed

lemma evict_all_owned:
  "owned_streams ow live (fold evict es reg) =
     filter (\<lambda>(k, _). k \<notin> fst ` set es) (owned_streams ow live reg)"
  by (simp add: owned_streams_def evict_all conj_commute case_prod_unfold)

lemma length_drop_keys:
  assumes "distinct (map fst xs)" and "mset ys = mset xs"
  shows "length (filter (\<lambda>(k, _). k \<notin> fst ` set (take n ys)) xs) = length xs - n"
proof -
  have d: "distinct (map fst ys)"
    using assms by (metis mset_eq_imp_distinct_iff mset_map)
  let ?p = "\<lambda>(k, _). k \<notin> fst ` set (take n ys)"
  have "fst ` set (take n ys) \<inter> fst ` set (drop n ys) = {}"
    using d by (metis append_take_drop_id distinct_append list.set_map map_append)
  then have "filter ?p (take n ys) = [] \<and> filter ?p (drop n ys) = drop n ys"
    by (force simp: filter_empty_conv filter_id_conv)
  then have "filter ?p ys = drop n ys"
    by (metis append_Nil append_take_drop_id filter_append)
  moreover have "mset (filter ?p xs) = mset (filter ?p ys)"
    by (simp only: mset_filter assms(2))
  ultimately show ?thesis
    using assms(2) by (metis length_drop size_mset)
qed

lemma evicted_below_cap:
  assumes "hmap_ok (sr_inbound reg)" and "0 < sl_max_streams (sr_limits reg)"
  shows "length (owned_streams ow False (fold evict (uncollected ow reg) reg)) \<le> sl_max_streams (sr_limits reg) - 1"
proof -
  let ?s = "owned_streams ow False reg"
  let ?m = "sl_max_streams (sr_limits reg)"
  have d: "distinct (map fst ?s)"
    using assms(1) by (simp add: owned_streams_def hmap_ok_def distinct_map_filter)
  show ?thesis
  proof (cases "length ?s \<ge> ?m")
    case True
    then show ?thesis
      using length_drop_keys [OF d, where ys = "sort_key (\<lambda>(_, a). in_last (sr_cells reg a)) ?s"
          and n = "length ?s + 1 - ?m"] assms(2)
      by (simp add: evict_all_owned uncollected_def Let_def)
  next
    case False
    then show ?thesis by (simp add: uncollected_def Let_def)
  qed
qed

lemma length_put:
  "length (filter p (hput k v m)) \<le> length (filter p m) + (if p (k, v) then 1 else 0)"
  by (induction m) auto

lemma slots_open:
  assumes "slots_ok l reg" and "registry_ok l evs key rd reg"
  shows "slots_ok l (snd (open_stream ss now h member body reg))"
proof -
  let ?r0 = "reap now (reg \<lparr> sr_next_id := u64_add (sr_next_id reg) 1 \<rparr>)"
  let ?ow = "h_sender h"
  let ?r1 = "fold evict (uncollected ?ow ?r0) ?r0"
  let ?a = "sr_used reg" and ?k = "stream_id (sr_next_id reg)"
  have s0: "slots_ok l ?r0" using shrinks_slots [OF assms(1) shrinks_reap] .
  then have bound: "length (owned_streams ow True ?r0) \<le> sl_max_streams l"
    "length (owned ow ?r0) \<le> 2 * sl_max_streams l - 1" for ow
    unfolding slots_ok_def by blast+
  have "registry_ok l evs key rd (reg \<lparr> sr_next_id := u64_add (sr_next_id reg) 1 \<rparr>)"
    using assms(2) by (simp add: registry_ok_def keys_ok_def task_ok_def)
  then have k0: "registry_ok l evs key rd ?r0" by (rule registry_reap)
  then have l0: "sr_limits ?r0 = l" "sr_used ?r0 = ?a"
    by (simp_all add: registry_ok_def reap_def Let_def)
  have k1: "registry_ok l evs key rd ?r1"
    using registry_evict_all [OF k0] uncollected_sealed [OF k0] by blast
  define n where "n s = ?r1 \<lparr> sr_inbound := hput ?k ?a (sr_inbound ?r1), sr_used := ?a + 1,
      sr_cells := (sr_cells ?r1)(?a := s) \<rparr>" for s
  have grown: "slots_ok l (n s)"
    if live: "length (owned_streams ?ow True ?r0) < sl_max_streams l" and s: "in_owner s = ?ow" for s
  proof -
    have old: "a \<noteq> ?a" if "(k, a) \<in> set (sr_inbound ?r1)" for k a
      using that k1 hget_iff [of "sr_inbound ?r1" k a] l0(2)
      by (auto simp: registry_ok_def keys_ok_def)
    have count: "length (filter (\<lambda>(_, a). q a (sr_cells (n s) a)) (sr_inbound (n s))) \<le>
        length (filter (\<lambda>(_, a). q a (sr_cells ?r1 a)) (sr_inbound ?r1)) + (if q ?a s then 1 else 0)" for q
    proof -
      have "filter (\<lambda>(_, a). q a (sr_cells (n s) a)) (sr_inbound ?r1) =
          filter (\<lambda>(_, a). q a (sr_cells ?r1 a)) (sr_inbound ?r1)"
        using old by (auto simp: n_def intro!: filter_cong)
      then show ?thesis
        using length_put [of "\<lambda>(_, a). q a (sr_cells (n s) a)" ?k ?a "sr_inbound ?r1"] by (simp add: n_def)
    qed
    have live1: "owned_streams ow True ?r1 = filter (\<lambda>(k, _). k \<notin> fst ` set (uncollected ?ow ?r0)) (owned_streams ow True ?r0)" for ow
      by (rule evict_all_owned)
    have cap: "length (owned_streams ?ow False ?r1) \<le> sl_max_streams l - 1"
      using evicted_below_cap [of ?r0 ?ow] k0 live by (simp add: registry_ok_def keys_ok_def l0)
    have own1: "length (owned ow ?r1) \<le> length (owned ow ?r0)" for ow
      by (auto simp: owned_def evict_all conj_commute case_prod_unfold intro!: filter_length_mono)
    show ?thesis
      unfolding slots_ok_def
    proof (intro allI conjI)
      fix ow
      have "length (owned_streams ow True (n s)) \<le> length (owned_streams ow True ?r1) + (if ow = ?ow then 1 else 0)"
        using count [of "\<lambda>_ c. in_owner c = ow \<and> in_chunks c"] s by (auto simp: owned_streams_def split: if_splits)
      moreover have "length (owned_streams ow True ?r1) \<le> length (owned_streams ow True ?r0)"
        unfolding live1 by simp
      ultimately show "length (owned_streams ow True (n s)) \<le> sl_max_streams l"
        using live bound(1) [of ow] by (cases "ow = ?ow") auto
      have o: "length (owned ow (n s)) \<le> length (owned ow ?r1) + (if ow = ?ow then 1 else 0)"
        using count [of "\<lambda>_ c. in_owner c = ow"] s by (auto simp: owned_def split: if_splits)
      show "length (owned ow (n s)) \<le> 2 * sl_max_streams l - 1"
      proof (cases "ow = ?ow")
        case True
        have "length (owned_streams ow True ?r1) \<le> sl_max_streams l - 1"
          using live True unfolding live1 by (metis (no_types, lifting) One_nat_def Suc_diff_1 length_filter_le
              less_Suc_eq_le less_nat_zero_code not_gr_zero order_trans)
        then show ?thesis using o cap True owned_split [of ow ?r1] live by simp
      next
        case False
        then show ?thesis using o own1 [of ow] bound(2) [of ow] by simp
      qed
    qed
  qed
  show ?thesis
    using assms(1) s0 grown l0 assms(2)
    unfolding open_stream_def Let_def n_def
    by (auto simp: registry_ok_def [of l evs key rd reg] inbound_new_def split: option.split)
qed

lemma slots_step:
  assumes "slots_ok l (wt_reg w)" and "watch_ok l evs w"
  shows "slots_ok l (wt_reg (watch_step ss e w))"
proof (cases e)
  case (SCall now h body)
  have "slots_ok l (snd (stream_dispatch ss now h body (wt_reg w)))"
    using assms slots_open shrinks_slots [OF assms(1) shrinks_write] shrinks_slots [OF assms(1) shrinks_close]
      shrinks_slots [OF assms(1) shrinks_abort]
    by (auto simp: stream_dispatch_def Let_def watch_ok_def split: option.split)
  then show ?thesis using SCall by (simp add: Let_def)
next
  case (SRead a)
  then show ?thesis
    using assms(1) shrinks_slots [OF assms(1) shrinks_read, of a]
    by (auto split: prod.split)
qed (use assms(1) shrinks_slots [OF assms(1)] shrinks_resume shrinks_turn shrinks_take shrinks_drop in
    \<open>auto simp: take_reader_def take_reader_from_def take_reader_opened_by_def\<close>)

lemma slots_run: "slots_ok l (wt_reg (watch ss l cells evs))"
proof -
  have "set es \<subseteq> set evs \<Longrightarrow> watch_ok l (set evs) w \<Longrightarrow> slots_ok l (wt_reg w) \<Longrightarrow>
      slots_ok l (wt_reg (fold (watch_step ss) es w))" for es w
    by (induction es arbitrary: w) (simp_all add: slots_step watch_step_ok)
  moreover have "slots_ok l (wt_reg (watch_new l cells))"
    by (simp add: slots_ok_def owned_def owned_streams_def watch_new_def set_limits_def registry_new_def)
  ultimately show ?thesis using watch_new_ok by (simp add: watch_def)
qed

end
