(* ===== verification/StreamTransfer.thy ===== *)
theory StreamTransfer
  imports StreamCaps
begin

text \<open>
  A whole transfer: the sender's \<open>StreamWriter\<close> against the receiver's registry, with a reader
  that reads only when the window makes the sender wait. The writer relies on an interface
  (\<open>chunk_sink\<close>): a write of the next chunk is accepted and appended, a close at the right length
  succeeds.
\<close>

section \<open>The interface of the writer\<close>

locale chunk_sink =
  fixes call :: "'s caller" and sid :: string and capacity :: nat
    and ready :: "'s \<Rightarrow> bool" and closed :: "'s \<Rightarrow> bool" and content :: "'s \<Rightarrow> bytes list"
  assumes write_ok:
    "ready s \<Longrightarrow> bytes_in (content s) + length c \<le> capacity \<Longrightarrow> length c \<le> MAX_CHUNK_LEN \<Longrightarrow>
     length (content s) + 1 < 2 ^ 64 \<Longrightarrow>
     \<exists>s'. call ''Write'' (JArray [JString sid, JNumber (show_nat (length (content s))), JString (b64_encode c)]) s
            = (Inr JNull, s') \<and> ready s' \<and> content s' = content s @ [c]"
    and close_ok:
    "ready s \<Longrightarrow> \<exists>s'. call ''Close'' (JArray [JString sid, JNumber (show_nat (bytes_in (content s)))]) s
            = (Inr JNull, s') \<and> closed s' \<and> content s' = content s"
    and capacity_u64: "capacity < 2 ^ 64"
begin

text \<open>The writer's counters agree with what the sink holds.\<close>

definition in_step :: "stream_writer \<times> 's \<Rightarrow> bool" where
  "in_step ws \<longleftrightarrow>
     ready (snd ws) \<and> sw_id (fst ws) = sid \<and> sw_seq (fst ws) = length (content (snd ws)) \<and>
     sw_sent (fst ws) = bytes_in (content (snd ws)) \<and>
     length (content (snd ws)) \<le> bytes_in (content (snd ws))"

lemma write_chunk_ok:
  assumes "in_step (w, s)" and "bytes_in (content s) + length c \<le> capacity"
    and "c \<noteq> []" and "length c \<le> MAX_CHUNK_LEN"
  shows "\<exists>w' s'. write_chunk call c (w, s) = (Inr (), w', s') \<and> in_step (w', s') \<and> content s' = content s @ [c] \<and>
    sw_content_type w' = sw_content_type w"
proof -
  have r: "ready s" "sw_id w = sid" "sw_seq w = length (content s)" "sw_sent w = bytes_in (content s)"
    "length (content s) \<le> bytes_in (content s)"
    using assms(1) by (auto simp: in_step_def)
  have c: "1 \<le> length c" using assms(3) by (cases c) auto
  then have len: "length (content s) + 1 < 2 ^ 64" "bytes_in (content s) + length c < 2 ^ 64"
    using r(5) assms(2) capacity_u64 by linarith+
  obtain s' where s': "call ''Write'' (JArray [JString sid, JNumber (show_nat (length (content s))),
      JString (b64_encode c)]) s = (Inr JNull, s')" "ready s'" "content s' = content s @ [c]"
    using write_ok [OF r(1) assms(2,4) len(1)] by blast
  show ?thesis
    using r c len s' assms(4) by (auto simp: write_chunk_def in_step_def)
qed

lemma write_chunks_ok:
  assumes "in_step (w, s)" and "bytes_in (content s) + bytes_in cs \<le> capacity"
    and "\<forall>c \<in> set cs. c \<noteq> [] \<and> length c \<le> MAX_CHUNK_LEN"
  shows "\<exists>w' s'. write_chunks call cs (w, s) = (Inr (), w', s') \<and> in_step (w', s') \<and> content s' = content s @ cs \<and>
    sw_content_type w' = sw_content_type w"
  using assms
proof (induction cs arbitrary: w s)
  case (Cons c cs)
  have b: "bytes_in (c # cs) = length c + bytes_in cs" by (simp add: bytes_in_def)
  obtain w1 s1 where 1: "write_chunk call c (w, s) = (Inr (), w1, s1)" "in_step (w1, s1)"
    "content s1 = content s @ [c]" "sw_content_type w1 = sw_content_type w"
    using write_chunk_ok [OF Cons.prems(1), of c] Cons.prems(2,3) b by auto
  then show ?case
    using Cons.IH [OF 1(2)] Cons.prems(2,3) b by auto
qed auto

lemma write_finish_ok:
  assumes "in_step (w, s)" and "content s = []" and "length bs \<le> capacity"
  shows "\<exists>w' s' s''. write_bytes call bs (w, s) = (Inr (), w', s') \<and>
    writer_finish call (w', s') = (Inr \<lparr> sf_id = sid, sf_content_type = sw_content_type w,
      sf_len = Some (length bs) \<rparr>, s'') \<and> closed s'' \<and> concat (content s'') = bs"
proof -
  have cc: "concat (chunks MAX_CHUNK_LEN bs) = bs" by (rule concat_chunks) (simp add: MAX_CHUNK_LEN_def)
  then have b: "bytes_in (chunks MAX_CHUNK_LEN bs) = length bs"
    by (metis bytes_in_def length_concat)
  obtain w' s' where w': "write_bytes call bs (w, s) = (Inr (), w', s')" "in_step (w', s')"
    "content s' = chunks MAX_CHUNK_LEN bs" "sw_content_type w' = sw_content_type w"
    using write_chunks_ok [OF assms(1), of "chunks MAX_CHUNK_LEN bs"] assms(2,3) b chunks_lengths
    by (fastforce simp: write_bytes_def)
  obtain s'' where s'': "call ''Close'' (JArray [JString sid, JNumber (show_nat (bytes_in (content s')))]) s'
      = (Inr JNull, s'')" "closed s''" "content s'' = content s'"
    using close_ok [of s'] w'(2) by (auto simp: in_step_def)
  have "writer_finish call (w', s') = (Inr \<lparr> sf_id = sid, sf_content_type = sw_content_type w,
      sf_len = Some (length bs) \<rparr>, s'')"
    using w' s'' b by (simp add: writer_finish_def in_step_def)
  then show ?thesis using w'(1) s''(2,3) w'(3) cc by fastforce
qed

end

section \<open>A receiver that reads when it must\<close>

text \<open>
  One call of the sender, executed to its reply: when the write parks on the full window, the
  reader takes one chunk, which wakes the write.
\<close>

definition lazy_peer :: "stream_serde \<Rightarrow> nat \<Rightarrow> header \<Rightarrow> nat \<Rightarrow> (registry \<times> bytes list) caller" where
  "lazy_peer ss now h a m body st =
     (case st of (reg, got) \<Rightarrow>
        (case stream_dispatch ss now (h \<lparr> h_member := Some (MemberName m) \<rparr>) body reg of
           (Replied r, reg1) \<Rightarrow> (r, reg1, got)
         | (_, reg1) \<Rightarrow>
             (case next_chunk a reg1 of (x, reg2) \<Rightarrow>
                (case write_resume now a reg2 of
                   (Replied r, reg3) \<Rightarrow> (r, reg3, got @ read_of x)
                 | (_, reg3) \<Rightarrow> (Inl (Timeout (MemberName m) 0), reg3, got @ read_of x)))))"

definition receiving :: "header \<Rightarrow> nat \<Rightarrow> string \<Rightarrow> nat \<Rightarrow> registry \<times> bytes list \<Rightarrow> bool" where
  "receiving h a sid cap st \<longleftrightarrow>
     (case st of (reg, got) \<Rightarrow> let s = sr_cells reg a; cs = got @ in_queue s in
        hget (sr_inbound reg) sid = Some a \<and> in_owner s = h_sender h \<and> in_chunks s \<and>
        in_gate s = None \<and> (\<forall>w \<in> set (sr_waiting reg). cw_cell w \<noteq> a) \<and>
        in_reader s = Claimed \<and> \<not> in_aborted s \<and> in_outcome s = None \<and> 0 < in_window s \<and> length (in_queue s) \<le> in_window s \<and>
        in_next_seq s = length cs \<and> in_received s = bytes_in cs \<and>
        cap \<le> sl_max_len (sr_limits reg) \<and> (\<forall>d. in_declared s = Some d \<longrightarrow> cap \<le> d) \<and>
        cap < 2 ^ 64 \<and> bytes_in cs \<le> cap)"

definition received_all :: "nat \<Rightarrow> registry \<times> bytes list \<Rightarrow> bool" where
  "received_all a st \<longleftrightarrow>
     (let s = sr_cells (fst st) a in
      \<not> in_chunks s \<and> in_gate s = None \<and> in_outcome s = Some Complete)"

definition got_so_far :: "nat \<Rightarrow> registry \<times> bytes list \<Rightarrow> bytes list" where
  "got_so_far a st = snd st @ in_queue (sr_cells (fst st) a)"

lemma lazy_write:
  assumes "receiving h a sid cap st" and "bytes_in (got_so_far a st) + length c \<le> cap"
    and "length c \<le> MAX_CHUNK_LEN" and "length (got_so_far a st) + 1 < 2 ^ 64"
  shows "\<exists>st'. lazy_peer ss now h a ''Write''
      (JArray [JString sid, JNumber (show_nat (length (got_so_far a st))), JString (b64_encode c)]) st = (Inr JNull, st') \<and>
    receiving h a sid cap st' \<and> got_so_far a st' = got_so_far a st @ [c]"
proof -
  obtain reg got where st: "st = (reg, got)" by fastforce
  let ?s = "sr_cells reg a"
  let ?n = "length (got @ in_queue ?s)"
  let ?w = "\<lparr> cw_id = sid, cw_cell = a, cw_seq = ?n, cw_chunk = c, cw_max_len = sl_max_len (sr_limits reg) \<rparr>"
  note r = assms(1) [unfolded receiving_def st prod.case Let_def]
  have n: "json_u64 (JNumber (show_nat ?n)) = Some ?n"
    using assms(4) by (intro json_u64_show) (simp add: st got_so_far_def)
  have b: "b64_decode (b64_encode c) = Inr c" by (rule b64.dec_enc) simp
  have fits: "u64_add (in_received ?s) (length c) = bytes_in (got @ in_queue ?s) + length c"
    using r assms(2) by (simp add: st got_so_far_def)
  have seq: "u64_add (in_next_seq ?s) 1 = ?n + 1"
    using r assms(4) by (simp add: st got_so_far_def)
  have ok: "\<not> (bytes_in got + bytes_in (in_queue ?s) + length c > sl_max_len (sr_limits reg) \<or>
      (case in_declared ?s of None \<Rightarrow> False | Some tot \<Rightarrow> bytes_in got + bytes_in (in_queue ?s) + length c > tot))"
    using r assms(2) by (auto simp: st got_so_far_def split: option.split)
  have call: "stream_dispatch ss now (h \<lparr> h_member := Some (MemberName ''Write'') \<rparr>)
      (JArray [JString sid, JNumber (show_nat ?n), JString (b64_encode c)]) reg = write_enter now ?w reg"
    using r n b assms(3) by (simp add: stream_dispatch_def write_call_def Let_def lookup_def)
  show ?thesis
  proof (cases "length (in_queue ?s) < in_window ?s")
    case True
    have "write_enter now ?w reg = (Replied (Inr JNull),
        set_cell a (\<lambda>_. push now c (accept now ?w ?s)) reg)"
      using r True fits ok
      by (simp add: write_enter_def Let_def set_cell_def push_def accept_def touch_def)
    then have "lazy_peer ss now h a ''Write'' (JArray [JString sid, JNumber (show_nat ?n), JString (b64_encode c)]) st =
        (Inr JNull, set_cell a (\<lambda>_. push now c (accept now ?w ?s)) reg, got)"
      unfolding lazy_peer_def st prod.case call by simp
    then show ?thesis
      using r True fits seq assms(2)
      by (auto simp: st got_so_far_def receiving_def Let_def push_def accept_def touch_def bytes_in_def)
  next
    case False
    then obtain q qs where q: "in_queue ?s = q # qs" using r by (cases "in_queue ?s") auto
    let ?p = "(accept now ?w ?s) \<lparr> in_gate := Some ?w \<rparr>"
    have e: "write_enter now ?w reg = (AtWindow, set_cell a (\<lambda>_. ?p) reg)"
      using r False fits ok
      by (simp add: write_enter_def Let_def set_cell_def accept_def touch_def)
    have nx: "next_chunk a (set_cell a (\<lambda>_. ?p) reg) =
        (ReadChunk q, set_cell a (\<lambda>_. ?p \<lparr> in_queue := qs \<rparr>) reg)"
      by (simp add: next_chunk_def Let_def accept_def touch_def q set_cell_def)
    have rs: "write_resume now a (set_cell a (\<lambda>_. ?p \<lparr> in_queue := qs \<rparr>) reg) =
        (Replied (Inr JNull), set_cell a (\<lambda>_. push now c ((accept now ?w ?s) \<lparr> in_gate := None, in_queue := qs \<rparr>)) reg)"
      using r q by (simp add: write_resume_def Let_def accept_def touch_def push_def set_cell_def)
    have "lazy_peer ss now h a ''Write'' (JArray [JString sid, JNumber (show_nat ?n), JString (b64_encode c)]) st =
        (Inr JNull, set_cell a (\<lambda>_. push now c ((accept now ?w ?s) \<lparr> in_gate := None, in_queue := qs \<rparr>)) reg, got @ [q])"
      unfolding lazy_peer_def st prod.case call e nx rs by (simp add: read_of_def nx rs)
    then show ?thesis
      using r fits seq q assms(2)
      by (auto simp: st got_so_far_def receiving_def Let_def push_def accept_def touch_def bytes_in_def)
  qed
qed

lemma lazy_close:
  assumes "receiving h a sid cap st"
  shows "\<exists>st'. lazy_peer ss now h a ''Close''
      (JArray [JString sid, JNumber (show_nat (bytes_in (got_so_far a st)))]) st = (Inr JNull, st') \<and>
    received_all a st' \<and> got_so_far a st' = got_so_far a st"
proof -
  obtain reg got where st: "st = (reg, got)" by fastforce
  note r = assms(1) [unfolded receiving_def st prod.case Let_def]
  let ?n = "bytes_in (got_so_far a st)"
  have "?n < 2 ^ 64" using r by (simp add: st got_so_far_def)
  note n = json_u64_show [OF this]
  have "stream_dispatch ss now (h \<lparr> h_member := Some (MemberName ''Close'') \<rparr>) (JArray [JString sid, JNumber (show_nat ?n)]) reg =
      (Replied (Inr JNull), set_cell a (\<lambda>s. seal (finish Complete (touch now s))) reg)"
    using r n by (simp add: stream_dispatch_def close_stream_def Let_def lookup_def st got_so_far_def)
  then have "lazy_peer ss now h a ''Close'' (JArray [JString sid, JNumber (show_nat ?n)]) st =
      (Inr JNull, set_cell a (\<lambda>s. seal (finish Complete (touch now s))) reg, got)"
    by (simp add: lazy_peer_def st)
  then show ?thesis
    using r by (simp add: st got_so_far_def received_all_def Let_def seal_def finish_def touch_def)
qed

interpretation lazy: chunk_sink "lazy_peer ss now h a" sid "cap mod 2 ^ 64" "receiving h a sid (cap mod 2 ^ 64)"
    "received_all a" "got_so_far a"
  by unfold_locales (blast intro: lazy_write lazy_close | simp)+

section \<open>Draining\<close>

lemma read_capped_rest:
  assumes "\<not> in_chunks (sr_cells reg a)" "in_gate (sr_cells reg a) = None" "in_outcome (sr_cells reg a) = Some Complete"
    and "length out + bytes_in (in_queue (sr_cells reg a)) \<le> limit"
  shows "fst (read_capped limit a out reg) = (out @ concat (in_queue (sr_cells reg a)), ReadEnd)"
  using assms
proof (induction "in_queue (sr_cells reg a)" arbitrary: out reg)
  case Nil
  then show ?case by (simp add: read_capped.simps [of limit a out reg] next_chunk_def Let_def)
next
  case (Cons c cs)
  let ?r = "set_cell a (\<lambda>s. s \<lparr> in_queue := cs \<rparr>) reg"
  have n: "next_chunk a reg = (ReadChunk c, ?r)"
    using Cons.hyps(2) [symmetric] by (simp add: next_chunk_def Let_def)
  have "fst (read_capped limit a (out @ c) ?r) = ((out @ c) @ concat (in_queue (sr_cells ?r a)), ReadEnd)"
    by (rule Cons.hyps(1)) (use Cons.prems Cons.hyps(2) [symmetric] in \<open>simp_all add: bytes_in_def\<close>)
  then show ?case
    using n Cons.prems(4) Cons.hyps(2) [symmetric]
    by (simp add: read_capped.simps [of limit a out reg] bytes_in_def)
qed

end
