(* ===== verification/StreamProps.thy ===== *)
theory StreamProps
  imports StreamTransfer
begin

text \<open>
  What streams promise: nothing but the opener's chunks, in order and complete; only the opener
  can touch a stream; bounded memory; a whole transfer delivers exactly the bytes sent.
\<close>

section \<open>A stream just opened and claimed\<close>

lemma opened:
  assumes "registry_ok l evs key rds reg" and "open_stream ss now h m (JArray [v]) reg = (Inr (JString sid), reg1)"
    and "ss_descriptor ss v = Some d"
  shows "hget (sr_inbound reg1) sid = Some (sr_used reg)"
    "sr_cells reg1 (sr_used reg) = inbound_new h d now l"
    "\<forall>w \<in> set (sr_waiting reg1). cw_cell w \<noteq> sr_used reg" "sr_limits reg1 = l"
proof -
  let ?r0 = "reap now (reg \<lparr> sr_next_id := u64_add (sr_next_id reg) 1 \<rparr>)"
  let ?r1 = "fold evict (uncollected (h_sender h) ?r0) ?r0"
  have l: "sr_limits reg = l" using assms(1) by (simp add: registry_ok_def)
  have u: "sr_used ?r1 = sr_used reg" "sr_limits ?r1 = l" by (simp_all add: reap_def Let_def l)
  have "sr_waiting (fold evict es r) = sr_waiting r" for es r
    by (induction es arbitrary: r) (simp_all add: evict_def)
  then have w: "sr_waiting ?r1 = sr_waiting reg" by (simp add: reap_def Let_def)
  have tasks: "\<forall>t \<in> set (sr_waiting reg). cw_cell t < sr_used reg"
    using assms(1) by (auto simp: registry_ok_def task_ok_def)
  have "reg1 = ?r1 \<lparr> sr_inbound := hput sid (sr_used ?r1) (sr_inbound ?r1), sr_used := sr_used ?r1 + 1,
      sr_cells := (sr_cells ?r1)(sr_used ?r1 := inbound_new h d now l) \<rparr>"
    using assms(2,3) l by (auto simp: open_stream_def Let_def split: if_splits option.splits)
  then show "hget (sr_inbound reg1) sid = Some (sr_used reg)"
    "sr_cells reg1 (sr_used reg) = inbound_new h d now l"
    "\<forall>w \<in> set (sr_waiting reg1). cw_cell w \<noteq> sr_used reg" "sr_limits reg1 = l"
    using u w tasks by (auto simp: hm.get_put)
qed

lemma opened_receiving:
  assumes "registry_ok l evs key rds reg" and "open_stream ss now h m (JArray [v]) reg = (Inr (JString sid), reg1)"
    and "ss_descriptor ss v = Some d" and "take_reader sid reg1 = (Inr rd, reg2)"
    and "cap \<le> sl_max_len l" "\<forall>n. sd_total_len d = Some n \<longrightarrow> cap \<le> n" "cap < 2 ^ 64"
  shows "rr_cell rd = sr_used reg \<and> receiving h (sr_used reg) sid cap (reg2, []) \<and>
    got_so_far (sr_used reg) (reg2, []) = []"
proof -
  note o = opened [OF assms(1-3)]
  have "rr_cell rd = sr_used reg \<and> reg2 = set_cell (sr_used reg) (\<lambda>s. s \<lparr> in_reader := Claimed \<rparr>) reg1"
    using assms(4) o(1,2) by (auto simp: take_reader_def take_reader_inner_def Let_def inbound_new_def)
  then show ?thesis
    using o assms(5-7) by (simp add: receiving_def got_so_far_def Let_def inbound_new_def bytes_in_def)
qed

section \<open>Samples\<close>

definition any_serde :: stream_serde where
  "any_serde = \<lparr> ss_descriptor = (\<lambda>_. Some \<lparr> sd_content_type = None, sd_total_len = None \<rparr>),
     ss_error = (\<lambda>_. ''bad'') \<rparr>"

definition small_limits :: stream_limits where
  "small_limits = \<lparr> sl_max_len = 100, sl_max_streams = 1, sl_window = 1, sl_idle = 10 \<rparr>"

definition blank :: "nat \<Rightarrow> inbound" where
  "blank a = inbound_new (m_header sample_call) \<lparr> sd_content_type = None, sd_total_len = None \<rparr> 0 small_limits"

definition peer_header :: "nat \<Rightarrow> string \<Rightarrow> header" where
  "peer_header i m = (m_header sample_call) \<lparr> h_sender := Some (unique_name i), h_member := Some (MemberName m) \<rparr>"

definition open_event :: stream_event where
  "open_event = SCall 0 (peer_header 1 ''Open'') (JArray [JNull])"

definition write_event :: stream_event where
  "write_event = SCall 1 (peer_header 1 ''Write'')
     (JArray [JString ''s1'', JNumber (show_nat 0), JString (b64_encode [7])])"

definition close_event :: stream_event where
  "close_event = SCall 2 (peer_header 1 ''Close'') (JArray [JString ''s1'', JNumber (show_nat 1)])"

text \<open>The stream of peer 1 after its opening: alone in the registry, under the key s1.\<close>

definition opened_cell :: inbound where
  "opened_cell = inbound_new (peer_header 1 ''Open'') \<lparr> sd_content_type = None, sd_total_len = None \<rparr> 0 small_limits"

definition one_stream :: "inbound \<Rightarrow> (string \<times> nat) list \<Rightarrow> registry" where
  "one_stream s ids = \<lparr> sr_limits = small_limits, sr_inbound = ids, sr_next_id = 2,
     sr_cells = (\<lambda>a. blank a)(0 := s), sr_used = 1, sr_waiting = [] \<rparr>"

lemma stream_id_one: "stream_id 1 = ''s1''" "stream_id (Suc 0) = ''s1''"
  by code_simp+

lemma watch_open:
  "watch any_serde small_limits blank [open_event] =
     \<lparr> wt_reg = one_stream opened_cell [(''s1'', 0)], wt_read = (\<lambda>_. []), wt_key = (\<lambda>_. '''')(0 := ''s1'') \<rparr>"
  by (simp add: watch_def watch_new_def open_event_def peer_header_def stream_dispatch_def open_stream_def
      any_serde_def Let_def set_limits_def registry_new_def small_limits_def reap_def owned_streams_def
      uncollected_def one_stream_def opened_cell_def stream_id_one)

lemma open_result:
  "open_stream any_serde 0 (peer_header 1 ''Open'') (MemberName ''Open'') (JArray [JNull])
      (wt_reg (watch any_serde small_limits blank [])) = (Inr (JString ''s1''), one_stream opened_cell [(''s1'', 0)])"
  by (simp add: watch_def watch_new_def peer_header_def open_stream_def
      any_serde_def Let_def set_limits_def registry_new_def small_limits_def reap_def owned_streams_def
      uncollected_def one_stream_def opened_cell_def stream_id_one)

lemma json_zero: "json_u64 (JNumber (show_nat 0)) = Some 0" "json_u64 (JNumber (show_nat 1)) = Some 1"
  by (rule json_u64_show, simp)+

definition written_cell :: inbound where
  "written_cell = opened_cell \<lparr> in_next_seq := 1, in_received := 1, in_queue := [[7]], in_last := 1 \<rparr>"

lemma watch_write:
  "watch_step any_serde write_event
     \<lparr> wt_reg = one_stream opened_cell [(''s1'', 0)], wt_read = rd, wt_key = k \<rparr> =
   \<lparr> wt_reg = one_stream written_cell [(''s1'', 0)], wt_read = rd, wt_key = k \<rparr>"
proof -
  have "b64_decode (b64_encode [7]) = Inr [7]" by (rule b64.dec_enc) simp
  then have "snd (stream_dispatch any_serde 1 (peer_header 1 ''Write'')
      (JArray [JString ''s1'', JNumber (show_nat 0), JString (b64_encode [7])]) (one_stream opened_cell [(''s1'', 0)])) =
      one_stream written_cell [(''s1'', 0)]"
    using json_zero(1)
    by (simp add: stream_dispatch_def write_call_def Let_def lookup_def one_stream_def peer_header_def
        opened_cell_def written_cell_def inbound_new_def write_enter_def MAX_CHUNK_LEN_def small_limits_def
        set_cell_def touch_def)
  then show ?thesis
    by (simp add: write_event_def Let_def one_stream_def)
qed

definition closed_cell :: inbound where
  "closed_cell = written_cell \<lparr> in_last := 2, in_outcome := Some Complete, in_chunks := False \<rparr>"

lemma watch_close:
  "watch_step any_serde close_event
     \<lparr> wt_reg = one_stream written_cell [(''s1'', 0)], wt_read = rd, wt_key = k \<rparr> =
   \<lparr> wt_reg = one_stream closed_cell [(''s1'', 0)], wt_read = rd, wt_key = k \<rparr>"
proof -
  have "snd (stream_dispatch any_serde 2 (peer_header 1 ''Close'')
      (JArray [JString ''s1'', JNumber (show_nat 1)]) (one_stream written_cell [(''s1'', 0)])) =
      one_stream closed_cell [(''s1'', 0)]"
    using json_zero(2)
    by (simp add: stream_dispatch_def close_stream_def Let_def lookup_def one_stream_def peer_header_def
        opened_cell_def written_cell_def closed_cell_def inbound_new_def set_cell_def touch_def seal_def finish_def)
  then show ?thesis
    by (simp add: close_event_def Let_def one_stream_def)
qed

definition read_cell :: inbound where
  "read_cell = closed_cell \<lparr> in_reader := Claimed, in_queue := [] \<rparr>"

text \<open>Open, write, close, take, read: the reader is then at a clean end.\<close>

lemma watch_whole:
  "watch any_serde small_limits blank [open_event, write_event, close_event, STake ''s1'', SRead 0] =
     \<lparr> wt_reg = one_stream read_cell [], wt_read = (\<lambda>_. [])(0 := [[7]]), wt_key = (\<lambda>_. '''')(0 := ''s1'') \<rparr>"
proof -
  have w: "watch any_serde small_limits blank [open_event, write_event, close_event, STake ''s1'', SRead 0] =
      fold (watch_step any_serde) [write_event, close_event, STake ''s1'', SRead 0]
        (watch any_serde small_limits blank [open_event])"
    by (simp add: watch_def)
  show ?thesis
    unfolding w watch_open fold_simps comp_def watch_write watch_close
    by (simp add: take_reader_def take_reader_inner_def Let_def one_stream_def reader_live_def next_chunk_def
        set_cell_def read_of_def closed_cell_def read_cell_def written_cell_def opened_cell_def inbound_new_def)
qed

section \<open>Properties\<close>



text \<open>
  Only the peer that opened a stream can write to it, close it or abort it: for anybody else
  the answer is that of an id that does not exist, and nothing changes.
\<close>

theorem only_the_opener:
  assumes "\<And>a. hget (sr_inbound reg) sid = Some a \<Longrightarrow> in_owner (sr_cells reg a) \<noteq> h_sender h"
    and "(m = ''Write'' \<and> body = JArray [JString sid, JNumber (show_nat k), JString data]) \<or>
      (m = ''Close'' \<and> body = JArray [JString sid, JNumber (show_nat k)]) \<or> (m = ''Abort'' \<and> body = JArray [JString sid])"
    and "h_member h = Some (MemberName m)" and "k < 2 ^ 64"
  shows "stream_dispatch ss now h body reg = (Replied (Inl (UnknownStream sid)), reg)"
proof -
  have "lookup sid h reg = Inl (UnknownStream sid)"
    using assms(1) by (simp add: lookup_def split: option.split)
  then show ?thesis
    using assms(2,3) json_u64_show [OF assms(4)]
    by (auto simp: stream_dispatch_def write_call_def close_stream_def abort_stream_def Let_def)
qed

theorem only_the_opener_witness:
  "stream_dispatch any_serde 5 (peer_header 2 ''Abort'') (JArray [JString ''s1''])
     (one_stream opened_cell [(''s1'', 0)]) =
   (Replied (Inl (UnknownStream ''s1'')), one_stream opened_cell [(''s1'', 0)])"
  by (rule only_the_opener [where m = "''Abort''" and k = 0])
    (auto simp: one_stream_def opened_cell_def inbound_new_def peer_header_def unique_name_def)

text \<open>
  C37. A peer cannot make a receiver hold much: after every run, each opener has at most the
  configured number of live streams and less than twice that registered in all; every stream
  buffers at most its window of chunks of at most 512 KiB, plus at most one parked write of that
  size; and what a stream has accepted, and hence what its reader ever gets, stays within the
  stream limit and within the length declared at its opening.
\<close>

theorem stream_memory_is_bounded:
  assumes "w = watch ss l cells evs" and "sl_max_len l + MAX_CHUNK_LEN < 2 ^ 64"
  shows "(\<forall>ow. length (filter (\<lambda>(_, a). in_owner (sr_cells (wt_reg w) a) = ow \<and> in_chunks (sr_cells (wt_reg w) a))
             (sr_inbound (wt_reg w))) \<le> sl_max_streams l \<and>
          length (filter (\<lambda>(_, a). in_owner (sr_cells (wt_reg w) a) = ow) (sr_inbound (wt_reg w)))
             \<le> 2 * sl_max_streams l - 1) \<and>
    (\<forall>a < sr_used (wt_reg w). let s = sr_cells (wt_reg w) a in
       length (in_queue s) \<le> max (sl_window l) 1 \<and>
       (\<forall>c \<in> set (in_queue s). length c \<le> 512 * 1024) \<and>
       (\<forall>t. in_gate s = Some t \<longrightarrow> length (cw_chunk t) \<le> 512 * 1024) \<and>
       in_received s \<le> sl_max_len l \<and> (\<forall>d. in_declared s = Some d \<longrightarrow> in_received s \<le> d) \<and>
       bytes_in (wt_read w a) \<le> in_received s)"
proof -
  have ok: "registry_ok l (set evs) (wt_key w) (wt_read w) (wt_reg w)"
    using watch_run_ok [of l evs ss cells] assms(1) by (simp add: watch_ok_def)
  have s: "slots_ok l (wt_reg w)" using slots_run [of l ss cells evs] assms(1) by simp
  have c: "log_ok (set evs) a (wt_key w a) (wt_read w a) (sr_cells (wt_reg w) a) \<and>
      size_ok l (wt_read w a) (sr_cells (wt_reg w) a)" if "a < sr_used (wt_reg w)" for a
    using registry_cell_ok [OF ok that] by (simp add: cell_ok_def)
  have cell: "let s = sr_cells (wt_reg w) a in
       length (in_queue s) \<le> max (sl_window l) 1 \<and>
       (\<forall>c \<in> set (in_queue s). length c \<le> 512 * 1024) \<and>
       (\<forall>t. in_gate s = Some t \<longrightarrow> length (cw_chunk t) \<le> 512 * 1024) \<and>
       in_received s \<le> sl_max_len l \<and> (\<forall>d. in_declared s = Some d \<longrightarrow> in_received s \<le> d) \<and>
       bytes_in (wt_read w a) \<le> in_received s" if a: "a < sr_used (wt_reg w)" for a
  proof -
    let ?s = "sr_cells (wt_reg w) a"
    have 1: "length (in_queue ?s) \<le> in_window ?s" "\<forall>c \<in> set (in_queue ?s @ parked ?s). length c \<le> MAX_CHUNK_LEN"
      using c [OF a] unfolding log_ok_def by blast+
    have 2: "in_window ?s = max (sl_window l) 1" "in_received ?s \<le> sl_max_len l"
      "\<forall>d. in_declared ?s = Some d \<longrightarrow> in_received ?s \<le> d" "bytes_in (wt_read w a) \<le> in_received ?s"
      using c [OF a] assms(2) unfolding size_ok_def by blast+
    have "in_gate ?s = Some t \<Longrightarrow> length (cw_chunk t) \<le> MAX_CHUNK_LEN" for t
      using 1(2) by (simp add: parked_def)
    then show ?thesis using 1 2 by (simp add: Let_def MAX_CHUNK_LEN_def)
  qed
  have slots: "\<forall>ow. length (filter (\<lambda>(_, a). in_owner (sr_cells (wt_reg w) a) = ow \<and> in_chunks (sr_cells (wt_reg w) a))
             (sr_inbound (wt_reg w))) \<le> sl_max_streams l \<and>
          length (filter (\<lambda>(_, a). in_owner (sr_cells (wt_reg w) a) = ow) (sr_inbound (wt_reg w)))
             \<le> 2 * sl_max_streams l - 1"
    using s by (simp add: slots_ok_def owned_def owned_streams_def)
  show ?thesis by (intro conjI slots allI impI cell)
qed

theorem stream_memory_is_bounded_witness:
  "length (sr_inbound (one_stream opened_cell [(''s1'', 0)])) \<le> 1 \<and> in_received opened_cell \<le> 100"
proof -
  have l: "sl_max_len small_limits + MAX_CHUNK_LEN < 2 ^ 64" "sl_max_streams small_limits = 1"
    "sl_max_len small_limits = 100"
    by (simp_all add: small_limits_def MAX_CHUNK_LEN_def)
  have f: "sr_inbound (one_stream opened_cell [(''s1'', 0)]) = [(''s1'', 0)]"
    "sr_cells (one_stream opened_cell [(''s1'', 0)]) 0 = opened_cell" "sr_used (one_stream opened_cell [(''s1'', 0)]) = 1"
    by (simp_all add: one_stream_def)
  show ?thesis
    using stream_memory_is_bounded [OF watch_open [symmetric] l(1)] f l(2,3) by (simp add: Let_def)
qed

text \<open>
  C35. A transfer delivers exactly the bytes sent. Whatever happened on the connection before, once
  a peer has opened a stream and the receiver has claimed it, a \<open>StreamWriter\<close> that writes any
  bytes within the limits and finishes succeeds, even against a reader that reads only when the
  window makes a write wait; the handle it returns carries the length, and reading to the end
  within that length yields those bytes and the clean end.
\<close>

theorem transfer_round_trip:
  assumes "open_stream ss now h m (JArray [v]) (wt_reg (watch ss l cells evs)) = (Inr (JString sid), reg1)"
    and "ss_descriptor ss v = Some d" and "take_reader sid reg1 = (Inr rd, reg2)"
    and "length bs \<le> sl_max_len l" and "\<forall>n. sd_total_len d = Some n \<longrightarrow> length bs \<le> n"
    and "length bs < 2 ^ 64"
  shows "\<exists>wr st reg3 got.
    write_bytes (lazy_peer ss now h (rr_cell rd)) bs (writer_new dst sid d, (reg2, [])) = (Inr (), wr, st) \<and>
    writer_finish (lazy_peer ss now h (rr_cell rd)) (wr, st) =
      (Inr \<lparr> sf_id = sid, sf_content_type = sd_content_type d, sf_len = Some (length bs) \<rparr>, (reg3, got)) \<and>
    fst (read_capped (length bs) (rr_cell rd) (concat got) reg3) = (bs, ReadEnd)"
proof -
  let ?a = "rr_cell rd" and ?cap = "length bs mod 2 ^ 64"
  have cap: "?cap = length bs" using assms(6) by simp
  have ok: "registry_ok l (set evs) (wt_key (watch ss l cells evs)) (wt_read (watch ss l cells evs))
      (wt_reg (watch ss l cells evs))"
    using watch_run_ok by (simp add: watch_ok_def)
  have r: "receiving h ?a sid ?cap (reg2, [])" "got_so_far ?a (reg2, []) = []"
    using opened_receiving [OF ok assms(1-3,4-6)] unfolding cap by simp_all
  have step: "chunk_sink.in_step sid (receiving h ?a sid ?cap) (got_so_far ?a) (writer_new dst sid d, (reg2, []))"
    unfolding lazy.in_step_def using r by (simp add: writer_new_def bytes_in_def)
  have fit: "length bs \<le> ?cap" using cap by simp
  obtain wr st st2 where w: "write_bytes (lazy_peer ss now h ?a) bs (writer_new dst sid d, (reg2, [])) = (Inr (), wr, st)"
    "writer_finish (lazy_peer ss now h ?a) (wr, st) = (Inr \<lparr> sf_id = sid, sf_content_type = sd_content_type d,
      sf_len = Some (length bs) \<rparr>, st2)" "received_all ?a st2" "concat (got_so_far ?a st2) = bs"
    using lazy.write_finish_ok [OF step r(2) fit, of ss now] by (auto simp: writer_new_def)
  obtain reg3 got where st2: "st2 = (reg3, got)" by fastforce
  have "length (concat got) + bytes_in (in_queue (sr_cells reg3 ?a)) = length bs"
    using w(4) unfolding st2 by (metis bytes_in_def concat_append fst_conv got_so_far_def length_append length_concat snd_conv)
  then have "fst (read_capped (length bs) ?a (concat got) reg3) = (concat got @ concat (in_queue (sr_cells reg3 ?a)), ReadEnd)"
    using w(3) by (intro read_capped_rest) (simp_all add: received_all_def st2 Let_def)
  then show ?thesis using w unfolding st2 by (auto simp: got_so_far_def)
qed

theorem transfer_round_trip_witness:
  "\<exists>reg2 wr st reg3 got.
    write_bytes (lazy_peer any_serde 0 (peer_header 1 ''Open'') 0) [7, 8]
      (writer_new (unique_name 1) ''s1'' \<lparr> sd_content_type = None, sd_total_len = None \<rparr>, (reg2, [])) = (Inr (), wr, st) \<and>
    fst (read_capped 2 0 (concat got) reg3) = ([7, 8], ReadEnd)"
proof -
  have d: "ss_descriptor any_serde JNull = Some \<lparr> sd_content_type = None, sd_total_len = None \<rparr>"
    by (simp add: any_serde_def)
  obtain rd reg2 where t: "take_reader ''s1'' (one_stream opened_cell [(''s1'', 0)]) = (Inr rd, reg2)" "rr_cell rd = 0"
    by (simp add: take_reader_def take_reader_inner_def Let_def one_stream_def opened_cell_def inbound_new_def)
  define d where "d = \<lparr> sd_content_type = None, sd_total_len = None \<rparr>"
  have h: "length [7 :: byte, 8] \<le> sl_max_len small_limits" "\<forall>n. sd_total_len d = Some n \<longrightarrow> length [7 :: byte, 8] \<le> n"
    "length [7 :: byte, 8] < 2 ^ 64" and len: "length [7 :: byte, 8] = 2"
    by (simp_all add: small_limits_def d_def)
  show ?thesis
    using transfer_round_trip [OF open_result d [folded d_def] t(1) h, of "unique_name 1"] t(2)
    unfolding len d_def by metis
qed

end
