(* ===== verification/Objects.thy ===== *)
theory Objects
  imports Messages
begin

text \<open>
  The service side of a connection: the object tree (\<open>service/tree.rs\<close>), the authenticated
  facts about an incoming call (\<open>CallContext\<close> of \<open>service/mod.rs\<close>) and about a delivered
  signal (\<open>signal.rs\<close>).

  An \<open>Arc<dyn Interface>\<close> is a handle of any type \<open>'i\<close>; the trait's methods are user code and
  arguments (\<open>interface_impl\<close>): the names they answer, and the call itself, which may change
  the state \<open>'u\<close> the user code keeps. A panic (registration ids exhausted) is \<open>None\<close>. The
  allocation behind a \<open>ConnectionOrigin\<close> or a \<open>LocalPublisherIdentity\<close> is a number.
\<close>

section \<open>Facts about a call\<close>

record call_context =
  cc_sender :: "bus_name option"
  cc_confidential :: bool
  cc_origin :: "nat option"

definition context_default :: call_context where
  "context_default = \<lparr> cc_sender = None, cc_confidential = False, cc_origin = None \<rparr>"

definition brokered_with_origin :: "bus_name option \<Rightarrow> bool \<Rightarrow> nat option \<Rightarrow> call_context" where
  "brokered_with_origin sender confidential origin =
     \<lparr> cc_sender = (case sender of Some n \<Rightarrow> if is_unique n then Some n else None | None \<Rightarrow> None),
        cc_confidential = (confidential \<and> (case sender of Some n \<Rightarrow> is_unique n | None \<Rightarrow> False)),
        cc_origin = origin \<rparr>"

text \<open>\<open>WeakConnection::matches_origin\<close>: both allocations are alive and they are the same one.\<close>

definition matches_origin :: "(nat \<Rightarrow> bool) \<Rightarrow> nat \<Rightarrow> nat \<Rightarrow> bool" where
  "matches_origin alive own origin \<longleftrightarrow> alive own \<and> alive origin \<and> own = origin"

definition is_for_connection :: "(nat \<Rightarrow> bool) \<Rightarrow> nat \<Rightarrow> call_context \<Rightarrow> bool" where
  "is_for_connection alive conn ctx \<longleftrightarrow>
     (case cc_origin ctx of None \<Rightarrow> False | Some origin \<Rightarrow> matches_origin alive conn origin)"

section \<open>Facts about a signal\<close>

datatype signal_origin = Unverified | Brokered | LocalPublisher

record signal_context =
  sc_origin :: signal_origin
  sc_sender :: "bus_name option"
  sc_publisher :: "nat option"

record signal_delivery =
  dl_message :: message
  dl_context :: signal_context

definition unverified_delivery :: "message \<Rightarrow> signal_delivery" where
  "unverified_delivery msg =
     \<lparr> dl_message = msg, dl_context = \<lparr> sc_origin = Unverified, sc_sender = None, sc_publisher = None \<rparr> \<rparr>"

definition received_delivery :: "message \<Rightarrow> bool \<Rightarrow> signal_delivery" where
  "received_delivery msg brokered =
     (if \<not> brokered then unverified_delivery msg
      else \<lparr> dl_message = msg,
             dl_context = \<lparr> sc_origin = Brokered,
               sc_sender = (case h_sender (m_header msg) of
                  Some n \<Rightarrow> if is_unique n then Some n else None | None \<Rightarrow> None),
               sc_publisher = None \<rparr> \<rparr>)"

definition local_delivery :: "message \<Rightarrow> nat \<Rightarrow> signal_delivery" where
  "local_delivery msg publisher =
     \<lparr> dl_message = msg,
        dl_context = \<lparr> sc_origin = LocalPublisher, sc_sender = None, sc_publisher = Some publisher \<rparr> \<rparr>"

section \<open>The object tree\<close>

record ('i, 'u) interface_impl =
  if_name :: "'i \<Rightarrow> interface_name"
  if_members :: "'i \<Rightarrow> member_name list"
  if_requires_confidential :: "'i \<Rightarrow> member_name \<Rightarrow> bool"
  if_call :: "'i \<Rightarrow> member_name \<Rightarrow> json \<Rightarrow> call_context \<Rightarrow> 'u \<Rightarrow> json result \<times> 'u"

record 'i registration =
  or_id :: nat
  or_name :: interface_name
  or_interface :: 'i

record 'i object_tree =
  ot_objects :: "(object_path, 'i registration list) hashmap"
  ot_next :: nat

definition tree_new :: "'i object_tree" where
  "tree_new = \<lparr> ot_objects = [], ot_next = 0 \<rparr>"

definition insert_owned ::
  "object_path \<Rightarrow> interface_name \<Rightarrow> 'i \<Rightarrow> 'i object_tree \<Rightarrow> ((nat \<times> 'i list) \<times> 'i object_tree) option" where
  "insert_owned path name i t =
     (if ot_next t + 1 \<ge> 2 ^ 64 then None
      else
        (let nid = ot_next t + 1;
             entry = (case hget (ot_objects t) path of Some rs \<Rightarrow> rs | None \<Rightarrow> []);
             replaced = map or_interface (filter (\<lambda>r. or_name r = name) entry);
             retained = filter (\<lambda>r. or_name r \<noteq> name) entry in
         Some ((nid, replaced),
           t \<lparr> ot_next := nid,
               ot_objects := hput path
                 (retained @ [\<lparr> or_id = nid, or_name = name, or_interface = i \<rparr>]) (ot_objects t) \<rparr>)))"

definition tree_insert ::
  "('i, 'u) interface_impl \<Rightarrow> object_path \<Rightarrow> 'i \<Rightarrow> 'i object_tree \<Rightarrow> 'i object_tree option" where
  "tree_insert im path i t = map_option snd (insert_owned path (if_name im i) i t)"

definition insert_if_absent ::
  "('i, 'u) interface_impl \<Rightarrow> object_path \<Rightarrow> 'i \<Rightarrow> 'i object_tree \<Rightarrow> (bool \<times> 'i object_tree) option" where
  "insert_if_absent im path i t =
     (if hget (ot_objects t) path \<noteq> None then Some (False, t)
      else map_option (\<lambda>t'. (True, t')) (tree_insert im path i t))"

definition take_if_owned ::
  "object_path \<Rightarrow> interface_name \<Rightarrow> nat \<Rightarrow> 'i object_tree \<Rightarrow> 'i option \<times> 'i object_tree" where
  "take_if_owned path name rid t =
     (case hget (ot_objects t) path of
        None \<Rightarrow> (None, t)
      | Some rs \<Rightarrow>
          (case find (\<lambda>k. or_id (rs ! k) = rid \<and> or_name (rs ! k) = name) [0..<length rs] of
             None \<Rightarrow> (None, t)
           | Some k \<Rightarrow>
               (let rest = take k rs @ drop (Suc k) rs in
                (Some (or_interface (rs ! k)),
                 t \<lparr> ot_objects := (if rest = [] then hdel path (ot_objects t)
                                    else hput path rest (ot_objects t)) \<rparr>))))"

definition tree_remove :: "object_path \<Rightarrow> 'i object_tree \<Rightarrow> bool \<times> 'i object_tree" where
  "tree_remove path t =
     (hget (ot_objects t) path \<noteq> None, t \<lparr> ot_objects := hdel path (ot_objects t) \<rparr>)"

definition tree_paths :: "'i object_tree \<Rightarrow> object_path list" where
  "tree_paths t = sort (hkeys (ot_objects t))"

definition interfaces_at :: "object_path \<Rightarrow> 'i object_tree \<Rightarrow> interface_name list" where
  "interfaces_at path t =
     (case hget (ot_objects t) path of Some rs \<Rightarrow> map or_name rs | None \<Rightarrow> [])"

definition tree_lookup :: "'i object_tree \<Rightarrow> object_path \<Rightarrow> interface_name \<Rightarrow> 'i result" where
  "tree_lookup t path interface =
     (case hget (ot_objects t) path of
        None \<Rightarrow> Inl (UnknownObject path)
      | Some rs \<Rightarrow>
          (case find (\<lambda>r. or_name r = interface) rs of
             Some r \<Rightarrow> Inr (or_interface r)
           | None \<Rightarrow> Inl (UnknownInterface path interface)))"

text \<open>The checks of \<open>invoke\<close> before user code runs, then the call.\<close>

definition admit_call ::
  "('i, 'u) interface_impl \<Rightarrow> 'i \<Rightarrow> interface_name \<Rightarrow> member_name \<Rightarrow> bool \<Rightarrow> unit result" where
  "admit_call im target interface member confidential =
     (if member \<notin> set (if_members im target) then Inl (UnknownMethod interface member)
      else if if_requires_confidential im target member \<and> \<not> confidential
      then Inl (ConfidentialityRequired interface member)
      else Inr ())"

definition invoke ::
  "('i, 'u) interface_impl \<Rightarrow> 'i \<Rightarrow> interface_name \<Rightarrow> member_name \<Rightarrow> json \<Rightarrow> bool \<Rightarrow> call_context \<Rightarrow>
     'u \<Rightarrow> json result \<times> 'u" where
  "invoke im target interface member args confidential ctx u =
     (case admit_call im target interface member confidential of
        Inl e \<Rightarrow> (Inl e, u)
      | Inr _ \<Rightarrow> if_call im target member args ctx u)"

definition dispatch_with_context ::
  "('i, 'u) interface_impl \<Rightarrow> 'i object_tree \<Rightarrow> object_path \<Rightarrow> interface_name \<Rightarrow> member_name \<Rightarrow> json \<Rightarrow>
     bool \<Rightarrow> call_context \<Rightarrow> 'u \<Rightarrow> json result \<times> 'u" where
  "dispatch_with_context im t path interface member args confidential ctx u =
     (case tree_lookup t path interface of
        Inl e \<Rightarrow> (Inl e, u)
      | Inr target \<Rightarrow> invoke im target interface member args confidential ctx u)"

definition dispatch_with_confidential ::
  "('i, 'u) interface_impl \<Rightarrow> 'i object_tree \<Rightarrow> object_path \<Rightarrow> interface_name \<Rightarrow> member_name \<Rightarrow> json \<Rightarrow>
     bool \<Rightarrow> 'u \<Rightarrow> json result \<times> 'u" where
  "dispatch_with_confidential im t path interface member args confidential =
     dispatch_with_context im t path interface member args confidential context_default"

definition tree_dispatch ::
  "('i, 'u) interface_impl \<Rightarrow> 'i object_tree \<Rightarrow> object_path \<Rightarrow> interface_name \<Rightarrow> member_name \<Rightarrow> json \<Rightarrow>
     'u \<Rightarrow> json result \<times> 'u" where
  "tree_dispatch im t path interface member args =
     dispatch_with_confidential im t path interface member args False"

end
