(* ===== verification/ObjectProps.thy ===== *)
theory ObjectProps
  imports Objects
begin

text \<open>
  The object tree as what it stands for: a map from path and interface to the one registration
  there. The operations implement that map, guards of replaced registrations are inert, and a
  call reaches user code exactly when path, interface, member and privacy agree.
\<close>

section \<open>The abstract registry\<close>

type_synonym 'i registry_map = "object_path \<times> interface_name \<Rightarrow> (nat \<times> 'i) option"

definition tree_view :: "'i object_tree \<Rightarrow> 'i registry_map" where
  "tree_view t k =
     (case hget (ot_objects t) (fst k) of
        None \<Rightarrow> None
      | Some rs \<Rightarrow> map_option (\<lambda>r. (or_id r, or_interface r)) (find (\<lambda>r. or_name r = snd k) rs))"

definition registered :: "'i object_tree \<Rightarrow> (object_path \<times> 'i registration) set" where
  "registered t = {(p, r). \<exists>rs. hget (ot_objects t) p = Some rs \<and> r \<in> set rs}"

definition lists_ok :: "'i object_tree \<Rightarrow> bool" where
  "lists_ok t \<longleftrightarrow>
     (\<forall>p rs. hget (ot_objects t) p = Some rs \<longrightarrow> rs \<noteq> [] \<and> distinct (map or_name rs))"

definition tree_ok :: "'i object_tree \<Rightarrow> bool" where
  "tree_ok t \<longleftrightarrow>
     hmap_ok (ot_objects t) \<and> lists_ok t \<and> inj_on (\<lambda>(p, r). or_id r) (registered t) \<and>
     (\<forall>(p, r) \<in> registered t. or_id r \<le> ot_next t)"

definition spec_take :: "object_path \<times> interface_name \<Rightarrow> nat \<Rightarrow> 'i registry_map \<Rightarrow> 'i option \<times> 'i registry_map" where
  "spec_take k rid m =
     (case m k of
        Some (j, i) \<Rightarrow> if j = rid then (Some i, m(k := None)) else (None, m)
      | None \<Rightarrow> (None, m))"

definition spec_replaced :: "object_path \<times> interface_name \<Rightarrow> 'i registry_map \<Rightarrow> 'i list" where
  "spec_replaced k m = (case m k of Some (_, i) \<Rightarrow> [i] | None \<Rightarrow> [])"

definition spec_occupied :: "object_path \<Rightarrow> 'i registry_map \<Rightarrow> bool" where
  "spec_occupied p m \<longleftrightarrow> (\<exists>n. m (p, n) \<noteq> None)"

definition spec_remove :: "object_path \<Rightarrow> 'i registry_map \<Rightarrow> 'i registry_map" where
  "spec_remove p m = (\<lambda>(q, n). if q = p then None else m (q, n))"

definition spec_lookup :: "'i registry_map \<Rightarrow> object_path \<Rightarrow> interface_name \<Rightarrow> 'i result" where
  "spec_lookup m p n =
     (case m (p, n) of
        Some (_, i) \<Rightarrow> Inr i
      | None \<Rightarrow> Inl (if spec_occupied p m then UnknownInterface p n else UnknownObject p))"

section \<open>Lists of registrations\<close>

lemma find_map_name:
  "distinct (map or_name rs) \<Longrightarrow> r \<in> set rs \<Longrightarrow> find (\<lambda>x. or_name x = or_name r) rs = Some r"
  by (induction rs) auto

lemma find_Some_iff_name:
  "distinct (map or_name rs) \<Longrightarrow> find (\<lambda>x. or_name x = n) rs = Some r \<longleftrightarrow> r \<in> set rs \<and> or_name r = n"
  by (induction rs) auto

lemma find_append: "find P (xs @ ys) = (case find P xs of Some x \<Rightarrow> Some x | None \<Rightarrow> find P ys)"
  by (induction xs) auto

lemma find_filter_other:
  "n \<noteq> m \<Longrightarrow> find (\<lambda>r. or_name r = n) (filter (\<lambda>r. or_name r \<noteq> m) rs) = find (\<lambda>r. or_name r = n) rs"
  by (induction rs) auto

lemma find_filter_same: "find (\<lambda>r. or_name r = n) (filter (\<lambda>r. or_name r \<noteq> n) rs) = None"
  by (induction rs) auto

lemma filter_name_find:
  "distinct (map or_name rs) \<Longrightarrow>
   filter (\<lambda>r. or_name r = n) rs = (case find (\<lambda>r. or_name r = n) rs of Some r \<Rightarrow> [r] | None \<Rightarrow> [])"
proof (induction rs)
  case (Cons r rs)
  have "or_name r = n \<Longrightarrow> filter (\<lambda>r. or_name r = n) rs = []"
    using Cons.prems by (auto simp: filter_empty_conv image_iff)
  then show ?case using Cons by (auto split: option.splits)
qed simp

lemma without_nth:
  assumes "distinct (map or_name rs)" and "k < length rs"
  shows "take k rs @ drop (Suc k) rs = filter (\<lambda>r. or_name r \<noteq> or_name (rs ! k)) rs"
  using assms
proof (induction rs arbitrary: k)
  case (Cons r rs)
  show ?case
  proof (cases k)
    case 0
    then show ?thesis using Cons.prems by (auto simp: image_iff intro!: filter_True [symmetric])
  next
    case (Suc j)
    then show ?thesis using Cons by auto
  qed
qed simp

lemma take_if_owned_eq:
  assumes rs: "hget (ot_objects t) p = Some rs" "distinct (map or_name rs)"
  shows "take_if_owned p n rid t =
    (case find (\<lambda>r. or_name r = n) rs of
       None \<Rightarrow> (None, t)
     | Some r \<Rightarrow>
         if or_id r \<noteq> rid then (None, t)
         else let rest = filter (\<lambda>r. or_name r \<noteq> n) rs in
           (Some (or_interface r),
            t \<lparr> ot_objects := (if rest = [] then hdel p (ot_objects t) else hput p rest (ot_objects t)) \<rparr>))"
proof (cases "find (\<lambda>k. or_id (rs ! k) = rid \<and> or_name (rs ! k) = n) [0..<length rs]")
  case None
  then have "\<forall>r \<in> set rs. \<not> (or_id r = rid \<and> or_name r = n)"
    by (auto simp: find_None_iff in_set_conv_nth)
  then show ?thesis
    using None rs find_Some_iff_name [OF rs(2), of n] by (auto simp: take_if_owned_def split: option.split)
next
  case (Some k)
  then have k: "k < length rs" "or_id (rs ! k) = rid" "or_name (rs ! k) = n"
    by (auto simp: find_Some_iff)
  then have "find (\<lambda>r. or_name r = n) rs = Some (rs ! k)"
    using find_Some_iff_name [OF rs(2), of n "rs ! k"] by simp
  then show ?thesis
    using Some rs k without_nth [OF rs(2) k(1)] by (simp add: take_if_owned_def Let_def)
qed

section \<open>The operations implement the map\<close>

lemma tree_ok_list:
  "tree_ok t \<Longrightarrow> hget (ot_objects t) p = Some rs \<Longrightarrow> rs \<noteq> [] \<and> distinct (map or_name rs)"
  by (simp add: tree_ok_def lists_ok_def)

lemma tree_ok_shrink:
  assumes "tree_ok t" and "hmap_ok (ot_objects t')" and "lists_ok t'" and "registered t' \<subseteq> registered t"
    and "ot_next t' = ot_next t"
  shows "tree_ok t'"
  using assms unfolding tree_ok_def by (auto intro: inj_on_subset)

lemma view_Some:
  assumes "tree_ok t"
  shows "tree_view t (p, n) = Some (j, i) \<longleftrightarrow> (p, \<lparr> or_id = j, or_name = n, or_interface = i \<rparr>) \<in> registered t"
proof (cases "hget (ot_objects t) p")
  case (Some rs)
  have "tree_view t (p, n) = Some (j, i) \<longleftrightarrow>
      find (\<lambda>r. or_name r = n) rs = Some \<lparr> or_id = j, or_name = n, or_interface = i \<rparr>"
  proof (cases "find (\<lambda>r. or_name r = n) rs")
    case (Some r)
    then have "or_name r = n" by (auto simp: find_Some_iff)
    then show ?thesis using Some \<open>hget (ot_objects t) p = Some rs\<close> by (cases r) (auto simp: tree_view_def)
  qed (use Some in \<open>simp add: tree_view_def\<close>)
  then show ?thesis
    using Some find_Some_iff_name [of rs n] tree_ok_list [OF assms Some] by (simp add: registered_def)
qed (simp add: tree_view_def registered_def)

lemma occupied_iff: "tree_ok t \<Longrightarrow> spec_occupied p (tree_view t) \<longleftrightarrow> hget (ot_objects t) p \<noteq> None"
proof -
  assume ok: "tree_ok t"
  have "tree_view t (p, or_name r) \<noteq> None" if "hget (ot_objects t) p = Some (r # rs)" for r rs
    using that by (simp add: tree_view_def)
  then show ?thesis
    using tree_ok_list [OF ok, of p]
    by (cases "hget (ot_objects t) p") (auto simp: spec_occupied_def tree_view_def neq_Nil_conv)
qed

lemma insert_view:
  assumes ok: "tree_ok t" and ins: "insert_owned p n i t = Some ((j, old), t')"
  shows "tree_ok t'" "tree_view t' = (tree_view t)((p, n) \<mapsto> (j, i))" "old = spec_replaced (p, n) (tree_view t)"
    "j = ot_next t + 1" "ot_next t' = j" "j < 2 ^ 64"
proof -
  let ?rs = "case hget (ot_objects t) p of Some rs \<Rightarrow> rs | None \<Rightarrow> []"
  let ?r = "\<lparr> or_id = j, or_name = n, or_interface = i \<rparr>"
  let ?new = "filter (\<lambda>r. or_name r \<noteq> n) ?rs @ [?r]"
  have j: "j = ot_next t + 1" "j < 2 ^ 64" "ot_next t' = j"
    and t': "t' = t \<lparr> ot_next := j, ot_objects := hput p ?new (ot_objects t) \<rparr>"
    and old: "old = map or_interface (filter (\<lambda>r. or_name r = n) ?rs)"
    using ins by (auto simp: insert_owned_def Let_def split: if_splits)
  have d: "distinct (map or_name ?rs)"
    using tree_ok_list [OF ok, of p] by (cases "hget (ot_objects t) p") auto
  have reg: "registered t' \<subseteq> insert (p, ?r) (registered t)"
    unfolding t' by (auto simp: registered_def hm.get_put split: if_splits option.splits)
  have "distinct (map or_name (filter (\<lambda>r. or_name r \<noteq> n) ?rs))"
    using d by (rule distinct_map_filter)
  then have "distinct (map or_name ?new)" by auto
  then have lists: "lists_ok t'"
    using ok unfolding t' tree_ok_def lists_ok_def by (simp add: hm.get_put)
  have ids: "\<forall>(q, r) \<in> registered t. or_id r < j" using ok j(1) by (auto simp: tree_ok_def)
  have "inj_on (\<lambda>(p, r). or_id r) (insert (p, ?r) (registered t))"
    using ok ids by (auto simp: tree_ok_def)
  then have "inj_on (\<lambda>(p, r). or_id r) (registered t')" using reg by (rule inj_on_subset)
  moreover have "\<forall>(q, r) \<in> registered t'. or_id r \<le> j" using reg ids by fastforce
  ultimately show "tree_ok t'"
    using lists ok hm.ok_put [of "ot_objects t"] j(3) unfolding tree_ok_def t' by simp
  show "j = ot_next t + 1" "ot_next t' = j" "j < 2 ^ 64" using j by simp_all
  show "old = spec_replaced (p, n) (tree_view t)"
    using filter_name_find [OF d, of n] unfolding old
    by (auto simp: spec_replaced_def tree_view_def split: option.splits)
  show "tree_view t' = (tree_view t)((p, n) \<mapsto> (j, i))"
    unfolding t' by (rule ext) (auto simp: tree_view_def hm.get_put find_append find_filter_same
      find_filter_other split: option.splits)
qed

lemma take_view:
  assumes ok: "tree_ok t"
  shows "tree_ok (snd (take_if_owned p n rid t))"
    "apsnd tree_view (take_if_owned p n rid t) = spec_take (p, n) rid (tree_view t)"
    "ot_next (snd (take_if_owned p n rid t)) = ot_next t"
proof -
  have "tree_ok (snd (take_if_owned p n rid t)) \<and>
      apsnd tree_view (take_if_owned p n rid t) = spec_take (p, n) rid (tree_view t) \<and>
      ot_next (snd (take_if_owned p n rid t)) = ot_next t"
  proof (cases "hget (ot_objects t) p")
    case None
    then show ?thesis using ok by (simp add: take_if_owned_def spec_take_def tree_view_def)
  next
    case (Some rs)
    note d = tree_ok_list [OF ok Some, THEN conjunct2]
    note eq = take_if_owned_eq [OF Some d, of n rid]
    show ?thesis
    proof (cases "\<exists>r. find (\<lambda>r. or_name r = n) rs = Some r \<and> or_id r = rid")
      case False
      then show ?thesis
        using ok eq Some by (auto simp: spec_take_def tree_view_def split: option.split)
    next
      case True
      then obtain r where r: "find (\<lambda>r. or_name r = n) rs = Some r" "or_id r = rid" by blast
      let ?rest = "filter (\<lambda>r. or_name r \<noteq> n) rs"
      let ?t = "t \<lparr> ot_objects := (if ?rest = [] then hdel p (ot_objects t) else hput p ?rest (ot_objects t)) \<rparr>"
      have t: "take_if_owned p n rid t = (Some (or_interface r), ?t)" using eq r by (simp add: Let_def)
      have v: "tree_view ?t = (tree_view t)((p, n) := None)"
      proof
        fix k
        have "find (\<lambda>r. or_name r = m) rs = find (\<lambda>r. or_name r = m) ?rest" if "m \<noteq> n" for m
          using find_filter_other [OF that, of rs] by (rule sym)
        then show "tree_view ?t k = ((tree_view t)((p, n) := None)) k"
          using Some by (cases k) (auto simp: tree_view_def hm.get_put hm.get_del find_filter_same)
      qed
      have "tree_ok ?t"
        using ok d Some
        by (intro tree_ok_shrink [OF ok])
          (auto simp: tree_ok_def lists_ok_def hm.ok_put hm.ok_del hm.get_put hm.get_del registered_def
            distinct_map_filter split: if_splits)
      then show ?thesis
        using t v Some r by (simp add: spec_take_def tree_view_def)
    qed
  qed
  then show "tree_ok (snd (take_if_owned p n rid t))"
    "apsnd tree_view (take_if_owned p n rid t) = spec_take (p, n) rid (tree_view t)"
    "ot_next (snd (take_if_owned p n rid t)) = ot_next t"
    by simp_all
qed

lemma remove_view:
  assumes ok: "tree_ok t"
  shows "tree_ok (snd (tree_remove p t))"
    "tree_remove p t = (spec_occupied p (tree_view t), snd (tree_remove p t))"
    "tree_view (snd (tree_remove p t)) = spec_remove p (tree_view t)"
proof -
  show "tree_ok (snd (tree_remove p t))"
    using ok by (intro tree_ok_shrink [OF ok])
      (auto simp: tree_remove_def tree_ok_def lists_ok_def hm.ok_del hm.get_del registered_def split: if_splits)
  show "tree_remove p t = (spec_occupied p (tree_view t), snd (tree_remove p t))"
    by (simp add: tree_remove_def occupied_iff [OF ok])
  show "tree_view (snd (tree_remove p t)) = spec_remove p (tree_view t)"
    by (rule ext) (auto simp: tree_remove_def spec_remove_def tree_view_def hm.get_del split: prod.split)
qed

lemma lookup_view: "tree_ok t \<Longrightarrow> tree_lookup t p n = spec_lookup (tree_view t) p n"
  by (auto simp: tree_lookup_def spec_lookup_def occupied_iff tree_view_def split: option.split)

lemma tree_ok_new: "tree_ok tree_new" "tree_view tree_new = (\<lambda>_. None)"
  by (auto simp: tree_ok_def tree_new_def lists_ok_def registered_def tree_view_def)

section \<open>Runs\<close>

text \<open>
  What the holders of a connection do to its tree: exporting (with a guard or without), exporting
  if the path is free, giving a registration back through its guard, and clearing a path. A tree
  that ran out of registration ids has panicked.
\<close>

datatype 'i tree_op =
    Export object_path interface_name 'i
  | ExportIfFree object_path 'i
  | GiveBack object_path interface_name nat
  | Clear object_path

fun do_op :: "('i, 'u) interface_impl \<Rightarrow> 'i tree_op \<Rightarrow> 'i object_tree \<Rightarrow> 'i object_tree option" where
  "do_op im (Export p n i) t = map_option snd (insert_owned p n i t)"
| "do_op im (ExportIfFree p i) t = map_option snd (insert_if_absent im p i t)"
| "do_op im (GiveBack p n rid) t = Some (snd (take_if_owned p n rid t))"
| "do_op im (Clear p) t = Some (snd (tree_remove p t))"

definition tree_step :: "('i, 'u) interface_impl \<Rightarrow> 'i tree_op \<Rightarrow> 'i object_tree option \<Rightarrow> 'i object_tree option" where
  "tree_step im op s = (case s of None \<Rightarrow> None | Some t \<Rightarrow> do_op im op t)"

lemma tree_step_simps [simp]: "tree_step im op None = None" "tree_step im op (Some t) = do_op im op t"
  by (simp_all add: tree_step_def)

definition run_ok :: "'i object_tree option \<Rightarrow> bool" where
  "run_ok s \<longleftrightarrow> (\<forall>t. s = Some t \<longrightarrow> tree_ok t)"

lemma absent_view:
  assumes "insert_if_absent im p i t = Some (done_now, t')"
  shows "if hget (ot_objects t) p \<noteq> None then \<not> done_now \<and> t' = t
    else done_now \<and> (\<exists>j old. insert_owned p (if_name im i) i t = Some ((j, old), t'))"
  using assms by (auto simp: insert_if_absent_def tree_insert_def split: if_splits)

lemma do_op_ok:
  assumes "tree_ok t" and "do_op im op t = Some t'"
  shows "tree_ok t' \<and> ot_next t \<le> ot_next t'"
proof (cases op)
  case (Export p n i)
  then obtain j old where "insert_owned p n i t = Some ((j, old), t')" using assms(2) by auto
  from insert_view [OF assms(1) this] show ?thesis by simp
next
  case (ExportIfFree p i)
  then obtain d where d: "insert_if_absent im p i t = Some (d, t')" using assms(2) by auto
  show ?thesis
  proof (cases "hget (ot_objects t) p")
    case None
    then obtain j old where "insert_owned p (if_name im i) i t = Some ((j, old), t')"
      using absent_view [OF d] by auto
    from insert_view [OF assms(1) this] show ?thesis by simp
  qed (use absent_view [OF d] assms(1) in simp)
next
  case (GiveBack p n rid)
  then show ?thesis using take_view [OF assms(1), of p n rid] assms(2) by auto
next
  case (Clear p)
  then show ?thesis using remove_view(1) [OF assms(1), of p] assms(2) by (auto simp: tree_remove_def)
qed

interpretation tree: stepped "tree_step im" run_ok
  by unfold_locales (auto simp: run_ok_def tree_step_def do_op_ok split: option.splits)

text \<open>An operation that puts something at a key, and one that may take it away.\<close>

fun exports :: "object_path \<Rightarrow> interface_name \<Rightarrow> 'i tree_op \<Rightarrow> bool" where
  "exports p n (Export q m _) = (q = p \<and> m = n)"
| "exports p n _ = False"

fun removes :: "object_path \<Rightarrow> interface_name \<Rightarrow> nat \<Rightarrow> 'i tree_op \<Rightarrow> bool" where
  "removes p n rid (GiveBack q m j) = (q = p \<and> m = n \<and> j = rid)"
| "removes p n rid (Clear q) = (q = p)"
| "removes p n rid _ = False"

lemma op_view:
  assumes ok: "tree_ok t" and op: "do_op im op t = Some t'"
  shows "tree_view t' (p, n) = tree_view t (p, n) \<or> (\<exists>j i. tree_view t' (p, n) = Some (j, i) \<and> ot_next t < j) \<or>
    tree_view t' (p, n) = None"
proof (cases op)
  case (Export q m i)
  then obtain j old where "insert_owned q m i t = Some ((j, old), t')" using op by auto
  from insert_view [OF ok this] show ?thesis by auto
next
  case (ExportIfFree q i)
  then obtain d where d: "insert_if_absent im q i t = Some (d, t')" using op by auto
  show ?thesis
  proof (cases "hget (ot_objects t) q")
    case None
    then obtain j old where "insert_owned q (if_name im i) i t = Some ((j, old), t')"
      using absent_view [OF d] by auto
    from insert_view [OF ok this] show ?thesis by auto
  qed (use absent_view [OF d] in simp)
next
  case (GiveBack q m rid)
  then have "tree_view t' = snd (spec_take (q, m) rid (tree_view t))"
    using take_view(2) [OF ok, of q m rid] op by (metis apsnd_conv option.inject prod.collapse snd_conv do_op.simps(3))
  then show ?thesis by (auto simp: spec_take_def split: option.splits if_splits)
next
  case (Clear q)
  then show ?thesis using remove_view(3) [OF ok, of q] op by (auto simp: spec_remove_def)
qed

lemma export_view:
  assumes "tree_ok t" and "do_op im op t = Some t'" and "exports p n op"
  shows "\<exists>j i. tree_view t' (p, n) = Some (j, i) \<and> ot_next t < j"
proof -
  obtain i where "op = Export p n i" using assms(3) by (cases op) auto
  then obtain j old where "insert_owned p n i t = Some ((j, old), t')" using assms(2) by auto
  from insert_view [OF assms(1) this] show ?thesis by auto
qed

lemma kept_view:
  assumes ok: "tree_ok t" and op: "do_op im op t = Some t'"
    and "tree_view t (p, n) = Some (rid, i)" and "\<not> exports p n op" and "\<not> removes p n rid op"
  shows "tree_view t' (p, n) = Some (rid, i)"
proof (cases op)
  case (Export q m j)
  then obtain k old where "insert_owned q m j t = Some ((k, old), t')" using op by auto
  from insert_view [OF ok this] show ?thesis using assms(3,4) Export by auto
next
  case (ExportIfFree q j)
  then obtain d where d: "insert_if_absent im q j t = Some (d, t')" using op by auto
  show ?thesis
  proof (cases "hget (ot_objects t) q")
    case None
    then obtain k old where ins: "insert_owned q (if_name im j) j t = Some ((k, old), t')"
      using absent_view [OF d] by auto
    have "q \<noteq> p" using None assms(3) by (auto simp: tree_view_def)
    then show ?thesis using insert_view(2) [OF ok ins] assms(3) by simp
  qed (use absent_view [OF d] assms(3) in simp)
next
  case (GiveBack q m j)
  then have "tree_view t' = snd (spec_take (q, m) j (tree_view t))"
    using take_view(2) [OF ok, of q m j] op by (metis apsnd_conv option.inject prod.collapse snd_conv do_op.simps(3))
  then show ?thesis using assms(3,5) GiveBack by (auto simp: spec_take_def split: option.split)
next
  case (Clear q)
  then show ?thesis using remove_view(3) [OF ok, of q] op assms(3,5) by (auto simp: spec_remove_def)
qed

lemma run_None: "fold (tree_step im) ops None = None"
  by (induction ops) simp_all

lemma run_lost:
  assumes "tree_ok t" and "rid \<le> ot_next t" and "\<forall>i. tree_view t (p, n) \<noteq> Some (rid, i)"
    and "fold (tree_step im) ops (Some t) = Some t2"
  shows "\<forall>i. tree_view t2 (p, n) \<noteq> Some (rid, i)"
  using assms
proof (induction ops arbitrary: t)
  case (Cons op ops)
  then obtain t' where t': "do_op im op t = Some t'"
    by (cases "do_op im op t") (auto simp: run_None)
  have "\<forall>i. tree_view t' (p, n) \<noteq> Some (rid, i)"
    using op_view [OF Cons.prems(1) t', of p n] Cons.prems(2,3) by auto
  then show ?case
    using Cons.IH [of t'] do_op_ok [OF Cons.prems(1) t'] Cons.prems t' by simp
qed simp

lemma run_guard:
  assumes "tree_ok t" and "tree_view t (p, n) = Some (rid, i)" and "rid \<le> ot_next t"
    and "fold (tree_step im) ops (Some t) = Some t2"
  shows "if \<exists>op \<in> set ops. exports p n op then \<forall>j. tree_view t2 (p, n) \<noteq> Some (rid, j)
    else if \<exists>op \<in> set ops. removes p n rid op then \<forall>j. tree_view t2 (p, n) = Some (rid, j) \<longrightarrow> j = i
    else tree_view t2 (p, n) = Some (rid, i)"
    (is "?guard ops t2")
  using assms
proof (induction ops arbitrary: t)
  case (Cons op ops)
  then obtain t' where t': "do_op im op t = Some t'"
    by (cases "do_op im op t") (auto simp: run_None)
  have ok': "tree_ok t'" "rid \<le> ot_next t'" using do_op_ok [OF Cons.prems(1) t'] Cons.prems(3) by simp_all
  have run: "fold (tree_step im) ops (Some t') = Some t2" using Cons.prems(4) t' by simp
  show ?case
  proof (cases "tree_view t' (p, n) = Some (rid, i)")
    case True
    then have "\<not> exports p n op"
      using export_view [OF Cons.prems(1) t', of p n] Cons.prems(3) by auto
    then show ?thesis using Cons.IH [OF ok'(1) True ok'(2) run] by (simp split: if_splits)
  next
    case False
    then have "\<forall>j. tree_view t' (p, n) \<noteq> Some (rid, j)"
      using op_view [OF Cons.prems(1) t', of p n] Cons.prems(2,3) by auto
    then have "\<forall>j. tree_view t2 (p, n) \<noteq> Some (rid, j)"
      by (rule run_lost [OF ok' _ run])
    moreover have "exports p n op \<or> removes p n rid op"
      using kept_view [OF Cons.prems(1) t' Cons.prems(2)] False by blast
    ultimately show ?thesis by (cases "exports p n op") simp_all
  qed
qed simp

lemma view_take: "tree_ok t \<Longrightarrow> fst (take_if_owned p n rid t) = fst (spec_take (p, n) rid (tree_view t))"
  using take_view(2) [of t p n rid] by (metis fst_apsnd)

lemma reached_ok: "fold (tree_step im) ops (Some tree_new) = Some t \<Longrightarrow> tree_ok t"
  using tree.inv_run [of "Some tree_new" im ops] tree_ok_new by (simp add: run_ok_def)

section \<open>Samples\<close>

definition plain_impl :: "(nat, unit) interface_impl" where
  "plain_impl = \<lparr> if_name = (\<lambda>_. InterfaceName ''a.b''), if_members = (\<lambda>_. []),
     if_requires_confidential = (\<lambda>_ _. False), if_call = (\<lambda>_ _ _ _ u. (Inr JNull, u)) \<rparr>"

definition served :: "nat \<Rightarrow> nat \<Rightarrow> nat object_tree" where
  "served rid i = \<lparr> ot_objects = [(ObjectPath ''/a'',
      [\<lparr> or_id = rid, or_name = InterfaceName ''a.b'', or_interface = i \<rparr>])], ot_next = rid \<rparr>"

lemma serve_one:
  "insert_owned (ObjectPath ''/a'') (InterfaceName ''a.b'') i tree_new = Some ((1, []), served 1 i)"
  by (simp add: insert_owned_def tree_new_def served_def)

lemma serve_two:
  "insert_owned (ObjectPath ''/a'') (InterfaceName ''a.b'') i (served 1 j) = Some ((2, [j]), served 2 i)"
  by (simp add: insert_owned_def served_def)

section \<open>Properties\<close>

text \<open>
  C24. The object tree implements a map from path and interface to one registration. In every tree
  the operations can build: exporting sets exactly that entry under an id newer than all in use
  and hands back the implementation it replaces, if any; a guard takes its entry back only if
  the id still is its own; clearing a path removes its entries and reports whether there were
  any; lookup tells a missing object from a missing interface; an export-if-free succeeds
  exactly at an unoccupied path; and the listed paths are the occupied ones, sorted.
\<close>

theorem object_tree_is_a_registry_map:
  assumes "fold (tree_step im) ops (Some tree_new) = Some t"
  shows "(\<forall>p n i j old t'. insert_owned p n i t = Some ((j, old), t') \<longrightarrow>
      tree_view t' = (tree_view t)((p, n) \<mapsto> (j, i)) \<and> old = spec_replaced (p, n) (tree_view t) \<and>
      (\<forall>k x y. tree_view t k = Some (x, y) \<longrightarrow> x < j)) \<and>
    (\<forall>p n rid. apsnd tree_view (take_if_owned p n rid t) = spec_take (p, n) rid (tree_view t)) \<and>
    (\<forall>p. apsnd tree_view (tree_remove p t) = (spec_occupied p (tree_view t), spec_remove p (tree_view t))) \<and>
    (\<forall>p n. tree_lookup t p n = spec_lookup (tree_view t) p n) \<and>
    (\<forall>p i free t'. insert_if_absent im p i t = Some (free, t') \<longrightarrow>
      free = (\<not> spec_occupied p (tree_view t)) \<and>
      (\<exists>j. tree_view t' = (if free then (tree_view t)((p, if_name im i) \<mapsto> (j, i)) else tree_view t))) \<and>
    (\<forall>p. p \<in> set (tree_paths t) \<longleftrightarrow> spec_occupied p (tree_view t)) \<and> sorted (tree_paths t)"
proof -
  have ok: "tree_ok t" by (rule reached_ok [OF assms])
  have ids: "x < ot_next t + 1" if "tree_view t k = Some (x, y)" for k x y
    using ok that view_Some [OF ok, of "fst k" "snd k"] by (fastforce simp: tree_ok_def)
  have free: "free = (\<not> spec_occupied p (tree_view t)) \<and>
      (\<exists>j. tree_view t' = (if free then (tree_view t)((p, if_name im i) \<mapsto> (j, i)) else tree_view t))"
    if f: "insert_if_absent im p i t = Some (free, t')" for p i free t'
  proof (cases "hget (ot_objects t) p")
    case None
    then obtain j old where "insert_owned p (if_name im i) i t = Some ((j, old), t')"
      using absent_view [OF f] by auto
    then show ?thesis using insert_view(2) [OF ok] absent_view [OF f] None by (auto simp: occupied_iff [OF ok])
  qed (use absent_view [OF f] in \<open>simp add: occupied_iff [OF ok]\<close>)
  have rem: "apsnd tree_view (tree_remove p t) = (spec_occupied p (tree_view t), spec_remove p (tree_view t))" for p
    using remove_view(2,3) [OF ok, of p] by (metis apsnd_conv)
  show ?thesis
  proof (intro conjI allI impI)
    fix p n i j old t' assume ins: "insert_owned p n i t = Some ((j, old), t')"
    show "tree_view t' = (tree_view t)((p, n) \<mapsto> (j, i))" "old = spec_replaced (p, n) (tree_view t)"
      using insert_view [OF ok ins] by simp_all
    fix k x y assume "tree_view t k = Some (x, y)"
    then show "x < j" using ids insert_view(4) [OF ok ins] by simp
  next
    fix p i fr t' assume "insert_if_absent im p i t = Some (fr, t')"
    note f = free [OF this]
    show "fr = (\<not> spec_occupied p (tree_view t))" using f by blast
    show "\<exists>j. tree_view t' = (if fr then (tree_view t)((p, if_name im i) \<mapsto> (j, i)) else tree_view t)"
      using f by blast
  qed (simp_all add: take_view [OF ok] rem lookup_view [OF ok] occupied_iff [OF ok] tree_paths_def hget_None_iff)
qed

theorem object_tree_is_a_registry_map_witness:
  "tree_view (served 2 8) = (tree_view (served 1 7))((ObjectPath ''/a'', InterfaceName ''a.b'') \<mapsto> (2, 8)) \<and>
   tree_lookup (served 1 7) (ObjectPath ''/a'') (InterfaceName ''a.b'') =
     spec_lookup (tree_view (served 1 7)) (ObjectPath ''/a'') (InterfaceName ''a.b'')"
proof -
  have run: "fold (tree_step plain_impl) [Export (ObjectPath ''/a'') (InterfaceName ''a.b'') 7] (Some tree_new) =
      Some (served 1 7)"
    using serve_one by simp
  show ?thesis
    using object_tree_is_a_registry_map [OF run] serve_two [of 8 7] by blast
qed

text \<open>
  Guards of exported interfaces are exact. The guard an export returned can take back only the
  interface it exported: nothing once something else was exported at that path and interface,
  however the tree changed in between, and exactly that interface, which calls still find, as
  long as nobody exported over it, cleared its path or used the guard.
\<close>

theorem owner_guards_are_exact:
  assumes "fold (tree_step im) before (Some tree_new) = Some t"
    and "insert_owned p n i t = Some ((rid, old), t1)"
    and "fold (tree_step im) ops (Some t1) = Some t2"
  shows "fst (take_if_owned p n rid t2) \<in> {None, Some i} \<and>
    ((\<exists>op \<in> set ops. exports p n op) \<longrightarrow> fst (take_if_owned p n rid t2) = None) \<and>
    ((\<forall>op \<in> set ops. \<not> exports p n op \<and> \<not> removes p n rid op) \<longrightarrow>
       tree_lookup t2 p n = Inr i \<and> fst (take_if_owned p n rid t2) = Some i)"
proof -
  have ok: "tree_ok t" by (rule reached_ok [OF assms(1)])
  note i = insert_view [OF ok assms(2)]
  have "run_ok (fold (tree_step im) ops (Some t1))"
    by (rule tree.inv_run) (use i(1) in \<open>simp add: run_ok_def\<close>)
  then have ok2: "tree_ok t2" using assms(3) by (simp add: run_ok_def)
  have v: "tree_view t1 (p, n) = Some (rid, i)" using i(2) by simp
  have new: "rid \<le> ot_next t1" using i(5) by simp
  note g = run_guard [OF i(1) v new assms(3)]
  have t: "fst (take_if_owned p n rid t2) =
      (case tree_view t2 (p, n) of Some (j, x) \<Rightarrow> if j = rid then Some x else None | None \<Rightarrow> None)"
    using view_take [OF ok2] by (simp add: spec_take_def split: option.split)
  have l: "tree_view t2 (p, n) = Some (rid, i) \<Longrightarrow> tree_lookup t2 p n = Inr i"
    by (simp add: lookup_view [OF ok2] spec_lookup_def)
  show ?thesis
  proof (cases "tree_view t2 (p, n) = Some (rid, i)")
    case True
    then show ?thesis using g t l by (simp split: if_splits)
  next
    case False
    then have "\<forall>j. tree_view t2 (p, n) \<noteq> Some (rid, j)" using g by (auto split: if_splits)
    then have "fst (take_if_owned p n rid t2) = None" using t by (auto split: option.split)
    then show ?thesis using g False by (auto split: if_splits)
  qed
qed

theorem owner_guards_are_exact_witness:
  "fst (take_if_owned (ObjectPath ''/a'') (InterfaceName ''a.b'') 1 (served 2 8)) = None"
proof -
  have run: "fold (tree_step plain_impl) [Export (ObjectPath ''/a'') (InterfaceName ''a.b'') 8] (Some (served 1 7)) =
      Some (served 2 8)"
    using serve_two by simp
  have none: "fold (tree_step plain_impl) [] (Some tree_new) = Some tree_new" by simp
  show ?thesis using owner_guards_are_exact [OF none serve_one run] by simp
qed

text \<open>
  Calls are admitted in order, and refusals run no user code. A dispatched call is answered
  with the first that fails of: the object exists, it has the interface, the interface has the
  member, a member that requires privacy was called confidentially; in all these cases the state
  of the services is untouched. Otherwise the exported implementation is called once, with the
  caller's context and arguments unchanged, and its answer is the answer.
\<close>

theorem calls_are_admitted_in_order:
  "dispatch_with_context im t p n m args confidential ctx u =
    (if p \<notin> set (tree_paths t) then (Inl (UnknownObject p), u)
     else (case tree_view t (p, n) of
       None \<Rightarrow> (Inl (UnknownInterface p n), u)
     | Some (_, target) \<Rightarrow>
         if m \<notin> set (if_members im target) then (Inl (UnknownMethod n m), u)
         else if if_requires_confidential im target m \<and> \<not> confidential
         then (Inl (ConfidentialityRequired n m), u)
         else if_call im target m args ctx u))"
proof (cases "hget (ot_objects t) p")
  case None
  then have "p \<notin> set (tree_paths t)" by (simp add: tree_paths_def hget_None_iff)
  then show ?thesis using None by (simp add: dispatch_with_context_def tree_lookup_def)
next
  case (Some rs)
  then have p: "p \<in> set (tree_paths t)" using hkeys_iff [of p "ot_objects t"] by (simp add: tree_paths_def)
  show ?thesis
    using Some p
    by (cases "find (\<lambda>r. or_name r = n) rs")
      (simp_all add: dispatch_with_context_def tree_lookup_def tree_view_def invoke_def admit_call_def)
qed

end
