(* ===== verification/Connection.thy ===== *)
theory Connection
  imports Broker Objects Streams
begin

text \<open>
  A peer's link to the bus (\<open>connection.rs\<close>): calls and their pending replies, the outbox and
  its writer task, the dispatch loop, and the handlers it spawns.

  A call in progress, a send waiting for room and a spawned handler are tasks, in tables by
  number; each function here runs one of them from one await to the next. A \<open>oneshot\<close> is the slot
  of the call that waits on it. What a handler awaits, user code or the stream registry, ends with
  a result an event supplies. Time is in milliseconds. The texts of serde's errors and the JSON
  text of a body are arguments (\<open>client_serde\<close>).
\<close>

definition DEFAULT_TIMEOUT :: nat where
  "DEFAULT_TIMEOUT = 30000"

definition OUTBOX_CAPACITY :: nat where
  "OUTBOX_CAPACITY = 1024"

record client_serde =
  cs_error :: "json \<Rightarrow> string"
  cs_text :: "json \<Rightarrow> string"

section \<open>State\<close>

record pending_reply =
  pr_call :: nat
  pr_expected :: "bus_name option"
  pr_bus_control :: bool
  pr_confidential :: bool
  pr_unverified_direct :: bool

definition reply_accepted :: "pending_reply \<Rightarrow> message \<Rightarrow> bool \<Rightarrow> bool" where
  "reply_accepted p reply brokered \<longleftrightarrow>
     (let h = m_header reply; sender = h_sender h; broker_sender = (sender = Some BUS_NAME);
          identity_matches =
            (if pr_bus_control p then sender = None \<or> broker_sender
             else (case pr_expected p of
               Some expected \<Rightarrow>
                 sender = Some expected \<or> (h_kind h = ErrorKind \<and> broker_sender) \<or>
                 (pr_unverified_direct p \<and> \<not> brokered \<and> sender = None)
             | None \<Rightarrow> \<not> brokered)) in
      identity_matches \<and> (h_kind h = ErrorKind \<or> \<not> pr_confidential p \<or> h_confidential h))"

datatype oneshot = Waiting | Sent message | SenderGone

text \<open>
  Where a call stands: just made, waiting for the owner of its destination (the inner call's number),
  waiting for room in the outbox, waiting for its reply until a deadline, returned, or given up
  by its caller.
\<close>

datatype call_phase =
    Starting
  | Resolving nat
  | Enqueueing nat
  | AwaitingReply nat nat
  | Returned "message result"
  | GivenUp

record call =
  cl_message :: message
  cl_timeout :: nat
  cl_started :: nat
  cl_slot :: oneshot
  cl_phase :: call_phase

datatype handler_phase = Dispatching | Running | Streaming

record handler =
  hd_message :: message
  hd_brokered :: bool
  hd_phase :: handler_phase

record 'i connection =
  cn_name :: "bus_name option"
  cn_serial :: nat
  cn_pending :: "(nat, pending_reply) hashmap"
  cn_calls :: "(nat, call) hashmap"
  cn_next_call :: nat
  cn_outbox :: "message list"
  cn_outbox_open :: bool
  cn_writing :: "message option"
  cn_wire :: "message list"
  cn_reading :: bool
  cn_senders :: "(nat, message) hashmap"
  cn_handlers :: "(nat, handler) hashmap"
  cn_next_task :: nat
  cn_objects :: "'i object_tree"
  cn_signals :: "message list"
  cn_deliveries :: "signal_delivery list"
  cn_panic_handler :: "error option"
  cn_origin :: nat
  cn_publisher :: nat

definition connection_attach :: "nat \<Rightarrow> nat \<Rightarrow> 'i connection" where
  "connection_attach origin publisher =
     \<lparr> cn_name = None, cn_serial = 1, cn_pending = [], cn_calls = [], cn_next_call = 0,
        cn_outbox = [], cn_outbox_open = True, cn_writing = None, cn_wire = [], cn_reading = True, cn_senders = [],
        cn_handlers = [], cn_next_task = 0, cn_objects = tree_new, cn_signals = [],
        cn_deliveries = [], cn_panic_handler = None, cn_origin = origin, cn_publisher = publisher \<rparr>"

definition set_call :: "nat \<Rightarrow> call \<Rightarrow> 'i connection \<Rightarrow> 'i connection" where
  "set_call c k cn = cn \<lparr> cn_calls := hput c k (cn_calls cn) \<rparr>"

text \<open>The two ends of a oneshot: the receiver is gone once its call has returned or was dropped.\<close>

definition fill_slot :: "nat \<Rightarrow> oneshot \<Rightarrow> 'i connection \<Rightarrow> 'i connection" where
  "fill_slot c v cn =
     (case hget (cn_calls cn) c of
        None \<Rightarrow> cn
      | Some k \<Rightarrow>
          if cl_phase k = GivenUp \<or> (\<exists>r. cl_phase k = Returned r) then cn
          else set_call c (k \<lparr> cl_slot := v \<rparr>) cn)"

definition put_pending :: "nat \<Rightarrow> pending_reply \<Rightarrow> 'i connection \<Rightarrow> 'i connection" where
  "put_pending serial p cn =
     (case hget (cn_pending cn) serial of
        None \<Rightarrow> cn \<lparr> cn_pending := hput serial p (cn_pending cn) \<rparr>
      | Some q \<Rightarrow> fill_slot (pr_call q) SenderGone (cn \<lparr> cn_pending := hput serial p (cn_pending cn) \<rparr>))"

section \<open>The outbox\<close>

datatype send_outcome = Accepted | Full | Closed

definition outbox_try_send :: "message \<Rightarrow> 'i connection \<Rightarrow> send_outcome \<times> 'i connection" where
  "outbox_try_send msg cn =
     (if \<not> cn_outbox_open cn then (Closed, cn)
      else if length (cn_outbox cn) < OUTBOX_CAPACITY
      then (Accepted, cn \<lparr> cn_outbox := cn_outbox cn @ [msg] \<rparr>)
      else (Full, cn))"

definition next_serial :: "'i connection \<Rightarrow> nat \<times> 'i connection" where
  "next_serial cn = (cn_serial cn, cn \<lparr> cn_serial := u64_add (cn_serial cn) 1 \<rparr>)"

definition with_serial :: "nat \<Rightarrow> message \<Rightarrow> message" where
  "with_serial n msg = msg \<lparr> m_header := (m_header msg) \<lparr> h_serial := n \<rparr> \<rparr>"

text \<open>\<open>try_send\<close>: the serial is taken before the checks.\<close>

definition conn_try_send :: "message \<Rightarrow> 'i connection \<Rightarrow> unit result \<times> 'i connection" where
  "conn_try_send msg cn =
     (case next_serial cn of
        (n, cn1) \<Rightarrow>
          (case validate (with_serial n msg) of
             Inl e \<Rightarrow> (Inl e, cn1)
           | Inr _ \<Rightarrow>
               (case outbox_try_send (with_serial n msg) cn1 of
                  (Accepted, cn2) \<Rightarrow> (Inr (), cn2)
                | (Full, cn2) \<Rightarrow> (Inl Backpressure, cn2)
                | (Closed, cn2) \<Rightarrow> (Inl ConnectionClosed, cn2))))"

text \<open>
  An awaited send: done at once, or a task that waits for room; \<open>None\<close> while it waits.
\<close>

definition start_send :: "message \<Rightarrow> 'i connection \<Rightarrow> unit result option \<times> 'i connection" where
  "start_send msg cn =
     (case outbox_try_send msg cn of
        (Accepted, cn') \<Rightarrow> (Some (Inr ()), cn')
      | (Closed, cn') \<Rightarrow> (Some (Inl ConnectionClosed), cn')
      | (Full, cn') \<Rightarrow>
          (None, cn' \<lparr> cn_senders := hput (cn_next_task cn') msg (cn_senders cn'),
                       cn_next_task := cn_next_task cn' + 1 \<rparr>))"

definition conn_send :: "message \<Rightarrow> 'i connection \<Rightarrow> unit result option \<times> 'i connection" where
  "conn_send msg cn =
     (case next_serial cn of
        (n, cn1) \<Rightarrow>
          (case validate (with_serial n msg) of
             Inl e \<Rightarrow> (Some (Inl e), cn1)
           | Inr _ \<Rightarrow> start_send (with_serial n msg) cn1))"

definition resume_send :: "nat \<Rightarrow> 'i connection \<Rightarrow> 'i connection" where
  "resume_send s cn =
     (case hget (cn_senders cn) s of
        None \<Rightarrow> cn
      | Some msg \<Rightarrow>
          (case outbox_try_send msg cn of
             (Full, _) \<Rightarrow> cn
           | (_, cn') \<Rightarrow> cn' \<lparr> cn_senders := hdel s (cn_senders cn') \<rparr>))"

section \<open>Calls\<close>

text \<open>The checks of \<open>call_raw_message\<close> before anything is sent.\<close>

definition check_call :: "message \<Rightarrow> unit result" where
  "check_call msg =
     (case validate (with_serial 1 msg) of
        Inl e \<Rightarrow> Inl e
      | Inr _ \<Rightarrow>
          (let h = m_header msg in
           if h_confidential h \<and> h_stream_reply h then
             Inl (Protocol ''a confidential call cannot request a streamed reply'')
           else if (h_confidential h \<or> h_sensitive h) \<and> body_contains_stream_ref (m_body msg) then
             Inl (Protocol (''a private call cannot carry a stream handle: the stream's bytes '' @
               ''travel as separate unattested writes, so the payload would not be '' @
               ''private even though the handle was''))
           else Inr ()))"

definition return_call :: "nat \<Rightarrow> message result \<Rightarrow> 'i connection \<Rightarrow> 'i connection" where
  "return_call c r cn =
     (case hget (cn_calls cn) c of
        None \<Rightarrow> cn | Some k \<Rightarrow> set_call c (k \<lparr> cl_phase := Returned r \<rparr>) cn)"

text \<open>What the awaited reply, or its absence, becomes.\<close>

definition reply_result :: "client_serde \<Rightarrow> message \<Rightarrow> message result" where
  "reply_result cs reply =
     (if h_kind (m_header reply) = ErrorKind then Inl (into_error (cs_text cs) reply) else Inr reply)"

definition await_reply :: "client_serde \<Rightarrow> nat \<Rightarrow> 'i connection \<Rightarrow> 'i connection" where
  "await_reply cs c cn =
     (case hget (cn_calls cn) c of
        None \<Rightarrow> cn
      | Some k \<Rightarrow>
          (case cl_slot k of
             Waiting \<Rightarrow> cn
           | Sent reply \<Rightarrow> return_call c (reply_result cs reply) cn
           | SenderGone \<Rightarrow> return_call c (Inl ConnectionClosed) cn))"

text \<open>
  \<open>enqueue\<close> and what follows it: on a closed outbox the pending entry is taken back; else the call
  waits for its reply, for what is left of its time.
\<close>

definition enqueue_call :: "client_serde \<Rightarrow> nat \<Rightarrow> nat \<Rightarrow> nat \<Rightarrow> 'i connection \<Rightarrow> 'i connection" where
  "enqueue_call cs now c serial cn =
     (case hget (cn_calls cn) c of
        None \<Rightarrow> cn
      | Some k \<Rightarrow>
          (case outbox_try_send (cl_message k) cn of
             (Full, cn') \<Rightarrow> set_call c (k \<lparr> cl_phase := Enqueueing serial \<rparr>) cn'
           | (Closed, cn') \<Rightarrow>
               return_call c (Inl ConnectionClosed) (cn' \<lparr> cn_pending := hdel serial (cn_pending cn') \<rparr>)
           | (Accepted, cn') \<Rightarrow>
               await_reply cs c
                 (set_call c (k \<lparr> cl_phase := AwaitingReply serial (now + (cl_timeout k - (now - cl_started k))) \<rparr>) cn')))"

text \<open>The serial, the pending entry, the send.\<close>

definition submit_call ::
  "client_serde \<Rightarrow> nat \<Rightarrow> nat \<Rightarrow> bus_name option \<Rightarrow> bool \<Rightarrow> 'i connection \<Rightarrow> 'i connection" where
  "submit_call cs now c expected bus_control cn =
     (case hget (cn_calls cn) c of
        None \<Rightarrow> cn
      | Some k \<Rightarrow>
          (case next_serial cn of
             (serial, cn1) \<Rightarrow>
               (let msg = with_serial serial (cl_message k);
                    p = \<lparr> pr_call = c, pr_expected = expected, pr_bus_control = bus_control,
                          pr_confidential = h_confidential (m_header msg),
                          pr_unverified_direct = (cn_name cn1 = None) \<rparr> in
                enqueue_call cs now c serial
                  (put_pending serial p (set_call c (k \<lparr> cl_message := msg \<rparr>) cn1)))))"

definition new_call :: "nat \<Rightarrow> nat \<Rightarrow> message \<Rightarrow> 'i connection \<Rightarrow> nat \<times> 'i connection" where
  "new_call now timeout msg cn =
     (let c = cn_next_call cn in
      (c, (set_call c \<lparr> cl_message = msg, cl_timeout = timeout, cl_started = now, cl_slot = Waiting,
             cl_phase = Starting \<rparr> cn) \<lparr> cn_next_call := c + 1 \<rparr>))"

text \<open>The call to the broker's own interface that resolves a well-known destination.\<close>

definition bus_message :: "string \<Rightarrow> json \<Rightarrow> message" where
  "bus_message member args = method_call BUS_NAME BUS_PATH BUS_INTERFACE (MemberName member) args"

definition resolve_message :: "bus_name \<Rightarrow> message" where
  "resolve_message d = bus_message ''ResolveCallTarget'' (JArray [JString (bus_str d)])"

text \<open>\<open>call_raw_message\<close>, up to its first wait.\<close>

definition begin_call :: "client_serde \<Rightarrow> nat \<Rightarrow> nat \<Rightarrow> message \<Rightarrow> 'i connection \<Rightarrow> nat \<times> 'i connection" where
  "begin_call cs now timeout msg cn =
     (case new_call now timeout msg cn of
        (c, cn1) \<Rightarrow>
          (c, case check_call msg of
                Inl e \<Rightarrow> return_call c (Inl e) cn1
              | Inr _ \<Rightarrow>
                  (case h_destination (m_header msg) of
                     None \<Rightarrow> submit_call cs now c None False cn1
                   | Some d \<Rightarrow>
                       if d = BUS_NAME then submit_call cs now c None True cn1
                       else if is_unique d then submit_call cs now c (Some d) False cn1
                       else if cn_name cn1 = None then submit_call cs now c None False cn1
                       else
                         (case new_call now timeout (resolve_message d) cn1 of
                            (inner, cn2) \<Rightarrow>
                              submit_call cs now inner None True
                                (case hget (cn_calls cn2) c of None \<Rightarrow> cn2
                                 | Some k \<Rightarrow> set_call c (k \<lparr> cl_phase := Resolving inner \<rparr>) cn2)))))"

text \<open>The owner in the inner call's reply.\<close>

definition decode_name :: "client_serde \<Rightarrow> json \<Rightarrow> bus_name result" where
  "decode_name cs v =
     (case v of
        JString s \<Rightarrow> (case BusName_new s of Inr n \<Rightarrow> Inr n | Inl _ \<Rightarrow> Inl (Json (cs_error cs v)))
      | _ \<Rightarrow> Inl (Json (cs_error cs v)))"

definition resolved :: "client_serde \<Rightarrow> message \<Rightarrow> message result \<Rightarrow> bus_name result" where
  "resolved cs msg r =
     (case r of
        Inl e \<Rightarrow> Inl e
      | Inr reply \<Rightarrow>
          (case decode_name cs (m_body reply) of
             Inl e \<Rightarrow> Inl e
           | Inr own \<Rightarrow>
               if \<not> is_unique own then Inl (Protocol ''broker returned a non-unique call target'')
               else if (case h_expected_responder (m_header msg) of None \<Rightarrow> False | Some x \<Rightarrow> x \<noteq> own)
               then (case h_destination (m_header msg) of
                       Some d \<Rightarrow> Inl (NameHasNoOwner d) | None \<Rightarrow> Inl ConnectionClosed)
               else Inr own))"

text \<open>A call task is woken: its inner call returned, the outbox has room, or its slot was filled.\<close>

definition resume_call :: "client_serde \<Rightarrow> nat \<Rightarrow> nat \<Rightarrow> 'i connection \<Rightarrow> 'i connection" where
  "resume_call cs now c cn =
     (case hget (cn_calls cn) c of
        None \<Rightarrow> cn
      | Some k \<Rightarrow>
          (case cl_phase k of
             Resolving inner \<Rightarrow>
               (case hget (cn_calls cn) inner of
                  None \<Rightarrow> cn
                | Some ki \<Rightarrow>
                    (case cl_phase ki of
                       Returned r \<Rightarrow>
                         (case resolved cs (cl_message k) r of
                            Inl e \<Rightarrow> return_call c (Inl e) cn
                          | Inr own \<Rightarrow>
                              (let msg = cl_message k;
                                   msg' = msg \<lparr> m_header := (m_header msg) \<lparr> h_expected_responder := Some own \<rparr> \<rparr> in
                               submit_call cs now c (Some own) False (set_call c (k \<lparr> cl_message := msg' \<rparr>) cn)))
                     | _ \<Rightarrow> cn))
           | Enqueueing serial \<Rightarrow> enqueue_call cs now c serial cn
           | AwaitingReply _ _ \<Rightarrow> await_reply cs c cn
           | _ \<Rightarrow> cn))"

text \<open>The deadline of a waiting call passes; a reply already in its slot still wins.\<close>

definition call_timer :: "client_serde \<Rightarrow> nat \<Rightarrow> nat \<Rightarrow> 'i connection \<Rightarrow> 'i connection" where
  "call_timer cs now c cn =
     (case hget (cn_calls cn) c of
        None \<Rightarrow> cn
      | Some k \<Rightarrow>
          (case cl_phase k of
             AwaitingReply serial deadline \<Rightarrow>
               if cl_slot k \<noteq> Waiting then await_reply cs c cn
               else if now < deadline then cn
               else return_call c (Inl (Timeout (member_or_unknown (cl_message k)) (cl_timeout k)))
                      (cn \<lparr> cn_pending := hdel serial (cn_pending cn) \<rparr>)
           | _ \<Rightarrow> cn))"

text \<open>The future of a call is dropped: with it the receiving end, not the pending entry.\<close>

definition drop_call :: "nat \<Rightarrow> 'i connection \<Rightarrow> 'i connection" where
  "drop_call c cn =
     (case hget (cn_calls cn) c of
        None \<Rightarrow> cn
      | Some k \<Rightarrow>
          (case cl_phase k of
             Returned _ \<Rightarrow> cn
           | Resolving inner \<Rightarrow>
               (let cn1 = set_call c (k \<lparr> cl_phase := GivenUp \<rparr>) cn in
                case hget (cn_calls cn1) inner of
                  None \<Rightarrow> cn1
                | Some ki \<Rightarrow>
                    (case cl_phase ki of
                       Returned _ \<Rightarrow> cn1 | _ \<Rightarrow> set_call inner (ki \<lparr> cl_phase := GivenUp \<rparr>) cn1))
           | _ \<Rightarrow> set_call c (k \<lparr> cl_phase := GivenUp \<rparr>) cn))"

section \<open>The writer task\<close>

datatype conn_write = Wrote | RefusedMessage error | LinkFailed

definition writer_take :: "'i connection \<Rightarrow> 'i connection" where
  "writer_take cn =
     (case (cn_writing cn, cn_outbox cn) of
        (None, msg # rest) \<Rightarrow>
          if cn_outbox_open cn then cn \<lparr> cn_writing := Some msg, cn_outbox := rest \<rparr> else cn
      | _ \<Rightarrow> cn)"

definition refused_call :: "nat \<Rightarrow> header" where
  "refused_call serial =
     \<lparr> h_kind = MethodCall, h_serial = serial, h_reply_serial = None, h_sender = None,
        h_expected_responder = None, h_destination = None, h_path = None, h_interface = None,
        h_member = None, h_error_name = None, h_module_lifecycle = None, h_confidential = False,
        h_sensitive = False, h_stream_reply = False \<rparr>"

definition refuse_call :: "nat \<Rightarrow> error \<Rightarrow> 'i connection \<Rightarrow> 'i connection" where
  "refuse_call serial refusal cn =
     (case hget (cn_pending cn) serial of
        None \<Rightarrow> cn
      | Some p \<Rightarrow>
          fill_slot (pr_call p) (Sent (error_reply (refused_call serial) refusal))
            (cn \<lparr> cn_pending := hdel serial (cn_pending cn) \<rparr>))"

text \<open>
  The transport's answer to the message being written; \<open>alive\<close> is whether the weak reference to the
  connection upgrades.
\<close>

definition writer_done :: "conn_write \<Rightarrow> bool \<Rightarrow> 'i connection \<Rightarrow> 'i connection" where
  "writer_done w alive cn =
     (case cn_writing cn of
        None \<Rightarrow> cn
      | Some msg \<Rightarrow>
          (let cn1 = cn \<lparr> cn_writing := None \<rparr> in
           case w of
             Wrote \<Rightarrow> cn1 \<lparr> cn_wire := cn_wire cn1 @ [msg] \<rparr>
           | RefusedMessage e \<Rightarrow>
               if h_kind (m_header msg) = MethodCall \<and> alive
               then refuse_call (h_serial (m_header msg)) e cn1 else cn1
           | LinkFailed \<Rightarrow> cn1 \<lparr> cn_outbox := [], cn_outbox_open := False \<rparr>))"

section \<open>The dispatch loop\<close>

definition accept_reply :: "message \<Rightarrow> bool \<Rightarrow> 'i connection \<Rightarrow> 'i connection" where
  "accept_reply msg brokered cn =
     (case h_reply_serial (m_header msg) of
        None \<Rightarrow> cn
      | Some serial \<Rightarrow>
          (case hget (cn_pending cn) serial of
             None \<Rightarrow> cn
           | Some p \<Rightarrow>
               if reply_accepted p msg brokered
               then fill_slot (pr_call p) (Sent msg) (cn \<lparr> cn_pending := hdel serial (cn_pending cn) \<rparr>)
               else cn))"

definition receive :: "message \<Rightarrow> bool \<Rightarrow> 'i connection \<Rightarrow> 'i connection" where
  "receive msg brokered cn =
     (if \<not> cn_reading cn then cn
      else (case h_kind (m_header msg) of
          MethodReturn \<Rightarrow> accept_reply msg brokered cn
        | ErrorKind \<Rightarrow> accept_reply msg brokered cn
        | MethodCall \<Rightarrow>
            cn \<lparr> cn_handlers := hput (cn_next_task cn)
                   \<lparr> hd_message = msg, hd_brokered = brokered, hd_phase = Dispatching \<rparr> (cn_handlers cn),
                 cn_next_task := cn_next_task cn + 1 \<rparr>
        | _ \<Rightarrow>
            cn \<lparr> cn_deliveries := cn_deliveries cn @ [received_delivery msg brokered],
                 cn_signals := cn_signals cn @ [msg] \<rparr>))"

text \<open>The transport ended: nobody waits for a reply any longer.\<close>

definition receive_end :: "'i connection \<Rightarrow> 'i connection" where
  "receive_end cn =
     (if \<not> cn_reading cn then cn
      else fold (\<lambda>(_, p). fill_slot (pr_call p) SenderGone) (cn_pending cn)
             (cn \<lparr> cn_reading := False, cn_pending := [] \<rparr>))"

definition deliver_local :: "message \<Rightarrow> 'i connection \<Rightarrow> 'i connection" where
  "deliver_local msg cn =
     (let m = msg \<lparr> m_header := (m_header msg) \<lparr> h_sender := cn_name cn \<rparr> \<rparr> in
      cn \<lparr> cn_deliveries := cn_deliveries cn @ [local_delivery m (cn_publisher cn)],
           cn_signals := cn_signals cn @ [m] \<rparr>)"

section \<open>Handlers\<close>

datatype 'i call_route = ToStreams | Refuse error | ToInterface 'i call_context

definition route_call :: "('i, 'u) interface_impl \<Rightarrow> header \<Rightarrow> bool \<Rightarrow> 'i connection \<Rightarrow> 'i call_route" where
  "route_call im h brokered cn =
     (if h_stream_reply h \<and> h_confidential h then
        Refuse (Protocol ''a confidential call cannot request a streamed reply'')
      else if stream_handles h then ToStreams
      else
        (case (h_path h, h_interface h, h_member h) of
           (Some path, Some interface, Some member) \<Rightarrow>
             (let ctx = (if brokered
                    then brokered_with_origin (h_sender h) (h_confidential h) (Some (cn_origin cn))
                    else context_default) in
              case tree_lookup (cn_objects cn) path interface of
                Inl e \<Rightarrow> Refuse e
              | Inr target \<Rightarrow>
                  (case admit_call im target interface member (h_confidential h) of
                     Inl e \<Rightarrow> Refuse e
                   | Inr _ \<Rightarrow> ToInterface target ctx))
         | _ \<Rightarrow> Refuse (Protocol ''method call is missing an address'')))"

text \<open>\<open>send_reply\<close> takes a serial and is not validated; the handler is done once it is handed over.\<close>

definition send_reply :: "nat \<Rightarrow> message \<Rightarrow> 'i connection \<Rightarrow> 'i connection" where
  "send_reply hid reply cn =
     (case next_serial (cn \<lparr> cn_handlers := hdel hid (cn_handlers cn) \<rparr>) of
        (n, cn1) \<Rightarrow> snd (start_send (with_serial n reply) cn1))"

definition handler_run :: "('i, 'u) interface_impl \<Rightarrow> nat \<Rightarrow> 'i connection \<Rightarrow> 'i connection" where
  "handler_run im hid cn =
     (case hget (cn_handlers cn) hid of
        None \<Rightarrow> cn
      | Some hn \<Rightarrow>
          if hd_phase hn \<noteq> Dispatching then cn
          else (case route_call im (m_header (hd_message hn)) (hd_brokered hn) cn of
              Refuse e \<Rightarrow> send_reply hid (error_reply (m_header (hd_message hn)) e) cn
            | _ \<Rightarrow> cn \<lparr> cn_handlers := hput hid (hn \<lparr> hd_phase := Running \<rparr>) (cn_handlers cn) \<rparr>))"

text \<open>
  The awaited code finished, or panicked (\<open>None\<close>): a module's panic handler turns that into an
  error, without one the task is gone and no reply is sent.
\<close>

definition handler_finished :: "nat \<Rightarrow> json result option \<Rightarrow> 'i connection \<Rightarrow> 'i connection" where
  "handler_finished hid outcome cn =
     (case hget (cn_handlers cn) hid of
        None \<Rightarrow> cn
      | Some hn \<Rightarrow>
          (let h = m_header (hd_message hn) in
           if hd_phase hn \<noteq> Running then cn
           else
             (case (case outcome of Some r \<Rightarrow> Some r | None \<Rightarrow> map_option Inl (cn_panic_handler cn)) of
                None \<Rightarrow> cn \<lparr> cn_handlers := hdel hid (cn_handlers cn) \<rparr>
              | Some (Inl e) \<Rightarrow> send_reply hid (error_reply h e) cn
              | Some (Inr v) \<Rightarrow>
                  if h_stream_reply h
                  then cn \<lparr> cn_handlers := hput hid (hn \<lparr> hd_phase := Streaming \<rparr>) (cn_handlers cn) \<rparr>
                  else send_reply hid (method_return h v) cn)))"

text \<open>
  A streamed reply has its stream, whose handle is the reply, or opening it failed.
\<close>

definition handler_streaming :: "nat \<Rightarrow> json result \<Rightarrow> 'i connection \<Rightarrow> 'i connection" where
  "handler_streaming hid envelope cn =
     (case hget (cn_handlers cn) hid of
        None \<Rightarrow> cn
      | Some hn \<Rightarrow>
          (let h = m_header (hd_message hn) in
           if hd_phase hn \<noteq> Streaming then cn
           else (case envelope of
               Inl e \<Rightarrow> send_reply hid (error_reply h e) cn
             | Inr v \<Rightarrow> send_reply hid (method_return h v) cn)))"

section \<open>The handshake\<close>

definition hello_message :: message where
  "hello_message = bus_message ''Hello'' (JArray [])"

definition handshake_done :: "client_serde \<Rightarrow> message result \<Rightarrow> 'i connection \<Rightarrow> unit result \<times> 'i connection" where
  "handshake_done cs r cn =
     (case r of
        Inl e \<Rightarrow> (Inl e, cn)
      | Inr reply \<Rightarrow>
          (case m_body reply of
             JString s \<Rightarrow>
               (case BusName_new s of
                  Inl e \<Rightarrow> (Inl e, cn)
                | Inr n \<Rightarrow> (Inr (), cn \<lparr> cn_name := Some n \<rparr>))
           | v \<Rightarrow> (Inl (Json (cs_error cs v)), cn)))"

end
