(* ===== verification/ConnectionSpec.thy ===== *)
theory ConnectionSpec
  imports Connection ObjectProps
begin

text \<open>
  Runs of a connection: every task step, transport event and API operation is an event; the
  invariant ties pending entries, calls and their slots together and justifies every reply by the
  message it came from.
\<close>

section \<open>Events\<close>

datatype 'i conn_event =
    Call nat nat message
  | Wake nat nat
  | Deadline nat nat
  | DropCall nat
  | SendNow message
  | SendAwait message
  | RoomFor nat
  | WriterTake
  | WriterDone conn_write bool
  | Received message bool
  | LinkEnded
  | LocalSignal message
  | RunHandler nat
  | FinishHandler nat "json result option"
  | StreamHandler nat "json result"
  | Objects "'i tree_op"
  | Handshake "message result"
  | SetPanicHandler error

fun conn_step ::
  "('i, 'u) interface_impl \<Rightarrow> client_serde \<Rightarrow> 'i conn_event \<Rightarrow> 'i connection \<Rightarrow> 'i connection" where
  "conn_step im cs (Call now timeout msg) cn = snd (begin_call cs now timeout msg cn)"
| "conn_step im cs (Wake now c) cn = resume_call cs now c cn"
| "conn_step im cs (Deadline now c) cn = call_timer cs now c cn"
| "conn_step im cs (DropCall c) cn = drop_call c cn"
| "conn_step im cs (SendNow msg) cn = snd (conn_try_send msg cn)"
| "conn_step im cs (SendAwait msg) cn = snd (conn_send msg cn)"
| "conn_step im cs (RoomFor s) cn = resume_send s cn"
| "conn_step im cs WriterTake cn = writer_take cn"
| "conn_step im cs (WriterDone w alive) cn = writer_done w alive cn"
| "conn_step im cs (Received msg brokered) cn = receive msg brokered cn"
| "conn_step im cs LinkEnded cn = receive_end cn"
| "conn_step im cs (LocalSignal msg) cn = deliver_local msg cn"
| "conn_step im cs (RunHandler h) cn = handler_run im h cn"
| "conn_step im cs (FinishHandler h r) cn = handler_finished h r cn"
| "conn_step im cs (StreamHandler h r) cn = handler_streaming h r cn"
| "conn_step im cs (Objects op) cn =
     (case do_op im op (cn_objects cn) of None \<Rightarrow> cn | Some t \<Rightarrow> cn \<lparr> cn_objects := t \<rparr>)"
| "conn_step im cs (Handshake r) cn = snd (handshake_done cs r cn)"
| "conn_step im cs (SetPanicHandler e) cn = cn \<lparr> cn_panic_handler := Some e \<rparr>"

definition conn_run ::
  "('i, 'u) interface_impl \<Rightarrow> client_serde \<Rightarrow> 'i conn_event list \<Rightarrow> 'i connection \<Rightarrow> 'i connection" where
  "conn_run im cs evs cn = fold (conn_step im cs) evs cn"

section \<open>What the tables say\<close>

type_synonym pendings = "nat \<Rightarrow> pending_reply option"
type_synonym calls = "nat \<Rightarrow> call option"

abbreviation call_header :: "call \<Rightarrow> header" where
  "call_header k \<equiv> m_header (cl_message k)"

definition is_resolve :: "call \<Rightarrow> bus_name \<Rightarrow> bool" where
  "is_resolve k d \<longleftrightarrow> (\<exists>s. cl_message k = with_serial s (resolve_message d))"

text \<open>The bus named \<open>own\<close> as the owner of \<open>d\<close>, in the reply to a call made to ask.\<close>

definition named_by :: "calls \<Rightarrow> bus_name \<Rightarrow> bus_name \<Rightarrow> bool" where
  "named_by C d own \<longleftrightarrow>
     (\<exists>c k reply. C c = Some k \<and> is_resolve k d \<and> cl_phase k = Returned (Inr reply) \<and>
        m_body reply = JString (bus_str own))"

definition describes :: "bool \<Rightarrow> calls \<Rightarrow> call \<Rightarrow> pending_reply \<Rightarrow> bool" where
  "describes named C k p \<longleftrightarrow>
     pr_confidential p = h_confidential (call_header k) \<and>
     pr_bus_control p = (h_destination (call_header k) = Some BUS_NAME) \<and>
     (named \<longrightarrow> \<not> pr_unverified_direct p) \<and>
     (case pr_expected p of
        Some e \<Rightarrow> is_unique e \<and>
          (h_destination (call_header k) = Some e \<or>
           (\<exists>d. h_destination (call_header k) = Some d \<and> \<not> is_unique d \<and> h_expected_responder (call_header k) = Some e \<and> named_by C d e))
      | None \<Rightarrow> named \<longrightarrow> h_destination (call_header k) \<in> {None, Some BUS_NAME})"

text \<open>A reply is for the call: received, accepted and carrying the call's serial.\<close>

definition justified :: "'i conn_event set \<Rightarrow> bool \<Rightarrow> calls \<Rightarrow> call \<Rightarrow> message \<Rightarrow> bool" where
  "justified evs named C k reply \<longleftrightarrow>
     h_reply_serial (m_header reply) = Some (h_serial (call_header k)) \<and>
     h_kind (m_header reply) \<in> {MethodReturn, ErrorKind} \<and>
     (\<exists>brokered p. Received reply brokered \<in> evs \<and> reply_accepted p reply brokered \<and> describes named C k p)"

definition slot_ok :: "'i conn_event set \<Rightarrow> (nat \<Rightarrow> bool) \<Rightarrow> pendings \<Rightarrow> calls \<Rightarrow> nat \<Rightarrow> call \<Rightarrow> bool" where
  "slot_ok evs named P C c k \<longleftrightarrow>
     (case cl_slot k of
        Waiting \<Rightarrow> (\<exists>p. P (h_serial (call_header k)) = Some p \<and> pr_call p = c)
      | Sent reply \<Rightarrow> justified evs (named c) C k reply \<or> h_kind (m_header reply) = ErrorKind
      | SenderGone \<Rightarrow> True)"

fun phase_ok :: "'i conn_event set \<Rightarrow> (nat \<Rightarrow> bool) \<Rightarrow> pendings \<Rightarrow> calls \<Rightarrow> nat \<Rightarrow> nat \<Rightarrow> call \<Rightarrow> call_phase \<Rightarrow> bool" where
  "phase_ok evs named P C ser c k Starting \<longleftrightarrow> cl_slot k = Waiting"
| "phase_ok evs named P C ser c k (Resolving i) \<longleftrightarrow>
     cl_slot k = Waiting \<and>
     (\<exists>d ki. h_destination (call_header k) = Some d \<and> d \<noteq> BUS_NAME \<and> \<not> is_unique d \<and> C i = Some ki \<and> is_resolve ki d)"
| "phase_ok evs named P C ser c k (Enqueueing s) \<longleftrightarrow>
     s = h_serial (call_header k) \<and> s < ser \<and> slot_ok evs named P C c k"
| "phase_ok evs named P C ser c k (AwaitingReply s _) \<longleftrightarrow>
     s = h_serial (call_header k) \<and> s < ser \<and> slot_ok evs named P C c k"
| "phase_ok evs named P C ser c k (Returned r) \<longleftrightarrow>
     (case r of
        Inr reply \<Rightarrow> justified evs (named c) C k reply \<and> h_serial (call_header k) < ser \<and>
          h_kind (m_header reply) \<noteq> ErrorKind
      | Inl _ \<Rightarrow> True)"
| "phase_ok evs named P C ser c k GivenUp \<longleftrightarrow> True"

fun serial_of :: "call \<Rightarrow> call_phase \<Rightarrow> nat option" where
  "serial_of k (Enqueueing s) = Some s"
| "serial_of k (AwaitingReply s _) = Some s"
| "serial_of k (Returned (Inr _)) = Some (h_serial (call_header k))"
| "serial_of k _ = None"

definition pending_ok :: "(nat \<Rightarrow> bool) \<Rightarrow> calls \<Rightarrow> nat \<Rightarrow> nat \<Rightarrow> pending_reply \<Rightarrow> bool" where
  "pending_ok named C ser s p \<longleftrightarrow>
     s < ser \<and>
     (\<exists>k. C (pr_call p) = Some k \<and>
        (cl_phase k = GivenUp \<or>
         cl_slot k = Waiting \<and> describes (named (pr_call p)) C k p \<and> (cl_phase k = Enqueueing s \<or> (\<exists>d. cl_phase k = AwaitingReply s d))))"

definition core :: "'i conn_event set \<Rightarrow> (nat \<Rightarrow> bool) \<Rightarrow> pendings \<Rightarrow> calls \<Rightarrow> nat \<Rightarrow> nat \<Rightarrow> bool" where
  "core evs named P C ser nc \<longleftrightarrow>
     (\<forall>c k. C c = Some k \<longrightarrow> c < nc \<and> phase_ok evs named P C ser c k (cl_phase k)) \<and>
     (\<forall>s p. P s = Some p \<longrightarrow> pending_ok named C ser s p) \<and>
     (\<forall>c k c' k' s. C c = Some k \<and> C c' = Some k' \<and> serial_of k (cl_phase k) = Some s \<and>
        serial_of k' (cl_phase k') = Some s \<longrightarrow> c = c') \<and>
     (\<forall>s p c k. P s = Some p \<and> C c = Some k \<and> serial_of k (cl_phase k) = Some s \<longrightarrow> pr_call p = c)"

section \<open>Monotonicity\<close>

definition keeps_returned :: "calls \<Rightarrow> calls \<Rightarrow> bool" where
  "keeps_returned C C' \<longleftrightarrow> (\<forall>c k r. C c = Some k \<and> cl_phase k = Returned r \<longrightarrow> C' c = Some k)"

lemma named_mono: "keeps_returned C C' \<Longrightarrow> named_by C d e \<Longrightarrow> named_by C' d e"
  unfolding keeps_returned_def named_by_def by blast

lemma describes_mono: "keeps_returned C C' \<Longrightarrow> describes named C k p \<Longrightarrow> describes named C' k p"
  unfolding describes_def by (auto split: option.splits intro: named_mono)

lemma justified_mono:
  "keeps_returned C C' \<Longrightarrow> evs \<subseteq> evs' \<Longrightarrow> justified evs named C k r \<Longrightarrow> justified evs' named C' k r"
  unfolding justified_def by (blast intro: describes_mono)

lemma describes_fields [simp]:
  "describes named C (k \<lparr> cl_phase := ph \<rparr>) p = describes named C k p"
  "describes named C (k \<lparr> cl_slot := v \<rparr>) p = describes named C k p"
  by (simp_all add: describes_def split: option.split)

lemma justified_fields [simp]:
  "justified evs named C (k \<lparr> cl_phase := ph \<rparr>) r = justified evs named C k r"
  "justified evs named C (k \<lparr> cl_slot := v \<rparr>) r = justified evs named C k r"
  by (simp_all add: justified_def)

lemma justified_serial: "justified evs named C k r \<Longrightarrow> h_reply_serial (m_header r) = Some (h_serial (call_header k))"
  by (simp add: justified_def)

lemma phase_mono:
  assumes "phase_ok evs named P C ser c k ph" and "keeps_returned C C'" and "evs \<subseteq> evs'" and "ser \<le> ser'"
    and "\<And>i ki d. C i = Some ki \<Longrightarrow> is_resolve ki d \<Longrightarrow> \<exists>ki'. C' i = Some ki' \<and> is_resolve ki' d"
    and "\<And>s p. P s = Some p \<Longrightarrow> pr_call p = c \<Longrightarrow> P' s = Some p"
  shows "phase_ok evs' named P' C' ser' c k ph"
proof -
  have slot: "slot_ok evs named P C c k \<Longrightarrow> slot_ok evs' named P' C' c k"
    unfolding slot_ok_def
    using justified_mono [OF assms(2,3), of "named c" k] assms(6) by (auto split: oneshot.splits)
  show ?thesis
  proof (cases ph)
    case (Resolving i)
    then show ?thesis using assms(1,5) by fastforce
  next
    case (Returned r)
    then show ?thesis
      using assms(1,4) justified_mono [OF assms(2,3), of "named c" k] by (auto split: sum.splits)
  qed (use assms(1,4) slot in auto)
qed

lemma pending_entry_mono: "pending_ok named C ser s p \<Longrightarrow> ser \<le> ser' \<Longrightarrow> pending_ok named C ser' s p"
  unfolding pending_ok_def by (simp add: less_le_trans)

lemma core_mono:
  assumes "core evs named P C ser nc" and a: "evs \<subseteq> evs'" "ser \<le> ser'"
  shows "core evs' named P C ser' nc"
proof -
  have k: "keeps_returned C C" by (simp add: keeps_returned_def)
  have "phase_ok evs named P C ser c k ph \<Longrightarrow> phase_ok evs' named P C ser' c k ph" for c k ph
    by (erule phase_mono [OF _ k a]) auto
  then show ?thesis
    using assms(1) pending_entry_mono [OF _ a(2)] unfolding core_def by meson
qed

text \<open>
  The one way the tables change: one call that has not returned moves on, with the pending
  entries that name it.
\<close>

lemma core_update:
  assumes core: "core evs named P C ser nc" and k: "C c = Some k" "\<And>r. cl_phase k \<noteq> Returned r"
    and ser: "ser \<le> ser'"
    and P: "\<And>s p. P s = Some p \<Longrightarrow> pr_call p \<noteq> c \<Longrightarrow> P' s = Some p"
    and P': "\<And>s p. P' s = Some p \<Longrightarrow> P s = Some p \<and> pr_call p \<noteq> c \<or>
      pr_call p = c \<and> pending_ok named (C(c \<mapsto> k')) ser' s p \<and> (P s = Some p \<or> serial_of k' (cl_phase k') = Some s)"
    and k': "phase_ok evs named P' (C(c \<mapsto> k')) ser' c k' (cl_phase k')"
    and res: "\<And>d. is_resolve k d \<Longrightarrow> is_resolve k' d"
    and fresh: "\<And>s. serial_of k' (cl_phase k') = Some s \<Longrightarrow> serial_of k (cl_phase k) = Some s \<or> ser \<le> s"
  shows "core evs named P' (C(c \<mapsto> k')) ser' nc"
proof -
  let ?C = "C(c \<mapsto> k')"
  have keep: "keeps_returned C ?C" using k by (auto simp: keeps_returned_def)
  have calls: "C i = Some ki \<Longrightarrow> i < nc \<and> phase_ok evs named P C ser i ki (cl_phase ki)" for i ki
    using core by (simp add: core_def)
  have below: "s < ser" if "C i = Some ki" "serial_of ki (cl_phase ki) = Some s" for i ki s
    using calls [OF that(1)] that(2)
    by (cases "(ki, cl_phase ki)" rule: serial_of.cases) auto
  have rs: "\<exists>ki'. ?C i = Some ki' \<and> is_resolve ki' d" if "C i = Some ki" "is_resolve ki d" for i ki d
    using that k(1) res by auto
  have "i < nc \<and> phase_ok evs named P' ?C ser' i ki (cl_phase ki)" if "?C i = Some ki" for i ki
  proof (cases "i = c")
    case True
    then show ?thesis using that k' calls [OF k(1)] by simp
  next
    case False
    then have i: "C i = Some ki" using that by simp
    have "phase_ok evs named P' ?C ser' i ki (cl_phase ki)"
      by (rule phase_mono [OF calls [OF i, THEN conjunct2] keep subset_refl ser rs]) (use P False in auto)
    then show ?thesis using calls [OF i] by simp
  qed
  moreover have "pending_ok named ?C ser' s p" if p: "P' s = Some p" for s p
  proof -
    from P' [OF p] consider "P s = Some p" "pr_call p \<noteq> c" | "pending_ok named ?C ser' s p" by blast
    then show ?thesis
    proof cases
      case 1
      then have "pending_ok named C ser s p" using core by (simp add: core_def)
      then show ?thesis
        using 1(2) ser describes_mono [OF keep] unfolding pending_ok_def by auto
    qed
  qed
  moreover have serials: "i = j" if i: "?C i = Some ki" "serial_of ki (cl_phase ki) = Some s"
    and j: "?C j = Some kj" "serial_of kj (cl_phase kj) = Some s" for i j ki kj s
  proof -
    have uniq: "C a = Some ka \<Longrightarrow> C b = Some kb \<Longrightarrow> serial_of ka (cl_phase ka) = Some s \<Longrightarrow>
        serial_of kb (cl_phase kb) = Some s \<Longrightarrow> a = b" for a b ka kb
      using core unfolding core_def by blast
    have other: "a = c" if "C a = Some ka" "serial_of ka (cl_phase ka) = Some s"
      "serial_of k' (cl_phase k') = Some s" for a ka
      using fresh [OF that(3)] uniq [OF that(1) k(1) that(2)] below [OF that(1,2)] by linarith
    show ?thesis
      using i j uniq other by (cases "i = c"; cases "j = c") auto
  qed
  moreover have "pr_call p = i" if p: "P' s = Some p" and i: "?C i = Some ki" "serial_of ki (cl_phase ki) = Some s" for s p i ki
  proof (cases "P s = Some p")
    case True
    then have old: "C j = Some kj \<Longrightarrow> serial_of kj (cl_phase kj) = Some s \<Longrightarrow> pr_call p = j" for j kj
      using core unfolding core_def by blast
    have "s < ser" using core True by (auto simp: core_def pending_ok_def)
    then show ?thesis
      using i old [of i ki] old [OF k(1)] fresh [of s] by (cases "i = c") auto
  next
    case False
    then have "pr_call p = c" "serial_of k' (cl_phase k') = Some s" using P' [OF p] by auto
    then show ?thesis using serials [OF _ _ i] by simp
  qed
  ultimately show ?thesis unfolding core_def by blast
qed

lemma core_new:
  assumes core: "core evs named P C ser nc" and k: "cl_phase k = Starting" "cl_slot k = Waiting"
  shows "core evs named P (C(nc \<mapsto> k)) ser (nc + 1)"
proof -
  have none: "C nc = None" using core unfolding core_def by (metis less_irrefl not_None_eq)
  then have keep: "keeps_returned C (C(nc \<mapsto> k))" by (auto simp: keeps_returned_def)
  have rs: "\<exists>ki'. (C(nc \<mapsto> k)) i = Some ki' \<and> is_resolve ki' d" if "C i = Some ki" "is_resolve ki d" for i ki d
    using that none by auto
  have calls: "i < nc + 1 \<and> phase_ok evs named P (C(nc \<mapsto> k)) ser i ki (cl_phase ki)"
    if "(C(nc \<mapsto> k)) i = Some ki" for i ki
  proof (cases "i = nc")
    case False
    then have "i < nc \<and> phase_ok evs named P C ser i ki (cl_phase ki)"
      using core that by (simp add: core_def)
    then show ?thesis by (auto intro: phase_mono [OF _ keep subset_refl order_refl rs])
  qed (use that k in simp)
  have "pending_ok named (C(nc \<mapsto> k)) ser s p" if "P s = Some p" for s p
  proof -
    have "pending_ok named C ser s p" using core that by (simp add: core_def)
    then show ?thesis using none describes_mono [OF keep] unfolding pending_ok_def by fastforce
  qed
  moreover have "i = j" if "(C(nc \<mapsto> k)) i = Some ki" "(C(nc \<mapsto> k)) j = Some kj"
    "serial_of ki (cl_phase ki) = Some s" "serial_of kj (cl_phase kj) = Some s" for i j ki kj s
    using that core k(1) unfolding core_def by (auto split: if_splits)
  moreover have "pr_call p = i" if "P s = Some p" "(C(nc \<mapsto> k)) i = Some ki" "serial_of ki (cl_phase ki) = Some s" for s p i ki
    using that core k(1) unfolding core_def by (auto split: if_splits)
  ultimately show ?thesis unfolding core_def using calls by blast
qed

section \<open>The connection's invariant\<close>

definition conn_ok :: "'i conn_event set \<Rightarrow> (nat \<Rightarrow> bool) \<Rightarrow> 'i connection \<Rightarrow> bool" where
  "conn_ok evs named cn \<longleftrightarrow>
     core evs named (map_of (cn_pending cn)) (map_of (cn_calls cn)) (cn_serial cn) (cn_next_call cn) \<and>
     hmap_ok (cn_pending cn) \<and> ((\<exists>c. named c) \<longrightarrow> cn_name cn \<noteq> None)"

text \<open>Operations that touch neither calls nor pending entries.\<close>

definition calls_frame :: "'i connection \<Rightarrow> 'i connection \<Rightarrow> bool" where
  "calls_frame cn cn' \<longleftrightarrow>
     cn_pending cn' = cn_pending cn \<and> cn_calls cn' = cn_calls cn \<and> cn_next_call cn' = cn_next_call cn \<and>
     (cn_name cn \<noteq> None \<longrightarrow> cn_name cn' \<noteq> None) \<and>
     (cn_serial cn + 1 < 2 ^ 64 \<longrightarrow> cn_serial cn \<le> cn_serial cn' \<and> cn_serial cn' \<le> cn_serial cn + 1)"

lemma frame_ok:
  "calls_frame cn cn' \<Longrightarrow> cn_serial cn + 1 < 2 ^ 64 \<Longrightarrow> conn_ok evs named cn \<Longrightarrow> conn_ok evs named cn'"
  by (auto simp: calls_frame_def conn_ok_def intro: core_mono)

lemma try_send_frame:
  "outbox_try_send msg cn = (r, cn') \<Longrightarrow>
     cn_pending cn' = cn_pending cn \<and> cn_calls cn' = cn_calls cn \<and> cn_next_call cn' = cn_next_call cn \<and>
     cn_name cn' = cn_name cn \<and> cn_serial cn' = cn_serial cn"
  by (auto simp: outbox_try_send_def split: if_splits)

lemma start_send_frame:
  "cn_pending (snd (start_send msg cn)) = cn_pending cn \<and> cn_calls (snd (start_send msg cn)) = cn_calls cn \<and>
   cn_next_call (snd (start_send msg cn)) = cn_next_call cn \<and>
   cn_name (snd (start_send msg cn)) = cn_name cn \<and> cn_serial (snd (start_send msg cn)) = cn_serial cn"
  by (auto simp: start_send_def outbox_try_send_def)

lemma serial_step: "n + 1 < 2 ^ 64 \<Longrightarrow> u64_add n 1 = n + 1"
  by (simp add: u64_add_small)

lemma send_reply_frame: "calls_frame cn (send_reply h msg cn)"
  by (auto simp: calls_frame_def send_reply_def next_serial_def start_send_frame serial_step)

lemma sends_frame:
  "calls_frame cn (snd (conn_try_send msg cn))" "calls_frame cn (snd (conn_send msg cn))"
  "calls_frame cn (resume_send s cn)"
  by (auto simp: calls_frame_def conn_try_send_def conn_send_def resume_send_def next_serial_def start_send_frame
      serial_step outbox_try_send_def split: sum.splits option.splits if_splits send_outcome.splits)

lemma frame_refl: "calls_frame cn cn"
  by (simp add: calls_frame_def)

lemma frame_fields:
  "calls_frame cn (cn \<lparr> cn_handlers := x \<rparr>)" "calls_frame cn (cn \<lparr> cn_objects := t \<rparr>)"
  "calls_frame cn (cn \<lparr> cn_panic_handler := e \<rparr>)" "calls_frame cn (cn \<lparr> cn_writing := w \<rparr>)"
  "calls_frame cn (cn \<lparr> cn_writing := w, cn_outbox := q \<rparr>)" "calls_frame cn (writer_take cn)"
  "calls_frame cn (deliver_local msg cn)" "calls_frame cn (snd (handshake_done cs r cn))"
  by (auto simp: calls_frame_def writer_take_def deliver_local_def Let_def handshake_done_def
      split: option.splits list.splits sum.splits json.splits)

lemma handlers_frame:
  "calls_frame cn (handler_run im h cn)" "calls_frame cn (handler_finished h r cn)"
  "calls_frame cn (handler_streaming h v cn)"
  by (auto simp: handler_run_def handler_finished_def handler_streaming_def Let_def frame_refl frame_fields
      send_reply_frame split: option.splits call_route.splits sum.splits)

section \<open>Calls\<close>

lemma calls_set [simp]:
  "map_of (cn_calls (set_call c k cn)) = (map_of (cn_calls cn))(c \<mapsto> k)"
  "cn_pending (set_call c k cn) = cn_pending cn" "cn_serial (set_call c k cn) = cn_serial cn"
  "cn_next_call (set_call c k cn) = cn_next_call cn" "cn_name (set_call c k cn) = cn_name cn"
  "cn_outbox (set_call c k cn) = cn_outbox cn" "cn_outbox_open (set_call c k cn) = cn_outbox_open cn"
  by (simp_all add: set_call_def hm.get_put fun_eq_iff)

lemma conn_okD:
  assumes "conn_ok evs named cn" and "hget (cn_calls cn) c = Some k"
  shows "phase_ok evs named (map_of (cn_pending cn)) (map_of (cn_calls cn)) (cn_serial cn) c k (cl_phase k)"
  using assms by (simp add: conn_ok_def core_def)

lemma conn_okP:
  assumes "conn_ok evs named cn" and "hget (cn_pending cn) s = Some p"
  shows "pending_ok named (map_of (cn_calls cn)) (cn_serial cn) s p"
  using assms by (simp add: conn_ok_def core_def)

text \<open>Entries that name a call under another serial exist only once it was given up.\<close>

lemma pending_of:
  assumes "conn_ok evs named cn" and "hget (cn_pending cn) s = Some p" and "hget (cn_calls cn) (pr_call p) = Some k"
  shows "cl_phase k = GivenUp \<or> (cl_slot k = Waiting \<and> h_serial (call_header k) = s \<and>
    (cl_phase k = Enqueueing s \<or> (\<exists>d. cl_phase k = AwaitingReply s d)))"
proof -
  have "cl_phase k = GivenUp \<or> cl_slot k = Waiting \<and> (cl_phase k = Enqueueing s \<or> (\<exists>d. cl_phase k = AwaitingReply s d))"
    using conn_okP [OF assms(1,2)] assms(3) by (auto simp: pending_ok_def)
  then show ?thesis using conn_okD [OF assms(1,3)] by auto
qed

text \<open>A call returns, and its pending entry, if it still has one, is taken out.\<close>

lemma return_ok:
  assumes ok: "conn_ok evs named cn" and k: "hget (cn_calls cn) c = Some k" "\<And>r. cl_phase k \<noteq> Returned r" "cl_phase k \<noteq> GivenUp"
    and s: "\<And>s p. hget (cn_pending cn) s = Some p \<Longrightarrow> pr_call p = c \<Longrightarrow> s = serial"
    and q: "q = hdel serial (cn_pending cn) \<or> (q = cn_pending cn \<and> (\<forall>s p. hget q s = Some p \<longrightarrow> pr_call p \<noteq> c))"
    and mine: "\<And>p. hget (cn_pending cn) serial = Some p \<Longrightarrow> pr_call p = c"
    and r: "\<And>reply. r = Inr reply \<Longrightarrow> justified evs (named c) (map_of (cn_calls cn)) k reply \<and>
      h_kind (m_header reply) \<noteq> ErrorKind \<and> serial_of k (cl_phase k) = Some (h_serial (call_header k)) \<and>
      h_serial (call_header k) < cn_serial cn"
  shows "conn_ok evs named (return_call c r (cn \<lparr> cn_pending := q \<rparr>))"
proof -
  let ?k = "k \<lparr> cl_phase := Returned r \<rparr>"
  let ?C = "(map_of (cn_calls cn))(c \<mapsto> ?k)"
  have keep: "keeps_returned (map_of (cn_calls cn)) ?C" using k by (auto simp: keeps_returned_def)
  have same: "justified evs (named c) ?C ?k reply" if "r = Inr reply" for reply
    using justified_mono [OF keep subset_refl [of evs]] r [OF that] by simp
  have core: "core evs named (map_of (cn_pending cn)) (map_of (cn_calls cn)) (cn_serial cn) (cn_next_call cn)"
    using ok by (simp add: conn_ok_def)
  have q1: "hget q s = Some p" if "hget (cn_pending cn) s = Some p" "pr_call p \<noteq> c" for s p
    using q that mine [of p] by (auto simp: hm.get_del)
  have q2: "hget (cn_pending cn) s = Some p \<and> pr_call p \<noteq> c" if "hget q s = Some p" for s p
    using q that s [of _ p] by (auto simp: hm.get_del split: if_splits)
  have ph: "phase_ok evs named (map_of q) ?C (cn_serial cn) c ?k (cl_phase ?k)"
    using same r by (auto split: sum.splits)
  have fresh: "serial_of k (cl_phase k) = Some s" if "serial_of ?k (cl_phase ?k) = Some s" for s
    using that r by (cases r) auto
  have "core evs named (map_of q) ?C (cn_serial cn) (cn_next_call cn)"
    by (rule core_update [OF core k(1,2) order_refl q1 disjI1 [OF q2] ph])
      (simp_all add: is_resolve_def fresh)
  moreover have "hmap_ok q" using q ok by (auto simp: conn_ok_def hm.ok_del)
  ultimately show ?thesis
    using ok k by (simp add: conn_ok_def return_call_def)
qed

lemma return_unpending_ok:
  assumes ok: "conn_ok evs named cn" and k: "hget (cn_calls cn) c = Some k" "\<And>r. cl_phase k \<noteq> Returned r" "cl_phase k \<noteq> GivenUp"
    and np: "\<And>s p. hget (cn_pending cn) s = Some p \<Longrightarrow> pr_call p \<noteq> c"
    and r: "\<And>reply. r = Inr reply \<Longrightarrow> justified evs (named c) (map_of (cn_calls cn)) k reply \<and>
      h_kind (m_header reply) \<noteq> ErrorKind \<and> serial_of k (cl_phase k) = Some (h_serial (call_header k)) \<and>
      h_serial (call_header k) < cn_serial cn"
  shows "conn_ok evs named (return_call c r cn)"
proof -
  have none: "hget (cn_pending cn) (cn_serial cn) = None"
    using conn_okP [OF ok, of "cn_serial cn"] by (cases "hget (cn_pending cn) (cn_serial cn)") (auto simp: pending_ok_def)
  have "conn_ok evs named (return_call c r (cn \<lparr> cn_pending := cn_pending cn \<rparr>))"
    by (rule return_ok [OF ok k, where serial = "cn_serial cn"]) (use np none in \<open>simp_all add: r\<close>)
  then show ?thesis by simp
qed

text \<open>Filling the slot of a call whose pending entry has just been taken.\<close>

lemma fill_calls:
  "map_of (cn_calls (fill_slot c v cn)) =
    (case map_of (cn_calls cn) c of
       Some k \<Rightarrow> if cl_phase k = GivenUp \<or> (\<exists>r. cl_phase k = Returned r) then map_of (cn_calls cn)
                 else (map_of (cn_calls cn))(c \<mapsto> k \<lparr> cl_slot := v \<rparr>)
     | None \<Rightarrow> map_of (cn_calls cn))"
  by (simp add: fill_slot_def split: option.split)

lemma fill_fields [simp]:
  "cn_pending (fill_slot c v cn) = cn_pending cn" "cn_serial (fill_slot c v cn) = cn_serial cn"
  "cn_next_call (fill_slot c v cn) = cn_next_call cn" "cn_name (fill_slot c v cn) = cn_name cn"
  by (simp_all add: fill_slot_def split: option.split)

lemma core_fill:
  assumes core: "core evs named P C ser nc" and p: "P s = Some p"
    and P': "P' = P(s := None)"
    and C': "C' = (case C (pr_call p) of
       Some k \<Rightarrow> if cl_phase k = GivenUp \<or> (\<exists>r. cl_phase k = Returned r) then C
                 else C(pr_call p \<mapsto> k \<lparr> cl_slot := v \<rparr>)
     | None \<Rightarrow> C)"
    and v: "\<And>k r. v = Sent r \<Longrightarrow> C (pr_call p) = Some k \<Longrightarrow> h_serial (call_header k) = s \<Longrightarrow> describes (named (pr_call p)) C k p \<Longrightarrow>
      justified evs (named (pr_call p)) C k r \<or> h_kind (m_header r) = ErrorKind"
    and w: "v \<noteq> Waiting"
  shows "core evs named P' C' ser nc"
proof -
  have pk: "pending_ok named C ser s p" using core p by (simp add: core_def)
  then obtain k where k: "C (pr_call p) = Some k" "s < ser"
    "cl_phase k = GivenUp \<or> cl_slot k = Waiting \<and> describes (named (pr_call p)) C k p \<and> (cl_phase k = Enqueueing s \<or> (\<exists>d. cl_phase k = AwaitingReply s d))"
    unfolding pending_ok_def by blast
  have ph: "phase_ok evs named P C ser (pr_call p) k (cl_phase k)" using core k(1) by (simp add: core_def)
  have mine: "s' = s" if "P s' = Some p'" "pr_call p' = pr_call p" "cl_phase k \<noteq> GivenUp" for s' p'
  proof -
    have "pending_ok named C ser s' p'" using core that(1) by (simp add: core_def)
    then show ?thesis using that k unfolding pending_ok_def by auto
  qed
  show ?thesis
  proof (cases "cl_phase k = GivenUp")
    case True
    then have "C' = C" using C' k(1) by simp
    moreover have "core evs named P' C ser nc"
    proof -
      have "phase_ok evs named P' C ser c kc (cl_phase kc)" if c: "C c = Some kc" for c kc
      proof (cases "c = pr_call p")
        case True
        then show ?thesis using c k(1) \<open>cl_phase k = GivenUp\<close> by simp
      next
        case False
        have "phase_ok evs named P C ser c kc (cl_phase kc)" using core c by (simp add: core_def)
        then show ?thesis
          by (rule phase_mono) (use False P' p in \<open>auto simp: keeps_returned_def\<close>)
      qed
      then show ?thesis using core P' unfolding core_def by auto
    qed
    ultimately show ?thesis by simp
  next
    case False
    let ?k = "k \<lparr> cl_slot := v \<rparr>" and ?C = "C(pr_call p \<mapsto> k \<lparr> cl_slot := v \<rparr>)"
    have open_phase: "cl_phase k = Enqueueing s \<or> (\<exists>d. cl_phase k = AwaitingReply s d)" and d: "describes (named (pr_call p)) C k p"
      using False k(3) by auto
    then have s: "h_serial (call_header k) = s" using ph by auto
    have C'': "C' = ?C" using C' k(1) False open_phase by auto
    have nr: "\<And>r. cl_phase k \<noteq> Returned r" using open_phase by auto
    have keep: "keeps_returned C ?C" using k(1) nr by (auto simp: keeps_returned_def)
    have slot: "slot_ok evs named P' ?C (pr_call p) ?k"
      using v [OF _ k(1) s d] w justified_mono [OF keep subset_refl [of evs], of "named (pr_call p)" k]
      by (auto simp: slot_ok_def split: oneshot.splits)
    have ph': "phase_ok evs named P' ?C ser (pr_call p) ?k (cl_phase ?k)"
      using open_phase s k(2) slot by auto
    have q1: "P' s' = Some p'" if "P s' = Some p'" "pr_call p' \<noteq> pr_call p" for s' p'
      using that p P' by auto
    have q2: "P s' = Some p' \<and> pr_call p' \<noteq> pr_call p" if "P' s' = Some p'" for s' p'
      using that mine [of s' p'] False P' by (auto split: if_splits)
    show ?thesis
      unfolding C''
      by (rule core_update [OF core k(1) nr order_refl q1 disjI1 [OF q2] ph'])
        (use open_phase in \<open>auto simp: is_resolve_def\<close>)
  qed
qed

lemma take_pending_ok:
  assumes ok: "conn_ok evs named cn" and p: "hget (cn_pending cn) s = Some p" and w: "v \<noteq> Waiting"
    and v: "\<And>k r. v = Sent r \<Longrightarrow> hget (cn_calls cn) (pr_call p) = Some k \<Longrightarrow> h_serial (call_header k) = s \<Longrightarrow>
      describes (named (pr_call p)) (map_of (cn_calls cn)) k p \<Longrightarrow>
      justified evs (named (pr_call p)) (map_of (cn_calls cn)) k r \<or> h_kind (m_header r) = ErrorKind"
  shows "conn_ok evs named (fill_slot (pr_call p) v (cn \<lparr> cn_pending := hdel s (cn_pending cn) \<rparr>))"
proof -
  have del: "map_of (hdel s (cn_pending cn)) = (map_of (cn_pending cn))(s := None)" by (rule hm.get_del)
  have "core evs named (map_of (hdel s (cn_pending cn)))
      (map_of (cn_calls (fill_slot (pr_call p) v (cn \<lparr> cn_pending := hdel s (cn_pending cn) \<rparr>))))
      (cn_serial cn) (cn_next_call cn)"
    by (rule core_fill [where named = named, OF _ p del _ v w]) (use ok in \<open>auto simp: conn_ok_def fill_calls split: option.split\<close>)
  then show ?thesis using ok by (simp add: conn_ok_def hm.ok_del)
qed

lemma accept_ok:
  assumes "conn_ok evs named cn" and "Received msg brokered \<in> evs"
    and "h_kind (m_header msg) \<in> {MethodReturn, ErrorKind}"
  shows "conn_ok evs named (accept_reply msg brokered cn)"
proof (cases "\<exists>s p. h_reply_serial (m_header msg) = Some s \<and> hget (cn_pending cn) s = Some p \<and> reply_accepted p msg brokered")
  case True
  then obtain s p where p: "h_reply_serial (m_header msg) = Some s" "hget (cn_pending cn) s = Some p" "reply_accepted p msg brokered"
    by blast
  have "conn_ok evs named (fill_slot (pr_call p) (Sent msg) (cn \<lparr> cn_pending := hdel s (cn_pending cn) \<rparr>))"
    by (rule take_pending_ok [OF assms(1) p(2)]) (use assms(2,3) p in \<open>auto simp: justified_def\<close>)
  then show ?thesis using p by (simp add: accept_reply_def)
qed (use assms in \<open>auto simp: accept_reply_def split: option.split\<close>)

lemma refuse_ok: "conn_ok evs named cn \<Longrightarrow> conn_ok evs named (refuse_call s e cn)"
  by (auto simp: refuse_call_def error_reply_def split: option.split intro!: take_pending_ok)

text \<open>The end of the link empties the table, one entry after the other.\<close>

lemma fill_pending_field:
  "fill_slot c v (cn \<lparr> cn_pending := q \<rparr>) = (fill_slot c v cn) \<lparr> cn_pending := q \<rparr>"
  by (simp add: fill_slot_def set_call_def split: option.split)

lemma drain_ok:
  assumes "conn_ok evs named (cn \<lparr> cn_pending := ps \<rparr>)" and "distinct (map fst ps)"
  shows "conn_ok evs named (fold (\<lambda>(_, p). fill_slot (pr_call p) SenderGone) ps (cn \<lparr> cn_pending := [] \<rparr>))"
  using assms
proof (induction ps arbitrary: cn)
  case (Cons e ps)
  obtain s p where e: "e = (s, p)" by fastforce
  have del: "hdel s (e # ps) = ps"
    using Cons.prems(2) unfolding e by (simp add: delete_notin_dom dom_map_of_conv_image_fst)
  have "conn_ok evs named (fill_slot (pr_call p) SenderGone ((cn \<lparr> cn_pending := e # ps \<rparr>) \<lparr> cn_pending := hdel s (e # ps) \<rparr>))"
    using take_pending_ok [OF Cons.prems(1), of s p SenderGone] by (simp add: e)
  then have "conn_ok evs named ((fill_slot (pr_call p) SenderGone cn) \<lparr> cn_pending := ps \<rparr>)"
    unfolding del by (simp add: fill_pending_field)
  from Cons.IH [OF this] Cons.prems(2) show ?case by (simp add: e fill_pending_field)
qed simp

lemma end_ok: "conn_ok evs named cn \<Longrightarrow> conn_ok evs named (receive_end cn)"
proof -
  assume ok: "conn_ok evs named cn"
  have "conn_ok evs named ((cn \<lparr> cn_reading := False \<rparr>) \<lparr> cn_pending := cn_pending cn \<rparr>)"
    using ok by (simp add: conn_ok_def)
  from drain_ok [OF this] show ?thesis using ok by (simp add: receive_end_def conn_ok_def hmap_ok_def)
qed

text \<open>A waiting call wakes on a filled slot.\<close>

lemma open_not_pending:
  assumes ok: "conn_ok evs named cn" and k: "hget (cn_calls cn) c = Some k" "cl_phase k \<noteq> GivenUp"
    and w: "cl_slot k \<noteq> Waiting \<or> (\<forall>s. cl_phase k \<noteq> Enqueueing s) \<and> (\<forall>s d. cl_phase k \<noteq> AwaitingReply s d)"
    and p: "hget (cn_pending cn) s = Some p"
  shows "pr_call p \<noteq> c"
  using pending_of [OF ok p, of k] k w by auto

lemma await_ok:
  assumes ok: "conn_ok evs named cn" and k: "hget (cn_calls cn) c = Some k" "cl_phase k = AwaitingReply s d"
  shows "conn_ok evs named (await_reply cs c cn)"
proof -
  have ph: "s = h_serial (call_header k)" "s < cn_serial cn" "slot_ok evs named (map_of (cn_pending cn)) (map_of (cn_calls cn)) c k"
    using conn_okD [OF ok k(1)] k(2) by simp_all
  have ret: "conn_ok evs named (return_call c r cn)" if "cl_slot k \<noteq> Waiting"
    "\<And>reply. r = Inr reply \<Longrightarrow> justified evs (named c) (map_of (cn_calls cn)) k reply \<and> h_kind (m_header reply) \<noteq> ErrorKind"
    for r
  proof -
    have np: "\<And>s p. hget (cn_pending cn) s = Some p \<Longrightarrow> pr_call p \<noteq> c"
      by (rule open_not_pending [OF ok k(1)]) (use k(2) that(1) in auto)
    show ?thesis
    proof (rule return_unpending_ok [OF ok k(1) _ _ np])
      fix reply assume "r = Inr reply"
      then show "justified evs (named c) (map_of (cn_calls cn)) k reply \<and> h_kind (m_header reply) \<noteq> ErrorKind \<and>
          serial_of k (cl_phase k) = Some (h_serial (call_header k)) \<and> h_serial (call_header k) < cn_serial cn"
        using that(2) ph k(2) by simp
    qed (simp_all add: k(2))
  qed
  show ?thesis
  proof (cases "cl_slot k")
    case Waiting
    then show ?thesis using ok k by (simp add: await_reply_def)
  next
    case (Sent reply)
    then have j: "justified evs (named c) (map_of (cn_calls cn)) k reply \<or> h_kind (m_header reply) = ErrorKind"
      using ph(3) by (simp add: slot_ok_def)
    have "conn_ok evs named (return_call c (reply_result cs reply) cn)"
      by (rule ret) (use j Sent in \<open>simp_all add: reply_result_def split: if_splits\<close>)
    then show ?thesis using Sent k by (simp add: await_reply_def)
  next
    case SenderGone
    then show ?thesis using ret [of "Inl ConnectionClosed"] k by (simp add: await_reply_def)
  qed
qed

lemma timer_ok:
  assumes ok: "conn_ok evs named cn"
  shows "conn_ok evs named (call_timer cs now c cn)"
proof (cases "\<exists>k s d. hget (cn_calls cn) c = Some k \<and> cl_phase k = AwaitingReply s d")
  case True
  then obtain k s d where k: "hget (cn_calls cn) c = Some k" "cl_phase k = AwaitingReply s d" by blast
  show ?thesis
  proof (cases "cl_slot k = Waiting")
    case True
    obtain p where p: "hget (cn_pending cn) s = Some p" "pr_call p = c"
      using conn_okD [OF ok k(1)] k(2) True by (auto simp: slot_ok_def)
    have u: "s' = s" if "hget (cn_pending cn) s' = Some p'" "pr_call p' = c" for s' p'
      using pending_of [OF ok that(1), of k] that(2) k by auto
    have "conn_ok evs named (return_call c (Inl e) (cn \<lparr> cn_pending := hdel s (cn_pending cn) \<rparr>))" for e
      by (rule return_ok [OF ok k(1) _ _ u disjI1 [OF refl]]) (simp_all add: k(2) p)
    then show ?thesis using ok k True by (simp add: call_timer_def)
  next
    case False
    then show ?thesis using await_ok [OF ok k] k by (simp add: call_timer_def)
  qed
qed (use ok in \<open>auto simp: call_timer_def split: option.split call_phase.split\<close>)

text \<open>A call is given up.\<close>

lemma give_up_ok:
  assumes ok: "conn_ok evs named cn" and k: "hget (cn_calls cn) c = Some k" "\<And>r. cl_phase k \<noteq> Returned r"
  shows "conn_ok evs named (set_call c (k \<lparr> cl_phase := GivenUp \<rparr>) cn)"
proof -
  have core: "core evs named (map_of (cn_pending cn)) (map_of (cn_calls cn)) (cn_serial cn) (cn_next_call cn)"
    using ok by (simp add: conn_ok_def)
  have "pending_ok named ((map_of (cn_calls cn))(c \<mapsto> k \<lparr> cl_phase := GivenUp \<rparr>)) (cn_serial cn) s p"
    if "hget (cn_pending cn) s = Some p" "pr_call p = c" for s p
    using conn_okP [OF ok that(1)] that(2) by (simp add: pending_ok_def)
  then have "core evs named (map_of (cn_pending cn)) ((map_of (cn_calls cn))(c \<mapsto> k \<lparr> cl_phase := GivenUp \<rparr>))
      (cn_serial cn) (cn_next_call cn)"
    by (intro core_update [OF core k order_refl]) (auto simp: is_resolve_def)
  then show ?thesis using ok by (simp add: conn_ok_def)
qed

lemma drop_ok:
  assumes ok: "conn_ok evs named cn"
  shows "conn_ok evs named (drop_call c cn)"
proof (cases "hget (cn_calls cn) c")
  case (Some k)
  show ?thesis
  proof (cases "cl_phase k")
    case (Returned r)
    then show ?thesis using ok Some by (simp add: drop_call_def)
  next
    case (Resolving i)
    have 1: "conn_ok evs named (set_call c (k \<lparr> cl_phase := GivenUp \<rparr>) cn)" (is "conn_ok _ _ ?cn1")
      by (rule give_up_ok [OF ok Some]) (simp add: Resolving)
    show ?thesis
    proof (cases "hget (cn_calls ?cn1) i")
      case None
      then show ?thesis using 1 Some Resolving by (simp add: drop_call_def Let_def)
    next
      case i: (Some ki)
      have "(\<And>r. cl_phase ki \<noteq> Returned r) \<Longrightarrow> conn_ok evs named (set_call i (ki \<lparr> cl_phase := GivenUp \<rparr>) ?cn1)"
        by (rule give_up_ok [OF 1 i])
      then show ?thesis using 1 Some Resolving i by (auto simp: drop_call_def Let_def split: call_phase.split)
    qed
  qed (use give_up_ok [OF ok Some] Some in \<open>auto simp: drop_call_def\<close>)
qed (use ok in \<open>simp add: drop_call_def\<close>)

section \<open>Submission\<close>

lemma header_with_serial [simp]:
  "m_header (with_serial s msg) = (m_header msg) \<lparr> h_serial := s \<rparr>" "m_body (with_serial s msg) = m_body msg"
  by (simp_all add: with_serial_def)

lemma with_serial_twice [simp]: "with_serial s (with_serial s' msg) = with_serial s msg"
  by (simp add: with_serial_def)

text \<open>Where a submitted call stands, by the state of the outbox.\<close>

definition submitted_phase :: "nat \<Rightarrow> call \<Rightarrow> 'i connection \<Rightarrow> call_phase" where
  "submitted_phase now k cn =
     (if \<not> cn_outbox_open cn then Returned (Inl ConnectionClosed)
      else if length (cn_outbox cn) < OUTBOX_CAPACITY
      then AwaitingReply (cn_serial cn) (now + (cl_timeout k - (now - cl_started k)))
      else Enqueueing (cn_serial cn))"

lemma submit_eq:
  fixes cn :: "'i connection"
  assumes "hget (cn_calls cn) c = Some k" and "cl_slot k = Waiting" and "hget (cn_pending cn) (cn_serial cn) = None"
    and "cn_serial cn + 1 < 2 ^ 64" and "hmap_ok (cn_pending cn)"
  shows "let cn' = submit_call cs now c expected ctl cn;
      p = \<lparr> pr_call = c, pr_expected = expected, pr_bus_control = ctl, pr_confidential = h_confidential (call_header k),
         pr_unverified_direct = (cn_name cn = None) \<rparr> in
    map_of (cn_calls cn') = (map_of (cn_calls cn))
      (c \<mapsto> k \<lparr> cl_message := with_serial (cn_serial cn) (cl_message k), cl_phase := submitted_phase now k cn \<rparr>) \<and>
    map_of (cn_pending cn') =
      (if cn_outbox_open cn then (map_of (cn_pending cn))(cn_serial cn \<mapsto> p) else map_of (cn_pending cn)) \<and>
    cn_serial cn' = cn_serial cn + 1 \<and> cn_next_call cn' = cn_next_call cn \<and> cn_name cn' = cn_name cn \<and>
    hmap_ok (cn_pending cn')"
proof -
  have e: "(map_of (cn_pending cn))(cn_serial cn := None) = map_of (cn_pending cn)" using assms(3) by auto
  show ?thesis
    using assms e
    by (cases "cn_outbox_open cn"; cases "length (cn_outbox cn) < OUTBOX_CAPACITY")
      (auto simp: submit_call_def next_serial_def put_pending_def enqueue_call_def outbox_try_send_def
        await_reply_def return_call_def submitted_phase_def Let_def serial_step hm.get_put hm.get_del hm.ok_put hm.ok_del
        set_call_def)
qed

text \<open>What a call waits with: a pending entry of its own and a fresh serial.\<close>

lemma submit_ok:
  assumes ok: "conn_ok evs named cn" and k: "hget (cn_calls cn) c = Some k" "cl_slot k = Waiting"
      "cl_phase k = Starting \<or> (\<exists>i. cl_phase k = Resolving i)"
    and d: "describes (named c) (map_of (cn_calls cn)) k
      \<lparr> pr_call = c, pr_expected = expected, pr_bus_control = ctl, pr_confidential = h_confidential (call_header k),
         pr_unverified_direct = (cn_name cn = None) \<rparr>"
    and n: "cn_serial cn + 1 < 2 ^ 64"
  shows "conn_ok evs named (submit_call cs now c expected ctl cn)"
proof -
  let ?s = "cn_serial cn" and ?msg = "with_serial (cn_serial cn) (cl_message k)"
  let ?p = "\<lparr> pr_call = c, pr_expected = expected, pr_bus_control = ctl,
      pr_confidential = h_confidential (call_header k), pr_unverified_direct = (cn_name cn = None) \<rparr>"
  have core: "core evs named (map_of (cn_pending cn)) (map_of (cn_calls cn)) ?s (cn_next_call cn)"
    using ok by (simp add: conn_ok_def)
  have none: "hget (cn_pending cn) ?s = None"
    using conn_okP [OF ok, of ?s] by (cases "hget (cn_pending cn) ?s") (auto simp: pending_ok_def)
  have np: "pr_call p \<noteq> c" if "hget (cn_pending cn) s = Some p" for s p
    by (rule open_not_pending [OF ok k(1) _ _ that]) (use k in auto)
  have nr: "\<And>r. cl_phase k \<noteq> Returned r" using k(3) by auto
  have waiting: "core evs named ((map_of (cn_pending cn))(?s \<mapsto> ?p)) ((map_of (cn_calls cn))(c \<mapsto> k'))
      (?s + 1) (cn_next_call cn)"
    if k': "k' = k \<lparr> cl_message := ?msg, cl_phase := ph \<rparr>" "ph = Enqueueing ?s \<or> (\<exists>d. ph = AwaitingReply ?s d)" for k' ph
  proof -
    let ?C = "(map_of (cn_calls cn))(c \<mapsto> k')" and ?P = "(map_of (cn_pending cn))(?s \<mapsto> ?p)"
    have keep: "keeps_returned (map_of (cn_calls cn)) ?C" using k(1) nr by (auto simp: keeps_returned_def)
    have dk: "describes (named c) ?C k' ?p"
      using describes_mono [OF keep d] k'(1) by (simp add: describes_def split: option.splits)
    have pk: "pending_ok named ?C (?s + 1) ?s ?p"
      using k' dk k(2) by (auto simp: pending_ok_def)
    have ph: "phase_ok evs named ?P ?C (?s + 1) c k' (cl_phase k')"
      using k' k(2) by (auto simp: slot_ok_def)
    have q1: "?P s = Some p" if "hget (cn_pending cn) s = Some p" "pr_call p \<noteq> c" for s p
      using that none by auto
    have q2: "hget (cn_pending cn) s = Some p \<and> pr_call p \<noteq> c \<or>
        pr_call p = c \<and> pending_ok named ?C (?s + 1) s p \<and> (hget (cn_pending cn) s = Some p \<or> serial_of k' (cl_phase k') = Some s)"
      if "?P s = Some p" for s p
      using that pk np k' by (auto split: if_splits)
    show ?thesis
      by (rule core_update [OF core k(1) nr _ q1 q2 ph]) (use k' in \<open>auto simp: is_resolve_def\<close>)
  qed
  have closed: "core evs named (map_of (cn_pending cn)) ((map_of (cn_calls cn))(c \<mapsto> k')) (?s + 1) (cn_next_call cn)"
    if "k' = k \<lparr> cl_message := ?msg, cl_phase := Returned (Inl e) \<rparr>" for k' e
    by (rule core_update [OF core k(1) nr]) (use that np in \<open>auto simp: is_resolve_def\<close>)
  have ok': "hmap_ok (cn_pending cn)" "(\<exists>c. named c) \<longrightarrow> cn_name cn \<noteq> None" using ok by (simp_all add: conn_ok_def)
  note eq = submit_eq [OF k(1,2) none n ok'(1), of cs now expected ctl, unfolded Let_def]
  show ?thesis
  proof (cases "cn_outbox_open cn")
    case True
    then have "submitted_phase now k cn = Enqueueing ?s \<or> (\<exists>d. submitted_phase now k cn = AwaitingReply ?s d)"
      by (simp add: submitted_phase_def)
    from waiting [OF refl this] show ?thesis using eq True ok'(2) by (simp add: conn_ok_def)
  next
    case False
    then have "submitted_phase now k cn = Returned (Inl ConnectionClosed)" by (simp add: submitted_phase_def)
    with closed [OF refl, of ConnectionClosed] show ?thesis using eq False ok'(2) by (simp add: conn_ok_def)
  qed
qed

text \<open>A call that waited for room: sent, still waiting, or the outbox has closed.\<close>

lemma sent_ok:
  assumes ok: "conn_ok evs named cn" and k: "hget (cn_calls cn) c = Some k" "cl_phase k = Enqueueing s"
  shows "conn_ok evs named (set_call c (k \<lparr> cl_phase := AwaitingReply s d \<rparr>) cn)"
proof -
  let ?k = "k \<lparr> cl_phase := AwaitingReply s d \<rparr>"
  let ?C = "(map_of (cn_calls cn))(c \<mapsto> ?k)"
  have ph: "s = h_serial (call_header k)" "s < cn_serial cn" "slot_ok evs named (map_of (cn_pending cn)) (map_of (cn_calls cn)) c k"
    using conn_okD [OF ok k(1)] k(2) by simp_all
  have core: "core evs named (map_of (cn_pending cn)) (map_of (cn_calls cn)) (cn_serial cn) (cn_next_call cn)"
    using ok by (simp add: conn_ok_def)
  have keep: "keeps_returned (map_of (cn_calls cn)) ?C" using k by (auto simp: keeps_returned_def)
  have ph': "phase_ok evs named (map_of (cn_pending cn)) ?C (cn_serial cn) c ?k (cl_phase ?k)"
    using ph justified_mono [OF keep subset_refl [of evs], of "named c" k] by (auto simp: slot_ok_def split: oneshot.splits)
  have q2: "hget (cn_pending cn) s' = Some p \<and> pr_call p \<noteq> c \<or>
      pr_call p = c \<and> pending_ok named ?C (cn_serial cn) s' p \<and> (hget (cn_pending cn) s' = Some p \<or> serial_of ?k (cl_phase ?k) = Some s')"
    if p: "hget (cn_pending cn) s' = Some p" for s' p
  proof (cases "pr_call p = c")
    case True
    have "cl_slot k = Waiting \<and> h_serial (call_header k) = s'"
      using pending_of [OF ok p, of k] True k by auto
    moreover have "describes (named c) (map_of (cn_calls cn)) k p" "s' < cn_serial cn"
      using conn_okP [OF ok p] True k by (auto simp: pending_ok_def)
    ultimately have "pending_ok named ?C (cn_serial cn) s' p"
      using True ph(1) describes_mono [OF keep] by (auto simp: pending_ok_def)
    then show ?thesis using p True by simp
  qed (use p in simp)
  have "core evs named (map_of (cn_pending cn)) ?C (cn_serial cn) (cn_next_call cn)"
    by (rule core_update [OF core k(1) _ order_refl _ q2 ph']) (use k(2) in \<open>auto simp: is_resolve_def\<close>)
  then show ?thesis using ok by (simp add: conn_ok_def)
qed

lemma enqueue_ok:
  assumes ok: "conn_ok evs named cn" and k: "hget (cn_calls cn) c = Some k" "cl_phase k = Enqueueing s"
  shows "conn_ok evs named (enqueue_call cs now c s cn)"
proof -
  obtain out cn' where out: "outbox_try_send (cl_message k) cn = (out, cn')" by fastforce
  note fr = try_send_frame [OF out]
  then have ok': "conn_ok evs named cn'" and k': "hget (cn_calls cn') c = Some k"
    using ok k(1) by (simp_all add: conn_ok_def)
  show ?thesis
  proof (cases out)
    case Accepted
    have "conn_ok evs named (await_reply cs c (set_call c (k \<lparr> cl_phase := AwaitingReply s d \<rparr>) cn'))" for d
      by (rule await_ok [OF sent_ok [OF ok' k' k(2), of d], of c "k \<lparr> cl_phase := AwaitingReply s d \<rparr>" s d]) simp_all
    then show ?thesis using k out Accepted by (simp add: enqueue_call_def)
  next
    case Full
    have same: "k \<lparr> cl_phase := Enqueueing s \<rparr> = k" using k(2) by simp
    have "(map_of (cn_calls cn'))(c \<mapsto> k) = map_of (cn_calls cn')" using k' by auto
    then have "conn_ok evs named (set_call c k cn')" using ok' by (simp add: conn_ok_def)
    then show ?thesis using k out Full by (simp add: enqueue_call_def same)
  next
    case Closed
    have mine: "pr_call p = c" if "hget (cn_pending cn') s = Some p" for p
      using ok' k' k(2) that unfolding conn_ok_def core_def by auto
    have u: "s' = s" if "hget (cn_pending cn') s' = Some p'" "pr_call p' = c" for s' p'
      using pending_of [OF ok' that(1), of k] that(2) k' k(2) by auto
    have "conn_ok evs named (return_call c (Inl ConnectionClosed) (cn' \<lparr> cn_pending := hdel s (cn_pending cn') \<rparr>))"
      by (rule return_ok [OF ok' k' _ _ u disjI1 [OF refl] mine]) (simp_all add: k(2))
    then show ?thesis using k out Closed by (simp add: enqueue_call_def)
  qed
qed

section \<open>Steps\<close>

lemma header_expected [simp]:
  "h_destination (m_header msg \<lparr> h_expected_responder := e \<rparr>) = h_destination (m_header msg)"
  by simp

text \<open>Changes of a call that waits for nothing yet: its message, or to wait for an inner call.\<close>

lemma prepare_ok:
  assumes ok: "conn_ok evs named cn" and k: "hget (cn_calls cn) c = Some k"
      "cl_phase k = Starting \<or> (\<exists>i. cl_phase k = Resolving i)"
    and k': "cl_slot k' = Waiting" "\<And>d. is_resolve k d \<Longrightarrow> is_resolve k' d"
    and ph: "phase_ok evs named (map_of (cn_pending cn)) ((map_of (cn_calls cn))(c \<mapsto> k')) (cn_serial cn) c k' (cl_phase k')"
      "cl_phase k' = Starting \<or> (\<exists>i. cl_phase k' = Resolving i)"
  shows "conn_ok evs named (set_call c k' cn)"
proof -
  have core: "core evs named (map_of (cn_pending cn)) (map_of (cn_calls cn)) (cn_serial cn) (cn_next_call cn)"
    using ok by (simp add: conn_ok_def)
  have np: "pr_call p \<noteq> c" if "hget (cn_pending cn) s = Some p" for s p
    by (rule open_not_pending [OF ok k(1) _ _ that]) (use k(2) in auto)
  have "core evs named (map_of (cn_pending cn)) ((map_of (cn_calls cn))(c \<mapsto> k')) (cn_serial cn) (cn_next_call cn)"
    by (rule core_update [OF core k(1) _ order_refl _ disjI1 ph(1) k'(2)]) (use k(2) ph(2) np in auto)
  then show ?thesis using ok by (simp add: conn_ok_def)
qed

lemma new_call_ok:
  assumes "conn_ok evs named cn" and "new_call now timeout msg cn = (c, cn')"
  shows "conn_ok evs named cn'" "c = cn_next_call cn" "cn_next_call cn' = c + 1"
    "map_of (cn_calls cn') = (map_of (cn_calls cn))(c \<mapsto> \<lparr> cl_message = msg, cl_timeout = timeout, cl_started = now,
       cl_slot = Waiting, cl_phase = Starting \<rparr>)"
    "cn_pending cn' = cn_pending cn" "cn_serial cn' = cn_serial cn" "cn_name cn' = cn_name cn"
proof -
  show "c = cn_next_call cn" "cn_next_call cn' = c + 1" "cn_pending cn' = cn_pending cn" "cn_serial cn' = cn_serial cn"
    "cn_name cn' = cn_name cn" 
    "map_of (cn_calls cn') = (map_of (cn_calls cn))(c \<mapsto> \<lparr> cl_message = msg, cl_timeout = timeout, cl_started = now,
       cl_slot = Waiting, cl_phase = Starting \<rparr>)"
    using assms(2) by (auto simp: new_call_def Let_def set_call_def hm.get_put)
  then show "conn_ok evs named cn'"
    using assms(1) core_new [of evs named "map_of (cn_pending cn)" "map_of (cn_calls cn)" "cn_serial cn" "cn_next_call cn"
      "\<lparr> cl_message = msg, cl_timeout = timeout, cl_started = now, cl_slot = Waiting, cl_phase = Starting \<rparr>"]
    by (simp add: conn_ok_def)
qed

lemma resolve_destination: "is_resolve k d \<Longrightarrow> h_destination (call_header k) = Some BUS_NAME"
  by (auto simp: is_resolve_def resolve_message_def bus_message_def message_builders)

lemma begin_ok:
  assumes ok: "conn_ok evs named cn" and n: "cn_serial cn + 1 < 2 ^ 64"
  shows "conn_ok evs named (snd (begin_call cs now timeout msg cn))"
proof -
  obtain c cn1 where 1: "new_call now timeout msg cn = (c, cn1)" by fastforce
  let ?k = "\<lparr> cl_message = msg, cl_timeout = timeout, cl_started = now, cl_slot = Waiting, cl_phase = Starting \<rparr>"
  note c = new_call_ok [OF ok 1]
  have k: "hget (cn_calls cn1) c = Some ?k" using c(4) by simp
  have n1: "cn_serial cn1 + 1 < 2 ^ 64" using n c(6) by simp
  have nm: "named x \<Longrightarrow> cn_name cn1 \<noteq> None" for x using c(1) by (auto simp: conn_ok_def)
  have np: "pr_call p \<noteq> c" if "hget (cn_pending cn1) s = Some p" for s p
    by (rule open_not_pending [OF c(1) k _ _ that]) simp_all
  have ret: "conn_ok evs named (return_call c (Inl e) cn1)" for e
    by (rule return_unpending_ok [OF c(1) k _ _ np]) simp_all
  have sub: "conn_ok evs named (submit_call cs now c expected ctl cn1)"
    if "describes (named c) (map_of (cn_calls cn1)) ?k \<lparr> pr_call = c, pr_expected = expected, pr_bus_control = ctl,
        pr_confidential = h_confidential (m_header msg), pr_unverified_direct = (cn_name cn1 = None) \<rparr>" for expected ctl
    by (rule submit_ok [OF c(1) k _ _ _ n1]) (use that in simp_all)
  consider e where "check_call msg = Inl e"
    | u where "check_call msg = Inr u" "h_destination (m_header msg) = None"
    | u where "check_call msg = Inr u" "h_destination (m_header msg) = Some BUS_NAME"
    | u d where "check_call msg = Inr u" "h_destination (m_header msg) = Some d" "d \<noteq> BUS_NAME" "is_unique d"
    | u d where "check_call msg = Inr u" "h_destination (m_header msg) = Some d" "d \<noteq> BUS_NAME" "\<not> is_unique d" "cn_name cn1 = None"
    | u d where "check_call msg = Inr u" "h_destination (m_header msg) = Some d" "d \<noteq> BUS_NAME" "\<not> is_unique d" "cn_name cn1 \<noteq> None"
    by (cases "check_call msg"; cases "h_destination (m_header msg)") auto
  then show ?thesis
  proof cases
    case 1
    then show ?thesis using ret \<open>new_call now timeout msg cn = (c, cn1)\<close> by (simp add: begin_call_def)
  next
    case 2
    then show ?thesis using sub [of None False] nm \<open>new_call now timeout msg cn = (c, cn1)\<close>
      by (simp add: begin_call_def describes_def)
  next
    case 3
    then show ?thesis using sub [of None True] nm \<open>new_call now timeout msg cn = (c, cn1)\<close>
      by (simp add: begin_call_def describes_def)
  next
    case 4
    then show ?thesis using sub [of "Some d" False] nm \<open>new_call now timeout msg cn = (c, cn1)\<close>
      by (simp add: begin_call_def describes_def)
  next
    case 5
    then show ?thesis using sub [of None False] nm \<open>new_call now timeout msg cn = (c, cn1)\<close>
      by (cases "named c") (simp_all add: begin_call_def describes_def)
  next
    case 6
    obtain i cn2 where 2: "new_call now timeout (resolve_message d) cn1 = (i, cn2)" by fastforce
    note i = new_call_ok [OF c(1) 2]
    let ?ki = "\<lparr> cl_message = resolve_message d, cl_timeout = timeout, cl_started = now, cl_slot = Waiting, cl_phase = Starting \<rparr>"
    let ?cn3 = "set_call c (?k \<lparr> cl_phase := Resolving i \<rparr>) cn2"
    have ic: "i \<noteq> c" using i(2) c(3) by simp
    have k2: "hget (cn_calls cn2) c = Some ?k" "hget (cn_calls cn2) i = Some ?ki" using i(4) k ic by simp_all
    have ires: "is_resolve ?ki d"
      unfolding is_resolve_def by (rule exI [of _ 0]) (simp add: resolve_message_def bus_message_def message_builders with_serial_def)
    have ok3: "conn_ok evs named ?cn3"
      by (rule prepare_ok [OF i(1) k2(1)]) (use 6 k2 ic ires in \<open>auto simp: is_resolve_def\<close>)
    have ki: "hget (cn_calls ?cn3) i = Some ?ki" using k2 ic by simp
    have "conn_ok evs named (submit_call cs now i None True ?cn3)"
      by (rule submit_ok [OF ok3 ki]) (use nm n1 i(6,7) in \<open>simp_all add: describes_def resolve_message_def bus_message_def message_builders\<close>)
    then show ?thesis
      using 6 2 k2 \<open>new_call now timeout msg cn = (c, cn1)\<close> by (auto simp: begin_call_def)
  qed
qed

lemma decode_name_Inr: "decode_name cs v = Inr n \<Longrightarrow> v = JString (bus_str n)"
  by (auto simp: decode_name_def split: json.splits sum.splits dest: busT.new_as_str)

lemma resume_ok:
  assumes ok: "conn_ok evs named cn" and n: "cn_serial cn + 1 < 2 ^ 64"
  shows "conn_ok evs named (resume_call cs now c cn)"
proof (cases "hget (cn_calls cn) c")
  case k: (Some k)
  show ?thesis
  proof (cases "cl_phase k")
    case (Enqueueing s)
    then show ?thesis using enqueue_ok [OF ok k] k by (simp add: resume_call_def)
  next
    case (AwaitingReply s d)
    then show ?thesis using await_ok [OF ok k] k by (simp add: resume_call_def)
  next
    case (Resolving i)
    obtain d ki where d: "h_destination (call_header k) = Some d" "d \<noteq> BUS_NAME" "hget (cn_calls cn) i = Some ki"
      "is_resolve ki d" "\<not> is_unique d" and w: "cl_slot k = Waiting"
      using conn_okD [OF ok k] Resolving by auto
    have np: "pr_call p \<noteq> c" if "hget (cn_pending cn) s = Some p" for s p
      by (rule open_not_pending [OF ok k _ _ that]) (use Resolving in auto)
    have ret: "conn_ok evs named (return_call c (Inl e) cn)" for e
      by (rule return_unpending_ok [OF ok k _ _ np]) (simp_all add: Resolving)
    show ?thesis
    proof (cases "\<exists>r own. cl_phase ki = Returned r \<and> resolved cs (cl_message k) r = Inr own")
      case True
      then obtain r own where r: "cl_phase ki = Returned r" "resolved cs (cl_message k) r = Inr own" by blast
      then obtain reply where reply: "r = Inr reply" "m_body reply = JString (bus_str own)" "is_unique own"
        by (cases r) (auto simp: resolved_def split: sum.splits if_splits option.splits dest: decode_name_Inr)
      let ?k = "k \<lparr> cl_message := (cl_message k) \<lparr> m_header := (call_header k) \<lparr> h_expected_responder := Some own \<rparr> \<rparr> \<rparr>"
      let ?cn = "set_call c ?k cn"
      have no: "\<not> is_resolve k e" for e using resolve_destination [of k e] d(1,2) by auto
      have ic: "i \<noteq> c" using r(1) Resolving d(3) k by auto
      have ok1: "conn_ok evs named ?cn"
        by (rule prepare_ok [OF ok k]) (use Resolving w d ic no in auto)
      have "named_by (map_of (cn_calls ?cn)) d own"
        unfolding named_by_def by (rule exI [of _ i], rule exI [of _ ki], rule exI [of _ reply]) (use d r reply ic in simp)
      then have desc: "describes (named c) (map_of (cn_calls ?cn)) ?k \<lparr> pr_call = c, pr_expected = Some own, pr_bus_control = False,
          pr_confidential = h_confidential (call_header ?k), pr_unverified_direct = (cn_name ?cn = None) \<rparr>"
        using d(1,2,5) reply(3) ok by (auto simp: describes_def conn_ok_def)
      have "conn_ok evs named (submit_call cs now c (Some own) False ?cn)"
        by (rule submit_ok [OF ok1 _ _ _ desc]) (use w n Resolving in simp_all)
      then show ?thesis using k Resolving d(3) r by (simp add: resume_call_def Let_def)
    next
      case False
      then show ?thesis
        using k Resolving d(3) ret ok by (auto simp: resume_call_def split: call_phase.splits sum.splits)
    qed
  qed (use ok k in \<open>simp_all add: resume_call_def\<close>)
qed (use ok in \<open>simp add: resume_call_def\<close>)

lemma conn_ok_mono: "conn_ok evs named cn \<Longrightarrow> evs \<subseteq> evs' \<Longrightarrow> conn_ok evs' named cn"
  by (auto simp: conn_ok_def intro: core_mono)

lemma conn_step_ok:
  assumes ok: "conn_ok E named cn" and n: "cn_serial cn + 1 < 2 ^ 64" and e: "e \<in> E"
  shows "conn_ok E named (conn_step im cs e cn)"
proof -
  note fr = frame_ok [OF _ n ok]
  show ?thesis
  proof (cases e)
    case (Received msg brokered)
    have "conn_ok E named (accept_reply msg brokered cn)" if "h_kind (m_header msg) \<in> {MethodReturn, ErrorKind}"
      by (rule accept_ok [OF ok _ that]) (use e Received in simp)
    moreover have "conn_ok E named (receive msg brokered cn)" if "h_kind (m_header msg) \<notin> {MethodReturn, ErrorKind}"
      by (rule fr) (use that in \<open>auto simp: receive_def calls_frame_def split: message_kind.splits\<close>)
    ultimately show ?thesis
      using ok unfolding Received by (cases "h_kind (m_header msg)") (simp_all add: receive_def)
  next
    case (WriterDone w alive)
    have 1: "conn_ok E named (cn \<lparr> cn_writing := None \<rparr>)" by (rule fr) (rule frame_fields)
    have "conn_ok E named (writer_done w alive cn)"
      using 1 ok refuse_ok [OF 1] by (cases w) (simp_all add: writer_done_def Let_def conn_ok_def split: option.split)
    then show ?thesis by (simp add: WriterDone)
  next
    case (Objects op)
    have "conn_ok E named (cn \<lparr> cn_objects := t \<rparr>)" for t by (rule fr) (rule frame_fields)
    then show ?thesis using ok Objects by (simp split: option.split)
  qed (simp_all add: begin_ok [OF ok n] resume_ok [OF ok n] timer_ok [OF ok] drop_ok [OF ok] end_ok [OF ok]
      fr [OF sends_frame(1)] fr [OF sends_frame(2)] fr [OF sends_frame(3)] fr [OF frame_fields(3)] fr [OF frame_fields(6)]
      fr [OF frame_fields(7)] fr [OF frame_fields(8)] fr [OF handlers_frame(1)] fr [OF handlers_frame(2)] fr [OF handlers_frame(3)])
qed

section \<open>Runs\<close>

lemma call_serials [simp]:
  "cn_serial (return_call c r cn) = cn_serial cn" "cn_serial (await_reply cs c cn) = cn_serial cn"
  "cn_serial (put_pending s p cn) = cn_serial cn" "cn_serial (enqueue_call cs now c s cn) = cn_serial cn"
  "cn_serial (drop_call c cn) = cn_serial cn" "cn_serial (call_timer cs now c cn) = cn_serial cn"
  "cn_serial (accept_reply msg b cn) = cn_serial cn" "cn_serial (refuse_call s e cn) = cn_serial cn"
  by (simp_all add: return_call_def await_reply_def put_pending_def enqueue_call_def drop_call_def call_timer_def Let_def
      outbox_try_send_def accept_reply_def refuse_call_def
      split: option.split oneshot.split call_phase.split)

lemma submit_serial:
  "cn_serial cn + 1 < 2 ^ 64 \<Longrightarrow> cn_serial (submit_call cs now c e b cn) \<le> Suc (cn_serial cn)"
  by (simp add: submit_call_def next_serial_def Let_def serial_step split: option.split)

lemma new_call_serial: "cn_serial (snd (new_call now t msg cn)) = cn_serial cn"
  by (simp add: new_call_def Let_def)

lemma begin_serial:
  assumes "cn_serial cn + 1 < 2 ^ 64"
  shows "cn_serial (snd (begin_call cs now t msg cn)) \<le> Suc (cn_serial cn)"
proof -
  obtain c cn1 where 1: "new_call now t msg cn = (c, cn1)" by fastforce
  have s1: "cn_serial cn1 = cn_serial cn" using new_call_serial [of now t msg cn] 1 by simp
  have s: "cn_serial x = cn_serial cn \<Longrightarrow> cn_serial (submit_call cs now i e b x) \<le> Suc (cn_serial cn)" for i e b x
    using submit_serial [of x] assms by simp
  show ?thesis
    using 1 s1 s by (auto simp: begin_call_def new_call_def Let_def split: sum.split option.split)
qed

lemma resume_serial:
  "cn_serial cn + 1 < 2 ^ 64 \<Longrightarrow> cn_serial (resume_call cs now c cn) \<le> Suc (cn_serial cn)"
  using submit_serial [of "set_call c k cn" for k]
  by (auto simp: resume_call_def Let_def split: option.split call_phase.split sum.split)

lemma drain_serial: "cn_serial (fold (\<lambda>(_, p). fill_slot (pr_call p) v) ps cn) = cn_serial cn"
  by (induction ps arbitrary: cn) auto

lemma frame_serial: "calls_frame cn cn' \<Longrightarrow> cn_serial cn + 1 < 2 ^ 64 \<Longrightarrow> cn_serial cn' \<le> Suc (cn_serial cn)"
  by (simp add: calls_frame_def)

lemma step_serial:
  assumes n: "cn_serial cn + 1 < 2 ^ 64"
  shows "cn_serial (conn_step im cs e cn) \<le> Suc (cn_serial cn)"
proof (cases e)
  case (Received msg brokered)
  then show ?thesis by (cases "h_kind (m_header msg)") (simp_all add: receive_def)
next
  case (WriterDone w alive)
  then show ?thesis by (cases w) (simp_all add: writer_done_def Let_def split: option.split)
next
  case LinkEnded
  then show ?thesis by (simp add: receive_end_def drain_serial)
next
  case (Objects op)
  then show ?thesis by (simp split: option.split)
qed (use n in \<open>simp_all add: begin_serial [OF n] resume_serial [OF n] frame_serial [OF sends_frame(1) n]
    frame_serial [OF sends_frame(2) n] frame_serial [OF sends_frame(3) n] frame_serial [OF frame_fields(6) n]
    frame_serial [OF frame_fields(7) n] frame_serial [OF frame_fields(8) n] frame_serial [OF handlers_frame(1) n]
    frame_serial [OF handlers_frame(2) n] frame_serial [OF handlers_frame(3) n]\<close>)

lemma conn_run_inv:
  assumes "conn_ok E named cn" and "cn_serial cn + length evs < 2 ^ 64" and "set evs \<subseteq> E"
  shows "conn_ok E named (conn_run im cs evs cn) \<and> cn_serial (conn_run im cs evs cn) \<le> cn_serial cn + length evs"
  using assms
proof (induction evs arbitrary: cn)
  case (Cons e evs)
  have n: "cn_serial cn + 1 < 2 ^ 64" using Cons.prems(2) by simp
  note s = step_serial [OF n, of im cs e]
  have "conn_ok E named (conn_run im cs evs (conn_step im cs e cn)) \<and>
      cn_serial (conn_run im cs evs (conn_step im cs e cn)) \<le> cn_serial (conn_step im cs e cn) + length evs"
    by (rule Cons.IH [OF conn_step_ok [OF Cons.prems(1) n]]) (use Cons.prems s in auto)
  then show ?case using s by (simp add: conn_run_def)
qed (simp add: conn_run_def)

text \<open>
  Calls made before the handshake and after it are told apart by their numbers: the invariant
  can be sharpened for the later ones once the connection has its name.
\<close>

lemma core_cong:
  assumes "core evs named P C ser nc" and "\<And>c. c < nc \<Longrightarrow> named' c = named c"
  shows "core evs named' P C ser nc"
proof -
  have calls: "C c = Some k \<Longrightarrow> c < nc \<and> phase_ok evs named P C ser c k (cl_phase k)" for c k
    using assms(1) by (simp add: core_def)
  have "phase_ok evs named' P C ser c k ph" if "c < nc" "phase_ok evs named P C ser c k ph" for c k ph
    using that(2) assms(2) [OF that(1)] by (cases ph) (auto simp: slot_ok_def split: sum.splits oneshot.splits)
  moreover have "pending_ok named' C ser s p" if "pending_ok named C ser s p" for s p
  proof -
    have "named' (pr_call p) = named (pr_call p)" using that calls assms(2) by (auto simp: pending_ok_def)
    then show ?thesis using that by (simp add: pending_ok_def)
  qed
  ultimately show ?thesis using assms(1) calls unfolding core_def by meson
qed

lemma conn_ok_named:
  assumes "conn_ok E (\<lambda>_. False) cn" and "cn_name cn \<noteq> None"
  shows "conn_ok E (\<lambda>c. cn_next_call cn \<le> c) cn"
  using assms core_cong [of E "\<lambda>_. False" _ _ _ _ "\<lambda>c. cn_next_call cn \<le> c"] by (simp add: conn_ok_def)

lemma attach_ok: "conn_ok E (\<lambda>_. False) (connection_attach origin publisher)"
  by (simp add: connection_attach_def conn_ok_def core_def)

text \<open>
  A run of fewer than \<open>2 ^ 64 - 1\<close> events does not exhaust the serials; the handshake is done
  after the events \<open>before\<close>.
\<close>

lemma conn_run_ok:
  assumes "cn1 = conn_run im cs before (connection_attach origin publisher)" and "cn = conn_run im cs after_hello cn1"
    and "length before + length after_hello + 1 < 2 ^ 64" and "cn_name cn1 \<noteq> None"
  shows "conn_ok (set (before @ after_hello)) (\<lambda>c. cn_next_call cn1 \<le> c) cn"
proof -
  let ?E = "set (before @ after_hello)"
  have s: "cn_serial (connection_attach origin publisher) = 1" by (simp add: connection_attach_def)
  have 1: "conn_ok ?E (\<lambda>_. False) cn1" "cn_serial cn1 \<le> 1 + length before"
    using conn_run_inv [OF attach_ok [of ?E origin publisher], of before im cs, unfolded s] assms(3) by (simp_all add: assms(1))
  show ?thesis
    unfolding assms(2)
    using conn_run_inv [OF conn_ok_named [OF 1(1) assms(4)], of after_hello im cs] 1(2) assms(3) by simp
qed

lemma attached_run_ok:
  assumes "cn = conn_run im cs evs (connection_attach origin publisher)" and "length evs + 1 < 2 ^ 64"
  shows "conn_ok (set evs) (\<lambda>_. False) cn"
proof -
  have s: "cn_serial (connection_attach origin publisher) = 1" by (simp add: connection_attach_def)
  show ?thesis
    using conn_run_inv [OF attach_ok [of "set evs" origin publisher], of evs im cs, unfolded s] assms(2) by (simp add: assms(1))
qed

end
