(* ===== verification/ConnectionProps.thy ===== *)
theory ConnectionProps
  imports ConnectionSpec
begin

text \<open>
  What a connection promises: replies come from the callee and answer one call; the pending
  table is exact and calls end; handlers answer once, and user code sees only admitted calls.
\<close>

section \<open>Replies\<close>

lemma accepted_named:
  assumes "reply_accepted p reply brokered" and "describes True C k p"
    and "h_kind (m_header reply) \<noteq> ErrorKind"
  shows "(h_confidential (call_header k) \<longrightarrow> h_confidential (m_header reply)) \<and>
    (case h_destination (call_header k) of
       None \<Rightarrow> \<not> brokered
     | Some d \<Rightarrow>
         if d = BUS_NAME then h_sender (m_header reply) \<in> {None, Some BUS_NAME}
         else \<exists>own. h_sender (m_header reply) = Some own \<and> is_unique own \<and>
           (if is_unique d then own = d else h_expected_responder (call_header k) = Some own \<and> named_by C d own))"
proof -
  have b: "\<not> is_unique BUS_NAME" by (rule bus_not_unique)
  show ?thesis
    using assms b by (cases "h_destination (call_header k)")
      (auto simp: reply_accepted_def describes_def Let_def split: option.splits)
qed

text \<open>A run with a handshake done after the events \<open>before\<close>: calls numbered from \<open>first\<close> on are made with a name.\<close>

definition handshaken ::
  "('i, 'u) interface_impl \<Rightarrow> client_serde \<Rightarrow> 'i conn_event list \<Rightarrow> 'i conn_event list \<Rightarrow> nat \<Rightarrow> 'i connection \<Rightarrow> bool" where
  "handshaken im cs before later first cn \<longleftrightarrow>
     (\<exists>origin publisher cn1. cn1 = conn_run im cs before (connection_attach origin publisher) \<and>
        cn = conn_run im cs later cn1 \<and> cn_name cn1 \<noteq> None \<and> first = cn_next_call cn1 \<and>
        length before + length later + 1 < 2 ^ 64)"

lemma handshaken_ok:
  "handshaken im cs before later first cn \<Longrightarrow> conn_ok (set (before @ later)) (\<lambda>c. first \<le> c) cn"
  unfolding handshaken_def using conn_run_ok by blast

lemma handshaken_any: "handshaken im cs before later first cn \<Longrightarrow>
    \<exists>origin publisher. cn = conn_run im cs (before @ later) (connection_attach origin publisher) \<and>
      length (before @ later) + 1 < 2 ^ 64"
  unfolding handshaken_def by (auto simp: conn_run_def)

section \<open>Properties\<close>

text \<open>
  C2. A call returns only what its callee answered. When a call made after the handshake returns
  a reply, that reply was received from the transport, is a method return carrying the call's own
  serial, and is confidential if the call was; its sender is the unique name the call was
  addressed to, or, for a well-known name, the unique name the bus gave as its owner in the reply
  to a ResolveCallTarget call, which the call was then pinned to; only calls to the bus itself
  take unstamped replies besides the bus's own.
\<close>

theorem replies_come_from_the_callee:
  assumes "handshaken im cs before later first cn" and "hget (cn_calls cn) c = Some k" and "first \<le> c"
    and "cl_phase k = Returned (Inr reply)"
  shows "\<exists>brokered. Received reply brokered \<in> set (before @ later) \<and>
    h_kind (m_header reply) = MethodReturn \<and>
    h_reply_serial (m_header reply) = Some (h_serial (call_header k)) \<and>
    (h_confidential (call_header k) \<longrightarrow> h_confidential (m_header reply)) \<and>
    (case h_destination (call_header k) of
       None \<Rightarrow> \<not> brokered
     | Some d \<Rightarrow>
         if d = BUS_NAME then h_sender (m_header reply) \<in> {None, Some BUS_NAME}
         else \<exists>own. h_sender (m_header reply) = Some own \<and> is_unique own \<and>
           (if is_unique d then own = d
            else h_expected_responder (call_header k) = Some own \<and>
              (\<exists>c' k' answer. hget (cn_calls cn) c' = Some k' \<and> is_resolve k' d \<and>
                 cl_phase k' = Returned (Inr answer) \<and> m_body answer = JString (bus_str own))))"
proof -
  have "phase_ok (set (before @ later)) (\<lambda>c. first \<le> c) (map_of (cn_pending cn)) (map_of (cn_calls cn)) (cn_serial cn) c k
      (Returned (Inr reply))"
    using conn_okD [OF handshaken_ok [OF assms(1)] assms(2)] assms(4) by simp
  then obtain brokered p where j: "h_reply_serial (m_header reply) = Some (h_serial (call_header k))"
    "h_kind (m_header reply) \<in> {MethodReturn, ErrorKind}" "h_kind (m_header reply) \<noteq> ErrorKind"
    "Received reply brokered \<in> set (before @ later)" "reply_accepted p reply brokered"
    "describes True (map_of (cn_calls cn)) k p"
    using assms(3) by (auto simp: justified_def)
  show ?thesis
    using accepted_named [OF j(5,6,3)] j(1-4) unfolding named_by_def by (intro exI [of _ brokered]) auto
qed

text \<open>
  A reply answers one call. No two calls of a connection ever return replies with the same
  serial, whatever was sent, received, refused, timed out or given up in between.
\<close>

theorem replies_answer_one_call:
  assumes "cn = conn_run im cs evs (connection_attach origin publisher)" and "length evs + 1 < 2 ^ 64"
    and "hget (cn_calls cn) c = Some k" and "cl_phase k = Returned (Inr reply)"
    and "hget (cn_calls cn) c' = Some k'" and "cl_phase k' = Returned (Inr reply')" and "c \<noteq> c'"
  shows "h_reply_serial (m_header reply) \<noteq> h_reply_serial (m_header reply')"
proof -
  have ok: "conn_ok (set evs) (\<lambda>_. False) cn" by (rule attached_run_ok [OF assms(1,2)])
  have s: "h_reply_serial (m_header reply) = serial_of k (cl_phase k)"
    "h_reply_serial (m_header reply') = serial_of k' (cl_phase k')"
    using conn_okD [OF ok assms(3)] conn_okD [OF ok assms(5)] assms(4,6) by (simp_all add: justified_def)
  have "serial_of k (cl_phase k) = Some x \<Longrightarrow> serial_of k' (cl_phase k') = Some x \<Longrightarrow> c = c'" for x
    using ok assms(3,5) unfolding conn_ok_def core_def by blast
  then show ?thesis using s assms(4,6,7) by auto
qed

text \<open>
  C21. The pending table is exact. In every run an entry belongs to a call that waits under that
  very serial with nothing received yet, or that its caller gave up; and every call that waits
  for its reply with nothing received yet has its entry. So a call that returned, by a reply, an
  error, a refusal of the transport or its deadline, leaves nothing behind.
\<close>

theorem pending_table_is_exact:
  assumes "cn = conn_run im cs evs (connection_attach origin publisher)" and "length evs + 1 < 2 ^ 64"
  shows "(\<forall>s p. hget (cn_pending cn) s = Some p \<longrightarrow>
       (\<exists>k. hget (cn_calls cn) (pr_call p) = Some k \<and>
          (cl_phase k = GivenUp \<or>
           cl_slot k = Waiting \<and> (cl_phase k = Enqueueing s \<or> (\<exists>d. cl_phase k = AwaitingReply s d))))) \<and>
    (\<forall>c k s. hget (cn_calls cn) c = Some k \<and> cl_slot k = Waiting \<and>
       (cl_phase k = Enqueueing s \<or> (\<exists>d. cl_phase k = AwaitingReply s d)) \<longrightarrow>
       (\<exists>p. hget (cn_pending cn) s = Some p \<and> pr_call p = c))"
proof -
  have ok: "conn_ok (set evs) (\<lambda>_. False) cn" by (rule attached_run_ok [OF assms])
  have 1: "\<exists>k. hget (cn_calls cn) (pr_call p) = Some k \<and>
      (cl_phase k = GivenUp \<or>
       cl_slot k = Waiting \<and> (cl_phase k = Enqueueing s \<or> (\<exists>d. cl_phase k = AwaitingReply s d)))"
    if "hget (cn_pending cn) s = Some p" for s p
    using conn_okP [OF ok that] unfolding pending_ok_def by blast
  have 2: "\<exists>p. hget (cn_pending cn) s = Some p \<and> pr_call p = c"
    if "hget (cn_calls cn) c = Some k" "cl_slot k = Waiting"
      "cl_phase k = Enqueueing s \<or> (\<exists>d. cl_phase k = AwaitingReply s d)" for c k s
    using conn_okD [OF ok that(1)] that(2,3) by (auto simp: slot_ok_def)
  show ?thesis using 1 2 by blast
qed

lemma drain_slot:
  assumes "hget (cn_calls cn) c = Some k" and "cl_phase k \<noteq> GivenUp" and "\<And>r. cl_phase k \<noteq> Returned r"
  shows "hget (cn_calls (fold (\<lambda>(_, p). fill_slot (pr_call p) SenderGone) ps cn)) c =
    Some (k \<lparr> cl_slot := (if \<exists>(s, p) \<in> set ps. pr_call p = c then SenderGone else cl_slot k) \<rparr>)"
  using assms
proof (induction ps arbitrary: cn k)
  case (Cons e ps)
  obtain s p where e: "e = (s, p)" by fastforce
  show ?case
  proof (cases "pr_call p = c")
    case True
    have "hget (cn_calls (fill_slot (pr_call p) SenderGone cn)) c = Some (k \<lparr> cl_slot := SenderGone \<rparr>)"
      using Cons.prems True by (simp add: fill_calls)
    from Cons.IH [OF this] Cons.prems(2,3) True show ?thesis by (simp add: e)
  next
    case False
    have "hget (cn_calls (fill_slot (pr_call p) SenderGone cn)) c = Some k"
      using Cons.prems False by (simp add: fill_calls split: option.split)
    from Cons.IH [OF this] Cons.prems(2,3) False show ?thesis by (simp add: e)
  qed
qed simp

lemma drain_pending: "cn_pending (fold (\<lambda>(_, p). fill_slot (pr_call p) v) ps cn) = cn_pending cn"
  by (induction ps arbitrary: cn) auto

lemma return_phase: "hget (cn_calls cn) c = Some k \<Longrightarrow>
    hget (cn_calls (return_call c r cn)) c = Some (k \<lparr> cl_phase := Returned r \<rparr>)"
  by (simp add: return_call_def)

lemma await_phase:
  "hget (cn_calls cn) c = Some k \<Longrightarrow> cl_slot k \<noteq> Waiting \<Longrightarrow>
   \<exists>r. hget (cn_calls (await_reply cs c cn)) c = Some (k \<lparr> cl_phase := Returned r \<rparr>) \<and>
     (cl_slot k = SenderGone \<longrightarrow> r = Inl ConnectionClosed)"
  by (cases "cl_slot k") (auto simp: await_reply_def return_phase)

lemma timer_ends:
  assumes "hget (cn_calls cn) c = Some k" and "cl_phase k = AwaitingReply s d" and "d \<le> now"
  shows "\<exists>r. hget (cn_calls (call_timer cs now c cn)) c = Some (k \<lparr> cl_phase := Returned r \<rparr>) \<and>
    (cl_slot k = Waiting \<longrightarrow> r = Inl (Timeout (member_or_unknown (cl_message k)) (cl_timeout k)) \<and>
      hget (cn_pending (call_timer cs now c cn)) s = None)"
proof (cases "cl_slot k = Waiting")
  case True
  then show ?thesis
    using assms return_phase [of "cn \<lparr> cn_pending := hdel s (cn_pending cn) \<rparr>" c k]
    by (auto simp: call_timer_def return_call_def hm.get_del)
next
  case False
  then show ?thesis using assms await_phase [OF assms(1) False, of cs] by (auto simp: call_timer_def)
qed

lemma hangup_ends:
  assumes "hget (cn_calls cn) c = Some k" and "cl_phase k = AwaitingReply s d" and "cn_reading cn"
    and "cl_slot k = Waiting \<Longrightarrow> \<exists>p. hget (cn_pending cn) s = Some p \<and> pr_call p = c"
  shows "cn_pending (receive_end cn) = [] \<and>
    (\<exists>r v. hget (cn_calls (resume_call cs now c (receive_end cn))) c = Some (k \<lparr> cl_slot := v, cl_phase := Returned r \<rparr>) \<and>
      (cl_slot k = Waiting \<longrightarrow> r = Inl ConnectionClosed))"
proof -
  define v where "v = (if \<exists>(s, p) \<in> set (cn_pending cn). pr_call p = c then SenderGone else cl_slot k)"
  have k': "hget (cn_calls (receive_end cn)) c = Some (k \<lparr> cl_slot := v \<rparr>)"
    unfolding v_def using drain_slot [of "cn \<lparr> cn_reading := False, cn_pending := [] \<rparr>" c k "cn_pending cn"] assms(1-3)
    by (simp add: receive_end_def)
  have w: "cl_slot k = Waiting \<Longrightarrow> v = SenderGone"
    unfolding v_def using assms(4) by (fastforce dest: map_of_SomeD)
  then have "v \<noteq> Waiting" by (cases "cl_slot k") (auto simp: v_def)
  then obtain r where r: "hget (cn_calls (await_reply cs c (receive_end cn))) c = Some (k \<lparr> cl_slot := v, cl_phase := Returned r \<rparr>)"
    "v = SenderGone \<longrightarrow> r = Inl ConnectionClosed"
    using await_phase [OF k', of cs] by auto
  have "resume_call cs now c (receive_end cn) = await_reply cs c (receive_end cn)"
    using k' assms(2) by (simp add: resume_call_def)
  moreover have "cn_pending (receive_end cn) = []" using assms(3) by (simp add: receive_end_def drain_pending)
  ultimately show ?thesis using r w by auto
qed

text \<open>
  C38. Calls that wait for a reply end. In every run, once the deadline of a waiting call has passed,
  its timer ends it: with what its slot holds, else with a timeout that names the member and
  takes back the pending entry. And when the link ends, the pending table is emptied and every
  waiting call returns when it is next run, with a closed connection if nothing had come. But
  a call still waiting for room in the outbox has no deadline: its timer does nothing.
\<close>

theorem waiting_calls_end:
  assumes "cn = conn_run im cs evs (connection_attach origin publisher)" and "length evs + 1 < 2 ^ 64"
    and "hget (cn_calls cn) c = Some k"
  shows "(cl_phase k = AwaitingReply s d \<and> d \<le> now \<longrightarrow>
      (\<exists>r. hget (cn_calls (call_timer cs now c cn)) c = Some (k \<lparr> cl_phase := Returned r \<rparr>) \<and>
        (cl_slot k = Waiting \<longrightarrow> r = Inl (Timeout (member_or_unknown (cl_message k)) (cl_timeout k)) \<and>
          hget (cn_pending cn) s \<noteq> None \<and> hget (cn_pending (call_timer cs now c cn)) s = None))) \<and>
    (cl_phase k = AwaitingReply s d \<and> cn_reading cn \<longrightarrow>
      cn_pending (receive_end cn) = [] \<and>
      (\<exists>r v. hget (cn_calls (resume_call cs now c (receive_end cn))) c = Some (k \<lparr> cl_slot := v, cl_phase := Returned r \<rparr>) \<and>
        (cl_slot k = Waiting \<longrightarrow> r = Inl ConnectionClosed))) \<and>
    (cl_phase k = Enqueueing s \<longrightarrow> call_timer cs now c cn = cn)"
proof -
  have pending: "\<exists>p. hget (cn_pending cn) s = Some p \<and> pr_call p = c"
    if "cl_phase k = AwaitingReply s d" "cl_slot k = Waiting"
    using conn_okD [OF attached_run_ok [OF assms(1,2)] assms(3)] that by (simp add: slot_ok_def)
  have 1: "cl_phase k = AwaitingReply s d \<and> d \<le> now \<longrightarrow>
      (\<exists>r. hget (cn_calls (call_timer cs now c cn)) c = Some (k \<lparr> cl_phase := Returned r \<rparr>) \<and>
        (cl_slot k = Waiting \<longrightarrow> r = Inl (Timeout (member_or_unknown (cl_message k)) (cl_timeout k)) \<and>
          hget (cn_pending cn) s \<noteq> None \<and> hget (cn_pending (call_timer cs now c cn)) s = None))"
    using timer_ends [OF assms(3), of s d now cs] pending by fastforce
  have 2: "cl_phase k = AwaitingReply s d \<and> cn_reading cn \<longrightarrow>
      cn_pending (receive_end cn) = [] \<and>
      (\<exists>r v. hget (cn_calls (resume_call cs now c (receive_end cn))) c = Some (k \<lparr> cl_slot := v, cl_phase := Returned r \<rparr>) \<and>
        (cl_slot k = Waiting \<longrightarrow> r = Inl ConnectionClosed))"
    using hangup_ends [OF assms(3), of s d cs now] pending by blast
  have "cl_phase k = Enqueueing s \<Longrightarrow> call_timer cs now c cn = cn"
    using assms(3) by (simp add: call_timer_def)
  then show ?thesis using 1 2 by blast
qed

section \<open>Handlers\<close>

text \<open>A reply to a call, as the handler sends it.\<close>

definition reply_to :: "message \<Rightarrow> message \<Rightarrow> bool" where
  "reply_to call reply \<longleftrightarrow>
     h_reply_serial (m_header reply) = Some (h_serial (m_header call)) \<and>
     h_destination (m_header reply) = h_sender (m_header call) \<and>
     (h_kind (m_header reply) = ErrorKind \<or>
      h_kind (m_header reply) = MethodReturn \<and> h_confidential (m_header reply) = h_confidential (m_header call))"

definition handed_over :: "'i connection \<Rightarrow> message \<Rightarrow> 'i connection \<Rightarrow> bool" where
  "handed_over cn msg cn' \<longleftrightarrow>
     (if \<not> cn_outbox_open cn then cn_outbox cn' = cn_outbox cn \<and> cn_senders cn' = cn_senders cn
      else if length (cn_outbox cn) < OUTBOX_CAPACITY
      then cn_outbox cn' = cn_outbox cn @ [msg] \<and> cn_senders cn' = cn_senders cn
      else cn_outbox cn' = cn_outbox cn \<and> cn_senders cn' = hput (cn_next_task cn) msg (cn_senders cn))"

lemma send_reply_hands_over:
  "handed_over cn (with_serial (cn_serial cn) reply) (send_reply h reply cn) \<and>
   cn_handlers (send_reply h reply cn) = hdel h (cn_handlers cn)"
  by (auto simp: send_reply_def next_serial_def start_send_def outbox_try_send_def handed_over_def)

lemma reply_to_builders:
  "reply_to call (with_serial n (error_reply (m_header call) e))"
  "reply_to call (with_serial n (method_return (m_header call) v))"
  by (simp_all add: reply_to_def error_reply_def method_return_def)

lemma keep_handlers [simp]:
  "cn_handlers (set_call c k cn) = cn_handlers cn" "cn_handlers (fill_slot c v cn) = cn_handlers cn"
  "cn_handlers (return_call c r cn) = cn_handlers cn" "cn_handlers (await_reply cs c cn) = cn_handlers cn"
  "cn_handlers (put_pending s p cn) = cn_handlers cn" "cn_handlers (enqueue_call cs now c s cn) = cn_handlers cn"
  "cn_handlers (submit_call cs now c x b cn) = cn_handlers cn" "cn_handlers (snd (new_call now t msg cn)) = cn_handlers cn"
  "cn_handlers (resume_call cs now c cn) = cn_handlers cn" "cn_handlers (call_timer cs now c cn) = cn_handlers cn"
  "cn_handlers (drop_call c cn) = cn_handlers cn" "cn_handlers (accept_reply msg br cn) = cn_handlers cn"
  "cn_handlers (refuse_call s e cn) = cn_handlers cn" "cn_handlers (snd (start_send msg cn)) = cn_handlers cn"
  "cn_handlers (snd (conn_try_send msg cn)) = cn_handlers cn" "cn_handlers (snd (conn_send msg cn)) = cn_handlers cn"
  "cn_handlers (resume_send s cn) = cn_handlers cn" "cn_handlers (writer_take cn) = cn_handlers cn"
  "cn_handlers (writer_done w alive cn) = cn_handlers cn" "cn_handlers (deliver_local msg cn) = cn_handlers cn"
  "cn_handlers (snd (handshake_done cs r cn)) = cn_handlers cn"
proof -
  show 1: "cn_handlers (set_call c k cn) = cn_handlers cn" for c k and cn :: "'z connection" by (simp add: set_call_def)
  show 2: "cn_handlers (fill_slot c v cn) = cn_handlers cn" for c v and cn :: "'z connection"
    by (simp add: fill_slot_def 1 split: option.split)
  show 3: "cn_handlers (return_call c r cn) = cn_handlers cn" for c r and cn :: "'z connection"
    by (simp add: return_call_def 1 split: option.split)
  show 4: "cn_handlers (await_reply cs c cn) = cn_handlers cn" for c and cn :: "'z connection"
    by (simp add: await_reply_def 3 split: option.split oneshot.split)
  show 5: "cn_handlers (put_pending s p cn) = cn_handlers cn" for s p and cn :: "'z connection"
    by (simp add: put_pending_def 2 split: option.split)
  show 6: "cn_handlers (enqueue_call cs now c s cn) = cn_handlers cn" for c s and cn :: "'z connection"
    by (simp add: enqueue_call_def outbox_try_send_def 1 3 4 split: option.split)
  show 7: "cn_handlers (submit_call cs now c x b cn) = cn_handlers cn" for c x b and cn :: "'z connection"
    by (simp add: submit_call_def next_serial_def Let_def 1 5 6 split: option.split)
  show "cn_handlers (snd (new_call now t msg cn)) = cn_handlers cn" by (simp add: new_call_def Let_def 1)
  show "cn_handlers (resume_call cs now c cn) = cn_handlers cn"
    by (simp add: resume_call_def Let_def 1 3 4 6 7 split: option.split call_phase.split sum.split)
  show "cn_handlers (call_timer cs now c cn) = cn_handlers cn"
    by (simp add: call_timer_def 3 4 split: option.split call_phase.split)
  show "cn_handlers (drop_call c cn) = cn_handlers cn"
    by (simp add: drop_call_def Let_def 1 split: option.split call_phase.split)
  show "cn_handlers (accept_reply msg br cn) = cn_handlers cn" by (simp add: accept_reply_def 2 split: option.split)
  show 8: "cn_handlers (refuse_call s e cn) = cn_handlers cn" for s e and cn :: "'z connection"
    by (simp add: refuse_call_def 2 split: option.split)
  show 9: "cn_handlers (snd (start_send msg cn)) = cn_handlers cn" for msg and cn :: "'z connection"
    by (simp add: start_send_def outbox_try_send_def)
  show "cn_handlers (snd (conn_try_send msg cn)) = cn_handlers cn"
    by (simp add: conn_try_send_def next_serial_def outbox_try_send_def split: sum.split)
  show "cn_handlers (snd (conn_send msg cn)) = cn_handlers cn"
    by (simp add: conn_send_def next_serial_def 9 split: sum.split)
  show "cn_handlers (resume_send s cn) = cn_handlers cn"
    by (simp add: resume_send_def outbox_try_send_def split: option.split)
  show "cn_handlers (writer_take cn) = cn_handlers cn" by (simp add: writer_take_def split: option.split list.split)
  show "cn_handlers (writer_done w alive cn) = cn_handlers cn"
    by (simp add: writer_done_def Let_def 8 split: option.split conn_write.split)
  show "cn_handlers (deliver_local msg cn) = cn_handlers cn" by (simp add: deliver_local_def Let_def)
  show "cn_handlers (snd (handshake_done cs r cn)) = cn_handlers cn"
    by (simp add: handshake_done_def split: sum.split json.split)
qed

lemma begin_handlers [simp]: "cn_handlers (snd (begin_call cs now t msg cn)) = cn_handlers cn"
proof -
  obtain c cn1 where 1: "new_call now t msg cn = (c, cn1)" by fastforce
  then have h: "cn_handlers cn1 = cn_handlers cn" using keep_handlers(8) [of now t msg cn] by simp
  show ?thesis
    using h by (simp add: begin_call_def 1 split: sum.split option.split) (simp add: new_call_def Let_def split: option.split)
qed

lemma drain_handlers [simp]: "cn_handlers (fold (\<lambda>(_, p). fill_slot (pr_call p) v) ps cn) = cn_handlers cn"
  by (induction ps arbitrary: cn) auto


lemma started_by_run:
  assumes "hget (cn_handlers cn) h = Some hn" and "hd_phase hn = Dispatching"
    and "hget (cn_handlers (conn_step im cs e cn)) h = Some hn'" and "hd_phase hn' = Running"
  shows "e = RunHandler h \<and> (\<forall>x. route_call im (m_header (hd_message hn)) (hd_brokered hn) cn \<noteq> Refuse x)"
proof (cases e)
  case (Received msg brokered)
  then show ?thesis using assms
    by (cases "h_kind (m_header msg)") (auto simp: receive_def hm.get_put split: if_splits)
next
  case (RunHandler i)
  have "hget (hdel i (cn_handlers cn)) h = (if h = i then None else hget (cn_handlers cn) h)" by (simp add: hm.get_del)
  then show ?thesis using RunHandler assms send_reply_hands_over [of cn _ i]
    by (cases "i = h") (auto simp: handler_run_def hm.get_put split: option.splits if_splits call_route.splits)
next
  case (FinishHandler i r)
  then show ?thesis using assms send_reply_hands_over [of cn _ i]
    by (cases "i = h") (auto simp: handler_finished_def Let_def hm.get_put hm.get_del split: option.splits if_splits sum.splits)
next
  case (StreamHandler i r)
  then show ?thesis using assms send_reply_hands_over [of cn _ i]
    by (cases "i = h") (auto simp: handler_streaming_def Let_def hm.get_put hm.get_del split: option.splits if_splits sum.splits)
next
  case (Objects op)
  then show ?thesis using assms by (simp split: option.splits)
next
  case LinkEnded
  then show ?thesis using assms by (simp add: receive_end_def split: if_splits)
qed (use assms in simp_all)

text \<open>
  C20. User code sees only admitted calls, and facts about their callers only as proved. A call
  that starts to run is no confidential request for a streamed reply, and either is addressed to
  the stream interface, which no exported object can shadow, or found an exported
  implementation of its interface at its path, which has the member and whose privacy it
  satisfies. The context handed to the implementation names a sender exactly if the delivery was
  proved to come from the broker and carries a unique sender, claims confidentiality only then,
  and names this connection only then.
\<close>

theorem only_admitted_calls_run:
  assumes "hget (cn_handlers cn) h = Some hn" and "hd_phase hn = Dispatching"
    and "hget (cn_handlers (conn_step im cs e cn)) h = Some hn'" and "hd_phase hn' = Running"
    and "call = m_header (hd_message hn)"
  shows "\<not> (h_stream_reply call \<and> h_confidential call) \<and>
    (stream_handles call \<or>
     (\<exists>p n m target ctx. h_path call = Some p \<and> h_interface call = Some n \<and> h_member call = Some m \<and>
        tree_lookup (cn_objects cn) p n = Inr target \<and> m \<in> set (if_members im target) \<and>
        (if_requires_confidential im target m \<longrightarrow> h_confidential call) \<and>
        route_call im call (hd_brokered hn) cn = ToInterface target ctx \<and>
        (\<forall>s. cc_sender ctx = Some s \<longleftrightarrow> hd_brokered hn \<and> h_sender call = Some s \<and> is_unique s) \<and>
        (cc_confidential ctx \<longrightarrow> h_confidential call \<and> cc_sender ctx \<noteq> None) \<and>
        (cc_origin ctx = (if hd_brokered hn then Some (cn_origin cn) else None))))"
proof -
  have e: "\<forall>x. route_call im call (hd_brokered hn) cn \<noteq> Refuse x" using started_by_run [OF assms(1-4)] assms(5) by simp
  show ?thesis
  proof (cases "stream_handles call")
    case True
    then show ?thesis using e by (auto simp: route_call_def)
  next
    case False
    have "\<exists>p n m target. h_path call = Some p \<and> h_interface call = Some n \<and> h_member call = Some m \<and>
        tree_lookup (cn_objects cn) p n = Inr target \<and> admit_call im target n m (h_confidential call) = Inr ()"
      using e False
      by (cases "h_path call"; cases "h_interface call"; cases "h_member call")
        (auto simp: route_call_def Let_def split: if_splits sum.splits)
    then obtain p n m target where t: "h_path call = Some p" "h_interface call = Some n" "h_member call = Some m"
      "tree_lookup (cn_objects cn) p n = Inr target" "admit_call im target n m (h_confidential call) = Inr ()"
      by blast
    let ?ctx = "if hd_brokered hn then brokered_with_origin (h_sender call) (h_confidential call) (Some (cn_origin cn)) else context_default"
    have priv: "\<not> (h_stream_reply call \<and> h_confidential call)" using e by (auto simp: route_call_def)
    then have r: "route_call im call (hd_brokered hn) cn = ToInterface target ?ctx"
      using False t by (simp add: route_call_def Let_def)
    have m: "m \<in> set (if_members im target)" "if_requires_confidential im target m \<longrightarrow> h_confidential call"
      using t(5) by (auto simp: admit_call_def split: if_splits)
    have c: "\<forall>s. cc_sender ?ctx = Some s \<longleftrightarrow> hd_brokered hn \<and> h_sender call = Some s \<and> is_unique s"
      "cc_confidential ?ctx \<longrightarrow> h_confidential call \<and> cc_sender ?ctx \<noteq> None"
      "cc_origin ?ctx = (if hd_brokered hn then Some (cn_origin cn) else None)"
      by (auto simp: brokered_with_origin_def context_default_def split: option.splits if_splits)
    show ?thesis using priv t(1-4) m r c by blast
  qed
qed

section \<open>Private bodies\<close>

definition keeps_private :: "message \<Rightarrow> bool" where
  "keeps_private m \<longleftrightarrow>
     (h_kind (m_header m) = MethodCall \<and> (h_confidential (m_header m) \<or> h_sensitive (m_header m)) \<longrightarrow>
        \<not> body_contains_stream_ref (m_body m))"

text \<open>Everything a connection has handed to its transport or is about to.\<close>

definition outgoing :: "'i connection \<Rightarrow> message set" where
  "outgoing cn = set (cn_outbox cn) \<union> set_option (cn_writing cn) \<union> set (cn_wire cn) \<union> snd ` set (cn_senders cn)"

definition unsent :: "call_phase \<Rightarrow> bool" where
  "unsent ph \<longleftrightarrow> (\<exists>i. ph = Resolving i \<or> ph = Enqueueing i)"

definition out_ok :: "message set \<Rightarrow> 'i connection \<Rightarrow> bool" where
  "out_ok raw cn \<longleftrightarrow>
     (\<forall>m \<in> outgoing cn. keeps_private m \<or> m \<in> raw) \<and>
     (\<forall>c k. hget (cn_calls cn) c = Some k \<and> unsent (cl_phase k) \<longrightarrow> keeps_private (cl_message k))"

lemma keeps_private_serial [simp]: "keeps_private (with_serial n m) = keeps_private m"
  by (simp add: keeps_private_def)

lemma keeps_private_replies [simp]:
  "keeps_private (error_reply h e)" "keeps_private (method_return h v)" "keeps_private (resolve_message d)"
  by (simp_all add: keeps_private_def error_reply_def method_return_def resolve_message_def bus_message_def message_builders)

lemma checked_private: "check_call msg = Inr u \<Longrightarrow> keeps_private msg"
  by (auto simp: check_call_def keeps_private_def Let_def split: sum.splits if_splits)

lemma senders_put: "snd ` set (hput s m xs) \<subseteq> insert m (snd ` set xs)"
  by (induction xs) auto

lemma senders_del: "snd ` set (hdel s xs) \<subseteq> snd ` set xs"
  by (induction xs) auto

lemma out_grow:
  assumes "out_ok raw cn" and "outgoing cn' \<subseteq> insert m (outgoing cn)" and "keeps_private m \<or> m \<in> raw"
    and "cn_calls cn' = cn_calls cn"
  shows "out_ok raw cn'"
  using assms unfolding out_ok_def by auto

lemma out_shrink:
  "out_ok raw cn \<Longrightarrow> outgoing cn' \<subseteq> outgoing cn \<Longrightarrow> cn_calls cn' = cn_calls cn \<Longrightarrow> out_ok raw cn'"
  unfolding out_ok_def by auto

lemma out_call:
  "out_ok raw cn \<Longrightarrow> (unsent (cl_phase k) \<longrightarrow> keeps_private (cl_message k)) \<Longrightarrow> out_ok raw (set_call c k cn)"
  by (auto simp: out_ok_def outgoing_def set_call_def hm.get_put)

lemma out_return: "out_ok raw cn \<Longrightarrow> out_ok raw (return_call c r cn)"
  by (simp add: return_call_def unsent_def out_call split: option.split)

lemma out_fill: "out_ok raw cn \<Longrightarrow> out_ok raw (fill_slot c v cn)"
  by (auto simp: fill_slot_def split: option.split intro!: out_call) (simp add: out_ok_def)

lemma out_await: "out_ok raw cn \<Longrightarrow> out_ok raw (await_reply cs c cn)"
  by (simp add: await_reply_def out_return split: option.split oneshot.split)

lemma out_pending [simp]:
  "out_ok raw (cn \<lparr> cn_pending := q \<rparr>) = out_ok raw cn" "out_ok raw (cn \<lparr> cn_serial := n \<rparr>) = out_ok raw cn"
  "out_ok raw (cn \<lparr> cn_handlers := x \<rparr>) = out_ok raw cn" "out_ok raw (cn \<lparr> cn_objects := t \<rparr>) = out_ok raw cn"
  "out_ok raw (cn \<lparr> cn_reading := b \<rparr>) = out_ok raw cn" "out_ok raw (cn \<lparr> cn_panic_handler := e \<rparr>) = out_ok raw cn"
  "out_ok raw (cn \<lparr> cn_next_call := n \<rparr>) = out_ok raw cn" "out_ok raw (cn \<lparr> cn_name := nm \<rparr>) = out_ok raw cn"
  "out_ok raw (cn \<lparr> cn_deliveries := d, cn_signals := sg \<rparr>) = out_ok raw cn"
  "out_ok raw (cn \<lparr> cn_next_task := n \<rparr>) = out_ok raw cn"
  by (simp_all add: out_ok_def outgoing_def)

lemma out_push:
  assumes "out_ok raw cn" and "keeps_private m \<or> m \<in> raw" and "outbox_try_send m cn = (r, cn')"
  shows "out_ok raw cn'"
  by (rule out_grow [OF assms(1) _ assms(2)])
    (use assms(3) in \<open>auto simp: outbox_try_send_def outgoing_def split: if_splits\<close>)

lemma out_start:
  assumes "out_ok raw cn" and "keeps_private m \<or> m \<in> raw"
  shows "out_ok raw (snd (start_send m cn))"
  by (rule out_grow [OF assms(1) _ assms(2)])
    (use senders_put [of "cn_next_task cn" m "cn_senders cn"] in \<open>auto simp: start_send_def outbox_try_send_def outgoing_def\<close>)

lemma out_put_pending: "out_ok raw cn \<Longrightarrow> out_ok raw (put_pending s p cn)"
  by (simp add: put_pending_def out_fill split: option.split)

lemma out_enqueue:
  assumes "out_ok raw cn" and "\<And>k. hget (cn_calls cn) c = Some k \<Longrightarrow> keeps_private (cl_message k)"
  shows "out_ok raw (enqueue_call cs now c s cn)"
proof (cases "hget (cn_calls cn) c")
  case (Some k)
  obtain r cn' where r: "outbox_try_send (cl_message k) cn = (r, cn')" by fastforce
  have "out_ok raw cn'" by (rule out_push [OF assms(1) _ r]) (use assms(2) Some in simp)
  then show ?thesis
    using Some r assms(2) by (cases r) (simp_all add: enqueue_call_def out_return out_await out_call)
qed (use assms in \<open>simp add: enqueue_call_def\<close>)

lemma put_pending_call:
  "hget (cn_calls (put_pending s p cn)) c = Some k \<Longrightarrow> \<exists>k'. hget (cn_calls cn) c = Some k' \<and> cl_message k = cl_message k'"
  by (auto simp: put_pending_def fill_calls split: option.splits if_splits)

lemma out_submit:
  assumes "out_ok raw cn" and "\<And>k. hget (cn_calls cn) c = Some k \<Longrightarrow> keeps_private (cl_message k)"
  shows "out_ok raw (submit_call cs now c x b cn)"
proof (cases "hget (cn_calls cn) c")
  case (Some k)
  let ?k = "k \<lparr> cl_message := with_serial (cn_serial cn) (cl_message k) \<rparr>"
  have 1: "out_ok raw (set_call c ?k (cn \<lparr> cn_serial := u64_add (cn_serial cn) 1 \<rparr>))"
    by (rule out_call) (use assms Some in simp_all)
  show ?thesis
    using Some 1 assms(2)
    by (auto simp: submit_call_def next_serial_def Let_def intro!: out_enqueue out_put_pending dest!: put_pending_call)
qed (use assms in \<open>simp add: submit_call_def\<close>)

lemma out_new_call: "out_ok raw cn \<Longrightarrow> new_call now t m cn = (c, cn') \<Longrightarrow> out_ok raw cn'"
  by (auto simp: new_call_def Let_def unsent_def intro!: out_call)

lemma out_begin:
  assumes "out_ok raw cn"
  shows "out_ok raw (snd (begin_call cs now t msg cn))"
proof (cases "check_call msg")
  case (Inl e)
  then show ?thesis using assms
    by (auto simp: begin_call_def split: prod.split intro: out_return out_new_call)
next
  case (Inr u)
  obtain c cn1 where 1: "new_call now t msg cn = (c, cn1)" by fastforce
  have o1: "out_ok raw cn1" and k1: "hget (cn_calls cn1) c = Some k \<Longrightarrow> keeps_private (cl_message k)" for k
    using out_new_call [OF assms 1] 1 checked_private [OF Inr] by (auto simp: new_call_def Let_def)
  have sub: "out_ok raw (submit_call cs now c x b cn1)" for x b by (rule out_submit [OF o1 k1])
  have "out_ok raw (submit_call cs now i None True
      (case hget (cn_calls cn2) c of None \<Rightarrow> cn2 | Some k \<Rightarrow> set_call c (k \<lparr> cl_phase := Resolving i \<rparr>) cn2))"
    if 2: "new_call now t (resolve_message d) cn1 = (i, cn2)" for d i cn2
  proof -
    have k2: "keeps_private (cl_message k)" if "hget (cn_calls cn2) x = Some k" "x = c \<or> x = i" for x k
      using 2 that k1 by (auto simp: new_call_def Let_def split: if_splits)
    have o3: "out_ok raw (case hget (cn_calls cn2) c of None \<Rightarrow> cn2 | Some k \<Rightarrow> set_call c (k \<lparr> cl_phase := Resolving i \<rparr>) cn2)"
      using out_new_call [OF o1 2] k2 by (auto split: option.split intro!: out_call)
    show ?thesis
      by (rule out_submit [OF o3]) (use k2 in \<open>auto split: option.splits if_splits\<close>)
  qed
  then show ?thesis
    using sub 1 Inr by (auto simp: begin_call_def split: option.split prod.split)
qed

lemma out_resume:
  assumes "out_ok raw cn"
  shows "out_ok raw (resume_call cs now c cn)"
proof (cases "hget (cn_calls cn) c")
  case (Some k)
  have clean: "unsent (cl_phase k) \<Longrightarrow> keeps_private (cl_message k)" using assms Some by (auto simp: out_ok_def)
  have sub: "out_ok raw (submit_call cs now c x b (set_call c (k \<lparr> cl_message := (cl_message k)
      \<lparr> m_header := (call_header k) \<lparr> h_expected_responder := e \<rparr> \<rparr> \<rparr>) cn))" if "unsent (cl_phase k)" for x b e
    by (rule out_submit [OF out_call [OF assms]]) (use clean that in \<open>auto simp: keeps_private_def\<close>)
  have enq: "out_ok raw (enqueue_call cs now c s cn)" if "unsent (cl_phase k)" for s
    by (rule out_enqueue [OF assms]) (use clean that Some in auto)
  show ?thesis
    using Some assms sub enq
    by (cases "cl_phase k") (auto simp: resume_call_def Let_def unsent_def intro!: out_await out_return
        split: option.split call_phase.split sum.split)
qed (use assms in \<open>simp add: resume_call_def\<close>)

lemma out_writer:
  assumes "out_ok raw cn"
  shows "out_ok raw (writer_take cn)" "out_ok raw (writer_done w alive cn)"
proof -
  show "out_ok raw (writer_take cn)"
    by (rule out_shrink [OF assms]) (auto simp: writer_take_def outgoing_def split: option.splits list.splits)
  show "out_ok raw (writer_done w alive cn)"
  proof (cases w)
    case Wrote
    then show ?thesis
      by (intro out_shrink [OF assms]) (auto simp: writer_done_def Let_def outgoing_def split: option.splits)
  next
    case LinkFailed
    then show ?thesis
      by (intro out_shrink [OF assms]) (auto simp: writer_done_def Let_def outgoing_def split: option.splits)
  next
    case (RefusedMessage e)
    have "out_ok raw (cn \<lparr> cn_writing := None \<rparr>)"
      by (rule out_shrink [OF assms]) (auto simp: outgoing_def)
    then show ?thesis
      using RefusedMessage assms by (auto simp: writer_done_def Let_def refuse_call_def out_fill split: option.split)
  qed
qed

lemma out_drop: "out_ok raw cn \<Longrightarrow> out_ok raw (drop_call c cn)"
  by (auto simp: drop_call_def Let_def unsent_def intro!: out_call split: option.split call_phase.split)

lemma out_drain: "out_ok raw cn \<Longrightarrow> out_ok raw (fold (\<lambda>(_, p). fill_slot (pr_call p) v) ps cn)"
  by (induction ps arbitrary: cn) (auto simp: out_fill)

lemma out_reply: "out_ok raw cn \<Longrightarrow> keeps_private reply \<Longrightarrow> out_ok raw (send_reply h reply cn)"
  by (simp add: send_reply_def next_serial_def out_start)

lemma out_step:
  assumes ok: "out_ok raw cn" and raw: "\<And>m n. e = SendNow m \<or> e = SendAwait m \<Longrightarrow> with_serial n m \<in> raw"
  shows "out_ok raw (conn_step im cs e cn)"
proof (cases e)
  case (Deadline now c)
  then show ?thesis using ok by (auto simp: call_timer_def intro!: out_await out_return split: option.split call_phase.split)
next
  case (SendNow m)
  have "out_ok raw (snd (outbox_try_send (with_serial n m) (cn \<lparr> cn_serial := x \<rparr>)))" for n x
    using out_push [of raw "cn \<lparr> cn_serial := x \<rparr>" "with_serial n m"] ok raw SendNow by (metis out_pending(2) prod.collapse)
  then show ?thesis using ok SendNow
    by (auto simp: conn_try_send_def next_serial_def split: sum.split prod.split send_outcome.split) (metis snd_conv)+
next
  case (SendAwait m)
  then show ?thesis using ok raw by (auto simp: conn_send_def next_serial_def split: sum.split intro!: out_start)
next
  case (RoomFor s)
  show ?thesis
  proof (cases "hget (cn_senders cn) s")
    case (Some m)
    then have "keeps_private m \<or> m \<in> raw" using ok by (force simp: out_ok_def outgoing_def dest: map_of_SomeD)
    then show ?thesis
      unfolding RoomFor using Some senders_del [of s "cn_senders cn"] ok
      by (auto simp: resume_send_def outbox_try_send_def intro!: out_grow [OF ok, of _ m]) (auto simp: outgoing_def)
  qed (use ok RoomFor in \<open>simp add: resume_send_def\<close>)
next
  case (Received msg brokered)
  then show ?thesis using ok
    by (cases "h_kind (m_header msg)")
      (auto simp: receive_def accept_reply_def out_fill split: option.split)
next
  case LinkEnded
  then show ?thesis using ok by (simp add: receive_end_def out_drain)
next
  case (LocalSignal m)
  then show ?thesis using ok by (simp add: deliver_local_def Let_def)
next
  case (RunHandler h)
  then show ?thesis using ok by (auto simp: handler_run_def out_reply split: option.split call_route.split)
next
  case (FinishHandler h r)
  then show ?thesis using ok by (auto simp: handler_finished_def Let_def out_reply split: option.split sum.split)
next
  case (StreamHandler h r)
  then show ?thesis using ok by (auto simp: handler_streaming_def Let_def out_reply split: option.split sum.split)
next
  case (Objects op)
  then show ?thesis using ok by (simp split: option.split)
next
  case (Handshake r)
  then show ?thesis using ok by (simp add: handshake_done_def split: sum.split json.split)
qed (use ok in \<open>simp_all add: out_begin out_resume out_drop out_writer\<close>)

text \<open>
  A private call carries no stream handle. In every run, any confidential or sensitive method
  call a connection has written, is writing or has queued has no stream handle in its body,
  unless it was handed in through the plain send operations, which do not look at bodies.
\<close>

theorem private_calls_carry_no_streams:
  assumes "cn = conn_run im cs evs (connection_attach origin publisher)" and "m \<in> outgoing cn"
    and "h_kind (m_header m) = MethodCall" and "h_confidential (m_header m) \<or> h_sensitive (m_header m)"
  shows "\<not> body_contains_stream_ref (m_body m) \<or>
    (\<exists>m' n. (SendNow m' \<in> set evs \<or> SendAwait m' \<in> set evs) \<and> m = with_serial n m')"
proof -
  let ?raw = "{with_serial n m' | n m'. SendNow m' \<in> set evs \<or> SendAwait m' \<in> set evs}"
  have one: "out_ok ?raw (conn_step im cs e cn0)" if "e \<in> set evs" "out_ok ?raw cn0" for e cn0
    by (rule out_step [OF that(2)]) (use that(1) in auto)
  have step: "out_ok ?raw (fold (conn_step im cs) es cn0)" if "set es \<subseteq> set evs" "out_ok ?raw cn0" for es cn0
    using that
  proof (induction es arbitrary: cn0)
    case (Cons e es)
    then show ?case using one [of e cn0] by simp
  qed simp
  have "out_ok ?raw (connection_attach origin publisher)"
    by (simp add: out_ok_def outgoing_def connection_attach_def)
  then have "out_ok ?raw cn" using step [of evs] assms(1) by (simp add: conn_run_def)
  then have "keeps_private m \<or> m \<in> ?raw" using assms(2) by (simp add: out_ok_def)
  then show ?thesis using assms(3,4) by (auto simp: keeps_private_def)
qed

section \<open>A call answered\<close>

definition any_client :: client_serde where
  "any_client = \<lparr> cs_error = (\<lambda>_. ''bad''), cs_text = (\<lambda>_. ''text'') \<rparr>"

definition ask :: message where
  "ask = method_call (unique_name 2) (ObjectPath ''/a'') (InterfaceName ''a.b'') (MemberName ''M'') (JArray [])"

definition answer :: message where
  "answer = stamp (unique_name 2) (method_return (m_header (with_serial 1 ask)) (JString ''hi''))"

definition hello :: "nat conn_event" where
  "hello = Handshake (Inr (method_return (m_header ask) (JString (bus_str (unique_name 1)))))"

definition named_connection :: "nat connection" where
  "named_connection = (connection_attach 0 0) \<lparr> cn_name := Some (unique_name 1) \<rparr>"

definition asked :: "oneshot \<Rightarrow> call_phase \<Rightarrow> call" where
  "asked slot ph = \<lparr> cl_message = with_serial 1 ask, cl_timeout = 1000, cl_started = 0, cl_slot = slot, cl_phase = ph \<rparr>"

lemma say_hello: "conn_run plain_impl any_client [hello] (connection_attach 0 0) = named_connection"
proof -
  have "BusName_new (bus_str (unique_name 1)) = Inr (unique_name 1)" by code_simp
  then show ?thesis
    by (simp add: conn_run_def hello_def handshake_done_def method_return_def named_connection_def)
qed

definition waiting_connection :: "nat connection" where
  "waiting_connection = named_connection
     \<lparr> cn_serial := 2, cn_pending := [(1, \<lparr> pr_call = 0, pr_expected = Some (unique_name 2), pr_bus_control = False,
         pr_confidential = False, pr_unverified_direct = False \<rparr>)],
        cn_calls := [(0, asked Waiting (AwaitingReply 1 1000))], cn_next_call := 1, cn_outbox := [with_serial 1 ask] \<rparr>"

lemma call_out:
  "conn_run plain_impl any_client [Call 0 1000 ask] named_connection = waiting_connection"
  by (simp add: conn_run_def begin_call_def new_call_def Let_def check_call_def validate_def ask_def method_call_def
      submit_call_def next_serial_def put_pending_def enqueue_call_def outbox_try_send_def await_reply_def
      set_call_def named_connection_def connection_attach_def OUTBOX_CAPACITY_def waiting_connection_def asked_def
      with_serial_def u64_add_def)


lemma reply_in:
  "conn_run plain_impl any_client [Received answer True] waiting_connection =
     waiting_connection \<lparr> cn_pending := [], cn_calls := [(0, asked (Sent answer) (AwaitingReply 1 1000))] \<rparr>"
  by (simp add: conn_run_def receive_def accept_reply_def answer_def stamp_def method_return_def waiting_connection_def
      ask_def method_call_def with_serial_def reply_accepted_def fill_slot_def set_call_def asked_def named_connection_def
      connection_attach_def)

lemma woken:
  "conn_run plain_impl any_client [Wake 1 0]
     (waiting_connection \<lparr> cn_pending := [], cn_calls := [(0, asked (Sent answer) (AwaitingReply 1 1000))] \<rparr>) =
     waiting_connection \<lparr> cn_pending := [], cn_calls := [(0, asked (Sent answer) (Returned (Inr answer)))] \<rparr>"
  by (simp add: conn_run_def resume_call_def await_reply_def return_call_def reply_result_def answer_def stamp_def
      method_return_def set_call_def asked_def)

lemma conn_run_append: "conn_run im cs (xs @ ys) cn = conn_run im cs ys (conn_run im cs xs cn)"
  by (simp add: conn_run_def)

definition answered_connection :: "nat connection" where
  "answered_connection = waiting_connection \<lparr> cn_pending := [], cn_calls := [(0, asked (Sent answer) (Returned (Inr answer)))] \<rparr>"

lemma whole_call:
  "conn_run plain_impl any_client ([Call 0 1000 ask] @ [Received answer True] @ [Wake 1 0]) named_connection = answered_connection"
  unfolding conn_run_append call_out reply_in woken answered_connection_def ..

lemma called:
  "waiting_connection = conn_run plain_impl any_client ([hello] @ [Call 0 1000 ask]) (connection_attach 0 0)"
  unfolding conn_run_append say_hello call_out ..

lemma waiting_call: "hget (cn_calls waiting_connection) 0 = Some (asked Waiting (AwaitingReply 1 1000))"
  by (simp add: waiting_connection_def)


text \<open>The same call once more, and its answer.\<close>

definition second :: "oneshot \<Rightarrow> call_phase \<Rightarrow> call" where
  "second slot ph = \<lparr> cl_message = with_serial 2 ask, cl_timeout = 1000, cl_started = 2, cl_slot = slot, cl_phase = ph \<rparr>"

definition answer2 :: message where
  "answer2 = stamp (unique_name 2) (method_return (m_header (with_serial 2 ask)) (JString ''ho''))"

definition asking_again :: "nat connection" where
  "asking_again = answered_connection
     \<lparr> cn_serial := 3, cn_pending := [(2, \<lparr> pr_call = 1, pr_expected = Some (unique_name 2), pr_bus_control = False,
         pr_confidential = False, pr_unverified_direct = False \<rparr>)],
        cn_calls := cn_calls answered_connection @ [(1, second Waiting (AwaitingReply 2 1002))], cn_next_call := 2,
        cn_outbox := [with_serial 1 ask, with_serial 2 ask] \<rparr>"

lemma call_again: "conn_run plain_impl any_client [Call 2 1000 ask] answered_connection = asking_again"
  by (simp add: conn_run_def begin_call_def new_call_def Let_def check_call_def validate_def ask_def method_call_def
      submit_call_def next_serial_def put_pending_def enqueue_call_def outbox_try_send_def await_reply_def
      set_call_def named_connection_def connection_attach_def OUTBOX_CAPACITY_def waiting_connection_def asked_def
      with_serial_def u64_add_def answered_connection_def asking_again_def second_def)

definition answered_again :: "nat connection" where
  "answered_again = asking_again \<lparr> cn_pending := [],
     cn_calls := [(0, asked (Sent answer) (Returned (Inr answer))), (1, second (Sent answer2) (Returned (Inr answer2)))] \<rparr>"

lemma answer_again: "conn_run plain_impl any_client ([Received answer2 True] @ [Wake 3 1]) asking_again = answered_again"
proof -
  have "conn_run plain_impl any_client [Received answer2 True] asking_again = asking_again \<lparr> cn_pending := [],
     cn_calls := [(0, asked (Sent answer) (Returned (Inr answer))), (1, second (Sent answer2) (AwaitingReply 2 1002))] \<rparr>"
    by (simp add: conn_run_def receive_def accept_reply_def answer2_def stamp_def method_return_def waiting_connection_def
      ask_def method_call_def with_serial_def reply_accepted_def fill_slot_def set_call_def asked_def second_def named_connection_def
      connection_attach_def asking_again_def answered_connection_def)
  moreover have "conn_run plain_impl any_client [Wake 3 1] (asking_again \<lparr> cn_pending := [],
     cn_calls := [(0, asked (Sent answer) (Returned (Inr answer))), (1, second (Sent answer2) (AwaitingReply 2 1002))] \<rparr>) = answered_again"
    by (simp add: conn_run_def resume_call_def await_reply_def return_call_def reply_result_def answer2_def stamp_def
      method_return_def set_call_def asked_def second_def answered_again_def)
  ultimately show ?thesis unfolding conn_run_append by simp
qed

definition two_calls :: "nat conn_event list" where
  "two_calls = [hello] @ ([Call 0 1000 ask] @ [Received answer True] @ [Wake 1 0]) @ [Call 2 1000 ask] @ ([Received answer2 True] @ [Wake 3 1])"

lemma two_calls_run: "answered_again = conn_run plain_impl any_client two_calls (connection_attach 0 0)"
  unfolding two_calls_def conn_run_append [of _ _ "[hello]"] say_hello
    conn_run_append [of _ _ "[Call 0 1000 ask] @ [Received answer True] @ [Wake 1 0]"] whole_call
    conn_run_append [of _ _ "[Call 2 1000 ask]"] call_again answer_again ..

section \<open>Witnesses\<close>

lemma answered_handshaken:
  "handshaken plain_impl any_client [hello] ([Call 0 1000 ask] @ [Received answer True] @ [Wake 1 0]) 0 answered_connection"
  unfolding handshaken_def
  by (rule exI [of _ 0], rule exI [of _ 0], rule exI [of _ named_connection], unfold say_hello whole_call)
    (simp add: named_connection_def connection_attach_def)

lemma replies_come_from_the_callee_witness:
  "h_kind (m_header answer) = MethodReturn \<and> h_reply_serial (m_header answer) = Some 1 \<and>
   h_sender (m_header answer) = Some (unique_name 2)"
proof -
  let ?k = "asked (Sent answer) (Returned (Inr answer))"
  have u: "is_unique (unique_name 2)" "unique_name 2 \<noteq> BUS_NAME" by code_simp+
  have "hget (cn_calls answered_connection) 0 = Some ?k" by (simp add: answered_connection_def)
  then show ?thesis
    using replies_come_from_the_callee [OF answered_handshaken, of 0 ?k answer] u
    by (auto simp: asked_def with_serial_def ask_def method_call_def)
qed

lemma replies_answer_one_call_witness:
  "h_reply_serial (m_header answer) \<noteq> h_reply_serial (m_header answer2)"
  using replies_answer_one_call [OF two_calls_run, of 0 "asked (Sent answer) (Returned (Inr answer))" answer 1
      "second (Sent answer2) (Returned (Inr answer2))" answer2]
  by (simp add: two_calls_def answered_again_def asked_def second_def)

lemma pending_table_is_exact_witness:
  "\<exists>p. hget (cn_pending waiting_connection) 1 = Some p \<and> pr_call p = 0"
  using pending_table_is_exact [OF called] waiting_call by (force simp: asked_def)

lemma waiting_calls_end_witness:
  "hget (cn_calls (call_timer any_client 1000 0 waiting_connection)) 0 =
     Some (asked Waiting (Returned (Inl (Timeout (MemberName ''M'') 1000)))) \<and>
   cn_pending (receive_end waiting_connection) = []"
proof -
  have "cn_reading waiting_connection" by (simp add: waiting_connection_def named_connection_def connection_attach_def)
  moreover have "member_or_unknown (with_serial 1 ask) = MemberName ''M''"
    by (simp add: member_or_unknown_def with_serial_def ask_def method_call_def)
  ultimately show ?thesis
    using waiting_calls_end [OF called _ waiting_call, where s = 1 and d = 1000 and now = 1000] by (auto simp: asked_def)
qed

definition serving :: "header \<Rightarrow> nat connection" where
  "serving h = (connection_attach 0 0)
     \<lparr> cn_handlers := [(0, \<lparr> hd_message = \<lparr> m_header = h, m_body = JNull \<rparr>, hd_brokered = True, hd_phase = Dispatching \<rparr>)],
        cn_next_task := 1 \<rparr>"



definition with_member :: "(nat, unit) interface_impl" where
  "with_member = plain_impl \<lparr> if_members := (\<lambda>_. [MemberName ''M'']) \<rparr>"

definition asked_of :: "nat connection" where
  "asked_of = serving (m_header (stamp (unique_name 3) ask)) \<lparr> cn_objects := served 1 7 \<rparr>"

lemma only_admitted_calls_run_witness:
  "\<exists>target ctx. tree_lookup (cn_objects asked_of) (ObjectPath ''/a'') (InterfaceName ''a.b'') = Inr target \<and>
     route_call with_member (m_header (stamp (unique_name 3) ask)) True asked_of = ToInterface target ctx \<and>
     (is_unique (unique_name 3) \<longrightarrow> cc_sender ctx = Some (unique_name 3))"
proof -
  let ?call = "m_header (stamp (unique_name 3) ask)"
  have r: "route_call with_member ?call True asked_of = ToInterface 7 (brokered_with_origin (Some (unique_name 3)) False (Some 0))"
    by (simp add: asked_of_def serving_def served_def route_call_def ask_def method_call_def stamp_def stream_handles_def
        STREAM_INTERFACE_def connection_attach_def tree_lookup_def admit_call_def with_member_def plain_impl_def)
  have step: "hget (cn_handlers (conn_step with_member any_client (RunHandler 0) asked_of)) 0 =
      Some \<lparr> hd_message = \<lparr> m_header = ?call, m_body = JNull \<rparr>, hd_brokered = True, hd_phase = Running \<rparr>"
    using r by (simp add: asked_of_def serving_def handler_run_def)
  have "\<not> stream_handles ?call"
    by (simp add: stream_handles_def ask_def method_call_def stamp_def STREAM_INTERFACE_def)
  then show ?thesis
    using only_admitted_calls_run [OF _ _ step, of "\<lparr> hd_message = \<lparr> m_header = ?call, m_body = JNull \<rparr>, hd_brokered = True, hd_phase = Dispatching \<rparr>" ?call]
    by (fastforce simp: asked_of_def serving_def ask_def method_call_def stamp_def)
qed

definition private_ask :: message where
  "private_ask = ask \<lparr> m_header := (m_header ask) \<lparr> h_confidential := True \<rparr> \<rparr>"

lemma private_calls_carry_no_streams_witness:
  "with_serial 1 private_ask \<in> outgoing (conn_run plain_impl any_client ([hello] @ [Call 0 1000 private_ask]) (connection_attach 0 0)) \<and>
   \<not> body_contains_stream_ref (m_body private_ask)"
proof -
  let ?cn = "conn_run plain_impl any_client ([hello] @ [Call 0 1000 private_ask]) (connection_attach 0 0)"
  have b: "\<not> body_contains_stream_ref (JArray [])" by code_simp
  have "with_serial 1 private_ask \<in> outgoing ?cn"
    unfolding conn_run_append say_hello using b
    by (simp add: conn_run_def begin_call_def new_call_def Let_def check_call_def validate_def private_ask_def ask_def method_call_def
      submit_call_def next_serial_def put_pending_def enqueue_call_def outbox_try_send_def await_reply_def outgoing_def
      set_call_def named_connection_def connection_attach_def OUTBOX_CAPACITY_def with_serial_def u64_add_def)
  moreover from private_calls_carry_no_streams [OF refl this] have "\<not> body_contains_stream_ref (m_body (with_serial 1 private_ask))"
    by (auto simp: private_ask_def with_serial_def ask_def method_call_def hello_def)
  ultimately show ?thesis by (simp add: with_serial_def)
qed

end
