(* ===== verification/BusClient.thy ===== *)
theory BusClient
  imports Connection
begin

text \<open>
  What a program calls on a \<open>Connection\<close> (\<open>connection.rs\<close>) and on a \<open>Proxy\<close>
  (\<open>proxy.rs\<close>): typed requests over \<open>call_raw\<close>, signals, exports.

  The awaited \<open>call_raw\<close> is an argument: it takes a message and a timeout, and gives the body of
  the reply or an error, in a world \<open>'w\<close> it may change. Arguments a caller serializes arrive
  here as serde left them, a value or its error; a result type of the caller's is its decoder.
  What serde derives for manifests, attestations and peer records is \<open>api_serde\<close>.
\<close>

type_synonym 'w bus_caller = "message \<Rightarrow> nat \<Rightarrow> 'w \<Rightarrow> json result \<times> 'w"

record api_serde =
  as_manifest :: "json \<Rightarrow> peer_manifest option"
  as_to_manifest :: "peer_manifest \<Rightarrow> json"
  as_attestation :: "json \<Rightarrow> attestation option"
  as_peer :: "json \<Rightarrow> peer_record option"

definition and_then :: "'a result \<times> 'w \<Rightarrow> ('a \<Rightarrow> 'b result) \<Rightarrow> 'b result \<times> 'w" where
  "and_then r f = (case r of (Inl e, w) \<Rightarrow> (Inl e, w) | (Inr v, w) \<Rightarrow> (f v, w))"

definition from_value :: "client_serde \<Rightarrow> (json \<Rightarrow> 'r option) \<Rightarrow> json \<Rightarrow> 'r result" where
  "from_value cs de v = (case de v of Some x \<Rightarrow> Inr x | None \<Rightarrow> Inl (Json (cs_error cs v)))"

definition de_name :: "json \<Rightarrow> bus_name option" where
  "de_name v = (case v of JString s \<Rightarrow> (case BusName_new s of Inr n \<Rightarrow> Some n | Inl _ \<Rightarrow> None) | _ \<Rightarrow> None)"

definition de_option :: "(json \<Rightarrow> 'r option) \<Rightarrow> json \<Rightarrow> 'r option option" where
  "de_option de v = (if v = JNull then Some None else map_option Some (de v))"

fun de_all :: "(json \<Rightarrow> 'r option) \<Rightarrow> json list \<Rightarrow> 'r list option" where
  "de_all de [] = Some []"
| "de_all de (v # vs) = (case de v of None \<Rightarrow> None | Some x \<Rightarrow> map_option ((#) x) (de_all de vs))"

definition de_list :: "(json \<Rightarrow> 'r option) \<Rightarrow> json \<Rightarrow> 'r list option" where
  "de_list de v = (case v of JArray vs \<Rightarrow> de_all de vs | _ \<Rightarrow> None)"

section \<open>Calls to the bus\<close>

definition to_body :: "json result \<Rightarrow> json result" where
  "to_body value =
     (case value of
        Inl e \<Rightarrow> Inl e
      | Inr v \<Rightarrow> Inr (case v of JArray _ \<Rightarrow> v | JNull \<Rightarrow> JArray [] | other \<Rightarrow> JArray [other]))"

definition call_bus_with_timeout :: "'w bus_caller \<Rightarrow> string \<Rightarrow> json \<Rightarrow> nat \<Rightarrow> 'w \<Rightarrow> json result \<times> 'w" where
  "call_bus_with_timeout call member body timeout = call (bus_message member body) timeout"

definition call_bus :: "'w bus_caller \<Rightarrow> string \<Rightarrow> json \<Rightarrow> 'w \<Rightarrow> json result \<times> 'w" where
  "call_bus call member args = call (bus_message member args) DEFAULT_TIMEOUT"

definition call_bus_sensitive :: "'w bus_caller \<Rightarrow> string \<Rightarrow> json \<Rightarrow> 'w \<Rightarrow> json result \<times> 'w" where
  "call_bus_sensitive call member args =
     call (sensitive_control_call BUS_NAME BUS_PATH BUS_INTERFACE (MemberName member) args) DEFAULT_TIMEOUT"

definition json_of_name :: "bus_name \<Rightarrow> json" where
  "json_of_name n = JString (bus_str n)"

definition conn_request_name :: "'w bus_caller \<Rightarrow> string \<Rightarrow> 'w \<Rightarrow> unit result \<times> 'w" where
  "conn_request_name call name w =
     (case BusName_new name of
        Inl e \<Rightarrow> (Inl e, w)
      | Inr n \<Rightarrow> and_then (call_bus call ''RequestName'' (JArray [json_of_name n]) w) (\<lambda>_. Inr ()))"

definition conn_release_name :: "'w bus_caller \<Rightarrow> string \<Rightarrow> 'w \<Rightarrow> unit result \<times> 'w" where
  "conn_release_name call name w =
     (case BusName_new name of
        Inl e \<Rightarrow> (Inl e, w)
      | Inr n \<Rightarrow> and_then (call_bus call ''ReleaseName'' (JArray [json_of_name n]) w) (\<lambda>_. Inr ()))"

definition conn_list_names :: "'w bus_caller \<Rightarrow> client_serde \<Rightarrow> 'w \<Rightarrow> bus_name list result \<times> 'w" where
  "conn_list_names call cs w =
     and_then (call_bus call ''ListNames'' (JArray []) w) (from_value cs (de_list de_name))"

definition conn_name_owner_with_timeout ::
  "'w bus_caller \<Rightarrow> client_serde \<Rightarrow> string \<Rightarrow> nat \<Rightarrow> 'w \<Rightarrow> bus_name option result \<times> 'w" where
  "conn_name_owner_with_timeout call cs name timeout w =
     (case BusName_new name of
        Inl e \<Rightarrow> (Inl e, w)
      | Inr n \<Rightarrow>
          and_then (call_bus_with_timeout call ''GetNameOwner'' (JArray [json_of_name n]) timeout w)
            (from_value cs (de_option de_name)))"

definition conn_name_owner :: "'w bus_caller \<Rightarrow> client_serde \<Rightarrow> string \<Rightarrow> 'w \<Rightarrow> bus_name option result \<times> 'w" where
  "conn_name_owner call cs name = conn_name_owner_with_timeout call cs name DEFAULT_TIMEOUT"

definition conn_attestation_with_timeout ::
  "'w bus_caller \<Rightarrow> client_serde \<Rightarrow> api_serde \<Rightarrow> bus_name \<Rightarrow> nat \<Rightarrow> 'w \<Rightarrow> attestation option result \<times> 'w" where
  "conn_attestation_with_timeout call cs api n timeout w =
     and_then (call_bus_with_timeout call ''GetAttestation'' (JArray [json_of_name n]) timeout w)
       (from_value cs (de_option (as_attestation api)))"

definition conn_attestation ::
  "'w bus_caller \<Rightarrow> client_serde \<Rightarrow> api_serde \<Rightarrow> bus_name \<Rightarrow> 'w \<Rightarrow> attestation option result \<times> 'w" where
  "conn_attestation call cs api n = conn_attestation_with_timeout call cs api n DEFAULT_TIMEOUT"

definition conn_announce :: "'w bus_caller \<Rightarrow> api_serde \<Rightarrow> peer_manifest \<Rightarrow> 'w \<Rightarrow> unit result \<times> 'w" where
  "conn_announce call api manifest w =
     and_then (call_bus call ''Announce'' (JArray [as_to_manifest api manifest]) w) (\<lambda>_. Inr ())"

definition conn_manifest_of ::
  "'w bus_caller \<Rightarrow> client_serde \<Rightarrow> api_serde \<Rightarrow> string \<Rightarrow> 'w \<Rightarrow> peer_manifest option result \<times> 'w" where
  "conn_manifest_of call cs api name w =
     (case BusName_new name of
        Inl e \<Rightarrow> (Inl e, w)
      | Inr n \<Rightarrow>
          and_then (call_bus call ''GetManifest'' (JArray [json_of_name n]) w)
            (from_value cs (de_option (as_manifest api))))"

definition conn_peers :: "'w bus_caller \<Rightarrow> client_serde \<Rightarrow> api_serde \<Rightarrow> 'w \<Rightarrow> peer_record list result \<times> 'w" where
  "conn_peers call cs api w =
     and_then (call_bus call ''ListPeers'' (JArray []) w) (from_value cs (de_list (as_peer api)))"

definition conn_add_match :: "'w bus_caller \<Rightarrow> match_rule \<Rightarrow> 'w \<Rightarrow> unit result \<times> 'w" where
  "conn_add_match call rule w =
     and_then (call_bus call ''AddMatch'' (JArray [JString (rule_to_wire rule)]) w) (\<lambda>_. Inr ())"

section \<open>Compatibility\<close>

definition conn_compatibility ::
  "'w bus_caller \<Rightarrow> client_serde \<Rightarrow> api_serde \<Rightarrow> string \<Rightarrow> string \<Rightarrow> peer_manifest \<Rightarrow> 'w \<Rightarrow> compatibility result \<times> 'w" where
  "conn_compatibility call cs api destination interface own w =
     (case InterfaceName_new interface of
        Inl e \<Rightarrow> (Inl e, w)
      | Inr i \<Rightarrow>
          and_then (conn_manifest_of call cs api destination w)
            (\<lambda>remote. case remote of
               None \<Rightarrow> Inr (Compatible (Version_new 0 0 0) (Version_new 0 0 0))
             | Some m \<Rightarrow> Inr (check_versions m own i)))"

definition conn_require ::
  "'w bus_caller \<Rightarrow> client_serde \<Rightarrow> api_serde \<Rightarrow> string \<Rightarrow> string \<Rightarrow> peer_manifest \<Rightarrow> 'w \<Rightarrow> unit result \<times> 'w" where
  "conn_require call cs api destination interface own w =
     and_then (conn_compatibility call cs api destination interface own w)
       (\<lambda>verdict. if is_compatible verdict then Inr ()
         else Inl (IncompatibleVersion destination interface (compatibility_display verdict)))"

section \<open>Module control\<close>

definition conn_list_modules :: "'w bus_caller \<Rightarrow> client_serde \<Rightarrow> (json \<Rightarrow> 'm option) \<Rightarrow> 'w \<Rightarrow> 'm list result \<times> 'w" where
  "conn_list_modules call cs de w =
     and_then (call_bus call ''ListModules'' (JArray []) w) (from_value cs (de_list de))"

definition conn_module ::
  "'w bus_caller \<Rightarrow> client_serde \<Rightarrow> (json \<Rightarrow> 'm option) \<Rightarrow> string \<Rightarrow> 'w \<Rightarrow> 'm option result \<times> 'w" where
  "conn_module call cs de name w =
     and_then (call_bus call ''GetModule'' (JArray [JString name]) w)
       (from_value cs (de_option de))"

definition conn_module_manifest ::
  "'w bus_caller \<Rightarrow> client_serde \<Rightarrow> (json \<Rightarrow> 'm option) \<Rightarrow> string \<Rightarrow> 'w \<Rightarrow> 'm option result \<times> 'w" where
  "conn_module_manifest call cs de name w =
     and_then (call_bus call ''GetModuleManifest'' (JArray [JString name]) w) (from_value cs (de_option de))"

definition conn_load_module ::
  "'w bus_caller \<Rightarrow> client_serde \<Rightarrow> (json \<Rightarrow> 'm option) \<Rightarrow> string \<Rightarrow> json \<Rightarrow> 'w \<Rightarrow> 'm result \<times> 'w" where
  "conn_load_module call cs de path config w =
     and_then (call_bus_sensitive call ''LoadModule'' (JArray [JString path, config]) w)
       (from_value cs de)"

definition conn_load_github_module ::
  "'w bus_caller \<Rightarrow> client_serde \<Rightarrow> (json \<Rightarrow> 'm option) \<Rightarrow> string \<Rightarrow> string \<Rightarrow> string \<Rightarrow> json \<Rightarrow> 'w \<Rightarrow> 'm result \<times> 'w" where
  "conn_load_github_module call cs de release_url asset_name sha256 config w =
     and_then
       (call_bus_sensitive call ''LoadGithubModule''
          (JArray [JString release_url, JString asset_name, JString sha256, config]) w)
       (from_value cs de)"

definition conn_reinitialize_module ::
  "'w bus_caller \<Rightarrow> client_serde \<Rightarrow> (json \<Rightarrow> 'm option) \<Rightarrow> string \<Rightarrow> json \<Rightarrow> 'w \<Rightarrow> 'm result \<times> 'w" where
  "conn_reinitialize_module call cs de name config w =
     and_then (call_bus_sensitive call ''ReinitializeModule'' (JArray [JString name, config]) w)
       (from_value cs de)"

text \<open>\<open>as_millis() as u64\<close> keeps the low 64 bits.\<close>

definition conn_stop_module ::
  "'w bus_caller \<Rightarrow> client_serde \<Rightarrow> (json \<Rightarrow> 'm option) \<Rightarrow> string \<Rightarrow> nat \<Rightarrow> 'w \<Rightarrow> 'm result \<times> 'w" where
  "conn_stop_module call cs de name deadline w =
     and_then
       (call_bus call ''StopModule'' (JArray [JString name, JNumber (show_nat (deadline mod 2 ^ 64))]) w)
       (from_value cs de)"

definition conn_enable_module ::
  "'w bus_caller \<Rightarrow> client_serde \<Rightarrow> (json \<Rightarrow> 'm option) \<Rightarrow> string \<Rightarrow> bool \<Rightarrow> 'w \<Rightarrow> 'm result \<times> 'w" where
  "conn_enable_module call cs de name enabled w =
     and_then (call_bus call ''EnableModule'' (JArray [JString name, JBool enabled]) w)
       (from_value cs de)"

definition conn_scan_modules ::
  "'w bus_caller \<Rightarrow> client_serde \<Rightarrow> (json \<Rightarrow> 'm option) \<Rightarrow> string list \<Rightarrow> bool \<Rightarrow> 'w \<Rightarrow> 'm list result \<times> 'w" where
  "conn_scan_modules call cs de paths dry_run w =
     and_then (call_bus call ''RescanModules'' (JArray [JArray (map JString paths), JBool dry_run]) w)
       (from_value cs (de_list de))"

definition conn_rescan_modules :: "'w bus_caller \<Rightarrow> client_serde \<Rightarrow> (json \<Rightarrow> 'm option) \<Rightarrow> 'w \<Rightarrow> 'm list result \<times> 'w" where
  "conn_rescan_modules call cs de = conn_scan_modules call cs de [] False"

section \<open>Typed calls and signals\<close>

definition call_with_timeout ::
  "'w bus_caller \<Rightarrow> client_serde \<Rightarrow> (json \<Rightarrow> 'r option) \<Rightarrow> bus_name \<Rightarrow> object_path \<Rightarrow> interface_name \<Rightarrow>
   member_name \<Rightarrow> json result \<Rightarrow> nat \<Rightarrow> 'w \<Rightarrow> 'r result \<times> 'w" where
  "call_with_timeout call cs de destination path interface member args timeout w =
     (case to_body args of
        Inl e \<Rightarrow> (Inl e, w)
      | Inr body \<Rightarrow>
          and_then (call (method_call destination path interface member body) timeout w) (from_value cs de))"

definition conn_call ::
  "'w bus_caller \<Rightarrow> client_serde \<Rightarrow> (json \<Rightarrow> 'r option) \<Rightarrow> bus_name \<Rightarrow> object_path \<Rightarrow> interface_name \<Rightarrow>
   member_name \<Rightarrow> json result \<Rightarrow> 'w \<Rightarrow> 'r result \<times> 'w" where
  "conn_call call cs de destination path interface member args =
     call_with_timeout call cs de destination path interface member args DEFAULT_TIMEOUT"

definition conn_emit ::
  "object_path \<Rightarrow> interface_name \<Rightarrow> member_name \<Rightarrow> json result \<Rightarrow> 'i connection \<Rightarrow> unit result option \<times> 'i connection" where
  "conn_emit path interface member body cn =
     (case to_body body of
        Inl e \<Rightarrow> (Some (Inl e), cn)
      | Inr b \<Rightarrow> conn_send (signal path interface member b) cn)"

definition conn_emit_to ::
  "bus_name \<Rightarrow> object_path \<Rightarrow> interface_name \<Rightarrow> member_name \<Rightarrow> json result \<Rightarrow> 'i connection \<Rightarrow>
   unit result option \<times> 'i connection" where
  "conn_emit_to destination path interface member body cn =
     (case to_body body of
        Inl e \<Rightarrow> (Some (Inl e), cn)
      | Inr b \<Rightarrow> conn_send (signal_to destination path interface member b) cn)"

definition conn_try_emit ::
  "object_path \<Rightarrow> interface_name \<Rightarrow> member_name \<Rightarrow> json result \<Rightarrow> 'i connection \<Rightarrow> unit result \<times> 'i connection" where
  "conn_try_emit path interface member body cn =
     (case to_body body of
        Inl e \<Rightarrow> (Inl e, cn)
      | Inr b \<Rightarrow> conn_try_send (signal path interface member b) cn)"

section \<open>Exports\<close>

text \<open>The registration's identity, kept by an owner guard. Replaced interfaces are dropped.\<close>

record object_registration =
  rg_path :: object_path
  rg_interface :: interface_name
  rg_id :: nat

definition serve_at_owned ::
  "('i, 'u) interface_impl \<Rightarrow> object_path \<Rightarrow> 'i \<Rightarrow> 'i connection \<Rightarrow> (object_registration \<times> 'i connection) option" where
  "serve_at_owned im path i cn =
     map_option
       (\<lambda>((nid, replaced), t).
          (\<lparr> rg_path = path, rg_interface = if_name im i, rg_id = nid \<rparr>, cn \<lparr> cn_objects := t \<rparr>))
       (insert_owned path (if_name im i) i (cn_objects cn))"

definition serve_at ::
  "('i, 'u) interface_impl \<Rightarrow> object_path \<Rightarrow> 'i \<Rightarrow> 'i connection \<Rightarrow> 'i connection option" where
  "serve_at im path i cn = map_option snd (serve_at_owned im path i cn)"

definition try_serve_at ::
  "('i, 'u) interface_impl \<Rightarrow> object_path \<Rightarrow> 'i \<Rightarrow> 'i connection \<Rightarrow> (unit result \<times> 'i connection) option" where
  "try_serve_at im path i cn =
     map_option
       (\<lambda>(won, t). (if won then Inr () else Inl (failed ''interface is already served at this object path''),
          cn \<lparr> cn_objects := t \<rparr>))
       (insert_if_absent im path i (cn_objects cn))"

definition conn_take_if_owned :: "object_registration \<Rightarrow> 'i connection \<Rightarrow> 'i option \<times> 'i connection" where
  "conn_take_if_owned g cn =
     (case take_if_owned (rg_path g) (rg_interface g) (rg_id g) (cn_objects cn) of
        (i, t) \<Rightarrow> (i, cn \<lparr> cn_objects := t \<rparr>))"

definition unserve :: "object_path \<Rightarrow> 'i connection \<Rightarrow> bool \<times> 'i connection" where
  "unserve path cn =
     (case tree_remove path (cn_objects cn) of (was, t) \<Rightarrow> (was, cn \<lparr> cn_objects := t \<rparr>))"

section \<open>Proxies\<close>

record proxy =
  px_destination :: bus_name
  px_path :: object_path
  px_interface :: interface_name
  px_timeout :: nat

definition proxy_new :: "bus_name \<Rightarrow> object_path \<Rightarrow> interface_name \<Rightarrow> proxy" where
  "proxy_new destination path interface =
     \<lparr> px_destination = destination, px_path = path, px_interface = interface, px_timeout = DEFAULT_TIMEOUT \<rparr>"

definition conn_proxy :: "string \<Rightarrow> string \<Rightarrow> string \<Rightarrow> proxy result" where
  "conn_proxy destination path interface =
     (case BusName_new destination of
        Inl e \<Rightarrow> Inl e
      | Inr d \<Rightarrow>
          (case ObjectPath_new path of
             Inl e \<Rightarrow> Inl e
           | Inr p \<Rightarrow>
               (case InterfaceName_new interface of
                  Inl e \<Rightarrow> Inl e
                | Inr i \<Rightarrow> Inr (proxy_new d p i))))"

definition with_timeout :: "nat \<Rightarrow> proxy \<Rightarrow> proxy" where
  "with_timeout t p = p \<lparr> px_timeout := t \<rparr>"

definition proxy_call ::
  "'w bus_caller \<Rightarrow> client_serde \<Rightarrow> (json \<Rightarrow> 'r option) \<Rightarrow> proxy \<Rightarrow> string \<Rightarrow> json result \<Rightarrow> 'w \<Rightarrow> 'r result \<times> 'w" where
  "proxy_call call cs de p member args w =
     (case MemberName_new member of
        Inl e \<Rightarrow> (Inl e, w)
      | Inr m \<Rightarrow>
          call_with_timeout call cs de (px_destination p) (px_path p) (px_interface p) m args (px_timeout p) w)"

text \<open>The body of a call that builds its own kind of message.\<close>

definition proxy_raw ::
  "(bus_name \<Rightarrow> object_path \<Rightarrow> interface_name \<Rightarrow> member_name \<Rightarrow> json \<Rightarrow> message) \<Rightarrow>
   'w bus_caller \<Rightarrow> client_serde \<Rightarrow> (json \<Rightarrow> 'r option) \<Rightarrow> proxy \<Rightarrow> string \<Rightarrow> json result \<Rightarrow> 'w \<Rightarrow> 'r result \<times> 'w" where
  "proxy_raw build call cs de p member args w =
     (case MemberName_new member of
        Inl e \<Rightarrow> (Inl e, w)
      | Inr m \<Rightarrow>
          (case to_body args of
             Inl e \<Rightarrow> (Inl e, w)
           | Inr body \<Rightarrow>
               and_then
                 (call (build (px_destination p) (px_path p) (px_interface p) m body) (px_timeout p) w)
                 (from_value cs de)))"

definition proxy_call_confidential ::
  "'w bus_caller \<Rightarrow> client_serde \<Rightarrow> (json \<Rightarrow> 'r option) \<Rightarrow> proxy \<Rightarrow> string \<Rightarrow> json result \<Rightarrow> 'w \<Rightarrow> 'r result \<times> 'w" where
  "proxy_call_confidential = proxy_raw confidential_call"

definition proxy_call_sensitive ::
  "'w bus_caller \<Rightarrow> client_serde \<Rightarrow> (json \<Rightarrow> 'r option) \<Rightarrow> proxy \<Rightarrow> string \<Rightarrow> json result \<Rightarrow> 'w \<Rightarrow> 'r result \<times> 'w" where
  "proxy_call_sensitive = proxy_raw sensitive_control_call"

definition proxy_attestation ::
  "'w bus_caller \<Rightarrow> client_serde \<Rightarrow> api_serde \<Rightarrow> proxy \<Rightarrow> 'w \<Rightarrow> attestation option result \<times> 'w" where
  "proxy_attestation call cs api p = conn_attestation call cs api (px_destination p)"

definition is_available :: "'w bus_caller \<Rightarrow> client_serde \<Rightarrow> proxy \<Rightarrow> 'w \<Rightarrow> bool result \<times> 'w" where
  "is_available call cs p w =
     and_then (conn_name_owner call cs (bus_str (px_destination p)) w) (\<lambda>ow. Inr (ow \<noteq> None))"

definition proxy_rule :: "match_rule \<Rightarrow> proxy \<Rightarrow> member_name \<Rightarrow> match_rule" where
  "proxy_rule rule p m =
     rule \<lparr> r_interface := Some (px_interface p), r_member := Some m, r_path_namespace := Some (px_path p) \<rparr>"

definition receive_signal :: "'w bus_caller \<Rightarrow> proxy \<Rightarrow> string \<Rightarrow> 'w \<Rightarrow> unit result \<times> 'w" where
  "receive_signal call p member w =
     (case MemberName_new member of
        Inl e \<Rightarrow> (Inl e, w)
      | Inr m \<Rightarrow> conn_add_match call (proxy_rule (rule_signals MatchRule_new) p m) w)"

definition receive_directed_signal :: "'w bus_caller \<Rightarrow> proxy \<Rightarrow> string \<Rightarrow> 'w \<Rightarrow> unit result \<times> 'w" where
  "receive_directed_signal call p member w =
     (case MemberName_new member of
        Inl e \<Rightarrow> (Inl e, w)
      | Inr m \<Rightarrow> conn_add_match call (proxy_rule (rule_directed_signals MatchRule_new) p m) w)"

end
