(* ===== verification/BusClientProps.thy ===== *)
theory BusClientProps
  imports BusClient BrokerProps ConnectionProps
begin

text \<open>
  The client API against the broker's bus interface: what each call of a connection comes to when
  the broker serves it, request to reply.
\<close>

section \<open>One call served by the bus\<close>

text \<open>
  A call of an attached peer, routed, answered and its changes announced, with room in the peer's
  queue and nothing in between. The caller rebuilds an error from the reply.
\<close>

definition bus_answer ::
  "'h module_control \<Rightarrow> serde \<Rightarrow> client_serde \<Rightarrow> nat \<Rightarrow> bus_name \<Rightarrow> 'h broker bus_caller" where
  "bus_answer mc sd cs i n msg timeout b =
     (case route mc sd i n msg b of
        (Finished (Inl e), b') \<Rightarrow> (Inl (into_error (cs_text cs) (unroutable_reply (m_header msg) e)), b')
      | (Finished (Inr _), b') \<Rightarrow> (Inl ConnectionClosed, b')
      | (Sending c reply k, b') \<Rightarrow>
          (map_sum id m_body (reply_result cs reply), snd (continue_route True k b')))"

definition crossed_error :: "client_serde \<Rightarrow> error \<Rightarrow> error" where
  "crossed_error cs e = into_error (cs_text cs) (error_reply (refused_call 0) e)"

definition api_ok :: "serde \<Rightarrow> api_serde \<Rightarrow> bool" where
  "api_ok sd api \<longleftrightarrow>
     (\<forall>m. de_manifest sd (as_to_manifest api m) = Some m \<and> as_manifest api (se_manifest sd m) = Some m \<and>
        se_manifest sd m \<noteq> JNull) \<and>
     (\<forall>a. as_attestation api (se_attestation (Some a)) = Some a) \<and>
     (\<forall>p. as_peer api (se_peer_record sd p) = Some p)"

definition served_peer :: "nat \<Rightarrow> bus_name \<Rightarrow> 'h broker \<Rightarrow> bool" where
  "served_peer i n b \<longleftrightarrow> router_wf (bk_router b) \<and> ensure_peer_attached (bk_router b) i n = Inr ()"

lemma crossed [simp]:
  "into_error (cs_text cs) (error_reply h e) = crossed_error cs e"
  "into_error (cs_text cs) (unroutable_reply h e) = crossed_error cs e"
  by (simp_all add: crossed_error_def into_error_def error_reply_def unroutable_reply_def stamp_def Let_def)

lemma served_names:
  assumes "served_peer i n b"
  shows "n = unique_name i" "hget (rt_names (bk_router b)) n = Some i" "hget (rt_peers (bk_router b)) i \<noteq> None"
  using assms wf_tables [of "bk_router b"] tables_peer(1) [of "bk_router b" i]
  by (auto simp: served_peer_def ensure_peer_attached_def split: if_splits option.splits)

lemma resolves_iff: "(\<exists>c. resolve r n = Inr c) \<longleftrightarrow> (\<exists>i p. hget (rt_names r) n = Some i \<and> hget (rt_peers r) i = Some p)"
  by (auto simp: resolve_def split: option.split)

lemma resolves_wf: "router_wf r \<Longrightarrow> hget (rt_names r) n = Some i \<Longrightarrow> \<exists>c. resolve r n = Inr c"
  using tables_name(1) [OF wf_tables] resolves_iff by blast

lemma request_keeps: "hget (rt_names r) n = Some i \<Longrightarrow> \<exists>j. hget (rt_names (snd (request_name k m r))) n = Some j"
  by (auto simp: request_name_def Let_def hm.get_put split: option.split sum.split)

lemma release_keeps: "is_unique n \<Longrightarrow> hget (rt_names r) n = Some i \<Longrightarrow> hget (rt_names (snd (release_name k m r))) n = Some i"
  by (auto simp: release_name_def Let_def hm.get_del split: option.split sum.split)

lemma named_updates:
  "rt_names (set_manifest i m r) = rt_names r" "rt_names (add_match i rule r) = rt_names r"
  "rt_names (remove_match i rule r) = rt_names r"
  by (simp_all add: set_manifest_def add_match_def remove_match_def)

lemma table_method_router:
  assumes "P r" and "\<And>x. P (snd (request_name i x r))" and "\<And>x. P (snd (release_name i x r))"
    and "\<And>m. P (set_manifest i m r)" and "\<And>q. P (add_match i q r)" and "\<And>q. P (remove_match i q r)"
  shows "P (snd (snd (table_method sd bid i n member body r)))"
  using assms unfolding table_method_def Let_def by (auto simp: snd_map3 split: sum.split)

lemma error_reply_kind [simp]: "h_kind (m_header (error_reply h e)) = ErrorKind"
  by (simp add: error_reply_def)

lemma table_method_resolves:
  assumes "served_peer i n b"
  shows "\<exists>c. resolve (snd (snd (table_method sd bid i n member body (bk_router b)))) n = Inr c"
proof -
  note s = served_names [OF assms]
  have wf: "router_wf (snd (snd (table_method sd bid i n member body (bk_router b))))"
    by (rule table_method_wf) (use assms s in \<open>auto simp: served_peer_def\<close>)
  have u: "is_unique n" using s(1) by simp
  have "hget (rt_names (snd (snd (table_method sd bid i n member body (bk_router b))))) n \<noteq> None"
    by (rule table_method_router) (use s(2) request_keeps [OF s(2)] release_keeps [OF u s(2)] in \<open>auto simp: named_updates\<close>)
  then show ?thesis using resolves_wf [OF wf] by blast
qed

lemma route_to_bus:
  assumes "m_header msg = (m_header (bus_message member args)) \<lparr> h_sensitive := s \<rparr>"
    and "s \<Longrightarrow> member \<in> set reserved_for_sensitive"
  shows "route mc sd i n msg b = handle_bus_call mc sd i n (stamp n msg) b"
  using assms
  by (auto simp: route_def Let_def validate_def bus_message_def method_call_def stamp_def)

lemma bus_answer_method:
  assumes "m_header msg = (m_header (bus_message member args)) \<lparr> h_sensitive := s \<rparr>" and "m_body msg = args"
    and "s \<Longrightarrow> member \<in> set reserved_for_sensitive"
    and "bus_method mc sd i n (MemberName member) args b = ((result, changes, states), b')"
    and "resolve (bk_router b') n = Inr c"
  shows "bus_answer mc sd cs i n msg timeout b =
    (map_sum (crossed_error cs) id result, fold announce_module_state states (announce_changes changes b'))"
proof -
  have m: "h_member (m_header (stamp n msg)) = Some (MemberName member)" "m_body (stamp n msg) = args"
    using assms(1,2) by (simp_all add: stamp_def bus_message_def method_call_def)
  show ?thesis
    using assms(4,5) m route_to_bus [OF assms(1,3), where mc = mc and sd = sd and i = i and n = n and b = b]
    by (cases result)
      (auto simp: bus_answer_def handle_bus_call_def reply_result_def continue_route_def method_return_def Let_def)
qed


lemma bus_answer_table:
  assumes "served_peer i n b" and "module_member_of m = None" and "m \<noteq> ''ResolveCallTarget''"
  shows "bus_answer mc sd cs i n (bus_message m args) t b =
    (case table_method sd (bk_id b) i n (MemberName m) args (bk_router b) of
       (result, changes, r') \<Rightarrow>
         (map_sum (crossed_error cs) id result, announce_changes changes (b \<lparr> bk_router := r' \<rparr>)))"
proof -
  obtain result changes r' where t: "table_method sd (bk_id b) i n (MemberName m) args (bk_router b) = (result, changes, r')"
    by (metis prod_cases3)
  obtain c where c: "resolve r' n = Inr c"
    using table_method_resolves [OF assms(1), of sd "bk_id b" "MemberName m" args] t by auto
  have e: "ensure_peer_attached (bk_router b) i n = Inr ()" using assms(1) by (simp add: served_peer_def)
  have m: "bus_method mc sd i n (MemberName m) args b = ((result, changes, []), b \<lparr> bk_router := r' \<rparr>)"
    using assms(2,3) t e by (simp add: bus_method_def module_method_def)
  have "m_header (bus_message m args) = m_header (bus_message m args) \<lparr> h_sensitive := False \<rparr>"
    "m_body (bus_message m args) = args"
    by (simp_all add: bus_message_def method_call_def)
  from bus_answer_method [OF this _ m] c t show ?thesis by simp
qed

lemma decode_names: "\<forall>n \<in> set ns. busT.valid n \<Longrightarrow> de_all de_name (map (\<lambda>n. JString (bus_str n)) ns) = Some ns"
  by (induction ns) (simp_all add: de_name_def busT.valid_new)

lemma decode_all: "(\<And>x. de (f x) = Some x) \<Longrightarrow> de_all de (map f xs) = Some xs"
  by (induction xs) simp_all

lemma name_args: "BusName_new s = Inr x \<Longrightarrow> BusName_new (bus_str x) = Inr x"
  by (rule busT.valid_new [OF busT.new_valid])

text \<open>Every name in the table is one a client could have parsed.\<close>

definition names_valid :: "router \<Rightarrow> bool" where
  "names_valid r \<longleftrightarrow> (\<forall>n \<in> set (hkeys (rt_names r)). busT.valid n)"

lemma owner_valid: "router_wf r \<Longrightarrow> names_valid r \<Longrightarrow> owner_of r n = Some u \<Longrightarrow> busT.valid u"
proof -
  assume r: "router_wf r" "names_valid r" "owner_of r n = Some u"
  then obtain i p where p: "hget (rt_peers r) i = Some p" "u = p_unique p"
    by (auto simp: owner_of_def bind_eq_Some_conv)
  have "hget (rt_names r) u = Some i" using tables_peer [OF wf_tables [OF r(1)] p(1)] p(2) by simp
  then have "u \<in> set (hkeys (rt_names r))" by (simp only: hkeys_iff) simp
  then show ?thesis using r(2) by (simp only: names_valid_def)
qed


lemmas api_calls = conn_request_name_def conn_release_name_def conn_list_names_def conn_name_owner_def
  conn_name_owner_with_timeout_def conn_attestation_def conn_attestation_with_timeout_def conn_announce_def
  conn_manifest_of_def conn_peers_def conn_add_match_def call_bus_def call_bus_with_timeout_def

text \<open>The table method behind each member.\<close>

lemma table_methods:
  "BusName_new (bus_str x) = Inr x \<Longrightarrow> table_method sd bid i n (MemberName ''RequestName'') (JArray [json_of_name x]) r =
     (case request_name i x r of (Inl e, r') \<Rightarrow> (Inl e, [], r') | (Inr c, r') \<Rightarrow> (Inr (JBool True), [c], r'))"
  "BusName_new (bus_str x) = Inr x \<Longrightarrow> table_method sd bid i n (MemberName ''ReleaseName'') (JArray [json_of_name x]) r =
     (case release_name i x r of (Inl e, r') \<Rightarrow> (Inl e, [], r') | (Inr c, r') \<Rightarrow> (Inr (JBool True), [c], r'))"
  "table_method sd bid i n (MemberName ''ListNames'') (JArray []) r =
     (Inr (JArray (map (\<lambda>n. JString (bus_str n)) (list_names r))), [], r)"
  "BusName_new (bus_str x) = Inr x \<Longrightarrow> table_method sd bid i n (MemberName ''GetNameOwner'') (JArray [json_of_name x]) r =
     (Inr (json_name (owner_of r x)), [], r)"
  "BusName_new (bus_str x) = Inr x \<Longrightarrow> table_method sd bid i n (MemberName ''GetAttestation'') (JArray [json_of_name x]) r =
     (Inr (se_attestation (attestation_of r x)), [], r)"
  "BusName_new (bus_str x) = Inr x \<Longrightarrow> table_method sd bid i n (MemberName ''GetManifest'') (JArray [json_of_name x]) r =
     (Inr (case manifest_of r x of None \<Rightarrow> JNull | Some m \<Rightarrow> se_manifest sd m), [], r)"
  "de_manifest sd v = Some m \<Longrightarrow> table_method sd bid i n (MemberName ''Announce'') (JArray [v]) r =
     (Inr (JBool True), [], set_manifest i m r)"
  "table_method sd bid i n (MemberName ''ListPeers'') (JArray []) r =
     (Inr (JArray (map (se_peer_record sd) (peer_records r))), [], r)"
  "parse_rule t = Inr q \<Longrightarrow> table_method sd bid i n (MemberName ''AddMatch'') (JArray [JString t]) r =
     (Inr JNull, [], add_match i q r)"
  by (simp_all add: table_method_def parse_name_arg_def parse_string_arg_def parse_manifest_arg_def json_of_name_def)


lemma announce_none [simp]: "announce_changes [] b = b"
  by (simp add: announce_changes_def)

lemma table_members [simp]:
  "module_member_of ''RequestName'' = None" "module_member_of ''ReleaseName'' = None"
  "module_member_of ''ListNames'' = None" "module_member_of ''GetNameOwner'' = None"
  "module_member_of ''GetAttestation'' = None" "module_member_of ''GetManifest'' = None"
  "module_member_of ''Announce'' = None" "module_member_of ''ListPeers'' = None"
  "module_member_of ''AddMatch'' = None"
  by (simp_all add: module_member_of_def)

lemma router_unchanged [simp]: "b \<lparr> bk_router := bk_router b \<rparr> = b"
  by simp

lemma owner_decodes:
  assumes "router_wf r" and "names_valid r"
  shows "de_option de_name (json_name (owner_of r x)) = Some (owner_of r x)"
  using busT.valid_new [OF owner_valid [OF assms]]
  by (cases "owner_of r x") (simp_all add: de_option_def json_name_def de_name_def)

lemma list_valid: "names_valid r \<Longrightarrow> \<forall>n \<in> set (list_names r). busT.valid n"
  by (simp add: names_valid_def list_names_def)

lemma attestation_decodes: "api_ok sd api \<Longrightarrow> de_option (as_attestation api) (se_attestation a) = Some a"
  by (cases a) (simp_all add: api_ok_def de_option_def se_attestation_def)

lemma manifest_decodes:
  "api_ok sd api \<Longrightarrow> de_option (as_manifest api) (case m of None \<Rightarrow> JNull | Some x \<Rightarrow> se_manifest sd x) = Some m"
  by (cases m) (simp_all add: api_ok_def de_option_def)

section \<open>Properties\<close>

text \<open>
  The client API is the routing table. When the bus serves an attached peer, each method of
  its connection does what the table operation of that name does, and returns what it returns:
  argument and result survive encoding and decoding, a name that is no name is refused before
  anything is sent, an error comes back as the caller's copy of the broker's, and changes of
  ownership are announced.
\<close>

theorem client_api_is_the_table:
  assumes "served_peer i n b" and "names_valid (bk_router b)" and "api_ok sd api" and "rule_valid rule"
  shows "conn_request_name (bus_answer mc sd cs i n) s b =
      (case BusName_new s of
         Inl e \<Rightarrow> (Inl e, b)
       | Inr x \<Rightarrow>
           (case request_name i x (bk_router b) of
              (Inl e, r') \<Rightarrow> (Inl (crossed_error cs e), b \<lparr> bk_router := r' \<rparr>)
            | (Inr c, r') \<Rightarrow> (Inr (), announce_changes [c] (b \<lparr> bk_router := r' \<rparr>)))) \<and>
    conn_release_name (bus_answer mc sd cs i n) s b =
      (case BusName_new s of
         Inl e \<Rightarrow> (Inl e, b)
       | Inr x \<Rightarrow>
           (case release_name i x (bk_router b) of
              (Inl e, r') \<Rightarrow> (Inl (crossed_error cs e), b \<lparr> bk_router := r' \<rparr>)
            | (Inr c, r') \<Rightarrow> (Inr (), announce_changes [c] (b \<lparr> bk_router := r' \<rparr>)))) \<and>
    conn_list_names (bus_answer mc sd cs i n) cs b = (Inr (list_names (bk_router b)), b) \<and>
    conn_name_owner (bus_answer mc sd cs i n) cs s b =
      (map_sum id (owner_of (bk_router b)) (BusName_new s), b) \<and>
    conn_manifest_of (bus_answer mc sd cs i n) cs api s b =
      (map_sum id (manifest_of (bk_router b)) (BusName_new s), b) \<and>
    (\<forall>x. busT.valid x \<longrightarrow> conn_attestation (bus_answer mc sd cs i n) cs api x b =
      (Inr (attestation_of (bk_router b) x), b)) \<and>
    conn_announce (bus_answer mc sd cs i n) api m b = (Inr (), b \<lparr> bk_router := set_manifest i m (bk_router b) \<rparr>) \<and>
    conn_peers (bus_answer mc sd cs i n) cs api b = (Inr (peer_records (bk_router b)), b) \<and>
    conn_add_match (bus_answer mc sd cs i n) rule b = (Inr (), b \<lparr> bk_router := add_match i rule (bk_router b) \<rparr>)"
proof -
  note answer = bus_answer_table [OF assms(1)]
  have wf: "router_wf (bk_router b)" using assms(1) by (simp add: served_peer_def)
  note decodes = owner_decodes [OF wf assms(2)] attestation_decodes [OF assms(3)] manifest_decodes [OF assms(3)]
    decode_names [OF list_valid [OF assms(2)]]
  have mf: "de_manifest sd (as_to_manifest api m) = Some m" "\<And>p. as_peer api (se_peer_record sd p) = Some p"
    using assms(3) by (simp_all add: api_ok_def)
  note parsed = busT.valid_new name_args parse_rendered [OF assms(4)]
  show ?thesis
    using parsed
    by (intro conjI allI impI)
      (auto simp: api_calls answer table_methods decodes mf decode_all and_then_def from_value_def de_list_def
        split: sum.split prod.split)
qed


text \<open>
  Announced manifests decide who can be required. After a peer announces a manifest, another
  peer that requires an interface of a name it owns gets exactly the verdict of the two-sided
  check of that manifest against its own, an incompatibility as an error that carries the
  verdict; a name whose owner announced nothing is accepted.
\<close>

theorem announcements_decide_requirements:
  assumes "served_peer i n b" and "served_peer j m b" and "names_valid (bk_router b)" and "api_ok sd api"
    and "BusName_new d = Inr x" and "InterfaceName_new s = Inr f"
    and "b' = snd (conn_announce (bus_answer mc sd cs j m) api mf b)"
  shows "conn_require (bus_answer mc sd cs i n) cs api d s own b' =
    ((case (if owner_of (bk_router b) x = Some m then Some mf else manifest_of (bk_router b) x) of
        None \<Rightarrow> Inr ()
      | Some pm \<Rightarrow>
          if is_compatible (check_versions pm own f) then Inr ()
          else Inl (IncompatibleVersion d s (compatibility_display (check_versions pm own f)))), b')"
proof -
  let ?r = "bk_router b"
  have mf: "de_manifest sd (as_to_manifest api mf) = Some mf" using assms(4) by (simp add: api_ok_def)
  have b': "b' = b \<lparr> bk_router := set_manifest j mf ?r \<rparr>"
    using assms(7) mf by (simp add: api_calls bus_answer_table [OF assms(2)] table_methods and_then_def)
  have wf: "router_wf ?r" using assms(1) by (simp add: served_peer_def)
  have served: "served_peer i n b'"
    using assms(1) wf_peer_updates(1) [OF wf] b'
    by (auto simp: served_peer_def ensure_peer_attached_def set_manifest_def update_peer_def hm.get_put
        split: option.splits if_splits)
  have own: "owner_of ?r x = Some m \<longleftrightarrow> hget (rt_names ?r) x = Some j"
    using served_names(1) [OF assms(2)] by (auto simp: owner_eq [OF wf_tables [OF wf]])
  have "manifest_of (set_manifest j mf ?r) x =
      (if owner_of ?r x = Some m then Some mf else manifest_of ?r x)"
    using served_names(3) [OF assms(2)] unfolding own
    by (cases "hget (rt_names ?r) x") (auto simp: manifest_of_def set_manifest_def update_peer_def hm.get_put split: option.splits)
  then show ?thesis
    using bus_answer_table [OF served] name_args [OF assms(5)] b' assms(5,6) manifest_decodes [OF assms(4)]
    by (simp add: conn_require_def conn_compatibility_def api_calls table_methods and_then_def from_value_def
        split: option.split)
qed


section \<open>Module control\<close>

lemmas module_calls = conn_list_modules_def conn_module_def conn_load_module_def conn_load_github_module_def
  conn_reinitialize_module_def conn_stop_module_def conn_enable_module_def conn_scan_modules_def
  call_bus_def call_bus_sensitive_def

lemma bus_answer_module:
  assumes "served_peer i n b" and "module_member_of m = Some mm" and "control_admits b n mm" and "bk_host b = Some h"
    and "run_module_member mc sd h mm (MemberName m) args b = ((result, states), b')"
    and "resolve (bk_router b') n = Inr c"
  shows "m \<in> set reserved_for_sensitive \<Longrightarrow>
      bus_answer mc sd cs i n (sensitive_control_call BUS_NAME BUS_PATH BUS_INTERFACE (MemberName m) args) t b =
        (map_sum (crossed_error cs) id result, fold announce_module_state states b')"
    and "bus_answer mc sd cs i n (bus_message m args) t b =
        (map_sum (crossed_error cs) id result, fold announce_module_state states b')"
proof -
  have "ensure_peer_attached (bk_router b) i n = Inr ()" using assms(1) by (simp add: served_peer_def)
  then have bm: "bus_method mc sd i n (MemberName m) args b = ((result, [], states), b')"
    using assms(2-5) by (simp add: bus_method_def module_method_def)
  have h: "m_header (bus_message m args) = m_header (bus_message m args) \<lparr> h_sensitive := False \<rparr>"
    "m_header (sensitive_control_call BUS_NAME BUS_PATH BUS_INTERFACE (MemberName m) args) =
      m_header (bus_message m args) \<lparr> h_sensitive := True \<rparr>"
    "m_body (bus_message m args) = args"
    "m_body (sensitive_control_call BUS_NAME BUS_PATH BUS_INTERFACE (MemberName m) args) = args"
    by (simp_all add: bus_message_def sensitive_control_call_def method_call_def Let_def)
  show "m \<in> set reserved_for_sensitive \<Longrightarrow>
      bus_answer mc sd cs i n (sensitive_control_call BUS_NAME BUS_PATH BUS_INTERFACE (MemberName m) args) t b =
        (map_sum (crossed_error cs) id result, fold announce_module_state states b')"
    using bus_answer_method [OF h(2,4) _ bm assms(6)] by simp
  show "bus_answer mc sd cs i n (bus_message m args) t b =
        (map_sum (crossed_error cs) id result, fold announce_module_state states b')"
    using bus_answer_method [OF h(1,3) _ bm assms(6)] by simp
qed

lemma module_members [simp]:
  "module_member_of ''ListModules'' = Some ModList" "module_member_of ''GetModule'' = Some ModGet"
  "module_member_of ''LoadModule'' = Some ModLoad" "module_member_of ''LoadGithubModule'' = Some ModLoadGithub"
  "module_member_of ''ReinitializeModule'' = Some ModReinitialize" "module_member_of ''StopModule'' = Some ModStop"
  "module_member_of ''EnableModule'' = Some ModEnable" "module_member_of ''RescanModules'' = Some ModRescan"
  by (simp_all add: module_member_of_def)

lemma json_strings_map [simp]: "json_strings (map JString ps) = Some ps"
  by (induction ps) simp_all

text \<open>What the host's answers become for the caller.\<close>

definition info_answer ::
  "client_serde \<Rightarrow> (json \<Rightarrow> 'm option) \<Rightarrow> (module_info \<times> transition option) result \<times> 'h broker \<Rightarrow>
   'm result \<times> 'h broker" where
  "info_answer cs de r =
     (case r of
        (Inl e, b) \<Rightarrow> (Inl (crossed_error cs e), b)
      | (Inr (x, t), b) \<Rightarrow> (from_value cs de (mi_json x),
          fold announce_module_state (map module_state_body (case t of None \<Rightarrow> [] | Some y \<Rightarrow> [y])) b))"

text \<open>The host leaves the caller attached and its outbox reachable.\<close>

definition stays :: "bus_name \<Rightarrow> 'r \<times> 'h broker \<Rightarrow> bool" where
  "stays n r \<longleftrightarrow> (\<exists>c. resolve (bk_router (snd r)) n = Inr c)"


lemma info_calls:
  assumes "\<And>result states b' c. f b = ((result, states), b') \<Longrightarrow> resolve (bk_router b') n = Inr c \<Longrightarrow>
      got = (map_sum (crossed_error cs) id result, fold announce_module_state states b')"
    and "f b = info_outcome r" and "stays n r"
  shows "and_then got (from_value cs de) = info_answer cs de r"
  using assms by (cases r; cases "fst r")
    (auto simp: and_then_def info_outcome_def info_answer_def stays_def split: option.split)

lemma plain_calls:
  assumes "\<And>result states b' c. f b = ((result, states), b') \<Longrightarrow> resolve (bk_router b') n = Inr c \<Longrightarrow>
      got = (map_sum (crossed_error cs) id result, fold announce_module_state states b')"
    and "f b = (case r of (x, b') \<Rightarrow> ((map_sum id mi_json x, []), b'))" and "stays n r"
  shows "and_then got (from_value cs de) =
    (case r of (Inl e, b') \<Rightarrow> (Inl (crossed_error cs e), b') | (Inr x, b') \<Rightarrow> (from_value cs de (mi_json x), b'))"
  using assms by (cases r; cases "fst r") (auto simp: and_then_def stays_def)

text \<open>
  Module control reaches the host as asked. For a caller the control gate admits, every module
  method of the client is the host operation of that name, run once with exactly the caller's
  arguments (a deadline as its low 64 bits of milliseconds), its result handed back as the
  caller decodes it and its lifecycle transitions announced in order, as long as the caller is
  still attached when it ends.
\<close>

theorem module_api_reaches_the_host:
  assumes "served_peer i n b" and "bk_controller b = None \<or> bk_controller b = Some (Selected n)"
    and "bk_host b = Some h"
  shows "conn_list_modules (bus_answer mc sd cs i n) cs de b =
      (from_value cs (de_list de) (JArray (map mi_json (mc_list mc h))), b) \<and>
    conn_module (bus_answer mc sd cs i n) cs de s b =
      (from_value cs (de_option de) (case find_module s (mc_list mc h) of None \<Rightarrow> JNull | Some x \<Rightarrow> mi_json x), b) \<and>
    (stays n (mc_load mc s config b) \<longrightarrow>
      conn_load_module (bus_answer mc sd cs i n) cs de s config b = info_answer cs de (mc_load mc s config b)) \<and>
    (stays n (mc_load_github mc url asset sha config b) \<longrightarrow>
      conn_load_github_module (bus_answer mc sd cs i n) cs de url asset sha config b =
        info_answer cs de (mc_load_github mc url asset sha config b)) \<and>
    (stays n (mc_enable mc s on b) \<longrightarrow>
      conn_enable_module (bus_answer mc sd cs i n) cs de s on b = info_answer cs de (mc_enable mc s on b)) \<and>
    (stays n (mc_reinitialize mc s config b) \<longrightarrow>
      conn_reinitialize_module (bus_answer mc sd cs i n) cs de s config b =
        (case mc_reinitialize mc s config b of
           (Inl e, b') \<Rightarrow> (Inl (crossed_error cs e), b') | (Inr x, b') \<Rightarrow> (from_value cs de (mi_json x), b'))) \<and>
    (stays n (mc_stop mc s (deadline mod 2 ^ 64) b) \<longrightarrow>
      conn_stop_module (bus_answer mc sd cs i n) cs de s deadline b =
        (case mc_stop mc s (deadline mod 2 ^ 64) b of
           (Inl e, b') \<Rightarrow> (Inl (crossed_error cs e), b') | (Inr x, b') \<Rightarrow> (from_value cs de (mi_json x), b'))) \<and>
    (stays n (mc_rescan mc paths dry b) \<longrightarrow>
      conn_scan_modules (bus_answer mc sd cs i n) cs de paths dry b =
        (case mc_rescan mc paths dry b of
           (Inl e, b') \<Rightarrow> (Inl (crossed_error cs e), b')
         | (Inr (infos, ts), b') \<Rightarrow>
             (from_value cs (de_list de) (JArray (map mi_json infos)),
              fold announce_module_state (map module_state_body ts) b')))"
proof -
  have gate: "control_admits b n mm" for mm using assms(2) by (auto simp: control_admits_def)
  note plain = bus_answer_module(2) [OF assms(1) _ gate assms(3)]
  note quiet = bus_answer_module(1) [OF assms(1) _ gate assms(3)]
  obtain c where c: "resolve (bk_router b) n = Inr c"
    using resolves_wf [of "bk_router b" n] served_names(2) [OF assms(1)] assms(1) by (auto simp: served_peer_def)
  note rules = run_module_member_def reserved_for_sensitive_def load_args_def rescan_args_def json_u64_show parse_string_arg_def
  have "stays n (mc_load mc s config b) \<Longrightarrow> conn_load_module (bus_answer mc sd cs i n) cs de s config b = info_answer cs de (mc_load mc s config b)"
    unfolding module_calls
    by (rule info_calls [where f = "run_module_member mc sd h ModLoad (MemberName ''LoadModule'') (JArray [JString s, config])"])
      (auto simp: rules intro: quiet)
  moreover have "stays n (mc_load_github mc url asset sha config b) \<Longrightarrow> conn_load_github_module (bus_answer mc sd cs i n) cs de url asset sha config b = info_answer cs de (mc_load_github mc url asset sha config b)"
    unfolding module_calls
    by (rule info_calls [where f = "run_module_member mc sd h ModLoadGithub (MemberName ''LoadGithubModule'') (JArray [JString url, JString asset, JString sha, config])"])
      (auto simp: rules intro: quiet)
  moreover have "stays n (mc_enable mc s on b) \<Longrightarrow> conn_enable_module (bus_answer mc sd cs i n) cs de s on b = info_answer cs de (mc_enable mc s on b)"
    unfolding module_calls
    by (rule info_calls [where f = "run_module_member mc sd h ModEnable (MemberName ''EnableModule'') (JArray [JString s, JBool on])"])
      (auto simp: rules intro: plain)
  moreover have "stays n (mc_reinitialize mc s config b) \<Longrightarrow> conn_reinitialize_module (bus_answer mc sd cs i n) cs de s config b = (case mc_reinitialize mc s config b of
           (Inl e, b') \<Rightarrow> (Inl (crossed_error cs e), b') | (Inr x, b') \<Rightarrow> (from_value cs de (mi_json x), b'))"
    unfolding module_calls
    by (rule plain_calls [where f = "run_module_member mc sd h ModReinitialize (MemberName ''ReinitializeModule'') (JArray [JString s, config])"])
      (auto simp: rules intro: quiet)
  moreover have "stays n (mc_stop mc s (deadline mod 2 ^ 64) b) \<Longrightarrow> conn_stop_module (bus_answer mc sd cs i n) cs de s deadline b = (case mc_stop mc s (deadline mod 2 ^ 64) b of
           (Inl e, b') \<Rightarrow> (Inl (crossed_error cs e), b') | (Inr x, b') \<Rightarrow> (from_value cs de (mi_json x), b'))"
    unfolding module_calls
    by (rule plain_calls [where f = "run_module_member mc sd h ModStop (MemberName ''StopModule'') (JArray [JString s, JNumber (show_nat (deadline mod 2 ^ 64))])"])
      (auto simp: rules intro: plain)
  moreover have "stays n (mc_rescan mc paths dry b) \<Longrightarrow> conn_scan_modules (bus_answer mc sd cs i n) cs de paths dry b =
      (case mc_rescan mc paths dry b of
         (Inl e, b') \<Rightarrow> (Inl (crossed_error cs e), b')
       | (Inr (infos, ts), b') \<Rightarrow>
           (from_value cs (de_list de) (JArray (map mi_json infos)), fold announce_module_state (map module_state_body ts) b'))"
    by (cases "mc_rescan mc paths dry b"; cases "fst (mc_rescan mc paths dry b)")
      (auto simp: rules module_calls plain stays_def and_then_def)
  moreover have "conn_list_modules (bus_answer mc sd cs i n) cs de b =
      (from_value cs (de_list de) (JArray (map mi_json (mc_list mc h))), b)"
    using c by (simp add: rules module_calls plain and_then_def)
  moreover have "conn_module (bus_answer mc sd cs i n) cs de s b =
      (from_value cs (de_option de) (case find_module s (mc_list mc h) of None \<Rightarrow> JNull | Some x \<Rightarrow> mi_json x), b)"
    using c by (simp add: rules module_calls plain and_then_def)
  ultimately show ?thesis by simp
qed

section \<open>Witnesses\<close>

text \<open>A codec for the records serde derives.\<close>

definition enc_opt :: "('a \<Rightarrow> json) \<Rightarrow> 'a option \<Rightarrow> json" where
  "enc_opt f x = (case x of None \<Rightarrow> JNull | Some y \<Rightarrow> JArray [f y])"

definition dec_opt :: "(json \<Rightarrow> 'a option) \<Rightarrow> json \<Rightarrow> 'a option option" where
  "dec_opt g v = (case v of JNull \<Rightarrow> Some None | JArray [w] \<Rightarrow> map_option Some (g w) | _ \<Rightarrow> None)"

definition dec_string :: "json \<Rightarrow> string option" where
  "dec_string v = (case v of JString s \<Rightarrow> Some s | _ \<Rightarrow> None)"

definition dec_number :: "json \<Rightarrow> nat option" where
  "dec_number v = (case v of JNumber s \<Rightarrow> parse_digits s | _ \<Rightarrow> None)"

definition enc_version :: "version \<Rightarrow> json" where
  "enc_version v = JArray [JNumber (show_nat (v_major v)), JNumber (show_nat (v_minor v)),
     JNumber (show_nat (v_patch v)), enc_opt JString (v_tag v)]"

definition dec_version :: "json \<Rightarrow> version option" where
  "dec_version v =
     (case v of
        JArray [a, b, c, t] \<Rightarrow>
          (case (dec_number a, dec_number b, dec_number c, dec_opt dec_string t) of
             (Some a, Some b, Some c, Some t) \<Rightarrow> Some \<lparr> v_major = a, v_minor = b, v_patch = c, v_tag = t \<rparr>
           | _ \<Rightarrow> None)
      | _ \<Rightarrow> None)"

definition enc_interface :: "interface_version \<Rightarrow> json" where
  "enc_interface x = JArray [JString (iface_str (iv_interface x)), enc_version (iv_speaks x),
     enc_version (r_min (iv_accepts x)), enc_opt enc_version (r_max_exclusive (iv_accepts x))]"

definition dec_interface :: "json \<Rightarrow> interface_version option" where
  "dec_interface v =
     (case v of
        JArray [JString s, a, b, c] \<Rightarrow>
          (case (dec_version a, dec_version b, dec_opt dec_version c) of
             (Some a, Some b, Some c) \<Rightarrow>
               Some \<lparr> iv_interface = InterfaceName s, iv_speaks = a, iv_accepts = \<lparr> r_min = b, r_max_exclusive = c \<rparr> \<rparr>
           | _ \<Rightarrow> None)
      | _ \<Rightarrow> None)"

definition enc_manifest :: "peer_manifest \<Rightarrow> json" where
  "enc_manifest m = JArray [JString (pm_name m), enc_opt enc_version (pm_version m),
     JArray (map enc_interface (pm_provides m)), JArray (map enc_interface (pm_consumes m))]"

definition dec_manifest :: "json \<Rightarrow> peer_manifest option" where
  "dec_manifest v =
     (case v of
        JArray [JString s, a, JArray ps, JArray qs] \<Rightarrow>
          (case (dec_opt dec_version a, de_all dec_interface ps, de_all dec_interface qs) of
             (Some a, Some ps, Some qs) \<Rightarrow>
               Some \<lparr> pm_name = s, pm_version = a, pm_provides = ps, pm_consumes = qs \<rparr>
           | _ \<Rightarrow> None)
      | _ \<Rightarrow> None)"

lemma dec_enc_opt [simp]: "(\<And>x. g (f x) = Some x) \<Longrightarrow> dec_opt g (enc_opt f x) = Some x"
  by (cases x) (simp_all add: dec_opt_def enc_opt_def)

lemma dec_enc [simp]:
  "dec_string (JString s) = Some s" "dec_number (JNumber (show_nat k)) = Some k"
  "dec_version (enc_version v) = Some v" "dec_interface (enc_interface x) = Some x"
  "dec_manifest (enc_manifest m) = Some m" "enc_manifest m \<noteq> JNull"
proof -
  show s: "dec_string (JString s) = Some s" for s by (simp add: dec_string_def)
  show k: "dec_number (JNumber (show_nat k)) = Some k" for k by (simp add: dec_number_def)
  show v: "dec_version (enc_version v) = Some v" for v by (simp add: dec_version_def enc_version_def s k)
  show i: "dec_interface (enc_interface x) = Some x" for x
    by (cases "iv_interface x") (simp add: dec_interface_def enc_interface_def v)
  show "dec_manifest (enc_manifest m) = Some m" by (simp add: dec_manifest_def enc_manifest_def decode_all i v)
  show "enc_manifest m \<noteq> JNull" by (simp add: enc_manifest_def)
qed

definition sample_serde :: serde where
  "sample_serde = \<lparr> de_manifest = dec_manifest, se_manifest = enc_manifest, de_error = (\<lambda>_. ''bad'') \<rparr>"

definition sample_api :: api_serde where
  "sample_api = \<lparr> as_manifest = dec_manifest, as_to_manifest = enc_manifest,
     as_attestation = (\<lambda>v. case v of
        JObject [(_, JString n), (_, JString s)] \<Rightarrow>
          Some \<lparr> att_name = BusName n, att_sha256 = s, att_library_sha256 = None \<rparr>
      | JObject [(_, JString n), (_, JString s), (_, JString l)] \<Rightarrow>
          Some \<lparr> att_name = BusName n, att_sha256 = s, att_library_sha256 = Some l \<rparr>
      | _ \<Rightarrow> None),
     as_peer = (\<lambda>v. case v of
        JObject [(_, JString n), (_, JArray ns), (_, m)] \<Rightarrow>
          (case (de_all (\<lambda>v. map_option BusName (dec_string v)) ns, dec_manifest m) of
             (Some ns, Some m) \<Rightarrow> Some \<lparr> pr_peer = BusName n, pr_names = ns, pr_manifest = m \<rparr>
           | _ \<Rightarrow> None)
      | _ \<Rightarrow> None) \<rparr>"

lemma bus_name_str [simp]: "BusName (bus_str n) = n"
  by (cases n) simp

lemma sample_api_ok: "api_ok sample_serde sample_api"
  by (simp add: api_ok_def sample_serde_def sample_api_def se_attestation_def se_peer_record_def decode_all
      split: option.split)

lemma pair_served: "served_peer 1 (unique_name 1) pair" "served_peer 2 (unique_name 2) pair" "names_valid (bk_router pair)"
proof -
  have "bk_router pair = table_after [Attach 0, Attach 1] idle_cells"
    by (simp add: pair_eq broker_new_def table_after_def attach_def Let_def plain_peer_def router_default_def)
  then have "router_wf (bk_router pair)" using wf_after by simp
  moreover have "unique_name 2 \<noteq> unique_name 1" by code_simp
  ultimately show "served_peer 1 (unique_name 1) pair" "served_peer 2 (unique_name 2) pair"
    by (simp_all add: served_peer_def ensure_peer_attached_def pair_eq plain_peer_def)
  have "BusName_new (bus_str (unique_name 1)) = Inr (unique_name 1)" "BusName_new (bus_str (unique_name 2)) = Inr (unique_name 2)"
    by code_simp+
  then show "names_valid (bk_router pair)" by (simp add: names_valid_def pair_eq busT.valid_def)
qed

abbreviation pair_bus :: "nat \<Rightarrow> unit broker bus_caller" where
  "pair_bus i \<equiv> bus_answer null_host sample_serde any_client i (unique_name i)"

lemma client_api_is_the_table_witness:
  "conn_name_owner (pair_bus 1) any_client ''a.b'' pair = (Inr None, pair) \<and>
   conn_list_names (pair_bus 1) any_client pair = (Inr (list_names (bk_router pair)), pair)"
proof -
  have "rule_valid MatchRule_new" by (simp add: rule_valid_def MatchRule_new_def)
  moreover have "BusName_new ''a.b'' = Inr (BusName ''a.b'')" by code_simp
  moreover have "owner_of (bk_router pair) (BusName ''a.b'') = None"
    by (simp add: owner_of_def pair_eq unique_name_def)
  ultimately show ?thesis
    using client_api_is_the_table [OF pair_served(1,3) sample_api_ok, of MatchRule_new null_host any_client "''a.b''"] by simp
qed

lemma announcements_decide_requirements_witness:
  "fst (conn_require (pair_bus 1) any_client sample_api '':1.2'' ''a.b'' (manifest_new ''me'')
      (snd (conn_announce (pair_bus 2) sample_api (manifest_new ''you'') pair))) =
   Inl (IncompatibleVersion '':1.2'' ''a.b'' (compatibility_display NotProvided))"
proof -
  have "BusName_new '':1.2'' = Inr (unique_name 2)" "InterfaceName_new ''a.b'' = Inr (InterfaceName ''a.b'')" by code_simp+
  moreover have "unique_name 1 \<noteq> unique_name 2" by code_simp
  then have "owner_of (bk_router pair) (unique_name 2) = Some (unique_name 2)"
    by (simp add: owner_of_def pair_eq plain_peer_def)
  moreover have "check_versions (manifest_new ''you'') (manifest_new ''me'') (InterfaceName ''a.b'') = NotProvided"
    by (simp add: check_versions_def manifest_new_def pm_provided_def)
  ultimately show ?thesis
    using announcements_decide_requirements [OF pair_served sample_api_ok _ _ refl, of "'':1.2''" "unique_name 2" "''a.b''"
        "InterfaceName ''a.b''" null_host any_client "manifest_new ''me''" "manifest_new ''you''"] by simp
qed


definition hosted :: "unit broker" where
  "hosted = pair \<lparr> bk_host := Some () \<rparr>"

lemma module_api_reaches_the_host_witness:
  "conn_load_module (pair_bus 1) any_client dec_string ''m.so'' JNull hosted =
     (Inl (crossed_error any_client (failed ''no'')), hosted) \<and>
   fst (conn_list_modules (pair_bus 1) any_client dec_string hosted) = Inr []"
proof -
  have served: "served_peer 1 (unique_name 1) hosted"
    using pair_served(1) by (simp add: served_peer_def hosted_def)
  have open_gate: "bk_controller hosted = None" "bk_host hosted = Some ()"
    by (simp_all add: hosted_def pair_eq broker_new_def)
  have "hget (rt_names (bk_router hosted)) (unique_name 1) = Some 1" using served_names(2) [OF served] .
  then have "\<exists>c. resolve (bk_router hosted) (unique_name 1) = Inr c"
    using served by (intro resolves_wf) (simp_all add: served_peer_def)
  then have "stays (unique_name 1) (mc_load null_host ''m.so'' JNull hosted)"
    by (simp add: stays_def null_host_def)
  then show ?thesis
    using module_api_reaches_the_host [OF served _ open_gate(2), of null_host sample_serde any_client dec_string "''m.so''" JNull]
      open_gate(1)
    by (simp add: null_host_def info_answer_def from_value_def de_list_def)
qed

end
