(* ===== verification/StreamReplies.thy ===== *)
theory StreamReplies
  imports BusClientProps StreamProps
begin

text \<open>
  Replies too big for a frame (\<open>connection.rs\<close>): the callee counts the encoded result, opens a
  stream to the caller, sends its handle as the reply and writes the result through it; the
  caller claims the stream named in the reply and reads it to its declared length.

  serde's \<open>to_writer\<close> is the sequence of writes it makes (\<open>rs_pieces\<close>); the JSON of handles and
  descriptors and the decoders are arguments. The encoder runs beside the writer over a channel of
  one chunk; only the order of its chunks matters, so it runs first here.
\<close>

section \<open>Definitions\<close>

definition STREAM_REPLY_ENCODE_CHUNK :: nat where
  "STREAM_REPLY_ENCODE_CHUNK = 16 * 1024"

record 'r reply_serde =
  rs_pieces :: "json \<Rightarrow> bytes list"
  rs_ref :: "stream_ref \<Rightarrow> json"
  rs_descriptor :: "stream_descriptor \<Rightarrow> json"
  rs_envelope :: "json \<Rightarrow> stream_ref option"
  rs_value :: "json \<Rightarrow> 'r option"
  rs_slice :: "bytes \<Rightarrow> 'r option"
  rs_slice_error :: "bytes \<Rightarrow> string"

definition counting_write :: "bytes \<Rightarrow> nat \<Rightarrow> nat result" where
  "counting_write bs n =
     (if n + length bs < 2 ^ 64 then Inr (n + length bs) else Inl (Io ''streamed reply length overflow''))"

fun count_pieces :: "bytes list \<Rightarrow> nat \<Rightarrow> nat result" where
  "count_pieces [] n = Inr n"
| "count_pieces (p # ps) n = (case counting_write p n of Inl e \<Rightarrow> Inl e | Inr m \<Rightarrow> count_pieces ps m)"

text \<open>The encoder: its buffer, the chunks taken by the channel, whether the other end still listens.\<close>

record encoder =
  en_buffer :: bytes
  en_sent :: "bytes list"
  en_open :: bool

definition encoder_new :: encoder where
  "encoder_new = \<lparr> en_buffer = [], en_sent = [], en_open = True \<rparr>"

definition send_buffer :: "encoder \<Rightarrow> unit result \<times> encoder" where
  "send_buffer en =
     (if en_buffer en = [] then (Inr (), en)
      else if en_open en then (Inr (), en \<lparr> en_sent := en_sent en @ [en_buffer en], en_buffer := [] \<rparr>)
      else (Inl (Io ''stream receiver closed''), en \<lparr> en_buffer := [] \<rparr>))"

text \<open>The loop of \<open>write\<close> makes no progress on a full buffer, so it may not end.\<close>

partial_function (option) encoder_write :: "bytes \<Rightarrow> encoder \<Rightarrow> (unit result \<times> encoder) option" where
  "encoder_write bs en =
     (if bs = [] then Some (Inr (), en)
      else
        (let k = min (STREAM_REPLY_ENCODE_CHUNK - length (en_buffer en)) (length bs);
             en1 = en \<lparr> en_buffer := en_buffer en @ take k bs \<rparr> in
         if length (en_buffer en1) = STREAM_REPLY_ENCODE_CHUNK then
           (case send_buffer en1 of
              (Inl e, en2) \<Rightarrow> Some (Inl e, en2)
            | (Inr _, en2) \<Rightarrow> encoder_write (drop k bs) en2)
         else encoder_write (drop k bs) en1))"

fun encode_pieces :: "bytes list \<Rightarrow> encoder \<Rightarrow> (unit result \<times> encoder) option" where
  "encode_pieces [] en = Some (send_buffer en)"
| "encode_pieces (p # ps) en =
     (case encoder_write p en of
        None \<Rightarrow> None
      | Some (Inl e, en') \<Rightarrow> Some (Inl e, en')
      | Some (Inr _, en') \<Rightarrow> encode_pieces ps en')"

text \<open>\<open>open_stream_with_timeout\<close>: the stream stays with whoever answered.\<close>

definition open_stream_with_timeout ::
  "(string \<Rightarrow> json \<Rightarrow> 's \<Rightarrow> message result \<times> 's) \<Rightarrow> 'r reply_serde \<Rightarrow> client_serde \<Rightarrow> bus_name \<Rightarrow> stream_descriptor \<Rightarrow>
   's \<Rightarrow> stream_writer result \<times> 's" where
  "open_stream_with_timeout call rs cs destination descriptor s =
     and_then (call ''Open'' (JArray [rs_descriptor rs descriptor]) s)
       (\<lambda>reply. case m_body reply of
          JString sid \<Rightarrow>
            Inr (writer_new (case h_sender (m_header reply) of Some n \<Rightarrow> n | None \<Rightarrow> destination) sid descriptor)
        | v \<Rightarrow> Inl (Json (cs_error cs v)))"

definition reply_destination :: "header \<Rightarrow> bus_name result" where
  "reply_destination h =
     (case h_sender h of
        Some n \<Rightarrow> Inr n
      | None \<Rightarrow>
          (case h_destination h of
             Some n \<Rightarrow> Inr n | None \<Rightarrow> Inl (Protocol ''a streamed reply needs a caller'')))"

definition reply_envelope :: "'r reply_serde \<Rightarrow> stream_writer \<Rightarrow> json" where
  "reply_envelope rs w = JObject [(''$tinybus_stream_reply'', rs_ref rs (writer_ref w))]"

text \<open>\<open>send_streamed_reply\<close> up to the reply with the handle.\<close>

definition begin_streamed_reply ::
  "(string \<Rightarrow> json \<Rightarrow> 's \<Rightarrow> message result \<times> 's) \<Rightarrow> 'r reply_serde \<Rightarrow> client_serde \<Rightarrow> header \<Rightarrow> json \<Rightarrow>
   's \<Rightarrow> (stream_writer \<times> json) result \<times> 's" where
  "begin_streamed_reply call rs cs h v s =
     (case reply_destination h of
        Inl e \<Rightarrow> (Inl e, s)
      | Inr destination \<Rightarrow>
          (case count_pieces (rs_pieces rs v) 0 of
             Inl e \<Rightarrow> (Inl e, s)
           | Inr n \<Rightarrow>
               and_then
                 (open_stream_with_timeout call rs cs destination
                    \<lparr> sd_content_type = Some ''application/json'', sd_total_len = Some n \<rparr> s)
                 (\<lambda>w. Inr (w, reply_envelope rs w))))"

text \<open>The chunks of the encoder, until a write fails.\<close>

fun write_encoded :: "'s caller \<Rightarrow> bytes list \<Rightarrow> stream_writer \<times> 's \<Rightarrow> bool \<times> stream_writer \<times> 's" where
  "write_encoded call [] ws = (True, ws)"
| "write_encoded call (c # cs) ws =
     (case write_bytes call c ws of
        (Inl e, ws') \<Rightarrow> (False, ws')
      | (Inr _, ws') \<Rightarrow> write_encoded call cs ws')"

text \<open>
  The rest, given whether the handle was sent: failures of the transfer are not the handler's any
  more, and end with the writer's drop.
\<close>

definition finish_streamed_reply ::
  "'s caller \<Rightarrow> bytes list \<Rightarrow> bool \<Rightarrow> stream_writer \<times> 's \<Rightarrow> (unit result \<times> 's) option" where
  "finish_streamed_reply call pieces handle_sent ws =
     (if \<not> handle_sent then Some (Inr (), writer_drop call ws)
      else (case encode_pieces pieces encoder_new of
          None \<Rightarrow> None
        | Some (encoded, en) \<Rightarrow>
            (case write_encoded call (en_sent en) ws of
               (False, ws') \<Rightarrow> Some (Inr (), writer_drop call ws')
             | (True, ws') \<Rightarrow>
                 (case encoded of
                    Inl e \<Rightarrow> Some (Inl e, writer_drop call ws')
                  | Inr _ \<Rightarrow> Some (Inr (), snd (writer_finish call ws'))))))"

text \<open>\<open>decode_streaming_reply\<close>: an ordinary reply, or the reader and how much it may read.\<close>

datatype 'r streamed = Whole "'r result" | Reading stream_reader nat

definition claim_streamed_reply ::
  "'r reply_serde \<Rightarrow> client_serde \<Rightarrow> json \<Rightarrow> bus_name option \<Rightarrow> registry \<Rightarrow> 'r streamed \<times> registry" where
  "claim_streamed_reply rs cs reply sender reg =
     (case rs_envelope rs reply of
        None \<Rightarrow> (Whole (from_value cs (rs_value rs) reply), reg)
      | Some sref \<Rightarrow>
          (case sf_len sref of
             None \<Rightarrow> (Whole (Inl (Protocol ''a streamed reply must declare its length'')), reg)
           | Some limit \<Rightarrow>
               (case take_reader_from (sf_id sref) sender reg of
                  (Inl e, reg') \<Rightarrow> (Whole (Inl e), reg')
                | (Inr rd, reg') \<Rightarrow> (Reading rd limit, reg'))))"

text \<open>What the read ends with; \<open>None\<close> while it waits.\<close>

definition finish_decode :: "'r reply_serde \<Rightarrow> bytes \<times> read_outcome \<Rightarrow> 'r result option" where
  "finish_decode rs r =
     (case r of
        (bs, ReadEnd) \<Rightarrow>
          Some (case rs_slice rs bs of Some x \<Rightarrow> Inr x | None \<Rightarrow> Inl (Json (rs_slice_error rs bs)))
      | (_, ReadFailed e) \<Rightarrow> Some (Inl e)
      | _ \<Rightarrow> None)"

section \<open>The encoder\<close>

definition encoder_ok :: "encoder \<Rightarrow> bool" where
  "encoder_ok en \<longleftrightarrow>
     en_open en \<and> length (en_buffer en) < STREAM_REPLY_ENCODE_CHUNK \<and>
     (\<forall>c \<in> set (en_sent en). length c = STREAM_REPLY_ENCODE_CHUNK)"

definition encoded_bytes :: "encoder \<Rightarrow> bytes" where
  "encoded_bytes en = concat (en_sent en) @ en_buffer en"

lemma send_full:
  "en_open en \<Longrightarrow> en_buffer en \<noteq> [] \<Longrightarrow>
   send_buffer en = (Inr (), en \<lparr> en_sent := en_sent en @ [en_buffer en], en_buffer := [] \<rparr>)"
  by (simp add: send_buffer_def)

lemma encoder_write_ok:
  "encoder_ok en \<Longrightarrow> \<exists>en'. encoder_write bs en = Some (Inr (), en') \<and> encoder_ok en' \<and>
     encoded_bytes en' = encoded_bytes en @ bs"
proof (induction "length bs" arbitrary: bs en rule: less_induct)
  case less
  show ?case
  proof (cases "bs = []")
    case True
    then show ?thesis using less.prems by (simp add: encoder_write.simps)
  next
    case False
    let ?k = "min (STREAM_REPLY_ENCODE_CHUNK - length (en_buffer en)) (length bs)"
    let ?en = "en \<lparr> en_buffer := en_buffer en @ take ?k bs \<rparr>"
    have k: "0 < ?k" using False less.prems by (simp add: encoder_ok_def)
    then have shorter: "length (drop ?k bs) < length bs" using False by simp
    have full: "length (en_buffer ?en) \<le> STREAM_REPLY_ENCODE_CHUNK" using less.prems by (auto simp: encoder_ok_def min_def)
    have split: "encoded_bytes ?en @ drop ?k bs = encoded_bytes en @ bs" by (simp add: encoded_bytes_def)
    show ?thesis
    proof (cases "length (en_buffer ?en) = STREAM_REPLY_ENCODE_CHUNK")
      case True
      let ?sent = "?en \<lparr> en_sent := en_sent ?en @ [en_buffer ?en], en_buffer := [] \<rparr>"
      have "length (en_buffer ?en) \<noteq> 0" unfolding True by (simp add: STREAM_REPLY_ENCODE_CHUNK_def)
      then have sb: "send_buffer ?en = (Inr (), ?sent)"
        using less.prems by (intro send_full) (simp add: encoder_ok_def, fastforce)
      have "encoder_ok ?sent"
        using less.prems True by (auto simp: encoder_ok_def STREAM_REPLY_ENCODE_CHUNK_def)
      moreover have "encoded_bytes ?sent = encoded_bytes ?en" by (simp add: encoded_bytes_def)
      ultimately show ?thesis
        using less.hyps [OF shorter, of ?sent] False True sb split
        by (simp add: encoder_write.simps [of bs en] Let_def)
    next
      case part: False
      have "encoder_ok ?en" using less.prems part full by (simp add: encoder_ok_def)
      then show ?thesis
        using less.hyps [OF shorter, of ?en] False part split
        by (simp add: encoder_write.simps [of bs en] Let_def)
    qed
  qed
qed

lemma encode_pieces_ok:
  "encoder_ok en \<Longrightarrow> \<exists>en'. encode_pieces ps en = Some (Inr (), en') \<and>
     concat (en_sent en') = encoded_bytes en @ concat ps \<and>
     (\<forall>c \<in> set (en_sent en'). c \<noteq> [] \<and> length c \<le> STREAM_REPLY_ENCODE_CHUNK)"
proof (induction ps arbitrary: en)
  case Nil
  then show ?case
    by (cases "en_buffer en = []")
      (auto simp: send_buffer_def encoded_bytes_def encoder_ok_def STREAM_REPLY_ENCODE_CHUNK_def)
next
  case (Cons p ps)
  obtain en1 where 1: "encoder_write p en = Some (Inr (), en1)" "encoder_ok en1" "encoded_bytes en1 = encoded_bytes en @ p"
    using encoder_write_ok [OF Cons.prems] by blast
  show ?case using Cons.IH [OF 1(2)] 1(1,3) by simp
qed

lemma encoder_new_ok: "encoder_ok encoder_new" "encoded_bytes encoder_new = []"
  by (simp_all add: encoder_ok_def encoded_bytes_def encoder_new_def STREAM_REPLY_ENCODE_CHUNK_def)

lemma count_pieces_ok:
  "n + length (concat ps) < 2 ^ 64 \<Longrightarrow> count_pieces ps n = Inr (n + length (concat ps))"
  by (induction ps arbitrary: n) (simp_all add: counting_write_def add.assoc)


context chunk_sink
begin

lemma write_encoded_ok:
  assumes "in_step (w, s)" and "bytes_in (content s) + length (concat cs) \<le> capacity"
  shows "\<exists>w' s'. write_encoded call cs (w, s) = (True, w', s') \<and> in_step (w', s') \<and>
    concat (content s') = concat (content s) @ concat cs \<and> sw_content_type w' = sw_content_type w"
  using assms
proof (induction cs arbitrary: w s)
  case (Cons c cs)
  have cc: "concat (chunks MAX_CHUNK_LEN c) = c" by (rule concat_chunks) (simp add: MAX_CHUNK_LEN_def)
  then have b: "bytes_in (chunks MAX_CHUNK_LEN c) = length c" by (metis bytes_in_def length_concat)
  have fits: "bytes_in (content s) + bytes_in (chunks MAX_CHUNK_LEN c) \<le> capacity" using Cons.prems(2) b by simp
  have small: "\<forall>x \<in> set (chunks MAX_CHUNK_LEN c). x \<noteq> [] \<and> length x \<le> MAX_CHUNK_LEN"
    using chunks_lengths by blast
  obtain w1 s1 where 1: "write_chunks call (chunks MAX_CHUNK_LEN c) (w, s) = (Inr (), w1, s1)" "in_step (w1, s1)"
    "content s1 = content s @ chunks MAX_CHUNK_LEN c" "sw_content_type w1 = sw_content_type w"
    using write_chunks_ok [OF Cons.prems(1) fits small] by blast
  have w: "write_bytes call c (w, s) = (Inr (), w1, s1)" using 1(1) by (simp add: write_bytes_def)
  have "bytes_in (content s1) = bytes_in (content s) + length c" using 1(3) b by (simp add: bytes_in_def)
  then have "bytes_in (content s1) + length (concat cs) \<le> capacity" using Cons.prems(2) by simp
  from Cons.IH [OF 1(2) this] show ?case using w 1(3,4) cc by auto
qed simp

lemma finish_reply_ok:
  assumes "in_step (w, s)" and "content s = []" and "length (concat pieces) \<le> capacity"
  shows "\<exists>s'. finish_streamed_reply call pieces True (w, s) = Some (Inr (), s') \<and> closed s' \<and>
    concat (content s') = concat pieces"
proof -
  obtain en where en: "encode_pieces pieces encoder_new = Some (Inr (), en)" "concat (en_sent en) = concat pieces"
    using encode_pieces_ok [OF encoder_new_ok(1), of pieces] encoder_new_ok(2) by auto
  obtain w' s' where w': "write_encoded call (en_sent en) (w, s) = (True, w', s')" "in_step (w', s')"
    "concat (content s') = concat pieces"
    using write_encoded_ok [OF assms(1), of "en_sent en"] assms(2,3) en(2) by (auto simp: bytes_in_def)
  obtain s'' where s'': "call ''Close'' (JArray [JString sid, JNumber (show_nat (bytes_in (content s')))]) s'
      = (Inr JNull, s'')" "closed s''" "content s'' = content s'"
    using close_ok [of s'] w'(2) by (auto simp: in_step_def)
  have "snd (writer_finish call (w', s')) = s''"
    using w'(2) s''(1) by (simp add: writer_finish_def in_step_def)
  then show ?thesis using en(1) w' s'' by (simp add: finish_streamed_reply_def)
qed

end

section \<open>Properties\<close>

text \<open>
  C36. A streamed reply arrives whole. The callee of an accepted streaming call counts, opens a
  stream at the caller, and replies with a handle; the caller claims the stream from that handle
  with the count as its limit. The encoder ends; all its chunks are accepted, even by a reader that
  reads only when the window makes the callee wait; and what the caller decodes in the end is
  exactly the encoded value, whatever happened in its registry before.
\<close>

theorem streamed_reply_arrives_whole:
  assumes "open_stream ss now h m (JArray [rs_descriptor rs d]) (wt_reg (watch ss l cells evs)) = (Inr (JString sid), reg1)"
    and "d = \<lparr> sd_content_type = Some ''application/json'', sd_total_len = Some (length (concat (rs_pieces rs v))) \<rparr>"
    and "ss_descriptor ss (rs_descriptor rs d) = Some d"
    and "length (concat (rs_pieces rs v)) \<le> sl_max_len l" and "length (concat (rs_pieces rs v)) < 2 ^ 64"
    and "\<And>x. rs_envelope rs (JObject [(''$tinybus_stream_reply'', rs_ref rs x)]) = Some x"
    and "rs_slice rs (concat (rs_pieces rs v)) = Some r"
    and "call ''Open'' (JArray [rs_descriptor rs d]) s = (Inr opened_reply, s')" and "m_body opened_reply = JString sid"
    and "reply_destination caller_header = Inr dst"
  shows "\<exists>w rd reg2 reg3 got limit.
    begin_streamed_reply call rs cs caller_header v s = (Inr (w, reply_envelope rs w), s') \<and>
    claim_streamed_reply rs cs (reply_envelope rs w) (h_sender h) reg1 = (Reading rd limit, reg2) \<and>
    finish_streamed_reply (lazy_peer ss now h (rr_cell rd)) (rs_pieces rs v) True (w, (reg2, [])) =
      Some (Inr (), (reg3, got)) \<and>
    finish_decode rs (fst (read_capped limit (rr_cell rd) (concat got) reg3)) = Some (Inr r)"
proof -
  let ?text = "concat (rs_pieces rs v)"
  let ?reg = "wt_reg (watch ss l cells evs)"
  let ?a = "sr_used ?reg" and ?cap = "length ?text mod 2 ^ 64"
  define w where "w = writer_new (case h_sender (m_header opened_reply) of Some n \<Rightarrow> n | None \<Rightarrow> dst) sid d"
  have cap: "?cap = length ?text" using assms(5) by simp
  have ok: "registry_ok l (set evs) (wt_key (watch ss l cells evs)) (wt_read (watch ss l cells evs)) ?reg"
    using watch_run_ok by (simp add: watch_ok_def)
  have len: "sd_total_len d = Some (length ?text)" using assms(2) by simp
  have begun: "begin_streamed_reply call rs cs caller_header v s = (Inr (w, reply_envelope rs w), s')"
    using assms(2,8-10) count_pieces_ok [of 0 "rs_pieces rs v"] assms(5)
    by (simp add: begin_streamed_reply_def open_stream_with_timeout_def and_then_def w_def)
  note o = opened [OF ok assms(1,3)]
  obtain rd reg2 where take: "take_reader sid reg1 = (Inr rd, reg2)"
    using o(1,2) by (auto simp: take_reader_def take_reader_inner_def Let_def inbound_new_def)
  have r: "rr_cell rd = ?a" "receiving h ?a sid ?cap (reg2, [])" "got_so_far ?a (reg2, []) = []"
    using opened_receiving [OF ok assms(1,3) take, of "length ?text"] assms(4,5) len unfolding cap by simp_all
  have "in_owner (sr_cells reg1 ?a) = h_sender h" using o(2) by (simp add: inbound_new_def)
  then have "take_reader_from sid (h_sender h) reg1 = (Inr rd, reg2)"
    using take o(1) by (simp add: take_reader_def take_reader_from_def take_reader_inner_def)
  then have claim: "claim_streamed_reply rs cs (reply_envelope rs w) (h_sender h) reg1 = (Reading rd (length ?text), reg2)"
    using assms(6) len by (simp add: claim_streamed_reply_def reply_envelope_def w_def writer_ref_def writer_new_def)
  have step: "chunk_sink.in_step sid (receiving h ?a sid ?cap) (got_so_far ?a) (w, (reg2, []))"
    unfolding lazy.in_step_def using r by (simp add: w_def writer_new_def bytes_in_def)
  have fit: "length ?text \<le> ?cap" using cap by simp
  obtain reg3 got where f: "finish_streamed_reply (lazy_peer ss now h ?a) (rs_pieces rs v) True (w, (reg2, [])) = Some (Inr (), (reg3, got))"
    "received_all ?a (reg3, got)" "concat (got_so_far ?a (reg3, got)) = ?text"
    using lazy.finish_reply_ok [OF step r(3) fit, of ss now] by auto
  have "length (concat got) + bytes_in (in_queue (sr_cells reg3 ?a)) = length ?text"
    using f(3) by (metis bytes_in_def concat_append fst_conv got_so_far_def length_append length_concat snd_conv)
  then have "fst (read_capped (length ?text) ?a (concat got) reg3) = (?text, ReadEnd)"
    using f(2,3) read_capped_rest [of reg3 ?a "concat got" "length ?text"]
    by (simp add: received_all_def Let_def got_so_far_def)
  then have "finish_decode rs (fst (read_capped (length ?text) (rr_cell rd) (concat got) reg3)) = Some (Inr r)"
    using assms(7) r(1) by (simp add: finish_decode_def)
  then show ?thesis using begun claim f(1) r(1) by metis
qed


section \<open>Witness\<close>

definition reply_descriptor :: stream_descriptor where
  "reply_descriptor = \<lparr> sd_content_type = Some ''application/json'', sd_total_len = Some 2 \<rparr>"

definition reply_streams :: stream_serde where
  "reply_streams = \<lparr> ss_descriptor = (\<lambda>_. Some reply_descriptor), ss_error = (\<lambda>_. ''bad'') \<rparr>"

definition two_bytes :: "unit reply_serde" where
  "two_bytes = \<lparr> rs_pieces = (\<lambda>_. [[7], [8]]),
     rs_ref = (\<lambda>x. JArray [JString (sf_id x), enc_opt JString (sf_content_type x),
        enc_opt (\<lambda>n. JNumber (show_nat n)) (sf_len x)]),
     rs_descriptor = (\<lambda>_. JNull),
     rs_envelope = (\<lambda>v. case v of
        JObject [(_, JArray [JString s, c, n])] \<Rightarrow>
          (case (dec_opt dec_string c, dec_opt dec_number n) of
             (Some c, Some n) \<Rightarrow> Some \<lparr> sf_id = s, sf_content_type = c, sf_len = n \<rparr>
           | _ \<Rightarrow> None)
      | _ \<Rightarrow> None),
     rs_value = (\<lambda>_. None), rs_slice = (\<lambda>bs. if bs = [7, 8] then Some () else None), rs_slice_error = (\<lambda>_. ''bad'') \<rparr>"

definition reply_cell :: inbound where
  "reply_cell = inbound_new (peer_header 1 ''Open'') reply_descriptor 0 small_limits"

lemma reply_opened:
  "open_stream reply_streams 0 (peer_header 1 ''Open'') (MemberName ''Open'') (JArray [JNull])
      (wt_reg (watch reply_streams small_limits blank [])) = (Inr (JString ''s1''), one_stream reply_cell [(''s1'', 0)])"
  by (simp add: watch_def watch_new_def peer_header_def open_stream_def reply_descriptor_def
      reply_streams_def Let_def set_limits_def registry_new_def small_limits_def reap_def owned_streams_def
      uncollected_def one_stream_def reply_cell_def stream_id_one)

lemma streamed_reply_arrives_whole_witness:
  "\<exists>w rd reg2 reg3 got limit.
    claim_streamed_reply two_bytes any_client (reply_envelope two_bytes w) (Some (unique_name 1))
      (one_stream reply_cell [(''s1'', 0)]) = (Reading rd limit, reg2) \<and>
    finish_streamed_reply (lazy_peer reply_streams 0 (peer_header 1 ''Open'') (rr_cell rd)) [[7], [8]] True (w, (reg2, [])) =
      Some (Inr (), (reg3, got)) \<and>
    finish_decode two_bytes (fst (read_capped limit (rr_cell rd) (concat got) reg3)) = Some (Inr ())"
proof -
  define reply where "reply = method_return (m_header ask) (JString ''s1'')"
  define call :: "string \<Rightarrow> json \<Rightarrow> unit \<Rightarrow> message result \<times> unit" where "call = (\<lambda>_ _ s. (Inr reply, s))"
  have pieces: "rs_pieces two_bytes JNull = [[7], [8]]" "rs_descriptor two_bytes d = JNull" for d
    by (simp_all add: two_bytes_def)
  have d: "reply_descriptor = \<lparr> sd_content_type = Some ''application/json'',
      sd_total_len = Some (length (concat (rs_pieces two_bytes JNull))) \<rparr>"
    by (simp add: pieces reply_descriptor_def)
  have env: "rs_envelope two_bytes (JObject [(''$tinybus_stream_reply'', rs_ref two_bytes x)]) = Some x" for x
    by (simp add: two_bytes_def)
  have opened: "open_stream reply_streams 0 (peer_header 1 ''Open'') (MemberName ''Open'') (JArray [rs_descriptor two_bytes reply_descriptor])
      (wt_reg (watch reply_streams small_limits blank [])) = (Inr (JString ''s1''), one_stream reply_cell [(''s1'', 0)])"
    using reply_opened by (simp add: pieces)
  have h: "h_sender (peer_header 1 ''Open'') = Some (unique_name 1)" by (simp add: peer_header_def)
  have ss: "ss_descriptor reply_streams (rs_descriptor two_bytes reply_descriptor) = Some reply_descriptor"
    by (simp add: reply_streams_def)
  have len: "length (concat (rs_pieces two_bytes JNull)) \<le> sl_max_len small_limits" "length (concat (rs_pieces two_bytes JNull)) < 2 ^ 64"
    and sl: "rs_slice two_bytes (concat (rs_pieces two_bytes JNull)) = Some ()"
    by (simp_all add: two_bytes_def small_limits_def)
  have c: "call ''Open'' (JArray [rs_descriptor two_bytes reply_descriptor]) () = (Inr reply, ())" "m_body reply = JString ''s1''"
    "reply_destination (peer_header 1 ''M'') = Inr (unique_name 1)"
    by (simp_all add: call_def reply_def method_return_def reply_destination_def peer_header_def)
  show ?thesis
    using streamed_reply_arrives_whole [where call = call and rs = two_bytes and v = JNull and cs = any_client, OF opened d ss len env sl c] unfolding pieces h by blast
qed

end
