(* ===== verification/Lease.thy ===== *)
theory Lease
  imports Errors
begin

text \<open>
  A module reservation whose host callback outlives every STOP that is not acknowledged
  (\<open>module/lease.rs\<close>): the activation transaction with its rollback guard, the cleanup worker
  shared by all handles, and the handles.

  The driver's asynchronous operations, the export and the reporter are the environment: a step takes
  the answer of one of them and runs to the next await. What the code asks of its environment is
  recorded in order (\<open>la_trace\<close>). Driver errors are any type \<open>'e\<close>.
\<close>

section \<open>Outcomes\<close>

datatype lease_phase =
  LReserve | LValidate | LObject | LCallback | LAddress | LExport | LStart | LStop | LRuntime

datatype report_outcome =
  RAcknowledged | RFailed | RTimedOut | RFaulted | RExhausted | RUnacknowledged

datatype 'e stop_outcome = StopAcknowledged | StopRetryable 'e | StopUnacknowledged 'e

datatype 'e start_outcome = StartStarted | StartSettledFailure 'e | StartUnacknowledged 'e

record lease_report =
  lr_phase :: lease_phase
  lr_attempt :: "nat option"
  lr_outcome :: report_outcome

record 'e lease_error =
  le_phase :: lease_phase
  le_attempt :: "nat option"
  le_acknowledged :: bool
  le_driver_error :: "'e option"

definition lease_error_new :: "lease_phase \<Rightarrow> nat option \<Rightarrow> bool \<Rightarrow> 'e option \<Rightarrow> 'e lease_error" where
  "lease_error_new p a ack e =
     \<lparr> le_phase = p, le_attempt = a, le_acknowledged = ack, le_driver_error = e \<rparr>"

fun stop_outcome_debug :: "'e stop_outcome \<Rightarrow> string" where
  "stop_outcome_debug StopAcknowledged = ''Acknowledged''"
| "stop_outcome_debug (StopRetryable _) = ''RetryableFailure(<redacted>)''"
| "stop_outcome_debug (StopUnacknowledged _) = ''Unacknowledged(<redacted>)''"

fun start_outcome_debug :: "'e start_outcome \<Rightarrow> string" where
  "start_outcome_debug StartStarted = ''Started''"
| "start_outcome_debug (StartSettledFailure _) = ''SettledFailure(<redacted>)''"
| "start_outcome_debug (StartUnacknowledged _) = ''Unacknowledged(<redacted>)''"

fun lease_phase_debug :: "lease_phase \<Rightarrow> string" where
  "lease_phase_debug LReserve = ''Reserve''"
| "lease_phase_debug LValidate = ''Validate''"
| "lease_phase_debug LObject = ''Object''"
| "lease_phase_debug LCallback = ''Callback''"
| "lease_phase_debug LAddress = ''Address''"
| "lease_phase_debug LExport = ''Export''"
| "lease_phase_debug LStart = ''Start''"
| "lease_phase_debug LStop = ''Stop''"
| "lease_phase_debug LRuntime = ''Runtime''"

definition lease_error_display :: "'e lease_error \<Rightarrow> string" where
  "lease_error_display e =
     (let ack = (if le_acknowledged e then ''true'' else ''false'');
          start = ''module lease '' @ lease_phase_debug (le_phase e) @ '' phase failed '' in
      case le_attempt e of
        Some a \<Rightarrow> start @ ''(attempt '' @ show_nat a @ '', acknowledged='' @ ack @ '')''
      | None \<Rightarrow> start @ ''(acknowledged='' @ ack @ '')'')"

record retry_policy =
  rp_timeout :: nat
  rp_delays :: "nat list"

definition retry_policy_new :: "nat \<Rightarrow> nat list \<Rightarrow> retry_policy option" where
  "retry_policy_new t ds = (if t = 0 then None else Some \<lparr> rp_timeout = t, rp_delays = ds \<rparr>)"

definition max_attempts :: "retry_policy \<Rightarrow> nat" where
  "max_attempts p = length (rp_delays p) + 1"

section \<open>State\<close>

datatype 'e close_state = CloseOpen | CloseRunning | CloseAcknowledged | CloseUnacknowledged "'e lease_error"

text \<open>What the lease asks of its environment, and the answers that matter for its safety.\<close>

datatype lease_action =
    DidReserve
  | DidExport
  | CalledStart
  | StartSettled
  | StartLost
  | CalledStop nat
  | StopFailed nat
  | StopLost nat
  | StopDone nat
  | Withdrew

text \<open>Where the activation task waits, and how it ended.\<close>

datatype 'e activation =
    AwaitReserve
  | AwaitObject
  | AwaitExport
  | AwaitStart
  | RollingBack lease_phase "'e option"
  | Leased
  | LeaseFailed "'e lease_error"
  | ActivationGone

text \<open>Where the cleanup worker waits; \<open>True\<close> when the attempt has timed out.\<close>

datatype worker = Unstarted | Stopping nat bool | Withdrawing | Sleeping nat | WorkerParked | WorkerDone

record 'e lease =
  la_phase :: "'e activation"
  la_armed :: bool
  la_start_in_flight :: bool
  la_retained :: bool
  lc_users :: nat
  lc_state :: "'e close_state"
  lc_starter :: bool
  lc_parked :: nat
  cu_phase :: worker
  la_guard :: bool
  la_reports :: "lease_report list"
  la_trace :: "lease_action list"

definition lease_new :: "'e lease" where
  "lease_new =
     \<lparr> la_phase = AwaitReserve, la_armed = False, la_start_in_flight = False, la_retained = False,
        lc_users = 0, lc_state = CloseOpen, lc_starter = False, lc_parked = 0, cu_phase = Unstarted,
        la_guard = False, la_reports = [], la_trace = [] \<rparr>"

definition did :: "lease_action \<Rightarrow> 'e lease \<Rightarrow> 'e lease" where
  "did a s = s \<lparr> la_trace := la_trace s @ [a] \<rparr>"

definition send_report :: "nat \<Rightarrow> report_outcome \<Rightarrow> 'e lease \<Rightarrow> 'e lease" where
  "send_report attempt r s =
     s \<lparr> la_reports := la_reports s @ [\<lparr> lr_phase = LStop, lr_attempt = Some attempt, lr_outcome = r \<rparr>] \<rparr>"

section \<open>The cleanup worker\<close>

definition mark_unacknowledged :: "nat \<Rightarrow> 'e option \<Rightarrow> report_outcome \<Rightarrow> 'e lease \<Rightarrow> 'e lease" where
  "mark_unacknowledged attempt e r s =
     (send_report attempt r s) \<lparr> lc_state := CloseUnacknowledged (lease_error_new LStop (Some attempt) False e) \<rparr>"

definition park_unacknowledged :: "nat \<Rightarrow> 'e option \<Rightarrow> report_outcome \<Rightarrow> 'e lease \<Rightarrow> 'e lease" where
  "park_unacknowledged attempt e r s = (mark_unacknowledged attempt e r s) \<lparr> cu_phase := WorkerParked \<rparr>"

text \<open>\<open>check_fault\<close>: what the driver says of the reservation, \<open>None\<close> when it panics.\<close>

definition check_fault :: "bool option \<Rightarrow> nat \<Rightarrow> 'e lease \<Rightarrow> bool \<times> 'e lease" where
  "check_fault faulted attempt s =
     (case faulted of
        Some False \<Rightarrow> (True, s)
      | Some True \<Rightarrow> (False, mark_unacknowledged attempt None RFaulted s)
      | None \<Rightarrow> (False, mark_unacknowledged attempt None RUnacknowledged s))"

text \<open>The head of the worker's loop: the fault check, then the STOP is issued.\<close>

definition begin_attempt :: "bool option \<Rightarrow> nat \<Rightarrow> 'e lease \<Rightarrow> 'e lease" where
  "begin_attempt faulted attempt s =
     (case check_fault faulted attempt s of
        (True, s') \<Rightarrow> did (CalledStop attempt) (s' \<lparr> cu_phase := Stopping attempt False \<rparr>)
      | (False, s') \<Rightarrow> s' \<lparr> cu_phase := WorkerParked \<rparr>)"

text \<open>\<open>LeaseControl::start\<close>: the worker is spawned once; the first fault check is its own.\<close>

definition start_cleanup :: "bool option \<Rightarrow> 'e lease \<Rightarrow> 'e lease" where
  "start_cleanup faulted s =
     (if lc_starter s
      then begin_attempt faulted 1 (s \<lparr> lc_starter := False, lc_state := CloseRunning \<rparr>)
      else s)"

definition stop_timeout :: "'e lease \<Rightarrow> 'e lease" where
  "stop_timeout s =
     (case cu_phase s of
        Stopping attempt False \<Rightarrow> (mark_unacknowledged attempt None RTimedOut s) \<lparr> cu_phase := Stopping attempt True \<rparr>
      | _ \<Rightarrow> s)"

text \<open>
  The STOP operation ended, in time or late; \<open>None\<close> when its task panicked. \<open>faulted\<close> answers the
  check before the next delay.
\<close>

definition stop_answered :: "retry_policy \<Rightarrow> 'e stop_outcome option \<Rightarrow> bool option \<Rightarrow> 'e lease \<Rightarrow> 'e lease" where
  "stop_answered p outcome faulted s =
     (case cu_phase s of
        Stopping attempt _ \<Rightarrow>
          (case outcome of
             None \<Rightarrow> park_unacknowledged attempt None RUnacknowledged (did (StopLost attempt) s)
           | Some StopAcknowledged \<Rightarrow>
               (send_report attempt RAcknowledged (did (StopDone attempt) s)) \<lparr> cu_phase := Withdrawing \<rparr>
           | Some (StopUnacknowledged e) \<Rightarrow>
               park_unacknowledged attempt (Some e) RUnacknowledged (did (StopLost attempt) s)
           | Some (StopRetryable e) \<Rightarrow>
               (let s1 = send_report attempt RFailed (did (StopFailed attempt) s) in
                if attempt = max_attempts p then park_unacknowledged attempt (Some e) RExhausted s1
                else (case check_fault faulted attempt s1 of
                    (True, s2) \<Rightarrow> s2 \<lparr> cu_phase := Sleeping attempt \<rparr>
                  | (False, s2) \<Rightarrow> s2 \<lparr> cu_phase := WorkerParked \<rparr>)))
      | _ \<Rightarrow> s)"

definition sleep_over :: "bool option \<Rightarrow> 'e lease \<Rightarrow> 'e lease" where
  "sleep_over faulted s =
     (case cu_phase s of Sleeping attempt \<Rightarrow> begin_attempt faulted (attempt + 1) s | _ \<Rightarrow> s)"

text \<open>The callback guard is taken and its removal awaited; then the lease is acknowledged.\<close>

definition withdrawn :: "'e lease \<Rightarrow> 'e lease" where
  "withdrawn s =
     (if cu_phase s = Withdrawing
      then (if la_guard s then did Withdrew (s \<lparr> la_guard := False \<rparr>) else s)
             \<lparr> lc_state := CloseAcknowledged, cu_phase := WorkerDone \<rparr>
      else s)"

section \<open>Activation\<close>

text \<open>\<open>control.wait()\<close> after a failure of the activation: the cleanup is started, its end awaited.\<close>

definition roll_back :: "lease_phase \<Rightarrow> 'e option \<Rightarrow> bool option \<Rightarrow> 'e lease \<Rightarrow> 'e lease" where
  "roll_back ph e faulted s = start_cleanup faulted (s \<lparr> la_phase := RollingBack ph e \<rparr>)"

text \<open>\<open>ActivationRollback::park\<close>: a task that keeps the control and the object for ever.\<close>

definition park_activation :: "'e lease \<Rightarrow> 'e lease" where
  "park_activation s = s \<lparr> la_armed := False, la_retained := False, lc_parked := lc_parked s + 1 \<rparr>"

definition rollback_drop :: "bool option \<Rightarrow> 'e lease \<Rightarrow> 'e lease" where
  "rollback_drop faulted s =
     (if \<not> la_armed s then s
      else if la_start_in_flight s then park_activation s
      else start_cleanup faulted s)"

text \<open>An activation that failed returns its error, and its rollback guard is dropped.\<close>

definition fail_activation :: "'e lease_error \<Rightarrow> bool option \<Rightarrow> 'e lease \<Rightarrow> 'e lease" where
  "fail_activation e faulted s = (rollback_drop faulted s) \<lparr> la_phase := LeaseFailed e, la_armed := False, la_retained := False \<rparr>"

definition reserved :: "(unit + 'e) \<Rightarrow> (unit + 'e) \<Rightarrow> bool option \<Rightarrow> 'e lease \<Rightarrow> 'e lease" where
  "reserved reservation validated faulted s =
     (if la_phase s \<noteq> AwaitReserve then s
      else (case reservation of
          Inr e \<Rightarrow> s \<lparr> la_phase := LeaseFailed (lease_error_new LReserve None False (Some e)) \<rparr>
        | Inl _ \<Rightarrow>
            (let s1 = did DidReserve (s \<lparr> la_armed := True, lc_starter := True, lc_users := 1 \<rparr>) in
             case validated of
               Inl _ \<Rightarrow> s1 \<lparr> la_phase := AwaitObject \<rparr>
             | Inr e \<Rightarrow> roll_back LValidate (Some e) faulted s1)))"

text \<open>The callback factory may fail or panic (\<open>None\<close>); then its address is asked for.\<close>

definition object_made ::
  "(unit + 'e) \<Rightarrow> (unit + 'e) option \<Rightarrow> (unit + 'e) \<Rightarrow> bool option \<Rightarrow> 'e lease \<Rightarrow> 'e lease" where
  "object_made obj callback address faulted s =
     (if la_phase s \<noteq> AwaitObject then s
      else (case obj of
          Inr e \<Rightarrow> roll_back LObject (Some e) faulted s
        | Inl _ \<Rightarrow>
            (let s1 = s \<lparr> la_retained := True \<rparr> in
             case callback of
               None \<Rightarrow> roll_back LCallback None faulted s1
             | Some (Inr e) \<Rightarrow> roll_back LCallback (Some e) faulted s1
             | Some (Inl _) \<Rightarrow>
                 (case address of
                    Inr e \<Rightarrow> roll_back LAddress (Some e) faulted s1
                  | Inl _ \<Rightarrow> s1 \<lparr> la_phase := AwaitExport \<rparr>))))"

definition exported :: "bool \<Rightarrow> bool option \<Rightarrow> 'e lease \<Rightarrow> 'e lease" where
  "exported ok faulted s =
     (if la_phase s \<noteq> AwaitExport then s
      else if ok then
        did CalledStart (did DidExport
          (s \<lparr> la_guard := True, la_start_in_flight := True, la_phase := AwaitStart \<rparr>))
      else roll_back LExport None faulted s)"

definition started :: "'e start_outcome option \<Rightarrow> bool option \<Rightarrow> 'e lease \<Rightarrow> 'e lease" where
  "started outcome faulted s =
     (if la_phase s \<noteq> AwaitStart then s
      else (case outcome of
          Some StartStarted \<Rightarrow>
            did StartSettled (s \<lparr> la_start_in_flight := False, la_armed := False, la_retained := False, la_phase := Leased \<rparr>)
        | Some (StartSettledFailure e) \<Rightarrow>
            roll_back LStart (Some e) faulted (did StartSettled (s \<lparr> la_start_in_flight := False \<rparr>))
        | Some (StartUnacknowledged e) \<Rightarrow>
            (park_activation (did StartLost s)) \<lparr> la_phase := LeaseFailed (lease_error_new LStart None False (Some e)) \<rparr>
        | None \<Rightarrow>
            (park_activation (did StartLost s)) \<lparr> la_phase := LeaseFailed (lease_error_new LStart None False None) \<rparr>))"

text \<open>The awaited end of a rollback: the error says whether the STOP was acknowledged.\<close>

definition rolled_back :: "bool option \<Rightarrow> 'e lease \<Rightarrow> 'e lease" where
  "rolled_back faulted s =
     (case la_phase s of
        RollingBack ph e \<Rightarrow>
          (case lc_state s of
             CloseAcknowledged \<Rightarrow> fail_activation (lease_error_new ph None True e) faulted s
           | CloseUnacknowledged _ \<Rightarrow> fail_activation (lease_error_new ph None False e) faulted s
           | _ \<Rightarrow> s)
      | _ \<Rightarrow> s)"

text \<open>
  The activation task unwinds or is dropped at an await: only the guard's drop runs. A START that
  was spawned goes on by itself.
\<close>

definition activation_dropped :: "bool option \<Rightarrow> 'e lease \<Rightarrow> 'e lease" where
  "activation_dropped faulted s =
     (if (\<exists>e. la_phase s = LeaseFailed e) \<or> la_phase s = Leased \<or> la_phase s = ActivationGone then s
      else (rollback_drop faulted (if la_phase s = AwaitStart then did StartLost s else s))
             \<lparr> la_phase := ActivationGone, la_armed := False, la_retained := False \<rparr>)"

section \<open>Handles\<close>

definition lease_clone :: "'e lease \<Rightarrow> 'e lease" where
  "lease_clone s = (if la_phase s = Leased \<and> 0 < lc_users s then s \<lparr> lc_users := lc_users s + 1 \<rparr> else s)"

definition lease_drop :: "bool option \<Rightarrow> 'e lease \<Rightarrow> 'e lease" where
  "lease_drop faulted s =
     (if la_phase s = Leased \<and> 0 < lc_users s then
        (let s' = s \<lparr> lc_users := lc_users s - 1 \<rparr> in
         if lc_users s = 1 then start_cleanup faulted s' else s')
      else s)"

text \<open>\<open>close\<close> starts the cleanup and waits; the wait ends with the first final state it sees.\<close>

definition lease_close :: "bool option \<Rightarrow> 'e lease \<Rightarrow> 'e lease" where
  "lease_close faulted s = (if la_phase s = Leased \<and> 0 < lc_users s then start_cleanup faulted s else s)"

definition close_result :: "'e lease \<Rightarrow> (unit + 'e lease_error) option" where
  "close_result s =
     (case lc_state s of
        CloseAcknowledged \<Rightarrow> Some (Inl ())
      | CloseUnacknowledged e \<Rightarrow> Some (Inr e)
      | _ \<Rightarrow> None)"

end
