(* ===== verification/LeaseProps.thy ===== *)
theory LeaseProps
  imports Lease
begin

text \<open>
  What \<open>module/lease.rs\<close> promises of a reservation, as an automaton over what the code does to its
  driver: START at most once and only on an exported callback, no STOP while a START may still be
  active, no STOP after an unacknowledged one, and no withdrawal of the callback without an
  acknowledged STOP. Every run of the lease, whatever its environment answers and in whatever order,
  is a run of the automaton; cleanup is never lost and ends after a bounded number of attempts.
\<close>

section \<open>Runs\<close>

datatype 'e lease_event =
    EReserved "unit + 'e" "unit + 'e" "bool option"
  | EObject "unit + 'e" "(unit + 'e) option" "unit + 'e" "bool option"
  | EExported bool "bool option"
  | EStarted "'e start_outcome option" "bool option"
  | ERolledBack "bool option"
  | EActivationDropped "bool option"
  | EClone
  | EDrop "bool option"
  | EClose "bool option"
  | EStopTimeout
  | EStopAnswered "'e stop_outcome option" "bool option"
  | ESleepOver "bool option"
  | EWithdrawn

primrec lease_step :: "retry_policy \<Rightarrow> 'e lease_event \<Rightarrow> 'e lease \<Rightarrow> 'e lease" where
  "lease_step p (EReserved r v f) s = reserved r v f s"
| "lease_step p (EObject ob c a f) s = object_made ob c a f s"
| "lease_step p (EExported ok f) s = exported ok f s"
| "lease_step p (EStarted r f) s = started r f s"
| "lease_step p (ERolledBack f) s = rolled_back f s"
| "lease_step p (EActivationDropped f) s = activation_dropped f s"
| "lease_step p EClone s = lease_clone s"
| "lease_step p (EDrop f) s = lease_drop f s"
| "lease_step p (EClose f) s = lease_close f s"
| "lease_step p EStopTimeout s = stop_timeout s"
| "lease_step p (EStopAnswered r f) s = stop_answered p r f s"
| "lease_step p (ESleepOver f) s = sleep_over f s"
| "lease_step p EWithdrawn s = withdrawn s"

definition lease_run :: "retry_policy \<Rightarrow> 'e lease_event list \<Rightarrow> 'e lease" where
  "lease_run p evs = fold (lease_step p) evs lease_new"

section \<open>The protocol\<close>

datatype start_status = NoStart | StartRunning | StartOver | StartUnknown
datatype stop_status = NoStop | StopRunning nat | StopFailedAt nat | StopUnknown | StopOver

record protocol =
  po_reserved :: bool
  po_exported :: bool
  po_start :: start_status
  po_stop :: stop_status
  po_withdrawn :: bool

definition protocol_init :: protocol where
  "protocol_init = \<lparr> po_reserved = False, po_exported = False, po_start = NoStart, po_stop = NoStop, po_withdrawn = False \<rparr>"

text \<open>One action of the driver's user, when the protocol allows it; \<open>n\<close> bounds the attempts.\<close>

fun allowed :: "nat \<Rightarrow> lease_action \<Rightarrow> protocol \<Rightarrow> protocol option" where
  "allowed n DidReserve a = (if po_reserved a then None else Some (a \<lparr> po_reserved := True \<rparr>))"
| "allowed n DidExport a =
     (if po_reserved a \<and> \<not> po_exported a \<and> po_stop a = NoStop then Some (a \<lparr> po_exported := True \<rparr>) else None)"
| "allowed n CalledStart a =
     (if po_exported a \<and> po_start a = NoStart \<and> po_stop a = NoStop then Some (a \<lparr> po_start := StartRunning \<rparr>) else None)"
| "allowed n StartSettled a = (if po_start a = StartRunning then Some (a \<lparr> po_start := StartOver \<rparr>) else None)"
| "allowed n StartLost a = (if po_start a = StartRunning then Some (a \<lparr> po_start := StartUnknown \<rparr>) else None)"
| "allowed n (CalledStop k) a =
     (if po_reserved a \<and> (po_start a = NoStart \<or> po_start a = StartOver) \<and> 1 \<le> k \<and> k \<le> n
         \<and> (if k = 1 then po_stop a = NoStop else po_stop a = StopFailedAt (k - 1))
      then Some (a \<lparr> po_stop := StopRunning k \<rparr>) else None)"
| "allowed n (StopFailed k) a = (if po_stop a = StopRunning k then Some (a \<lparr> po_stop := StopFailedAt k \<rparr>) else None)"
| "allowed n (StopLost k) a = (if po_stop a = StopRunning k then Some (a \<lparr> po_stop := StopUnknown \<rparr>) else None)"
| "allowed n (StopDone k) a = (if po_stop a = StopRunning k then Some (a \<lparr> po_stop := StopOver \<rparr>) else None)"
| "allowed n Withdrew a =
     (if po_exported a \<and> \<not> po_withdrawn a \<and> po_stop a = StopOver then Some (a \<lparr> po_withdrawn := True \<rparr>) else None)"

fun accepts :: "nat \<Rightarrow> protocol \<Rightarrow> lease_action list \<Rightarrow> protocol option" where
  "accepts n a [] = Some a"
| "accepts n a (x # xs) = (case allowed n x a of None \<Rightarrow> None | Some b \<Rightarrow> accepts n b xs)"

lemma accepts_append:
  "accepts n a (xs @ ys) = (case accepts n a xs of None \<Rightarrow> None | Some b \<Rightarrow> accepts n b ys)"
  by (induction n a xs rule: accepts.induct) (auto split: option.splits)

section \<open>The simulation\<close>

text \<open>How the state of the lease and the state of the protocol fit.\<close>

definition worker_fits :: "nat \<Rightarrow> 'e lease \<Rightarrow> protocol \<Rightarrow> bool" where
  "worker_fits n s a =
     (case cu_phase s of
        Unstarted \<Rightarrow> po_stop a = NoStop \<and> \<not> po_withdrawn a \<and> lc_starter s = po_reserved a \<and> lc_state s = CloseOpen
      | w \<Rightarrow> \<not> lc_starter s \<and> po_reserved a \<and> (po_start a = NoStart \<or> po_start a = StartOver)
          \<and> lc_state s \<noteq> CloseOpen
          \<and> (lc_state s = CloseAcknowledged \<longleftrightarrow> w = WorkerDone)
          \<and> (case w of
               Stopping k late \<Rightarrow> po_stop a = StopRunning k \<and> 1 \<le> k \<and> k \<le> n \<and> \<not> po_withdrawn a \<and> (late \<longrightarrow> lc_state s \<noteq> CloseRunning)
             | Sleeping k \<Rightarrow> po_stop a = StopFailedAt k \<and> 1 \<le> k \<and> k < n \<and> \<not> po_withdrawn a
             | Withdrawing \<Rightarrow> po_stop a = StopOver \<and> \<not> po_withdrawn a
             | WorkerDone \<Rightarrow> po_stop a = StopOver \<and> po_withdrawn a = po_exported a
             | _ \<Rightarrow> lc_state s \<noteq> CloseRunning \<and> \<not> po_withdrawn a))"

definition activation_fits :: "'e lease \<Rightarrow> protocol \<Rightarrow> bool" where
  "activation_fits s a =
     (case la_phase s of
        AwaitReserve \<Rightarrow> a = protocol_init \<and> cu_phase s = Unstarted \<and> \<not> la_armed s \<and> \<not> la_start_in_flight s \<and> lc_parked s = 0
      | AwaitObject \<Rightarrow> po_reserved a \<and> \<not> po_exported a \<and> po_start a = NoStart \<and> cu_phase s = Unstarted \<and> la_armed s \<and> \<not> la_start_in_flight s \<and> lc_parked s = 0 \<and> lc_users s = 1
      | AwaitExport \<Rightarrow> po_reserved a \<and> \<not> po_exported a \<and> po_start a = NoStart \<and> cu_phase s = Unstarted \<and> la_armed s \<and> \<not> la_start_in_flight s \<and> lc_parked s = 0 \<and> lc_users s = 1
      | AwaitStart \<Rightarrow> po_reserved a \<and> po_exported a \<and> po_start a = StartRunning \<and> cu_phase s = Unstarted \<and> la_armed s \<and> la_start_in_flight s \<and> lc_parked s = 0 \<and> lc_users s = 1
      | RollingBack _ _ \<Rightarrow> po_start a \<noteq> StartRunning \<and> cu_phase s \<noteq> Unstarted \<and> la_armed s \<and> \<not> la_start_in_flight s \<and> lc_parked s = 0
      | Leased \<Rightarrow> po_reserved a \<and> po_exported a \<and> po_start a = StartOver \<and> \<not> la_armed s \<and> lc_parked s = 0 \<and> (lc_users s = 0 \<longrightarrow> cu_phase s \<noteq> Unstarted)
      | LeaseFailed e \<Rightarrow> po_start a \<noteq> StartRunning \<and> \<not> la_armed s \<and> (le_acknowledged e \<longrightarrow> po_stop a = StopOver)
          \<and> (po_reserved a \<longrightarrow> cu_phase s \<noteq> Unstarted \<or> po_start a = StartUnknown)
          \<and> lc_parked s = (if po_start a = StartUnknown then 1 else 0)
      | ActivationGone \<Rightarrow> po_start a \<noteq> StartRunning \<and> \<not> la_armed s
          \<and> (po_reserved a \<longrightarrow> cu_phase s \<noteq> Unstarted \<or> po_start a = StartUnknown)
          \<and> lc_parked s = (if po_start a = StartUnknown then 1 else 0))"

definition lease_fits :: "nat \<Rightarrow> 'e lease \<Rightarrow> protocol \<Rightarrow> bool" where
  "lease_fits n s a \<longleftrightarrow>
     accepts n protocol_init (la_trace s) = Some a \<and> worker_fits n s a \<and> activation_fits s a
     \<and> la_guard s = (po_exported a \<and> \<not> po_withdrawn a)"


subsection \<open>The worker\<close>

text \<open>The part of the relation the activation's own fields play no role in.\<close>

definition lease_core :: "nat \<Rightarrow> 'e lease \<Rightarrow> protocol \<Rightarrow> bool" where
  "lease_core n s a \<longleftrightarrow>
     accepts n protocol_init (la_trace s) = Some a \<and> worker_fits n s a
     \<and> la_guard s = (po_exported a \<and> \<not> po_withdrawn a)"

lemma lease_fits_core: "lease_fits n s a \<longleftrightarrow> lease_core n s a \<and> activation_fits s a"
  by (auto simp: lease_fits_def lease_core_def)

lemma worker_fits_fields [simp]:
  "worker_fits n (s \<lparr> la_phase := ph \<rparr>) a = worker_fits n s a"
  "worker_fits n (s \<lparr> la_armed := b \<rparr>) a = worker_fits n s a"
  "worker_fits n (s \<lparr> la_start_in_flight := b \<rparr>) a = worker_fits n s a"
  "worker_fits n (s \<lparr> la_retained := b \<rparr>) a = worker_fits n s a"
  "worker_fits n (s \<lparr> lc_users := u \<rparr>) a = worker_fits n s a"
  "worker_fits n (s \<lparr> lc_parked := u \<rparr>) a = worker_fits n s a"
  "worker_fits n (s \<lparr> la_trace := tr \<rparr>) a = worker_fits n s a"
  "worker_fits n (s \<lparr> la_guard := b \<rparr>) a = worker_fits n s a"
  by (simp_all add: worker_fits_def cong: worker.case_cong)

lemma lease_core_fields [simp]:
  "lease_core n (s \<lparr> la_phase := ph \<rparr>) a = lease_core n s a"
  "lease_core n (s \<lparr> la_armed := b \<rparr>) a = lease_core n s a"
  "lease_core n (s \<lparr> la_start_in_flight := b \<rparr>) a = lease_core n s a"
  "lease_core n (s \<lparr> la_retained := b \<rparr>) a = lease_core n s a"
  "lease_core n (s \<lparr> lc_users := u \<rparr>) a = lease_core n s a"
  "lease_core n (s \<lparr> lc_parked := u \<rparr>) a = lease_core n s a"
  by (simp_all add: lease_core_def)

lemma max_attempts_pos [simp]: "0 < max_attempts p" "Suc 0 \<le> max_attempts p"
  by (simp_all add: max_attempts_def)

text \<open>A step of the worker or the spawning of it leaves everything of the protocol but STOP and withdrawal.\<close>

definition stop_only :: "protocol \<Rightarrow> protocol \<Rightarrow> bool" where
  "stop_only a b \<longleftrightarrow> po_reserved b = po_reserved a \<and> po_exported b = po_exported a \<and> po_start b = po_start a"

definition same_activation :: "'e lease \<Rightarrow> 'e lease \<Rightarrow> bool" where
  "same_activation s t \<longleftrightarrow> la_phase t = la_phase s \<and> la_armed t = la_armed s
     \<and> la_start_in_flight t = la_start_in_flight s \<and> la_retained t = la_retained s
     \<and> lc_users t = lc_users s \<and> lc_parked t = lc_parked s"

lemmas lease_worker_defs =
  begin_attempt_def check_fault_def mark_unacknowledged_def park_unacknowledged_def send_report_def did_def
  lease_error_new_def

lemma start_cleanup_core:
  assumes "lease_core (max_attempts p) s a" "po_reserved a" "po_start a = NoStart \<or> po_start a = StartOver"
  shows "\<exists>b. lease_core (max_attempts p) (start_cleanup f s) b \<and> stop_only a b
             \<and> same_activation s (start_cleanup f s) \<and> cu_phase (start_cleanup f s) \<noteq> Unstarted
             \<and> (po_stop a = StopOver \<longrightarrow> po_stop b = StopOver)"
proof (cases "lc_starter s")
  case False
  with assms show ?thesis
    by (intro exI [of _ a])
       (auto simp: start_cleanup_def lease_core_def worker_fits_def stop_only_def same_activation_def split: worker.splits)
next
  case True
  with assms have cu: "cu_phase s = Unstarted" "po_stop a = NoStop" "\<not> po_withdrawn a"
    by (auto simp: lease_core_def worker_fits_def split: worker.splits)
  show ?thesis
  proof (cases "f = Some False")
    case True
    with \<open>lc_starter s\<close> assms cu show ?thesis
      by (intro exI [of _ "a \<lparr> po_stop := StopRunning 1 \<rparr>"])
         (simp add: start_cleanup_def lease_worker_defs lease_core_def worker_fits_def stop_only_def
           same_activation_def accepts_append)
  next
    case False
    with \<open>lc_starter s\<close> assms cu show ?thesis
      by (intro exI [of _ a])
         (auto simp: start_cleanup_def lease_worker_defs lease_core_def worker_fits_def stop_only_def
           same_activation_def split: option.splits bool.splits)
  qed
qed

lemma stop_timeout_core:
  assumes "lease_core (max_attempts p) s a"
  shows "lease_core (max_attempts p) (stop_timeout s) a \<and> same_activation s (stop_timeout s)
         \<and> (cu_phase (stop_timeout s) = Unstarted \<longleftrightarrow> cu_phase s = Unstarted)"
  using assms
  by (auto simp: stop_timeout_def lease_worker_defs lease_core_def worker_fits_def same_activation_def
      split: worker.splits bool.splits)

lemma withdrawn_core:
  assumes "lease_core (max_attempts p) s a"
  shows "\<exists>b. lease_core (max_attempts p) (withdrawn s) b \<and> stop_only a b \<and> same_activation s (withdrawn s)
         \<and> (cu_phase (withdrawn s) = Unstarted \<longleftrightarrow> cu_phase s = Unstarted)
         \<and> (po_stop a = StopOver \<longrightarrow> po_stop b = StopOver)"
proof (cases "cu_phase s = Withdrawing \<and> la_guard s")
  case True
  with assms show ?thesis
    by (intro exI [of _ "a \<lparr> po_withdrawn := True \<rparr>"])
       (simp add: withdrawn_def did_def lease_core_def worker_fits_def stop_only_def same_activation_def accepts_append)
next
  case False
  with assms show ?thesis
    by (intro exI [of _ a])
       (auto simp: withdrawn_def lease_core_def worker_fits_def stop_only_def same_activation_def)
qed

lemma sleep_over_core:
  assumes "lease_core (max_attempts p) s a"
  shows "\<exists>b. lease_core (max_attempts p) (sleep_over f s) b \<and> stop_only a b \<and> same_activation s (sleep_over f s)
         \<and> (cu_phase (sleep_over f s) = Unstarted \<longleftrightarrow> cu_phase s = Unstarted)
         \<and> (po_stop a = StopOver \<longrightarrow> po_stop b = StopOver)"
proof (cases "(\<exists>k. cu_phase s = Sleeping k) \<and> f = Some False")
  case True
  then obtain k where "cu_phase s = Sleeping k" "f = Some False" by blast
  with assms show ?thesis
    by (intro exI [of _ "a \<lparr> po_stop := StopRunning (Suc k) \<rparr>"])
       (auto simp: sleep_over_def lease_worker_defs lease_core_def worker_fits_def stop_only_def
           same_activation_def accepts_append)
next
  case False
  with assms show ?thesis
    by (intro exI [of _ a])
       (auto simp: sleep_over_def lease_worker_defs lease_core_def worker_fits_def stop_only_def
           same_activation_def split: worker.splits option.splits bool.splits)
qed


lemma stop_answered_core:
  assumes "lease_core (max_attempts p) s a"
  shows "\<exists>b. lease_core (max_attempts p) (stop_answered p r f s) b \<and> stop_only a b
         \<and> same_activation s (stop_answered p r f s)
         \<and> (cu_phase (stop_answered p r f s) = Unstarted \<longleftrightarrow> cu_phase s = Unstarted)
         \<and> (po_stop a = StopOver \<longrightarrow> po_stop b = StopOver)"
proof (cases "\<exists>k late. cu_phase s = Stopping k late")
  case False
  then have "stop_answered p r f s = s" by (auto simp: stop_answered_def split: worker.splits)
  with assms show ?thesis by (intro exI [of _ a]) (simp add: stop_only_def same_activation_def)
next
  case True
  then obtain k late where cu: "cu_phase s = Stopping k late" by blast
  show ?thesis
  proof (cases "\<exists>e. r = Some (StopRetryable e)")
    case True
    then obtain e where r: "r = Some (StopRetryable e)" by blast
    consider "k = max_attempts p" | "k \<noteq> max_attempts p" "f = Some False" | "k \<noteq> max_attempts p" "f = Some True"
      | "k \<noteq> max_attempts p" "f = None" by (cases f) auto
    then show ?thesis using cu assms r
      by cases (intro exI [of _ "a \<lparr> po_stop := StopFailedAt k \<rparr>"],
          simp add: stop_answered_def lease_worker_defs lease_core_def worker_fits_def stop_only_def
           same_activation_def accepts_append Let_def)+
  next
    case False
    show ?thesis
    proof (cases "r = Some StopAcknowledged")
      case True
      with cu assms show ?thesis
        by (intro exI [of _ "a \<lparr> po_stop := StopOver \<rparr>"])
           (auto simp: stop_answered_def lease_worker_defs lease_core_def worker_fits_def stop_only_def
             same_activation_def accepts_append)
    next
      case lost: False
      then consider "r = None" | e where "r = Some (StopUnacknowledged e)"
        using False by (cases r) (auto, metis stop_outcome.exhaust)
      then show ?thesis
        using cu assms
        by cases (intro exI [of _ "a \<lparr> po_stop := StopUnknown \<rparr>"],
            simp add: stop_answered_def lease_worker_defs lease_core_def worker_fits_def stop_only_def
             same_activation_def accepts_append)+
    qed
  qed
qed

subsection \<open>The activation\<close>

text \<open>Steps of the worker keep the activation's side of the relation.\<close>

lemma activation_fits_worker:
  assumes "activation_fits s a" "lease_core n s a" "stop_only a b" "same_activation s t"
    "cu_phase t = Unstarted \<longleftrightarrow> cu_phase s = Unstarted" "po_stop a = StopOver \<longrightarrow> po_stop b = StopOver"
    "t = s \<or> cu_phase s \<noteq> Unstarted" "t = s \<longrightarrow> b = a"
  shows "activation_fits t b"
proof (cases "t = s")
  case True
  with assms show ?thesis by simp
next
  case False
  with assms have "cu_phase s \<noteq> Unstarted" "po_reserved a" by (auto simp: lease_core_def worker_fits_def split: worker.splits)
  with assms False show ?thesis
    by (cases "la_phase s") (simp_all add: activation_fits_def stop_only_def same_activation_def protocol_init_def)
qed

lemma spawned_fits:
  assumes "lease_core (max_attempts p) s a" "po_reserved a" "po_start a = NoStart \<or> po_start a = StartOver"
    and "\<And>b t. stop_only a b \<Longrightarrow> same_activation s t \<Longrightarrow> cu_phase t \<noteq> Unstarted
           \<Longrightarrow> (po_stop a = StopOver \<longrightarrow> po_stop b = StopOver) \<Longrightarrow> activation_fits t b"
  shows "\<exists>b. lease_fits (max_attempts p) (start_cleanup f s) b"
  using start_cleanup_core [OF assms(1-3), of f] assms(4) unfolding lease_fits_core by blast

lemma roll_back_fits:
  assumes "lease_core (max_attempts p) s a" "po_reserved a" "po_start a = NoStart \<or> po_start a = StartOver"
    "la_armed s" "\<not> la_start_in_flight s" "lc_parked s = 0"
  shows "\<exists>b. lease_fits (max_attempts p) (roll_back ph e f s) b"
  unfolding roll_back_def
  by (rule spawned_fits [where a = a])
     (use assms in \<open>auto simp: activation_fits_def stop_only_def same_activation_def\<close>)

lemma reserved_fits:
  assumes "lease_fits (max_attempts p) s a"
  shows "\<exists>b. lease_fits (max_attempts p) (reserved r v f s) b"
proof (cases "la_phase s = AwaitReserve")
  case False
  with assms show ?thesis by (auto simp: reserved_def)
next
  case True
  with assms have init: "a = protocol_init" "cu_phase s = Unstarted" "\<not> la_armed s" "\<not> la_start_in_flight s" "lc_parked s = 0"
    by (auto simp: lease_fits_core activation_fits_def)
  let ?s = "did DidReserve (s \<lparr> la_armed := True, lc_starter := True, lc_users := 1 \<rparr>)"
  let ?a = "a \<lparr> po_reserved := True \<rparr>"
  have core: "lease_core (max_attempts p) ?s ?a"
    using assms init by (simp add: lease_fits_core lease_core_def worker_fits_def did_def accepts_append protocol_init_def)
  show ?thesis
  proof (cases r)
    case (Inr e)
    with True init assms show ?thesis
      by (intro exI [of _ a])
         (simp add: reserved_def lease_fits_core lease_error_new_def activation_fits_def protocol_init_def)
  next
    case (Inl u)
    show ?thesis
    proof (cases v)
      case Inl2: (Inl u')
      from core have "lease_fits (max_attempts p) (?s \<lparr> la_phase := AwaitObject \<rparr>) ?a"
        by (simp add: lease_fits_core) (simp add: activation_fits_def init did_def protocol_init_def)
      then show ?thesis using True Inl Inl2 by (auto simp: reserved_def)
    next
      case (Inr e)
      have "\<exists>b. lease_fits (max_attempts p) (roll_back LValidate (Some e) f ?s) b"
        by (rule roll_back_fits [OF core]) (simp_all add: init protocol_init_def did_def)
      then show ?thesis using True Inl Inr by (simp add: reserved_def)
    qed
  qed
qed

lemma object_made_fits:
  assumes "lease_fits (max_attempts p) s a"
  shows "\<exists>b. lease_fits (max_attempts p) (object_made ob c ad f s) b"
proof (cases "la_phase s = AwaitObject")
  case False
  with assms show ?thesis by (auto simp: object_made_def)
next
  case True
  with assms have act: "po_reserved a" "\<not> po_exported a" "po_start a = NoStart" "cu_phase s = Unstarted" "la_armed s"
    "\<not> la_start_in_flight s" "lc_parked s = 0" "lc_users s = 1" and core: "lease_core (max_attempts p) s a"
    by (auto simp: lease_fits_core activation_fits_def)
  have rolls: "\<exists>b. lease_fits (max_attempts p) (roll_back ph e f s) b"
    "\<exists>b. lease_fits (max_attempts p) (roll_back ph e f (s \<lparr> la_retained := True \<rparr>)) b" for ph and e
    by (rule roll_back_fits [where a = a]; use act core in simp)+
  have go: "lease_fits (max_attempts p) (s \<lparr> la_retained := True, la_phase := AwaitExport \<rparr>) a"
    using core act by (simp add: lease_fits_core) (simp add: activation_fits_def)
  show ?thesis using True rolls go
    by (auto simp: object_made_def Let_def split: sum.splits option.splits)
qed


lemma exported_fits:
  assumes "lease_fits (max_attempts p) s a"
  shows "\<exists>b. lease_fits (max_attempts p) (exported ok f s) b"
proof (cases "la_phase s = AwaitExport")
  case False
  with assms show ?thesis by (auto simp: exported_def)
next
  case True
  with assms have act: "po_reserved a" "\<not> po_exported a" "po_start a = NoStart" "cu_phase s = Unstarted" "la_armed s"
    "\<not> la_start_in_flight s" "lc_parked s = 0" "lc_users s = 1" and core: "lease_core (max_attempts p) s a"
    by (auto simp: lease_fits_core activation_fits_def)
  have "\<exists>b. lease_fits (max_attempts p) (roll_back LExport None f s) b"
    by (rule roll_back_fits [OF core]) (use act in simp_all)
  moreover have "lease_fits (max_attempts p) (exported True f s) (a \<lparr> po_exported := True, po_start := StartRunning \<rparr>)"
    using True act core
    by (simp add: exported_def did_def lease_fits_def lease_core_def worker_fits_def activation_fits_def accepts_append)
  ultimately show ?thesis using True by (cases ok) (auto simp: exported_def)
qed

lemma started_fits:
  assumes "lease_fits (max_attempts p) s a"
  shows "\<exists>b. lease_fits (max_attempts p) (started r f s) b"
proof (cases "la_phase s = AwaitStart")
  case False
  with assms show ?thesis by (auto simp: started_def)
next
  case True
  with assms have act: "po_reserved a" "po_exported a" "po_start a = StartRunning" "cu_phase s = Unstarted" "la_armed s"
    "la_start_in_flight s" "lc_parked s = 0" "lc_users s = 1" and core: "lease_core (max_attempts p) s a"
    by (auto simp: lease_fits_core activation_fits_def)
  have settled: "lease_core (max_attempts p) (did StartSettled s) (a \<lparr> po_start := StartOver \<rparr>)"
    and lost: "lease_core (max_attempts p) (did StartLost s) (a \<lparr> po_start := StartUnknown \<rparr>)"
    using act core by (simp_all add: lease_core_def worker_fits_def did_def accepts_append)
  have parked: "lease_fits (max_attempts p) ((park_activation (did StartLost s)) \<lparr> la_phase := LeaseFailed (lease_error_new LStart None False e) \<rparr>)
      (a \<lparr> po_start := StartUnknown \<rparr>)" for e
    using lost act
    by (simp add: lease_fits_core park_activation_def)
       (simp add: activation_fits_def did_def lease_error_new_def lease_core_def worker_fits_def)
  have rolls: "\<exists>b. lease_fits (max_attempts p) (roll_back LStart e f (did StartSettled (s \<lparr> la_start_in_flight := False \<rparr>))) b" for e
    by (rule roll_back_fits [where a = "a \<lparr> po_start := StartOver \<rparr>"])
       (use act settled in \<open>simp_all add: lease_core_def worker_fits_def did_def\<close>)
  have good: "lease_fits (max_attempts p) (started (Some StartStarted) f s) (a \<lparr> po_start := StartOver \<rparr>)"
    using True act core
    by (simp add: started_def did_def lease_fits_def lease_core_def worker_fits_def activation_fits_def accepts_append)
  consider "r = None" | "r = Some StartStarted" | e where "r = Some (StartSettledFailure e)"
    | e where "r = Some (StartUnacknowledged e)" by (cases r) (auto, metis start_outcome.exhaust)
  then show ?thesis
    using True parked rolls good by cases (auto simp: started_def)
qed

lemma rolled_back_fits:
  assumes "lease_fits (max_attempts p) s a"
  shows "\<exists>b. lease_fits (max_attempts p) (rolled_back f s) b"
proof (cases "\<exists>ph e. la_phase s = RollingBack ph e")
  case False
  with assms show ?thesis by (auto simp: rolled_back_def split: activation.splits)
next
  case True
  then obtain ph e where ph: "la_phase s = RollingBack ph e" by blast
  with assms have act: "po_start a \<noteq> StartRunning" "cu_phase s \<noteq> Unstarted" "la_armed s" "\<not> la_start_in_flight s" "lc_parked s = 0"
    and core: "lease_core (max_attempts p) s a"
    by (auto simp: lease_fits_core activation_fits_def)
  then have cs: "\<not> lc_starter s" "po_start a = NoStart \<or> po_start a = StartOver" "lc_state s = CloseAcknowledged \<longrightarrow> po_stop a = StopOver"
    by (auto simp: lease_core_def worker_fits_def split: worker.splits)
  have "lease_fits (max_attempts p) (fail_activation (lease_error_new ph None ok e) f s) a"
    if "ok \<longrightarrow> lc_state s = CloseAcknowledged" for ok
    using act core cs that
    by (simp add: lease_fits_core fail_activation_def rollback_drop_def start_cleanup_def)
       (auto simp: activation_fits_def lease_error_new_def)
  then have "lease_fits (max_attempts p) (rolled_back f s) a"
    using ph assms by (simp add: rolled_back_def split: close_state.splits)
  then show ?thesis by blast
qed

lemma activation_dropped_fits:
  assumes "lease_fits (max_attempts p) s a"
  shows "\<exists>b. lease_fits (max_attempts p) (activation_dropped f s) b"
proof (cases "(\<exists>e. la_phase s = LeaseFailed e) \<or> la_phase s = Leased \<or> la_phase s = ActivationGone")
  case True
  with assms show ?thesis by (auto simp: activation_dropped_def)
next
  case live: False
  have core: "lease_core (max_attempts p) s a" and fit: "activation_fits s a" using assms by (auto simp: lease_fits_core)
  show ?thesis
  proof (cases "la_phase s = AwaitStart")
    case True
    with fit core have "lease_core (max_attempts p) (did StartLost s) (a \<lparr> po_start := StartUnknown \<rparr>)"
      by (simp add: activation_fits_def lease_core_def worker_fits_def did_def accepts_append)
    then have "lease_fits (max_attempts p) (activation_dropped f s) (a \<lparr> po_start := StartUnknown \<rparr>)"
      using True fit
      by (simp add: activation_dropped_def rollback_drop_def did_def park_activation_def lease_fits_core)
         (simp add: activation_fits_def)
    then show ?thesis by blast
  next
    case False
    show ?thesis
    proof (cases "la_phase s = AwaitReserve")
      case True
      with fit core have "lease_fits (max_attempts p) (activation_dropped f s) a"
        by (simp add: activation_dropped_def rollback_drop_def activation_fits_def lease_fits_core protocol_init_def)
      then show ?thesis by blast
    next
      case some: False
      with live False fit core have act: "po_reserved a" "po_start a = NoStart \<or> po_start a = StartOver" "la_armed s"
        "\<not> la_start_in_flight s" "lc_parked s = 0"
        by (cases "la_phase s"; auto simp: activation_fits_def lease_core_def worker_fits_def split: worker.splits)+
      obtain b where b: "lease_core (max_attempts p) (start_cleanup f s) b" "stop_only a b"
        "same_activation s (start_cleanup f s)" "cu_phase (start_cleanup f s) \<noteq> Unstarted"
        using start_cleanup_core [OF core act(1,2), of f] by blast
      then have "lease_fits (max_attempts p) (activation_dropped f s) b"
        using live False some act
        by (simp add: activation_dropped_def rollback_drop_def lease_fits_core)
           (auto simp: activation_fits_def stop_only_def same_activation_def)
      then show ?thesis by blast
    qed
  qed
qed


subsection \<open>Every step\<close>

lemma lease_clone_fits:
  assumes "lease_fits (max_attempts p) s a"
  shows "\<exists>b. lease_fits (max_attempts p) (lease_clone s) b"
proof (cases "la_phase s = Leased \<and> 0 < lc_users s")
  case True
  with assms have "lease_fits (max_attempts p) (lease_clone s) a"
    by (simp add: lease_clone_def lease_fits_core) (simp add: activation_fits_def)
  then show ?thesis by blast
next
  case False
  with assms show ?thesis by (auto simp: lease_clone_def)
qed

lemma lease_drop_fits:
  assumes "lease_fits (max_attempts p) s a"
  shows "\<exists>b. lease_fits (max_attempts p) (lease_drop f s) b"
proof (cases "la_phase s = Leased \<and> 0 < lc_users s")
  case False
  with assms show ?thesis by (auto simp: lease_drop_def)
next
  case True
  with assms have act: "po_reserved a" "po_exported a" "po_start a = StartOver" "\<not> la_armed s" "lc_parked s = 0"
    and core: "lease_core (max_attempts p) s a" by (auto simp: lease_fits_core activation_fits_def)
  have "\<exists>b. lease_fits (max_attempts p) (start_cleanup f (s \<lparr> lc_users := lc_users s - 1 \<rparr>)) b"
    by (rule spawned_fits [where a = a])
       (use act core True in \<open>auto simp: activation_fits_def stop_only_def same_activation_def\<close>)
  moreover have "lease_fits (max_attempts p) (s \<lparr> lc_users := lc_users s - 1 \<rparr>) a" if "lc_users s \<noteq> 1"
    using assms that True by (simp add: lease_fits_core) (simp add: activation_fits_def)
  ultimately show ?thesis using True by (auto simp: lease_drop_def Let_def)
qed

lemma lease_close_fits:
  assumes "lease_fits (max_attempts p) s a"
  shows "\<exists>b. lease_fits (max_attempts p) (lease_close f s) b"
proof (cases "la_phase s = Leased \<and> 0 < lc_users s")
  case False
  with assms show ?thesis by (auto simp: lease_close_def)
next
  case True
  with assms have act: "po_reserved a" "po_exported a" "po_start a = StartOver" "\<not> la_armed s" "lc_parked s = 0"
    and core: "lease_core (max_attempts p) s a" by (auto simp: lease_fits_core activation_fits_def)
  have "\<exists>b. lease_fits (max_attempts p) (start_cleanup f s) b"
    by (rule spawned_fits [where a = a])
       (use act core True in \<open>auto simp: activation_fits_def stop_only_def same_activation_def\<close>)
  with True show ?thesis by (simp add: lease_close_def)
qed

lemma worker_step_fits:
  assumes fits: "lease_fits n s a" and idle: "cu_phase s = Unstarted \<longrightarrow> t = s"
    and step: "\<exists>b. lease_core n t b \<and> stop_only a b \<and> same_activation s t
         \<and> (cu_phase t = Unstarted \<longleftrightarrow> cu_phase s = Unstarted) \<and> (po_stop a = StopOver \<longrightarrow> po_stop b = StopOver)"
  shows "\<exists>b. lease_fits n t b"
proof (cases "t = s")
  case True
  with fits show ?thesis by blast
next
  case False
  with idle step fits show ?thesis
    unfolding lease_fits_core using activation_fits_worker by metis
qed

lemma unstarted_worker_rests:
  assumes "cu_phase s = Unstarted"
  shows "stop_timeout s = s" "stop_answered p r f s = s" "sleep_over f s = s" "withdrawn s = s"
  using assms by (simp_all add: stop_timeout_def stop_answered_def sleep_over_def withdrawn_def)

lemma lease_step_fits:
  assumes "lease_fits (max_attempts p) s a"
  shows "\<exists>b. lease_fits (max_attempts p) (lease_step p ev s) b"
proof (cases ev)
  case EStopTimeout
  show ?thesis
    by (rule worker_step_fits [OF assms])
       (use stop_timeout_core [of p s a] assms EStopTimeout unstarted_worker_rests in
          \<open>auto simp: lease_fits_core stop_only_def\<close>)
next
  case (EStopAnswered r f)
  show ?thesis
    by (rule worker_step_fits [OF assms])
       (use stop_answered_core [of p s a r f] assms EStopAnswered unstarted_worker_rests in \<open>auto simp: lease_fits_core\<close>)
next
  case (ESleepOver f)
  show ?thesis
    by (rule worker_step_fits [OF assms])
       (use sleep_over_core [of p s a f] assms ESleepOver unstarted_worker_rests in \<open>auto simp: lease_fits_core\<close>)
next
  case EWithdrawn
  show ?thesis
    by (rule worker_step_fits [OF assms])
       (use withdrawn_core [of p s a] assms EWithdrawn unstarted_worker_rests in \<open>auto simp: lease_fits_core\<close>)
qed (use assms reserved_fits object_made_fits exported_fits started_fits rolled_back_fits activation_dropped_fits
       lease_clone_fits lease_drop_fits lease_close_fits in \<open>auto\<close>)

lemma lease_run_fits: "\<exists>a. lease_fits (max_attempts p) (lease_run p evs) a"
proof (induction evs rule: rev_induct)
  case Nil
  have "lease_fits (max_attempts p) (lease_new :: 'a lease) protocol_init"
    by (simp add: lease_fits_def lease_new_def worker_fits_def activation_fits_def protocol_init_def)
  then show ?case by (auto simp: lease_run_def)
next
  case (snoc ev evs)
  then show ?case using lease_step_fits by (fastforce simp: lease_run_def)
qed

section \<open>Properties\<close>

text \<open>
  C11. The STOP protocol of a lease is kept in every run, whatever the driver, the reporter and the
  drops of handles and tasks do: what the code asks of its driver is a run of the protocol automaton.
  START is called at most once and on an exported callback only; no STOP is issued while a START may
  be active or after a STOP whose end is unknown; STOP attempts are numbered from 1, each after the
  settled failure of the one before, and at most \<open>retry_delays.len() + 1\<close>; the callback is withdrawn
  once, after an acknowledged STOP.
\<close>
theorem lease_protocol_is_kept: "accepts (max_attempts p) protocol_init (la_trace (lease_run p evs)) \<noteq> None"
  using lease_run_fits [of p evs] by (auto simp: lease_fits_def)

text \<open>What the protocol's state says of the trace.\<close>

definition tells :: "protocol \<Rightarrow> lease_action list \<Rightarrow> bool" where
  "tells a tr \<longleftrightarrow> (po_reserved a = (DidReserve \<in> set tr)) \<and> (po_exported a = (DidExport \<in> set tr))
     \<and> ((po_start a = StartUnknown) = (StartLost \<in> set tr)) \<and> ((po_start a = StartOver) = (StartSettled \<in> set tr))
     \<and> ((po_stop a = StopOver) = (\<exists>k. StopDone k \<in> set tr)) \<and> (po_withdrawn a = (Withdrew \<in> set tr))"

lemma allowed_effect:
  assumes "allowed n x a = Some b"
  shows "po_reserved b = (po_reserved a \<or> x = DidReserve)"
    and "po_exported b = (po_exported a \<or> x = DidExport)"
    and "(po_start b = StartUnknown) = (po_start a = StartUnknown \<or> x = StartLost)"
    and "(po_start b = StartOver) = (po_start a = StartOver \<or> x = StartSettled)"
    and "(po_stop b = StopOver) = (po_stop a = StopOver \<or> (\<exists>k. x = StopDone k))"
    and "po_withdrawn b = (po_withdrawn a \<or> x = Withdrew)"
  using assms by (cases x; simp split: if_splits; (elim conjE)?; force)+

lemma allowed_tells: "allowed n x a = Some b \<Longrightarrow> tells a tr \<Longrightarrow> tells b (tr @ [x])"
  unfolding tells_def allowed_effect by auto

lemma accepts_tells:
  "accepts n protocol_init tr = Some a \<Longrightarrow> tells a tr"
proof (induction tr arbitrary: a rule: rev_induct)
  case Nil
  then show ?case by (auto simp: tells_def protocol_init_def)
next
  case (snoc x tr)
  then obtain b where "accepts n protocol_init tr = Some b" "allowed n x b = Some a"
    by (auto simp: accepts_append split: option.splits)
  with snoc.IH allowed_tells show ?case by blast
qed

lemma lease_run_tells:
  obtains a where "lease_fits (max_attempts p) (lease_run p evs) a" "tells a (la_trace (lease_run p evs))"
  using lease_run_fits [of p evs] accepts_tells by (auto simp: lease_fits_def)

lemma accepts_exported:
  "accepts n protocol_init tr = Some a \<Longrightarrow> po_start a \<noteq> NoStart \<longrightarrow> po_exported a"
proof (induction tr arbitrary: a rule: rev_induct)
  case Nil
  then show ?case by (auto simp: protocol_init_def)
next
  case (snoc x tr)
  then obtain b where "accepts n protocol_init tr = Some b" "allowed n x b = Some a"
    by (auto simp: accepts_append split: option.splits)
  with snoc.IH show ?case by (cases x) (auto split: if_splits)
qed

lemma lost_start_was_exported:
  "StartLost \<in> set (la_trace (lease_run p evs)) \<Longrightarrow> DidExport \<in> set (la_trace (lease_run p evs))"
proof -
  assume lost: "StartLost \<in> set (la_trace (lease_run p evs))"
  obtain a where a: "lease_fits (max_attempts p) (lease_run p evs) a" "tells a (la_trace (lease_run p evs))"
    by (rule lease_run_tells)
  from a(2) lost have "po_start a = StartUnknown" by (simp add: tells_def)
  moreover have "po_start a \<noteq> NoStart \<longrightarrow> po_exported a"
    using a(1) accepts_exported by (auto simp: lease_fits_def)
  ultimately show ?thesis using a(2) by (simp add: tells_def)
qed

text \<open>
  The callback outlives every STOP that was not acknowledged. In every run, an exported callback
  stays served until an acknowledged STOP withdrew it; a \<open>close\<close> that reports success, and an
  activation error that claims its rollback was acknowledged, are about a STOP the driver did
  acknowledge, and after a successful \<open>close\<close> the callback is gone.
\<close>
theorem callback_outlives_stop:
  fixes p :: retry_policy and evs :: "'e lease_event list"
  defines "s \<equiv> lease_run p evs"
  shows "(la_guard s \<longleftrightarrow> DidExport \<in> set (la_trace s) \<and> Withdrew \<notin> set (la_trace s))
    \<and> (Withdrew \<in> set (la_trace s) \<longrightarrow> (\<exists>k. StopDone k \<in> set (la_trace s)))
    \<and> (close_result s = Some (Inl ()) \<longrightarrow> (\<exists>k. StopDone k \<in> set (la_trace s)) \<and> \<not> la_guard s)
    \<and> (\<forall>e. la_phase s = LeaseFailed e \<and> le_acknowledged e \<longrightarrow> (\<exists>k. StopDone k \<in> set (la_trace s)))"
proof -
  obtain a where a: "lease_fits (max_attempts p) s a" "tells a (la_trace s)" unfolding s_def by (rule lease_run_tells)
  then have w: "worker_fits (max_attempts p) s a" "la_guard s = (po_exported a \<and> \<not> po_withdrawn a)"
    by (auto simp: lease_fits_def)
  then have "po_withdrawn a \<longrightarrow> po_stop a = StopOver" "lc_state s = CloseAcknowledged \<longrightarrow> po_stop a = StopOver \<and> po_withdrawn a = po_exported a"
    by (auto simp: worker_fits_def split: worker.splits)
  moreover have "\<forall>e. la_phase s = LeaseFailed e \<and> le_acknowledged e \<longrightarrow> po_stop a = StopOver"
    using a(1) by (auto simp: lease_fits_core activation_fits_def)
  ultimately show ?thesis
    using a(2) w(2) by (auto simp: tells_def close_result_def split: close_state.splits)
qed

text \<open>
  C10. Cleanup is never lost. In every run in which the module granted a reservation: once the
  activation failed, was dropped at any await, or its last handle was dropped, the cleanup worker is
  running or has run, unless a START was left unacknowledged; then nothing stops the module and the
  control and the callback stay parked for the life of the runtime.
\<close>
theorem cleanup_is_never_lost:
  fixes p :: retry_policy and evs :: "'e lease_event list"
  defines "s \<equiv> lease_run p evs"
  assumes "DidReserve \<in> set (la_trace s)"
    and "(\<exists>e. la_phase s = LeaseFailed e) \<or> la_phase s = ActivationGone \<or> (la_phase s = Leased \<and> lc_users s = 0)"
  shows "if StartLost \<in> set (la_trace s) then cu_phase s = Unstarted \<and> lc_parked s = 1 \<and> la_guard s
         else cu_phase s \<noteq> Unstarted \<and> lc_parked s = 0"
proof -
  obtain a where a: "lease_fits (max_attempts p) s a" "tells a (la_trace s)" unfolding s_def by (rule lease_run_tells)
  have started: "StartLost \<in> set (la_trace s) \<longrightarrow> DidExport \<in> set (la_trace s)"
    unfolding s_def using lost_start_was_exported by blast
  have "po_start a = StartUnknown \<longrightarrow> cu_phase s = Unstarted \<and> \<not> po_withdrawn a"
    using a(1) by (auto simp: lease_fits_def worker_fits_def split: worker.splits)
  moreover have "po_start a \<noteq> StartUnknown \<longrightarrow> cu_phase s \<noteq> Unstarted"
    "lc_parked s = (if po_start a = StartUnknown then 1 else 0)"
    using assms(2,3) a by (auto simp: lease_fits_core activation_fits_def tells_def)
  ultimately show ?thesis using a started by (auto simp: lease_fits_def tells_def)
qed


subsection \<open>The end of a close\<close>

text \<open>
  A turn of the worker: the driver's STOP hangs past its time or answers, the delay passes, or the
  callback is withdrawn.
\<close>

definition worker_turn ::
  "retry_policy \<Rightarrow> bool \<times> 'e stop_outcome option \<times> bool option \<Rightarrow> 'e lease \<Rightarrow> 'e lease" where
  "worker_turn p t s =
     (case t of (hangs, outcome, fault) \<Rightarrow>
       (case cu_phase s of
          Stopping _ _ \<Rightarrow> if hangs then stop_timeout s else stop_answered p outcome fault s
        | Sleeping _ \<Rightarrow> sleep_over fault s
        | Withdrawing \<Rightarrow> withdrawn s
        | _ \<Rightarrow> s))"

definition worker_rank :: "nat \<Rightarrow> 'e lease \<Rightarrow> nat" where
  "worker_rank n s =
     (case cu_phase s of
        Stopping k _ \<Rightarrow> 2 * (n - k) + 2
      | Sleeping k \<Rightarrow> 2 * (n - k) + 1
      | Withdrawing \<Rightarrow> 1
      | _ \<Rightarrow> 0)"

definition worker_live :: "nat \<Rightarrow> 'e lease \<Rightarrow> bool" where
  "worker_live n s \<longleftrightarrow> (\<exists>a. lease_core n s a) \<and> cu_phase s \<noteq> Unstarted"

lemma worker_turn_live:
  assumes "worker_live (max_attempts p) s"
  shows "worker_live (max_attempts p) (worker_turn p t s)"
proof -
  obtain a h r f where a: "lease_core (max_attempts p) s a" "cu_phase s \<noteq> Unstarted" and t: "t = (h, r, f)"
    using assms by (cases t) (auto simp: worker_live_def)
  show ?thesis
    using stop_timeout_core [OF a(1)] stop_answered_core [OF a(1), of r f] sleep_over_core [OF a(1), of f]
      withdrawn_core [OF a(1)] a
    unfolding worker_live_def t worker_turn_def
    by (cases "cu_phase s") (auto simp del: max_attempts_pos)
qed

lemma close_result_live:
  assumes "worker_live n s"
  shows "close_result s = None \<longleftrightarrow> lc_state s = CloseRunning"
  using assms by (cases "cu_phase s") (auto simp: worker_live_def lease_core_def worker_fits_def close_result_def
      split: close_state.splits)

lemma worker_turn_answers:
  assumes "worker_live (max_attempts p) s" "lc_state s \<noteq> CloseRunning"
  shows "lc_state (worker_turn p t s) \<noteq> CloseRunning"
  using assms(2)
  by (auto simp: worker_turn_def stop_timeout_def stop_answered_def sleep_over_def withdrawn_def lease_worker_defs Let_def
      split: worker.splits option.splits stop_outcome.splits bool.splits prod.splits)

lemma worker_turn_rank:
  assumes "worker_live (max_attempts p) s" "lc_state s = CloseRunning" "lc_state (worker_turn p t s) = CloseRunning"
  shows "worker_rank (max_attempts p) (worker_turn p t s) < worker_rank (max_attempts p) s"
proof -
  obtain a h r f where a: "worker_fits (max_attempts p) s a" "cu_phase s \<noteq> Unstarted" and t: "t = (h, r, f)"
    using assms(1) by (cases t) (auto simp: worker_live_def lease_core_def)
  show ?thesis
  proof (cases "cu_phase s")
    case (Stopping k late)
    with a assms(2,3) show ?thesis
      by (auto simp: t worker_turn_def stop_timeout_def stop_answered_def lease_worker_defs Let_def worker_rank_def worker_fits_def
          split: option.splits stop_outcome.splits bool.splits if_splits)
  next
    case (Sleeping k)
    with a assms(2,3) show ?thesis
      by (auto simp: t worker_turn_def sleep_over_def lease_worker_defs worker_rank_def worker_fits_def
          split: option.splits bool.splits)
  next
    case Withdrawing
    with assms(3) show ?thesis by (simp add: t worker_turn_def withdrawn_def)
  qed (use a assms(2) in \<open>auto simp: worker_fits_def\<close>)
qed

lemma worker_turns_answer:
  assumes "worker_live (max_attempts p) s" "lc_state s \<noteq> CloseRunning \<or> worker_rank (max_attempts p) s \<le> length ts"
  shows "lc_state (fold (worker_turn p) ts s) \<noteq> CloseRunning"
  using assms
proof (induction ts arbitrary: s)
  case Nil
  then show ?case
    by (auto simp: worker_live_def worker_rank_def lease_core_def worker_fits_def split: worker.splits)
next
  case (Cons t ts)
  have "lc_state (worker_turn p t s) \<noteq> CloseRunning \<or> worker_rank (max_attempts p) (worker_turn p t s) \<le> length ts"
    using Cons.prems worker_turn_answers [of p s t] worker_turn_rank [of p s t] by fastforce
  with Cons.IH worker_turn_live [OF Cons.prems(1)] show ?case by simp
qed

lemma worker_turns_live:
  "worker_live (max_attempts p) s \<Longrightarrow> worker_live (max_attempts p) (fold (worker_turn p) ts s)"
  by (induction ts arbitrary: s) (simp_all add: worker_turn_live)

text \<open>
  C34. \<open>close\<close> always returns. From any run that reached a live handle, and whatever the driver does
  with each STOP - acknowledge, fail, panic, fault or hang past its time -, the wait of \<open>close\<close> is
  over after at most two turns of the worker per attempt of the policy.
\<close>
theorem close_returns:
  fixes p :: retry_policy and evs :: "'e lease_event list"
  assumes "la_phase (lease_run p evs) = Leased" "0 < lc_users (lease_run p evs)"
    and "2 * max_attempts p \<le> length ts"
  shows "close_result (fold (worker_turn p) ts (lease_close f (lease_run p evs))) \<noteq> None"
proof -
  let ?s = "lease_run p evs"
  obtain a where a: "lease_fits (max_attempts p) ?s a" using lease_run_fits by blast
  then have act: "po_reserved a" "po_start a = StartOver" using assms(1) by (auto simp: lease_fits_core activation_fits_def)
  have live: "worker_live (max_attempts p) (lease_close f ?s)"
    using start_cleanup_core [of p ?s a f] a act assms(1,2)
    by (auto simp: worker_live_def lease_close_def lease_fits_core)
  have "worker_rank (max_attempts p) (lease_close f ?s) \<le> 2 * max_attempts p"
    using live by (auto simp: worker_live_def worker_rank_def lease_core_def worker_fits_def split: worker.splits)
  then have "lc_state (fold (worker_turn p) ts (lease_close f ?s)) \<noteq> CloseRunning"
    using worker_turns_answer [OF live] assms(3) by auto
  with close_result_live [OF worker_turns_live [OF live]] show ?thesis by simp
qed

section \<open>Witnesses\<close>

definition sample_activation :: "string lease_event list" where
  "sample_activation =
     [EReserved (Inl ()) (Inl ()) None, EObject (Inl ()) (Some (Inl ())) (Inl ()) None, EExported True None,
      EStarted (Some StartStarted) None]"

lemmas lease_eval =
  sample_activation_def lease_run_def lease_new_def reserved_def object_made_def exported_def started_def
  lease_drop_def lease_close_def start_cleanup_def stop_answered_def withdrawn_def lease_worker_defs max_attempts_def

lemma cleanup_is_never_lost_witness:
  "cu_phase (lease_run \<lparr> rp_timeout = 5, rp_delays = [] \<rparr> (sample_activation @ [EDrop (Some False)])) \<noteq> Unstarted"
proof -
  let ?s = "lease_run \<lparr> rp_timeout = 5, rp_delays = [] \<rparr> (sample_activation @ [EDrop (Some False)])"
  have "DidReserve \<in> set (la_trace ?s)" "la_phase ?s = Leased \<and> lc_users ?s = 0" "StartLost \<notin> set (la_trace ?s)"
    by (simp_all add: lease_eval)
  with cleanup_is_never_lost [of "\<lparr> rp_timeout = 5, rp_delays = [] \<rparr>" "sample_activation @ [EDrop (Some False)]"]
  show ?thesis by simp
qed

lemma close_returns_witness:
  "close_result (fold (worker_turn \<lparr> rp_timeout = 5, rp_delays = [7] \<rparr>)
       [(False, Some (StopRetryable ''busy''), Some False), (False, None, Some False), (True, None, None), (True, None, None)]
       (lease_close (Some False) (lease_run \<lparr> rp_timeout = 5, rp_delays = [7] \<rparr> sample_activation))) \<noteq> None"
  by (rule close_returns) (simp_all add: lease_eval)


lemma callback_outlives_stop_witness:
  "StopDone 1 \<in> set (la_trace (lease_run \<lparr> rp_timeout = 5, rp_delays = [] \<rparr>
      (sample_activation @ [EClose (Some False), EStopAnswered (Some StopAcknowledged) None, EWithdrawn])))"
proof -
  let ?s = "lease_run \<lparr> rp_timeout = 5, rp_delays = [] \<rparr>
      (sample_activation @ [EClose (Some False), EStopAnswered (Some StopAcknowledged) None, EWithdrawn])"
  have "close_result ?s = Some (Inl ())" "la_trace ?s =
      [DidReserve, DidExport, CalledStart, StartSettled, CalledStop 1, StopDone 1, Withdrew]"
    by (simp_all add: lease_eval close_result_def)
  with callback_outlives_stop [of "\<lparr> rp_timeout = 5, rp_delays = [] \<rparr>"
      "sample_activation @ [EClose (Some False), EStopAnswered (Some StopAcknowledged) None, EWithdrawn]"]
  show ?thesis by simp
qed

end
