(* ===== verification/HostObjects.thy ===== *)
theory HostObjects
  imports Broker BusClient
begin

text \<open>
  The objects a module runtime serves for its host (\<open>module/runtime.rs\<close>): the registry that shares
  one bus-name claim among all registrations under that name, the export transaction, and the
  removal a dropped guard schedules.

  The registry's lock is held over a whole transaction; between its awaits the broker and the
  connection may change. A transaction therefore runs in three steps: entry, the answer to the owner
  query with the claim, and the end of the registration task. A guard is live until its removal ran.
\<close>

record host_name_lease =
  hl_registrations :: nat
  hl_release_when_empty :: bool

record host_guard =
  hg_name :: bus_name
  hg_registration :: object_registration

text \<open>Where the transaction that holds the registry's lock waits.\<close>

datatype 'i host_transaction =
    TxFree
  | TxOwner bus_name bus_name object_path 'i
  | TxRegister bus_name object_path 'i bool

record ('h, 'i) host_objects =
  ho_broker :: "'h broker"
  ho_conn :: "'i connection"
  ho_names :: "(bus_name, host_name_lease) hashmap"
  ho_tx :: "'i host_transaction"
  ho_guards :: "host_guard list"
  ho_answers :: "unit result list"

definition host_objects_new :: "'h broker \<Rightarrow> 'i connection \<Rightarrow> ('h, 'i) host_objects" where
  "host_objects_new b cn =
     \<lparr> ho_broker = b, ho_conn = cn, ho_names = [], ho_tx = TxFree, ho_guards = [], ho_answers = [] \<rparr>"

definition transaction_ends :: "unit result \<Rightarrow> ('h, 'i) host_objects \<Rightarrow> ('h, 'i) host_objects" where
  "transaction_ends r st = st \<lparr> ho_tx := TxFree, ho_answers := ho_answers st @ [r] \<rparr>"

definition serve_host_object ::
  "bus_name \<Rightarrow> object_path \<Rightarrow> 'i \<Rightarrow> ('h, 'i) host_objects \<Rightarrow> ('h, 'i) host_objects" where
  "serve_host_object name path i st =
     (if ho_tx st \<noteq> TxFree then st
      else (case cn_name (ho_conn st) of
          None \<Rightarrow> transaction_ends (Inl ConnectionClosed) st
        | Some unique \<Rightarrow> st \<lparr> ho_tx := TxOwner unique name path i \<rparr>))"

text \<open>The owner query was answered (only its failure matters); the name is claimed.\<close>

definition owner_answered :: "'a result \<Rightarrow> ('h, 'i) host_objects \<Rightarrow> ('h, 'i) host_objects" where
  "owner_answered answer st =
     (case ho_tx st of
        TxOwner unique name path i \<Rightarrow>
          (case answer of
             Inl e \<Rightarrow> transaction_ends (Inl e) st
           | Inr _ \<Rightarrow>
               (case claim_host_name unique name (ho_broker st) of
                  (Inl _, b) \<Rightarrow>
                    transaction_ends (Inl (failed ''host object bus name is already owned'')) (st \<lparr> ho_broker := b \<rparr>)
                | (Inr newly_claimed, b) \<Rightarrow>
                    st \<lparr> ho_broker := b,
                         ho_tx := TxRegister name path i
                           (newly_claimed \<or> (case hget (ho_names st) name of
                              Some lease \<Rightarrow> hl_release_when_empty lease | None \<Rightarrow> False)) \<rparr>))
      | _ \<Rightarrow> st)"

definition release_claim :: "bus_name \<Rightarrow> ('h, 'i) host_objects \<Rightarrow> ('h, 'i) host_objects" where
  "release_claim name st =
     (case cn_name (ho_conn st) of
        Some unique \<Rightarrow> st \<lparr> ho_broker := snd (release_host_name unique name (ho_broker st)) \<rparr>
      | None \<Rightarrow> st)"

text \<open>
  The registration task ended; \<open>panics\<close> when the interface's \<open>name\<close> panicked. A failure takes a
  fresh claim back, a success counts the registration and hands out its guard.
\<close>

definition registration_ended ::
  "('i, 'u) interface_impl \<Rightarrow> bool \<Rightarrow> ('h, 'i) host_objects \<Rightarrow> ('h, 'i) host_objects" where
  "registration_ended im panics st =
     (case ho_tx st of
        TxRegister name path i release_when_empty \<Rightarrow>
          (case (if panics then None else serve_at_owned im path i (ho_conn st)) of
             None \<Rightarrow>
               transaction_ends (Inl (failed ''host object interface registration task failed''))
                 (if \<not> release_when_empty then st
                  else (case hget (ho_names st) name of
                      Some lease \<Rightarrow> st \<lparr> ho_names := hput name (lease \<lparr> hl_release_when_empty := True \<rparr>) (ho_names st) \<rparr>
                    | None \<Rightarrow> release_claim name st))
           | Some (reg, cn) \<Rightarrow>
               (let lease = (case hget (ho_names st) name of Some l \<Rightarrow> l
                      | None \<Rightarrow> \<lparr> hl_registrations = 0, hl_release_when_empty = release_when_empty \<rparr>);
                    lease' = \<lparr> hl_registrations = hl_registrations lease + 1,
                               hl_release_when_empty = (hl_release_when_empty lease \<or> release_when_empty) \<rparr> in
                transaction_ends (Inr ())
                  (st \<lparr> ho_conn := cn, ho_names := hput name lease' (ho_names st),
                        ho_guards := ho_guards st @ [\<lparr> hg_name = name, hg_registration = reg \<rparr>] \<rparr>)))
      | _ \<Rightarrow> st)"

text \<open>
  \<open>remove_host_object\<close> for a guard that was dropped or removed: its registration is taken back if it
  is still the one exported, and the last guard of a name gives up the claim if the helper made it.
\<close>

definition remove_host_object :: "bus_name \<Rightarrow> object_registration \<Rightarrow> ('h, 'i) host_objects \<Rightarrow> 'i option \<times> ('h, 'i) host_objects" where
  "remove_host_object name reg st =
     (case conn_take_if_owned reg (ho_conn st) of
        (detached, cn) \<Rightarrow>
          (let st1 = st \<lparr> ho_conn := cn \<rparr> in
           case hget (ho_names st) name of
             None \<Rightarrow> (detached, st1)
           | Some lease \<Rightarrow>
               (if hl_registrations lease - 1 = 0
                then (let st2 = st1 \<lparr> ho_names := hdel name (ho_names st) \<rparr> in
                      (detached, if hl_release_when_empty lease then release_claim name st2 else st2))
                else (detached, st1 \<lparr> ho_names := hput name (lease \<lparr> hl_registrations := hl_registrations lease - 1 \<rparr>) (ho_names st) \<rparr>))))"

definition guard_removed :: "nat \<Rightarrow> ('h, 'i) host_objects \<Rightarrow> ('h, 'i) host_objects" where
  "guard_removed k st =
     (if ho_tx st = TxFree \<and> k < length (ho_guards st)
      then (let g = ho_guards st ! k in
            snd (remove_host_object (hg_name g) (hg_registration g)
              (st \<lparr> ho_guards := take k (ho_guards st) @ drop (Suc k) (ho_guards st) \<rparr>)))
      else st)"

end
