(* ===== verification/HostObjectProps.thy ===== *)
theory HostObjectProps
  imports HostObjects BrokerSpec RouterProps
begin

text \<open>
  The name claims of host objects (\<open>module/runtime.rs\<close>): in every run of exports, failures and guard
  removals, beside anything else the bus and the connection do, a name is owned by the runtime
  exactly while it was owned before, or a guard or an export in progress needs it.
\<close>

section \<open>Runs\<close>

text \<open>
  \<open>HTable\<close> is any other operation on the routing table, \<open>HObjects\<close> any other change of the
  connection's object tree.
\<close>

datatype ('i, 'u) host_event =
    HServe bus_name object_path 'i
  | HOwner "bus_name result"
  | HRegistered bool
  | HRemoved nat
  | HTable router_op
  | HObjects "'i object_tree"

definition host_table :: "(router \<Rightarrow> router) \<Rightarrow> ('h, 'i) host_objects \<Rightarrow> ('h, 'i) host_objects" where
  "host_table f st = st \<lparr> ho_broker := (ho_broker st) \<lparr> bk_router := f (bk_router (ho_broker st)) \<rparr> \<rparr>"

fun host_step_of ::
  "('i, 'u) interface_impl \<Rightarrow> ('i, 'u) host_event \<Rightarrow> ('h, 'i) host_objects \<Rightarrow> ('h, 'i) host_objects" where
  "host_step_of im (HServe name path i) st = serve_host_object name path i st"
| "host_step_of im (HOwner r) st = owner_answered r st"
| "host_step_of im (HRegistered panics) st = registration_ended im panics st"
| "host_step_of im (HRemoved k) st = guard_removed k st"
| "host_step_of im (HTable x) st = host_table (router_step x) st"
| "host_step_of im (HObjects t) st = st \<lparr> ho_conn := (ho_conn st) \<lparr> cn_objects := t \<rparr> \<rparr>"

text \<open>The operations on the table that are not made for the runtime's own peer \<open>i\<close>.\<close>

fun spares :: "nat \<Rightarrow> router_op \<Rightarrow> bool" where
  "spares i (Detach j) = (j \<noteq> i)"
| "spares i (DetachUnique n) = (n \<noteq> unique_name i \<and> is_unique n)"
| "spares i (RequestName j _) = (j \<noteq> i)"
| "spares i (RequestNameFor n _) = (n \<noteq> unique_name i \<and> is_unique n)"
| "spares i (ReleaseName j _) = (j \<noteq> i)"
| "spares i (ReleaseNameFor n _) = (n \<noteq> unique_name i \<and> is_unique n)"
| "spares i _ = True"

definition spares_event :: "nat \<Rightarrow> ('i, 'u) host_event \<Rightarrow> bool" where
  "spares_event i ev = (case ev of HTable x \<Rightarrow> spares i x | _ \<Rightarrow> True)"

definition host_run ::
  "('i, 'u) interface_impl \<Rightarrow> ('h, 'i) host_objects \<Rightarrow> ('i, 'u) host_event list \<Rightarrow> ('h, 'i) host_objects" where
  "host_run im st evs = fold (host_step_of im) evs st"

section \<open>The runtime's names under other operations\<close>

definition held :: "nat \<Rightarrow> router \<Rightarrow> bus_name \<Rightarrow> bool" where
  "held i r n \<longleftrightarrow> hget (rt_names r) n = Some i"

definition attached :: "nat \<Rightarrow> router \<Rightarrow> bool" where
  "attached i r \<longleftrightarrow> hget (rt_peers r) i \<noteq> None"

lemma held_owner: "router_wf r \<Longrightarrow> held i r n \<longleftrightarrow> owner_of r n = Some (unique_name i)"
  by (auto simp: held_def owner_eq wf_tables)

lemma attached_held:
  assumes "router_wf r"
  shows "attached i r \<longleftrightarrow> held i r (unique_name i)"
proof
  assume "attached i r"
  then obtain q where "hget (rt_peers r) i = Some q" by (auto simp: attached_def)
  then show "held i r (unique_name i)" using tables_peer(2) [OF wf_tables [OF assms]] by (simp add: held_def)
next
  assume "held i r (unique_name i)"
  then show "attached i r" using tables_name(1) [OF wf_tables [OF assms]] by (auto simp: attached_def held_def)
qed

lemma unique_not_held:
  assumes "router_wf r" "is_unique v" "v \<noteq> unique_name i" "hget (rt_names r) v = Some j"
  shows "j \<noteq> i" "attached j r"
  using tables_name [OF wf_tables [OF assms(1)] assms(4)] assms(2,3) by (auto simp: attached_def)

lemma held_detach:
  assumes "router_wf r" "j \<noteq> i"
  shows "held i (snd (detach j r)) n = held i r n"
  using owner_detach [OF assms(1), of j n] assms wf_detach [OF assms(1), of j]
  by (cases "hget (rt_peers r) j") (auto simp: held_owner detach_def)

lemma held_request:
  assumes "router_wf r" "attached j r"
  shows "held i (snd (request_name j n r)) m =
    (if i = j \<and> m = n \<and> \<not> is_unique n \<and> n \<noteq> BUS_NAME \<and> owner_of r n = None then True else held i r m)"
  using owner_request [OF assms(1), of j n m] assms wf_request [OF assms(1), of j n]
  by (auto simp: held_owner attached_def)

lemma held_release:
  assumes "router_wf r"
  shows "held i (snd (release_name j n r)) m =
    (held i r m \<and> \<not> (i = j \<and> m = n \<and> \<not> is_unique n))"
  using owner_release [OF assms, of j n m] assms wf_release [OF assms, of j n] by (auto simp: held_owner)

lemma held_attach:
  assumes "router_wf r" "attached i r"
  shows "held i (snd (attach c r)) n = held i r n"
proof -
  have own: "held i r (unique_name i)" using assms attached_held by blast
  have "unique_name k \<noteq> n \<or> k = i" if "held i r n" for k
    using that tables_name(2) [OF wf_tables [OF assms(1)], of n i] by (auto simp: held_def)
  with own show ?thesis by (auto simp: held_def attach_def Let_def table_simps)
qed

lemma held_spared:
  assumes r: "router_wf r" and i: "attached i r" and x: "spares i x"
  shows "held i (router_step x r) n = held i r n"
proof (cases x)
  case (Attach c)
  then show ?thesis using held_attach [OF r i] by simp
next
  case (Detach j)
  then show ?thesis using r x held_detach by simp
next
  case (DetachUnique m)
  then show ?thesis
    using x held_detach [OF r, of _ i n] unique_not_held [OF r, of m i]
    by (auto simp: detach_unique_def split: option.split)
next
  case (RequestName j m)
  then show ?thesis using x held_request [OF r, of j i m n] r
    by (auto simp: while_attached_eq wf_tables attached_def)
next
  case (RequestNameFor v m)
  show ?thesis
  proof (cases "hget (rt_names r) v")
    case None
    then show ?thesis using RequestNameFor by (simp add: request_name_for_unique_def)
  next
    case (Some j)
    with unique_not_held [OF r, of v i j] x RequestNameFor have "j \<noteq> i" "attached j r" by auto
    then show ?thesis using held_request [OF r, of j i m n] RequestNameFor Some
      by (simp add: request_name_for_unique_def)
  qed
next
  case (ReleaseName j m)
  then show ?thesis using x held_release [OF r, of i j m n] r
    by (auto simp: while_attached_eq wf_tables)
next
  case (ReleaseNameFor v m)
  show ?thesis
  proof (cases "hget (rt_names r) v")
    case None
    then show ?thesis using ReleaseNameFor by (simp add: release_name_for_unique_def)
  next
    case (Some j)
    with unique_not_held [OF r, of v i j] x ReleaseNameFor have "j \<noteq> i" by auto
    then show ?thesis using held_release [OF r, of i j m n] ReleaseNameFor Some
      by (simp add: release_name_for_unique_def split: sum.split)
  qed
qed (use r in \<open>auto simp: held_def set_manifest_def add_match_def remove_match_def\<close>)

lemma attached_spared:
  assumes "router_wf r" "attached i r" "spares i x"
  shows "attached i (router_step x r)"
  using assms held_spared [OF assms] attached_held [OF wf_step [OF assms(1)]] attached_held [OF assms(1)] by blast

section \<open>Claims\<close>

text \<open>The two host operations on the broker, as operations on the table.\<close>

lemma router_announce [simp]: "bk_router (announce_name_change c b) = bk_router b"
  by (rule rest_same_fields(1) [OF announce_effect(2)])

lemma claim_router:
  "bk_router (snd (claim_host_name u n b)) = snd (request_name_for_unique u n (bk_router b))"
  "fst (claim_host_name u n b) = map_sum id (\<lambda>c. nc_old_owner c = None) (fst (request_name_for_unique u n (bk_router b)))"
  by (auto simp: claim_host_name_def reserve_module_name_def Let_def split: prod.split sum.split)

lemma release_router:
  "bk_router (snd (release_host_name u n b)) = snd (release_name_for_unique u n (bk_router b))"
  by (auto simp: release_host_name_def split: prod.split sum.split)

lemma refused_claim:
  assumes "router_wf (bk_router b)" "attached i (bk_router b)"
    and "fst (claim_host_name (unique_name i) n b) = Inl e"
  shows "bk_router (snd (claim_host_name (unique_name i) n b)) = bk_router b"
proof -
  have "hget (rt_names (bk_router b)) (unique_name i) = Some i" "hget (rt_peers (bk_router b)) i \<noteq> None"
    using assms attached_held by (auto simp: held_def attached_def)
  then show ?thesis
    using assms(3) unfolding claim_router
    by (auto simp: request_name_for_unique_def request_name_def Let_def unique_of_def
        split: option.splits sum.splits if_splits)
qed

lemma claim_held:
  assumes r: "router_wf (bk_router b)" and i: "attached i (bk_router b)"
    and c: "claim_host_name (unique_name i) n b = (Inr fresh, b')"
  shows "router_wf (bk_router b')" "attached i (bk_router b')"
    "held i (bk_router b') m = (held i (bk_router b) m \<or> m = n)" "fresh = (\<not> held i (bk_router b) n)"
proof -
  let ?r = "bk_router b"
  have names: "hget (rt_names ?r) (unique_name i) = Some i" using attached_held [OF r] i by (simp add: held_def)
  have b': "bk_router b' = snd (request_name i n ?r)"
    and res: "map_sum id (\<lambda>c. nc_old_owner c = None) (fst (request_name i n ?r)) = Inr fresh"
    using claim_router [of "unique_name i" n b] c names by (simp_all add: request_name_for_unique_def)
  show wf: "router_wf (bk_router b')"
    unfolding b' using wf_request [OF r] i by (simp add: attached_def)
  have out: "\<not> is_unique n \<and> n \<noteq> BUS_NAME \<and> (owner_of ?r n = None \<or> owner_of ?r n = Some (unique_name i))
      \<and> fresh = (owner_of ?r n = None)"
    using request_name_outcomes [OF r, of i n] res i by (auto simp: attached_def split: if_splits option.splits)
  have each: "held i (bk_router b') k = (held i ?r k \<or> k = n)" for k
    unfolding b' held_request [OF r i] using out held_owner [OF r] by auto
  show "fresh = (\<not> held i ?r n)" using out held_owner [OF r] by auto
  show "attached i (bk_router b')"
    using attached_held [OF wf] attached_held [OF r] i each by simp
  show "held i (bk_router b') m = (held i ?r m \<or> m = n)" by (rule each)
qed


lemma release_held:
  assumes r: "router_wf (bk_router b)" and i: "attached i (bk_router b)" and n: "\<not> is_unique n"
  defines "b' \<equiv> snd (release_host_name (unique_name i) n b)"
  shows "router_wf (bk_router b')" "attached i (bk_router b')"
    "held i (bk_router b') m = (held i (bk_router b) m \<and> m \<noteq> n)"
proof -
  let ?r = "bk_router b"
  have names: "hget (rt_names ?r) (unique_name i) = Some i" using attached_held [OF r] i by (simp add: held_def)
  have "ensure_peer_attached ?r i (unique_name i) = Inr ()"
    using attached_iff [OF wf_tables [OF r], of i "()"] i by (simp add: attached_def)
  then have b': "bk_router b' = snd (release_name i n ?r)"
    using release_router [of "unique_name i" n b] names by (simp add: b'_def release_name_for_unique_def)
  show wf: "router_wf (bk_router b')" unfolding b' by (rule wf_release [OF r])
  have each: "held i (bk_router b') k = (held i ?r k \<and> k \<noteq> n)" for k
    unfolding b' held_release [OF r] using n by auto
  then show "held i (bk_router b') m = (held i ?r m \<and> m \<noteq> n)" .
  show "attached i (bk_router b')"
    using attached_held [OF wf] attached_held [OF r] i each n by auto
qed

section \<open>The invariant\<close>

definition guard_count :: "bus_name \<Rightarrow> ('h, 'i) host_objects \<Rightarrow> nat" where
  "guard_count n st = length (filter (\<lambda>g. hg_name g = n) (ho_guards st))"

definition registering :: "bus_name \<Rightarrow> ('h, 'i) host_objects \<Rightarrow> bool" where
  "registering n st = (case ho_tx st of TxRegister m _ _ _ \<Rightarrow> m = n | _ \<Rightarrow> False)"

text \<open>\<open>pre\<close>: the names the runtime held before its first export.\<close>

definition host_inv :: "nat \<Rightarrow> (bus_name \<Rightarrow> bool) \<Rightarrow> ('h, 'i) host_objects \<Rightarrow> bool" where
  "host_inv i pre st \<longleftrightarrow>
     router_wf (bk_router (ho_broker st)) \<and> attached i (bk_router (ho_broker st))
     \<and> cn_name (ho_conn st) = Some (unique_name i)
     \<and> (\<forall>n. hget (ho_names st) n =
          (if guard_count n st = 0 then None
           else Some \<lparr> hl_registrations = guard_count n st, hl_release_when_empty = (\<not> pre n) \<rparr>))
     \<and> (\<forall>n. held i (bk_router (ho_broker st)) n \<longleftrightarrow> pre n \<or> 0 < guard_count n st \<or> registering n st)
     \<and> (case ho_tx st of TxRegister n _ _ rel \<Rightarrow> rel = (\<not> pre n)
                       | TxOwner u _ _ _ \<Rightarrow> u = unique_name i | TxFree \<Rightarrow> True)"

lemma host_inv_idle:
  "host_inv i pre (st \<lparr> ho_answers := a \<rparr>) = host_inv i pre st"
  by (simp add: host_inv_def guard_count_def registering_def)

text \<open>A name of the runtime that is not its own unique name was claimed.\<close>

lemma held_not_unique:
  assumes "router_wf r" "held i r n" "n \<noteq> unique_name i"
  shows "\<not> is_unique n"
  using tables_name(2) [OF wf_tables [OF assms(1)]] assms by (auto simp: held_def)

lemma inv_serve: "host_inv i pre st \<Longrightarrow> host_inv i pre (serve_host_object name path x st)"
  by (auto simp: serve_host_object_def host_inv_def guard_count_def registering_def)

lemma inv_owner:
  assumes inv: "host_inv i pre st"
  shows "host_inv i pre (owner_answered ans st)"
proof (cases "\<exists>n path x ok. ho_tx st = TxOwner (unique_name i) n path x \<and> ans = Inr ok")
  case False
  with inv show ?thesis
    by (auto simp: owner_answered_def host_inv_def transaction_ends_def guard_count_def registering_def
        split: host_transaction.splits sum.splits)
next
  case True
  then obtain n path x ok where tx: "ho_tx st = TxOwner (unique_name i) n path x" and ans: "ans = Inr ok" by blast
  obtain res b where c: "claim_host_name (unique_name i) n (ho_broker st) = (res, b)" by (rule prod.exhaust)
  have r: "router_wf (bk_router (ho_broker st))" and at: "attached i (bk_router (ho_broker st))"
    using inv by (auto simp: host_inv_def)
  show ?thesis
  proof (cases res)
    case (Inl e)
    have "bk_router b = bk_router (ho_broker st)"
      using c Inl refused_claim [OF r at, of n] by simp
    then show ?thesis using inv tx ans c Inl
      by (simp add: owner_answered_def transaction_ends_def host_inv_def guard_count_def registering_def)
  next
    case (Inr fresh)
    note held = claim_held [OF r at c [unfolded Inr]]
    have "pre n \<longrightarrow> \<not> fresh" "\<not> pre n \<and> guard_count n st = 0 \<longrightarrow> fresh"
      using inv held(4) tx by (auto simp: host_inv_def registering_def)
    then show ?thesis using inv tx ans c Inr held
      by (auto simp: owner_answered_def host_inv_def guard_count_def registering_def)
  qed
qed


lemma guard_count_less:
  "k < length (ho_guards st) \<Longrightarrow>
   guard_count n (st \<lparr> ho_guards := take k (ho_guards st) @ drop (Suc k) (ho_guards st) \<rparr>)
   = (if hg_name (ho_guards st ! k) = n then guard_count n st - 1 else guard_count n st)"
proof -
  assume k: "k < length (ho_guards st)"
  have "filter P (ho_guards st) = filter P (take k (ho_guards st)) @ filter P [ho_guards st ! k]
      @ filter P (drop (Suc k) (ho_guards st))" for P
    by (subst id_take_nth_drop [OF k]) simp
  then show ?thesis by (simp add: guard_count_def)
qed

lemma guard_count_pos: "k < length (ho_guards st) \<Longrightarrow> 0 < guard_count (hg_name (ho_guards st ! k)) st"
  by (auto simp: guard_count_def filter_empty_conv intro!: bexI nth_mem)

lemma release_claim_inv:
  assumes "router_wf (bk_router (ho_broker st))" "attached i (bk_router (ho_broker st))"
    "cn_name (ho_conn st) = Some (unique_name i)" "\<not> is_unique n"
  shows "router_wf (bk_router (ho_broker (release_claim n st)))"
    "attached i (bk_router (ho_broker (release_claim n st)))"
    "held i (bk_router (ho_broker (release_claim n st))) m = (held i (bk_router (ho_broker st)) m \<and> m \<noteq> n)"
    "ho_conn (release_claim n st) = ho_conn st" "ho_names (release_claim n st) = ho_names st"
    "ho_guards (release_claim n st) = ho_guards st" "ho_tx (release_claim n st) = ho_tx st"
  using release_held [OF assms(1,2,4)] assms(3) by (simp_all add: release_claim_def)

lemma inv_registered:
  assumes inv: "host_inv i pre st" and unique: "\<And>n. pre n \<or> \<not> is_unique n \<or> \<not> held i (bk_router (ho_broker st)) n"
  shows "host_inv i pre (registration_ended im panics st)"
proof (cases "\<exists>n path x rel. ho_tx st = TxRegister n path x rel")
  case False
  with inv show ?thesis by (auto simp: registration_ended_def split: host_transaction.splits)
next
  case True
  then obtain n path x rel where tx: "ho_tx st = TxRegister n path x rel" by blast
  have rel: "rel = (\<not> pre n)" and n: "held i (bk_router (ho_broker st)) n" using inv tx by (auto simp: host_inv_def registering_def)
  show ?thesis
  proof (cases "if panics then None else serve_at_owned im path x (ho_conn st)")
    case (Some reg)
    obtain g cn where reg: "reg = (g, cn)" by (cases reg)
    then have "cn_name cn = cn_name (ho_conn st)"
      using Some by (auto simp: serve_at_owned_def split: if_splits)
    with Some reg inv tx rel show ?thesis
      by (auto simp: registration_ended_def transaction_ends_def host_inv_def guard_count_def registering_def hm.get_put Let_def)
  next
    case None
    show ?thesis
    proof (cases "rel \<and> guard_count n st = 0")
      case False
      with None inv tx rel show ?thesis
        by (auto simp: registration_ended_def transaction_ends_def host_inv_def guard_count_def registering_def hm.get_put)
    next
      case True
      have "\<not> is_unique n" using unique [of n] n rel True by blast
      with release_claim_inv [of st i n] inv
      have "router_wf (bk_router (ho_broker (release_claim n st)))"
        "attached i (bk_router (ho_broker (release_claim n st)))"
        "\<And>m. held i (bk_router (ho_broker (release_claim n st))) m = (held i (bk_router (ho_broker st)) m \<and> m \<noteq> n)"
        "ho_conn (release_claim n st) = ho_conn st" "ho_names (release_claim n st) = ho_names st"
        "ho_guards (release_claim n st) = ho_guards st"
        by (auto simp: host_inv_def)
      with None inv tx rel True show ?thesis
        by (auto simp: registration_ended_def transaction_ends_def host_inv_def guard_count_def registering_def)
    qed
  qed
qed

lemma take_back_name: "cn_name (snd (conn_take_if_owned g cn)) = cn_name cn"
  by (simp add: conn_take_if_owned_def split: prod.split)

lemma inv_removed:
  assumes inv: "host_inv i pre st" and unique: "\<And>n. pre n \<or> \<not> is_unique n \<or> \<not> held i (bk_router (ho_broker st)) n"
  shows "host_inv i pre (guard_removed k st)"
proof (cases "ho_tx st = TxFree \<and> k < length (ho_guards st)")
  case False
  with inv show ?thesis by (auto simp: guard_removed_def)
next
  case True
  define n where "n = hg_name (ho_guards st ! k)"
  define st1 where "st1 = st \<lparr> ho_guards := take k (ho_guards st) @ drop (Suc k) (ho_guards st) \<rparr>"
  obtain x cn where c: "conn_take_if_owned (hg_registration (ho_guards st ! k)) (ho_conn st) = (x, cn)" by (rule prod.exhaust)
  then have name: "cn_name cn = Some (unique_name i)" using take_back_name [of _ "ho_conn st"] inv by (metis host_inv_def snd_conv)
  have pos: "0 < guard_count n st" unfolding n_def by (rule guard_count_pos) (use True in simp)
  have less: "guard_count m st1 = (if m = n then guard_count n st - 1 else guard_count m st)" for m
    using guard_count_less [of k st m] True by (auto simp: st1_def n_def)
  have held: "held i (bk_router (ho_broker st)) n" using inv pos by (simp add: host_inv_def)
  have lease: "hget (ho_names st) n = Some \<lparr> hl_registrations = guard_count n st, hl_release_when_empty = (\<not> pre n) \<rparr>"
    using inv pos by (simp add: host_inv_def)
  have counts: "guard_count m (st1 \<lparr> ho_conn := cn, ho_names := ns \<rparr>) = guard_count m st1" for m ns
    by (simp add: guard_count_def)
  have gr: "guard_removed k st = (if guard_count n st = 1
      then (if pre n then st1 \<lparr> ho_conn := cn, ho_names := hdel n (ho_names st) \<rparr>
            else release_claim n (st1 \<lparr> ho_conn := cn, ho_names := hdel n (ho_names st) \<rparr>))
      else st1 \<lparr> ho_conn := cn, ho_names := hput n \<lparr> hl_registrations = guard_count n st - 1, hl_release_when_empty = (\<not> pre n) \<rparr> (ho_names st) \<rparr>)"
    using True c lease pos by (auto simp: guard_removed_def remove_host_object_def Let_def st1_def n_def)
  let ?s = "st1 \<lparr> ho_conn := cn, ho_names := hdel n (ho_names st) \<rparr>"
  consider "guard_count n st \<noteq> 1" | "guard_count n st = 1" "pre n" | "guard_count n st = 1" "\<not> pre n" by blast
  then show ?thesis
  proof cases
    case 1
    with inv name True pos show ?thesis
      unfolding gr by (auto simp: host_inv_def counts less hm.get_put registering_def) (auto simp: st1_def)
  next
    case 2
    with inv name True show ?thesis
      unfolding gr by (auto simp: host_inv_def counts less hm.get_del registering_def) (auto simp: st1_def)
  next
    case 3
    then have "\<not> is_unique n" using unique [of n] held by blast
    then have out: "router_wf (bk_router (ho_broker (release_claim n ?s)))"
        "attached i (bk_router (ho_broker (release_claim n ?s)))"
        "\<And>m. held i (bk_router (ho_broker (release_claim n ?s))) m = (held i (bk_router (ho_broker st)) m \<and> m \<noteq> n)"
        "ho_conn (release_claim n ?s) = cn" "ho_names (release_claim n ?s) = hdel n (ho_names st)"
        "ho_guards (release_claim n ?s) = ho_guards st1" "ho_tx (release_claim n ?s) = TxFree"
      using release_claim_inv [of ?s i n] inv name True by (auto simp: host_inv_def st1_def)
    have "guard_count m (release_claim n ?s) = guard_count m st1" for m using out(6) by (simp add: guard_count_def)
    with 3 inv name True out less show ?thesis
      unfolding gr by (auto simp: host_inv_def hm.get_del registering_def)
  qed
qed


lemma inv_table:
  assumes inv: "host_inv i pre st" and x: "spares i x"
  shows "host_inv i pre (host_table (router_step x) st)"
proof -
  have r: "router_wf (bk_router (ho_broker st))" and at: "attached i (bk_router (ho_broker st))"
    using inv by (auto simp: host_inv_def)
  show ?thesis
    using inv held_spared [OF r at x] attached_spared [OF r at x] wf_step [OF r, of x]
    by (auto simp: host_table_def host_inv_def guard_count_def registering_def)
qed

lemma inv_own:
  "host_inv i pre st \<Longrightarrow> pre (unique_name i) \<Longrightarrow> pre n \<or> \<not> is_unique n \<or> \<not> held i (bk_router (ho_broker st)) n"
  using held_not_unique [of "bk_router (ho_broker st)" i n] by (cases "n = unique_name i") (simp, auto simp: host_inv_def)

lemma inv_objects: "host_inv i pre st \<Longrightarrow> host_inv i pre (st \<lparr> ho_conn := (ho_conn st) \<lparr> cn_objects := t \<rparr> \<rparr>)"
  by (simp add: host_inv_def guard_count_def registering_def)

lemma inv_host_step:
  assumes "host_inv i pre st" "pre (unique_name i)" "spares_event i ev"
  shows "host_inv i pre (host_step_of im ev st)"
proof (cases ev)
  case (HRegistered panics)
  then show ?thesis using inv_registered [OF assms(1) inv_own [OF assms(1,2)]] by simp
next
  case (HRemoved k)
  then show ?thesis using inv_removed [OF assms(1) inv_own [OF assms(1,2)]] by simp
qed (use assms in \<open>simp_all add: inv_serve inv_owner inv_table inv_objects spares_event_def\<close>)

lemma inv_host_run:
  assumes "host_inv i pre st" "pre (unique_name i)" "\<forall>ev \<in> set evs. spares_event i ev"
  shows "host_inv i pre (host_run im st evs)"
  using assms unfolding host_run_def
  by (induction evs arbitrary: st) (simp_all add: inv_host_step)

section \<open>Properties\<close>

definition runtime_start :: "nat \<Rightarrow> router \<Rightarrow> 'h broker \<Rightarrow> 'i connection \<Rightarrow> ('h, 'i) host_objects" where
  "runtime_start i r b cn = host_objects_new (b \<lparr> bk_router := r \<rparr>) (cn \<lparr> cn_name := Some (unique_name i) \<rparr>)"

text \<open>
  C33. A host object's bus name is held exactly as long as it is needed. In every run of exports,
  failed exports and guard removals in any order, with any other peer's operations on the table in
  between, the runtime owns a name if and only if it owned it before its first export, or a guard for
  it is live, or an export under it is being registered. In particular a failed export leaves no
  claim behind, the last guard gives a claimed name back, and a name the host owned itself is kept.
\<close>
theorem host_names_follow_guards:
  fixes b :: "'h broker" and cn :: "'i connection" and im :: "('i, 'u) interface_impl"
  assumes "router_wf r" "owner_of r (unique_name i) = Some (unique_name i)" "\<forall>ev \<in> set evs. spares_event i ev"
  defines "st \<equiv> host_run im (runtime_start i r b cn) evs"
  shows "owner_of (bk_router (ho_broker st)) n = Some (unique_name i) \<longleftrightarrow>
      owner_of r n = Some (unique_name i) \<or> (\<exists>g \<in> set (ho_guards st). hg_name g = n) \<or> registering n st"
proof -
  have "host_inv i (held i r) (runtime_start i r b cn)"
    using assms attached_held [of r i] held_owner [of r i]
    by (auto simp: host_inv_def runtime_start_def host_objects_new_def guard_count_def registering_def)
  moreover have "held i r (unique_name i)" using assms held_owner by blast
  ultimately have "host_inv i (held i r) st" unfolding st_def using inv_host_run assms(3) by blast
  then show ?thesis
    using held_owner [OF assms(1)] by (auto simp: host_inv_def held_owner guard_count_def filter_empty_conv)
qed

text \<open>
  The registry counts exactly its live guards, whatever the rest of the bus does: after every
  run a name has an entry if and only if it has a live guard, the entry counts them, and it is marked
  for release if and only if the runtime did not own the name before.
\<close>
theorem registrations_count_guards:
  fixes b :: "'h broker" and cn :: "'i connection" and im :: "('i, 'u) interface_impl"
  assumes "router_wf r" "owner_of r (unique_name i) = Some (unique_name i)" "\<forall>ev \<in> set evs. spares_event i ev"
  defines "st \<equiv> host_run im (runtime_start i r b cn) evs"
  shows "hget (ho_names st) n =
     (if guard_count n st = 0 then None
      else Some \<lparr> hl_registrations = guard_count n st,
                  hl_release_when_empty = (owner_of r n \<noteq> Some (unique_name i)) \<rparr>)"
proof -
  have "host_inv i (held i r) (runtime_start i r b cn)"
    using assms attached_held [of r i] held_owner [of r i]
    by (auto simp: host_inv_def runtime_start_def host_objects_new_def guard_count_def registering_def)
  moreover have "held i r (unique_name i)" using assms held_owner by blast
  ultimately have "host_inv i (held i r) st" unfolding st_def using inv_host_run assms(3) by blast
  then show ?thesis using held_owner [OF assms(1)] by (simp add: host_inv_def)
qed


definition mute_interface :: "(unit, unit) interface_impl" where
  "mute_interface = \<lparr> if_name = (\<lambda>_. InterfaceName ''a.b''), if_members = (\<lambda>_. []),
     if_requires_confidential = (\<lambda>_ _. False), if_call = (\<lambda>_ _ _ _ u. (Inl ConnectionClosed, u)) \<rparr>"

lemma host_names_follow_guards_witness:
  "owner_of (bk_router (ho_broker (host_run mute_interface
      (runtime_start 1 (table_after [Attach 7] idle_cells) (broker_new ''b'' idle_cells :: unit broker) (connection_attach 0 1))
      [HServe wallet path_root (), HOwner (Inr wallet), HTable (Attach 3), HRegistered False]))) wallet = Some (unique_name 1)"
  (is "owner_of (bk_router (ho_broker ?st)) wallet = _")
proof -
  have "owner_of (table_after [Attach 7] idle_cells) (unique_name 1) = Some (unique_name 1)"
    by (simp add: table_after_def attach_def router_default_def owner_of_def Let_def)
  moreover have "\<exists>g \<in> set (ho_guards ?st). hg_name g = wallet"
  proof -
    have w: "wallet \<noteq> BUS_NAME" "wallet \<noteq> unique_name 1" "\<not> is_unique wallet"
      by (simp_all add: wallet_def BUS_NAME_def unique_name_def is_unique_def starts_with_def)
    have "fst (claim_host_name (unique_name 1) wallet
        (broker_new ''b'' idle_cells \<lparr> bk_router := table_after [Attach 7] idle_cells \<rparr> :: unit broker)) = Inr True"
      unfolding claim_router
      using w by (simp add: request_name_for_unique_def request_name_def table_after_def attach_def router_default_def
          Let_def unique_of_def)
    then obtain b where "claim_host_name (unique_name 1) wallet
        (broker_new ''b'' idle_cells \<lparr> bk_router := table_after [Attach 7] idle_cells \<rparr> :: unit broker) = (Inr True, b)"
      by (metis prod.collapse)
    then show ?thesis
      by (simp add: host_run_def runtime_start_def host_objects_new_def serve_host_object_def owner_answered_def
          registration_ended_def transaction_ends_def serve_at_owned_def insert_owned_def connection_attach_def tree_new_def
          host_table_def Let_def)
  qed
  ultimately show ?thesis
    using host_names_follow_guards [of "table_after [Attach 7] idle_cells" 1
        "[HServe wallet path_root (), HOwner (Inr wallet), HTable (Attach 3), HRegistered False]" mute_interface
        "broker_new ''b'' idle_cells :: unit broker" "connection_attach 0 1" wallet]
    by (simp add: spares_event_def wf_after)
qed

end
