(* ===== verification/Failure.thy ===== *)
theory Failure
  imports Prelude
begin

text \<open>
  The vocabulary of pinned releases (\<open>module/release.rs\<close>, \<open>module/platform.rs\<close>) and the
  deduplicating reporter of terminal module outcomes (\<open>module/failure.rs\<close>). What the host's sink
  answers when asked whether it is ready is a field of the state; what it was given is recorded.
\<close>

section \<open>Releases\<close>

record release_asset =
  ra_host_key :: string
  ra_archive :: string
  ra_sha256 :: string
  ra_library_sha256 :: "string option"

record release_record =
  rl_id :: string
  rl_bus_name :: string
  rl_object_path :: string
  rl_version :: string
  rl_release_url :: string
  rl_assets :: "release_asset list"

definition asset_for :: "string \<Rightarrow> release_record \<Rightarrow> release_asset option" where
  "asset_for host_key r = find (\<lambda>a. ra_host_key a = host_key) (rl_assets r)"

definition supports_this_host :: "string list \<Rightarrow> release_record \<Rightarrow> bool" where
  "supports_this_host candidates r \<longleftrightarrow> list_ex (\<lambda>key. asset_for key r \<noteq> None) candidates"

definition glibc_at_least :: "nat \<times> nat \<Rightarrow> nat \<times> nat \<Rightarrow> bool" where
  "glibc_at_least v floor \<longleftrightarrow> fst v > fst floor \<or> (fst v = fst floor \<and> snd v \<ge> snd floor)"

definition candidates_for :: "string \<Rightarrow> string \<Rightarrow> (nat \<times> nat) option \<Rightarrow> string list" where
  "candidates_for os arch glibc =
     (case (if arch = ''x86_64'' then Some ''x86_64'' else if arch = ''aarch64'' then Some ''arm64'' else None) of
        None \<Rightarrow> []
      | Some key \<Rightarrow>
          if os = ''linux'' then
            (case glibc of
               None \<Rightarrow> []
             | Some v \<Rightarrow>
                 if glibc_at_least v (2, 39) then [''ubuntu-24.04-'' @ key, ''ubuntu-22.04-'' @ key]
                 else if glibc_at_least v (2, 35) then [''ubuntu-22.04-'' @ key]
                 else [])
          else if os = ''macos'' then [''macos-26-'' @ key, ''macos-15-'' @ key]
          else if os = ''windows'' then
            (if key = ''arm64'' then [''windows-11-arm64''] else [''windows-2025-x86_64'', ''windows-2022-x86_64''])
          else [])"

section \<open>Reports\<close>

datatype reason =
    UnknownModule | Disabled | LoaderDisabled | ResolutionFailed | IncompatibleContract
  | TransportFailed | ModuleFault | ModuleIsUnavailable

fun reason_code :: "reason \<Rightarrow> string" where
  "reason_code UnknownModule = ''unknown_module''"
| "reason_code Disabled = ''disabled''"
| "reason_code LoaderDisabled = ''loader_disabled''"
| "reason_code ResolutionFailed = ''resolution_failed''"
| "reason_code IncompatibleContract = ''incompatible_contract''"
| "reason_code TransportFailed = ''transport_failed''"
| "reason_code ModuleFault = ''module_fault''"
| "reason_code ModuleIsUnavailable = ''module_unavailable''"

fun reason_stage :: "reason \<Rightarrow> string" where
  "reason_stage UnknownModule = ''registry''"
| "reason_stage Disabled = ''availability''"
| "reason_stage LoaderDisabled = ''availability''"
| "reason_stage ResolutionFailed = ''resolve''"
| "reason_stage IncompatibleContract = ''contract''"
| "reason_stage TransportFailed = ''transport''"
| "reason_stage ModuleFault = ''execution''"
| "reason_stage ModuleIsUnavailable = ''execution''"

record failure_report =
  fp_module :: string
  fp_version :: string
  fp_reason :: reason

record reporter =
  fr_ready :: bool
  fr_reported :: "(string \<times> reason) list"
  fr_captured :: "failure_report list"

definition reporter_new :: "bool \<Rightarrow> reporter" where
  "reporter_new ready = \<lparr> fr_ready = ready, fr_reported = [], fr_captured = [] \<rparr>"

definition deliver :: "string \<Rightarrow> string \<Rightarrow> reason \<Rightarrow> bool \<Rightarrow> reporter \<Rightarrow> reporter" where
  "deliver module version reason deduplicate r =
     (let key = (module, reason);
          capture = (\<lambda>r. r \<lparr> fr_captured := fr_captured r @
             [\<lparr> fp_module = module, fp_version = version, fp_reason = reason \<rparr>] \<rparr>) in
      if deduplicate \<and> fr_ready r then
        (if key \<in> set (fr_reported r) then r else capture (r \<lparr> fr_reported := key # fr_reported r \<rparr>))
      else capture r)"

definition report :: "string \<Rightarrow> string \<Rightarrow> reason \<Rightarrow> reporter \<Rightarrow> reporter" where
  "report module version reason = deliver module version reason True"

definition report_invocation :: "string \<Rightarrow> string \<Rightarrow> reason \<Rightarrow> reporter \<Rightarrow> reporter" where
  "report_invocation module version reason = deliver module version reason False"

definition report_unknown_module :: "reporter \<Rightarrow> reporter" where
  "report_unknown_module = deliver ''unregistered'' ''unknown'' UnknownModule True"

definition report_for :: "release_record list \<Rightarrow> string \<Rightarrow> reason \<Rightarrow> reporter \<Rightarrow> reporter" where
  "report_for records ident reason =
     (case find (\<lambda>r. rl_id r = ident) records of
        Some r \<Rightarrow> report (rl_id r) (rl_version r) reason
      | None \<Rightarrow> report_unknown_module)"

section \<open>What a report can say\<close>

text \<open>A report of a registry's record, or the anonymous one.\<close>

definition registry_report :: "(string \<Rightarrow> release_record option) \<Rightarrow> failure_report \<Rightarrow> bool" where
  "registry_report registry p \<longleftrightarrow>
     (\<exists>ident r. registry ident = Some r \<and> fp_module p = rl_id r \<and> fp_version p = rl_version r)
     \<or> p = \<lparr> fp_module = ''unregistered'', fp_version = ''unknown'', fp_reason = UnknownModule \<rparr>"

definition registry_only :: "(string \<Rightarrow> release_record option) \<Rightarrow> reporter \<Rightarrow> bool" where
  "registry_only registry r \<longleftrightarrow> (\<forall>p \<in> set (fr_captured r). registry_report registry p)"

lemma registry_only_deliver:
  assumes "registry_only g r" "g ident = Some rc"
  shows "registry_only g (deliver (rl_id rc) (rl_version rc) reason d r)"
  using assms by (auto simp: registry_only_def registry_report_def deliver_def Let_def)

lemma registry_only_reports [intro]:
  assumes "registry_only g r"
  shows "g ident = Some rc \<Longrightarrow> registry_only g (report (rl_id rc) (rl_version rc) reason r)"
    and "g ident = Some rc \<Longrightarrow> registry_only g (report_invocation (rl_id rc) (rl_version rc) reason r)"
    and "registry_only g (report_unknown_module r)"
  using assms registry_only_deliver [OF assms]
  by (auto simp: report_def report_invocation_def)
     (auto simp: report_unknown_module_def deliver_def Let_def registry_only_def registry_report_def)

text \<open>Deduplicated reports to a ready sink are delivered once.\<close>

definition deduplicated :: "reporter \<Rightarrow> bool" where
  "deduplicated r \<longleftrightarrow> fr_ready r \<and> distinct (map (\<lambda>p. (fp_module p, fp_reason p)) (fr_captured r))
     \<and> (\<lambda>p. (fp_module p, fp_reason p)) ` set (fr_captured r) = set (fr_reported r)"

lemma deliver_once: "deduplicated r \<Longrightarrow> deduplicated (deliver m v reason True r)"
  by (auto simp: deduplicated_def deliver_def Let_def)

lemma report_once:
  "deduplicated r \<Longrightarrow> deduplicated (report m v reason r)"
  "deduplicated r \<Longrightarrow> deduplicated (report_unknown_module r)"
  "deduplicated r \<Longrightarrow> deduplicated (report_for rs ident reason r)"
  by (auto simp: report_def report_unknown_module_def report_for_def deliver_once split: option.split)

end
