(* ===== verification/ModuleClient.thy ===== *)
theory ModuleClient
  imports BusClient Failure
begin

text \<open>
  Calls to registry modules (\<open>module/client.rs\<close>): the access layer a host provides, the client that
  loads lazily and calls through a proxy, the clients bound to one peer, and the mapping of bus
  errors to closed outcomes.

  The world is what the bus answers from (\<open>'w\<close>, through a \<open>bus_caller\<close>), what the access layer keeps
  (\<open>'x\<close>) and the failure reporter. A deadline put around an operation of the access layer is handed
  to the operation, which may answer that it passed.
\<close>

section \<open>Outcomes\<close>

datatype proxy_failure = ProxyTransport | ProxyContract

datatype readiness_failure = ReadinessUnavailable | ReadinessTimedOut

datatype reconfigure_failure = RcInitializing | RcUnavailable | RcFailed | RcUnsupported

datatype module_call_error = CallUnavailable | CallIncompatibleContract | CallTransportFailed | CallModuleFault

fun module_call_error_display :: "module_call_error \<Rightarrow> string" where
  "module_call_error_display CallUnavailable = ''MODULE_CALL_REPORTED: module unavailable''"
| "module_call_error_display CallIncompatibleContract = ''MODULE_CALL_REPORTED: module incompatible contract''"
| "module_call_error_display CallTransportFailed = ''MODULE_CALL_REPORTED: module transport failed''"
| "module_call_error_display CallModuleFault = ''MODULE_CALL_REPORTED: module execution failed''"

record module_call_failure =
  mf_kind :: module_call_error
  mf_wire_name :: string
  mf_message :: string

fun local_wire_name :: "module_call_error \<Rightarrow> string" where
  "local_wire_name CallUnavailable = error_prefix @ ''ModuleUnavailable''"
| "local_wire_name CallIncompatibleContract = error_prefix @ ''IncompatibleVersion''"
| "local_wire_name CallTransportFailed = error_prefix @ ''Transport''"
| "local_wire_name CallModuleFault = error_prefix @ ''Failed''"

definition local_failure :: "module_call_error \<Rightarrow> module_call_failure" where
  "local_failure k = \<lparr> mf_kind = k, mf_wire_name = local_wire_name k, mf_message = ''module call failed'' \<rparr>"

definition failure_from_error :: "error \<Rightarrow> module_call_error \<Rightarrow> module_call_failure" where
  "failure_from_error e k =
     (case e of
        MethodFailed n msg \<Rightarrow> \<lparr> mf_kind = k, mf_wire_name = n, mf_message = msg \<rparr>
      | _ \<Rightarrow> local_failure k)"

definition failure_display :: "module_call_failure \<Rightarrow> string" where
  "failure_display f = module_call_error_display (mf_kind f)"

definition classify :: "error \<Rightarrow> module_call_error \<times> reason" where
  "classify e =
     (case e of
        InvalidName _ _ _ \<Rightarrow> (CallIncompatibleContract, IncompatibleContract)
      | ModuleUnavailable _ _ _ \<Rightarrow> (CallUnavailable, ModuleIsUnavailable)
      | IncompatibleVersion _ _ _ \<Rightarrow> (CallIncompatibleContract, IncompatibleContract)
      | UnknownMethod _ _ \<Rightarrow> (CallIncompatibleContract, IncompatibleContract)
      | UnknownInterface _ _ \<Rightarrow> (CallIncompatibleContract, IncompatibleContract)
      | UnknownObject _ \<Rightarrow> (CallIncompatibleContract, IncompatibleContract)
      | BadArguments _ _ \<Rightarrow> (CallIncompatibleContract, IncompatibleContract)
      | Json _ \<Rightarrow> (CallIncompatibleContract, IncompatibleContract)
      | MethodFailed n _ \<Rightarrow>
          (if n = MODULE_UNAVAILABLE then (CallUnavailable, ModuleIsUnavailable)
           else if n \<in> set [UNKNOWN_METHOD, error_prefix @ ''IncompatibleVersion'', error_prefix @ ''UnknownInterface'',
                            error_prefix @ ''UnknownObject'', error_prefix @ ''BadArguments'']
           then (CallIncompatibleContract, IncompatibleContract)
           else if n \<in> set [NOT_ATTESTED, CONFIDENTIALITY_REQUIRED, error_prefix @ ''Protocol'']
           then (CallTransportFailed, TransportFailed)
           else (CallModuleFault, ModuleFault))
      | _ \<Rightarrow> (CallTransportFailed, TransportFailed))"

definition wire_kind :: "error \<Rightarrow> module_call_error" where
  "wire_kind e = fst (classify e)"

definition report_proxy_failure_detailed :: "release_record \<Rightarrow> error \<Rightarrow> reporter \<Rightarrow> module_call_failure \<times> reporter" where
  "report_proxy_failure_detailed rc e r =
     (case classify e of
        (outcome, reason) \<Rightarrow>
          (failure_from_error e outcome,
           if reason = ModuleIsUnavailable then report (rl_id rc) (rl_version rc) reason r
           else report_invocation (rl_id rc) (rl_version rc) reason r))"

definition valid_sha256 :: "string \<Rightarrow> bool" where
  "valid_sha256 d \<longleftrightarrow> length d = 64 \<and> list_all (\<lambda>c. c \<in> set ''0123456789abcdefABCDEF'') d"

section \<open>The access layer\<close>

record ('w, 'x) world =
  wo_bus :: 'w
  wo_access :: 'x
  wo_reports :: reporter

type_synonym ('x, 'a) access_op = "'x \<Rightarrow> reporter \<Rightarrow> 'a \<times> 'x \<times> reporter"

record 'x module_access =
  ac_find :: "string \<Rightarrow> release_record option"
  ac_enabled :: "'x \<Rightarrow> bool"
  ac_ensure_loaded :: "string \<Rightarrow> ('x, string + unit) access_op"
  ac_ensure_loaded_within :: "string \<Rightarrow> nat option \<Rightarrow> ('x, readiness_failure + unit) access_op"
  ac_prepare_attested :: "string \<Rightarrow> nat option \<Rightarrow> ('x, bool) access_op"
  ac_proxy :: "string \<Rightarrow> string \<Rightarrow> nat option \<Rightarrow> ('x, (proxy_failure + proxy) option) access_op"
  ac_reinitialize :: "string \<Rightarrow> json \<Rightarrow> ('x, reconfigure_failure + unit) access_op"
  ac_mark_faulted :: "string \<Rightarrow> ('x, unit) access_op"

definition using_access :: "('x, 'a) access_op \<Rightarrow> ('w, 'x) world \<Rightarrow> 'a \<times> ('w, 'x) world" where
  "using_access f wo =
     (case f (wo_access wo) (wo_reports wo) of
        (a, x, r) \<Rightarrow> (a, wo \<lparr> wo_access := x, wo_reports := r \<rparr>))"

definition using_bus :: "('w \<Rightarrow> 'a \<times> 'w) \<Rightarrow> ('w, 'x) world \<Rightarrow> 'a \<times> ('w, 'x) world" where
  "using_bus f wo = (case f (wo_bus wo) of (a, w) \<Rightarrow> (a, wo \<lparr> wo_bus := w \<rparr>))"

definition reporting :: "(reporter \<Rightarrow> 'a \<times> reporter) \<Rightarrow> ('w, 'x) world \<Rightarrow> 'a \<times> ('w, 'x) world" where
  "reporting f wo = (case f (wo_reports wo) of (a, r) \<Rightarrow> (a, wo \<lparr> wo_reports := r \<rparr>))"

text \<open>A host built without the loader: \<open>UnloadedAccess\<close>, with the trait's default operations.\<close>

definition unloaded_ensure :: "release_record list \<Rightarrow> string \<Rightarrow> ('x, string + unit) access_op" where
  "unloaded_ensure records ident x r =
     (case find (\<lambda>rc. rl_id rc = ident) records of
        Some rc \<Rightarrow>
          (Inl (''module '' @ [CHR 0x27] @ rl_id rc @ [CHR 0x27] @ '' is unavailable: this build has no module loader''), x,
           report (rl_id rc) (rl_version rc) LoaderDisabled r)
      | None \<Rightarrow> (Inl ''module is unavailable: this build has no module loader'', x, r))"

definition unloaded_access :: "release_record list \<Rightarrow> bool \<Rightarrow> 'x module_access" where
  "unloaded_access records enabled =
     \<lparr> ac_find = (\<lambda>ident. find (\<lambda>rc. rl_id rc = ident) records),
        ac_enabled = (\<lambda>_. enabled),
        ac_ensure_loaded = unloaded_ensure records,
        ac_ensure_loaded_within = (\<lambda>ident _ x r.
          (case unloaded_ensure records ident x r of
             (Inl _, x', r') \<Rightarrow> (Inl ReadinessUnavailable, x', r')
           | (Inr u, x', r') \<Rightarrow> (Inr u, x', r'))),
        ac_prepare_attested = (\<lambda>_ _ x r. (False, x, r)),
        ac_proxy = (\<lambda>_ _ _ x r. (Some (Inl ProxyTransport), x, r)),
        ac_reinitialize = (\<lambda>_ _ x r. (Inl RcUnsupported, x, r)),
        ac_mark_faulted = (\<lambda>_ x r. ((), x, r)) \<rparr>"


section \<open>The client\<close>

record 'x module_client =
  mc_access :: "'x module_access"
  mc_timeout :: "nat option"
  mc_fixture :: "proxy option"

definition client_new :: "'x module_access \<Rightarrow> 'x module_client" where
  "client_new a = \<lparr> mc_access = a, mc_timeout = None, mc_fixture = None \<rparr>"

definition client_report :: "release_record \<Rightarrow> reason \<Rightarrow> ('w, 'x) world \<Rightarrow> ('w, 'x) world" where
  "client_report rc reason wo = wo \<lparr> wo_reports := report (rl_id rc) (rl_version rc) reason (wo_reports wo) \<rparr>"

text \<open>A refusal of the client's own: it is reported and becomes a local failure.\<close>

definition refuse :: "release_record \<Rightarrow> reason \<Rightarrow> module_call_error \<Rightarrow> ('w, 'x) world \<Rightarrow>
    (module_call_failure + 'a) \<times> ('w, 'x) world" where
  "refuse rc reason k wo = (Inl (local_failure k), client_report rc reason wo)"

definition refuse_error :: "release_record \<Rightarrow> error \<Rightarrow> ('w, 'x) world \<Rightarrow> (module_call_failure + 'a) \<times> ('w, 'x) world" where
  "refuse_error rc e wo =
     (case report_proxy_failure_detailed rc e (wo_reports wo) of
        (f, r) \<Rightarrow> (Inl f, wo \<lparr> wo_reports := r \<rparr>))"

definition with_deadline :: "'x module_client \<Rightarrow> proxy \<Rightarrow> proxy" where
  "with_deadline c p = (case mc_timeout c of Some t \<Rightarrow> with_timeout t p | None \<Rightarrow> p)"

definition client_record :: "'x module_client \<Rightarrow> string \<Rightarrow> ('w, 'x) world \<Rightarrow>
    (module_call_error + release_record) \<times> ('w, 'x) world" where
  "client_record c module wo =
     (case ac_find (mc_access c) module of
        None \<Rightarrow> (Inl CallUnavailable, wo \<lparr> wo_reports := report_unknown_module (wo_reports wo) \<rparr>)
      | Some rc \<Rightarrow>
          if \<not> ac_enabled (mc_access c) (wo_access wo) then (Inl CallUnavailable, client_report rc Disabled wo)
          else (Inr rc, wo))"

text \<open>\<open>?\<close> after an awaited step.\<close>

definition steps :: "('e + 'a) \<times> 's \<Rightarrow> ('a \<Rightarrow> 's \<Rightarrow> ('e + 'b) \<times> 's) \<Rightarrow> ('e + 'b) \<times> 's" where
  "steps m f = (case m of (Inl e, s) \<Rightarrow> (Inl e, s) | (Inr a, s) \<Rightarrow> f a s)"

definition error_steps :: "('e \<Rightarrow> 'f) \<Rightarrow> ('e + 'a) \<times> 's \<Rightarrow> ('f + 'a) \<times> 's" where
  "error_steps f m = (case m of (r, s) \<Rightarrow> (map_sum f id r, s))"

definition proxy_or_report :: "release_record \<Rightarrow> (proxy_failure + proxy) \<Rightarrow> ('w, 'x) world \<Rightarrow>
    (module_call_error + proxy) \<times> ('w, 'x) world" where
  "proxy_or_report rc r wo =
     (case r of
        Inr p \<Rightarrow> (Inr p, wo)
      | Inl ProxyTransport \<Rightarrow> (Inl CallTransportFailed, client_report rc TransportFailed wo)
      | Inl ProxyContract \<Rightarrow> (Inl CallIncompatibleContract, client_report rc IncompatibleContract wo))"

definition load_proxy :: "'x module_client \<Rightarrow> release_record \<Rightarrow> string \<Rightarrow> ('w, 'x) world \<Rightarrow>
    (module_call_error + proxy) \<times> ('w, 'x) world" where
  "load_proxy c rc path wo =
     steps (error_steps (\<lambda>_. CallUnavailable) (using_access (ac_ensure_loaded (mc_access c) (rl_id rc)) wo))
       (\<lambda>_ wo1. case using_access (ac_proxy (mc_access c) (rl_bus_name rc) path None) wo1 of
          (answer, wo2) \<Rightarrow>
            proxy_or_report rc (case answer of Some r \<Rightarrow> r | None \<Rightarrow> Inl ProxyTransport) wo2)"

definition load_proxy_for_binding :: "'x module_client \<Rightarrow> release_record \<Rightarrow> string \<Rightarrow> ('w, 'x) world \<Rightarrow>
    (module_call_failure + proxy) \<times> ('w, 'x) world" where
  "load_proxy_for_binding c rc path wo =
     (case using_access (ac_ensure_loaded_within (mc_access c) (rl_id rc) (mc_timeout c)) wo of
        (Inl ReadinessUnavailable, wo1) \<Rightarrow> (Inl (local_failure CallUnavailable), wo1)
      | (Inl ReadinessTimedOut, wo1) \<Rightarrow> refuse_error rc (Transport ''module readiness deadline elapsed'') wo1
      | (Inr _, wo1) \<Rightarrow>
          (case using_access (ac_proxy (mc_access c) (rl_bus_name rc) path (mc_timeout c)) wo1 of
             (None, wo2) \<Rightarrow> refuse_error rc (Transport ''module proxy preparation deadline elapsed'') wo2
           | (Some r, wo2) \<Rightarrow> error_steps local_failure (proxy_or_report rc r wo2)))"

section \<open>Calls\<close>

definition invoke_proxy_detailed ::
  "'w bus_caller \<Rightarrow> client_serde \<Rightarrow> (json \<Rightarrow> 'r option) \<Rightarrow> release_record \<Rightarrow> proxy \<Rightarrow> string \<Rightarrow> json result \<Rightarrow> bool \<Rightarrow>
   ('w, 'x) world \<Rightarrow> (module_call_failure + 'r) \<times> ('w, 'x) world" where
  "invoke_proxy_detailed call cs de rc p member args confidential wo =
     (case using_bus
          (if confidential then proxy_call_confidential call cs de p member args else proxy_call call cs de p member args)
          wo of
        (Inr v, wo1) \<Rightarrow> (Inr v, wo1)
      | (Inl e, wo1) \<Rightarrow> refuse_error rc e wo1)"

definition invoke_proxy ::
  "'w bus_caller \<Rightarrow> client_serde \<Rightarrow> (json \<Rightarrow> 'r option) \<Rightarrow> release_record \<Rightarrow> proxy \<Rightarrow> string \<Rightarrow> json result \<Rightarrow> bool \<Rightarrow>
   ('w, 'x) world \<Rightarrow> (module_call_error + 'r) \<times> ('w, 'x) world" where
  "invoke_proxy call cs de rc p member args confidential wo =
     error_steps mf_kind (invoke_proxy_detailed call cs de rc p member args confidential wo)"

text \<open>The proxy a call goes through: the fixture, or the loaded module's, with the client's deadline.\<close>

definition selected_proxy :: "'x module_client \<Rightarrow> release_record \<Rightarrow> ('w, 'x) world \<Rightarrow>
    (module_call_error + proxy) \<times> ('w, 'x) world" where
  "selected_proxy c rc wo =
     steps (case mc_fixture c of Some p \<Rightarrow> (Inr p, wo) | None \<Rightarrow> load_proxy c rc (rl_object_path rc) wo)
       (\<lambda>p wo1. (Inr (with_deadline c p), wo1))"

definition client_invoke ::
  "'w bus_caller \<Rightarrow> client_serde \<Rightarrow> (json \<Rightarrow> 'r option) \<Rightarrow> 'x module_client \<Rightarrow> string \<Rightarrow> string \<Rightarrow> json result \<Rightarrow> bool \<Rightarrow>
   ('w, 'x) world \<Rightarrow> (module_call_error + 'r) \<times> ('w, 'x) world" where
  "client_invoke call cs de c module member args confidential wo =
     steps (client_record c module wo)
       (\<lambda>rc wo1. steps (selected_proxy c rc wo1)
          (\<lambda>p wo2. invoke_proxy call cs de rc p member args confidential wo2))"

definition invoke_detailed ::
  "'w bus_caller \<Rightarrow> client_serde \<Rightarrow> (json \<Rightarrow> 'r option) \<Rightarrow> 'x module_client \<Rightarrow> string \<Rightarrow> string \<Rightarrow> json result \<Rightarrow> bool \<Rightarrow>
   ('w, 'x) world \<Rightarrow> (module_call_failure + 'r) \<times> ('w, 'x) world" where
  "invoke_detailed call cs de c module member args confidential wo =
     steps (error_steps local_failure (client_record c module wo))
       (\<lambda>rc wo1. steps (error_steps local_failure (selected_proxy c rc wo1))
          (\<lambda>p wo2. invoke_proxy_detailed call cs de rc p member args confidential wo2))"

definition report_malformed_reply :: "'x module_client \<Rightarrow> string \<Rightarrow> ('w, 'x) world \<Rightarrow> ('w, 'x) world" where
  "report_malformed_reply c module wo =
     (case ac_find (mc_access c) module of
        Some rc \<Rightarrow> wo \<lparr> wo_reports := report_invocation (rl_id rc) (rl_version rc) ModuleFault (wo_reports wo) \<rparr>
      | None \<Rightarrow> wo)"

text \<open>\<open>report_incompatible_contract\<close> and \<open>report_unavailable\<close>.\<close>

definition client_report_known :: "'x module_client \<Rightarrow> string \<Rightarrow> reason \<Rightarrow> ('w, 'x) world \<Rightarrow> ('w, 'x) world" where
  "client_report_known c module reason wo =
     (case ac_find (mc_access c) module of Some rc \<Rightarrow> client_report rc reason wo | None \<Rightarrow> wo)"

text \<open>\<open>call_json\<close> and its confidential counterpart: the reply is a string holding a document.\<close>

definition call_json ::
  "'w bus_caller \<Rightarrow> client_serde \<Rightarrow> (string \<Rightarrow> 'r option) \<Rightarrow> 'x module_client \<Rightarrow> string \<Rightarrow> string \<Rightarrow> json result \<Rightarrow> bool \<Rightarrow>
   ('w, 'x) world \<Rightarrow> (module_call_error + 'r) \<times> ('w, 'x) world" where
  "call_json call cs decode c module member args confidential wo =
     steps (client_invoke call cs (\<lambda>v. case v of JString s \<Rightarrow> Some s | _ \<Rightarrow> None) c module member args confidential wo)
       (\<lambda>response wo1. case decode response of
          Some v \<Rightarrow> (Inr v, wo1)
        | None \<Rightarrow> (Inl CallModuleFault, report_malformed_reply c module wo1))"

section \<open>Bound clients\<close>

record bound_client =
  bc_record :: release_record
  bc_proxy :: proxy
  bc_timeout :: "nat option"

definition compatible_assets :: "string list \<Rightarrow> release_record \<Rightarrow> release_asset list" where
  "compatible_assets candidates rc =
     filter (\<lambda>a. ra_host_key a \<in> set candidates \<and> valid_sha256 (ra_sha256 a)
         \<and> (case ra_library_sha256 a of None \<Rightarrow> False | Some d \<Rightarrow> valid_sha256 d)) (rl_assets rc)"

definition pins_match :: "attestation \<Rightarrow> release_asset \<Rightarrow> bool" where
  "pins_match att a \<longleftrightarrow>
     eq_ignore_ascii_case (att_sha256 att) (ra_sha256 a) \<and>
     (case (att_library_sha256 att, ra_library_sha256 a) of
        (Some d, Some pin) \<Rightarrow> eq_ignore_ascii_case d pin
      | _ \<Rightarrow> False)"


text \<open>The owner of the record's name, its attestation, and the comparison with the pins.\<close>

definition prove_peer ::
  "'w bus_caller \<Rightarrow> client_serde \<Rightarrow> api_serde \<Rightarrow> 'x module_client \<Rightarrow> release_record \<Rightarrow> release_asset list \<Rightarrow>
   ('w, 'x) world \<Rightarrow> (module_call_failure + bound_client) \<times> ('w, 'x) world" where
  "prove_peer call cs api c rc assets wo =
     (let limit = (case mc_timeout c of Some t \<Rightarrow> t | None \<Rightarrow> DEFAULT_TIMEOUT) in
      case using_bus (conn_name_owner_with_timeout call cs (rl_bus_name rc) limit) wo of
        (Inl e, wo1) \<Rightarrow> refuse_error rc e wo1
      | (Inr None, wo1) \<Rightarrow> refuse rc ModuleIsUnavailable CallUnavailable wo1
      | (Inr (Some ow), wo1) \<Rightarrow>
          if \<not> is_unique ow then refuse rc ModuleIsUnavailable CallUnavailable wo1
          else (case conn_proxy (bus_str ow) (rl_object_path rc) (rl_bus_name rc) of
              Inl _ \<Rightarrow> refuse rc IncompatibleContract CallIncompatibleContract wo1
            | Inr p \<Rightarrow>
                (case using_bus (conn_attestation_with_timeout call cs api ow limit) wo1 of
                   (Inl e, wo2) \<Rightarrow> refuse_error rc e wo2
                 | (Inr None, wo2) \<Rightarrow> refuse rc ModuleIsUnavailable CallUnavailable wo2
                 | (Inr (Some att), wo2) \<Rightarrow>
                     if bus_str (att_name att) \<noteq> rl_bus_name rc \<or> \<not> list_ex (pins_match att) assets
                     then refuse rc ModuleIsUnavailable CallUnavailable wo2
                     else (Inr \<lparr> bc_record = rc, bc_proxy = with_deadline c p, bc_timeout = mc_timeout c \<rparr>, wo2))))"

definition bind_attested ::
  "'w bus_caller \<Rightarrow> client_serde \<Rightarrow> api_serde \<Rightarrow> string list \<Rightarrow> 'x module_client \<Rightarrow> string \<Rightarrow>
   ('w, 'x) world \<Rightarrow> (module_call_failure + bound_client) \<times> ('w, 'x) world" where
  "bind_attested call cs api candidates c module wo =
     steps (error_steps local_failure (client_record c module wo)) (\<lambda>rc wo1.
       let assets = compatible_assets candidates rc;
           unavailable = refuse rc ModuleIsUnavailable CallUnavailable in
       if assets = [] then unavailable wo1
       else (case using_access (ac_prepare_attested (mc_access c) (rl_id rc) (mc_timeout c)) wo1 of
         (prepared, wo2) \<Rightarrow>
           if mc_fixture c \<noteq> None \<or> \<not> prepared then unavailable wo2
           else steps (error_steps local_failure (load_proxy c rc (rl_object_path rc) wo2))
             (\<lambda>_ wo3. prove_peer call cs api c rc assets wo3)))"

definition call_attested_detailed ::
  "'w bus_caller \<Rightarrow> client_serde \<Rightarrow> api_serde \<Rightarrow> string list \<Rightarrow> (json \<Rightarrow> 'r option) \<Rightarrow> 'x module_client \<Rightarrow> string \<Rightarrow>
   string \<Rightarrow> json result \<Rightarrow> ('w, 'x) world \<Rightarrow> (module_call_failure + 'r) \<times> ('w, 'x) world" where
  "call_attested_detailed call cs api candidates de c module member args wo =
     steps (bind_attested call cs api candidates c module wo)
       (\<lambda>b wo1. invoke_proxy_detailed call cs de (bc_record b) (bc_proxy b) member args True wo1)"

definition call_attested ::
  "'w bus_caller \<Rightarrow> client_serde \<Rightarrow> api_serde \<Rightarrow> string list \<Rightarrow> (json \<Rightarrow> 'r option) \<Rightarrow> 'x module_client \<Rightarrow> string \<Rightarrow>
   string \<Rightarrow> json result \<Rightarrow> ('w, 'x) world \<Rightarrow> (module_call_error + 'r) \<times> ('w, 'x) world" where
  "call_attested call cs api candidates de c module member args wo =
     error_steps mf_kind (call_attested_detailed call cs api candidates de c module member args wo)"

text \<open>\<open>bind\<close>: the serving peer is looked up once and kept.\<close>

definition pin_peer ::
  "'w bus_caller \<Rightarrow> client_serde \<Rightarrow> 'x module_client \<Rightarrow> release_record \<Rightarrow> proxy \<Rightarrow>
   ('w, 'x) world \<Rightarrow> (module_call_failure + bound_client) \<times> ('w, 'x) world" where
  "pin_peer call cs c rc px wo =
     (let limit = (case mc_timeout c of Some t \<Rightarrow> t | None \<Rightarrow> px_timeout px) in
      case using_bus (conn_name_owner_with_timeout call cs (bus_str (px_destination px)) limit) wo of
        (Inl e, wo1) \<Rightarrow> refuse_error rc e wo1
      | (Inr None, wo1) \<Rightarrow> refuse rc ModuleIsUnavailable CallUnavailable wo1
      | (Inr (Some ow), wo1) \<Rightarrow>
          if \<not> is_unique ow then refuse rc ModuleIsUnavailable CallUnavailable wo1
          else (case conn_proxy (bus_str ow) (path_str (px_path px)) (iface_str (px_interface px)) of
              Inl _ \<Rightarrow> refuse rc IncompatibleContract CallIncompatibleContract wo1
            | Inr p \<Rightarrow> (Inr \<lparr> bc_record = rc, bc_proxy = with_timeout limit p, bc_timeout = Some limit \<rparr>, wo1)))"

definition bind_client ::
  "'w bus_caller \<Rightarrow> client_serde \<Rightarrow> 'x module_client \<Rightarrow> string \<Rightarrow>
   ('w, 'x) world \<Rightarrow> (module_call_failure + bound_client) \<times> ('w, 'x) world" where
  "bind_client call cs c module wo =
     steps (error_steps local_failure (client_record c module wo)) (\<lambda>rc wo1.
       steps (case mc_fixture c of Some p \<Rightarrow> (Inr p, wo1) | None \<Rightarrow> load_proxy_for_binding c rc (rl_object_path rc) wo1)
         (pin_peer call cs c rc))"

text \<open>The calls of a bound client, an object client or a pinned one.\<close>

definition bound_call ::
  "'w bus_caller \<Rightarrow> client_serde \<Rightarrow> (json \<Rightarrow> 'r option) \<Rightarrow> bound_client \<Rightarrow> string \<Rightarrow> json result \<Rightarrow> bool \<Rightarrow>
   ('w, 'x) world \<Rightarrow> (module_call_failure + 'r) \<times> ('w, 'x) world" where
  "bound_call call cs de b member args confidential =
     invoke_proxy_detailed call cs de (bc_record b) (bc_proxy b) member args confidential"

text \<open>\<open>BoundModuleClient::object_client\<close> and its pinned counterpart: the destination stays.\<close>

definition bound_object :: "bound_client \<Rightarrow> string \<Rightarrow> ('w, 'x) world \<Rightarrow>
    (module_call_error + bound_client) \<times> ('w, 'x) world" where
  "bound_object b path wo =
     (case conn_proxy (bus_str (px_destination (bc_proxy b))) path (iface_str (px_interface (bc_proxy b))) of
        Inl _ \<Rightarrow> (Inl CallIncompatibleContract, client_report (bc_record b) IncompatibleContract wo)
      | Inr p \<Rightarrow>
          (Inr (b \<lparr> bc_proxy := (case bc_timeout b of Some t \<Rightarrow> with_timeout t p | None \<Rightarrow> p) \<rparr>), wo))"

text \<open>\<open>ModuleClient::object_client\<close>.\<close>

definition object_client :: "'x module_client \<Rightarrow> string \<Rightarrow> string \<Rightarrow> ('w, 'x) world \<Rightarrow>
    (module_call_error + bound_client) \<times> ('w, 'x) world" where
  "object_client c module path wo =
     steps (client_record c module wo) (\<lambda>rc wo1.
       let held = (\<lambda>p. \<lparr> bc_record = rc, bc_proxy = with_deadline c p, bc_timeout = mc_timeout c \<rparr>) in
       (case mc_fixture c of
          Some fx \<Rightarrow>
            (case conn_proxy (bus_str (px_destination fx)) path (iface_str (px_interface fx)) of
               Inl _ \<Rightarrow> (Inl CallIncompatibleContract, client_report rc IncompatibleContract wo1)
             | Inr p \<Rightarrow> (Inr (held p), wo1))
        | None \<Rightarrow> steps (load_proxy c rc path wo1) (\<lambda>p wo2. (Inr (held p), wo2))))"

text \<open>\<open>ModuleObjectClient::derive\<close>, \<open>object_at\<close> and \<open>pin_owner\<close>.\<close>

definition derive_object :: "bound_client \<Rightarrow> string \<Rightarrow> string \<Rightarrow> ('w, 'x) world \<Rightarrow>
    (module_call_error + bound_client) \<times> ('w, 'x) world" where
  "derive_object b destination path wo =
     (let limit = (case bc_timeout b of Some t \<Rightarrow> t | None \<Rightarrow> px_timeout (bc_proxy b)) in
      case conn_proxy destination path (iface_str (px_interface (bc_proxy b))) of
        Inl e \<Rightarrow> error_steps mf_kind (refuse_error (bc_record b) e wo)
      | Inr p \<Rightarrow> (Inr (b \<lparr> bc_proxy := with_timeout limit p, bc_timeout := Some limit \<rparr>), wo))"

definition object_at :: "bound_client \<Rightarrow> string \<Rightarrow> ('w, 'x) world \<Rightarrow>
    (module_call_error + bound_client) \<times> ('w, 'x) world" where
  "object_at b path = derive_object b (bus_str (px_destination (bc_proxy b))) path"

definition pin_owner :: "'w bus_caller \<Rightarrow> client_serde \<Rightarrow> bound_client \<Rightarrow> ('w, 'x) world \<Rightarrow>
    (module_call_error + bound_client) \<times> ('w, 'x) world" where
  "pin_owner call cs b wo =
     (case using_bus (conn_name_owner_with_timeout call cs (bus_str (px_destination (bc_proxy b))) (px_timeout (bc_proxy b))) wo of
        (Inl e, wo1) \<Rightarrow> error_steps mf_kind (refuse_error (bc_record b) e wo1)
      | (Inr None, wo1) \<Rightarrow> (Inl CallUnavailable, client_report (bc_record b) ModuleIsUnavailable wo1)
      | (Inr (Some ow), wo1) \<Rightarrow> derive_object b (bus_str ow) (path_str (px_path (bc_proxy b))) wo1)"

end
