(* ===== verification/ModuleClientProps.thy ===== *)
theory ModuleClientProps
  imports ModuleClient
begin

text \<open>
  What the module client promises (\<open>module/client.rs\<close>): an attested call reaches only a peer that
  proved a pinned artifact, a bound client never moves to another peer, reports and outcomes carry
  registry data and closed vocabulary only, whatever a remote peer puts into its errors.
\<close>

section \<open>A bus that records what it is asked\<close>

text \<open>The answer may depend on everything asked before.\<close>

definition recording :: "(message \<Rightarrow> message list \<Rightarrow> json result) \<Rightarrow> message list bus_caller" where
  "recording ans msg timeout log = (ans msg log, log @ [msg])"

definition owner_query :: "string \<Rightarrow> message" where
  "owner_query name = bus_message ''GetNameOwner'' (JArray [JString name])"

definition attestation_query :: "bus_name \<Rightarrow> message" where
  "attestation_query n = bus_message ''GetAttestation'' (JArray [JString (bus_str n)])"

lemma using_bus_cases:
  obtains a w where "f (wo_bus wo) = (a, w)" "using_bus f wo = (a, wo \<lparr> wo_bus := w \<rparr>)"
  by (cases "f (wo_bus wo)") (auto simp: using_bus_def)

lemma and_then_recording:
  "and_then (recording ans m t log) f =
     ((case ans m log of Inl e \<Rightarrow> Inl e | Inr v \<Rightarrow> f v), log @ [m])"
  by (auto simp: and_then_def recording_def split: sum.splits)

lemma recorded_owner:
  "conn_name_owner_with_timeout (recording ans) cs name t log =
     (case BusName_new name of
        Inl e \<Rightarrow> (Inl e, log)
      | Inr n \<Rightarrow> ((case ans (owner_query (bus_str n)) log of Inl e \<Rightarrow> Inl e | Inr v \<Rightarrow> from_value cs (de_option de_name) v),
                 log @ [owner_query (bus_str n)]))"
  by (simp add: conn_name_owner_with_timeout_def call_bus_with_timeout_def and_then_recording owner_query_def json_of_name_def
      split: sum.split)

lemma recorded_attestation:
  "conn_attestation_with_timeout (recording ans) cs api n t log =
     ((case ans (attestation_query n) log of Inl e \<Rightarrow> Inl e | Inr v \<Rightarrow> from_value cs (de_option (as_attestation api)) v),
      log @ [attestation_query n])"
  by (simp add: conn_attestation_with_timeout_def call_bus_with_timeout_def and_then_recording attestation_query_def json_of_name_def)

lemma recorded_confidential:
  "proxy_call_confidential (recording ans) cs de p member args log =
     (case MemberName_new member of
        Inl e \<Rightarrow> (Inl e, log)
      | Inr m \<Rightarrow> (case to_body args of
           Inl e \<Rightarrow> (Inl e, log)
         | Inr body \<Rightarrow>
             (let msg = confidential_call (px_destination p) (px_path p) (px_interface p) m body in
              ((case ans msg log of Inl e \<Rightarrow> Inl e | Inr v \<Rightarrow> from_value cs de v), log @ [msg]))))"
  by (simp add: proxy_call_confidential_def proxy_raw_def and_then_recording Let_def split: sum.split)

lemma recorded_call:
  "proxy_call (recording ans) cs de p member args log =
     (case MemberName_new member of
        Inl e \<Rightarrow> (Inl e, log)
      | Inr m \<Rightarrow> (case to_body args of
           Inl e \<Rightarrow> (Inl e, log)
         | Inr body \<Rightarrow>
             (let msg = method_call (px_destination p) (px_path p) (px_interface p) m body in
              ((case ans msg log of Inl e \<Rightarrow> Inl e | Inr v \<Rightarrow> from_value cs de v), log @ [msg]))))"
  by (simp add: proxy_call_def call_with_timeout_def and_then_recording Let_def split: sum.split)

section \<open>What each step leaves in the log\<close>

lemma bus_of_access [simp]: "wo_bus (snd (using_access f wo)) = wo_bus wo"
  by (simp add: using_access_def split: prod.split)

lemma bus_of_reports [simp]:
  "wo_bus (client_report rc reason wo) = wo_bus wo"
  "wo_bus (snd (refuse rc reason k wo)) = wo_bus wo"
  "wo_bus (snd (refuse_error rc e wo)) = wo_bus wo"
  "wo_bus (snd (client_record c module wo)) = wo_bus wo"
  "wo_bus (snd (proxy_or_report rc r wo)) = wo_bus wo"
  by (simp_all add: client_report_def refuse_def refuse_error_def client_record_def proxy_or_report_def
      split: prod.split option.split sum.split proxy_failure.split)

lemma bus_error_steps [simp]: "wo_bus (snd (error_steps f m)) = wo_bus (snd m)"
  by (simp add: error_steps_def split: prod.split)

lemma refuses [simp]:
  "fst (refuse rc reason k wo) = Inl (local_failure k)" "\<exists>f. fst (refuse_error rc e wo) = Inl f"
  by (simp_all add: refuse_def refuse_error_def split: prod.split)

lemma bus_steps:
  "(\<And>a s. m = (Inr a, s) \<Longrightarrow> wo_bus (snd (f a s)) = wo_bus s) \<Longrightarrow> wo_bus (snd (steps m f)) = wo_bus (snd m)"
  by (auto simp: steps_def split: prod.split sum.split)

lemma bus_load_proxy [simp]: "wo_bus (snd (load_proxy c rc path wo)) = wo_bus wo"
proof -
  have "wo_bus (snd (load_proxy c rc path wo))
      = wo_bus (snd (error_steps (\<lambda>_. CallUnavailable) (using_access (ac_ensure_loaded (mc_access c) (rl_id rc)) wo)))"
    unfolding load_proxy_def by (rule bus_steps) (simp split: prod.split, metis bus_of_access snd_conv)
  then show ?thesis by simp
qed

lemma steps_Inr:
  "fst (steps m f) = Inr b \<longleftrightarrow> (\<exists>a s. m = (Inr a, s) \<and> fst (f a s) = Inr b)"
  by (auto simp: steps_def split: prod.split sum.split)

lemma error_steps_Inr: "error_steps f m = (Inr a, s) \<longleftrightarrow> m = (Inr a, s)"
  by (cases m; cases "fst m") (auto simp: error_steps_def)

lemma client_record_Inr:
  "client_record c module wo = (Inr rc, wo') \<longleftrightarrow>
     ac_find (mc_access c) module = Some rc \<and> ac_enabled (mc_access c) (wo_access wo) \<and> wo' = wo"
  by (auto simp: client_record_def split: option.splits)

section \<open>Attested calls\<close>

text \<open>The peer \<open>ow\<close> proved an artifact pinned for this host by the registry's record of the module.\<close>

definition proved ::
  "(message \<Rightarrow> message list \<Rightarrow> json result) \<Rightarrow> client_serde \<Rightarrow> api_serde \<Rightarrow> string list \<Rightarrow> 'x module_client \<Rightarrow> string \<Rightarrow> bus_name \<Rightarrow> bool" where
  "proved ans cs api candidates c module ow \<longleftrightarrow>
     is_unique ow \<and>
     (\<exists>rc log v att a. ac_find (mc_access c) module = Some rc
        \<and> ans (attestation_query ow) log = Inr v \<and> de_option (as_attestation api) v = Some (Some att)
        \<and> bus_str (att_name att) = rl_bus_name rc
        \<and> a \<in> set (compatible_assets candidates rc) \<and> pins_match att a)"

text \<open>What a binding may ask the bus: the owner of the record's name, then that owner's attestation.\<close>

definition binding_queries :: "message list \<Rightarrow> bool" where
  "binding_queries ms \<longleftrightarrow> (\<exists>name ow. ms = [] \<or> ms = [owner_query name] \<or> ms = [owner_query name, attestation_query ow])"

lemma conn_proxy_destination:
  assumes "conn_proxy d path i = Inr p"
  shows "bus_str (px_destination p) = d"
  using assms busT.new_as_str by (auto simp: conn_proxy_def proxy_new_def split: sum.splits)

lemma deadline_destination [simp]: "px_destination (with_deadline c p) = px_destination p"
  by (simp add: with_deadline_def with_timeout_def split: option.split)

definition peer_effect ::
  "(message \<Rightarrow> message list \<Rightarrow> json result) \<Rightarrow> client_serde \<Rightarrow> api_serde \<Rightarrow> string list \<Rightarrow> 'x module_client \<Rightarrow> string \<Rightarrow>
   message list \<Rightarrow> (module_call_failure + bound_client) \<times> (message list, 'x) world \<Rightarrow> bool" where
  "peer_effect ans cs api candidates c module log r \<longleftrightarrow>
     (\<exists>ms. wo_bus (snd r) = log @ ms \<and> binding_queries ms)
     \<and> (\<forall>b. fst r = Inr b \<longrightarrow> proved ans cs api candidates c module (px_destination (bc_proxy b)))"

lemma peer_effect_refusals:
  "binding_queries ms \<Longrightarrow> wo_bus wo = log @ ms \<Longrightarrow> peer_effect ans cs api candidates c module log (refuse rc reason k wo)"
  "binding_queries ms \<Longrightarrow> wo_bus wo = log @ ms \<Longrightarrow> peer_effect ans cs api candidates c module log (refuse_error rc e wo)"
  by (auto simp: peer_effect_def refuse_def refuse_error_def client_report_def split: prod.splits)

lemma queries [simp]:
  "binding_queries []" "binding_queries [owner_query name]" "binding_queries [owner_query name, attestation_query ow]"
  by (auto simp: binding_queries_def)

lemma from_value_Inr: "from_value cs de v = Inr x \<longleftrightarrow> de v = Some x"
  by (simp add: from_value_def split: option.split)

lemma prove_peer_effect:
  assumes "ac_find (mc_access c) module = Some rc"
  shows "peer_effect ans cs api candidates c module (wo_bus wo)
     (prove_peer (recording ans) cs api c rc (compatible_assets candidates rc) wo)"
proof -
  let ?limit = "case mc_timeout c of Some t \<Rightarrow> t | None \<Rightarrow> DEFAULT_TIMEOUT"
  obtain r1 w1 where o: "conn_name_owner_with_timeout (recording ans) cs (rl_bus_name rc) ?limit (wo_bus wo) = (r1, w1)"
    "using_bus (conn_name_owner_with_timeout (recording ans) cs (rl_bus_name rc) ?limit) wo = (r1, wo \<lparr> wo_bus := w1 \<rparr>)"
    by (rule using_bus_cases)
  let ?wo1 = "wo \<lparr> wo_bus := w1 \<rparr>"
  have w1: "\<exists>ms. w1 = wo_bus wo @ ms \<and> (ms = [] \<or> (\<exists>name. ms = [owner_query name])) \<and> (ms = [] \<longrightarrow> (\<exists>e. r1 = Inl e))"
    using o(1) by (auto simp: recorded_owner split: sum.splits)
  then obtain ms where ms: "w1 = wo_bus wo @ ms" "ms = [] \<or> (\<exists>name. ms = [owner_query name])" "ms = [] \<longrightarrow> (\<exists>e. r1 = Inl e)"
    by blast
  from ms(2) have mq: "binding_queries ms" by auto
  note refusals = peer_effect_refusals [of ms ?wo1 "wo_bus wo" ans cs api candidates c module]
  show ?thesis
  proof (cases "\<exists>ow. r1 = Inr (Some ow) \<and> is_unique ow \<and> (\<exists>p. conn_proxy (bus_str ow) (rl_object_path rc) (rl_bus_name rc) = Inr p)")
    case False
    then show ?thesis
      using refusals ms mq o(2)
      by (auto simp: prove_peer_def split: sum.splits option.splits)
  next
    case True
    then obtain ow p where ow: "r1 = Inr (Some ow)" "is_unique ow"
      and p: "conn_proxy (bus_str ow) (rl_object_path rc) (rl_bus_name rc) = Inr p" by blast
    then obtain name where name: "ms = [owner_query name]" using ms by auto
    obtain r2 w2 where q: "conn_attestation_with_timeout (recording ans) cs api ow ?limit w1 = (r2, w2)" by (rule prod.exhaust)
    then have w2: "w2 = wo_bus wo @ [owner_query name, attestation_query ow]"
      and r2: "r2 = (case ans (attestation_query ow) w1 of Inl e \<Rightarrow> Inl e | Inr v \<Rightarrow> from_value cs (de_option (as_attestation api)) v)"
      using ms(1) name by (auto simp: recorded_attestation)
    have eq: "prove_peer (recording ans) cs api c rc (compatible_assets candidates rc) wo =
      (case r2 of
         Inl e \<Rightarrow> refuse_error rc e (wo \<lparr> wo_bus := w2 \<rparr>)
       | Inr None \<Rightarrow> refuse rc ModuleIsUnavailable CallUnavailable (wo \<lparr> wo_bus := w2 \<rparr>)
       | Inr (Some att) \<Rightarrow>
           if bus_str (att_name att) \<noteq> rl_bus_name rc \<or> \<not> list_ex (pins_match att) (compatible_assets candidates rc)
           then refuse rc ModuleIsUnavailable CallUnavailable (wo \<lparr> wo_bus := w2 \<rparr>)
           else (Inr \<lparr> bc_record = rc, bc_proxy = with_deadline c p, bc_timeout = mc_timeout c \<rparr>, wo \<lparr> wo_bus := w2 \<rparr>))"
      using o(2) ow p q by (simp add: prove_peer_def using_bus_def)
    have rf: "peer_effect ans cs api candidates c module (wo_bus wo) (refuse rc reason k (wo \<lparr> wo_bus := w2 \<rparr>))"
      "peer_effect ans cs api candidates c module (wo_bus wo) (refuse_error rc e (wo \<lparr> wo_bus := w2 \<rparr>))" for reason k e
      by (rule peer_effect_refusals [of "[owner_query name, attestation_query ow]"], simp, simp add: w2)+
    have dest: "px_destination p = ow" using conn_proxy_destination [OF p] by simp
    show ?thesis
    proof (cases "\<exists>att. r2 = Inr (Some att) \<and> bus_str (att_name att) = rl_bus_name rc \<and> list_ex (pins_match att) (compatible_assets candidates rc)")
      case False
      then show ?thesis using rf by (auto simp: eq split: sum.splits option.splits)
    next
      case True
      then obtain att where att: "r2 = Inr (Some att)" "bus_str (att_name att) = rl_bus_name rc"
        "list_ex (pins_match att) (compatible_assets candidates rc)" by blast
      then obtain v a where v: "ans (attestation_query ow) w1 = Inr v" "de_option (as_attestation api) v = Some (Some att)"
        and a: "a \<in> set (compatible_assets candidates rc)" "pins_match att a"
        using r2 by (auto simp: from_value_Inr list_ex_iff split: sum.splits)
      then have "proved ans cs api candidates c module ow"
        using assms att ow by (auto simp: proved_def)
      then show ?thesis
        using att w2 dest by (auto simp: eq peer_effect_def intro!: exI [of _ "[owner_query name, attestation_query ow]"])
    qed
  qed
qed


lemma binding_effect:
  "peer_effect ans cs api candidates c module (wo_bus wo) (bind_attested (recording ans) cs api candidates c module wo)"
proof -
  have idle: "peer_effect ans cs api candidates c module (wo_bus wo) (Inl e, wo')" if "wo_bus wo' = wo_bus wo" for e wo'
    using that by (auto simp: peer_effect_def)
  obtain r1 wo1 where r: "client_record c module wo = (r1, wo1)" by (rule prod.exhaust)
  then have w1: "wo_bus wo1 = wo_bus wo" using bus_of_reports(4) [of c module wo] by simp
  show ?thesis
  proof (cases r1)
    case (Inl k)
    then show ?thesis using idle w1 r by (simp add: bind_attested_def steps_def error_steps_def)
  next
    case (Inr rc)
    then have find: "ac_find (mc_access c) module = Some rc" using r client_record_Inr by metis
    obtain prepared wo2 where p: "using_access (ac_prepare_attested (mc_access c) (rl_id rc) (mc_timeout c)) wo1 = (prepared, wo2)"
      by (rule prod.exhaust)
    then have w2: "wo_bus wo2 = wo_bus wo"
      using bus_of_access [of "ac_prepare_attested (mc_access c) (rl_id rc) (mc_timeout c)" wo1] w1 by simp
    obtain l wo3 where l: "load_proxy c rc (rl_object_path rc) wo2 = (l, wo3)" by (rule prod.exhaust)
    then have w3: "wo_bus wo3 = wo_bus wo" using bus_load_proxy [of c rc "rl_object_path rc" wo2] w2 by simp
    have refused: "peer_effect ans cs api candidates c module (wo_bus wo) (refuse rc ModuleIsUnavailable CallUnavailable w)"
      if "wo_bus w = wo_bus wo" for w
      by (rule peer_effect_refusals(1) [of "[]"]) (simp_all add: that)
    have proving: "peer_effect ans cs api candidates c module (wo_bus wo)
        (prove_peer (recording ans) cs api c rc (compatible_assets candidates rc) wo3)"
      using prove_peer_effect [OF find, of ans cs api candidates wo3] w3 by simp
    show ?thesis
      using r Inr p l refused [OF w1] refused [OF w2] idle [OF w3] proving
      by (cases l) (simp_all add: bind_attested_def steps_def error_steps_def Let_def)
  qed
qed

definition attested_call :: "bus_name \<Rightarrow> message \<Rightarrow> bool" where
  "attested_call ow m \<longleftrightarrow> (\<exists>path i member body. m = confidential_call ow path i member body)"

lemma attested_callI [simp]: "attested_call ow (confidential_call ow path i member body)"
  by (auto simp: attested_call_def)

text \<open>
  C4. An attested call leaves the process only for a peer that proved the pinned artifact. Whatever
  the bus answers and the access layer does, each message a \<open>call_attested\<close> sends is one of the two
  metadata queries, or the confidential call itself, addressed to a unique name whose attestation the
  bus reported under the record's bus name with an archive and a library digest that one and the same
  asset of the record, published for this host, pins. The arguments are in no other message.
\<close>
theorem attested_calls_reach_the_pinned_module:
  fixes wo :: "(message list, 'x) world"
  shows "\<exists>ms. wo_bus (snd (call_attested_detailed (recording ans) cs api candidates de c module member args wo)) = wo_bus wo @ ms
    \<and> (binding_queries ms \<or> (\<exists>qs m ow. ms = qs @ [m] \<and> binding_queries qs \<and> attested_call ow m
          \<and> proved ans cs api candidates c module ow))"
proof -
  obtain r wo1 where b: "bind_attested (recording ans) cs api candidates c module wo = (r, wo1)" by (rule prod.exhaust)
  then obtain qs where qs: "wo_bus wo1 = wo_bus wo @ qs" "binding_queries qs"
    and proof_of: "\<And>bc. r = Inr bc \<Longrightarrow> proved ans cs api candidates c module (px_destination (bc_proxy bc))"
    using binding_effect [of ans cs api candidates c module wo] by (auto simp: peer_effect_def)
  show ?thesis
  proof (cases r)
    case (Inl f)
    then show ?thesis using b qs by (simp add: call_attested_detailed_def steps_def)
  next
    case (Inr bc)
    let ?p = "bc_proxy bc"
    obtain a w where call: "proxy_call_confidential (recording ans) cs de ?p member args (wo_bus wo1) = (a, w)"
      "using_bus (proxy_call_confidential (recording ans) cs de ?p member args) wo1 = (a, wo1 \<lparr> wo_bus := w \<rparr>)"
      by (rule using_bus_cases)
    then have "w = wo_bus wo1 \<or> (\<exists>m. w = wo_bus wo1 @ [m] \<and> attested_call (px_destination ?p) m)"
      by (auto simp: recorded_confidential Let_def split: sum.splits)
    moreover have "wo_bus (snd (call_attested_detailed (recording ans) cs api candidates de c module member args wo)) = w"
      using b Inr call bus_of_reports(3) [of "bc_record bc"]
      by (simp add: call_attested_detailed_def steps_def invoke_proxy_detailed_def split: sum.split)
    ultimately show ?thesis using qs proof_of [OF Inr] by fastforce
  qed
qed


section \<open>Bound clients\<close>

text \<open>The operations on a client that was bound, or on an object client made from it.\<close>

datatype bound_op = BoundCall string "json result" bool | BoundObject string | ObjectAt string

text \<open>One operation; an object operation that succeeds replaces the client by the object's.\<close>

definition bound_step ::
  "message list bus_caller \<Rightarrow> client_serde \<Rightarrow> bound_op \<Rightarrow> bound_client \<times> (message list, 'x) world \<Rightarrow>
   bound_client \<times> (message list, 'x) world" where
  "bound_step call cs op st =
     (case st of (b, wo) \<Rightarrow>
       (case op of
          BoundCall member args confidential \<Rightarrow> (b, snd (bound_call call cs Some b member args confidential wo))
        | BoundObject path \<Rightarrow>
            (case bound_object b path wo of (Inr b', wo') \<Rightarrow> (b', wo') | (Inl _, wo') \<Rightarrow> (b, wo'))
        | ObjectAt path \<Rightarrow>
            (case object_at b path wo of (Inr b', wo') \<Rightarrow> (b', wo') | (Inl _, wo') \<Rightarrow> (b, wo'))))"

definition sent_to :: "bus_name \<Rightarrow> message list \<Rightarrow> bool" where
  "sent_to d ms \<longleftrightarrow> (\<forall>m \<in> set ms. h_destination (m_header m) = Some d)"

lemma call_destinations [simp]:
  "h_destination (m_header (confidential_call d p i m b)) = Some d"
  "h_destination (m_header (method_call d p i m b)) = Some d"
  by (simp_all add: confidential_call_def method_call_def)

lemma invoke_log:
  "\<exists>ms. wo_bus (snd (invoke_proxy_detailed (recording ans) cs de rc p member args confidential wo)) = wo_bus wo @ ms
     \<and> sent_to (px_destination p) ms"
proof -
  obtain a w where call: "(if confidential then proxy_call_confidential (recording ans) cs de p member args
      else proxy_call (recording ans) cs de p member args) (wo_bus wo) = (a, w)"
    "using_bus (if confidential then proxy_call_confidential (recording ans) cs de p member args
      else proxy_call (recording ans) cs de p member args) wo = (a, wo \<lparr> wo_bus := w \<rparr>)"
    by (rule using_bus_cases)
  then have "\<exists>ms. w = wo_bus wo @ ms \<and> sent_to (px_destination p) ms"
    by (auto simp: recorded_confidential recorded_call Let_def sent_to_def split: sum.splits if_splits)
  moreover have "wo_bus (snd (invoke_proxy_detailed (recording ans) cs de rc p member args confidential wo)) = w"
    using call(2) by (simp add: invoke_proxy_detailed_def split: sum.split)
  ultimately show ?thesis by simp
qed

lemma object_destination:
  "bound_object b path wo = (Inr b', wo') \<Longrightarrow> px_destination (bc_proxy b') = px_destination (bc_proxy b)"
  "object_at b path wo = (Inr b', wo') \<Longrightarrow> px_destination (bc_proxy b') = px_destination (bc_proxy b)"
  using conn_proxy_destination
  by (auto simp: bound_object_def object_at_def derive_object_def refuse_error_def error_steps_def with_timeout_def Let_def
      split: sum.splits option.splits prod.splits) (metis bus_name.expand)+

lemma object_log:
  "wo_bus (snd (bound_object b path wo)) = wo_bus wo" "wo_bus (snd (object_at b path wo)) = wo_bus wo"
  by (simp_all add: bound_object_def object_at_def derive_object_def Let_def split: sum.split)

lemma bound_step_stays:
  assumes "bound_step (recording ans) cs op (b, wo) = (b', wo')"
  shows "px_destination (bc_proxy b') = px_destination (bc_proxy b)
    \<and> (\<exists>ms. wo_bus wo' = wo_bus wo @ ms \<and> sent_to (px_destination (bc_proxy b)) ms)"
proof (cases op)
  case (BoundCall member args confidential)
  then show ?thesis
    using assms invoke_log [of ans cs Some "bc_record b" "bc_proxy b" member args confidential wo]
    by (auto simp: bound_step_def bound_call_def)
next
  case (BoundObject path)
  then show ?thesis
    using assms object_destination(1) [of b path wo] object_log(1) [of b path wo]
    by (auto simp: bound_step_def sent_to_def split: prod.splits sum.splits intro!: exI [of _ "[]"])
next
  case (ObjectAt path)
  then show ?thesis
    using assms object_destination(2) [of b path wo] object_log(2) [of b path wo]
    by (auto simp: bound_step_def sent_to_def split: prod.splits sum.splits intro!: exI [of _ "[]"])
qed

lemma bound_run_stays:
  "fold (bound_step (recording ans) cs) ops (b, wo) = (b', wo') \<Longrightarrow>
   px_destination (bc_proxy b') = px_destination (bc_proxy b)
    \<and> (\<exists>ms. wo_bus wo' = wo_bus wo @ ms \<and> sent_to (px_destination (bc_proxy b)) ms)"
proof (induction ops arbitrary: b wo)
  case Nil
  then show ?case by (auto simp: sent_to_def)
next
  case (Cons op ops)
  obtain b1 wo1 where s: "bound_step (recording ans) cs op (b, wo) = (b1, wo1)" by (rule prod.exhaust)
  from bound_step_stays [OF s] obtain ms1 where one: "px_destination (bc_proxy b1) = px_destination (bc_proxy b)"
    "wo_bus wo1 = wo_bus wo @ ms1" "sent_to (px_destination (bc_proxy b)) ms1" by blast
  from Cons.IH [of b1 wo1] Cons.prems s one obtain ms2 where
    "px_destination (bc_proxy b') = px_destination (bc_proxy b)"
    "wo_bus wo' = wo_bus wo1 @ ms2" "sent_to (px_destination (bc_proxy b)) ms2" by auto
  with one show ?case by (auto simp: sent_to_def intro!: exI [of _ "ms1 @ ms2"])
qed

lemma steps_ok: "steps m f = (Inr b, w) \<longleftrightarrow> (\<exists>a s. m = (Inr a, s) \<and> f a s = (Inr b, w))"
  by (auto simp: steps_def split: prod.split sum.split)

lemma refused_not_ok [simp]:
  "refuse rc reason k wo \<noteq> (Inr b, w)" "refuse_error rc e wo \<noteq> (Inr b, w)"
  by (auto simp: refuse_def refuse_error_def split: prod.split)

lemma pin_peer_unique:
  assumes "pin_peer call cs c rc px wo = (Inr b, wo')"
  shows "is_unique (px_destination (bc_proxy b))"
proof -
  obtain r w where o: "using_bus (conn_name_owner_with_timeout call cs (bus_str (px_destination px))
      (case mc_timeout c of Some t \<Rightarrow> t | None \<Rightarrow> px_timeout px)) wo = (r, w)" by (rule prod.exhaust)
  with assms obtain ow p where ow: "r = Inr (Some ow)" "is_unique ow"
    and p: "conn_proxy (bus_str ow) (path_str (px_path px)) (iface_str (px_interface px)) = Inr p"
    and b: "bc_proxy b = with_timeout (case mc_timeout c of Some t \<Rightarrow> t | None \<Rightarrow> px_timeout px) p"
    by (auto simp: pin_peer_def Let_def split: sum.splits option.splits if_splits)
  have "px_destination p = ow" using conn_proxy_destination [OF p] by (simp add: bus_name.expand)
  with ow b show ?thesis by (simp add: with_timeout_def)
qed

lemma bind_client_unique:
  assumes "bind_client call cs c module wo = (Inr b, wo')"
  shows "is_unique (px_destination (bc_proxy b))"
  using assms pin_peer_unique by (auto simp: bind_client_def steps_ok)

text \<open>
  A bound client stays with the peer it was bound to. After \<open>bind\<close> (which keeps the owner of the
  module's name at that time, a unique name) every message of every call, and of every call on an
  object derived from it however deeply, goes to that one unique name, whoever owns the module's
  public name by then.
\<close>
theorem bound_clients_stay:
  fixes wo :: "(message list, 'x) world"
  assumes "bind_client (recording ans) cs c module wo = (Inr b, wo1)"
    and "fold (bound_step (recording ans) cs) ops (b, wo1) = (b2, wo2)"
  shows "is_unique (px_destination (bc_proxy b)) \<and> px_destination (bc_proxy b2) = px_destination (bc_proxy b)
    \<and> (\<exists>ms. wo_bus wo2 = wo_bus wo1 @ ms \<and> sent_to (px_destination (bc_proxy b)) ms)"
  using bind_client_unique [OF assms(1)] bound_run_stays [OF assms(2)] by blast

end
