(* ===== verification/ModuleReports.thy ===== *)
theory ModuleReports
  imports ModuleClientProps BusClientProps ConnectionProps
begin

text \<open>
  The whole surface of the module client as one machine - the client, and the clients and objects
  bound from it -, and two properties of all its runs: nothing a remote peer writes into an error
  reaches an outcome or a report, and reports name modules of the host's registry only.
\<close>

section \<open>The client as a machine\<close>

datatype client_op =
    CoCall string string "json result" bool
  | CoCallJson string string "json result" bool
  | CoCallAttested string string "json result"
  | CoBind string
  | CoBindAttested string
  | CoObject string string
  | CoBoundCall nat string "json result" bool
  | CoBoundObject nat string
  | CoObjectAt nat string
  | CoPinOwner nat
  | CoMalformed string
  | CoKnown string reason

text \<open>The clients handed out so far, and what callers saw: a value, or the outcome they may display.\<close>

record ('w, 'x) client_state =
  ks_world :: "('w, 'x) world"
  ks_held :: "bound_client list"
  ks_seen :: "(module_call_error + json) list"

record ('w, 'x) client_setup =
  kc_call :: "'w bus_caller"
  kc_serde :: client_serde
  kc_api :: api_serde
  kc_candidates :: "string list"
  kc_document :: "string \<Rightarrow> json option"
  kc_client :: "'x module_client"

definition seen :: "('w, 'x) client_state \<Rightarrow> (module_call_error + json) \<times> ('w, 'x) world \<Rightarrow> ('w, 'x) client_state" where
  "seen st r = st \<lparr> ks_world := snd r, ks_seen := ks_seen st @ [fst r] \<rparr>"

definition holding :: "('w, 'x) client_state \<Rightarrow> (module_call_error + bound_client) \<times> ('w, 'x) world \<Rightarrow> ('w, 'x) client_state" where
  "holding st r =
     (case fst r of
        Inr b \<Rightarrow> st \<lparr> ks_world := snd r, ks_held := ks_held st @ [b] \<rparr>
      | Inl e \<Rightarrow> st \<lparr> ks_world := snd r, ks_seen := ks_seen st @ [Inl e] \<rparr>)"

definition on_held :: "nat \<Rightarrow> (bound_client \<Rightarrow> ('w, 'x) client_state) \<Rightarrow> ('w, 'x) client_state \<Rightarrow> ('w, 'x) client_state" where
  "on_held k f st = (if k < length (ks_held st) then f (ks_held st ! k) else st)"

fun client_step :: "('w, 'x) client_setup \<Rightarrow> client_op \<Rightarrow> ('w, 'x) client_state \<Rightarrow> ('w, 'x) client_state" where
  "client_step k (CoCall module member args conf) st =
     seen st (client_invoke (kc_call k) (kc_serde k) Some (kc_client k) module member args conf (ks_world st))"
| "client_step k (CoCallJson module member args conf) st =
     seen st (call_json (kc_call k) (kc_serde k) (kc_document k) (kc_client k) module member args conf (ks_world st))"
| "client_step k (CoCallAttested module member args) st =
     seen st (call_attested (kc_call k) (kc_serde k) (kc_api k) (kc_candidates k) Some (kc_client k) module member args (ks_world st))"
| "client_step k (CoBind module) st =
     holding st (error_steps mf_kind (bind_client (kc_call k) (kc_serde k) (kc_client k) module (ks_world st)))"
| "client_step k (CoBindAttested module) st =
     holding st (error_steps mf_kind (bind_attested (kc_call k) (kc_serde k) (kc_api k) (kc_candidates k) (kc_client k) module (ks_world st)))"
| "client_step k (CoObject module path) st = holding st (object_client (kc_client k) module path (ks_world st))"
| "client_step k (CoBoundCall i member args conf) st =
     on_held i (\<lambda>b. seen st (error_steps mf_kind
       (bound_call (kc_call k) (kc_serde k) Some b member args conf (ks_world st)))) st"
| "client_step k (CoBoundObject i path) st = on_held i (\<lambda>b. holding st (bound_object b path (ks_world st))) st"
| "client_step k (CoObjectAt i path) st = on_held i (\<lambda>b. holding st (object_at b path (ks_world st))) st"
| "client_step k (CoPinOwner i) st = on_held i (\<lambda>b. holding st (pin_owner (kc_call k) (kc_serde k) b (ks_world st))) st"
| "client_step k (CoMalformed module) st = st \<lparr> ks_world := report_malformed_reply (kc_client k) module (ks_world st) \<rparr>"
| "client_step k (CoKnown module reason) st = st \<lparr> ks_world := client_report_known (kc_client k) module reason (ks_world st) \<rparr>"

definition client_run :: "('w, 'x) client_setup \<Rightarrow> client_op list \<Rightarrow> ('w, 'x) client_state \<Rightarrow> ('w, 'x) client_state" where
  "client_run k ops st = fold (client_step k) ops st"

section \<open>Remote text\<close>

text \<open>An error with the same class and nothing of the remote peer's text.\<close>

definition closed_error :: "error \<Rightarrow> error" where
  "closed_error e =
     (case fst (classify e) of
        CallUnavailable \<Rightarrow> ModuleUnavailable [] [] []
      | CallIncompatibleContract \<Rightarrow> Json []
      | CallTransportFailed \<Rightarrow> ConnectionClosed
      | CallModuleFault \<Rightarrow> MethodFailed [] [])"

definition closed_bus :: "'w bus_caller \<Rightarrow> 'w bus_caller" where
  "closed_bus call msg t w = (case call msg t w of (r, w') \<Rightarrow> (map_sum closed_error id r, w'))"

lemma classify_classes:
  "classify e \<in> {(CallUnavailable, ModuleIsUnavailable), (CallIncompatibleContract, IncompatibleContract),
     (CallTransportFailed, TransportFailed), (CallModuleFault, ModuleFault)}"
  by (cases e) (simp_all add: classify_def)

lemma classify_closed: "classify (closed_error e) = classify e"
  using classify_classes [of e]
  by (auto simp: closed_error_def classify_def [of "ModuleUnavailable _ _ _"] classify_def [of "Json _"]
      classify_def [of ConnectionClosed] classify_def [of "MethodFailed _ _"] error_prefix_def
      MODULE_UNAVAILABLE_def UNKNOWN_METHOD_def NOT_ATTESTED_def CONFIDENTIALITY_REQUIRED_def)

text \<open>Two results that differ at most in the text of an error.\<close>

definition alike :: "'a result \<times> 's \<Rightarrow> 'a result \<times> 's \<Rightarrow> bool" where
  "alike m n \<longleftrightarrow> snd m = snd n \<and>
     (fst m = fst n \<or> (\<exists>e e'. fst m = Inl e \<and> fst n = Inl e' \<and> classify e = classify e'))"

definition akin :: "(module_call_failure + 'a) \<times> 's \<Rightarrow> (module_call_failure + 'a) \<times> 's \<Rightarrow> bool" where
  "akin m n \<longleftrightarrow> snd m = snd n \<and> map_sum mf_kind id (fst m) = map_sum mf_kind id (fst n)"

lemma akin_refl [simp]: "akin m m"
  by (simp add: akin_def)

lemma alike_refl [simp]: "alike m m"
  by (simp add: alike_def)

lemma alike_closed: "alike (closed_bus call msg t w) (call msg t w)"
  by (cases "call msg t w"; cases "fst (call msg t w)") (auto simp: closed_bus_def alike_def classify_closed)

lemma alike_and_then: "alike m n \<Longrightarrow> alike (and_then m f) (and_then n f)"
  by (auto simp: alike_def and_then_def split: prod.splits sum.splits)

lemma alike_cases:
  assumes "alike m n"
  obtains a s where "m = (Inr a, s)" "n = (Inr a, s)"
  | e e' s where "m = (Inl e, s)" "n = (Inl e', s)" "classify e = classify e'"
  using assms that by (cases m; cases n; cases "fst m") (auto simp: alike_def)

lemma akin_cases:
  assumes "akin m n"
  obtains a s where "m = (Inr a, s)" "n = (Inr a, s)"
  | e e' s where "m = (Inl e, s)" "n = (Inl e', s)" "mf_kind e = mf_kind e'"
  using assms that by (cases m; cases n; cases "fst m"; cases "fst n") (auto simp: akin_def)

lemma alike_requests:
  "alike (proxy_call (closed_bus call) cs de p member args w) (proxy_call call cs de p member args w)"
  "alike (proxy_call_confidential (closed_bus call) cs de p member args w) (proxy_call_confidential call cs de p member args w)"
  "alike (conn_name_owner_with_timeout (closed_bus call) cs name t w) (conn_name_owner_with_timeout call cs name t w)"
  "alike (conn_attestation_with_timeout (closed_bus call) cs api n t w) (conn_attestation_with_timeout call cs api n t w)"
  by (auto simp: proxy_call_def call_with_timeout_def proxy_call_confidential_def proxy_raw_def conn_name_owner_with_timeout_def
      conn_attestation_with_timeout_def call_bus_with_timeout_def intro: alike_and_then alike_closed split: sum.split)

lemma alike_using: "alike (f (wo_bus wo)) (g (wo_bus wo)) \<Longrightarrow> alike (using_bus f wo) (using_bus g wo)"
  by (auto simp: using_bus_def alike_def split: prod.splits)

lemma akin_refuse_error: "classify e = classify e' \<Longrightarrow> akin (refuse_error rc e wo) (refuse_error rc e' wo)"
  by (auto simp: akin_def refuse_error_def report_proxy_failure_detailed_def failure_from_error_def local_failure_def
      split: prod.splits error.splits)

lemma akin_steps: "akin m n \<Longrightarrow> (\<And>a s. akin (f a s) (g a s)) \<Longrightarrow> akin (steps m f) (steps n g)"
  by (erule akin_cases) (auto simp: steps_def akin_def)

lemma akin_kind: "akin m n \<longleftrightarrow> error_steps mf_kind m = error_steps mf_kind n"
  by (cases m; cases n) (auto simp: akin_def error_steps_def)


lemma akin_invoke_proxy:
  "akin (invoke_proxy_detailed (closed_bus call) cs de rc p member args conf wo)
        (invoke_proxy_detailed call cs de rc p member args conf wo)"
proof -
  let ?f = "\<lambda>call. if conf then proxy_call_confidential call cs de p member args else proxy_call call cs de p member args"
  have "alike (using_bus (?f (closed_bus call)) wo) (using_bus (?f call) wo)"
    by (rule alike_using) (simp add: alike_requests)
  then show ?thesis
    unfolding invoke_proxy_detailed_def by (rule alike_cases) (simp_all add: akin_refuse_error)
qed

lemma akin_pin_peer: "akin (pin_peer (closed_bus call) cs c rc px wo) (pin_peer call cs c rc px wo)"
proof -
  let ?t = "case mc_timeout c of Some t \<Rightarrow> t | None \<Rightarrow> px_timeout px"
  have "alike (using_bus (conn_name_owner_with_timeout (closed_bus call) cs (bus_str (px_destination px)) ?t) wo)
      (using_bus (conn_name_owner_with_timeout call cs (bus_str (px_destination px)) ?t) wo)"
    by (rule alike_using) (rule alike_requests)
  then show ?thesis
    unfolding pin_peer_def Let_def by (rule alike_cases) (simp_all add: akin_refuse_error)
qed

lemma akin_prove_peer:
  "akin (prove_peer (closed_bus call) cs api c rc assets wo) (prove_peer call cs api c rc assets wo)"
proof -
  define t where "t = (case mc_timeout c of Some t \<Rightarrow> t | None \<Rightarrow> DEFAULT_TIMEOUT)"
  have own: "alike (using_bus (conn_name_owner_with_timeout (closed_bus call) cs (rl_bus_name rc) t) wo)
      (using_bus (conn_name_owner_with_timeout call cs (rl_bus_name rc) t) wo)"
    by (rule alike_using) (rule alike_requests)
  have att: "alike (using_bus (conn_attestation_with_timeout (closed_bus call) cs api ow t) wo1)
      (using_bus (conn_attestation_with_timeout call cs api ow t) wo1)" for ow wo1
    by (rule alike_using) (rule alike_requests)
  have inner: "akin
     (case using_bus (conn_attestation_with_timeout (closed_bus call) cs api ow t) wo1 of
        (Inl e, wo2) \<Rightarrow> refuse_error rc e wo2 | (Inr None, wo2) \<Rightarrow> f wo2 | (Inr (Some a), wo2) \<Rightarrow> g a wo2)
     (case using_bus (conn_attestation_with_timeout call cs api ow t) wo1 of
        (Inl e, wo2) \<Rightarrow> refuse_error rc e wo2 | (Inr None, wo2) \<Rightarrow> f wo2 | (Inr (Some a), wo2) \<Rightarrow> g a wo2)" for ow wo1 f g
    by (rule alike_cases [OF att [of ow wo1]]) (simp_all add: akin_refuse_error)
  from own show ?thesis
    unfolding prove_peer_def Let_def t_def [symmetric]
  proof (rule alike_cases, goal_cases)
    case (1 a s)
    show ?case
    proof (cases a)
      case None
      with 1 show ?thesis by simp
    next
      case (Some ow)
      with 1 show ?thesis
        by (cases "conn_proxy (bus_str ow) (rl_object_path rc) (rl_bus_name rc)") (simp_all add: inner)
    qed
  next
    case (2 e e' s)
    then show ?case by (simp add: akin_refuse_error)
  qed
qed

lemma akin_binding:
  "akin (bind_attested (closed_bus call) cs api candidates c module wo) (bind_attested call cs api candidates c module wo)"
  "akin (bind_client (closed_bus call) cs c module wo) (bind_client call cs c module wo)"
  unfolding bind_attested_def bind_client_def
  by (auto simp: Let_def intro!: akin_steps akin_prove_peer akin_pin_peer split: prod.split)

lemma closed_client_steps:
  "client_invoke (closed_bus call) cs de c module member args conf wo = client_invoke call cs de c module member args conf wo"
  "call_attested (closed_bus call) cs api candidates de c module member args wo
     = call_attested call cs api candidates de c module member args wo"
  "error_steps mf_kind (bound_call (closed_bus call) cs de b member args conf wo)
     = error_steps mf_kind (bound_call call cs de b member args conf wo)"
  "error_steps mf_kind (bind_client (closed_bus call) cs c module wo) = error_steps mf_kind (bind_client call cs c module wo)"
  "error_steps mf_kind (bind_attested (closed_bus call) cs api candidates c module wo)
     = error_steps mf_kind (bind_attested call cs api candidates c module wo)"
  unfolding client_invoke_def invoke_proxy_def call_attested_def call_attested_detailed_def bound_call_def
  by (simp_all add: akin_kind [symmetric] akin_invoke_proxy akin_binding akin_steps
      iffD1 [OF akin_kind akin_invoke_proxy])

lemma closed_pin_owner: "pin_owner (closed_bus call) cs b wo = pin_owner call cs b wo"
proof -
  have "alike (using_bus (conn_name_owner_with_timeout (closed_bus call) cs (bus_str (px_destination (bc_proxy b))) (px_timeout (bc_proxy b))) wo)
      (using_bus (conn_name_owner_with_timeout call cs (bus_str (px_destination (bc_proxy b))) (px_timeout (bc_proxy b))) wo)"
    by (rule alike_using) (rule alike_requests)
  then show ?thesis
    unfolding pin_owner_def
    by (rule alike_cases) (simp_all add: akin_kind [symmetric] akin_refuse_error)
qed

lemma closed_step: "client_step (k \<lparr> kc_call := closed_bus (kc_call k) \<rparr>) op st = client_step k op st"
  by (cases op) (simp_all add: closed_client_steps closed_pin_owner call_json_def)



section \<open>Reports\<close>

text \<open>
  The contract of a host's access layer with respect to the reporter: its own operations report
  registry data only. The lemmas for the client's operations hold over any such layer.
\<close>

locale discreet_access =
  fixes ac :: "'x module_access"
  assumes ensure: "registry_only (ac_find ac) r \<Longrightarrow> registry_only (ac_find ac) (snd (snd (ac_ensure_loaded ac ident x r)))"
    and ensure_within: "registry_only (ac_find ac) r \<Longrightarrow> registry_only (ac_find ac) (snd (snd (ac_ensure_loaded_within ac ident lim x r)))"
    and prepare: "registry_only (ac_find ac) r \<Longrightarrow> registry_only (ac_find ac) (snd (snd (ac_prepare_attested ac ident lim x r)))"
    and hand_out: "registry_only (ac_find ac) r \<Longrightarrow> registry_only (ac_find ac) (snd (snd (ac_proxy ac n path lim x r)))"
begin

definition in_registry :: "release_record \<Rightarrow> bool" where
  "in_registry rc \<longleftrightarrow> (\<exists>ident. ac_find ac ident = Some rc)"

definition discreet :: "('w, 'x) world \<Rightarrow> bool" where
  "discreet wo \<longleftrightarrow> registry_only (ac_find ac) (wo_reports wo)"

lemma using_access_discreet:
  "(\<And>x r. registry_only (ac_find ac) r \<Longrightarrow> registry_only (ac_find ac) (snd (snd (f x r)))) \<Longrightarrow> discreet wo
   \<Longrightarrow> discreet (snd (using_access f wo))"
  by (auto simp: discreet_def using_access_def split: prod.split) (metis snd_conv)

lemma using_bus_discreet: "discreet wo \<Longrightarrow> discreet (snd (using_bus f wo))"
  by (simp add: discreet_def using_bus_def split: prod.split)

lemma refusals_discreet:
  assumes "in_registry rc" "discreet wo"
  shows "discreet (client_report rc reason wo)" "discreet (snd (refuse rc reason k wo))" "discreet (snd (refuse_error rc e wo))"
  using assms
  by (auto simp: in_registry_def discreet_def client_report_def refuse_def refuse_error_def report_proxy_failure_detailed_def
      split: prod.split)

lemma record_discreet:
  assumes "discreet wo" "mc_access c = ac"
  shows "discreet (snd (client_record c module wo))"
    "fst (client_record c module wo) = Inr rc \<Longrightarrow> in_registry rc"
proof -
  have "discreet (client_report rc reason wo)" if "ac_find ac module = Some rc" for rc reason
    by (rule refusals_discreet(1)) (use that assms in \<open>auto simp: in_registry_def\<close>)
  then show "discreet (snd (client_record c module wo))"
    using assms by (auto simp: client_record_def discreet_def split: option.split)
  show "fst (client_record c module wo) = Inr rc \<Longrightarrow> in_registry rc"
    using assms(2) by (auto simp: client_record_def in_registry_def split: option.splits if_splits)
qed

lemma steps_discreet:
  "discreet (snd m) \<Longrightarrow> (\<And>a s. m = (Inr a, s) \<Longrightarrow> discreet s \<Longrightarrow> discreet (snd (f a s))) \<Longrightarrow> discreet (snd (steps m f))"
  by (auto simp: steps_def split: prod.split sum.split)

lemma error_steps_discreet [simp]: "discreet (snd (error_steps f m)) = discreet (snd m)"
  by (simp add: error_steps_def split: prod.split)

lemma proxy_or_report_discreet: "in_registry rc \<Longrightarrow> discreet wo \<Longrightarrow> discreet (snd (proxy_or_report rc r wo))"
  by (simp add: proxy_or_report_def refusals_discreet split: sum.split proxy_failure.split)

lemma load_proxy_discreet:
  assumes "in_registry rc" "discreet wo" "mc_access c = ac"
  shows "discreet (snd (load_proxy c rc path wo))"
  unfolding load_proxy_def
proof (rule steps_discreet)
  show "discreet (snd (error_steps (\<lambda>_. CallUnavailable) (using_access (ac_ensure_loaded (mc_access c) (rl_id rc)) wo)))"
    using assms by (simp add: using_access_discreet ensure)
next
  fix u s assume "discreet s"
  then have "discreet (snd (using_access (ac_proxy (mc_access c) (rl_bus_name rc) path None) s))"
    using assms by (simp add: using_access_discreet hand_out)
  then show "discreet (snd (case using_access (ac_proxy (mc_access c) (rl_bus_name rc) path None) s of
      (reply, wo2) \<Rightarrow> proxy_or_report rc (case reply of Some r \<Rightarrow> r | None \<Rightarrow> Inl ProxyTransport) wo2))"
    by (auto simp: proxy_or_report_discreet [OF assms(1)] split: prod.split)
qed

lemma load_for_binding_discreet:
  assumes "in_registry rc" "discreet wo" "mc_access c = ac"
  shows "discreet (snd (load_proxy_for_binding c rc path wo))"
proof -
  obtain a wo1 where a: "using_access (ac_ensure_loaded_within (mc_access c) (rl_id rc) (mc_timeout c)) wo = (a, wo1)"
    by (rule prod.exhaust)
  then have d1: "discreet wo1"
    using using_access_discreet [of "ac_ensure_loaded_within (mc_access c) (rl_id rc) (mc_timeout c)" wo] assms ensure_within
    by simp
  obtain b wo2 where b: "using_access (ac_proxy (mc_access c) (rl_bus_name rc) path (mc_timeout c)) wo1 = (b, wo2)"
    by (rule prod.exhaust)
  then have d2: "discreet wo2"
    using using_access_discreet [of "ac_proxy (mc_access c) (rl_bus_name rc) path (mc_timeout c)" wo1] assms hand_out d1
    by simp
  show ?thesis
    using a b d1 d2
    by (auto simp: load_proxy_for_binding_def refusals_discreet(3) [OF assms(1)] proxy_or_report_discreet [OF assms(1)]
        split: sum.split readiness_failure.split option.split)
qed

lemma invoke_proxy_discreet:
  assumes "in_registry rc" "discreet wo"
  shows "discreet (snd (invoke_proxy_detailed call cs de rc p member args conf wo))"
proof -
  let ?f = "if conf then proxy_call_confidential call cs de p member args else proxy_call call cs de p member args"
  obtain a wo1 where "using_bus ?f wo = (a, wo1)" by (rule prod.exhaust)
  then show ?thesis
    using using_bus_discreet [OF assms(2), of ?f]
    by (simp add: invoke_proxy_detailed_def refusals_discreet(3) [OF assms(1)] split: sum.split)
qed

lemma pin_peer_discreet:
  assumes "in_registry rc" "discreet wo"
  shows "discreet (snd (pin_peer call cs c rc px wo))"
    "fst (pin_peer call cs c rc px wo) = Inr b \<Longrightarrow> in_registry (bc_record b)"
proof -
  let ?f = "conn_name_owner_with_timeout call cs (bus_str (px_destination px))
      (case mc_timeout c of Some t \<Rightarrow> t | None \<Rightarrow> px_timeout px)"
  obtain a wo1 where a: "using_bus ?f wo = (a, wo1)" by (rule prod.exhaust)
  then have d: "discreet wo1" using using_bus_discreet [OF assms(2), of ?f] by simp
  show "discreet (snd (pin_peer call cs c rc px wo))"
    using a d by (simp add: pin_peer_def Let_def refusals_discreet [OF assms(1) d] split: sum.split option.split)
  show "fst (pin_peer call cs c rc px wo) = Inr b \<Longrightarrow> in_registry (bc_record b)"
    using a assms(1) by (auto simp: pin_peer_def Let_def refuse_def refuse_error_def
        split: sum.splits option.splits if_splits prod.splits)
qed

lemma prove_peer_discreet:
  assumes "in_registry rc" "discreet wo"
  shows "discreet (snd (prove_peer call cs api c rc assets wo))"
    "fst (prove_peer call cs api c rc assets wo) = Inr b \<Longrightarrow> in_registry (bc_record b)"
proof -
  let ?t = "case mc_timeout c of Some t \<Rightarrow> t | None \<Rightarrow> DEFAULT_TIMEOUT"
  obtain a wo1 where a: "using_bus (conn_name_owner_with_timeout call cs (rl_bus_name rc) ?t) wo = (a, wo1)" by (rule prod.exhaust)
  then have d: "discreet wo1"
    using using_bus_discreet [OF assms(2), of "conn_name_owner_with_timeout call cs (rl_bus_name rc) ?t"] by simp
  have d2: "discreet (snd (using_bus (conn_attestation_with_timeout call cs api ow ?t) wo1))" for ow
    by (rule using_bus_discreet [OF d])
  show "discreet (snd (prove_peer call cs api c rc assets wo))"
  proof (cases "\<exists>ow p. a = Inr (Some ow) \<and> is_unique ow \<and> conn_proxy (bus_str ow) (rl_object_path rc) (rl_bus_name rc) = Inr p")
    case False
    then show ?thesis using a
      by (auto simp: prove_peer_def Let_def refusals_discreet [OF assms(1) d] split: sum.split option.split)
  next
    case True
    then obtain ow p where ow: "a = Inr (Some ow)" "is_unique ow" "conn_proxy (bus_str ow) (rl_object_path rc) (rl_bus_name rc) = Inr p" by blast
    obtain q wo2 where q: "using_bus (conn_attestation_with_timeout call cs api ow ?t) wo1 = (q, wo2)" by (rule prod.exhaust)
    then have wo2: "discreet wo2" using d2 [of ow] by simp
    show ?thesis using a ow q wo2
      by (simp add: prove_peer_def Let_def refusals_discreet [OF assms(1) wo2] split: sum.split option.split)
  qed
  show "fst (prove_peer call cs api c rc assets wo) = Inr b \<Longrightarrow> in_registry (bc_record b)"
    using a assms(1) by (auto simp: prove_peer_def Let_def refuse_def refuse_error_def
        split: sum.splits option.splits if_splits prod.splits)
qed


lemma bind_client_discreet:
  assumes "discreet wo" "mc_access c = ac"
  shows "discreet (snd (bind_client call cs c module wo))"
    "fst (bind_client call cs c module wo) = Inr b \<Longrightarrow> in_registry (bc_record b)"
proof -
  have rc: "in_registry rc" if "client_record c module wo = (Inr rc, s)" for rc s
    using that record_discreet(2) [OF assms] by (metis fst_conv)
  have via: "discreet (snd (case mc_fixture c of Some p \<Rightarrow> (Inr p, s) | None \<Rightarrow> load_proxy_for_binding c rc (rl_object_path rc) s))"
    if "in_registry rc" "discreet s" for rc s
    using that assms by (simp add: load_for_binding_discreet split: option.split)
  show "discreet (snd (bind_client call cs c module wo))"
    unfolding bind_client_def
    by (rule steps_discreet, simp add: record_discreet [OF assms])
      (rule steps_discreet, simp_all add: error_steps_Inr rc via pin_peer_discreet)
  show "in_registry (bc_record b)" if "fst (bind_client call cs c module wo) = Inr b"
  proof -
    from that obtain rc s px s2 where r: "client_record c module wo = (Inr rc, s)"
      and v: "(case mc_fixture c of Some p \<Rightarrow> (Inr p, s) | None \<Rightarrow> load_proxy_for_binding c rc (rl_object_path rc) s) = (Inr px, s2)"
      and b: "fst (pin_peer call cs c rc px s2) = Inr b"
      by (auto simp: bind_client_def steps_Inr error_steps_Inr)
    have "discreet s" using record_discreet(1) [OF assms, of module] r by simp
    then have "discreet s2" using via [OF rc [OF r]] v by (metis snd_conv)
    with pin_peer_discreet(2) [OF rc [OF r]] b show ?thesis by blast
  qed
qed

lemma bind_attested_discreet:
  fixes wo :: "('w, 'x) world"
  assumes "discreet wo" "mc_access c = ac"
  shows "discreet (snd (bind_attested call cs api candidates c module wo))"
    "fst (bind_attested call cs api candidates c module wo) = Inr b \<Longrightarrow> in_registry (bc_record b)"
proof -
  define rest where "rest = (\<lambda>rc (wo1 :: ('w, 'x) world).
       let assets = compatible_assets candidates rc;
           unavailable = refuse rc ModuleIsUnavailable CallUnavailable in
       if assets = [] then unavailable wo1
       else (case using_access (ac_prepare_attested (mc_access c) (rl_id rc) (mc_timeout c)) wo1 of
         (prepared, wo2) \<Rightarrow>
           if mc_fixture c \<noteq> None \<or> \<not> prepared then unavailable wo2
           else steps (error_steps local_failure (load_proxy c rc (rl_object_path rc) wo2))
             (\<lambda>_ wo3. prove_peer call cs api c rc assets wo3)))"
  have eq: "bind_attested call cs api candidates c module wo = steps (error_steps local_failure (client_record c module wo)) rest"
    by (simp add: bind_attested_def rest_def)
  have rc: "in_registry rc" if "client_record c module wo = (Inr rc, s)" for rc s
    using that record_discreet(2) [OF assms] by (metis fst_conv)
  have prep: "discreet (snd (using_access (ac_prepare_attested (mc_access c) (rl_id rc) (mc_timeout c)) s))"
    if "discreet s" for rc and s :: "('w, 'x) world"
    by (rule using_access_discreet [OF _ that]) (simp add: assms(2) prepare)
  have d: "discreet (snd (rest rc s))" if r: "in_registry rc" and s: "discreet s" for rc s
  proof -
    obtain a s2 where a: "using_access (ac_prepare_attested (mc_access c) (rl_id rc) (mc_timeout c)) s = (a, s2)" by (rule prod.exhaust)
    then have s2: "discreet s2" using prep [OF s, of rc] by simp
    have "discreet (snd (steps (error_steps local_failure (load_proxy c rc (rl_object_path rc) s2))
             (\<lambda>_ wo3. prove_peer call cs api c rc assets wo3)))" for assets
      by (rule steps_discreet) (simp_all add: load_proxy_discreet [OF r s2 assms(2)] prove_peer_discreet(1) [OF r])
    then show ?thesis using a by (simp add: rest_def Let_def refusals_discreet(2) [OF r s] refusals_discreet(2) [OF r s2])
  qed
  show "discreet (snd (bind_attested call cs api candidates c module wo))"
    unfolding eq by (rule steps_discreet) (auto simp: record_discreet [OF assms] error_steps_Inr rc d)
  show "in_registry (bc_record b)" if "fst (bind_attested call cs api candidates c module wo) = Inr b"
  proof -
    from that obtain rc s where r: "client_record c module wo = (Inr rc, s)" and b: "fst (rest rc s) = Inr b"
      unfolding eq by (auto simp: steps_Inr error_steps_Inr)
    have s: "discreet s" using record_discreet(1) [OF assms, of module] r by simp
    obtain a s2 where a: "using_access (ac_prepare_attested (mc_access c) (rl_id rc) (mc_timeout c)) s = (a, s2)" by (rule prod.exhaust)
    then have s2: "discreet s2" using prep [OF s, of rc] by simp
    from b a obtain u s3 where l: "load_proxy c rc (rl_object_path rc) s2 = (Inr u, s3)"
      and p: "fst (prove_peer call cs api c rc (compatible_assets candidates rc) s3) = Inr b"
      by (auto simp: rest_def Let_def steps_Inr error_steps_Inr split: if_splits)
    have "discreet s3" using load_proxy_discreet [OF rc [OF r] s2 assms(2), of "rl_object_path rc"] l by simp
    with prove_peer_discreet(2) [OF rc [OF r]] p show ?thesis by blast
  qed
qed

lemma selected_discreet:
  assumes "in_registry rc" "discreet wo" "mc_access c = ac"
  shows "discreet (snd (selected_proxy c rc wo))"
  unfolding selected_proxy_def
  by (rule steps_discreet) (simp_all add: assms load_proxy_discreet split: option.split)

lemma invoke_discreet:
  assumes "discreet wo" "mc_access c = ac"
  shows "discreet (snd (client_invoke call cs de c module member args conf wo))"
proof -
  have "discreet (snd (steps (selected_proxy c rc s) (\<lambda>p wo2. invoke_proxy call cs de rc p member args conf wo2)))"
    if "client_record c module wo = (Inr rc, s)" "discreet s" for rc s
  proof -
    have r: "in_registry rc" using that(1) record_discreet(2) [OF assms] by (metis fst_conv)
    show ?thesis
      by (rule steps_discreet) (simp_all add: selected_discreet r that assms invoke_proxy_def invoke_proxy_discreet)
  qed
  then show ?thesis
    unfolding client_invoke_def by (rule steps_discreet [OF record_discreet(1) [OF assms]])
qed

lemma malformed_discreet:
  "discreet wo \<Longrightarrow> mc_access c = ac \<Longrightarrow> discreet (report_malformed_reply c module wo)"
  "discreet wo \<Longrightarrow> mc_access c = ac \<Longrightarrow> discreet (client_report_known c module reason wo)"
  by (auto simp: report_malformed_reply_def client_report_known_def client_report_def discreet_def split: option.split)

lemma call_json_discreet:
  assumes "discreet wo" "mc_access c = ac"
  shows "discreet (snd (call_json call cs dec c module member args conf wo))"
  unfolding call_json_def
  by (rule steps_discreet) (simp_all add: invoke_discreet assms malformed_discreet split: option.split)

lemma call_attested_discreet:
  assumes "discreet wo" "mc_access c = ac"
  shows "discreet (snd (call_attested call cs api candidates de c module member args wo))"
proof -
  have "in_registry (bc_record b)" if "bind_attested call cs api candidates c module wo = (Inr b, s)" for b s
    using that bind_attested_discreet(2) [OF assms] by (metis fst_conv)
  then show ?thesis
    unfolding call_attested_def call_attested_detailed_def
    by (simp, intro steps_discreet) (simp_all add: bind_attested_discreet(1) [OF assms] invoke_proxy_discreet)
qed

lemma object_discreet:
  assumes "discreet wo"
  shows "mc_access c = ac \<Longrightarrow> discreet (snd (object_client c module path wo))"
    and "mc_access c = ac \<Longrightarrow> fst (object_client c module path wo) = Inr b \<Longrightarrow> in_registry (bc_record b)"
    and "in_registry (bc_record h) \<Longrightarrow> discreet (snd (bound_object h path wo))"
    and "in_registry (bc_record h) \<Longrightarrow> fst (bound_object h path wo) = Inr b \<Longrightarrow> in_registry (bc_record b)"
    and "in_registry (bc_record h) \<Longrightarrow> discreet (snd (derive_object h d path wo))"
    and "in_registry (bc_record h) \<Longrightarrow> fst (derive_object h d path wo) = Inr b \<Longrightarrow> in_registry (bc_record b)"
proof -
  assume c: "mc_access c = ac"
  have rc: "in_registry rc \<and> discreet s" if "client_record c module wo = (Inr rc, s)" for rc s
    using that record_discreet [OF assms c, of module] by (metis fst_conv snd_conv)
  show "discreet (snd (object_client c module path wo))"
    unfolding object_client_def
    by (rule steps_discreet [OF record_discreet(1) [OF assms c]])
      (auto simp: Let_def refusals_discreet(1) rc c load_proxy_discreet steps_discreet split: option.split sum.split)
  show "in_registry (bc_record b)" if r: "fst (object_client c module path wo) = Inr b"
  proof (cases "mc_fixture c")
    case None
    with r rc show ?thesis by (auto simp: object_client_def steps_Inr Let_def)
  next
    case (Some fx)
    with r rc show ?thesis
      by (cases "conn_proxy (bus_str (px_destination fx)) path (iface_str (px_interface fx))")
        (auto simp: object_client_def steps_Inr Let_def)
  qed
next
  assume h: "in_registry (bc_record h)"
  show "discreet (snd (bound_object h path wo))" "fst (bound_object h path wo) = Inr b \<Longrightarrow> in_registry (bc_record b)"
    using h assms refusals_discreet(1) [OF h assms] by (auto simp: bound_object_def split: sum.splits)
  show "discreet (snd (derive_object h d path wo))"
    by (auto simp: derive_object_def Let_def assms refusals_discreet(3) [OF h assms] split: sum.split)
  show "fst (derive_object h d path wo) = Inr b \<Longrightarrow> in_registry (bc_record b)"
    using h by (auto simp: derive_object_def Let_def error_steps_def refuse_error_def split: sum.splits prod.splits)
qed

lemma pin_owner_discreet:
  assumes "discreet wo" and h: "in_registry (bc_record h)"
  shows "discreet (snd (pin_owner call cs h wo))" "fst (pin_owner call cs h wo) = Inr b \<Longrightarrow> in_registry (bc_record b)"
proof -
  let ?f = "conn_name_owner_with_timeout call cs (bus_str (px_destination (bc_proxy h))) (px_timeout (bc_proxy h))"
  obtain a wo1 where a: "using_bus ?f wo = (a, wo1)" by (rule prod.exhaust)
  then have d: "discreet wo1" using using_bus_discreet [OF assms(1), of ?f] by simp
  show "discreet (snd (pin_owner call cs h wo))"
    using a by (simp add: pin_owner_def refusals_discreet [OF h d] object_discreet(5) [OF d h] split: sum.split option.split)
  show "fst (pin_owner call cs h wo) = Inr b \<Longrightarrow> in_registry (bc_record b)"
    using a object_discreet(6) [OF d h] by (auto simp: pin_owner_def error_steps_def refuse_error_def split: sum.splits option.splits prod.splits)
qed

definition client_ok :: "('w, 'x) client_state \<Rightarrow> bool" where
  "client_ok st \<longleftrightarrow> discreet (ks_world st) \<and> (\<forall>b \<in> set (ks_held st). in_registry (bc_record b))"

lemma seen_ok: "client_ok st \<Longrightarrow> discreet (snd r) \<Longrightarrow> client_ok (seen st r)"
  by (simp add: client_ok_def seen_def)

lemma holding_ok:
  "client_ok st \<Longrightarrow> discreet (snd r) \<Longrightarrow> (\<And>b. fst r = Inr b \<Longrightarrow> in_registry (bc_record b)) \<Longrightarrow> client_ok (holding st r)"
  by (auto simp: client_ok_def holding_def split: sum.split)

lemma error_steps_fst: "fst (error_steps f m) = Inr b \<longleftrightarrow> fst m = Inr b"
  by (cases m; cases "fst m") (auto simp: error_steps_def)

lemma client_step_ok:
  assumes ok: "client_ok st" and k: "mc_access (kc_client k) = ac"
  shows "client_ok (client_step k op st)"
proof -
  have d: "discreet (ks_world st)" using ok by (simp add: client_ok_def)
  have held: "in_registry (bc_record (ks_held st ! i))" if "i < length (ks_held st)" for i
    using that ok by (simp add: client_ok_def)
  have malf: "client_ok (st \<lparr> ks_world := wo \<rparr>)" if "discreet wo" for wo
    using that ok by (simp add: client_ok_def)
  have h: "client_ok (on_held i f st)" if "\<And>b. in_registry (bc_record b) \<Longrightarrow> client_ok (f b)" for i f
    using that held ok by (simp add: on_held_def)
  note hold = holding_ok [OF ok]
  show ?thesis
  proof (cases op)
    case (CoBind module)
    then show ?thesis using bind_client_discreet [OF d k] by (auto simp: error_steps_fst intro!: hold)
  next
    case (CoBindAttested module)
    then show ?thesis using bind_attested_discreet [OF d k] by (auto simp: error_steps_fst intro!: hold)
  next
    case (CoObject module path)
    then show ?thesis using object_discreet(1,2) [OF d k] by (auto intro!: hold)
  next
    case (CoBoundObject i path)
    then show ?thesis using object_discreet(3,4) [OF d] by (auto intro!: hold h)
  next
    case (CoObjectAt i path)
    then show ?thesis using object_discreet(5,6) [OF d] by (auto simp: object_at_def intro!: hold h)
  next
    case (CoPinOwner i)
    then show ?thesis using pin_owner_discreet [OF d] by (auto intro!: hold h)
  next
    case (CoBoundCall i member args conf)
    then show ?thesis by (auto simp: bound_call_def invoke_proxy_discreet d intro!: h seen_ok ok)
  qed (simp_all add: seen_ok ok malf malformed_discreet d k invoke_discreet call_json_discreet call_attested_discreet)
qed

end

interpretation unloaded: discreet_access "unloaded_access records enabled"
  by unfold_locales
     (auto simp: unloaded_access_def unloaded_ensure_def registry_only_reports(1) split: option.splits)


section \<open>Properties\<close>

text \<open>
  Terminal reports name registered modules only. Over an access layer that reports registry data
  only, every report captured in any run of the client - calls, bindings, derived objects, malformed
  replies, identifiers nobody in_registry - carries the id and version of a record of the host's
  registry, or is the one anonymous report of an unregistered module: no argument, no object path, no
  identifier or text a caller or a peer supplied.
\<close>
theorem reports_name_registered_modules:
  assumes "discreet_access (mc_access (kc_client k))"
    and "registry_only (ac_find (mc_access (kc_client k))) (wo_reports (ks_world st))" "ks_held st = []"
  shows "registry_only (ac_find (mc_access (kc_client k))) (wo_reports (ks_world (client_run k ops st)))"
proof -
  note step = discreet_access.client_step_ok [OF assms(1) _ refl]
  have "discreet_access.client_ok (mc_access (kc_client k)) st"
    using assms by (simp add: discreet_access.client_ok_def [OF assms(1)] discreet_access.discreet_def [OF assms(1)])
  then have "discreet_access.client_ok (mc_access (kc_client k)) (client_run k ops st)"
    unfolding client_run_def by (induction ops arbitrary: st) (simp_all add: step)
  then show ?thesis
    by (simp add: discreet_access.client_ok_def [OF assms(1)] discreet_access.discreet_def [OF assms(1)])
qed


definition sample_record :: release_record where
  "sample_record = \<lparr> rl_id = ''m'', rl_bus_name = ''a.b'', rl_object_path = ''/'', rl_version = ''1'',
     rl_release_url = [], rl_assets = [] \<rparr>"

text \<open>A host without the loader: a known module and an unknown one are called.\<close>

definition sample_setup :: "(message list, unit) client_setup" where
  "sample_setup = \<lparr> kc_call = recording (\<lambda>_ _. Inl ConnectionClosed), kc_serde = any_client, kc_api = sample_api,
     kc_candidates = [], kc_document = (\<lambda>_. None), kc_client = client_new (unloaded_access [sample_record] True) \<rparr>"

definition sample_client :: "(message list, unit) client_state" where
  "sample_client = \<lparr> ks_world = \<lparr> wo_bus = [], wo_access = (), wo_reports = reporter_new True \<rparr>, ks_held = [], ks_seen = [] \<rparr>"

lemma reports_name_registered_modules_witness:
  "registry_only (\<lambda>ident. find (\<lambda>rc. rl_id rc = ident) [sample_record])
     (wo_reports (ks_world (client_run sample_setup
        [CoCall ''m'' ''Get'' (Inr JNull) False, CoCall ''secret'' ''Get'' (Inr JNull) True] sample_client)))"
proof -
  have ac: "mc_access (kc_client sample_setup) = unloaded_access [sample_record] True"
    by (simp add: sample_setup_def client_new_def)
  have find: "ac_find (unloaded_access [sample_record] True :: unit module_access) = (\<lambda>ident. find (\<lambda>rc. rl_id rc = ident) [sample_record])"
    by (simp add: unloaded_access_def)
  show ?thesis
    using reports_name_registered_modules [of sample_setup sample_client
        "[CoCall ''m'' ''Get'' (Inr JNull) False, CoCall ''secret'' ''Get'' (Inr JNull) True]"]
    unfolding ac find
    by (simp add: unloaded.discreet_access_axioms registry_only_def sample_client_def reporter_new_def)
qed

definition owner_known :: "message \<Rightarrow> message list \<Rightarrow> json result" where
  "owner_known m log = (if h_destination (m_header m) = Some BUS_NAME then Inr (JString '':1.2'') else Inr JNull)"

definition fixed_client :: "unit module_client" where
  "fixed_client = (client_new (unloaded_access [sample_record] True))
     \<lparr> mc_fixture := Some (proxy_new (BusName ''a.b'') path_root (InterfaceName ''a.b'')) \<rparr>"

lemma bound_clients_stay_witness:
  "\<exists>b wo1. bind_client (recording owner_known) any_client fixed_client ''m'' (ks_world sample_client) = (Inr b, wo1)
     \<and> is_unique (px_destination (bc_proxy b))
     \<and> px_destination (bc_proxy (fst (fold (bound_step (recording owner_known) any_client)
           [BoundCall ''Get'' (Inr JNull) False, BoundObject ''/x''] (b, wo1)))) = px_destination (bc_proxy b)"
proof -
  have names: "BusName_new ''a.b'' = Inr (BusName ''a.b'')" "BusName_new '':1.2'' = Inr (BusName '':1.2'')"
    "ObjectPath_new ''/'' = Inr (ObjectPath ''/'')" "InterfaceName_new ''a.b'' = Inr (InterfaceName ''a.b'')"
    by code_simp+
  have "is_unique (BusName '':1.2'')" by code_simp
  then obtain b wo1 where b: "bind_client (recording owner_known) any_client fixed_client ''m'' (ks_world sample_client) = (Inr b, wo1)"
    by (simp add: bind_client_def steps_def error_steps_def client_record_def fixed_client_def client_new_def unloaded_access_def
        sample_record_def sample_client_def pin_peer_def using_bus_def recorded_owner proxy_new_def names owner_known_def
        owner_query_def bus_message_def method_call_def from_value_def de_option_def de_name_def conn_proxy_def path_root_def Let_def)
  obtain b2 wo2 where r: "fold (bound_step (recording owner_known) any_client)
      [BoundCall ''Get'' (Inr JNull) False, BoundObject ''/x''] (b, wo1) = (b2, wo2)" by (rule prod.exhaust)
  with bound_clients_stay [OF b r] b show ?thesis by auto
qed

end
