(* ===== verification/Reconfigure.thy ===== *)
theory Reconfigure
  imports ModuleClient
begin

text \<open>
  Serialized configuration changes of one registered module (\<open>module/reconfigure.rs\<close>, with the error
  mapping of \<open>module/resolve_access.rs\<close>).

  The transition lock makes a call one step of the coordinator, but its caller may drop it at any
  await: \<open>rz_cut\<close> says after how many awaits, and whether the operation waited for took effect all the
  same. A dropped call has no result (\<open>None\<close>). The digest and the rendering of a configuration are
  parameters; a configuration arrives as serde left it, a value or its error. The trace records what
  the module was told: the configuration it was loaded with, one it acknowledged, or one whose fate is
  unknown.
\<close>

datatype reconfigure_by = Lifecycle | ByMember string

datatype 'f config_event = LoadedWith 'f | Configured 'f | Ambiguous 'f

record 'x reconfigurable =
  ro_access :: "'x module_access"
  ro_module :: string
  ro_strategy :: reconfigure_by
  ro_attempts :: nat
  ro_delay :: nat
  ro_mark_faulted :: bool

definition reconfigurable_new :: "'x module_access \<Rightarrow> string \<Rightarrow> 'x reconfigurable" where
  "reconfigurable_new a m = \<lparr> ro_access = a, ro_module = m, ro_strategy = Lifecycle, ro_attempts = 1, ro_delay = 0,
     ro_mark_faulted = False \<rparr>"

definition with_strategy :: "reconfigure_by \<Rightarrow> 'x reconfigurable \<Rightarrow> 'x reconfigurable" where
  "with_strategy st m = m \<lparr> ro_strategy := st \<rparr>"

definition retry_while_initializing :: "nat \<Rightarrow> nat \<Rightarrow> 'x reconfigurable \<Rightarrow> 'x reconfigurable" where
  "retry_while_initializing attempts delay m = m \<lparr> ro_attempts := max attempts 1, ro_delay := delay \<rparr>"

definition mark_faulted_on_unavailable :: "bool \<Rightarrow> 'x reconfigurable \<Rightarrow> 'x reconfigurable" where
  "mark_faulted_on_unavailable b m = m \<lparr> ro_mark_faulted := b \<rparr>"

record ('w, 'x, 'f) reconf_state =
  rz_world :: "('w, 'x) world"
  rz_fingerprint :: "'f option"
  rz_uncertain :: bool
  rz_cut :: "(nat \<times> bool) option"
  rz_reason :: "reason option"
  rz_trace :: "'f config_event list"

definition reconf_start :: "('w, 'x) world \<Rightarrow> ('w, 'x, 'f) reconf_state" where
  "reconf_start wo = \<lparr> rz_world = wo, rz_fingerprint = None, rz_uncertain = False, rz_cut = None, rz_reason = None, rz_trace = [] \<rparr>"

text \<open>\<open>resolve_access::reconfigure_failure\<close>.\<close>

definition reconfigure_failure_of :: "error \<Rightarrow> reconfigure_failure" where
  "reconfigure_failure_of e =
     (case e of
        ModuleUnavailable _ state _ \<Rightarrow>
          if eq_ignore_ascii_case state ''initializing'' then RcInitializing else RcUnavailable
      | MethodFailed n _ \<Rightarrow> if n = MODULE_UNAVAILABLE then RcUnavailable else RcFailed
      | _ \<Rightarrow> RcFailed)"

fun reason_for :: "module_call_error \<Rightarrow> reason" where
  "reason_for CallUnavailable = ModuleIsUnavailable"
| "reason_for CallIncompatibleContract = IncompatibleContract"
| "reason_for CallTransportFailed = TransportFailed"
| "reason_for CallModuleFault = ModuleFault"

section \<open>Awaits\<close>

type_synonym ('w, 'x, 'f, 'a) task = "('w, 'x, 'f) reconf_state \<Rightarrow> 'a option \<times> ('w, 'x, 'f) reconf_state"

definition await :: "(('w, 'x) world \<Rightarrow> 'a \<times> ('w, 'x) world) \<Rightarrow> ('w, 'x, 'f, 'a) task" where
  "await f s =
     (case rz_cut s of
        Some (0, took_effect) \<Rightarrow> (None, if took_effect then s \<lparr> rz_world := snd (f (rz_world s)) \<rparr> else s)
      | Some (Suc k, took_effect) \<Rightarrow>
          (case f (rz_world s) of (a, wo) \<Rightarrow> (Some a, s \<lparr> rz_world := wo, rz_cut := Some (k, took_effect) \<rparr>))
      | None \<Rightarrow> (case f (rz_world s) of (a, wo) \<Rightarrow> (Some a, s \<lparr> rz_world := wo \<rparr>)))"

definition andThen :: "('w, 'x, 'f, 'a) task \<Rightarrow> ('a \<Rightarrow> ('w, 'x, 'f, 'b) task) \<Rightarrow> ('w, 'x, 'f, 'b) task" where
  "andThen m f s = (case m s of (None, s') \<Rightarrow> (None, s') | (Some a, s') \<Rightarrow> f a s')"

definition yields :: "'a \<Rightarrow> ('w, 'x, 'f, 'a) task" where
  "yields a s = (Some a, s)"

section \<open>The coordinator\<close>

definition noted :: "'f config_event \<Rightarrow> ('w, 'x, 'f) reconf_state \<Rightarrow> ('w, 'x, 'f) reconf_state" where
  "noted e s = s \<lparr> rz_trace := rz_trace s @ [e] \<rparr>"

definition on_reports :: "(reporter \<Rightarrow> reporter) \<Rightarrow> ('w, 'x, 'f) reconf_state \<Rightarrow> ('w, 'x, 'f) reconf_state" where
  "on_reports f s = s \<lparr> rz_world := (rz_world s) \<lparr> wo_reports := f (wo_reports (rz_world s)) \<rparr> \<rparr>"

definition report_failure :: "'x reconfigurable \<Rightarrow> module_call_error \<Rightarrow> reason \<Rightarrow>
    ('w, 'x, 'f, module_call_error + 'a) task" where
  "report_failure m e reason s =
     (Some (Inl e),
      if reason = UnknownModule then on_reports report_unknown_module s
      else (case ac_find (ro_access m) (ro_module m) of
          None \<Rightarrow> on_reports report_unknown_module s
        | Some rc \<Rightarrow>
            if reason \<in> {Disabled, ResolutionFailed, ModuleIsUnavailable}
            then on_reports (report (rl_id rc) (rl_version rc) reason) s
            else on_reports (report_invocation (rl_id rc) (rl_version rc) reason) s))"

definition record_loaded_with :: "(string \<Rightarrow> 'f) \<Rightarrow> (json \<Rightarrow> string) \<Rightarrow> json result \<Rightarrow>
    ('w, 'x, 'f) reconf_state \<Rightarrow> unit result \<times> ('w, 'x, 'f) reconf_state" where
  "record_loaded_with digest render config s =
     (case config of
        Inl e \<Rightarrow> (Inl e, s)
      | Inr v \<Rightarrow> (Inr (), noted (LoadedWith (digest (render v))) (s \<lparr> rz_fingerprint := Some (digest (render v)) \<rparr>)))"

definition invalidate :: "('w, 'x, 'f) reconf_state \<Rightarrow> ('w, 'x, 'f) reconf_state" where
  "invalidate s = s \<lparr> rz_fingerprint := None \<rparr>"

text \<open>The member call itself: the fence is raised before the call is polled.\<close>

definition fenced_call ::
  "'w bus_caller \<Rightarrow> client_serde \<Rightarrow> proxy \<Rightarrow> string \<Rightarrow> json \<Rightarrow> 'f \<Rightarrow> ('w, 'x, 'f, reconfigure_failure + unit) task" where
  "fenced_call call cs p member config fp s =
     (case await (using_bus (proxy_call_confidential call cs Some p member (Inr (JArray [config])))) (s \<lparr> rz_uncertain := True \<rparr>) of
        (None, s') \<Rightarrow> (None, noted (Ambiguous fp) s')
      | (Some (Inr _), s') \<Rightarrow>
          (Some (Inr ()), noted (Configured fp) (s' \<lparr> rz_fingerprint := Some fp, rz_uncertain := False \<rparr>))
      | (Some (Inl e), s') \<Rightarrow> (Some (Inl (reconfigure_failure_of e)), noted (Ambiguous fp) s'))"

definition member_reconfigure ::
  "'w bus_caller \<Rightarrow> client_serde \<Rightarrow> 'x reconfigurable \<Rightarrow> string \<Rightarrow> json \<Rightarrow> 'f \<Rightarrow>
   ('w, 'x, 'f, reconfigure_failure + unit) task" where
  "member_reconfigure call cs m member config fp s =
     (case ac_find (ro_access m) (ro_module m) of
        None \<Rightarrow> (Some (Inl RcUnavailable), s)
      | Some rc \<Rightarrow>
          if \<not> ac_enabled (ro_access m) (wo_access (rz_world s)) then (Some (Inl RcUnavailable), s)
          else andThen (await (using_access (ac_ensure_loaded (ro_access m) (rl_id rc)))) (\<lambda>loaded.
            (case loaded of
               Inl _ \<Rightarrow> (\<lambda>s. (Some (Inl RcUnavailable), s \<lparr> rz_reason := Some ResolutionFailed \<rparr>))
             | Inr _ \<Rightarrow>
                 andThen (await (using_access (ac_proxy (ro_access m) (rl_bus_name rc) (rl_object_path rc) None))) (\<lambda>handed.
                   (case handed of
                      Some (Inr p) \<Rightarrow> fenced_call call cs p member config fp
                    | _ \<Rightarrow> yields (Inl RcFailed))))) s)"

text \<open>One try of the chosen strategy.\<close>

definition reconfigure_once ::
  "'w bus_caller \<Rightarrow> client_serde \<Rightarrow> 'x reconfigurable \<Rightarrow> json \<Rightarrow> 'f \<Rightarrow> ('w, 'x, 'f, reconfigure_failure + unit) task" where
  "reconfigure_once call cs m config fp s =
     (case ro_strategy m of
        ByMember member \<Rightarrow> member_reconfigure call cs m member config fp s
      | Lifecycle \<Rightarrow>
          (case await (using_access (ac_reinitialize (ro_access m) (ro_module m) config)) s of
             (Some (Inr u), s') \<Rightarrow> (Some (Inr u), noted (Configured fp) s')
           | (r, s') \<Rightarrow> (r, noted (Ambiguous fp) s')))"

text \<open>The loop over the attempts that are left; only \<open>Initializing\<close> is tried again.\<close>

primrec reconfigure_tries ::
  "'w bus_caller \<Rightarrow> client_serde \<Rightarrow> 'x reconfigurable \<Rightarrow> json \<Rightarrow> 'f \<Rightarrow> nat \<Rightarrow> ('w, 'x, 'f, reconfigure_failure + unit) task" where
  "reconfigure_tries call cs m config fp 0 = yields (Inl RcFailed)"
| "reconfigure_tries call cs m config fp (Suc n) =
     andThen (reconfigure_once call cs m config fp) (\<lambda>outcome.
       if outcome = Inl RcInitializing \<and> 0 < n
       then (if ro_delay m = 0 then reconfigure_tries call cs m config fp n
             else andThen (await (\<lambda>wo. ((), wo))) (\<lambda>_. reconfigure_tries call cs m config fp n))
       else yields outcome)"

definition marked :: "'x reconfigurable \<Rightarrow> reconfigure_failure \<Rightarrow> ('w, 'x, 'f) reconf_state \<Rightarrow> ('w, 'x, 'f) reconf_state" where
  "marked m e s =
     (if e \<in> {RcUnavailable, RcInitializing} \<and> ro_mark_faulted m
      then s \<lparr> rz_world := snd (using_access (ac_mark_faulted (ro_access m) (ro_module m)) (rz_world s)) \<rparr>
      else s)"

definition reconfigure ::
  "'w bus_caller \<Rightarrow> client_serde \<Rightarrow> 'x reconfigurable \<Rightarrow> json \<Rightarrow> 'f \<Rightarrow> ('w, 'x, 'f, module_call_error + unit) task" where
  "reconfigure call cs m config fp =
     andThen (reconfigure_tries call cs m config fp (ro_attempts m)) (\<lambda>outcome s.
       case outcome of
         Inr u \<Rightarrow> (Some (Inr u), s)
       | Inl e \<Rightarrow>
           (Some (Inl (if e \<in> {RcUnavailable, RcInitializing} then CallUnavailable else CallModuleFault)), marked m e s))"

section \<open>Access\<close>

definition hand_out_proxy :: "'x reconfigurable \<Rightarrow> release_record \<Rightarrow> ('w, 'x, 'f, module_call_error + proxy) task" where
  "hand_out_proxy m rc =
     andThen (await (using_access (ac_proxy (ro_access m) (rl_bus_name rc) (rl_object_path rc) None))) (\<lambda>handed.
       case handed of
         Some (Inr p) \<Rightarrow> yields (Inr p)
       | Some (Inl ProxyContract) \<Rightarrow> report_failure m CallIncompatibleContract IncompatibleContract
       | _ \<Rightarrow> report_failure m CallTransportFailed TransportFailed)"

text \<open>After the module is loaded: the fingerprint is compared, a change is delivered.\<close>

definition reconcile ::
  "'w bus_caller \<Rightarrow> client_serde \<Rightarrow> (string \<Rightarrow> 'f) \<Rightarrow> (json \<Rightarrow> string) \<Rightarrow> 'x reconfigurable \<Rightarrow> release_record \<Rightarrow> json result \<Rightarrow>
   ('w, 'x, 'f, module_call_error + proxy) task" where
  "reconcile call cs digest render m rc config s =
     (case config of
        Inl _ \<Rightarrow> report_failure m CallModuleFault ModuleFault s
      | Inr v \<Rightarrow>
          (let fp = digest (render v) in
           if rz_fingerprint s = Some fp then hand_out_proxy m rc s
           else andThen (reconfigure call cs m v fp) (\<lambda>r s'.
             (case r of
                Inl e \<Rightarrow> report_failure m e (case rz_reason s' of Some reason \<Rightarrow> reason | None \<Rightarrow> reason_for e) s'
              | Inr _ \<Rightarrow> hand_out_proxy m rc (s' \<lparr> rz_fingerprint := Some fp \<rparr>)))
             (s \<lparr> rz_fingerprint := None, rz_reason := None \<rparr>)))"

definition proxy_locked ::
  "'w bus_caller \<Rightarrow> client_serde \<Rightarrow> (string \<Rightarrow> 'f) \<Rightarrow> (json \<Rightarrow> string) \<Rightarrow> 'x reconfigurable \<Rightarrow> json result \<Rightarrow>
   ('w, 'x, 'f, module_call_error + proxy) task" where
  "proxy_locked call cs digest render m config s =
     (if rz_uncertain s then report_failure m CallUnavailable ModuleIsUnavailable s
      else (case ac_find (ro_access m) (ro_module m) of
          None \<Rightarrow> report_failure m CallUnavailable UnknownModule s
        | Some rc \<Rightarrow>
            if \<not> ac_enabled (ro_access m) (wo_access (rz_world s)) then report_failure m CallUnavailable Disabled s
            else andThen (await (using_access (ac_ensure_loaded (ro_access m) (rl_id rc)))) (\<lambda>loaded.
              (case loaded of
                 Inl _ \<Rightarrow> report_failure m CallUnavailable ResolutionFailed
               | Inr _ \<Rightarrow> reconcile call cs digest render m rc config)) s))"

text \<open>\<open>proxy\<close>, and \<open>ReconfigureGuard::proxy\<close> under the lock: the caller may drop it.\<close>

definition reconf_proxy ::
  "'w bus_caller \<Rightarrow> client_serde \<Rightarrow> (string \<Rightarrow> 'f) \<Rightarrow> (json \<Rightarrow> string) \<Rightarrow> 'x reconfigurable \<Rightarrow> json result \<Rightarrow>
   (nat \<times> bool) option \<Rightarrow> ('w, 'x, 'f, module_call_error + proxy) task" where
  "reconf_proxy call cs digest render m config dropped s =
     proxy_locked call cs digest render m config (s \<lparr> rz_cut := dropped \<rparr>)"

end
