(* ===== verification/ReconfigureProps.thy ===== *)
theory ReconfigureProps
  imports Reconfigure ModuleReports
begin

text \<open>
  What the coordinator of \<open>module/reconfigure.rs\<close> keeps over every sequence of operations: a proxy is
  handed out only under the configuration the module was last told, and an unacknowledged member call
  closes the coordinator for good.
\<close>

section \<open>Sequences of operations\<close>

text \<open>Between two operations the bus, the access layer and the reporter may change in any way.\<close>

datatype ('w, 'x) reconf_op =
    AskProxy "json result" "(nat \<times> bool) option"
  | RecordLoaded "json result"
  | Invalidate
  | Elsewhere "('w, 'x) world"

fun reconf_step ::
  "'w bus_caller \<Rightarrow> client_serde \<Rightarrow> (string \<Rightarrow> 'f) \<Rightarrow> (json \<Rightarrow> string) \<Rightarrow> 'x reconfigurable \<Rightarrow> ('w, 'x) reconf_op \<Rightarrow>
   ('w, 'x, 'f) reconf_state \<Rightarrow> ('w, 'x, 'f) reconf_state" where
  "reconf_step call cs digest render m (AskProxy c k) s = snd (reconf_proxy call cs digest render m c k s)"
| "reconf_step call cs digest render m (RecordLoaded c) s = snd (record_loaded_with digest render c s)"
| "reconf_step call cs digest render m Invalidate s = invalidate s"
| "reconf_step call cs digest render m (Elsewhere wo) s = s \<lparr> rz_world := wo \<rparr>"

definition reconf_run ::
  "'w bus_caller \<Rightarrow> client_serde \<Rightarrow> (string \<Rightarrow> 'f) \<Rightarrow> (json \<Rightarrow> string) \<Rightarrow> 'x reconfigurable \<Rightarrow> ('w, 'x) reconf_op list \<Rightarrow>
   ('w, 'x, 'f) reconf_state \<Rightarrow> ('w, 'x, 'f) reconf_state" where
  "reconf_run call cs digest render m = fold (reconf_step call cs digest render m)"

text \<open>Whether the last call made to the module is one of unknown fate.\<close>

definition in_doubt :: "'f config_event list \<Rightarrow> bool" where
  "in_doubt tr = fold (\<lambda>e b. case e of LoadedWith _ \<Rightarrow> b | Configured _ \<Rightarrow> False | Ambiguous _ \<Rightarrow> True) tr False"

lemma in_doubt_simps [simp]:
  "\<not> in_doubt []"
  "in_doubt (tr @ [LoadedWith f]) = in_doubt tr"
  "\<not> in_doubt (tr @ [Configured f])"
  "in_doubt (tr @ [Ambiguous f])"
  by (simp_all add: in_doubt_def)

text \<open>The configuration a trace says the module holds.\<close>

definition told :: "'f \<Rightarrow> 'f config_event list \<Rightarrow> bool" where
  "told f tr \<longleftrightarrow> tr \<noteq> [] \<and> last tr \<in> {LoadedWith f, Configured f}"

definition reconf_sound :: "'x reconfigurable \<Rightarrow> ('w, 'x, 'f) reconf_state \<Rightarrow> bool" where
  "reconf_sound m s \<longleftrightarrow>
     (\<forall>f. rz_fingerprint s = Some f \<longrightarrow> told f (rz_trace s)) \<and>
     rz_uncertain s = (ro_strategy m \<noteq> Lifecycle \<and> in_doubt (rz_trace s))"

lemma told_simps [simp]: "\<not> told f []" "told f (tr @ [LoadedWith g]) = (f = g)" "told f (tr @ [Configured g]) = (f = g)"
  by (auto simp: told_def)

section \<open>Steps\<close>

definition same_memory :: "('w, 'x, 'f) reconf_state \<Rightarrow> ('w, 'x, 'f) reconf_state \<Rightarrow> bool" where
  "same_memory s s' \<longleftrightarrow>
     rz_fingerprint s' = rz_fingerprint s \<and> rz_uncertain s' = rz_uncertain s \<and> rz_trace s' = rz_trace s"

lemma same_memory_refl [simp]: "same_memory s s"
  and same_memory_trans: "same_memory s s' \<Longrightarrow> same_memory s' s'' \<Longrightarrow> same_memory s s''"
  by (auto simp: same_memory_def)

lemma same_memory_sound: "same_memory s s' \<Longrightarrow> reconf_sound m s' = reconf_sound m s"
  by (simp add: same_memory_def reconf_sound_def)

lemma same_memory_keeps:
  assumes "same_memory s s'"
  shows "reconf_sound m s \<Longrightarrow> reconf_sound m s'" "rz_fingerprint s' = rz_fingerprint s" "rz_uncertain s' = rz_uncertain s"
    "rz_trace s' = rz_trace s"
  using assms same_memory_sound [OF assms] by (simp_all add: same_memory_def)

lemma await_memory: "await f s = (r, s') \<Longrightarrow> same_memory s s'"
  by (auto simp: await_def same_memory_def split: option.splits prod.splits nat.splits bool.splits if_splits)

lemma report_failure_memory: "report_failure m e reason s = (r, s') \<Longrightarrow> r = Some (Inl e) \<and> same_memory s s'"
  by (auto simp: report_failure_def on_reports_def same_memory_def split: option.splits if_splits)

lemma report_failure_result: "fst (report_failure m e reason s) = Some (Inl e)"
  by (simp add: report_failure_def)

lemma marked_memory: "same_memory s (marked m e s)"
  by (simp add: marked_def same_memory_def)

text \<open>What a try, and a loop of tries, does to a coordinator whose memory is clear.\<close>

definition try_post :: "'x reconfigurable \<Rightarrow> 'f \<Rightarrow> ('e + unit) option \<Rightarrow> ('w, 'x, 'f) reconf_state \<Rightarrow> bool" where
  "try_post m fp r s' \<longleftrightarrow>
     reconf_sound m s' \<and>
     (case r of
        Some (Inr _) \<Rightarrow> (rz_fingerprint s' = None \<or> rz_fingerprint s' = Some fp) \<and> told fp (rz_trace s')
      | _ \<Rightarrow> rz_fingerprint s' = None)"

lemma fenced_call_post:
  assumes "fenced_call call cs p member config fp s = (r, s')" "ro_strategy m = ByMember member"
    "reconf_sound m s" "rz_fingerprint s = None"
  shows "try_post m fp r s'"
proof -
  obtain a s1 where a: "await (using_bus (proxy_call_confidential call cs Some p member (Inr (JArray [config]))))
      (s \<lparr> rz_uncertain := True \<rparr>) = (a, s1)" by (metis surj_pair)
  have m: "same_memory (s \<lparr> rz_uncertain := True \<rparr>) s1" by (rule await_memory [OF a])
  show ?thesis
    using assms m
    by (cases a)
      (auto simp: fenced_call_def a try_post_def reconf_sound_def noted_def same_memory_def split: sum.splits)
qed

lemma andThen_cases:
  assumes "andThen t f s = (r, s')"
  obtains (dropped) "t s = (None, s')" "r = None" | (went_on) a s1 where "t s = (Some a, s1)" "f a s1 = (r, s')"
  using assms by (auto simp: andThen_def split: prod.splits option.splits)

lemma member_reconfigure_post:
  assumes "member_reconfigure call cs m member config fp s = (r, s')" "ro_strategy m = ByMember member"
    "reconf_sound m s" "rz_fingerprint s = None"
  shows "try_post m fp r s'"
proof -
  have quiet: "try_post m fp None s1" "try_post m fp (Some (Inl e)) s1" if "same_memory s s1"
    for s1 and e :: reconfigure_failure
    using assms(3,4) same_memory_keeps [OF that] by (auto simp: try_post_def)
  have quiet': "try_post m fp (Some (Inl e)) (s1 \<lparr> rz_reason := x \<rparr>)" if "same_memory s s1"
    for s1 x and e :: reconfigure_failure
    using quiet(2) [OF that] by (simp add: try_post_def reconf_sound_def)
  have fenced: "try_post m fp r s'" if "same_memory s s1" "same_memory s1 s2"
      "fenced_call call cs p member config fp s2 = (r, s')" for s1 s2 p
    using fenced_call_post [OF that(3) assms(2)] assms(3,4) same_memory_keeps [OF same_memory_trans [OF that(1,2)]]
    by simp
  have quiet2: "try_post m fp None s2" "try_post m fp (Some (Inl e)) s2" if "same_memory s s1" "same_memory s1 s2"
    for s1 s2 and e :: reconfigure_failure
    using quiet [OF same_memory_trans [OF that]] by simp_all
  show ?thesis
    using assms(1)
    by (auto simp: member_reconfigure_def yields_def split: option.splits if_splits sum.splits
        elim!: andThen_cases dest!: await_memory intro: quiet)
      (blast intro: quiet' quiet2 fenced)+
qed

lemma reconfigure_once_post:
  assumes "reconfigure_once call cs m config fp s = (r, s')" "reconf_sound m s" "rz_fingerprint s = None"
  shows "try_post m fp r s'"
proof (cases "ro_strategy m")
  case (ByMember member)
  then show ?thesis
    using assms member_reconfigure_post by (fastforce simp: reconfigure_once_def)
next
  case Lifecycle
  obtain a s1 where a: "await (using_access (ac_reinitialize (ro_access m) (ro_module m) config)) s = (a, s1)"
    by (metis surj_pair)
  show ?thesis
    using assms Lifecycle await_memory [OF a]
    by (auto simp: reconfigure_once_def a try_post_def reconf_sound_def noted_def same_memory_def
        split: option.splits sum.splits)
qed

lemma reconfigure_tries_post:
  "reconfigure_tries call cs m config fp n s = (r, s') \<Longrightarrow> reconf_sound m s \<Longrightarrow> rz_fingerprint s = None \<Longrightarrow>
   try_post m fp r s'"
proof (induction n arbitrary: s)
  case 0
  then show ?case by (auto simp: yields_def try_post_def)
next
  case (Suc n)
  from Suc.prems(1) [unfolded reconfigure_tries.simps] show ?case
  proof (cases rule: andThen_cases)
    case dropped
    then show ?thesis using reconfigure_once_post Suc.prems(2,3) by fastforce
  next
    case (went_on a s1)
    have post: "try_post m fp (Some a) s1" by (rule reconfigure_once_post [OF went_on(1) Suc.prems(2,3)])
    show ?thesis
    proof (cases "a = Inl RcInitializing \<and> 0 < n")
      case False
      then show ?thesis using went_on(2) post by (auto simp: yields_def)
    next
      case True
      have clear: "reconf_sound m s1" "rz_fingerprint s1 = None" using post True by (auto simp: try_post_def)
      show ?thesis
      proof (cases "ro_delay m = 0")
        case True
        then show ?thesis using went_on(2) \<open>a = _ \<and> _\<close> Suc.IH clear by simp
      next
        case False
        then have "andThen (await (\<lambda>wo. ((), wo))) (\<lambda>_. reconfigure_tries call cs m config fp n) s1 = (r, s')"
          using went_on(2) \<open>a = _ \<and> _\<close> by simp
        then show ?thesis
        proof (cases rule: andThen_cases)
          case dropped
          then show ?thesis using same_memory_keeps [OF await_memory [OF dropped(1)]] clear
            by (simp add: try_post_def)
        next
          case (went_on u s2)
          then show ?thesis using same_memory_keeps [OF await_memory [OF went_on(1)]] clear Suc.IH by simp
        qed
      qed
    qed
  qed
qed

lemma reconfigure_post:
  assumes "reconfigure call cs m config fp s = (r, s')" "reconf_sound m s" "rz_fingerprint s = None"
  shows "try_post m fp r s'"
  using assms(1) [unfolded reconfigure_def]
proof (cases rule: andThen_cases)
  case dropped
  then show ?thesis using reconfigure_tries_post [OF dropped(1) assms(2,3)] by (simp add: try_post_def)
next
  case (went_on a s1)
  have "try_post m fp (Some a) s1" by (rule reconfigure_tries_post [OF went_on(1) assms(2,3)])
  then show ?thesis using went_on(2)
    by (cases a) (auto simp: try_post_def same_memory_keeps [OF marked_memory])
qed

section \<open>Access\<close>

definition access_post ::
  "(string \<Rightarrow> 'f) \<Rightarrow> (json \<Rightarrow> string) \<Rightarrow> 'x reconfigurable \<Rightarrow> json result \<Rightarrow> (module_call_error + proxy) option \<Rightarrow>
   ('w, 'x, 'f) reconf_state \<Rightarrow> bool" where
  "access_post digest render m config r s' \<longleftrightarrow>
     reconf_sound m s' \<and>
     (case r of
        Some (Inr _) \<Rightarrow> (\<exists>v. config = Inr v \<and> told (digest (render v)) (rz_trace s'))
      | _ \<Rightarrow> True)"

lemma hand_out_memory: "hand_out_proxy m rc s = (r, s') \<Longrightarrow> same_memory s s'"
  by (auto simp: hand_out_proxy_def yields_def split: option.splits sum.splits proxy_failure.splits
      elim!: andThen_cases dest!: await_memory report_failure_memory intro: same_memory_trans)

lemma reconcile_post:
  assumes "reconcile call cs digest render m rc config s = (r, s')" "reconf_sound m s"
  shows "access_post digest render m config r s'"
proof (cases config)
  case (Inl e)
  then show ?thesis using assms report_failure_memory
    by (fastforce simp: reconcile_def access_post_def same_memory_sound)
next
  case (Inr v)
  let ?fp = "digest (render v)" and ?s0 = "s \<lparr> rz_fingerprint := None, rz_reason := None \<rparr>"
  have handed: "access_post digest render m config r s'"
    if "hand_out_proxy m rc s1 = (r, s')" "reconf_sound m s1" "told ?fp (rz_trace s1)" for s1
    using same_memory_keeps [OF hand_out_memory [OF that(1)]] that(2,3) Inr
    by (auto simp: access_post_def split: option.splits sum.splits)
  show ?thesis
  proof (cases "rz_fingerprint s = Some ?fp")
    case True
    then show ?thesis using assms Inr handed by (auto simp: reconcile_def reconf_sound_def)
  next
    case False
    have start: "reconf_sound m ?s0" "rz_fingerprint ?s0 = None"
      using assms(2) by (auto simp: reconf_sound_def)
    have "andThen (reconfigure call cs m v ?fp) (\<lambda>r s'.
             (case r of
                Inl e \<Rightarrow> report_failure m e (case rz_reason s' of Some reason \<Rightarrow> reason | None \<Rightarrow> reason_for e) s'
              | Inr _ \<Rightarrow> hand_out_proxy m rc (s' \<lparr> rz_fingerprint := Some ?fp \<rparr>))) ?s0 = (r, s')"
      using assms(1) Inr False by (simp add: reconcile_def Let_def)
    then show ?thesis
    proof (cases rule: andThen_cases)
      case dropped
      then show ?thesis using reconfigure_post [OF dropped(1) start] by (simp add: access_post_def try_post_def)
    next
      case (went_on a s1)
      note post = reconfigure_post [OF went_on(1) start]
      show ?thesis
      proof (cases a)
        case (Inl e)
        then show ?thesis using went_on(2) post
          by (auto simp: access_post_def try_post_def same_memory_sound dest!: report_failure_memory)
      next
        case (Inr u)
        then have "told ?fp (rz_trace s1)" "reconf_sound m (s1 \<lparr> rz_fingerprint := Some ?fp \<rparr>)"
          using post by (auto simp: try_post_def reconf_sound_def)
        then show ?thesis using went_on(2) Inr handed by simp
      qed
    qed
  qed
qed

lemma proxy_locked_post:
  assumes "proxy_locked call cs digest render m config s = (r, s')" "reconf_sound m s"
  shows "access_post digest render m config r s'"
proof -
  have quiet: "access_post digest render m config None s1" "access_post digest render m config (Some (Inl e)) s1"
    if "same_memory s s1" for s1 e
    using assms(2) that by (auto simp: access_post_def same_memory_sound)
  have trans: "access_post digest render m config (Some (Inl e)) s2" if "same_memory s s1" "same_memory s1 s2" for s1 s2 e
    by (rule quiet(2) [OF same_memory_trans [OF that]])
  have rec: "access_post digest render m config r s'"
    if "same_memory s s1" "reconcile call cs digest render m rc config s1 = (r, s')" for s1 rc
    using reconcile_post [OF that(2)] assms(2) same_memory_keeps(1) [OF that(1)] by blast
  show ?thesis
    using assms(1)
    by (auto simp: proxy_locked_def split: option.splits if_splits sum.splits
        elim!: andThen_cases dest!: await_memory report_failure_memory intro: quiet rec trans)
qed

lemma reconf_proxy_post:
  assumes "reconf_proxy call cs digest render m config k s = (r, s')" "reconf_sound m s"
  shows "access_post digest render m config r s'"
proof (rule proxy_locked_post [OF assms(1) [unfolded reconf_proxy_def]])
  show "reconf_sound m (s \<lparr> rz_cut := k \<rparr>)"
    by (rule same_memory_keeps(1) [OF _ assms(2)]) (simp add: same_memory_def)
qed

lemma reconf_step_sound: "reconf_sound m s \<Longrightarrow> reconf_sound m (reconf_step call cs digest render m op s)"
proof (cases op)
  case (AskProxy c k)
  assume s: "reconf_sound m s"
  obtain r s' where "reconf_proxy call cs digest render m c k s = (r, s')" by (metis surj_pair)
  then show ?thesis using reconf_proxy_post [OF _ s] AskProxy by (simp add: access_post_def)
qed (auto simp: record_loaded_with_def invalidate_def noted_def reconf_sound_def
      split: sum.splits)

lemma reconf_run_sound: "reconf_sound m s \<Longrightarrow> reconf_sound m (reconf_run call cs digest render m ops s)"
  unfolding reconf_run_def by (induction ops arbitrary: s) (simp_all add: reconf_step_sound)

lemma reconf_start_sound: "reconf_sound m (reconf_start wo)"
  by (simp add: reconf_sound_def reconf_start_def)

section \<open>The fence\<close>

lemma fenced_proxy:
  assumes "rz_uncertain s"
  shows "\<exists>s'. reconf_proxy call cs digest render m config k s = (Some (Inl CallUnavailable), s') \<and> same_memory s s' \<and>
     wo_bus (rz_world s') = wo_bus (rz_world s) \<and> wo_access (rz_world s') = wo_access (rz_world s)"
  using assms
  by (auto simp: reconf_proxy_def proxy_locked_def report_failure_def on_reports_def same_memory_def split: option.splits)

lemma fenced_step:
  assumes "rz_uncertain s"
  shows "rz_uncertain (reconf_step call cs digest render m op s)"
proof (cases op)
  case (AskProxy c k)
  then show ?thesis
    using fenced_proxy [OF assms, of call cs digest render m c k] assms by (auto simp: same_memory_def)
qed (use assms in \<open>auto simp: record_loaded_with_def invalidate_def noted_def split: sum.splits\<close>)

lemma fenced_run: "rz_uncertain s \<Longrightarrow> rz_uncertain (reconf_run call cs digest render m ops s)"
  unfolding reconf_run_def by (induction ops arbitrary: s) (simp_all add: fenced_step)


section \<open>Claims\<close>


text \<open>When the last call of the configuration member failed, timed out or was dropped, every later
\<open>proxy\<close> is refused as unavailable, for any configuration and after any further operations; nothing is
sent and nothing is asked of the access layer.\<close>

theorem unacknowledged_change_closes:
  assumes "ro_strategy m = ByMember member"
    and "s = reconf_run call cs digest render m ops (reconf_start wo)"
    and "in_doubt (rz_trace s)"
  shows "\<exists>s''. reconf_proxy call cs digest render m config dropped (reconf_run call cs digest render m later s)
        = (Some (Inl CallUnavailable), s'')
      \<and> wo_bus (rz_world s'') = wo_bus (rz_world (reconf_run call cs digest render m later s))
      \<and> wo_access (rz_world s'') = wo_access (rz_world (reconf_run call cs digest render m later s))
      \<and> rz_trace s'' = rz_trace (reconf_run call cs digest render m later s)"
proof -
  have "reconf_sound m s" unfolding assms(2) by (rule reconf_run_sound [OF reconf_start_sound])
  then have "rz_uncertain s" using assms(1,3) by (simp add: reconf_sound_def)
  then have u: "rz_uncertain (reconf_run call cs digest render m later s)" by (rule fenced_run)
  obtain s'' where "reconf_proxy call cs digest render m config dropped (reconf_run call cs digest render m later s)
        = (Some (Inl CallUnavailable), s'')" "same_memory (reconf_run call cs digest render m later s) s''"
      "wo_bus (rz_world s'') = wo_bus (rz_world (reconf_run call cs digest render m later s))"
      "wo_access (rz_world s'') = wo_access (rz_world (reconf_run call cs digest render m later s))"
    using fenced_proxy [OF u] by blast
  then show ?thesis by (auto simp: same_memory_keeps)
qed

section \<open>Concrete runs\<close>

definition ready_module :: "unit reconfigurable" where
  "ready_module = with_strategy (ByMember ''Set'') (reconfigurable_new
     ((unloaded_access [sample_record] True) \<lparr> ac_ensure_loaded := (\<lambda>_ x r. (Inr (), x, r)),
        ac_proxy := (\<lambda>_ _ _ x r. (Some (Inr (proxy_new (BusName ''a.b'') path_root (InterfaceName ''a.b''))), x, r)) \<rparr>) ''m'')"

definition ready_world :: "(unit, unit) world" where
  "ready_world = \<lparr> wo_bus = (), wo_access = (), wo_reports = reporter_new True \<rparr>"

lemma member_Set: "MemberName_new ''Set'' = Inr (MemberName ''Set'')"
  by code_simp

lemmas run_simps = reconf_proxy_def reconf_start_def ready_module_def ready_world_def with_strategy_def reconfigurable_new_def
  proxy_locked_def unloaded_access_def sample_record_def andThen_def await_def using_access_def reconcile_def Let_def
  reconfigure_def reconfigure_once_def member_reconfigure_def fenced_call_def using_bus_def proxy_call_confidential_def
  proxy_raw_def and_then_def member_Set to_body_def from_value_def noted_def yields_def hand_out_proxy_def reconf_run_def


lemma unacknowledged_change_closes_witness:
  "\<exists>s''. reconf_proxy (\<lambda>_ _ w. (Inl ConnectionClosed, w)) any_client id (\<lambda>_. ''{}'') ready_module (Inr JNull) None
      (reconf_run (\<lambda>_ _ w. (Inl ConnectionClosed, w)) any_client id (\<lambda>_. ''{}'') ready_module [RecordLoaded (Inr JNull)]
        (reconf_run (\<lambda>_ _ w. (Inl ConnectionClosed, w)) any_client id (\<lambda>_. ''{}'') ready_module [AskProxy (Inr JNull) None]
          (reconf_start ready_world))) = (Some (Inl CallUnavailable), s'')"
proof -
  have "ro_strategy ready_module = ByMember ''Set''"
    by (simp add: ready_module_def with_strategy_def)
  moreover have "in_doubt (rz_trace (reconf_run (\<lambda>_ _ w. (Inl ConnectionClosed, w)) any_client id (\<lambda>_. ''{}'') ready_module
      [AskProxy (Inr JNull) None] (reconf_start ready_world)))"
    by (simp add: run_simps reconfigure_failure_of_def report_failure_def on_reports_def marked_def in_doubt_def)
  ultimately show ?thesis
    using unacknowledged_change_closes [OF _ refl, of ready_module "''Set''" "\<lambda>_ _ w. (Inl ConnectionClosed, w)" any_client id
        "\<lambda>_. ''{}''" "[AskProxy (Inr JNull) None]" ready_world "Inr JNull" None "[RecordLoaded (Inr JNull)]"]
    by blast
qed

end
