(* ===== verification/ServiceSlot.thy ===== *)
theory ServiceSlot
  imports Prelude
begin

text \<open>
  The slot of one keyed module service (\<open>module/service_slot.rs\<close>), and its refinement of a small
  automaton.

  The slot lock makes every operation one step. What a host callback answers is an argument of the
  step, \<open>None\<close> when the caller was dropped while it waited. A service is the value the host works on;
  the slot numbers the services it installs so that the trace can tell them apart.
\<close>

record ('k, 's, 'c) slot_entry =
  se_key :: 'k
  se_service :: 's
  se_close :: 'c
  se_number :: nat

datatype ('k, 'c) slot_event =
    SlotOpened 'k 'c nat
  | SlotOperated 'k nat
  | CloserCalled 'c nat
  | HostClosing nat
  | SlotRetired nat

record ('k, 's, 'c) service_slot =
  sv_entry :: "('k, 's, 'c) slot_entry option"
  sv_shutdown_registered :: bool
  sv_opened :: nat
  sv_trace :: "('k, 'c) slot_event list"

definition slot_new :: "('k, 's, 'c) service_slot" where
  "slot_new = \<lparr> sv_entry = None, sv_shutdown_registered = False, sv_opened = 0, sv_trace = [] \<rparr>"

definition slot_saw :: "('k, 'c) slot_event \<Rightarrow> ('k, 's, 'c) service_slot \<Rightarrow> ('k, 's, 'c) service_slot" where
  "slot_saw e sv = sv \<lparr> sv_trace := sv_trace sv @ [e] \<rparr>"

text \<open>The entry is taken out before its stored closer is awaited.\<close>

definition take_and_close :: "('e + unit) option \<Rightarrow> ('k, 's, 'c) slot_entry \<Rightarrow> ('k, 's, 'c) service_slot \<Rightarrow>
    ('e + unit) option \<times> ('k, 's, 'c) service_slot" where
  "take_and_close answer en sv = (answer, slot_saw (CloserCalled (se_close en) (se_number en)) (sv \<lparr> sv_entry := None \<rparr>))"

definition slot_close :: "('e + unit) option \<Rightarrow> ('k, 's, 'c) service_slot \<Rightarrow> ('e + unit) option \<times> ('k, 's, 'c) service_slot" where
  "slot_close answer sv =
     (case sv_entry sv of
        None \<Rightarrow> (Some (Inr ()), sv)
      | Some en \<Rightarrow> take_and_close answer en sv)"

text \<open>\<open>with\<close>: the old entry goes when its key differs; its closer's error is discarded.\<close>

definition make_room :: "'k \<Rightarrow> ('e + unit) option \<Rightarrow> ('k, 's, 'c) service_slot \<Rightarrow> bool \<times> ('k, 's, 'c) service_slot" where
  "make_room key answer sv =
     (case sv_entry sv of
        Some en \<Rightarrow>
          if se_key en \<noteq> key
          then (case take_and_close answer en sv of (r, sv') \<Rightarrow> (r \<noteq> None, sv'))
          else (True, sv)
      | None \<Rightarrow> (True, sv))"

definition install :: "'k \<Rightarrow> ('e + 's) option \<Rightarrow> 'c \<Rightarrow> ('k, 's, 'c) service_slot \<Rightarrow>
    ('e + ('k, 's, 'c) slot_entry) option \<times> ('k, 's, 'c) service_slot" where
  "install key opened close sv =
     (case sv_entry sv of
        Some en \<Rightarrow> (Some (Inr en), sv)
      | None \<Rightarrow>
          (case opened of
             None \<Rightarrow> (None, sv)
           | Some (Inl e) \<Rightarrow> (Some (Inl e), sv)
           | Some (Inr service) \<Rightarrow>
               (let en = \<lparr> se_key = key, se_service = service, se_close = close, se_number = sv_opened sv \<rparr> in
                (Some (Inr en),
                 slot_saw (SlotOpened key close (sv_opened sv))
                   (sv \<lparr> sv_entry := Some en, sv_opened := Suc (sv_opened sv) \<rparr>)))))"

definition slot_with ::
  "'k \<Rightarrow> ('e + unit) option \<Rightarrow> ('e + 's) option \<Rightarrow> 'c \<Rightarrow> ('s \<Rightarrow> ('e + 'r) option \<times> 's) \<Rightarrow> ('k, 's, 'c) service_slot \<Rightarrow>
   ('e + 'r) option \<times> ('k, 's, 'c) service_slot" where
  "slot_with key closed opened close operation sv =
     (case make_room key closed sv of
        (False, sv1) \<Rightarrow> (None, sv1)
      | (True, sv1) \<Rightarrow>
          (case install key opened close sv1 of
             (None, sv2) \<Rightarrow> (None, sv2)
           | (Some (Inl e), sv2) \<Rightarrow> (Some (Inl e), sv2)
           | (Some (Inr en), sv2) \<Rightarrow>
               (case operation (se_service en) of
                  (r, service) \<Rightarrow>
                    (r, slot_saw (SlotOperated key (se_number en))
                          (sv2 \<lparr> sv_entry := Some (en \<lparr> se_service := service \<rparr>) \<rparr>)))))"

text \<open>The host's own close: the entry stays unless the callback succeeded.\<close>

definition try_close_with :: "('s \<Rightarrow> ('e + unit) option \<times> 's) \<Rightarrow> ('k, 's, 'c) service_slot \<Rightarrow>
    ('e + unit) option \<times> ('k, 's, 'c) service_slot" where
  "try_close_with close sv =
     (case sv_entry sv of
        None \<Rightarrow> (Some (Inr ()), sv)
      | Some en \<Rightarrow>
          (case close (se_service en) of
             (r, service) \<Rightarrow>
               (let sv1 = slot_saw (HostClosing (se_number en)) (sv \<lparr> sv_entry := Some (en \<lparr> se_service := service \<rparr>) \<rparr>) in
                case r of
                  Some (Inr _) \<Rightarrow> (Some (Inr ()), slot_saw (SlotRetired (se_number en)) (sv1 \<lparr> sv_entry := None \<rparr>))
                | _ \<Rightarrow> (r, sv1))))"

text \<open>\<open>on_shutdown\<close>: whether the hook was handed to the registrar; and a run of the hook, which clears
the mark also when it is dropped.\<close>

definition on_shutdown :: "('k, 's, 'c) service_slot \<Rightarrow> bool \<times> ('k, 's, 'c) service_slot" where
  "on_shutdown sv = (if sv_shutdown_registered sv then (False, sv) else (True, sv \<lparr> sv_shutdown_registered := True \<rparr>))"

definition shutdown_hook :: "('e + unit) option \<Rightarrow> ('k, 's, 'c) service_slot \<Rightarrow> ('k, 's, 'c) service_slot" where
  "shutdown_hook answer sv = (snd (slot_close answer sv)) \<lparr> sv_shutdown_registered := False \<rparr>"

section \<open>The promise\<close>

text \<open>What a service's life looks like from outside: nothing is open, or one numbered service is, under
one key, with the closer it came with.\<close>

fun slot_promise :: "('k \<times> 'c \<times> nat) option \<times> nat \<Rightarrow> ('k, 'c) slot_event \<Rightarrow> (('k \<times> 'c \<times> nat) option \<times> nat) option" where
  "slot_promise (None, next) (SlotOpened k c i) = (if i = next then Some (Some (k, c, i), Suc next) else None)"
| "slot_promise (Some (k, c, i), next) (SlotOperated k' j) = (if k' = k \<and> j = i then Some (Some (k, c, i), next) else None)"
| "slot_promise (Some (k, c, i), next) (CloserCalled c' j) = (if c' = c \<and> j = i then Some (None, next) else None)"
| "slot_promise (Some (k, c, i), next) (HostClosing j) = (if j = i then Some (Some (k, c, i), next) else None)"
| "slot_promise (Some (k, c, i), next) (SlotRetired j) = (if j = i then Some (None, next) else None)"
| "slot_promise _ _ = None"

primrec promised :: "('k \<times> 'c \<times> nat) option \<times> nat \<Rightarrow> ('k, 'c) slot_event list \<Rightarrow>
    (('k \<times> 'c \<times> nat) option \<times> nat) option" where
  "promised q [] = Some q"
| "promised q (e # es) = (case slot_promise q e of None \<Rightarrow> None | Some q' \<Rightarrow> promised q' es)"

lemma promised_append: "promised q (xs @ ys) = (case promised q xs of None \<Rightarrow> None | Some q' \<Rightarrow> promised q' ys)"
  by (induction xs arbitrary: q) (auto split: option.splits)

definition slot_view :: "('k, 's, 'c) service_slot \<Rightarrow> ('k \<times> 'c \<times> nat) option \<times> nat" where
  "slot_view sv = (map_option (\<lambda>en. (se_key en, se_close en, se_number en)) (sv_entry sv), sv_opened sv)"

definition slot_kept :: "('k, 's, 'c) service_slot \<Rightarrow> bool" where
  "slot_kept sv \<longleftrightarrow> promised (None, 0) (sv_trace sv) = Some (slot_view sv)"

lemma slot_saw_kept:
  assumes "slot_kept sv" "slot_promise (slot_view sv) e = Some (slot_view sv')" "sv_trace sv' = sv_trace sv"
  shows "slot_kept (slot_saw e sv')"
  using assms by (simp add: slot_kept_def slot_saw_def promised_append slot_view_def)

lemma take_and_close_kept:
  assumes "take_and_close answer en sv = (r, sv')" "slot_kept sv" "sv_entry sv = Some en"
  shows "slot_kept sv' \<and> sv_entry sv' = None"
  using assms by (auto simp: take_and_close_def slot_kept_def slot_saw_def slot_view_def promised_append)

lemma operated_kept:
  "slot_kept sv \<Longrightarrow> sv_entry sv = Some en \<Longrightarrow>
   slot_kept (slot_saw (SlotOperated (se_key en) (se_number en)) (sv \<lparr> sv_entry := Some (en \<lparr> se_service := x \<rparr>) \<rparr>))"
  by (rule slot_saw_kept) (simp_all add: slot_view_def)

lemma slot_close_kept: "slot_kept sv \<Longrightarrow> slot_kept (snd (slot_close answer sv))"
  using take_and_close_kept [of answer _ sv, OF prod.collapse [symmetric]]
  by (cases "sv_entry sv") (simp_all add: slot_close_def)

lemma make_room_kept:
  assumes "make_room key answer sv = (b, sv1)" "slot_kept sv"
  shows "slot_kept sv1 \<and> (\<forall>en. sv_entry sv1 = Some en \<longrightarrow> se_key en = key)"
  using assms
  by (auto simp: make_room_def dest: take_and_close_kept split: option.splits if_splits prod.splits)

lemma install_kept:
  assumes "install key opened close sv = (r, sv')" "slot_kept sv" "\<forall>en. sv_entry sv = Some en \<longrightarrow> se_key en = key"
  shows "slot_kept sv' \<and> (\<forall>en. r = Some (Inr en) \<longrightarrow> sv_entry sv' = Some en \<and> se_key en = key)"
  using assms unfolding install_def Let_def
  by (auto intro!: slot_saw_kept simp: slot_view_def split: option.splits sum.splits)
    (auto simp: slot_saw_def)

lemma slot_with_kept: "slot_kept sv \<Longrightarrow> slot_kept (snd (slot_with key closed opened close operation sv))"
  by (auto simp: slot_with_def intro: operated_kept split: prod.splits bool.splits option.splits sum.splits
      dest!: make_room_kept install_kept)

lemma try_close_kept: "slot_kept sv \<Longrightarrow> slot_kept (snd (try_close_with close sv))"
  by (auto simp: try_close_with_def Let_def slot_kept_def slot_view_def slot_saw_def promised_append
      split: option.splits prod.splits sum.splits)

section \<open>Runs\<close>

datatype ('k, 's, 'c, 'e) slot_op =
    SlotWith 'k "('e + unit) option" "('e + 's) option" 'c "'s \<Rightarrow> ('e + unit) option \<times> 's"
  | SlotClose "('e + unit) option"
  | SlotTryClose "'s \<Rightarrow> ('e + unit) option \<times> 's"
  | SlotRegister
  | SlotHook "('e + unit) option"

fun slot_step :: "('k, 's, 'c, 'e) slot_op \<Rightarrow> ('k, 's, 'c) service_slot \<Rightarrow> ('k, 's, 'c) service_slot" where
  "slot_step (SlotWith k closed opened close operation) sv = snd (slot_with k closed opened close operation sv)"
| "slot_step (SlotClose answer) sv = snd (slot_close answer sv)"
| "slot_step (SlotTryClose close) sv = snd (try_close_with close sv)"
| "slot_step SlotRegister sv = snd (on_shutdown sv)"
| "slot_step (SlotHook answer) sv = shutdown_hook answer sv"

lemma slot_kept_registered: "slot_kept (sv \<lparr> sv_shutdown_registered := b \<rparr>) = slot_kept sv"
  by (simp add: slot_kept_def slot_view_def)

lemma slot_step_kept: "slot_kept sv \<Longrightarrow> slot_kept (slot_step op sv)"
  by (cases op) (simp_all add: slot_with_kept slot_close_kept try_close_kept on_shutdown_def shutdown_hook_def slot_kept_registered)

text \<open>C25. Every run of the slot, whatever the callbacks answer and wherever callers are dropped, keeps the
promise: at most one service is open at a time, operations reach the open service under the key it was
opened for, it is closed at most once, by the closer it came with or by the host's own close, and what
the slot holds is what the trace says is open.\<close>

theorem service_slot_keeps_promise:
  "promised (None, 0) (sv_trace (fold slot_step ops slot_new)) = Some (slot_view (fold slot_step ops slot_new))"
proof -
  have "slot_kept (fold slot_step ops sv)" if "slot_kept sv" for sv
    using that by (induction ops arbitrary: sv) (simp_all add: slot_step_kept)
  then show ?thesis by (simp add: slot_kept_def slot_new_def slot_view_def)
qed

end
