(* ===== verification/Resolution.thy ===== *)
theory Resolution
  imports Prelude
begin

text \<open>
  The per-module resolution table (\<open>module/resolution.rs\<close>).

  A watch channel is an address into \<open>rv_channels\<close>: the last value sent, whether its sender is alive, and
  the module it was made for. Each method holds the table's lock and is one step; a wait is a step that
  may find nothing yet. \<open>rv_trace\<close> records what callers were told.
\<close>

datatype resolution = ResReady | ResFailed string

datatype resolution_slot = InFlight nat | DoneSlot resolution

datatype resolution_claim = ClaimRun nat | ClaimWait nat | ClaimDone resolution

datatype resolution_state = StateUnresolved | StateLoading | StateReady | StateFailed string

datatype waited = WaitedReady | WaitedFailed string | WaitedLoading

fun waited_of :: "resolution \<Rightarrow> waited" where
  "waited_of ResReady = WaitedReady"
| "waited_of (ResFailed reason) = WaitedFailed reason"

record watch_channel =
  wn_value :: "resolution option"
  wn_sender :: bool
  wn_module :: string

datatype resolution_event =
    RunHandedOut string
  | ClaimTold string resolution
  | WaitTold string resolution
  | FaultMarked string string

record resolution_table =
  rv_slots :: "(string, resolution_slot) hashmap"
  rv_channels :: "watch_channel list"
  rv_trace :: "resolution_event list"

definition resolution_start :: resolution_table where
  "resolution_start = \<lparr> rv_slots = [], rv_channels = [], rv_trace = [] \<rparr>"

definition settle_slot :: "string \<Rightarrow> resolution_slot \<Rightarrow> resolution_table \<Rightarrow> resolution_table" where
  "settle_slot ident sl t = t \<lparr> rv_slots := hput ident sl (rv_slots t) \<rparr>"

definition resolution_saw :: "resolution_event \<Rightarrow> resolution_table \<Rightarrow> resolution_table" where
  "resolution_saw e t = t \<lparr> rv_trace := rv_trace t @ [e] \<rparr>"

definition res_claim :: "string \<Rightarrow> resolution_table \<Rightarrow> resolution_claim \<times> resolution_table" where
  "res_claim ident t =
     (case hget (rv_slots t) ident of
        Some (DoneSlot r) \<Rightarrow> (ClaimDone r, resolution_saw (ClaimTold ident r) t)
      | Some (InFlight c) \<Rightarrow> (ClaimWait c, t)
      | None \<Rightarrow>
          (let c = length (rv_channels t) in
           (ClaimRun c,
            resolution_saw (RunHandedOut ident)
              (settle_slot ident (InFlight c)
                (t \<lparr> rv_channels := rv_channels t @ [\<lparr> wn_value = None, wn_sender = True, wn_module = ident \<rparr>] \<rparr>)))))"

text \<open>\<open>complete\<close> consumes the sender.\<close>

definition res_complete :: "string \<Rightarrow> resolution \<Rightarrow> nat \<Rightarrow> resolution_table \<Rightarrow> resolution_table" where
  "res_complete ident r c t =
     (let t1 = settle_slot ident (DoneSlot r) t in
      t1 \<lparr> rv_channels := (rv_channels t1)[c := (rv_channels t1 ! c) \<lparr> wn_value := Some r, wn_sender := False \<rparr>] \<rparr>)"

text \<open>A resolver that ended without an outcome drops its sender.\<close>

definition sender_dropped :: "nat \<Rightarrow> resolution_table \<Rightarrow> resolution_table" where
  "sender_dropped c t = t \<lparr> rv_channels := (rv_channels t)[c := (rv_channels t ! c) \<lparr> wn_sender := False \<rparr>] \<rparr>"

definition mark_faulted :: "string \<Rightarrow> string \<Rightarrow> resolution_table \<Rightarrow> resolution_table" where
  "mark_faulted ident reason t =
     resolution_saw (FaultMarked ident reason)
       (if hget (rv_slots t) ident = Some (DoneSlot ResReady) then settle_slot ident (DoneSlot (ResFailed reason)) t else t)"

definition res_peek :: "string \<Rightarrow> resolution_table \<Rightarrow> resolution_state" where
  "res_peek ident t =
     (case hget (rv_slots t) ident of
        None \<Rightarrow> StateUnresolved
      | Some (InFlight _) \<Rightarrow> StateLoading
      | Some (DoneSlot ResReady) \<Rightarrow> StateReady
      | Some (DoneSlot (ResFailed reason)) \<Rightarrow> StateFailed reason)"

definition abandoned :: resolution where
  "abandoned = ResFailed ''module resolution was abandoned; restart the app to try again''"

text \<open>One turn of \<open>wait\<close>: \<open>None\<close> leaves it waiting.\<close>

definition res_wait :: "string \<Rightarrow> nat \<Rightarrow> resolution_table \<Rightarrow> resolution option \<times> resolution_table" where
  "res_wait ident c t =
     (case wn_value (rv_channels t ! c) of
        Some r \<Rightarrow> (Some r, resolution_saw (WaitTold ident r) t)
      | None \<Rightarrow>
          if wn_sender (rv_channels t ! c) then (None, t)
          else (Some abandoned,
                resolution_saw (WaitTold ident abandoned)
                  (if hget (rv_slots t) ident = Some (InFlight c) then settle_slot ident (DoneSlot abandoned) t else t)))"

text \<open>The bound on a wait: its timer, when it fires first.\<close>

definition wait_within :: "bool \<Rightarrow> string \<Rightarrow> nat \<Rightarrow> resolution_table \<Rightarrow> waited option \<times> resolution_table" where
  "wait_within elapsed ident c t =
     (case res_wait ident c t of
        (Some r, t') \<Rightarrow> (Some (waited_of r), t')
      | (None, t') \<Rightarrow> (if elapsed then Some WaitedLoading else None, t'))"

text \<open>\<open>mark_in_flight\<close> and \<open>forget\<close>, for the tests of hosts.\<close>

definition mark_in_flight :: "string \<Rightarrow> resolution_table \<Rightarrow> nat \<times> resolution_table" where
  "mark_in_flight ident t =
     (length (rv_channels t),
      settle_slot ident (InFlight (length (rv_channels t)))
        (t \<lparr> rv_channels := rv_channels t @ [\<lparr> wn_value = None, wn_sender = True, wn_module = ident \<rparr>] \<rparr>))"

definition forget :: "string \<Rightarrow> resolution_table \<Rightarrow> resolution_table" where
  "forget ident t = t \<lparr> rv_slots := hdel ident (rv_slots t) \<rparr>"

section \<open>Runs\<close>

text \<open>The sender of a channel belongs to the caller that was told to run, who uses it once and under the
module it claimed; a receiver is waited on under that module too.\<close>

datatype resolution_op =
    OpClaim string
  | OpComplete nat resolution
  | OpAbandon nat
  | OpFault string string
  | OpWait nat bool

definition sender_live :: "nat \<Rightarrow> resolution_table \<Rightarrow> bool" where
  "sender_live c t \<longleftrightarrow> c < length (rv_channels t) \<and> wn_sender (rv_channels t ! c)"

fun resolution_step :: "resolution_op \<Rightarrow> resolution_table \<Rightarrow> resolution_table" where
  "resolution_step (OpClaim ident) t = snd (res_claim ident t)"
| "resolution_step (OpComplete c r) t =
     (if sender_live c t then res_complete (wn_module (rv_channels t ! c)) r c t else t)"
| "resolution_step (OpAbandon c) t = (if sender_live c t then sender_dropped c t else t)"
| "resolution_step (OpFault ident reason) t = mark_faulted ident reason t"
| "resolution_step (OpWait c elapsed) t =
     (if c < length (rv_channels t) then snd (wait_within elapsed (wn_module (rv_channels t ! c)) c t) else t)"

definition resolution_run :: "resolution_op list \<Rightarrow> resolution_table" where
  "resolution_run ops = fold resolution_step ops resolution_start"

text \<open>What a channel tells every wait once its sender is gone.\<close>

definition verdict :: "watch_channel \<Rightarrow> resolution" where
  "verdict ch = (case wn_value ch of Some r \<Rightarrow> r | None \<Rightarrow> abandoned)"

definition agrees :: "resolution_event list \<Rightarrow> string \<Rightarrow> resolution \<Rightarrow> resolution \<Rightarrow> bool" where
  "agrees tr ident w r \<longleftrightarrow> r = w \<or> w = ResReady \<and> (\<exists>reason. FaultMarked ident reason \<in> set tr \<and> r = ResFailed reason)"

fun about :: "string \<Rightarrow> resolution_event \<Rightarrow> bool" where
  "about ident (RunHandedOut i) = (i = ident)"
| "about ident (ClaimTold i _) = (i = ident)"
| "about ident (WaitTold i _) = (i = ident)"
| "about ident (FaultMarked i _) = (i = ident)"

definition own_channels :: "resolution_table \<Rightarrow> string \<Rightarrow> nat list" where
  "own_channels t ident = filter (\<lambda>c. wn_module (rv_channels t ! c) = ident) [0..<length (rv_channels t)]"

definition told_about :: "resolution_table \<Rightarrow> string \<Rightarrow> resolution_event list" where
  "told_about t ident = filter (about ident) (rv_trace t)"

definition slot_fits :: "watch_channel list \<Rightarrow> string \<Rightarrow> nat list \<Rightarrow> resolution_slot option \<Rightarrow> resolution_event list \<Rightarrow> bool" where
  "slot_fits chs ident own sl tr \<longleftrightarrow>
     length (filter (\<lambda>e. e = RunHandedOut ident) tr) = length own \<and>
     (case sl of
        None \<Rightarrow> own = [] \<and> (\<forall>r. WaitTold ident r \<notin> set tr \<and> ClaimTold ident r \<notin> set tr)
      | Some (InFlight c) \<Rightarrow>
          own = [c] \<and> wn_value (chs ! c) = None \<and> (\<forall>r. WaitTold ident r \<notin> set tr \<and> ClaimTold ident r \<notin> set tr)
      | Some (DoneSlot r) \<Rightarrow>
          (case own of
             [c] \<Rightarrow> \<not> wn_sender (chs ! c) \<and> agrees tr ident (verdict (chs ! c)) r \<and>
               (\<forall>r. WaitTold ident r \<in> set tr \<longrightarrow> r = verdict (chs ! c)) \<and>
               (\<forall>r. ClaimTold ident r \<in> set tr \<longrightarrow> agrees tr ident (verdict (chs ! c)) r)
           | _ \<Rightarrow> False))"

definition slot_sound :: "resolution_table \<Rightarrow> string \<Rightarrow> bool" where
  "slot_sound t ident \<longleftrightarrow>
     slot_fits (rv_channels t) ident (own_channels t ident) (hget (rv_slots t) ident) (told_about t ident)"

section \<open>Preservation\<close>

lemma own_bound: "c \<in> set (own_channels t ident) \<longleftrightarrow> c < length (rv_channels t) \<and> wn_module (rv_channels t ! c) = ident"
  by (auto simp: own_channels_def)

lemma own_append:
  "own_channels (t \<lparr> rv_channels := rv_channels t @ [ch] \<rparr>) ident =
   own_channels t ident @ (if wn_module ch = ident then [length (rv_channels t)] else [])"
  by (auto simp: own_channels_def nth_append intro!: filter_cong)

lemma own_update:
  "wn_module ch = wn_module (rv_channels t ! c) \<Longrightarrow>
   own_channels (t \<lparr> rv_channels := (rv_channels t)[c := ch] \<rparr>) ident = own_channels t ident"
  by (cases "c < length (rv_channels t)") (auto simp: own_channels_def nth_list_update intro!: filter_cong)

lemma own_frame [simp]:
  "own_channels (settle_slot i sl t) = own_channels t" "own_channels (resolution_saw e t) = own_channels t"
  "told_about (settle_slot i sl t) = told_about t"
  "told_about (resolution_saw e t) ident = told_about t ident @ (if about ident e then [e] else [])"
  "told_about (t \<lparr> rv_channels := x \<rparr>) = told_about t"
  "rv_channels (settle_slot i sl t) = rv_channels t" "rv_channels (resolution_saw e t) = rv_channels t"
  "rv_slots (resolution_saw e t) = rv_slots t" "rv_slots (settle_slot i sl t) = hput i sl (rv_slots t)"
  by (auto simp: own_channels_def told_about_def settle_slot_def resolution_saw_def fun_eq_iff)

lemma slot_fits_channels:
  "(\<And>c. c \<in> set own \<Longrightarrow> chs' ! c = chs ! c) \<Longrightarrow> slot_fits chs' ident own sl tr = slot_fits chs ident own sl tr"
  by (auto simp: slot_fits_def split: option.splits resolution_slot.splits list.splits)

lemma in_flight_channel:
  assumes "slot_sound t (wn_module (rv_channels t ! c))" "sender_live c t"
  shows "own_channels t (wn_module (rv_channels t ! c)) = [c]"
    "hget (rv_slots t) (wn_module (rv_channels t ! c)) = Some (InFlight c)"
proof -
  have "c \<in> set (own_channels t (wn_module (rv_channels t ! c)))" using assms(2) by (simp add: own_bound sender_live_def)
  then show "own_channels t (wn_module (rv_channels t ! c)) = [c]"
    "hget (rv_slots t) (wn_module (rv_channels t ! c)) = Some (InFlight c)"
    using assms by (auto simp: slot_sound_def slot_fits_def sender_live_def split: option.splits resolution_slot.splits list.splits)
qed

lemma agrees_snoc [intro]: "agrees tr ident w r \<Longrightarrow> agrees (tr @ es) ident w r"
  by (auto simp: agrees_def)

lemma agrees_refl [simp]: "agrees tr ident r r"
  by (simp add: agrees_def)

lemma claim_sound:
  assumes "\<And>i. slot_sound t i"
  shows "slot_sound (snd (res_claim ident t)) i"
proof (cases "hget (rv_slots t) ident")
  case None
  have fresh: "slot_fits (rv_channels t @ x) i (own_channels t i) sl tr = slot_fits (rv_channels t) i (own_channels t i) sl tr"
    for x sl tr
    by (rule slot_fits_channels) (simp add: own_bound nth_append)
  show ?thesis
  proof (cases "i = ident")
    case True
    then show ?thesis using None assms [of i]
      by (auto simp: res_claim_def Let_def slot_sound_def slot_fits_def own_append hm.get_put)
  next
    case False
    then show ?thesis using None assms [of i]
      by (simp add: res_claim_def Let_def slot_sound_def own_append hm.get_put fresh)
  qed
next
  case (Some sl)
  show ?thesis
  proof (cases sl)
    case (InFlight c)
    then show ?thesis using Some assms [of i] by (simp add: res_claim_def)
  next
    case (DoneSlot r)
    have m: "slot_fits (rv_channels t) ident (own_channels t ident) (Some sl) (told_about t ident)"
      using assms [of ident] Some by (simp add: slot_sound_def)
    then obtain c where "own_channels t ident = [c]"
      by (auto simp: slot_fits_def DoneSlot split: list.splits)
    then show ?thesis using Some DoneSlot m assms [of i]
      by (cases "i = ident") (auto simp: res_claim_def slot_sound_def slot_fits_def)
  qed
qed

lemma complete_sound:
  assumes "\<And>i. slot_sound t i" "sender_live c t"
  shows "slot_sound (res_complete (wn_module (rv_channels t ! c)) r c t) i"
proof -
  let ?m = "wn_module (rv_channels t ! c)" and ?ch = "(rv_channels t ! c) \<lparr> wn_value := Some r, wn_sender := False \<rparr>"
  note fl = in_flight_channel [OF assms]
  have own: "own_channels (res_complete ?m r c t) i = own_channels t i"
    using own_update [of ?ch "settle_slot ?m (DoneSlot r) t" c i] by (simp add: res_complete_def Let_def)
  show ?thesis
  proof (cases "i = ?m")
    case True
    have "slot_fits (rv_channels t) i [c] (Some (InFlight c)) (told_about t i)"
      using assms(1) [of i] fl True by (simp add: slot_sound_def)
    then show ?thesis using own fl True assms(2)
      by (auto simp: slot_sound_def res_complete_def Let_def slot_fits_def verdict_def sender_live_def hm.get_put)
  next
    case False
    then have "c \<notin> set (own_channels t i)" by (simp add: own_bound)
    then have "slot_fits ((rv_channels t)[c := ?ch]) i (own_channels t i) (hget (rv_slots t) i) (told_about t i)"
      using assms(1) [of i] slot_fits_channels [of "own_channels t i" "(rv_channels t)[c := ?ch]" "rv_channels t"]
      by (metis nth_list_update_neq slot_sound_def)
    then show ?thesis using own False by (simp add: slot_sound_def res_complete_def Let_def hm.get_put)
  qed
qed

lemma dropped_sound:
  assumes "\<And>i. slot_sound t i" "sender_live c t"
  shows "slot_sound (sender_dropped c t) i"
proof -
  let ?ch = "(rv_channels t ! c) \<lparr> wn_sender := False \<rparr>"
  have own: "own_channels (sender_dropped c t) i = own_channels t i"
    using own_update [of ?ch t c i] by (simp add: sender_dropped_def)
  show ?thesis
  proof (cases "i = wn_module (rv_channels t ! c)")
    case True
    have "slot_fits (rv_channels t) i [c] (Some (InFlight c)) (told_about t i)"
      using assms(1) [of i] in_flight_channel [OF assms] True by (simp add: slot_sound_def)
    then show ?thesis using own in_flight_channel [OF assms] True assms(2)
      by (auto simp: slot_sound_def sender_dropped_def slot_fits_def sender_live_def)
  next
    case False
    then have "c \<notin> set (own_channels t i)" by (simp add: own_bound)
    then have "slot_fits ((rv_channels t)[c := ?ch]) i (own_channels t i) (hget (rv_slots t) i) (told_about t i)"
      using assms(1) [of i] slot_fits_channels [of "own_channels t i" "(rv_channels t)[c := ?ch]" "rv_channels t"]
      by (metis nth_list_update_neq slot_sound_def)
    then show ?thesis using own by (simp add: slot_sound_def sender_dropped_def)
  qed
qed

lemma faulted_sound:
  assumes "slot_sound t i"
  shows "slot_sound (mark_faulted ident reason t) i"
proof -
  have w: "agrees tr i w ResReady \<Longrightarrow> agrees (tr @ [FaultMarked i reason]) i w (ResFailed reason)" for tr w
    by (auto simp: agrees_def)
  have f: "slot_fits (rv_channels t) i (own_channels t i) (hget (rv_slots t) i) (told_about t i)"
    using assms by (simp add: slot_sound_def)
  have kept: "slot_fits chs i own sl (tr @ [FaultMarked i reason])" if "slot_fits chs i own sl tr" for chs own sl tr
    using that by (auto simp: slot_fits_def split: option.splits resolution_slot.splits list.splits)
  have failed: "slot_fits chs i own (Some (DoneSlot (ResFailed reason))) (tr @ [FaultMarked i reason])"
    if "slot_fits chs i own (Some (DoneSlot ResReady)) tr" for chs own tr
    using that w by (auto simp: slot_fits_def split: list.splits)
  show ?thesis
    using f kept failed by (auto simp: mark_faulted_def slot_sound_def hm.get_put)
qed

lemma wait_sound:
  assumes "\<And>i. slot_sound t i" "c < length (rv_channels t)"
  shows "slot_sound (snd (res_wait (wn_module (rv_channels t ! c)) c t)) i"
proof -
  let ?m = "wn_module (rv_channels t ! c)"
  have mem: "c \<in> set (own_channels t ?m)" using assms(2) by (simp add: own_bound)
  have m: "slot_fits (rv_channels t) ?m (own_channels t ?m) (hget (rv_slots t) ?m) (told_about t ?m)"
    using assms(1) [of ?m] by (simp add: slot_sound_def)
  show ?thesis
  proof (cases "i = ?m")
    case False
    then show ?thesis using assms(1) [of i]
      by (auto simp: res_wait_def slot_sound_def hm.get_put split: option.splits)
  next
    case True
    show ?thesis
    proof (cases "hget (rv_slots t) ?m")
      case None
      then show ?thesis using m mem by (simp add: slot_fits_def)
    next
      case (Some sl)
      then have "own_channels t ?m = [c]" using m mem
        by (auto simp: slot_fits_def split: resolution_slot.splits list.splits)
      then show ?thesis using m Some True
        by (cases sl) (auto simp: res_wait_def slot_sound_def slot_fits_def verdict_def hm.get_put split: option.splits)
    qed
  qed
qed

lemma resolution_step_sound:
  assumes "\<And>i. slot_sound t i"
  shows "slot_sound (resolution_step op t) i"
proof -
  have "snd (wait_within b i c t) = snd (res_wait i c t)" for b i c
    by (simp add: wait_within_def split: prod.splits option.splits)
  then show ?thesis
    using assms by (cases op) (simp_all add: claim_sound complete_sound dropped_sound faulted_sound wait_sound)
qed

lemma resolution_run_sound: "slot_sound (resolution_run ops) i"
proof -
  have "\<forall>i. slot_sound (fold resolution_step ops t) i" if "\<forall>i. slot_sound t i" for t
    using that by (induction ops arbitrary: t) (simp_all, metis resolution_step_sound)
  then show ?thesis
    by (simp add: resolution_run_def resolution_start_def slot_sound_def slot_fits_def own_channels_def told_about_def)
qed

text \<open>C14. In every run a module's resolution is handed out at most once; every wait on it is told the same
outcome, and so is every later claim, except that a module which resolved may be reported with the reason
of a fault marked since; and once anyone was told an outcome, nobody is sent to wait or to run again.\<close>

theorem one_resolution_per_module:
  fixes ops
  defines "t \<equiv> resolution_run ops"
  shows "length (filter (\<lambda>e. e = RunHandedOut ident) (rv_trace t)) \<le> 1
    \<and> (\<exists>w. (\<forall>r. WaitTold ident r \<in> set (rv_trace t) \<longrightarrow> r = w)
        \<and> (\<forall>r. ClaimTold ident r \<in> set (rv_trace t) \<longrightarrow> agrees (rv_trace t) ident w r))
    \<and> ((\<exists>r. WaitTold ident r \<in> set (rv_trace t) \<or> ClaimTold ident r \<in> set (rv_trace t)) \<longrightarrow>
        (\<exists>r. fst (res_claim ident t) = ClaimDone r))"
proof -
  have f: "slot_fits (rv_channels t) ident (own_channels t ident) (hget (rv_slots t) ident) (told_about t ident)"
    using resolution_run_sound [of ops ident] by (simp add: slot_sound_def t_def)
  have told: "e \<in> set (told_about t ident) \<longleftrightarrow> e \<in> set (rv_trace t) \<and> about ident e" for e
    by (auto simp: told_about_def)
  have runs: "filter (\<lambda>e. e = RunHandedOut ident) (told_about t ident) = filter (\<lambda>e. e = RunHandedOut ident) (rv_trace t)"
    unfolding told_about_def by (auto intro!: filter_cong)
  show ?thesis
    using f unfolding slot_fits_def runs
    by (auto simp: told agrees_def res_claim_def split: option.splits resolution_slot.splits list.splits)
qed


lemma one_resolution_per_module_witness:
  "\<exists>r. fst (res_claim ''m'' (resolution_run [OpClaim ''m'', OpAbandon 0, OpWait 0 False])) = ClaimDone r"
proof -
  have "WaitTold ''m'' abandoned \<in> set (rv_trace (resolution_run [OpClaim ''m'', OpAbandon 0, OpWait 0 False]))"
    by code_simp
  then show ?thesis
    using one_resolution_per_module [of "''m''" "[OpClaim ''m'', OpAbandon 0, OpWait 0 False]"] by blast
qed

end
