(* ===== verification/HostCallbacks.thy ===== *)
theory HostCallbacks
  imports RouterSpec Objects
begin

text \<open>
  Host callback bindings (\<open>module/host_callbacks.rs\<close>): declarations, the binding and its children, the
  guarded interface that runs callbacks, the loading transaction and revocation.

  The routing table holds the capability states (\<open>rt_cells\<close>); what the table does not look at is in
  \<open>kh_lives\<close> under the same address. Each lock span is one step; where the code awaits, the operation is
  two steps and the awaited answer is an argument. Attaching a peer is the router's; the handshake, the
  module's transport and the connection's registration are answers. \<open>lf_alive\<close> is whether the shared
  state still exists, \<open>lf_bound\<close> whether its binding does.
\<close>

record callback_life =
  lf_served :: "(object_path \<times> interface_name) list"
  lf_registering :: "(object_path \<times> interface_name) list"
  lf_parent :: "nat option"
  lf_children :: "nat list"
  lf_transport :: "nat option"
  lf_owner :: nat
  lf_bound :: bool
  lf_alive :: bool

record callback_declaration =
  cd_endpoints :: "callback_endpoint list"
  cd_signals :: "callback_endpoint list"
  cd_streams :: "callback_endpoint list"

datatype callback_event =
    CallbackStarted nat bus_name member_name
  | BindingReserved nat "(object_path \<times> interface_name) list"
  | ModuleBound nat bus_name

record callback_host =
  kh_router :: router
  kh_lives :: "nat \<Rightarrow> callback_life"
  kh_next :: nat
  kh_calls :: "(nat \<times> nat) list"
  kh_next_call :: nat
  kh_trace :: "callback_event list"

abbreviation cell :: "callback_host \<Rightarrow> nat \<Rightarrow> callback_state" where
  "cell kh a \<equiv> rt_cells (kh_router kh) a"

definition set_callback_cell :: "nat \<Rightarrow> callback_state \<Rightarrow> callback_host \<Rightarrow> callback_host" where
  "set_callback_cell a c kh = kh \<lparr> kh_router := (kh_router kh) \<lparr> rt_cells := (rt_cells (kh_router kh))(a := c) \<rparr> \<rparr>"

definition set_life :: "nat \<Rightarrow> callback_life \<Rightarrow> callback_host \<Rightarrow> callback_host" where
  "set_life a l kh = kh \<lparr> kh_lives := (kh_lives kh)(a := l) \<rparr>"

definition callback_saw :: "callback_event \<Rightarrow> callback_host \<Rightarrow> callback_host" where
  "callback_saw e kh = kh \<lparr> kh_trace := kh_trace kh @ [e] \<rparr>"

section \<open>Declarations\<close>

definition interface_of :: "callback_endpoint \<Rightarrow> object_path \<times> interface_name" where
  "interface_of e = (ep_path e, ep_interface e)"

text \<open>\<open>required_endpoint_count\<close>, and the same loop in \<open>prepare_host_callbacks_with_..\<close>.\<close>

definition declared_interfaces :: "callback_endpoint list \<Rightarrow> callback_endpoint list \<Rightarrow> (object_path \<times> interface_name) list" where
  "declared_interfaces es ss =
     fold (\<lambda>i known. if i \<in> set known then known else known @ [i]) (map interface_of (es @ ss)) []"

definition required_endpoint_count :: "callback_state \<Rightarrow> nat" where
  "required_endpoint_count c = length (declared_interfaces (cb_endpoints c) (cb_stream_endpoints c))"

definition members_valid :: "callback_endpoint \<Rightarrow> bool" where
  "members_valid e \<longleftrightarrow> ep_members e \<noteq> [] \<and> length (ep_members e) \<le> 64 \<and> distinct (ep_members e)"

definition endpoints_valid :: "callback_endpoint list \<Rightarrow> bool" where
  "endpoints_valid es \<longleftrightarrow> list_all members_valid es \<and> distinct (map interface_of es)"

definition stream_overlaps :: "callback_endpoint list \<Rightarrow> callback_endpoint \<Rightarrow> bool" where
  "stream_overlaps es s \<longleftrightarrow>
     list_ex (\<lambda>e. interface_of e = interface_of s \<and> list_ex (\<lambda>m. m \<in> set (ep_members e)) (ep_members s)) es"

definition declaration_error :: "callback_declaration \<Rightarrow> error option" where
  "declaration_error d =
     (let es = cd_endpoints d; ss = cd_streams d; gs = cd_signals d; n = length (declared_interfaces es ss) in
      if n = 0 \<or> n > 32 \<or> \<not> endpoints_valid ss \<or> list_ex (stream_overlaps es) ss \<or> es = [] \<and> gs \<noteq> []
         \<or> \<not> endpoints_valid es
      then Some (failed ''callback endpoint declaration is invalid'')
      else if \<not> endpoints_valid gs \<or> \<not> list_all (\<lambda>g. list_ex (\<lambda>e. interface_of e = interface_of g) es) gs
      then Some (failed ''callback signal declaration is invalid'')
      else None)"

section \<open>Preparing\<close>

text \<open>\<open>prepare_host_callbacks_with_signals_and_stream_endpoints\<close>, up to the handshake and after it. A peer
that was attached is detached again unless the binding is made (\<open>PeerRollback\<close>).\<close>

definition prepare_start :: "callback_declaration \<Rightarrow> nat \<Rightarrow> callback_host \<Rightarrow> bus_name result \<times> callback_host" where
  "prepare_start d outbox kh =
     (case declaration_error d of
        Some e \<Rightarrow> (Inl e, kh)
      | None \<Rightarrow>
          (case attach outbox (kh_router kh) of
             ((_, unique), r) \<Rightarrow> (Inr unique, kh \<lparr> kh_router := r \<rparr>)))"

definition peer_rollback :: "bus_name \<Rightarrow> callback_host \<Rightarrow> callback_host" where
  "peer_rollback unique kh = kh \<lparr> kh_router := snd (detach_unique unique (kh_router kh)) \<rparr>"

definition prepared_cell :: "callback_declaration \<Rightarrow> bus_name \<Rightarrow> callback_state" where
  "prepared_cell d destination =
     \<lparr> cb_destination = destination, cb_endpoints = cd_endpoints d, cb_stream_endpoints = cd_streams d,
        cb_signals = cd_signals d, cb_transport = None, cb_active = False, cb_used = False, cb_revoked = False,
        cb_module = None, cb_running = 0 \<rparr>"

definition new_life :: "nat option \<Rightarrow> nat option \<Rightarrow> nat \<Rightarrow> callback_life" where
  "new_life parent transport ow =
     \<lparr> lf_served = [], lf_registering = [], lf_parent = parent, lf_children = [], lf_transport = transport,
        lf_owner = ow, lf_bound = True, lf_alive = True \<rparr>"

type_synonym handshake = "bus_name option result option"

definition prepare_finish :: "callback_declaration \<Rightarrow> nat \<Rightarrow> bus_name \<Rightarrow> handshake \<Rightarrow> callback_host \<Rightarrow>
    nat result option \<times> callback_host" where
  "prepare_finish d host unique answer kh =
     (case answer of
        None \<Rightarrow> (None, peer_rollback unique kh)
      | Some (Inl e) \<Rightarrow> (Some (Inl e), peer_rollback unique kh)
      | Some (Inr None) \<Rightarrow> (Some (Inl (failed ''callback connection has no unique name'')), peer_rollback unique kh)
      | Some (Inr (Some destination)) \<Rightarrow>
          (Some (Inr (kh_next kh)),
           (set_life (kh_next kh) (new_life None None host)
             (set_callback_cell (kh_next kh) (prepared_cell d destination) kh)) \<lparr> kh_next := Suc (kh_next kh) \<rparr>))"

section \<open>Guards\<close>

definition authorizes :: "call_context \<Rightarrow> callback_state \<Rightarrow> bool" where
  "authorizes ctx c \<longleftrightarrow>
     cb_active c \<and> module_live c \<and> cc_confidential ctx \<and> cb_module c \<noteq> None \<and> cc_sender ctx = cb_module c"

definition authorized_stream_module :: "call_context \<Rightarrow> callback_state \<Rightarrow> bus_name result" where
  "authorized_stream_module ctx c =
     (if cc_confidential ctx \<or> cb_stream_endpoints c = [] \<or> \<not> module_live c \<or> \<not> cb_active c \<or> cb_module c = None
         \<or> cc_sender ctx \<noteq> cb_module c
      then Inl (failed ''callback stream authority is unavailable'')
      else (case cb_module c of
          Some m \<Rightarrow> Inr m
        | None \<Rightarrow> Inl (failed ''callback stream recipient is unavailable'')))"

definition authorizes_stream :: "call_context \<Rightarrow> callback_state \<Rightarrow> bool" where
  "authorizes_stream ctx c \<longleftrightarrow> (case authorized_stream_module ctx c of Inr _ \<Rightarrow> True | Inl _ \<Rightarrow> False)"

text \<open>\<open>HostCallbackGuard::drained\<close>: one look.\<close>

definition drained :: "nat \<Rightarrow> callback_host \<Rightarrow> bool" where
  "drained a kh \<longleftrightarrow> cb_running (cell kh a) = 0"

text \<open>\<open>emit_signal\<close>, up to the send.\<close>

definition emit_signal_message :: "object_path \<Rightarrow> interface_name \<Rightarrow> member_name \<Rightarrow> json result \<Rightarrow> callback_state \<Rightarrow> message result" where
  "emit_signal_message p i m body c =
     (case signal_destination p i m c of
        Inl e \<Rightarrow> Inl e
      | Inr destination \<Rightarrow>
          (case body of
             Inl e \<Rightarrow> Inl e
           | Inr b \<Rightarrow> Inr (directed_signal destination p i m b)))"

section \<open>Revocation\<close>

text \<open>\<open>live_children\<close>; dropping the entries of freed children from the list is not observable.\<close>

definition live_children :: "(nat \<Rightarrow> callback_life) \<Rightarrow> nat \<Rightarrow> nat list" where
  "live_children L a = filter (\<lambda>d. lf_alive (L d)) (lf_children (L a))"

text \<open>The loop of \<open>live_descendants\<close>. It visits every cell once, so the number of cells made is fuel enough.\<close>

fun descend :: "nat \<Rightarrow> (nat \<Rightarrow> callback_life) \<Rightarrow> nat list \<Rightarrow> nat list \<Rightarrow> nat list" where
  "descend 0 L pending found = found"
| "descend (Suc n) L pending found =
     (if pending = [] then found
      else descend n L (butlast pending @ live_children L (last pending)) (found @ [last pending]))"

definition live_descendants :: "nat \<Rightarrow> callback_host \<Rightarrow> nat list" where
  "live_descendants a kh = descend (kh_next kh) (kh_lives kh) (live_children (kh_lives kh) a) []"

definition binding_revoke :: "nat \<Rightarrow> callback_host \<Rightarrow> callback_host" where
  "binding_revoke a kh =
     kh \<lparr> kh_router := fold revoke_host_callbacks (live_descendants a kh) (revoke_host_callbacks a (kh_router kh)) \<rparr>"

definition binding_drop :: "nat \<Rightarrow> callback_host \<Rightarrow> callback_host" where
  "binding_drop a kh =
     (let kh1 = peer_rollback (cb_destination (cell kh a)) (binding_revoke a kh) in
      set_life a ((kh_lives kh1 a) \<lparr> lf_bound := False \<rparr>) kh1)"

text \<open>\<open>wait_drained\<close> before it waits; it goes on to the live children once nothing runs.\<close>

definition wait_drained_start :: "nat \<Rightarrow> callback_host \<Rightarrow> callback_host" where
  "wait_drained_start a kh = set_callback_cell a ((cell kh a) \<lparr> cb_active := False, cb_revoked := True \<rparr>) kh"

definition wait_drained_next :: "nat \<Rightarrow> callback_host \<Rightarrow> nat list option" where
  "wait_drained_next a kh = (if drained a kh then Some (live_children (kh_lives kh) a) else None)"

section \<open>Children\<close>

definition child_start :: "nat \<Rightarrow> call_context \<Rightarrow> callback_endpoint list \<Rightarrow> nat \<Rightarrow> callback_host \<Rightarrow> bus_name result \<times> callback_host" where
  "child_start a ctx es outbox kh =
     (if \<not> authorizes ctx (cell kh a) then (Inl (failed ''callback child requires its live module''), kh)
      else if es = [] \<or> length es > 32 \<or> \<not> endpoints_valid es
      then (Inl (failed ''callback child endpoint declaration is invalid''), kh)
      else (case attach outbox (kh_router kh) of
          ((_, unique), r) \<Rightarrow> (Inr unique, kh \<lparr> kh_router := r \<rparr>)))"

definition child_cell :: "callback_endpoint list \<Rightarrow> bus_name \<Rightarrow> callback_state \<Rightarrow> callback_state" where
  "child_cell es destination parent =
     \<lparr> cb_destination = destination, cb_endpoints = es, cb_stream_endpoints = [], cb_signals = [],
        cb_transport = cb_transport parent, cb_active = True, cb_used = False, cb_revoked = False,
        cb_module = cb_module parent, cb_running = 0 \<rparr>"

text \<open>The span under the router lock: the parent is asked again, the child is routed and recorded.\<close>

definition child_install :: "nat \<Rightarrow> call_context \<Rightarrow> callback_endpoint list \<Rightarrow> bus_name \<Rightarrow> callback_host \<Rightarrow> nat result \<times> callback_host" where
  "child_install a ctx es destination kh =
     (if \<not> authorizes ctx (cell kh a) then (Inl (failed ''callback parent was revoked during creation''), kh)
      else
        (let c = kh_next kh; la = kh_lives kh a;
             kh1 = set_callback_cell c (child_cell es destination (cell kh a)) kh in
         case add_host_callbacks c (kh_router kh1) of
           (Inl e, _) \<Rightarrow> (Inl e, kh)
         | (Inr _, r) \<Rightarrow>
             (Inr c,
              (set_life c (new_life (Some a) (lf_transport la) (lf_owner la))
                (set_life a (la \<lparr> lf_children := live_children (kh_lives kh) a @ [c] \<rparr>) (kh1 \<lparr> kh_router := r \<rparr>)))
                \<lparr> kh_next := Suc c \<rparr>)))"

definition child_finish :: "nat \<Rightarrow> call_context \<Rightarrow> callback_endpoint list \<Rightarrow> bus_name \<Rightarrow> handshake \<Rightarrow> bool \<Rightarrow> callback_host \<Rightarrow>
    nat result option \<times> callback_host" where
  "child_finish a ctx es unique answer freed kh =
     (case answer of
        None \<Rightarrow> (None, peer_rollback unique kh)
      | Some (Inl e) \<Rightarrow> (Some (Inl e), peer_rollback unique kh)
      | Some (Inr None) \<Rightarrow> (Some (Inl (failed ''callback connection has no unique name'')), peer_rollback unique kh)
      | Some (Inr (Some destination)) \<Rightarrow>
          if cb_transport (cell kh a) = None \<or> cb_transport (cell kh a) = Some False \<and> freed
          then (Some (Inl (failed ''callback module is no longer live'')), peer_rollback unique kh)
          else (case child_install a ctx es destination kh of
              (Inl e, kh1) \<Rightarrow> (Some (Inl e), peer_rollback unique kh1)
            | (Inr c, kh1) \<Rightarrow> (Some (Inr c), kh1)))"

section \<open>Serving\<close>

record guarded_interface =
  gi_confidential :: "callback_endpoint option"
  gi_stream :: "callback_endpoint option"

definition guard_interface :: "object_path \<Rightarrow> interface_name \<Rightarrow> callback_state \<Rightarrow> guarded_interface" where
  "guard_interface p i c =
     \<lparr> gi_confidential = find (\<lambda>e. interface_of e = (p, i)) (cb_endpoints c),
        gi_stream = find (\<lambda>e. interface_of e = (p, i)) (cb_stream_endpoints c) \<rparr>"

definition members_of :: "callback_endpoint option \<Rightarrow> member_name list" where
  "members_of e = (case e of None \<Rightarrow> [] | Some e \<Rightarrow> ep_members e)"

definition guarded_members :: "guarded_interface \<Rightarrow> member_name list" where
  "guarded_members g = members_of (gi_confidential g) @ members_of (gi_stream g)"

definition guarded_name :: "guarded_interface \<Rightarrow> interface_name option" where
  "guarded_name g =
     (case gi_confidential g of
        Some e \<Rightarrow> Some (ep_interface e)
      | None \<Rightarrow> map_option ep_interface (gi_stream g))"

definition serve_start :: "nat \<Rightarrow> object_path \<Rightarrow> interface_name \<Rightarrow> member_name list \<Rightarrow> callback_host \<Rightarrow> unit result \<times> callback_host" where
  "serve_start a p i provided kh =
     (let g = guard_interface p i (cell kh a); l = kh_lives kh a in
      if gi_confidential g = None \<and> gi_stream g = None then (Inl (failed ''callback endpoint is not declared''), kh)
      else if list_ex (\<lambda>m. m \<notin> set provided) (guarded_members g) then
        (Inl (failed ''callback endpoint members are missing''), kh)
      else if cb_used (cell kh a) \<or> cb_revoked (cell kh a) \<or> (p, i) \<in> set (lf_served l) \<or> (p, i) \<in> set (lf_registering l) then
        (Inl (failed ''callback registration is immutable or duplicated''), kh)
      else (Inr (), set_life a (l \<lparr> lf_registering := lf_registering l @ [(p, i)] \<rparr>) kh))"

definition serve_finish :: "nat \<Rightarrow> object_path \<Rightarrow> interface_name \<Rightarrow> unit result \<Rightarrow> callback_host \<Rightarrow> callback_host" where
  "serve_finish a p i outcome kh =
     (let l = kh_lives kh a; l1 = l \<lparr> lf_registering := filter (\<lambda>e. e \<noteq> (p, i)) (lf_registering l) \<rparr> in
      set_life a (case outcome of Inr _ \<Rightarrow> l1 \<lparr> lf_served := lf_served l1 @ [(p, i)] \<rparr> | Inl _ \<Rightarrow> l1) kh)"

definition callback_admitted :: "guarded_interface \<Rightarrow> member_name \<Rightarrow> call_context \<Rightarrow> callback_state \<Rightarrow> bool" where
  "callback_admitted g m ctx c \<longleftrightarrow>
     (let confidential = m \<in> set (members_of (gi_confidential g)); stream = m \<in> set (members_of (gi_stream g)) in
      \<not> (\<not> module_live c \<or> confidential = stream \<or> confidential \<and> \<not> cc_confidential ctx
         \<or> stream \<and> cc_confidential ctx \<or> \<not> cb_active c \<or> cb_module c = None \<or> cc_sender ctx \<noteq> cb_module c))"

text \<open>\<open>call_with_context\<close> until the user's future starts: its \<open>Running\<close> guard is the entry in \<open>kh_calls\<close>.\<close>

definition callback_start :: "nat \<Rightarrow> guarded_interface \<Rightarrow> member_name \<Rightarrow> call_context \<Rightarrow> callback_host \<Rightarrow> nat result \<times> callback_host" where
  "callback_start a g m ctx kh =
     (if \<not> callback_admitted g m ctx (cell kh a)
      then (Inl (failed ''scoped callback authority is unavailable''), kh)
      else (Inr (kh_next_call kh),
        (case cc_sender ctx of Some n \<Rightarrow> callback_saw (CallbackStarted a n m) | None \<Rightarrow> id)
          ((set_callback_cell a ((cell kh a) \<lparr> cb_running := Suc (cb_running (cell kh a)) \<rparr>) kh)
            \<lparr> kh_calls := kh_calls kh @ [(kh_next_call kh, a)], kh_next_call := Suc (kh_next_call kh) \<rparr>)))"

text \<open>The user's future completed or was dropped, then its guard.\<close>

definition callback_end :: "nat \<Rightarrow> callback_host \<Rightarrow> callback_host" where
  "callback_end k kh =
     (case hget (kh_calls kh) k of
        None \<Rightarrow> kh
      | Some a \<Rightarrow>
          (set_callback_cell a ((cell kh a) \<lparr> cb_running := cb_running (cell kh a) - 1 \<rparr>) kh)
            \<lparr> kh_calls := hdel k (kh_calls kh) \<rparr>)"

section \<open>Loading\<close>

text \<open>\<open>validate_host_callback_binding\<close>, and the reservation that repeats its checks.\<close>

definition binding_error :: "nat \<Rightarrow> nat \<Rightarrow> callback_host \<Rightarrow> error option" where
  "binding_error host a kh =
     (if lf_owner (kh_lives kh a) \<noteq> host then Some (failed ''callback binding belongs to another host owner'')
      else if cb_used (cell kh a) \<or> cb_revoked (cell kh a)
          \<or> length (lf_served (kh_lives kh a)) \<noteq> required_endpoint_count (cell kh a)
      then Some (failed ''callback binding is already used or endpoints are missing'')
      else None)"

definition load_reserve :: "nat \<Rightarrow> nat \<Rightarrow> callback_host \<Rightarrow> unit result \<times> callback_host" where
  "load_reserve host a kh =
     (case binding_error host a kh of
        Some e \<Rightarrow> (Inl e, kh)
      | None \<Rightarrow>
          (Inr (), callback_saw (BindingReserved a (lf_served (kh_lives kh a)))
                     (set_callback_cell a ((cell kh a) \<lparr> cb_used := True \<rparr>) kh)))"

text \<open>The span that gives the attached module its authority, before it may initialize.\<close>

definition load_bind :: "nat \<Rightarrow> nat \<Rightarrow> bool \<Rightarrow> bus_name \<Rightarrow> callback_host \<Rightarrow> unit result \<times> callback_host" where
  "load_bind a t up peer kh =
     (if cb_revoked (cell kh a) \<or> cb_module (cell kh a) \<noteq> None
      then (Inl (failed ''callback binding was concurrently used''), kh)
      else
        (let c = (cell kh a) \<lparr> cb_transport := Some up, cb_module := Some peer, cb_active := True \<rparr>;
             kh1 = callback_saw (ModuleBound a peer)
                     (set_life a ((kh_lives kh a) \<lparr> lf_transport := Some t \<rparr>) (set_callback_cell a c kh)) in
         case add_host_callbacks a (kh_router kh1) of
           (r, rt) \<Rightarrow> (r, kh1 \<lparr> kh_router := rt \<rparr>)))"

definition load_rollback :: "nat \<Rightarrow> bus_name option \<Rightarrow> callback_host \<Rightarrow> callback_host" where
  "load_rollback a listed kh =
     (let kh1 = peer_rollback (cb_destination (cell kh a)) (binding_revoke a kh) in
      case (case cb_module (cell kh1 a) of Some m \<Rightarrow> Some m | None \<Rightarrow> listed) of
        Some peer \<Rightarrow> peer_rollback peer kh1
      | None \<Rightarrow> kh1)"

text \<open>The commit: the snapshot of the module says it is ready, and the binding is still live.\<close>

definition load_commit :: "nat \<Rightarrow> bool \<Rightarrow> callback_host \<Rightarrow> bool" where
  "load_commit a ready kh \<longleftrightarrow> \<not> (cb_revoked (cell kh a) \<or> \<not> cb_active (cell kh a) \<or> \<not> ready)"

text \<open>A module transport faults, or is gone.\<close>

definition transport_down :: "nat \<Rightarrow> callback_host \<Rightarrow> callback_host" where
  "transport_down t kh =
     kh \<lparr> kh_router := (kh_router kh) \<lparr> rt_cells :=
       (\<lambda>a. if lf_transport (kh_lives kh a) = Some t then (cell kh a) \<lparr> cb_transport := Some False \<rparr> else cell kh a) \<rparr> \<rparr>"

end
