(* ===== verification/HostCallbackProps.thy ===== *)
theory HostCallbackProps
  imports HostCallbacks
begin

text \<open>
  What the callback bindings of \<open>module/host_callbacks.rs\<close> keep over every run: revoking a binding
  reaches everything created under it, callbacks come from the one module the binding was loaded with,
  and running callbacks are counted exactly.
\<close>

section \<open>Runs\<close>

datatype callback_op =
    KRouter router_op
  | KPrepare callback_declaration nat
  | KPrepared callback_declaration nat bus_name handshake
  | KChild nat call_context "callback_endpoint list" nat
  | KChildDone nat call_context "callback_endpoint list" bus_name handshake bool
  | KServe nat object_path interface_name "member_name list"
  | KServed nat object_path interface_name "unit result"
  | KCall nat object_path interface_name member_name call_context
  | KCallEnd nat
  | KReserve nat nat
  | KBind nat nat bool bus_name
  | KRollback nat "bus_name option"
  | KRevoke nat
  | KDrop nat
  | KDrain nat
  | KDown nat
  | KFree nat

fun adds_callbacks :: "router_op \<Rightarrow> bool" where
  "adds_callbacks (AddCallbacks _) = True"
| "adds_callbacks _ = False"

text \<open>The shared state of a capability is freed when nothing holds it: no binding, no route, no running
callback and no child.\<close>

definition unheld :: "nat \<Rightarrow> callback_host \<Rightarrow> bool" where
  "unheld a kh \<longleftrightarrow>
     \<not> lf_bound (kh_lives kh a) \<and> a \<notin> set (rt_host_callbacks (kh_router kh)) \<and> a \<notin> snd ` set (kh_calls kh) \<and>
     (\<forall>d < kh_next kh. lf_alive (kh_lives kh d) \<longrightarrow> lf_parent (kh_lives kh d) \<noteq> Some a)"

definition if_bound :: "nat \<Rightarrow> callback_host \<Rightarrow> callback_host \<Rightarrow> callback_host" where
  "if_bound a kh kh' = (if lf_bound (kh_lives kh a) then kh' else kh)"

fun callback_step :: "callback_op \<Rightarrow> callback_host \<Rightarrow> callback_host" where
  "callback_step (KRouter op) kh = (if adds_callbacks op then kh else kh \<lparr> kh_router := router_step op (kh_router kh) \<rparr>)"
| "callback_step (KPrepare d outbox) kh = snd (prepare_start d outbox kh)"
| "callback_step (KPrepared d host unique answer) kh = snd (prepare_finish d host unique answer kh)"
| "callback_step (KChild a ctx es outbox) kh = if_bound a kh (snd (child_start a ctx es outbox kh))"
| "callback_step (KChildDone a ctx es unique answer freed) kh = if_bound a kh (snd (child_finish a ctx es unique answer freed kh))"
| "callback_step (KServe a p i provided) kh = if_bound a kh (snd (serve_start a p i provided kh))"
| "callback_step (KServed a p i outcome) kh =
     (if (p, i) \<in> set (lf_registering (kh_lives kh a)) then if_bound a kh (serve_finish a p i outcome kh) else kh)"
| "callback_step (KCall a p i m ctx) kh =
     (if lf_alive (kh_lives kh a) then snd (callback_start a (guard_interface p i (cell kh a)) m ctx kh) else kh)"
| "callback_step (KCallEnd k) kh = callback_end k kh"
| "callback_step (KReserve host a) kh = if_bound a kh (snd (load_reserve host a kh))"
| "callback_step (KBind a t up peer) kh = (if cb_used (cell kh a) then if_bound a kh (snd (load_bind a t up peer kh)) else kh)"
| "callback_step (KRollback a listed) kh = if_bound a kh (load_rollback a listed kh)"
| "callback_step (KRevoke a) kh = if_bound a kh (binding_revoke a kh)"
| "callback_step (KDrop a) kh = if_bound a kh (binding_drop a kh)"
| "callback_step (KDrain a) kh = wait_drained_start a kh"
| "callback_step (KDown t) kh = transport_down t kh"
| "callback_step (KFree a) kh =
     (if unheld a kh then set_life a ((kh_lives kh a) \<lparr> lf_alive := False \<rparr>) kh else kh)"

definition callback_begin :: "(nat \<Rightarrow> callback_state) \<Rightarrow> callback_host" where
  "callback_begin cells =
     \<lparr> kh_router = router_default cells,
        kh_lives = (\<lambda>_. (new_life None None 0) \<lparr> lf_bound := False, lf_alive := False \<rparr>),
        kh_next = 0, kh_calls = [], kh_next_call = 0, kh_trace = [] \<rparr>"

definition callback_run :: "callback_op list \<Rightarrow> callback_host \<Rightarrow> callback_host" where
  "callback_run = fold callback_step"

section \<open>Frames\<close>

text \<open>Nothing happened but that some capabilities were revoked and some routes dropped.\<close>

definition revoking :: "callback_host \<Rightarrow> callback_host \<Rightarrow> bool" where
  "revoking kh kh' \<longleftrightarrow>
     kh_lives kh' = kh_lives kh \<and> kh_next kh' = kh_next kh \<and> kh_calls kh' = kh_calls kh \<and>
     kh_next_call kh' = kh_next_call kh \<and> kh_trace kh' = kh_trace kh \<and>
     set (rt_host_callbacks (kh_router kh')) \<subseteq> set (rt_host_callbacks (kh_router kh)) \<and>
     (\<forall>a. cell kh' a = cell kh a \<or> cell kh' a = revoke (cell kh a))"

definition router_revoking :: "router \<Rightarrow> router \<Rightarrow> bool" where
  "router_revoking r r' \<longleftrightarrow>
     set (rt_host_callbacks r') \<subseteq> set (rt_host_callbacks r) \<and>
     (\<forall>a. rt_cells r' a = rt_cells r a \<or> rt_cells r' a = revoke (rt_cells r a))"

lemma revoke_twice [simp]: "revoke (revoke c) = revoke c"
  by (simp add: revoke_def)

lemma router_revoking_refl [simp]: "router_revoking r r"
  by (simp add: router_revoking_def)

lemma router_revoking_trans: "router_revoking r r' \<Longrightarrow> router_revoking r' r'' \<Longrightarrow> router_revoking r r''"
  unfolding router_revoking_def by (metis revoke_twice subset_trans)

lemma router_revoking_same:
  "rt_host_callbacks r' = rt_host_callbacks r \<Longrightarrow> rt_cells r' = rt_cells r \<Longrightarrow> router_revoking r r'"
  by (simp add: router_revoking_def)

lemma revoke_for_revoking: "router_revoking r (revoke_callbacks_for_peer n r)"
  by (auto simp: router_revoking_def revoke_callbacks_for_peer_def Let_def)

lemma revoke_host_revoking: "router_revoking r (revoke_host_callbacks a r)"
  by (auto simp: router_revoking_def revoke_host_callbacks_def)

lemma detach_revoking: "router_revoking r (snd (detach i r))"
proof (cases "hget (rt_peers r) i")
  case None
  then show ?thesis by (simp add: detach_def)
next
  case (Some p)
  then show ?thesis by (auto simp: router_revoking_def detach_callbacks [OF Some])
qed

lemma detach_unique_revoking: "router_revoking r (snd (detach_unique n r))"
  by (simp add: detach_unique_def detach_revoking split: option.splits)

lemma update_peer_capabilities [simp]:
  "rt_host_callbacks (update_peer i f r) = rt_host_callbacks r" "rt_cells (update_peer i f r) = rt_cells r"
  by (simp_all add: update_peer_def split: option.splits)

lemma router_step_revoking:
  "\<not> adds_callbacks op \<Longrightarrow> router_revoking r (router_step op r)"
  by (cases op)
    (auto simp: revoke_for_revoking revoke_host_revoking detach_revoking detach_unique_revoking while_attached_def attach_def Let_def
      request_name_def release_name_def request_name_for_unique_def release_name_for_unique_def set_manifest_def add_match_def
      remove_match_def set_attestation_for_unique_def set_attestation_def
      intro!: router_revoking_same split: option.splits sum.splits prod.splits)

lemma revoking_router: "router_revoking (kh_router kh) r \<Longrightarrow> revoking kh (kh \<lparr> kh_router := r \<rparr>)"
  by (simp add: revoking_def router_revoking_def)

lemma revoking_refl [simp]: "revoking kh kh"
  by (simp add: revoking_def)

lemma revoking_trans: "revoking kh kh' \<Longrightarrow> revoking kh' kh'' \<Longrightarrow> revoking kh kh''"
  unfolding revoking_def by (metis revoke_twice subset_trans)

lemma peer_rollback_revoking: "revoking kh (peer_rollback u kh)"
  by (simp add: peer_rollback_def revoking_router detach_unique_revoking)

lemma fold_revoke_revoking: "router_revoking r (fold revoke_host_callbacks ds r)"
proof (induction ds arbitrary: r)
  case (Cons d ds)
  show ?case using router_revoking_trans [OF revoke_host_revoking Cons.IH] by simp
qed simp

lemma binding_revoke_revoking: "revoking kh (binding_revoke a kh)"
  unfolding binding_revoke_def
  by (rule revoking_router) (rule router_revoking_trans [OF revoke_host_revoking fold_revoke_revoking])

lemma load_rollback_revoking: "revoking kh (load_rollback a listed kh)"
  by (auto simp: load_rollback_def Let_def split: option.splits
      intro: revoking_trans [OF revoking_trans [OF binding_revoke_revoking peer_rollback_revoking] peer_rollback_revoking]
        revoking_trans [OF binding_revoke_revoking peer_rollback_revoking])

lemma wait_drained_revoking: "revoking kh (wait_drained_start a kh)"
  by (simp add: wait_drained_start_def set_callback_cell_def revoking_def revoke_def)

lemma prepare_start_revoking: "revoking kh (snd (prepare_start d outbox kh))"
  by (auto simp: prepare_start_def attach_def Let_def router_revoking_def intro!: revoking_router split: option.splits)

lemma child_start_revoking: "revoking kh (snd (child_start a ctx es outbox kh))"
  by (auto simp: child_start_def attach_def Let_def router_revoking_def intro!: revoking_router)

section \<open>The forest of capabilities\<close>

inductive descends :: "(nat \<Rightarrow> callback_life) \<Rightarrow> nat \<Rightarrow> nat \<Rightarrow> bool" for L where
  child: "lf_parent (L d) = Some a \<Longrightarrow> descends L d a"
| deeper: "lf_parent (L d) = Some p \<Longrightarrow> descends L p a \<Longrightarrow> descends L d a"

definition forest_ok :: "callback_host \<Rightarrow> bool" where
  "forest_ok kh \<longleftrightarrow>
     (\<forall>a \<in> set (rt_host_callbacks (kh_router kh)). lf_alive (kh_lives kh a)) \<and>
     (\<forall>a. lf_alive (kh_lives kh a) \<longrightarrow> a < kh_next kh) \<and>
     (\<forall>d p. d < kh_next kh \<and> lf_parent (kh_lives kh d) = Some p \<longrightarrow>
        p < d \<and> (lf_alive (kh_lives kh d) \<longrightarrow> lf_alive (kh_lives kh p) \<and> d \<in> set (lf_children (kh_lives kh p)))) \<and>
     (\<forall>p d. d \<in> set (lf_children (kh_lives kh p)) \<longrightarrow> d < kh_next kh \<and> lf_parent (kh_lives kh d) = Some p) \<and>
     (\<forall>p. distinct (lf_children (kh_lives kh p))) \<and>
     (\<forall>a. lf_bound (kh_lives kh a) \<longrightarrow> lf_alive (kh_lives kh a)) \<and>
     (\<forall>(k, a) \<in> set (kh_calls kh). lf_alive (kh_lives kh a))"

lemma forest_revoking:
  assumes "forest_ok kh" "revoking kh kh'"
  shows "forest_ok kh'"
proof -
  have same: "kh_lives kh' = kh_lives kh" "kh_next kh' = kh_next kh" "kh_calls kh' = kh_calls kh"
    and routed: "set (rt_host_callbacks (kh_router kh')) \<subseteq> set (rt_host_callbacks (kh_router kh))"
    using assms(2) unfolding revoking_def by blast+
  show ?thesis using assms(1) routed unfolding forest_ok_def same by blast
qed

lemma forest:
  assumes "forest_ok kh"
  shows "a \<in> set (rt_host_callbacks (kh_router kh)) \<Longrightarrow> lf_alive (kh_lives kh a)"
    and "lf_alive (kh_lives kh a) \<Longrightarrow> a < kh_next kh"
    and "d < kh_next kh \<Longrightarrow> lf_parent (kh_lives kh d) = Some p \<Longrightarrow> p < d"
    and "lf_alive (kh_lives kh d) \<Longrightarrow> lf_parent (kh_lives kh d) = Some p \<Longrightarrow>
      lf_alive (kh_lives kh p) \<and> d \<in> set (lf_children (kh_lives kh p))"
    and "d \<in> set (lf_children (kh_lives kh p)) \<Longrightarrow> d < kh_next kh \<and> lf_parent (kh_lives kh d) = Some p"
    and "distinct (lf_children (kh_lives kh p))"
    and "lf_bound (kh_lives kh a) \<Longrightarrow> lf_alive (kh_lives kh a)"
    and "(k, a) \<in> set (kh_calls kh) \<Longrightarrow> lf_alive (kh_lives kh a)"
  using assms unfolding forest_ok_def by blast+

lemma live_children_iff:
  assumes "forest_ok kh"
  shows "d \<in> set (live_children (kh_lives kh) c) \<longleftrightarrow> lf_alive (kh_lives kh d) \<and> lf_parent (kh_lives kh d) = Some c"
  using forest(4,5) [OF assms] by (auto simp: live_children_def)

lemma descends_above: "descends L d a \<Longrightarrow> (\<And>d p. d < n \<Longrightarrow> lf_parent (L d) = Some p \<Longrightarrow> p < d) \<Longrightarrow> d < n \<Longrightarrow> a < d"
proof (induction rule: descends.induct)
  case (deeper d p a)
  then show ?case by (meson less_trans)
qed blast

lemma descends_frame:
  assumes "\<And>d. d < n \<Longrightarrow> lf_parent (L' d) = lf_parent (L d)" "\<And>d p. d < n \<Longrightarrow> lf_parent (L d) = Some p \<Longrightarrow> p < d" "d < n"
  shows "descends L' d a = descends L d a"
proof -
  have one: "descends L2 d a" if "descends L1 d a" "d < n" "\<And>d. d < n \<Longrightarrow> lf_parent (L2 d) = lf_parent (L1 d)"
    "\<And>d p. d < n \<Longrightarrow> lf_parent (L1 d) = Some p \<Longrightarrow> p < d" for L1 L2 d
    using that
  proof (induction rule: descends.induct)
    case (child d a)
    then show ?case by (metis descends.child)
  next
    case (deeper d p a)
    then show ?case by (metis descends.deeper less_trans)
  qed
  show ?thesis using one [of L d L'] one [of L' d L] assms by metis
qed

text \<open>The walk over the live descendants finds all of them.\<close>

definition walk_ok :: "callback_host \<Rightarrow> nat \<Rightarrow> nat list \<Rightarrow> nat list \<Rightarrow> bool" where
  "walk_ok kh a pending found \<longleftrightarrow>
     distinct (pending @ found) \<and>
     (\<forall>d \<in> set pending \<union> set found. a < d \<and> d < kh_next kh \<and>
        (\<exists>p. lf_parent (kh_lives kh d) = Some p \<and> (p = a \<or> p \<in> set found))) \<and>
     (\<forall>p d. (p = a \<or> p \<in> set found) \<and> lf_alive (kh_lives kh d) \<and> lf_parent (kh_lives kh d) = Some p \<longrightarrow>
        d \<in> set pending \<union> set found)"

lemma walk_step:
  assumes f: "forest_ok kh" and w: "walk_ok kh a pending found" and p: "pending \<noteq> []"
  shows "walk_ok kh a (butlast pending @ live_children (kh_lives kh) (last pending)) (found @ [last pending])"
proof -
  obtain ps c where ps: "pending = ps @ [c]" using p by (metis append_butlast_last_id)
  let ?new = "live_children (kh_lives kh) c"
  have c: "a < c" "c < kh_next kh" "c \<notin> set ps" "c \<notin> set found" using w by (auto simp: walk_ok_def ps)
  note new = live_children_iff [OF f]
  have "distinct ?new" using forest(6) [OF f] by (simp add: live_children_def)
  moreover have above: "a < d \<and> d < kh_next kh" if "d \<in> set ?new" for d
    using that c(1) forest(2,3) [OF f] unfolding new by (meson less_trans)
  moreover have "d \<notin> set ps \<union> set found \<and> d \<noteq> c" if "d \<in> set ?new" for d
  proof -
    have d: "lf_parent (kh_lives kh d) = Some c" "c < d"
      using that forest(2,3) [OF f] unfolding new by blast+
    have "d \<notin> set pending \<union> set found"
    proof
      assume "d \<in> set pending \<union> set found"
      then obtain p where "lf_parent (kh_lives kh d) = Some p" "p = a \<or> p \<in> set found"
        using w unfolding walk_ok_def by blast
      then show False using d(1) c(1,4) by auto
    qed
    then show ?thesis using d(2) by (auto simp: ps)
  qed
  ultimately have "distinct ((ps @ ?new) @ found @ [c])" using w by (auto simp: walk_ok_def ps)
  moreover have "\<forall>d \<in> set (ps @ ?new) \<union> set (found @ [c]). a < d \<and> d < kh_next kh \<and>
      (\<exists>p. lf_parent (kh_lives kh d) = Some p \<and> (p = a \<or> p \<in> set (found @ [c])))"
    using w above by (auto simp: walk_ok_def ps new)
  moreover have "\<forall>p d. (p = a \<or> p \<in> set (found @ [c])) \<and> lf_alive (kh_lives kh d) \<and> lf_parent (kh_lives kh d) = Some p \<longrightarrow>
      d \<in> set (ps @ ?new) \<union> set (found @ [c])"
  proof (intro allI impI)
    fix q d
    assume d: "(q = a \<or> q \<in> set (found @ [c])) \<and> lf_alive (kh_lives kh d) \<and> lf_parent (kh_lives kh d) = Some q"
    show "d \<in> set (ps @ ?new) \<union> set (found @ [c])"
    proof (cases "q = c")
      case True
      then have "d \<in> set ?new" using d by (simp add: new)
      then show ?thesis by simp
    next
      case False
      then have "d \<in> set pending \<union> set found" using d w unfolding walk_ok_def by auto
      then show ?thesis by (auto simp: ps)
    qed
  qed
  ultimately show ?thesis unfolding walk_ok_def ps by simp
qed

lemma walk_done:
  assumes "forest_ok kh" "walk_ok kh a pending found" "kh_next kh \<le> n + length found" "a < kh_next kh"
  shows "walk_ok kh a [] (descend n (kh_lives kh) pending found)"
  using assms(2,3)
proof (induction n arbitrary: pending found)
  case 0
  have "set found \<subseteq> {a<..<kh_next kh}" "distinct found" using 0(1) by (auto simp: walk_ok_def)
  then have "length found \<le> kh_next kh - Suc a"
    by (metis card_greaterThanLessThan card_mono distinct_card finite_greaterThanLessThan)
  then show ?case using 0(2) assms(4) by simp
next
  case (Suc n)
  show ?case
  proof (cases "pending = []")
    case False
    then show ?thesis using Suc.IH [OF walk_step [OF assms(1) Suc.prems(1) False]] Suc.prems(2) by simp
  qed (use Suc.prems in simp)
qed

lemma live_descendants_all:
  assumes f: "forest_ok kh" and a: "a < kh_next kh" and d: "descends (kh_lives kh) d a" "lf_alive (kh_lives kh d)"
  shows "d \<in> set (live_descendants a kh)"
proof -
  have start: "walk_ok kh a (live_children (kh_lives kh) a) []"
    unfolding walk_ok_def using forest(2,3,6) [OF f] by (auto simp: live_children_iff [OF f]) (simp add: live_children_def)
  have w: "walk_ok kh a [] (live_descendants a kh)"
    unfolding live_descendants_def by (rule walk_done [OF f start _ a]) simp
  have up: "lf_alive (kh_lives kh p)" if "lf_parent (kh_lives kh x) = Some p" "lf_alive (kh_lives kh x)" for x p
    using forest(4) [OF f that(2,1)] by blast
  show ?thesis
    using d w
  proof (induction rule: descends.induct)
    case (child d a)
    then show ?case by (auto simp: walk_ok_def)
  next
    case (deeper d p a)
    then have "p \<in> set (live_descendants a kh)" using up by blast
    then show ?case using deeper.hyps(1) deeper.prems by (auto simp: walk_ok_def)
  qed
qed


lemma forest_same:
  assumes f: "forest_ok kh" and n: "kh_next kh' = kh_next kh"
    and l: "\<And>a. lf_parent (kh_lives kh' a) = lf_parent (kh_lives kh a)"
      "\<And>a. lf_children (kh_lives kh' a) = lf_children (kh_lives kh a)"
      "\<And>a. lf_alive (kh_lives kh' a) = lf_alive (kh_lives kh a)"
    and b: "\<And>a. lf_bound (kh_lives kh' a) \<Longrightarrow> lf_bound (kh_lives kh a)"
    and r: "\<And>a. a \<in> set (rt_host_callbacks (kh_router kh')) \<Longrightarrow> lf_alive (kh_lives kh a)"
    and c: "\<And>k a. (k, a) \<in> set (kh_calls kh') \<Longrightarrow> lf_alive (kh_lives kh a)"
  shows "forest_ok kh'"
  unfolding forest_ok_def n l
proof (intro conjI)
  show "\<forall>d p. d < kh_next kh \<and> lf_parent (kh_lives kh d) = Some p \<longrightarrow>
      p < d \<and> (lf_alive (kh_lives kh d) \<longrightarrow> lf_alive (kh_lives kh p) \<and> d \<in> set (lf_children (kh_lives kh p)))"
    using forest(3,4) [OF f] by blast
  show "\<forall>p d. d \<in> set (lf_children (kh_lives kh p)) \<longrightarrow> d < kh_next kh \<and> lf_parent (kh_lives kh d) = Some p"
    using forest(5) [OF f] by blast
  show "\<forall>a. lf_bound (kh_lives kh' a) \<longrightarrow> lf_alive (kh_lives kh a)" using forest(7) [OF f] b by blast
  show "\<forall>(k, a) \<in> set (kh_calls kh'). lf_alive (kh_lives kh a)" using c by blast
qed (use forest(2,6) [OF f] r in blast)+

lemma life_simps [simp]:
  "kh_router (set_life a l kh) = kh_router kh" "kh_next (set_life a l kh) = kh_next kh"
  "kh_calls (set_life a l kh) = kh_calls kh" "kh_trace (set_life a l kh) = kh_trace kh"
  "kh_next_call (set_life a l kh) = kh_next_call kh"
  "kh_lives (set_life a l kh) = (kh_lives kh)(a := l)"
  "kh_lives (set_callback_cell a c kh) = kh_lives kh" "kh_next (set_callback_cell a c kh) = kh_next kh"
  "kh_calls (set_callback_cell a c kh) = kh_calls kh" "kh_trace (set_callback_cell a c kh) = kh_trace kh"
  "kh_next_call (set_callback_cell a c kh) = kh_next_call kh"
  "rt_host_callbacks (kh_router (set_callback_cell a c kh)) = rt_host_callbacks (kh_router kh)"
  "rt_cells (kh_router (set_callback_cell a c kh)) = (rt_cells (kh_router kh))(a := c)"
  "kh_lives (callback_saw e kh) = kh_lives kh" "kh_next (callback_saw e kh) = kh_next kh"
  "kh_calls (callback_saw e kh) = kh_calls kh" "kh_trace (callback_saw e kh) = kh_trace kh @ [e]"
  "kh_router (callback_saw e kh) = kh_router kh" "kh_next_call (callback_saw e kh) = kh_next_call kh"
  by (simp_all add: set_life_def set_callback_cell_def callback_saw_def)

lemma add_host_callbacks_effect:
  "add_host_callbacks a r = (x, r') \<Longrightarrow>
   rt_cells r' = rt_cells r \<and> rt_host_callbacks r' = rt_host_callbacks r @ (case x of Inr _ \<Rightarrow> [a] | Inl _ \<Rightarrow> [])"
  by (auto simp: add_host_callbacks_def Let_def split: if_splits option.splits)

text \<open>A fresh capability, with or without a parent.\<close>

lemma forest_fresh:
  assumes f: "forest_ok kh" and n: "kh_next kh' = Suc (kh_next kh)"
    and new: "kh_lives kh' (kh_next kh) = new_life parent t ow"
    and old: "\<And>a. a \<noteq> kh_next kh \<Longrightarrow> parent \<noteq> Some a \<Longrightarrow> kh_lives kh' a = kh_lives kh a"
    and par: "\<And>p. parent = Some p \<Longrightarrow> lf_alive (kh_lives kh p) \<and>
      kh_lives kh' p = (kh_lives kh p) \<lparr> lf_children := live_children (kh_lives kh) p @ [kh_next kh] \<rparr>"
    and r: "\<And>a. a \<in> set (rt_host_callbacks (kh_router kh')) \<Longrightarrow> lf_alive (kh_lives kh a) \<or> a = kh_next kh"
    and c: "kh_calls kh' = kh_calls kh"
  shows "forest_ok kh'"
proof -
  let ?n = "kh_next kh"
  have fresh: "\<not> lf_alive (kh_lives kh ?n)" "\<And>p. ?n \<notin> set (lf_children (kh_lives kh p))"
    using forest(2) [OF f, of ?n] forest(5) [OF f] by blast+
  have lt: "p < ?n" if "parent = Some p" for p using par [OF that] forest(2) [OF f] by blast
  have life: "kh_lives kh' a = (if a = ?n then new_life parent t ow
      else if parent = Some a then (kh_lives kh a) \<lparr> lf_children := live_children (kh_lives kh) a @ [?n] \<rparr>
      else kh_lives kh a)" for a
    using new old [of a] par [of a] by simp
  have parents: "lf_parent (kh_lives kh' a) = (if a = ?n then parent else lf_parent (kh_lives kh a))" for a
    by (simp add: life new_life_def)
  have alive: "lf_alive (kh_lives kh' a) = (a = ?n \<or> lf_alive (kh_lives kh a))" for a
    by (simp add: life new_life_def)
  have bound: "lf_bound (kh_lives kh' a) = (a = ?n \<or> lf_bound (kh_lives kh a))" for a
    by (simp add: life new_life_def)
  have kids: "lf_children (kh_lives kh' a) =
      (if a = ?n then [] else if parent = Some a then live_children (kh_lives kh) a @ [?n] else lf_children (kh_lives kh a))" for a
    by (simp add: life new_life_def)
  have sub: "d \<in> set (live_children (kh_lives kh) a) \<Longrightarrow> d \<in> set (lf_children (kh_lives kh a))" for d a
    by (simp add: live_children_def)
  show ?thesis
    unfolding forest_ok_def
  proof (intro conjI)
    show "\<forall>a \<in> set (rt_host_callbacks (kh_router kh')). lf_alive (kh_lives kh' a)" using r alive by blast
    show "\<forall>a. lf_alive (kh_lives kh' a) \<longrightarrow> a < kh_next kh'" using forest(2) [OF f] by (auto simp: alive n less_Suc_eq)
    show "\<forall>d p. d < kh_next kh' \<and> lf_parent (kh_lives kh' d) = Some p \<longrightarrow>
      p < d \<and> (lf_alive (kh_lives kh' d) \<longrightarrow> lf_alive (kh_lives kh' p) \<and> d \<in> set (lf_children (kh_lives kh' p)))"
    proof (intro allI impI)
      fix d p
      assume d: "d < kh_next kh' \<and> lf_parent (kh_lives kh' d) = Some p"
      show "p < d \<and> (lf_alive (kh_lives kh' d) \<longrightarrow> lf_alive (kh_lives kh' p) \<and> d \<in> set (lf_children (kh_lives kh' p)))"
      proof (cases "d = ?n")
        case True
        then show ?thesis using d lt [of p] par [of p] by (simp add: parents alive kids)
      next
        case False
        then have o: "d < ?n" "lf_parent (kh_lives kh d) = Some p" using d by (auto simp: n parents)
        have "p < d" using forest(3) [OF f o] .
        moreover have "p \<noteq> ?n" using \<open>p < d\<close> o(1) by simp
        moreover have "lf_alive (kh_lives kh p) \<and> d \<in> set (lf_children (kh_lives kh p))" if "lf_alive (kh_lives kh d)"
          using forest(4) [OF f that o(2)] .
        ultimately show ?thesis using False by (simp add: alive kids live_children_def)
      qed
    qed
    show "\<forall>p d. d \<in> set (lf_children (kh_lives kh' p)) \<longrightarrow> d < kh_next kh' \<and> lf_parent (kh_lives kh' d) = Some p"
    proof (intro allI impI)
      fix p d
      assume d: "d \<in> set (lf_children (kh_lives kh' p))"
      show "d < kh_next kh' \<and> lf_parent (kh_lives kh' d) = Some p"
      proof (cases "d = ?n")
        case True
        then show ?thesis using d fresh(2) sub by (simp add: kids n parents split: if_splits)
      next
        case False
        then have "d \<in> set (lf_children (kh_lives kh p))" using d sub by (auto simp: kids split: if_splits)
        then show ?thesis using forest(5) [OF f] False by (simp add: n parents less_Suc_eq)
      qed
    qed
    show "\<forall>p. distinct (lf_children (kh_lives kh' p))"
      using forest(6) [OF f] fresh(2) by (simp add: kids live_children_def)
    show "\<forall>a. lf_bound (kh_lives kh' a) \<longrightarrow> lf_alive (kh_lives kh' a)" using forest(7) [OF f] by (simp add: alive bound)
    show "\<forall>(k, a) \<in> set (kh_calls kh'). lf_alive (kh_lives kh' a)" using forest(8) [OF f] by (auto simp: c alive)
  qed
qed

section \<open>One capability\<close>

lemma declared_fold:
  "distinct known \<Longrightarrow>
   distinct (fold (\<lambda>i known. if i \<in> set known then known else known @ [i]) is known) \<and>
   set (fold (\<lambda>i known. if i \<in> set known then known else known @ [i]) is known) = set known \<union> set is"
proof (induction "is" arbitrary: known)
  case (Cons i "is")
  then show ?case using Cons.IH [of "if i \<in> set known then known else known @ [i]"] by auto
qed simp

lemma declared_interfaces_set:
  "distinct (declared_interfaces es ss)" "set (declared_interfaces es ss) = interface_of ` (set es \<union> set ss)"
  using declared_fold [of "[]" "map interface_of (es @ ss)"] by (auto simp: declared_interfaces_def)

definition declared_by :: "callback_state \<Rightarrow> (object_path \<times> interface_name) list" where
  "declared_by c = declared_interfaces (cb_endpoints c) (cb_stream_endpoints c)"

fun event_cell :: "callback_event \<Rightarrow> nat" where
  "event_cell (CallbackStarted a _ _) = a"
| "event_cell (BindingReserved a _) = a"
| "event_cell (ModuleBound a _) = a"

fun reserves :: "nat \<Rightarrow> callback_event \<Rightarrow> bool" where
  "reserves a (BindingReserved b _) = (b = a)"
| "reserves a _ = False"

definition running_on :: "nat \<Rightarrow> callback_host \<Rightarrow> nat" where
  "running_on a kh = length (filter (\<lambda>(k, b). b = a) (kh_calls kh))"

definition cell_fits :: "callback_host \<Rightarrow> nat \<Rightarrow> bool" where
  "cell_fits kh a \<longleftrightarrow>
     (cb_revoked (cell kh a) \<longrightarrow> \<not> cb_active (cell kh a)) \<and>
     cb_running (cell kh a) = running_on a kh \<and>
     distinct (lf_served (kh_lives kh a) @ lf_registering (kh_lives kh a)) \<and>
     set (lf_served (kh_lives kh a) @ lf_registering (kh_lives kh a)) \<subseteq> set (declared_by (cell kh a)) \<and>
     (if cb_used (cell kh a)
      then \<exists>sv. filter (reserves a) (kh_trace kh) = [BindingReserved a sv] \<and> set sv = set (declared_by (cell kh a))
      else filter (reserves a) (kh_trace kh) = []) \<and>
     (\<forall>p. ModuleBound a p \<in> set (kh_trace kh) \<longrightarrow> cb_module (cell kh a) = Some p \<and> cb_used (cell kh a)) \<and>
     (\<forall>m. cb_module (cell kh a) = Some m \<longrightarrow>
        (\<exists>r. (r = a \<or> descends (kh_lives kh) a r) \<and> ModuleBound r m \<in> set (kh_trace kh))) \<and>
     (\<forall>m k. CallbackStarted a m k \<in> set (kh_trace kh) \<longrightarrow> cb_module (cell kh a) = Some m)"

definition callback_inv :: "callback_host \<Rightarrow> bool" where
  "callback_inv kh \<longleftrightarrow>
     forest_ok kh \<and> (\<forall>a < kh_next kh. cell_fits kh a) \<and> (\<forall>e \<in> set (kh_trace kh). event_cell e < kh_next kh) \<and>
     hmap_ok (kh_calls kh) \<and> (\<forall>k \<in> set (hkeys (kh_calls kh)). k < kh_next_call kh)"

text \<open>What a step that is not about a capability leaves of it.\<close>

definition untouched :: "callback_host \<Rightarrow> callback_host \<Rightarrow> nat \<Rightarrow> bool" where
  "untouched kh kh' a \<longleftrightarrow>
     cb_endpoints (cell kh' a) = cb_endpoints (cell kh a) \<and> cb_stream_endpoints (cell kh' a) = cb_stream_endpoints (cell kh a) \<and>
     cb_used (cell kh' a) = cb_used (cell kh a) \<and> cb_module (cell kh' a) = cb_module (cell kh a) \<and>
     cb_running (cell kh' a) = cb_running (cell kh a) \<and>
     (cb_revoked (cell kh' a) \<and> \<not> cb_active (cell kh' a) \<or>
      cb_revoked (cell kh' a) = cb_revoked (cell kh a) \<and> cb_active (cell kh' a) = cb_active (cell kh a)) \<and>
     lf_served (kh_lives kh' a) = lf_served (kh_lives kh a) \<and> lf_registering (kh_lives kh' a) = lf_registering (kh_lives kh a) \<and>
     running_on a kh' = running_on a kh \<and>
     (\<exists>es. kh_trace kh' = kh_trace kh @ es \<and> (\<forall>e \<in> set es. event_cell e \<noteq> a)) \<and>
     (\<forall>r. descends (kh_lives kh) a r \<longrightarrow> descends (kh_lives kh') a r)"

lemma reserves_cell: "reserves a e \<Longrightarrow> event_cell e = a"
  by (cases e) auto

lemma cell_fits_untouched:
  assumes "cell_fits kh a" "untouched kh kh' a"
  shows "cell_fits kh' a"
proof -
  obtain es where es: "kh_trace kh' = kh_trace kh @ es" "\<forall>e \<in> set es. event_cell e \<noteq> a"
    using assms(2) unfolding untouched_def by blast
  have "filter (reserves a) es = []" using es(2) reserves_cell by (auto simp: filter_empty_conv)
  then have filt: "filter (reserves a) (kh_trace kh') = filter (reserves a) (kh_trace kh)" by (simp add: es(1))
  have mem: "ModuleBound a p \<in> set (kh_trace kh') \<longleftrightarrow> ModuleBound a p \<in> set (kh_trace kh)"
    "CallbackStarted a m k \<in> set (kh_trace kh') \<longleftrightarrow> CallbackStarted a m k \<in> set (kh_trace kh)" for p m k
    using es(2) by (auto simp: es(1))
  have mono: "ModuleBound r m \<in> set (kh_trace kh) \<Longrightarrow> ModuleBound r m \<in> set (kh_trace kh')" for r m
    by (simp add: es(1))
  have same: "declared_by (cell kh' a) = declared_by (cell kh a)" "cb_used (cell kh' a) = cb_used (cell kh a)"
    "cb_module (cell kh' a) = cb_module (cell kh a)" "cb_running (cell kh' a) = cb_running (cell kh a)"
    "lf_served (kh_lives kh' a) = lf_served (kh_lives kh a)" "lf_registering (kh_lives kh' a) = lf_registering (kh_lives kh a)"
    "running_on a kh' = running_on a kh" "cb_revoked (cell kh' a) \<longrightarrow> \<not> cb_active (cell kh' a)"
    and desc: "\<And>r. descends (kh_lives kh) a r \<Longrightarrow> descends (kh_lives kh') a r"
    using assms unfolding untouched_def declared_by_def cell_fits_def by auto
  show ?thesis
    using assms(1) same(8) mono desc unfolding cell_fits_def filt mem same(1-7) by blast
qed

lemma revoking_untouched:
  assumes "revoking kh kh'"
  shows "untouched kh kh' a"
proof -
  have "cell kh' a = cell kh a \<or> cell kh' a = revoke (cell kh a)" using assms unfolding revoking_def by blast
  moreover have "kh_lives kh' = kh_lives kh" "kh_calls kh' = kh_calls kh" "kh_trace kh' = kh_trace kh"
    using assms unfolding revoking_def by blast+
  ultimately show ?thesis unfolding untouched_def by (auto simp: revoke_def running_on_def)
qed

lemma callback_inv_revoking:
  assumes "callback_inv kh" "revoking kh kh'"
  shows "callback_inv kh'"
proof -
  have same: "kh_next kh' = kh_next kh" "kh_calls kh' = kh_calls kh" "kh_trace kh' = kh_trace kh" "kh_next_call kh' = kh_next_call kh"
    using assms(2) unfolding revoking_def by blast+
  show ?thesis
    using assms(1) forest_revoking [OF _ assms(2)] cell_fits_untouched [OF _ revoking_untouched [OF assms(2)]]
    unfolding callback_inv_def same by blast
qed

lemma callback_invD:
  assumes "callback_inv kh"
  shows "forest_ok kh" "a < kh_next kh \<Longrightarrow> cell_fits kh a" "e \<in> set (kh_trace kh) \<Longrightarrow> event_cell e < kh_next kh"
    "hmap_ok (kh_calls kh)" "k \<in> set (hkeys (kh_calls kh)) \<Longrightarrow> k < kh_next_call kh"
  using assms unfolding callback_inv_def by blast+

text \<open>A step on one capability: the others are untouched, it fits again.\<close>

lemma callback_inv_local:
  assumes i: "callback_inv kh" and f: "forest_ok kh'" and n: "kh_next kh' = kh_next kh"
    and one: "a < kh_next kh \<Longrightarrow> cell_fits kh a \<Longrightarrow> cell_fits kh' a"
    and others: "\<And>b. b \<noteq> a \<Longrightarrow> untouched kh kh' b"
    and tr: "\<And>e. e \<in> set (kh_trace kh') \<Longrightarrow> e \<in> set (kh_trace kh) \<or> event_cell e < kh_next kh"
    and c: "hmap_ok (kh_calls kh')" "\<And>k. k \<in> set (hkeys (kh_calls kh')) \<Longrightarrow> k < kh_next_call kh'"
  shows "callback_inv kh'"
  unfolding callback_inv_def n
proof (intro conjI allI impI ballI)
  fix b
  assume b: "b < kh_next kh"
  show "cell_fits kh' b"
    using one others [of b] callback_invD(2) [OF i b] cell_fits_untouched b by (cases "b = a") auto
qed (use f tr c callback_invD(3) [OF i] in blast)+

section \<open>Steps\<close>

lemma descends_cong:
  assumes "\<And>d. lf_parent (L' d) = lf_parent (L d)"
  shows "descends L' d a = descends L d a"
proof -
  have "descends L2 d a" if "descends L1 d a" "\<And>d. lf_parent (L2 d) = lf_parent (L1 d)" for L1 L2
    using that by (induction rule: descends.induct) (metis descends.intros)+
  then show ?thesis using assms by metis
qed

text \<open>Steps that change one life without moving it in the forest.\<close>

lemma untouched_life:
  assumes "b \<noteq> a" "lf_parent l = lf_parent (kh_lives kh a)"
  shows "untouched kh (set_life a l kh) b"
proof -
  have "descends ((kh_lives kh)(a := l)) x r = descends (kh_lives kh) x r" for x r
    by (rule descends_cong) (simp add: assms(2))
  then show ?thesis using assms(1) by (simp add: untouched_def running_on_def)
qed

lemma serve_start_inv:
  assumes i: "callback_inv kh"
  shows "callback_inv (snd (serve_start a p ifc provided kh))"
proof (cases "fst (serve_start a p ifc provided kh)")
  case (Inl e)
  then have "snd (serve_start a p ifc provided kh) = kh" by (auto simp: serve_start_def Let_def split: if_splits)
  then show ?thesis using i by simp
next
  case (Inr u)
  let ?l = "kh_lives kh a"
  let ?l' = "?l \<lparr> lf_registering := lf_registering ?l @ [(p, ifc)] \<rparr>"
  have kh': "snd (serve_start a p ifc provided kh) = set_life a ?l' kh"
    and new: "(p, ifc) \<notin> set (lf_served ?l)" "(p, ifc) \<notin> set (lf_registering ?l)"
    and found: "find (\<lambda>e. interface_of e = (p, ifc)) (cb_endpoints (cell kh a)) \<noteq> None
        \<or> find (\<lambda>e. interface_of e = (p, ifc)) (cb_stream_endpoints (cell kh a)) \<noteq> None"
    using Inr by (auto simp: serve_start_def guard_interface_def Let_def split: if_splits)
  have decl: "(p, ifc) \<in> set (declared_by (cell kh a))"
    using found unfolding declared_by_def declared_interfaces_set find_None_iff by force
  show ?thesis
    unfolding kh'
  proof (rule callback_inv_local [OF i, of _ a])
    show "forest_ok (set_life a ?l' kh)"
      by (rule forest_same [OF callback_invD(1) [OF i]]) (auto intro: forest [OF callback_invD(1) [OF i]] split: if_splits)
    have desc: "descends ((kh_lives kh)(a := ?l')) x r = descends (kh_lives kh) x r" for x r
      by (rule descends_cong) simp
    show "cell_fits kh a \<Longrightarrow> cell_fits (set_life a ?l' kh) a"
      using new decl by (auto simp: cell_fits_def desc running_on_def)
  qed (use callback_invD [OF i] in \<open>auto intro: untouched_life\<close>)
qed

lemma serve_finish_inv:
  assumes i: "callback_inv kh" and r: "(p, ifc) \<in> set (lf_registering (kh_lives kh a))"
  shows "callback_inv (serve_finish a p ifc outcome kh)"
proof -
  let ?l = "kh_lives kh a"
  obtain l' where kh': "serve_finish a p ifc outcome kh = set_life a l' kh"
    and l': "lf_parent l' = lf_parent ?l" "lf_children l' = lf_children ?l" "lf_alive l' = lf_alive ?l" "lf_bound l' = lf_bound ?l"
      "lf_registering l' = filter (\<lambda>e. e \<noteq> (p, ifc)) (lf_registering ?l)"
      "lf_served l' = lf_served ?l \<or> lf_served l' = lf_served ?l @ [(p, ifc)]"
    by (cases outcome) (auto simp: serve_finish_def Let_def)
  show ?thesis
    unfolding kh'
  proof (rule callback_inv_local [OF i, of _ a])
    show "forest_ok (set_life a l' kh)"
      by (rule forest_same [OF callback_invD(1) [OF i]]) (auto simp: l' intro: forest [OF callback_invD(1) [OF i]] split: if_splits)
    have desc: "descends ((kh_lives kh)(a := l')) x r = descends (kh_lives kh) x r" for x r
      by (rule descends_cong) (simp add: l')
    show "cell_fits kh a \<Longrightarrow> cell_fits (set_life a l' kh) a"
      using r l'(6) by (auto simp: cell_fits_def desc running_on_def l'(5))
  qed (use callback_invD [OF i] in \<open>auto intro: untouched_life simp: l'\<close>)
qed

lemma load_reserve_inv:
  assumes i: "callback_inv kh" and a: "a < kh_next kh"
  shows "callback_inv (snd (load_reserve host a kh))"
proof (cases "binding_error host a kh")
  case (Some e)
  then show ?thesis using i by (simp add: load_reserve_def)
next
  case None
  let ?kh' = "callback_saw (BindingReserved a (lf_served (kh_lives kh a))) (set_callback_cell a ((cell kh a) \<lparr> cb_used := True \<rparr>) kh)"
  have kh': "snd (load_reserve host a kh) = ?kh'" using None by (simp add: load_reserve_def)
  have free: "\<not> cb_used (cell kh a)" and len: "length (lf_served (kh_lives kh a)) = length (declared_by (cell kh a))"
    using None by (auto simp: binding_error_def required_endpoint_count_def declared_by_def split: if_splits)
  show ?thesis
    unfolding kh'
  proof (rule callback_inv_local [OF i, of _ a])
    show "forest_ok ?kh'"
      by (rule forest_same [OF callback_invD(1) [OF i]]) (auto intro: forest [OF callback_invD(1) [OF i]])
    show "cell_fits ?kh' a" if "cell_fits kh a"
    proof -
      have "distinct (lf_served (kh_lives kh a))" "set (lf_served (kh_lives kh a)) \<subseteq> set (declared_by (cell kh a))"
        using that by (auto simp: cell_fits_def)
      then have "set (lf_served (kh_lives kh a)) = set (declared_by (cell kh a))"
        using len by (metis List.finite_set card_subset_eq declared_by_def declared_interfaces_set(1) distinct_card)
      then show ?thesis using that free by (auto simp: cell_fits_def declared_by_def running_on_def)
    qed
    show "untouched kh ?kh' b" if "b \<noteq> a" for b using that by (auto simp: untouched_def running_on_def)
  qed (use callback_invD [OF i] a in auto)
qed

lemma callback_start_inv:
  assumes i: "callback_inv kh" and a: "lf_alive (kh_lives kh a)"
  shows "callback_inv (snd (callback_start a g m ctx kh))"
proof (cases "callback_admitted g m ctx (cell kh a)")
  case False
  then show ?thesis using i by (simp add: callback_start_def)
next
  case True
  note f = callback_invD(1) [OF i]
  obtain n where n: "cb_module (cell kh a) = Some n" "cc_sender ctx = Some n"
    using True by (auto simp: callback_admitted_def Let_def)
  let ?kh' = "callback_saw (CallbackStarted a n m)
      ((set_callback_cell a ((cell kh a) \<lparr> cb_running := Suc (cb_running (cell kh a)) \<rparr>) kh)
        \<lparr> kh_calls := kh_calls kh @ [(kh_next_call kh, a)], kh_next_call := Suc (kh_next_call kh) \<rparr>)"
  have kh': "snd (callback_start a g m ctx kh) = ?kh'" using True n by (simp add: callback_start_def)
  have fresh: "kh_next_call kh \<notin> set (hkeys (kh_calls kh))" using callback_invD(5) [OF i] by blast
  show ?thesis
    unfolding kh'
  proof (rule callback_inv_local [OF i, of _ a])
    show "forest_ok ?kh'"
      by (rule forest_same [OF f]) (auto intro: forest [OF f] a)
    show "cell_fits kh a \<Longrightarrow> cell_fits ?kh' a"
      using n by (cases "cb_used (cell kh a)") (simp_all add: cell_fits_def declared_by_def running_on_def)
    show "untouched kh ?kh' b" if "b \<noteq> a" for b using that by (auto simp: untouched_def running_on_def)
    show "hmap_ok (kh_calls ?kh')" using callback_invD(4) [OF i] fresh by (simp add: hmap_ok_def)
    show "k < kh_next_call ?kh'" if "k \<in> set (hkeys (kh_calls ?kh'))" for k
    proof (cases "k = kh_next_call kh")
      case False
      then have "k \<in> set (hkeys (kh_calls kh))" using that by simp
      then show ?thesis using callback_invD(5) [OF i] by (simp add: less_SucI)
    qed simp
  qed (use callback_invD(3) [OF i] forest(2) [OF f a] in auto)
qed

lemma filter_hdel:
  assumes "hmap_ok xs" "hget xs k = Some a"
  shows "length (filter (\<lambda>(k, b). b = c) (hdel k xs)) = length (filter (\<lambda>(k, b). b = c) xs) - (if c = a then 1 else 0)"
    "c = a \<Longrightarrow> 0 < length (filter (\<lambda>(k, b). b = c) xs)"
proof -
  have "length (filter (\<lambda>(k, b). b = c) (hdel k xs)) + (if c = a then 1 else 0) = length (filter (\<lambda>(k, b). b = c) xs)"
    using assms
  proof (induction xs)
    case (Cons x xs)
    obtain k' b where x: "x = (k', b)" by fastforce
    show ?case
    proof (cases "k' = k")
      case True
      then have "k \<notin> set (hkeys xs)" using Cons.prems(1) by (simp add: hmap_ok_def x)
      then have "hdel k xs = xs" by (simp add: delete_idem)
      then show ?thesis using True Cons.prems(2) by (simp add: x)
    next
      case False
      then show ?thesis using Cons by (auto simp: hmap_ok_def x)
    qed
  qed simp
  then show "length (filter (\<lambda>(k, b). b = c) (hdel k xs)) = length (filter (\<lambda>(k, b). b = c) xs) - (if c = a then 1 else 0)"
    "c = a \<Longrightarrow> 0 < length (filter (\<lambda>(k, b). b = c) xs)" by (auto split: if_splits)
qed

lemma callback_end_inv:
  assumes i: "callback_inv kh"
  shows "callback_inv (callback_end k kh)"
proof (cases "hget (kh_calls kh) k")
  case None
  then show ?thesis using i by (simp add: callback_end_def)
next
  case (Some a)
  note f = callback_invD(1) [OF i] and h = callback_invD(4) [OF i]
  let ?kh' = "(set_callback_cell a ((cell kh a) \<lparr> cb_running := cb_running (cell kh a) - 1 \<rparr>) kh) \<lparr> kh_calls := hdel k (kh_calls kh) \<rparr>"
  have kh': "callback_end k kh = ?kh'" using Some by (simp add: callback_end_def)
  have sub: "set (hdel k (kh_calls kh)) \<subseteq> set (kh_calls kh)" by (auto simp: AList.delete_eq)
  show ?thesis
    unfolding kh'
  proof (rule callback_inv_local [OF i, of _ a])
    show "forest_ok ?kh'"
      by (rule forest_same [OF f]) (use sub in \<open>auto intro: forest [OF f]\<close>)
    show "cell_fits kh a \<Longrightarrow> cell_fits ?kh' a"
      using filter_hdel(1) [OF h Some, of a] by (auto simp: cell_fits_def declared_by_def running_on_def)
    show "untouched kh ?kh' b" if "b \<noteq> a" for b
      using that filter_hdel(1) [OF h Some, of b] by (auto simp: untouched_def running_on_def)
    show "hmap_ok (kh_calls ?kh')" using h by (simp add: hm.ok_del)
    show "k' < kh_next_call ?kh'" if "k' \<in> set (hkeys (kh_calls ?kh'))" for k'
      using that sub callback_invD(5) [OF i, of k'] by auto
  qed (use callback_invD [OF i] in auto)
qed

lemma load_bind_inv:
  assumes i: "callback_inv kh" and a: "a < kh_next kh" "lf_alive (kh_lives kh a)" "cb_used (cell kh a)"
  shows "callback_inv (snd (load_bind a t up peer kh))"
proof (cases "cb_revoked (cell kh a) \<or> cb_module (cell kh a) \<noteq> None")
  case True
  then show ?thesis using i by (simp add: load_bind_def)
next
  case False
  note f = callback_invD(1) [OF i]
  let ?c = "(cell kh a) \<lparr> cb_transport := Some up, cb_module := Some peer, cb_active := True \<rparr>"
  let ?kh1 = "callback_saw (ModuleBound a peer) (set_life a ((kh_lives kh a) \<lparr> lf_transport := Some t \<rparr>) (set_callback_cell a ?c kh))"
  obtain x r where xr: "add_host_callbacks a (kh_router ?kh1) = (x, r)" by (metis surj_pair)
  let ?kh' = "?kh1 \<lparr> kh_router := r \<rparr>"
  have kh': "snd (load_bind a t up peer kh) = ?kh'" using False xr by (simp add: load_bind_def Let_def)
  have r: "rt_cells r = (rt_cells (kh_router kh))(a := ?c)"
    "set (rt_host_callbacks r) \<subseteq> set (rt_host_callbacks (kh_router kh)) \<union> {a}"
    using add_host_callbacks_effect [OF xr] by (auto split: sum.splits)
  have desc: "descends ((kh_lives kh)(a := (kh_lives kh a) \<lparr> lf_transport := Some t \<rparr>)) x r = descends (kh_lives kh) x r" for x r
    by (rule descends_cong) simp
  show ?thesis
    unfolding kh'
  proof (rule callback_inv_local [OF i, of _ a])
    show "forest_ok ?kh'"
      by (rule forest_same [OF f]) (use r(2) in \<open>auto intro: forest [OF f] a(2) split: if_splits\<close>)
    show "cell_fits kh a \<Longrightarrow> cell_fits ?kh' a"
      using False a(3) by (auto simp: cell_fits_def declared_by_def running_on_def r(1) desc)
    show "untouched kh ?kh' b" if "b \<noteq> a" for b
      using that by (auto simp: untouched_def running_on_def r(1) desc)
  qed (use callback_invD [OF i] a in auto)
qed

lemma life_only_inv:
  assumes i: "callback_inv kh" and f: "forest_ok (set_life a l kh)"
    and l: "lf_parent l = lf_parent (kh_lives kh a)" "lf_served l = lf_served (kh_lives kh a)"
      "lf_registering l = lf_registering (kh_lives kh a)"
  shows "callback_inv (set_life a l kh)"
proof (rule callback_inv_local [OF i f, of a])
  have desc: "descends ((kh_lives kh)(a := l)) x r = descends (kh_lives kh) x r" for x r
    by (rule descends_cong) (simp add: l)
  show "cell_fits kh a \<Longrightarrow> cell_fits (set_life a l kh) a"
    by (auto simp: cell_fits_def desc running_on_def l)
qed (use callback_invD [OF i] in \<open>auto intro: untouched_life simp: l\<close>)

lemma binding_drop_inv:
  assumes i: "callback_inv kh"
  shows "callback_inv (binding_drop a kh)"
proof -
  have kh1: "callback_inv (peer_rollback u (binding_revoke a kh))" for u
    using callback_inv_revoking [OF callback_inv_revoking [OF i binding_revoke_revoking] peer_rollback_revoking] .
  show ?thesis
    unfolding binding_drop_def Let_def
    by (rule life_only_inv [OF kh1 forest_same [OF callback_invD(1) [OF kh1]]])
      (auto intro: forest [OF callback_invD(1) [OF kh1]] split: if_splits)
qed

lemma transport_down_inv:
  assumes i: "callback_inv kh"
  shows "callback_inv (transport_down t kh)"
proof -
  have "forest_ok (transport_down t kh)"
    by (rule forest_same [OF callback_invD(1) [OF i]]) (auto simp: transport_down_def intro: forest [OF callback_invD(1) [OF i]])
  moreover have "untouched kh (transport_down t kh) b" for b
    by (auto simp: untouched_def transport_down_def running_on_def)
  ultimately show ?thesis
    using i cell_fits_untouched by (auto simp: callback_inv_def transport_down_def)
qed

lemma callback_inv_fresh:
  assumes i: "callback_inv kh" and f: "forest_ok kh'" and n: "kh_next kh' = Suc (kh_next kh)"
    and same: "kh_trace kh' = kh_trace kh" "kh_calls kh' = kh_calls kh" "kh_next_call kh' = kh_next_call kh"
    and old: "\<And>b. b < kh_next kh \<Longrightarrow> untouched kh kh' b" and new: "cell_fits kh' (kh_next kh)"
  shows "callback_inv kh'"
  unfolding callback_inv_def n same
proof (intro conjI allI impI ballI)
  fix b
  assume "b < Suc (kh_next kh)"
  then show "cell_fits kh' b"
    using new cell_fits_untouched [OF callback_invD(2) [OF i] old] by (cases "b = kh_next kh") (auto simp: less_Suc_eq)
qed (use f callback_invD(3,4,5) [OF i] in \<open>auto intro: less_SucI\<close>)

lemma fresh_quiet:
  assumes i: "callback_inv kh"
  shows "running_on (kh_next kh) kh = 0" "filter (reserves (kh_next kh)) (kh_trace kh) = []"
    "e \<in> set (kh_trace kh) \<Longrightarrow> event_cell e \<noteq> kh_next kh"
proof -
  have "a \<noteq> kh_next kh" if "(k, a) \<in> set (kh_calls kh)" for k a
    using forest(2,8) [OF callback_invD(1) [OF i]] that by blast
  then show "running_on (kh_next kh) kh = 0" by (auto simp: running_on_def filter_empty_conv)
  show *: "e \<in> set (kh_trace kh) \<Longrightarrow> event_cell e \<noteq> kh_next kh" for e using callback_invD(3) [OF i, of e] by auto
  show "filter (reserves (kh_next kh)) (kh_trace kh) = []" using * reserves_cell by (auto simp: filter_empty_conv)
qed

lemma descends_fresh:
  assumes f: "forest_ok kh" and "b < kh_next kh" "\<And>d. d < kh_next kh \<Longrightarrow> lf_parent (L' d) = lf_parent (kh_lives kh d)"
  shows "descends L' b r = descends (kh_lives kh) b r"
  by (rule descends_frame [of "kh_next kh"]) (use assms(2,3) forest(3) [OF f] in blast)+

lemma prepare_finish_inv:
  assumes i: "callback_inv kh"
  shows "callback_inv (snd (prepare_finish d host unique answer kh))"
proof (cases "\<exists>destination. answer = Some (Inr (Some destination))")
  case False
  then have "revoking kh (snd (prepare_finish d host unique answer kh))"
    by (auto simp: prepare_finish_def peer_rollback_revoking split: option.splits sum.splits)
  then show ?thesis using callback_inv_revoking [OF i] by blast
next
  case True
  then obtain destination where ans: "answer = Some (Inr (Some destination))" by blast
  note f = callback_invD(1) [OF i]
  let ?n = "kh_next kh"
  let ?kh' = "(set_life ?n (new_life None None host) (set_callback_cell ?n (prepared_cell d destination) kh)) \<lparr> kh_next := Suc ?n \<rparr>"
  have kh': "snd (prepare_finish d host unique answer kh) = ?kh'" by (simp add: prepare_finish_def ans)
  have desc: "descends ((kh_lives kh)(?n := new_life None None host)) b r = descends (kh_lives kh) b r" if "b < ?n" for b r
    by (rule descends_fresh [OF f that]) simp
  show ?thesis
    unfolding kh'
  proof (rule callback_inv_fresh [OF i])
    show "forest_ok ?kh'"
      by (rule forest_fresh [OF f, of _ None None host]) (use forest(1) [OF f] in auto)
    show "untouched kh ?kh' b" if "b < ?n" for b
      using that by (simp add: untouched_def running_on_def desc)
    show "cell_fits ?kh' ?n"
      using fresh_quiet [OF i] by (fastforce simp: cell_fits_def prepared_cell_def new_life_def running_on_def)
  qed simp_all
qed

lemma child_install_inv:
  assumes i: "callback_inv kh" and a: "lf_alive (kh_lives kh a)"
  shows "callback_inv (snd (child_install a ctx es destination kh))"
proof (cases "fst (child_install a ctx es destination kh)")
  case (Inl e)
  then have "snd (child_install a ctx es destination kh) = kh"
    by (auto simp: child_install_def Let_def split: if_splits prod.splits sum.splits)
  then show ?thesis using i by simp
next
  case (Inr c)
  note f = callback_invD(1) [OF i]
  let ?n = "kh_next kh" and ?c = "child_cell es destination (cell kh a)"
  let ?la = "(kh_lives kh a) \<lparr> lf_children := live_children (kh_lives kh) a @ [kh_next kh] \<rparr>"
  let ?ln = "new_life (Some a) (lf_transport (kh_lives kh a)) (lf_owner (kh_lives kh a))"
  have lt: "a < ?n" using forest(2) [OF f a] .
  have auth: "authorizes ctx (cell kh a)" using Inr by (auto simp: child_install_def split: if_splits)
  obtain x r where xr: "add_host_callbacks ?n (kh_router (set_callback_cell ?n ?c kh)) = (Inr x, r)"
    using Inr by (auto simp: child_install_def Let_def split: if_splits prod.splits sum.splits)
  let ?kh' = "(set_life ?n ?ln (set_life a ?la ((set_callback_cell ?n ?c kh) \<lparr> kh_router := r \<rparr>))) \<lparr> kh_next := Suc ?n \<rparr>"
  have kh': "snd (child_install a ctx es destination kh) = ?kh'"
    using auth xr by (simp add: child_install_def Let_def)
  have r: "rt_cells r = (rt_cells (kh_router kh))(?n := ?c)" "rt_host_callbacks r = rt_host_callbacks (kh_router kh) @ [?n]"
    using add_host_callbacks_effect [OF xr] by auto
  have desc: "descends ((kh_lives kh)(a := ?la, ?n := ?ln)) b q = descends (kh_lives kh) b q" if "b < ?n" for b q
    by (rule descends_fresh [OF f that]) (use lt in auto)
  show ?thesis
    unfolding kh'
  proof (rule callback_inv_fresh [OF i])
    show "forest_ok ?kh'"
      by (rule forest_fresh [OF f, of _ "Some a"]) (use forest(1) [OF f] lt a in \<open>auto simp: r(2)\<close>)
    show "untouched kh ?kh' b" if "b < ?n" for b
      using that by (cases "b = a") (simp_all add: untouched_def running_on_def desc r(1))
    show "cell_fits ?kh' ?n"
    proof -
      obtain m where m: "cb_module (cell kh a) = Some m" using auth by (auto simp: authorizes_def)
      then obtain q where q: "q = a \<or> descends (kh_lives kh) a q" "ModuleBound q m \<in> set (kh_trace kh)"
        using callback_invD(2) [OF i lt] unfolding cell_fits_def by blast
      have "lf_parent (kh_lives ?kh' ?n) = Some a" by (simp add: new_life_def)
      then have "descends (kh_lives ?kh') ?n q"
        using q(1) desc [OF lt, of q] by (auto intro: descends.intros)
      then show ?thesis
        using fresh_quiet [OF i] m q(2) by (fastforce simp: cell_fits_def child_cell_def new_life_def running_on_def r(1))
    qed
  qed simp_all
qed

lemma child_finish_inv:
  assumes "callback_inv kh" "lf_alive (kh_lives kh a)"
  shows "callback_inv (snd (child_finish a ctx es unique answer freed kh))"
proof -
  have "callback_inv kh1 \<Longrightarrow> callback_inv (peer_rollback unique kh1)" for kh1
    by (rule callback_inv_revoking [OF _ peer_rollback_revoking])
  then show ?thesis
    using child_install_inv [OF assms] assms(1)
    by (auto simp: child_finish_def split: option.splits sum.splits prod.splits) (metis snd_conv)+
qed

lemma free_inv:
  assumes i: "callback_inv kh" and u: "unheld a kh"
  shows "callback_inv (set_life a ((kh_lives kh a) \<lparr> lf_alive := False \<rparr>) kh)"
proof (rule life_only_inv [OF i])
  note f = callback_invD(1) [OF i]
  let ?L = "(kh_lives kh)(a := (kh_lives kh a) \<lparr> lf_alive := False \<rparr>)"
  have alive: "lf_alive (?L b) \<longleftrightarrow> b \<noteq> a \<and> lf_alive (kh_lives kh b)" for b by simp
  have same: "lf_parent (?L b) = lf_parent (kh_lives kh b)" "lf_children (?L b) = lf_children (kh_lives kh b)"
    "lf_bound (?L b) = lf_bound (kh_lives kh b)" for b by simp_all
  have free: "\<not> lf_bound (kh_lives kh a)" "a \<notin> set (rt_host_callbacks (kh_router kh))" "(k, a) \<notin> set (kh_calls kh)"
    "lf_alive (kh_lives kh d) \<Longrightarrow> lf_parent (kh_lives kh d) \<noteq> Some a" for k d
    using u forest(2) [OF f] unfolding unheld_def by force+
  show "forest_ok (set_life a ((kh_lives kh a) \<lparr> lf_alive := False \<rparr>) kh)"
    unfolding forest_ok_def life_simps alive same
    using forest [OF f] free by (intro conjI allI impI ballI) blast+
qed simp_all

lemma callback_step_inv:
  assumes i: "callback_inv kh"
  shows "callback_inv (callback_step op kh)"
proof -
  note rev = callback_inv_revoking [OF i]
  have b: "lf_bound (kh_lives kh a) \<Longrightarrow> lf_alive (kh_lives kh a)" for a
    using forest(7) [OF callback_invD(1) [OF i]] .
  have lt: "lf_alive (kh_lives kh a) \<Longrightarrow> a < kh_next kh" for a
    using forest(2) [OF callback_invD(1) [OF i]] .
  show ?thesis
    by (cases op)
      (simp_all add: if_bound_def i rev revoking_router router_step_revoking prepare_start_revoking child_start_revoking
        load_rollback_revoking binding_revoke_revoking wait_drained_revoking prepare_finish_inv child_finish_inv b lt
        serve_start_inv serve_finish_inv callback_start_inv callback_end_inv load_reserve_inv load_bind_inv binding_drop_inv
        transport_down_inv free_inv)
qed

lemma callback_begin_inv: "callback_inv (callback_begin cells)"
  by (simp add: callback_inv_def callback_begin_def forest_ok_def router_default_def new_life_def hmap_ok_def)

lemma callback_run_inv: "callback_inv kh \<Longrightarrow> callback_inv (callback_run ops kh)"
  unfolding callback_run_def by (induction ops arbitrary: kh) (simp_all add: callback_step_inv)

section \<open>Revocation is for good\<close>

definition keeps_revoked :: "callback_host \<Rightarrow> callback_host \<Rightarrow> bool" where
  "keeps_revoked kh kh' \<longleftrightarrow>
     kh_next kh \<le> kh_next kh' \<and>
     (\<forall>d < kh_next kh. (cb_revoked (cell kh d) \<longrightarrow> cb_revoked (cell kh' d)) \<and>
        (lf_alive (kh_lives kh' d) \<longrightarrow> lf_alive (kh_lives kh d)) \<and>
        lf_parent (kh_lives kh' d) = lf_parent (kh_lives kh d) \<and>
        (d \<in> set (rt_host_callbacks (kh_router kh')) \<longrightarrow>
           d \<in> set (rt_host_callbacks (kh_router kh)) \<or> \<not> cb_revoked (cell kh d))) \<and>
     (\<forall>d p. kh_next kh \<le> d \<and> d < kh_next kh' \<and> lf_parent (kh_lives kh' d) = Some p \<longrightarrow>
        p < kh_next kh \<and> lf_alive (kh_lives kh p) \<and> \<not> cb_revoked (cell kh p))"

lemma revoke_revoked [simp]: "cb_revoked (revoke c)" "\<not> cb_active (revoke c)"
  by (simp_all add: revoke_def)

lemma keeps_revoking:
  assumes "revoking kh kh'"
  shows "keeps_revoked kh kh'"
proof -
  have same: "kh_lives kh' = kh_lives kh" "kh_next kh' = kh_next kh"
    and sub: "set (rt_host_callbacks (kh_router kh')) \<subseteq> set (rt_host_callbacks (kh_router kh))"
    and c: "\<And>d. cell kh' d = cell kh d \<or> cell kh' d = revoke (cell kh d)"
    using assms unfolding revoking_def by blast+
  have "cb_revoked (cell kh d) \<Longrightarrow> cb_revoked (cell kh' d)" for d using c [of d] by auto
  then show ?thesis using sub unfolding keeps_revoked_def same by auto
qed

text \<open>A step that makes nothing: it suffices to look at what it does to each capability.\<close>

lemma keeps_local:
  assumes "kh_next kh' = kh_next kh" "\<And>d. cb_revoked (cell kh d) \<Longrightarrow> cb_revoked (cell kh' d)"
    "\<And>d. lf_alive (kh_lives kh' d) \<Longrightarrow> lf_alive (kh_lives kh d)"
    "\<And>d. lf_parent (kh_lives kh' d) = lf_parent (kh_lives kh d)"
    "\<And>d. d \<in> set (rt_host_callbacks (kh_router kh')) \<Longrightarrow> d \<in> set (rt_host_callbacks (kh_router kh)) \<or> \<not> cb_revoked (cell kh d)"
  shows "keeps_revoked kh kh'"
  using assms unfolding keeps_revoked_def by auto

lemma serve_start_keeps: "keeps_revoked kh (snd (serve_start a p ifc provided kh))"
  by (rule keeps_local) (auto simp: serve_start_def Let_def split: if_splits)

lemma serve_finish_keeps: "keeps_revoked kh (serve_finish a p ifc outcome kh)"
  by (rule keeps_local) (auto simp: serve_finish_def Let_def split: sum.splits if_splits)

lemma callback_start_keeps: "keeps_revoked kh (snd (callback_start a g m ctx kh))"
  by (rule keeps_local) (auto simp: callback_start_def split: option.splits if_splits)

lemma callback_end_keeps: "keeps_revoked kh (callback_end k kh)"
  by (rule keeps_local) (auto simp: callback_end_def split: option.splits if_splits)

lemma load_reserve_keeps: "keeps_revoked kh (snd (load_reserve host a kh))"
  by (rule keeps_local) (auto simp: load_reserve_def split: option.splits if_splits)

lemma load_bind_keeps: "keeps_revoked kh (snd (load_bind a t up peer kh))"
  by (rule keeps_local)
    (auto simp: load_bind_def Let_def dest!: add_host_callbacks_effect split: prod.splits sum.splits if_splits)

lemma transport_down_keeps: "keeps_revoked kh (transport_down t kh)"
  by (rule keeps_local) (auto simp: transport_down_def split: if_splits)

lemma life_keeps: "lf_parent l = lf_parent (kh_lives kh a) \<Longrightarrow> (lf_alive l \<Longrightarrow> lf_alive (kh_lives kh a)) \<Longrightarrow>
    keeps_revoked kh (set_life a l kh)"
  by (rule keeps_local) (auto split: if_splits)

lemma free_keeps: "keeps_revoked kh (set_life a ((kh_lives kh a) \<lparr> lf_alive := False \<rparr>) kh)"
  by (rule life_keeps) simp_all

lemma keeps_trans_life:
  "revoking kh kh1 \<Longrightarrow> lf_parent l = lf_parent (kh_lives kh1 a) \<Longrightarrow> (lf_alive l \<Longrightarrow> lf_alive (kh_lives kh1 a)) \<Longrightarrow>
   keeps_revoked kh (set_life a l kh1)"
proof -
  assume r: "revoking kh kh1" and l: "lf_parent l = lf_parent (kh_lives kh1 a)" "lf_alive l \<Longrightarrow> lf_alive (kh_lives kh1 a)"
  have same: "kh_lives kh1 = kh_lives kh" "kh_next kh1 = kh_next kh" using r unfolding revoking_def by blast+
  have "keeps_revoked kh kh1" by (rule keeps_revoking [OF r])
  then show ?thesis using l unfolding keeps_revoked_def by (auto simp: same)
qed

lemma binding_drop_keeps: "keeps_revoked kh (binding_drop a kh)"
  unfolding binding_drop_def Let_def
  by (rule keeps_trans_life [OF revoking_trans [OF binding_revoke_revoking peer_rollback_revoking]]) simp_all

lemma fresh_not_routed:
  assumes "callback_inv kh"
  shows "kh_next kh \<notin> set (rt_host_callbacks (kh_router kh))"
  using forest(1,2) [OF callback_invD(1) [OF assms]] by blast

lemma prepare_finish_keeps: "keeps_revoked kh (snd (prepare_finish d host unique answer kh))"
proof (cases "\<exists>destination. answer = Some (Inr (Some destination))")
  case False
  then have "revoking kh (snd (prepare_finish d host unique answer kh))"
    by (auto simp: prepare_finish_def peer_rollback_revoking split: option.splits sum.splits)
  then show ?thesis by (rule keeps_revoking)
next
  case True
  then show ?thesis by (auto simp: prepare_finish_def keeps_revoked_def new_life_def)
qed

lemma child_install_keeps:
  assumes i: "callback_inv kh" and a: "lf_alive (kh_lives kh a)"
  shows "keeps_revoked kh (snd (child_install a ctx es destination kh))"
proof (cases "fst (child_install a ctx es destination kh)")
  case (Inl e)
  then have "snd (child_install a ctx es destination kh) = kh"
    by (auto simp: child_install_def Let_def split: if_splits prod.splits sum.splits)
  then show ?thesis by (simp add: keeps_revoking)
next
  case (Inr c)
  note f = callback_invD(1) [OF i]
  have lt: "a < kh_next kh" using forest(2) [OF f a] .
  have auth: "cb_active (cell kh a)" using Inr by (auto simp: child_install_def authorizes_def split: if_splits)
  then have "\<not> cb_revoked (cell kh a)" using callback_invD(2) [OF i lt] by (auto simp: cell_fits_def)
  then show ?thesis
    using Inr lt a
    by (auto simp: child_install_def Let_def keeps_revoked_def new_life_def dest!: add_host_callbacks_effect
        split: if_splits prod.splits sum.splits)
qed

lemma keeps_then_revoking:
  assumes "keeps_revoked kh kh1" "revoking kh1 kh2"
  shows "keeps_revoked kh kh2"
proof -
  have same: "kh_lives kh2 = kh_lives kh1" "kh_next kh2 = kh_next kh1"
    and sub: "set (rt_host_callbacks (kh_router kh2)) \<subseteq> set (rt_host_callbacks (kh_router kh1))"
    and c: "\<And>d. cell kh2 d = cell kh1 d \<or> cell kh2 d = revoke (cell kh1 d)"
    using assms(2) unfolding revoking_def by blast+
  have "cb_revoked (cell kh1 d) \<Longrightarrow> cb_revoked (cell kh2 d)" for d using c [of d] by auto
  then show ?thesis using assms(1) sub unfolding keeps_revoked_def same by blast
qed

lemma child_finish_keeps:
  assumes "callback_inv kh" "lf_alive (kh_lives kh a)"
  shows "keeps_revoked kh (snd (child_finish a ctx es unique answer freed kh))"
proof -
  have "keeps_revoked kh (peer_rollback unique kh)" by (rule keeps_revoking [OF peer_rollback_revoking])
  moreover have "keeps_revoked kh (snd (child_install a ctx es destination kh))" for destination
    by (rule child_install_keeps [OF assms])
  moreover have "keeps_revoked kh (peer_rollback unique (snd (child_install a ctx es destination kh)))" for destination
    by (rule keeps_then_revoking [OF child_install_keeps [OF assms] peer_rollback_revoking])
  ultimately show ?thesis
    by (auto simp: child_finish_def split: option.splits sum.splits prod.splits) (metis snd_conv)+
qed

lemma callback_step_keeps:
  assumes i: "callback_inv kh"
  shows "keeps_revoked kh (callback_step op kh)"
proof -
  have b: "lf_bound (kh_lives kh a) \<Longrightarrow> lf_alive (kh_lives kh a)" for a
    using forest(7) [OF callback_invD(1) [OF i]] .
  show ?thesis
    by (cases op)
      (simp_all add: if_bound_def keeps_revoking revoking_router router_step_revoking prepare_start_revoking child_start_revoking
        load_rollback_revoking binding_revoke_revoking wait_drained_revoking prepare_finish_keeps child_finish_keeps [OF i] b
        serve_start_keeps serve_finish_keeps callback_start_keeps callback_end_keeps load_reserve_keeps load_bind_keeps
        binding_drop_keeps transport_down_keeps free_keeps)
qed

definition swept :: "nat \<Rightarrow> callback_host \<Rightarrow> bool" where
  "swept a kh \<longleftrightarrow>
     a < kh_next kh \<and>
     (\<forall>d < kh_next kh. (d = a \<or> descends (kh_lives kh) d a) \<and> lf_alive (kh_lives kh d) \<longrightarrow>
        cb_revoked (cell kh d) \<and> d \<notin> set (rt_host_callbacks (kh_router kh)))"

lemma swept_keeps:
  assumes s: "swept a kh" and k: "keeps_revoked kh kh'" and f: "forest_ok kh"
  shows "swept a kh'"
  unfolding swept_def
proof (intro conjI allI impI)
  show "a < kh_next kh'" using s k by (auto simp: swept_def keeps_revoked_def)
  have par: "lf_parent (kh_lives kh' d) = lf_parent (kh_lives kh d)" if "d < kh_next kh" for d
    using k that unfolding keeps_revoked_def by blast
  have desc: "descends (kh_lives kh') d a = descends (kh_lives kh) d a" if "d < kh_next kh" for d
    by (rule descends_frame [OF par forest(3) [OF f] that])
  fix d
  assume d: "d < kh_next kh'" "(d = a \<or> descends (kh_lives kh') d a) \<and> lf_alive (kh_lives kh' d)"
  have old: "d < kh_next kh"
  proof (rule ccontr)
    assume n: "\<not> d < kh_next kh"
    then have "d \<noteq> a" using s by (auto simp: swept_def)
    then have "descends (kh_lives kh') d a" using d(2) by blast
    then obtain p where p: "lf_parent (kh_lives kh' d) = Some p" "p = a \<or> descends (kh_lives kh') p a"
      by (cases rule: descends.cases) auto
    then have q: "p < kh_next kh" "lf_alive (kh_lives kh p)" "\<not> cb_revoked (cell kh p)"
      using k d(1) n unfolding keeps_revoked_def by (meson not_le)+
    then show False using p(2) desc s unfolding swept_def by blast
  qed
  then have "cb_revoked (cell kh d)" "d \<notin> set (rt_host_callbacks (kh_router kh))"
    using d(2) desc [OF old] s k unfolding swept_def keeps_revoked_def by blast+
  then show "cb_revoked (cell kh' d)" "d \<notin> set (rt_host_callbacks (kh_router kh'))"
    using k old unfolding keeps_revoked_def by blast+
qed

lemma swept_run: "swept a kh \<Longrightarrow> callback_inv kh \<Longrightarrow> swept a (callback_run ops kh)"
  unfolding callback_run_def
proof (induction ops arbitrary: kh)
  case (Cons op ops)
  then show ?case
    using swept_keeps [OF Cons.prems(1) callback_step_keeps callback_invD(1)] callback_step_inv by simp
qed simp

section \<open>Claims\<close>

lemma binding_revoke_sweeps:
  assumes i: "callback_inv kh" and a: "lf_alive (kh_lives kh a)"
  shows "swept a (binding_revoke a kh)"
proof -
  note f = callback_invD(1) [OF i]
  have lt: "a < kh_next kh" using forest(2) [OF f a] .
  have fold: "rt_cells (fold revoke_host_callbacks ds r) d = (if d \<in> set ds then revoke (rt_cells r d) else rt_cells r d)"
    "d \<in> set (rt_host_callbacks (fold revoke_host_callbacks ds r)) \<longleftrightarrow> d \<in> set (rt_host_callbacks r) \<and> d \<notin> set ds" for ds r d
    by (induction ds arbitrary: r) (auto simp: revoke_host_callbacks_def)
  have "cb_revoked (cell (binding_revoke a kh) d) \<and> d \<notin> set (rt_host_callbacks (kh_router (binding_revoke a kh)))"
    if "d = a \<or> descends (kh_lives kh) d a" "lf_alive (kh_lives kh d)" for d
    using that live_descendants_all [OF f lt, of d]
    by (auto simp: binding_revoke_def fold) (auto simp: revoke_host_callbacks_def)
  then show ?thesis using lt by (simp add: swept_def binding_revoke_def)
qed

text \<open>The operations that revoke a binding: \<open>revoke\<close> (and \<open>close\<close>), its drop and the rollback of a load.\<close>

fun ends_binding :: "nat \<Rightarrow> callback_op \<Rightarrow> bool" where
  "ends_binding a (KRevoke b) = (b = a)"
| "ends_binding a (KDrop b) = (b = a)"
| "ends_binding a (KRollback b _) = (b = a)"
| "ends_binding a _ = False"

lemma swept_revoking: "swept a kh \<Longrightarrow> revoking kh kh' \<Longrightarrow> forest_ok kh \<Longrightarrow> swept a kh'"
  using swept_keeps keeps_revoking by blast

lemma ends_binding_sweeps:
  assumes i: "callback_inv kh" and b: "lf_bound (kh_lives kh a)" and e: "ends_binding a op"
  shows "swept a (callback_step op kh)"
proof -
  have s: "swept a (binding_revoke a kh)"
    by (rule binding_revoke_sweeps [OF i forest(7) [OF callback_invD(1) [OF i] b]])
  have r: "callback_inv (binding_revoke a kh)" by (rule callback_inv_revoking [OF i binding_revoke_revoking])
  have p: "swept a (peer_rollback u (binding_revoke a kh))" "callback_inv (peer_rollback u (binding_revoke a kh))" for u
    using swept_revoking [OF s peer_rollback_revoking callback_invD(1) [OF r]] callback_inv_revoking [OF r peer_rollback_revoking] by blast+
  show ?thesis
  proof (cases op)
    case (KDrop c)
    have "swept a (set_life a ((kh_lives (peer_rollback u (binding_revoke a kh)) a) \<lparr> lf_bound := False \<rparr>)
        (peer_rollback u (binding_revoke a kh)))" for u
      by (rule swept_keeps [OF p(1) life_keeps callback_invD(1) [OF p(2)]]) simp_all
    then show ?thesis using e b KDrop by (simp add: if_bound_def binding_drop_def Let_def)
  next
    case (KRollback c listed)
    have "swept a (peer_rollback v (peer_rollback u (binding_revoke a kh)))" for u v
      using swept_revoking [OF p(1) peer_rollback_revoking callback_invD(1) [OF p(2)]] .
    then show ?thesis using e b p(1) KRollback by (auto simp: if_bound_def load_rollback_def Let_def split: option.splits)
  qed (use e b s in \<open>auto simp: if_bound_def\<close>)
qed


text \<open>C31. Every callback that ever started was sent by the one module its root binding was loaded with; a
binding is reserved for a load at most once, and only when every declared interface was served.\<close>

theorem callbacks_come_from_the_bound_module:
  assumes "kh = callback_run ops (callback_begin cells)"
  shows "(\<forall>d m k. CallbackStarted d m k \<in> set (kh_trace kh) \<longrightarrow>
      (\<exists>r sv. (r = d \<or> descends (kh_lives kh) d r) \<and> ModuleBound r m \<in> set (kh_trace kh) \<and>
         BindingReserved r sv \<in> set (kh_trace kh) \<and> set sv = set (declared_by (cell kh r))))
    \<and> (\<forall>r m m'. ModuleBound r m \<in> set (kh_trace kh) \<and> ModuleBound r m' \<in> set (kh_trace kh) \<longrightarrow> m = m')
    \<and> (\<forall>r. length (filter (reserves r) (kh_trace kh)) \<le> 1)"
proof -
  have i: "callback_inv kh" unfolding assms by (rule callback_run_inv [OF callback_begin_inv])
  have fits: "cell_fits kh (event_cell e)" if "e \<in> set (kh_trace kh)" for e
    using callback_invD(2,3) [OF i] that by blast
  have bound: "\<exists>sv. BindingReserved r sv \<in> set (kh_trace kh) \<and> set sv = set (declared_by (cell kh r))"
    if "ModuleBound r m \<in> set (kh_trace kh)" for r m
  proof -
    have fr: "cell_fits kh r" using fits [OF that] by simp
    have "cb_used (cell kh r)" using fr that by (auto simp: cell_fits_def)
    then obtain sv where sv: "filter (reserves r) (kh_trace kh) = [BindingReserved r sv]" "set sv = set (declared_by (cell kh r))"
      using fr unfolding cell_fits_def by auto
    have "BindingReserved r sv \<in> set (filter (reserves r) (kh_trace kh))" by (simp add: sv(1))
    then show ?thesis using sv(2) by auto
  qed
  have started: "\<exists>r. (r = d \<or> descends (kh_lives kh) d r) \<and> ModuleBound r m \<in> set (kh_trace kh)"
    if "CallbackStarted d m k \<in> set (kh_trace kh)" for d m k
    using fits [OF that] that unfolding cell_fits_def by auto
  have once: "length (filter (reserves r) (kh_trace kh)) \<le> 1" for r
  proof (cases "filter (reserves r) (kh_trace kh) = []")
    case False
    then obtain e where e: "e \<in> set (kh_trace kh)" "reserves r e" by (auto simp: filter_empty_conv)
    then show ?thesis
      using fits [OF e(1)] reserves_cell [OF e(2)] by (cases "cb_used (cell kh r)") (auto simp: cell_fits_def)
  qed simp
  show ?thesis
  proof (intro conjI allI impI)
    fix r m m'
    assume "ModuleBound r m \<in> set (kh_trace kh) \<and> ModuleBound r m' \<in> set (kh_trace kh)"
    then have "cell_fits kh r" "ModuleBound r m \<in> set (kh_trace kh)" "ModuleBound r m' \<in> set (kh_trace kh)"
      using fits [of "ModuleBound r m"] by simp_all
    then have "cb_module (cell kh r) = Some m" "cb_module (cell kh r) = Some m'" unfolding cell_fits_def by blast+
    then show "m = m'" by simp
  next
    fix d m k
    assume "CallbackStarted d m k \<in> set (kh_trace kh)"
    then obtain r where r: "r = d \<or> descends (kh_lives kh) d r" "ModuleBound r m \<in> set (kh_trace kh)" using started by blast
    then show "\<exists>r sv. (r = d \<or> descends (kh_lives kh) d r) \<and> ModuleBound r m \<in> set (kh_trace kh) \<and>
         BindingReserved r sv \<in> set (kh_trace kh) \<and> set sv = set (declared_by (cell kh r))"
      using bound [OF r(2)] by blast
  next
    show "length (filter (reserves r) (kh_trace kh)) \<le> 1" for r by (rule once)
  qed
qed

text \<open>The count a guard reports is the number of callbacks whose user future still exists, so \<open>drained\<close>
returns exactly when none is left.\<close>

theorem running_callbacks_are_counted:
  assumes "kh = callback_run ops (callback_begin cells)" "d < kh_next kh"
  shows "cb_running (cell kh d) = length (filter (\<lambda>(k, b). b = d) (kh_calls kh))
    \<and> (drained d kh \<longleftrightarrow> d \<notin> snd ` set (kh_calls kh))"
proof -
  have "callback_inv kh" unfolding assms(1) by (rule callback_run_inv [OF callback_begin_inv])
  then have "cell_fits kh d" using callback_invD(2) assms(2) by blast
  then have c: "cb_running (cell kh d) = length (filter (\<lambda>(k, b). b = d) (kh_calls kh))"
    by (simp add: cell_fits_def running_on_def)
  then show ?thesis by (force simp: drained_def filter_empty_conv image_iff)
qed

section \<open>A concrete run\<close>

definition sample_endpoint :: callback_endpoint where
  "sample_endpoint = \<lparr> ep_path = path_root, ep_interface = InterfaceName ''a.b'', ep_members = [MemberName ''Do''] \<rparr>"

definition module_context :: call_context where
  "module_context = \<lparr> cc_sender = Some (unique_name 2), cc_confidential = True, cc_origin = None \<rparr>"

text \<open>A binding is prepared, served and loaded, and its module calls back.\<close>

definition loaded_ops :: "callback_op list" where
  "loaded_ops =
     [KPrepared \<lparr> cd_endpoints = [sample_endpoint], cd_signals = [], cd_streams = [] \<rparr> 0 (unique_name 1)
        (Some (Inr (Some (unique_name 1)))),
      KServe 0 path_root (InterfaceName ''a.b'') [MemberName ''Do''], KServed 0 path_root (InterfaceName ''a.b'') (Inr ()),
      KReserve 0 0, KBind 0 7 True (unique_name 2),
      KCall 0 path_root (InterfaceName ''a.b'') (MemberName ''Do'') module_context]"

definition no_cells :: "nat \<Rightarrow> callback_state" where
  "no_cells _ = prepared_cell \<lparr> cd_endpoints = [], cd_signals = [], cd_streams = [] \<rparr> BUS_NAME"

lemmas loaded_simps = loaded_ops_def callback_run_def callback_begin_def prepare_finish_def new_life_def prepared_cell_def
  if_bound_def serve_start_def guard_interface_def interface_of_def sample_endpoint_def guarded_members_def members_of_def
  serve_finish_def Let_def load_reserve_def binding_error_def required_endpoint_count_def declared_interfaces_def load_bind_def
  add_host_callbacks_def router_default_def attestation_of_def callback_start_def callback_admitted_def module_context_def
  module_live_def set_life_def set_callback_cell_def callback_saw_def

lemma loaded_run:
  "\<exists>kh. callback_run loaded_ops (callback_begin no_cells) = kh \<and> kh_next kh = 1 \<and> kh_calls kh = [(0, 0)] \<and>
     CallbackStarted 0 (unique_name 2) (MemberName ''Do'') \<in> set (kh_trace kh) \<and> lf_bound (kh_lives kh 0) \<and> lf_alive (kh_lives kh 0)"
  by (simp add: loaded_simps)


lemma callbacks_come_from_the_bound_module_witness:
  "\<exists>r sv. ModuleBound r (unique_name 2) \<in> set (kh_trace (callback_run loaded_ops (callback_begin no_cells)))
     \<and> BindingReserved r sv \<in> set (kh_trace (callback_run loaded_ops (callback_begin no_cells)))"
proof -
  obtain kh where kh: "callback_run loaded_ops (callback_begin no_cells) = kh"
      "CallbackStarted 0 (unique_name 2) (MemberName ''Do'') \<in> set (kh_trace kh)"
    using loaded_run by blast
  then show ?thesis
    using callbacks_come_from_the_bound_module [OF kh(1) [symmetric]] unfolding kh(1) by blast
qed

lemma running_callbacks_are_counted_witness:
  "cb_running (cell (callback_run loaded_ops (callback_begin no_cells)) 0) = 1"
proof -
  obtain kh where kh: "callback_run loaded_ops (callback_begin no_cells) = kh" "kh_next kh = 1" "kh_calls kh = [(0, 0)]"
    using loaded_run by blast
  then show ?thesis using running_callbacks_are_counted [OF kh(1) [symmetric], of 0] by simp
qed

end
