(* ===== verification/Results.thy ===== *)
theory Results
  imports Errors
begin

text \<open>
  The question mark of Rust on results: \<open>on_ok\<close> passes an error on, \<open>fail_if\<close> returns one early, and
  \<open>ok_or\<close> turns a missing value into one. Their inversion rules take a successful run apart.
\<close>

definition on_ok :: "'a result \<Rightarrow> ('a \<Rightarrow> 'b result) \<Rightarrow> 'b result" where
  "on_ok r f = (case r of Inl e \<Rightarrow> Inl e | Inr x \<Rightarrow> f x)"

definition fail_if :: "bool \<Rightarrow> error \<Rightarrow> 'a result \<Rightarrow> 'a result" where
  "fail_if b e r = (if b then Inl e else r)"

definition ok_or :: "'a option \<Rightarrow> error \<Rightarrow> 'a result" where
  "ok_or x e = (case x of None \<Rightarrow> Inl e | Some y \<Rightarrow> Inr y)"

lemma on_ok_simps [simp]: "on_ok (Inl e) f = Inl e" "on_ok (Inr x) f = f x"
  by (simp_all add: on_ok_def)

lemma on_ok_Inr: "on_ok r f = Inr y \<longleftrightarrow> (\<exists>x. r = Inr x \<and> f x = Inr y)"
  by (cases r) simp_all

lemma on_ok_Inl: "on_ok r f = Inl e \<longleftrightarrow> r = Inl e \<or> (\<exists>x. r = Inr x \<and> f x = Inl e)"
  by (cases r) auto

lemma fail_if_simps [simp]: "fail_if True e r = Inl e" "fail_if False e r = r"
  by (simp_all add: fail_if_def)

lemma fail_if_Inr: "fail_if b e r = Inr y \<longleftrightarrow> \<not> b \<and> r = Inr y"
  by (simp add: fail_if_def)

lemma fail_if_Inl: "fail_if b e r = Inl e' \<longleftrightarrow> b \<and> e = e' \<or> \<not> b \<and> r = Inl e'"
  by (simp add: fail_if_def)

lemma ok_or_simps [simp]: "ok_or None e = Inl e" "ok_or (Some x) e = Inr x"
  by (simp_all add: ok_or_def)

lemma ok_or_Inr: "ok_or x e = Inr y \<longleftrightarrow> x = Some y"
  by (cases x) simp_all

lemma ok_or_Inl: "ok_or x e = Inl e' \<longleftrightarrow> x = None \<and> e = e'"
  by (cases x) simp_all

lemma on_ok_cong [fundef_cong]:
  "r = r' \<Longrightarrow> (\<And>x. r' = Inr x \<Longrightarrow> f x = g x) \<Longrightarrow> on_ok r f = on_ok r' g"
  by (cases r') simp_all

lemmas succeeds = on_ok_Inr fail_if_Inr ok_or_Inr

lemmas fails = on_ok_Inl fail_if_Inl ok_or_Inl

end
