(* ===== verification/ZipPaths.thy ===== *)
theory ZipPaths
  imports Results
begin

text \<open>
  The path rules of bounded archive extraction (\<open>module/zip_extract.rs\<close>): which archive paths are
  accepted, and the trie that refuses paths which could name the same file on some file system.

  Unicode normalization and case folding, and the normal form of the archive library, are parameters.
  Texts are bytes. The components of an accepted path are its parts.
\<close>

definition zip_refused :: "string \<Rightarrow> error" where
  "zip_refused reason = module_refused ''github-release'' reason"

definition checked_add :: "nat \<Rightarrow> nat \<Rightarrow> nat option" where
  "checked_add a b = (if a + b < 2 ^ 64 then Some (a + b) else None)"

definition MAX_NAME_BYTES :: nat where "MAX_NAME_BYTES = 4096"

definition MAX_PATH_KEY_COMPONENT_BYTES :: nat where "MAX_PATH_KEY_COMPONENT_BYTES = MAX_NAME_BYTES * 16"

section \<open>Paths\<close>

text \<open>\<open>char::is_control\<close> on UTF-8: U+0000 to U+001F, U+007F, and U+0080 to U+009F in two bytes.\<close>

definition control_start :: "char \<Rightarrow> string \<Rightarrow> bool" where
  "control_start c cs \<longleftrightarrow>
     of_char c < (32::nat) \<or> of_char c = (127::nat)
     \<or> of_char c = (194::nat) \<and> (case cs of [] \<Rightarrow> False | d # _ \<Rightarrow> of_char d < (160::nat))"

primrec has_control :: "string \<Rightarrow> bool" where
  "has_control [] = False"
| "has_control (c # cs) = (control_start c cs \<or> has_control cs)"

lemma has_control_inside: "has_control ys \<Longrightarrow> has_control (xs @ ys @ zs)"
proof -
  assume "has_control ys"
  moreover have "control_start c cs \<Longrightarrow> control_start c (cs @ zs)" for c cs
    unfolding control_start_def by (cases cs) (simp, blast, simp)
  ultimately have "has_control (ys @ zs)" by (induction ys) auto
  then show ?thesis by (induction xs) auto
qed

definition ascii_upper :: "char \<Rightarrow> char" where
  "ascii_upper c = (if CHR ''a'' \<le> c \<and> c \<le> CHR ''z'' then char_of (of_char c - (32::nat)) else c)"

definition device_digits :: "string list" where
  "device_digits = [''1'', ''2'', ''3'', ''4'', ''5'', ''6'', ''7'', ''8'', ''9'',
     [CHR 0xC2, CHR 0xB9], [CHR 0xC2, CHR 0xB2], [CHR 0xC2, CHR 0xB3]]"

definition is_windows_device_name :: "string \<Rightarrow> bool" where
  "is_windows_device_name component \<longleftrightarrow>
     (let stem = rev (dropWhile (\<lambda>c. c \<in> set ''. '') (rev (hd (split_on CHR ''.'' component))));
          upper = map ascii_upper stem in
      upper \<in> set [''CON'', ''PRN'', ''AUX'', ''NUL''] \<or>
      list_ex (\<lambda>p. case strip_prefix upper p of Some number \<Rightarrow> number \<in> set device_digits | None \<Rightarrow> False) [''COM'', ''LPT''])"

definition normal_component :: "string \<Rightarrow> bool" where
  "normal_component p \<longleftrightarrow> p \<noteq> [] \<and> p \<noteq> ''.'' \<and> p \<noteq> ''..''"

definition bad_text :: "string \<Rightarrow> bool" where
  "bad_text s \<longleftrightarrow>
     s = [] \<or> length s > MAX_NAME_BYTES \<or> CHR 0x00 \<in> set s \<or> starts_with s ''/'' \<or> CHR 0x5C \<in> set s \<or> CHR '':'' \<in> set s
     \<or> has_control s \<or> list_ex (\<lambda>c. c \<in> set (''<>|?*'' @ [CHR 0x22])) s"

definition unsafe_path :: error where
  "unsafe_path = zip_refused ''release archive contains an unsafe path''"

definition bad_part :: "string \<Rightarrow> bool" where
  "bad_part p \<longleftrightarrow> p = [] \<or> last p = CHR ''.'' \<or> last p = CHR '' '' \<or> is_windows_device_name p"

text \<open>\<open>checked_path\<close>: the parts, whether it is a directory, and the number of parts.\<close>

definition checked_path :: "(string \<Rightarrow> string option) \<Rightarrow> string \<Rightarrow> nat \<Rightarrow> (string list \<times> bool \<times> nat) result" where
  "checked_path norm_path original max_depth =
     (if bad_text original then Inl unsafe_path
      else
        (let is_dir = last original = CHR ''/'';
             body = (if is_dir then butlast original else original);
             parts = split_on CHR ''/'' body in
         if list_ex (\<lambda>p. p = ''..'') parts then Inl unsafe_path
         else if length parts > max_depth then Inl (zip_refused ''release archive path exceeds the depth limit'')
         else (case norm_path original of
             None \<Rightarrow> Inl unsafe_path
           | Some normalized \<Rightarrow>
               if normalized \<noteq> original then Inl unsafe_path
               else if list_ex (\<lambda>p. p = [] \<or> p = ''.'' \<or> p = ''..'') parts then Inl unsafe_path
               else if list_ex bad_part parts then Inl unsafe_path
               else if list_ex (\<lambda>p. \<not> normal_component p) parts then Inl unsafe_path
               else Inr (parts, is_dir, length parts))))"

section \<open>The path trie\<close>

text \<open>\<open>PathNode\<close>: the children by key, each with the spelling it came with, and the entry itself.\<close>

datatype path_node = PathNode (node_children: "(string \<times> (string \<times> path_node)) list") (explicit_entry: "bool option")

definition empty_node :: path_node where
  "empty_node = PathNode [] None"

definition collision_key_component :: "(string \<Rightarrow> string) \<Rightarrow> (string \<Rightarrow> string) \<Rightarrow> string \<Rightarrow> string result" where
  "collision_key_component nfc fold_case component =
     (let key = nfc (fold_case (nfc component)) in
      if key = [] \<or> length key > MAX_PATH_KEY_COMPONENT_BYTES then Inl (zip_refused ''release archive path key exceeds its limit'')
      else Inr key)"

definition metadata_error :: error where
  "metadata_error = zip_refused ''release archive path metadata exceeds its limit''"

text \<open>\<open>PathNode::insert\<close> over the components that are left: whether the path was accepted, and the
metadata spent.\<close>

fun node_insert :: "(string \<Rightarrow> string result) \<Rightarrow> nat \<Rightarrow> string list \<Rightarrow> bool \<Rightarrow> nat \<Rightarrow> path_node \<Rightarrow>
    (bool \<times> nat \<times> path_node) result" where
  "node_insert key limit [] is_dir spent (PathNode children entry) =
     (if entry \<noteq> None \<or> \<not> is_dir \<and> children \<noteq> [] then Inr (False, spent, PathNode children entry)
      else Inr (True, spent, PathNode children (Some is_dir)))"
| "node_insert key limit (c # cs) is_dir spent (PathNode children entry) =
     (if entry = Some False then Inr (False, spent, PathNode children entry)
      else if \<not> normal_component c then Inr (False, spent, PathNode children entry)
      else (case key c of
          Inl e \<Rightarrow> Inl e
        | Inr folded \<Rightarrow>
            (case checked_add spent (length folded) of
               None \<Rightarrow> Inl metadata_error
             | Some spent' \<Rightarrow>
                 if spent' > limit then Inl metadata_error
                 else (case (case hget children folded of Some child \<Rightarrow> child | None \<Rightarrow> (c, empty_node)) of
                     (spelling, node) \<Rightarrow>
                       if spelling \<noteq> c then Inr (False, spent', PathNode children entry)
                       else (case node_insert key limit cs is_dir spent' node of
                           Inl e \<Rightarrow> Inl e
                         | Inr (b, spent'', node') \<Rightarrow>
                             Inr (b, spent'', PathNode (hput folded (spelling, node') children) entry))))))"

text \<open>All the paths of an archive, one after the other.\<close>

fun insert_all :: "(string \<Rightarrow> string result) \<Rightarrow> nat \<Rightarrow> (string list \<times> bool) list \<Rightarrow> nat \<Rightarrow> path_node \<Rightarrow>
    (bool \<times> nat \<times> path_node) result" where
  "insert_all key limit [] spent node = Inr (True, spent, node)"
| "insert_all key limit ((p, d) # ps) spent node =
     (case node_insert key limit p d spent node of
        Inl e \<Rightarrow> Inl e
      | Inr (False, spent', node') \<Rightarrow> Inr (False, spent', node')
      | Inr (True, spent', node') \<Rightarrow> insert_all key limit ps spent' node')"

section \<open>What the trie stands for\<close>

text \<open>Two entries conflict when some file system that may identify names with the same key could not hold
both: the same path, a file where the other needs a directory, or one directory under two spellings.\<close>

fun paths_conflict :: "(string \<Rightarrow> string result) \<Rightarrow> string list \<times> bool \<Rightarrow> string list \<times> bool \<Rightarrow> bool" where
  "paths_conflict key ([], d) ([], d') = True"
| "paths_conflict key ([], d) (c # q, d') = (\<not> d)"
| "paths_conflict key (c # p, d) ([], d') = (\<not> d')"
| "paths_conflict key (c # p, d) (c' # q, d') =
     (key c = key c' \<and> (c \<noteq> c' \<or> paths_conflict key (p, d) (q, d')))"

text \<open>The entry the trie holds at a path.\<close>

fun entry_at :: "(string \<Rightarrow> string result) \<Rightarrow> path_node \<Rightarrow> string list \<Rightarrow> bool option" where
  "entry_at key node [] = explicit_entry node"
| "entry_at key node (c # p) =
     (case key c of
        Inl _ \<Rightarrow> None
      | Inr k \<Rightarrow>
          (case hget (node_children node) k of
             Some (spelling, n) \<Rightarrow> if spelling = c then entry_at key n p else None
           | None \<Rightarrow> None))"

inductive node_ok :: "(string \<Rightarrow> string result) \<Rightarrow> path_node \<Rightarrow> bool" for key where
  node: "hmap_ok children \<Longrightarrow> (entry = Some False \<Longrightarrow> children = []) \<Longrightarrow>
     (\<And>k spelling n. hget children k = Some (spelling, n) \<Longrightarrow>
        key spelling = Inr k \<and> normal_component spelling \<and> node_ok key n \<and> (\<exists>p d. entry_at key n p = Some d)) \<Longrightarrow>
     node_ok key (PathNode children entry)"

inductive_cases node_okE: "node_ok key (PathNode children entry)"

lemma node_okD:
  assumes "node_ok key (PathNode children entry)"
  shows "hmap_ok children" "entry = Some False \<Longrightarrow> children = []"
    "hget children k = Some (spelling, n) \<Longrightarrow> key spelling = Inr k" "hget children k = Some (spelling, n) \<Longrightarrow> normal_component spelling"
    "hget children k = Some (spelling, n) \<Longrightarrow> node_ok key n" "hget children k = Some (spelling, n) \<Longrightarrow> \<exists>p d. entry_at key n p = Some d"
  using assms by (auto elim!: node_okE)

definition entries_of :: "(string \<Rightarrow> string result) \<Rightarrow> path_node \<Rightarrow> (string list \<times> bool) set" where
  "entries_of key node = {(p, d). entry_at key node p = Some d}"

lemma empty_node_ok [simp]: "node_ok key empty_node"
  unfolding empty_node_def by (rule node_ok.node) simp_all

lemma empty_node_entries [simp]: "entries_of key empty_node = {}"
proof -
  have "entry_at key empty_node p = None" for p
    by (cases p) (auto simp: empty_node_def split: sum.splits)
  then show ?thesis by (simp add: entries_of_def)
qed

lemma paths_conflict_sym: "paths_conflict key e e' = paths_conflict key e' e"
  by (induction key e e' rule: paths_conflict.induct) auto

lemma same_path_conflicts [simp]: "paths_conflict key (p, d) (p, d')"
  by (induction p) auto

lemma entry_at_normal: "node_ok key node \<Longrightarrow> entry_at key node p = Some d \<Longrightarrow> list_all normal_component p"
proof (induction p arbitrary: node)
  case (Cons c p)
  obtain ch e where node: "node = PathNode ch e" by (cases node)
  obtain k n where k: "key c = Inr k" "hget ch k = Some (c, n)" "entry_at key n p = Some d"
    using Cons.prems(2) by (auto simp: node split: sum.splits option.splits if_splits)
  have "normal_component c" "node_ok key n" using node_okD(4,5) [OF Cons.prems(1) [unfolded node] k(2)] by blast+
  then show ?case using Cons.IH k(3) by simp
qed simp

lemma node_insert_below:
  assumes "node_insert key limit (c # cs) d spent (PathNode ch e) = Inr (b, spent', node')" "e \<noteq> Some False"
    "normal_component c" "key c = Inr k" "(case hget ch k of Some child \<Rightarrow> child | None \<Rightarrow> (c, empty_node)) = (c, n)"
  shows "\<exists>n'. node_insert key limit cs d (spent + length k) n = Inr (b, spent', n') \<and> node' = PathNode (hput k (c, n') ch) e"
  using assms by (simp add: checked_add_def split: if_splits sum.splits prod.splits)

text \<open>What an insertion must do: accept exactly when the path conflicts with no entry, and then add it.\<close>

definition inserts :: "(string \<Rightarrow> string result) \<Rightarrow> string list \<Rightarrow> bool \<Rightarrow> path_node \<Rightarrow> bool \<Rightarrow> path_node \<Rightarrow> bool" where
  "inserts key p d node b node' \<longleftrightarrow>
     b = (\<forall>q d'. entry_at key node q = Some d' \<longrightarrow> \<not> paths_conflict key (p, d) (q, d')) \<and>
     (b \<longrightarrow> node_ok key node' \<and> (\<forall>q. entry_at key node' q = (if q = p then Some d else entry_at key node q)))"

lemma insertsI_refused: "entry_at key node q = Some d' \<Longrightarrow> paths_conflict key (p, d) (q, d') \<Longrightarrow> inserts key p d node False node'"
  by (auto simp: inserts_def)

lemma insert_here:
  assumes ok: "node_ok key (PathNode ch e)" and i: "node_insert key limit [] d spent (PathNode ch e) = Inr (b, spent', node')"
  shows "inserts key [] d (PathNode ch e) b node'"
proof (cases "e \<noteq> None \<or> \<not> d \<and> ch \<noteq> []")
  case True
  then have r: "b = False" using i by auto
  show ?thesis
  proof (cases e)
    case (Some d')
    then show ?thesis unfolding r by (auto intro: insertsI_refused [of _ _ "[]" d'])
  next
    case None
    then have "\<not> d" "ch \<noteq> []" using True by auto
    then obtain k sp n rest where "ch = (k, sp, n) # rest" by (cases ch) auto
    then have h: "hget ch k = Some (sp, n)" by simp
    obtain p d' where "key sp = Inr k" "entry_at key n p = Some d'" using node_okD(3,6) [OF ok h] by blast
    then have at: "entry_at key (PathNode ch e) (sp # p) = Some d'" using h by simp
    show ?thesis unfolding r by (rule insertsI_refused [OF at]) (simp add: \<open>\<not> d\<close>)
  qed
next
  case False
  then have r: "b" "node' = PathNode ch (Some d)" "e = None" "d \<or> ch = []" using i by auto
  have "\<not> paths_conflict key ([], d) (q, d')" if "entry_at key (PathNode ch e) q = Some d'" for q d'
    using that r(3,4) by (cases q) (auto split: sum.splits)
  moreover have "node_ok key node'"
    unfolding r(2) by (rule node_ok.node) (use node_okD [OF ok] r(4) in blast)+
  moreover have "entry_at key node' q = (if q = [] then Some d else entry_at key (PathNode ch e) q)" for q
    by (cases q) (auto simp: r(2) split: sum.splits)
  ultimately show ?thesis using r(1) unfolding inserts_def by blast
qed

text \<open>Entries whose first component has another key are no conflict.\<close>

lemma no_conflict_elsewhere:
  assumes "entry_at key (PathNode ch e) q = Some d'" "e \<noteq> Some False" "key c = Inr k"
    "\<And>c' q'. q = c' # q' \<Longrightarrow> key c' \<noteq> Inr k"
  shows "\<not> paths_conflict key (c # cs, d) (q, d')"
  using assms by (cases q) auto

lemma child_node_ok:
  assumes ok: "node_ok key (PathNode ch e)" and e: "e \<noteq> Some False" and c: "normal_component c" "key c = Inr k"
    and n: "node_ok key n'" "entry_at key n' cs = Some d"
  shows "node_ok key (PathNode (hput k (c, n') ch) e)"
proof (rule node_ok.node)
  show "hmap_ok (hput k (c, n') ch)" using node_okD(1) [OF ok] by (rule hm.ok_put)
  show "e = Some False \<Longrightarrow> hput k (c, n') ch = []" using e by simp
  fix k' spelling m
  assume "hget (hput k (c, n') ch) k' = Some (spelling, m)"
  then show "key spelling = Inr k' \<and> normal_component spelling \<and> node_ok key m \<and> (\<exists>p d. entry_at key m p = Some d)"
    using node_okD(3-6) [OF ok, of k' spelling m] c n by (auto simp: hm.get_put split: if_splits)
qed

lemma insert_new_child:
  assumes ok: "node_ok key (PathNode ch e)" and e: "e \<noteq> Some False" and c: "normal_component c" "key c = Inr k"
    and new: "hget ch k = None" and below: "inserts key cs d empty_node b n'"
  shows "inserts key (c # cs) d (PathNode ch e) b (PathNode (hput k (c, n') ch) e)"
proof -
  have none: "entry_at key empty_node q = None" for q
    using empty_node_entries [of key] by (auto simp: entries_of_def)
  have b: b using below none by (auto simp: inserts_def)
  have n': "node_ok key n'" "entry_at key n' q = (if q = cs then Some d else None)" for q
    using below b none by (auto simp: inserts_def)
  have "\<not> paths_conflict key (c # cs, d) (q, d')" if "entry_at key (PathNode ch e) q = Some d'" for q d'
    by (rule no_conflict_elsewhere [OF that e c(2)]) (use that new in auto)
  moreover have "entry_at key (PathNode (hput k (c, n') ch) e) q = (if q = c # cs then Some d else entry_at key (PathNode ch e) q)" for q
    using c(2) n'(2) new by (cases q) (auto simp: hm.get_put split: sum.splits)
  ultimately show ?thesis
    using b child_node_ok [OF ok e c n'(1), of cs d] n'(2) [of cs] unfolding inserts_def by simp
qed

lemma insert_other_spelling:
  assumes ok: "node_ok key (PathNode ch e)" and c: "key c = Inr k" "hget ch k = Some (sp, n)" "sp \<noteq> c"
  shows "inserts key (c # cs) d (PathNode ch e) False node'"
proof -
  obtain p d' where p: "key sp = Inr k" "entry_at key n p = Some d'" using node_okD(3,6) [OF ok c(2)] by blast
  show ?thesis
  proof (rule insertsI_refused)
    show "entry_at key (PathNode ch e) (sp # p) = Some d'" using p c(2) by simp
    show "paths_conflict key (c # cs, d) (sp # p, d')" using p(1) c(1,3) by simp
  qed
qed

lemma insert_into_child:
  assumes ok: "node_ok key (PathNode ch e)" and e: "e \<noteq> Some False" and c: "normal_component c" "key c = Inr k"
    and child: "hget ch k = Some (c, n)" and below: "inserts key cs d n b n'"
  shows "inserts key (c # cs) d (PathNode ch e) b (PathNode (hput k (c, n') ch) e)"
proof -
  let ?node = "PathNode ch e"
  have at: "entry_at key ?node (c # q) = entry_at key n q" for q using c(2) child by simp
  have spelled: "c' = c" if "entry_at key ?node (c' # q) = Some d'" "key c' = Inr k" for c' q d'
    using that child by (auto split: if_splits)
  have "b = (\<forall>q d'. entry_at key ?node q = Some d' \<longrightarrow> \<not> paths_conflict key (c # cs, d) (q, d'))"
  proof
    assume b
    show "\<forall>q d'. entry_at key ?node q = Some d' \<longrightarrow> \<not> paths_conflict key (c # cs, d) (q, d')"
    proof (intro allI impI)
      fix q d'
      assume q: "entry_at key ?node q = Some d'"
      show "\<not> paths_conflict key (c # cs, d) (q, d')"
      proof (cases "\<exists>c' q'. q = c' # q' \<and> key c' = Inr k")
        case True
        then obtain q' where "q = c # q'" using spelled q by blast
        then show ?thesis using below \<open>b\<close> q at c(2) by (simp add: inserts_def)
      qed (use no_conflict_elsewhere [OF q e c(2)] in blast)
    qed
  next
    assume all: "\<forall>q d'. entry_at key ?node q = Some d' \<longrightarrow> \<not> paths_conflict key (c # cs, d) (q, d')"
    have "\<not> paths_conflict key (cs, d) (q, d')" if "entry_at key n q = Some d'" for q d'
    proof -
      have "entry_at key ?node (c # q) = Some d'" using that at by simp
      then have "\<not> paths_conflict key (c # cs, d) (c # q, d')" using all by blast
      then show ?thesis by simp
    qed
    then show b using below by (simp add: inserts_def)
  qed
  moreover have "entry_at key (PathNode (hput k (c, n') ch) e) q = (if q = c # cs then Some d else entry_at key ?node q)" if b for q
    using c(2) below that child by (cases q) (auto simp: inserts_def hm.get_put split: sum.splits)
  ultimately show ?thesis
    using child_node_ok [OF ok e c, of n' cs d] below unfolding inserts_def by simp
qed

lemma node_insert_inserts:
  assumes "node_ok key node" "node_insert key limit p d spent node = Inr (b, spent', node')" "list_all normal_component p"
  shows "inserts key p d node b node'"
  using assms
proof (induction p arbitrary: node spent b spent' node')
  case Nil
  then show ?case using insert_here by (cases node) blast
next
  case (Cons c cs)
  obtain ch e where node: "node = PathNode ch e" by (cases node)
  note ok = Cons.prems(1) [unfolded node] and i = Cons.prems(2) [unfolded node]
  have normal: "normal_component c" "list_all normal_component cs" using Cons.prems(3) by auto
  show ?case
  proof (cases "e = Some False")
    case True
    then show ?thesis using i unfolding node by (auto intro: insertsI_refused [of _ _ "[]" False])
  next
    case e: False
    obtain k where k: "key c = Inr k" using i e normal(1) by (auto split: sum.splits)
    show ?thesis
    proof (cases "hget ch k")
      case None
      obtain n' where r: "node_insert key limit cs d (spent + length k) empty_node = Inr (b, spent', n')"
          "node' = PathNode (hput k (c, n') ch) e"
        using node_insert_below [OF i e normal(1) k, of empty_node] None by auto
      show ?thesis
        unfolding node r(2) by (rule insert_new_child [OF ok e normal(1) k None Cons.IH [OF empty_node_ok r(1) normal(2)]])
    next
      case (Some child)
      then obtain sp n where child: "hget ch k = Some (sp, n)" by (cases child) auto
      show ?thesis
      proof (cases "sp = c")
        case False
        then have "b = False" using i e normal(1) k child by (auto simp: checked_add_def split: if_splits)
        then show ?thesis using insert_other_spelling [OF ok k child False] unfolding node by simp
      next
        case True
        obtain n' where r: "node_insert key limit cs d (spent + length k) n = Inr (b, spent', n')"
            "node' = PathNode (hput k (c, n') ch) e"
          using node_insert_below [OF i e normal(1) k, of n] child True by auto
        show ?thesis
          unfolding node r(2)
          by (rule insert_into_child [OF ok e normal(1) k child [unfolded True] Cons.IH [OF node_okD(5) [OF ok child] r(1) normal(2)]])
      qed
    qed
  qed
qed

section \<open>Claims\<close>

text \<open>Nothing in a list of entries conflicts with anything else in it or with what is there.\<close>

fun compatible :: "(string \<Rightarrow> string result) \<Rightarrow> (string list \<times> bool) set \<Rightarrow> (string list \<times> bool) list \<Rightarrow> bool" where
  "compatible key E [] = True"
| "compatible key E (p # ps) = ((\<forall>q \<in> E. \<not> paths_conflict key p q) \<and> compatible key (insert p E) ps)"

lemma insert_all_compatible:
  assumes "node_ok key node" "insert_all key limit ps spent node = Inr (b, spent', node')" "list_all (\<lambda>e. list_all normal_component (fst e)) ps"
  shows "b = compatible key (entries_of key node) ps"
    and "b \<Longrightarrow> node_ok key node' \<and> entries_of key node' = entries_of key node \<union> set ps"
proof -
  have "b = compatible key (entries_of key node) ps \<and>
      (b \<longrightarrow> node_ok key node' \<and> entries_of key node' = entries_of key node \<union> set ps)"
    using assms
  proof (induction ps arbitrary: node spent)
    case (Cons p ps)
    obtain q d where p: "p = (q, d)" by (cases p)
    obtain b1 spent1 node1 where one: "node_insert key limit q d spent node = Inr (b1, spent1, node1)"
      using Cons.prems(2) by (auto simp: p split: sum.splits)
    have i: "inserts key q d node b1 node1"
      by (rule node_insert_inserts [OF Cons.prems(1) one]) (use Cons.prems(3) in \<open>simp add: p\<close>)
    have b1: "b1 = (\<forall>x \<in> entries_of key node. \<not> paths_conflict key p x)"
      using i by (auto simp: inserts_def entries_of_def p)
    show ?case
    proof (cases b1)
      case False
      then have "b = False" using Cons.prems(2) one by (simp add: p)
      then show ?thesis using False b1 by auto
    next
      case True
      then have n1: "node_ok key node1" "entries_of key node1 = insert p (entries_of key node)"
      proof -
        have "entry_at key node q = None" using b1 True same_path_conflicts [of key q d] by (cases "entry_at key node q") (force simp: entries_of_def p)+
        then show "node_ok key node1" "entries_of key node1 = insert p (entries_of key node)"
          using i True by (auto simp: inserts_def entries_of_def p split: if_splits)
      qed
      have rest: "insert_all key limit ps spent1 node1 = Inr (b, spent', node')" using Cons.prems(2) one True by (simp add: p)
      have "list_all (\<lambda>e. list_all normal_component (fst e)) ps" using Cons.prems(3) by simp
      then show ?thesis using Cons.IH [OF n1(1) rest] b1 True by (simp add: n1(2))
    qed
  qed auto
  then show "b = compatible key (entries_of key node) ps"
    "b \<Longrightarrow> node_ok key node' \<and> entries_of key node' = entries_of key node \<union> set ps" by blast+
qed

text \<open>C28. The trie takes a list of paths exactly when no two of them conflict: none equal under the collision
key, none a file where another needs a directory, no directory under two spellings. The entries it then
holds are the list's.\<close>

theorem path_trie_refuses_conflicts:
  assumes "insert_all key limit ps spent empty_node = Inr (b, spent', node')"
    and "list_all (\<lambda>e. list_all normal_component (fst e)) ps"
  shows "(b \<longleftrightarrow> (\<forall>i j. i < j \<and> j < length ps \<longrightarrow> \<not> paths_conflict key (ps ! i) (ps ! j)))
    \<and> (b \<longrightarrow> entries_of key node' = set ps)"
proof -
  have pairs: "compatible key E ps \<longleftrightarrow> (\<forall>e \<in> E. \<forall>p \<in> set ps. \<not> paths_conflict key p e) \<and>
      (\<forall>i j. i < j \<and> j < length ps \<longrightarrow> \<not> paths_conflict key (ps ! i) (ps ! j))" for E
  proof (induction ps arbitrary: E)
    case (Cons p ps)
    have first: "(\<forall>i j. i < j \<and> j < length (p # ps) \<longrightarrow> \<not> paths_conflict key ((p # ps) ! i) ((p # ps) ! j)) \<longleftrightarrow>
        (\<forall>q \<in> set ps. \<not> paths_conflict key p q) \<and> (\<forall>i j. i < j \<and> j < length ps \<longrightarrow> \<not> paths_conflict key (ps ! i) (ps ! j))"
      (is "?l \<longleftrightarrow> ?r")
    proof
      assume l: ?l
      have "\<not> paths_conflict key p q" if "q \<in> set ps" for q
      proof -
        obtain j where "j < length ps" "q = ps ! j" using \<open>q \<in> set ps\<close> by (auto simp: in_set_conv_nth)
        then show ?thesis using l [rule_format, of 0 "Suc j"] by simp
      qed
      moreover have "\<not> paths_conflict key (ps ! i) (ps ! j)" if "i < j" "j < length ps" for i j
        using l [rule_format, of "Suc i" "Suc j"] that by simp
      ultimately show ?r by blast
    next
      assume r: ?r
      show ?l
      proof (intro allI impI)
        fix i j
        assume "i < j \<and> j < length (p # ps)"
        then show "\<not> paths_conflict key ((p # ps) ! i) ((p # ps) ! j)"
          using r by (cases i; cases j) auto
      qed
    qed
    show ?case
      unfolding first compatible.simps Cons.IH using paths_conflict_sym [of key p] by auto
  qed simp
  note all = insert_all_compatible [OF empty_node_ok assms]
  show ?thesis using all by (simp add: pairs)
qed

lemma path_trie_refuses_conflicts_witness:
  "\<exists>spent' node'. insert_all Inr 100 [([''a''], True), ([''a'', ''b''], False)] 0 empty_node = Inr (True, spent', node')
     \<and> entries_of Inr node' = {([''a''], True), ([''a'', ''b''], False)}"
proof -
  obtain spent' node' where r: "insert_all Inr 100 [([''a''], True), ([''a'', ''b''], False)] 0 empty_node = Inr (True, spent', node')"
    by (simp add: empty_node_def normal_component_def checked_add_def)
  have "list_all (\<lambda>e. list_all normal_component (fst e)) [([''a''], True), ([''a'', ''b''], False)]"
    by (simp add: normal_component_def)
  then show ?thesis using path_trie_refuses_conflicts [OF r] r by auto
qed

lemma split_on_inside: "p \<in> set (split_on d s) \<Longrightarrow> \<exists>xs zs. s = xs @ p @ zs"
proof (induction s arbitrary: p)
  case (Cons c s)
  obtain w ws where w: "split_on d s = w # ws" using split_on_nonempty [of d s] by (cases "split_on d s") blast+
  have front: "\<exists>zs. s = w @ zs"
  proof -
    have "s = join_with [d] (w # ws)" using join_split [of d s] w by simp
    then show ?thesis by (cases ws) auto
  qed
  show ?case
  proof (cases "c = d")
    case True
    then have "p = [] \<or> p \<in> set (split_on d s)" using Cons.prems by simp
    then show ?thesis using Cons.IH by (metis append_Cons append_Nil)
  next
    case False
    then have "p = c # w \<or> p \<in> set (split_on d s)" using Cons.prems w by auto
    then show ?thesis using Cons.IH front by (metis append_Cons append_Nil)
  qed
qed simp

lemma archive_paths_shape:
  assumes "checked_path norm_path original max_depth = Inr (parts, is_dir, n)"
  shows "n = length parts" "parts \<noteq> []" "list_all normal_component parts"
  using assms by (auto simp: checked_path_def Let_def list_ex_iff list_all_iff split: if_splits option.splits)

text \<open>An accepted archive path is its parts joined by slashes, with one slash more for a directory; no part
is empty, a dot, dot-dot or a device name, ends in a dot or a space, or holds a slash, backslash, colon,
control character or wildcard; and there are at most as many parts as the depth limit.\<close>

theorem archive_paths_stay_inside:
  assumes "checked_path norm_path original max_depth = Inr (parts, is_dir, n)"
  shows "original = join_with ''/'' parts @ (if is_dir then ''/'' else [])
    \<and> n = length parts \<and> 0 < n \<and> n \<le> max_depth \<and> length original \<le> MAX_NAME_BYTES
    \<and> (\<forall>p \<in> set parts. normal_component p \<and> \<not> bad_part p \<and> \<not> has_control p
          \<and> CHR ''/'' \<notin> set p \<and> CHR 0x5C \<notin> set p \<and> CHR '':'' \<notin> set p \<and> CHR 0x00 \<notin> set p
          \<and> (\<forall>c \<in> set ''<>|?*''. c \<notin> set p))"
proof -
  let ?body = "if last original = CHR ''/'' then butlast original else original"
  have good: "\<not> bad_text original" and parts: "parts = split_on CHR ''/'' ?body" "is_dir = (last original = CHR ''/'')" "n = length parts"
    and depth: "length parts \<le> max_depth"
    and all: "list_all normal_component parts" "\<not> list_ex bad_part parts"
    using assms by (auto simp: checked_path_def Let_def list_ex_iff list_all_iff split: if_splits option.splits)
  have ne: "original \<noteq> []" using good by (simp add: bad_text_def)
  have sub: "set p \<subseteq> set original" if "p \<in> set parts" for p
  proof -
    have "set p \<subseteq> set ?body" using split_on_elements [of "CHR ''/''" ?body] that unfolding parts(1) by blast
    moreover have "set ?body \<subseteq> set original" by (auto dest: in_set_butlastD)
    ultimately show ?thesis by blast
  qed
  have whole: "original = ?body @ (if is_dir then ''/'' else [])"
    using append_butlast_last_id [OF ne] by (metis append_Nil2 parts(2))
  have clean: "\<not> has_control p" if "p \<in> set parts" for p
  proof -
    obtain xs zs where body: "?body = xs @ p @ zs" using split_on_inside \<open>p \<in> set parts\<close> unfolding parts(1) by blast
    have "original = xs @ p @ (zs @ (if is_dir then ''/'' else []))"
      using whole unfolding body append_assoc .
    then show ?thesis using has_control_inside good unfolding bad_text_def by metis
  qed
  have "original = join_with ''/'' parts @ (if is_dir then ''/'' else [])"
    using whole unfolding parts(1) join_split .
  moreover have "CHR ''/'' \<notin> set p" if "p \<in> set parts" for p
    using that split_on_elements [of "CHR ''/''" ?body] unfolding parts(1) by blast
  moreover have "parts \<noteq> []" by (simp add: parts(1))
  moreover have "c \<notin> set p" if "p \<in> set parts" "c \<in> {CHR 0x5C, CHR '':'', CHR 0x00} \<union> set ''<>|?*''" for p c
    using sub [OF that(1)] that(2) good by (auto simp: bad_text_def list_ex_iff)
  ultimately show ?thesis
    using all clean depth parts(3) good by (auto simp: list_all_iff list_ex_iff bad_text_def)
qed

lemma archive_paths_stay_inside_witness:
  "checked_path Some ''a/b'' 8 = Inr ([''a'', ''b''], False, 2) \<and> ''a/b'' = join_with ''/'' [''a'', ''b'']"
proof -
  have "checked_path Some ''a/b'' 8 = Inr ([''a'', ''b''], False, 2)" by code_simp
  then show ?thesis using archive_paths_stay_inside [of Some "''a/b''" 8] by simp
qed

end
