(* ===== verification/ZipStreams.thy ===== *)
theory ZipStreams
  imports ZipPaths
begin

text \<open>
  The byte side of archive extraction: bounded copying and the strict DEFLATE reader
  (\<open>module/zip_deflate.rs\<close>) and the check of data descriptors (\<open>module/zip_descriptor.rs\<close>).

  A reader is a state and a function that answers a read of at most so many bytes: \<open>None\<close> is an I/O
  error, \<open>Some []\<close> the end. The inflater of the compression library is a parameter: given input, room and
  whether the input is over it says how much it consumed and produced. A file is its bytes.
\<close>

section \<open>Copying\<close>

type_synonym 'r read = "nat \<Rightarrow> 'r \<Rightarrow> string option \<times> 'r"

text \<open>\<open>io::copy\<close> from a \<open>Take\<close>: what reached the output, whether the source ended without an error, and the
reader.\<close>

function copy_taken :: "'r read \<Rightarrow> nat \<Rightarrow> 'r \<Rightarrow> string \<times> bool \<times> 'r" where
  "copy_taken read left r =
     (if left = 0 then ([], True, r)
      else (case read (min 8192 left) r of
          (None, r') \<Rightarrow> ([], False, r')
        | (Some [], r') \<Rightarrow> ([], True, r')
        | (Some (b # bs), r') \<Rightarrow>
            (case copy_taken read (left - Suc (length bs)) r' of (out, ok, r'') \<Rightarrow> (b # bs @ out, ok, r''))))"
  by pat_completeness auto
termination by (relation "measure (\<lambda>(read, left, r). left)") auto

declare copy_taken.simps [simp del]

definition extraction_limit :: error where
  "extraction_limit = zip_refused ''release archive exceeds the extraction limit''"

definition extraction_failed :: error where
  "extraction_failed = zip_refused ''release archive extraction failed''"

text \<open>\<open>copy_bounded\<close>: the bytes written in any case, the number copied, and the reader.\<close>

definition copy_bounded :: "'r read \<Rightarrow> nat \<Rightarrow> 'r \<Rightarrow> string \<times> nat result \<times> 'r" where
  "copy_bounded read remaining r =
     (case copy_taken read (min (remaining + 1) (2 ^ 64 - 1)) r of
        (out, ok, r') \<Rightarrow>
          (out, (if \<not> ok then Inl extraction_failed
                 else if length out > remaining then Inl extraction_limit
                 else Inr (length out)), r'))"

text \<open>Every read answers with no more than was asked for.\<close>

definition read_ok :: "'r read \<Rightarrow> bool" where
  "read_ok read \<longleftrightarrow> (\<forall>n r. case fst (read n r) of Some bs \<Rightarrow> length bs \<le> n | None \<Rightarrow> True)"

lemma read_okD: "read_ok read \<Longrightarrow> read n r = (Some bs, r') \<Longrightarrow> length bs \<le> n"
  unfolding read_ok_def by (drule spec [of _ n], drule spec [of _ r]) simp

lemma copy_taken_length: "read_ok read \<Longrightarrow> length (fst (copy_taken read left r)) \<le> left"
proof (induction read left r rule: copy_taken.induct)
  case (1 read left r)
  show ?case
  proof (cases "left = 0")
    case True
    then show ?thesis by (simp add: copy_taken.simps)
  next
    case False
    obtain a r' where a: "read (min 8192 left) r = (a, r')" by (metis surj_pair)
    show ?thesis
    proof (cases "\<exists>b bs. a = Some (b # bs)")
      case True
      then obtain b bs where bs: "a = Some (b # bs)" by blast
      have "Suc (length bs) \<le> min 8192 left" using read_okD [OF 1(2) a [unfolded bs]] by simp
      then show ?thesis
        using 1(1) [OF False a [symmetric] bs refl 1(2)] False a bs
        by (subst copy_taken.simps) (auto split: prod.splits)
    next
      case False
      then show ?thesis using a by (subst copy_taken.simps) (auto split: option.splits list.splits)
    qed
  qed
qed

lemma copy_bounded_length: "read_ok read \<Longrightarrow> length (fst (copy_bounded read remaining r)) \<le> remaining + 1"
  using copy_taken_length [of read "min (remaining + 1) (2 ^ 64 - 1)" r]
  by (auto simp: copy_bounded_def split: prod.splits)

lemma copy_bounded_ok: "copy_bounded read remaining r = (out, Inr n, r') \<Longrightarrow> n = length out \<and> n \<le> remaining"
  by (auto simp: copy_bounded_def split: prod.splits if_splits)

section \<open>Strict DEFLATE\<close>

datatype deflate_status = DeflateOk | DeflateBufError | DeflateStreamEnd

type_synonym 'd inflater = "'d \<Rightarrow> string \<Rightarrow> nat \<Rightarrow> bool \<Rightarrow> (nat \<times> string \<times> deflate_status \<times> 'd) option"

text \<open>\<open>StrictDeflate\<close>: \<open>sd_buffer\<close> is the unread part of its buffer, \<open>sd_chunks\<close> what the reads of the input
will return, \<open>sd_total_in\<close> the decoder's count of consumed bytes.\<close>

record 'd strict_deflate =
  sd_chunks :: "string option list"
  sd_decoder :: 'd
  sd_buffer :: string
  sd_total_in :: nat
  sd_expected :: nat
  sd_ended :: bool

definition deflate_new :: "string option list \<Rightarrow> 'd \<Rightarrow> nat \<Rightarrow> 'd strict_deflate" where
  "deflate_new pieces decoder expected =
     \<lparr> sd_chunks = pieces, sd_decoder = decoder, sd_buffer = [], sd_total_in = 0, sd_expected = expected, sd_ended = False \<rparr>"

definition refill :: "'d strict_deflate \<Rightarrow> 'd strict_deflate option" where
  "refill s =
     (if sd_buffer s \<noteq> [] then Some s
      else (case sd_chunks s of
          [] \<Rightarrow> Some s
        | None # _ \<Rightarrow> None
        | Some bs # rest \<Rightarrow> Some (s \<lparr> sd_chunks := rest, sd_buffer := bs \<rparr>)))"

fun chunks_len :: "string option list \<Rightarrow> nat" where
  "chunks_len [] = 0"
| "chunks_len (None # ps) = chunks_len ps"
| "chunks_len (Some bs # ps) = length bs + chunks_len ps"

definition unread :: "'d strict_deflate \<Rightarrow> nat" where
  "unread s = length (sd_buffer s) + chunks_len (sd_chunks s)"

lemma refill_props:
  "refill s = Some s' \<Longrightarrow> unread s' = unread s \<and> sd_total_in s' = sd_total_in s \<and> sd_expected s' = sd_expected s
     \<and> sd_ended s' = sd_ended s"
  by (auto simp: refill_def unread_def split: if_splits list.splits option.splits)

definition decoded :: "nat \<Rightarrow> 'd \<Rightarrow> 'd strict_deflate \<Rightarrow> 'd strict_deflate" where
  "decoded consumed decoder s =
     s \<lparr> sd_decoder := decoder, sd_total_in := sd_total_in s + consumed, sd_buffer := drop consumed (sd_buffer s) \<rparr>"

lemma decoded_unread:
  assumes "refill s = Some s1" "sd_buffer s1 \<noteq> []" "consumed \<noteq> 0 \<or> sd_buffer (decoded consumed decoder s1) = []"
  shows "unread (decoded consumed decoder s1) < unread s"
proof -
  have "0 < length (sd_buffer s1)" using assms(2) by simp
  then have "length (sd_buffer (decoded consumed decoder s1)) < length (sd_buffer s1)"
    using assms(3) by (auto simp: decoded_def)
  moreover have "sd_chunks (decoded consumed decoder s1) = sd_chunks s1" by (simp add: decoded_def)
  ultimately show ?thesis using refill_props [OF assms(1)] by (simp add: unread_def)
qed

function deflate_loop :: "'d inflater \<Rightarrow> nat \<Rightarrow> 'd strict_deflate \<Rightarrow> string option \<times> 'd strict_deflate" where
  "deflate_loop inflate room s =
     (case refill s of
        None \<Rightarrow> (None, s)
      | Some s1 \<Rightarrow>
          (case inflate (sd_decoder s1) (sd_buffer s1) room (sd_buffer s1 = []) of
             None \<Rightarrow> (None, s1)
           | Some (consumed, produced, status, decoder) \<Rightarrow>
               (let s2 = decoded consumed decoder s1 in
                if status = DeflateStreamEnd then
                  (if sd_total_in s2 \<noteq> sd_expected s2 then (None, s2) else (Some produced, s2 \<lparr> sd_ended := True \<rparr>))
                else if produced \<noteq> [] then (Some produced, s2)
                else if sd_buffer s1 = [] \<or> consumed = 0 \<and> sd_buffer s2 \<noteq> [] then (None, s2)
                else deflate_loop inflate room s2)))"
  by pat_completeness auto
termination
proof (relation "measure (\<lambda>(inflate, room, s). unread s)")
  fix inflate :: "'d inflater" and room s s1 x consumed y produced z status decoder s2
  assume "refill s = Some s1" "s2 = decoded consumed decoder s1" "\<not> (sd_buffer s1 = [] \<or> consumed = 0 \<and> sd_buffer s2 \<noteq> [])"
  then have "unread s2 < unread s" using decoded_unread [of s s1 consumed decoder] by blast
  then show "((inflate, room, s2), inflate, room, s) \<in> measure (\<lambda>(inflate, room, s). unread s)" by simp
qed simp

declare deflate_loop.simps [simp del]

definition deflate_read :: "'d inflater \<Rightarrow> 'd strict_deflate read" where
  "deflate_read inflate room s = (if room = 0 \<or> sd_ended s then (Some [], s) else deflate_loop inflate room s)"

text \<open>What the documentation of the inflater promises: it takes no more than it is given and fills no more
than the room.\<close>

definition inflater_ok :: "'d inflater \<Rightarrow> bool" where
  "inflater_ok inflate \<longleftrightarrow>
     (\<forall>d input room eof. case inflate d input room eof of
        Some (consumed, produced, _, _) \<Rightarrow> consumed \<le> length input \<and> length produced \<le> room
      | None \<Rightarrow> True)"

lemma inflater_okD:
  "inflater_ok inflate \<Longrightarrow> inflate d input room eof = Some (consumed, produced, status, d') \<Longrightarrow>
     consumed \<le> length input \<and> length produced \<le> room"
  unfolding inflater_ok_def by (drule spec [of _ d], drule spec [of _ input], drule spec [of _ room], drule spec [of _ eof]) simp

definition deflate_sound :: "nat \<Rightarrow> 'd strict_deflate \<Rightarrow> bool" where
  "deflate_sound size_in s \<longleftrightarrow> sd_total_in s + unread s \<le> size_in \<and> (sd_ended s \<longrightarrow> sd_total_in s = sd_expected s)"

lemma deflate_loop_sound:
  assumes "inflater_ok inflate" "deflate_sound size_in s" "\<not> sd_ended s" "deflate_loop inflate room s = (r, s')"
  shows "deflate_sound size_in s' \<and> sd_expected s' = sd_expected s \<and>
     (case r of Some [] \<Rightarrow> sd_ended s' | Some bs \<Rightarrow> length bs \<le> room | None \<Rightarrow> True)"
  using assms
proof (induction inflate room s rule: deflate_loop.induct)
  case (1 inflate room s)
  show ?case
  proof (cases "refill s")
    case None
    have "deflate_loop inflate room s = (None, s)" by (subst deflate_loop.simps) (simp add: None)
    then show ?thesis using 1(3,5) by auto
  next
    case (Some s1)
    note rf = refill_props [OF Some]
    show ?thesis
    proof (cases "inflate (sd_decoder s1) (sd_buffer s1) room (sd_buffer s1 = [])")
      case None
      have "deflate_loop inflate room s = (None, s1)" by (subst deflate_loop.simps) (simp add: Some None)
      then show ?thesis using 1(3,5) rf by (auto simp: deflate_sound_def)
    next
      case inf: (Some q)
      obtain consumed produced status decoder where q: "q = (consumed, produced, status, decoder)" by (cases q)
      let ?s2 = "decoded consumed decoder s1"
      have lim: "consumed \<le> length (sd_buffer s1)" "length produced \<le> room"
        using inflater_okD [OF 1(2) inf [unfolded q]] by simp_all
      have s2: "sd_total_in ?s2 + unread ?s2 \<le> size_in" "\<not> sd_ended ?s2" "sd_expected ?s2 = sd_expected s"
        using lim(1) rf 1(3,4) by (auto simp: decoded_def unread_def deflate_sound_def)
      have run: "deflate_loop inflate room s =
          (if status = DeflateStreamEnd then
             (if sd_total_in ?s2 \<noteq> sd_expected ?s2 then (None, ?s2) else (Some produced, ?s2 \<lparr> sd_ended := True \<rparr>))
           else if produced \<noteq> [] then (Some produced, ?s2)
           else if sd_buffer s1 = [] \<or> consumed = 0 \<and> sd_buffer ?s2 \<noteq> [] then (None, ?s2)
           else deflate_loop inflate room ?s2)"
        by (subst deflate_loop.simps) (simp add: Some inf q Let_def)
      show ?thesis
      proof (cases "status \<noteq> DeflateStreamEnd \<and> produced = [] \<and> \<not> (sd_buffer s1 = [] \<or> consumed = 0 \<and> sd_buffer ?s2 \<noteq> [])")
        case True
        then have "deflate_loop inflate room s = deflate_loop inflate room ?s2" unfolding run by (simp only: if_False simp_thms)
        then have "deflate_loop inflate room ?s2 = (r, s')" using 1(5) by simp
        then show ?thesis
          using 1(1) [OF Some inf q [symmetric] refl refl refl] True 1(2) s2 by (simp add: deflate_sound_def)
      next
        case False
        define s3 where "s3 = ?s2"
        have un: "unread (s3 \<lparr> sd_ended := True \<rparr>) = unread s3" by (simp add: unread_def)
        have s3: "sd_total_in s3 + unread s3 \<le> size_in" "\<not> sd_ended s3" "sd_expected s3 = sd_expected s"
          using s2 by (simp_all add: s3_def)
        consider (full) "status = DeflateStreamEnd" "sd_total_in s3 = sd_expected s3" "r = Some produced" "s' = s3 \<lparr> sd_ended := True \<rparr>"
          | (some) "produced \<noteq> []" "r = Some produced" "s' = s3"
          | (fail) "r = None" "s' = s3"
          using run False 1(5) unfolding s3_def by (auto split: if_splits)
        then show ?thesis
        proof cases
          case full
          then show ?thesis using s3 un lim(2) by (cases produced) (simp_all add: deflate_sound_def)
        next
          case some
          then show ?thesis using s3 lim(2) by (cases produced) (simp_all add: deflate_sound_def)
        next
          case fail
          then show ?thesis using s3 by (simp add: deflate_sound_def)
        qed
      qed
    qed
  qed
qed


section \<open>Complete entries\<close>

text \<open>A read through the decoder ends without an error only when the stream did: with the end marker, after
exactly the compressed bytes of the entry.\<close>

lemma deflate_read_sound:
  assumes ok: "inflater_ok inflate" and s: "deflate_sound size_in s" and step: "deflate_read inflate room s = (r, s')"
  shows "deflate_sound size_in s' \<and> sd_expected s' = sd_expected s \<and>
     (case r of Some bs \<Rightarrow> length bs \<le> room \<and> (bs = [] \<and> 0 < room \<longrightarrow> sd_ended s') | None \<Rightarrow> True)"
proof (cases "room = 0 \<or> sd_ended s")
  case True
  then show ?thesis using s step by (auto simp: deflate_read_def)
next
  case False
  then have loop: "\<not> sd_ended s" "deflate_loop inflate room s = (r, s')" using step by (simp_all add: deflate_read_def)
  show ?thesis using deflate_loop_sound [OF ok s loop] by (auto split: option.splits list.splits)
qed

lemma copy_taken_complete:
  "inflater_ok inflate \<Longrightarrow> deflate_sound size_in s \<Longrightarrow> copy_taken (deflate_read inflate) left s = (out, True, s') \<Longrightarrow>
     length out < left \<Longrightarrow> deflate_sound size_in s' \<and> sd_expected s' = sd_expected s \<and> sd_ended s'"
proof (induction left arbitrary: s out rule: less_induct)
  case (less left)
  have left: "left \<noteq> 0" using less.prems(4) by auto
  obtain a s1 where a: "deflate_read inflate (min 8192 left) s = (a, s1)" by (metis surj_pair)
  note sound = deflate_read_sound [OF less.prems(1,2) a]
  show ?case
  proof (cases "\<exists>b bs. a = Some (b # bs)")
    case True
    then obtain b bs where bs: "a = Some (b # bs)" by blast
    obtain out' ok' s2 where rest: "copy_taken (deflate_read inflate) (left - Suc (length bs)) s1 = (out', ok', s2)"
      by (metis surj_pair)
    have out: "out = b # bs @ out'" "ok'" "s2 = s'"
      using less.prems(3) left by (simp_all add: copy_taken.simps [of _ left] a bs rest)
    have len: "length out' < left - Suc (length bs)" using less.prems(4) out by simp
    have "deflate_sound size_in s1" "sd_expected s1 = sd_expected s" using sound by simp_all
    then show ?thesis
      using less.IH [of "left - Suc (length bs)" s1 out'] less.prems(1) rest out(2,3) len left by simp
  next
    case False
    then have "a = Some []" "s1 = s'"
      using less.prems(3) left by (auto simp: copy_taken.simps [of _ left] a split: option.splits list.splits)
    then show ?thesis using sound left by auto
  qed
qed

lemma deflate_new_sound: "deflate_sound (chunks_len pieces) (deflate_new pieces d expected)"
  by (simp add: deflate_sound_def deflate_new_def unread_def)

lemma deflate_copy_complete:
  assumes ok: "inflater_ok inflate" and small: "remaining + 1 < 2 ^ 64"
    and copy: "copy_bounded (deflate_read inflate) remaining (deflate_new pieces d expected) = (out, Inr n, s')"
  shows "sd_ended s'" "sd_total_in s' = expected" "expected \<le> chunks_len pieces" "n = length out" "n \<le> remaining"
proof -
  have taken: "copy_taken (deflate_read inflate) (remaining + 1) (deflate_new pieces d expected) = (out, True, s')"
    using copy small by (auto simp: copy_bounded_def min_def split: prod.splits if_splits)
  show n: "n = length out" "n \<le> remaining" using copy_bounded_ok [OF copy] by simp_all
  note res = copy_taken_complete [OF ok deflate_new_sound taken]
  show "sd_ended s'" "sd_total_in s' = expected" "expected \<le> chunks_len pieces"
    using res n by (auto simp: deflate_sound_def) (simp_all add: deflate_new_def)
qed

section \<open>Data descriptors\<close>

primrec le_value :: "string \<Rightarrow> nat" where
  "le_value [] = 0"
| "le_value (c # cs) = of_char c + 256 * le_value cs"

primrec le_bytes :: "nat \<Rightarrow> nat \<Rightarrow> string" where
  "le_bytes 0 v = []"
| "le_bytes (Suc n) v = char_of (v mod 256) # le_bytes n (v div 256)"

lemma le_bytes_length [simp]: "length (le_bytes n v) = n"
  by (induction n arbitrary: v) simp_all

lemma le_value_bytes: "v < 256 ^ n \<Longrightarrow> le_value (le_bytes n v) = v"
proof (induction n arbitrary: v)
  case (Suc n)
  then have "v div 256 < 256 ^ n" by (simp add: less_mult_imp_div_less mult.commute)
  then show ?case using Suc.IH by (simp add: of_char_of)
qed simp

lemma le_bytes_value: "le_bytes (length cs) (le_value cs) = cs"
proof (induction cs)
  case (Cons c cs)
  have "(of_char c :: nat) < 256" using nat_of_char_less_256 .
  then show ?case using Cons by simp
qed simp

lemma le_value_iff: "v < 256 ^ length cs \<Longrightarrow> le_value cs = v \<longleftrightarrow> cs = le_bytes (length cs) v"
  using le_value_bytes le_bytes_value by metis

definition read_u32 :: "string \<Rightarrow> nat" where "read_u32 bytes = le_value bytes"

definition read_u64 :: "string \<Rightarrow> nat" where "read_u64 bytes = le_value bytes"

definition bad_descriptor :: error where
  "bad_descriptor = zip_refused ''release archive has an invalid data descriptor''"

definition descriptor_signature :: string where
  "descriptor_signature = [CHR ''P'', CHR ''K'', CHR 0x07, CHR 0x08]"

definition part :: "string \<Rightarrow> nat \<Rightarrow> nat \<Rightarrow> string" where
  "part bytes i j = take (j - i) (drop i bytes)"

text \<open>One turn of the loop over the two prefixes.\<close>

definition descriptor_turn :: "string \<Rightarrow> bool \<Rightarrow> nat \<Rightarrow> nat \<Rightarrow> nat \<Rightarrow> nat \<Rightarrow> bool" where
  "descriptor_turn bytes zip64 expected_crc expected_compressed expected_expanded p \<longleftrightarrow>
     \<not> (p = 4 \<and> take 4 bytes \<noteq> descriptor_signature)
     \<and> \<not> length bytes < p + (if zip64 then 20 else 12)
     \<and> (let crc = read_u32 (part bytes p (p + 4));
            (compressed, expanded) =
              (if zip64 then (read_u64 (part bytes (p + 4) (p + 12)), read_u64 (part bytes (p + 12) (p + 20)))
               else (read_u32 (part bytes (p + 4) (p + 8)), read_u32 (part bytes (p + 8) (p + 12)))) in
        crc = expected_crc \<and> compressed = expected_compressed \<and> expanded = expected_expanded)"

text \<open>\<open>validate_data_descriptor\<close>: a file that cannot be opened is \<open>None\<close>.\<close>

definition validate_data_descriptor :: "string option \<Rightarrow> nat \<Rightarrow> nat \<Rightarrow> bool \<Rightarrow> nat \<Rightarrow> nat \<Rightarrow> nat \<Rightarrow> bool result" where
  "validate_data_descriptor file offset directory_offset zip64 expected_crc expected_compressed expected_expanded =
     (let max_size = (if zip64 then 24 else 16) in
      if directory_offset < offset then Inl bad_descriptor
      else
        (let available = directory_offset - offset in
         if available < (if zip64 then 20 else 12) then Inr False
         else
           (let read_size = min available max_size in
            case file of
              None \<Rightarrow> Inl bad_descriptor
            | Some contents \<Rightarrow>
                if length contents < offset + read_size then Inl bad_descriptor
                else Inr (list_ex (descriptor_turn (part contents offset (offset + read_size)) zip64 expected_crc
                       expected_compressed expected_expanded) [0, 4]))))"

text \<open>The descriptor of an entry as the archive format writes it: little-endian, with or without the
signature.\<close>

definition descriptor_bytes :: "bool \<Rightarrow> bool \<Rightarrow> nat \<Rightarrow> nat \<Rightarrow> nat \<Rightarrow> string" where
  "descriptor_bytes signed zip64 crc compressed expanded =
     (if signed then descriptor_signature else []) @ le_bytes 4 crc
       @ le_bytes (if zip64 then 8 else 4) compressed @ le_bytes (if zip64 then 8 else 4) expanded"

lemma take_add_split: "take (m + n) xs = ys @ zs \<Longrightarrow> length ys = m \<Longrightarrow> m + n \<le> length xs \<Longrightarrow>
    take m xs = ys \<and> take n (drop m xs) = zs"
  by (simp add: take_add)

lemma take_three:
  assumes "a + b + c \<le> length xs" "length u = a" "length v = b" "length w = c"
  shows "take (a + b + c) xs = u @ v @ w \<longleftrightarrow> take a xs = u \<and> take b (drop a xs) = v \<and> take c (drop (a + b) xs) = w"
proof -
  have "take (a + b + c) xs = take a xs @ take b (drop a xs) @ take c (drop (a + b) xs)"
    by (simp add: take_add)
  then show ?thesis using assms by auto
qed

lemma descriptor_turn_iff:
  assumes crc: "expected_crc < 256 ^ 4" and sizes: "expected_compressed < 256 ^ (if zip64 then 8 else 4)"
    "expected_expanded < 256 ^ (if zip64 then 8 else 4)"
    and enough: "p + (if zip64 then 20 else 12) \<le> length bytes" and p: "p = (if signed then 4 else 0)"
  shows "descriptor_turn bytes zip64 expected_crc expected_compressed expected_expanded p \<longleftrightarrow>
     take (p + (if zip64 then 20 else 12)) bytes = descriptor_bytes signed zip64 expected_crc expected_compressed expected_expanded"
proof -
  define n where "n = (if zip64 then 8 else 4 :: nat)"
  define xs where "xs = drop p bytes"
  have long: "4 + n + n \<le> length xs" using enough by (auto simp: xs_def n_def split: if_splits)
  have body: "le_value (take 4 xs) = expected_crc \<and> le_value (take n (drop 4 xs)) = expected_compressed
       \<and> le_value (take n (drop (4 + n) xs)) = expected_expanded
     \<longleftrightarrow> take (4 + n + n) xs = le_bytes 4 expected_crc @ le_bytes n expected_compressed @ le_bytes n expected_expanded"
    using long crc sizes take_three [of 4 n n xs "le_bytes 4 expected_crc" "le_bytes n expected_compressed" "le_bytes n expected_expanded"]
    by (simp add: le_value_iff n_def [symmetric])
  have parts: "part bytes p (p + 4) = take 4 xs" "part bytes (p + 4) (p + 4 + n) = take n (drop 4 xs)"
    "part bytes (p + 4 + n) (p + 4 + n + n) = take n (drop (4 + n) xs)"
    by (simp_all add: part_def xs_def ac_simps)
  have turn: "descriptor_turn bytes zip64 expected_crc expected_compressed expected_expanded p \<longleftrightarrow>
     (p = 4 \<longrightarrow> take 4 bytes = descriptor_signature) \<and> le_value (take 4 xs) = expected_crc
       \<and> le_value (take n (drop 4 xs)) = expected_compressed \<and> le_value (take n (drop (4 + n) xs)) = expected_expanded"
    using enough parts by (auto simp: descriptor_turn_def read_u32_def read_u64_def n_def Let_def numeral_eq_Suc split: if_splits)
  have sz: "p + (if zip64 then 20 else 12) = p + (4 + n + n)" by (simp add: n_def)
  have all: "take (p + (4 + n + n)) bytes = take p bytes @ take (4 + n + n) xs" by (simp add: take_add xs_def)
  have lp: "length (take p bytes) = p" using enough by simp
  show ?thesis
  proof (cases signed)
    case True
    have "length descriptor_signature = 4" by (simp add: descriptor_signature_def)
    then show ?thesis
      unfolding turn sz all descriptor_bytes_def n_def [symmetric] body using p lp True by auto
  next
    case False
    then show ?thesis unfolding turn sz all descriptor_bytes_def n_def [symmetric] body using p by auto
  qed
qed

end
