(* ===== verification/ZipExtract.thy ===== *)
theory ZipExtract
  imports ZipStreams "HOL-Library.Word"
begin

unbundle bit_operations_syntax

text \<open>
  Bounded extraction of a release archive (\<open>module/zip_extract.rs\<close>): the plan made from the central
  directory and the local headers, the overlap check, and the writing of the planned entries.

  The archive library is a parameter: \<open>zip_archive\<close> holds what its calls answer, once while planning and once
  again while extracting, since the file may change in between. Compressed data is the sequence of answers
  that reads of it give. The staging directory maps the components of a path to a directory or a file.
\<close>

record extraction_limits =
  entry_bytes :: nat
  total_bytes :: nat
  entries_limit :: nat
  path_metadata_limit :: nat
  path_depth :: nat
  path_components :: nat

definition DEFAULT_LIMITS :: extraction_limits where
  "DEFAULT_LIMITS =
     \<lparr> entry_bytes = 1024 * 1024 * 1024, total_bytes = 2 * 1024 * 1024 * 1024, entries_limit = 100000,
       path_metadata_limit = 16 * 1024 * 1024, path_depth = 128, path_components = 250000 \<rparr>"

section \<open>The archive library\<close>

datatype zip_method = STORE | DEFLATE | Method nat

datatype creator_system = UNIX | MACOS | Creator nat

record entry_flags =
  flag_bits :: "16 word"
  is_encrypted :: bool
  has_strong_encryption :: bool
  is_masked :: bool
  has_data_descriptor :: bool

record zip_entry =
  ze_wayfinder :: nat
  ze_path :: string
  ze_creator :: creator_system
  ze_attributes :: "32 word"
  ze_method :: zip_method
  ze_flags :: entry_flags
  ze_crc :: nat
  ze_compressed :: nat
  ze_expanded :: nat
  ze_local_offset :: nat

record zip_header =
  lh_path :: string
  lh_method :: zip_method
  lh_flags :: entry_flags
  lh_crc :: nat
  lh_compressed :: nat
  lh_expanded :: nat
  lh_zip64_extra :: bool

record zip_local =
  zl_range :: "nat \<times> nat"
  zl_header :: "zip_header option"
  zl_data :: "string option list"

record zip_archive =
  za_file_len :: "nat option"
  za_valid :: bool
  za_hint :: nat
  za_directory :: nat
  za_entries :: "zip_entry option list"
  za_local :: "nat \<Rightarrow> zip_local option"
  za_local_again :: "nat \<Rightarrow> zip_local option"
  za_contents :: "nat \<Rightarrow> string option"

record path_rules =
  valid_utf8 :: "string \<Rightarrow> bool"
  norm_path :: "string \<Rightarrow> string option"
  path_key :: "string \<Rightarrow> string result"

section \<open>Planning\<close>

record entry_plan =
  ep_wayfinder :: nat
  ep_path :: "string list"
  ep_is_dir :: bool
  ep_method :: zip_method
  ep_compressed :: nat
  ep_expanded :: nat
  ep_range :: "nat \<times> nat"

definition validate_flags :: "entry_flags \<Rightarrow> zip_method \<Rightarrow> unit result" where
  "validate_flags flags method =
     (if is_encrypted flags \<or> has_strong_encryption flags \<or> is_masked flags
      then Inl (zip_refused ''release archive contains encrypted entries'')
      else
        (let allowed = (push_bit 3 1 OR push_bit 11 1) OR (if method = DEFLATE then 6 else 0) in
         if flag_bits flags AND NOT allowed \<noteq> 0
         then Inl (zip_refused ''release archive contains unsupported entry flags'')
         else Inr ()))"

definition special_file :: "zip_entry \<Rightarrow> bool \<Rightarrow> bool" where
  "special_file e is_dir \<longleftrightarrow>
     ze_creator e \<in> {UNIX, MACOS} \<and>
     (let file_type = drop_bit 16 (ze_attributes e) AND 0xF000 in
      file_type \<noteq> 0 \<and> file_type \<noteq> (if is_dir then 0x4000 else 0x8000))"

definition bad_range :: "zip_archive \<Rightarrow> nat \<Rightarrow> zip_entry \<Rightarrow> nat \<times> nat \<Rightarrow> bool" where
  "bad_range a file_len e rg \<longleftrightarrow>
     fst rg > snd rg \<or> fst rg < ze_local_offset e \<or> snd rg > file_len \<or> snd rg > za_directory a
     \<or> snd rg - fst rg \<noteq> ze_compressed e"

definition archive_invalid :: error where
  "archive_invalid = zip_refused ''release archive is invalid''"

definition headers_disagree :: error where
  "headers_disagree = zip_refused ''release archive headers disagree''"

definition check_sizes :: "zip_archive \<Rightarrow> nat \<Rightarrow> zip_entry \<Rightarrow> nat \<times> nat \<Rightarrow> zip_header \<Rightarrow> unit result" where
  "check_sizes a file_len e rg h =
     (if has_data_descriptor (ze_flags e) then
        (let local_sizes = (lh_crc h, lh_compressed h, lh_expanded h) in
         fail_if (local_sizes \<noteq> (0, 0, 0) \<and> local_sizes \<noteq> (ze_crc e, ze_compressed e, ze_expanded e)) headers_disagree
         (on_ok
           (validate_data_descriptor (za_contents a (ze_wayfinder e)) (snd rg) (min (za_directory a) file_len)
              (lh_zip64_extra h \<or> ze_compressed e \<ge> 2 ^ 32 - 1 \<or> ze_expanded e \<ge> 2 ^ 32 - 1)
              (ze_crc e) (ze_compressed e) (ze_expanded e))
           (\<lambda>found. fail_if (\<not> found) (zip_refused ''release archive data descriptor disagrees'') (Inr ()))))
      else fail_if (lh_crc h \<noteq> ze_crc e \<or> lh_compressed h \<noteq> ze_compressed e \<or> lh_expanded h \<noteq> ze_expanded e)
        headers_disagree (Inr ()))"

text \<open>The local header of an entry against its central record: its data range.\<close>

definition check_local :: "zip_archive \<Rightarrow> nat \<Rightarrow> zip_entry \<Rightarrow> (nat \<times> nat) result" where
  "check_local a file_len e =
     on_ok (ok_or (za_local a (ze_wayfinder e)) archive_invalid) (\<lambda>l.
     fail_if (bad_range a file_len e (zl_range l)) (zip_refused ''release archive contains invalid entry offsets'')
     (on_ok (ok_or (zl_header l) archive_invalid) (\<lambda>h.
     fail_if (lh_path h \<noteq> ze_path e \<or> lh_method h \<noteq> ze_method e \<or> lh_flags h \<noteq> ze_flags e) headers_disagree
     (on_ok (check_sizes a file_len e (zl_range l) h) (\<lambda>_. Inr (zl_range l))))))"

record plan_state =
  ps_expanded :: nat
  ps_metadata :: nat
  ps_components :: nat
  ps_trie :: path_node

definition plan_start :: plan_state where
  "plan_start = \<lparr> ps_expanded = 0, ps_metadata = 0, ps_components = 0, ps_trie = empty_node \<rparr>"

text \<open>A sum that must stay in range and below a limit.\<close>

definition add_within :: "error \<Rightarrow> nat \<Rightarrow> nat \<Rightarrow> nat \<Rightarrow> nat result" where
  "add_within err limit a b = on_ok (ok_or (checked_add a b) err) (\<lambda>s. fail_if (s > limit) err (Inr s))"

text \<open>What an entry's path says: its parts and kind, the metadata and components spent, and the trie with it.\<close>

definition plan_path :: "path_rules \<Rightarrow> extraction_limits \<Rightarrow> zip_entry \<Rightarrow> plan_state \<Rightarrow> (string list \<times> bool \<times> plan_state) result" where
  "plan_path rules lim e s =
     fail_if (\<not> valid_utf8 rules (ze_path e)) unsafe_path
     (on_ok (add_within metadata_error (path_metadata_limit lim) (ps_metadata s) (length (ze_path e))) (\<lambda>metadata.
      on_ok (checked_path (norm_path rules) (ze_path e) (path_depth lim)) (\<lambda>(path, is_dir, parts).
      fail_if (special_file e is_dir) (zip_refused ''release archive contains an unsupported entry type'')
      (on_ok (add_within metadata_error (path_components lim) (ps_components s) parts) (\<lambda>components.
       on_ok (node_insert (path_key rules) (path_metadata_limit lim) path is_dir metadata (ps_trie s)) (\<lambda>(added, metadata', trie).
       fail_if (\<not> added) (zip_refused ''release archive contains duplicate or case-colliding paths'')
       (Inr (path, is_dir, s \<lparr> ps_metadata := metadata', ps_components := components, ps_trie := trie \<rparr>))))))))"

text \<open>One turn of the planning loop.\<close>

definition plan_entry ::
  "path_rules \<Rightarrow> extraction_limits \<Rightarrow> zip_archive \<Rightarrow> nat \<Rightarrow> zip_entry \<Rightarrow> plan_state \<Rightarrow> (entry_plan \<times> plan_state) result" where
  "plan_entry rules lim a file_len e s =
     on_ok (plan_path rules lim e s) (\<lambda>(path, is_dir, s1).
     on_ok (validate_flags (ze_flags e) (ze_method e)) (\<lambda>_.
     fail_if (ze_method e \<noteq> STORE \<and> ze_method e \<noteq> DEFLATE)
       (zip_refused ''release archive uses an unsupported compression method'')
     (fail_if (ze_expanded e > entry_bytes lim) (zip_refused ''release archive entry exceeds the extraction limit'')
     (fail_if (is_dir \<and> ze_expanded e \<noteq> 0) (zip_refused ''release archive directory entry is not empty'')
     (on_ok (add_within extraction_limit (total_bytes lim) (ps_expanded s1) (ze_expanded e)) (\<lambda>expanded.
      on_ok (check_local a file_len e) (\<lambda>rg.
      Inr (\<lparr> ep_wayfinder = ze_wayfinder e, ep_path = path, ep_is_dir = is_dir, ep_method = ze_method e,
             ep_compressed = ze_compressed e, ep_expanded = ze_expanded e, ep_range = rg \<rparr>,
           s1 \<lparr> ps_expanded := expanded \<rparr>))))))))"

definition too_many_entries :: error where
  "too_many_entries = zip_refused ''release archive contains too many entries''"

text \<open>The planning loop over the entries the library yields; \<open>n\<close> plans were made.\<close>

primrec plan_entries ::
  "path_rules \<Rightarrow> extraction_limits \<Rightarrow> zip_archive \<Rightarrow> nat \<Rightarrow> zip_entry option list \<Rightarrow> nat \<Rightarrow> plan_state \<Rightarrow>
     entry_plan list result" where
  "plan_entries rules lim a file_len [] n s = Inr []"
| "plan_entries rules lim a file_len (oe # es) n s =
     on_ok (ok_or oe archive_invalid) (\<lambda>e.
     fail_if (n \<ge> entries_limit lim) too_many_entries
     (on_ok (plan_entry rules lim a file_len e s) (\<lambda>(p, s').
      on_ok (plan_entries rules lim a file_len es (Suc n) s') (\<lambda>ps. Inr (p # ps)))))"

text \<open>\<open>ranges.windows(2).any(overlap)\<close>, the ranges sorted by their start.\<close>

fun windows_overlap :: "(nat \<times> nat) list \<Rightarrow> bool" where
  "windows_overlap (r # r' # rs) = (snd r > fst r' \<or> windows_overlap (r' # rs))"
| "windows_overlap _ = False"

definition ranges_overlap :: "entry_plan list \<Rightarrow> bool" where
  "ranges_overlap plans = windows_overlap (sort_key fst (filter (\<lambda>(start, stop). start < stop) (map ep_range plans)))"

definition make_plans :: "path_rules \<Rightarrow> extraction_limits \<Rightarrow> zip_archive \<Rightarrow> entry_plan list result" where
  "make_plans rules lim a =
     on_ok (ok_or (za_file_len a) (zip_refused ''release archive is unreadable'')) (\<lambda>file_len.
     fail_if (\<not> za_valid a) archive_invalid
     (fail_if (za_hint a > entries_limit lim) too_many_entries
     (on_ok (plan_entries rules lim a file_len (za_entries a) 0 plan_start) (\<lambda>plans.
      fail_if (length plans \<noteq> za_hint a) (zip_refused ''release archive entry count is inconsistent'')
      (fail_if (ranges_overlap plans) (zip_refused ''release archive contains overlapping entries'') (Inr plans))))))"

section \<open>The staging directory\<close>

text \<open>A path of the staging directory is a directory (\<open>None\<close>) or a file with its bytes. The file system
identifies names by \<open>fs_ident\<close>; it may fail at any path, and a file may stop taking bytes.\<close>

type_synonym staging = "(string list \<times> string option) list"

record disk =
  fs_ident :: "string \<Rightarrow> string"
  mkdir_fails :: "string list \<Rightarrow> bool"
  create_fails :: "string list \<Rightarrow> bool"
  write_room :: "string list \<Rightarrow> nat option"

definition fs_path :: "disk \<Rightarrow> string list \<Rightarrow> string list" where
  "fs_path d path = map (fs_ident d) path"

text \<open>\<open>fs::create_dir_all\<close> below the directory that is there already.\<close>

fun create_dir_all :: "disk \<Rightarrow> string list \<Rightarrow> string list \<Rightarrow> staging \<Rightarrow> bool \<times> staging" where
  "create_dir_all d base [] st = (True, st)"
| "create_dir_all d base (c # cs) st =
     (let p = base @ [fs_ident d c] in
      case hget st p of
        Some None \<Rightarrow> create_dir_all d p cs st
      | Some (Some _) \<Rightarrow> (False, st)
      | None \<Rightarrow> if mkdir_fails d p then (False, st) else create_dir_all d p cs (hput p None st))"

section \<open>Extraction\<close>

datatype 'd zip_source = Stored "string option list" | Deflated "'d strict_deflate"

text \<open>A read of the stored data: an answer that is longer than the room is taken in parts.\<close>

fun pieces_read :: "string option list read" where
  "pieces_read n [] = (Some [], [])"
| "pieces_read n (None # ps) = (None, ps)"
| "pieces_read n (Some bs # ps) = (Some (take n bs), if length bs \<le> n then ps else Some (drop n bs) # ps)"

fun source_read :: "'d inflater \<Rightarrow> 'd zip_source read" where
  "source_read inflate n (Stored ps) = (case pieces_read n ps of (r, ps') \<Rightarrow> (r, Stored ps'))"
| "source_read inflate n (Deflated s) = (case deflate_read inflate n s of (r, s') \<Rightarrow> (r, Deflated s'))"

text \<open>The inflater, and the library's verifying reader around a source.\<close>

record ('v, 'd) codecs =
  inflate :: "'d inflater"
  fresh_decoder :: 'd
  verifying :: "'d zip_source read \<Rightarrow> ('v \<times> 'd zip_source) read"
  verify_start :: "nat \<Rightarrow> 'v"

definition source_of :: "('v, 'd) codecs \<Rightarrow> entry_plan \<Rightarrow> zip_local \<Rightarrow> 'd zip_source option" where
  "source_of c plan l =
     (case ep_method plan of
        STORE \<Rightarrow> Some (Stored (zl_data l))
      | DEFLATE \<Rightarrow> Some (Deflated (deflate_new (zl_data l) (fresh_decoder c) (ep_compressed plan)))
      | Method _ \<Rightarrow> None)"

text \<open>What the output takes of the bytes copied to it.\<close>

definition accepted :: "disk \<Rightarrow> entry_plan \<Rightarrow> string \<Rightarrow> string" where
  "accepted d plan out =
     (if ep_is_dir plan then out
      else (case write_room d (fs_path d (ep_path plan)) of None \<Rightarrow> out | Some k \<Rightarrow> take k out))"

definition keep_output :: "disk \<Rightarrow> entry_plan \<Rightarrow> string \<Rightarrow> staging \<Rightarrow> staging" where
  "keep_output d plan out st = (if ep_is_dir plan then st else hput (fs_path d (ep_path plan)) (Some out) st)"

text \<open>The copy of one entry into its output: the bytes copied, or the error.\<close>

definition copy_entry ::
  "('v, 'd) codecs \<Rightarrow> disk \<Rightarrow> entry_plan \<Rightarrow> zip_local \<Rightarrow> nat \<Rightarrow> staging \<Rightarrow> nat result \<times> staging" where
  "copy_entry c d plan l remaining st =
     (case source_of c plan l of
        None \<Rightarrow> (Inl (zip_refused ''release archive uses an unsupported compression method''), st)
      | Some source \<Rightarrow>
          (case copy_bounded (verifying c (source_read (inflate c))) remaining (verify_start c (ep_wayfinder plan), source) of
             (out, r, _) \<Rightarrow>
               let taken = accepted d plan out in
               (if taken \<noteq> out then Inl extraction_failed else r, keep_output d plan taken st)))"

definition extract_entry ::
  "('v, 'd) codecs \<Rightarrow> extraction_limits \<Rightarrow> zip_archive \<Rightarrow> disk \<Rightarrow> entry_plan \<Rightarrow> nat \<Rightarrow> staging \<Rightarrow> nat result \<times> staging" where
  "extract_entry c lim a d plan expanded_total st =
     (case create_dir_all d [] (if ep_is_dir plan then ep_path plan else butlast (ep_path plan)) st of
        (False, st1) \<Rightarrow> (Inl extraction_failed, st1)
      | (True, st1) \<Rightarrow>
          let target = fs_path d (ep_path plan) in
          if \<not> ep_is_dir plan \<and> (hget st1 target \<noteq> None \<or> create_fails d target) then (Inl extraction_failed, st1)
          else
            (let st2 = keep_output d plan [] st1 in
             case za_local_again a (ep_wayfinder plan) of
               None \<Rightarrow> (Inl archive_invalid, st2)
             | Some l \<Rightarrow>
                 if zl_range l \<noteq> ep_range plan then (Inl (zip_refused ''release archive entry offsets changed''), st2)
                 else
                   (case copy_entry c d plan l (min (entry_bytes lim) (total_bytes lim - expanded_total)) st2 of
                      (Inl err, st3) \<Rightarrow> (Inl err, st3)
                    | (Inr actual, st3) \<Rightarrow>
                        if actual \<noteq> ep_expanded plan
                        then (Inl (zip_refused ''release archive entry size is inconsistent''), st3)
                        else
                          (case checked_add expanded_total actual of
                             None \<Rightarrow> (Inl extraction_limit, st3)
                           | Some total' \<Rightarrow> (Inr total', st3)))))"

fun extract_entries ::
  "('v, 'd) codecs \<Rightarrow> extraction_limits \<Rightarrow> zip_archive \<Rightarrow> disk \<Rightarrow> entry_plan list \<Rightarrow> nat \<Rightarrow> staging \<Rightarrow> unit result \<times> staging" where
  "extract_entries c lim a d [] expanded_total st = (Inr (), st)"
| "extract_entries c lim a d (plan # plans) expanded_total st =
     (case extract_entry c lim a d plan expanded_total st of
        (Inl err, st') \<Rightarrow> (Inl err, st')
      | (Inr expanded_total', st') \<Rightarrow> extract_entries c lim a d plans expanded_total' st')"

definition extract_with_limits ::
  "path_rules \<Rightarrow> ('v, 'd) codecs \<Rightarrow> extraction_limits \<Rightarrow> zip_archive \<Rightarrow> disk \<Rightarrow> unit result \<times> staging" where
  "extract_with_limits rules c lim a d =
     (case make_plans rules lim a of
        Inl err \<Rightarrow> (Inl err, [])
      | Inr plans \<Rightarrow> extract_entries c lim a d plans 0 [])"

definition extract_archive :: "path_rules \<Rightarrow> ('v, 'd) codecs \<Rightarrow> zip_archive \<Rightarrow> disk \<Rightarrow> unit result \<times> staging" where
  "extract_archive rules c a d = extract_with_limits rules c DEFAULT_LIMITS a d"

section \<open>Hypotheses about the libraries\<close>

text \<open>What the documentation of the verifying reader promises: it passes the bytes of the reader it wraps, or
fails.\<close>

definition codecs_ok :: "('v, 'd) codecs \<Rightarrow> bool" where
  "codecs_ok c \<longleftrightarrow> inflater_ok (inflate c) \<and>
     (\<forall>read n v s bs v' s'. verifying c read n (v, s) = (Some bs, (v', s')) \<longrightarrow> read n s = (Some bs, s'))"

end
