(* ===== verification/ZipProps.thy ===== *)
theory ZipProps
  imports ZipExtract
begin

text \<open>
  The properties of archive extraction: what it may leave on the disk, that a finished extraction holds
  exactly the planned entries, and that no compressed byte is read twice.
\<close>

section \<open>Readers\<close>

lemma deflate_read_ok: "inflater_ok f \<Longrightarrow> read_ok (deflate_read f)"
  unfolding read_ok_def
proof (intro allI)
  fix n s
  assume f: "inflater_ok f"
  obtain r s' where r: "deflate_read f n s = (r, s')" by (metis surj_pair)
  show "case fst (deflate_read f n s) of None \<Rightarrow> True | Some bs \<Rightarrow> length bs \<le> n"
  proof (cases "sd_ended s")
    case True
    then show ?thesis by (simp add: deflate_read_def)
  next
    case False
    then have "deflate_sound (sd_total_in s + unread s) s" by (simp add: deflate_sound_def)
    then show ?thesis using deflate_read_sound [OF f _ r] r by (auto split: option.splits)
  qed
qed

lemma source_read_ok:
  assumes "inflater_ok f"
  shows "read_ok (source_read f)"
  unfolding read_ok_def
proof (intro allI)
  fix n :: nat and s
  show "case fst (source_read f n s) of None \<Rightarrow> True | Some bs \<Rightarrow> length bs \<le> n"
  proof (cases s)
    case (Stored ps)
    then show ?thesis by (cases "(n, ps)" rule: pieces_read.cases) auto
  next
    case (Deflated z)
    obtain r z' where r: "deflate_read f n z = (r, z')" by (metis surj_pair)
    show ?thesis using read_okD [OF deflate_read_ok [OF assms], of n z] r Deflated by (cases r) auto
  qed
qed

lemma codecs_okD:
  "codecs_ok c \<Longrightarrow> inflater_ok (inflate c)"
  "codecs_ok c \<Longrightarrow> verifying c read n (v, s) = (Some bs, (v', s')) \<Longrightarrow> read n s = (Some bs, s')"
  by (simp_all add: codecs_ok_def)

lemma verifying_ok:
  fixes c :: "('a, 'b) codecs"
  assumes c: "codecs_ok c"
  shows "read_ok (verifying c (source_read (inflate c)))"
  unfolding read_ok_def
proof (intro allI)
  fix n and vs :: "'a \<times> 'b zip_source"
  obtain v s where vs: "vs = (v, s)" by (cases vs)
  obtain r v' s' where r: "verifying c (source_read (inflate c)) n vs = (r, (v', s'))" by (metis surj_pair)
  show "case fst (verifying c (source_read (inflate c)) n vs) of None \<Rightarrow> True | Some bs \<Rightarrow> length bs \<le> n"
  proof (cases r)
    case (Some bs)
    have "source_read (inflate c) n s = (Some bs, s')" using codecs_okD(2) [OF c r [unfolded vs Some]] .
    then show ?thesis using read_okD [OF source_read_ok [OF codecs_okD(1) [OF c]]] r Some by simp
  qed (simp add: r)
qed

text \<open>A copy that succeeds through a reader succeeds through any reader that gives the same answers.\<close>

lemma copy_taken_sim:
  assumes sim: "\<And>n r q bs r'. R r q \<Longrightarrow> read n r = (Some bs, r') \<Longrightarrow> \<exists>q'. read2 n q = (Some bs, q') \<and> R r' q'"
  shows "R r q \<Longrightarrow> copy_taken read left r = (out, True, r') \<Longrightarrow> \<exists>q'. copy_taken read2 left q = (out, True, q') \<and> R r' q'"
proof (induction left arbitrary: r q out rule: less_induct)
  case (less left)
  show ?case
  proof (cases "left = 0")
    case True
    then show ?thesis using less.prems by (auto simp: copy_taken.simps)
  next
    case False
    obtain a r1 where a: "read (min 8192 left) r = (a, r1)" by (metis surj_pair)
    have "a \<noteq> None" using less.prems(2) a False by (cases a) (simp_all add: copy_taken.simps [of read left])
    then obtain bs where bs: "a = Some bs" by blast
    obtain q1 where q1: "read2 (min 8192 left) q = (Some bs, q1)" "R r1 q1" using sim [OF less.prems(1) a [unfolded bs]] by blast
    show ?thesis
    proof (cases bs)
      case Nil
      then show ?thesis using less.prems(2) a bs q1 False by (auto simp: copy_taken.simps [of _ left])
    next
      case (Cons b cs)
      obtain out' ok r2 where rest: "copy_taken read (left - Suc (length cs)) r1 = (out', ok, r2)" by (metis surj_pair)
      have out: "out = b # cs @ out'" "ok" "r2 = r'"
        using less.prems(2) False by (simp_all add: copy_taken.simps [of read left] a bs Cons rest)
      obtain q' where "copy_taken read2 (left - Suc (length cs)) q1 = (out', True, q')" "R r' q'"
        using less.IH [of "left - Suc (length cs)" r1 q1 out'] q1(2) rest out(2,3) False by auto
      then show ?thesis using False by (auto simp: copy_taken.simps [of read2 left] q1(1) Cons out(1))
    qed
  qed
qed

text \<open>The content of an entry: all that its source yields. A deflated one ends with the end marker after
exactly its compressed bytes.\<close>

definition source_yields :: "('v, 'd) codecs \<Rightarrow> entry_plan \<Rightarrow> zip_local \<Rightarrow> string \<Rightarrow> bool" where
  "source_yields c p l out \<longleftrightarrow>
     (\<exists>source left source'. source_of c p l = Some source \<and> length out < left \<and>
        copy_taken (source_read (inflate c)) left source = (out, True, source') \<and>
        (ep_method p = DEFLATE \<longrightarrow>
           (\<exists>z. source' = Deflated z \<and> sd_ended z \<and> sd_total_in z = ep_compressed p)))"

lemma deflated_copy:
  assumes c: "inflater_ok f" and z: "deflate_sound m z"
    and copy: "copy_taken (source_read f) left (Deflated z) = (out, True, s')" and room: "length out < left"
  shows "\<exists>z'. s' = Deflated z' \<and> sd_ended z' \<and> sd_total_in z' = sd_expected z"
proof -
  have "\<exists>q'. read2 n q = (Some bs, q') \<and> r' = Deflated q'"
    if "r = Deflated q" "source_read f n r = (Some bs, r')" "read2 = deflate_read f" for n r q bs r' read2
    using that by (auto split: prod.splits)
  then obtain z' where z': "copy_taken (deflate_read f) left z = (out, True, z')" "s' = Deflated z'"
    using copy_taken_sim [of "\<lambda>r q. r = Deflated q" "source_read f" "deflate_read f", OF _ refl copy] by blast
  show ?thesis using copy_taken_complete [OF c z z'(1) room] z'(2) by (auto simp: deflate_sound_def)
qed

lemma copy_source_yields:
  assumes c: "codecs_ok c" and small: "remaining + 1 < 2 ^ 64" and source: "source_of c p l = Some source"
    and copy: "copy_bounded (verifying c (source_read (inflate c))) remaining (v, source) = (out, Inr n, r')"
  shows "source_yields c p l out" "n = length out" "n \<le> remaining"
proof -
  show n: "n = length out" "n \<le> remaining" using copy_bounded_ok [OF copy] by simp_all
  have taken: "copy_taken (verifying c (source_read (inflate c))) (remaining + 1) (v, source) = (out, True, r')"
    using copy small by (auto simp: copy_bounded_def min_def split: prod.splits if_splits)
  have "\<exists>q'. source_read (inflate c) n q = (Some bs, q') \<and> snd r' = q'"
    if "snd r = q" "verifying c (source_read (inflate c)) n r = (Some bs, r')" for n r q bs r'
    using codecs_okD(2) [OF c, of "source_read (inflate c)" n "fst r" q bs "fst r'" "snd r'"] that by auto
  then obtain source' where inner: "copy_taken (source_read (inflate c)) (remaining + 1) source = (out, True, source')"
    using copy_taken_sim [of "\<lambda>r q. snd r = q" "verifying c (source_read (inflate c))" "source_read (inflate c)", OF _ _ taken]
    by (metis snd_conv)
  have room: "length out < remaining + 1" using n by simp
  have "\<exists>z. source' = Deflated z \<and> sd_ended z \<and> sd_total_in z = ep_compressed p" if "ep_method p = DEFLATE"
  proof -
    have s: "source = Deflated (deflate_new (zl_data l) (fresh_decoder c) (ep_compressed p))"
      using source that by (simp add: source_of_def)
    have e: "sd_expected (deflate_new (zl_data l) (fresh_decoder c) (ep_compressed p)) = ep_compressed p"
      by (simp add: deflate_new_def)
    show ?thesis using deflated_copy [OF codecs_okD(1) [OF c] deflate_new_sound inner [unfolded s] room] unfolding e .
  qed
  then show "source_yields c p l out" unfolding source_yields_def using source inner room by blast
qed

section \<open>The plan\<close>

lemma add_within_iff: "add_within e lim a b = Inr s \<longleftrightarrow> s = a + b \<and> a + b < 2 ^ 64 \<and> a + b \<le> lim"
  by (auto simp: add_within_def checked_add_def succeeds split: if_splits)

text \<open>What the plan of an entry says about it.\<close>

definition plans_entry :: "path_rules \<Rightarrow> extraction_limits \<Rightarrow> zip_archive \<Rightarrow> nat \<Rightarrow> zip_entry \<Rightarrow> entry_plan \<Rightarrow> bool" where
  "plans_entry rules lim a file_len e p \<longleftrightarrow>
     checked_path (norm_path rules) (ze_path e) (path_depth lim) = Inr (ep_path p, ep_is_dir p, length (ep_path p))
     \<and> ep_wayfinder p = ze_wayfinder e \<and> ep_method p = ze_method e \<and> ep_compressed p = ze_compressed e
     \<and> ep_expanded p = ze_expanded e \<and> ze_expanded e \<le> entry_bytes lim \<and> (ep_is_dir p \<longrightarrow> ze_expanded e = 0)
     \<and> ze_method e \<in> {STORE, DEFLATE} \<and> validate_flags (ze_flags e) (ze_method e) = Inr ()
     \<and> \<not> special_file e (ep_is_dir p) \<and> check_local a file_len e = Inr (ep_range p)"

lemma plan_path_ok:
  assumes "plan_path rules lim e s = Inr (path, is_dir, s')"
  shows "checked_path (norm_path rules) (ze_path e) (path_depth lim) = Inr (path, is_dir, length path)"
    "\<not> special_file e is_dir" "ps_components s' = ps_components s + length path" "ps_components s' \<le> path_components lim"
    "ps_expanded s' = ps_expanded s"
    "\<exists>spent spent'. node_insert (path_key rules) (path_metadata_limit lim) path is_dir spent (ps_trie s) = Inr (True, spent', ps_trie s')"
proof -
  obtain metadata parts components spent' trie where p:
    "checked_path (norm_path rules) (ze_path e) (path_depth lim) = Inr (path, is_dir, parts)"
    "\<not> special_file e is_dir" "add_within metadata_error (path_components lim) (ps_components s) parts = Inr components"
    "node_insert (path_key rules) (path_metadata_limit lim) path is_dir metadata (ps_trie s) = Inr (True, spent', trie)"
    "s' = s \<lparr> ps_metadata := spent', ps_components := components, ps_trie := trie \<rparr>"
    using assms by (auto simp: plan_path_def succeeds)
  have "parts = length path" using archive_paths_shape [OF p(1)] by simp
  then show "checked_path (norm_path rules) (ze_path e) (path_depth lim) = Inr (path, is_dir, length path)"
    "\<not> special_file e is_dir" "ps_components s' = ps_components s + length path" "ps_components s' \<le> path_components lim"
    "ps_expanded s' = ps_expanded s"
    "\<exists>spent spent'. node_insert (path_key rules) (path_metadata_limit lim) path is_dir spent (ps_trie s) = Inr (True, spent', ps_trie s')"
    using p by (auto simp: add_within_iff)
qed

lemma plan_entry_ok:
  assumes "plan_entry rules lim a file_len e s = Inr (p, s')"
  shows "plans_entry rules lim a file_len e p"
    "ps_components s' = ps_components s + length (ep_path p)" "ps_components s' \<le> path_components lim"
    "ps_expanded s' = ps_expanded s + ep_expanded p" "ps_expanded s' \<le> total_bytes lim"
    "\<exists>spent spent'. node_insert (path_key rules) (path_metadata_limit lim) (ep_path p) (ep_is_dir p) spent (ps_trie s)
        = Inr (True, spent', ps_trie s')"
proof -
  obtain path is_dir s1 rg expanded where p: "plan_path rules lim e s = Inr (path, is_dir, s1)"
    "validate_flags (ze_flags e) (ze_method e) = Inr ()" "ze_method e \<in> {STORE, DEFLATE}" "ze_expanded e \<le> entry_bytes lim"
    "is_dir \<longrightarrow> ze_expanded e = 0" "add_within extraction_limit (total_bytes lim) (ps_expanded s1) (ze_expanded e) = Inr expanded"
    "check_local a file_len e = Inr rg"
    "p = \<lparr> ep_wayfinder = ze_wayfinder e, ep_path = path, ep_is_dir = is_dir, ep_method = ze_method e,
           ep_compressed = ze_compressed e, ep_expanded = ze_expanded e, ep_range = rg \<rparr>"
    "s' = s1 \<lparr> ps_expanded := expanded \<rparr>"
    using assms by (auto simp: plan_entry_def succeeds)
  note path = plan_path_ok [OF p(1)]
  show "plans_entry rules lim a file_len e p"
    using p path by (simp add: plans_entry_def)
  show "ps_components s' = ps_components s + length (ep_path p)" "ps_components s' \<le> path_components lim"
    using p path by simp_all
  show "ps_expanded s' = ps_expanded s + ep_expanded p" "ps_expanded s' \<le> total_bytes lim"
    using p path by (simp_all add: add_within_iff)
  show "\<exists>spent spent'. node_insert (path_key rules) (path_metadata_limit lim) (ep_path p) (ep_is_dir p) spent (ps_trie s)
        = Inr (True, spent', ps_trie s')"
    using p path by simp
qed

lemma plan_entries_ok:
  assumes "plan_entries rules lim a file_len es n s = Inr ps"
  shows "list_all2 (\<lambda>oe p. \<exists>e. oe = Some e \<and> plans_entry rules lim a file_len e p) es ps"
    "ps \<noteq> [] \<Longrightarrow> ps_components s + (\<Sum>p\<leftarrow>ps. length (ep_path p)) \<le> path_components lim"
    "ps \<noteq> [] \<Longrightarrow> ps_expanded s + (\<Sum>p\<leftarrow>ps. ep_expanded p) \<le> total_bytes lim"
    "ps \<noteq> [] \<Longrightarrow> n + length ps \<le> entries_limit lim"
proof -
  have "list_all2 (\<lambda>oe p. \<exists>e. oe = Some e \<and> plans_entry rules lim a file_len e p) es ps \<and>
    (ps \<noteq> [] \<longrightarrow> ps_components s + (\<Sum>p\<leftarrow>ps. length (ep_path p)) \<le> path_components lim
      \<and> ps_expanded s + (\<Sum>p\<leftarrow>ps. ep_expanded p) \<le> total_bytes lim \<and> n + length ps \<le> entries_limit lim)"
    using assms
  proof (induction es arbitrary: n s ps)
    case (Cons oe es)
    obtain e p s' qs where p: "oe = Some e" "n < entries_limit lim" "plan_entry rules lim a file_len e s = Inr (p, s')"
      "plan_entries rules lim a file_len es (Suc n) s' = Inr qs" "ps = p # qs"
      using Cons.prems by (auto simp: succeeds)
    show ?case using plan_entry_ok [OF p(3)] Cons.IH [OF p(4)] p(1,2,5) by (cases "qs = []") auto
  qed simp
  then show "list_all2 (\<lambda>oe p. \<exists>e. oe = Some e \<and> plans_entry rules lim a file_len e p) es ps"
    "ps \<noteq> [] \<Longrightarrow> ps_components s + (\<Sum>p\<leftarrow>ps. length (ep_path p)) \<le> path_components lim"
    "ps \<noteq> [] \<Longrightarrow> ps_expanded s + (\<Sum>p\<leftarrow>ps. ep_expanded p) \<le> total_bytes lim"
    "ps \<noteq> [] \<Longrightarrow> n + length ps \<le> entries_limit lim"
    by auto
qed

lemma planned_from:
  assumes "plan_entries rules lim a file_len es n s = Inr ps" "p \<in> set ps"
  shows "\<exists>e. Some e \<in> set es \<and> plans_entry rules lim a file_len e p"
proof -
  have "list_all2 (\<lambda>oe p. \<exists>e. oe = Some e \<and> plans_entry rules lim a file_len e p) es ps"
    using plan_entries_ok(1) [OF assms(1)] .
  then show ?thesis using assms(2) by (induction es ps rule: list_all2_induct) auto
qed

lemma make_plans_ok:
  assumes "make_plans rules lim a = Inr ps"
  obtains file_len where "za_file_len a = Some file_len" "plan_entries rules lim a file_len (za_entries a) 0 plan_start = Inr ps"
    "length ps = za_hint a" "za_hint a \<le> entries_limit lim" "\<not> ranges_overlap ps"
  using assms by (auto simp: make_plans_def succeeds)

lemma check_local_range:
  assumes "check_local a file_len e = Inr rg"
  shows "fst rg \<le> snd rg" "snd rg \<le> file_len" "snd rg \<le> za_directory a" "snd rg - fst rg = ze_compressed e" "ze_local_offset e \<le> fst rg"
  using assms by (auto simp: check_local_def bad_range_def succeeds)

section \<open>Disjoint ranges\<close>

text \<open>Ranges in the order of their starts that do not overlap their neighbours are apart, and their lengths
add up to no more than the end of the last.\<close>

lemma windows_disjoint:
  "\<not> windows_overlap rs \<Longrightarrow> list_all (\<lambda>r. fst r \<le> snd r) rs \<Longrightarrow>
     sorted_wrt (\<lambda>r r'. snd r \<le> fst r') rs"
proof (induction rs rule: windows_overlap.induct)
  case (1 r r' rs)
  have s: "sorted_wrt (\<lambda>r r'. snd r \<le> fst r') (r' # rs)" using 1 by simp
  have "snd r \<le> fst q" if "q \<in> set (r' # rs)" for q
  proof (cases "q = r'")
    case False
    then have "snd r' \<le> fst q" using s that by auto
    moreover have "snd r \<le> fst r'" "fst r' \<le> snd r'" using 1(2,3) by simp_all
    ultimately show ?thesis by simp
  qed (use 1(2) in simp)
  then show ?case using s by simp
qed simp_all

lemma disjoint_sum:
  "sorted_wrt (\<lambda>r r'. snd r \<le> fst r') rs \<Longrightarrow> list_all (\<lambda>r. lo \<le> fst r \<and> fst r \<le> snd r \<and> snd r \<le> m) rs \<Longrightarrow>
     lo + (\<Sum>r\<leftarrow>rs. snd r - fst r) \<le> max lo (m :: nat)"
proof (induction rs arbitrary: lo)
  case (Cons r rs)
  have "list_all (\<lambda>r'. snd r \<le> fst r' \<and> fst r' \<le> snd r' \<and> snd r' \<le> m) rs"
    using Cons.prems by (auto simp: list_all_iff)
  then have "snd r + (\<Sum>r\<leftarrow>rs. snd r - fst r) \<le> max (snd r) m" using Cons.IH [of "snd r"] Cons.prems(1) by simp
  then show ?case using Cons.prems(2) by auto
qed simp

lemma plan_ranges:
  assumes "make_plans rules lim a = Inr ps" "za_file_len a = Some file_len"
  shows "\<forall>p \<in> set ps. fst (ep_range p) \<le> snd (ep_range p) \<and> snd (ep_range p) \<le> file_len
     \<and> snd (ep_range p) - fst (ep_range p) = ep_compressed p"
proof
  fix p assume p: "p \<in> set ps"
  obtain e where "plans_entry rules lim a file_len e p"
    using make_plans_ok [OF assms(1)] planned_from p assms(2) by (metis option.inject)
  then show "fst (ep_range p) \<le> snd (ep_range p) \<and> snd (ep_range p) \<le> file_len
     \<and> snd (ep_range p) - fst (ep_range p) = ep_compressed p"
    using check_local_range [of a file_len e "ep_range p"] by (simp add: plans_entry_def)
qed

lemma sorted_wrt_insort_sym:
  assumes "\<And>x y. R x y \<Longrightarrow> R y x"
  shows "sorted_wrt R (insort_key f x xs) \<longleftrightarrow> (\<forall>y \<in> set xs. R x y) \<and> sorted_wrt R xs"
  by (induction xs) (use assms in \<open>auto simp: set_insort_key\<close>)

lemma sorted_wrt_sort_sym:
  assumes "\<And>x y. R x y \<Longrightarrow> R y x"
  shows "sorted_wrt R (sort_key f xs) \<longleftrightarrow> sorted_wrt R xs"
  by (induction xs) (simp_all add: sorted_wrt_insort_sym [OF assms])

lemma sum_sort: "(\<Sum>x\<leftarrow>sort_key f xs. g x) = ((\<Sum>x\<leftarrow>xs. g x) :: nat)"
proof (induction xs)
  case (Cons x xs)
  have "(\<Sum>x\<leftarrow>insort_key f y ys. g x) = g y + (\<Sum>x\<leftarrow>ys. g x)" for y ys by (induction ys) auto
  then show ?case using Cons by simp
qed simp

lemma sorted_wrt_filter_all:
  "sorted_wrt R (filter P xs) \<Longrightarrow> sorted_wrt (\<lambda>x y. P x \<longrightarrow> P y \<longrightarrow> R x y) xs"
  by (induction xs) (auto split: if_splits)

text \<open>C27. The data ranges of a planned archive are disjoint, and the compressed sizes add up to no more than
the length of the file: no byte of the archive feeds two entries.\<close>

theorem no_byte_feeds_two_entries:
  assumes plans: "make_plans rules lim a = Inr ps" and len: "za_file_len a = Some file_len"
  shows "(\<Sum>p\<leftarrow>ps. ep_compressed p) \<le> file_len
    \<and> sorted_wrt (\<lambda>p q. {fst (ep_range p)..<snd (ep_range p)} \<inter> {fst (ep_range q)..<snd (ep_range q)} = {}) ps"
proof -
  define full where "full = (\<lambda>r :: nat \<times> nat. fst r < snd r)"
  define rs where "rs = sort_key fst (filter full (map ep_range ps))"
  have over: "\<not> windows_overlap rs"
  proof -
    have "full = (\<lambda>(start, stop). start < stop)" by (auto simp: full_def)
    moreover have "\<not> ranges_overlap ps" using plans by (auto elim: make_plans_ok)
    ultimately show ?thesis by (simp add: ranges_overlap_def rs_def)
  qed
  note good = plan_ranges [OF plans len]
  have ok: "list_all (\<lambda>r. 0 \<le> fst r \<and> fst r \<le> snd r \<and> snd r \<le> file_len) rs"
  proof -
    have "set rs \<subseteq> ep_range ` set ps" by (auto simp: rs_def)
    then show ?thesis using good unfolding list_all_iff by blast
  qed
  have apart: "sorted_wrt (\<lambda>r r'. snd r \<le> fst r') rs"
    using windows_disjoint [OF over] ok by (auto simp: list_all_iff)
  have "(\<Sum>p\<leftarrow>ps. ep_compressed p) = (\<Sum>r\<leftarrow>map ep_range ps. snd r - fst r)"
    using good by (auto intro!: arg_cong [of _ _ sum_list])
  also have "\<dots> = (\<Sum>r\<leftarrow>filter full (map ep_range ps). snd r - fst r)"
    by (induction ps) (auto simp: full_def)
  also have "\<dots> = (\<Sum>r\<leftarrow>rs. snd r - fst r)"
    unfolding rs_def by (rule sum_sort [symmetric])
  also have "\<dots> \<le> file_len" using disjoint_sum [OF apart ok] by simp
  finally have sum: "(\<Sum>p\<leftarrow>ps. ep_compressed p) \<le> file_len" .
  have "sorted_wrt (\<lambda>r r'. snd r \<le> fst r' \<or> snd r' \<le> fst r) rs"
    by (rule sorted_wrt_mono_rel [OF _ apart]) simp
  then have "sorted_wrt (\<lambda>r r'. snd r \<le> fst r' \<or> snd r' \<le> fst r) (filter full (map ep_range ps))"
    unfolding rs_def by (subst (asm) sorted_wrt_sort_sym) auto
  then have "sorted_wrt (\<lambda>p q. full (ep_range p) \<longrightarrow> full (ep_range q) \<longrightarrow>
      snd (ep_range p) \<le> fst (ep_range q) \<or> snd (ep_range q) \<le> fst (ep_range p)) ps"
    using sorted_wrt_filter_all by (fastforce simp: sorted_wrt_map)
  then have "sorted_wrt (\<lambda>p q. {fst (ep_range p)..<snd (ep_range p)} \<inter> {fst (ep_range q)..<snd (ep_range q)} = {}) ps"
    by (rule sorted_wrt_mono_rel [rotated]) (auto simp: full_def)
  then show ?thesis using sum by simp
qed

section \<open>What a step of the extraction leaves\<close>

fun file_bytes :: "staging \<Rightarrow> nat" where
  "file_bytes [] = 0"
| "file_bytes ((_, Some bs) # st) = length bs + file_bytes st"
| "file_bytes ((_, None) # st) = file_bytes st"

lemma file_bytes_append [simp]: "file_bytes (st @ st') = file_bytes st + file_bytes st'"
  by (induction st rule: file_bytes.induct) simp_all

lemma hput_fresh: "hget st k = None \<Longrightarrow> hput k v st = st @ [(k, v)]"
  by (induction st) (auto split: if_splits)

lemma hput_last: "hget st k = None \<Longrightarrow> hput k v (st @ [(k, w)]) = st @ [(k, v)]"
  by (induction st) (auto split: if_splits)

lemma hget_append_Some: "hget st k = Some v \<Longrightarrow> hget (st @ st') k = Some v"
  by (simp add: map_add_def)

definition directories :: "staging \<Rightarrow> bool" where
  "directories st \<longleftrightarrow> list_all (\<lambda>(_, v). v = None) st"

lemma directories_bytes: "directories st \<Longrightarrow> file_bytes st = 0"
  by (induction st rule: file_bytes.induct) (auto simp: directories_def)

lemma create_dir_all_adds:
  "create_dir_all d base cs st = (ok, st') \<Longrightarrow>
     \<exists>new. st' = st @ new \<and> directories new \<and> length new \<le> length cs \<and>
        (ok \<longrightarrow> cs \<noteq> [] \<longrightarrow> hget st' (base @ fs_path d cs) = Some None)"
proof (induction cs arbitrary: base st)
  case Nil
  then show ?case by (auto simp: directories_def)
next
  case (Cons c cs)
  let ?p = "base @ [fs_ident d c]"
  have step: ?case
    if st1: "st1 = st @ n1" "directories n1" "length n1 \<le> 1" "hget st1 ?p = Some None"
      and run: "create_dir_all d ?p cs st1 = (ok, st')" for st1 n1
  proof -
    obtain n2 where n2: "st' = st1 @ n2" "directories n2" "length n2 \<le> length cs"
      "ok \<longrightarrow> cs \<noteq> [] \<longrightarrow> hget st' (?p @ fs_path d cs) = Some None"
      using Cons.IH [OF run] by blast
    have "hget st' ?p = Some None" using hget_append_Some [OF st1(4)] n2(1) by simp
    then have "ok \<longrightarrow> hget st' (base @ fs_path d (c # cs)) = Some None"
      using n2(4) by (cases cs) (simp_all add: fs_path_def)
    moreover have "st' = st @ (n1 @ n2)" "directories (n1 @ n2)" "length (n1 @ n2) \<le> length (c # cs)"
      using st1 n2 by (simp_all add: directories_def)
    ultimately show ?thesis by blast
  qed
  show ?case
  proof (cases "hget st ?p")
    case (Some v)
    show ?thesis
    proof (cases v)
      case None
      then show ?thesis using step [of st "[]"] Some Cons.prems by (simp add: directories_def)
    next
      case (Some bs)
      then have "ok = False" "st' = st" using \<open>hget st ?p = Some v\<close> Cons.prems by simp_all
      then show ?thesis by (auto simp: directories_def)
    qed
  next
    case None
    show ?thesis
    proof (cases "mkdir_fails d ?p")
      case True
      then have "ok = False" "st' = st" using None Cons.prems by simp_all
      then show ?thesis by (auto simp: directories_def)
    next
      case False
      then show ?thesis
        using step [of "hput ?p None st" "[(?p, None)]"] None Cons.prems
        by (simp add: hput_fresh directories_def map_add_def Let_def)
    qed
  qed
qed

text \<open>What the staging directory holds of an entry that was written.\<close>

definition entry_written :: "('v, 'd) codecs \<Rightarrow> zip_archive \<Rightarrow> disk \<Rightarrow> entry_plan \<Rightarrow> staging \<Rightarrow> bool" where
  "entry_written c a d p st \<longleftrightarrow>
     (if ep_is_dir p then hget st (fs_path d (ep_path p)) = Some None
      else (\<exists>out l. hget st (fs_path d (ep_path p)) = Some (Some out) \<and> length out = ep_expanded p \<and>
              za_local_again a (ep_wayfinder p) = Some l \<and> zl_range l = ep_range p \<and> source_yields c p l out))"

lemma entry_written_append: "entry_written c a d p st \<Longrightarrow> entry_written c a d p (st @ st')"
  unfolding entry_written_def by (cases "ep_is_dir p") (simp add: hget_append_Some, metis hget_append_Some)

definition room_for :: "extraction_limits \<Rightarrow> nat \<Rightarrow> nat" where
  "room_for lim spent = min (entry_bytes lim) (total_bytes lim - spent)"

lemma copy_entry_adds:
  assumes c: "codecs_ok c" and small: "total_bytes lim + 1 < 2 ^ 64" and fresh: "\<not> ep_is_dir p \<Longrightarrow> hget st (fs_path d (ep_path p)) = None"
    and copy: "copy_entry c d p l (room_for lim spent) (keep_output d p [] st) = (r, st')"
  shows "\<exists>taken. st' = (if ep_is_dir p then st else st @ [(fs_path d (ep_path p), Some taken)])
     \<and> length taken \<le> room_for lim spent + 1 \<and> (\<forall>n. r = Inr n \<longrightarrow> n = length taken \<and> n \<le> room_for lim spent \<and> source_yields c p l taken)"
proof (cases "source_of c p l")
  case None
  then have "st' = keep_output d p [] st" "\<exists>e. r = Inl e" using copy by (auto simp: copy_entry_def)
  then show ?thesis using fresh by (intro exI [of _ "[]"]) (auto simp: keep_output_def hput_fresh)
next
  case (Some source)
  have small': "room_for lim spent + 1 < 2 ^ 64" using small by (auto simp: room_for_def min_def)
  obtain out q r' where run: "copy_bounded (verifying c (source_read (inflate c))) (room_for lim spent)
      (verify_start c (ep_wayfinder p), source) = (out, q, r')" by (metis prod_cases3)
  let ?taken = "accepted d p out"
  have r: "r = (if ?taken \<noteq> out then Inl extraction_failed else q)" "st' = keep_output d p ?taken (keep_output d p [] st)"
    using copy by (simp_all add: copy_entry_def Some run Let_def)
  have "length out \<le> room_for lim spent + 1" using copy_bounded_length [OF verifying_ok [OF c]] run by (metis fst_conv)
  moreover have "length ?taken \<le> length out" by (simp add: accepted_def split: option.split)
  moreover have "st' = (if ep_is_dir p then st else st @ [(fs_path d (ep_path p), Some ?taken)])"
    using r(2) fresh by (simp add: keep_output_def hput_fresh hput_last)
  moreover have "n = length ?taken \<and> n \<le> room_for lim spent \<and> source_yields c p l ?taken" if "r = Inr n" for n
  proof -
    have "?taken = out" "q = Inr n" using that r(1) by (auto split: if_splits)
    then show ?thesis using copy_source_yields [OF c small' Some run [unfolded \<open>q = Inr n\<close>]] by simp
  qed
  ultimately show ?thesis by (intro exI [of _ ?taken]) simp
qed

lemma extract_entry_adds:
  assumes c: "codecs_ok c" and small: "total_bytes lim + 1 < 2 ^ 64" and path: "ep_path p \<noteq> []"
    and dir: "ep_is_dir p \<Longrightarrow> ep_expanded p = 0" and spent: "spent \<le> total_bytes lim"
    and step: "extract_entry c lim a d p spent st = (r, st')"
  shows "\<exists>new. st' = st @ new \<and> length new \<le> length (ep_path p) \<and> file_bytes new \<le> room_for lim spent + 1 \<and>
     (\<forall>total'. r = Inr total' \<longrightarrow> total' = spent + ep_expanded p \<and> total' \<le> total_bytes lim \<and> file_bytes new = ep_expanded p
        \<and> entry_written c a d p st')"
proof -
  let ?t = "fs_path d (ep_path p)"
  obtain ok st1 where mk: "create_dir_all d [] (if ep_is_dir p then ep_path p else butlast (ep_path p)) st = (ok, st1)"
    by (metis surj_pair)
  obtain n1 where n1: "st1 = st @ n1" "directories n1" "length n1 \<le> length (ep_path p)" "\<not> ep_is_dir p \<Longrightarrow> length n1 < length (ep_path p)"
    "ok \<Longrightarrow> ep_is_dir p \<Longrightarrow> hget st1 ?t = Some None"
  proof -
    have len: "length (butlast (ep_path p)) < length (ep_path p)" using path by simp
    obtain new where new: "st1 = st @ new" "directories new"
      "length new \<le> length (if ep_is_dir p then ep_path p else butlast (ep_path p))"
      "ok \<longrightarrow> (if ep_is_dir p then ep_path p else butlast (ep_path p)) \<noteq> [] \<longrightarrow>
         hget st1 ([] @ fs_path d (if ep_is_dir p then ep_path p else butlast (ep_path p))) = Some None"
      using create_dir_all_adds [OF mk] by blast
    show thesis
    proof (rule that [OF new(1,2)])
      show "length new \<le> length (ep_path p)" using new(3) len by (simp split: if_splits)
      show "length new < length (ep_path p)" if "\<not> ep_is_dir p" using that new(3) len by simp
      show "hget st1 ?t = Some None" if "ok" "ep_is_dir p" using that new(4) path by simp
    qed
  qed
  have b1: "file_bytes n1 = 0" using directories_bytes [OF n1(2)] .
  show ?thesis
  proof (cases "ok \<and> \<not> (\<not> ep_is_dir p \<and> (hget st1 ?t \<noteq> None \<or> create_fails d ?t))")
    case False
    then have "(\<exists>e. r = Inl e) \<and> st' = st1" using step mk by (cases ok) (auto simp: extract_entry_def Let_def split: if_splits)
    then show ?thesis using n1 b1 by auto
  next
    case True
    then have fresh: "\<not> ep_is_dir p \<Longrightarrow> hget st1 ?t = None" and ok: ok by auto
    let ?st2 = "keep_output d p [] st1"
    have st2: "?st2 = (if ep_is_dir p then st1 else st1 @ [(?t, Some [])])" using fresh by (simp add: keep_output_def hput_fresh)
    have failed: ?thesis if "r = Inl e" "st' = (if ep_is_dir p then st1 else st1 @ [(?t, Some taken)])"
      "length taken \<le> room_for lim spent + 1" for e taken
      using that n1 b1 by (auto split: if_splits)
    show ?thesis
    proof (cases "\<exists>l. za_local_again a (ep_wayfinder p) = Some l \<and> zl_range l = ep_range p")
      case False
      then have "\<exists>e. r = Inl e" "st' = ?st2"
        using step mk True by (auto simp: extract_entry_def Let_def split: option.splits if_splits)
      then show ?thesis using failed [of _ "[]"] st2 by auto
    next
      case True2: True
      then obtain l where l: "za_local_again a (ep_wayfinder p) = Some l" "zl_range l = ep_range p" by blast
      obtain q st3 where copy: "copy_entry c d p l (room_for lim spent) ?st2 = (q, st3)" by (metis surj_pair)
      obtain taken where taken: "st3 = (if ep_is_dir p then st1 else st1 @ [(?t, Some taken)])"
        "length taken \<le> room_for lim spent + 1"
        "\<And>n. q = Inr n \<Longrightarrow> n = length taken \<and> n \<le> room_for lim spent \<and> source_yields c p l taken"
        using copy_entry_adds [OF c small fresh copy] by blast
      have run: "(r, st') = (case q of Inl err \<Rightarrow> (Inl err, st3)
          | Inr actual \<Rightarrow> if actual \<noteq> ep_expanded p then (Inl (zip_refused ''release archive entry size is inconsistent''), st3)
             else (case checked_add spent actual of None \<Rightarrow> (Inl extraction_limit, st3) | Some t \<Rightarrow> (Inr t, st3)))"
        using step mk True l copy by (cases "ep_is_dir p") (simp_all add: extract_entry_def Let_def room_for_def)
      show ?thesis
      proof (cases "\<exists>n. q = Inr n \<and> n = ep_expanded p \<and> checked_add spent n \<noteq> None")
        case False
        then have "\<exists>e. r = Inl e" "st' = st3" using run by (auto split: sum.splits if_splits option.splits)
        then show ?thesis using failed taken(1,2) by auto
      next
        case True3: True
        then have q: "q = Inr (ep_expanded p)" by auto
        have r: "r = Inr (spent + ep_expanded p)" "st' = st3"
          using run True3 q by (auto simp: checked_add_def split: if_splits)
        have len: "ep_expanded p = length taken" "ep_expanded p \<le> room_for lim spent" "source_yields c p l taken" using taken(3) [OF q] by simp_all
        have "spent + ep_expanded p \<le> total_bytes lim" using len(2) spent by (auto simp: room_for_def)
        moreover have "entry_written c a d p st3"
          unfolding entry_written_def using taken(1) l len n1(5) [OF ok] fresh
          by (auto simp: map_add_def split: option.split)
        ultimately show ?thesis
          using r taken(1,2) n1 b1 len dir by (cases "ep_is_dir p") auto
      qed
    qed
  qed
qed

lemma extract_entries_adds:
  assumes c: "codecs_ok c" and small: "total_bytes lim + 1 < 2 ^ 64"
  shows "list_all (\<lambda>p. ep_path p \<noteq> [] \<and> (ep_is_dir p \<longrightarrow> ep_expanded p = 0)) ps \<Longrightarrow> spent \<le> total_bytes lim \<Longrightarrow>
    extract_entries c lim a d ps spent st = (r, st') \<Longrightarrow>
    \<exists>new. st' = st @ new \<and> length new \<le> (\<Sum>p\<leftarrow>ps. length (ep_path p)) \<and> spent + file_bytes new \<le> total_bytes lim + 1
      \<and> list_all (\<lambda>(_, v). \<forall>bs. v = Some bs \<longrightarrow> length bs \<le> entry_bytes lim + 1) new
      \<and> (r = Inr () \<longrightarrow> file_bytes new = (\<Sum>p\<leftarrow>ps. ep_expanded p) \<and> (\<forall>p \<in> set ps. entry_written c a d p st'))"
proof (induction ps arbitrary: spent st)
  case (Cons p ps)
  obtain q st1 where step: "extract_entry c lim a d p spent st = (q, st1)" by (metis surj_pair)
  have p: "ep_path p \<noteq> []" "ep_is_dir p \<Longrightarrow> ep_expanded p = 0" using Cons.prems(1) by simp_all
  obtain n1 where n1: "st1 = st @ n1" "length n1 \<le> length (ep_path p)" "file_bytes n1 \<le> room_for lim spent + 1"
    "\<And>total'. q = Inr total' \<Longrightarrow> total' = spent + ep_expanded p \<and> total' \<le> total_bytes lim \<and> file_bytes n1 = ep_expanded p
        \<and> entry_written c a d p st1"
    using extract_entry_adds [OF c small p Cons.prems(2) step] by blast
  have each: "list_all (\<lambda>(_, v). \<forall>bs. v = Some bs \<longrightarrow> length bs \<le> entry_bytes lim + 1) n1"
  proof -
    have "file_bytes n1 \<le> entry_bytes lim + 1" using n1(3) by (simp add: room_for_def)
    then show ?thesis by (induction n1 rule: file_bytes.induct) auto
  qed
  show ?case
  proof (cases q)
    case (Inl e)
    then have "r = Inl e" "st' = st1" using Cons.prems(3) step by simp_all
    then show ?thesis using n1(1-3) each Cons.prems(2) by (auto simp: room_for_def)
  next
    case (Inr total')
    note t = n1(4) [OF Inr]
    have rest: "extract_entries c lim a d ps total' st1 = (r, st')" using Cons.prems(3) step Inr by simp
    obtain n2 where n2: "st' = st1 @ n2" "length n2 \<le> (\<Sum>p\<leftarrow>ps. length (ep_path p))" "total' + file_bytes n2 \<le> total_bytes lim + 1"
      "list_all (\<lambda>(_, v). \<forall>bs. v = Some bs \<longrightarrow> length bs \<le> entry_bytes lim + 1) n2"
      "r = Inr () \<Longrightarrow> file_bytes n2 = (\<Sum>p\<leftarrow>ps. ep_expanded p) \<and> (\<forall>p \<in> set ps. entry_written c a d p st')"
      using Cons.IH [OF _ _ rest] Cons.prems(1) t by auto
    show ?thesis
    proof (intro exI [of _ "n1 @ n2"] conjI impI)
      assume "r = Inr ()"
      note ok = n2(5) [OF this]
      show "file_bytes (n1 @ n2) = (\<Sum>p\<leftarrow>p # ps. ep_expanded p)" using ok t by simp
      show "\<forall>q \<in> set (p # ps). entry_written c a d q st'"
        using ok t entry_written_append [of c a d p st1 n2] n2(1) by auto
    qed (use n1 n2 t each in auto)
  qed
qed simp

section \<open>The extraction as a whole\<close>

lemma plans_shape:
  assumes "make_plans rules lim a = Inr ps"
  shows "list_all (\<lambda>p. ep_path p \<noteq> [] \<and> (ep_is_dir p \<longrightarrow> ep_expanded p = 0)) ps"
    "(\<Sum>p\<leftarrow>ps. length (ep_path p)) \<le> path_components lim" "(\<Sum>p\<leftarrow>ps. ep_expanded p) \<le> total_bytes lim"
    "length ps \<le> entries_limit lim"
proof -
  obtain file_len where run: "plan_entries rules lim a file_len (za_entries a) 0 plan_start = Inr ps"
    "length ps = za_hint a" "za_hint a \<le> entries_limit lim"
    using assms by (rule make_plans_ok)
  note ok = plan_entries_ok [OF run(1)]
  have "ep_path p \<noteq> [] \<and> (ep_is_dir p \<longrightarrow> ep_expanded p = 0)" if "p \<in> set ps" for p
  proof -
    obtain e where e: "plans_entry rules lim a file_len e p" using planned_from [OF run(1) \<open>p \<in> set ps\<close>] by blast
    then have "checked_path (norm_path rules) (ze_path e) (path_depth lim) = Inr (ep_path p, ep_is_dir p, length (ep_path p))"
      by (simp add: plans_entry_def)
    then show ?thesis using archive_paths_shape(2) e by (auto simp: plans_entry_def)
  qed
  then show "list_all (\<lambda>p. ep_path p \<noteq> [] \<and> (ep_is_dir p \<longrightarrow> ep_expanded p = 0)) ps" by (simp add: list_all_iff)
  show "(\<Sum>p\<leftarrow>ps. length (ep_path p)) \<le> path_components lim" "(\<Sum>p\<leftarrow>ps. ep_expanded p) \<le> total_bytes lim"
    using ok(2,3) by (cases "ps = []"; simp add: plan_start_def)+
  show "length ps \<le> entries_limit lim" using run by simp
qed

lemma extraction_adds:
  assumes "codecs_ok c" "total_bytes lim + 1 < 2 ^ 64" "make_plans rules lim a = Inr ps"
    "extract_with_limits rules c lim a d = (r, st)"
  shows "length st \<le> path_components lim" "file_bytes st \<le> total_bytes lim + 1"
    "list_all (\<lambda>(_, v). \<forall>bs. v = Some bs \<longrightarrow> length bs \<le> entry_bytes lim + 1) st"
    "r = Inr () \<Longrightarrow> file_bytes st = (\<Sum>p\<leftarrow>ps. ep_expanded p)" "r = Inr () \<Longrightarrow> p \<in> set ps \<Longrightarrow> entry_written c a d p st"
proof -
  have "extract_entries c lim a d ps 0 [] = (r, st)" using assms(3,4) by (simp add: extract_with_limits_def)
  note all = extract_entries_adds [OF assms(1,2) plans_shape(1) [OF assms(3)] _ this]
  show "length st \<le> path_components lim" "file_bytes st \<le> total_bytes lim + 1"
    "list_all (\<lambda>(_, v). \<forall>bs. v = Some bs \<longrightarrow> length bs \<le> entry_bytes lim + 1) st"
    "r = Inr () \<Longrightarrow> file_bytes st = (\<Sum>p\<leftarrow>ps. ep_expanded p)" "r = Inr () \<Longrightarrow> p \<in> set ps \<Longrightarrow> entry_written c a d p st"
    using all plans_shape(2) [OF assms(3)] by auto
qed

text \<open>C26. Whatever an archive holds and however its extraction ends, the staging directory has at most one
byte more than the archive limit in its files, one byte more than the entry limit in each, and no more files
and directories than the component limit; a finished extraction stays within both byte limits.\<close>

theorem extraction_is_bounded:
  assumes "codecs_ok c" "total_bytes lim + 1 < 2 ^ 64" "extract_with_limits rules c lim a d = (r, st)"
  shows "length st \<le> path_components lim \<and> file_bytes st \<le> total_bytes lim + 1
    \<and> (\<forall>path bs. hget st path = Some (Some bs) \<longrightarrow> length bs \<le> entry_bytes lim + 1)
    \<and> (r = Inr () \<longrightarrow> file_bytes st \<le> total_bytes lim)"
proof (cases "make_plans rules lim a")
  case (Inl e)
  then show ?thesis using assms(3) by (simp add: extract_with_limits_def)
next
  case (Inr ps)
  note b = extraction_adds [OF assms(1,2) Inr assms(3)]
  have "length bs \<le> entry_bytes lim + 1" if "hget st path = Some (Some bs)" for path bs
    using b(3) map_of_SomeD [OF that] by (auto simp: list_all_iff)
  then show ?thesis using b(1,2,4) plans_shape(3) [OF Inr] by auto
qed


section \<open>An example archive\<close>

text \<open>One stored file, read through a verifying reader that passes everything on.\<close>

definition example_flags :: entry_flags where
  "example_flags = \<lparr> flag_bits = 0, is_encrypted = False, has_strong_encryption = False, is_masked = False,
     has_data_descriptor = False \<rparr>"

definition example_local :: zip_local where
  "example_local = \<lparr> zl_range = (31, 33), zl_header = Some \<lparr> lh_path = ''a'', lh_method = STORE, lh_flags = example_flags,
     lh_crc = 7, lh_compressed = 2, lh_expanded = 2, lh_zip64_extra = False \<rparr>, zl_data = [Some ''hi''] \<rparr>"

definition example_archive :: zip_archive where
  "example_archive = \<lparr> za_file_len = Some 99, za_valid = True, za_hint = 1, za_directory = 33,
     za_entries = [Some \<lparr> ze_wayfinder = 0, ze_path = ''a'', ze_creator = UNIX, ze_attributes = 0, ze_method = STORE,
        ze_flags = example_flags, ze_crc = 7, ze_compressed = 2, ze_expanded = 2, ze_local_offset = 0 \<rparr>],
     za_local = (\<lambda>_. Some example_local), za_local_again = (\<lambda>_. Some example_local), za_contents = (\<lambda>_. None) \<rparr>"

definition example_rules :: path_rules where
  "example_rules = \<lparr> valid_utf8 = (\<lambda>_. True), norm_path = Some, path_key = Inr \<rparr>"

definition example_codecs :: "(unit, unit) codecs" where
  "example_codecs = \<lparr> inflate = (\<lambda>_ _ _ _. None), fresh_decoder = (),
     verifying = (\<lambda>read n vs. case read n (snd vs) of (r, s') \<Rightarrow> (r, (fst vs, s'))), verify_start = (\<lambda>_. ()) \<rparr>"

definition example_disk :: disk where
  "example_disk = \<lparr> fs_ident = (\<lambda>c. c), mkdir_fails = (\<lambda>_. False), create_fails = (\<lambda>_. False), write_room = (\<lambda>_. None) \<rparr>"

lemma example_codecs_ok: "codecs_ok example_codecs"
  by (auto simp: codecs_ok_def example_codecs_def inflater_ok_def split: prod.splits)

lemma example_path: "checked_path Some ''a'' 128 = Inr ([''a''], False, 1)"
  by code_simp

lemma example_plan:
  "make_plans example_rules DEFAULT_LIMITS example_archive =
     Inr [\<lparr> ep_wayfinder = 0, ep_path = [''a''], ep_is_dir = False, ep_method = STORE, ep_compressed = 2, ep_expanded = 2,
            ep_range = (31, 33) \<rparr>]"
proof -
  have flags: "validate_flags example_flags STORE = Inr ()" "\<not> has_data_descriptor example_flags" by (simp_all add: validate_flags_def example_flags_def Let_def)
  show ?thesis
    by (simp add: make_plans_def plan_entry_def plan_path_def add_within_def checked_add_def example_archive_def example_rules_def
        DEFAULT_LIMITS_def example_path flags special_file_def plan_start_def empty_node_def normal_component_def
        check_local_def bad_range_def example_local_def check_sizes_def ranges_overlap_def)
qed

lemma example_extraction:
  "extract_with_limits example_rules example_codecs DEFAULT_LIMITS example_archive example_disk = (Inr (), [([''a''], Some ''hi'')])"
proof -
  have copy: "copy_bounded (verifying example_codecs (source_read (inflate example_codecs))) 1073741824 ((), Stored [Some ''hi''])
      = (''hi'', Inr 2, ((), Stored []))"
    by (simp add: copy_bounded_def copy_taken.simps example_codecs_def)
  have again: "za_local_again example_archive 0 = Some example_local" by (simp add: example_archive_def)
  have data: "zl_range example_local = (31, 33)" "zl_data example_local = [Some ''hi'']" by (simp_all add: example_local_def)
  have lim: "entry_bytes DEFAULT_LIMITS = 1073741824" "total_bytes DEFAULT_LIMITS = 2147483648" by (simp_all add: DEFAULT_LIMITS_def)
  have disk: "fs_ident example_disk c = c" "\<not> create_fails example_disk path" "write_room example_disk path = None" for c path
    by (simp_all add: example_disk_def)
  show ?thesis
    by (simp add: extract_with_limits_def example_plan extract_entry_def copy_entry_def source_of_def again data lim disk
        Let_def fs_path_def keep_output_def accepted_def copy checked_add_def)
qed

lemma example_limit: "total_bytes DEFAULT_LIMITS + 1 < 2 ^ 64"
  by (simp add: DEFAULT_LIMITS_def)

lemma extraction_is_bounded_witness:
  "extract_with_limits example_rules example_codecs DEFAULT_LIMITS example_archive example_disk = (Inr (), [([''a''], Some ''hi'')])
     \<and> file_bytes [([''a''], Some ''hi'')] \<le> total_bytes DEFAULT_LIMITS"
  using extraction_is_bounded [OF example_codecs_ok example_limit example_extraction] example_extraction by simp


lemma no_byte_feeds_two_entries_witness:
  "\<exists>ps. make_plans example_rules DEFAULT_LIMITS example_archive = Inr ps \<and> (\<Sum>p\<leftarrow>ps. ep_compressed p) \<le> 99"
proof -
  obtain ps where "make_plans example_rules DEFAULT_LIMITS example_archive = Inr ps"
    using example_extraction by (cases "make_plans example_rules DEFAULT_LIMITS example_archive") (simp_all add: extract_with_limits_def)
  moreover have "za_file_len example_archive = Some 99" by (simp add: example_archive_def)
  ultimately show ?thesis using no_byte_feeds_two_entries by blast
qed

section \<open>Data descriptors\<close>

lemma descriptor_length:
  "length (descriptor_bytes marked zip64 crc c x) = (if marked then 4 else 0) + (if zip64 then 20 else 12)"
  by (simp add: descriptor_bytes_def descriptor_signature_def)

text \<open>The descriptor check is exact: behind the compressed data it accepts a descriptor, signed or not, that
is the little-endian form of the central record's values and ends before the central directory, and nothing
else; a file that cannot be opened or is too short, or data behind the directory, is an error.\<close>

theorem descriptor_check_is_exact:
  assumes "crc < 256 ^ 4" "compressed < 256 ^ (if zip64 then 8 else 4)" "expanded < 256 ^ (if zip64 then 8 else 4)"
  shows "validate_data_descriptor file start directory zip64 crc compressed expanded =
    (if directory < start then Inl bad_descriptor
     else if directory - start < (if zip64 then 20 else 12) then Inr False
     else (case file of
         None \<Rightarrow> Inl bad_descriptor
       | Some contents \<Rightarrow>
           if length contents < start + min (directory - start) (if zip64 then 24 else 16) then Inl bad_descriptor
           else Inr (\<exists>marked. let text = descriptor_bytes marked zip64 crc compressed expanded in
                  length text \<le> directory - start \<and> take (length text) (drop start contents) = text)))"
proof (cases "directory < start \<or> directory - start < (if zip64 then 20 else 12) \<or> file = None")
  case True
  then show ?thesis by (auto simp: validate_data_descriptor_def Let_def)
next
  case False
  then obtain contents where opened: "file = Some contents" by blast
  define size where "size = min (directory - start) (if zip64 then 24 else 16)"
  define bytes where "bytes = part contents start (start + size)"
  show ?thesis
  proof (cases "length contents < start + size")
    case True
    then show ?thesis using False opened by (simp add: validate_data_descriptor_def Let_def size_def)
  next
    case enough: False
    have len: "length bytes = size" using enough by (simp add: bytes_def part_def)
    have bytes: "bytes = take size (drop start contents)" by (simp add: bytes_def part_def)
    have turn: "descriptor_turn bytes zip64 crc compressed expanded p \<longleftrightarrow>
        (let text = descriptor_bytes marked zip64 crc compressed expanded in
         length text \<le> directory - start \<and> take (length text) (drop start contents) = text)"
      if p: "p = (if marked then 4 else 0)" for marked p
    proof -
      let ?text = "descriptor_bytes marked zip64 crc compressed expanded"
      have tl: "length ?text = p + (if zip64 then 20 else 12)" using p descriptor_length by simp
      have fit: "length ?text \<le> directory - start \<longleftrightarrow> p + (if zip64 then 20 else 12) \<le> length bytes"
        unfolding tl len size_def using p by auto
      show ?thesis
      proof (cases "p + (if zip64 then 20 else 12) \<le> length bytes")
        case True
        have "take (length ?text) bytes = take (length ?text) (drop start contents)"
          unfolding bytes using True tl len by (simp add: min_def)
        then show ?thesis
          using descriptor_turn_iff [OF assms True p] True fit tl by (simp only: Let_def simp_thms)
      next
        case False
        then show ?thesis unfolding Let_def fit by (simp add: descriptor_turn_def)
      qed
    qed
    have "validate_data_descriptor file start directory zip64 crc compressed expanded
        = Inr (list_ex (descriptor_turn bytes zip64 crc compressed expanded) [0, 4])"
      using False opened enough unfolding validate_data_descriptor_def Let_def size_def [symmetric] bytes_def by simp
    moreover have "list_ex (descriptor_turn bytes zip64 crc compressed expanded) [0, 4] \<longleftrightarrow>
        (\<exists>marked. let text = descriptor_bytes marked zip64 crc compressed expanded in
           length text \<le> directory - start \<and> take (length text) (drop start contents) = text)"
      using turn [of 0 False] turn [of 4 True] unfolding ex_bool_eq by simp blast
    ultimately show ?thesis using False opened enough unfolding size_def by simp
  qed
qed

lemma descriptor_check_is_exact_witness:
  "validate_data_descriptor None 5 40 False 1 2 3 = Inl bad_descriptor"
  using descriptor_check_is_exact [of 1 2 False 3 None 5 40] by simp

end
