(* ===== verification/ModuleTransport.thy ===== *)
theory ModuleTransport
  imports Results Messages "HOL-Library.Word"
begin

unbundle bit_operations_syntax

text \<open>
  The host's side of one loaded module (\<open>module/transport.rs\<close>): admission and its terminal flags, the
  initialization and teardown jobs of the physical worker, reinitialization, stopping, and delivery.

  A definition is one critical section, that is, what a thread does between two points where another can
  run. \<open>transport_step\<close> in the theory ModuleTransportSpec interleaves them. The module's callbacks
  are its environment: entering one and leaving it are separate steps, recorded in \<open>tr_natives\<close>, and an
  event supplies what it answers. Which of two sizes a vtable has are the booleans \<open>vt_base\<close> and \<open>vt_full\<close>.
\<close>

definition TB_OK :: int where "TB_OK = 0"
definition TB_BACKPRESSURE :: int where "TB_BACKPRESSURE = -1"
definition TB_CLOSED :: int where "TB_CLOSED = -2"
definition TB_PANICKED :: int where "TB_PANICKED = -3"
definition TB_TIMEOUT :: int where "TB_TIMEOUT = -4"
definition TB_BAD_ARGUMENT :: int where "TB_BAD_ARGUMENT = -5"
definition TB_BUFFER_TOO_SMALL :: int where "TB_BUFFER_TOO_SMALL = -6"
definition TB_UNSUPPORTED :: int where "TB_UNSUPPORTED = -7"

definition TERMINAL_LIVE :: "32 word" where "TERMINAL_LIVE = 1"
definition TERMINAL_STOP_INTENT :: "32 word" where "TERMINAL_STOP_INTENT = 2"
definition TERMINAL_FAULT :: "32 word" where "TERMINAL_FAULT = 4"
definition TERMINAL_PHYSICALLY_STOPPED :: "32 word" where "TERMINAL_PHYSICALLY_STOPPED = 8"

definition HOST_QUEUE_CAPACITY :: nat where "HOST_QUEUE_CAPACITY = 256"

section \<open>State\<close>

datatype init_state =
    InitDeferred | InitScheduled | InitEntered | PublishedValid | PublishedRejected | CanceledBeforeEntry | ExternalValid

datatype cleanup_state =
    CleanupIdle | CleanupRequested | CleanupExecuting | CleanupComplete | CleanupUncertain | NoCallbackRequired

datatype init_failure = InitClosed | InitFailed string

record vtable =
  vt_base :: bool
  vt_full :: bool
  vt_context :: bool
  vt_reinitialize :: bool

record physical_state =
  ph_init :: init_state
  ph_cleanup :: cleanup_state
  ph_job :: "nat option"
  ph_result :: "(init_failure + unit) option"
  ph_code :: "int option"

text \<open>Where the thread of a job is. \<open>JobUnspawned\<close> is a job whose thread never was or could not be started.\<close>

datatype job_place =
    JobUnspawned | JobStarted | JobInitLock | JobInitHeld | JobInInit | JobInitReturned "init_failure + vtable"
  | JobAwaitInit | JobAwaitProviders | JobAwaitLock | JobHeld | JobStopping | JobDraining | JobInShutdown
  | JobReturned "int option" | JobEnded

record physical_job =
  jb_initializer :: bool
  jb_guard :: bool
  jb_fault_on_spawn_failure :: bool
  jb_submitted :: bool
  jb_place :: job_place

text \<open>Who holds the lifecycle mutex.\<close>

datatype lifecycle_holder = ByJob nat | ByStop nat | ByReinit nat | ByEager

datatype eager_place = EagerUnused | EagerInInit | EagerDone

text \<open>Where a reinitialization is; the stage is how often it took the lifecycle mutex.\<close>

datatype reinit_place = ReinitLocking nat | ReinitHeld nat | ReinitAwaitInit | ReinitAwaitReady | ReinitSpawned | ReinitInCall

datatype stop_place = StopLocking | StopHeld | StopCommitted | StopWaiting bool

datatype native =
    EnterInit | LeaveInit | EnterReinit | LeaveReinit | EnterShutdown | LeaveShutdown "int option" | EnterDeliver | LeaveDeliver

record transport =
  tr_module :: "vtable option"
  tr_initializer :: bool
  tr_config :: string
  tr_gate :: "bool option"
  tr_pending :: "message list"
  tr_drain_started :: bool
  tr_sender :: bool
  tr_queue :: "message option list"
  tr_flags :: "32 word"
  tr_faulted :: bool
  tr_init_failed :: bool
  tr_stopped :: bool
  tr_closed :: bool
  tr_init_started :: bool
  tr_ready :: bool
  tr_routing :: bool
  tr_inflight :: nat
  tr_physical :: physical_state
  tr_lifecycle :: "lifecycle_holder option"
  tr_native_pending :: bool
  tr_stop_spawned :: bool
  tr_cb_closed :: bool
  tr_cb_active :: nat
  tr_providers :: bool
  tr_jobs :: "(nat, physical_job) hashmap"
  tr_next_job :: nat
  tr_eager :: eager_place
  tr_reinits :: "(nat, reinit_place) hashmap"
  tr_stops :: "(nat, stop_place) hashmap"
  tr_natives :: "native list"

definition transport_new :: "string \<Rightarrow> transport" where
  "transport_new config =
     \<lparr> tr_module = None, tr_initializer = False, tr_config = config, tr_gate = Some True, tr_pending = [],
       tr_drain_started = False, tr_sender = True, tr_queue = [], tr_flags = TERMINAL_LIVE, tr_faulted = False,
       tr_init_failed = False, tr_stopped = False, tr_closed = False, tr_init_started = False, tr_ready = False,
       tr_routing = False, tr_inflight = 0,
       tr_physical = \<lparr> ph_init = InitDeferred, ph_cleanup = CleanupIdle, ph_job = None, ph_result = None, ph_code = None \<rparr>,
       tr_lifecycle = None, tr_native_pending = False, tr_stop_spawned = False, tr_cb_closed = False, tr_cb_active = 0,
       tr_providers = False, tr_jobs = [], tr_next_job = 0, tr_eager = EagerUnused, tr_reinits = [], tr_stops = [],
       tr_natives = [] \<rparr>"

definition defer_initializer :: "transport \<Rightarrow> transport" where
  "defer_initializer t = t \<lparr> tr_initializer := True, tr_eager := EagerDone \<rparr>"

text \<open>Ghost: what the module's callbacks see.\<close>

definition did_native :: "native \<Rightarrow> transport \<Rightarrow> transport" where
  "did_native n t = t \<lparr> tr_natives := tr_natives t @ [n] \<rparr>"

definition set_physical :: "(physical_state \<Rightarrow> physical_state) \<Rightarrow> transport \<Rightarrow> transport" where
  "set_physical f t = t \<lparr> tr_physical := f (tr_physical t) \<rparr>"

definition get_or_insert :: "'a option \<Rightarrow> 'a \<Rightarrow> 'a option" where
  "get_or_insert x y = (case x of None \<Rightarrow> Some y | Some z \<Rightarrow> Some z)"

definition is_ready :: "transport \<Rightarrow> bool" where
  "is_ready t \<longleftrightarrow> tr_ready t \<and> \<not> tr_faulted t \<and> \<not> tr_stopped t"

definition native_lifecycle_pending :: "transport \<Rightarrow> bool" where
  "native_lifecycle_pending t \<longleftrightarrow>
     tr_native_pending t \<or> (tr_closed t \<and> \<not> tr_stopped t) \<or> ph_job (tr_physical t) \<noteq> None"

definition has_deferred_initializer :: "transport \<Rightarrow> bool" where
  "has_deferred_initializer t \<longleftrightarrow>
     \<not> tr_closed t \<and> \<not> tr_faulted t \<and> ph_init (tr_physical t) = InitDeferred \<and> ph_cleanup (tr_physical t) = CleanupIdle
     \<and> tr_initializer t"

section \<open>Terminal flags and admission\<close>

definition publish_terminal_flags :: "bool \<Rightarrow> transport \<Rightarrow> transport" where
  "publish_terminal_flags fault t =
     t \<lparr> tr_faulted := tr_faulted t \<or> fault,
         tr_flags := ((tr_flags t AND NOT TERMINAL_LIVE) OR TERMINAL_STOP_INTENT) OR (if fault then TERMINAL_FAULT else 0) \<rparr>"

definition close_admission :: "transport \<Rightarrow> transport" where
  "close_admission t = t \<lparr> tr_cb_closed := True, tr_closed := True, tr_pending := [] \<rparr>"

definition finish_stop :: "transport \<Rightarrow> transport" where
  "finish_stop t = t \<lparr> tr_stopped := True, tr_sender := False \<rparr>"

definition clear_config :: "transport \<Rightarrow> transport" where
  "clear_config t = t \<lparr> tr_config := [] \<rparr>"

definition commit_terminal :: "bool \<Rightarrow> transport \<Rightarrow> transport" where
  "commit_terminal fault t = close_admission (publish_terminal_flags fault t)"

datatype admission_termination = AdmissionFailed | AdmissionCanceled

definition commit_admission_termination :: "admission_termination \<Rightarrow> transport \<Rightarrow> bool \<times> transport" where
  "commit_admission_termination cause t =
     (let fault = (case cause of
          AdmissionFailed \<Rightarrow> True
        | AdmissionCanceled \<Rightarrow> tr_flags t AND TERMINAL_STOP_INTENT = 0 \<or> tr_flags t AND TERMINAL_FAULT \<noteq> 0) in
      (fault, commit_terminal fault t))"

definition new_job :: "bool \<Rightarrow> bool \<Rightarrow> bool \<Rightarrow> transport \<Rightarrow> transport" where
  "new_job initializer guard fault t =
     set_physical (\<lambda>ph. ph \<lparr> ph_job := Some (tr_next_job t) \<rparr>)
       (t \<lparr> tr_jobs := hput (tr_next_job t)
              \<lparr> jb_initializer = initializer, jb_guard = guard, jb_fault_on_spawn_failure = fault, jb_submitted = False,
                jb_place = JobUnspawned \<rparr> (tr_jobs t),
            tr_next_job := Suc (tr_next_job t) \<rparr>)"

text \<open>Both branches of a cancellation before the initializer was entered.\<close>

definition cancel_before_entry :: "transport \<Rightarrow> transport" where
  "cancel_before_entry t =
     finish_stop (clear_config
       (set_physical (\<lambda>ph. ph \<lparr> ph_init := CanceledBeforeEntry, ph_cleanup := NoCallbackRequired, ph_result := Some (Inl InitClosed) \<rparr>)
          (t \<lparr> tr_initializer := False \<rparr>)))"

definition request_cleanup :: "physical_state \<Rightarrow> physical_state" where
  "request_cleanup ph = (if ph_cleanup ph = CleanupIdle then ph \<lparr> ph_cleanup := CleanupRequested \<rparr> else ph)"

text \<open>The physical section of \<open>request_terminal\<close>; the job it makes is submitted afterwards.\<close>

definition request_section :: "bool \<Rightarrow> transport \<Rightarrow> transport" where
  "request_section fault t =
     (let t1 = set_physical request_cleanup t; ph = tr_physical t1 in
      if ph_job ph \<noteq> None \<or> ph_cleanup ph \<noteq> CleanupRequested then t1
      else if ph_init ph = InitDeferred then cancel_before_entry t1
      else new_job False False fault t1)"

definition request_terminal :: "bool \<Rightarrow> transport \<Rightarrow> transport" where
  "request_terminal fault t = request_section fault (commit_terminal fault t)"

definition abandon_section :: "transport \<Rightarrow> bool \<times> transport" where
  "abandon_section t =
     (if ph_result (tr_physical t) \<noteq> None \<or> tr_flags t \<noteq> TERMINAL_LIVE then (False, t)
      else (True, set_physical request_cleanup (publish_terminal_flags True t)))"

definition abandon_initialization :: "transport \<Rightarrow> transport" where
  "abandon_initialization t = (case abandon_section t of (True, t') \<Rightarrow> request_terminal True t' | (False, t') \<Rightarrow> t')"

definition pause_initialization :: "transport \<Rightarrow> transport" where
  "pause_initialization t = t \<lparr> tr_gate := None \<rparr>"

definition terminate_waiters :: "transport \<Rightarrow> transport" where
  "terminate_waiters t = (case commit_admission_termination AdmissionCanceled t of (fault, t') \<Rightarrow> request_terminal fault t')"

definition release_initialization :: "bool \<Rightarrow> transport \<Rightarrow> transport" where
  "release_initialization allowed t =
     (let t' = t \<lparr> tr_gate := Some allowed \<rparr> in if allowed then t' else terminate_waiters t')"

text \<open>\<open>host_fault\<close> and \<open>host_ready\<close>, called by the module.\<close>

definition fault_flags :: "transport \<Rightarrow> transport" where
  "fault_flags t =
     t \<lparr> tr_faulted := True,
         tr_flags := ((tr_flags t OR (TERMINAL_STOP_INTENT OR TERMINAL_FAULT)) AND NOT TERMINAL_LIVE),
         tr_sender := False \<rparr>"

definition host_fault :: "transport \<Rightarrow> transport" where
  "host_fault t = request_terminal True (fault_flags t)"

definition host_ready :: "transport \<Rightarrow> transport" where
  "host_ready t = (if tr_closed t then t else t \<lparr> tr_ready := True \<rparr>)"

definition admit_broker :: "transport \<Rightarrow> transport" where
  "admit_broker t = t \<lparr> tr_routing := True \<rparr>"

section \<open>Initialization\<close>

definition vtable_ok :: "vtable \<Rightarrow> bool" where
  "vtable_ok v \<longleftrightarrow> vt_base v \<and> vt_context v \<and> (vt_full v \<longrightarrow> vt_reinitialize v)"

definition initialize :: "vtable \<Rightarrow> transport \<Rightarrow> bool \<times> transport" where
  "initialize v t =
     (if \<not> vtable_ok v then (False, t)
      else (True, set_physical
             (\<lambda>ph. if ph_init ph = InitDeferred then ph \<lparr> ph_init := ExternalValid, ph_result := Some (Inr ()) \<rparr> else ph)
             (t \<lparr> tr_module := Some v \<rparr>)))"

text \<open>\<open>schedule_initializer\<close>: whether this caller is the one that initiates.\<close>

definition schedule_initializer :: "transport \<Rightarrow> bool result \<times> transport" where
  "schedule_initializer t =
     (let ph = tr_physical t in
      if tr_gate t \<noteq> Some True \<or> tr_faulted t \<or> tr_closed t then (Inl ConnectionClosed, t)
      else if ph_result ph \<noteq> None \<or> ph_init ph \<noteq> InitDeferred then (Inr False, t)
      else if \<not> tr_initializer t
      then (Inr False, set_physical (\<lambda>ph. ph \<lparr> ph_result := Some (Inl (InitFailed ''module has no initializer'')) \<rparr>) t)
      else (Inr True,
            new_job True False True
              (set_physical (\<lambda>ph. ph \<lparr> ph_init := InitScheduled \<rparr>) (t \<lparr> tr_initializer := False, tr_init_started := True \<rparr>))))"

definition set_job :: "nat \<Rightarrow> (physical_job \<Rightarrow> physical_job) \<Rightarrow> transport \<Rightarrow> transport" where
  "set_job j f t = (case hget (tr_jobs t) j of None \<Rightarrow> t | Some jb \<Rightarrow> t \<lparr> tr_jobs := hput j (f jb) (tr_jobs t) \<rparr>)"

definition goto :: "nat \<Rightarrow> job_place \<Rightarrow> transport \<Rightarrow> transport" where
  "goto j place t = set_job j (\<lambda>jb. jb \<lparr> jb_place := place \<rparr>) t"

definition worker_lost :: "bool \<Rightarrow> transport \<Rightarrow> transport" where
  "worker_lost fault t =
     set_physical (\<lambda>ph. ph \<lparr> ph_cleanup := CleanupUncertain,
         ph_result := get_or_insert (ph_result ph) (Inl (InitFailed ''module physical worker could not start'')) \<rparr>)
       (commit_terminal fault t)"

text \<open>\<open>submit_job\<close>: a job is submitted once, whether or not its thread starts.\<close>

definition submit_job :: "nat \<Rightarrow> bool \<Rightarrow> transport \<Rightarrow> transport" where
  "submit_job j spawned t =
     (case hget (tr_jobs t) j of
        None \<Rightarrow> t
      | Some jb \<Rightarrow>
          if jb_submitted jb then t
          else
            (let t1 = set_job j (\<lambda>jb. jb \<lparr> jb_submitted := True \<rparr>) t in
             if spawned then goto j JobStarted t1 else worker_lost (jb_fault_on_spawn_failure jb) t1))"

section \<open>The lifecycle mutex\<close>

definition lock :: "lifecycle_holder \<Rightarrow> transport \<Rightarrow> transport option" where
  "lock h t = (if tr_lifecycle t = None then Some (t \<lparr> tr_lifecycle := Some h \<rparr>) else None)"

definition unlock :: "transport \<Rightarrow> transport" where
  "unlock t = t \<lparr> tr_lifecycle := None \<rparr>"

section \<open>The physical worker\<close>

text \<open>\<open>PhysicalJob::run\<close> up to its first wait. A job with an initializer waits for the lifecycle mutex.\<close>

definition job_run :: "nat \<Rightarrow> physical_job \<Rightarrow> transport \<Rightarrow> transport" where
  "job_run j jb t =
     set_job j (\<lambda>jb. jb \<lparr> jb_initializer := False, jb_place := (if jb_initializer jb then JobInitLock else JobAwaitInit) \<rparr>) t"

text \<open>Under the mutex: enter the initializer, unless the module was terminated in the meantime.\<close>

definition job_enter :: "nat \<Rightarrow> transport \<Rightarrow> transport" where
  "job_enter j t =
     (if tr_closed t \<or> tr_faulted t then
        goto j JobEnded (unlock (finish_stop (clear_config
          (set_physical (\<lambda>ph. ph \<lparr> ph_init := CanceledBeforeEntry, ph_cleanup := NoCallbackRequired,
               ph_result := Some (Inl InitClosed), ph_code := Some TB_CLOSED, ph_job := None \<rparr>) t))))
      else goto j JobInInit (did_native EnterInit (set_physical (\<lambda>ph. ph \<lparr> ph_init := InitEntered \<rparr>) t)))"

text \<open>The initializer returned a vtable, a refusal, or panicked (both a text).\<close>

definition job_init_returned :: "nat \<Rightarrow> string + vtable \<Rightarrow> transport \<Rightarrow> transport" where
  "job_init_returned j output t =
     (let t0 = did_native LeaveInit t in
      case output of
        Inl reason \<Rightarrow> goto j (JobInitReturned (Inl (InitFailed reason))) (clear_config t0)
      | Inr v \<Rightarrow>
          (case initialize v t0 of
             (True, t1) \<Rightarrow> goto j (JobInitReturned (Inr v)) (clear_config t1)
           | (False, t1) \<Rightarrow> goto j (JobInitReturned (Inl (InitFailed ''module returned an invalid vtable''))) (clear_config t1)))"

definition unit_result :: "init_failure + vtable \<Rightarrow> init_failure + unit" where
  "unit_result r = (case r of Inl e \<Rightarrow> Inl e | Inr _ \<Rightarrow> Inr ())"

definition publish_init :: "init_failure + vtable \<Rightarrow> physical_state \<Rightarrow> physical_state" where
  "publish_init r ph =
     (let cleanup = (case r of Inl _ \<Rightarrow> CleanupUncertain | Inr _ \<Rightarrow> ph_cleanup ph) in
      ph \<lparr> ph_init := (case r of Inl _ \<Rightarrow> PublishedRejected | Inr _ \<Rightarrow> PublishedValid),
           ph_result := get_or_insert (ph_result ph) (unit_result r), ph_cleanup := cleanup,
           ph_job := (if cleanup = CleanupIdle then None else ph_job ph) \<rparr>)"

text \<open>The publication; the worker goes on to tear the module down when that was asked for.\<close>

definition job_publish :: "nat \<Rightarrow> init_failure + vtable \<Rightarrow> transport \<Rightarrow> transport" where
  "job_publish j r t =
     (let t1 = (case r of Inl _ \<Rightarrow> commit_terminal True t | Inr _ \<Rightarrow> t);
          t2 = set_physical (publish_init r) t1 in
      goto j (if ph_cleanup (tr_physical t2) = CleanupRequested then JobAwaitProviders else JobEnded) (unlock t2))"

text \<open>A cleanup job waits until no initializer is scheduled or running.\<close>

definition init_settled :: "transport \<Rightarrow> bool" where
  "init_settled t \<longleftrightarrow>
     \<not> (ph_init (tr_physical t) \<in> {InitScheduled, InitEntered} \<and> ph_result (tr_physical t) = None)"

text \<open>The drained host callbacks; a job that holds the mutex gives it up for that wait.\<close>

definition job_providers :: "nat \<Rightarrow> physical_job \<Rightarrow> transport \<Rightarrow> transport" where
  "job_providers j jb t =
     (let t1 = set_job j (\<lambda>jb. jb \<lparr> jb_guard := False \<rparr>) t in
      if tr_providers t then goto j JobAwaitLock (if jb_guard jb then unlock t1 else t1)
      else goto j (if jb_guard jb then JobHeld else JobAwaitLock) t1)"

text \<open>Under the mutex: claim the cleanup.\<close>

definition job_claim :: "nat \<Rightarrow> transport \<Rightarrow> transport" where
  "job_claim j t =
     (let ph = tr_physical t in
      if ph_cleanup ph \<noteq> CleanupRequested then goto j JobEnded (unlock t)
      else if ph_init ph = InitDeferred \<or> ph_init ph = CanceledBeforeEntry then
        goto j JobEnded (unlock (cancel_before_entry
          (set_physical (\<lambda>ph. ph \<lparr> ph_code := Some TB_CLOSED, ph_job := None \<rparr>) t)))
      else if tr_module t = None then
        goto j JobEnded (unlock (set_physical (\<lambda>ph. ph \<lparr> ph_cleanup := CleanupUncertain \<rparr>) t))
      else goto j JobStopping (set_physical (\<lambda>ph. ph \<lparr> ph_cleanup := CleanupExecuting \<rparr>) (t \<lparr> tr_native_pending := True \<rparr>)))"

text \<open>\<open>stop_sync\<close>: close admission, wait for the deliveries that are in the module, call its shutdown.\<close>

definition stop_sync_close :: "nat \<Rightarrow> transport \<Rightarrow> transport" where
  "stop_sync_close j t =
     (if tr_stopped t then goto j (JobReturned (Some TB_CLOSED)) t else goto j JobDraining (close_admission t))"

definition stop_sync_return :: "nat \<Rightarrow> int \<Rightarrow> transport \<Rightarrow> transport" where
  "stop_sync_return j code t =
     goto j (JobReturned (Some code))
       (finish_stop (if code = TB_OK then t \<lparr> tr_flags := tr_flags t OR TERMINAL_PHYSICALLY_STOPPED \<rparr> else t))"

text \<open>\<open>shutdown_sync\<close>, entered only when no reserved callback is left.\<close>

definition shutdown_sync :: "nat \<Rightarrow> transport \<Rightarrow> transport" where
  "shutdown_sync j t =
     (case tr_module t of
        Some _ \<Rightarrow> goto j JobInShutdown (did_native EnterShutdown t)
      | None \<Rightarrow> stop_sync_return j TB_CLOSED t)"

definition shutdown_left :: "nat \<Rightarrow> int option \<Rightarrow> transport \<Rightarrow> transport" where
  "shutdown_left j code t =
     (let t1 = did_native (LeaveShutdown code) t in
      case code of None \<Rightarrow> goto j (JobReturned None) t1 | Some c \<Rightarrow> stop_sync_return j c t1)"

definition job_finish :: "nat \<Rightarrow> int option \<Rightarrow> transport \<Rightarrow> transport" where
  "job_finish j code t =
     goto j JobEnded (unlock (set_physical
       (\<lambda>ph. ph \<lparr> ph_code := code, ph_cleanup := (if code = Some TB_OK then CleanupComplete else CleanupUncertain),
             ph_job := (if code = Some TB_OK then None else ph_job ph) \<rparr>)
       (t \<lparr> tr_native_pending := False \<rparr>)))"

section \<open>Eager initialization\<close>

definition eager_start :: "transport \<Rightarrow> transport" where
  "eager_start t =
     did_native EnterInit (set_physical (\<lambda>ph. ph \<lparr> ph_init := InitEntered \<rparr>)
       (t \<lparr> tr_init_started := True, tr_eager := EagerInInit \<rparr>))"

text \<open>\<open>eager_initialize_with\<close> when the mutex is taken: a job that never runs keeps the module.\<close>

definition eager_unavailable :: "transport \<Rightarrow> transport" where
  "eager_unavailable t =
     set_physical (\<lambda>ph. ph \<lparr> ph_cleanup := CleanupUncertain \<rparr>) (commit_terminal True (t \<lparr> tr_eager := EagerDone \<rparr>))"

definition eager_failed :: "transport \<Rightarrow> transport" where
  "eager_failed t =
     (let t1 = set_physical
          (\<lambda>ph. ph \<lparr> ph_init := PublishedRejected, ph_cleanup := CleanupUncertain,
              ph_result := get_or_insert (ph_result ph) (Inl (InitFailed ''module returned an invalid vtable'')) \<rparr>) t in
      if ph_job (tr_physical t1) = None then new_job False False True t1 else t1)"

definition eager_returned :: "string + vtable \<Rightarrow> transport \<Rightarrow> transport" where
  "eager_returned output t =
     (let t0 = did_native LeaveInit (t \<lparr> tr_eager := EagerDone \<rparr>);
          (ok, t1) = (case output of Inl _ \<Rightarrow> (False, t0) | Inr v \<Rightarrow> initialize v t0);
          t2 = clear_config t1 in
      unlock (if ok then set_physical (\<lambda>ph. ph \<lparr> ph_init := ExternalValid, ph_result := get_or_insert (ph_result ph) (Inr ()) \<rparr>) t2
              else eager_failed t2))"

section \<open>Reinitialization\<close>

definition replace_deferred_config :: "string \<Rightarrow> transport \<Rightarrow> bool result \<times> transport" where
  "replace_deferred_config bytes t =
     (if tr_closed t \<or> tr_faulted t then (Inl ConnectionClosed, t)
      else if ph_init (tr_physical t) \<noteq> InitDeferred \<or> ph_cleanup (tr_physical t) \<noteq> CleanupIdle then (Inr False, t)
      else if \<not> tr_initializer t then (Inr False, t)
      else (Inr True, t \<lparr> tr_config := bytes \<rparr>))"

text \<open>What a reinitialization does while it holds the mutex: be done, wait without it, or call the module.\<close>

datatype reinit_next = ReinitDone "unit result" | WaitForInit | WaitForReady | CallModule

definition reinit_callback :: "transport \<Rightarrow> reinit_next" where
  "reinit_callback t =
     (case tr_module t of
        None \<Rightarrow> ReinitDone (Inl (Transport ''module is not initialized''))
      | Some v \<Rightarrow>
          if \<not> vt_full v \<or> \<not> vt_reinitialize v then ReinitDone (Inl (failed ''module does not support reinitialization''))
          else CallModule)"

definition reinit_ready :: "transport \<Rightarrow> reinit_next" where
  "reinit_ready t = (if \<not> is_ready t then WaitForReady else reinit_callback t)"

definition reinit_held :: "nat \<Rightarrow> string \<Rightarrow> transport \<Rightarrow> reinit_next \<times> transport" where
  "reinit_held stage bytes t =
     (if tr_closed t \<or> tr_faulted t then (ReinitDone (Inl ConnectionClosed), t)
      else if stage = 0 then
        (case replace_deferred_config bytes t of
           (Inl e, t') \<Rightarrow> (ReinitDone (Inl e), t')
         | (Inr True, t') \<Rightarrow> (ReinitDone (Inr ()), t')
         | (Inr False, t') \<Rightarrow>
             if tr_module t' = None then
               (if ph_init (tr_physical t') \<in> {InitScheduled, InitEntered} then (WaitForInit, t')
                else (ReinitDone (Inl (Transport ''module is not initialized'')), t'))
             else (reinit_ready t', t'))
      else if stage = 1 then (reinit_ready t, t)
      else if \<not> is_ready t then (ReinitDone (Inl ConnectionClosed), t)
      else (reinit_callback t, t))"

definition reinit_place_after :: "nat \<Rightarrow> reinit_next \<Rightarrow> transport \<Rightarrow> transport" where
  "reinit_place_after r next t =
     (case next of
        ReinitDone _ \<Rightarrow> unlock (t \<lparr> tr_reinits := hdel r (tr_reinits t) \<rparr>)
      | WaitForInit \<Rightarrow> unlock (t \<lparr> tr_reinits := hput r ReinitAwaitInit (tr_reinits t) \<rparr>)
      | WaitForReady \<Rightarrow> unlock (t \<lparr> tr_reinits := hput r ReinitAwaitReady (tr_reinits t) \<rparr>)
      | CallModule \<Rightarrow> t \<lparr> tr_reinits := hput r ReinitSpawned (tr_reinits t), tr_native_pending := True \<rparr>)"

text \<open>The answer for the code that the module's callback returned.\<close>

definition reinit_answer :: "int \<Rightarrow> error \<Rightarrow> unit result" where
  "reinit_answer code timed_out =
     (if code = TB_OK then Inr ()
      else if code = TB_BAD_ARGUMENT then Inl (failed ''module configuration is invalid'')
      else if code = TB_CLOSED then Inl (failed ''module reinitialization failed'')
      else if code = TB_PANICKED then Inl (failed ''module reinitialization panicked'')
      else if code = TB_TIMEOUT then Inl timed_out
      else Inl (failed ''module reinitialization failed''))"

definition reinit_left :: "nat \<Rightarrow> transport \<Rightarrow> transport" where
  "reinit_left r t =
     unlock (t \<lparr> tr_native_pending := False, tr_reinits := hdel r (tr_reinits t) \<rparr>)"

section \<open>Stopping\<close>

datatype stop_error = NotStarted error | Started error

text \<open>The physical section of \<open>stop\<close>: its own job takes the mutex over; otherwise it is released.\<close>

definition stop_section :: "nat \<Rightarrow> transport \<Rightarrow> transport" where
  "stop_section s t =
     (let t1 = set_physical request_cleanup t; ph = tr_physical t1;
          existing = ph_job ph \<noteq> None;
          mine = \<not> existing \<and> ph_cleanup ph = CleanupRequested;
          handoff = \<not> tr_faulted t1 \<and> ph_cleanup ph = CleanupRequested \<and> (mine \<or> existing \<and> ph_init ph = InitScheduled);
          t2 = (if mine then (new_job False True False t1) \<lparr> tr_lifecycle := Some (ByJob (tr_next_job t1)) \<rparr> else unlock t1) in
      t2 \<lparr> tr_stop_spawned := tr_stop_spawned t2 \<or> handoff, tr_stops := hput s (StopWaiting handoff) (tr_stops t2) \<rparr>)"

definition classify_stop :: "bool \<Rightarrow> error \<Rightarrow> stop_error" where
  "classify_stop handoff e = (if handoff then Started e else NotStarted e)"

text \<open>What a waiting \<open>stop\<close> sees; \<open>None\<close> when it waits on.\<close>

definition stop_seen :: "bool \<Rightarrow> transport \<Rightarrow> (stop_error + int) option" where
  "stop_seen handoff t =
     (case ph_cleanup (tr_physical t) of
        CleanupComplete \<Rightarrow> Some (Inr (case ph_code (tr_physical t) of Some c \<Rightarrow> c | None \<Rightarrow> TB_CLOSED))
      | NoCallbackRequired \<Rightarrow> Some (Inr (case ph_code (tr_physical t) of Some c \<Rightarrow> c | None \<Rightarrow> TB_CLOSED))
      | CleanupUncertain \<Rightarrow>
          Some (case ph_code (tr_physical t) of
              Some c \<Rightarrow> Inr c
            | None \<Rightarrow> Inl (classify_stop handoff (Transport ''module cleanup is uncertain'')))
      | _ \<Rightarrow> None)"

end
