(* ===== verification/ModuleTransportSpec.thy ===== *)
theory ModuleTransportSpec
  imports ModuleTransport
begin

text \<open>
  The interleavings of a module transport, and the protocol its native callbacks see.

  An event is one critical section of one thread, with the answer of what the thread waited for. The sections
  that any caller may run at any time (publishing terminal flags, closing admission, asking for the cleanup)
  are events of their own, so every interleaving of the functions that are made of them is a run.
\<close>

section \<open>Steps\<close>

datatype transport_event =
    PublishFlags bool | CloseAdmission | RequestCleanup bool | Abandon | FaultFlags | Ready | Admit | BindProviders
  | Gate "bool option" | Messaging "message list" bool bool "message option list" nat bool
  | Schedule | Submit nat bool | Run nat | InitLock nat | Enter nat | InitReturns nat "string + vtable" | Publish nat
  | InitSettled nat | ProvidersDrained nat | Acquire nat | Claim nat | StopClose nat | Drained nat
  | ShutdownReturns nat "int option" | Finish nat
  | EagerBegins | EagerBusy | EagerReturns "string + vtable"
  | ReinitBegins nat | ReinitLocks nat | ReinitGoes nat string | ReinitInitDone nat | ReinitReadyDone nat | ReinitDropped nat
  | ReinitEnters nat | ReinitReturns nat
  | StopBegins nat | StopLocks nat | StopCommits nat | StopHandsOver nat | StopEnds nat
  | DeliverEnters | DeliverLeaves

definition at_place :: "nat \<Rightarrow> job_place \<Rightarrow> transport \<Rightarrow> bool" where
  "at_place j place t \<longleftrightarrow> (case hget (tr_jobs t) j of Some jb \<Rightarrow> jb_place jb = place | None \<Rightarrow> False)"

definition job_of :: "nat \<Rightarrow> transport \<Rightarrow> physical_job" where
  "job_of j t = the (hget (tr_jobs t) j)"

definition reinit_at :: "nat \<Rightarrow> reinit_place \<Rightarrow> transport \<Rightarrow> bool" where
  "reinit_at r place t \<longleftrightarrow> hget (tr_reinits t) r = Some place"

definition stop_at :: "nat \<Rightarrow> stop_place \<Rightarrow> transport \<Rightarrow> bool" where
  "stop_at s place t \<longleftrightarrow> hget (tr_stops t) s = Some place"

definition put_reinit :: "nat \<Rightarrow> reinit_place \<Rightarrow> transport \<Rightarrow> transport" where
  "put_reinit r place t = t \<lparr> tr_reinits := hput r place (tr_reinits t) \<rparr>"

definition put_stop :: "nat \<Rightarrow> stop_place \<Rightarrow> transport \<Rightarrow> transport" where
  "put_stop s place t = t \<lparr> tr_stops := hput s place (tr_stops t) \<rparr>"

definition if_able :: "bool \<Rightarrow> transport \<Rightarrow> transport option" where
  "if_able b t = (if b then Some t else None)"

fun transport_step :: "transport_event \<Rightarrow> transport \<Rightarrow> transport option" where
  "transport_step (PublishFlags fault) t = Some (publish_terminal_flags fault t)"
| "transport_step CloseAdmission t = Some (close_admission t)"
| "transport_step (RequestCleanup fault) t = Some (request_section fault t)"
| "transport_step Abandon t = Some (snd (abandon_section t))"
| "transport_step FaultFlags t = Some (fault_flags t)"
| "transport_step Ready t = Some (host_ready t)"
| "transport_step Admit t = Some (admit_broker t)"
| "transport_step BindProviders t = Some (t \<lparr> tr_providers := True \<rparr>)"
| "transport_step (Gate g) t = Some (t \<lparr> tr_gate := g \<rparr>)"
| "transport_step (Messaging pending drain sender queue inflight refused) t =
     Some (t \<lparr> tr_pending := pending, tr_drain_started := drain, tr_sender := sender, tr_queue := queue,
               tr_inflight := inflight, tr_init_failed := refused \<rparr>)"
| "transport_step Schedule t = Some (snd (schedule_initializer t))"
| "transport_step (Submit j spawned) t = Some (submit_job j spawned t)"
| "transport_step (Run j) t = if_able (at_place j JobStarted t) (job_run j (job_of j t) t)"
| "transport_step (InitLock j) t =
     (if at_place j JobInitLock t then map_option (goto j JobInitHeld) (lock (ByJob j) t) else None)"
| "transport_step (Enter j) t = if_able (at_place j JobInitHeld t) (job_enter j t)"
| "transport_step (InitReturns j output) t = if_able (at_place j JobInInit t) (job_init_returned j output t)"
| "transport_step (Publish j) t =
     (case hget (tr_jobs t) j of
        Some jb \<Rightarrow> (case jb_place jb of JobInitReturned r \<Rightarrow> Some (job_publish j r t) | _ \<Rightarrow> None)
      | None \<Rightarrow> None)"
| "transport_step (InitSettled j) t = if_able (at_place j JobAwaitInit t \<and> init_settled t) (goto j JobAwaitProviders t)"
| "transport_step (ProvidersDrained j) t = if_able (at_place j JobAwaitProviders t) (job_providers j (job_of j t) t)"
| "transport_step (Acquire j) t =
     (if at_place j JobAwaitLock t then map_option (goto j JobHeld) (lock (ByJob j) t) else None)"
| "transport_step (Claim j) t = if_able (at_place j JobHeld t) (job_claim j t)"
| "transport_step (StopClose j) t = if_able (at_place j JobStopping t) (stop_sync_close j t)"
| "transport_step (Drained j) t = if_able (at_place j JobDraining t \<and> tr_cb_active t = 0) (shutdown_sync j t)"
| "transport_step (ShutdownReturns j code) t = if_able (at_place j JobInShutdown t) (shutdown_left j code t)"
| "transport_step (Finish j) t =
     (case hget (tr_jobs t) j of
        Some jb \<Rightarrow> (case jb_place jb of JobReturned code \<Rightarrow> Some (job_finish j code t) | _ \<Rightarrow> None)
      | None \<Rightarrow> None)"
| "transport_step EagerBegins t = (if tr_eager t = EagerUnused then map_option eager_start (lock ByEager t) else None)"
| "transport_step EagerBusy t = if_able (tr_eager t = EagerUnused \<and> tr_lifecycle t \<noteq> None) (eager_unavailable t)"
| "transport_step (EagerReturns output) t = if_able (tr_eager t = EagerInInit) (eager_returned output t)"
| "transport_step (ReinitBegins r) t =
     if_able (hget (tr_reinits t) r = None \<and> \<not> tr_closed t) (put_reinit r (ReinitLocking 0) t)"
| "transport_step (ReinitLocks r) t =
     (case hget (tr_reinits t) r of
        Some (ReinitLocking n) \<Rightarrow> map_option (put_reinit r (ReinitHeld n)) (lock (ByReinit r) t)
      | _ \<Rightarrow> None)"
| "transport_step (ReinitGoes r bytes) t =
     (case hget (tr_reinits t) r of
        Some (ReinitHeld n) \<Rightarrow> (case reinit_held n bytes t of (next, t') \<Rightarrow> Some (reinit_place_after r next t'))
      | _ \<Rightarrow> None)"
| "transport_step (ReinitInitDone r) t = if_able (reinit_at r ReinitAwaitInit t) (put_reinit r (ReinitLocking 1) t)"
| "transport_step (ReinitReadyDone r) t = if_able (reinit_at r ReinitAwaitReady t) (put_reinit r (ReinitLocking 2) t)"
| "transport_step (ReinitDropped r) t =
     (case hget (tr_reinits t) r of
        Some (ReinitLocking n) \<Rightarrow> Some (t \<lparr> tr_reinits := hdel r (tr_reinits t) \<rparr>)
      | Some ReinitAwaitInit \<Rightarrow> Some (t \<lparr> tr_reinits := hdel r (tr_reinits t) \<rparr>)
      | Some ReinitAwaitReady \<Rightarrow> Some (t \<lparr> tr_reinits := hdel r (tr_reinits t) \<rparr>)
      | Some ReinitSpawned \<Rightarrow> Some (reinit_left r t)
      | _ \<Rightarrow> None)"
| "transport_step (ReinitEnters r) t =
     if_able (reinit_at r ReinitSpawned t) (did_native EnterReinit (put_reinit r ReinitInCall t))"
| "transport_step (ReinitReturns r) t =
     if_able (reinit_at r ReinitInCall t) (reinit_left r (did_native LeaveReinit t))"
| "transport_step (StopBegins s) t =
     if_able (hget (tr_stops t) s = None \<and> \<not> tr_stopped t) (put_stop s StopLocking t)"
| "transport_step (StopLocks s) t =
     (if stop_at s StopLocking t then map_option (put_stop s StopHeld) (lock (ByStop s) t) else None)"
| "transport_step (StopCommits s) t =
     if_able (stop_at s StopHeld t)
       (if tr_stopped t then unlock (t \<lparr> tr_stops := hdel s (tr_stops t) \<rparr>)
        else put_stop s StopCommitted (commit_terminal False t))"
| "transport_step (StopHandsOver s) t = if_able (stop_at s StopCommitted t) (stop_section s t)"
| "transport_step (StopEnds s) t =
     if_able (stop_at s StopLocking t \<or> (\<exists>h. stop_at s (StopWaiting h) t)) (t \<lparr> tr_stops := hdel s (tr_stops t) \<rparr>)"
| "transport_step DeliverEnters t =
     if_able (\<not> tr_faulted t \<and> \<not> tr_closed t \<and> tr_module t \<noteq> None \<and> \<not> tr_cb_closed t)
       (did_native EnterDeliver (t \<lparr> tr_cb_active := Suc (tr_cb_active t) \<rparr>))"
| "transport_step DeliverLeaves t =
     if_able (tr_cb_active t \<noteq> 0) (did_native LeaveDeliver (t \<lparr> tr_cb_active := tr_cb_active t - 1 \<rparr>))"

inductive transport_reach :: "transport \<Rightarrow> bool" where
  eager: "transport_reach (transport_new config)"
| deferred: "transport_reach (defer_initializer (transport_new config))"
| step: "transport_reach t \<Longrightarrow> transport_step ev t = Some t' \<Longrightarrow> transport_reach t'"

section \<open>The protocol of the native callbacks\<close>

datatype native_call = NoCall | InitCall | ReinitCall | ShutdownCall

record native_state =
  nm_call :: native_call
  nm_initialized :: bool
  nm_shut_down :: bool
  nm_delivers :: nat

definition native_start :: native_state where
  "native_start = \<lparr> nm_call = NoCall, nm_initialized = False, nm_shut_down = False, nm_delivers = 0 \<rparr>"

fun native_next :: "native \<Rightarrow> native_state \<Rightarrow> native_state option" where
  "native_next EnterInit m =
     (if nm_call m = NoCall \<and> \<not> nm_initialized m then Some (m \<lparr> nm_call := InitCall, nm_initialized := True \<rparr>) else None)"
| "native_next LeaveInit m = (if nm_call m = InitCall then Some (m \<lparr> nm_call := NoCall \<rparr>) else None)"
| "native_next EnterReinit m =
     (if nm_call m = NoCall \<and> nm_initialized m \<and> \<not> nm_shut_down m then Some (m \<lparr> nm_call := ReinitCall \<rparr>) else None)"
| "native_next LeaveReinit m = (if nm_call m = ReinitCall then Some (m \<lparr> nm_call := NoCall \<rparr>) else None)"
| "native_next EnterShutdown m =
     (if nm_call m = NoCall \<and> nm_initialized m \<and> \<not> nm_shut_down m \<and> nm_delivers m = 0
      then Some (m \<lparr> nm_call := ShutdownCall, nm_shut_down := True \<rparr>) else None)"
| "native_next (LeaveShutdown _) m = (if nm_call m = ShutdownCall then Some (m \<lparr> nm_call := NoCall \<rparr>) else None)"
| "native_next EnterDeliver m =
     (if nm_call m \<noteq> InitCall \<and> nm_initialized m \<and> \<not> nm_shut_down m then Some (m \<lparr> nm_delivers := Suc (nm_delivers m) \<rparr>) else None)"
| "native_next LeaveDeliver m = (if nm_delivers m \<noteq> 0 then Some (m \<lparr> nm_delivers := nm_delivers m - 1 \<rparr>) else None)"

fun native_run :: "native list \<Rightarrow> native_state \<Rightarrow> native_state option" where
  "native_run [] m = Some m"
| "native_run (n # ns) m = (case native_next n m of Some m' \<Rightarrow> native_run ns m' | None \<Rightarrow> None)"

lemma native_run_append:
  "native_run (ns @ ns') m = (case native_run ns m of Some m' \<Rightarrow> native_run ns' m' | None \<Rightarrow> None)"
  by (induction ns arbitrary: m) (auto split: option.splits)

lemma native_run_snoc: "native_run ns m = Some m' \<Longrightarrow> native_run (ns @ [n]) m = native_next n m'"
  by (simp add: native_run_append split: option.split)

lemma native_run_inv:
  assumes "native_run ns m0 = Some m" "\<And>n m m'. P m \<Longrightarrow> native_next n m = Some m' \<Longrightarrow> P m'" "P m0"
  shows "P m"
  using assms(1,3) by (induction ns arbitrary: m0) (auto split: option.splits intro: assms(2))

lemma init_call_initialized:
  assumes "native_run ns native_start = Some m" "nm_call m = InitCall"
  shows "nm_initialized m"
proof -
  have "nm_call m = InitCall \<longrightarrow> nm_initialized m"
  proof (rule native_run_inv [OF assms(1)])
    fix n m m' assume "nm_call m = InitCall \<longrightarrow> nm_initialized m" "native_next n m = Some m'"
    then show "nm_call m' = InitCall \<longrightarrow> nm_initialized m'" by (cases n) (auto split: if_splits)
  qed (simp add: native_start_def)
  then show ?thesis using assms(2) by simp
qed

section \<open>The invariants\<close>

text \<open>Who acts as holder of the lifecycle mutex.\<close>

definition holding_place :: "job_place \<Rightarrow> bool" where
  "holding_place p \<longleftrightarrow> (case p of
      JobInitHeld \<Rightarrow> True | JobInInit \<Rightarrow> True | JobInitReturned _ \<Rightarrow> True | JobHeld \<Rightarrow> True | JobStopping \<Rightarrow> True
    | JobDraining \<Rightarrow> True | JobInShutdown \<Rightarrow> True | JobReturned _ \<Rightarrow> True | _ \<Rightarrow> False)"

definition holding_reinit :: "reinit_place \<Rightarrow> bool" where
  "holding_reinit p \<longleftrightarrow> (case p of ReinitHeld _ \<Rightarrow> True | ReinitSpawned \<Rightarrow> True | ReinitInCall \<Rightarrow> True | _ \<Rightarrow> False)"

definition holds :: "lifecycle_holder \<Rightarrow> transport \<Rightarrow> bool" where
  "holds h t \<longleftrightarrow> (case h of
      ByJob j \<Rightarrow> (case hget (tr_jobs t) j of Some jb \<Rightarrow> jb_guard jb \<or> holding_place (jb_place jb) | None \<Rightarrow> False)
    | ByStop s \<Rightarrow> hget (tr_stops t) s \<in> {Some StopHeld, Some StopCommitted}
    | ByReinit r \<Rightarrow> (case hget (tr_reinits t) r of Some p \<Rightarrow> holding_reinit p | None \<Rightarrow> False)
    | ByEager \<Rightarrow> tr_eager t = EagerInInit)"

definition holder_ok :: "transport \<Rightarrow> bool" where
  "holder_ok t \<longleftrightarrow> (\<forall>h. holds h t \<longleftrightarrow> tr_lifecycle t = Some h)
     \<and> (\<forall>j \<ge> tr_next_job t. hget (tr_jobs t) j = None)
     \<and> (\<forall>j jb. hget (tr_jobs t) j = Some jb \<longrightarrow> jb_guard jb \<longrightarrow>
          jb_place jb \<in> {JobUnspawned, JobStarted, JobAwaitInit, JobAwaitProviders} \<and> \<not> jb_initializer jb)
     \<and> (\<forall>j jb. hget (tr_jobs t) j = Some jb \<longrightarrow> jb_initializer jb \<longrightarrow> jb_place jb \<in> {JobUnspawned, JobStarted})
     \<and> (\<forall>j jb. hget (tr_jobs t) j = Some jb \<longrightarrow> \<not> jb_submitted jb \<longrightarrow> jb_place jb = JobUnspawned)
     \<and> hmap_ok (tr_jobs t) \<and> hmap_ok (tr_reinits t) \<and> hmap_ok (tr_stops t)"

text \<open>Who still may run the initializer.\<close>

datatype init_token = DeferredToken | EagerToken | JobToken nat

definition has_token :: "init_token \<Rightarrow> transport \<Rightarrow> bool" where
  "has_token k t \<longleftrightarrow> (case k of
      DeferredToken \<Rightarrow> tr_initializer t
    | EagerToken \<Rightarrow> tr_eager t = EagerUnused
    | JobToken j \<Rightarrow> (case hget (tr_jobs t) j of
          Some jb \<Rightarrow> jb_initializer jb \<or> jb_place jb \<in> {JobInitLock, JobInitHeld} | None \<Rightarrow> False))"

definition token_ok :: "transport \<Rightarrow> native_state \<Rightarrow> bool" where
  "token_ok t m \<longleftrightarrow> (\<forall>k k'. has_token k t \<longrightarrow> has_token k' t \<longrightarrow> k = k') \<and> (\<forall>k. has_token k t \<longrightarrow> \<not> nm_initialized m)"

definition call_at :: "job_place \<Rightarrow> native_call" where
  "call_at p = (case p of JobInInit \<Rightarrow> InitCall | JobInShutdown \<Rightarrow> ShutdownCall | _ \<Rightarrow> NoCall)"

definition running_call :: "transport \<Rightarrow> native_call" where
  "running_call t = (case tr_lifecycle t of
      None \<Rightarrow> NoCall
    | Some (ByJob j) \<Rightarrow> (case hget (tr_jobs t) j of Some jb \<Rightarrow> call_at (jb_place jb) | None \<Rightarrow> NoCall)
    | Some (ByReinit r) \<Rightarrow> if hget (tr_reinits t) r = Some ReinitInCall then ReinitCall else NoCall
    | Some (ByStop _) \<Rightarrow> NoCall
    | Some ByEager \<Rightarrow> InitCall)"

definition cleanup_spent :: "transport \<Rightarrow> bool" where
  "cleanup_spent t \<longleftrightarrow> ph_cleanup (tr_physical t) \<notin> {CleanupIdle, CleanupRequested}"

text \<open>What holds while the mutex is held, of the holder's own progress.\<close>

definition progress_ok :: "transport \<Rightarrow> native_state \<Rightarrow> bool" where
  "progress_ok t m \<longleftrightarrow> (case tr_lifecycle t of
      Some (ByJob j) \<Rightarrow>
        (case hget (tr_jobs t) j of
           Some jb \<Rightarrow> (jb_place jb \<in> {JobStopping, JobDraining} \<longrightarrow>
               \<not> nm_shut_down m \<and> tr_module t \<noteq> None \<and> cleanup_spent t)
             \<and> (jb_place jb = JobDraining \<longrightarrow> tr_cb_closed t \<and> tr_closed t)
             \<and> (jb_place jb = JobInInit \<longrightarrow> tr_module t = None)
         | None \<Rightarrow> True)
    | Some (ByReinit r) \<Rightarrow>
        (hget (tr_reinits t) r = Some ReinitSpawned \<longrightarrow> \<not> nm_shut_down m \<and> tr_module t \<noteq> None)
    | Some ByEager \<Rightarrow> tr_module t = None
    | _ \<Rightarrow> True)"

definition native_ok :: "transport \<Rightarrow> native_state \<Rightarrow> bool" where
  "native_ok t m \<longleftrightarrow> native_run (tr_natives t) native_start = Some m
     \<and> nm_call m = running_call t \<and> nm_delivers m = tr_cb_active t
     \<and> (tr_module t \<noteq> None \<longrightarrow> nm_initialized m)
     \<and> (nm_shut_down m \<longrightarrow> tr_cb_closed t \<and> tr_closed t \<and> cleanup_spent t)"

definition transport_ok :: "transport \<Rightarrow> bool" where
  "transport_ok t \<longleftrightarrow> holder_ok t \<and> (\<exists>m. token_ok t m \<and> progress_ok t m \<and> native_ok t m)"

text \<open>Most steps leave everything alone that these speak of, but close admission or move the cleanup on.\<close>

definition quiet :: "transport \<Rightarrow> transport \<Rightarrow> bool" where
  "quiet t t' \<longleftrightarrow> tr_lifecycle t' = tr_lifecycle t \<and> tr_jobs t' = tr_jobs t \<and> tr_next_job t' = tr_next_job t
     \<and> tr_reinits t' = tr_reinits t \<and> tr_stops t' = tr_stops t \<and> (tr_eager t' = EagerInInit \<longleftrightarrow> tr_eager t = EagerInInit)
     \<and> (tr_eager t' = EagerUnused \<longrightarrow> tr_eager t = EagerUnused)
     \<and> (tr_initializer t' \<longrightarrow> tr_initializer t) \<and> tr_natives t' = tr_natives t \<and> tr_module t' = tr_module t
     \<and> tr_cb_active t' = tr_cb_active t \<and> (tr_cb_closed t \<longrightarrow> tr_cb_closed t') \<and> (tr_closed t \<longrightarrow> tr_closed t')
     \<and> (cleanup_spent t \<longrightarrow> cleanup_spent t')"

lemma quiet_jobs:
  assumes "quiet t t'"
  shows "tr_lifecycle t' = tr_lifecycle t" "tr_jobs t' = tr_jobs t" "tr_reinits t' = tr_reinits t"
  using assms by (simp_all add: quiet_def)

lemma quiet_ok:
  assumes "quiet t t'" "transport_ok t"
  shows "transport_ok t'"
proof -
  obtain m where m: "holder_ok t" "token_ok t m" "progress_ok t m" "native_ok t m" using assms(2) by (auto simp: transport_ok_def)
  have h: "holds h t' = holds h t" for h using assms(1) by (cases h) (simp_all add: holds_def quiet_def)
  have "holder_ok t'" using m(1) assms(1) unfolding holder_ok_def h by (simp add: quiet_def)
  moreover have tok: "has_token k t' \<Longrightarrow> has_token k t" for k
    using assms(1) by (auto simp: has_token_def quiet_def split: init_token.splits option.splits)
  then have "token_ok t' m" using m(2) unfolding token_ok_def by blast
  moreover have "progress_ok t' m"
    using m(3) assms(1) unfolding progress_ok_def quiet_def by (auto split: option.splits lifecycle_holder.splits)
  moreover have "running_call t' = running_call t"
    unfolding running_call_def quiet_jobs [OF assms(1)] ..
  then have "native_ok t' m" using m(4) assms(1) unfolding native_ok_def quiet_def by simp
  ultimately show ?thesis unfolding transport_ok_def by blast
qed

lemma quiet_refl [simp]: "quiet t t"
  by (simp add: quiet_def)

lemma quiet_trans: "quiet t t' \<Longrightarrow> quiet t' t'' \<Longrightarrow> quiet t t''"
  unfolding quiet_def by auto

lemma quiet_flags [simp]: "quiet t (publish_terminal_flags f t)" "quiet t (fault_flags t)" "quiet t (host_ready t)" "quiet t (admit_broker t)"
  "quiet t (close_admission t)" "quiet t (finish_stop t)" "quiet t (clear_config t)"
  by (simp_all add: quiet_def publish_terminal_flags_def fault_flags_def host_ready_def admit_broker_def close_admission_def
      finish_stop_def clear_config_def cleanup_spent_def)

lemma quiet_commit [simp]: "quiet t (commit_terminal f t)"
  unfolding commit_terminal_def by (rule quiet_trans [OF quiet_flags(1) quiet_flags(5)])

section \<open>Steps of a job\<close>

lemma progress_other:
  assumes "progress_ok t m" "tr_lifecycle t' = tr_lifecycle t" "tr_lifecycle t \<noteq> Some (ByJob j)"
    "\<And>i. i \<noteq> j \<Longrightarrow> hget (tr_jobs t') i = hget (tr_jobs t) i" "tr_reinits t' = tr_reinits t"
    "tr_module t' = tr_module t" "tr_cb_closed t \<longrightarrow> tr_cb_closed t'" "tr_closed t \<longrightarrow> tr_closed t'" "cleanup_spent t \<longrightarrow> cleanup_spent t'"
  shows "progress_ok t' m"
  using assms unfolding progress_ok_def by (auto split: option.splits lifecycle_holder.splits)

lemma running_other:
  assumes "tr_lifecycle t' = tr_lifecycle t" "tr_lifecycle t \<noteq> Some (ByJob j)"
    "\<And>i. i \<noteq> j \<Longrightarrow> hget (tr_jobs t') i = hget (tr_jobs t) i" "tr_reinits t' = tr_reinits t"
  shows "running_call t' = running_call t"
  using assms unfolding running_call_def by (auto split: option.splits lifecycle_holder.splits)

definition job_wf :: "physical_job \<Rightarrow> bool" where
  "job_wf jb \<longleftrightarrow>
     (jb_guard jb \<longrightarrow> jb_place jb \<in> {JobUnspawned, JobStarted, JobAwaitInit, JobAwaitProviders} \<and> \<not> jb_initializer jb)
     \<and> (jb_initializer jb \<longrightarrow> jb_place jb \<in> {JobUnspawned, JobStarted}) \<and> (\<not> jb_submitted jb \<longrightarrow> jb_place jb = JobUnspawned)"

lemma holder_ok_jobs: "holder_ok t \<longleftrightarrow> (\<forall>h. holds h t \<longleftrightarrow> tr_lifecycle t = Some h)
     \<and> (\<forall>j \<ge> tr_next_job t. hget (tr_jobs t) j = None) \<and> (\<forall>j jb. hget (tr_jobs t) j = Some jb \<longrightarrow> job_wf jb)
     \<and> hmap_ok (tr_jobs t) \<and> hmap_ok (tr_reinits t) \<and> hmap_ok (tr_stops t)"
  unfolding holder_ok_def job_wf_def by blast

definition job_holds :: "physical_job \<Rightarrow> bool" where
  "job_holds jb \<longleftrightarrow> jb_guard jb \<or> holding_place (jb_place jb)"

definition job_token :: "physical_job \<Rightarrow> bool" where
  "job_token jb \<longleftrightarrow> jb_initializer jb \<or> jb_place jb \<in> {JobInitLock, JobInitHeld}"

lemma holder_okD:
  assumes "holder_ok t"
  shows "holds h t \<longleftrightarrow> tr_lifecycle t = Some h" "tr_next_job t \<le> j \<Longrightarrow> hget (tr_jobs t) j = None"
    "hget (tr_jobs t) j = Some jb \<Longrightarrow> job_wf jb" "hmap_ok (tr_jobs t)" "hmap_ok (tr_reinits t)" "hmap_ok (tr_stops t)"
    "hget (tr_jobs t) j = Some jb \<Longrightarrow> job_holds jb \<longleftrightarrow> tr_lifecycle t = Some (ByJob j)"
proof -
  show h: "holds h t \<longleftrightarrow> tr_lifecycle t = Some h" for h using assms by (simp add: holder_ok_def)
  show "tr_next_job t \<le> j \<Longrightarrow> hget (tr_jobs t) j = None" "hget (tr_jobs t) j = Some jb \<Longrightarrow> job_wf jb"
    "hmap_ok (tr_jobs t)" "hmap_ok (tr_reinits t)" "hmap_ok (tr_stops t)"
    using assms unfolding holder_ok_jobs by blast+
  show "hget (tr_jobs t) j = Some jb \<Longrightarrow> job_holds jb \<longleftrightarrow> tr_lifecycle t = Some (ByJob j)"
    using h [of "ByJob j"] by (simp add: holds_def job_holds_def)
qed

lemma holder_okI:
  assumes "\<And>h. holds h t \<longleftrightarrow> tr_lifecycle t = Some h" "\<And>j. tr_next_job t \<le> j \<Longrightarrow> hget (tr_jobs t) j = None"
    "\<And>j jb. hget (tr_jobs t) j = Some jb \<Longrightarrow> job_wf jb" "hmap_ok (tr_jobs t)" "hmap_ok (tr_reinits t)" "hmap_ok (tr_stops t)"
  shows "holder_ok t"
  using assms unfolding holder_ok_jobs by blast

text \<open>Only job \<open>j\<close> and what it may change changed.\<close>

definition job_moved :: "nat \<Rightarrow> physical_job \<Rightarrow> physical_job \<Rightarrow> transport \<Rightarrow> transport \<Rightarrow> bool" where
  "job_moved j jb jb' t t' \<longleftrightarrow> hget (tr_jobs t) j = Some jb \<and> tr_jobs t' = hput j jb' (tr_jobs t)
     \<and> tr_next_job t' = tr_next_job t \<and> tr_reinits t' = tr_reinits t \<and> tr_stops t' = tr_stops t \<and> tr_eager t' = tr_eager t
     \<and> job_wf jb' \<and> (job_holds jb' \<longleftrightarrow> tr_lifecycle t' = Some (ByJob j))
     \<and> (tr_lifecycle t' = tr_lifecycle t \<or> tr_lifecycle t \<in> {None, Some (ByJob j)} \<and> tr_lifecycle t' \<in> {None, Some (ByJob j)})
     \<and> (job_token jb' \<longrightarrow> job_token jb) \<and> (tr_initializer t' \<longrightarrow> tr_initializer t) \<and> tr_cb_active t' = tr_cb_active t
     \<and> (tr_cb_closed t \<longrightarrow> tr_cb_closed t') \<and> (tr_closed t \<longrightarrow> tr_closed t') \<and> (cleanup_spent t \<longrightarrow> cleanup_spent t')"

lemma job_movedD:
  assumes "job_moved j jb jb' t t'"
  shows "tr_lifecycle t' = tr_lifecycle t \<or> tr_lifecycle t \<in> {None, Some (ByJob j)} \<and> tr_lifecycle t' \<in> {None, Some (ByJob j)}"
  using assms unfolding job_moved_def by (elim conjE)

lemma job_moved_holder:
  assumes ok: "holder_ok t" and mv: "job_moved j jb jb' t t'"
  shows "holder_ok t'"
proof -
  have holds: "holds h t' \<longleftrightarrow> tr_lifecycle t' = Some h" for h
  proof (cases "h = ByJob j")
    case True
    then show ?thesis using mv by (simp add: holds_def job_moved_def job_holds_def hm.get_put)
  next
    case False
    have "holds h t' = holds h t"
      using mv False by (cases h) (auto simp: holds_def job_moved_def hm.get_put)
    moreover have "holds h t \<longleftrightarrow> tr_lifecycle t = Some h" using holder_okD(1) [OF ok] .
    moreover have "tr_lifecycle t' = Some h \<longleftrightarrow> tr_lifecycle t = Some h" using job_movedD [OF mv] False by auto
    ultimately show ?thesis by simp
  qed
  have jb: "hget (tr_jobs t) j = Some jb" "tr_jobs t' = hput j jb' (tr_jobs t)" "tr_next_job t' = tr_next_job t" "job_wf jb'"
    "tr_reinits t' = tr_reinits t" "tr_stops t' = tr_stops t"
    using mv by (simp_all add: job_moved_def)
  have "j < tr_next_job t" using holder_okD(2) [OF ok, of j] jb(1) by (metis linorder_not_less option.distinct(1))
  show ?thesis
  proof (rule holder_okI [OF holds])
    fix i assume "tr_next_job t' \<le> i"
    then show "hget (tr_jobs t') i = None" using \<open>j < tr_next_job t\<close> holder_okD(2) [OF ok] jb(2,3) by (simp add: hm.get_put)
  next
    fix i jb1 assume "hget (tr_jobs t') i = Some jb1"
    then show "job_wf jb1" using holder_okD(3) [OF ok] jb(2,4) by (auto simp: hm.get_put split: if_splits)
  qed (use holder_okD(4-6) [OF ok] jb in \<open>simp_all add: hm.ok_put\<close>)
qed

lemma job_moved_token: "job_moved j jb jb' t t' \<Longrightarrow> has_token k t' \<Longrightarrow> has_token k t"
  by (cases k) (auto simp: has_token_def job_moved_def job_token_def hm.get_put split: if_splits option.splits)

lemma job_moved_ok:
  assumes ok: "transport_ok t" and mv: "job_moved j jb jb' t t'"
    and own: "\<And>m. holder_ok t \<Longrightarrow> token_ok t m \<Longrightarrow> progress_ok t m \<Longrightarrow> native_ok t m \<Longrightarrow>
       \<exists>m'. progress_ok t' m' \<and> native_ok t' m' \<and> (nm_initialized m' \<longrightarrow> nm_initialized m \<or> (\<forall>k. \<not> has_token k t'))"
  shows "transport_ok t'"
proof -
  obtain m where m: "holder_ok t" "token_ok t m" "progress_ok t m" "native_ok t m" using ok by (auto simp: transport_ok_def)
  obtain m' where m': "progress_ok t' m'" "native_ok t' m'" "nm_initialized m' \<longrightarrow> nm_initialized m \<or> (\<forall>k. \<not> has_token k t')"
    using own [OF m] by blast
  have "token_ok t' m'" using m(2) m'(3) job_moved_token [OF mv] unfolding token_ok_def by blast
  then show ?thesis using job_moved_holder [OF m(1) mv] m' unfolding transport_ok_def by blast
qed

text \<open>A step between callbacks.\<close>

lemma job_silent_ok:
  assumes ok: "transport_ok t" and mv: "job_moved j jb jb' t t'"
    and same: "tr_natives t' = tr_natives t" "tr_module t' = tr_module t"
    and call: "tr_lifecycle t' = Some (ByJob j) \<Longrightarrow> call_at (jb_place jb') = NoCall" "job_holds jb \<Longrightarrow> call_at (jb_place jb) = NoCall"
    and prog: "\<And>m. tr_lifecycle t' = Some (ByJob j) \<Longrightarrow> native_ok t m \<Longrightarrow> progress_ok t m \<Longrightarrow> progress_ok t' m"
  shows "transport_ok t'"
proof (rule job_moved_ok [OF ok mv])
  fix m assume m: "holder_ok t" "token_ok t m" "progress_ok t m" "native_ok t m"
  have jb: "hget (tr_jobs t) j = Some jb" using mv by (simp add: job_moved_def)
  have held: "tr_lifecycle t = Some (ByJob j) \<longleftrightarrow> job_holds jb"
    using holder_okD(7) [OF m(1) jb] by simp
  have other: "\<And>i. i \<noteq> j \<Longrightarrow> hget (tr_jobs t') i = hget (tr_jobs t) i" "tr_reinits t' = tr_reinits t"
    using mv by (simp_all add: job_moved_def hm.get_put)
  have mono: "tr_cb_closed t \<longrightarrow> tr_cb_closed t'" "tr_closed t \<longrightarrow> tr_closed t'" "cleanup_spent t \<longrightarrow> cleanup_spent t'"
    "tr_cb_active t' = tr_cb_active t" using mv by (simp_all add: job_moved_def)
  have run: "running_call t' = running_call t \<and> progress_ok t' m"
  proof (cases "tr_lifecycle t' = Some (ByJob j)")
    case True
    have "running_call t' = NoCall" using True call(1) mv by (simp add: running_call_def job_moved_def hm.get_put)
    moreover have "running_call t = NoCall"
    proof (cases "tr_lifecycle t = Some (ByJob j)")
      case True
      then show ?thesis using call(2) held jb by (simp add: running_call_def)
    next
      case False
      then have "tr_lifecycle t = None" using job_movedD [OF mv] \<open>tr_lifecycle t' = Some (ByJob j)\<close> by auto
      then show ?thesis by (simp add: running_call_def)
    qed
    ultimately show ?thesis using prog [OF True m(4,3)] by simp
  next
    case False
    show ?thesis
    proof (cases "tr_lifecycle t = Some (ByJob j)")
      case True
      then have "tr_lifecycle t' = None" using job_movedD [OF mv] False by auto
      then show ?thesis using True call(2) held jb by (simp add: running_call_def progress_ok_def)
    next
      case False2: False
      then have "tr_lifecycle t' = tr_lifecycle t" using job_movedD [OF mv] False by auto
      then show ?thesis using running_other [OF _ False2 other] progress_other [OF m(3) _ False2 other same(2) mono(1,2,3)] by blast
    qed
  qed
  then have "native_ok t' m" using m(4) same mono by (simp add: native_ok_def)
  then show "\<exists>m'. progress_ok t' m' \<and> native_ok t' m' \<and> (nm_initialized m' \<longrightarrow> nm_initialized m \<or> (\<forall>k. \<not> has_token k t'))"
    using run by blast
qed

lemmas transport_fields = set_physical_def did_native_def goto_def set_job_def unlock_def lock_def publish_terminal_flags_def
  close_admission_def commit_terminal_def finish_stop_def clear_config_def cancel_before_entry_def worker_lost_def put_reinit_def
  put_stop_def cleanup_spent_def

lemmas job_shapes = job_moved_def job_wf_def job_holds_def job_token_def holding_place_def call_at_def

lemma at_placeE:
  assumes "at_place j place t"
  obtains jb where "hget (tr_jobs t) j = Some jb" "jb_place jb = place"
  using assms by (auto simp: at_place_def split: option.splits)

lemma job_facts:
  assumes "transport_ok t" "hget (tr_jobs t) j = Some jb"
  shows "job_wf jb" "job_holds jb \<longleftrightarrow> tr_lifecycle t = Some (ByJob j)"
  using assms holder_okD(3,7) by (auto simp: transport_ok_def)

lemma job_submitted_ok:
  assumes ok: "transport_ok t"
  shows "transport_ok (submit_job j spawned t)"
proof (cases "\<exists>jb. hget (tr_jobs t) j = Some jb \<and> \<not> jb_submitted jb")
  case False
  then have "submit_job j spawned t = t" by (auto simp: submit_job_def split: option.splits)
  then show ?thesis using ok by simp
next
  case True
  then obtain jb where jb: "hget (tr_jobs t) j = Some jb" "\<not> jb_submitted jb" by blast
  note f = job_facts [OF ok jb(1)]
  have p: "jb_place jb = JobUnspawned" using f(1) jb(2) by (simp add: job_wf_def)
  show ?thesis
  proof (cases spawned)
    case True
    show ?thesis
      by (rule job_silent_ok [OF ok, of j jb "jb \<lparr> jb_submitted := True, jb_place := JobStarted \<rparr>"])
        (use jb f p True in \<open>simp_all add: submit_job_def transport_fields job_shapes hm.get_put Let_def progress_ok_def\<close>)
  next
    case False
    show ?thesis
      by (rule job_silent_ok [OF ok, of j jb "jb \<lparr> jb_submitted := True \<rparr>"])
        (use jb f p False in \<open>simp_all add: submit_job_def transport_fields job_shapes hm.get_put Let_def progress_ok_def\<close>)
  qed
qed

lemma run_ok:
  assumes ok: "transport_ok t" and jb: "hget (tr_jobs t) j = Some jb" "jb_place jb = JobStarted"
  shows "transport_ok (job_run j jb t)"
  by (rule job_silent_ok [OF ok, of j jb "jb \<lparr> jb_initializer := False, jb_place := (if jb_initializer jb then JobInitLock else JobAwaitInit) \<rparr>"])
    (use jb job_facts [OF ok jb(1)] in \<open>auto simp: job_run_def transport_fields job_shapes hm.get_put progress_ok_def\<close>)

lemma settled_ok:
  assumes ok: "transport_ok t" and jb: "hget (tr_jobs t) j = Some jb" "jb_place jb = JobAwaitInit"
  shows "transport_ok (goto j JobAwaitProviders t)"
  by (rule job_silent_ok [OF ok, of j jb "jb \<lparr> jb_place := JobAwaitProviders \<rparr>"])
    (use jb job_facts [OF ok jb(1)] in \<open>auto simp: transport_fields job_shapes hm.get_put progress_ok_def\<close>)

lemma lock_free: "lock h t = Some t1 \<Longrightarrow> tr_lifecycle t = None \<and> t1 = t \<lparr> tr_lifecycle := Some h \<rparr>"
  by (simp add: lock_def split: if_splits)

lemma lock_ok:
  assumes ok: "transport_ok t" and jb: "hget (tr_jobs t) j = Some jb"
    and place: "jb_place jb = JobInitLock \<and> place = JobInitHeld \<or> jb_place jb = JobAwaitLock \<and> place = JobHeld"
    and got: "lock (ByJob j) t = Some t1"
  shows "transport_ok (goto j place t1)"
proof -
  note free = lock_free [OF got]
  note f = job_facts [OF ok jb]
  have own: "\<not> jb_guard jb" "\<not> jb_initializer jb" "jb_submitted jb" using f place by (auto simp: job_wf_def)
  show ?thesis
    using place
  proof
    assume p: "jb_place jb = JobInitLock \<and> place = JobInitHeld"
    show ?thesis
      by (rule job_silent_ok [OF ok, of j jb "jb \<lparr> jb_place := place \<rparr>"])
        (use jb p own free in \<open>simp_all add: transport_fields job_shapes hm.get_put progress_ok_def\<close>)
  next
    assume p: "jb_place jb = JobAwaitLock \<and> place = JobHeld"
    show ?thesis
      by (rule job_silent_ok [OF ok, of j jb "jb \<lparr> jb_place := place \<rparr>"])
        (use jb p own free in \<open>simp_all add: transport_fields job_shapes hm.get_put progress_ok_def\<close>)
  qed
qed

lemma providers_ok:
  assumes ok: "transport_ok t" and jb: "hget (tr_jobs t) j = Some jb" "jb_place jb = JobAwaitProviders"
  shows "transport_ok (job_providers j jb t)"
proof (cases "tr_providers t \<or> \<not> jb_guard jb")
  case True
  show ?thesis
    by (rule job_silent_ok [OF ok, of j jb "jb \<lparr> jb_guard := False, jb_place := JobAwaitLock \<rparr>"])
      (use True jb job_facts [OF ok jb(1)] in \<open>auto simp: job_providers_def transport_fields job_shapes hm.get_put progress_ok_def Let_def\<close>)
next
  case False
  show ?thesis
    by (rule job_silent_ok [OF ok, of j jb "jb \<lparr> jb_guard := False, jb_place := JobHeld \<rparr>"])
      (use False jb job_facts [OF ok jb(1)] in \<open>auto simp: job_providers_def transport_fields job_shapes hm.get_put progress_ok_def Let_def\<close>)
qed

lemma claim_ok:
  assumes ok: "transport_ok t" and jb: "hget (tr_jobs t) j = Some jb" "jb_place jb = JobHeld"
  shows "transport_ok (job_claim j t)"
proof -
  note f = job_facts [OF ok jb(1)]
  have held: "tr_lifecycle t = Some (ByJob j)" using f jb by (simp add: job_holds_def holding_place_def)
  have free: "\<not> jb_initializer jb" "\<not> jb_guard jb" "jb_submitted jb" using f(1) jb by (auto simp: job_wf_def)
  show ?thesis
  proof (cases "ph_cleanup (tr_physical t) \<noteq> CleanupRequested \<or> ph_init (tr_physical t) \<in> {InitDeferred, CanceledBeforeEntry} \<or> tr_module t = None")
    case True
    show ?thesis
      by (rule job_silent_ok [OF ok, of j jb "jb \<lparr> jb_place := JobEnded \<rparr>"])
        (use True jb held free in \<open>auto simp: job_claim_def transport_fields job_shapes hm.get_put Let_def progress_ok_def\<close>)
  next
    case False
    show ?thesis
    proof (rule job_silent_ok [OF ok, of j jb "jb \<lparr> jb_place := JobStopping \<rparr>"])
      fix m assume "native_ok t m"
      then have "\<not> nm_shut_down m" using False by (auto simp: native_ok_def cleanup_spent_def)
      then show "progress_ok (job_claim j t) m"
        using False jb held by (simp add: job_claim_def transport_fields progress_ok_def hm.get_put Let_def)
    qed (use False jb held free in \<open>simp_all add: job_claim_def transport_fields job_shapes hm.get_put Let_def\<close>)
  qed
qed

lemma stop_close_ok:
  assumes ok: "transport_ok t" and jb: "hget (tr_jobs t) j = Some jb" "jb_place jb = JobStopping"
  shows "transport_ok (stop_sync_close j t)"
proof -
  note f = job_facts [OF ok jb(1)]
  have held: "tr_lifecycle t = Some (ByJob j)" using f jb by (simp add: job_holds_def holding_place_def)
  have free: "\<not> jb_initializer jb" "\<not> jb_guard jb" "jb_submitted jb" using f(1) jb by (auto simp: job_wf_def)
  show ?thesis
  proof (cases "tr_stopped t")
    case True
    show ?thesis
      by (rule job_silent_ok [OF ok, of j jb "jb \<lparr> jb_place := JobReturned (Some TB_CLOSED) \<rparr>"])
        (use True jb held free in \<open>auto simp: stop_sync_close_def transport_fields job_shapes hm.get_put progress_ok_def\<close>)
  next
    case False
    show ?thesis
      by (rule job_silent_ok [OF ok, of j jb "jb \<lparr> jb_place := JobDraining \<rparr>"])
        (use False jb held free in \<open>auto simp: stop_sync_close_def transport_fields job_shapes hm.get_put progress_ok_def\<close>)
  qed
qed

lemma publish_ok:
  assumes ok: "transport_ok t" and jb: "hget (tr_jobs t) j = Some jb" "jb_place jb = JobInitReturned r"
  shows "transport_ok (job_publish j r t)"
proof -
  note f = job_facts [OF ok jb(1)]
  have held: "tr_lifecycle t = Some (ByJob j)" using f jb by (simp add: job_holds_def holding_place_def)
  have free: "\<not> jb_initializer jb" "\<not> jb_guard jb" "jb_submitted jb" using f(1) jb by (auto simp: job_wf_def)
  let ?place = "if ph_cleanup (tr_physical (set_physical (publish_init r) t)) = CleanupRequested then JobAwaitProviders else JobEnded"
  show ?thesis
    by (rule job_silent_ok [OF ok, of j jb "jb \<lparr> jb_place := ?place \<rparr>"])
      (use jb held free in \<open>auto simp: job_publish_def publish_init_def transport_fields job_shapes hm.get_put Let_def progress_ok_def split: sum.splits\<close>)
qed

lemma finish_ok:
  assumes ok: "transport_ok t" and jb: "hget (tr_jobs t) j = Some jb" "jb_place jb = JobReturned code"
  shows "transport_ok (job_finish j code t)"
proof -
  note f = job_facts [OF ok jb(1)]
  have held: "tr_lifecycle t = Some (ByJob j)" using f jb by (simp add: job_holds_def holding_place_def)
  have free: "\<not> jb_initializer jb" "\<not> jb_guard jb" "jb_submitted jb" using f(1) jb by (auto simp: job_wf_def)
  show ?thesis
    by (rule job_silent_ok [OF ok, of j jb "jb \<lparr> jb_place := JobEnded \<rparr>"])
      (use jb held free in \<open>auto simp: job_finish_def transport_fields job_shapes hm.get_put progress_ok_def\<close>)
qed

text \<open>A step of the holder that enters or leaves a callback.\<close>

lemma native_okD:
  assumes "native_ok t m"
  shows "native_run (tr_natives t) native_start = Some m" "nm_call m = running_call t" "nm_delivers m = tr_cb_active t"
    "tr_module t \<noteq> None \<Longrightarrow> nm_initialized m" "nm_shut_down m \<Longrightarrow> tr_cb_closed t" "nm_shut_down m \<Longrightarrow> tr_closed t"
    "nm_shut_down m \<Longrightarrow> cleanup_spent t"
  using assms by (simp_all add: native_ok_def)

lemma job_held:
  assumes "transport_ok t" "hget (tr_jobs t) j = Some jb" "holding_place (jb_place jb)"
  shows "tr_lifecycle t = Some (ByJob j)" "running_call t = call_at (jb_place jb)" "\<not> jb_initializer jb" "\<not> jb_guard jb" "jb_submitted jb"
proof -
  show held: "tr_lifecycle t = Some (ByJob j)" using job_facts [OF assms(1,2)] assms(3) by (simp add: job_holds_def)
  then show "running_call t = call_at (jb_place jb)" using assms(2) by (simp add: running_call_def)
  have "jb_place jb \<notin> {JobUnspawned, JobStarted, JobAwaitInit, JobAwaitProviders}"
    using assms(3) by (auto simp: holding_place_def)
  then show "\<not> jb_initializer jb" "\<not> jb_guard jb" "jb_submitted jb" using job_facts(1) [OF assms(1,2)] unfolding job_wf_def by blast+
qed

lemma job_native_ok:
  assumes ok: "transport_ok t" and mv: "job_moved j jb jb' t t'" and held: "tr_lifecycle t = Some (ByJob j)" "tr_lifecycle t' = Some (ByJob j)"
    and natives: "tr_natives t' = tr_natives t @ [n]"
    and go: "\<And>m. token_ok t m \<Longrightarrow> native_ok t m \<Longrightarrow> progress_ok t m \<Longrightarrow> \<exists>m'. native_next n m = Some m' \<and> nm_call m' = call_at (jb_place jb')
        \<and> nm_delivers m' = nm_delivers m \<and> (tr_module t' \<noteq> None \<longrightarrow> nm_initialized m')
        \<and> (nm_shut_down m' \<longrightarrow> tr_cb_closed t' \<and> tr_closed t' \<and> cleanup_spent t') \<and> progress_ok t' m'
        \<and> (nm_initialized m' \<longrightarrow> nm_initialized m \<or> (\<forall>k. \<not> has_token k t'))"
  shows "transport_ok t'"
proof (rule job_moved_ok [OF ok mv])
  fix m assume m: "holder_ok t" "token_ok t m" "progress_ok t m" "native_ok t m"
  obtain m' where m': "native_next n m = Some m'" "nm_call m' = call_at (jb_place jb')" "nm_delivers m' = nm_delivers m"
    "tr_module t' \<noteq> None \<longrightarrow> nm_initialized m'" "nm_shut_down m' \<longrightarrow> tr_cb_closed t' \<and> tr_closed t' \<and> cleanup_spent t'"
    "progress_ok t' m'" "nm_initialized m' \<longrightarrow> nm_initialized m \<or> (\<forall>k. \<not> has_token k t')"
    using go [OF m(2,4,3)] by blast
  have "running_call t' = call_at (jb_place jb')" using held(2) mv by (simp add: running_call_def job_moved_def hm.get_put)
  moreover have "tr_cb_active t' = tr_cb_active t" using mv by (simp add: job_moved_def)
  moreover have "native_run (tr_natives t') native_start = Some m'"
    unfolding natives native_run_snoc [OF native_okD(1) [OF m(4)]] by (rule m'(1))
  ultimately have "native_ok t' m'" using m' native_okD(3) [OF m(4)] unfolding native_ok_def by simp
  then show "\<exists>m'. progress_ok t' m' \<and> native_ok t' m' \<and> (nm_initialized m' \<longrightarrow> nm_initialized m \<or> (\<forall>k. \<not> has_token k t'))"
    using m'(6,7) by blast
qed

lemma enter_ok:
  assumes ok: "transport_ok t" and jb: "hget (tr_jobs t) j = Some jb" "jb_place jb = JobInitHeld"
  shows "transport_ok (job_enter j t)"
proof -
  have h: "holding_place (jb_place jb)" using jb by (simp add: holding_place_def)
  note held = job_held [OF ok jb(1) h]
  show ?thesis
  proof (cases "tr_closed t \<or> tr_faulted t")
    case True
    show ?thesis
      by (rule job_silent_ok [OF ok, of j jb "jb \<lparr> jb_place := JobEnded \<rparr>"])
        (use True jb held in \<open>auto simp: job_enter_def transport_fields job_shapes hm.get_put progress_ok_def\<close>)
  next
    case False
    let ?t = "job_enter j t"
    have mv: "job_moved j jb (jb \<lparr> jb_place := JobInInit \<rparr>) t ?t"
      using False jb held by (simp add: job_enter_def transport_fields job_shapes)
    have tok: "has_token (JobToken j) t" using jb by (simp add: has_token_def)
    have none: "\<not> has_token k ?t" if "token_ok t m" for k m
    proof
      assume "has_token k ?t"
      moreover have "k = JobToken j"
        using job_moved_token [OF mv \<open>has_token k ?t\<close>] tok that unfolding token_ok_def by blast
      ultimately show False using False jb held by (simp add: has_token_def job_enter_def transport_fields hm.get_put)
    qed
    show ?thesis
    proof (rule job_native_ok [OF ok mv held(1), of EnterInit])
      fix m assume m: "token_ok t m" "native_ok t m" "progress_ok t m"
      have fresh: "\<not> nm_initialized m" using m(1) tok unfolding token_ok_def by blast
      have call: "nm_call m = NoCall" using native_okD(2) [OF m(2)] held(2) jb(2) by (simp add: call_at_def)
      have nomod: "tr_module t = None" using fresh native_okD(4) [OF m(2)] by blast
      have noshut: "nm_shut_down m \<longrightarrow> tr_cb_closed t \<and> tr_closed t \<and> cleanup_spent t" using native_okD(5-7) [OF m(2)] by blast
      show "\<exists>m'. native_next EnterInit m = Some m' \<and> nm_call m' = call_at (jb_place (jb \<lparr> jb_place := JobInInit \<rparr>))
        \<and> nm_delivers m' = nm_delivers m \<and> (tr_module ?t \<noteq> None \<longrightarrow> nm_initialized m')
        \<and> (nm_shut_down m' \<longrightarrow> tr_cb_closed ?t \<and> tr_closed ?t \<and> cleanup_spent ?t) \<and> progress_ok ?t m'
        \<and> (nm_initialized m' \<longrightarrow> nm_initialized m \<or> (\<forall>k. \<not> has_token k ?t))"
        using fresh call nomod none [OF m(1)] noshut False jb held
        by (simp add: call_at_def job_enter_def transport_fields progress_ok_def hm.get_put)
    qed (use False jb held in \<open>simp_all add: job_enter_def transport_fields\<close>)
  qed
qed

lemma init_returned_ok:
  assumes ok: "transport_ok t" and jb: "hget (tr_jobs t) j = Some jb" "jb_place jb = JobInInit"
  shows "transport_ok (job_init_returned j output t)"
proof -
  have h: "holding_place (jb_place jb)" using jb by (simp add: holding_place_def)
  note held = job_held [OF ok jb(1) h]
  let ?t = "job_init_returned j output t"
  obtain r where r: "tr_jobs ?t = hput j (jb \<lparr> jb_place := JobInitReturned r \<rparr>) (tr_jobs t)" "tr_natives ?t = tr_natives t @ [LeaveInit]"
    "tr_lifecycle ?t = tr_lifecycle t" "tr_next_job ?t = tr_next_job t" "tr_reinits ?t = tr_reinits t" "tr_stops ?t = tr_stops t"
    "tr_eager ?t = tr_eager t" "tr_initializer ?t = tr_initializer t" "tr_cb_active ?t = tr_cb_active t" "tr_cb_closed ?t = tr_cb_closed t"
    "tr_closed ?t = tr_closed t" "cleanup_spent ?t = cleanup_spent t"
  proof (cases "output")
    case (Inl e)
    show thesis
      by (rule that [of "Inl (InitFailed e)"]) (use Inl jb(1) in \<open>simp_all add: job_init_returned_def transport_fields Let_def\<close>)
  next
    case (Inr v)
    show thesis
    proof (cases "vtable_ok v")
      case True
      show thesis
        by (rule that [of "Inr v"]) (use Inr True jb(1) in \<open>simp_all add: job_init_returned_def initialize_def transport_fields Let_def\<close>)
    next
      case False
      show thesis
        by (rule that [of "Inl (InitFailed ''module returned an invalid vtable'')"])
          (use Inr False jb(1) in \<open>simp_all add: job_init_returned_def initialize_def transport_fields Let_def\<close>)
    qed
  qed
  have mv: "job_moved j jb (jb \<lparr> jb_place := JobInitReturned r \<rparr>) t ?t"
    using r jb held by (simp add: job_shapes)
  show ?thesis
  proof (rule job_native_ok [OF ok mv held(1) _ r(2)])
    fix m assume m: "token_ok t m" "native_ok t m" "progress_ok t m"
    have call: "nm_call m = InitCall" using native_okD(2) [OF m(2)] held(2) jb(2) by (simp add: call_at_def)
    have init: "nm_initialized m"
      using native_okD(1) [OF m(2)] call by (rule init_call_initialized)
    show "\<exists>m'. native_next LeaveInit m = Some m' \<and> nm_call m' = call_at (jb_place (jb \<lparr> jb_place := JobInitReturned r \<rparr>))
        \<and> nm_delivers m' = nm_delivers m \<and> (tr_module ?t \<noteq> None \<longrightarrow> nm_initialized m')
        \<and> (nm_shut_down m' \<longrightarrow> tr_cb_closed ?t \<and> tr_closed ?t \<and> cleanup_spent ?t) \<and> progress_ok ?t m'
        \<and> (nm_initialized m' \<longrightarrow> nm_initialized m \<or> (\<forall>k. \<not> has_token k ?t))"
      using call init native_okD(5-7) [OF m(2)] r held by (simp add: call_at_def progress_ok_def hm.get_put)
  qed (simp add: r(3) held)
qed

lemma shutdown_sync_ok:
  assumes ok: "transport_ok t" and jb: "hget (tr_jobs t) j = Some jb" "jb_place jb = JobDraining" and idle: "tr_cb_active t = 0"
  shows "transport_ok (shutdown_sync j t)"
proof -
  have h: "holding_place (jb_place jb)" using jb by (simp add: holding_place_def)
  note held = job_held [OF ok jb(1) h]
  obtain m0 where "progress_ok t m0" using ok by (auto simp: transport_ok_def)
  then obtain v where v: "tr_module t = Some v" using jb held(1) by (auto simp: progress_ok_def)
  let ?t = "shutdown_sync j t"
  have mv: "job_moved j jb (jb \<lparr> jb_place := JobInShutdown \<rparr>) t ?t"
    using jb held v by (simp add: shutdown_sync_def transport_fields job_shapes)
  show ?thesis
  proof (rule job_native_ok [OF ok mv held(1), of EnterShutdown])
    fix m assume m: "token_ok t m" "native_ok t m" "progress_ok t m"
    have call: "nm_call m = NoCall" using native_okD(2) [OF m(2)] held(2) jb(2) by (simp add: call_at_def)
    have prog: "\<not> nm_shut_down m" "cleanup_spent t" "tr_cb_closed t" "tr_closed t" using m(3) held(1) jb by (simp_all add: progress_ok_def)
    have init: "nm_initialized m" "nm_delivers m = 0" using native_okD(3,4) [OF m(2)] v idle by simp_all
    show "\<exists>m'. native_next EnterShutdown m = Some m' \<and> nm_call m' = call_at (jb_place (jb \<lparr> jb_place := JobInShutdown \<rparr>))
        \<and> nm_delivers m' = nm_delivers m \<and> (tr_module ?t \<noteq> None \<longrightarrow> nm_initialized m')
        \<and> (nm_shut_down m' \<longrightarrow> tr_cb_closed ?t \<and> tr_closed ?t \<and> cleanup_spent ?t) \<and> progress_ok ?t m'
        \<and> (nm_initialized m' \<longrightarrow> nm_initialized m \<or> (\<forall>k. \<not> has_token k ?t))"
      using call prog init jb held v
      by (simp add: call_at_def progress_ok_def shutdown_sync_def transport_fields hm.get_put)
  qed (use v held jb in \<open>simp_all add: shutdown_sync_def transport_fields\<close>)
qed

lemma shutdown_left_ok:
  assumes ok: "transport_ok t" and jb: "hget (tr_jobs t) j = Some jb" "jb_place jb = JobInShutdown"
  shows "transport_ok (shutdown_left j code t)"
proof -
  have h: "holding_place (jb_place jb)" using jb by (simp add: holding_place_def)
  note held = job_held [OF ok jb(1) h]
  let ?t = "shutdown_left j code t"
  have r: "tr_jobs ?t = hput j (jb \<lparr> jb_place := JobReturned code \<rparr>) (tr_jobs t)" "tr_natives ?t = tr_natives t @ [LeaveShutdown code]"
    "tr_lifecycle ?t = tr_lifecycle t" "tr_next_job ?t = tr_next_job t" "tr_reinits ?t = tr_reinits t" "tr_stops ?t = tr_stops t"
    "tr_eager ?t = tr_eager t" "tr_initializer ?t = tr_initializer t" "tr_cb_active ?t = tr_cb_active t" "tr_cb_closed ?t = tr_cb_closed t"
    "tr_closed ?t = tr_closed t" "cleanup_spent ?t = cleanup_spent t" "tr_module ?t = tr_module t"
    using jb(1) by (cases code; simp add: shutdown_left_def stop_sync_return_def transport_fields Let_def)+
  have mv: "job_moved j jb (jb \<lparr> jb_place := JobReturned code \<rparr>) t ?t"
    using r jb held by (simp add: job_shapes)
  show ?thesis
  proof (rule job_native_ok [OF ok mv held(1) _ r(2)])
    fix m assume m: "token_ok t m" "native_ok t m" "progress_ok t m"
    have call: "nm_call m = ShutdownCall" using native_okD(2) [OF m(2)] held(2) jb(2) by (simp add: call_at_def)
    show "\<exists>m'. native_next (LeaveShutdown code) m = Some m' \<and> nm_call m' = call_at (jb_place (jb \<lparr> jb_place := JobReturned code \<rparr>))
        \<and> nm_delivers m' = nm_delivers m \<and> (tr_module ?t \<noteq> None \<longrightarrow> nm_initialized m')
        \<and> (nm_shut_down m' \<longrightarrow> tr_cb_closed ?t \<and> tr_closed ?t \<and> cleanup_spent ?t) \<and> progress_ok ?t m'
        \<and> (nm_initialized m' \<longrightarrow> nm_initialized m \<or> (\<forall>k. \<not> has_token k ?t))"
      using call native_okD(4-7) [OF m(2)] r held by (simp add: call_at_def progress_ok_def hm.get_put)
  qed (simp add: r(3) held)
qed

section \<open>New jobs\<close>

text \<open>A new job holds nothing, unless a stop hands the mutex over to it, and may take the deferred initializer.\<close>

lemma new_job_fields [simp]:
  "tr_jobs (new_job i g f t) = hput (tr_next_job t)
     \<lparr> jb_initializer = i, jb_guard = g, jb_fault_on_spawn_failure = f, jb_submitted = False, jb_place = JobUnspawned \<rparr> (tr_jobs t)"
  "tr_next_job (new_job i g f t) = Suc (tr_next_job t)" "tr_lifecycle (new_job i g f t) = tr_lifecycle t"
  "tr_reinits (new_job i g f t) = tr_reinits t" "tr_stops (new_job i g f t) = tr_stops t" "tr_eager (new_job i g f t) = tr_eager t"
  "tr_initializer (new_job i g f t) = tr_initializer t" "tr_natives (new_job i g f t) = tr_natives t"
  "tr_module (new_job i g f t) = tr_module t" "tr_cb_active (new_job i g f t) = tr_cb_active t"
  "tr_cb_closed (new_job i g f t) = tr_cb_closed t" "tr_closed (new_job i g f t) = tr_closed t"
  "cleanup_spent (new_job i g f t) = cleanup_spent t" "tr_stop_spawned (new_job i g f t) = tr_stop_spawned t"
  by (simp_all add: new_job_def set_physical_def cleanup_spent_def)

definition fresh_job :: "physical_job \<Rightarrow> bool" where
  "fresh_job jb \<longleftrightarrow> jb_place jb = JobUnspawned \<and> \<not> jb_submitted jb \<and> (jb_guard jb \<longrightarrow> \<not> jb_initializer jb)"

lemma stop_holder: "holder_ok t \<Longrightarrow> hget (tr_stops t) s = Some StopCommitted \<Longrightarrow> tr_lifecycle t = Some (ByStop s)"
  using holder_okD(1) [of t "ByStop s"] by (simp add: holds_def)

lemma added_job_ok:
  assumes ok: "transport_ok t" and jobs: "tr_jobs t' = hput (tr_next_job t) jb (tr_jobs t)" "tr_next_job t' = Suc (tr_next_job t)"
    and jb: "fresh_job jb"
    and same: "tr_reinits t' = tr_reinits t" "tr_natives t' = tr_natives t" "tr_module t' = tr_module t" "tr_cb_active t' = tr_cb_active t"
    and stops: "tr_stops t' = tr_stops t \<and> tr_lifecycle t' = tr_lifecycle t \<and> \<not> jb_guard jb \<or>
       (\<exists>s w. tr_stops t' = hput s (StopWaiting w) (tr_stops t) \<and> hget (tr_stops t) s = Some StopCommitted
          \<and> tr_lifecycle t' = (if jb_guard jb then Some (ByJob (tr_next_job t)) else None))"
    and eager: "tr_eager t' = EagerInInit \<longleftrightarrow> tr_eager t = EagerInInit" "tr_eager t' = EagerUnused \<longrightarrow> tr_eager t = EagerUnused"
    and tok: "tr_initializer t' \<longrightarrow> tr_initializer t \<and> \<not> jb_initializer jb" "jb_initializer jb \<longrightarrow> tr_initializer t"
    and mono: "tr_cb_closed t \<longrightarrow> tr_cb_closed t'" "tr_closed t \<longrightarrow> tr_closed t'" "cleanup_spent t \<longrightarrow> cleanup_spent t'"
  shows "transport_ok t'"
proof -
  let ?j = "tr_next_job t"
  obtain m where m: "holder_ok t" "token_ok t m" "progress_ok t m" "native_ok t m" using ok by (auto simp: transport_ok_def)
  have new: "hget (tr_jobs t) ?j = None" using holder_okD(2) [OF m(1)] by simp
  have not_new: "tr_lifecycle t \<noteq> Some (ByJob ?j)" using holder_okD(1) [OF m(1), of "ByJob ?j"] new by (simp add: holds_def)
  have other: "\<And>i. i \<noteq> ?j \<Longrightarrow> hget (tr_jobs t') i = hget (tr_jobs t) i" using jobs(1) by (simp add: hm.get_put)
  have life: "tr_stops t' = tr_stops t \<and> tr_lifecycle t' = tr_lifecycle t \<and> \<not> jb_guard jb \<or>
       (\<exists>s w. tr_stops t' = hput s (StopWaiting w) (tr_stops t) \<and> tr_lifecycle t = Some (ByStop s)
          \<and> tr_lifecycle t' = (if jb_guard jb then Some (ByJob ?j) else None))"
    using stops stop_holder [OF m(1)] by blast
  have holds: "holds h t' \<longleftrightarrow> tr_lifecycle t' = Some h" for h
  proof (cases h)
    case (ByJob i)
    have "holds h t \<longleftrightarrow> tr_lifecycle t = Some h" using holder_okD(1) [OF m(1)] .
    then show ?thesis using ByJob jobs(1) jb life new not_new
      by (cases "i = ?j") (auto simp: holds_def hm.get_put fresh_job_def holding_place_def split: if_splits)
  next
    case (ByStop s)
    have "holds h t \<longleftrightarrow> tr_lifecycle t = Some h" using holder_okD(1) [OF m(1)] .
    then show ?thesis using ByStop life by (auto simp: holds_def hm.get_put split: if_splits)
  next
    case (ByReinit r)
    have "holds h t \<longleftrightarrow> tr_lifecycle t = Some h" using holder_okD(1) [OF m(1)] .
    then show ?thesis using ByReinit life same(1) by (auto simp: holds_def split: if_splits)
  next
    case ByEager
    have "holds h t \<longleftrightarrow> tr_lifecycle t = Some h" using holder_okD(1) [OF m(1)] .
    then show ?thesis using ByEager life eager by (auto simp: holds_def split: if_splits)
  qed
  have h: "holder_ok t'"
  proof (rule holder_okI [OF holds])
    fix i assume "tr_next_job t' \<le> i"
    then show "hget (tr_jobs t') i = None" using holder_okD(2) [OF m(1), of i] jobs by (simp add: hm.get_put)
  next
    fix i jb1 assume "hget (tr_jobs t') i = Some jb1"
    then show "job_wf jb1" using holder_okD(3) [OF m(1), of i] jobs jb by (auto simp: hm.get_put fresh_job_def job_wf_def split: if_splits)
  next
    show "hmap_ok (tr_stops t')" using life holder_okD(6) [OF m(1)] by (auto simp: hm.ok_put)
  qed (use holder_okD(4,5) [OF m(1)] jobs same in \<open>simp_all add: hm.ok_put\<close>)
  have tokens: "has_token k t' \<Longrightarrow> has_token k t \<or> k = JobToken ?j \<and> jb_initializer jb" for k
    using jobs(1) jb tok(1) eager(2) by (cases k) (auto simp: has_token_def hm.get_put fresh_job_def split: if_splits)
  have "token_ok t' m"
  proof (cases "jb_initializer jb")
    case True
    then have d: "has_token DeferredToken t" "\<not> has_token DeferredToken t'" using tok by (auto simp: has_token_def)
    then have "k = DeferredToken" if "has_token k t" for k using m(2) that unfolding token_ok_def by blast
    then show ?thesis using tokens d m(2) unfolding token_ok_def by metis
  next
    case False
    then show ?thesis using tokens m(2) unfolding token_ok_def by blast
  qed
  moreover have "running_call t' = running_call t \<and> progress_ok t' m"
  proof (cases "tr_lifecycle t' = tr_lifecycle t")
    case True
    show ?thesis using running_other [OF True not_new other same(1)] progress_other [OF m(3) True not_new other same(1,3) mono] by blast
  next
    case False
    then show ?thesis using life jobs(1) jb
      by (auto simp: running_call_def progress_ok_def hm.get_put call_at_def fresh_job_def)
  qed
  then have "native_ok t' m" "progress_ok t' m" using m(4) same mono by (simp_all add: native_ok_def)
  ultimately show ?thesis using h unfolding transport_ok_def by blast
qed

lemma set_physical_quiet:
  "(ph_cleanup (tr_physical t) \<notin> {CleanupIdle, CleanupRequested} \<Longrightarrow> ph_cleanup (f (tr_physical t)) \<notin> {CleanupIdle, CleanupRequested}) \<Longrightarrow>
     quiet t (set_physical f t)"
  by (simp add: quiet_def set_physical_def cleanup_spent_def)

lemma request_cleanup_quiet [simp]: "quiet t (set_physical request_cleanup t)"
  by (rule set_physical_quiet) (simp add: request_cleanup_def)

lemma cancel_quiet [simp]: "quiet t (cancel_before_entry t)"
  by (simp add: cancel_before_entry_def transport_fields quiet_def)

lemma request_section_ok:
  assumes ok: "transport_ok t"
  shows "transport_ok (request_section fault t)"
proof -
  let ?t1 = "set_physical request_cleanup t"
  have ok1: "transport_ok ?t1" using quiet_ok [OF request_cleanup_quiet ok] .
  consider "request_section fault t = ?t1" | "request_section fault t = cancel_before_entry ?t1"
    | "request_section fault t = new_job False False fault ?t1"
    unfolding request_section_def Let_def by argo
  then show ?thesis
  proof cases
    case 3
    show ?thesis unfolding 3
      by (rule added_job_ok [OF ok1, of _ "\<lparr> jb_initializer = False, jb_guard = False, jb_fault_on_spawn_failure = fault,
            jb_submitted = False, jb_place = JobUnspawned \<rparr>"]) (simp_all add: fresh_job_def)
  qed (use ok1 quiet_ok [OF cancel_quiet ok1] in simp_all)
qed

lemma schedule_ok:
  assumes ok: "transport_ok t"
  shows "transport_ok (snd (schedule_initializer t))"
proof (cases "tr_gate t \<noteq> Some True \<or> tr_faulted t \<or> tr_closed t \<or> ph_result (tr_physical t) \<noteq> None \<or> ph_init (tr_physical t) \<noteq> InitDeferred
    \<or> \<not> tr_initializer t")
  case True
  have "quiet t (snd (schedule_initializer t))"
    using True by (auto simp: schedule_initializer_def Let_def intro: set_physical_quiet)
  then show ?thesis using quiet_ok ok by blast
next
  case False
  then have s: "snd (schedule_initializer t) = new_job True False True
      (set_physical (\<lambda>ph. ph \<lparr> ph_init := InitScheduled \<rparr>) (t \<lparr> tr_initializer := False, tr_init_started := True \<rparr>))"
    by (simp add: schedule_initializer_def Let_def)
  have c: "cleanup_spent (set_physical (\<lambda>ph. ph \<lparr> ph_init := InitScheduled \<rparr>) (t \<lparr> tr_initializer := False, tr_init_started := True \<rparr>))
      = cleanup_spent t" by (simp add: set_physical_def cleanup_spent_def)
  show ?thesis unfolding s
    by (rule added_job_ok [OF ok, of _ "\<lparr> jb_initializer = True, jb_guard = False, jb_fault_on_spawn_failure = True,
          jb_submitted = False, jb_place = JobUnspawned \<rparr>"])
      (use False c in \<open>simp_all add: fresh_job_def set_physical_def\<close>)
qed

section \<open>Steps of reinitializations, stops and the eager initializer\<close>

text \<open>Only the places of reinitializations or stops and the mutex change, and maybe one native call is logged.\<close>

lemma places_ok:
  assumes ok: "transport_ok t"
    and same: "tr_jobs t' = tr_jobs t" "tr_next_job t' = tr_next_job t" "tr_eager t' = tr_eager t" "tr_initializer t' \<longrightarrow> tr_initializer t"
      "tr_module t' = tr_module t" "tr_cb_active t' = tr_cb_active t"
      "tr_cb_closed t \<longrightarrow> tr_cb_closed t'" "tr_closed t \<longrightarrow> tr_closed t'" "cleanup_spent t \<longrightarrow> cleanup_spent t'"
    and maps: "hmap_ok (tr_reinits t')" "hmap_ok (tr_stops t')"
    and holds: "\<And>h. holder_ok t \<Longrightarrow> holds h t' \<longleftrightarrow> tr_lifecycle t' = Some h"
    and go: "\<And>m. holder_ok t \<Longrightarrow> native_ok t m \<Longrightarrow> progress_ok t m \<Longrightarrow>
       \<exists>m'. native_run (tr_natives t') native_start = Some m' \<and> nm_call m' = running_call t' \<and> nm_delivers m' = nm_delivers m
         \<and> nm_initialized m' = nm_initialized m \<and> nm_shut_down m' = nm_shut_down m \<and> progress_ok t' m'"
  shows "transport_ok t'"
proof -
  obtain m where m: "holder_ok t" "token_ok t m" "progress_ok t m" "native_ok t m" using ok by (auto simp: transport_ok_def)
  obtain m' where m': "native_run (tr_natives t') native_start = Some m'" "nm_call m' = running_call t'" "nm_delivers m' = nm_delivers m"
    "nm_initialized m' = nm_initialized m" "nm_shut_down m' = nm_shut_down m" "progress_ok t' m'"
    using go [OF m(1,4,3)] by blast
  have "holder_ok t'"
    by (rule holder_okI [OF holds [OF m(1)]]) (use holder_okD(2-4) [OF m(1)] same maps in auto)
  moreover have "has_token k t' \<Longrightarrow> has_token k t" for k
    using same by (cases k) (auto simp: has_token_def)
  then have "token_ok t' m'" using m(2) m'(4) unfolding token_ok_def by metis
  moreover have "native_ok t' m'" using native_okD [OF m(4)] m' same unfolding native_ok_def by simp
  ultimately show ?thesis using m'(6) unfolding transport_ok_def by blast
qed

end
