(* ===== verification/ModuleTransportRuns.thy ===== *)
theory ModuleTransportRuns
  imports ModuleTransportSpec
begin

text \<open>
  The remaining steps of a module transport, and what every run of it keeps: the protocol of the native
  callbacks and the terminal flags.
\<close>

section \<open>Steps of a reinitialization\<close>

lemma reinit_moved_ok:
  assumes ok: "transport_ok t"
    and same: "tr_jobs t' = tr_jobs t" "tr_next_job t' = tr_next_job t" "tr_eager t' = tr_eager t" "tr_initializer t' = tr_initializer t"
      "tr_module t' = tr_module t" "tr_cb_active t' = tr_cb_active t" "tr_stops t' = tr_stops t"
      "tr_cb_closed t' = tr_cb_closed t" "tr_closed t' = tr_closed t" "cleanup_spent t' = cleanup_spent t"
    and moved: "\<And>i. hget (tr_reinits t') i = (if i = r then q else hget (tr_reinits t) i)" "hmap_ok (tr_reinits t) \<Longrightarrow> hmap_ok (tr_reinits t')"
    and holdq: "holder_ok t \<Longrightarrow> (case q of Some p \<Rightarrow> holding_reinit p | None \<Rightarrow> False) \<longleftrightarrow> tr_lifecycle t' = Some (ByReinit r)"
    and life: "tr_lifecycle t' = tr_lifecycle t \<or> tr_lifecycle t \<in> {None, Some (ByReinit r)} \<and> tr_lifecycle t' \<in> {None, Some (ByReinit r)}"
    and natives: "tr_natives t' = tr_natives t @ ns" "ns \<noteq> [] \<Longrightarrow> tr_lifecycle t = Some (ByReinit r)"
    and go: "\<And>m. holder_ok t \<Longrightarrow> native_ok t m \<Longrightarrow> progress_ok t m \<Longrightarrow> tr_lifecycle t \<in> {None, Some (ByReinit r)} \<Longrightarrow>
       \<exists>m'. native_run ns m = Some m' \<and> nm_call m' = (if q = Some ReinitInCall then ReinitCall else NoCall)
         \<and> nm_delivers m' = nm_delivers m \<and> nm_initialized m' = nm_initialized m \<and> nm_shut_down m' = nm_shut_down m
         \<and> (q = Some ReinitSpawned \<longrightarrow> \<not> nm_shut_down m \<and> tr_module t \<noteq> None)"
  shows "transport_ok t'"
proof (rule places_ok [OF ok])
  have hok: "holder_ok t" using ok by (auto simp: transport_ok_def)
  show "hmap_ok (tr_reinits t')" "hmap_ok (tr_stops t')"
    using moved(2) same(7) holder_okD(5,6) [OF hok] by simp_all
  show "holds h t' \<longleftrightarrow> tr_lifecycle t' = Some h" if "holder_ok t" for h
  proof (cases "h = ByReinit r")
    case True
    then show ?thesis using holdq [OF that] moved(1) by (simp add: holds_def)
  next
    case False
    then have "holds h t' = holds h t" using same(1,3,7) moved(1) by (cases h) (simp_all add: holds_def)
    then show ?thesis using holder_okD(1) [OF that, of h] life False by auto
  qed
  show "\<exists>m'. native_run (tr_natives t') native_start = Some m' \<and> nm_call m' = running_call t' \<and> nm_delivers m' = nm_delivers m
         \<and> nm_initialized m' = nm_initialized m \<and> nm_shut_down m' = nm_shut_down m \<and> progress_ok t' m'"
    if m: "holder_ok t" "native_ok t m" "progress_ok t m" for m
  proof (cases "tr_lifecycle t \<in> {None, Some (ByReinit r)}")
    case True
    obtain m' where m': "native_run ns m = Some m'" "nm_call m' = (if q = Some ReinitInCall then ReinitCall else NoCall)"
      "nm_delivers m' = nm_delivers m" "nm_initialized m' = nm_initialized m" "nm_shut_down m' = nm_shut_down m"
      "q = Some ReinitSpawned \<longrightarrow> \<not> nm_shut_down m \<and> tr_module t \<noteq> None"
      using go [OF m True] by blast
    have l: "tr_lifecycle t' = None \<or> tr_lifecycle t' = Some (ByReinit r)" using True life by auto
    have "q \<noteq> Some ReinitInCall" if "tr_lifecycle t' = None"
      using that holdq [OF m(1)] by (auto simp: holding_reinit_def)
    then have "running_call t' = (if q = Some ReinitInCall then ReinitCall else NoCall)"
      using l moved(1) by (auto simp: running_call_def)
    moreover have "progress_ok t' m'" using l m' same moved(1) by (auto simp: progress_ok_def)
    moreover have "native_run (tr_natives t') native_start = Some m'"
      unfolding natives native_run_append native_okD(1) [OF m(2)] by (simp add: m'(1))
    ultimately show ?thesis using m' by auto
  next
    case False
    then have l: "tr_lifecycle t' = tr_lifecycle t" "tr_lifecycle t \<noteq> Some (ByReinit r)" "ns = []" using life natives(2) by auto
    have "running_call t' = running_call t"
      using l moved(1) same unfolding running_call_def by (auto split: option.splits lifecycle_holder.splits)
    moreover have "progress_ok t' m"
      using m(3) l moved(1) same unfolding progress_ok_def by (auto split: option.splits lifecycle_holder.splits)
    ultimately show ?thesis using native_okD(1,2) [OF m(2)] natives l by auto
  qed
qed (use same in simp_all)

lemma reinit_idle_call:
  "native_ok t m \<Longrightarrow> tr_lifecycle t \<in> {None, Some (ByReinit r)} \<Longrightarrow> hget (tr_reinits t) r \<noteq> Some ReinitInCall \<Longrightarrow> nm_call m = NoCall"
  by (auto simp: native_ok_def running_call_def)

text \<open>A step of a reinitialization that the module does not see.\<close>

lemma reinit_silent_ok:
  assumes ok: "transport_ok t"
    and same: "tr_jobs t' = tr_jobs t" "tr_next_job t' = tr_next_job t" "tr_eager t' = tr_eager t" "tr_initializer t' = tr_initializer t"
      "tr_module t' = tr_module t" "tr_cb_active t' = tr_cb_active t" "tr_stops t' = tr_stops t"
      "tr_cb_closed t' = tr_cb_closed t" "tr_closed t' = tr_closed t" "cleanup_spent t' = cleanup_spent t" "tr_natives t' = tr_natives t"
    and moved: "tr_reinits t' = (case q of Some p \<Rightarrow> hput r p (tr_reinits t) | None \<Rightarrow> hdel r (tr_reinits t))"
    and old: "hget (tr_reinits t) r \<noteq> Some ReinitInCall" and new: "q \<noteq> Some ReinitInCall"
    and life: "tr_lifecycle t' = (if (case hget (tr_reinits t) r of Some p \<Rightarrow> holding_reinit p | None \<Rightarrow> False)
          = (case q of Some p \<Rightarrow> holding_reinit p | None \<Rightarrow> False) then tr_lifecycle t
        else if (case q of Some p \<Rightarrow> holding_reinit p | None \<Rightarrow> False) then Some (ByReinit r) else None)"
      "(case q of Some p \<Rightarrow> holding_reinit p | None \<Rightarrow> False) \<Longrightarrow> tr_lifecycle t \<in> {None, Some (ByReinit r)}"
    and spawn: "q = Some ReinitSpawned \<Longrightarrow> \<not> tr_closed t \<and> tr_module t \<noteq> None"
  shows "transport_ok t'"
proof (rule reinit_moved_ok [OF ok same(1-10), of r q "[]"])
  have hok: "holder_ok t" using ok by (auto simp: transport_ok_def)
  show "hget (tr_reinits t') i = (if i = r then q else hget (tr_reinits t) i)" for i
    using moved holder_okD(5) [OF hok] by (cases q) (simp_all add: hm.get_put hm.get_del)
  show "hmap_ok (tr_reinits t) \<Longrightarrow> hmap_ok (tr_reinits t')"
    using moved by (cases q) (simp_all add: hm.ok_put hm.ok_del)
  have h: "(case hget (tr_reinits t) r of Some p \<Rightarrow> holding_reinit p | None \<Rightarrow> False) \<longleftrightarrow> tr_lifecycle t = Some (ByReinit r)"
    using holder_okD(1) [OF hok, of "ByReinit r"] by (simp add: holds_def)
  show "(case q of Some p \<Rightarrow> holding_reinit p | None \<Rightarrow> False) \<longleftrightarrow> tr_lifecycle t' = Some (ByReinit r)"
    using life h by auto
  show "tr_lifecycle t' = tr_lifecycle t \<or> tr_lifecycle t \<in> {None, Some (ByReinit r)} \<and> tr_lifecycle t' \<in> {None, Some (ByReinit r)}"
    using life h by auto
  show "\<exists>m'. native_run [] m = Some m' \<and> nm_call m' = (if q = Some ReinitInCall then ReinitCall else NoCall)
         \<and> nm_delivers m' = nm_delivers m \<and> nm_initialized m' = nm_initialized m \<and> nm_shut_down m' = nm_shut_down m
         \<and> (q = Some ReinitSpawned \<longrightarrow> \<not> nm_shut_down m \<and> tr_module t \<noteq> None)"
    if "native_ok t m" "tr_lifecycle t \<in> {None, Some (ByReinit r)}" for m
    using reinit_idle_call [OF that old] new spawn native_okD(6) [OF that(1)] by auto
qed (use same in simp_all)


lemma reinit_begins_ok:
  assumes ok: "transport_ok t" and none: "hget (tr_reinits t) r = None"
  shows "transport_ok (put_reinit r (ReinitLocking 0) t)"
  by (rule reinit_silent_ok [OF ok, of _ r "Some (ReinitLocking 0)"])
    (use none in \<open>simp_all add: transport_fields holding_reinit_def\<close>)

lemma reinit_locks_ok:
  assumes ok: "transport_ok t" and at: "hget (tr_reinits t) r = Some (ReinitLocking n)" and got: "lock (ByReinit r) t = Some t1"
  shows "transport_ok (put_reinit r (ReinitHeld n) t1)"
  by (rule reinit_silent_ok [OF ok, of _ r "Some (ReinitHeld n)"])
    (use at lock_free [OF got] in \<open>simp_all add: transport_fields holding_reinit_def\<close>)

lemma reinit_holder: "holder_ok t \<Longrightarrow> hget (tr_reinits t) r = Some p \<Longrightarrow> holding_reinit p \<longleftrightarrow> tr_lifecycle t = Some (ByReinit r)"
  using holder_okD(1) [of t "ByReinit r"] by (simp add: holds_def)

lemma reinit_holds:
  assumes "transport_ok t" "hget (tr_reinits t) r = Some p" "holding_reinit p"
  shows "tr_lifecycle t = Some (ByReinit r)"
  using assms reinit_holder by (auto simp: transport_ok_def)

text \<open>Between taking and giving up the mutex it changes at most the deferred configuration.\<close>

definition only_config :: "transport \<Rightarrow> transport \<Rightarrow> bool" where
  "only_config t t' \<longleftrightarrow> (\<exists>c. t' = t \<lparr> tr_config := c \<rparr>)"

lemma only_config_refl [simp]: "only_config t t"
  unfolding only_config_def by (rule exI [of _ "tr_config t"]) simp

lemma replace_only_config: "replace_deferred_config bytes t = (out, t') \<Longrightarrow> only_config t t'"
  by (auto simp: replace_deferred_config_def only_config_def split: if_splits) (metis transport.surjective transport.update_convs(3))+

lemma reinit_held_only_config:
  assumes "reinit_held n bytes t = (next', t')"
  shows "only_config t t' \<and> (next' = CallModule \<longrightarrow> \<not> tr_closed t \<and> tr_module t \<noteq> None)"
proof -
  have call: "reinit_callback u = CallModule \<Longrightarrow> tr_module u \<noteq> None" "reinit_ready u = CallModule \<Longrightarrow> tr_module u \<noteq> None" for u
    by (auto simp: reinit_ready_def reinit_callback_def split: if_splits option.splits)
  obtain out t1 where r: "replace_deferred_config bytes t = (out, t1)" by (cases "replace_deferred_config bytes t") simp
  note c = replace_only_config [OF r]
  have m: "tr_module t1 = tr_module t" using c by (auto simp: only_config_def)
  show ?thesis
  proof (cases "tr_closed t \<or> tr_faulted t")
    case True
    then show ?thesis using assms by (auto simp: reinit_held_def)
  next
    case False
    show ?thesis
    proof (cases "n = 0")
      case True
      show ?thesis
      proof (cases out)
        case (Inl e)
        then show ?thesis using assms False True r c by (auto simp: reinit_held_def)
      next
        case (Inr b)
        then show ?thesis using assms False True r c m call(2) [of t1]
          by (cases b) (auto simp: reinit_held_def split: if_splits)
      qed
    next
      case n: False
      then show ?thesis using assms False call by (auto simp: reinit_held_def split: if_splits)
    qed
  qed
qed

lemma reinit_goes_ok:
  assumes ok: "transport_ok t" and at: "hget (tr_reinits t) r = Some (ReinitHeld n)" and h: "reinit_held n bytes t = (next', t')"
  shows "transport_ok (reinit_place_after r next' t')"
proof -
  obtain c where c: "t' = t \<lparr> tr_config := c \<rparr>" "next' = CallModule \<longrightarrow> \<not> tr_closed t \<and> tr_module t \<noteq> None"
    using reinit_held_only_config [OF h] by (auto simp: only_config_def)
  have life: "tr_lifecycle t = Some (ByReinit r)" using reinit_holds [OF ok at] by (simp add: holding_reinit_def)
  define q where "q = (case next' of ReinitDone _ \<Rightarrow> None | WaitForInit \<Rightarrow> Some ReinitAwaitInit | WaitForReady \<Rightarrow> Some ReinitAwaitReady
      | CallModule \<Rightarrow> Some ReinitSpawned)"
  show ?thesis
    by (rule reinit_silent_ok [OF ok, of _ r q])
      (use at life c in \<open>cases next'; simp add: reinit_place_after_def q_def transport_fields holding_reinit_def\<close>)+
qed

lemma reinit_relocks_ok:
  assumes ok: "transport_ok t" and at: "hget (tr_reinits t) r = Some p" "\<not> holding_reinit p"
  shows "transport_ok (put_reinit r (ReinitLocking n) t)"
  by (rule reinit_silent_ok [OF ok, of _ r "Some (ReinitLocking n)"])
    (use at in \<open>auto simp: transport_fields holding_reinit_def\<close>)

lemma reinit_ends_ok:
  assumes ok: "transport_ok t" and at: "hget (tr_reinits t) r = Some p" "\<not> holding_reinit p"
  shows "transport_ok (t \<lparr> tr_reinits := hdel r (tr_reinits t) \<rparr>)"
  by (rule reinit_silent_ok [OF ok, of _ r None])
    (use at in \<open>auto simp: transport_fields holding_reinit_def\<close>)

lemma reinit_unentered_ok:
  assumes ok: "transport_ok t" and at: "hget (tr_reinits t) r = Some ReinitSpawned"
  shows "transport_ok (reinit_left r t)"
  by (rule reinit_silent_ok [OF ok, of _ r None])
    (use at in \<open>simp_all add: reinit_left_def transport_fields holding_reinit_def\<close>)

lemma reinit_enters_ok:
  assumes ok: "transport_ok t" and at: "hget (tr_reinits t) r = Some ReinitSpawned"
  shows "transport_ok (did_native EnterReinit (put_reinit r ReinitInCall t))"
proof (rule reinit_moved_ok [OF ok, of _ r "Some ReinitInCall" "[EnterReinit]"])
  have life: "tr_lifecycle t = Some (ByReinit r)" using reinit_holds [OF ok at] by (simp add: holding_reinit_def)
  fix m assume m: "native_ok t m" "progress_ok t m"
  have "nm_call m = NoCall" using reinit_idle_call [OF m(1)] life at by simp
  moreover have "\<not> nm_shut_down m" "tr_module t \<noteq> None" using m(2) life at by (simp_all add: progress_ok_def)
  ultimately show "\<exists>m'. native_run [EnterReinit] m = Some m' \<and> nm_call m' = (if Some ReinitInCall = Some ReinitInCall then ReinitCall else NoCall)
         \<and> nm_delivers m' = nm_delivers m \<and> nm_initialized m' = nm_initialized m \<and> nm_shut_down m' = nm_shut_down m
         \<and> (Some ReinitInCall = Some ReinitSpawned \<longrightarrow> \<not> nm_shut_down m \<and> tr_module t \<noteq> None)"
    using native_okD(4) [OF m(1)] by simp
qed (use at reinit_holds [OF ok at] in \<open>simp_all add: transport_fields holding_reinit_def hm.get_put hm.ok_put\<close>)

lemma reinit_returns_ok:
  assumes ok: "transport_ok t" and at: "hget (tr_reinits t) r = Some ReinitInCall"
  shows "transport_ok (reinit_left r (did_native LeaveReinit t))"
proof (rule reinit_moved_ok [OF ok, of _ r None "[LeaveReinit]"])
  have life: "tr_lifecycle t = Some (ByReinit r)" using reinit_holds [OF ok at] by (simp add: holding_reinit_def)
  have hok: "hmap_ok (tr_reinits t)" using ok holder_okD(5) by (auto simp: transport_ok_def)
  show "hget (tr_reinits (reinit_left r (did_native LeaveReinit t))) i = (if i = r then None else hget (tr_reinits t) i)" for i
    using hok by (simp add: reinit_left_def transport_fields hm.get_del)
  fix m assume m: "native_ok t m" "progress_ok t m"
  have "nm_call m = ReinitCall" using m(1) life at by (simp add: native_ok_def running_call_def)
  then show "\<exists>m'. native_run [LeaveReinit] m = Some m' \<and> nm_call m' = (if None = Some ReinitInCall then ReinitCall else NoCall)
         \<and> nm_delivers m' = nm_delivers m \<and> nm_initialized m' = nm_initialized m \<and> nm_shut_down m' = nm_shut_down m
         \<and> (None = Some ReinitSpawned \<longrightarrow> \<not> nm_shut_down m \<and> tr_module t \<noteq> None)"
    by simp
qed (use at reinit_holds [OF ok at] in \<open>simp_all add: reinit_left_def transport_fields holding_reinit_def hm.ok_del\<close>)
section \<open>Steps of a stop\<close>

abbreviation stop_holds :: "stop_place option \<Rightarrow> bool" where
  "stop_holds q \<equiv> q \<in> {Some StopHeld, Some StopCommitted}"

text \<open>A stop calls nothing itself, and while it holds the mutex nothing runs.\<close>

lemma stop_moved_ok:
  assumes ok: "transport_ok t"
    and same: "tr_jobs t' = tr_jobs t" "tr_next_job t' = tr_next_job t" "tr_eager t' = tr_eager t" "tr_initializer t' = tr_initializer t"
      "tr_module t' = tr_module t" "tr_cb_active t' = tr_cb_active t" "tr_reinits t' = tr_reinits t" "tr_natives t' = tr_natives t"
      "tr_cb_closed t \<longrightarrow> tr_cb_closed t'" "tr_closed t \<longrightarrow> tr_closed t'" "cleanup_spent t \<longrightarrow> cleanup_spent t'"
    and moved: "tr_stops t' = (case q of Some p \<Rightarrow> hput s p (tr_stops t) | None \<Rightarrow> hdel s (tr_stops t))"
    and life: "tr_lifecycle t' = (if stop_holds (hget (tr_stops t) s) = stop_holds q then tr_lifecycle t
        else if stop_holds q then Some (ByStop s) else None)"
      "stop_holds q \<Longrightarrow> tr_lifecycle t \<in> {None, Some (ByStop s)}"
  shows "transport_ok t'"
proof (rule places_ok [OF ok])
  have hok: "holder_ok t" using ok by (auto simp: transport_ok_def)
  have h: "stop_holds (hget (tr_stops t) s) \<longleftrightarrow> tr_lifecycle t = Some (ByStop s)"
    using holder_okD(1) [OF hok, of "ByStop s"] by (simp add: holds_def)
  have l: "tr_lifecycle t' = tr_lifecycle t \<or> tr_lifecycle t \<in> {None, Some (ByStop s)} \<and> tr_lifecycle t' \<in> {None, Some (ByStop s)}"
    using life h by (auto split: if_splits)
  have get: "hget (tr_stops t') i = (if i = s then q else hget (tr_stops t) i)" for i
    using moved holder_okD(6) [OF hok] by (cases q) (simp_all add: hm.get_put hm.get_del)
  show "hmap_ok (tr_reinits t')" "hmap_ok (tr_stops t')"
    using moved same(7) holder_okD(5,6) [OF hok] by (cases q; simp add: hm.ok_put hm.ok_del)+
  show "holds k t' \<longleftrightarrow> tr_lifecycle t' = Some k" if "holder_ok t" for k
  proof (cases "k = ByStop s")
    case True
    have "stop_holds q \<longleftrightarrow> tr_lifecycle t' = Some (ByStop s)"
    proof (cases "stop_holds (hget (tr_stops t) s) = stop_holds q")
      case True
      then show ?thesis using life(1) h by simp
    next
      case False
      then show ?thesis unfolding life(1) by simp
    qed
    then show ?thesis using True get by (simp add: holds_def)
  next
    case False
    then have "holds k t' = holds k t" using same(1,3,7) get by (cases k) (simp_all add: holds_def)
    moreover have "tr_lifecycle t' = Some k \<longleftrightarrow> tr_lifecycle t = Some k" using l False by auto
    ultimately show ?thesis using holder_okD(1) [OF that, of k] by simp
  qed
  show "\<exists>m'. native_run (tr_natives t') native_start = Some m' \<and> nm_call m' = running_call t' \<and> nm_delivers m' = nm_delivers m
         \<and> nm_initialized m' = nm_initialized m \<and> nm_shut_down m' = nm_shut_down m \<and> progress_ok t' m'"
    if m: "holder_ok t" "native_ok t m" "progress_ok t m" for m
  proof -
    have "running_call t' = running_call t \<and> progress_ok t' m"
    proof (cases "tr_lifecycle t' = tr_lifecycle t")
      case True
      have "running_call t' = running_call t" unfolding running_call_def same(1,7) True ..
      moreover have "progress_ok t' m" using m(3) same True unfolding progress_ok_def by (auto split: option.splits lifecycle_holder.splits)
      ultimately show ?thesis ..
    next
      case False
      then have "tr_lifecycle t \<in> {None, Some (ByStop s)}" "tr_lifecycle t' \<in> {None, Some (ByStop s)}" using l by auto
      then show ?thesis by (auto simp: running_call_def progress_ok_def)
    qed
    then show ?thesis using native_okD(1,2) [OF m(2)] same(8) by auto
  qed
qed (use same in simp_all)

lemma stop_begins_ok:
  assumes ok: "transport_ok t" and none: "hget (tr_stops t) s = None"
  shows "transport_ok (put_stop s StopLocking t)"
  by (rule stop_moved_ok [OF ok, of _ s "Some StopLocking"]) (use none in \<open>simp_all add: transport_fields\<close>)

lemma stop_locks_ok:
  assumes ok: "transport_ok t" and at: "hget (tr_stops t) s = Some StopLocking" and got: "lock (ByStop s) t = Some t1"
  shows "transport_ok (put_stop s StopHeld t1)"
  by (rule stop_moved_ok [OF ok, of _ s "Some StopHeld"]) (use at lock_free [OF got] in \<open>simp_all add: transport_fields\<close>)

lemma stop_held:
  "transport_ok t \<Longrightarrow> stop_holds (hget (tr_stops t) s) \<Longrightarrow> tr_lifecycle t = Some (ByStop s)"
  using holder_okD(1) [of t "ByStop s"] by (auto simp: transport_ok_def holds_def)

lemma stop_commits_ok:
  assumes ok: "transport_ok t" and at: "hget (tr_stops t) s = Some StopHeld"
  shows "transport_ok (if tr_stopped t then unlock (t \<lparr> tr_stops := hdel s (tr_stops t) \<rparr>) else put_stop s StopCommitted (commit_terminal False t))"
proof (cases "tr_stopped t")
  case True
  have "transport_ok (unlock (t \<lparr> tr_stops := hdel s (tr_stops t) \<rparr>))"
    by (rule stop_moved_ok [OF ok, of _ s None]) (use at stop_held [OF ok, of s] in \<open>simp_all add: transport_fields\<close>)
  then show ?thesis using True by simp
next
  case False
  have "transport_ok (put_stop s StopCommitted (commit_terminal False t))"
    by (rule stop_moved_ok [OF ok, of _ s "Some StopCommitted"]) (use at stop_held [OF ok, of s] in \<open>simp_all add: transport_fields\<close>)
  then show ?thesis using False by simp
qed

lemma stop_ends_ok:
  assumes ok: "transport_ok t" and at: "hget (tr_stops t) s = Some StopLocking \<or> (\<exists>h. hget (tr_stops t) s = Some (StopWaiting h))"
  shows "transport_ok (t \<lparr> tr_stops := hdel s (tr_stops t) \<rparr>)"
  by (rule stop_moved_ok [OF ok, of _ s None]) (use at in \<open>auto simp: cleanup_spent_def\<close>)

lemma stop_section_ok:
  assumes ok: "transport_ok t" and at: "hget (tr_stops t) s = Some StopCommitted"
  shows "transport_ok (stop_section s t)"
proof -
  let ?t1 = "set_physical request_cleanup t"
  have ok1: "transport_ok ?t1" using quiet_ok [OF request_cleanup_quiet ok] .
  have held: "tr_lifecycle t = Some (ByStop s)" using stop_held [OF ok, of s] at by simp
  have f: "tr_jobs ?t1 = tr_jobs t" "tr_next_job ?t1 = tr_next_job t" "tr_reinits ?t1 = tr_reinits t" "tr_stops ?t1 = tr_stops t"
    "tr_eager ?t1 = tr_eager t" "tr_initializer ?t1 = tr_initializer t" "tr_natives ?t1 = tr_natives t" "tr_module ?t1 = tr_module t"
    "tr_cb_active ?t1 = tr_cb_active t" "tr_cb_closed ?t1 = tr_cb_closed t" "tr_closed ?t1 = tr_closed t" "tr_lifecycle ?t1 = tr_lifecycle t"
    by (simp_all add: set_physical_def)
  show ?thesis
  proof (cases "ph_job (tr_physical ?t1) = None \<and> ph_cleanup (tr_physical ?t1) = CleanupRequested")
    case True
    obtain b h where e: "stop_section s t = (new_job False True False ?t1) \<lparr> tr_lifecycle := Some (ByJob (tr_next_job ?t1)),
        tr_stop_spawned := b, tr_stops := hput s (StopWaiting h) (tr_stops t) \<rparr>"
      using True f by (simp add: stop_section_def Let_def)
    have spent: "cleanup_spent (stop_section s t) = cleanup_spent ?t1"
      unfolding e by (simp add: cleanup_spent_def new_job_def set_physical_def)
    have "\<exists>s' w. tr_stops (stop_section s t) = hput s' (StopWaiting w) (tr_stops t) \<and> hget (tr_stops t) s' = Some StopCommitted"
      unfolding e using at by auto
    then show ?thesis
      by (intro added_job_ok [OF ok1, of _ "\<lparr> jb_initializer = False, jb_guard = True, jb_fault_on_spawn_failure = False,
            jb_submitted = False, jb_place = JobUnspawned \<rparr>"])
        (use spent in \<open>simp_all add: e fresh_job_def f at\<close>)
  next
    case False
    obtain b h where e: "stop_section s t = (unlock ?t1) \<lparr> tr_stop_spawned := b, tr_stops := hput s (StopWaiting h) (tr_stops t) \<rparr>"
      using False f by (simp add: stop_section_def Let_def unlock_def)
    show ?thesis
      by (rule stop_moved_ok [OF ok1, of _ s "Some (StopWaiting h)"]) (simp_all add: e f at held unlock_def cleanup_spent_def)
  qed
qed
section \<open>The eager initializer and deliveries\<close>

lemma eager_begins_ok:
  assumes ok: "transport_ok t" and unused: "tr_eager t = EagerUnused" and got: "lock ByEager t = Some t1"
  shows "transport_ok (eager_start t1)"
proof -
  let ?t = "eager_start t1"
  obtain m where m: "holder_ok t" "token_ok t m" "progress_ok t m" "native_ok t m" using ok by (auto simp: transport_ok_def)
  note free = lock_free [OF got]
  have f: "tr_jobs ?t = tr_jobs t" "tr_next_job ?t = tr_next_job t" "tr_reinits ?t = tr_reinits t" "tr_stops ?t = tr_stops t"
    "tr_initializer ?t = tr_initializer t" "tr_natives ?t = tr_natives t @ [EnterInit]" "tr_module ?t = tr_module t" "tr_eager ?t = EagerInInit"
    "tr_cb_active ?t = tr_cb_active t" "tr_cb_closed ?t = tr_cb_closed t" "tr_closed ?t = tr_closed t" "tr_lifecycle ?t = Some ByEager"
    "cleanup_spent ?t = cleanup_spent t"
    using free by (simp_all add: eager_start_def transport_fields)
  have tok: "has_token EagerToken t" using unused by (simp add: has_token_def)
  have fresh: "\<not> nm_initialized m" using m(2) tok unfolding token_ok_def by blast
  have nomod: "tr_module t = None" using fresh native_okD(4) [OF m(4)] by blast
  have call: "nm_call m = NoCall" using native_okD(2) [OF m(4)] free by (simp add: running_call_def)
  have old: "holds h t \<longleftrightarrow> False" for h using holder_okD(1) [OF m(1), of h] free by simp
  have holds: "holds h ?t \<longleftrightarrow> tr_lifecycle ?t = Some h" for h
  proof (cases "h = ByEager")
    case True
    then show ?thesis using f by (simp add: holds_def)
  next
    case False
    then have "holds h ?t = holds h t" using f by (cases h) (simp_all add: holds_def)
    then show ?thesis using old [of h] f(12) False by simp
  qed
  have "holder_ok ?t" by (rule holder_okI [OF holds]) (use holder_okD(2-6) [OF m(1)] f in auto)
  moreover have "\<not> has_token k ?t" for k
  proof
    assume k: "has_token k ?t"
    then have "has_token k t \<and> k \<noteq> EagerToken" using f by (cases k) (simp_all add: has_token_def)
    then show False using m(2) tok unfolding token_ok_def by blast
  qed
  then have "token_ok ?t (m \<lparr> nm_call := InitCall, nm_initialized := True \<rparr>)" by (simp add: token_ok_def)
  moreover have "progress_ok ?t (m \<lparr> nm_call := InitCall, nm_initialized := True \<rparr>)" using f nomod by (simp add: progress_ok_def)
  moreover have "native_run (tr_natives ?t) native_start = Some (m \<lparr> nm_call := InitCall, nm_initialized := True \<rparr>)"
    unfolding f(6) native_run_snoc [OF native_okD(1) [OF m(4)]] using call fresh by simp
  then have "native_ok ?t (m \<lparr> nm_call := InitCall, nm_initialized := True \<rparr>)"
    using native_okD(3,5-7) [OF m(4)] f by (simp add: native_ok_def running_call_def)
  ultimately show ?thesis unfolding transport_ok_def by blast
qed

lemma eager_busy_ok:
  assumes ok: "transport_ok t" and unused: "tr_eager t = EagerUnused"
  shows "transport_ok (eager_unavailable t)"
  by (rule quiet_ok [OF _ ok]) (use unused in \<open>simp add: eager_unavailable_def transport_fields quiet_def\<close>)

text \<open>The eager initializer gave up the mutex with or without a vtable; a refusal then makes a job.\<close>

lemma eager_left_ok:
  assumes ok: "transport_ok t" and at: "tr_eager t = EagerInInit"
  shows "transport_ok (unlock (did_native LeaveInit (t \<lparr> tr_eager := EagerDone, tr_module := v \<rparr>)))"
proof -
  let ?t = "unlock (did_native LeaveInit (t \<lparr> tr_eager := EagerDone, tr_module := v \<rparr>))"
  obtain m where m: "holder_ok t" "token_ok t m" "progress_ok t m" "native_ok t m" using ok by (auto simp: transport_ok_def)
  have held: "tr_lifecycle t = Some ByEager" using holder_okD(1) [OF m(1), of ByEager] at by (simp add: holds_def)
  have call: "nm_call m = InitCall" using native_okD(2) [OF m(4)] held by (simp add: running_call_def)
  have init: "nm_initialized m" using native_okD(1) [OF m(4)] call by (rule init_call_initialized)
  have holds: "holds h ?t \<longleftrightarrow> tr_lifecycle ?t = Some h" for h
  proof (cases "h = ByEager")
    case True
    then show ?thesis by (simp add: holds_def transport_fields)
  next
    case False
    then have "holds h ?t = holds h t" by (cases h) (simp_all add: holds_def transport_fields)
    then show ?thesis using holder_okD(1) [OF m(1), of h] held False by (simp add: transport_fields)
  qed
  have "holder_ok ?t" by (rule holder_okI [OF holds]) (use holder_okD(2-6) [OF m(1)] in \<open>auto simp: transport_fields\<close>)
  moreover have "has_token k ?t \<Longrightarrow> has_token k t" for k by (cases k) (simp_all add: has_token_def transport_fields)
  then have "token_ok ?t (m \<lparr> nm_call := NoCall \<rparr>)" using m(2) init unfolding token_ok_def by fastforce
  moreover have "progress_ok ?t (m \<lparr> nm_call := NoCall \<rparr>)" by (simp add: progress_ok_def transport_fields)
  moreover have "native_run (tr_natives ?t) native_start = Some (m \<lparr> nm_call := NoCall \<rparr>)"
    using native_run_snoc [OF native_okD(1) [OF m(4)], of LeaveInit] call by (simp add: transport_fields)
  then have "native_ok ?t (m \<lparr> nm_call := NoCall \<rparr>)"
    using native_okD(3,5-7) [OF m(4)] init by (simp add: native_ok_def running_call_def transport_fields)
  ultimately show ?thesis unfolding transport_ok_def by blast
qed

lemma eager_returned_ok:
  assumes ok: "transport_ok t" and at: "tr_eager t = EagerInInit"
  shows "transport_ok (eager_returned output t)"
proof (cases "\<exists>v. output = Inr v \<and> vtable_ok v")
  case True
  then obtain v where v: "output = Inr v" "vtable_ok v" by blast
  let ?t0 = "unlock (did_native LeaveInit (t \<lparr> tr_eager := EagerDone, tr_module := Some v \<rparr>))"
  have "quiet ?t0 (eager_returned output t)"
    using v by (simp add: eager_returned_def initialize_def transport_fields quiet_def Let_def)
  then show ?thesis using quiet_ok eager_left_ok [OF ok at] by blast
next
  case False
  let ?t0 = "unlock (did_native LeaveInit (t \<lparr> tr_eager := EagerDone, tr_module := tr_module t \<rparr>))"
  have e: "eager_returned output t = unlock (eager_failed (clear_config (did_native LeaveInit (t \<lparr> tr_eager := EagerDone \<rparr>))))"
    using False by (auto simp: eager_returned_def initialize_def Let_def split: sum.splits)
  show ?thesis
  proof (cases "ph_job (tr_physical t) = None")
    case True
    show ?thesis
      by (rule added_job_ok [OF eager_left_ok [OF ok at, of "tr_module t"], of _ "\<lparr> jb_initializer = False, jb_guard = False, jb_fault_on_spawn_failure = True,
            jb_submitted = False, jb_place = JobUnspawned \<rparr>"])
        (use True in \<open>simp_all add: e eager_failed_def fresh_job_def transport_fields Let_def new_job_def\<close>)
  next
    case False
    have "quiet ?t0 (eager_returned output t)"
      using False by (simp add: e eager_failed_def transport_fields quiet_def Let_def)
    then show ?thesis using quiet_ok eager_left_ok [OF ok at] by blast
  qed
qed

text \<open>Deliveries may run at any time, also during another callback but the initializer.\<close>

lemma deliver_ok:
  assumes ok: "transport_ok t" and log: "tr_natives t' = tr_natives t @ [n]" and t': "t' = t \<lparr> tr_cb_active := c, tr_natives := tr_natives t' \<rparr>"
    and go: "\<And>m. native_ok t m \<Longrightarrow> progress_ok t m \<Longrightarrow> native_next n m = Some (m \<lparr> nm_delivers := c \<rparr>)"
  shows "transport_ok t'"
proof -
  obtain m where m: "holder_ok t" "token_ok t m" "progress_ok t m" "native_ok t m" using ok by (auto simp: transport_ok_def)
  have f: "tr_lifecycle t' = tr_lifecycle t" "tr_jobs t' = tr_jobs t" "tr_next_job t' = tr_next_job t" "tr_reinits t' = tr_reinits t"
    "tr_stops t' = tr_stops t" "tr_eager t' = tr_eager t" "tr_initializer t' = tr_initializer t" "tr_module t' = tr_module t"
    "tr_cb_closed t' = tr_cb_closed t" "tr_closed t' = tr_closed t" "cleanup_spent t' = cleanup_spent t" "tr_cb_active t' = c"
    by (subst t', simp add: cleanup_spent_def)+
  have "holds h t' = holds h t" for h using f by (cases h) (simp_all add: holds_def)
  then have "holder_ok t'" using m(1) f unfolding holder_ok_def by simp
  moreover have "has_token k t' = has_token k t" for k using f by (cases k) (simp_all add: has_token_def)
  then have "token_ok t' (m \<lparr> nm_delivers := c \<rparr>)" using m(2) unfolding token_ok_def by simp
  moreover have "progress_ok t' (m \<lparr> nm_delivers := c \<rparr>)"
    using m(3) f unfolding progress_ok_def by (auto split: option.splits lifecycle_holder.splits)
  moreover have "running_call t' = running_call t" unfolding running_call_def f(1,2,4) ..
  then have "native_ok t' (m \<lparr> nm_delivers := c \<rparr>)"
    using native_run_snoc [OF native_okD(1) [OF m(4)], of n] go [OF m(4,3)] native_okD(2-7) [OF m(4)] f log by (simp add: native_ok_def)
  ultimately show ?thesis unfolding transport_ok_def by blast
qed

lemma running_init_no_module:
  assumes "progress_ok t m" "running_call t = InitCall"
  shows "tr_module t = None"
  using assms unfolding running_call_def progress_ok_def
  by (auto simp: call_at_def split: option.splits lifecycle_holder.splits job_place.splits if_splits)

lemma deliver_enters_ok:
  assumes ok: "transport_ok t" and open_: "tr_module t \<noteq> None" "\<not> tr_cb_closed t"
  shows "transport_ok (did_native EnterDeliver (t \<lparr> tr_cb_active := Suc (tr_cb_active t) \<rparr>))"
proof (rule deliver_ok [OF ok, of _ EnterDeliver "Suc (tr_cb_active t)"])
  fix m assume m: "native_ok t m" "progress_ok t m"
  have "nm_call m \<noteq> InitCall" using running_init_no_module [OF m(2)] native_okD(2) [OF m(1)] open_ by auto
  then show "native_next EnterDeliver m = Some (m \<lparr> nm_delivers := Suc (tr_cb_active t) \<rparr>)"
    using native_okD(3-5) [OF m(1)] open_ by auto
qed (simp_all add: did_native_def)

lemma deliver_leaves_ok:
  assumes ok: "transport_ok t" and active: "tr_cb_active t \<noteq> 0"
  shows "transport_ok (did_native LeaveDeliver (t \<lparr> tr_cb_active := tr_cb_active t - 1 \<rparr>))"
  by (rule deliver_ok [OF ok, of _ LeaveDeliver "tr_cb_active t - 1"])
    (use active in \<open>auto simp: did_native_def dest: native_okD(3)\<close>)
section \<open>Every step keeps the invariant\<close>

lemmas job_steps_ok = job_submitted_ok run_ok settled_ok lock_ok providers_ok claim_ok stop_close_ok publish_ok finish_ok enter_ok
  init_returned_ok shutdown_sync_ok shutdown_left_ok

lemmas reinit_steps_ok = reinit_begins_ok reinit_locks_ok reinit_goes_ok reinit_relocks_ok reinit_ends_ok reinit_unentered_ok
  reinit_enters_ok reinit_returns_ok

lemmas stop_steps_ok = stop_begins_ok stop_locks_ok stop_commits_ok stop_ends_ok stop_section_ok

lemmas step_places = at_place_def job_of_def reinit_at_def stop_at_def if_able_def

lemma abandon_quiet: "quiet t (snd (abandon_section t))"
proof (cases "fst (abandon_section t)")
  case True
  then have "snd (abandon_section t) = set_physical request_cleanup (publish_terminal_flags True t)"
    by (auto simp: abandon_section_def split: if_splits)
  then show ?thesis using quiet_trans [OF quiet_flags(1) request_cleanup_quiet] by simp
next
  case False
  then show ?thesis by (auto simp: abandon_section_def split: if_splits)
qed

lemma job_step_ok:
  assumes "transport_ok t" "transport_step ev t = Some t'"
    "ev = Run j \<or> ev = InitLock j \<or> ev = Enter j \<or> ev = InitReturns j output \<or> ev = Publish j \<or> ev = InitSettled j \<or> ev = ProvidersDrained j
     \<or> ev = Acquire j \<or> ev = Claim j \<or> ev = StopClose j \<or> ev = Drained j \<or> ev = ShutdownReturns j code \<or> ev = Finish j"
  shows "transport_ok t'"
  using assms(3)
  by (elim disjE; insert assms(1,2))
    (auto simp: step_places split: if_splits option.splits job_place.splits intro: job_steps_ok)

lemma reinit_step_ok:
  assumes "transport_ok t" "transport_step ev t = Some t'"
    "ev = ReinitBegins r \<or> ev = ReinitLocks r \<or> ev = ReinitGoes r bytes \<or> ev = ReinitInitDone r \<or> ev = ReinitReadyDone r \<or> ev = ReinitDropped r
     \<or> ev = ReinitEnters r \<or> ev = ReinitReturns r"
  shows "transport_ok t'"
  using assms(3)
  by (elim disjE; insert assms(1,2))
    (auto simp: step_places holding_reinit_def split: if_splits option.splits reinit_place.splits prod.splits intro: reinit_steps_ok)

lemma stop_step_ok:
  assumes "transport_ok t" "transport_step ev t = Some t'"
    "ev = StopBegins s \<or> ev = StopLocks s \<or> ev = StopCommits s \<or> ev = StopHandsOver s \<or> ev = StopEnds s"
  shows "transport_ok t'"
  using assms(3)
proof (elim disjE)
  assume "ev = StopCommits s"
  then show ?thesis using assms(1,2) stop_commits_ok [OF assms(1)] by (auto simp: step_places simp del: if_split split: if_split_asm)
qed (use assms(1,2) in \<open>auto simp: step_places split: if_splits intro: stop_steps_ok\<close>)

lemma step_ok:
  assumes ok: "transport_ok t" and step: "transport_step ev t = Some t'"
  shows "transport_ok t'"
proof (cases ev)
  case (PublishFlags fault)
  then show ?thesis using step quiet_ok [OF quiet_flags(1) ok] by auto
next
  case CloseAdmission
  then show ?thesis using step quiet_ok [OF quiet_flags(5) ok] by simp
next
  case (RequestCleanup fault)
  then show ?thesis using step request_section_ok [OF ok] by auto
next
  case Abandon
  then show ?thesis using step quiet_ok [OF abandon_quiet ok] by simp
next
  case FaultFlags
  then show ?thesis using step quiet_ok [OF quiet_flags(2) ok] by simp
next
  case Ready
  then show ?thesis using step quiet_ok [OF quiet_flags(3) ok] by simp
next
  case Admit
  then show ?thesis using step quiet_ok [OF quiet_flags(4) ok] by simp
next
  case BindProviders
  have "quiet t (t \<lparr> tr_providers := True \<rparr>)" by (simp add: quiet_def cleanup_spent_def)
  then show ?thesis using step BindProviders quiet_ok [OF _ ok] by simp
next
  case (Gate g)
  have "quiet t (t \<lparr> tr_gate := g \<rparr>)" by (simp add: quiet_def cleanup_spent_def)
  then show ?thesis using step Gate quiet_ok [OF _ ok] by simp
next
  case (Messaging p d s q i r)
  have "quiet t (t \<lparr> tr_pending := p, tr_drain_started := d, tr_sender := s, tr_queue := q, tr_inflight := i, tr_init_failed := r \<rparr>)"
    by (simp add: quiet_def cleanup_spent_def)
  then show ?thesis using step Messaging quiet_ok [OF _ ok] by simp
next
  case Schedule
  then show ?thesis using step schedule_ok [OF ok] by simp
next
  case (Submit j spawned)
  then show ?thesis using step job_submitted_ok [OF ok] by auto
next
  case EagerBegins
  then show ?thesis using step eager_begins_ok [OF ok] by (auto split: if_splits)
next
  case EagerBusy
  then show ?thesis using step eager_busy_ok [OF ok] by (auto simp: if_able_def split: if_splits)
next
  case (EagerReturns returned)
  then show ?thesis using step eager_returned_ok [OF ok] by (auto simp: if_able_def split: if_splits)
next
  case DeliverEnters
  then show ?thesis using step deliver_enters_ok [OF ok] by (auto simp: if_able_def split: if_splits)
next
  case DeliverLeaves
  then show ?thesis using step deliver_leaves_ok [OF ok] by (auto simp: if_able_def split: if_splits)
qed (use job_step_ok [OF ok step] reinit_step_ok [OF ok step] stop_step_ok [OF ok step] in blast)+

lemma start_ok: "transport_ok (transport_new config)" "transport_ok (defer_initializer (transport_new config))"
proof -
  have h: "holds h (transport_new config) = False" "holds h (defer_initializer (transport_new config)) = False" for h
    by (cases h; simp add: holds_def transport_new_def defer_initializer_def)+
  have k: "has_token k (transport_new config) \<longleftrightarrow> k = EagerToken" "has_token k (defer_initializer (transport_new config)) \<longleftrightarrow> k = DeferredToken" for k
    by (cases k; simp add: has_token_def transport_new_def defer_initializer_def)+
  have "holder_ok (transport_new config)"
    by (rule holder_okI) (simp_all add: h, simp_all add: transport_new_def)
  moreover have "holder_ok (defer_initializer (transport_new config))"
    by (rule holder_okI) (simp_all add: h, simp_all add: transport_new_def defer_initializer_def)
  ultimately have e: "holder_ok (transport_new config)" "holder_ok (defer_initializer (transport_new config))" .
  have n: "native_ok (transport_new config) native_start" "native_ok (defer_initializer (transport_new config)) native_start"
    by (simp_all add: native_ok_def transport_new_def defer_initializer_def native_start_def running_call_def)
  have p: "progress_ok (transport_new config) native_start" "progress_ok (defer_initializer (transport_new config)) native_start"
    by (simp_all add: progress_ok_def transport_new_def defer_initializer_def)
  have t: "token_ok (transport_new config) native_start" "token_ok (defer_initializer (transport_new config)) native_start"
    by (simp_all add: token_ok_def k native_start_def)
  show "transport_ok (transport_new config)" "transport_ok (defer_initializer (transport_new config))"
    using e n p t unfolding transport_ok_def by blast+
qed

lemma reach_ok: "transport_reach t \<Longrightarrow> transport_ok t"
  by (induction rule: transport_reach.induct) (auto intro: start_ok step_ok)

end
