(* ===== verification/ModuleTransportProps.thy ===== *)
theory ModuleTransportProps
  imports ModuleTransportRuns
begin

text \<open>What a module transport promises: the callback protocol, final terminal flags, and answers of a stop that are true.\<close>

fun transport_run :: "transport_event list \<Rightarrow> transport \<Rightarrow> transport option" where
  "transport_run [] t = Some t"
| "transport_run (ev # evs) t = (case transport_step ev t of Some t' \<Rightarrow> transport_run evs t' | None \<Rightarrow> None)"

lemma run_reach: "transport_reach t \<Longrightarrow> transport_run evs t = Some t' \<Longrightarrow> transport_reach t'"
  by (induction evs arbitrary: t) (auto split: option.splits intro: transport_reach.step)

section \<open>What no step takes back\<close>

definition shutdown_told :: "transport \<Rightarrow> bool" where
  "shutdown_told t \<longleftrightarrow> ph_code (tr_physical t) = Some TB_OK \<or> bit (tr_flags t) 3
     \<or> (\<exists>j jb. hget (tr_jobs t) j = Some jb \<and> jb_place jb = JobReturned (Some TB_OK))"

definition shutdown_done :: "transport \<Rightarrow> bool" where
  "shutdown_done t \<longleftrightarrow> LeaveShutdown (Some TB_OK) \<in> set (tr_natives t)"

definition sticky :: "transport \<Rightarrow> transport \<Rightarrow> bool" where
  "sticky t t' \<longleftrightarrow> (tr_closed t \<longrightarrow> tr_closed t') \<and> (tr_cb_closed t \<longrightarrow> tr_cb_closed t') \<and> (tr_stopped t \<longrightarrow> tr_stopped t')
     \<and> (tr_faulted t \<longrightarrow> tr_faulted t') \<and> (tr_ready t \<longrightarrow> tr_ready t') \<and> (tr_closed t \<and> tr_ready t' \<longrightarrow> tr_ready t) \<and> (tr_module t \<noteq> None \<longrightarrow> tr_module t' \<noteq> None)
     \<and> (\<forall>n \<in> {1, 2, 3}. bit (tr_flags t) n \<longrightarrow> bit (tr_flags t') n) \<and> (bit (tr_flags t') 0 \<longrightarrow> bit (tr_flags t) 0)"

definition kept :: "transport \<Rightarrow> transport \<Rightarrow> bool" where
  "kept t t' \<longleftrightarrow> sticky t t' \<and> (\<exists>ns. tr_natives t' = tr_natives t @ ns) \<and> (shutdown_told t' \<longrightarrow> shutdown_told t \<or> shutdown_done t')"

lemma kept_refl: "kept t t"
  by (simp add: kept_def sticky_def)

lemma kept_trans:
  assumes "kept t u" "kept u v"
  shows "kept t v"
proof -
  obtain ns1 ns2 where l: "tr_natives u = tr_natives t @ ns1" "tr_natives v = tr_natives u @ ns2" using assms unfolding kept_def by blast
  have s: "sticky t u" "sticky u v" using assms by (simp_all add: kept_def)
  have "sticky t v" using s unfolding sticky_def ball_simps by argo
  moreover have "shutdown_told v \<longrightarrow> shutdown_told t \<or> shutdown_done v"
    using assms l unfolding kept_def shutdown_done_def by auto
  ultimately show ?thesis using l unfolding kept_def by simp
qed

text \<open>A field that none of this is about.\<close>

definition same_told :: "transport \<Rightarrow> transport \<Rightarrow> bool" where
  "same_told t t' \<longleftrightarrow> tr_closed t' = tr_closed t \<and> tr_cb_closed t' = tr_cb_closed t \<and> tr_stopped t' = tr_stopped t
     \<and> tr_faulted t' = tr_faulted t \<and> tr_ready t' = tr_ready t \<and> tr_module t' = tr_module t \<and> tr_flags t' = tr_flags t
     \<and> tr_natives t' = tr_natives t \<and> tr_physical t' = tr_physical t \<and> tr_jobs t' = tr_jobs t"

lemma same_kept: "kept t u \<Longrightarrow> same_told u v \<Longrightarrow> kept t v"
  by (erule kept_trans) (auto simp: same_told_def kept_def sticky_def shutdown_told_def)

lemma kept_native: "kept t u \<Longrightarrow> kept t (did_native n u)"
  by (erule kept_trans) (auto simp: kept_def sticky_def shutdown_told_def did_native_def)

lemma kept_physical: "kept t u \<Longrightarrow> ph_code (f (tr_physical u)) \<in> {ph_code (tr_physical u), Some TB_CLOSED} \<Longrightarrow> kept t (set_physical f u)"
  by (erule kept_trans) (auto simp: kept_def sticky_def shutdown_told_def set_physical_def TB_CLOSED_def TB_OK_def)

lemma kept_set_job:
  assumes "kept t u" "\<And>jb. jb_place (f jb) = JobReturned (Some TB_OK) \<Longrightarrow> jb_place jb = JobReturned (Some TB_OK) \<or> shutdown_done u"
  shows "kept t (set_job j f u)"
proof -
  have "shutdown_told u \<or> shutdown_done u" if "shutdown_told (set_job j f u)"
    using that assms(2) by (fastforce simp: shutdown_told_def set_job_def hm.get_put split: option.splits if_splits)
  then have "kept u (set_job j f u)"
    by (auto simp: kept_def sticky_def set_job_def shutdown_done_def split: option.splits)
  then show ?thesis using assms(1) kept_trans by blast
qed

lemma kept_goto: "kept t u \<Longrightarrow> place \<noteq> JobReturned (Some TB_OK) \<or> shutdown_done u \<Longrightarrow> kept t (goto j place u)"
  unfolding goto_def by (rule kept_set_job) auto

lemma small_bits:
  "bit (1 :: 32 word) n \<longleftrightarrow> n = 0" "bit (2 :: 32 word) n \<longleftrightarrow> n = 1" "bit (4 :: 32 word) n \<longleftrightarrow> n = 2" "bit (8 :: 32 word) n \<longleftrightarrow> n = 3"
  using bit_exp_iff [where 'a = "32 word", of 1 n] bit_exp_iff [where 'a = "32 word", of 2 n] bit_exp_iff [where 'a = "32 word", of 3 n]
  by (auto simp: bit_1_iff)

lemma flag_bits:
  fixes x :: "32 word"
  shows "bit (((x AND NOT TERMINAL_LIVE) OR TERMINAL_STOP_INTENT) OR (if f then TERMINAL_FAULT else 0)) n
      \<longleftrightarrow> bit x n \<and> n \<noteq> 0 \<or> n = 1 \<or> f \<and> n = 2"
    "bit ((x OR (TERMINAL_STOP_INTENT OR TERMINAL_FAULT)) AND NOT TERMINAL_LIVE) n \<longleftrightarrow> n \<noteq> 0 \<and> (bit x n \<or> n = 1 \<or> n = 2)"
    "bit (x OR TERMINAL_PHYSICALLY_STOPPED) n \<longleftrightarrow> bit x n \<or> n = 3"
  unfolding TERMINAL_LIVE_def TERMINAL_STOP_INTENT_def TERMINAL_FAULT_def TERMINAL_PHYSICALLY_STOPPED_def
  using bit_imp_le_length [of x n] bit_or_iff [of "2 :: 32 word" 4 n]
  by (auto simp add: bit_or_iff bit_and_iff bit_not_iff small_bits simp del: bit_numeral_word_iff)

lemma kept_flags: "kept t u \<Longrightarrow> kept t (publish_terminal_flags f u)" "kept t u \<Longrightarrow> kept t (fault_flags u)"
  by (erule kept_trans; auto simp: kept_def sticky_def shutdown_told_def publish_terminal_flags_def fault_flags_def flag_bits)+

lemma kept_close: "kept t u \<Longrightarrow> kept t (close_admission u)" "kept t u \<Longrightarrow> kept t (finish_stop u)" "kept t u \<Longrightarrow> kept t (host_ready u)"
  by (erule kept_trans; auto simp: kept_def sticky_def shutdown_told_def close_admission_def finish_stop_def host_ready_def)+

lemma kept_module: "kept t u \<Longrightarrow> kept t (u \<lparr> tr_module := Some v \<rparr>)"
  by (erule kept_trans) (auto simp: kept_def sticky_def shutdown_told_def)

lemma kept_stopped: "kept t u \<Longrightarrow> shutdown_done u \<Longrightarrow> kept t (u \<lparr> tr_flags := tr_flags u OR TERMINAL_PHYSICALLY_STOPPED \<rparr>)"
  by (erule kept_trans) (auto simp: kept_def sticky_def shutdown_told_def shutdown_done_def flag_bits)

lemma kept_same: "kept t u \<Longrightarrow> kept t (clear_config u)" "kept t u \<Longrightarrow> kept t (unlock u)" "kept t u \<Longrightarrow> kept t (u \<lparr> tr_lifecycle := l \<rparr>)"
  "kept t u \<Longrightarrow> kept t (put_reinit r p u)" "kept t u \<Longrightarrow> kept t (put_stop s q u)" "kept t u \<Longrightarrow> kept t (admit_broker u)"
  "kept t u \<Longrightarrow> kept t (u \<lparr> tr_reinits := x \<rparr>)" "kept t u \<Longrightarrow> kept t (u \<lparr> tr_stops := y \<rparr>)" "kept t u \<Longrightarrow> kept t (u \<lparr> tr_initializer := b \<rparr>)"
  "kept t u \<Longrightarrow> kept t (u \<lparr> tr_native_pending := b \<rparr>)" "kept t u \<Longrightarrow> kept t (u \<lparr> tr_cb_active := n \<rparr>)"
  "kept t u \<Longrightarrow> kept t (u \<lparr> tr_eager := e \<rparr>)" "kept t u \<Longrightarrow> kept t (u \<lparr> tr_init_started := b \<rparr>)" "kept t u \<Longrightarrow> kept t (u \<lparr> tr_config := c \<rparr>)"
  "kept t u \<Longrightarrow> kept t (u \<lparr> tr_providers := b \<rparr>)" "kept t u \<Longrightarrow> kept t (u \<lparr> tr_gate := g \<rparr>)" "kept t u \<Longrightarrow> kept t (u \<lparr> tr_stop_spawned := b \<rparr>)"
  "kept t u \<Longrightarrow> kept t (u \<lparr> tr_init_failed := b \<rparr>)" "kept t u \<Longrightarrow> kept t (u \<lparr> tr_pending := ps \<rparr>)" "kept t u \<Longrightarrow> kept t (u \<lparr> tr_queue := qs \<rparr>)"
  "kept t u \<Longrightarrow> kept t (u \<lparr> tr_sender := b \<rparr>)" "kept t u \<Longrightarrow> kept t (u \<lparr> tr_drain_started := b \<rparr>)" "kept t u \<Longrightarrow> kept t (u \<lparr> tr_inflight := n \<rparr>)"
  by (erule same_kept, simp add: same_told_def clear_config_def unlock_def put_reinit_def put_stop_def admit_broker_def)+

lemma kept_new_job: "kept t u \<Longrightarrow> kept t (new_job i g f u)"
  by (erule kept_trans) (auto simp: new_job_def kept_def sticky_def shutdown_told_def set_physical_def hm.get_put split: if_splits)

lemma kept_commit: "kept t u \<Longrightarrow> kept t (commit_terminal f u)"
  unfolding commit_terminal_def by (intro kept_close kept_flags)

lemma kept_cleanup: "kept t u \<Longrightarrow> kept t (set_physical request_cleanup u)"
  by (erule kept_physical) (simp add: request_cleanup_def)

lemma kept_cancel: "kept t u \<Longrightarrow> kept t (cancel_before_entry u)"
  unfolding cancel_before_entry_def by (intro kept_close kept_same kept_physical) simp_all

lemmas kept_ops = kept_refl kept_native kept_physical kept_goto kept_flags kept_close kept_module kept_same kept_new_job kept_commit
  kept_cleanup kept_cancel

lemma done_native: "shutdown_done (did_native (LeaveShutdown (Some TB_OK)) t)"
  by (simp add: shutdown_done_def did_native_def)

lemma done_same [simp]: "shutdown_done (finish_stop t) = shutdown_done t" "shutdown_done (t \<lparr> tr_flags := w \<rparr>) = shutdown_done t"
  by (simp_all add: shutdown_done_def finish_stop_def)

section \<open>Each step\<close>

lemma kept_request: "kept t (request_section f t)"
  by (auto simp: request_section_def Let_def intro!: kept_ops)

lemma kept_initialize: "kept t u \<Longrightarrow> kept t (snd (initialize v u))"
  by (auto simp: initialize_def intro!: kept_ops split: if_splits)

lemma kept_schedule: "kept t (snd (schedule_initializer t))"
  by (auto simp: schedule_initializer_def Let_def intro!: kept_ops)

lemma kept_submit: "kept t (submit_job j b t)"
  by (auto simp: submit_job_def worker_lost_def Let_def intro!: kept_ops kept_set_job split: option.splits)

lemma kept_run: "kept t (job_run j jb t)"
  unfolding job_run_def by (intro kept_set_job kept_refl) (auto split: if_splits)

lemma kept_enter: "kept t (job_enter j t)"
  by (auto simp: job_enter_def intro!: kept_ops)

lemma kept_init_returned: "kept t (job_init_returned j returned t)"
proof -
  have "kept t (snd (initialize v (did_native LeaveInit t)))" for v by (intro kept_initialize kept_ops)
  then have "initialize v (did_native LeaveInit t) = (b, t1) \<Longrightarrow> kept t t1" for v b t1 by (metis snd_conv)
  then show ?thesis by (auto simp: job_init_returned_def Let_def intro!: kept_ops split: sum.splits prod.splits bool.splits)
qed

lemma kept_publish: "kept t (job_publish j r t)"
  by (auto simp: job_publish_def publish_init_def Let_def intro!: kept_ops split: sum.splits)

lemma kept_providers: "kept t (job_providers j jb t)"
  by (auto simp: job_providers_def Let_def intro!: kept_ops kept_set_job)

lemma kept_claim: "kept t (job_claim j t)"
  by (auto simp: job_claim_def Let_def intro!: kept_ops)

lemma kept_stop_close: "kept t (stop_sync_close j t)"
  by (auto simp: stop_sync_close_def TB_CLOSED_def TB_OK_def intro!: kept_ops)

lemma kept_stop_return: "kept t u \<Longrightarrow> code = TB_OK \<longrightarrow> shutdown_done u \<Longrightarrow> kept t (stop_sync_return j code u)"
  by (auto simp: stop_sync_return_def intro!: kept_ops kept_stopped)

lemma kept_shutdown: "kept t (shutdown_sync j t)"
  by (auto simp: shutdown_sync_def TB_CLOSED_def TB_OK_def intro!: kept_ops kept_stop_return split: option.splits)

lemma kept_shutdown_left: "kept t (shutdown_left j code t)"
  by (auto simp: shutdown_left_def Let_def done_native intro!: kept_ops kept_stop_return split: option.splits)

lemma kept_finish:
  assumes "hget (tr_jobs t) j = Some jb" "jb_place jb = JobReturned code"
  shows "kept t (job_finish j code t)"
proof -
  let ?u = "set_physical (\<lambda>ph. ph \<lparr> ph_code := code, ph_cleanup := (if code = Some TB_OK then CleanupComplete else CleanupUncertain),
             ph_job := (if code = Some TB_OK then None else ph_job ph) \<rparr>) (t \<lparr> tr_native_pending := False \<rparr>)"
  have "shutdown_told ?u \<Longrightarrow> shutdown_told t"
    using assms unfolding shutdown_told_def set_physical_def by auto
  then have "kept t ?u" by (simp add: kept_def sticky_def set_physical_def)
  then show ?thesis unfolding job_finish_def by (intro kept_goto kept_same) simp_all
qed

lemma kept_eager: "kept t u \<Longrightarrow> kept t (eager_start u)" "kept t (eager_unavailable t)"
  by (auto simp: eager_start_def eager_unavailable_def intro!: kept_ops)

lemma kept_eager_returned: "kept t (eager_returned returned t)"
proof -
  let ?t0 = "did_native LeaveInit (t \<lparr> tr_eager := EagerDone \<rparr>)"
  have 0: "kept t ?t0" by (intro kept_ops)
  have "kept t (snd (initialize v ?t0))" for v using kept_initialize [OF 0] .
  then have i: "initialize v ?t0 = (b, t1) \<Longrightarrow> kept t t1" for v b t1 by (metis snd_conv)
  have failed: "kept t u \<Longrightarrow> kept t (eager_failed u)" for u
    by (auto simp: eager_failed_def Let_def intro!: kept_ops)
  show ?thesis
    using 0 i by (auto simp: eager_returned_def Let_def intro!: kept_ops failed split: sum.splits prod.splits)
qed

lemma kept_reinit:
  assumes "reinit_held n bytes t = (next', t')"
  shows "kept t (reinit_place_after r next' t')"
proof -
  obtain c where "t' = t \<lparr> tr_config := c \<rparr>" using reinit_held_only_config [OF assms] by (auto simp: only_config_def)
  then have "kept t t'" by (auto intro!: kept_ops)
  then show ?thesis by (cases next') (auto simp: reinit_place_after_def intro!: kept_ops)
qed

lemma kept_reinit_left: "kept t u \<Longrightarrow> kept t (reinit_left r u)"
  by (auto simp: reinit_left_def intro!: kept_ops)

lemma kept_stop_section: "kept t (stop_section s t)"
  by (auto simp: stop_section_def Let_def intro!: kept_ops)

lemma kept_abandon: "kept t (snd (abandon_section t))"
  by (auto simp: abandon_section_def intro!: kept_ops)

lemma lock_kept: "lock h t = Some t1 \<Longrightarrow> kept t t1"
  using lock_free [of h t t1] by (auto intro!: kept_ops)

lemmas kept_steps = kept_request kept_schedule kept_submit kept_run kept_enter kept_init_returned kept_publish kept_providers kept_claim
  kept_stop_close kept_shutdown kept_shutdown_left kept_finish kept_eager kept_eager_returned kept_reinit kept_reinit_left
  kept_stop_section kept_abandon lock_kept
lemma step_kept:
  assumes "transport_step ev t = Some t'"
  shows "kept t t'"
proof (cases ev)
  case (InitLock j)
  then show ?thesis using assms by (auto simp: step_places split: if_splits intro!: kept_goto intro: kept_steps)
next
  case (Acquire j)
  then show ?thesis using assms by (auto simp: step_places split: if_splits intro!: kept_goto intro: kept_steps)
next
  case (ReinitLocks r)
  then show ?thesis using assms by (auto simp: step_places split: option.splits reinit_place.splits intro!: kept_same intro: kept_steps)
next
  case (StopLocks s)
  then show ?thesis using assms by (auto simp: step_places split: if_splits intro!: kept_same intro: kept_steps)
next
  case (StopCommits s)
  have "kept t (unlock (t \<lparr> tr_stops := hdel s (tr_stops t) \<rparr>))" "kept t (put_stop s StopCommitted (commit_terminal False t))"
    by (intro kept_ops)+
  then show ?thesis using assms StopCommits by (auto simp: step_places simp del: if_split split: if_split_asm)
next
  case EagerBegins
  then show ?thesis using assms by (auto split: if_splits intro!: kept_eager intro: lock_kept)
qed (use assms in \<open>auto simp: step_places split: if_splits option.splits job_place.splits reinit_place.splits prod.splits
    intro: kept_steps intro!: kept_ops\<close>)

lemma run_kept: "transport_run evs t = Some t' \<Longrightarrow> kept t t'"
  by (induction evs arbitrary: t) (auto split: option.splits intro: kept_refl kept_trans step_kept)

lemma reach_told: "transport_reach t \<Longrightarrow> shutdown_told t \<Longrightarrow> shutdown_done t"
proof (induction rule: transport_reach.induct)
  case (step t ev t')
  then show ?case using step_kept [OF step.hyps(2)] by (auto simp: kept_def shutdown_done_def)
qed (auto simp: shutdown_told_def transport_new_def defer_initializer_def TERMINAL_LIVE_def small_bits simp del: bit_numeral_word_iff)

lemma left_shut_down:
  assumes "native_run ns m = Some m'" "nm_call m = ShutdownCall \<longrightarrow> nm_shut_down m"
  shows "(nm_call m' = ShutdownCall \<longrightarrow> nm_shut_down m') \<and> (nm_shut_down m \<longrightarrow> nm_shut_down m') \<and> (\<forall>c. LeaveShutdown c \<in> set ns \<longrightarrow> nm_shut_down m')"
  using assms
proof (induction ns arbitrary: m)
  case (Cons n ns)
  obtain m1 where m1: "native_next n m = Some m1" "native_run ns m1 = Some m'" using Cons.prems(1) by (auto split: option.splits)
  have "(nm_call m1 = ShutdownCall \<longrightarrow> nm_shut_down m1) \<and> (nm_shut_down m \<longrightarrow> nm_shut_down m1) \<and> (\<forall>c. n = LeaveShutdown c \<longrightarrow> nm_shut_down m1)"
    using m1(1) Cons.prems(2) by (cases n) (auto split: if_splits)
  then show ?case using Cons.IH [OF m1(2)] by auto
qed simp

section \<open>Properties\<close>

text \<open>C8. The module's callbacks see the protocol of their vtable in every interleaving of the host: the initializer is
  entered at most once, reinitialization and shutdown never overlap it or each other, messages are delivered only after the
  initializer and never while it runs, shutdown is entered once and only when no delivery is inside the module, and nothing
  is entered afterwards.\<close>

theorem native_protocol_is_kept:
  assumes "transport_reach t"
  shows "native_run (tr_natives t) native_start \<noteq> None"
  using reach_ok [OF assms] by (auto simp: transport_ok_def native_ok_def)

text \<open>C29. Termination is final: along any run closed admission, a stop, a fault and the published stop, fault and stopped
  flags stay, the live flag does not come back, a module does not get ready after admission closed, and one that was
  initialized stays loaded.\<close>

theorem termination_is_final:
  assumes "transport_run evs t = Some t'"
  shows "sticky t t'"
  using run_kept [OF assms] by (simp add: kept_def)

text \<open>C16. When a stop answers success, or the flags say that the module is physically stopped, then the module's shutdown
  was entered and returned success.\<close>

theorem stop_success_is_true:
  assumes "transport_reach t" "stop_seen handoff t = Some (Inr TB_OK) \<or> bit (tr_flags t) 3"
  shows "LeaveShutdown (Some TB_OK) \<in> set (tr_natives t)
    \<and> (\<exists>m. native_run (tr_natives t) native_start = Some m \<and> nm_shut_down m)"
proof -
  have "shutdown_told t"
    using assms(2) by (auto simp: stop_seen_def shutdown_told_def TB_CLOSED_def TB_OK_def split: cleanup_state.splits option.splits)
  then have d: "LeaveShutdown (Some TB_OK) \<in> set (tr_natives t)" using reach_told [OF assms(1)] by (simp add: shutdown_done_def)
  obtain m where m: "native_run (tr_natives t) native_start = Some m"
    using reach_ok [OF assms(1)] by (auto simp: transport_ok_def native_ok_def)
  then show ?thesis using d left_shut_down [OF m] by (auto simp: native_start_def)
qed

section \<open>Examples\<close>

definition demo_vtable :: vtable where
  "demo_vtable = \<lparr> vt_base = True, vt_full = True, vt_context = True, vt_reinitialize = True \<rparr>"

definition demo_stop :: "transport_event list" where
  "demo_stop = [EagerBegins, EagerReturns (Inr demo_vtable), Ready, DeliverEnters, StopBegins 0, StopLocks 0, StopCommits 0, StopHandsOver 0,
     Submit 0 True, Run 0, InitSettled 0, ProvidersDrained 0, Claim 0, StopClose 0, DeliverLeaves, Drained 0,
     ShutdownReturns 0 (Some TB_OK), Finish 0]"

definition demo_stopped :: transport where
  "demo_stopped = the (transport_run demo_stop (transport_new ''cfg''))"

lemma demo_stop_runs: "transport_run demo_stop (transport_new ''cfg'') = Some demo_stopped"
  by code_simp

lemma demo_stopped_facts:
  "tr_natives demo_stopped = [EnterInit, LeaveInit, EnterDeliver, LeaveDeliver, EnterShutdown, LeaveShutdown (Some 0)]"
  "stop_seen True demo_stopped = Some (Inr 0)" "tr_closed demo_stopped" "tr_stopped demo_stopped"
  by code_simp+
lemma demo_stopped_reach: "transport_reach demo_stopped"
  using run_reach [OF transport_reach.eager demo_stop_runs] .

theorem native_protocol_is_kept_witness: "native_run (tr_natives demo_stopped) native_start \<noteq> None"
  by (rule native_protocol_is_kept [OF demo_stopped_reach])

theorem termination_is_final_witness: "sticky (transport_new ''cfg'') demo_stopped"
  by (rule termination_is_final [OF demo_stop_runs])

theorem stop_success_is_true_witness: "LeaveShutdown (Some TB_OK) \<in> set (tr_natives demo_stopped)"
  using stop_success_is_true [OF demo_stopped_reach, of True] demo_stopped_facts(2) by (simp add: TB_OK_def)

end
