(* ===== verification/Placement.thy ===== *)
theory Placement
  imports Results "HOL-Library.Word"
begin

unbundle bit_operations_syntax

text \<open>
  Where a module's file may lie (the gates at the end of \<open>module/host.rs\<close>): who owns the directories above it
  and may write to them, what the local account files say of the user's private group, and the allowlist
  beside the file.

  The file system and the account files are parameters: \<open>stat\<close> gives the facts of a directory, an absolute path
  is the list of its components (the root is \<open>[]\<close>), a file is its content.
\<close>

section \<open>Text\<close>

text \<open>\<open>str::lines\<close>: a carriage return before a line feed belongs to the ending.\<close>

definition strip_cr :: "string \<Rightarrow> string" where
  "strip_cr line = (if line \<noteq> [] \<and> last line = CHR 0x0D then butlast line else line)"

definition text_lines :: "string \<Rightarrow> string list" where
  "text_lines s =
     (let ls = split_on CHR 0x0A s in map strip_cr (butlast ls) @ (if last ls = [] then [] else [last ls]))"

definition parse_u32 :: "string \<Rightarrow> nat option" where
  "parse_u32 s =
     (case parse_digits (if starts_with s ''+'' then tl s else s) of
        Some n \<Rightarrow> if n < 2 ^ 32 then Some n else None
      | None \<Rightarrow> None)"

definition comment_line :: "string \<Rightarrow> bool" where
  "comment_line line \<longleftrightarrow> trim line = [] \<or> starts_with line ''#''"

fun contains_text :: "string \<Rightarrow> string \<Rightarrow> bool" where
  "contains_text [] p \<longleftrightarrow> p = []"
| "contains_text (c # s) p \<longleftrightarrow> starts_with (c # s) p \<or> contains_text s p"

section \<open>The account files\<close>

definition nss_index :: "string \<Rightarrow> nat option" where
  "nss_index database =
     (if database = ''passwd'' then Some 0 else if database = ''group'' then Some 1
      else if database = ''initgroups'' then Some 2 else if database = ''subid'' then Some 3 else None)"

definition local_sources :: "string \<Rightarrow> bool" where
  "local_sources sources \<longleftrightarrow>
     list_all (\<lambda>w. w = ''files'' \<or> w = ''systemd'') (filter (\<lambda>w. \<not> starts_with w ''['') (split_whitespace sources))"

definition nss_entry :: "string \<Rightarrow> (nat \<times> string) option" where
  "nss_entry line =
     (case split_once CHR '':'' (trim (hd (split_on CHR ''#'' line))) of
        None \<Rightarrow> None
      | Some (database, sources) \<Rightarrow> map_option (\<lambda>i. (i, sources)) (nss_index (trim database)))"

fun nss_scan :: "string list \<Rightarrow> bool list \<Rightarrow> bool" where
  "nss_scan [] seen \<longleftrightarrow> seen ! 0 \<and> seen ! 1"
| "nss_scan (line # ls) seen \<longleftrightarrow>
     (case nss_entry line of
        None \<Rightarrow> nss_scan ls seen
      | Some (i, sources) \<Rightarrow> local_sources sources \<and> nss_scan ls (seen[i := True]))"

definition accounts_are_local :: "string \<Rightarrow> bool" where
  "accounts_are_local nsswitch = nss_scan (text_lines nsswitch) (replicate 4 False)"

definition delegated_by :: "nat \<Rightarrow> string \<Rightarrow> bool" where
  "delegated_by gid line \<longleftrightarrow> \<not> comment_line line \<and>
     (case split_on CHR '':'' line of
        [_, start, count] \<Rightarrow>
          (case (parse_u64 start, parse_u64 count) of
             (Some a, Some n) \<Rightarrow> a \<le> gid \<and> gid < min (a + n) (2 ^ 64 - 1)
           | _ \<Rightarrow> True)
      | _ \<Rightarrow> True)"

definition gid_is_delegated :: "string \<Rightarrow> nat \<Rightarrow> bool" where
  "gid_is_delegated subgid gid = list_ex (delegated_by gid) (text_lines subgid)"

text \<open>The loop over \<open>/etc/passwd\<close>: the user's own record, and the primary groups of all others.\<close>

fun passwd_scan :: "nat \<Rightarrow> string list \<Rightarrow> string list \<Rightarrow> (string \<times> nat) option \<Rightarrow> nat list \<Rightarrow> ((string \<times> nat) option \<times> nat list) option" where
  "passwd_scan uid [] names user others = Some (user, others)"
| "passwd_scan uid (line # ls) names user others =
     (let fs = split_on CHR '':'' line in
      if comment_line line then passwd_scan uid ls names user others
      else if length fs < 4 then None
      else
        (case (parse_u32 (fs ! 2), parse_u32 (fs ! 3)) of
           (Some u, Some g) \<Rightarrow>
             if fs ! 0 \<in> set names then None
             else if u = uid then
               (if user \<noteq> None then None else passwd_scan uid ls (fs ! 0 # names) (Some (fs ! 0, g)) others)
             else passwd_scan uid ls (fs ! 0 # names) user (others @ [g])
         | _ \<Rightarrow> None))"

fun group_records :: "string list \<Rightarrow> string list list option" where
  "group_records [] = Some []"
| "group_records (line # ls) =
     (let fs = split_on CHR '':'' line in
      if comment_line line then group_records ls
      else if length fs < 4 \<or> parse_u32 (fs ! 2) = None then None
      else map_option (\<lambda>rs. fs # rs) (group_records ls))"

definition members_ok :: "string \<Rightarrow> string \<Rightarrow> bool" where
  "members_ok name members \<longleftrightarrow> list_all (\<lambda>m. m = name) (filter (\<lambda>m. m \<noteq> []) (split_on CHR '','' members))"

definition private_group_in :: "string \<Rightarrow> string \<Rightarrow> nat \<Rightarrow> nat option" where
  "private_group_in passwd grp uid =
     (case passwd_scan uid (text_lines passwd) [] None [] of
        Some (Some (name, gid), others) \<Rightarrow>
          if name = [] \<or> gid \<in> set others then None
          else
            (case group_records (text_lines grp) of
               None \<Rightarrow> None
             | Some records \<Rightarrow>
                 (case filter (\<lambda>fs. parse_u32 (fs ! 2) = Some gid) records of
                    [entry] \<Rightarrow> if entry ! 0 = name \<and> members_ok name (entry ! 3) then Some gid else None
                  | _ \<Rightarrow> None))
      | _ \<Rightarrow> None)"

text \<open>What \<open>read_to_string\<close> finds: a content, no file, or another error.\<close>

datatype file_text = Content string | Missing | Unreadable

record account_files =
  af_nsswitch :: file_text
  af_passwd :: file_text
  af_group :: file_text
  af_subgid :: file_text
  af_userdb_empty :: "string \<Rightarrow> bool"

definition SYSTEMD_USER_RECORD_DIRECTORIES :: "string list" where
  "SYSTEMD_USER_RECORD_DIRECTORIES =
     [''/etc/userdb'', ''/run/userdb'', ''/run/systemd/userdb'', ''/run/host/userdb'', ''/usr/lib/userdb'',
      ''/var/lib/systemd/home'', ''/run/systemd/home'']"

definition current_user_private_gid :: "account_files \<Rightarrow> nat \<Rightarrow> nat option" where
  "current_user_private_gid af uid =
     (case af_nsswitch af of
        Content nsswitch \<Rightarrow>
          if \<not> accounts_are_local nsswitch then None
          else
            (case (af_passwd af, af_group af) of
               (Content passwd, Content grp) \<Rightarrow>
                 (let gid = private_group_in passwd grp uid;
                      kept = (case gid of
                          None \<Rightarrow> None
                        | Some g \<Rightarrow>
                            (case af_subgid af of
                               Content subgid \<Rightarrow> if gid_is_delegated subgid g then None else Some g
                             | Missing \<Rightarrow> Some g
                             | Unreadable \<Rightarrow> None)) in
                  if contains_text nsswitch ''systemd'' \<and>
                     \<not> ((case kept of Some g \<Rightarrow> 1000 \<le> g \<and> g < 60000 | None \<Rightarrow> False)
                        \<and> list_all (af_userdb_empty af) SYSTEMD_USER_RECORD_DIRECTORIES)
                  then None else kept)
             | _ \<Rightarrow> None)
      | _ \<Rightarrow> None)"

section \<open>Directories\<close>

record dir_stat =
  ds_dir :: bool
  ds_owner :: nat
  ds_group :: nat
  ds_mode :: "32 word"

definition root_equivalent_group :: "bool \<Rightarrow> nat \<Rightarrow> nat \<Rightarrow> bool" where
  "root_equivalent_group macos owner grp \<longleftrightarrow> macos \<and> owner = 0 \<and> grp \<in> {0, 80}"

definition unix_directory_refusal :: "bool \<Rightarrow> nat \<Rightarrow> nat \<Rightarrow> 32 word \<Rightarrow> nat \<Rightarrow> nat option \<Rightarrow> string option" where
  "unix_directory_refusal macos owner grp mode current_uid private_gid =
     (let world_writable = mode AND 2 \<noteq> 0; group_writable = mode AND 16 \<noteq> 0; sticky = mode AND 512 \<noteq> 0;
          group_grants_only_the_user = root_equivalent_group macos owner grp \<or> private_gid = Some grp in
      if owner \<noteq> current_uid \<and> owner \<noteq> 0 then Some ''module directory is owned by another user''
      else if sticky then None
      else if world_writable \<or> group_writable \<and> \<not> group_grants_only_the_user
      then Some ''module directory is writable by another user''
      else None)"

definition REPORTABLE_ROOT_CHILDREN :: "string list" where
  "REPORTABLE_ROOT_CHILDREN =
     [''bin'', ''boot'', ''etc'', ''home'', ''lib'', ''lib64'', ''Library'', ''media'', ''mnt'', ''opt'', ''private'', ''root'',
      ''run'', ''sbin'', ''srv'', ''tmp'', ''usr'', ''var'', ''Users'', ''Applications'', ''Volumes'']"

definition ancestor_label :: "string list option \<Rightarrow> string list \<Rightarrow> string list \<Rightarrow> string" where
  "ancestor_label home component module_directory =
     (if component = [] then ''the filesystem root''
      else if component = module_directory then ''the directory itself''
      else if home = Some component then ''the home directory''
      else if length component = 1 \<and> last component \<in> set REPORTABLE_ROOT_CHILDREN then last component
      else ''an ancestor directory'')"

definition octal_digit :: "nat \<Rightarrow> char" where
  "octal_digit n = digit_char (n mod 8)"

definition show_mode :: "32 word \<Rightarrow> string" where
  "show_mode mode =
     (let m = unat (mode AND 4095) in [octal_digit (m div 512), octal_digit (m div 64), octal_digit (m div 8), octal_digit m])"

text \<open>\<open>Path::ancestors\<close>: the path, its parent, and so on to the root.\<close>

fun ancestors_up :: "string list \<Rightarrow> string list list" where
  "ancestors_up [] = [[]]"
| "ancestors_up (c # up) = rev (c # up) # ancestors_up up"

definition ancestors :: "string list \<Rightarrow> string list list" where
  "ancestors path = ancestors_up (rev path)"

record placement_env =
  pe_macos :: bool
  pe_uid :: nat
  pe_home :: "string list option"
  pe_stat :: "string list \<Rightarrow> dir_stat option"
  pe_acl :: "string list \<Rightarrow> bool"
  pe_accounts :: account_files

definition needs_private_gid :: "placement_env \<Rightarrow> dir_stat \<Rightarrow> bool" where
  "needs_private_gid env st \<longleftrightarrow> ds_mode st AND 16 \<noteq> 0 \<and> ds_mode st AND 512 = 0
     \<and> (ds_owner st = pe_uid env \<or> ds_owner st = 0) \<and> \<not> root_equivalent_group (pe_macos env) (ds_owner st) (ds_group st)"

text \<open>One turn of the loop of \<open>check_directory\<close>: the reason to refuse, if there is one.\<close>

definition ancestor_refusal :: "placement_env \<Rightarrow> string list \<Rightarrow> string list \<Rightarrow> string option" where
  "ancestor_refusal env absolute component =
     (case pe_stat env component of
        None \<Rightarrow> Some ''module directory is unavailable''
      | Some st \<Rightarrow>
          if \<not> ds_dir st then Some ''module search path contains a non-directory component''
          else
            (let private_gid = (if needs_private_gid env st \<and> \<not> pe_acl env component
                  then current_user_private_gid (pe_accounts env) (pe_uid env) else None) in
             case unix_directory_refusal (pe_macos env) (ds_owner st) (ds_group st) (ds_mode st) (pe_uid env) private_gid of
               None \<Rightarrow> None
             | Some reason \<Rightarrow>
                 Some (reason @ '' at '' @ ancestor_label (pe_home env) component absolute @ '' mode '' @ show_mode (ds_mode st))))"

fun check_ancestors :: "placement_env \<Rightarrow> string \<Rightarrow> string list \<Rightarrow> string list list \<Rightarrow> unit result" where
  "check_ancestors env path absolute [] = Inr ()"
| "check_ancestors env path absolute (component # rest) =
     (case ancestor_refusal env absolute component of
        Some reason \<Rightarrow> Inl (module_refused path reason)
      | None \<Rightarrow> check_ancestors env path absolute rest)"

definition check_directory :: "placement_env \<Rightarrow> string \<Rightarrow> string list \<Rightarrow> unit result" where
  "check_directory env path absolute = check_ancestors env path absolute (ancestors absolute)"

definition PLACEMENT_REFUSALS :: "string list" where
  "PLACEMENT_REFUSALS =
     [''module directory is writable by another user'', ''module directory is owned by another user'', ''artifact is writable by another user'']"

definition is_placement_refusal :: "error \<Rightarrow> bool" where
  "is_placement_refusal e = (case e of ModuleRefused _ reason \<Rightarrow> list_ex (starts_with reason) PLACEMENT_REFUSALS | _ \<Rightarrow> False)"

section \<open>Files\<close>

definition has_library_extension :: "bool \<Rightarrow> string option \<Rightarrow> bool" where
  "has_library_extension macos extension \<longleftrightarrow> extension = Some (if macos then ''dylib'' else ''so'')"

definition is_search_skipped :: "string option \<Rightarrow> string list \<Rightarrow> bool" where
  "is_search_skipped stem skip \<longleftrightarrow> (case stem of Some s \<Rightarrow> s \<in> set skip | None \<Rightarrow> False)"

definition is_hex_char :: "char \<Rightarrow> bool" where
  "is_hex_char c \<longleftrightarrow> is_digit c \<or> CHR ''A'' \<le> c \<and> c \<le> CHR ''F'' \<or> CHR ''a'' \<le> c \<and> c \<le> CHR ''f''"

definition is_hex_sha256 :: "string \<Rightarrow> bool" where
  "is_hex_sha256 value \<longleftrightarrow> length value = 64 \<and> list_all is_hex_char value"

definition lower_char :: "char \<Rightarrow> char" where
  "lower_char c = (if CHR ''A'' \<le> c \<and> c \<le> CHR ''Z'' then char_of (of_char c + 32 :: nat) else c)"

definition trim_quotes :: "string \<Rightarrow> string" where
  "trim_quotes s = rev (dropWhile (\<lambda>c. c = CHR 0x22 \<or> c = CHR 0x27) (rev (dropWhile (\<lambda>c. c = CHR 0x22 \<or> c = CHR 0x27) s)))"

definition allowlist_entry :: "string \<Rightarrow> (string \<times> string) option" where
  "allowlist_entry line =
     (let line = trim (hd (split_on CHR ''#'' line)) in
      if line = [] \<or> starts_with line ''['' then None
      else map_option (\<lambda>(key, value). (trim_quotes (trim key), map lower_char (trim_quotes (trim value)))) (split_once CHR ''='' line))"

definition parse_allowlist :: "string \<Rightarrow> (string \<times> string) list" where
  "parse_allowlist source = List.map_filter allowlist_entry (text_lines source)"

text \<open>A candidate file: its names as \<open>Path\<close> gives them, the allowlist beside it, and its digest.\<close>

record candidate =
  cf_path :: string
  cf_has_parent :: bool
  cf_name :: string
  cf_stem :: string
  cf_extension :: "string option"
  cf_open :: bool
  cf_regular :: bool
  cf_length :: nat
  cf_allowlist :: file_text
  cf_digest :: "string option"

definition allowlisted_hash :: "candidate \<Rightarrow> string option result" where
  "allowlisted_hash f =
     (if \<not> cf_has_parent f then Inr None
      else
        (case cf_allowlist f of
           Missing \<Rightarrow> Inr None
         | Unreadable \<Rightarrow> Inl (module_refused (cf_path f) ''module allowlist is unreadable'')
         | Content source \<Rightarrow>
             (case List.find (\<lambda>(key, _). key = cf_name f \<or> key = cf_stem f) (parse_allowlist source) of
                None \<Rightarrow> Inl (module_refused (cf_path f) ''artifact is absent from the module allowlist'')
              | Some (_, expected) \<Rightarrow>
                  if \<not> is_hex_sha256 expected then Inl (module_refused (cf_path f) ''module allowlist contains an invalid hash'')
                  else
                    (case cf_digest f of
                       None \<Rightarrow> Inl (module_refused (cf_path f) ''artifact hash could not be read'')
                     | Some actual \<Rightarrow>
                         if actual \<noteq> expected
                         then Inl (module_refused (cf_path f) ''artifact hash does not match the module allowlist'')
                         else Inr (Some actual)))))"

definition check_allowlist :: "candidate \<Rightarrow> unit result" where
  "check_allowlist f = on_ok (allowlisted_hash f) (\<lambda>_. Inr ())"

definition check_file :: "bool \<Rightarrow> candidate \<Rightarrow> unit result" where
  "check_file macos f =
     fail_if (\<not> cf_open f) (module_refused (cf_path f) ''artifact metadata is unavailable'')
       (fail_if (\<not> cf_regular f) (module_refused (cf_path f) ''artifact is not a regular file'')
         (fail_if (cf_length f > 512 * 1024 * 1024) (module_refused (cf_path f) ''artifact exceeds the 512 MiB size cap'')
           (fail_if (\<not> has_library_extension macos (cf_extension f)) (module_refused (cf_path f) ''artifact extension is not loadable'')
             (check_allowlist f))))"

text \<open>A module identifier is a package name.\<close>

definition canonical_module_id :: "string \<Rightarrow> bool" where
  "canonical_module_id value \<longleftrightarrow> value \<noteq> [] \<and> length value \<le> 64
     \<and> list_all (\<lambda>c. is_alnum c \<or> c \<in> {CHR ''.'', CHR ''_'', CHR ''+'', CHR ''-''}) value"

end
