(* ===== verification/PlacementProps.thy ===== *)
theory PlacementProps
  imports Placement
begin

text \<open>
  What the placement gates promise: a private group is private, nobody else may write where a module was
  accepted, and a refusal for the place of a file is never one for its content.
\<close>

section \<open>The account database that the files state\<close>

definition account_of :: "string \<Rightarrow> (string \<times> nat \<times> nat) option" where
  "account_of line =
     (let fs = split_on CHR '':'' line in
      if comment_line line \<or> length fs < 4 then None
      else (case (parse_u32 (fs ! 2), parse_u32 (fs ! 3)) of (Some u, Some g) \<Rightarrow> Some (fs ! 0, u, g) | _ \<Rightarrow> None))"

definition accounts :: "string \<Rightarrow> (string \<times> nat \<times> nat) list" where
  "accounts passwd = List.map_filter account_of (text_lines passwd)"

definition group_of :: "string \<Rightarrow> (nat \<times> string list) option" where
  "group_of line =
     (let fs = split_on CHR '':'' line in
      if comment_line line \<or> length fs < 4 then None
      else map_option (\<lambda>g. (g, filter (\<lambda>m. m \<noteq> []) (split_on CHR '','' (fs ! 3)))) (parse_u32 (fs ! 2)))"

definition groups :: "string \<Rightarrow> (nat \<times> string list) list" where
  "groups grp = List.map_filter group_of (text_lines grp)"

text \<open>Who is in a group: by the primary group of the account, or named as a member.\<close>

definition in_group :: "string \<Rightarrow> string \<Rightarrow> nat \<Rightarrow> nat \<Rightarrow> bool" where
  "in_group passwd grp u g \<longleftrightarrow>
     (\<exists>name g'. (name, u, g') \<in> set (accounts passwd) \<and> (g' = g \<or> (\<exists>ms. (g, ms) \<in> set (groups grp) \<and> name \<in> set ms)))"

lemma passwd_scan_Cons:
  assumes "passwd_scan uid (line # ls) names user others = Some out"
  shows "(account_of line = None \<and> passwd_scan uid ls names user others = Some out)
    \<or> (\<exists>n u g. account_of line = Some (n, u, g) \<and> n \<notin> set names
         \<and> (if u = uid then user = None \<and> passwd_scan uid ls (n # names) (Some (n, g)) others = Some out
            else passwd_scan uid ls (n # names) user (others @ [g]) = Some out))"
  using assms by (cases user) (auto simp: account_of_def Let_def split: if_splits option.splits)

lemma passwd_scan_names:
  "passwd_scan uid ls names user others = Some out \<Longrightarrow>
     distinct (map fst (List.map_filter account_of ls)) \<and> fst ` set (List.map_filter account_of ls) \<inter> set names = {}"
proof (induction ls arbitrary: names user others)
  case (Cons line ls)
  consider "account_of line = None" "passwd_scan uid ls names user others = Some out"
    | n u g user1 others1 where "account_of line = Some (n, u, g)" "n \<notin> set names" "passwd_scan uid ls (n # names) user1 others1 = Some out"
    using passwd_scan_Cons [OF Cons.prems] by (auto split: if_splits)
  then show ?case
  proof cases
    case 1
    then show ?thesis using Cons.IH by (simp add: map_filter_simps)
  next
    case 2
    then show ?thesis using Cons.IH [OF 2(3)] by (auto simp: map_filter_simps)
  qed
qed (simp add: map_filter_simps)

lemma passwd_scan_gids:
  "passwd_scan uid ls names user others = Some (user', others') \<Longrightarrow>
     set others \<subseteq> set others' \<and> (\<forall>(n, u, g) \<in> set (List.map_filter account_of ls). if u = uid then user = None \<and> user' = Some (n, g) else g \<in> set others')
     \<and> (user \<noteq> None \<longrightarrow> user' = user) \<and> (user' = user \<or> (\<exists>n g. user' = Some (n, g) \<and> (n, uid, g) \<in> set (List.map_filter account_of ls)))"
proof (induction ls arbitrary: names user others)
  case (Cons line ls)
  consider "account_of line = None" "passwd_scan uid ls names user others = Some (user', others')"
    | n g where "account_of line = Some (n, uid, g)" "user = None" "passwd_scan uid ls (n # names) (Some (n, g)) others = Some (user', others')"
    | n u g where "account_of line = Some (n, u, g)" "u \<noteq> uid" "passwd_scan uid ls (n # names) user (others @ [g]) = Some (user', others')"
    using passwd_scan_Cons [OF Cons.prems] by (cases user) (auto split: if_splits)
  then show ?case
  proof cases
    case 1
    then show ?thesis using Cons.IH by (simp add: map_filter_simps)
  next
    case 2
    then show ?thesis using Cons.IH [OF 2(3)] by (fastforce simp: map_filter_simps)
  next
    case 3
    then show ?thesis using Cons.IH [OF 3(3)] by (auto simp: map_filter_simps)
  qed
qed (simp add: map_filter_simps)

lemma group_records_groups:
  "group_records ls = Some rs \<Longrightarrow>
     List.map_filter group_of ls = map (\<lambda>fs. (the (parse_u32 (fs ! 2)), filter (\<lambda>m. m \<noteq> []) (split_on CHR '','' (fs ! 3)))) rs
     \<and> (\<forall>fs \<in> set rs. parse_u32 (fs ! 2) \<noteq> None)"
  by (induction ls arbitrary: rs) (auto simp: map_filter_simps group_of_def Let_def split: if_splits option.splits)

text \<open>A group that passes as private has the user as its only member, by primary group or by name.\<close>

theorem private_group_is_private:
  assumes "private_group_in passwd grp uid = Some g"
  shows "in_group passwd grp u g \<longleftrightarrow> u = uid"
proof -
  obtain name others where scan: "passwd_scan uid (text_lines passwd) [] None [] = Some (Some (name, g), others)" "g \<notin> set others"
    and rec: "\<exists>rs entry. group_records (text_lines grp) = Some rs \<and> filter (\<lambda>fs. parse_u32 (fs ! 2) = Some g) rs = [entry] \<and> members_ok name (entry ! 3)"
    using assms by (auto simp: private_group_in_def split: option.splits prod.splits if_splits list.splits)
  obtain rs entry where rs: "group_records (text_lines grp) = Some rs" "filter (\<lambda>fs. parse_u32 (fs ! 2) = Some g) rs = [entry]" "members_ok name (entry ! 3)"
    using rec by blast
  have names: "distinct (map fst (accounts passwd))" using passwd_scan_names [OF scan(1)] by (simp add: accounts_def)
  have acc: "h \<in> set others" if "(n, v, h) \<in> set (accounts passwd)" "v \<noteq> uid" for n v h
    using passwd_scan_gids [OF scan(1)] that unfolding accounts_def by auto
  have own: "(name, uid, g) \<in> set (accounts passwd)"
    using passwd_scan_gids [OF scan(1)] unfolding accounts_def by auto
  have groups: "groups grp = map (\<lambda>fs. (the (parse_u32 (fs ! 2)), filter (\<lambda>m. m \<noteq> []) (split_on CHR '','' (fs ! 3)))) rs"
    unfolding groups_def using group_records_groups [OF rs(1)] by blast
  have member: "m = name" if "(g, ms) \<in> set (groups grp)" "m \<in> set ms" for m ms
  proof -
    have "(g, ms) \<in> (\<lambda>fs. (the (parse_u32 (fs ! 2)), filter (\<lambda>m. m \<noteq> []) (split_on CHR '','' (fs ! 3)))) ` set rs"
      using that(1) unfolding groups by simp
    then obtain fs where fs0: "fs \<in> set rs" "g = the (parse_u32 (fs ! 2))" "ms = filter (\<lambda>m. m \<noteq> []) (split_on CHR '','' (fs ! 3))"
      by blast
    then have fs: "fs \<in> set rs" "parse_u32 (fs ! 2) = Some g" "ms = filter (\<lambda>m. m \<noteq> []) (split_on CHR '','' (fs ! 3))"
      using group_records_groups [OF rs(1)] by auto
    then have "fs \<in> set (filter (\<lambda>fs. parse_u32 (fs ! 2) = Some g) rs)" by simp
    then have "fs = entry" using rs(2) by simp
    then show ?thesis using rs(3) fs(3) that(2) by (auto simp: members_ok_def list_all_iff)
  qed
  show ?thesis
  proof
    assume "in_group passwd grp u g"
    then obtain n h where n: "(n, u, h) \<in> set (accounts passwd)" "h = g \<or> (\<exists>ms. (g, ms) \<in> set (groups grp) \<and> n \<in> set ms)"
      by (auto simp: in_group_def)
    show "u = uid"
    proof (rule ccontr)
      assume u: "u \<noteq> uid"
      then have "h \<noteq> g" using acc [OF n(1) u] scan(2) by auto
      then have "n = name" using n(2) member by blast
      then show False using names own n(1) u by (meson eq_key_imp_eq_value prod.inject)
    qed
  next
    assume "u = uid"
    then show "in_group passwd grp u g" using own unfolding in_group_def by blast
  qed
qed


section \<open>Directories\<close>

lemma ancestors_up_take: "set (ancestors_up up) = {take n (rev up) |n. n \<le> length up}"
proof (induction up)
  case (Cons c up)
  have "{take n (rev up @ [c]) |n. n \<le> Suc (length up)} = insert (rev up @ [c]) {take n (rev up) |n. n \<le> length up}"
  proof (intro equalityI subsetI)
    fix p assume "p \<in> {take n (rev up @ [c]) |n. n \<le> Suc (length up)}"
    then obtain n where "p = take n (rev up @ [c])" "n \<le> Suc (length up)" by blast
    then show "p \<in> insert (rev up @ [c]) {take n (rev up) |n. n \<le> length up}" by (cases "n = Suc (length up)") auto
  next
    fix p assume "p \<in> insert (rev up @ [c]) {take n (rev up) |n. n \<le> length up}"
    then consider "p = rev up @ [c]" | n where "p = take n (rev up)" "n \<le> length up" by blast
    then show "p \<in> {take n (rev up @ [c]) |n. n \<le> Suc (length up)}"
    proof cases
      case 1
      then have "p = take (Suc (length up)) (rev up @ [c])" by simp
      then show ?thesis by blast
    next
      case 2
      then have "p = take n (rev up @ [c])" by simp
      then show ?thesis using 2 by (metis (mono_tags, lifting) le_SucI mem_Collect_eq)
    qed
  qed
  then show ?case using Cons by simp
qed simp

lemma ancestors_take: "set (ancestors path) = {take n path |n. n \<le> length path}"
  by (simp add: ancestors_def ancestors_up_take)

lemma check_ancestors_ok: "check_ancestors env path absolute cs = Inr () \<longleftrightarrow> (\<forall>c \<in> set cs. ancestor_refusal env absolute c = None)"
  by (induction cs) (auto split: option.splits)

text \<open>Who may create or replace an entry of a directory that is not sticky: root, the owner, everybody or the group when
  the mode says so, and whom an access control list names, as far as the group bits of the mode, its mask, allow it.\<close>

definition may_write :: "(nat \<Rightarrow> nat \<Rightarrow> bool) \<Rightarrow> (string list \<Rightarrow> nat set) \<Rightarrow> dir_stat \<Rightarrow> string list \<Rightarrow> nat \<Rightarrow> bool" where
  "may_write member acl st component u \<longleftrightarrow> u = 0 \<or> u = ds_owner st \<or> ds_mode st AND 2 \<noteq> 0
     \<or> ds_mode st AND 16 \<noteq> 0 \<and> (member u (ds_group st) \<or> u \<in> acl component)"

lemma private_gid_is_private:
  assumes "current_user_private_gid af uid = Some g"
  shows "\<exists>nss p gr. af_nsswitch af = Content nss \<and> accounts_are_local nss \<and> af_passwd af = Content p \<and> af_group af = Content gr
    \<and> private_group_in p gr uid = Some g"
  using assms by (auto simp: current_user_private_gid_def Let_def split: file_text.splits option.splits if_splits)


section \<open>Refusals\<close>

definition clean_words :: "string \<Rightarrow> string list" where
  "clean_words reason = filter (\<lambda>w. w \<noteq> []) (map sanitize_untrusted (split_whitespace reason))"

lemma refused_reason: "\<exists>f. module_refused p reason = ModuleRefused f (join_with '' '' (clean_words reason))"
  by (simp add: module_refused_def clean_words_def)

lemma clean_words_append: "clean_words (a @ CHR '' '' # b) = clean_words a @ clean_words b"
  by (simp add: clean_words_def split_whitespace_def split_on_app is_space_def)

lemma placement_refused: "is_placement_refusal (module_refused p reason)
    \<longleftrightarrow> list_ex (starts_with (join_with '' '' (clean_words reason))) PLACEMENT_REFUSALS"
  using refused_reason [of p reason] by (auto simp: is_placement_refusal_def)

lemma reason_words:
  "clean_words ''module directory is owned by another user'' = [''module'', ''directory'', ''is'', ''owned'', ''by'', ''another'', ''user'']"
  "clean_words ''module directory is writable by another user'' = [''module'', ''directory'', ''is'', ''writable'', ''by'', ''another'', ''user'']"
  by code_simp+

lemma starts_with_self: "starts_with (s @ t) s" "starts_with s s"
  by (simp_all add: starts_with_def)

lemma refused_place:
  assumes "reason = ''module directory is owned by another user'' \<or> reason = ''module directory is writable by another user''"
  shows "is_placement_refusal (module_refused p (reason @ '' at '' @ rest))"
proof -
  obtain ws where ws: "clean_words (reason @ '' at '' @ rest) = clean_words reason @ ws"
    using clean_words_append [of reason "''at '' @ rest"] by auto
  have j: "join_with '' '' (clean_words reason) = reason" using assms by (elim disjE) (simp_all add: reason_words)
  have ne: "clean_words reason \<noteq> []" using assms by (elim disjE) (simp_all add: reason_words)
  have "starts_with (join_with '' '' (clean_words reason @ ws)) reason"
    using join_app [OF ne, of ws "'' ''"] j by (cases "ws = []") (simp_all add: starts_with_self)
  then show ?thesis using assms unfolding placement_refused ws by (auto simp: PLACEMENT_REFUSALS_def)
qed

lemma refused_content:
  "\<not> is_placement_refusal (module_refused p ''artifact metadata is unavailable'')"
  "\<not> is_placement_refusal (module_refused p ''artifact is not a regular file'')"
  "\<not> is_placement_refusal (module_refused p ''artifact exceeds the 512 MiB size cap'')"
  "\<not> is_placement_refusal (module_refused p ''artifact extension is not loadable'')"
  "\<not> is_placement_refusal (module_refused p ''module allowlist is unreadable'')"
  "\<not> is_placement_refusal (module_refused p ''artifact is absent from the module allowlist'')"
  "\<not> is_placement_refusal (module_refused p ''module allowlist contains an invalid hash'')"
  "\<not> is_placement_refusal (module_refused p ''artifact hash could not be read'')"
  "\<not> is_placement_refusal (module_refused p ''artifact hash does not match the module allowlist'')"
  "\<not> is_placement_refusal (module_refused p ''module directory is unavailable'')"
  "\<not> is_placement_refusal (module_refused p ''module search path contains a non-directory component'')"
  unfolding placement_refused by code_simp+

lemma allowlisted_hash_fails: "allowlisted_hash f = Inl e \<Longrightarrow> \<not> is_placement_refusal e"
  by (auto simp: allowlisted_hash_def refused_content split: if_splits file_text.splits option.splits prod.splits)

text \<open>A refusal for what the file is does not let the loader try another copy.\<close>

theorem content_refusals_are_final:
  "check_file macos f = Inl e \<Longrightarrow> \<not> is_placement_refusal e"
  by (auto simp: check_file_def check_allowlist_def fails refused_content dest: allowlisted_hash_fails)

lemma refusal_reasons:
  "unix_directory_refusal macos owner grp mode uid pg = Some reason \<Longrightarrow>
     reason = ''module directory is owned by another user'' \<or> reason = ''module directory is writable by another user''"
  by (auto simp only: unix_directory_refusal_def Let_def option.inject option.distinct split: if_splits)

lemma ancestor_placement:
  assumes "ancestor_refusal env absolute c = Some reason"
  shows "is_placement_refusal (module_refused path reason) \<longleftrightarrow> (\<exists>st. pe_stat env c = Some st \<and> ds_dir st)"
proof (cases "\<exists>st. pe_stat env c = Some st \<and> ds_dir st")
  case True
  then obtain st where st: "pe_stat env c = Some st" "ds_dir st" by blast
  let ?pg = "if needs_private_gid env st \<and> \<not> pe_acl env c then current_user_private_gid (pe_accounts env) (pe_uid env) else None"
  obtain r where r: "unix_directory_refusal (pe_macos env) (ds_owner st) (ds_group st) (ds_mode st) (pe_uid env) ?pg = Some r"
    using assms st by (cases "unix_directory_refusal (pe_macos env) (ds_owner st) (ds_group st) (ds_mode st) (pe_uid env) ?pg")
      (simp_all add: ancestor_refusal_def Let_def)
  then have "reason = r @ '' at '' @ ancestor_label (pe_home env) c absolute @ '' mode '' @ show_mode (ds_mode st)"
    using assms st by (simp add: ancestor_refusal_def Let_def)
  then show ?thesis using True refused_place [OF refusal_reasons [OF r]] by blast
next
  case False
  then show ?thesis using assms refused_content(10,11) by (auto simp only: ancestor_refusal_def split: option.splits if_splits)
qed

text \<open>A refusal lets the loader try another copy of the same release only if it is for a directory's owner or mode.\<close>

lemma check_ancestors_fails:
  "check_ancestors env path absolute cs = Inl e \<Longrightarrow> \<exists>c \<in> set cs. \<exists>reason. ancestor_refusal env absolute c = Some reason \<and> e = module_refused path reason"
  by (induction cs) (auto split: option.splits)

theorem placement_refusals_are_about_the_place:
  assumes "check_directory env path absolute = Inl e"
  shows "is_placement_refusal e \<longleftrightarrow> (\<exists>n \<le> length absolute. \<exists>st reason. pe_stat env (take n absolute) = Some st \<and> ds_dir st
    \<and> ancestor_refusal env absolute (take n absolute) = Some reason \<and> e = module_refused path reason)"
proof -
  obtain c reason where "c \<in> set (ancestors absolute)" and c: "ancestor_refusal env absolute c = Some reason" "e = module_refused path reason"
    using check_ancestors_fails assms unfolding check_directory_def by blast
  then obtain n where n: "n \<le> length absolute" "c = take n absolute" by (auto simp: ancestors_take)
  show ?thesis
  proof
    assume "is_placement_refusal e"
    then show "\<exists>n \<le> length absolute. \<exists>st reason. pe_stat env (take n absolute) = Some st \<and> ds_dir st
        \<and> ancestor_refusal env absolute (take n absolute) = Some reason \<and> e = module_refused path reason"
      using ancestor_placement [OF c(1)] c n by blast
  next
    assume "\<exists>n \<le> length absolute. \<exists>st reason. pe_stat env (take n absolute) = Some st \<and> ds_dir st
        \<and> ancestor_refusal env absolute (take n absolute) = Some reason \<and> e = module_refused path reason"
    then show "is_placement_refusal e" using ancestor_placement by blast
  qed
qed

section \<open>The allowlist\<close>

section \<open>Examples\<close>

definition demo_passwd :: string where
  "demo_passwd = ''root:x:0:0::/root:/bin/sh'' @ [CHR 0x0A] @ ''ann:x:1000:1000::/home/ann:/bin/sh'' @ [CHR 0x0A]"

definition demo_group :: string where
  "demo_group = ''root:x:0:'' @ [CHR 0x0A] @ ''ann:x:1000:'' @ [CHR 0x0A]"

definition demo_accounts :: account_files where
  "demo_accounts = \<lparr> af_nsswitch = Content (''passwd: files'' @ [CHR 0x0A] @ ''group: files''), af_passwd = Content demo_passwd,
     af_group = Content demo_group, af_subgid = Missing, af_userdb_empty = (\<lambda>_. True) \<rparr>"

definition demo_stat :: "string list \<Rightarrow> dir_stat option" where
  "demo_stat p = (if length p < 2 then Some \<lparr> ds_dir = True, ds_owner = 0, ds_group = 0, ds_mode = 493 \<rparr>
     else Some \<lparr> ds_dir = True, ds_owner = 1000, ds_group = 1000, ds_mode = 509 \<rparr>)"

definition demo_env :: placement_env where
  "demo_env = \<lparr> pe_macos = False, pe_uid = 1000, pe_home = None, pe_stat = demo_stat, pe_acl = (\<lambda>_. False), pe_accounts = demo_accounts \<rparr>"

lemma demo_numbers: "parse_u32 ''0'' = Some 0" "parse_u32 ''1000'' = Some 1000"
  by (simp_all add: parse_u32_def parse_digits_def starts_with_def is_digit_iff digit_value_def)

lemma demo_lines:
  "text_lines demo_passwd = [''root:x:0:0::/root:/bin/sh'', ''ann:x:1000:1000::/home/ann:/bin/sh'']"
  "text_lines demo_group = [''root:x:0:'', ''ann:x:1000:'']"
  "split_on CHR '':'' ''root:x:0:0::/root:/bin/sh'' = [''root'', ''x'', ''0'', ''0'', [], ''/root'', ''/bin/sh'']"
  "split_on CHR '':'' ''ann:x:1000:1000::/home/ann:/bin/sh'' = [''ann'', ''x'', ''1000'', ''1000'', [], ''/home/ann'', ''/bin/sh'']"
  "split_on CHR '':'' ''root:x:0:'' = [''root'', ''x'', ''0'', []]" "split_on CHR '':'' ''ann:x:1000:'' = [''ann'', ''x'', ''1000'', []]"
  "\<not> comment_line ''root:x:0:0::/root:/bin/sh''" "\<not> comment_line ''ann:x:1000:1000::/home/ann:/bin/sh''"
  "\<not> comment_line ''root:x:0:''" "\<not> comment_line ''ann:x:1000:''"
  by code_simp+

lemma demo_private: "private_group_in demo_passwd demo_group 1000 = Some 1000"
  by (simp del: split_on.simps add: private_group_in_def demo_lines demo_numbers members_ok_def, simp)

lemma demo_gid: "current_user_private_gid demo_accounts 1000 = Some 1000"
proof -
  have "accounts_are_local (''passwd: files'' @ [CHR 0x0A] @ ''group: files'')"
    "\<not> contains_text (''passwd: files'' @ [CHR 0x0A] @ ''group: files'') ''systemd''"
    by code_simp+
  then show ?thesis by (simp del: contains_text.simps add: current_user_private_gid_def demo_accounts_def demo_private)
qed

lemma demo_accepted: "check_directory demo_env ''/home/ann'' [''home'', ''ann''] = Inr ()"
  by (simp add: check_directory_def ancestors_def ancestor_refusal_def demo_env_def demo_stat_def demo_gid needs_private_gid_def
      root_equivalent_group_def unix_directory_refusal_def)

lemma demo_cause: "module_refused ''/home/ann'' ''module directory is writable by another user at the directory itself mode 0775''
      = ModuleRefused ''ann'' ''module directory is writable by another user at the directory itself mode 0775''"
  by code_simp

lemma demo_digits: "octal_digit 0 = CHR ''0''" "octal_digit 7 = CHR ''7''" "octal_digit 63 = CHR ''7''" "octal_digit 509 = CHR ''5''"
  by code_simp+

lemma demo_ancestor: "ancestor_refusal (demo_env \<lparr> pe_acl := (\<lambda>_. True) \<rparr>) [''home'', ''ann''] [''home'', ''ann'']
    = Some ''module directory is writable by another user at the directory itself mode 0775''"
  by (simp add: ancestor_refusal_def demo_env_def demo_stat_def needs_private_gid_def root_equivalent_group_def unix_directory_refusal_def
      ancestor_label_def show_mode_def demo_digits Let_def)

lemma demo_refused: "check_directory (demo_env \<lparr> pe_acl := (\<lambda>_. True) \<rparr>) ''/home/ann'' [''home'', ''ann'']
    = Inl (ModuleRefused ''ann'' ''module directory is writable by another user at the directory itself mode 0775'')"
  unfolding check_directory_def ancestors_def by (simp add: demo_ancestor demo_cause)


theorem private_group_is_private_witness: "in_group demo_passwd demo_group 1000 1000"
proof -
  show ?thesis using private_group_is_private [OF demo_private] by blast
qed

theorem placement_refusals_are_about_the_place_witness:
  "is_placement_refusal (ModuleRefused ''ann'' ''module directory is writable by another user at the directory itself mode 0775'')"
proof -
  let ?env = "demo_env \<lparr> pe_acl := (\<lambda>_. True) \<rparr>"
  have st: "pe_stat ?env (take 2 [''home'', ''ann'']) = Some \<lparr> ds_dir = True, ds_owner = 1000, ds_group = 1000, ds_mode = 509 \<rparr>"
    by (simp add: demo_env_def demo_stat_def)
  note r = demo_ancestor demo_cause
  show ?thesis
    unfolding placement_refusals_are_about_the_place [OF demo_refused]
    by (rule exI [of _ 2]) (use st r in simp)
qed

definition demo_source :: string where
  "demo_source = ''[modules]'' @ [CHR 0x0A] @ ''libm = '' @ [CHR 0x22] @ replicate 64 (CHR ''A'') @ [CHR 0x22]"

definition demo_file :: candidate where
  "demo_file = \<lparr> cf_path = ''m/libm.so'', cf_has_parent = True, cf_name = ''libm.so'', cf_stem = ''libm'', cf_extension = Some ''so'',
     cf_open = True, cf_regular = True, cf_length = 1000,
     cf_allowlist = Content demo_source,
     cf_digest = Some (replicate 64 (CHR ''a'')) \<rparr>"

lemma demo_allowlist:
  "parse_allowlist demo_source
     = [(''libm'', replicate 64 (CHR ''a''))]" "is_hex_sha256 (replicate 64 (CHR ''a''))"
  by code_simp+

lemma demo_vouched: "allowlisted_hash demo_file = Inr (Some (replicate 64 (CHR ''a'')))"
  by (simp only: allowlisted_hash_def demo_file_def candidate.simps demo_allowlist file_text.case List.find.simps prod.case option.case if_False simp_thms if_True)


lemma demo_cause2: "module_refused ''m/libm.so'' ''artifact hash does not match the module allowlist''
    = ModuleRefused ''libm.so'' ''artifact hash does not match the module allowlist''"
  by code_simp

theorem content_refusals_are_final_witness:
  "\<not> is_placement_refusal (ModuleRefused ''libm.so'' ''artifact hash does not match the module allowlist'')"
proof -
  have "check_file False (demo_file \<lparr> cf_digest := Some [] \<rparr>)
      = Inl (ModuleRefused ''libm.so'' ''artifact hash does not match the module allowlist'')" 
    by (simp add: check_file_def check_allowlist_def allowlisted_hash_def demo_file_def demo_allowlist has_library_extension_def demo_cause2 del: replicate.simps replicate_Suc)
  then show ?thesis by (rule content_refusals_are_final)
qed

end
