(* ===== verification/ModuleDelivery.thy ===== *)
theory ModuleDelivery
  imports ModuleTransportProps Codec
begin

text \<open>
  Messages between the broker and a module (\<open>module/transport.rs\<close>): sending, with the queue of calls that
  wait for readiness and the task that drains it, and receiving.

  As for the transport itself a definition is one critical section, and the answers of the module's callback and
  of timeouts are events. The bytes in the inbound queue are the message they decode to, if they do. Serialising a
  message is a parameter that gives its length, or the error.
\<close>

record pre_ready_route =
  rt_path :: object_path
  rt_interface :: interface_name
  rt_member :: member_name

record delivery_env =
  de_label :: string
  de_peer :: "bus_name option"
  de_routes :: "pre_ready_route list"
  de_frame :: "message \<Rightarrow> nat result"

definition is_call :: "message \<Rightarrow> bool" where
  "is_call msg \<longleftrightarrow> h_kind (m_header msg) = MethodCall"

section \<open>Waiting for the initializer\<close>

definition init_gate :: "transport \<Rightarrow> unit result option" where
  "init_gate t =
     (if tr_faulted t \<or> tr_closed t then Some (Inl ConnectionClosed)
      else
        (case tr_gate t of
           Some True \<Rightarrow> Some (Inr ())
         | Some False \<Rightarrow> Some (Inl (Transport ''module callback admission failed''))
         | None \<Rightarrow> None))"

definition init_answer :: "transport \<Rightarrow> unit result option" where
  "init_answer t =
     (case ph_result (tr_physical t) of
        None \<Rightarrow> None
      | Some (Inr _) \<Rightarrow> Some (if tr_closed t \<or> tr_faulted t then Inl ConnectionClosed else Inr ())
      | Some (Inl InitClosed) \<Rightarrow> Some (Inl ConnectionClosed)
      | Some (Inl (InitFailed reason)) \<Rightarrow> Some (Inl (Transport reason)))"

section \<open>One delivery\<close>

datatype deliver_place = DeliverCheck | DeliverEnter | InModule | DeliverParked

datatype deliver_next = DeliverAt deliver_place | Delivered "unit result"

definition deliver_check :: "delivery_env \<Rightarrow> message \<Rightarrow> transport \<Rightarrow> deliver_next" where
  "deliver_check env msg t =
     (if tr_faulted t \<or> tr_closed t then Delivered (Inl ConnectionClosed)
      else
        (case de_frame env msg of
           Inl e \<Rightarrow> Delivered (Inl e)
         | Inr n \<Rightarrow> if n > MAX_FRAME_LEN then Delivered (Inl (Protocol ''module frame exceeds the size cap'')) else DeliverAt DeliverEnter))"

text \<open>The turn of the loop up to the callback. \<open>peer\<close> is the controller a call may enter for before readiness.\<close>

definition deliver_enter :: "delivery_env \<Rightarrow> bus_name option \<Rightarrow> bool \<Rightarrow> transport \<Rightarrow> deliver_next \<times> transport" where
  "deliver_enter env peer live t =
     (if tr_faulted t \<or> tr_closed t \<or> tr_module t = None \<or> tr_cb_closed t then (Delivered (Inl ConnectionClosed), t)
      else if (case peer of None \<Rightarrow> False | Some p \<Rightarrow> de_peer env \<noteq> Some p \<or> \<not> live) then (Delivered (Inl ConnectionClosed), t)
      else (DeliverAt InModule, did_native EnterDeliver (t \<lparr> tr_cb_active := Suc (tr_cb_active t) \<rparr>)))"

definition deliver_returned :: "int \<Rightarrow> transport \<Rightarrow> deliver_next \<times> transport" where
  "deliver_returned code t =
     (let t1 = did_native LeaveDeliver (t \<lparr> tr_cb_active := tr_cb_active t - 1 \<rparr>) in
      (if code = TB_OK then Delivered (Inr ())
       else if code = TB_BACKPRESSURE then (if tr_closed t1 then Delivered (Inl ConnectionClosed) else DeliverAt DeliverParked)
       else if code = TB_CLOSED then Delivered (Inl ConnectionClosed)
       else if code = TB_BAD_ARGUMENT then Delivered (Inl (Protocol ''module refused a valid frame''))
       else Delivered (Inl (Transport ''module delivery callback failed'')), t1))"

text \<open>Back pressure ends with a wake of the module, or with its deadline, which faults the module.\<close>

definition deliver_unparked :: "bool \<Rightarrow> transport \<Rightarrow> deliver_next \<times> transport" where
  "deliver_unparked woken t =
     (if woken then (DeliverAt DeliverEnter, t)
      else if tr_closed t then (Delivered (Inl ConnectionClosed), t)
      else (Delivered (Inl (Transport ''module stopped draining its queue within the deadline'')),
            (request_terminal True (publish_terminal_flags True t)) \<lparr> tr_sender := False \<rparr>))"

section \<open>Sending\<close>

definition authorized_pre_ready_peer :: "delivery_env \<Rightarrow> message \<Rightarrow> bool \<Rightarrow> transport \<Rightarrow> bus_name option" where
  "authorized_pre_ready_peer env msg live t =
     (let h = m_header msg in
      if \<not> is_call msg \<or> \<not> h_confidential h then None
      else if tr_ready t \<or> \<not> tr_init_started t \<or> tr_closed t \<or> tr_faulted t \<or> tr_init_failed t \<or> tr_stopped t \<or> \<not> tr_routing t
          \<or> tr_flags t \<noteq> TERMINAL_LIVE then None
      else
        (case de_peer env of
           None \<Rightarrow> None
         | Some peer \<Rightarrow>
             if h_sender h \<noteq> Some peer \<or> \<not> live then None
             else if list_ex (\<lambda>r. h_path h = Some (rt_path r) \<and> h_interface h = Some (rt_interface r) \<and> h_member h = Some (rt_member r))
                 (de_routes env) then Some peer
             else None))"

definition unavailable_reply :: "delivery_env \<Rightarrow> string \<Rightarrow> string \<Rightarrow> message \<Rightarrow> message" where
  "unavailable_reply env state detail msg = error_reply (m_header msg) (ModuleUnavailable (de_label env) state detail)"

text \<open>\<open>try_send\<close> into the inbound queue.\<close>

definition queue_reply :: "delivery_env \<Rightarrow> message \<Rightarrow> message option list \<Rightarrow> message option list" where
  "queue_reply env reply queue =
     (case de_frame env reply of
        Inl _ \<Rightarrow> queue
      | Inr _ \<Rightarrow> if length queue < HOST_QUEUE_CAPACITY then queue @ [Some reply] else queue)"

text \<open>The initializer failed: fault the module; a call is answered, anything else fails.\<close>

definition send_uninitialized :: "delivery_env \<Rightarrow> message \<Rightarrow> error \<Rightarrow> transport \<Rightarrow> unit result \<times> transport" where
  "send_uninitialized env msg e t =
     (if tr_closed t \<and> e = ConnectionClosed then (Inl ConnectionClosed, t)
      else
        (let t1 = publish_terminal_flags True (t \<lparr> tr_init_failed := True \<rparr>) in
         if is_call msg then
           (let t2 = (if tr_sender t1
                then t1 \<lparr> tr_sender := False,
                    tr_queue := queue_reply env (unavailable_reply env ''failed'' ''module initialization failed'' msg) (tr_queue t1) \<rparr>
                else t1) in
            (Inr (), request_terminal True t2))
         else (Inl ConnectionClosed, request_terminal True t1)))"

text \<open>The section under the lock of the waiting calls.\<close>

datatype enqueued = EnqueueRefused | Enqueued bool | EnqueueDeliver

definition send_enqueue :: "message \<Rightarrow> bus_name option \<Rightarrow> transport \<Rightarrow> enqueued \<times> transport" where
  "send_enqueue msg peer t =
     (if tr_closed t then (EnqueueRefused, t)
      else
        (let t1 = (if is_call msg then t \<lparr> tr_inflight := u64_add (tr_inflight t) 1 \<rparr> else t) in
         if is_call msg \<and> \<not> is_ready t1 \<and> peer = None then
           (Enqueued (\<not> tr_drain_started t1), t1 \<lparr> tr_pending := tr_pending t1 @ [msg], tr_drain_started := True \<rparr>)
         else (EnqueueDeliver, t1)))"

text \<open>\<open>fetch_sub\<close> wraps around.\<close>

definition send_refund :: "message \<Rightarrow> unit result \<Rightarrow> transport \<Rightarrow> transport" where
  "send_refund msg out t =
     (if is_call msg \<and> out \<noteq> Inr () then t \<lparr> tr_inflight := (tr_inflight t + (2 ^ 64 - 1)) mod 2 ^ 64 \<rparr> else t)"

section \<open>Draining the waiting calls\<close>

datatype drain_next = DrainDeliver message | DrainEnds | DrainAgain

definition wait_ready :: "transport \<Rightarrow> bool" where
  "wait_ready t \<longleftrightarrow> tr_ready t \<or> tr_faulted t \<or> tr_closed t"

text \<open>A turn of the loop: take a call, or end. The empty queue is seen under its lock, where the flag is cleared.\<close>

definition drain_take :: "transport \<Rightarrow> drain_next \<times> transport" where
  "drain_take t =
     (if tr_faulted t \<or> tr_closed t then (DrainEnds, t \<lparr> tr_drain_started := False \<rparr>)
      else
        (case tr_pending t of
           msg # rest \<Rightarrow> (DrainDeliver msg, t \<lparr> tr_pending := rest \<rparr>)
         | [] \<Rightarrow> (DrainAgain, t)))"

definition drain_empty :: "transport \<Rightarrow> drain_next \<times> transport" where
  "drain_empty t =
     (if tr_faulted t \<or> tr_closed t then (DrainEnds, t \<lparr> tr_drain_started := False \<rparr>)
      else if tr_pending t = [] then (DrainEnds, t \<lparr> tr_drain_started := False \<rparr>)
      else (DrainAgain, t))"

definition fault_pending_take :: "error \<Rightarrow> transport \<Rightarrow> message list option \<times> transport" where
  "fault_pending_take e t =
     (if tr_closed t \<and> e = ConnectionClosed then (None, t \<lparr> tr_pending := [] \<rparr>)
      else (Some (tr_pending t), (publish_terminal_flags True t) \<lparr> tr_pending := [] \<rparr>))"

definition fault_pending_reply :: "delivery_env \<Rightarrow> message list \<Rightarrow> message \<Rightarrow> transport \<Rightarrow> transport" where
  "fault_pending_reply env cleared msg t =
     (let answer = (\<lambda>m. queue_reply env (unavailable_reply env ''faulted'' ''module stopped accepting calls'' m));
          t1 = (if tr_sender t then t \<lparr> tr_queue := fold answer (filter is_call (cleared @ [msg])) (tr_queue t) \<rparr> else t) in
      (request_terminal True t1) \<lparr> tr_sender := False \<rparr>)"

section \<open>Receiving\<close>

definition host_send :: "nat \<Rightarrow> message option \<Rightarrow> transport \<Rightarrow> (int \<times> transport) option" where
  "host_send len bytes t =
     (if len > MAX_FRAME_LEN then Some (TB_BAD_ARGUMENT, t)
      else if \<not> tr_sender t then Some (TB_CLOSED, t)
      else if length (tr_queue t) < HOST_QUEUE_CAPACITY then Some (TB_OK, t \<lparr> tr_queue := tr_queue t @ [bytes] \<rparr>)
      else None)"

definition is_answer :: "message \<Rightarrow> bool" where
  "is_answer msg \<longleftrightarrow> h_kind (m_header msg) = MethodReturn \<or> h_kind (m_header msg) = ErrorKind"

text \<open>\<open>recv\<close>; no result while the queue is empty and a sender is left. A reply gives back a place, not below zero.\<close>

definition module_recv :: "transport \<Rightarrow> (message option result \<times> transport) option" where
  "module_recv t =
     (case tr_queue t of
        [] \<Rightarrow> if tr_sender t then None else Some (Inr None, t)
      | None # rest \<Rightarrow> Some (Inl (Json ''invalid message''), t \<lparr> tr_queue := rest \<rparr>)
      | Some msg # rest \<Rightarrow>
          Some (Inr (Some msg), t \<lparr> tr_queue := rest, tr_inflight := (if is_answer msg then tr_inflight t - 1 else tr_inflight t) \<rparr>))"

end
