(* ===== verification/ModuleDeliverySpec.thy ===== *)
theory ModuleDeliverySpec
  imports ModuleDelivery
begin

text \<open>
  The tasks that move messages of one module transport, interleaved with all its other steps: any number of
  \<open>send\<close> calls and at most one task that drains the calls which wait for readiness.

  The \<open>dl_\<close> logs are ghosts: the calls that were queued, those the drainer took, and what each entry into the
  module's callback was for.
\<close>

datatype send_place =
    SendGate message | SendAwait message bool | SendFailed message error | SendCheck message
  | SendEnqueue message "bus_name option" | SendDelivers message "bus_name option" deliver_place

datatype drain_place =
    DrainNone | DrainWait | DrainLoop | DrainEmpty | DrainDelivers message deliver_place
  | DrainFailed message error | DrainReplies "message list" message | DrainCloses

record entry =
  en_message :: message
  en_ready :: bool
  en_peer :: "bus_name option"
  en_live :: bool

record delivery =
  dl_transport :: transport
  dl_sends :: "(nat, send_place) hashmap"
  dl_drain :: drain_place
  dl_queued :: "message list"
  dl_taken :: "message list"
  dl_entered :: "entry list"

datatype delivery_event =
    Inner transport_event | SendBegins nat message | SendPassesGate nat | SendInitialized nat | SendTimesOut nat | SendDropped nat
  | SendFails nat | SendChecks nat bool | SendEnqueues nat | SendDeliverChecks nat | SendEnters nat bool | SendReturns nat int | SendUnparked nat bool
  | DrainWakes | DrainTakes | DrainSeesEmpty | DrainChecks | DrainEnters bool | DrainReturns int | DrainUnparked bool
  | DrainFails | DrainAnswers | DrainClears
  | ModuleSends nat "message option" | Receives

definition inner_event :: "transport_event \<Rightarrow> bool" where
  "inner_event ev \<longleftrightarrow> (case ev of Messaging _ _ _ _ _ _ \<Rightarrow> False | DeliverEnters \<Rightarrow> False | DeliverLeaves \<Rightarrow> False | _ \<Rightarrow> True)"

definition on_transport :: "(transport \<Rightarrow> transport) \<Rightarrow> delivery \<Rightarrow> delivery" where
  "on_transport f d = d \<lparr> dl_transport := f (dl_transport d) \<rparr>"

definition put_send :: "nat \<Rightarrow> send_place \<Rightarrow> delivery \<Rightarrow> delivery" where
  "put_send n p d = d \<lparr> dl_sends := hput n p (dl_sends d) \<rparr>"

definition end_send :: "nat \<Rightarrow> delivery \<Rightarrow> delivery" where
  "end_send n d = d \<lparr> dl_sends := hdel n (dl_sends d) \<rparr>"

text \<open>Where a send goes after a step of its delivery; an error of a call gives its place back.\<close>

definition send_next :: "nat \<Rightarrow> message \<Rightarrow> bus_name option \<Rightarrow> deliver_next \<times> transport \<Rightarrow> delivery \<Rightarrow> delivery" where
  "send_next n msg peer r d =
     (case r of
        (DeliverAt p, t) \<Rightarrow> put_send n (SendDelivers msg peer p) (d \<lparr> dl_transport := t \<rparr>)
      | (Delivered out, t) \<Rightarrow> end_send n (d \<lparr> dl_transport := send_refund msg out t \<rparr>))"

definition drain_next_of :: "message \<Rightarrow> deliver_next \<times> transport \<Rightarrow> delivery \<Rightarrow> delivery" where
  "drain_next_of msg r d =
     (case r of
        (DeliverAt p, t) \<Rightarrow> d \<lparr> dl_transport := t, dl_drain := DrainDelivers msg p \<rparr>
      | (Delivered (Inr _), t) \<Rightarrow> d \<lparr> dl_transport := t, dl_drain := DrainLoop \<rparr>
      | (Delivered (Inl e), t) \<Rightarrow> d \<lparr> dl_transport := t, dl_drain := DrainFailed msg e \<rparr>)"

definition note_entry :: "message \<Rightarrow> bus_name option \<Rightarrow> bool \<Rightarrow> deliver_next \<times> transport \<Rightarrow> delivery \<Rightarrow> delivery" where
  "note_entry msg peer live r d =
     (if fst r = DeliverAt InModule
      then d \<lparr> dl_entered := dl_entered d @ [\<lparr> en_message = msg, en_ready = tr_ready (dl_transport d), en_peer = peer, en_live = live \<rparr>] \<rparr>
      else d)"

definition send_gate :: "nat \<Rightarrow> message \<Rightarrow> delivery \<Rightarrow> delivery option" where
  "send_gate n msg d =
     (case init_gate (dl_transport d) of
        None \<Rightarrow> None
      | Some (Inl e) \<Rightarrow> Some (put_send n (SendFailed msg e) d)
      | Some (Inr _) \<Rightarrow>
          Some (case schedule_initializer (dl_transport d) of
              (Inl e, t) \<Rightarrow> put_send n (SendFailed msg e) (d \<lparr> dl_transport := t \<rparr>)
            | (Inr initiating, t) \<Rightarrow> put_send n (SendAwait msg initiating) (d \<lparr> dl_transport := t \<rparr>)))"

definition send_initialized :: "nat \<Rightarrow> message \<Rightarrow> delivery \<Rightarrow> delivery option" where
  "send_initialized n msg d =
     (case init_answer (dl_transport d) of
        None \<Rightarrow> None
      | Some (Inl e) \<Rightarrow> Some (put_send n (SendFailed msg e) d)
      | Some (Inr _) \<Rightarrow> Some (put_send n (SendCheck msg) d))"

text \<open>The guard of a waiting initiator: on a timeout and when the call is dropped.\<close>

definition initiator_leaves :: "bool \<Rightarrow> delivery \<Rightarrow> delivery" where
  "initiator_leaves initiating d = on_transport (\<lambda>t. if initiating then abandon_initialization t else t) d"

definition send_checked :: "delivery_env \<Rightarrow> nat \<Rightarrow> message \<Rightarrow> bool \<Rightarrow> delivery \<Rightarrow> delivery" where
  "send_checked env n msg live d =
     (let t = dl_transport d; peer = authorized_pre_ready_peer env msg live t in
      put_send n (SendEnqueue msg (if is_ready t then None else peer)) d)"

definition send_enqueued :: "nat \<Rightarrow> message \<Rightarrow> bus_name option \<Rightarrow> delivery \<Rightarrow> delivery" where
  "send_enqueued n msg peer d =
     (case send_enqueue msg peer (dl_transport d) of
        (EnqueueRefused, t) \<Rightarrow> end_send n (d \<lparr> dl_transport := t \<rparr>)
      | (Enqueued spawn, t) \<Rightarrow>
          end_send n (d \<lparr> dl_transport := t, dl_queued := dl_queued d @ [msg], dl_drain := (if spawn then DrainWait else dl_drain d) \<rparr>)
      | (EnqueueDeliver, t) \<Rightarrow> put_send n (SendDelivers msg peer DeliverCheck) (d \<lparr> dl_transport := t \<rparr>))"

text \<open>The turns of a delivery.\<close>

definition deliver_event :: "delivery_env \<Rightarrow> message \<Rightarrow> bus_name option \<Rightarrow> delivery_event \<Rightarrow> deliver_place \<Rightarrow> transport \<Rightarrow> (deliver_next \<times> transport) option" where
  "deliver_event env msg peer ev p t =
     (case p of
        DeliverCheck \<Rightarrow> (case ev of SendDeliverChecks _ \<Rightarrow> Some (deliver_check env msg t, t) | DrainChecks \<Rightarrow> Some (deliver_check env msg t, t) | _ \<Rightarrow> None)
      | DeliverEnter \<Rightarrow> (case ev of SendEnters _ live \<Rightarrow> Some (deliver_enter env peer live t) | DrainEnters live \<Rightarrow> Some (deliver_enter env peer live t) | _ \<Rightarrow> None)
      | InModule \<Rightarrow> (case ev of SendReturns _ code \<Rightarrow> Some (deliver_returned code t) | DrainReturns code \<Rightarrow> Some (deliver_returned code t) | _ \<Rightarrow> None)
      | DeliverParked \<Rightarrow> (case ev of SendUnparked _ woken \<Rightarrow> Some (deliver_unparked woken t) | DrainUnparked woken \<Rightarrow> Some (deliver_unparked woken t) | _ \<Rightarrow> None))"

definition live_of :: "delivery_event \<Rightarrow> bool" where
  "live_of ev = (case ev of SendEnters _ live \<Rightarrow> live | DrainEnters live \<Rightarrow> live | _ \<Rightarrow> False)"

definition send_step :: "delivery_env \<Rightarrow> nat \<Rightarrow> delivery_event \<Rightarrow> send_place \<Rightarrow> delivery \<Rightarrow> delivery option" where
  "send_step env n ev p d =
     (case p of
        SendGate msg \<Rightarrow>
          (case ev of SendPassesGate _ \<Rightarrow> send_gate n msg d | SendDropped _ \<Rightarrow> Some (end_send n d) | _ \<Rightarrow> None)
      | SendAwait msg initiating \<Rightarrow>
          (case ev of
             SendInitialized _ \<Rightarrow> send_initialized n msg d
           | SendTimesOut _ \<Rightarrow>
               Some (put_send n (SendFailed msg (Transport ''module initialization exceeded its deadline'')) (initiator_leaves initiating d))
           | SendDropped _ \<Rightarrow> Some (end_send n (initiator_leaves initiating d))
           | _ \<Rightarrow> None)
      | SendFailed msg e \<Rightarrow>
          (case ev of SendFails _ \<Rightarrow> Some (end_send n (on_transport (\<lambda>t. snd (send_uninitialized env msg e t)) d)) | _ \<Rightarrow> None)
      | SendCheck msg \<Rightarrow> (case ev of SendChecks _ live \<Rightarrow> Some (send_checked env n msg live d) | _ \<Rightarrow> None)
      | SendEnqueue msg peer \<Rightarrow> (case ev of SendEnqueues _ \<Rightarrow> Some (send_enqueued n msg peer d) | _ \<Rightarrow> None)
      | SendDelivers msg peer place \<Rightarrow>
          (if ev = SendDropped n \<and> place = DeliverParked then Some (end_send n d)
           else map_option (\<lambda>r. send_next n msg peer r (note_entry msg peer (live_of ev) r d))
             (deliver_event env msg peer ev place (dl_transport d))))"

definition drain_taken :: "delivery \<Rightarrow> delivery" where
  "drain_taken d =
     (case drain_take (dl_transport d) of
        (DrainDeliver msg, t) \<Rightarrow> d \<lparr> dl_transport := t, dl_drain := DrainDelivers msg DeliverCheck, dl_taken := dl_taken d @ [msg] \<rparr>
      | (DrainEnds, t) \<Rightarrow> d \<lparr> dl_transport := t, dl_drain := DrainNone \<rparr>
      | (DrainAgain, t) \<Rightarrow> d \<lparr> dl_transport := t, dl_drain := DrainEmpty \<rparr>)"

definition drain_saw_empty :: "delivery \<Rightarrow> delivery" where
  "drain_saw_empty d =
     (case drain_empty (dl_transport d) of
        (DrainEnds, t) \<Rightarrow> d \<lparr> dl_transport := t, dl_drain := DrainNone \<rparr>
      | (_, t) \<Rightarrow> d \<lparr> dl_transport := t, dl_drain := DrainLoop \<rparr>)"

definition drain_failed :: "message \<Rightarrow> error \<Rightarrow> delivery \<Rightarrow> delivery" where
  "drain_failed msg e d =
     (case fault_pending_take e (dl_transport d) of
        (None, t) \<Rightarrow> d \<lparr> dl_transport := t, dl_drain := DrainCloses \<rparr>
      | (Some cleared, t) \<Rightarrow> d \<lparr> dl_transport := t, dl_drain := DrainReplies cleared msg \<rparr>)"

definition drain_step :: "delivery_env \<Rightarrow> delivery_event \<Rightarrow> drain_place \<Rightarrow> delivery \<Rightarrow> delivery option" where
  "drain_step env ev p d =
     (case p of
        DrainNone \<Rightarrow> None
      | DrainWait \<Rightarrow> (if ev = DrainWakes \<and> wait_ready (dl_transport d) then Some (d \<lparr> dl_drain := DrainLoop \<rparr>) else None)
      | DrainLoop \<Rightarrow> (if ev = DrainTakes then Some (drain_taken d) else None)
      | DrainEmpty \<Rightarrow> (if ev = DrainSeesEmpty then Some (drain_saw_empty d) else None)
      | DrainDelivers msg place \<Rightarrow>
          map_option (\<lambda>r. drain_next_of msg r (note_entry msg None (live_of ev) r d)) (deliver_event env msg None ev place (dl_transport d))
      | DrainFailed msg e \<Rightarrow> (if ev = DrainFails then Some (drain_failed msg e d) else None)
      | DrainReplies cleared msg \<Rightarrow>
          (if ev = DrainAnswers
           then Some (d \<lparr> dl_transport := fault_pending_reply env cleared msg (dl_transport d), dl_drain := DrainCloses \<rparr>) else None)
      | DrainCloses \<Rightarrow>
          (if ev = DrainClears then Some (on_transport (\<lambda>t. t \<lparr> tr_drain_started := False \<rparr>) (d \<lparr> dl_drain := DrainNone \<rparr>)) else None))"

text \<open>The send an event is about.\<close>

definition send_of :: "delivery_event \<Rightarrow> nat option" where
  "send_of ev = (case ev of
      SendPassesGate n \<Rightarrow> Some n | SendInitialized n \<Rightarrow> Some n | SendTimesOut n \<Rightarrow> Some n | SendDropped n \<Rightarrow> Some n
    | SendFails n \<Rightarrow> Some n | SendChecks n _ \<Rightarrow> Some n | SendEnqueues n \<Rightarrow> Some n | SendDeliverChecks n \<Rightarrow> Some n
    | SendEnters n _ \<Rightarrow> Some n | SendReturns n _ \<Rightarrow> Some n | SendUnparked n _ \<Rightarrow> Some n | _ \<Rightarrow> None)"

definition delivery_step :: "delivery_env \<Rightarrow> delivery_event \<Rightarrow> delivery \<Rightarrow> delivery option" where
  "delivery_step env ev d =
     (case ev of
        Inner tev \<Rightarrow> if inner_event tev then map_option (\<lambda>t. d \<lparr> dl_transport := t \<rparr>) (transport_step tev (dl_transport d)) else None
      | SendBegins n msg \<Rightarrow>
          if hget (dl_sends d) n \<noteq> None then None
          else Some (if tr_closed (dl_transport d) then d else put_send n (SendGate msg) d)
      | ModuleSends len bytes \<Rightarrow> map_option (\<lambda>(_, t). d \<lparr> dl_transport := t \<rparr>) (host_send len bytes (dl_transport d))
      | Receives \<Rightarrow> map_option (\<lambda>(_, t). d \<lparr> dl_transport := t \<rparr>) (module_recv (dl_transport d))
      | _ \<Rightarrow>
          (case send_of ev of
             Some n \<Rightarrow> (case hget (dl_sends d) n of Some p \<Rightarrow> send_step env n ev p d | None \<Rightarrow> None)
           | None \<Rightarrow> drain_step env ev (dl_drain d) d))"

definition delivery_start :: "transport \<Rightarrow> delivery" where
  "delivery_start t =
     \<lparr> dl_transport = t, dl_sends = [], dl_drain = DrainNone, dl_queued = [], dl_taken = [], dl_entered = [] \<rparr>"

inductive delivery_reach :: "delivery_env \<Rightarrow> delivery \<Rightarrow> bool" for env where
  eager: "delivery_reach env (delivery_start (transport_new config))"
| deferred: "delivery_reach env (delivery_start (defer_initializer (transport_new config)))"
| step: "delivery_reach env d \<Longrightarrow> delivery_step env ev d = Some d' \<Longrightarrow> delivery_reach env d'"

fun delivery_run :: "delivery_env \<Rightarrow> delivery_event list \<Rightarrow> delivery \<Rightarrow> delivery option" where
  "delivery_run env [] d = Some d"
| "delivery_run env (ev # evs) d = (case delivery_step env ev d of Some d' \<Rightarrow> delivery_run env evs d' | None \<Rightarrow> None)"

end
