(* ===== verification/ModuleDeliveryProps.thy ===== *)
theory ModuleDeliveryProps
  imports ModuleDeliverySpec
begin

text \<open>
  What the delivery of messages promises. Every run of it is a run of the transport, so the promises of the
  transport hold of it; a call enters the module only when it is ready or by an authorized route; and a call that
  waits for readiness is taken in its order by a task that is running.
\<close>

section \<open>A run of the deliveries is a run of the transport\<close>

definition runs :: "transport \<Rightarrow> transport \<Rightarrow> bool" where
  "runs t t' \<longleftrightarrow> (\<exists>evs. transport_run evs t = Some t')"

lemma transport_run_append:
  "transport_run (evs @ evs') t = (case transport_run evs t of Some t' \<Rightarrow> transport_run evs' t' | None \<Rightarrow> None)"
  by (induction evs arbitrary: t) (auto split: option.splits)

lemma runs_refl: "runs t t"
  unfolding runs_def by (rule exI [of _ "[]"]) simp

lemma runs_step: "runs t u \<Longrightarrow> transport_step ev u = Some v \<Longrightarrow> runs t v"
  unfolding runs_def using transport_run_append by (metis (no_types, lifting) option.simps(5) transport_run.simps)

definition messaging :: "transport \<Rightarrow> transport \<Rightarrow> bool" where
  "messaging t t' \<longleftrightarrow> (\<exists>p d s q i r. t' = t \<lparr> tr_pending := p, tr_drain_started := d, tr_sender := s, tr_queue := q,
     tr_inflight := i, tr_init_failed := r \<rparr>)"

lemma runs_messaging: "runs t u \<Longrightarrow> messaging u v \<Longrightarrow> runs t v"
  by (auto simp: messaging_def intro: runs_step [where ev = "Messaging _ _ _ _ _ _"])

lemma messagingI:
  assumes "t' = t \<lparr> tr_pending := tr_pending t', tr_drain_started := tr_drain_started t', tr_sender := tr_sender t', tr_queue := tr_queue t',
     tr_inflight := tr_inflight t', tr_init_failed := tr_init_failed t' \<rparr>"
  shows "messaging t t'"
  using assms unfolding messaging_def by blast

lemma messaging_fields:
  "messaging t t" "messaging t (t \<lparr> tr_pending := p \<rparr>)" "messaging t (t \<lparr> tr_drain_started := b \<rparr>)" "messaging t (t \<lparr> tr_sender := b \<rparr>)"
  "messaging t (t \<lparr> tr_queue := q \<rparr>)" "messaging t (t \<lparr> tr_inflight := i \<rparr>)" "messaging t (t \<lparr> tr_init_failed := b \<rparr>)"
  "messaging t (t \<lparr> tr_pending := p, tr_drain_started := b \<rparr>)" "messaging t (t \<lparr> tr_queue := q, tr_inflight := i \<rparr>)"
  "messaging t (t \<lparr> tr_sender := b, tr_queue := q \<rparr>)" "messaging t (t \<lparr> tr_inflight := i, tr_pending := p, tr_drain_started := b \<rparr>)"
  by (rule messagingI; simp)+

lemma runs_fields: "runs t u \<Longrightarrow> runs t (u \<lparr> tr_pending := p \<rparr>)" "runs t u \<Longrightarrow> runs t (u \<lparr> tr_drain_started := b \<rparr>)"
  "runs t u \<Longrightarrow> runs t (u \<lparr> tr_sender := b \<rparr>)" "runs t u \<Longrightarrow> runs t (u \<lparr> tr_queue := q \<rparr>)" "runs t u \<Longrightarrow> runs t (u \<lparr> tr_inflight := i \<rparr>)"
  "runs t u \<Longrightarrow> runs t (u \<lparr> tr_init_failed := b \<rparr>)"
  by (erule runs_messaging, rule messaging_fields)+

lemma runs_flags: "runs t u \<Longrightarrow> runs t (publish_terminal_flags f u)"
  by (erule runs_step [where ev = "PublishFlags f"]) simp

lemma runs_terminal: "runs t u \<Longrightarrow> runs t (request_terminal f u)"
  unfolding request_terminal_def commit_terminal_def
  by (rule runs_step [where ev = "RequestCleanup f"], rule runs_step [where ev = CloseAdmission], erule runs_flags) simp_all

lemma runs_abandon: "runs t u \<Longrightarrow> runs t (abandon_initialization u)"
proof -
  assume u: "runs t u"
  have s: "runs t (snd (abandon_section u))" by (rule runs_step [OF u, of Abandon]) simp
  show ?thesis
  proof (cases "abandon_section u")
    case (Pair b t')
    then show ?thesis using s runs_terminal [of t t' True] by (cases b) (simp_all add: abandon_initialization_def)
  qed
qed

lemma runs_schedule: "runs t u \<Longrightarrow> runs t (snd (schedule_initializer u))"
  by (erule runs_step [where ev = Schedule]) simp

lemmas runs_ops = runs_refl runs_fields runs_flags runs_terminal runs_abandon runs_schedule

lemma runs_uninitialized: "runs t (snd (send_uninitialized env msg e t))"
  by (auto simp: send_uninitialized_def Let_def intro!: runs_ops)

lemma runs_enqueue: "runs t (snd (send_enqueue msg peer t))"
  by (auto simp: send_enqueue_def Let_def intro!: runs_ops)

lemma runs_refund: "runs t u \<Longrightarrow> runs t (send_refund msg out u)"
  by (auto simp: send_refund_def intro!: runs_ops)

lemma runs_enter: "runs t (snd (deliver_enter env peer live t))"
proof (cases "snd (deliver_enter env peer live t) = t")
  case False
  then have "\<not> tr_faulted t \<and> \<not> tr_closed t \<and> tr_module t \<noteq> None \<and> \<not> tr_cb_closed t"
    by (auto simp: deliver_enter_def split: if_splits)
  moreover from False have "snd (deliver_enter env peer live t) = did_native EnterDeliver (t \<lparr> tr_cb_active := Suc (tr_cb_active t) \<rparr>)"
    by (auto simp: deliver_enter_def split: if_splits option.splits)
  ultimately show ?thesis by (intro runs_step [OF runs_refl, of DeliverEnters]) (simp add: if_able_def)
qed (simp add: runs_refl)

lemma runs_returned: "tr_cb_active t \<noteq> 0 \<Longrightarrow> runs t (snd (deliver_returned code t))"
  by (rule runs_step [OF runs_refl, of DeliverLeaves]) (simp add: if_able_def deliver_returned_def Let_def)

lemma runs_unparked: "runs t (snd (deliver_unparked woken t))"
  by (auto simp: deliver_unparked_def intro!: runs_ops)

lemma runs_drain: "runs t (snd (drain_take t))" "runs t (snd (drain_empty t))" "runs t (snd (fault_pending_take e t))"
  "runs t (fault_pending_reply env cleared msg t)"
  by (auto simp: drain_take_def drain_empty_def fault_pending_take_def fault_pending_reply_def Let_def intro!: runs_ops split: list.splits)

lemma runs_recv: "host_send len bytes t = Some (c, u) \<Longrightarrow> runs t u" "module_recv t = Some (r, v) \<Longrightarrow> runs t v"
  by (auto simp: host_send_def module_recv_def intro!: runs_ops split: if_splits list.splits option.splits)
section \<open>What the other steps of the transport leave alone\<close>

definition framed :: "transport \<Rightarrow> transport \<Rightarrow> bool" where
  "framed t t' \<longleftrightarrow> tr_cb_active t' = tr_cb_active t \<and> tr_drain_started t' = tr_drain_started t
     \<and> (tr_pending t' = tr_pending t \<or> tr_closed t') \<and> (tr_closed t \<longrightarrow> tr_closed t')"

lemma framed_trans: "framed t u \<Longrightarrow> framed u v \<Longrightarrow> framed t v"
  by (auto simp: framed_def)

lemma framed_refl: "framed t t"
  by (simp add: framed_def)

lemma framed_ops:
  "framed t (publish_terminal_flags f t)" "framed t (fault_flags t)" "framed t (host_ready t)" "framed t (close_admission t)"
  "framed t (commit_terminal f t)" "framed t (set_physical p t)" "framed t (new_job i g f t)" "framed t (cancel_before_entry t)"
  "framed t (goto j place t)" "framed t (set_job j h t)" "framed t (unlock t)" "framed t (did_native n t)"
  by (auto simp: framed_def fault_flags_def host_ready_def new_job_def transport_fields split: option.splits)

lemma framed_updates: "framed t u \<Longrightarrow> framed t (set_physical p u)" "framed t u \<Longrightarrow> framed t (goto j place u)" "framed t u \<Longrightarrow> framed t (set_job j h u)"
  "framed t u \<Longrightarrow> framed t (unlock u)" "framed t u \<Longrightarrow> framed t (did_native n u)" "framed t u \<Longrightarrow> framed t (commit_terminal f u)"
  "framed t u \<Longrightarrow> framed t (publish_terminal_flags f u)" "framed t u \<Longrightarrow> framed t (close_admission u)" "framed t u \<Longrightarrow> framed t (new_job i g f u)"
  "framed t u \<Longrightarrow> framed t (cancel_before_entry u)"
  by (erule framed_trans, rule framed_ops)+

lemma framed_fields: "framed t u \<Longrightarrow> framed t (clear_config u)" "framed t u \<Longrightarrow> framed t (finish_stop u)" "framed t u \<Longrightarrow> framed t (put_reinit r p u)"
  "framed t u \<Longrightarrow> framed t (put_stop s q u)" "framed t u \<Longrightarrow> framed t (admit_broker u)" "framed t u \<Longrightarrow> framed t (u \<lparr> tr_lifecycle := l \<rparr>)"
  "framed t u \<Longrightarrow> framed t (u \<lparr> tr_reinits := x \<rparr>)" "framed t u \<Longrightarrow> framed t (u \<lparr> tr_stops := y \<rparr>)" "framed t u \<Longrightarrow> framed t (u \<lparr> tr_initializer := b \<rparr>)"
  "framed t u \<Longrightarrow> framed t (u \<lparr> tr_native_pending := b \<rparr>)" "framed t u \<Longrightarrow> framed t (u \<lparr> tr_module := v \<rparr>)" "framed t u \<Longrightarrow> framed t (u \<lparr> tr_flags := w \<rparr>)"
  "framed t u \<Longrightarrow> framed t (u \<lparr> tr_eager := e \<rparr>)" "framed t u \<Longrightarrow> framed t (u \<lparr> tr_init_started := b \<rparr>)" "framed t u \<Longrightarrow> framed t (u \<lparr> tr_config := c \<rparr>)"
  "framed t u \<Longrightarrow> framed t (u \<lparr> tr_providers := b \<rparr>)" "framed t u \<Longrightarrow> framed t (u \<lparr> tr_gate := g \<rparr>)" "framed t u \<Longrightarrow> framed t (u \<lparr> tr_stop_spawned := b \<rparr>)"
  by (simp_all add: framed_def clear_config_def finish_stop_def put_reinit_def put_stop_def admit_broker_def)

lemmas framed_all = framed_refl framed_updates framed_fields

lemma framed_simple:
  "framed t (request_section f t)" "framed t (snd (abandon_section t))" "framed t (snd (schedule_initializer t))" "framed t (submit_job j b t)"
  "framed t (job_run j jb t)" "framed t (job_enter j t)" "framed t (job_publish j r t)" "framed t (job_providers j jb t)" "framed t (job_claim j t)"
  "framed t (stop_sync_close j t)" "framed t (shutdown_sync j t)" "framed t (shutdown_left j code t)" "framed t (job_finish j code t)"
  "framed t (eager_start t)" "framed t (eager_unavailable t)" "framed t (stop_section s t)" "framed t (reinit_left i t)"
  by (auto simp: request_section_def abandon_section_def schedule_initializer_def submit_job_def worker_lost_def job_run_def job_enter_def
      job_publish_def job_providers_def job_claim_def stop_sync_close_def shutdown_sync_def shutdown_left_def stop_sync_return_def
      job_finish_def eager_start_def eager_unavailable_def stop_section_def reinit_left_def Let_def
      split: option.splits sum.splits intro!: framed_all framed_ops(3))

lemma framed_initialize: "framed t u \<Longrightarrow> framed t (snd (initialize v u))"
  by (auto simp: initialize_def intro!: framed_all)

lemma framed_returned: "framed t (job_init_returned j returned t)" "framed t (eager_returned returned t)"
proof -
  have i: "initialize v u = (b, t1) \<Longrightarrow> framed t u \<Longrightarrow> framed t t1" for v u b t1 using framed_initialize [of t u v] by simp
  have failed: "framed t u \<Longrightarrow> framed t (eager_failed u)" for u by (auto simp: eager_failed_def Let_def intro!: framed_all)
  show "framed t (job_init_returned j returned t)"
    using i [of _ "did_native LeaveInit t"] framed_ops(12) [of t LeaveInit]
    by (auto simp: job_init_returned_def Let_def intro!: framed_all split: sum.splits prod.splits bool.splits)
  have "framed t (did_native LeaveInit (t \<lparr> tr_eager := EagerDone \<rparr>))" by (intro framed_all)
  then show "framed t (eager_returned returned t)"
    using i [of _ "did_native LeaveInit (t \<lparr> tr_eager := EagerDone \<rparr>)"]
    by (auto simp: eager_returned_def Let_def intro!: framed_all failed split: sum.splits prod.splits)
qed

lemma framed_reinit:
  assumes "reinit_held n bytes t = (next', t')"
  shows "framed t (reinit_place_after r next' t')"
proof -
  obtain c where "t' = t \<lparr> tr_config := c \<rparr>" using reinit_held_only_config [OF assms] by (auto simp: only_config_def)
  then show ?thesis by (cases next') (auto simp: reinit_place_after_def intro!: framed_all)
qed

lemma framed_lock: "lock h t = Some t1 \<Longrightarrow> framed t t1"
  using lock_free [of h t t1] by (auto intro!: framed_all)

lemma inner_framed:
  assumes "transport_step ev t = Some t'" "inner_event ev"
  shows "framed t t'"
proof (cases ev)
  case (StopCommits s)
  have "framed t (unlock (t \<lparr> tr_stops := hdel s (tr_stops t) \<rparr>))" "framed t (put_stop s StopCommitted (commit_terminal False t))"
    by (intro framed_all)+
  then show ?thesis using assms StopCommits by (auto simp: step_places simp del: if_split split: if_split_asm)
qed (use assms in \<open>auto simp: inner_event_def step_places split: if_splits option.splits job_place.splits reinit_place.splits prod.splits
    intro: framed_simple framed_returned framed_reinit framed_lock framed_ops framed_trans [OF framed_lock] framed_trans [OF framed_ops(12) framed_simple(17)] intro!: framed_fields framed_updates framed_refl\<close>)
section \<open>The invariant of the deliveries\<close>

text \<open>The calls that may enter before readiness.\<close>

definition route_ok :: "delivery_env \<Rightarrow> message \<Rightarrow> bus_name \<Rightarrow> bool" where
  "route_ok env msg peer \<longleftrightarrow> is_call msg \<and> h_confidential (m_header msg) \<and> de_peer env = Some peer \<and> h_sender (m_header msg) = Some peer
     \<and> (\<exists>r \<in> set (de_routes env). h_path (m_header msg) = Some (rt_path r) \<and> h_interface (m_header msg) = Some (rt_interface r)
          \<and> h_member (m_header msg) = Some (rt_member r))"

lemma authorized_route: "authorized_pre_ready_peer env msg live t = Some peer \<Longrightarrow> route_ok env msg peer"
  by (auto simp: authorized_pre_ready_peer_def route_ok_def Let_def list_ex_iff split: if_splits option.splits)

definition entry_ok :: "delivery_env \<Rightarrow> entry \<Rightarrow> bool" where
  "entry_ok env en \<longleftrightarrow> (is_call (en_message en) \<longrightarrow>
     en_ready en \<or> (\<exists>peer. en_peer en = Some peer \<and> route_ok env (en_message en) peer \<and> en_live en))"

definition place_ok :: "delivery_env \<Rightarrow> transport \<Rightarrow> send_place \<Rightarrow> bool" where
  "place_ok env t p \<longleftrightarrow> (case p of
      SendEnqueue msg (Some peer) \<Rightarrow> route_ok env msg peer
    | SendDelivers msg (Some peer) _ \<Rightarrow> route_ok env msg peer
    | SendDelivers msg None _ \<Rightarrow> is_call msg \<longrightarrow> tr_ready t
    | _ \<Rightarrow> True)"

definition drain_place_ok :: "transport \<Rightarrow> drain_place \<Rightarrow> bool" where
  "drain_place_ok t p \<longleftrightarrow> (case p of
      DrainNone \<Rightarrow> True | DrainWait \<Rightarrow> True
    | DrainReplies _ _ \<Rightarrow> tr_faulted t \<or> tr_closed t | DrainCloses \<Rightarrow> tr_faulted t \<or> tr_closed t
    | _ \<Rightarrow> wait_ready t)"

definition inmod :: "send_place option \<Rightarrow> bool" where
  "inmod p \<longleftrightarrow> (\<exists>msg peer. p = Some (SendDelivers msg peer InModule))"

definition drain_inmod :: "drain_place \<Rightarrow> bool" where
  "drain_inmod p \<longleftrightarrow> (\<exists>msg. p = DrainDelivers msg InModule)"

definition sends_inside :: "(nat, send_place) hashmap \<Rightarrow> nat set" where
  "sends_inside m = {n. inmod (hget m n)}"

definition queue_ok :: "delivery \<Rightarrow> bool" where
  "queue_ok d \<longleftrightarrow> (\<not> tr_faulted (dl_transport d) \<and> \<not> tr_closed (dl_transport d) \<longrightarrow>
     dl_queued d = dl_taken d @ tr_pending (dl_transport d) \<and> (tr_pending (dl_transport d) \<noteq> [] \<longrightarrow> dl_drain d \<noteq> DrainNone))"

definition delivery_ok :: "delivery_env \<Rightarrow> delivery \<Rightarrow> bool" where
  "delivery_ok env d \<longleftrightarrow> hmap_ok (dl_sends d)
     \<and> tr_cb_active (dl_transport d) = card (sends_inside (dl_sends d)) + (if drain_inmod (dl_drain d) then 1 else 0)
     \<and> (tr_drain_started (dl_transport d) \<longleftrightarrow> dl_drain d \<noteq> DrainNone) \<and> queue_ok d \<and> drain_place_ok (dl_transport d) (dl_drain d)
     \<and> (\<forall>n p. hget (dl_sends d) n = Some p \<longrightarrow> place_ok env (dl_transport d) p) \<and> (\<forall>en \<in> set (dl_entered d). entry_ok env en)"

lemma runs_sticky: "runs t t' \<Longrightarrow> sticky t t'"
  unfolding runs_def using run_kept by (auto simp: kept_def)

lemma stickyD:
  assumes "sticky t t'"
  shows "tr_closed t \<Longrightarrow> tr_closed t'" "tr_faulted t \<Longrightarrow> tr_faulted t'" "tr_ready t \<Longrightarrow> tr_ready t'"
  using assms by (simp_all add: sticky_def)

lemma place_ok_mono: "place_ok env t p \<Longrightarrow> sticky t t' \<Longrightarrow> place_ok env t' p"
  by (auto simp: place_ok_def dest: stickyD(3) split: send_place.splits option.splits)

lemma drain_place_ok_mono: "drain_place_ok t p \<Longrightarrow> sticky t t' \<Longrightarrow> drain_place_ok t' p"
  by (auto simp: drain_place_ok_def wait_ready_def dest: stickyD split: drain_place.splits)

lemma finite_inside: "finite (sends_inside m)"
proof (rule finite_subset)
  show "sends_inside m \<subseteq> dom (map_of m)" by (auto simp: sends_inside_def inmod_def)
qed (rule finite_dom_map_of)

lemma inside_changed:
  assumes "\<And>i. hget m' i = (if i = n then q else hget m i)"
  shows "card (sends_inside m') + (if inmod (hget m n) then 1 else 0) = card (sends_inside m) + (if inmod q then 1 else 0)"
proof -
  have rest: "sends_inside m' - {n} = sends_inside m - {n}" using assms by (auto simp: sends_inside_def)
  have n': "n \<in> sends_inside m' \<longleftrightarrow> inmod q" using assms [of n] by (simp add: sends_inside_def)
  have n: "n \<in> sends_inside m \<longleftrightarrow> inmod (hget m n)" by (simp add: sends_inside_def)
  have c: "card S = card (S - {n}) + (if n \<in> S then 1 else 0)" if "finite S" for S
  proof (cases "n \<in> S")
    case True
    then show ?thesis using card.remove [OF that True] by simp
  qed simp
  have "card (sends_inside m) = card (sends_inside m - {n}) + (if inmod (hget m n) then 1 else 0)"
    using c [OF finite_inside, of m] unfolding n .
  moreover have "card (sends_inside m') = card (sends_inside m - {n}) + (if inmod q then 1 else 0)"
    using c [OF finite_inside, of m'] unfolding n' rest .
  ultimately show ?thesis by linarith
qed

text \<open>A step of send \<open>n\<close>, with all it may change.\<close>

lemma send_moved:
  assumes ok: "delivery_ok env d" and runs: "runs (dl_transport d) t'"
    and sends: "dl_sends d' = (case q of Some p \<Rightarrow> hput n p (dl_sends d) | None \<Rightarrow> hdel n (dl_sends d))"
    and active: "tr_cb_active t' + (if inmod (hget (dl_sends d) n) then 1 else 0) = tr_cb_active (dl_transport d) + (if inmod q then 1 else 0)"
    and started: "dl_drain d' = dl_drain d \<and> tr_drain_started t' = tr_drain_started (dl_transport d)
       \<or> dl_drain d = DrainNone \<and> dl_drain d' = DrainWait \<and> tr_drain_started t'"
    and queue: "queue_ok d'" and place: "\<And>p. q = Some p \<Longrightarrow> place_ok env t' p"
    and entered: "\<And>en. en \<in> set (dl_entered d') \<Longrightarrow> en \<in> set (dl_entered d) \<or> entry_ok env en"
    and t': "dl_transport d' = t'"
  shows "delivery_ok env d'"
proof -
  have hok: "hmap_ok (dl_sends d)" and cnt: "tr_cb_active (dl_transport d) = card (sends_inside (dl_sends d)) + (if drain_inmod (dl_drain d) then 1 else 0)"
    and st: "tr_drain_started (dl_transport d) \<longleftrightarrow> dl_drain d \<noteq> DrainNone" and dp: "drain_place_ok (dl_transport d) (dl_drain d)"
    and pl: "\<And>n p. hget (dl_sends d) n = Some p \<Longrightarrow> place_ok env (dl_transport d) p" and en: "\<And>en. en \<in> set (dl_entered d) \<Longrightarrow> entry_ok env en"
    using ok by (simp_all add: delivery_ok_def)
  have sticky: "sticky (dl_transport d) t'" using runs_sticky [OF runs] .
  have get: "hget (dl_sends d') i = (if i = n then q else hget (dl_sends d) i)" for i
    using sends hok by (cases q) (simp_all add: hm.get_put hm.get_del)
  have "hmap_ok (dl_sends d')" using sends hok by (cases q) (simp_all add: hm.ok_put hm.ok_del)
  moreover have "tr_cb_active t' = card (sends_inside (dl_sends d')) + (if drain_inmod (dl_drain d') then 1 else 0)"
  proof -
    have "drain_inmod (dl_drain d') = drain_inmod (dl_drain d)"
      using started by (elim disjE conjE) (simp_all add: drain_inmod_def)
    then show ?thesis using inside_changed [OF get] active cnt by simp
  qed
  moreover have "tr_drain_started t' \<longleftrightarrow> dl_drain d' \<noteq> DrainNone" using started st by auto
  moreover have "drain_place_ok t' (dl_drain d')"
    using started drain_place_ok_mono [OF dp sticky] by (auto simp: drain_place_ok_def)
  moreover have "place_ok env t' p" if "hget (dl_sends d') i = Some p" for i p
    using that get [of i] place place_ok_mono [OF pl sticky] by (auto split: if_splits)
  ultimately show ?thesis using queue entered en t' unfolding delivery_ok_def by blast
qed

lemma drain_moved:
  assumes ok: "delivery_ok env d" and runs: "runs (dl_transport d) t'" and sends: "dl_sends d' = dl_sends d"
    and active: "tr_cb_active t' + (if drain_inmod (dl_drain d) then 1 else 0) = tr_cb_active (dl_transport d) + (if drain_inmod (dl_drain d') then 1 else 0)"
    and started: "tr_drain_started t' \<longleftrightarrow> dl_drain d' \<noteq> DrainNone" and queue: "queue_ok d'" and place: "drain_place_ok t' (dl_drain d')"
    and entered: "\<And>en. en \<in> set (dl_entered d') \<Longrightarrow> en \<in> set (dl_entered d) \<or> entry_ok env en"
    and t': "dl_transport d' = t'"
  shows "delivery_ok env d'"
proof -
  have cnt: "tr_cb_active (dl_transport d) = card (sends_inside (dl_sends d)) + (if drain_inmod (dl_drain d) then 1 else 0)"
    and hok: "hmap_ok (dl_sends d)"
    and pl: "\<And>n p. hget (dl_sends d) n = Some p \<Longrightarrow> place_ok env (dl_transport d) p" and en: "\<And>en. en \<in> set (dl_entered d) \<Longrightarrow> entry_ok env en"
    using ok by (simp_all add: delivery_ok_def)
  have "place_ok env t' p" if "hget (dl_sends d) i = Some p" for i p using place_ok_mono [OF pl [OF that] runs_sticky [OF runs]] .
  moreover have "tr_cb_active t' = card (sends_inside (dl_sends d)) + (if drain_inmod (dl_drain d') then 1 else 0)"
    using active cnt by simp
  ultimately show ?thesis using sends hok started queue place entered en t' unfolding delivery_ok_def by metis
qed

lemma transport_moved:
  assumes ok: "delivery_ok env d" and runs: "runs (dl_transport d) t'" and active: "tr_cb_active t' = tr_cb_active (dl_transport d)"
    and started: "tr_drain_started t' = tr_drain_started (dl_transport d)"
    and pending: "tr_pending t' = tr_pending (dl_transport d) \<or> tr_closed t' \<or> tr_faulted t'"
  shows "delivery_ok env (d \<lparr> dl_transport := t' \<rparr>)"
proof (rule drain_moved [OF ok runs])
  have st: "tr_drain_started (dl_transport d) \<longleftrightarrow> dl_drain d \<noteq> DrainNone" and dp: "drain_place_ok (dl_transport d) (dl_drain d)" and q: "queue_ok d"
    using ok by (simp_all add: delivery_ok_def)
  show "tr_drain_started t' \<longleftrightarrow> dl_drain (d \<lparr> dl_transport := t' \<rparr>) \<noteq> DrainNone" using started st by simp
  show "drain_place_ok t' (dl_drain (d \<lparr> dl_transport := t' \<rparr>))" using drain_place_ok_mono [OF dp runs_sticky [OF runs]] by simp
  show "queue_ok (d \<lparr> dl_transport := t' \<rparr>)"
    using q pending stickyD [OF runs_sticky [OF runs]] by (auto simp: queue_ok_def)
qed (use active in simp_all)
section \<open>Every step keeps it\<close>

lemma framed_terminal: "framed t u \<Longrightarrow> framed t (request_terminal f u)"
  unfolding request_terminal_def by (rule framed_trans [OF framed_updates(6) framed_simple(1)])

lemma framed_abandon: "framed t (abandon_initialization t)"
proof (cases "abandon_section t")
  case (Pair b u)
  then show ?thesis using framed_simple(2) [of t] framed_terminal [of t u] by (cases b) (simp_all add: abandon_initialization_def)
qed

lemma framed_messages: "framed t u \<Longrightarrow> framed t (u \<lparr> tr_queue := q \<rparr>)" "framed t u \<Longrightarrow> framed t (u \<lparr> tr_inflight := i \<rparr>)"
  "framed t u \<Longrightarrow> framed t (u \<lparr> tr_sender := b \<rparr>)" "framed t u \<Longrightarrow> framed t (u \<lparr> tr_init_failed := b \<rparr>)"
  by (simp_all add: framed_def)

lemma framed_sends: "framed t (snd (send_uninitialized env msg e t))" "framed t u \<Longrightarrow> framed t (send_refund msg out u)"
  "framed t (snd (deliver_unparked woken t))" "host_send len bytes t = Some (c, u) \<Longrightarrow> framed t u" "module_recv t = Some (r, v) \<Longrightarrow> framed t v"
  by (auto simp: send_uninitialized_def send_refund_def deliver_unparked_def host_send_def module_recv_def Let_def
      intro!: framed_terminal framed_messages framed_all split: if_splits list.splits option.splits)

lemma framedD: "framed t t' \<Longrightarrow> tr_cb_active t' = tr_cb_active t" "framed t t' \<Longrightarrow> tr_drain_started t' = tr_drain_started t"
  "framed t t' \<Longrightarrow> tr_pending t' = tr_pending t \<or> tr_closed t'"
  by (simp_all add: framed_def)

lemma queue_ok_kept:
  assumes "queue_ok d" "runs (dl_transport d) t'" "framed (dl_transport d) t'"
    and "dl_transport d' = t'" "dl_queued d' = dl_queued d" "dl_taken d' = dl_taken d" "dl_drain d' = dl_drain d"
  shows "queue_ok d'"
  using assms(1,4-7) stickyD(1,2) [OF runs_sticky [OF assms(2)]] framedD(3) [OF assms(3)] unfolding queue_ok_def by metis

text \<open>A step of a send that is outside the module before and after.\<close>

lemma send_quiet:
  assumes ok: "delivery_ok env d" and p: "hget (dl_sends d) n = Some p" "\<not> inmod (Some p)"
    and runs: "runs (dl_transport d) t'" and framed: "framed (dl_transport d) t'"
  shows send_quiet_put: "\<not> inmod (Some p') \<Longrightarrow> place_ok env t' p' \<Longrightarrow> delivery_ok env (put_send n p' (d \<lparr> dl_transport := t' \<rparr>))"
    and send_quiet_end: "delivery_ok env (end_send n (d \<lparr> dl_transport := t' \<rparr>))"
proof -
  have q: "queue_ok d" using ok by (simp add: delivery_ok_def)
  show "delivery_ok env (put_send n p' (d \<lparr> dl_transport := t' \<rparr>))" if "\<not> inmod (Some p')" "place_ok env t' p'"
  proof (rule send_moved [OF ok runs, where q = "Some p'" and n = n])
    show "queue_ok (put_send n p' (d \<lparr> dl_transport := t' \<rparr>))" using queue_ok_kept [OF q runs framed] by (simp add: put_send_def)
  qed (use p that framedD(1,2) [OF framed] in \<open>simp_all add: put_send_def\<close>)
  show "delivery_ok env (end_send n (d \<lparr> dl_transport := t' \<rparr>))"
  proof (rule send_moved [OF ok runs, where q = None and n = n])
    show "queue_ok (end_send n (d \<lparr> dl_transport := t' \<rparr>))" using queue_ok_kept [OF q runs framed] by (simp add: end_send_def)
  qed (use p framedD(1,2) [OF framed] in \<open>simp_all add: end_send_def inmod_def\<close>)
qed

lemma not_inmod: "inmod (Some p) \<longleftrightarrow> (\<exists>msg peer. p = SendDelivers msg peer InModule)" "\<not> inmod None"
  by (simp_all add: inmod_def)

lemma place_ok_free: "place_ok env t (SendGate msg)" "place_ok env t (SendAwait msg b)" "place_ok env t (SendFailed msg e)" "place_ok env t (SendCheck msg)"
  "place_ok env t (SendEnqueue msg None)"
  by (simp_all add: place_ok_def)

lemma same_transport: "d \<lparr> dl_transport := dl_transport d \<rparr> = d"
  by simp

lemma send_waits_ok:
  assumes ok: "delivery_ok env d" and p: "hget (dl_sends d) n = Some p" and step: "send_step env n ev p d = Some d'"
    and before: "\<And>msg peer. p \<noteq> SendEnqueue msg peer" "\<And>msg peer q. p \<noteq> SendDelivers msg peer q"
  shows "delivery_ok env d'"
proof -
  have out: "\<not> inmod (Some p)" using before(2) by (auto simp: not_inmod)
  have put: "delivery_ok env (put_send n p' (d \<lparr> dl_transport := t' \<rparr>))" if "\<not> inmod (Some p')" "place_ok env t' p'" "runs (dl_transport d) t'" "framed (dl_transport d) t'" for p' t'
    using send_quiet_put [OF ok p out that(3,4,1,2)] .
  have leave: "delivery_ok env (end_send n (d \<lparr> dl_transport := t' \<rparr>))" if "runs (dl_transport d) t'" "framed (dl_transport d) t'" for t'
    using send_quiet_end [OF ok p out that] .
  have put0: "delivery_ok env (put_send n p' d)" if "\<not> inmod (Some p')" "place_ok env (dl_transport d) p'" for p'
    using put [OF that runs_refl framed_refl] unfolding same_transport .
  have leave0: "delivery_ok env (end_send n d)" using leave [OF runs_refl framed_refl] unfolding same_transport .
  have ab: "runs (dl_transport d) (abandon_initialization (dl_transport d))" "framed (dl_transport d) (abandon_initialization (dl_transport d))"
    by (simp_all add: runs_abandon runs_refl framed_abandon)
  have left: "initiator_leaves b d = d \<lparr> dl_transport := (if b then abandon_initialization (dl_transport d) else dl_transport d) \<rparr>" for b
    by (simp add: initiator_leaves_def on_transport_def)
  show ?thesis
  proof (cases p)
    case (SendGate msg)
    have sched: "runs (dl_transport d) t'" "framed (dl_transport d) t'" if "schedule_initializer (dl_transport d) = (r, t')" for r t'
      using runs_schedule [OF runs_refl, of "dl_transport d"] framed_simple(3) [of "dl_transport d"] that by simp_all
    have "delivery_ok env d'" if g: "send_gate n msg d = Some d'"
      using g sched by (auto simp: send_gate_def not_inmod place_ok_free split: option.splits sum.splits prod.splits intro!: put put0)
    then show ?thesis using step SendGate leave0 by (auto simp: send_step_def split: delivery_event.splits)
  next
    case (SendAwait msg b)
    have "delivery_ok env d'" if "send_initialized n msg d = Some d'"
      using that by (auto simp: send_initialized_def not_inmod place_ok_free split: option.splits sum.splits intro!: put0)
    then show ?thesis using step SendAwait ab
      by (auto simp: send_step_def left not_inmod place_ok_free runs_refl framed_refl split: delivery_event.splits intro!: put leave)
  next
    case (SendFailed msg e)
    then show ?thesis using step
      by (auto simp: send_step_def on_transport_def runs_uninitialized framed_sends split: delivery_event.splits intro!: leave)
  next
    case (SendCheck msg)
    have "place_ok env t (SendEnqueue msg (authorized_pre_ready_peer env msg live t'))" for t t' live
      using authorized_route by (cases "authorized_pre_ready_peer env msg live t'") (auto simp: place_ok_def)
    then show ?thesis using step SendCheck
      by (auto simp: send_step_def send_checked_def Let_def not_inmod place_ok_free split: delivery_event.splits intro!: put0)
  qed (use before in auto)
qed
lemma send_enqueued_ok:
  assumes ok: "delivery_ok env d" and p: "hget (dl_sends d) n = Some (SendEnqueue msg peer)"
  shows "delivery_ok env (send_enqueued n msg peer d)"
proof -
  let ?t = "dl_transport d"
  obtain r t' where e: "send_enqueue msg peer ?t = (r, t')" by fastforce
  have runs: "runs ?t t'" using runs_enqueue [of ?t msg peer] e by simp
  have route: "place_ok env ?t (SendEnqueue msg peer)" using ok p by (simp add: delivery_ok_def)
  have st: "tr_drain_started ?t \<longleftrightarrow> dl_drain d \<noteq> DrainNone" and q: "queue_ok d" using ok by (simp_all add: delivery_ok_def)
  show ?thesis
  proof (cases r)
    case EnqueueRefused
    then show ?thesis using send_quiet_end [OF ok p _ runs_refl framed_refl] e
      by (auto simp: send_enqueued_def send_enqueue_def not_inmod Let_def split: if_splits)
  next
    case (Enqueued spawn)
    have t': "tr_cb_active t' = tr_cb_active ?t" "tr_drain_started t'" "tr_pending t' = tr_pending ?t @ [msg]" "tr_closed t' = tr_closed ?t"
      "tr_faulted t' = tr_faulted ?t" "spawn = (\<not> tr_drain_started ?t)"
      using e Enqueued by (auto simp: send_enqueue_def Let_def split: if_splits)
    let ?d = "end_send n (d \<lparr> dl_transport := t', dl_queued := dl_queued d @ [msg], dl_drain := (if spawn then DrainWait else dl_drain d) \<rparr>)"
    have "delivery_ok env ?d"
    proof (rule send_moved [OF ok runs, where q = None and n = n])
      show "queue_ok ?d" using q st t' by (auto simp: queue_ok_def end_send_def)
    qed (use p st t' in \<open>auto simp: end_send_def not_inmod\<close>)
    then show ?thesis using e Enqueued by (simp add: send_enqueued_def)
  next
    case EnqueueDeliver
    have t': "framed ?t t'" and ready: "is_call msg \<and> peer = None \<longrightarrow> tr_ready t'"
      using e EnqueueDeliver by (auto simp: send_enqueue_def is_ready_def Let_def split: if_splits intro!: framed_messages framed_refl)
    have "place_ok env t' (SendDelivers msg peer DeliverCheck)" using route ready by (cases peer) (simp_all add: place_ok_def)
    then show ?thesis using send_quiet_put [OF ok p _ runs t'] e EnqueueDeliver by (simp add: send_enqueued_def not_inmod)
  qed
qed

text \<open>The turns of a delivery: what each does to the count of the callbacks inside the module.\<close>

lemma deliver_event_moves:
  assumes "deliver_event env msg peer ev p t = Some (r, t')" and "p = InModule \<longrightarrow> tr_cb_active t \<noteq> 0"
  shows deliver_runs: "runs t t'"
    and deliver_count: "tr_cb_active t' + (if p = InModule then 1 else 0) = tr_cb_active t + (if r = DeliverAt InModule then 1 else 0)"
    and deliver_frame: "tr_drain_started t' = tr_drain_started t" "tr_pending t' = tr_pending t \<or> tr_closed t'"
    and deliver_entry: "r = DeliverAt InModule \<Longrightarrow> p = DeliverEnter \<and> \<not> tr_faulted t \<and> \<not> tr_closed t \<and> (\<forall>x. peer = Some x \<longrightarrow> live_of ev)"
proof -
  have unparked: "runs t u" "framed t u" "v \<noteq> DeliverAt InModule" if "deliver_unparked woken t = (v, u)" for woken u v
    using runs_unparked [of t woken] framed_sends(3) [of t woken] that by (simp_all, auto simp: deliver_unparked_def split: if_splits)
  have enter: "runs t u" "if v = DeliverAt InModule then u = did_native EnterDeliver (t \<lparr> tr_cb_active := Suc (tr_cb_active t) \<rparr>)
      \<and> \<not> tr_faulted t \<and> \<not> tr_closed t \<and> (\<forall>x. peer = Some x \<longrightarrow> live) else u = t" if "deliver_enter env peer live t = (v, u)" for live u v
    using runs_enter [of t env peer live] that by (simp_all, auto simp: deliver_enter_def split: if_splits option.splits)
  have returned: "runs t u" "u = did_native LeaveDeliver (t \<lparr> tr_cb_active := tr_cb_active t - 1 \<rparr>) \<and> v \<noteq> DeliverAt InModule"
    if "deliver_returned code t = (v, u)" "tr_cb_active t \<noteq> 0" for code u v
    using runs_returned [OF that(2), of code] that by (simp_all, auto simp: deliver_returned_def Let_def split: if_splits)
  have check: "deliver_check env msg t \<noteq> DeliverAt InModule"
    by (simp add: deliver_check_def split: sum.split)
  have "runs t t' \<and> tr_cb_active t' + (if p = InModule then 1 else 0) = tr_cb_active t + (if r = DeliverAt InModule then 1 else 0)
     \<and> tr_drain_started t' = tr_drain_started t \<and> (tr_pending t' = tr_pending t \<or> tr_closed t')
     \<and> (r = DeliverAt InModule \<longrightarrow> p = DeliverEnter \<and> \<not> tr_faulted t \<and> \<not> tr_closed t \<and> (\<forall>x. peer = Some x \<longrightarrow> live_of ev))"
  proof (cases p)
    case DeliverCheck
    then have "t' = t" "r \<noteq> DeliverAt InModule" using assms(1) check by (auto simp: deliver_event_def split: delivery_event.splits)
    then show ?thesis using DeliverCheck by (simp add: runs_refl)
  next
    case DeliverEnter
    then obtain live where "deliver_enter env peer live t = (r, t')" "live = live_of ev"
      using assms(1) by (auto simp: deliver_event_def live_of_def split: delivery_event.splits)
    then show ?thesis using enter [of live r t'] DeliverEnter by (auto simp: did_native_def split: if_splits)
  next
    case InModule
    then obtain code where "deliver_returned code t = (r, t')" using assms(1) by (auto simp: deliver_event_def split: delivery_event.splits)
    then show ?thesis using returned [of code r t'] assms(2) InModule by (simp add: did_native_def)
  next
    case DeliverParked
    then obtain woken where "deliver_unparked woken t = (r, t')" using assms(1) by (auto simp: deliver_event_def split: delivery_event.splits)
    then show ?thesis using unparked [of woken r t'] framedD [of t t'] DeliverParked by simp
  qed
  then show "runs t t'" "tr_cb_active t' + (if p = InModule then 1 else 0) = tr_cb_active t + (if r = DeliverAt InModule then 1 else 0)"
    "tr_drain_started t' = tr_drain_started t" "tr_pending t' = tr_pending t \<or> tr_closed t'"
    "r = DeliverAt InModule \<Longrightarrow> p = DeliverEnter \<and> \<not> tr_faulted t \<and> \<not> tr_closed t \<and> (\<forall>x. peer = Some x \<longrightarrow> live_of ev)"
    by simp_all
qed
lemma refund_kept:
  "tr_cb_active (send_refund msg out t) = tr_cb_active t" "tr_drain_started (send_refund msg out t) = tr_drain_started t"
  "tr_pending (send_refund msg out t) = tr_pending t" "tr_closed (send_refund msg out t) = tr_closed t" "tr_faulted (send_refund msg out t) = tr_faulted t"
  by (simp_all add: send_refund_def)

lemma note_kept:
  "dl_transport (note_entry msg peer live r d) = dl_transport d" "dl_sends (note_entry msg peer live r d) = dl_sends d"
  "dl_drain (note_entry msg peer live r d) = dl_drain d" "dl_queued (note_entry msg peer live r d) = dl_queued d"
  "dl_taken (note_entry msg peer live r d) = dl_taken d"
  by (simp_all add: note_entry_def)

lemma note_entered:
  assumes "en \<in> set (dl_entered (note_entry msg peer live r d))" "en \<notin> set (dl_entered d)"
  shows "fst r = DeliverAt InModule \<and> en = \<lparr> en_message = msg, en_ready = tr_ready (dl_transport d), en_peer = peer, en_live = live \<rparr>"
  using assms by (auto simp: note_entry_def split: if_splits)

lemma queue_ok_moved:
  assumes "queue_ok d" "runs (dl_transport d) t'" "tr_pending t' = tr_pending (dl_transport d) \<or> tr_closed t'"
    and "tr_pending u = tr_pending t'" "tr_closed u = tr_closed t'" "tr_faulted u = tr_faulted t'"
    and "dl_transport d' = u" "dl_queued d' = dl_queued d" "dl_taken d' = dl_taken d" "dl_drain d' = DrainNone \<longrightarrow> dl_drain d = DrainNone"
  shows "queue_ok d'"
  using assms(1,3-10) stickyD(1,2) [OF runs_sticky [OF assms(2)]] unfolding queue_ok_def by metis

lemma send_delivers_ok:
  assumes ok: "delivery_ok env d" and p: "hget (dl_sends d) n = Some (SendDelivers msg peer place)"
    and ev: "deliver_event env msg peer ev place (dl_transport d) = Some (r, t')"
  shows "delivery_ok env (send_next n msg peer (r, t') (note_entry msg peer (live_of ev) (r, t') d))"
proof -
  let ?t = "dl_transport d" and ?n = "note_entry msg peer (live_of ev) (r, t') d"
  have q: "queue_ok d" and cnt: "tr_cb_active ?t = card (sends_inside (dl_sends d)) + (if drain_inmod (dl_drain d) then 1 else 0)"
    and pl: "place_ok env ?t (SendDelivers msg peer place)" using ok p by (simp_all add: delivery_ok_def)
  have "card (sends_inside (dl_sends d)) \<noteq> 0" if "place = InModule"
    using p that finite_inside [of "dl_sends d"] by (auto simp: sends_inside_def inmod_def)
  then have active: "place = InModule \<longrightarrow> tr_cb_active ?t \<noteq> 0" using cnt by simp
  note moves = deliver_event_moves [OF ev active]
  have inmod: "inmod (hget (dl_sends d) n) \<longleftrightarrow> place = InModule" using p by (simp add: not_inmod)
  have pl': "place_ok env t' (SendDelivers msg peer p')" for p'
    using place_ok_mono [OF pl runs_sticky [OF moves(1)]] by (simp add: place_ok_def split: option.splits)
  have entered: "en \<in> set (dl_entered d) \<or> entry_ok env en" if "en \<in> set (dl_entered ?n)" for en
  proof (cases "en \<in> set (dl_entered d)")
    case False
    then have "fst (r, t') = DeliverAt InModule" and en: "en = \<lparr> en_message = msg, en_ready = tr_ready ?t, en_peer = peer, en_live = live_of ev \<rparr>"
      using note_entered [OF that] by blast+
    then have r: "place = DeliverEnter" "\<forall>x. peer = Some x \<longrightarrow> live_of ev" using moves(5) by simp_all
    show ?thesis using en r pl by (cases peer) (simp_all add: entry_ok_def place_ok_def)
  qed simp
  show ?thesis
  proof (cases r)
    case (DeliverAt p')
    have "delivery_ok env (put_send n (SendDelivers msg peer p') (?n \<lparr> dl_transport := t' \<rparr>))"
    proof (rule send_moved [OF ok moves(1), where q = "Some (SendDelivers msg peer p')" and n = n])
      show "queue_ok (put_send n (SendDelivers msg peer p') (?n \<lparr> dl_transport := t' \<rparr>))"
        by (rule queue_ok_moved [OF q moves(1,4), of t']) (simp_all add: put_send_def note_kept)
    qed (use pl' moves(2,3) inmod entered DeliverAt in \<open>simp_all add: put_send_def note_kept not_inmod\<close>)
    then show ?thesis using DeliverAt by (simp add: send_next_def)
  next
    case (Delivered out)
    have "delivery_ok env (end_send n (?n \<lparr> dl_transport := send_refund msg out t' \<rparr>))"
    proof (rule send_moved [OF ok runs_refund [OF moves(1)], where q = None and n = n])
      show "queue_ok (end_send n (?n \<lparr> dl_transport := send_refund msg out t' \<rparr>))"
        by (rule queue_ok_moved [OF q moves(1,4), of "send_refund msg out t'"]) (simp_all add: end_send_def note_kept refund_kept)
    qed (use moves(2,3) inmod entered Delivered in \<open>simp_all add: end_send_def note_kept not_inmod refund_kept\<close>)
    then show ?thesis using Delivered by (simp add: send_next_def)
  qed
qed

lemma send_step_ok:
  assumes "delivery_ok env d" "hget (dl_sends d) n = Some p" "send_step env n ev p d = Some d'"
  shows "delivery_ok env d'"
proof (cases "\<exists>msg peer q. p = SendEnqueue msg peer \<or> p = SendDelivers msg peer q")
  case True
  then show ?thesis
  proof (elim exE disjE)
    fix msg peer q assume p: "p = SendEnqueue msg peer"
    then show ?thesis using assms send_enqueued_ok [of env d n msg peer] by (auto simp: send_step_def split: delivery_event.splits)
  next
    fix msg peer q assume p: "p = SendDelivers msg peer q"
    show ?thesis
    proof (cases "ev = SendDropped n \<and> q = DeliverParked")
      case True
      then have "d' = end_send n d" using assms(3) p by (simp add: send_step_def)
      then show ?thesis using True send_quiet_end [OF assms(1,2) _ runs_refl framed_refl] p by (simp add: not_inmod)
    next
      case False
      then obtain r t' where "deliver_event env msg peer ev q (dl_transport d) = Some (r, t')"
        "d' = send_next n msg peer (r, t') (note_entry msg peer (live_of ev) (r, t') d)"
        using assms(3) p by (auto simp: send_step_def)
      then show ?thesis using send_delivers_ok [OF assms(1)] assms(2) p by simp
    qed
  qed
next
  case False
  then show ?thesis using send_waits_ok [OF assms] by blast
qed
lemma drain_delivers_ok:
  assumes ok: "delivery_ok env d" and p: "dl_drain d = DrainDelivers msg place"
    and ev: "deliver_event env msg None ev place (dl_transport d) = Some (r, t')"
  shows "delivery_ok env (drain_next_of msg (r, t') (note_entry msg None (live_of ev) (r, t') d))"
proof -
  let ?t = "dl_transport d" and ?n = "note_entry msg None (live_of ev) (r, t') d"
  have q: "queue_ok d" and cnt: "tr_cb_active ?t = card (sends_inside (dl_sends d)) + (if drain_inmod (dl_drain d) then 1 else 0)"
    and st: "tr_drain_started ?t" and wait: "wait_ready ?t" using ok p by (simp_all add: delivery_ok_def drain_place_ok_def)
  have inmod: "drain_inmod (dl_drain d) \<longleftrightarrow> place = InModule" using p by (simp add: drain_inmod_def)
  then have active: "place = InModule \<longrightarrow> tr_cb_active ?t \<noteq> 0" using cnt by simp
  note moves = deliver_event_moves [OF ev active]
  have wait': "wait_ready t'" using wait stickyD [OF runs_sticky [OF moves(1)]] by (auto simp: wait_ready_def)
  have entered: "en \<in> set (dl_entered d) \<or> entry_ok env en" if "en \<in> set (dl_entered ?n)" for en
  proof (cases "en \<in> set (dl_entered d)")
    case False
    then have "r = DeliverAt InModule" and en: "en = \<lparr> en_message = msg, en_ready = tr_ready ?t, en_peer = None, en_live = live_of ev \<rparr>"
      using note_entered [OF that] by simp_all
    then have "tr_ready ?t" using moves(5) wait by (auto simp: wait_ready_def)
    then show ?thesis using en by (simp add: entry_ok_def)
  qed simp
  define next' where "next' = (case r of DeliverAt p' \<Rightarrow> DrainDelivers msg p' | Delivered (Inr _) \<Rightarrow> DrainLoop | Delivered (Inl e) \<Rightarrow> DrainFailed msg e)"
  have n': "drain_inmod next' \<longleftrightarrow> r = DeliverAt InModule" "next' \<noteq> DrainNone" "drain_place_ok t' next'"
    using wait' by (auto simp: next'_def drain_inmod_def drain_place_ok_def split: deliver_next.splits sum.splits)
  have "delivery_ok env (?n \<lparr> dl_transport := t', dl_drain := next' \<rparr>)"
  proof (rule drain_moved [OF ok moves(1)])
    show "queue_ok (?n \<lparr> dl_transport := t', dl_drain := next' \<rparr>)"
      by (rule queue_ok_moved [OF q moves(1,4), of t']) (simp_all add: note_kept n')
  qed (use moves(2,3) inmod entered st n' in \<open>simp_all add: note_kept\<close>)
  moreover have "drain_next_of msg (r, t') ?n = ?n \<lparr> dl_transport := t', dl_drain := next' \<rparr>"
    by (auto simp: drain_next_of_def next'_def split: deliver_next.split sum.split)
  ultimately show ?thesis by simp
qed

text \<open>A step of the drainer outside the module.\<close>

lemma drain_quiet:
  assumes ok: "delivery_ok env d" and out: "\<not> drain_inmod (dl_drain d)" and runs: "runs (dl_transport d) (dl_transport d')"
    and same: "dl_sends d' = dl_sends d" "dl_entered d' = dl_entered d" "tr_cb_active (dl_transport d') = tr_cb_active (dl_transport d)"
    and to: "\<not> drain_inmod (dl_drain d')" "tr_drain_started (dl_transport d') \<longleftrightarrow> dl_drain d' \<noteq> DrainNone" "drain_place_ok (dl_transport d') (dl_drain d')"
      "queue_ok d'"
  shows "delivery_ok env d'"
  by (rule drain_moved [OF ok runs same(1)]) (use out same to in simp_all)

lemma drain_step_ok:
  assumes ok: "delivery_ok env d" and step: "drain_step env ev (dl_drain d) d = Some d'"
  shows "delivery_ok env d'"
proof (cases "\<exists>msg place. dl_drain d = DrainDelivers msg place")
  case True
  then obtain msg place where p: "dl_drain d = DrainDelivers msg place" by blast
  then obtain r t' where "deliver_event env msg None ev place (dl_transport d) = Some (r, t')"
    "d' = drain_next_of msg (r, t') (note_entry msg None (live_of ev) (r, t') d)"
    using step by (auto simp: drain_step_def)
  then show ?thesis using drain_delivers_ok [OF ok p] by simp
next
  case False
  let ?t = "dl_transport d"
  have q: "queue_ok d" and st: "tr_drain_started ?t \<longleftrightarrow> dl_drain d \<noteq> DrainNone" and at: "drain_place_ok ?t (dl_drain d)"
    using ok by (simp_all add: delivery_ok_def)
  have out: "\<not> drain_inmod (dl_drain d)" using False by (simp add: drain_inmod_def)
  show ?thesis
  proof (cases "dl_drain d")
    case DrainNone
    then show ?thesis using step by (simp add: drain_step_def)
  next
    case DrainWait
    then have d': "d' = d \<lparr> dl_drain := DrainLoop \<rparr>" "wait_ready ?t" using step by (simp_all add: drain_step_def split: if_splits)
    show ?thesis
      by (rule drain_quiet [OF ok out]) (use d' q st DrainWait in \<open>simp_all add: runs_refl drain_inmod_def drain_place_ok_def queue_ok_def\<close>)
  next
    case DrainLoop
    then have d': "d' = drain_taken d" and ready: "wait_ready ?t" using step at by (simp_all add: drain_step_def drain_place_ok_def split: if_splits)
    obtain r t' where take: "drain_take ?t = (r, t')" by fastforce
    have runs: "runs ?t t'" using runs_drain(1) [of ?t] take by simp
    show ?thesis unfolding d'
      by (rule drain_quiet [OF ok out]; insert runs take ready st q DrainLoop)
        (auto simp: drain_taken_def drain_take_def drain_inmod_def drain_place_ok_def queue_ok_def wait_ready_def split: if_splits list.splits)
  next
    case DrainEmpty
    then have d': "d' = drain_saw_empty d" and ready: "wait_ready ?t" using step at by (simp_all add: drain_step_def drain_place_ok_def split: if_splits)
    obtain r t' where take: "drain_empty ?t = (r, t')" by fastforce
    have runs: "runs ?t t'" using runs_drain(2) [of ?t] take by simp
    show ?thesis unfolding d'
      by (rule drain_quiet [OF ok out]; insert runs take ready st q DrainEmpty)
        (auto simp: drain_saw_empty_def drain_empty_def drain_inmod_def drain_place_ok_def queue_ok_def wait_ready_def split: if_splits)
  next
    case (DrainFailed msg e)
    then have d': "d' = drain_failed msg e d" using step by (simp add: drain_step_def split: if_splits)
    obtain r t' where take: "fault_pending_take e ?t = (r, t')" by fastforce
    have runs: "runs ?t t'" using runs_drain(3) [of ?t e] take by simp
    show ?thesis unfolding d'
      by (rule drain_quiet [OF ok out]; insert runs take st q DrainFailed)
        (auto simp: drain_failed_def fault_pending_take_def publish_terminal_flags_def drain_inmod_def drain_place_ok_def queue_ok_def split: if_splits)
  next
    case (DrainReplies cleared msg)
    then have d': "d' = d \<lparr> dl_transport := fault_pending_reply env cleared msg ?t, dl_drain := DrainCloses \<rparr>"
      using step by (simp add: drain_step_def split: if_splits)
    have f: "framed ?t (fault_pending_reply env cleared msg ?t)"
      by (auto simp: fault_pending_reply_def Let_def intro!: framed_messages framed_terminal framed_refl)
    have runs: "runs ?t (fault_pending_reply env cleared msg ?t)" by (rule runs_drain)
    have fc: "tr_faulted ?t \<or> tr_closed ?t" using at DrainReplies by (simp add: drain_place_ok_def)
    then have fc': "tr_faulted (dl_transport d') \<or> tr_closed (dl_transport d')" using stickyD(1,2) [OF runs_sticky [OF runs]] d' by auto
    show ?thesis
      by (rule drain_quiet [OF ok out]; insert runs fc' d' st framedD(1,2) [OF f] DrainReplies)
        (auto simp: drain_inmod_def drain_place_ok_def queue_ok_def)
  next
    case DrainCloses
    then have d': "d' = d \<lparr> dl_drain := DrainNone, dl_transport := ?t \<lparr> tr_drain_started := False \<rparr> \<rparr>"
      using step by (simp add: drain_step_def on_transport_def split: if_splits)
    have fc: "tr_faulted ?t \<or> tr_closed ?t" using at DrainCloses by (simp add: drain_place_ok_def)
    show ?thesis
      by (rule drain_quiet [OF ok out]; insert d' fc)
        (auto simp: drain_inmod_def drain_place_ok_def queue_ok_def intro!: runs_fields runs_refl)
  qed (use False in auto)
qed
lemma inner_ok:
  assumes ok: "delivery_ok env d" and inner: "inner_event tev" and step: "transport_step tev (dl_transport d) = Some t'"
  shows "delivery_ok env (d \<lparr> dl_transport := t' \<rparr>)"
proof (rule transport_moved [OF ok])
  show "runs (dl_transport d) t'" by (rule runs_step [OF runs_refl step])
qed (use framedD [OF inner_framed [OF step inner]] in blast)+

lemma begins_ok:
  assumes ok: "delivery_ok env d" and fresh: "hget (dl_sends d) n = None"
  shows "delivery_ok env (put_send n (SendGate msg) d)"
proof (rule send_moved [OF ok runs_refl, where q = "Some (SendGate msg)" and n = n])
  show "queue_ok (put_send n (SendGate msg) d)" using ok by (simp add: delivery_ok_def queue_ok_def put_send_def)
qed (use fresh in \<open>simp_all add: put_send_def not_inmod place_ok_free\<close>)

lemma delivery_step_ok:
  assumes ok: "delivery_ok env d" and step: "delivery_step env ev d = Some d'"
  shows "delivery_ok env d'"
proof -
  have queue: "delivery_ok env (d \<lparr> dl_transport := u \<rparr>)" if "runs (dl_transport d) u" "framed (dl_transport d) u" for u
    using transport_moved [OF ok that(1)] framedD [OF that(2)] by blast
  have d': "delivery_ok env d'" if "hget (dl_sends d) n = Some p \<and> send_step env n ev p d = Some d' \<or> drain_step env ev (dl_drain d) d = Some d'" for n p
    using that send_step_ok [OF ok] drain_step_ok [OF ok] by blast
  show ?thesis
  proof (cases ev)
    case (Inner tev)
    then show ?thesis using step inner_ok [OF ok] by (auto simp: delivery_step_def split: if_splits)
  next
    case (SendBegins n msg)
    then show ?thesis using step ok begins_ok [OF ok] by (auto simp: delivery_step_def split: if_splits)
  next
    case (ModuleSends len bytes)
    then show ?thesis using step runs_recv(1) framed_sends(4) by (auto simp: delivery_step_def intro!: queue)
  next
    case Receives
    then show ?thesis using step runs_recv(2) framed_sends(5) by (auto simp: delivery_step_def intro!: queue)
  qed (use step d' in \<open>auto simp: delivery_step_def send_of_def split: option.splits\<close>)
qed

lemma delivery_start_ok: "tr_cb_active t = 0 \<Longrightarrow> \<not> tr_drain_started t \<Longrightarrow> tr_pending t = [] \<Longrightarrow> delivery_ok env (delivery_start t)"
  by (simp add: delivery_ok_def delivery_start_def queue_ok_def drain_inmod_def drain_place_ok_def sends_inside_def inmod_def hmap_ok_def)

lemma delivery_reach_ok: "delivery_reach env d \<Longrightarrow> delivery_ok env d"
proof (induction rule: delivery_reach.induct)
  case (eager config)
  show ?case by (rule delivery_start_ok) (simp_all add: transport_new_def)
next
  case (deferred config)
  show ?case by (rule delivery_start_ok) (simp_all add: transport_new_def defer_initializer_def set_physical_def)
next
  case (step d ev d')
  then show ?case using delivery_step_ok by blast
qed
section \<open>A run of the deliveries is a run of the transport, step by step\<close>

lemma transport_of: "dl_transport (put_send n p d) = dl_transport d" "dl_transport (end_send n d) = dl_transport d"
  "dl_transport (on_transport f d) = f (dl_transport d)"
  by (simp_all add: put_send_def end_send_def on_transport_def)

lemma send_step_runs:
  assumes ok: "delivery_ok env d" and p: "hget (dl_sends d) n = Some p" and step: "send_step env n ev p d = Some d'"
  shows "runs (dl_transport d) (dl_transport d')"
proof (cases p)
  case (SendGate msg)
  have "runs (dl_transport d) t'" if "schedule_initializer (dl_transport d) = (r, t')" for r t'
    using runs_schedule [OF runs_refl, of "dl_transport d"] that by simp
  then have "runs (dl_transport d) (dl_transport d')" if "send_gate n msg d = Some d'"
    using that by (auto simp: send_gate_def transport_of runs_refl split: option.splits sum.splits prod.splits)
  then show ?thesis using step SendGate by (auto simp: send_step_def transport_of runs_refl split: delivery_event.splits)
next
  case (SendAwait msg b)
  have "runs (dl_transport d) (dl_transport d')" if "send_initialized n msg d = Some d'"
    using that by (auto simp: send_initialized_def transport_of runs_refl split: option.splits sum.splits)
  then show ?thesis using step SendAwait
    by (auto simp: send_step_def initiator_leaves_def transport_of runs_refl runs_abandon split: delivery_event.splits)
next
  case (SendFailed msg e)
  then show ?thesis using step by (auto simp: send_step_def transport_of runs_uninitialized split: delivery_event.splits)
next
  case (SendCheck msg)
  then show ?thesis using step by (auto simp: send_step_def send_checked_def transport_of runs_refl Let_def split: delivery_event.splits)
next
  case (SendEnqueue msg peer)
  have "dl_transport (send_enqueued n msg peer d) = snd (send_enqueue msg peer (dl_transport d))"
    by (simp add: send_enqueued_def transport_of split: prod.split enqueued.split)
  then show ?thesis using step SendEnqueue runs_enqueue by (auto simp: send_step_def split: delivery_event.splits)
next
  case (SendDelivers msg peer place)
  show ?thesis
  proof (cases "ev = SendDropped n \<and> place = DeliverParked")
    case True
    then show ?thesis using step SendDelivers by (auto simp: send_step_def transport_of runs_refl)
  next
    case False
    then obtain r t' where ev: "deliver_event env msg peer ev place (dl_transport d) = Some (r, t')"
      and d': "d' = send_next n msg peer (r, t') (note_entry msg peer (live_of ev) (r, t') d)"
      using step SendDelivers by (auto simp: send_step_def)
    have "card (sends_inside (dl_sends d)) \<noteq> 0" if "place = InModule"
      using p SendDelivers that finite_inside [of "dl_sends d"] by (auto simp: sends_inside_def inmod_def)
    then have "place = InModule \<longrightarrow> tr_cb_active (dl_transport d) \<noteq> 0" using ok by (simp add: delivery_ok_def)
    then have "runs (dl_transport d) t'" by (rule deliver_runs [OF ev])
    then show ?thesis by (simp add: d' send_next_def transport_of runs_refund split: deliver_next.split)
  qed
qed

lemma drain_step_runs:
  assumes ok: "delivery_ok env d" and step: "drain_step env ev (dl_drain d) d = Some d'"
  shows "runs (dl_transport d) (dl_transport d')"
proof (cases "dl_drain d")
  case (DrainDelivers msg place)
  then obtain r t' where ev: "deliver_event env msg None ev place (dl_transport d) = Some (r, t')"
    and d': "d' = drain_next_of msg (r, t') (note_entry msg None (live_of ev) (r, t') d)"
    using step by (auto simp: drain_step_def)
  have "place = InModule \<longrightarrow> tr_cb_active (dl_transport d) \<noteq> 0" using ok DrainDelivers by (simp add: delivery_ok_def drain_inmod_def)
  then have "runs (dl_transport d) t'" by (rule deliver_runs [OF ev])
  then show ?thesis by (simp add: d' drain_next_of_def split: deliver_next.split sum.split)
next
  case DrainLoop
  have "dl_transport (drain_taken d) = snd (drain_take (dl_transport d))"
    by (simp add: drain_taken_def split: prod.split drain_next.split)
  then show ?thesis using step DrainLoop runs_drain(1) by (auto simp: drain_step_def split: if_splits)
next
  case DrainEmpty
  have "dl_transport (drain_saw_empty d) = snd (drain_empty (dl_transport d))"
    by (simp add: drain_saw_empty_def split: prod.split drain_next.split)
  then show ?thesis using step DrainEmpty runs_drain(2) by (auto simp: drain_step_def split: if_splits)
next
  case (DrainFailed msg e)
  have "dl_transport (drain_failed msg e d) = snd (fault_pending_take e (dl_transport d))"
    by (simp add: drain_failed_def split: prod.split option.split)
  then show ?thesis using step DrainFailed runs_drain(3) by (auto simp: drain_step_def split: if_splits)
qed (use step in \<open>auto simp: drain_step_def transport_of split: if_splits intro!: runs_refl runs_drain(4) runs_fields\<close>)

lemma delivery_step_runs:
  assumes ok: "delivery_ok env d" and step: "delivery_step env ev d = Some d'"
  shows "runs (dl_transport d) (dl_transport d')"
proof -
  have parts: "runs (dl_transport d) (dl_transport d')"
    if "hget (dl_sends d) n = Some p \<and> send_step env n ev p d = Some d' \<or> drain_step env ev (dl_drain d) d = Some d'" for n p
    using that send_step_runs [OF ok] drain_step_runs [OF ok] by blast
  show ?thesis
  proof (cases ev)
    case (Inner tev)
    then show ?thesis using step runs_step [OF runs_refl] by (auto simp: delivery_step_def split: if_splits)
  qed (use step parts runs_recv in \<open>auto simp: delivery_step_def send_of_def transport_of runs_refl split: option.splits if_splits\<close>)
qed

lemma runs_reach: "transport_reach t \<Longrightarrow> runs t t' \<Longrightarrow> transport_reach t'"
  unfolding runs_def using run_reach by blast
section \<open>Properties\<close>

theorem deliveries_are_transport_runs:
  assumes "delivery_reach env d"
  shows "transport_reach (dl_transport d)"
  using assms
proof (induction rule: delivery_reach.induct)
  case (step d ev d')
  then show ?case using runs_reach delivery_step_runs [OF delivery_reach_ok] by blast
qed (auto simp: delivery_start_def intro: transport_reach.intros)

text \<open>C17. Whatever the host, the module and the peers do and in whatever order: a method call that entered the callback of
  a module did so when the module had reported ready, or it was confidential, sent by the one peer this module is
  controlled by, to a path, interface and member that is listed for that, while the peer was alive.\<close>

theorem calls_enter_ready_or_authorized:
  assumes "delivery_reach env d" "en \<in> set (dl_entered d)" "is_call (en_message en)" "\<not> en_ready en"
  shows "\<exists>peer r. en_peer en = Some peer \<and> en_live en \<and> de_peer env = Some peer \<and> r \<in> set (de_routes env)
    \<and> h_confidential (m_header (en_message en)) \<and> h_sender (m_header (en_message en)) = Some peer
    \<and> h_path (m_header (en_message en)) = Some (rt_path r) \<and> h_interface (m_header (en_message en)) = Some (rt_interface r)
    \<and> h_member (m_header (en_message en)) = Some (rt_member r)"
  using delivery_reach_ok [OF assms(1)] assms(2-4) unfolding delivery_ok_def entry_ok_def route_ok_def by blast

text \<open>C18. Along every run, until the module is faulted or closed, the calls that had to wait for readiness are the ones the
  drainer took, in their order, followed by those still waiting; while one waits, a drainer runs; and the flag that
  keeps a second drainer from starting is set exactly while one runs.\<close>

theorem waiting_calls_are_drained:
  assumes "delivery_reach env d" "\<not> tr_faulted (dl_transport d)" "\<not> tr_closed (dl_transport d)"
  shows "dl_queued d = dl_taken d @ tr_pending (dl_transport d) \<and> (tr_pending (dl_transport d) \<noteq> [] \<longrightarrow> dl_drain d \<noteq> DrainNone)
    \<and> (tr_drain_started (dl_transport d) \<longleftrightarrow> dl_drain d \<noteq> DrainNone)"
  using delivery_reach_ok [OF assms(1)] assms(2,3) by (simp add: delivery_ok_def queue_ok_def)

section \<open>Examples\<close>

lemma delivery_run_reach: "delivery_reach env d \<Longrightarrow> delivery_run env evs d = Some d' \<Longrightarrow> delivery_reach env d'"
  by (induction evs arbitrary: d) (auto split: option.splits intro: delivery_reach.step)

definition demo_control :: bus_name where "demo_control = BusName '':1.7''"

definition demo_route :: pre_ready_route where
  "demo_route = \<lparr> rt_path = ObjectPath ''/p'', rt_interface = InterfaceName ''a.b'', rt_member = MemberName ''M'' \<rparr>"

definition demo_delivery :: delivery_env where
  "demo_delivery = \<lparr> de_label = ''m'', de_peer = Some demo_control, de_routes = [demo_route], de_frame = (\<lambda>_. Inr 10) \<rparr>"

definition demo_secret :: message where
  "demo_secret = (let c = confidential_call (BusName ''m'') (rt_path demo_route) (rt_interface demo_route) (rt_member demo_route) JNull in
     c \<lparr> m_header := (m_header c) \<lparr> h_sender := Some demo_control \<rparr> \<rparr>)"

definition demo_plain :: message where
  "demo_plain = method_call (BusName ''m'') (ObjectPath ''/q'') (InterfaceName ''a.b'') (MemberName ''N'') JNull"

definition demo_started :: transport where
  "demo_started = the (transport_run [EagerBegins, EagerReturns (Inr demo_vtable), Admit] (transport_new ''cfg''))"

lemma demo_started_runs: "transport_run [EagerBegins, EagerReturns (Inr demo_vtable), Admit] (transport_new ''cfg'') = Some demo_started"
  by code_simp

lemma demo_started_facts:
  "\<not> tr_faulted demo_started" "\<not> tr_closed demo_started" "tr_gate demo_started = Some True" "ph_result (tr_physical demo_started) = Some (Inr ())"
  "\<not> tr_ready demo_started" "tr_init_started demo_started" "\<not> tr_init_failed demo_started" "\<not> tr_stopped demo_started" "tr_routing demo_started"
  "tr_flags demo_started = TERMINAL_LIVE" "tr_module demo_started = Some demo_vtable" "\<not> tr_cb_closed demo_started" "tr_cb_active demo_started = 0"
  "tr_inflight demo_started = 0" "tr_pending demo_started = []" "\<not> tr_drain_started demo_started" "tr_queue demo_started = []" "tr_sender demo_started"
  by code_simp+

lemma inner_run:
  "transport_run evs t = Some t' \<Longrightarrow> list_all inner_event evs \<Longrightarrow>
     delivery_run env (map Inner evs @ rest) (d \<lparr> dl_transport := t \<rparr>) = delivery_run env rest (d \<lparr> dl_transport := t' \<rparr>)"
  by (induction evs arbitrary: t) (auto simp: delivery_step_def split: option.splits)

lemma demo_started_reach: "delivery_reach env (delivery_start demo_started)"
proof (rule delivery_run_reach [OF delivery_reach.eager])
  let ?evs = "[EagerBegins, EagerReturns (Inr demo_vtable), Admit]"
  have "list_all inner_event ?evs" by (simp add: inner_event_def)
  from inner_run [OF demo_started_runs this, of env "[]" "delivery_start (transport_new ''cfg'')"]
  show "delivery_run env (map Inner ?evs) (delivery_start (transport_new ''cfg'')) = Some (delivery_start demo_started)"
    by (simp add: delivery_start_def)
qed

text \<open>Before readiness the controller's call enters the module at once; another call waits.\<close>

definition demo_calls :: "delivery_event list" where
  "demo_calls = [SendBegins 0 demo_secret, SendPassesGate 0, SendInitialized 0, SendChecks 0 True, SendEnqueues 0, SendDeliverChecks 0,
     SendEnters 0 True, SendReturns 0 TB_OK, SendBegins 1 demo_plain, SendPassesGate 1, SendInitialized 1, SendChecks 1 True, SendEnqueues 1]"

lemmas demo_simps = delivery_start_def delivery_step_def send_of_def send_step_def put_send_def end_send_def on_transport_def
  send_gate_def init_gate_def schedule_initializer_def send_initialized_def init_answer_def send_checked_def authorized_pre_ready_peer_def
  is_ready_def is_call_def send_enqueued_def send_enqueue_def deliver_event_def deliver_check_def deliver_enter_def deliver_returned_def
  send_next_def note_entry_def live_of_def send_refund_def did_native_def demo_delivery_def demo_secret_def demo_plain_def confidential_call_def
  method_call_def demo_route_def demo_control_def MAX_FRAME_LEN_def TB_OK_def demo_started_facts Let_def

definition demo_waiting :: delivery where
  "demo_waiting = the (delivery_run demo_delivery demo_calls (delivery_start demo_started))"

lemma demo_waiting_run:
  "delivery_run demo_delivery demo_calls (delivery_start demo_started) = Some demo_waiting"
  "dl_entered demo_waiting = [\<lparr> en_message = demo_secret, en_ready = False, en_peer = Some demo_control, en_live = True \<rparr>]"
  "dl_queued demo_waiting = [demo_plain]" "dl_taken demo_waiting = []" "dl_drain demo_waiting = DrainWait"
  "\<not> tr_faulted (dl_transport demo_waiting)" "\<not> tr_closed (dl_transport demo_waiting)"
  by (simp_all add: demo_waiting_def demo_calls_def demo_simps)
theorem calls_enter_ready_or_authorized_witness:
  "de_peer demo_delivery = Some demo_control \<and> h_confidential (m_header demo_secret)"
proof -
  let ?en = "\<lparr> en_message = demo_secret, en_ready = False, en_peer = Some demo_control, en_live = True \<rparr>"
  have "?en \<in> set (dl_entered demo_waiting)" using demo_waiting_run(2) by simp
  moreover have "is_call (en_message ?en)" "\<not> en_ready ?en" by (simp_all add: demo_simps)
  ultimately show ?thesis
    using calls_enter_ready_or_authorized [OF delivery_run_reach [OF demo_started_reach demo_waiting_run(1)], of ?en] by auto
qed

theorem waiting_calls_are_drained_witness: "tr_pending (dl_transport demo_waiting) = [demo_plain] \<and> tr_drain_started (dl_transport demo_waiting)"
  using waiting_calls_are_drained [OF delivery_run_reach [OF demo_started_reach demo_waiting_run(1)] demo_waiting_run(6,7)] demo_waiting_run(3-5)
  by simp

text \<open>The count of calls in flight: a module that answers a call while it is being delivered and then reports an error for
  it. Receiving the answer gives the place back, and so does the failed send.\<close>

definition demo_answered :: "delivery_event list" where
  "demo_answered = [Inner Ready, SendBegins 1 demo_plain, SendPassesGate 1, SendInitialized 1, SendChecks 1 True, SendEnqueues 1,
     SendDeliverChecks 1, SendEnters 1 True, ModuleSends 9 (Some (method_return (m_header demo_plain) JNull)), Receives, SendReturns 1 1]"

theorem inflight_count_wraps:
  "\<exists>d. delivery_reach demo_delivery d \<and> dl_sends d = [] \<and> dl_entered d \<noteq> [] \<and> tr_inflight (dl_transport d) = 2 ^ 64 - 1"
proof -
  have "\<exists>d. delivery_run demo_delivery demo_answered (delivery_start demo_started) = Some d \<and> dl_sends d = [] \<and> dl_entered d \<noteq> []
     \<and> tr_inflight (dl_transport d) = 2 ^ 64 - 1"
    by (simp add: demo_answered_def demo_simps inner_event_def host_ready_def host_send_def module_recv_def is_answer_def method_return_def
        HOST_QUEUE_CAPACITY_def TB_BACKPRESSURE_def TB_CLOSED_def TB_BAD_ARGUMENT_def)
  then show ?thesis using delivery_run_reach [OF demo_started_reach] by blast
qed

end
