(* ===== verification/HostRegistry.thy ===== *)
theory HostRegistry
  imports ModuleTransportProps Placement Broker
begin

text \<open>
  The registry of loaded modules (\<open>module/host.rs\<close>): admission of an artifact or of a lazy registration, the
  states that are reported, who a unique peer is, and the lifecycle operations stop, reinitialize, enable and detach.

  A definition is one section under the lock of the module list. The transports are a store under the unique name
  of the module's peer, which is also the identity of the transport object. The file system, the loader's gate and
  what a transport answers are arguments. The revocation of callbacks in the broker's router is logged.
\<close>

section \<open>Manifests and descriptors\<close>

text \<open>\<open>mm_rest\<close> are the fields that the host only carries.\<close>

record module_manifest =
  mm_schema :: nat
  mm_id :: string
  mm_version :: version
  mm_bus_name :: bus_name
  mm_object_path :: object_path
  mm_provides :: "interface_version list"
  mm_requires :: "(interface_version \<times> bool) list"
  mm_lazy_init :: bool
  mm_rest :: json

definition MANIFEST_SCHEMA :: nat where "MANIFEST_SCHEMA = 1"

record host_info =
  hi_name :: string
  hi_version :: string
  hi_file :: string
  hi_state :: module_state
  hi_manifest :: module_manifest
  hi_rustc :: string
  hi_mismatch :: bool
  hi_enabled :: bool

text \<open>The text fields of a descriptor, where they are UTF-8.\<close>

record descriptor =
  ds_name :: "string option"
  ds_version :: "string option"
  ds_rustc :: "string option"

definition sanitized_field :: "string option \<Rightarrow> string option" where
  "sanitized_field field =
     (case field of
        None \<Rightarrow> None
      | Some raw \<Rightarrow> (let s = sanitize_untrusted raw in if s \<noteq> [] \<and> s = raw then Some s else None))"

definition safe_file_name :: "string \<Rightarrow> string" where
  "safe_file_name path =
     (case map_option sanitize_untrusted (file_name path) of
        Some f \<Rightarrow> if f \<noteq> [] then f else ''module''
      | None \<Rightarrow> ''module'')"

definition provisional_info :: "string \<Rightarrow> module_manifest \<Rightarrow> host_info result" where
  "provisional_info path m =
     (let name = sanitize_untrusted (mm_id m); shown = version_display (mm_version m); version = sanitize_untrusted shown in
      if \<not> mm_lazy_init m \<or> mm_schema m \<noteq> MANIFEST_SCHEMA \<or> \<not> canonical_module_id (mm_id m) \<or> version \<noteq> shown
         \<or> length (mm_id m) > 64 \<or> length shown > 32
      then Inl (module_refused path ''lazy manifest identity is invalid'')
      else Inr \<lparr> hi_name = name, hi_version = version, hi_file = safe_file_name path, hi_state = Resolved, hi_manifest = m,
             hi_rustc = [], hi_mismatch = False, hi_enabled = True \<rparr>)"

definition loaded_identity :: "descriptor \<Rightarrow> module_manifest \<Rightarrow> (string \<times> string) option" where
  "loaded_identity ds m =
     (case ds_name ds of
        None \<Rightarrow> None
      | Some n \<Rightarrow>
          (case sanitized_field (ds_version ds) of
             None \<Rightarrow> None
           | Some version \<Rightarrow>
               if mm_schema m = MANIFEST_SCHEMA \<and> canonical_module_id (mm_id m) \<and> n = mm_id m
                  \<and> sanitize_untrusted (version_display (mm_version m)) = version
                  \<and> length (mm_id m) \<le> 64 \<and> length (version_display (mm_version m)) \<le> 32
               then Some (sanitize_untrusted n, version) else None))"

text \<open>What is checked of an artifact that was loaded; \<open>gate\<close> is the answer of the loader's descriptor gate.\<close>

definition validate_artifact :: "unit result \<Rightarrow> string \<Rightarrow> string \<Rightarrow> descriptor \<Rightarrow> module_manifest \<Rightarrow> host_info result" where
  "validate_artifact gate host_rustc path ds m =
     (let refuse = (\<lambda>reason. Inl (module_refused path reason));
          shown = version_display (mm_version m) in
      case gate of
        Inl e \<Rightarrow> Inl e
      | Inr _ \<Rightarrow>
          (case sanitized_field (ds_rustc ds) of
             None \<Rightarrow> refuse ''descriptor identity is invalid''
           | Some rustc \<Rightarrow>
               (case ds_name ds of
                  None \<Rightarrow> refuse ''descriptor identity is invalid''
                | Some n \<Rightarrow>
                    if \<not> canonical_module_id (mm_id m) \<or> n \<noteq> mm_id m then refuse ''manifest identity does not match descriptor''
                    else
                      (case sanitized_field (ds_version ds) of
                         None \<Rightarrow> refuse ''descriptor identity is invalid''
                       | Some version \<Rightarrow>
                           if mm_schema m \<noteq> MANIFEST_SCHEMA \<or> sanitize_untrusted shown \<noteq> version
                              \<or> length (mm_id m) > 64 \<or> length shown > 32
                           then refuse ''manifest identity does not match descriptor''
                           else Inr \<lparr> hi_name = sanitize_untrusted n, hi_version = version, hi_file = safe_file_name path,
                                  hi_state = Resolved, hi_manifest = m, hi_rustc = rustc, hi_mismatch = (rustc \<noteq> host_rustc),
                                  hi_enabled = True \<rparr>))))"

section \<open>State\<close>

record module_entry =
  me_info :: host_info
  me_id :: string
  me_unique :: bus_name
  me_from :: "module_state option"
  me_descriptor :: "(string \<times> bool) option"
  me_busy :: bool
  me_config :: "string option"
  me_callbacks :: bool

text \<open>An admission in flight, which holds the admission lock, and the stages it passes.\<close>

datatype admission = Admitting string host_info module_manifest bool | Published string module_manifest bus_name

datatype host_op =
    StopWaits string | StopDrains string bus_name bool | StopRuns string bus_name | ReinitRuns string
  | StopEnding string bus_name | ReinitEnding string

record module_list =
  hr_loaded :: "module_entry list"
  hr_rejected :: "host_info list"
  hr_transports :: "(bus_name, transport) hashmap"
  hr_admission :: "admission option"
  hr_next_peer :: nat
  hr_ops :: "(nat, host_op) hashmap"
  hr_revoked :: "bus_name list"

definition module_list_new :: "nat \<Rightarrow> module_list" where
  "module_list_new peers =
     \<lparr> hr_loaded = [], hr_rejected = [], hr_transports = [], hr_admission = None, hr_next_peer = peers, hr_ops = [], hr_revoked = [] \<rparr>"

definition transport_at :: "module_list \<Rightarrow> module_entry \<Rightarrow> transport" where
  "transport_at reg m = the (hget (hr_transports reg) (me_unique m))"

definition set_transport :: "bus_name \<Rightarrow> (transport \<Rightarrow> transport) \<Rightarrow> module_list \<Rightarrow> module_list" where
  "set_transport u f reg = reg \<lparr> hr_transports := hput u (f (the (hget (hr_transports reg) u))) (hr_transports reg) \<rparr>"

definition named :: "string \<Rightarrow> module_entry \<Rightarrow> bool" where
  "named name m \<longleftrightarrow> hi_name (me_info m) = name"

fun change_first :: "('a \<Rightarrow> bool) \<Rightarrow> ('a \<Rightarrow> 'a) \<Rightarrow> 'a list \<Rightarrow> 'a list" where
  "change_first P f [] = []"
| "change_first P f (x # xs) = (if P x then f x # xs else x # change_first P f xs)"

definition change_module :: "string \<Rightarrow> (module_entry \<Rightarrow> module_entry) \<Rightarrow> module_list \<Rightarrow> module_list" where
  "change_module name f reg = reg \<lparr> hr_loaded := change_first (named name) f (hr_loaded reg) \<rparr>"

definition set_state :: "module_state \<Rightarrow> module_entry \<Rightarrow> module_entry" where
  "set_state s m = m \<lparr> me_info := (me_info m) \<lparr> hi_state := s \<rparr> \<rparr>"

section \<open>What is reported\<close>

definition terminal_state :: "module_state \<Rightarrow> bool" where
  "terminal_state s \<longleftrightarrow> (case s of Stopped \<Rightarrow> True | Faulted _ \<Rightarrow> True | ModFailed _ \<Rightarrow> True | _ \<Rightarrow> False)"

definition running_state :: "transport \<Rightarrow> module_state" where
  "running_state t = (if tr_inflight t = 0 then Ready else Serving)"

definition snapshot_state :: "transport \<Rightarrow> module_state \<Rightarrow> module_state" where
  "snapshot_state t s =
     (if tr_init_failed t \<and> s \<notin> {Stopped, Disabled} then ModFailed ''module initialization failed''
      else if tr_faulted t \<and> s \<notin> {Stopped, Disabled} then Faulted ''module reported an unrecoverable fault''
      else if is_ready t \<and> s \<in> {Resolved, ModInitializing} \<or> s \<in> {Ready, Serving} then running_state t
      else if tr_init_started t \<and> s = Resolved then ModInitializing
      else s)"

definition snapshot :: "transport \<Rightarrow> module_entry \<Rightarrow> host_info" where
  "snapshot t m =
     (let info = me_info m;
          info1 = (case me_descriptor m of Some (rustc, mismatch) \<Rightarrow> info \<lparr> hi_rustc := rustc, hi_mismatch := mismatch \<rparr> | None \<Rightarrow> info) in
      info1 \<lparr> hi_state := snapshot_state t (hi_state info) \<rparr>)"

definition state_of :: "module_list \<Rightarrow> module_entry \<Rightarrow> module_state" where
  "state_of reg m = hi_state (snapshot (transport_at reg m) m)"

definition list_modules :: "module_list \<Rightarrow> host_info list" where
  "list_modules reg = map (\<lambda>m. snapshot (transport_at reg m) m) (hr_loaded reg) @ hr_rejected reg"

definition identifiable :: "transport \<Rightarrow> bool" where
  "identifiable t \<longleftrightarrow> \<not> tr_faulted t \<and> \<not> tr_init_failed t \<and> \<not> tr_stopped t \<and> \<not> tr_closed t"

definition module_for_sender :: "module_list \<Rightarrow> bus_name \<Rightarrow> string option" where
  "module_for_sender reg sender =
     (if \<not> is_unique sender then None
      else
        (case find (\<lambda>m. me_unique m = sender) (hr_loaded reg) of
           None \<Rightarrow> None
         | Some m \<Rightarrow>
             if \<not> identifiable (transport_at reg m) then None
             else if state_of reg m \<in> {Resolved, ModInitializing, Ready, Serving} then Some (me_id m) else None))"

definition sender_for_module :: "module_list \<Rightarrow> string \<Rightarrow> bus_name option" where
  "sender_for_module reg i =
     (if i = [] then None
      else
        (case filter (\<lambda>m. me_id m = i \<and> identifiable (transport_at reg m) \<and> state_of reg m \<in> {ModInitializing, Ready, Serving}) (hr_loaded reg) of
           [m] \<Rightarrow> Some (me_unique m)
         | _ \<Rightarrow> None))"

definition authenticated_peer :: "module_list \<Rightarrow> string \<Rightarrow> bus_name option" where
  "authenticated_peer reg name =
     (case find (named name) (hr_loaded reg) of
        None \<Rightarrow> None
      | Some m \<Rightarrow>
          (let t = transport_at reg m in
           if \<not> hi_enabled (me_info m) \<or> me_busy m \<or> native_lifecycle_pending t \<or> \<not> is_ready t \<or> tr_faulted t \<or> tr_init_failed t then None
           else if state_of reg m \<in> {Ready, Serving} then Some (me_unique m) else None))"

definition unavailable_for :: "module_list \<Rightarrow> bus_name \<Rightarrow> error option" where
  "unavailable_for reg name =
     (let found = find (\<lambda>m. if is_unique name then me_unique m = name else mm_bus_name (hi_manifest (me_info m)) = name) (hr_loaded reg);
          info = (case found of
             Some m \<Rightarrow> Some (snapshot (transport_at reg m) m)
           | None \<Rightarrow> find (\<lambda>i. mm_bus_name (hi_manifest i) = name) (hr_rejected reg)) in
      case info of
        None \<Rightarrow> None
      | Some i \<Rightarrow>
          (let s = hi_state i; detail = (case state_detail s of Some d \<Rightarrow> d | None \<Rightarrow> ''module is not accepting calls'') in
           if terminal_state s \<or> s = Disabled \<or> (\<exists>r. s = Rejected r) then Some (ModuleUnavailable (hi_name i) (state_name s) detail) else None))"

text \<open>\<open>ensure_ready\<close>: \<open>initialized\<close> is the answer of the wait for the initializer, \<open>in_time\<close> that of the wait for readiness.\<close>

definition ensure_ready :: "module_list \<Rightarrow> string \<Rightarrow> (transport \<Rightarrow> unit result) \<Rightarrow> (transport \<Rightarrow> (bool \<times> transport)) \<Rightarrow> unit result" where
  "ensure_ready reg bus_name initialized waited =
     (case find (\<lambda>m. bus_str (mm_bus_name (hi_manifest (me_info m))) = bus_name) (hr_loaded reg) of
        None \<Rightarrow> Inl (ModuleUnavailable ''registered module'' ''unavailable'' ''module is not loaded'')
      | Some m \<Rightarrow>
          (case initialized (transport_at reg m) of
             Inl e \<Rightarrow> Inl e
           | Inr _ \<Rightarrow>
               (case waited (transport_at reg m) of (in_time, t) \<Rightarrow>
                  if \<not> in_time then Inl (ModuleUnavailable ''registered module'' ''initializing'' ''module did not announce READY before the deadline'')
                  else if is_ready t then Inr ()
                  else Inl (ModuleUnavailable ''registered module'' ''unavailable'' ''module did not become ready''))))"

text \<open>\<open>settle\<close>: \<open>later\<close> is the registry when the wait is over.\<close>

definition settle_module :: "module_list \<Rightarrow> module_list \<Rightarrow> string \<Rightarrow> host_info option" where
  "settle_module reg later bus_name =
     (let owner = (\<lambda>m. bus_str (mm_bus_name (hi_manifest (me_info m))) = bus_name);
          shown = (\<lambda>r. map_option (\<lambda>m. snapshot (transport_at r m) m) (find owner (hr_loaded r))) in
      case find owner (hr_loaded reg) of
        None \<Rightarrow> None
      | Some m \<Rightarrow> if state_of reg m = Resolved then shown reg else shown later)"

section \<open>Refusals\<close>

datatype refusal_class = RefusalRejected | RefusalUnresolved | RefusalFailed

definition refusal_state :: "refusal_class \<Rightarrow> string \<Rightarrow> module_state" where
  "refusal_state c reason =
     (case c of RefusalRejected \<Rightarrow> Rejected reason | RefusalUnresolved \<Rightarrow> Unresolved reason | RefusalFailed \<Rightarrow> ModFailed reason)"

definition rejection_info :: "json \<Rightarrow> error \<Rightarrow> host_info" where
  "rejection_info rest e =
     (let (file, reason) = (case e of ModuleRefused f r \<Rightarrow> (f, r) | _ \<Rightarrow> (''module'', ''module inspection failed'')) in
      \<lparr> hi_name = file, hi_version = [], hi_file = file, hi_state = Rejected reason,
        hi_manifest = \<lparr> mm_schema = MANIFEST_SCHEMA, mm_id = file, mm_version = Version_new 0 0 0,
          mm_bus_name = BusName ''ai.tinyhumans.module.Rejected'', mm_object_path = ObjectPath ''/ai/tinyhumans/module/Rejected'',
          mm_provides = [], mm_requires = [], mm_lazy_init = False, mm_rest = rest \<rparr>,
        hi_rustc = [], hi_mismatch = False, hi_enabled = False \<rparr>)"

definition record_rejection :: "json \<Rightarrow> error \<Rightarrow> module_list \<Rightarrow> module_list" where
  "record_rejection rest e reg =
     (case e of
        ModuleRefused _ _ \<Rightarrow>
          (let info = rejection_info rest e in
           if list_ex (\<lambda>known. hi_file known = hi_file info) (hr_rejected reg) then reg
           else reg \<lparr> hr_rejected := hr_rejected reg @ [info] \<rparr>)
      | _ \<Rightarrow> reg)"

definition record_manifest_rejection :: "error \<Rightarrow> module_manifest \<Rightarrow> refusal_class \<Rightarrow> module_list \<Rightarrow> module_list" where
  "record_manifest_rejection e m c reg =
     (case e of
        ModuleRefused file reason \<Rightarrow>
          (let info = \<lparr> hi_name = sanitize_untrusted (mm_id m), hi_version = sanitize_untrusted (version_display (mm_version m)),
                  hi_file = file, hi_state = refusal_state c reason, hi_manifest = m, hi_rustc = [], hi_mismatch = False, hi_enabled = False \<rparr> in
           reg \<lparr> hr_rejected := (if list_ex (\<lambda>known. hi_file known = file) (hr_rejected reg)
                then change_first (\<lambda>known. hi_file known = file) (\<lambda>_. info) (hr_rejected reg)
                else hr_rejected reg @ [info]) \<rparr>)
      | _ \<Rightarrow> reg)"

definition ensure_dependencies :: "module_list \<Rightarrow> module_manifest \<Rightarrow> string \<Rightarrow> unit result" where
  "ensure_dependencies reg m path =
     (let available = concat (map (\<lambda>l. map iv_interface (mm_provides (hi_manifest (me_info l)))) (hr_loaded reg)) in
      if list_ex (\<lambda>(i, optional). \<not> optional \<and> iv_interface i \<notin> set available) (mm_requires m)
      then Inl (module_refused path ''a required interface has no provider'') else Inr ())"

section \<open>Admission\<close>

text \<open>Both ways of admission up to the transport; \<open>config_ok\<close> says that the configuration is serialisable.\<close>

definition admit_checked :: "string \<Rightarrow> module_manifest \<Rightarrow> host_info result \<Rightarrow> bool \<Rightarrow> bool \<Rightarrow> module_list \<Rightarrow> unit result \<times> module_list" where
  "admit_checked path m checked config_ok deferred reg =
     (case checked of
        Inl e \<Rightarrow> (Inl e, record_manifest_rejection e m RefusalRejected reg)
      | Inr info \<Rightarrow>
          if list_ex (named (hi_name info)) (hr_loaded reg) then
            (let e = module_refused path ''module name is already loaded'' in (Inl e, record_manifest_rejection e m RefusalUnresolved reg))
          else if \<not> config_ok then
            (let e = module_refused path ''module configuration is invalid'' in (Inl e, record_manifest_rejection e m RefusalRejected reg))
          else (Inr (), reg \<lparr> hr_admission := Some (Admitting path (info \<lparr> hi_state := (if deferred then Resolved else ModInitializing) \<rparr>) m deferred) \<rparr>))"

definition admit_artifact :: "unit result \<Rightarrow> string \<Rightarrow> string \<Rightarrow> descriptor \<Rightarrow> module_manifest \<Rightarrow> bool \<Rightarrow> bool \<Rightarrow> module_list \<Rightarrow> unit result \<times> module_list" where
  "admit_artifact gate host_rustc path ds m linked config_ok reg =
     admit_checked path m (validate_artifact gate host_rustc path ds m) config_ok (linked \<or> mm_lazy_init m) reg"

definition admit_lazy :: "string \<Rightarrow> module_manifest \<Rightarrow> bool \<Rightarrow> module_list \<Rightarrow> unit result \<times> module_list" where
  "admit_lazy path m config_ok reg = admit_checked path m (provisional_info path m) config_ok True reg"

definition admit_failed :: "string \<Rightarrow> module_manifest \<Rightarrow> bool \<Rightarrow> module_list \<Rightarrow> module_list" where
  "admit_failed path m bad_vtable reg =
     record_manifest_rejection
       (module_refused path (if bad_vtable then ''module returned an invalid vtable'' else ''module initialization failed''))
       m RefusalFailed (reg \<lparr> hr_admission := None \<rparr>)"

definition entry_new :: "host_info \<Rightarrow> module_manifest \<Rightarrow> bus_name \<Rightarrow> module_entry" where
  "entry_new info m u =
     \<lparr> me_info = info, me_id = mm_id m, me_unique = u, me_from = None, me_descriptor = None, me_busy = False,
       me_config = None, me_callbacks = False \<rparr>"

text \<open>A staged peer takes the next peer number of the broker; \<open>free\<close> says that the module's name could be reserved.\<close>

definition admit_attach :: "string \<Rightarrow> host_info \<Rightarrow> module_manifest \<Rightarrow> transport \<Rightarrow> bool \<Rightarrow> module_list \<Rightarrow> module_list" where
  "admit_attach path info m t free reg =
     (let u = unique_name (hr_next_peer reg); reg1 = reg \<lparr> hr_next_peer := Suc (hr_next_peer reg) \<rparr> in
      if \<not> free then
        record_manifest_rejection (module_refused path ''module bus name is already owned'') m RefusalUnresolved (reg1 \<lparr> hr_admission := None \<rparr>)
      else reg1 \<lparr> hr_transports := hput u t (hr_transports reg), hr_loaded := hr_loaded reg @ [entry_new info m u],
             hr_admission := Some (Published path m u) \<rparr>)"

fun remove_first :: "('a \<Rightarrow> bool) \<Rightarrow> 'a list \<Rightarrow> 'a list" where
  "remove_first P [] = []"
| "remove_first P (x # xs) = (if P x then xs else x # remove_first P xs)"

definition admit_start :: "string \<Rightarrow> module_manifest \<Rightarrow> bus_name \<Rightarrow> bool \<Rightarrow> module_list \<Rightarrow> module_list" where
  "admit_start path m u started reg =
     (let reg1 = set_transport u admit_broker (reg \<lparr> hr_admission := None \<rparr>) in
      if started then reg1
      else
        record_manifest_rejection (module_refused path ''module transport could not start'') m RefusalFailed
          (set_transport u (\<lambda>t. request_terminal True (commit_terminal True t))
            (reg1 \<lparr> hr_loaded := remove_first (\<lambda>e. me_unique e = u) (hr_loaded reg1) \<rparr>)))"

text \<open>What the broker is told to attest: the pinned digest, or that of the allowlist when it is also the library's.\<close>

definition admitted_attestation :: "string option \<Rightarrow> string option \<Rightarrow> string option \<Rightarrow> (string \<times> string option) option" where
  "admitted_attestation pinned listed library =
     (let vouched = (case pinned of Some p \<Rightarrow> Some p | None \<Rightarrow> listed);
          matches = (pinned \<noteq> None \<or> (case library of None \<Rightarrow> True | Some l \<Rightarrow> vouched = Some l)) in
      case vouched of Some sha \<Rightarrow> if matches then Some (sha, library) else None | None \<Rightarrow> None)"

section \<open>Lifecycle operations\<close>

definition not_loaded :: error where "not_loaded = failed ''module is not loaded''"

definition already_running :: error where "already_running = failed ''module lifecycle operation is already running''"

definition terminal_error :: "module_entry \<Rightarrow> module_state \<Rightarrow> error" where
  "terminal_error m s =
     ModuleUnavailable (hi_name (me_info m)) (state_name s) (case state_detail s of Some d \<Rightarrow> d | None \<Rightarrow> ''module is terminal'')"

text \<open>\<open>stop_after_lifecycle\<close>: a turn of its wait, nothing while an operation runs.\<close>

definition stop_wait_turn :: "string \<Rightarrow> module_list \<Rightarrow> unit result option" where
  "stop_wait_turn name reg =
     (case find (named name) (hr_loaded reg) of
        None \<Rightarrow> Some (Inl not_loaded)
      | Some m \<Rightarrow> if me_busy m then None else Some (Inr ()))"

definition stop_reserve :: "string \<Rightarrow> module_list \<Rightarrow> (bus_name \<times> bool) result \<times> module_list" where
  "stop_reserve name reg =
     (case find (named name) (hr_loaded reg) of
        None \<Rightarrow> (Inl not_loaded, reg)
      | Some m \<Rightarrow>
          (let old = state_of reg m in
           if me_busy m then (Inl already_running, reg)
           else if terminal_state old then (Inl (terminal_error m old), reg)
           else
             (Inr (me_unique m, me_callbacks m),
              set_transport (me_unique m) (commit_terminal False)
                (change_module name (\<lambda>e. e \<lparr> me_from := get_or_insert (me_from e) old, me_busy := True \<rparr>)
                  (reg \<lparr> hr_revoked := hr_revoked reg @ [me_unique m] \<rparr>)))))"

definition forget_transition :: "string \<Rightarrow> module_list \<Rightarrow> module_list" where
  "forget_transition name reg = change_module name (\<lambda>e. e \<lparr> me_from := None \<rparr>) reg"

definition stop_finish :: "string \<Rightarrow> stop_error + int \<Rightarrow> module_list \<Rightarrow> host_info result \<times> module_list" where
  "stop_finish name answer reg =
     (case find (named name) (hr_loaded reg) of
        None \<Rightarrow> (Inl not_loaded, reg)
      | Some m \<Rightarrow>
          (let t = transport_at reg m in
           case answer of
             Inl (NotStarted e) \<Rightarrow> (Inl e, if \<not> tr_stop_spawned t then forget_transition name reg else reg)
           | Inl (Started e) \<Rightarrow> (Inl e, reg)
           | Inr _ \<Rightarrow>
               (let s = (if tr_faulted t
                     then if tr_init_failed t then ModFailed ''module initialization failed''
                          else Faulted ''module reported an unrecoverable fault''
                     else Stopped) in
                (Inr ((me_info m) \<lparr> hi_state := s \<rparr>), change_module name (set_state s) reg))))"

text \<open>The drop of the guard; a stop keeps its transport.\<close>

definition guard_dropped :: "string \<Rightarrow> bus_name option \<Rightarrow> module_list \<Rightarrow> module_list" where
  "guard_dropped name stopping reg =
     change_module name
       (\<lambda>e. e \<lparr> me_busy := False,
                me_from := (case stopping of
                    Some u \<Rightarrow> if \<not> tr_stop_spawned (the (hget (hr_transports reg) u)) then None else me_from e
                  | None \<Rightarrow> me_from e) \<rparr>) reg"

definition reinit_reserve :: "string \<Rightarrow> string \<Rightarrow> module_list \<Rightarrow> unit result \<times> module_list" where
  "reinit_reserve name fingerprint reg =
     (case find (named name) (hr_loaded reg) of
        None \<Rightarrow> (Inl not_loaded, reg)
      | Some m \<Rightarrow>
          (let s = state_of reg m in
           if (case me_config m of Some initial \<Rightarrow> initial \<noteq> fingerprint | None \<Rightarrow> False)
           then (Inl (failed ''scoped callback configuration is immutable''), reg)
           else if me_busy m then (Inl already_running, reg)
           else if s \<notin> {Ready, Serving} \<and> \<not> (s = Resolved \<and> has_deferred_initializer (transport_at reg m))
           then (Inl (ModuleUnavailable (hi_name (me_info m)) (state_name s) ''module must be ready before reinitialization''), reg)
           else (Inr (), change_module name (\<lambda>e. e \<lparr> me_busy := True \<rparr>) reg)))"

definition reinit_finish :: "string \<Rightarrow> unit result \<Rightarrow> module_list \<Rightarrow> host_info result" where
  "reinit_finish name answer reg =
     (case find (named name) (hr_loaded reg) of
        None \<Rightarrow> Inl not_loaded
      | Some m \<Rightarrow> (case answer of Inl e \<Rightarrow> Inl e | Inr _ \<Rightarrow> Inr (snapshot (transport_at reg m) m)))"

definition enable :: "string \<Rightarrow> bool \<Rightarrow> module_list \<Rightarrow> (host_info \<times> transition option) result \<times> module_list" where
  "enable name enabled reg =
     (case find (named name) (hr_loaded reg) of
        None \<Rightarrow> (Inl (failed ''module is not known''), reg)
      | Some m \<Rightarrow>
          (let t = transport_at reg m; old = state_of reg m in
           if me_busy m \<or> native_lifecycle_pending t then (Inl already_running, reg)
           else if terminal_state old then (Inl (terminal_error m old), reg)
           else
             (let s = (if enabled then if is_ready t then Ready else Resolved else Disabled);
                  f = (\<lambda>e. (set_state s e) \<lparr> me_info := (me_info (set_state s e)) \<lparr> hi_enabled := enabled \<rparr> \<rparr>);
                  info = snapshot t (f m) in
              (Inr (info, if old \<noteq> hi_state info then Some (hi_name info, old, hi_state info) else None), change_module name f reg))))"

definition peer_detached :: "bus_name \<Rightarrow> module_list \<Rightarrow> transition option \<times> module_list" where
  "peer_detached u reg =
     (let here = (\<lambda>m. me_unique m = u); put = (\<lambda>f. reg \<lparr> hr_loaded := change_first here f (hr_loaded reg) \<rparr>) in
      case find here (hr_loaded reg) of
        None \<Rightarrow> (None, reg)
      | Some m \<Rightarrow>
          (let t = transport_at reg m; s = hi_state (me_info m); name = hi_name (me_info m) in
           if \<not> tr_faulted t then
             (case me_from m of
                Some old \<Rightarrow> (Some (name, old, Stopped), put (\<lambda>e. (set_state Stopped e) \<lparr> me_from := None \<rparr>))
              | None \<Rightarrow> (None, reg))
           else if s \<in> {Stopped, Disabled} then (None, reg)
           else
             (let old = (if is_ready t then running_state t else if tr_init_started t \<and> s = Resolved then ModInitializing else s);
                  new = (if tr_init_failed t then ModFailed ''module initialization failed''
                         else Faulted ''module reported an unrecoverable fault'') in
              (Some (name, old, new), put (set_state new)))))"

end
