(* ===== verification/HostRegistrySpec.thy ===== *)
theory HostRegistrySpec
  imports HostRegistry
begin

text \<open>
  The interleavings of the registry's operations with the steps of the modules' transports and of the broker.

  An admission holds its lock from its checks to the start of the peer. A stop and a reinitialization are futures
  that may be dropped at any await, which drops their guard.
\<close>

datatype module_event =
    Native bus_name transport_event
  | PeerTaken
  | AdmitArtifact "unit result" string string descriptor module_manifest bool bool
  | AdmitLazy string module_manifest bool
  | AdmitFails bool
  | AdmitAttaches string "transport_event list" bool
  | AdmitStarts bool
  | DescriptorRead bus_name string bool
  | CallbacksBound bus_name string
  | StopWaitsBegin nat string | StopWaitTurns nat | StopBegin nat string | StopDrained nat "unit result" | StopAnswered nat "stop_error + int"
  | ReinitBegin nat string string | ReinitAnswered nat "unit result"
  | OperationEnds nat
  | Enables string bool
  | Detached bus_name
  | Refused json error

definition put_op :: "nat \<Rightarrow> host_op \<Rightarrow> module_list \<Rightarrow> module_list" where
  "put_op n p reg = reg \<lparr> hr_ops := hput n p (hr_ops reg) \<rparr>"

definition end_op :: "nat \<Rightarrow> module_list \<Rightarrow> module_list" where
  "end_op n reg = reg \<lparr> hr_ops := hdel n (hr_ops reg) \<rparr>"

text \<open>\<open>stop_inner\<close> up to its first await.\<close>

definition stop_begun :: "nat \<Rightarrow> string \<Rightarrow> module_list \<Rightarrow> module_list" where
  "stop_begun n name reg =
     (case stop_reserve name reg of
        (Inl _, reg') \<Rightarrow> end_op n reg'
      | (Inr (u, callbacks), reg') \<Rightarrow> put_op n (StopDrains name u callbacks) reg')"

text \<open>The guard of an operation, dropped when it returns or is dropped.\<close>

definition op_ended :: "host_op \<Rightarrow> module_list \<Rightarrow> module_list" where
  "op_ended p reg =
     (case p of
        StopWaits _ \<Rightarrow> reg
      | StopDrains name u _ \<Rightarrow> guard_dropped name (Some u) reg
      | StopRuns name u \<Rightarrow> guard_dropped name (Some u) reg
      | StopEnding name u \<Rightarrow> guard_dropped name (Some u) reg
      | ReinitRuns name \<Rightarrow> guard_dropped name None reg
      | ReinitEnding name \<Rightarrow> guard_dropped name None reg)"

definition change_unique :: "bus_name \<Rightarrow> (module_entry \<Rightarrow> module_entry) \<Rightarrow> module_list \<Rightarrow> module_list" where
  "change_unique u f reg = reg \<lparr> hr_loaded := change_first (\<lambda>m. me_unique m = u) f (hr_loaded reg) \<rparr>"

fun module_step :: "module_event \<Rightarrow> module_list \<Rightarrow> module_list option" where
  "module_step (Native u ev) reg =
     (case hget (hr_transports reg) u of
        Some t \<Rightarrow> map_option (\<lambda>t'. set_transport u (\<lambda>_. t') reg) (transport_step ev t)
      | None \<Rightarrow> None)"
| "module_step PeerTaken reg = Some (reg \<lparr> hr_next_peer := Suc (hr_next_peer reg) \<rparr>)"
| "module_step (AdmitArtifact gate host_rustc path ds m linked config_ok) reg =
     (if hr_admission reg = None then Some (snd (admit_artifact gate host_rustc path ds m linked config_ok reg)) else None)"
| "module_step (AdmitLazy path m config_ok) reg =
     (if hr_admission reg = None then Some (snd (admit_lazy path m config_ok reg)) else None)"
| "module_step (AdmitFails bad_vtable) reg =
     (case hr_admission reg of Some (Admitting path info m False) \<Rightarrow> Some (admit_failed path m bad_vtable reg) | _ \<Rightarrow> None)"
| "module_step (AdmitAttaches config evs free) reg =
     (case hr_admission reg of
        Some (Admitting path info m deferred) \<Rightarrow>
          (let t0 = transport_new config in
           map_option (\<lambda>t. admit_attach path info m t free reg) (transport_run evs (if deferred then defer_initializer t0 else t0)))
      | _ \<Rightarrow> None)"
| "module_step (AdmitStarts started) reg =
     (case hr_admission reg of Some (Published path m u) \<Rightarrow> Some (admit_start path m u started reg) | _ \<Rightarrow> None)"
| "module_step (DescriptorRead u rustc mismatch) reg = Some (change_unique u (\<lambda>m. m \<lparr> me_descriptor := Some (rustc, mismatch) \<rparr>) reg)"
| "module_step (CallbacksBound u fingerprint) reg =
     Some (change_unique u (\<lambda>m. m \<lparr> me_config := Some fingerprint, me_callbacks := True \<rparr>) reg)"
| "module_step (StopWaitsBegin n name) reg = (if hget (hr_ops reg) n = None then Some (put_op n (StopWaits name) reg) else None)"
| "module_step (StopWaitTurns n) reg =
     (case hget (hr_ops reg) n of
        Some (StopWaits name) \<Rightarrow>
          Some (case stop_wait_turn name reg of None \<Rightarrow> reg | Some (Inl _) \<Rightarrow> end_op n reg | Some (Inr _) \<Rightarrow> stop_begun n name reg)
      | _ \<Rightarrow> None)"
| "module_step (StopBegin n name) reg = (if hget (hr_ops reg) n = None then Some (stop_begun n name reg) else None)"
| "module_step (StopDrained n drained) reg =
     (case hget (hr_ops reg) n of
        Some (StopDrains name u callbacks) \<Rightarrow>
          Some (case drained of
              Inl _ \<Rightarrow> if callbacks then put_op n (StopEnding name u) (forget_transition name reg) else put_op n (StopRuns name u) reg
            | Inr _ \<Rightarrow> put_op n (StopRuns name u) reg)
      | _ \<Rightarrow> None)"
| "module_step (StopAnswered n answer) reg =
     (case hget (hr_ops reg) n of
        Some (StopRuns name u) \<Rightarrow>
          (if (case answer of Inr code \<Rightarrow> stop_seen True (the (hget (hr_transports reg) u)) = Some (Inr code) | Inl _ \<Rightarrow> True)
           then Some (put_op n (StopEnding name u) (snd (stop_finish name answer reg))) else None)
      | _ \<Rightarrow> None)"
| "module_step (ReinitBegin n name fingerprint) reg =
     (if hget (hr_ops reg) n = None
      then Some (case reinit_reserve name fingerprint reg of (Inl _, reg') \<Rightarrow> reg' | (Inr _, reg') \<Rightarrow> put_op n (ReinitRuns name) reg')
      else None)"
| "module_step (ReinitAnswered n answer) reg =
     (case hget (hr_ops reg) n of Some (ReinitRuns name) \<Rightarrow> Some (put_op n (ReinitEnding name) reg) | _ \<Rightarrow> None)"
| "module_step (OperationEnds n) reg =
     (case hget (hr_ops reg) n of Some p \<Rightarrow> Some (end_op n (op_ended p reg)) | None \<Rightarrow> None)"
| "module_step (Enables name b) reg = Some (snd (enable name b reg))"
| "module_step (Detached u) reg = Some (snd (peer_detached u reg))"
| "module_step (Refused rest e) reg = Some (record_rejection rest e reg)"

fun module_run :: "module_event list \<Rightarrow> module_list \<Rightarrow> module_list option" where
  "module_run [] reg = Some reg"
| "module_run (ev # evs) reg = (case module_step ev reg of Some reg' \<Rightarrow> module_run evs reg' | None \<Rightarrow> None)"

inductive module_reach :: "module_list \<Rightarrow> bool" where
  start: "module_reach (module_list_new peers)"
| step: "module_reach reg \<Longrightarrow> module_step ev reg = Some reg' \<Longrightarrow> module_reach reg'"

end
