(* ===== verification/HostRegistryProps.thy ===== *)
theory HostRegistryProps
  imports HostRegistrySpec
begin

text \<open>
  What the registry promises: a module has one name, one identifier and one unique peer, the two lookups between
  peers and identifiers agree, and an identity that was withdrawn does not come back.
\<close>

section \<open>What identifies an entry\<close>

definition skeleton :: "module_entry \<Rightarrow> string \<times> string \<times> bus_name" where
  "skeleton m = (hi_name (me_info m), me_id m, me_unique m)"

definition skeletons :: "module_list \<Rightarrow> (string \<times> string \<times> bus_name) list" where
  "skeletons reg = map skeleton (hr_loaded reg)"

definition identified :: "string \<times> string \<times> bus_name \<Rightarrow> module_list \<Rightarrow> bool" where
  "identified s reg \<longleftrightarrow> (case s of (name, i, u) \<Rightarrow> name = sanitize_untrusted i \<and> i \<noteq> [] \<and> (\<exists>k < hr_next_peer reg. u = unique_name k)
     \<and> hget (hr_transports reg) u \<noteq> None)"

definition admission_ok :: "module_list \<Rightarrow> bool" where
  "admission_ok reg \<longleftrightarrow> (case hr_admission reg of
      Some (Admitting path info m _) \<Rightarrow> hi_name info = sanitize_untrusted (mm_id m) \<and> mm_id m \<noteq> [] \<and> hi_name info \<notin> set (map fst (skeletons reg))
    | Some (Published path m u) \<Rightarrow> hget (hr_transports reg) u \<noteq> None
    | None \<Rightarrow> True)"

definition module_list_ok :: "module_list \<Rightarrow> bool" where
  "module_list_ok reg \<longleftrightarrow> distinct (map fst (skeletons reg)) \<and> distinct (map (snd \<circ> snd) (skeletons reg))
     \<and> (\<forall>s \<in> set (skeletons reg). identified s reg) \<and> (\<forall>u. hget (hr_transports reg) u \<noteq> None \<longrightarrow> (\<exists>k < hr_next_peer reg. u = unique_name k))
     \<and> admission_ok reg"

text \<open>What most operations leave: the identities, and transports that move on.\<close>

definition moved_on :: "module_list \<Rightarrow> module_list \<Rightarrow> bool" where
  "moved_on reg reg' \<longleftrightarrow> (\<forall>u t. hget (hr_transports reg) u = Some t \<longrightarrow> (\<exists>t'. hget (hr_transports reg') u = Some t' \<and> sticky t t'))"

definition steady :: "module_list \<Rightarrow> module_list \<Rightarrow> bool" where
  "steady reg reg' \<longleftrightarrow> skeletons reg' = skeletons reg \<and> hr_next_peer reg \<le> hr_next_peer reg' \<and> hr_admission reg' = hr_admission reg
     \<and> moved_on reg reg' \<and> (\<forall>u. hget (hr_transports reg') u \<noteq> None \<longrightarrow> hget (hr_transports reg) u \<noteq> None)"

lemma sticky_refl: "sticky t t"
  using kept_refl by (simp add: kept_def)

lemma sticky_trans: "sticky t u \<Longrightarrow> sticky u v \<Longrightarrow> sticky t v"
  unfolding sticky_def ball_simps by argo

lemma moved_refl: "moved_on reg reg"
  using sticky_refl by (auto simp: moved_on_def)

lemma moved_trans: "moved_on reg u \<Longrightarrow> moved_on u v \<Longrightarrow> moved_on reg v"
  unfolding moved_on_def using sticky_trans by meson

lemma steady_refl: "steady reg reg"
  by (simp add: steady_def moved_refl)

lemma steady_trans:
  assumes "steady reg u" "steady u v"
  shows "steady reg v"
  using assms moved_trans [of reg u v] unfolding steady_def by auto

lemma identified_mono: "identified s reg \<Longrightarrow> hr_next_peer reg \<le> hr_next_peer reg' \<Longrightarrow> moved_on reg reg' \<Longrightarrow> identified s reg'"
  unfolding identified_def moved_on_def by (auto intro: less_le_trans)

lemma steady_ok:
  assumes ok: "module_list_ok reg" and s: "steady reg reg'"
  shows "module_list_ok reg'"
proof -
  have n: "hr_next_peer reg \<le> hr_next_peer reg'" and m: "moved_on reg reg'" and sk: "skeletons reg' = skeletons reg" and a: "hr_admission reg' = hr_admission reg"
    and old: "\<And>u. hget (hr_transports reg') u \<noteq> None \<Longrightarrow> hget (hr_transports reg) u \<noteq> None"
    using s by (auto simp: steady_def)
  have keys: "hget (hr_transports reg) u \<noteq> None \<Longrightarrow> hget (hr_transports reg') u \<noteq> None" for u
    using m by (auto simp: moved_on_def)
  have "\<exists>k < hr_next_peer reg'. u = unique_name k" if "hget (hr_transports reg') u \<noteq> None" for u
    using ok old [OF that] n unfolding module_list_ok_def by (meson less_le_trans)
  moreover have "admission_ok reg'"
    using ok keys unfolding module_list_ok_def admission_ok_def sk a by (auto simp del: set_map list.set_map split: option.splits admission.splits)
  ultimately show ?thesis using ok identified_mono [OF _ n m] unfolding module_list_ok_def sk by blast
qed

section \<open>Updates that settle_module\<close>

lemma change_first_map: "(\<And>x. g (f x) = g x) \<Longrightarrow> map g (change_first P f xs) = map g xs"
  by (induction xs) auto

lemma steady_change:
  "(\<And>e. skeleton (f e) = skeleton e) \<Longrightarrow> steady reg (change_module name f reg)"
  "(\<And>e. skeleton (f e) = skeleton e) \<Longrightarrow> steady reg (change_unique u f reg)"
  by (simp_all add: steady_def change_module_def change_unique_def skeletons_def change_first_map moved_on_def sticky_refl)

lemma steady_fields: "steady reg u \<Longrightarrow> steady reg (u \<lparr> hr_revoked := r \<rparr>)" "steady reg u \<Longrightarrow> steady reg (put_op n p u)"
  "steady reg u \<Longrightarrow> steady reg (end_op n u)" "steady reg u \<Longrightarrow> steady reg (u \<lparr> hr_rejected := l \<rparr>)"
  by (simp_all add: steady_def put_op_def end_op_def skeletons_def moved_on_def)

lemma steady_transport:
  assumes "hget (hr_transports reg) u = Some t" "sticky t (f t)"
  shows "steady reg (set_transport u f reg)"
  using assms by (auto simp: steady_def set_transport_def skeletons_def moved_on_def sticky_refl hm.get_put split: if_splits)

lemma steady_rejections: "steady reg (record_rejection rest e reg)" "steady reg (record_manifest_rejection e m c reg)"
  unfolding record_rejection_def record_manifest_rejection_def Let_def
  by (auto intro!: steady_fields(4) steady_refl split: error.split)

lemma sticky_ops: "sticky t (commit_terminal f t)" "sticky t (request_terminal f t)" "sticky t (admit_broker t)"
proof -
  have commit: "kept t (commit_terminal f t)" for f t
    unfolding commit_terminal_def by (rule kept_trans [OF step_kept [of "PublishFlags f"] step_kept [of CloseAdmission]]) simp_all
  then show "sticky t (commit_terminal f t)" by (simp add: kept_def)
  have "kept t (request_terminal f t)"
    unfolding request_terminal_def by (rule kept_trans [OF commit step_kept [of "RequestCleanup f"]]) simp
  then show "sticky t (request_terminal f t)" by (simp add: kept_def)
  show "sticky t (admit_broker t)" using step_kept [of Admit t "admit_broker t"] by (simp add: kept_def)
qed

lemma skeleton_set: "skeleton (set_state s e) = skeleton e" "skeleton (e \<lparr> me_from := x \<rparr>) = skeleton e" "skeleton (e \<lparr> me_busy := b \<rparr>) = skeleton e"
  "skeleton (e \<lparr> me_descriptor := x' \<rparr>) = skeleton e" "skeleton (e \<lparr> me_config := c \<rparr>) = skeleton e" "skeleton (e \<lparr> me_callbacks := b \<rparr>) = skeleton e"
  "skeleton (e \<lparr> me_info := (me_info e) \<lparr> hi_enabled := b \<rparr> \<rparr>) = skeleton e"
  by (simp_all add: skeleton_def set_state_def)

section \<open>The operations settle_module\<close>

lemma steady_stop_reserve:
  assumes ok: "module_list_ok reg"
  shows "steady reg (snd (stop_reserve name reg))"
proof (cases "\<exists>m. find (named name) (hr_loaded reg) = Some m \<and> \<not> me_busy m \<and> \<not> terminal_state (state_of reg m)")
  case True
  then obtain m where m: "find (named name) (hr_loaded reg) = Some m" "\<not> me_busy m" "\<not> terminal_state (state_of reg m)" by blast
  let ?r = "change_module name (\<lambda>e. e \<lparr> me_from := get_or_insert (me_from e) (state_of reg m), me_busy := True \<rparr>)
     (reg \<lparr> hr_revoked := hr_revoked reg @ [me_unique m] \<rparr>)"
  have s: "steady reg ?r"
    by (rule steady_trans, rule steady_fields(1), rule steady_refl, rule steady_change(1)) (simp add: skeleton_def)
  have "skeleton m \<in> set (skeletons reg)" using m(1) by (auto simp: skeletons_def find_Some_iff)
  then have "hget (hr_transports reg) (me_unique m) \<noteq> None" using ok by (auto simp: module_list_ok_def identified_def skeleton_def)
  then obtain t where "hget (hr_transports ?r) (me_unique m) = Some t" by (auto simp: change_module_def)
  then have "steady ?r (set_transport (me_unique m) (commit_terminal False) ?r)" by (rule steady_transport [OF _ sticky_ops(1)])
  then show ?thesis using steady_trans [OF s] m by (simp add: stop_reserve_def Let_def)
qed (auto simp: stop_reserve_def steady_refl Let_def split: option.splits)

lemma steady_names: "steady reg (forget_transition name reg)" "steady reg (guard_dropped name stopping reg)"
  by (auto simp: forget_transition_def guard_dropped_def skeleton_def intro!: steady_change(1))

lemma steady_ops:
  "steady reg (snd (stop_finish name answer reg))" "steady reg (snd (reinit_reserve name fp reg))" "steady reg (snd (enable name b reg))"
  "steady reg (snd (peer_detached u reg))" "steady reg (op_ended p reg)"
proof -
  show "steady reg (snd (stop_finish name answer reg))"
    by (auto simp: stop_finish_def Let_def skeleton_set intro!: steady_refl steady_names steady_change(1) split: option.splits sum.splits stop_error.splits)
  show "steady reg (snd (reinit_reserve name fp reg))"
    by (auto simp: reinit_reserve_def Let_def skeleton_set intro!: steady_refl steady_change(1) split: option.splits)
  show "steady reg (snd (enable name b reg))"
    by (auto simp: enable_def Let_def skeleton_set intro!: steady_refl steady_change(1) split: option.splits)
  have u: "steady reg (reg \<lparr> hr_loaded := change_first (\<lambda>m. me_unique m = u) f (hr_loaded reg) \<rparr>)" if "\<And>e. skeleton (f e) = skeleton e" for f
    using steady_change(2) [of f reg u] that by (simp add: change_unique_def)
  show "steady reg (snd (peer_detached u reg))"
    by (auto simp: peer_detached_def Let_def skeleton_set intro!: steady_refl u split: option.splits)
  show "steady reg (op_ended p reg)"
    by (simp add: op_ended_def steady_refl steady_names split: host_op.split)
qed

lemma steady_stop_begun: "module_list_ok reg \<Longrightarrow> steady reg (stop_begun n name reg)"
  using steady_stop_reserve [of reg name]
  by (auto simp: stop_begun_def intro!: steady_fields(2,3) split: prod.splits sum.splits)

section \<open>Every step keeps the invariant\<close>

definition advances :: "module_list \<Rightarrow> module_list \<Rightarrow> bool" where
  "advances reg reg' \<longleftrightarrow> hr_next_peer reg \<le> hr_next_peer reg' \<and> moved_on reg reg'"

lemma steady_advances: "steady reg reg' \<Longrightarrow> advances reg reg'"
  by (simp add: steady_def advances_def)

lemma advances_refl: "advances reg reg"
  by (simp add: advances_def moved_refl)

lemma advances_trans: "advances reg u \<Longrightarrow> advances u v \<Longrightarrow> advances reg v"
  unfolding advances_def using moved_trans by (meson le_trans less_le_trans)

lemma remove_first_set: "set (remove_first P xs) \<subseteq> set xs"
  by (induction xs) auto

lemma remove_first_distinct: "distinct (map g xs) \<Longrightarrow> distinct (map g (remove_first P xs))"
proof (induction xs)
  case (Cons x xs)
  then show ?case using remove_first_set [of P xs] by auto
qed simp

text \<open>An admission that ended, and one that began.\<close>

lemma admission_over:
  assumes "module_list_ok reg"
  shows "module_list_ok (reg \<lparr> hr_admission := None \<rparr>)" "advances reg (reg \<lparr> hr_admission := None \<rparr>)"
  using assms by (auto simp: module_list_ok_def admission_ok_def skeletons_def identified_def advances_def moved_on_def sticky_refl)

lemma rejection_ok: "module_list_ok reg \<Longrightarrow> module_list_ok (record_manifest_rejection e m c reg)" "advances reg (record_manifest_rejection e m c reg)"
  using steady_ok steady_advances steady_rejections(2) by blast+

lemma checked_names: "validate_artifact gate host_rustc path ds m = Inr info \<Longrightarrow> hi_name info = sanitize_untrusted (mm_id m) \<and> mm_id m \<noteq> []"
  "provisional_info path m = Inr info \<Longrightarrow> hi_name info = sanitize_untrusted (mm_id m) \<and> mm_id m \<noteq> []"
  by (auto simp: validate_artifact_def provisional_info_def canonical_module_id_def Let_def split: sum.splits option.splits if_splits)

lemma admit_checked_ok:
  assumes ok: "module_list_ok reg" and names: "\<And>info. checked = Inr info \<Longrightarrow> hi_name info = sanitize_untrusted (mm_id m) \<and> mm_id m \<noteq> []"
  shows "module_list_ok (snd (admit_checked path m checked config_ok deferred reg)) \<and> advances reg (snd (admit_checked path m checked config_ok deferred reg))"
proof (cases checked)
  case (Inl e)
  then show ?thesis using rejection_ok(1) [OF ok] rejection_ok(2) by (simp add: admit_checked_def)
next
  case (Inr info)
  have ad: "module_list_ok (reg \<lparr> hr_admission := Some (Admitting path (info \<lparr> hi_state := s \<rparr>) m deferred) \<rparr>)"
    if "\<not> list_ex (named (hi_name info)) (hr_loaded reg)" for s
  proof -
    have "hi_name info \<notin> set (map fst (skeletons reg))" using that by (auto simp: skeletons_def skeleton_def list_ex_iff named_def)
    then show ?thesis using ok names [OF Inr]
      by (auto simp del: set_map list.set_map simp: module_list_ok_def admission_ok_def skeletons_def identified_def)
  qed
  have "advances reg (reg \<lparr> hr_admission := a \<rparr>)" for a
    by (simp add: advances_def moved_on_def sticky_refl skeletons_def)
  then show ?thesis using Inr ad rejection_ok(1) [OF ok] rejection_ok(2) by (auto simp: admit_checked_def Let_def)
qed

lemma peer_taken: "steady reg (reg \<lparr> hr_next_peer := Suc (hr_next_peer reg) \<rparr>)"
  by (simp add: steady_def skeletons_def moved_on_def sticky_refl)

lemma admit_attach_ok:
  assumes ok: "module_list_ok reg" and ad: "hr_admission reg = Some (Admitting path info m deferred)"
  shows "module_list_ok (admit_attach path info m t free reg) \<and> advances reg (admit_attach path info m t free reg)"
proof (cases free)
  case False
  let ?r = "reg \<lparr> hr_next_peer := Suc (hr_next_peer reg) \<rparr>"
  have "module_list_ok ?r" "advances reg ?r" using steady_ok [OF ok peer_taken] steady_advances [OF peer_taken] by simp_all
  then have "module_list_ok (?r \<lparr> hr_admission := None \<rparr>)" "advances reg (?r \<lparr> hr_admission := None \<rparr>)"
    using admission_over [of ?r] advances_trans by blast+
  then show ?thesis using False rejection_ok advances_trans by (simp add: admit_attach_def Let_def)
next
  case True
  let ?u = "unique_name (hr_next_peer reg)" and ?reg = "admit_attach path info m t free reg"
  have sk: "skeletons ?reg = skeletons reg @ [(hi_name info, mm_id m, ?u)]"
    using True by (simp add: admit_attach_def skeletons_def skeleton_def entry_new_def Let_def)
  have tr: "hget (hr_transports ?reg) v = (if v = ?u then Some t else hget (hr_transports reg) v)" for v
    using True by (auto simp: admit_attach_def hm.get_put Let_def)
  have n: "hr_next_peer ?reg = Suc (hr_next_peer reg)" and a: "hr_admission ?reg = Some (Published path m ?u)"
    using True by (simp_all add: admit_attach_def Let_def)
  have keys: "\<And>v. hget (hr_transports reg) v \<noteq> None \<Longrightarrow> \<exists>k < hr_next_peer reg. v = unique_name k"
    and ids: "\<And>s. s \<in> set (skeletons reg) \<Longrightarrow> identified s reg" and d: "distinct (map fst (skeletons reg))" "distinct (map (snd \<circ> snd) (skeletons reg))"
    and names: "hi_name info = sanitize_untrusted (mm_id m)" "mm_id m \<noteq> []" "hi_name info \<notin> set (map fst (skeletons reg))"
    using ok ad unfolding module_list_ok_def admission_ok_def by (auto simp del: set_map list.set_map simp: ad)
  have "hget (hr_transports reg) ?u = None" using keys [of ?u] by fastforce
  then have moved: "moved_on reg ?reg" using tr by (auto simp: moved_on_def sticky_refl)
  have "?u \<notin> (snd \<circ> snd) ` set (skeletons reg)" using ids by (fastforce simp: identified_def)
  then have d': "distinct (map (snd \<circ> snd) (skeletons ?reg))" "distinct (map fst (skeletons ?reg))"
    using d names(3) unfolding sk by auto
  have "identified s ?reg" if "s \<in> set (skeletons ?reg)" for s
  proof (cases "s \<in> set (skeletons reg)")
    case True
    then show ?thesis using identified_mono [OF ids _ moved] n by simp
  next
    case False
    then have "s = (hi_name info, mm_id m, ?u)" using that by (simp add: sk)
    then show ?thesis using names tr n by (auto simp: identified_def)
  qed
  moreover have "\<exists>k < hr_next_peer ?reg. v = unique_name k" if "hget (hr_transports ?reg) v \<noteq> None" for v
    using keys [of v] that tr n by (cases "v = ?u") (auto intro: less_SucI)
  moreover have "admission_ok ?reg" using tr by (simp add: admission_ok_def a)
  moreover have "advances reg ?reg" using moved by (auto simp: advances_def sk n)
  ultimately show ?thesis using d' unfolding module_list_ok_def by blast
qed

lemma admit_start_ok:
  assumes ok: "module_list_ok reg" and ad: "hr_admission reg = Some (Published path m u)"
  shows "module_list_ok (admit_start path m u started reg) \<and> advances reg (admit_start path m u started reg)"
proof -
  let ?r0 = "reg \<lparr> hr_admission := None \<rparr>"
  obtain t where t: "hget (hr_transports ?r0) u = Some t" using ok by (auto simp: module_list_ok_def admission_ok_def ad)
  let ?r1 = "set_transport u admit_broker ?r0"
  have s1: "steady ?r0 ?r1" by (rule steady_transport [OF t]) (rule sticky_ops(3))
  have r1: "module_list_ok ?r1" "advances reg ?r1"
    using steady_ok [OF admission_over(1) [OF ok] s1] advances_trans [OF admission_over(2) [OF ok] steady_advances [OF s1]] by simp_all
  show ?thesis
  proof (cases started)
    case True
    then show ?thesis using r1 by (simp add: admit_start_def Let_def)
  next
    case False
    let ?r2 = "?r1 \<lparr> hr_loaded := remove_first (\<lambda>e. me_unique e = u) (hr_loaded ?r1) \<rparr>"
    have sub: "set (skeletons ?r2) \<subseteq> set (skeletons ?r1)" using remove_first_set by (fastforce simp: skeletons_def)
    have "distinct (map fst (skeletons ?r2))" "distinct (map (snd \<circ> snd) (skeletons ?r2))"
      using r1(1) unfolding module_list_ok_def skeletons_def by (auto intro!: remove_first_distinct)
    moreover have "identified s ?r2" if "s \<in> set (skeletons ?r2)" for s
      using r1(1) sub that by (auto simp: module_list_ok_def identified_def)
    moreover have "admission_ok ?r2" by (simp add: admission_ok_def set_transport_def)
    ultimately have r2: "module_list_ok ?r2" using r1(1) unfolding module_list_ok_def by auto
    have a2: "advances ?r1 ?r2" using sub by (auto simp: advances_def moved_on_def sticky_refl)
    have t2: "hget (hr_transports ?r2) u = Some (admit_broker t)" using t by (simp add: set_transport_def hm.get_put)
    have f: "sticky t' (request_terminal True (commit_terminal True t'))" for t' using sticky_trans sticky_ops(1,2) by blast
    have s3: "steady ?r2 (set_transport u (\<lambda>t. request_terminal True (commit_terminal True t)) ?r2)"
      by (rule steady_transport [OF t2]) (rule f)
    let ?r3 = "set_transport u (\<lambda>t. request_terminal True (commit_terminal True t)) ?r2"
    have "module_list_ok ?r3" "advances reg ?r3"
      using steady_ok [OF r2 s3] advances_trans [OF r1(2) advances_trans [OF a2 steady_advances [OF s3]]] by simp_all
    then show ?thesis using False rejection_ok advances_trans by (simp add: admit_start_def Let_def)
  qed
qed

lemma module_step_ok:
  assumes ok: "module_list_ok reg" and step: "module_step ev reg = Some reg'"
  shows "module_list_ok reg' \<and> advances reg reg'"
proof -
  have settle_module: "module_list_ok reg' \<and> advances reg reg'" if "steady reg reg'"
    using steady_ok [OF ok that] steady_advances [OF that] by blast
  show ?thesis
  proof (cases ev)
    case (Native u tev)
    then obtain t t' where t: "hget (hr_transports reg) u = Some t" "transport_step tev t = Some t'" "reg' = set_transport u (\<lambda>_. t') reg"
      using step by (auto split: option.splits)
    have "sticky t t'" using step_kept [OF t(2)] by (simp add: kept_def)
    then show ?thesis using settle_module steady_transport [OF t(1), of "\<lambda>_. t'"] t(3) by simp
  next
    case PeerTaken
    then show ?thesis using settle_module peer_taken step by auto
  next
    case (AdmitArtifact gate host_rustc path ds m linked config_ok)
    then show ?thesis using step admit_checked_ok [OF ok checked_names(1)] by (auto simp: admit_artifact_def split: if_splits)
  next
    case (AdmitLazy path m config_ok)
    then show ?thesis using step admit_checked_ok [OF ok checked_names(2)] by (auto simp: admit_lazy_def split: if_splits)
  next
    case (AdmitFails bad)
    then show ?thesis using step admission_over [OF ok] rejection_ok advances_trans
      by (auto simp: admit_failed_def split: option.splits admission.splits bool.splits)
  next
    case (AdmitAttaches config evs free)
    then show ?thesis using step admit_attach_ok [OF ok] by (auto simp: Let_def split: option.splits admission.splits)
  next
    case (AdmitStarts started)
    then show ?thesis using step admit_start_ok [OF ok] by (auto split: option.splits admission.splits)
  next
    case (StopWaitTurns n)
    then have "steady reg reg'" using step steady_stop_begun [OF ok]
      by (auto simp: steady_refl intro!: steady_fields(3) split: option.splits host_op.splits sum.splits)
    then show ?thesis by (rule settle_module)
  next
    case (StopBegin n name)
    then show ?thesis using step settle_module steady_stop_begun [OF ok] by (auto split: if_splits)
  next
    case (ReinitBegin n name fp)
    then have "steady reg reg'" using step steady_ops(2) [of reg name fp]
      by (auto intro: steady_fields(2) split: if_splits prod.splits sum.splits)
    then show ?thesis by (rule settle_module)
  next
    case (StopDrained n drained)
    then have "steady reg reg'" using step
      by (auto split: option.splits host_op.splits sum.splits if_splits intro!: steady_fields(2) steady_names(1) steady_refl)
    then show ?thesis by (rule settle_module)
  next
    case (StopAnswered n answer)
    then have "steady reg reg'" using step
      by (auto split: option.splits host_op.splits if_splits intro!: steady_fields(2) steady_ops(1))
    then show ?thesis by (rule settle_module)
  next
    case (OperationEnds n)
    then have "steady reg reg'" using step by (auto split: option.splits intro!: steady_fields(3) steady_ops(5))
    then show ?thesis by (rule settle_module)
  next
    case (DescriptorRead u rustc mismatch)
    then show ?thesis using step settle_module steady_change(2) by (auto simp: skeleton_def)
  next
    case (CallbacksBound u fp)
    then show ?thesis using step settle_module steady_change(2) by (auto simp: skeleton_def)
  next
    case (Refused rest e)
    then show ?thesis using step settle_module steady_rejections(1) by auto
  qed (use step settle_module steady_ops in \<open>auto split: if_splits option.splits host_op.splits intro: steady_fields(2) [OF steady_refl]\<close>)
qed

lemma module_reach_ok: "module_reach reg \<Longrightarrow> module_list_ok reg"
proof (induction rule: module_reach.induct)
  case (start peers)
  show ?case by (simp add: module_list_ok_def module_list_new_def skeletons_def admission_ok_def)
next
  case (step reg ev reg')
  then show ?case using module_step_ok by blast
qed

lemma module_run_ok: "module_list_ok reg \<Longrightarrow> module_run evs reg = Some reg' \<Longrightarrow> module_list_ok reg' \<and> advances reg reg'"
proof (induction evs arbitrary: reg)
  case (Cons ev evs)
  then obtain r where r: "module_step ev reg = Some r" "module_run evs r = Some reg'" by (auto split: option.splits)
  then show ?case using module_step_ok [OF Cons.prems(1) r(1)] Cons.IH [of r] advances_trans by blast
qed (simp add: advances_refl)

section \<open>Lookups\<close>

lemma entry_unique:
  assumes "module_list_ok reg" "m \<in> set (hr_loaded reg)" "m' \<in> set (hr_loaded reg)" and "me_unique m = me_unique m' \<or> me_id m = me_id m'"
  shows "m = m'"
proof -
  have d: "distinct (map (\<lambda>m. hi_name (me_info m)) (hr_loaded reg))" "distinct (map me_unique (hr_loaded reg))"
    using assms(1) by (simp_all add: module_list_ok_def skeletons_def skeleton_def comp_def)
  have "hi_name (me_info e) = sanitize_untrusted (me_id e)" if "e \<in> set (hr_loaded reg)" for e
    using assms(1) that by (auto simp: module_list_ok_def skeletons_def identified_def skeleton_def)
  then have "me_unique m = me_unique m' \<or> hi_name (me_info m) = hi_name (me_info m')" using assms(2-4) by auto
  then show ?thesis using d assms(2,3) by (auto simp: distinct_map inj_on_def)
qed

lemma found_entry:
  assumes "module_list_ok reg" "m \<in> set (hr_loaded reg)"
  shows "find (\<lambda>e. me_unique e = me_unique m) (hr_loaded reg) = Some m"
proof (cases "find (\<lambda>e. me_unique e = me_unique m) (hr_loaded reg)")
  case None
  then show ?thesis using assms(2) by (auto simp: find_None_iff)
next
  case (Some e)
  then have "e \<in> set (hr_loaded reg)" "me_unique e = me_unique m" by (auto simp: find_Some_iff)
  then show ?thesis using entry_unique [OF assms(1) _ assms(2)] Some by blast
qed

lemma module_for_sender_iff:
  assumes ok: "module_list_ok reg"
  shows "module_for_sender reg u = Some i \<longleftrightarrow> (\<exists>m \<in> set (hr_loaded reg). me_unique m = u \<and> me_id m = i \<and> identifiable (transport_at reg m)
     \<and> state_of reg m \<in> {Resolved, ModInitializing, Ready, Serving})"
proof
  assume "module_for_sender reg u = Some i"
  then obtain m where f: "find (\<lambda>m. me_unique m = u) (hr_loaded reg) = Some m" and m: "identifiable (transport_at reg m)" "me_id m = i"
    "state_of reg m \<in> {Resolved, ModInitializing, Ready, Serving}" by (auto simp: module_for_sender_def split: if_splits option.splits)
  have "m \<in> set (hr_loaded reg) \<and> me_unique m = u" using f by (auto simp: find_Some_iff)
  then show "\<exists>m \<in> set (hr_loaded reg). me_unique m = u \<and> me_id m = i \<and> identifiable (transport_at reg m)
     \<and> state_of reg m \<in> {Resolved, ModInitializing, Ready, Serving}" using m by blast
next
  assume "\<exists>m \<in> set (hr_loaded reg). me_unique m = u \<and> me_id m = i \<and> identifiable (transport_at reg m)
     \<and> state_of reg m \<in> {Resolved, ModInitializing, Ready, Serving}"
  then obtain m where m: "m \<in> set (hr_loaded reg)" "me_unique m = u" "me_id m = i" "identifiable (transport_at reg m)"
     "state_of reg m \<in> {Resolved, ModInitializing, Ready, Serving}" by blast
  have "skeleton m \<in> set (skeletons reg)" using m(1) by (simp add: skeletons_def)
  then have "is_unique u" using ok m(2) by (auto simp: module_list_ok_def identified_def skeleton_def)
  then show "module_for_sender reg u = Some i" using found_entry [OF ok m(1)] m by (simp add: module_for_sender_def)
qed

lemma sender_for_module_iff:
  assumes ok: "module_list_ok reg"
  shows "sender_for_module reg i = Some u \<longleftrightarrow> (\<exists>m \<in> set (hr_loaded reg). me_unique m = u \<and> me_id m = i \<and> identifiable (transport_at reg m)
     \<and> state_of reg m \<in> {ModInitializing, Ready, Serving})"
proof -
  let ?P = "\<lambda>m. me_id m = i \<and> identifiable (transport_at reg m) \<and> state_of reg m \<in> {ModInitializing, Ready, Serving}"
  have ne: "me_id m \<noteq> []" if "m \<in> set (hr_loaded reg)" for m
    using ok that by (auto simp: module_list_ok_def skeletons_def identified_def skeleton_def)
  have "distinct (hr_loaded reg)" using ok by (simp add: module_list_ok_def skeletons_def distinct_map)
  then have one: "filter ?P (hr_loaded reg) = [m]" if "m \<in> set (hr_loaded reg)" "?P m" for m
  proof -
    have "set (filter ?P (hr_loaded reg)) = {m}" using entry_unique [OF ok _ that(1)] that by auto
    moreover have "distinct (filter ?P (hr_loaded reg))" using \<open>distinct (hr_loaded reg)\<close> by simp
    moreover have "xs = [y]" if "set xs = {y}" "distinct xs" for xs and y :: module_entry
      using that by (cases xs rule: remdups_adj.cases) auto
    ultimately show ?thesis by blast
  qed
  show ?thesis
  proof
    assume s: "sender_for_module reg i = Some u"
    then obtain m where "filter ?P (hr_loaded reg) = [m]" "me_unique m = u"
      by (auto simp: sender_for_module_def split: if_splits list.splits)
    then have "m \<in> set (filter ?P (hr_loaded reg))" "me_unique m = u" by simp_all
    then show "\<exists>m \<in> set (hr_loaded reg). me_unique m = u \<and> me_id m = i \<and> identifiable (transport_at reg m)
       \<and> state_of reg m \<in> {ModInitializing, Ready, Serving}" by auto
  next
    assume "\<exists>m \<in> set (hr_loaded reg). me_unique m = u \<and> me_id m = i \<and> identifiable (transport_at reg m)
       \<and> state_of reg m \<in> {ModInitializing, Ready, Serving}"
    then obtain m where m: "m \<in> set (hr_loaded reg)" "?P m" "me_unique m = u" by blast
    then show "sender_for_module reg i = Some u" using one [OF m(1,2)] ne [OF m(1)] by (simp add: sender_for_module_def)
  qed
qed

lemma withdrawn_unidentified:
  assumes ok: "module_list_ok reg" and t: "hget (hr_transports reg) u = Some t" "tr_closed t \<or> tr_faulted t \<or> tr_stopped t"
  shows "module_for_sender reg u = None" "sender_for_module reg i \<noteq> Some u" "authenticated_peer reg name \<noteq> Some u"
proof -
  have at: "transport_at reg m = t" if "me_unique m = u" for m using t(1) that by (simp add: transport_at_def)
  show "module_for_sender reg u = None"
    using module_for_sender_iff [OF ok, of u] at t(2) by (auto simp: identifiable_def not_Some_eq [symmetric])
  show "sender_for_module reg i \<noteq> Some u" using sender_for_module_iff [OF ok] at t(2) by (auto simp: identifiable_def)
  show "authenticated_peer reg name \<noteq> Some u"
    using at t(2) by (auto simp: authenticated_peer_def native_lifecycle_pending_def is_ready_def Let_def split: option.splits if_splits)
qed

section \<open>Properties\<close>

text \<open>C23. In every run of admissions, lifecycle operations, transports and detached peers the two lookups agree: the peer
  that stands for a module identifier is identified as that module, and a peer that is identified as a module
  stands for it unless the module still waits for its initializer; no two peers are identified as one module.\<close>

theorem sender_lookups_agree:
  assumes "module_reach reg"
  shows "(sender_for_module reg i = Some u \<longleftrightarrow> module_for_sender reg u = Some i \<and> (\<exists>m \<in> set (hr_loaded reg). me_unique m = u \<and> state_of reg m \<noteq> Resolved))
    \<and> (module_for_sender reg u = Some i \<and> module_for_sender reg v = Some i \<longrightarrow> u = v)"
proof -
  have ok: "module_list_ok reg" using module_reach_ok [OF assms] .
  show ?thesis unfolding sender_for_module_iff [OF ok] module_for_sender_iff [OF ok] using entry_unique [OF ok] by fastforce
qed

text \<open>C15. An identity that was withdrawn does not come back: once the transport of a peer is closed, faulted or stopped, as an
  accepted stop makes it, then after whatever follows the peer is not identified as a module, stands for no
  identifier and is nobody's authenticated peer.\<close>

theorem withdrawn_identity_never_returns:
  assumes "module_reach reg" "hget (hr_transports reg) u = Some t" "tr_closed t \<or> tr_faulted t \<or> tr_stopped t" "module_run evs reg = Some reg'"
  shows "module_for_sender reg' u = None \<and> sender_for_module reg' i \<noteq> Some u \<and> authenticated_peer reg' name \<noteq> Some u"
proof -
  have r: "module_list_ok reg'" "advances reg reg'" using module_run_ok [OF module_reach_ok [OF assms(1)] assms(4)] by simp_all
  then obtain t' where t': "hget (hr_transports reg') u = Some t'" "sticky t t'" using assms(2) unfolding advances_def moved_on_def by blast
  have "tr_closed t' \<or> tr_faulted t' \<or> tr_stopped t'" using assms(3) t'(2) by (auto simp: sticky_def)
  then show ?thesis using withdrawn_unidentified [OF r(1) t'(1)] by blast
qed

lemma accepted_stop_withdraws:
  assumes "module_reach reg" "stop_reserve name reg = (Inr (u, callbacks), reg')"
  shows "\<exists>t. hget (hr_transports reg') u = Some t \<and> tr_closed t"
  using assms(2) by (auto simp: stop_reserve_def set_transport_def commit_terminal_def close_admission_def hm.get_put Let_def
      split: option.splits if_splits)

section \<open>Examples\<close>

lemma module_run_reach: "module_reach reg \<Longrightarrow> module_run evs reg = Some reg' \<Longrightarrow> module_reach reg'"
  by (induction evs arbitrary: reg) (auto split: option.splits intro: module_reach.step)

definition demo_manifest :: module_manifest where
  "demo_manifest = \<lparr> mm_schema = 1, mm_id = ''echo'', mm_version = Version_new 1 0 0, mm_bus_name = BusName ''a.b'', mm_object_path = ObjectPath ''/a'',
     mm_provides = [], mm_requires = [], mm_lazy_init = False, mm_rest = JNull \<rparr>"

definition demo_admit :: "module_event list" where
  "demo_admit = [AdmitArtifact (Inr ()) ''r'' ''/m/echo.so'' \<lparr> ds_name = Some ''echo'', ds_version = Some ''1.0.0'', ds_rustc = Some ''r'' \<rparr> demo_manifest False True,
     AdmitAttaches ''cfg'' [EagerBegins, EagerReturns (Inr demo_vtable)] True, AdmitStarts True, Native (unique_name 1) transport_event.Ready]"

definition demo_host_stop :: "int \<Rightarrow> module_event list" where
  "demo_host_stop code = [StopBegin 0 ''echo'', StopDrained 0 (Inr ())]
     @ map (Native (unique_name 1)) [StopBegins 0, StopLocks 0, StopCommits 0, StopHandsOver 0, Submit 0 True, Run 0, InitSettled 0, ProvidersDrained 0,
         Claim 0, StopClose 0, Drained 0, ShutdownReturns 0 (Some code), Finish 0]
     @ [StopAnswered 0 (Inr code), OperationEnds 0]"

definition demo_loaded :: module_list where
  "demo_loaded = the (module_run demo_admit (module_list_new 1))"

lemma demo_loaded_run:
  "module_run demo_admit (module_list_new 1) = Some demo_loaded"
  "sender_for_module demo_loaded ''echo'' = Some (unique_name 1)" "module_for_sender demo_loaded (unique_name 1) = Some ''echo''"
  by code_simp+

theorem sender_lookups_agree_witness:
  "module_for_sender demo_loaded (unique_name 1) = Some ''echo'' \<and> (\<exists>m \<in> set (hr_loaded demo_loaded). state_of demo_loaded m \<noteq> Resolved)"
  using sender_lookups_agree [OF module_run_reach [OF module_reach.start demo_loaded_run(1)], of "''echo''" "unique_name 1"] demo_loaded_run(2) by blast

definition demo_stopped_host :: "int \<Rightarrow> module_list" where
  "demo_stopped_host code = the (module_run (demo_host_stop code) demo_loaded)"

lemma demo_stopped_run:
  "module_run (demo_host_stop TB_TIMEOUT) demo_loaded = Some (demo_stopped_host TB_TIMEOUT)"
  "map hi_state (list_modules (demo_stopped_host TB_TIMEOUT)) = [Stopped]"
  "LeaveShutdown (Some TB_TIMEOUT) \<in> set (tr_natives (the (hget (hr_transports (demo_stopped_host TB_TIMEOUT)) (unique_name 1))))"
  "LeaveShutdown (Some TB_OK) \<notin> set (tr_natives (the (hget (hr_transports (demo_stopped_host TB_TIMEOUT)) (unique_name 1))))"
  "hget (hr_transports (demo_stopped_host TB_TIMEOUT)) (unique_name 1) \<noteq> None"
  "tr_closed (the (hget (hr_transports (demo_stopped_host TB_TIMEOUT)) (unique_name 1)))"
  by code_simp+

theorem withdrawn_identity_never_returns_witness:
  "module_for_sender (demo_stopped_host TB_TIMEOUT) (unique_name 1) = None"
proof -
  have "module_reach (demo_stopped_host TB_TIMEOUT)"
    using module_run_reach [OF module_run_reach [OF module_reach.start demo_loaded_run(1)] demo_stopped_run(1)] .
  moreover obtain t where "hget (hr_transports (demo_stopped_host TB_TIMEOUT)) (unique_name 1) = Some t" "tr_closed t"
    using demo_stopped_run(5,6) by auto
  ultimately show ?thesis
    using withdrawn_identity_never_returns [where evs = "[]" and reg' = "demo_stopped_host TB_TIMEOUT"] by simp
qed

text \<open>A module whose shutdown fails is reported as stopped.\<close>

theorem failed_shutdown_reported_stopped:
  "\<exists>reg t. module_reach reg \<and> map hi_state (list_modules reg) = [Stopped] \<and> hget (hr_transports reg) (unique_name 1) = Some t
    \<and> LeaveShutdown (Some TB_TIMEOUT) \<in> set (tr_natives t) \<and> LeaveShutdown (Some TB_OK) \<notin> set (tr_natives t)"
  using module_run_reach [OF module_run_reach [OF module_reach.start demo_loaded_run(1)] demo_stopped_run(1)] demo_stopped_run(2-5)
  by (metis option.exhaust option.sel)

end
