(* ===== verification/Spec2Isabelle.thy ===== *)
theory Spec2Isabelle
  imports Prelude Errors Names Messages Base64 Codec Versions MatchRules Router RouterSpec RouterProps
    Broker BrokerSpec BrokerProps Streams StreamSpec StreamCaps StreamTransfer StreamProps
    Objects ObjectProps Connection ConnectionSpec ConnectionProps
    BusClient BusClientProps StreamReplies Lease LeaseProps HostObjects HostObjectProps
    Failure ModuleClient ModuleClientProps ModuleReports ReconfigureProps ServiceSlot Resolution HostCallbackProps ZipProps ModuleTransportProps PlacementProps ModuleDeliveryProps HostRegistryProps
begin

text \<open>
  Verification library of tinybus, a desktop message bus in Rust. The source paths below are relative to
  \<open>src/crates/tinybus/src/\<close>.

  The program. Peers connect to a \<^emph>\<open>broker\<close> over a transport (a framed byte stream, or a module loaded
  into the process). The broker stamps every message with its sender, routes it through a table of peers, names
  and match rules, and serves the bus's own interface. On the peer's side a \<^emph>\<open>connection\<close> runs calls, a dispatch
  loop and an object tree; large payloads travel as \<^emph>\<open>streams\<close> of chunks. A \<^emph>\<open>module host\<close> loads libraries whose place
  and digest it has checked, talks to them through a table of callbacks, attests them to the broker, and lends
  them revocable callbacks into the host. Around it are the acquisition of pinned releases, archive extraction, and
  clients that reach a module by its registry record.

  How it is modelled. Data are records and datatypes with the source's constructors, an operation is a
  function on the state it changes, and an error, a panic or an early return is a value. Text is the list of its UTF-8 bytes;
  a \<open>u64\<close> or \<open>usize\<close> is a natural number, with the wrap-around or the check of the source written out where it can
  overflow; hash maps are association lists with distinct keys (the locale \<open>keyed_table\<close> of the prelude is interpreted on
  them). Concurrency is interleaving: a definition is what one task does between two points where another can run (a lock
  section, or the code between two awaits), a step function says which tasks may take it, and the answers of what a task
  waits for (peers, user code, timers, the operating system) are part of the event. An invariant is proved by rule
  induction over the reachable states. Foreign code (serde, SHA-256, the archive library and inflater, the file system, the
  account database, native callbacks) is a parameter, with what is relied on as a hypothesis that each witness instantiates.

  The theories.

  \<^item> Prelude, Errors, Results: text, numbers, maps, the interfaces; \<open>error.rs\<close> with redaction and sanitising of
    remote text; sequencing of results with its inversion rules.
  \<^item> Names, Messages, Base64, Codec, Versions: \<open>name.rs\<close>, \<open>message/\<close>, \<open>stream/base64.rs\<close>,
    \<open>transport/unix.rs\<close> (framing), \<open>version.rs\<close>: grammars, round trips, bounds.
  \<^item> MatchRules, Router, RouterSpec, RouterProps: \<open>router.rs\<close>, \<open>attest.rs\<close>: the table's invariant, ownership,
    provenance of attestations, delivery of directed and confidential messages.
  \<^item> Broker, BrokerSpec, BrokerProps: \<open>broker.rs\<close>: ingress to delivery as an event system; authenticity, an answer for every
    call, the gate of module control, announcements.
  \<^item> Streams, StreamSpec, StreamCaps, StreamTransfer, StreamProps: \<open>stream/mod.rs\<close>: what a reader reads is what the opener
    wrote, under consecutive sequence numbers; bounds on memory; a whole transfer.
  \<^item> Objects, ObjectProps: \<open>service/\<close>, \<open>signal.rs\<close>: the object tree refines a map from path and interface.
  \<^item> Connection, ConnectionSpec, ConnectionProps, BusClient, BusClientProps, StreamReplies: \<open>connection.rs\<close>, \<open>proxy.rs\<close>: the pending
    table, handlers, the client API against the broker's interface, replies that travel as streams.
  \<^item> HostCallbacks, HostCallbackProps: \<open>module/host_callbacks.rs\<close>: bindings, their children, serving, draining, revocation and the
    authority steps of a load. A walk up the parents takes as fuel the number of cells, which is enough because a child
    is younger than its parent.
  \<^item> Lease, LeaseProps, ServiceSlot, Resolution, Reconfigure, ReconfigureProps, HostObjects, HostObjectProps: \<open>module/lease.rs\<close>,
    \<open>service_slot.rs\<close>, \<open>resolution.rs\<close>, \<open>reconfigure.rs\<close>, \<open>runtime.rs\<close>: each a machine of locked
    calls with the automaton or the abstract state it refines.
  \<^item> Failure, ModuleClient, ModuleClientProps, ModuleReports: \<open>module/release.rs\<close>, \<open>platform.rs\<close>, \<open>failure.rs\<close>,
    \<open>client.rs\<close>: pinned candidates, attested and ordinary calls, and that remote text reaches no report.
  \<^item> ModuleTransport, ModuleTransportSpec, ModuleTransportRuns, ModuleTransportProps: \<open>module/transport.rs\<close>: the physical
    worker, initialization, reinitialization and stop of one module. The module's callbacks are logged, and the log is proved to be a
    run of the automaton \<open>native_next\<close>, which is the protocol of the vtable. The state's invariant ties the holder
    of the lifecycle mutex to the one task that acts as holder, and the right to initialize to one owner.
  \<^item> ModuleDelivery, ModuleDeliverySpec, ModuleDeliveryProps: the messages of the same file. Their tasks run on top of the
    transport, and every run of them is shown to be a run of the transport.
  \<^item> HostRegistry, HostRegistrySpec, HostRegistryProps: the list of loaded modules in \<open>module/host.rs\<close>: admission under
    its lock, the states that are reported, the lookups between peers and module identifiers, and stop,
    reinitialize, enable and detach, interleaved with the transports of the modules.
  \<^item> Placement, PlacementProps: the gates of \<open>module/host.rs\<close>: directory ownership and modes, the private group as the local
    account files state it, the allowlist.
  \<^item> ZipPaths, ZipStreams, ZipExtract, ZipProps: \<open>module/zip_extract.rs\<close>, \<open>zip_deflate.rs\<close>, \<open>zip_descriptor.rs\<close>:
    path rules, the plan, the strict DEFLATE reader and the extraction.

  In a pair of theories the first holds the definitions in the order of the code, \<open>Spec\<close> or \<open>Runs\<close> the step relation and
  its invariants, and \<open>Props\<close> the properties and their examples. A property that has hypotheses is followed by a theorem
  with the suffix \<open>witness\<close> that applies it to a concrete run or input.

  What the granularity means. A lock section is one step; fields that the source reads without a lock are read in the step that
  acts on them, so an interleaving between such a read and its use is not distinguished where the flag only ever goes one way. Where
  sections of one function can be separated by other tasks, the sections are also events of their own (terminal flags, closed
  admission, the request of a cleanup), so the runs include those interleavings. Time is a number given by the
  event; a timeout may fire whenever the code waits under one.

  Not modelled, and why. Loading of libraries and scans of directories (the rest of \<open>module/host.rs\<close>, \<open>loader.rs\<close>):
  dynamic loading and file system walks. The acquisition of releases
  (\<open>module/github.rs\<close>, \<open>resolve.rs\<close>, \<open>cache.rs\<close> and helpers): network and file system. The C entry points of the
  SDK crate, the interface macro, the command line, Windows access control, and the typed wrappers over the core (events, ports, the
  global bus): platform code, generated code and plumbing. Within modelled files: socket set-up, logging, task spawning,
  \<open>call_with_stream\<close>, which runs a call and a transfer at once, and white space outside ASCII in the text operations.
\<close>

end
